(* ===== verification/Prelude.thy ===== *)
theory Prelude
  imports Main "HOL-Library.Word" "HOL-Library.Monad_Syntax"
begin

text \<open>
  Shared vocabulary of the MeshRMM development: machine integers, Rust results, big-endian byte
  strings, slices cut into chunks, saturating arithmetic, and the interfaces the components
  share: a codec (what is decoded is what was encoded), a step system (an invariant kept by every
  step is kept by every run) and a simulation (every run of a system is a run of its specification).

  Conventions. A fixed-width integer of the source is a \<open>word\<close> of that width (release builds wrap);
  \<open>usize\<close> values that count elements of a vector are \<open>nat\<close>, and saturating operations on them
  saturate at \<open>2 ^ 64 - 1\<close>. A \<open>Result\<close> is a sum, \<open>Inr\<close> the value and \<open>Inl\<close> the error. A Rust
  operation that can panic returns an \<open>option\<close> whose \<open>None\<close> is the panic. A \<open>Duration\<close> or
  \<open>Instant\<close> is a \<open>nat\<close> of nanoseconds.
\<close>

type_synonym byte = "8 word"
type_synonym u8 = "8 word"
type_synonym u16 = "16 word"
type_synonym u32 = "32 word"
type_synonym u64 = "64 word"
type_synonym bytes = "byte list"
type_synonym nanos = nat

abbreviation Ok :: "'a \<Rightarrow> 'e + 'a" where "Ok \<equiv> Inr"

abbreviation Err :: "'e \<Rightarrow> 'e + 'a" where "Err \<equiv> Inl"

text \<open>The \<open>?\<close> operator, and a check that returns early.\<close>

definition and_then :: "'e + 'a \<Rightarrow> ('a \<Rightarrow> 'e + 'b) \<Rightarrow> 'e + 'b" where
  "and_then r f = (case r of Inl e \<Rightarrow> Err e | Inr v \<Rightarrow> f v)"

definition ensure :: "bool \<Rightarrow> 'e \<Rightarrow> 'e + unit" where
  "ensure c e = (if c then Ok () else Err e)"

lemma and_then_Ok [simp]: "and_then (Ok v) f = f v"
  by (simp add: and_then_def)

lemma and_then_Err [simp]: "and_then (Err e) f = Err e"
  by (simp add: and_then_def)

lemma and_then_ok_iff: "and_then r f = Ok y \<longleftrightarrow> (\<exists>v. r = Ok v \<and> f v = Ok y)"
  by (cases r) auto

lemma ensure_ok_iff [simp]: "ensure c e = Ok u \<longleftrightarrow> c"
  by (simp add: ensure_def)

lemma ensure_True [simp]: "ensure True e = Ok ()"
  by (simp add: ensure_def)

lemma ensure_False [simp]: "ensure False e = Err e"
  by (simp add: ensure_def)

named_theorems panic_free \<open>facts that an operation does not panic\<close>

section \<open>Integer operations of the standard library\<close>

definition usize_max :: nat where
  "usize_max = 2 ^ 64 - 1"

definition usize_sat_add :: "nat \<Rightarrow> nat \<Rightarrow> nat" where
  "usize_sat_add a b = min (a + b) usize_max"

definition sat_sub :: "'a::len word \<Rightarrow> 'a word \<Rightarrow> 'a word" where
  "sat_sub a b = (if a < b then 0 else a - b)"

definition sat_add :: "'a::len word \<Rightarrow> 'a word \<Rightarrow> 'a word" where
  "sat_add a b = (if unat a + unat b < 2 ^ LENGTH('a) then a + b else - 1)"

definition sat_mul :: "'a::len word \<Rightarrow> 'a word \<Rightarrow> 'a word" where
  "sat_mul a b = (if unat a * unat b < 2 ^ LENGTH('a) then a * b else - 1)"

definition checked_add :: "'a::len word \<Rightarrow> 'a word \<Rightarrow> 'a word option" where
  "checked_add a b = (if unat a + unat b < 2 ^ LENGTH('a) then Some (a + b) else None)"

definition div_ceil :: "nat \<Rightarrow> nat \<Rightarrow> nat" where
  "div_ceil a b = (if a mod b = 0 then a div b else a div b + 1)"

lemma unat_sat_sub: "unat (sat_sub a b) = unat a - unat b"
  by (simp add: sat_sub_def word_less_nat_alt unat_sub word_le_nat_alt)

lemma unat_minus_one_max: "unat (- 1 :: 'a::len word) = 2 ^ LENGTH('a) - 1"
  by (simp add: unsigned_minus_1_eq_mask mask_eq_exp_minus_1)

lemma unat_sat_add: "unat (sat_add a b) = min (unat a + unat b) (2 ^ LENGTH('a) - 1)"
  for a b :: "'a::len word"
  by (auto simp: sat_add_def unat_minus_one_max unat_word_ariths)

lemma unat_sat_mul: "unat (sat_mul a b) = min (unat a * unat b) (2 ^ LENGTH('a) - 1)"
  for a b :: "'a::len word"
  by (auto simp: sat_mul_def unat_minus_one_max unat_word_ariths)

lemma checked_add_Some:
  "checked_add a b = Some c \<Longrightarrow> unat c = unat a + unat b"
  by (auto simp: checked_add_def unat_word_ariths split: if_splits)

lemma checked_add_eq_Some_iff:
  fixes a b c :: "'a::len word"
  shows "checked_add a b = Some c \<longleftrightarrow> unat a + unat b < 2 ^ LENGTH('a) \<and> c = a + b"
  by (auto simp: checked_add_def)

lemma unat_lt_pow: "unat (w :: 'a::len word) < 2 ^ LENGTH('a)"
  by (rule unsigned_less)

section \<open>Big-endian byte strings\<close>

text \<open>\<open>to_be_bytes\<close> and \<open>from_be_bytes\<close> of the unsigned integer types.\<close>

fun be_bytes :: "nat \<Rightarrow> nat \<Rightarrow> bytes" where
  "be_bytes 0 x = []"
| "be_bytes (Suc n) x = be_bytes n (x div 256) @ [word_of_nat x]"

definition be_nat :: "bytes \<Rightarrow> nat" where
  "be_nat bs = foldl (\<lambda>a b. a * 256 + unat b) 0 bs"

lemma length_be_bytes [simp]: "length (be_bytes n x) = n"
  by (induction n arbitrary: x) auto

lemma be_nat_Nil [simp]: "be_nat [] = 0"
  by (simp add: be_nat_def)

lemma be_nat_snoc [simp]: "be_nat (bs @ [b]) = be_nat bs * 256 + unat b"
  by (simp add: be_nat_def)

lemma be_nat_be_bytes: "be_nat (be_bytes n x) = x mod 256 ^ n"
proof (induction n arbitrary: x)
  case (Suc n)
  have "be_nat (be_bytes (Suc n) x) = (x div 256) mod 256 ^ n * 256 + x mod 256"
    using Suc.IH by (simp add: unat_of_nat)
  also have "\<dots> = x mod (256 * 256 ^ n)"
    by (simp add: mod_mult2_eq)
  finally show ?case by simp
qed simp

lemma be_nat_less: "be_nat bs < 256 ^ length bs"
proof (induction bs rule: rev_induct)
  case (snoc b bs)
  have "unat b < 256" using unat_lt_pow [of b] by simp
  moreover have "be_nat bs * 256 + 256 \<le> 256 ^ length bs * 256"
    using snoc by (metis Suc_leI add.commute mult_Suc mult_le_mono1)
  ultimately show ?case by simp
qed simp

lemma be_bytes_be_nat: "be_bytes (length bs) (be_nat bs) = bs"
proof (induction bs rule: rev_induct)
  case (snoc b bs)
  have "unat b < 256" using unat_lt_pow [of b] by simp
  moreover have "word_of_nat (be_nat bs * 256 + unat b) = b"
    unfolding word_unat_eq_iff unat_of_nat using \<open>unat b < 256\<close> by simp
  ultimately show ?case using snoc by simp
qed simp

text \<open>Reading \<open>n\<close> bytes at an offset; a slice index past the end panics.\<close>

definition read_be :: "nat \<Rightarrow> bytes \<Rightarrow> nat \<Rightarrow> nat option" where
  "read_be n bs off = (if off + n \<le> length bs then Some (be_nat (take n (drop off bs))) else None)"

definition index_byte :: "bytes \<Rightarrow> nat \<Rightarrow> byte option" where
  "index_byte bs i = (if i < length bs then Some (bs ! i) else None)"

lemma read_be_at:
  "read_be n (pre @ be_bytes n x @ post) (length pre) = Some (x mod 256 ^ n)"
  by (simp add: read_be_def be_nat_be_bytes)

lemma read_be_in_range [panic_free]: "off + n \<le> length bs \<Longrightarrow> read_be n bs off \<noteq> None"
  by (simp add: read_be_def)

lemma index_byte_in_range [panic_free]: "i < length bs \<Longrightarrow> index_byte bs i \<noteq> None"
  by (simp add: index_byte_def)

section \<open>Slices cut into chunks\<close>

text \<open>\<open>slice::chunks(n)\<close>: pieces of \<open>n\<close> elements, the last one shorter. A zero size panics in Rust;
  the callers check it, and here it gives one piece so that the recursion ends.\<close>

function chunks :: "nat \<Rightarrow> 'a list \<Rightarrow> 'a list list" where
  "chunks n xs = (if xs = [] then [] else if n = 0 then [xs] else take n xs # chunks n (drop n xs))"
  by pat_completeness auto
termination
  by (relation "measure (\<lambda>(n, xs). length xs)") auto

declare chunks.simps [simp del]

lemma chunks_Nil [simp]: "chunks n [] = []"
  by (simp add: chunks.simps)

lemma chunks_step: "xs \<noteq> [] \<Longrightarrow> 0 < n \<Longrightarrow> chunks n xs = take n xs # chunks n (drop n xs)"
  by (simp add: chunks.simps)

lemma concat_chunks [simp]: "concat (chunks n xs) = xs"
proof (induction n xs rule: chunks.induct)
  case (1 n xs)
  then show ?case by (cases "xs = [] \<or> n = 0") (auto simp: chunks.simps [of n xs])
qed

lemma length_chunks: "0 < n \<Longrightarrow> length (chunks n xs) = div_ceil (length xs) n"
proof (induction n xs rule: chunks.induct)
  case (1 n xs)
  show ?case
  proof (cases "xs = []")
    case False
    have "length (chunks n xs) = Suc (div_ceil (length (drop n xs)) n)"
      using 1 False by (simp add: chunks_step)
    also have "\<dots> = div_ceil (length xs) n"
    proof (cases "n \<le> length xs")
      case True
      then show ?thesis using 1 by (simp add: div_ceil_def le_div_geq le_mod_geq)
    next
      case less: False
      then show ?thesis using False by (simp add: div_ceil_def)
    qed
    finally show ?thesis .
  qed (simp add: div_ceil_def)
qed

lemma chunks_member: "c \<in> set (chunks n xs) \<Longrightarrow> 0 < n \<Longrightarrow> c \<noteq> [] \<and> length c \<le> n"
proof (induction n xs rule: chunks.induct)
  case (1 n xs)
  then show ?case by (cases "xs = []") (auto simp: chunks_step)
qed

lemma chunks_nonempty: "xs \<noteq> [] \<Longrightarrow> chunks n xs \<noteq> []"
  by (simp add: chunks.simps)

lemma less_div_ceil_iff: "0 < n \<Longrightarrow> k < div_ceil m n \<longleftrightarrow> k * n < m"
proof (cases "m mod n = 0")
  case True
  moreover assume "0 < n"
  ultimately obtain q where "m = q * n" by (metis mod_0_imp_dvd dvd_def mult.commute)
  then show ?thesis using \<open>0 < n\<close> by (simp add: div_ceil_def)
next
  case False
  assume n: "0 < n"
  have m: "m = m div n * n + m mod n" "m mod n < n" using n by simp_all
  have "k \<le> m div n \<longleftrightarrow> k * n \<le> m div n * n" using n by simp
  also have "\<dots> \<longleftrightarrow> k * n < m"
  proof
    assume "k * n \<le> m div n * n"
    then show "k * n < m" using m(1) False by linarith
  next
    assume "k * n < m"
    then have "k \<le> m div n" by (metis div_le_mono less_imp_le n nonzero_mult_div_cancel_right not_gr_zero)
    then show "k * n \<le> m div n * n" by simp
  qed
  finally show ?thesis using False by (simp add: div_ceil_def less_Suc_eq_le)
qed

lemma chunks_nth:
  "0 < n \<Longrightarrow> k < length (chunks n xs) \<Longrightarrow> chunks n xs ! k = take n (drop (k * n) xs)"
proof (induction n xs arbitrary: k rule: chunks.induct)
  case (1 n xs)
  have ne: "xs \<noteq> []" using 1 by auto
  show ?case
  proof (cases k)
    case (Suc j)
    then have "j < length (chunks n (drop n xs))" using 1 ne by (simp add: chunks_step)
    then show ?thesis using 1 Suc ne by (simp add: chunks_step add.commute)
  qed (use 1 ne in \<open>simp add: chunks_step\<close>)
qed

lemma chunks_last_iff:
  "0 < n \<Longrightarrow> k < length (chunks n xs) \<Longrightarrow> Suc k = length (chunks n xs) \<longleftrightarrow> length xs \<le> Suc k * n"
  using less_div_ceil_iff [of n k "length xs"] less_div_ceil_iff [of n "Suc k" "length xs"]
  by (simp add: length_chunks) linarith

section \<open>Ordered maps\<close>

text \<open>A \<open>BTreeMap\<close> as the list of its entries in key order.\<close>

fun btree_insert :: "'k::linorder \<Rightarrow> 'v \<Rightarrow> ('k \<times> 'v) list \<Rightarrow> ('k \<times> 'v) list" where
  "btree_insert k v [] = [(k, v)]"
| "btree_insert k v ((k', v') # ob) =
     (if k = k' then (k, v) # ob else if k < k' then (k, v) # (k', v') # ob else (k', v') # btree_insert k v ob)"

lemma map_of_btree_insert [simp]: "map_of (btree_insert k v ob) = (map_of ob)(k \<mapsto> v)"
  by (induction k v ob rule: btree_insert.induct) auto

lemma set_btree_insert: "set (btree_insert k v ob) \<subseteq> insert (k, v) (set ob)"
  by (induction k v ob rule: btree_insert.induct) auto

lemma fst_btree_insert: "fst ` set (btree_insert k v ob) = insert k (fst ` set ob)"
  by (induction k v ob rule: btree_insert.induct) auto

lemma btree_insert_nonempty [simp]: "btree_insert k v ob \<noteq> []"
  by (induction k v ob rule: btree_insert.induct) auto

lemma sorted_btree_insert: "sorted_wrt (<) (map fst ob) \<Longrightarrow> sorted_wrt (<) (map fst (btree_insert k v ob))"
proof (induction k v ob rule: btree_insert.induct)
  case (2 k v k' v' ob)
  have keys: "set (map fst (btree_insert k v ob)) = insert k (set (map fst ob))"
    using fst_btree_insert [of k v ob] by simp
  consider "k = k'" | "k < k'" | "k' < k" by (meson not_less_iff_gr_or_eq)
  then show ?case
  proof cases
    case 2
    then show ?thesis using \<open>sorted_wrt (<) (map fst ((k', v') # ob))\<close> by (auto dest: order.strict_trans)
  next
    case 3
    then have "\<not> k < k'" "k \<noteq> k'" by auto
    then show ?thesis
      using "2.IH" \<open>sorted_wrt (<) (map fst ((k', v') # ob))\<close> keys 3 by (simp del: set_map)
  qed (use 2 in auto)
qed simp

section \<open>Interfaces\<close>

text \<open>A codec: every admissible value decodes from its encoding. Decoding may fail with an error.\<close>

locale codec =
  fixes enc :: "'a \<Rightarrow> 'b"
    and dec :: "'b \<Rightarrow> 'a option"
    and valid :: "'a \<Rightarrow> bool"
  assumes dec_enc: "valid a \<Longrightarrow> dec (enc a) = Some a"
begin

lemma enc_inj: "valid a \<Longrightarrow> valid b \<Longrightarrow> enc a = enc b \<Longrightarrow> a = b"
  by (metis dec_enc option.inject)

lemma inj_on_enc: "inj_on enc {a. valid a}"
  by (rule inj_onI, rule enc_inj) simp_all

lemma distinct_map_enc: "\<forall>a \<in> set xs. valid a \<Longrightarrow> distinct xs \<Longrightarrow> distinct (map enc xs)"
  by (simp add: distinct_map inj_on_def) (metis enc_inj)

lemma dec_enc_list: "\<forall>a \<in> set xs. valid a \<Longrightarrow> map dec (map enc xs) = map Some xs"
  by (auto simp: dec_enc)

end

text \<open>
  A step system: a component's state, one operation per event with what it returns, and an
  invariant. \<open>run\<close> folds the steps and collects the outputs.
\<close>

fun run :: "('s \<Rightarrow> 'i \<Rightarrow> 's \<times> 'o) \<Rightarrow> 's \<Rightarrow> 'i list \<Rightarrow> 's \<times> 'o list" where
  "run step s [] = (s, [])"
| "run step s (i # is) =
     (let r = step s i; q = run step (fst r) is in (fst q, snd r # snd q))"

lemma run_append:
  "run step s (xs @ ys) =
     (let r = run step s xs; q = run step (fst r) ys in (fst q, snd r @ snd q))"
  by (induction xs arbitrary: s) (auto simp: Let_def)

lemma length_run: "length (snd (run step s is)) = length is"
  by (induction "is" arbitrary: s) (auto simp: Let_def)

locale step_system =
  fixes step :: "'s \<Rightarrow> 'i \<Rightarrow> 's \<times> 'o"
    and inv :: "'s \<Rightarrow> bool"
    and legal :: "'s \<Rightarrow> 'i \<Rightarrow> bool"
  assumes step_inv: "inv s \<Longrightarrow> legal s i \<Longrightarrow> inv (fst (step s i))"
begin

fun legal_run :: "'s \<Rightarrow> 'i list \<Rightarrow> bool" where
  "legal_run s [] = True"
| "legal_run s (i # is) = (legal s i \<and> legal_run (fst (step s i)) is)"

lemma run_inv: "inv s \<Longrightarrow> legal_run s is \<Longrightarrow> inv (fst (run step s is))"
  by (induction "is" arbitrary: s) (auto simp: Let_def dest: step_inv)

lemma legal_run_append:
  "legal_run s (xs @ ys) = (legal_run s xs \<and> legal_run (fst (run step s xs)) ys)"
  by (induction xs arbitrary: s) (auto simp: Let_def)

end

text \<open>
  A simulation: related states answer every legal event with the same output and stay related, so a
  run of the concrete component answers as the abstract one does.
\<close>

locale simulation =
  fixes cstep :: "'c \<Rightarrow> 'i \<Rightarrow> 'c \<times> 'o"
    and astep :: "'a \<Rightarrow> 'i \<Rightarrow> 'a \<times> 'o"
    and rel :: "'c \<Rightarrow> 'a \<Rightarrow> bool"
    and legal :: "'i \<Rightarrow> bool"
  assumes sim_state: "rel c a \<Longrightarrow> legal i \<Longrightarrow> rel (fst (cstep c i)) (fst (astep a i))"
    and sim_output: "rel c a \<Longrightarrow> legal i \<Longrightarrow> snd (cstep c i) = snd (astep a i)"
begin

lemma run_rel: "rel c a \<Longrightarrow> list_all legal is \<Longrightarrow> rel (fst (run cstep c is)) (fst (run astep a is))"
  by (induction "is" arbitrary: c a) (auto simp: Let_def sim_state)

lemma run_output: "rel c a \<Longrightarrow> list_all legal is \<Longrightarrow> snd (run cstep c is) = snd (run astep a is)"
  by (induction "is" arbitrary: c a) (auto simp: Let_def sim_state sim_output)

end

end
