(* ===== verification/Ids.thy ===== *)
theory Ids
  imports Prelude
begin

text \<open>
  The identifiers the Agent, viewer and server share (\<open>crates/protocol-types/src/ids.rs\<close>) and the
  platform an Agent runs on (\<open>crates/protocol-types/src/platform.rs\<close>).
\<close>

datatype remote_session_id = RemoteSessionId string

datatype video_stream_id = VideoStreamId u32

datatype display_id = DisplayId u32

definition BACKGROUND_DISPLAY_ID :: display_id where
  "BACKGROUND_DISPLAY_ID = DisplayId (- 1 - 2)"

definition ALL_DISPLAYS_ID :: display_id where
  "ALL_DISPLAYS_ID = DisplayId (- 1 - 1)"

datatype device_platform = Windows | Macos | Linux

definition platform_as_str :: "device_platform \<Rightarrow> string" where
  "platform_as_str p = (case p of Windows \<Rightarrow> ''windows'' | Macos \<Rightarrow> ''macos'' | Linux \<Rightarrow> ''linux'')"

definition platform_parse :: "string \<Rightarrow> device_platform option" where
  "platform_parse value =
     (if value = ''windows'' then Some Windows
      else if value = ''macos'' then Some Macos
      else if value = ''linux'' then Some Linux
      else None)"

interpretation platform_names: codec platform_as_str platform_parse "\<lambda>_. True"
proof unfold_locales
  fix p :: device_platform
  show "platform_parse (platform_as_str p) = Some p"
    by (cases p) (simp_all add: platform_as_str_def platform_parse_def)
qed

end
