(* ===== verification/Video.thy ===== *)
theory Video
  imports Ids "HOL-Library.Multiset"
begin

unbundle bit_operations_syntax

text \<open>
  The video channel of a session (\<open>agent/protocol/src/video.rs\<close>): the fixed 56-byte packet header and
  its decoder, the cutting of an encoded frame into packets, and the viewer's reassembler, which
  keeps only the newest frame. Lemmas: the packet codec round-trips and never reads out of range,
  fragments carry the frame, and the reassembler keeps its invariant, completes a frame from its
  fragments in any order, and completes frames in strictly increasing order.
\<close>

section \<open>Packets\<close>

definition MAGIC :: u32 where
  "MAGIC = word_of_nat (be_nat [0x50, 0x52, 0x56, 0x46])"

definition VERSION :: u8 where
  "VERSION = 1"

definition KEYFRAME_FLAG :: u8 where
  "KEYFRAME_FLAG = 1"

definition VIDEO_PACKET_HEADER_LEN :: nat where
  "VIDEO_PACKET_HEADER_LEN = 56"

definition DEFAULT_FRAGMENT_PAYLOAD :: nat where
  "DEFAULT_FRAGMENT_PAYLOAD = 12 * 1024"

definition DEFAULT_MAX_FRAME_BYTES :: nat where
  "DEFAULT_MAX_FRAME_BYTES = 8 * 1024 * 1024"

definition DEFAULT_MAX_PACKETS :: u16 where
  "DEFAULT_MAX_PACKETS = 1024"

record encoded_frame =
  ef_stream_id :: video_stream_id
  ef_frame_id :: u64
  ef_capture_timestamp_us :: u64
  ef_encode_complete_timestamp_us :: u64
  ef_send_timestamp_us :: u64
  ef_keyframe :: bool
  ef_data :: bytes

record video_packet =
  vp_stream_id :: video_stream_id
  vp_frame_id :: u64
  vp_capture_timestamp_us :: u64
  vp_encode_complete_timestamp_us :: u64
  vp_send_timestamp_us :: u64
  vp_keyframe :: bool
  vp_packet_index :: u16
  vp_packet_count :: u16
  vp_payload :: bytes

datatype video_packet_error =
    Truncated
  | InvalidMagic
  | UnsupportedVersion u8
  | InvalidHeaderLength nat
  | InvalidPacketIndex u16 u16
  | PayloadLengthMismatch
  | EmptyFrame
  | TooManyFragments nat
  | InvalidFragmentSize

definition validate_index :: "u16 \<Rightarrow> u16 \<Rightarrow> video_packet_error + unit" where
  "validate_index index cnt =
     (if cnt = 0 \<or> cnt \<le> index then Err (InvalidPacketIndex index cnt) else Ok ())"

definition read_u16 :: "bytes \<Rightarrow> nat \<Rightarrow> u16 option" where
  "read_u16 bs offset = map_option word_of_nat (read_be 2 bs offset)"

definition read_u32 :: "bytes \<Rightarrow> nat \<Rightarrow> u32 option" where
  "read_u32 bs offset = map_option word_of_nat (read_be 4 bs offset)"

definition read_u64 :: "bytes \<Rightarrow> nat \<Rightarrow> u64 option" where
  "read_u64 bs offset = map_option word_of_nat (read_be 8 bs offset)"

primrec stream_number :: "video_stream_id \<Rightarrow> u32" where
  "stream_number (VideoStreamId n) = n"

definition VideoPacket_encode :: "video_packet \<Rightarrow> video_packet_error + bytes" where
  "VideoPacket_encode p =
     (case validate_index (vp_packet_index p) (vp_packet_count p) of
        Inl e \<Rightarrow> Err e
      | Inr _ \<Rightarrow>
          if 2 ^ 16 \<le> length (vp_payload p) then Err PayloadLengthMismatch
          else
            Ok (be_bytes 4 (unat MAGIC)
              @ [VERSION]
              @ [(if vp_keyframe p then 1 else 0) * KEYFRAME_FLAG]
              @ be_bytes 2 VIDEO_PACKET_HEADER_LEN
              @ be_bytes 4 (unat (stream_number (vp_stream_id p)))
              @ be_bytes 4 0
              @ be_bytes 8 (unat (vp_frame_id p))
              @ be_bytes 8 (unat (vp_capture_timestamp_us p))
              @ be_bytes 8 (unat (vp_encode_complete_timestamp_us p))
              @ be_bytes 8 (unat (vp_send_timestamp_us p))
              @ be_bytes 2 (unat (vp_packet_index p))
              @ be_bytes 2 (unat (vp_packet_count p))
              @ be_bytes 2 (length (vp_payload p))
              @ be_bytes 2 0
              @ vp_payload p))"

text \<open>
  The decoder's outer \<open>option\<close> is the panic of an index past the end of the slice; the inner sum is
  the \<open>Result\<close>.
\<close>

definition VideoPacket_decode :: "bytes \<Rightarrow> (video_packet_error + video_packet) option" where
  "VideoPacket_decode bs =
     (if length bs < VIDEO_PACKET_HEADER_LEN then Some (Err Truncated)
      else do {
        magic \<leftarrow> read_u32 bs 0;
        if magic \<noteq> MAGIC then Some (Err InvalidMagic)
        else do {
          version \<leftarrow> index_byte bs 4;
          if version \<noteq> VERSION then Some (Err (UnsupportedVersion version))
          else do {
            header_len \<leftarrow> map_option unat (read_u16 bs 6);
            if header_len \<noteq> VIDEO_PACKET_HEADER_LEN then Some (Err (InvalidHeaderLength header_len))
            else do {
              packet_index \<leftarrow> read_u16 bs 48;
              packet_count \<leftarrow> read_u16 bs 50;
              (case validate_index packet_index packet_count of
                 Inl e \<Rightarrow> Some (Err e)
               | Inr _ \<Rightarrow> do {
                   payload_len \<leftarrow> map_option unat (read_u16 bs 52);
                   if length bs \<noteq> header_len + payload_len then Some (Err PayloadLengthMismatch)
                   else do {
                     stream_id \<leftarrow> read_u32 bs 8;
                     frame_id \<leftarrow> read_u64 bs 16;
                     capture \<leftarrow> read_u64 bs 24;
                     encode_complete \<leftarrow> read_u64 bs 32;
                     send \<leftarrow> read_u64 bs 40;
                     flags \<leftarrow> index_byte bs 5;
                     Some (Ok \<lparr>
                       vp_stream_id = VideoStreamId stream_id,
                       vp_frame_id = frame_id,
                       vp_capture_timestamp_us = capture,
                       vp_encode_complete_timestamp_us = encode_complete,
                       vp_send_timestamp_us = send,
                       vp_keyframe = (flags AND KEYFRAME_FLAG \<noteq> 0),
                       vp_packet_index = packet_index,
                       vp_packet_count = packet_count,
                       vp_payload = drop header_len bs\<rparr>)
                   }
                 })
            }
          }
        }
      })"

definition packet_of :: "encoded_frame \<Rightarrow> u16 \<Rightarrow> nat \<Rightarrow> bytes \<Rightarrow> video_packet" where
  "packet_of frame packet_count index payload = \<lparr>
     vp_stream_id = ef_stream_id frame,
     vp_frame_id = ef_frame_id frame,
     vp_capture_timestamp_us = ef_capture_timestamp_us frame,
     vp_encode_complete_timestamp_us = ef_encode_complete_timestamp_us frame,
     vp_send_timestamp_us = ef_send_timestamp_us frame,
     vp_keyframe = ef_keyframe frame,
     vp_packet_index = word_of_nat index,
     vp_packet_count = packet_count,
     vp_payload = payload\<rparr>"

definition fragment_frame :: "encoded_frame \<Rightarrow> nat \<Rightarrow> video_packet_error + video_packet list" where
  "fragment_frame frame max_payload =
     (if max_payload = 0 then Err InvalidFragmentSize
      else if ef_data frame = [] then Err EmptyFrame
      else
        let cnt = div_ceil (length (ef_data frame)) max_payload in
        if 2 ^ 16 \<le> cnt then Err (TooManyFragments cnt)
        else
          let packet_count = word_of_nat cnt in
          Ok (map (\<lambda>(index, payload). packet_of frame packet_count index payload)
                (List.enumerate 0 (chunks max_payload (ef_data frame)))))"

section \<open>The reassembler\<close>

record reassembly_config =
  stale_after :: nanos
  max_frame_bytes :: nat
  max_packets :: u16

definition ReassemblyConfig_default :: reassembly_config where
  "ReassemblyConfig_default = \<lparr>
     stale_after = 250 * 10 ^ 6,
     max_frame_bytes = DEFAULT_MAX_FRAME_BYTES,
     max_packets = DEFAULT_MAX_PACKETS\<rparr>"

record reassembly_stats =
  completed_frames :: u64
  incomplete_frames_dropped :: u64
  stale_packets_dropped :: u64
  duplicate_packets :: u64
  invalid_packets :: u64

definition ReassemblyStats_default :: reassembly_stats where
  "ReassemblyStats_default = \<lparr>
     completed_frames = 0,
     incomplete_frames_dropped = 0,
     stale_packets_dropped = 0,
     duplicate_packets = 0,
     invalid_packets = 0\<rparr>"

datatype reassembly_outcome =
    Accepted
  | Duplicate
  | DroppedStale
  | DroppedInvalid
  | Completed encoded_frame

record pending_frame =
  pf_stream_id :: video_stream_id
  pf_frame_id :: u64
  pf_capture_timestamp_us :: u64
  pf_encode_complete_timestamp_us :: u64
  pf_send_timestamp_us :: u64
  pf_keyframe :: bool
  pf_first_packet_at_us :: u64
  pf_total_bytes :: nat
  pf_received :: nat
  pf_fragments :: "bytes option list"

record frame_reassembler =
  fr_config :: reassembly_config
  fr_pending :: "pending_frame option"
  fr_newest_frame_id :: "u64 option"
  fr_stats :: reassembly_stats

definition FrameReassembler_new :: "reassembly_config \<Rightarrow> frame_reassembler" where
  "FrameReassembler_new config = \<lparr>
     fr_config = config,
     fr_pending = None,
     fr_newest_frame_id = None,
     fr_stats = ReassemblyStats_default\<rparr>"

definition stale_after_us :: "reassembly_config \<Rightarrow> u64" where
  "stale_after_us c = word_of_nat (stale_after c div 1000)"

definition expired :: "frame_reassembler \<Rightarrow> u64 \<Rightarrow> bool" where
  "expired r now_us =
     (case fr_pending r of
        None \<Rightarrow> False
      | Some pf \<Rightarrow> stale_after_us (fr_config r) \<le> sat_sub now_us (pf_first_packet_at_us pf))"

definition count_incomplete :: "frame_reassembler \<Rightarrow> frame_reassembler" where
  "count_incomplete r = r\<lparr>fr_stats := (fr_stats r)\<lparr>
     incomplete_frames_dropped := incomplete_frames_dropped (fr_stats r) + 1\<rparr>\<rparr>"

definition count_stale :: "frame_reassembler \<Rightarrow> frame_reassembler" where
  "count_stale r = r\<lparr>fr_stats := (fr_stats r)\<lparr>
     stale_packets_dropped := stale_packets_dropped (fr_stats r) + 1\<rparr>\<rparr>"

definition count_invalid :: "frame_reassembler \<Rightarrow> frame_reassembler" where
  "count_invalid r = r\<lparr>fr_stats := (fr_stats r)\<lparr>
     invalid_packets := invalid_packets (fr_stats r) + 1\<rparr>\<rparr>"

definition count_duplicate :: "frame_reassembler \<Rightarrow> frame_reassembler" where
  "count_duplicate r = r\<lparr>fr_stats := (fr_stats r)\<lparr>
     duplicate_packets := duplicate_packets (fr_stats r) + 1\<rparr>\<rparr>"

definition count_completed :: "frame_reassembler \<Rightarrow> frame_reassembler" where
  "count_completed r = r\<lparr>fr_stats := (fr_stats r)\<lparr>
     completed_frames := completed_frames (fr_stats r) + 1\<rparr>\<rparr>"

definition expire_stale :: "frame_reassembler \<Rightarrow> u64 \<Rightarrow> frame_reassembler \<times> bool" where
  "expire_stale r now_us =
     (if expired r now_us then (count_incomplete (r\<lparr>fr_pending := None\<rparr>), True) else (r, False))"

definition packet_invalid :: "reassembly_config \<Rightarrow> video_packet \<Rightarrow> bool" where
  "packet_invalid c p \<longleftrightarrow>
     vp_packet_count p = 0
     \<or> max_packets c < vp_packet_count p
     \<or> vp_packet_count p \<le> vp_packet_index p
     \<or> max_frame_bytes c < length (vp_payload p)"

text \<open>A newer delta frame does not displace a keyframe that is still incomplete.\<close>

definition delta_behind_keyframe :: "frame_reassembler \<Rightarrow> video_packet \<Rightarrow> bool" where
  "delta_behind_keyframe r p =
     (case fr_pending r of
        None \<Rightarrow> False
      | Some pf \<Rightarrow> pf_keyframe pf \<and> \<not> vp_keyframe p \<and> pf_frame_id pf < vp_frame_id p)"

definition late_or_older :: "frame_reassembler \<Rightarrow> video_packet \<Rightarrow> bool" where
  "late_or_older r p =
     (case fr_newest_frame_id r of
        None \<Rightarrow> False
      | Some newest \<Rightarrow>
          (fr_pending r = None \<and> vp_frame_id p = newest) \<or> vp_frame_id p < newest)"

definition begin_pending :: "video_packet \<Rightarrow> u64 \<Rightarrow> pending_frame" where
  "begin_pending p received_at_us = \<lparr>
     pf_stream_id = vp_stream_id p,
     pf_frame_id = vp_frame_id p,
     pf_capture_timestamp_us = vp_capture_timestamp_us p,
     pf_encode_complete_timestamp_us = vp_encode_complete_timestamp_us p,
     pf_send_timestamp_us = vp_send_timestamp_us p,
     pf_keyframe = vp_keyframe p,
     pf_first_packet_at_us = received_at_us,
     pf_total_bytes = 0,
     pf_received = 0,
     pf_fragments = replicate (unat (vp_packet_count p)) None\<rparr>"

definition start_frame :: "frame_reassembler \<Rightarrow> video_packet \<Rightarrow> u64 \<Rightarrow> frame_reassembler" where
  "start_frame r p received_at_us =
     (case fr_pending r of
        Some pf \<Rightarrow>
          if pf_frame_id pf \<noteq> vp_frame_id p then
            (count_incomplete r)\<lparr>
              fr_newest_frame_id := Some (vp_frame_id p),
              fr_pending := Some (begin_pending p received_at_us)\<rparr>
          else r
      | None \<Rightarrow>
          r\<lparr>fr_newest_frame_id := Some (vp_frame_id p),
            fr_pending := Some (begin_pending p received_at_us)\<rparr>)"

definition pending_mismatch :: "reassembly_config \<Rightarrow> pending_frame \<Rightarrow> video_packet \<Rightarrow> bool" where
  "pending_mismatch c pf p \<longleftrightarrow>
     length (pf_fragments pf) \<noteq> unat (vp_packet_count p)
     \<or> pf_stream_id pf \<noteq> vp_stream_id p
     \<or> pf_capture_timestamp_us pf \<noteq> vp_capture_timestamp_us p
     \<or> pf_encode_complete_timestamp_us pf \<noteq> vp_encode_complete_timestamp_us p
     \<or> pf_keyframe pf \<noteq> vp_keyframe p
     \<or> max_frame_bytes c < usize_sat_add (pf_total_bytes pf) (length (vp_payload p))"

definition store_fragment :: "pending_frame \<Rightarrow> video_packet \<Rightarrow> pending_frame" where
  "store_fragment pf p = pf\<lparr>
     pf_total_bytes := pf_total_bytes pf + length (vp_payload p),
     pf_received := pf_received pf + 1,
     pf_fragments := (pf_fragments pf)[unat (vp_packet_index p) := Some (vp_payload p)]\<rparr>"

definition finish_frame :: "pending_frame \<Rightarrow> encoded_frame" where
  "finish_frame pf = \<lparr>
     ef_stream_id = pf_stream_id pf,
     ef_frame_id = pf_frame_id pf,
     ef_capture_timestamp_us = pf_capture_timestamp_us pf,
     ef_encode_complete_timestamp_us = pf_encode_complete_timestamp_us pf,
     ef_send_timestamp_us = pf_send_timestamp_us pf,
     ef_keyframe = pf_keyframe pf,
     ef_data = concat (map (\<lambda>fragment. case fragment of None \<Rightarrow> [] | Some d \<Rightarrow> d)
                         (pf_fragments pf))\<rparr>"

text \<open>
  The second half of \<open>push\<close>, from the lookup of the pending frame. The index into the fragment
  vector panics out of range.
\<close>

definition push_fragment ::
    "frame_reassembler \<Rightarrow> video_packet \<Rightarrow> (frame_reassembler \<times> reassembly_outcome) option" where
  "push_fragment r p =
     (case fr_pending r of
        None \<Rightarrow> Some (count_invalid r, DroppedInvalid)
      | Some pf \<Rightarrow>
          if pending_mismatch (fr_config r) pf p then
            Some (count_invalid (r\<lparr>fr_pending := None\<rparr>), DroppedInvalid)
          else if length (pf_fragments pf) \<le> unat (vp_packet_index p) then None
          else if pf_fragments pf ! unat (vp_packet_index p) \<noteq> None then
            Some (count_duplicate r, Duplicate)
          else
            let pf' = store_fragment pf p in
            if pf_received pf' \<noteq> length (pf_fragments pf') then
              Some (r\<lparr>fr_pending := Some pf'\<rparr>, Accepted)
            else
              Some (count_completed (r\<lparr>fr_pending := None\<rparr>), Completed (finish_frame pf')))"

definition push ::
    "frame_reassembler \<Rightarrow> video_packet \<Rightarrow> u64 \<Rightarrow> (frame_reassembler \<times> reassembly_outcome) option" where
  "push r p received_at_us =
     (if packet_invalid (fr_config r) p then Some (count_invalid r, DroppedInvalid)
      else
        let r = fst (expire_stale r received_at_us) in
        if delta_behind_keyframe r p \<or> late_or_older r p then Some (count_stale r, DroppedStale)
        else push_fragment (start_frame r p received_at_us) p)"

section \<open>The packet codec\<close>

lemma word_of_nat_unat_mod:
  "word_of_nat (unat (x :: u16) mod 256 ^ 2) = x"
  "word_of_nat (unat (y :: u32) mod 256 ^ 4) = y"
  "word_of_nat (unat (z :: u64) mod 256 ^ 8) = z"
  using unat_lt_pow [of x] unat_lt_pow [of y] unat_lt_pow [of z] by simp_all

lemma stream_number_inverse [simp]: "VideoStreamId (stream_number s) = s"
  by (cases s) simp

lemma validate_index_Ok_iff: "validate_index i c = Inr u \<longleftrightarrow> i < c"
  by (auto simp: validate_index_def not_le word_gt_0 intro: word_coorder.not_eq_extremum)

lemma encode_Ok_iff:
  "(\<exists>bs. VideoPacket_encode p = Inr bs) \<longleftrightarrow>
     vp_packet_index p < vp_packet_count p \<and> length (vp_payload p) < 2 ^ 16"
  by (auto simp: VideoPacket_encode_def validate_index_def not_le split: if_splits)

lemma length_encode:
  "VideoPacket_encode p = Inr bs \<Longrightarrow> length bs = VIDEO_PACKET_HEADER_LEN + length (vp_payload p)"
  by (auto simp: VideoPacket_encode_def VIDEO_PACKET_HEADER_LEN_def split: sum.splits if_splits)

lemma decode_encode:
  assumes "VideoPacket_encode p = Inr bs"
  shows "VideoPacket_decode bs = Some (Ok p)"
proof -
  have idx: "validate_index (vp_packet_index p) (vp_packet_count p) = Inr ()"
    and len: "length (vp_payload p) < 2 ^ 16"
    using assms by (auto simp: VideoPacket_encode_def split: sum.splits if_splits)
  have "unat (word_of_nat (length (vp_payload p)) :: u16) = length (vp_payload p)"
    using len by (simp add: unat_of_nat)
  moreover have "unat (word_of_nat (56 mod 256 ^ 2) :: u16) = 56" by simp
  ultimately show ?thesis
    using assms idx len word_of_nat_unat_mod
    by (auto simp: VideoPacket_encode_def VideoPacket_decode_def VIDEO_PACKET_HEADER_LEN_def
        read_u16_def read_u32_def read_u64_def read_be_def be_nat_be_bytes index_byte_def
        nth_append KEYFRAME_FLAG_def)
qed

lemma reads_in_range [panic_free]:
  "off + 2 \<le> length bs \<Longrightarrow> read_u16 bs off \<noteq> None"
  "off + 4 \<le> length bs \<Longrightarrow> read_u32 bs off \<noteq> None"
  "off + 8 \<le> length bs \<Longrightarrow> read_u64 bs off \<noteq> None"
  by (simp_all add: read_u16_def read_u32_def read_u64_def read_be_def)

lemma decode_no_panic: "VideoPacket_decode bs \<noteq> None"
proof (cases "length bs < VIDEO_PACKET_HEADER_LEN")
  case False
  then have long: "56 \<le> length bs" by (simp add: VIDEO_PACKET_HEADER_LEN_def)
  have "read_u16 bs 6 \<noteq> None" "read_u16 bs 48 \<noteq> None" "read_u16 bs 50 \<noteq> None"
    "read_u16 bs 52 \<noteq> None" "read_u32 bs 0 \<noteq> None" "read_u32 bs 8 \<noteq> None"
    "read_u64 bs 16 \<noteq> None" "read_u64 bs 24 \<noteq> None" "read_u64 bs 32 \<noteq> None"
    "read_u64 bs 40 \<noteq> None" "index_byte bs 4 \<noteq> None" "index_byte bs 5 \<noteq> None"
    using long by (simp_all add: panic_free)
  then show ?thesis
    by (auto simp: VideoPacket_decode_def validate_index_def)
qed (simp add: VideoPacket_decode_def)

lemma decode_Ok_shape:
  assumes "VideoPacket_decode bs = Some (Inr p)"
  shows "vp_packet_index p < vp_packet_count p"
    and "length bs = VIDEO_PACKET_HEADER_LEN + length (vp_payload p)"
    and "length (vp_payload p) < 2 ^ 16"
    and "vp_payload p = drop VIDEO_PACKET_HEADER_LEN bs"
  using assms unsigned_less [where ?'b = 16 and ?'a = nat]
  by (auto simp: VideoPacket_decode_def validate_index_def not_le bind_eq_Some_conv
      split: if_splits)

section \<open>Fragments of a frame\<close>

lemma enumerate_as_zip: "List.enumerate 0 xs = zip [0..<length xs] xs"
  by (simp add: enumerate_eq_zip)

lemma fragment_frame_Ok:
  assumes "fragment_frame f n = Inr ps"
  shows "0 < n" and "ef_data f \<noteq> []" and "div_ceil (length (ef_data f)) n < 2 ^ 16"
    and "length ps = div_ceil (length (ef_data f)) n"
    and "\<And>i. i < length ps \<Longrightarrow>
           ps ! i = packet_of f (word_of_nat (length ps)) i (chunks n (ef_data f) ! i)"
  using assms length_chunks [of n "ef_data f"]
  by (auto simp: fragment_frame_def Let_def not_le enumerate_as_zip split: if_splits)

lemma fragment_payloads:
  assumes "fragment_frame f n = Inr ps"
  shows "map vp_payload ps = chunks n (ef_data f)"
proof (rule nth_equalityI)
  note F = fragment_frame_Ok [OF assms]
  show "length (map vp_payload ps) = length (chunks n (ef_data f))"
    using F(1,4) by (simp add: length_chunks)
  fix i assume "i < length (map vp_payload ps)"
  then show "map vp_payload ps ! i = chunks n (ef_data f) ! i"
    using F(5) [of i] by (simp add: packet_of_def)
qed

lemma fragment_index:
  assumes "fragment_frame f n = Inr ps" and "i < length ps"
  shows "unat (vp_packet_index (ps ! i)) = i"
    and "unat (vp_packet_count (ps ! i)) = length ps"
    and "vp_packet_index (ps ! i) < vp_packet_count (ps ! i)"
proof -
  note F = fragment_frame_Ok [OF assms(1)]
  have "i < 2 ^ 16" and n: "length ps < 2 ^ 16" using F(3,4) assms(2) by simp_all
  then show 1: "unat (vp_packet_index (ps ! i)) = i"
    and 2: "unat (vp_packet_count (ps ! i)) = length ps"
    using F(5) [OF assms(2)] by (simp_all add: packet_of_def unat_of_nat)
  show "vp_packet_index (ps ! i) < vp_packet_count (ps ! i)"
    using 1 2 assms(2) by (simp add: word_less_nat_alt)
qed

lemma fragment_encodable:
  assumes "fragment_frame f n = Inr ps" and "n < 2 ^ 16" and "p \<in> set ps"
  shows "\<exists>bs. VideoPacket_encode p = Inr bs \<and> length bs \<le> VIDEO_PACKET_HEADER_LEN + n"
proof -
  from assms(3) obtain i where i: "i < length ps" "p = ps ! i" by (metis in_set_conv_nth)
  have "vp_payload p \<in> set (chunks n (ef_data f))"
    using fragment_payloads [OF assms(1)] assms(3) by (metis imageI list.set_map)
  then have "length (vp_payload p) \<le> n"
    using chunks_member fragment_frame_Ok(1) [OF assms(1)] by blast
  then show ?thesis
    using encode_Ok_iff [of p] fragment_index(3) [OF assms(1) i(1)] i(2) assms(2) length_encode
    by fastforce
qed

section \<open>The reassembler's invariant\<close>

definition stored_fragments :: "bytes option list \<Rightarrow> nat" where
  "stored_fragments fs = length (filter (\<lambda>x. x \<noteq> None) fs)"

definition stored_bytes :: "bytes option list \<Rightarrow> nat" where
  "stored_bytes fs = sum_list (map (\<lambda>x. case x of None \<Rightarrow> 0 | Some d \<Rightarrow> length d) fs)"

definition pending_counts_ok :: "reassembly_config \<Rightarrow> pending_frame \<Rightarrow> bool" where
  "pending_counts_ok c pf \<longleftrightarrow>
     pf_received pf = stored_fragments (pf_fragments pf)
     \<and> pf_total_bytes pf = stored_bytes (pf_fragments pf)
     \<and> pf_total_bytes pf \<le> max_frame_bytes c
     \<and> pf_received pf < length (pf_fragments pf)
     \<and> length (pf_fragments pf) \<le> unat (max_packets c)"

definition reassembler_ok :: "frame_reassembler \<Rightarrow> bool" where
  "reassembler_ok r \<longleftrightarrow>
     max_frame_bytes (fr_config r) < usize_max
     \<and> (case fr_pending r of
          None \<Rightarrow> True
        | Some pf \<Rightarrow> pending_counts_ok (fr_config r) pf
                   \<and> fr_newest_frame_id r = Some (pf_frame_id pf))"

lemmas count_defs =
  count_incomplete_def count_stale_def count_invalid_def count_duplicate_def count_completed_def

lemma reassembler_ok_count [simp]:
  "reassembler_ok (count_incomplete r) = reassembler_ok r"
  "reassembler_ok (count_stale r) = reassembler_ok r"
  "reassembler_ok (count_invalid r) = reassembler_ok r"
  "reassembler_ok (count_duplicate r) = reassembler_ok r"
  "reassembler_ok (count_completed r) = reassembler_ok r"
  by (simp_all add: reassembler_ok_def count_defs split: option.splits)

lemma stored_fragments_le: "stored_fragments fs \<le> length fs"
  by (simp add: stored_fragments_def)

lemma stored_fragments_update:
  "i < length fs \<Longrightarrow> fs ! i = None \<Longrightarrow> stored_fragments (fs[i := Some d]) = stored_fragments fs + 1"
  by (induction fs arbitrary: i) (auto simp: stored_fragments_def nth_Cons split: nat.splits)

lemma stored_bytes_update:
  "i < length fs \<Longrightarrow> fs ! i = None \<Longrightarrow> stored_bytes (fs[i := Some d]) = stored_bytes fs + length d"
  by (induction fs arbitrary: i) (auto simp: stored_bytes_def nth_Cons split: nat.splits)

lemma stored_replicate_None [simp]:
  "stored_fragments (replicate n None) = 0" "stored_bytes (replicate n None) = 0"
  by (simp_all add: stored_fragments_def stored_bytes_def)

lemma expire_stale_config [simp]: "fr_config (fst (expire_stale r t)) = fr_config r"
  by (simp add: expire_stale_def count_defs)

lemma start_frame_config [simp]: "fr_config (start_frame r p t) = fr_config r"
  by (simp add: start_frame_def count_defs split: option.splits)

lemma expire_stale_ok: "reassembler_ok r \<Longrightarrow> reassembler_ok (fst (expire_stale r t))"
  by (simp add: expire_stale_def) (simp add: reassembler_ok_def)

lemma start_frame_ok:
  assumes "reassembler_ok r" and "\<not> packet_invalid (fr_config r) p"
  shows "reassembler_ok (start_frame r p t)"
proof -
  have "0 < unat (vp_packet_count p)" "unat (vp_packet_count p) \<le> unat (max_packets (fr_config r))"
    using assms(2) by (auto simp: packet_invalid_def not_less word_le_nat_alt unat_gt_0)
  then show ?thesis
    using assms(1)
    by (auto simp: start_frame_def reassembler_ok_def pending_counts_ok_def begin_pending_def
        count_defs split: option.splits)
qed

lemma store_fragment_counts:
  assumes "pending_counts_ok c pf" and "max_frame_bytes c < usize_max"
    and "\<not> pending_mismatch c pf p"
    and "unat (vp_packet_index p) < length (pf_fragments pf)"
    and "pf_fragments pf ! unat (vp_packet_index p) = None"
  shows "pf_received (store_fragment pf p) = stored_fragments (pf_fragments (store_fragment pf p))"
    and "pf_total_bytes (store_fragment pf p) = stored_bytes (pf_fragments (store_fragment pf p))"
    and "pf_total_bytes (store_fragment pf p) \<le> max_frame_bytes c"
    and "pf_received (store_fragment pf p) \<le> length (pf_fragments (store_fragment pf p))"
    and "length (pf_fragments (store_fragment pf p)) \<le> unat (max_packets c)"
  using assms
  by (auto simp: pending_counts_ok_def store_fragment_def stored_fragments_update
      stored_bytes_update pending_mismatch_def usize_sat_add_def)

lemma push_fragment_ok:
  assumes "reassembler_ok r" and "push_fragment r p = Some (r', out)"
  shows "reassembler_ok r'"
proof (cases "fr_pending r")
  case None
  then show ?thesis using assms by (auto simp: push_fragment_def)
next
  case (Some pf)
  let ?pf = "store_fragment pf p"
  have c: "max_frame_bytes (fr_config r) < usize_max" "pending_counts_ok (fr_config r) pf"
    "fr_newest_frame_id r = Some (pf_frame_id pf)"
    using assms(1) Some by (simp_all add: reassembler_ok_def)
  have idle: "reassembler_ok (r\<lparr>fr_pending := None\<rparr>)"
    using c(1) by (simp add: reassembler_ok_def)
  consider "r' = count_invalid (r\<lparr>fr_pending := None\<rparr>)" | "r' = count_duplicate r"
    | "r' = count_completed (r\<lparr>fr_pending := None\<rparr>)"
    | "r' = r\<lparr>fr_pending := Some ?pf\<rparr>" "pf_received ?pf \<noteq> length (pf_fragments ?pf)"
      "\<not> pending_mismatch (fr_config r) pf p"
      "unat (vp_packet_index p) < length (pf_fragments pf)"
      "pf_fragments pf ! unat (vp_packet_index p) = None"
    using assms(2) Some by (auto simp: push_fragment_def Let_def not_le split: if_splits)
  then show ?thesis
  proof cases
    case 4
    have "pending_counts_ok (fr_config r) ?pf"
      using store_fragment_counts [OF c(2,1) 4(3-5)] 4(2)
      unfolding pending_counts_ok_def by linarith
    moreover have "pf_frame_id ?pf = pf_frame_id pf" by (simp add: store_fragment_def)
    ultimately show ?thesis using 4(1) c by (simp add: reassembler_ok_def)
  qed (simp_all add: idle assms(1))
qed

lemma push_ok:
  assumes "reassembler_ok r" and "push r p t = Some (r', out)"
  shows "reassembler_ok r'"
proof (cases "packet_invalid (fr_config r) p
    \<or> delta_behind_keyframe (fst (expire_stale r t)) p \<or> late_or_older (fst (expire_stale r t)) p")
  case True
  then show ?thesis
    using assms expire_stale_ok [of r t] by (auto simp: push_def Let_def split: if_splits)
next
  case False
  then have "push_fragment (start_frame (fst (expire_stale r t)) p t) p = Some (r', out)"
    using assms(2) by (simp add: push_def Let_def)
  moreover have "reassembler_ok (start_frame (fst (expire_stale r t)) p t)"
    using False assms(1) by (auto intro!: start_frame_ok expire_stale_ok)
  ultimately show ?thesis by (rule push_fragment_ok [rotated])
qed

lemma push_no_panic: "push r p t \<noteq> None"
proof (cases "packet_invalid (fr_config r) p")
  case False
  then have "unat (vp_packet_index p) < unat (vp_packet_count p)"
    by (simp add: packet_invalid_def word_less_nat_alt not_le)
  then show ?thesis
    by (auto simp: push_def push_fragment_def Let_def pending_mismatch_def split: option.splits)
qed (simp add: push_def)

text \<open>The reassembler fed with a sequence of packets and their arrival times.\<close>

definition push_step :: "frame_reassembler \<Rightarrow> video_packet \<times> u64 \<Rightarrow> frame_reassembler \<times> reassembly_outcome"
  where "push_step r pt = the (push r (fst pt) (snd pt))"

interpretation reassembly: step_system push_step reassembler_ok "\<lambda>_ _. True"
proof unfold_locales
  fix r :: frame_reassembler and pt :: "video_packet \<times> u64"
  assume "reassembler_ok r"
  moreover obtain r' out where "push r (fst pt) (snd pt) = Some (r', out)"
    using push_no_panic by (metis option.exhaust prod.exhaust)
  ultimately show "reassembler_ok (fst (push_step r pt))"
    by (simp add: push_step_def push_ok)
qed

lemma reassembly_legal: "reassembly.legal_run r pts"
  by (induction pts arbitrary: r) auto

lemma push_stepI: "push_step r (p, t) = (r', out) \<longleftrightarrow> push r p t = Some (r', out)"
  using push_no_panic [of r p t] by (auto simp: push_step_def)

lemma push_config: "push r p t = Some (r', out) \<Longrightarrow> fr_config r' = fr_config r"
  by (auto simp: push_def push_fragment_def Let_def count_defs split: if_splits option.splits)

lemma run_config: "fr_config (fst (run push_step r pts)) = fr_config r"
proof (induction pts arbitrary: r)
  case (Cons pt pts)
  obtain r' out where "push r (fst pt) (snd pt) = Some (r', out)"
    using push_no_panic by (metis option.exhaust prod.exhaust)
  then show ?case using Cons.IH [of r'] push_config by (simp add: push_step_def Let_def)
qed simp

section \<open>Frames complete in increasing order\<close>

definition above_newest :: "frame_reassembler \<Rightarrow> u64 \<Rightarrow> bool" where
  "above_newest r i =
     (case fr_newest_frame_id r of
        None \<Rightarrow> True
      | Some n \<Rightarrow> if fr_pending r = None then n < i else n \<le> i)"

lemma above_newest_count [simp]:
  "above_newest (count_incomplete r) = above_newest r"
  "above_newest (count_stale r) = above_newest r"
  "above_newest (count_invalid r) = above_newest r"
  "above_newest (count_duplicate r) = above_newest r"
  "above_newest (count_completed r) = above_newest r"
  by (simp_all add: above_newest_def count_defs fun_eq_iff split: option.splits)

lemma above_newest_expire: "above_newest (fst (expire_stale r t)) i \<Longrightarrow> above_newest r i"
  by (auto simp: expire_stale_def expired_def above_newest_def count_defs
      split: option.splits if_splits)

lemma above_newest_start:
  assumes "reassembler_ok r" and "\<not> late_or_older r p"
  shows "above_newest (start_frame r p t) i \<Longrightarrow> above_newest r i"
    and "above_newest r (vp_frame_id p)"
    and "fr_newest_frame_id (start_frame r p t) = Some (vp_frame_id p)"
    and "\<exists>pf. fr_pending (start_frame r p t) = Some pf \<and> pf_frame_id pf = vp_frame_id p"
  using assms
  by (auto simp: start_frame_def above_newest_def late_or_older_def reassembler_ok_def
      begin_pending_def count_defs not_less split: option.splits if_splits)

lemma push_fragment_above:
  assumes "push_fragment r p = Some (r', out)" and "fr_newest_frame_id r = Some n"
    and "fr_pending r = Some pf" and "pf_frame_id pf = n"
  shows "above_newest r' i \<Longrightarrow> above_newest r i"
    and "out = Completed f \<Longrightarrow> ef_frame_id f = n"
    and "out = Completed f \<Longrightarrow> above_newest r' i \<Longrightarrow> n < i"
  using assms
  by (auto simp: push_fragment_def above_newest_def Let_def finish_frame_def store_fragment_def
      count_defs split: if_splits)

lemma push_above:
  assumes "reassembler_ok r" and "push r p t = Some (r', out)"
  shows "above_newest r' i \<Longrightarrow> above_newest r i"
    and "out = Completed f \<Longrightarrow> above_newest r (ef_frame_id f)"
    and "out = Completed f \<Longrightarrow> above_newest r' i \<Longrightarrow> ef_frame_id f < i"
proof -
  define e where "e = fst (expire_stale r t)"
  have e: "reassembler_ok e" and up: "\<And>i. above_newest e i \<Longrightarrow> above_newest r i"
    using assms(1) by (auto simp: e_def expire_stale_ok above_newest_expire)
  show "above_newest r' i \<Longrightarrow> above_newest r i"
    and "out = Completed f \<Longrightarrow> above_newest r (ef_frame_id f)"
    and "out = Completed f \<Longrightarrow> above_newest r' i \<Longrightarrow> ef_frame_id f < i"
  proof (atomize (full), cases "packet_invalid (fr_config r) p \<or> delta_behind_keyframe e p \<or> late_or_older e p")
    case True
    then show "(above_newest r' i \<longrightarrow> above_newest r i)
      \<and> (out = Completed f \<longrightarrow> above_newest r (ef_frame_id f))
      \<and> (out = Completed f \<longrightarrow> above_newest r' i \<longrightarrow> ef_frame_id f < i)"
      using assms(2) up by (auto simp: push_def Let_def e_def split: if_splits)
  next
    case False
    then have pushed: "push_fragment (start_frame e p t) p = Some (r', out)"
      using assms(2) by (simp add: push_def Let_def e_def)
    from False have late: "\<not> late_or_older e p" by simp
    note S = above_newest_start [OF e late]
    obtain pf where pf: "fr_pending (start_frame e p t) = Some pf" "pf_frame_id pf = vp_frame_id p"
      using S(4) by blast
    note P = push_fragment_above [OF pushed S(3) pf]
    show "(above_newest r' i \<longrightarrow> above_newest r i)
      \<and> (out = Completed f \<longrightarrow> above_newest r (ef_frame_id f))
      \<and> (out = Completed f \<longrightarrow> above_newest r' i \<longrightarrow> ef_frame_id f < i)"
      using P S(1,2) up by metis
  qed
qed

fun completed_ids :: "reassembly_outcome list \<Rightarrow> u64 list" where
  "completed_ids [] = []"
| "completed_ids (Completed f # os) = ef_frame_id f # completed_ids os"
| "completed_ids (_ # os) = completed_ids os"

lemma completed_ids_Cons:
  "completed_ids (out # os) = (case out of Completed f \<Rightarrow> [ef_frame_id f] | _ \<Rightarrow> []) @ completed_ids os"
  by (cases out) auto

lemma run_completed_increasing:
  assumes "reassembler_ok r"
  shows "sorted_wrt (<) (completed_ids (snd (run push_step r pts)))
    \<and> (\<forall>i \<in> set (completed_ids (snd (run push_step r pts))). above_newest r i)"
  using assms
proof (induction pts arbitrary: r)
  case (Cons pt pts)
  obtain r' out where st: "push r (fst pt) (snd pt) = Some (r', out)"
    using push_no_panic by (metis option.exhaust prod.exhaust)
  then have step: "push_step r pt = (r', out)" by (simp add: push_step_def)
  note up = push_above [OF Cons.prems st]
  from Cons.IH [OF push_ok [OF Cons.prems st]] up show ?case
    by (auto simp: step Let_def completed_ids_Cons split: reassembly_outcome.splits)
qed simp

section \<open>A frame completes from its fragments in any order\<close>

text \<open>The pending frame after the fragments whose indexes are in \<open>S\<close> arrived, the first at \<open>t0\<close>.\<close>

definition pending_with :: "encoded_frame \<Rightarrow> bytes list \<Rightarrow> nat set \<Rightarrow> u64 \<Rightarrow> pending_frame" where
  "pending_with f cs S t0 = \<lparr>
     pf_stream_id = ef_stream_id f,
     pf_frame_id = ef_frame_id f,
     pf_capture_timestamp_us = ef_capture_timestamp_us f,
     pf_encode_complete_timestamp_us = ef_encode_complete_timestamp_us f,
     pf_send_timestamp_us = ef_send_timestamp_us f,
     pf_keyframe = ef_keyframe f,
     pf_first_packet_at_us = t0,
     pf_total_bytes = (\<Sum>i\<in>S. length (cs ! i)),
     pf_received = card S,
     pf_fragments = map (\<lambda>i. if i \<in> S then Some (cs ! i) else None) [0..<length cs]\<rparr>"

lemma store_pending_with:
  assumes "finite S" and "i \<notin> S" and "i < length cs" and "i < 2 ^ 16"
  shows "store_fragment (pending_with f cs S t0) (packet_of f c i (cs ! i))
           = pending_with f cs (insert i S) t0"
proof -
  have "unat (word_of_nat i :: u16) = i" using assms(4) by (simp add: unat_of_nat)
  moreover have "(map (\<lambda>j. if j \<in> S then Some (cs ! j) else None) [0..<length cs])[i := Some (cs ! i)]
      = map (\<lambda>j. if j = i \<or> j \<in> S then Some (cs ! j) else None) [0..<length cs]"
    using assms(3) by (intro nth_equalityI) (auto simp: nth_list_update)
  ultimately show ?thesis
    using assms by (simp add: store_fragment_def pending_with_def packet_of_def)
qed

lemma finish_pending_with:
  assumes "S = {..<length cs}" and "concat cs = ef_data f"
  shows "finish_frame (pending_with f cs S t0) = f"
proof -
  have "map ((\<lambda>x. case x of None \<Rightarrow> [] | Some d \<Rightarrow> d) \<circ> (\<lambda>i. if i \<in> S then Some (cs ! i) else None))
          [0..<length cs] = map ((!) cs) [0..<length cs]"
    using assms(1) by (intro map_cong) auto
  then have "map (\<lambda>x. case x of None \<Rightarrow> [] | Some d \<Rightarrow> d) (pf_fragments (pending_with f cs S t0)) = cs"
    by (simp add: pending_with_def map_nth)
  then show ?thesis using assms(2) by (simp add: finish_frame_def pending_with_def)
qed

lemma sum_length_le:
  assumes "S \<subseteq> {..<length cs}"
  shows "(\<Sum>i\<in>S. length (cs ! i)) \<le> length (concat cs)"
proof -
  have "(\<Sum>i\<in>S. length (cs ! i)) \<le> (\<Sum>i<length cs. length (cs ! i))"
    using assms by (intro sum_mono2) auto
  also have "\<dots> = length (concat cs)"
    by (simp add: length_concat sum_list_sum_nth atLeast0LessThan)
  finally show ?thesis .
qed

text \<open>What the frame needs of the receiver's limits.\<close>

definition frame_fits :: "reassembly_config \<Rightarrow> encoded_frame \<Rightarrow> bytes list \<Rightarrow> bool" where
  "frame_fits c f cs \<longleftrightarrow>
     concat cs = ef_data f
     \<and> cs \<noteq> []
     \<and> length cs \<le> unat (max_packets c)
     \<and> length (ef_data f) \<le> max_frame_bytes c"

lemma frame_fits_packet:
  assumes "frame_fits c f cs" and "i < length cs"
  shows "\<not> packet_invalid c (packet_of f (word_of_nat (length cs)) i (cs ! i))"
    and "i < 2 ^ 16" and "unat (word_of_nat (length cs) :: u16) = length cs"
proof -
  have bound: "length cs < 2 ^ 16"
    using assms unat_lt_pow [of "max_packets c"] by (simp add: frame_fits_def)
  then show n: "unat (word_of_nat (length cs) :: u16) = length cs" by (simp add: unat_of_nat)
  show i: "i < 2 ^ 16" using bound assms(2) by simp
  have "length (cs ! i) \<le> length (ef_data f)"
    using sum_length_le [of "{i}" cs] assms by (auto simp: frame_fits_def)
  then show "\<not> packet_invalid c (packet_of f (word_of_nat (length cs)) i (cs ! i))"
    using assms n i
    by (auto simp: packet_invalid_def packet_of_def frame_fits_def word_less_nat_alt
        word_le_nat_alt unat_of_nat word_unat_eq_iff)
qed

lemma push_fragment_pending_with:
  assumes fits: "frame_fits (fr_config r) f cs" and "i < length cs" and "i \<notin> S"
    and "S \<subseteq> {..<length cs}" and "fr_pending r = Some (pending_with f cs S t0)"
  shows "push_fragment r (packet_of f (word_of_nat (length cs)) i (cs ! i)) =
     (if insert i S = {..<length cs}
      then Some (count_completed (r\<lparr>fr_pending := None\<rparr>), Completed f)
      else Some (r\<lparr>fr_pending := Some (pending_with f cs (insert i S) t0)\<rparr>, Accepted))"
proof -
  let ?p = "packet_of f (word_of_nat (length cs)) i (cs ! i)"
  have fin: "finite S" using assms(4) by (rule finite_subset) simp
  note P = frame_fits_packet [OF fits assms(2)]
  have sub: "insert i S \<subseteq> {..<length cs}" using assms(2,4) by simp
  have "(\<Sum>j\<in>insert i S. length (cs ! j)) \<le> length (ef_data f)"
    using sum_length_le [OF sub] fits by (simp add: frame_fits_def)
  then have fit: "usize_sat_add (\<Sum>j\<in>S. length (cs ! j)) (length (cs ! i))
      \<le> max_frame_bytes (fr_config r)"
    using fits fin assms(3) by (simp add: frame_fits_def usize_sat_add_def min.coboundedI1)
  have match: "\<not> pending_mismatch (fr_config r) (pending_with f cs S t0) ?p"
    using fit P(3) by (simp add: pending_mismatch_def pending_with_def packet_of_def)
  have index: "unat (vp_packet_index ?p) = i"
    using P(2) by (simp add: packet_of_def unat_of_nat)
  have slot: "pf_fragments (pending_with f cs S t0) ! i = None"
    "length (pf_fragments (pending_with f cs S t0)) = length cs"
    using assms(2,3) by (simp_all add: pending_with_def)
  note store = store_pending_with [OF fin assms(3,2) P(2), of f t0 "word_of_nat (length cs)"]
  have counts: "pf_received (pending_with f cs (insert i S) t0) = card (insert i S)"
    "length (pf_fragments (pending_with f cs (insert i S) t0)) = length cs"
    by (simp_all add: pending_with_def)
  have full: "card (insert i S) = length cs \<longleftrightarrow> insert i S = {..<length cs}"
    by (metis card_lessThan card_subset_eq finite_lessThan sub)
  have "finish_frame (pending_with f cs (insert i S) t0) = f" if "insert i S = {..<length cs}"
    using finish_pending_with [OF that] fits by (simp add: frame_fits_def)
  then show ?thesis
    using assms(2,5) match index slot counts full
    by (simp add: push_fragment_def store Let_def)
qed

text \<open>An arrival time before the pending frame's deadline.\<close>

definition in_time :: "reassembly_config \<Rightarrow> u64 \<Rightarrow> u64 \<Rightarrow> bool" where
  "in_time c t0 t \<longleftrightarrow> sat_sub t t0 < stale_after_us c"

lemma push_next_fragment:
  assumes "frame_fits (fr_config r) f cs" and "i < length cs"
    and "fr_pending r = Some (pending_with f cs S t0)"
    and "fr_newest_frame_id r = Some (ef_frame_id f)" and "in_time (fr_config r) t0 t"
  shows "push r (packet_of f (word_of_nat (length cs)) i (cs ! i)) t
    = push_fragment r (packet_of f (word_of_nat (length cs)) i (cs ! i))"
proof -
  have "expire_stale r t = (r, False)"
    using assms(3,5) by (simp add: expire_stale_def expired_def in_time_def pending_with_def not_le)
  then show ?thesis
    using assms frame_fits_packet(1) [OF assms(1,2)]
    by (simp add: push_def Let_def delta_behind_keyframe_def late_or_older_def start_frame_def)
      (simp add: pending_with_def packet_of_def)
qed

lemma push_first_fragment:
  assumes "frame_fits (fr_config r) f cs" and "i < length cs" and "fr_pending r = None"
    and "above_newest r (ef_frame_id f)"
  shows "push r (packet_of f (word_of_nat (length cs)) i (cs ! i)) t =
    push_fragment (r\<lparr>fr_newest_frame_id := Some (ef_frame_id f),
                     fr_pending := Some (pending_with f cs {} t)\<rparr>)
      (packet_of f (word_of_nat (length cs)) i (cs ! i))"
proof -
  let ?p = "packet_of f (word_of_nat (length cs)) i (cs ! i)"
  have "begin_pending ?p t = pending_with f cs {} t"
    using frame_fits_packet(3) [OF assms(1,2)]
    by (simp add: begin_pending_def pending_with_def packet_of_def map_replicate_const)
  moreover have "vp_frame_id ?p = ef_frame_id f" by (simp add: packet_of_def)
  ultimately show ?thesis
    using assms frame_fits_packet(1) [OF assms(1,2)]
    by (auto simp: push_def Let_def expire_stale_def expired_def delta_behind_keyframe_def
        late_or_older_def above_newest_def start_frame_def split: option.splits)
qed

lemma run_remaining_fragments:
  assumes "frame_fits (fr_config r) f cs" and "fr_pending r = Some (pending_with f cs S t0)"
    and "fr_newest_frame_id r = Some (ef_frame_id f)"
    and "distinct js" and "set js \<inter> S = {}" and "set js \<union> S = {..<length cs}" and "js \<noteq> []"
    and "length ts = length js" and "\<forall>t \<in> set ts. in_time (fr_config r) t0 t"
  shows "snd (run push_step r
            (zip (map (\<lambda>i. packet_of f (word_of_nat (length cs)) i (cs ! i)) js) ts))
         = replicate (length js - 1) Accepted @ [Completed f]"
  using assms
proof (induction js arbitrary: r S ts)
  case (Cons i js)
  then obtain t ts' where ts: "ts = t # ts'" by (cases ts) auto
  let ?p = "\<lambda>i. packet_of f (word_of_nat (length cs)) i (cs ! i)"
  have i: "i < length cs" "i \<notin> S" "S \<subseteq> {..<length cs}" using Cons.prems(5,6) by auto
  have "push r (?p i) t = push_fragment r (?p i)"
    using Cons.prems ts i by (intro push_next_fragment) auto
  note pushed = this [unfolded push_fragment_pending_with
      [OF Cons.prems(1) i(1,2,3) Cons.prems(2)]]
  show ?case
  proof (cases "js = []")
    case True
    then have "insert i S = {..<length cs}" using Cons.prems(6) by simp
    then show ?thesis using pushed ts True Cons.prems(8) by (simp add: push_step_def Let_def)
  next
    case False
    define r' where "r' = r\<lparr>fr_pending := Some (pending_with f cs (insert i S) t0)\<rparr>"
    have "insert i S \<noteq> {..<length cs}"
    proof
      assume eq: "insert i S = {..<length cs}"
      obtain j where j: "j \<in> set js" using False by (cases js) auto
      then have "j \<in> insert i S" using eq Cons.prems(6) by auto
      then show False using j Cons.prems(4,5) by auto
    qed
    then have step: "push_step r (?p i, t) = (r', Accepted)"
      using pushed by (simp add: push_step_def r'_def)
    have "snd (run push_step r' (zip (map ?p js) ts')) = replicate (length js - 1) Accepted @ [Completed f]"
      by (rule Cons.IH [where S = "insert i S"])
        (use Cons.prems ts False in \<open>auto simp: r'_def\<close>)
    then show ?thesis using ts step False by (cases js) (simp_all add: Let_def)
  qed
qed simp

lemma run_all_fragments:
  assumes "frame_fits (fr_config r) f cs" and "fr_pending r = None"
    and "above_newest r (ef_frame_id f)"
    and "distinct js" and "set js = {..<length cs}" and "length ts = length js"
    and "\<forall>t \<in> set ts. in_time (fr_config r) (hd ts) t"
  shows "snd (run push_step r
            (zip (map (\<lambda>i. packet_of f (word_of_nat (length cs)) i (cs ! i)) js) ts))
         = replicate (length js - 1) Accepted @ [Completed f]"
proof -
  let ?p = "\<lambda>i. packet_of f (word_of_nat (length cs)) i (cs ! i)"
  have "0 \<in> set js" unfolding assms(5) using assms(1) by (simp add: frame_fits_def)
  then have "js \<noteq> []" by (cases js) simp_all
  then obtain i js' where js: "js = i # js'" by (cases js) auto
  then obtain t ts' where ts: "ts = t # ts'" using assms(6) by (cases ts) auto
  define r0 where "r0 = r\<lparr>fr_newest_frame_id := Some (ef_frame_id f),
                          fr_pending := Some (pending_with f cs {} t)\<rparr>"
  have i: "i < length cs" using assms(5) js by auto
  have first: "push r (?p i) t = push r0 (?p i) t"
    using assms i ts
    by (simp add: push_first_fragment push_next_fragment [where S = "{}" and t0 = t] r0_def)
  have "run push_step r (zip (map ?p js) ts) = run push_step r0 (zip (map ?p js) ts)"
    using first by (simp add: js ts push_step_def)
  then show ?thesis
    using run_remaining_fragments [of r0 f cs "{}" t js ts] assms ts \<open>js \<noteq> []\<close>
    by (simp add: r0_def)
qed

lemma fragment_frame_packets:
  assumes "fragment_frame f n = Inr ps"
  shows "ps = map (\<lambda>i. packet_of f (word_of_nat (length (chunks n (ef_data f)))) i
                   (chunks n (ef_data f) ! i)) [0..<length (chunks n (ef_data f))]"
proof (rule nth_equalityI)
  note F = fragment_frame_Ok [OF assms]
  have len: "length ps = length (chunks n (ef_data f))" using F(1,4) by (simp add: length_chunks)
  then show "length ps = length (map (\<lambda>i. packet_of f (word_of_nat (length (chunks n (ef_data f)))) i
                   (chunks n (ef_data f) ! i)) [0..<length (chunks n (ef_data f))])" by simp
  fix i assume "i < length ps"
  then show "ps ! i = map (\<lambda>i. packet_of f (word_of_nat (length (chunks n (ef_data f)))) i
                   (chunks n (ef_data f) ! i)) [0..<length (chunks n (ef_data f))] ! i"
    using F(5) [of i] len by simp
qed

text \<open>A rearrangement of indexed packets is the packets of a rearrangement of the indexes.\<close>

lemma mset_map_upt_obtain:
  assumes "mset ys = mset (map g [0..<n])" and "\<And>i. i < n \<Longrightarrow> h (g i) = i"
  obtains js where "distinct js" and "set js = {..<n}" and "ys = map g js"
proof
  have eq: "mset (map h ys) = mset [0..<n]"
  proof -
    have "mset (map h ys) = mset (map h (map g [0..<n]))" using assms(1) by (metis mset_map)
    also have "map h (map g [0..<n]) = [0..<n]" using assms(2) by (intro nth_equalityI) simp_all
    finally show ?thesis .
  qed
  show "distinct (map h ys)" using eq by (metis distinct_upt mset_eq_imp_distinct_iff)
  show "set (map h ys) = {..<n}"
    using mset_eq_setD [OF eq] by (simp add: atLeast0LessThan)
  have "set ys = g ` {..<n}" using mset_eq_setD [OF assms(1)] by (simp add: atLeast0LessThan)
  then have "g (h y) = y" if "y \<in> set ys" for y using assms(2) that by auto
  then show "ys = map g (map h ys)" by (simp add: map_idI)
qed

section \<open>Properties\<close>

text \<open>a packet with a valid index and a payload below 64 KiB encodes into its 56-byte header and
  the payload, and decoding those bytes gives the packet back.\<close>

theorem video_packet_roundtrip:
  assumes "vp_packet_index p < vp_packet_count p" and "length (vp_payload p) < 2 ^ 16"
  shows "\<exists>bs. VideoPacket_encode p = Ok bs
           \<and> length bs = VIDEO_PACKET_HEADER_LEN + length (vp_payload p)
           \<and> VideoPacket_decode bs = Some (Ok p)"
proof -
  obtain bs where "VideoPacket_encode p = Ok bs" using assms encode_Ok_iff by blast
  then show ?thesis using length_encode decode_encode by blast
qed

definition sample_packet :: video_packet where
  "sample_packet = \<lparr>vp_stream_id = VideoStreamId 7, vp_frame_id = 1, vp_capture_timestamp_us = 100,
     vp_encode_complete_timestamp_us = 110, vp_send_timestamp_us = 120, vp_keyframe = True,
     vp_packet_index = 0, vp_packet_count = 1, vp_payload = [104, 101, 108, 108, 111]\<rparr>"

theorem video_packet_roundtrip_witness:
  "vp_packet_index sample_packet < vp_packet_count sample_packet
   \<and> length (vp_payload sample_packet) < 2 ^ 16
   \<and> (\<exists>bs. VideoPacket_encode sample_packet = Ok bs
        \<and> length bs = VIDEO_PACKET_HEADER_LEN + length (vp_payload sample_packet)
        \<and> VideoPacket_decode bs = Some (Ok sample_packet))"
proof -
  have h: "vp_packet_index sample_packet < vp_packet_count sample_packet"
    "length (vp_payload sample_packet) < 2 ^ 16"
    by (simp_all add: sample_packet_def)
  show ?thesis using h video_packet_roundtrip [OF h] by blast
qed

text \<open>decoding any byte string returns (no read is out of range); it reports truncation exactly
  for strings shorter than the header, and an accepted packet has a valid index, exactly the
  announced length, and the bytes after the header as its payload.\<close>

theorem video_packet_decode_total:
  "\<exists>res. VideoPacket_decode bs = Some res
     \<and> (res = Err Truncated \<longleftrightarrow> length bs < VIDEO_PACKET_HEADER_LEN)
     \<and> (case res of
          Inl e \<Rightarrow> e \<notin> {EmptyFrame, InvalidFragmentSize}
        | Inr p \<Rightarrow> vp_packet_index p < vp_packet_count p
                 \<and> length bs = VIDEO_PACKET_HEADER_LEN + length (vp_payload p)
                 \<and> vp_payload p = drop VIDEO_PACKET_HEADER_LEN bs)"
proof -
  obtain res where res: "VideoPacket_decode bs = Some res" using decode_no_panic by blast
  have "res = Err Truncated \<longleftrightarrow> length bs < VIDEO_PACKET_HEADER_LEN"
    "\<And>e. res = Inl e \<Longrightarrow> e \<notin> {EmptyFrame, InvalidFragmentSize}"
    using res by (auto simp: VideoPacket_decode_def validate_index_def bind_eq_Some_conv
        split: if_splits)
  then show ?thesis using res decode_Ok_shape [of bs] by (auto split: sum.splits)
qed

text \<open>cutting a frame fails exactly for a zero fragment size, an empty frame or more than 65535
  fragments; otherwise the payloads in order are the frame's bytes, the indexes count up from 0,
  every packet carries the number of packets, and no payload is empty or over the size.\<close>

theorem fragment_frame_correct:
  "case fragment_frame f n of
     Inl e \<Rightarrow> (n = 0 \<and> e = InvalidFragmentSize)
       \<or> (0 < n \<and> ef_data f = [] \<and> e = EmptyFrame)
       \<or> (0 < n \<and> ef_data f \<noteq> [] \<and> 2 ^ 16 \<le> div_ceil (length (ef_data f)) n
            \<and> e = TooManyFragments (div_ceil (length (ef_data f)) n))
   | Inr ps \<Rightarrow> concat (map vp_payload ps) = ef_data f
       \<and> length ps = div_ceil (length (ef_data f)) n
       \<and> map (unat \<circ> vp_packet_index) ps = [0..<length ps]
       \<and> map (unat \<circ> vp_packet_count) ps = replicate (length ps) (length ps)
       \<and> list_all (\<lambda>p. vp_payload p \<noteq> [] \<and> length (vp_payload p) \<le> n) ps"
proof (cases "fragment_frame f n")
  case (Inl e)
  then show ?thesis by (auto simp: fragment_frame_def Let_def split: if_splits)
next
  case (Inr ps)
  note F = fragment_frame_Ok [OF Inr] and I = fragment_index [OF Inr]
  have "map (unat \<circ> vp_packet_index) ps = [0..<length ps]"
    "map (unat \<circ> vp_packet_count) ps = replicate (length ps) (length ps)"
    by (rule nth_equalityI; simp add: I)+
  moreover have "list_all (\<lambda>d. d \<noteq> [] \<and> length d \<le> n) (map vp_payload ps)"
    unfolding fragment_payloads [OF Inr] list_all_iff using chunks_member F(1) by blast
  then have "list_all (\<lambda>p. vp_payload p \<noteq> [] \<and> length (vp_payload p) \<le> n) ps"
    by (simp add: list_all_iff)
  ultimately show ?thesis
    using Inr F(4) by (simp add: fragment_payloads)
qed

text \<open>C2: an idle reassembler that receives every packet of a newer frame once, in any order and all
  before the first one's deadline, accepts each and completes the frame, equal to the one sent,
  with the last.\<close>

theorem reassembly_any_order:
  assumes "fragment_frame f n = Ok ps" and "mset ps' = mset ps"
    and "length ps \<le> unat (max_packets (fr_config r))"
    and "length (ef_data f) \<le> max_frame_bytes (fr_config r)"
    and "fr_pending r = None" and "above_newest r (ef_frame_id f)"
    and "length ts = length ps'" and "\<forall>t \<in> set ts. in_time (fr_config r) (hd ts) t"
  shows "snd (run push_step r (zip ps' ts)) = replicate (length ps - 1) Accepted @ [Completed f]"
proof -
  define cs where "cs = chunks n (ef_data f)"
  let ?g = "\<lambda>i. packet_of f (word_of_nat (length cs)) i (cs ! i)"
  note F = fragment_frame_Ok [OF assms(1)]
  have ps: "ps = map ?g [0..<length cs]"
    unfolding cs_def by (rule fragment_frame_packets [OF assms(1)])
  have len: "length ps = length cs" by (simp add: ps)
  have fits: "frame_fits (fr_config r) f cs"
    using assms(3,4) F(2) len by (simp add: frame_fits_def cs_def chunks_nonempty)
  have inv: "unat (vp_packet_index (?g i)) = i" if "i < length cs" for i
    using frame_fits_packet(2) [OF fits that] by (simp add: packet_of_def unat_of_nat)
  obtain js where js: "distinct js" "set js = {..<length cs}" "ps' = map ?g js"
    using mset_map_upt_obtain [of ps' ?g "length cs" "\<lambda>p. unat (vp_packet_index p)"]
      assms(2) inv unfolding ps by blast
  have "length js = length ps" using assms(2) js(3) by (metis length_map mset_eq_length)
  then show ?thesis
    using run_all_fragments [OF fits assms(5,6) js(1,2), of ts] assms(7,8) js(3) by simp
qed

definition sample_frame :: encoded_frame where
  "sample_frame = \<lparr>ef_stream_id = VideoStreamId 7, ef_frame_id = 1, ef_capture_timestamp_us = 100,
     ef_encode_complete_timestamp_us = 110, ef_send_timestamp_us = 120, ef_keyframe = True,
     ef_data = [97, 98, 99, 100, 101, 102, 103, 104, 105, 106]\<rparr>"

definition sample_fragments :: "video_packet list" where
  "sample_fragments = (case fragment_frame sample_frame 3 of Inl _ \<Rightarrow> [] | Inr ps \<Rightarrow> ps)"

lemma sample_fragments_eq:
  "sample_fragments = [packet_of sample_frame 4 0 [97, 98, 99], packet_of sample_frame 4 1 [100, 101, 102],
     packet_of sample_frame 4 2 [103, 104, 105], packet_of sample_frame 4 3 [106]]"
proof -
  have "chunks 3 (ef_data sample_frame) = [[97, 98, 99], [100, 101, 102], [103, 104, 105], [106]]"
    by (simp add: sample_frame_def chunks_step)
  moreover have "div_ceil (length (ef_data sample_frame)) 3 = 4" "ef_data sample_frame \<noteq> []"
    by (simp_all add: sample_frame_def div_ceil_def)
  ultimately show ?thesis
    by (simp add: sample_fragments_def fragment_frame_def Let_def enumerate_simps)
      (simp add: numeral_2_eq_2 numeral_3_eq_3)
qed

theorem reassembly_any_order_witness:
  "fragment_frame sample_frame 3 = Ok sample_fragments
   \<and> snd (run push_step (FrameReassembler_new ReassemblyConfig_default)
       (zip (map (\<lambda>i. sample_fragments ! i) [2, 0, 3, 1]) [1, 2, 3, 4]))
     = [Accepted, Accepted, Accepted, Completed sample_frame]"
proof -
  let ?r = "FrameReassembler_new ReassemblyConfig_default"
  let ?ps = "map (\<lambda>i. sample_fragments ! i) [2, 0, 3, 1]"
  have "fragment_frame sample_frame 3 = Ok sample_fragments"
    using sample_fragments_eq by (simp add: sample_fragments_def split: sum.splits)
  moreover have "mset ?ps = mset sample_fragments"
    by (simp add: sample_fragments_eq add_mset_commute)
  moreover have "length sample_fragments \<le> unat (max_packets (fr_config ?r))"
    "length (ef_data sample_frame) \<le> max_frame_bytes (fr_config ?r)"
    "fr_pending ?r = None" "above_newest ?r (ef_frame_id sample_frame)"
    "length [1, 2, 3, 4 :: u64] = length ?ps"
    "\<forall>t \<in> set [1, 2, 3, 4 :: u64]. in_time (fr_config ?r) (hd [1, 2, 3, 4]) t"
    by (simp_all add: sample_fragments_eq FrameReassembler_new_def ReassemblyConfig_default_def
        DEFAULT_MAX_PACKETS_def DEFAULT_MAX_FRAME_BYTES_def sample_frame_def above_newest_def
        in_time_def sat_sub_def stale_after_us_def)
  ultimately have "snd (run push_step ?r (zip ?ps [1, 2, 3, 4]))
      = replicate (length sample_fragments - 1) Accepted @ [Completed sample_frame]"
    by (rule reassembly_any_order)
  then show ?thesis using \<open>fragment_frame sample_frame 3 = Ok sample_fragments\<close>
    by (simp add: sample_fragments_eq numeral_eq_Suc)
qed

text \<open>whatever packets arrive and whenever, a reassembler never panics and holds at most one
  incomplete frame whose stored bytes stay within the configured limit, whose counters agree with
  the stored fragments, and which is the newest frame begun.\<close>

theorem reassembler_bounded:
  assumes "max_frame_bytes c < usize_max"
  shows "let r = fst (run push_step (FrameReassembler_new c) pts) in
     push r p t \<noteq> None
     \<and> fr_config r = c
     \<and> (case fr_pending r of
          None \<Rightarrow> True
        | Some pf \<Rightarrow> pf_total_bytes pf = stored_bytes (pf_fragments pf)
            \<and> stored_bytes (pf_fragments pf) \<le> max_frame_bytes c
            \<and> pf_received pf = stored_fragments (pf_fragments pf)
            \<and> pf_received pf < length (pf_fragments pf)
            \<and> length (pf_fragments pf) \<le> unat (max_packets c)
            \<and> fr_newest_frame_id r = Some (pf_frame_id pf))"
proof -
  have "reassembler_ok (FrameReassembler_new c)"
    using assms by (simp add: reassembler_ok_def FrameReassembler_new_def)
  then have "reassembler_ok (fst (run push_step (FrameReassembler_new c) pts))"
    by (rule reassembly.run_inv) (rule reassembly_legal)
  moreover have "fr_config (fst (run push_step (FrameReassembler_new c) pts)) = c"
    using run_config [of "FrameReassembler_new c"] by (simp add: FrameReassembler_new_def)
  ultimately show ?thesis
    using push_no_panic
    by (auto simp: Let_def reassembler_ok_def pending_counts_ok_def split: option.splits)
qed

theorem reassembler_bounded_witness:
  "max_frame_bytes ReassemblyConfig_default < usize_max
   \<and> push (fst (run push_step (FrameReassembler_new ReassemblyConfig_default) [(sample_packet, 5)]))
       sample_packet 6 \<noteq> None"
proof -
  have h: "max_frame_bytes ReassemblyConfig_default < usize_max"
    by (simp add: ReassemblyConfig_default_def DEFAULT_MAX_FRAME_BYTES_def usize_max_def)
  show ?thesis
    using h reassembler_bounded [OF h, of "[(sample_packet, 5)]" sample_packet 6]
    unfolding Let_def by blast
qed

text \<open>C27: the frames a reassembler completes, over any sequence of arriving packets, have strictly
  increasing frame numbers: no frame is delivered twice and none after a newer one.\<close>

theorem frames_complete_in_order:
  assumes "max_frame_bytes c < usize_max"
  shows "sorted_wrt (<) (completed_ids (snd (run push_step (FrameReassembler_new c) pts)))"
  using run_completed_increasing [of "FrameReassembler_new c" pts] assms
  by (simp add: reassembler_ok_def FrameReassembler_new_def)

theorem frames_complete_in_order_witness:
  "max_frame_bytes ReassemblyConfig_default < usize_max
   \<and> sorted_wrt (<) (completed_ids (snd (run push_step (FrameReassembler_new ReassemblyConfig_default)
       [(sample_packet, 5), (sample_packet\<lparr>vp_frame_id := 2\<rparr>, 6), (sample_packet, 7)])))"
proof -
  have h: "max_frame_bytes ReassemblyConfig_default < usize_max"
    by (simp add: ReassemblyConfig_default_def DEFAULT_MAX_FRAME_BYTES_def usize_max_def)
  show ?thesis using h frames_complete_in_order [OF h] by blast
qed

text \<open>while a keyframe is incomplete and not yet stale, a well-formed packet of a newer delta
  frame is dropped as stale and leaves the pending keyframe as it is.\<close>

theorem pending_keyframe_survives_deltas:
  assumes "fr_pending r = Some pf" and "pf_keyframe pf" and "in_time (fr_config r) (pf_first_packet_at_us pf) t"
    and "\<not> packet_invalid (fr_config r) p" and "\<not> vp_keyframe p" and "pf_frame_id pf < vp_frame_id p"
  shows "\<exists>r'. push r p t = Some (r', DroppedStale) \<and> fr_pending r' = Some pf
            \<and> fr_newest_frame_id r' = fr_newest_frame_id r"
proof -
  have "expire_stale r t = (r, False)"
    using assms(1,3) by (simp add: expire_stale_def expired_def in_time_def not_le)
  then show ?thesis
    using assms by (simp add: push_def Let_def delta_behind_keyframe_def count_stale_def)
qed

theorem pending_keyframe_survives_deltas_witness:
  "\<exists>r'. push ((FrameReassembler_new ReassemblyConfig_default)\<lparr>
            fr_pending := Some (begin_pending sample_packet 5)\<rparr>)
          (sample_packet\<lparr>vp_frame_id := 2, vp_keyframe := False\<rparr>) 6 = Some (r', DroppedStale)
        \<and> fr_pending r' = Some (begin_pending sample_packet 5)
        \<and> fr_newest_frame_id r' = None"
  using pending_keyframe_survives_deltas
    [of "(FrameReassembler_new ReassemblyConfig_default)\<lparr>fr_pending := Some (begin_pending sample_packet 5)\<rparr>"
        "begin_pending sample_packet 5" 6 "sample_packet\<lparr>vp_frame_id := 2, vp_keyframe := False\<rparr>"]
  by (simp add: FrameReassembler_new_def ReassemblyConfig_default_def in_time_def packet_invalid_def
      sample_packet_def begin_pending_def sat_sub_def stale_after_us_def DEFAULT_MAX_PACKETS_def
      DEFAULT_MAX_FRAME_BYTES_def)

end
