(* ===== verification/Rust_Strings.thy ===== *)
theory Rust_Strings
  imports Prelude
begin

text \<open>
  Rust strings as lists of Unicode scalar values, with the standard-library operations the code uses:
  the UTF-8 length, whitespace trimming, splitting, and ASCII case. A literal is written
  \<open>lit ''abc''\<close>.
\<close>

type_synonym rust_char = nat
type_synonym rust_string = "rust_char list"

abbreviation lit :: "string \<Rightarrow> rust_string" where "lit s \<equiv> map of_char s"

definition utf8_len :: "rust_char \<Rightarrow> nat" where
  "utf8_len c = (if c < 0x80 then 1 else if c < 0x800 then 2 else if c < 0x10000 then 3 else 4)"

definition str_len :: "rust_string \<Rightarrow> nat" where
  "str_len s = sum_list (map utf8_len s)"

text \<open>\<open>char::is_whitespace\<close>: the Unicode property White\_Space.\<close>

definition is_whitespace :: "rust_char \<Rightarrow> bool" where
  "is_whitespace c \<longleftrightarrow>
     (9 \<le> c \<and> c \<le> 13) \<or> c \<in> {0x20, 0x85, 0xA0, 0x1680} \<or> (0x2000 \<le> c \<and> c \<le> 0x200A)
     \<or> c \<in> {0x2028, 0x2029, 0x202F, 0x205F, 0x3000}"

text \<open>\<open>char::is_control\<close>: the Unicode category Cc.\<close>

definition char_is_control :: "rust_char \<Rightarrow> bool" where
  "char_is_control c \<longleftrightarrow> c < 32 \<or> (127 \<le> c \<and> c < 160)"

definition str_trim :: "rust_string \<Rightarrow> rust_string" where
  "str_trim s = rev (dropWhile is_whitespace (rev (dropWhile is_whitespace s)))"

definition trim_end_matches :: "rust_char \<Rightarrow> rust_string \<Rightarrow> rust_string" where
  "trim_end_matches c s = rev (dropWhile (\<lambda>x. x = c) (rev s))"

text \<open>\<open>str::split(c)\<close>: the pieces between the separators, at least one.\<close>

fun str_split :: "rust_char \<Rightarrow> rust_string \<Rightarrow> rust_string list" where
  "str_split c [] = [[]]"
| "str_split c (x # xs) =
     (if x = c then [] # str_split c xs
      else case str_split c xs of [] \<Rightarrow> [[x]] | p # ps \<Rightarrow> (x # p) # ps)"

definition split_once :: "rust_char \<Rightarrow> rust_string \<Rightarrow> (rust_string \<times> rust_string) option" where
  "split_once c s =
     (if c \<in> set s then Some (takeWhile (\<lambda>x. x \<noteq> c) s, tl (dropWhile (\<lambda>x. x \<noteq> c) s)) else None)"

definition ascii_upper :: "rust_char \<Rightarrow> rust_char" where
  "ascii_upper c = (if 97 \<le> c \<and> c \<le> 122 then c - 32 else c)"

definition ascii_lower :: "rust_char \<Rightarrow> rust_char" where
  "ascii_lower c = (if 65 \<le> c \<and> c \<le> 90 then c + 32 else c)"

definition eq_ignore_ascii_case :: "rust_string \<Rightarrow> rust_string \<Rightarrow> bool" where
  "eq_ignore_ascii_case a b \<longleftrightarrow> map ascii_lower a = map ascii_lower b"

definition strip_prefix :: "rust_string \<Rightarrow> rust_string \<Rightarrow> rust_string option" where
  "strip_prefix p s = (if take (length p) s = p then Some (drop (length p) s) else None)"

lemma str_len_append [simp]: "str_len (s @ t) = str_len s + str_len t"
  by (simp add: str_len_def)

lemma str_len_Nil [simp]: "str_len [] = 0"
  by (simp add: str_len_def)

lemma utf8_len_pos: "1 \<le> utf8_len c" and utf8_len_le: "utf8_len c \<le> 4"
  by (simp_all add: utf8_len_def)

lemma length_le_str_len: "length s \<le> str_len s"
proof (induction s)
  case (Cons c s)
  then show ?case using utf8_len_pos [of c] by (simp add: str_len_def)
qed simp

lemma str_trim_empty_iff: "str_trim s = [] \<longleftrightarrow> (\<forall>c \<in> set s. is_whitespace c)"
  by (auto simp: str_trim_def dropWhile_eq_Nil_conv dest: set_dropWhileD)
    (metis dropWhile_eq_self_iff hd_dropWhile list.sel(1) set_dropWhileD dropWhile_eq_Nil_conv
      hd_in_set)

lemma str_split_nonempty [simp]: "str_split c s \<noteq> []"
  by (induction s) (auto split: list.splits)

lemma str_split_no_sep: "p \<in> set (str_split c s) \<Longrightarrow> c \<notin> set p"
proof (induction s arbitrary: p)
  case (Cons x xs)
  then show ?case
    by (cases "str_split c xs") (auto split: if_splits)
qed simp

text \<open>Joining the pieces with the separator gives the string back.\<close>

fun join_with :: "rust_char \<Rightarrow> rust_string list \<Rightarrow> rust_string" where
  "join_with c [] = []"
| "join_with c [p] = p"
| "join_with c (p # ps) = p @ c # join_with c ps"

lemma join_split: "join_with c (str_split c s) = s"
proof (induction s)
  case (Cons x xs)
  show ?case
  proof (cases "str_split c xs")
    case (Cons p ps)
    then show ?thesis using \<open>join_with c (str_split c xs) = xs\<close> by (cases ps) auto
  qed simp
qed simp

lemma split_no_sep: "c \<notin> set s \<Longrightarrow> str_split c s = [s]"
  by (induction s) auto

lemma split_join:
  "ps \<noteq> [] \<Longrightarrow> \<forall>p \<in> set ps. c \<notin> set p \<Longrightarrow> str_split c (join_with c ps) = ps"
proof (induction c ps rule: join_with.induct)
  case (3 c p q ps)
  have step: "c \<notin> set p \<Longrightarrow> str_split c (p @ c # rest) = p # str_split c rest" for rest
    by (induction p) auto
  from 3 show ?case by (simp add: step)
qed (auto simp: split_no_sep)

text \<open>Decimal printing of an unsigned integer, as \<open>format!\<close> does.\<close>

fun show_dec :: "nat \<Rightarrow> rust_string" where
  "show_dec n = (if n < 10 then [48 + n] else show_dec (n div 10) @ [48 + n mod 10])"

declare show_dec.simps [simp del]

definition parse_digits :: "rust_string \<Rightarrow> nat" where
  "parse_digits s = foldl (\<lambda>a c. a * 10 + (c - 48)) 0 s"

lemma show_dec_digits: "c \<in> set (show_dec n) \<Longrightarrow> 48 \<le> c \<and> c \<le> 57"
proof (induction n rule: show_dec.induct)
  case (1 n)
  then show ?case by (cases "n < 10") (auto simp: show_dec.simps [of n])
qed

lemma parse_show_dec: "parse_digits (show_dec n) = n"
proof (induction n rule: show_dec.induct)
  case (1 n)
  show ?case
  proof (cases "n < 10")
    case True
    then show ?thesis by (simp add: show_dec.simps parse_digits_def)
  next
    case False
    with 1 have "parse_digits (show_dec (n div 10)) = n div 10" by simp
    with False show ?thesis by (simp add: show_dec.simps [of n] parse_digits_def)
  qed
qed

interpretation decimal: codec show_dec "\<lambda>s. Some (parse_digits s)" "\<lambda>_. True"
  by unfold_locales (simp add: parse_show_dec)

end
