(* ===== verification/Control.thy ===== *)
theory Control
  imports Ids Rust_Strings "HOL-Library.Multiset"
begin

text \<open>
  The control channel's vocabulary (\<open>agent/protocol/src/control.rs\<close>, \<open>input.rs\<close>, \<open>annotation.rs\<close>,
  \<open>files.rs\<close>): every session message, displays and desktop sessions, video formats and quality
  presets, with the checks \<open>SessionMessage::decode\<close> adds to the deserialiser. The postcard
  serialiser is not part of the repository: its functions are arguments of the definitions that call
  them. Floating-point statistics are carried as their 32-bit patterns.
\<close>

type_synonym f32_bits = u32

section \<open>Input, annotations and file messages\<close>

datatype cursor_shape =
    CS_Default | CS_Text | CS_Wait | CS_Crosshair | CS_UpArrow
  | CS_ResizeNorthWestSouthEast | CS_ResizeNorthEastSouthWest | CS_ResizeWestEast
  | CS_ResizeNorthSouth | CS_Move | CS_NotAllowed | CS_Pointer | CS_Progress | CS_Help
  | CS_Pin | CS_Person

datatype pointer_button = PB_Left | PB_Right | PB_Middle | PB_Back | PB_Forward

datatype remote_input =
    PointerMove display_id u16 u16
  | PointerButton display_id pointer_button bool
  | PointerButtonAt display_id u16 u16 pointer_button bool
  | Wheel display_id u16 u16
  | WheelAt display_id u16 u16 u16 u16
  | Key display_id u16 bool bool
  | TypeText display_id rust_string

fun RemoteInput_set_display_id :: "remote_input \<Rightarrow> display_id \<Rightarrow> remote_input" where
  "RemoteInput_set_display_id (PointerMove _ x y) d = PointerMove d x y"
| "RemoteInput_set_display_id (PointerButton _ b pr) d = PointerButton d b pr"
| "RemoteInput_set_display_id (PointerButtonAt _ x y b pr) d = PointerButtonAt d x y b pr"
| "RemoteInput_set_display_id (Wheel _ h v) d = Wheel d h v"
| "RemoteInput_set_display_id (WheelAt _ x y h v) d = WheelAt d x y h v"
| "RemoteInput_set_display_id (Key _ s e pr) d = Key d s e pr"
| "RemoteInput_set_display_id (TypeText _ t) d = TypeText d t"

fun RemoteInput_display_id :: "remote_input \<Rightarrow> display_id" where
  "RemoteInput_display_id (PointerMove d _ _) = d"
| "RemoteInput_display_id (PointerButton d _ _) = d"
| "RemoteInput_display_id (PointerButtonAt d _ _ _ _) = d"
| "RemoteInput_display_id (Wheel d _ _) = d"
| "RemoteInput_display_id (WheelAt d _ _ _ _) = d"
| "RemoteInput_display_id (Key d _ _ _) = d"
| "RemoteInput_display_id (TypeText d _) = d"

datatype annotation =
    An_Start display_id u16 u16
  | An_Extend display_id u16 u16
  | An_Clear

fun Annotation_display_id :: "annotation \<Rightarrow> display_id option" where
  "Annotation_display_id (An_Start d _ _) = Some d"
| "Annotation_display_id (An_Extend d _ _) = Some d"
| "Annotation_display_id An_Clear = None"

fun Annotation_set_display_id :: "annotation \<Rightarrow> display_id \<Rightarrow> annotation" where
  "Annotation_set_display_id (An_Start _ x y) d = An_Start d x y"
| "Annotation_set_display_id (An_Extend _ x y) d = An_Extend d x y"
| "Annotation_set_display_id An_Clear d = An_Clear"

definition FILE_CHUNK_BYTES :: nat where
  "FILE_CHUNK_BYTES = 32 * 1024"

datatype file_destination =
    FD_Documents
  | FD_Clipboard
  | FD_ClipboardPaste display_id
  | FD_Drop display_id u16 u16

datatype file_message =
    FM_Available
  | FM_Pick
  | FM_Begin u64 file_destination
  | FM_Entry u64 rust_string "u64 option"
  | FM_Chunk u64 bytes
  | FM_EndEntry u64 bytes
  | FM_Finish u64
  | FM_Ack u64
  | FM_Error u64 rust_string
  | FM_Totals u64 u64 u64

section \<open>Formats, presets and displays\<close>

datatype codec_kind = H264 | H265

datatype chroma_mode = Yuv420 | Yuv444

record video_profile =
  vpr_codec :: codec_kind
  vpr_chroma :: chroma_mode

datatype quality_preset = DataSaver | Balanced | BestQuality | UltraDataSaver

definition MAX_QUALITY_BITRATE_BITS_PER_SECOND :: u32 where
  "MAX_QUALITY_BITRATE_BITS_PER_SECOND = 12000000"

definition grayscale :: "quality_preset \<Rightarrow> bool" where
  "grayscale q \<longleftrightarrow> q = UltraDataSaver"

definition frames_per_second :: "quality_preset \<Rightarrow> u32 \<Rightarrow> u32" where
  "frames_per_second q configured = (if grayscale q then min configured 24 else configured)"

definition preset_bitrate :: "quality_preset \<Rightarrow> u32 \<Rightarrow> u32" where
  "preset_bitrate q configured_maximum =
     (let preferred = (case q of
          UltraDataSaver \<Rightarrow> 1000000
        | DataSaver \<Rightarrow> 3000000
        | Balanced \<Rightarrow> 6000000
        | BestQuality \<Rightarrow> MAX_QUALITY_BITRATE_BITS_PER_SECOND)
      in max (min preferred configured_maximum) 1)"

datatype pixel_format = Nv12 | Ayuv

fun pixel_chroma :: "pixel_format \<Rightarrow> chroma_mode" where
  "pixel_chroma Nv12 = Yuv420"
| "pixel_chroma Ayuv = Yuv444"

record video_format =
  vf_width :: u32
  vf_height :: u32
  vf_frames_per_second :: u16
  vf_codec :: codec_kind
  vf_pixel_format :: pixel_format
  vf_bitrate_bits_per_second :: u32

definition VideoFormat_profile :: "video_format \<Rightarrow> video_profile" where
  "VideoFormat_profile f = \<lparr>vpr_codec = vf_codec f, vpr_chroma = pixel_chroma (vf_pixel_format f)\<rparr>"

datatype connection_path = CP_Direct | CP_Turn | CP_Unknown

record connection_stats =
  cs_capture_fps :: f32_bits
  cs_stream_fps :: f32_bits
  cs_bitrate_bits_per_second :: u64
  cs_rtt_ms :: f32_bits
  cs_packet_loss_percent :: f32_bits
  cs_encode_ms :: f32_bits
  cs_decode_ms :: f32_bits
  cs_render_ms :: f32_bits
  cs_frames_encoded :: u64
  cs_frames_sent :: u64
  cs_frames_received :: u64
  cs_frames_decoded :: u64
  cs_frames_presented :: u64
  cs_frames_dropped :: u64
  cs_incomplete_frames_dropped :: u64
  cs_connection_path :: connection_path

record headless_resolution =
  hr_width :: u32
  hr_height :: u32

definition HeadlessResolution_new :: "u32 \<Rightarrow> u32 \<Rightarrow> headless_resolution" where
  "HeadlessResolution_new w h = \<lparr>hr_width = w, hr_height = h\<rparr>"

definition HeadlessResolution_HD :: headless_resolution where
  "HeadlessResolution_HD = HeadlessResolution_new 1280 720"

definition HeadlessResolution_PRESETS :: "headless_resolution list" where
  "HeadlessResolution_PRESETS =
     [HeadlessResolution_HD,
      HeadlessResolution_new 1366 768,
      HeadlessResolution_new 1600 900,
      HeadlessResolution_new 1920 1080,
      HeadlessResolution_new 2560 1440,
      HeadlessResolution_new 3840 2160]"

definition HeadlessResolution_valid :: "headless_resolution \<Rightarrow> bool" where
  "HeadlessResolution_valid r \<longleftrightarrow>
     640 \<le> hr_width r \<and> hr_width r \<le> 7680 \<and> 480 \<le> hr_height r \<and> hr_height r \<le> 4320"

definition HeadlessResolution_label :: "headless_resolution \<Rightarrow> rust_string" where
  "HeadlessResolution_label r =
     show_dec (unat (hr_width r)) @ lit '' '' @ [0xD7] @ lit '' '' @ show_dec (unat (hr_height r))"

definition HeadlessResolution_default :: headless_resolution where
  "HeadlessResolution_default = HeadlessResolution_HD"

datatype audio_format = Pcm16 | Opus | AF_Unsupported

record credential_state =
  cr_available :: bool
  cr_saved :: bool
  cr_prompt_active :: bool
  cr_can_autofill :: bool
  cr_message :: rust_string

datatype session_close_action = NoAction | SC_Lock | SC_Logout

definition SessionCloseAction_ALL :: "session_close_action list" where
  "SessionCloseAction_ALL = [NoAction, SC_Lock, SC_Logout]"

fun SessionCloseAction_label :: "session_close_action \<Rightarrow> rust_string" where
  "SessionCloseAction_label NoAction = lit ''No action''"
| "SessionCloseAction_label SC_Lock = lit ''Lock''"
| "SessionCloseAction_label SC_Logout = lit ''Logout''"

datatype desktop_session =
    DS_Console
  | DS_Background
  | DS_Rdp u32 rust_string

fun DesktopSession_label :: "desktop_session \<Rightarrow> rust_string" where
  "DesktopSession_label DS_Console = lit ''Console''"
| "DesktopSession_label DS_Background = lit ''Background''"
| "DesktopSession_label (DS_Rdp i user) = user @ lit '' (RDP '' @ show_dec (unat i) @ lit '')''"

record display =
  dp_session :: desktop_session
  dp_id :: display_id
  dp_name :: rust_string
  dp_x :: u32
  dp_y :: u32
  dp_width :: u32
  dp_height :: u32
  dp_primary :: bool

definition session_displays :: "display \<Rightarrow> display list \<Rightarrow> display list" where
  "session_displays self displays = filter (\<lambda>d. dp_session d = dp_session self) displays"

fun sessions_loop :: "desktop_session list \<Rightarrow> display list \<Rightarrow> desktop_session list" where
  "sessions_loop acc [] = acc"
| "sessions_loop acc (d # ds) =
     sessions_loop (if dp_session d \<in> set acc then acc else acc @ [dp_session d]) ds"

definition Display_sessions :: "display list \<Rightarrow> desktop_session list" where
  "Display_sessions displays = sessions_loop [] displays"

definition selection_label :: "display \<Rightarrow> nat \<Rightarrow> rust_string" where
  "selection_label self index =
     (if dp_id self = ALL_DISPLAYS_ID \<or> dp_name self = lit ''All monitors'' then lit ''All displays''
      else lit ''Display '' @ show_dec (index + 1))"

section \<open>Session messages\<close>

definition MAX_CHAT_TEXT_BYTES :: nat where
  "MAX_CHAT_TEXT_BYTES = 4 * 1024"

definition valid_chat_text :: "rust_string \<Rightarrow> bool" where
  "valid_chat_text text \<longleftrightarrow>
     str_trim text \<noteq> [] \<and> str_len text \<le> MAX_CHAT_TEXT_BYTES \<and> 0 \<notin> set text"

definition MAX_CLIPBOARD_TEXT_BYTES :: nat where
  "MAX_CLIPBOARD_TEXT_BYTES = 60 * 1024"

datatype session_message =
    SM_Start remote_session_id video_format
  | SM_Accepted video_stream_id video_format
  | SM_Rejected rust_string
  | SM_StreamConfiguration video_stream_id video_format bytes
  | SM_RequestKeyframe video_stream_id
  | SM_SetBitrate u32
  | SM_Stats connection_stats
  | SM_Stop rust_string
  | SM_DisplayConfiguration "display list" display_id video_stream_id video_format
  | SM_SelectDisplay display_id
  | SM_Input remote_input
  | SM_CursorShape cursor_shape
  | SM_Clipboard rust_string
  | SM_ViewerCapabilities "video_profile list" quality_preset chroma_mode headless_resolution
  | SM_SetQuality quality_preset
  | SM_SetChroma chroma_mode
  | SM_VideoProfileRejected video_profile rust_string
  | SM_Chat rust_string
  | SM_ChatAvailable
  | SM_FileTransfer file_message
  | SM_SetAgentInputBlocked bool
  | SM_MaintenanceState bool bool
  | SM_SetBlackout bool
  | SM_MaintenanceError rust_string
  | SM_SendSecureAttention
  | SM_ClipboardChunk u32 u32 bytes
  | SM_ServiceChannelReady
  | SM_SetCursorCapture bool
  | SM_SetWallpaperHidden bool
  | SM_SetDisplayBorder bool
  | SM_AgentPointerDisplay "display_id option"
  | SM_SetPreventIdleLock bool
  | SM_SetRecording bool
  | SM_SetSessionCloseAction session_close_action
  | SM_SetClearClipboardOnClose bool
  | SM_PromptForCredentials
  | SM_AutofillCredentials
  | SM_ForgetCredentials
  | SM_CredentialState credential_state
  | SM_SetAudio bool "audio_format list"
  | SM_Annotate annotation
  | SM_Restart bool
  | SM_DeviceState device_platform bool
  | SM_SetHeadlessResolution headless_resolution

datatype postcard_error = DeserializeBadEncoding | SerializeBufferFull | OtherPostcardError

text \<open>\<open>from_bytes\<close> stands for \<open>postcard::from_bytes\<close> at this message type.\<close>

definition SessionMessage_decode ::
    "(bytes \<Rightarrow> postcard_error + session_message) \<Rightarrow> bytes \<Rightarrow> postcard_error + session_message" where
  "SessionMessage_decode from_bytes bs =
     (case from_bytes bs of
        Inl e \<Rightarrow> Err e
      | Inr message \<Rightarrow>
          (case message of
             SM_Chat text \<Rightarrow>
               if \<not> valid_chat_text text then Err DeserializeBadEncoding else Ok message
           | SM_Input (TypeText _ text) \<Rightarrow>
               if MAX_CLIPBOARD_TEXT_BYTES < str_len text \<or> 0 \<in> set text
               then Err DeserializeBadEncoding else Ok message
           | _ \<Rightarrow> Ok message))"

section \<open>Lemmas\<close>

lemma sessions_loop_spec:
  "distinct acc \<Longrightarrow> distinct (sessions_loop acc ds)
     \<and> set (sessions_loop acc ds) = set acc \<union> dp_session ` set ds"
  by (induction acc ds rule: sessions_loop.induct) (auto simp: insert_absorb)

lemma concat_single:
  "distinct ss \<Longrightarrow> y \<in> set ss \<Longrightarrow> concat (map (\<lambda>s. if y = s then [x] else []) ss) = [x]"
proof (induction ss)
  case (Cons s ss)
  have "concat (map (\<lambda>s. if y = s then [x] else []) ss) = []" if "y \<notin> set ss"
    using that by (induction ss) auto
  with Cons show ?case by auto
qed simp

lemma mset_concat_filter:
  assumes "distinct ss" and "\<forall>x \<in> set xs. g x \<in> set ss"
  shows "mset (concat (map (\<lambda>s. filter (\<lambda>x. g x = s) xs) ss)) = mset xs"
  using assms
proof (induction xs)
  case (Cons x xs)
  have "mset (concat (map (\<lambda>s. filter (\<lambda>y. g y = s) (x # xs)) ss))
      = mset (concat (map (\<lambda>s. (if g x = s then [x] else []) @ filter (\<lambda>y. g y = s) xs) ss))"
    by (intro arg_cong [where f = "\<lambda>l. mset (concat l)"] map_cong) auto
  also have "\<dots> = mset (concat (map (\<lambda>s. if g x = s then [x] else []) ss))
      + mset (concat (map (\<lambda>s. filter (\<lambda>y. g y = s) xs) ss))"
    by (induction ss) auto
  also have "concat (map (\<lambda>s. if g x = s then [x] else []) ss) = [x]"
    using Cons.prems by (simp add: concat_single)
  finally show ?case using Cons by simp
qed (induction ss; simp)

text \<open>The text a message carries into chat or keyboard input, and what makes it acceptable.\<close>

definition message_text_ok :: "session_message \<Rightarrow> bool" where
  "message_text_ok m =
     (case m of
        SM_Chat t \<Rightarrow> (\<exists>c \<in> set t. \<not> is_whitespace c) \<and> str_len t \<le> 4096 \<and> 0 \<notin> set t
      | SM_Input (TypeText _ t) \<Rightarrow> str_len t \<le> 61440 \<and> 0 \<notin> set t
      | _ \<Rightarrow> True)"

lemma decode_checks_text:
  "SessionMessage_decode fb bs =
     (case fb bs of
        Inl e \<Rightarrow> Err e
      | Inr m \<Rightarrow> if message_text_ok m then Ok m else Err DeserializeBadEncoding)"
  by (auto simp: SessionMessage_decode_def message_text_ok_def valid_chat_text_def
      str_trim_empty_iff MAX_CHAT_TEXT_BYTES_def MAX_CLIPBOARD_TEXT_BYTES_def
      split: sum.splits session_message.splits remote_input.splits)

section \<open>Properties\<close>

text \<open>whatever the deserialiser does, a decoded control message is the deserialised one, its chat
  text is not blank, at most 4 KiB of UTF-8 and free of NUL, its typed text at most 60 KiB and free
  of NUL; a message that breaks those limits is refused as badly encoded and nothing else is.\<close>

theorem session_message_decode_sound:
  "case SessionMessage_decode from_bytes bs of
     Inr m \<Rightarrow> from_bytes bs = Ok m \<and> message_text_ok m
   | Inl e \<Rightarrow> (case from_bytes bs of
       Inl e' \<Rightarrow> e = e'
     | Inr m \<Rightarrow> \<not> message_text_ok m \<and> e = DeserializeBadEncoding)"
  by (auto simp: decode_checks_text split: sum.splits if_splits)

text \<open>grouping the displays by desktop session neither loses nor duplicates one: the sessions are
  listed once each, and the displays of the listed sessions together are the displays.\<close>

theorem sessions_partition_displays:
  "distinct (Display_sessions ds)
   \<and> set (Display_sessions ds) = dp_session ` set ds
   \<and> mset (concat (map (\<lambda>s. filter (\<lambda>d. dp_session d = s) ds) (Display_sessions ds))) = mset ds
   \<and> list_all (\<lambda>d. d \<in> set (session_displays d ds)) ds"
  using sessions_loop_spec [of "[]" ds] mset_concat_filter [of "Display_sessions ds" ds dp_session]
  by (simp add: Display_sessions_def session_displays_def list_all_iff)

text \<open>a preset's bitrate is at least 1, never above the 12 Mbps cap, and never above a positive
  administrator limit; the four presets are ordered; the capture rate is never raised above the
  configured one.\<close>

theorem quality_preset_bounds:
  "1 \<le> preset_bitrate q cap
   \<and> preset_bitrate q cap \<le> MAX_QUALITY_BITRATE_BITS_PER_SECOND
   \<and> preset_bitrate q cap \<le> max cap 1
   \<and> preset_bitrate UltraDataSaver cap \<le> preset_bitrate DataSaver cap
   \<and> preset_bitrate DataSaver cap \<le> preset_bitrate Balanced cap
   \<and> preset_bitrate Balanced cap \<le> preset_bitrate BestQuality cap
   \<and> frames_per_second q fps \<le> fps
   \<and> (frames_per_second q fps = fps \<or> q = UltraDataSaver \<and> frames_per_second q fps = 24)"
proof -
  have "preset_bitrate q cap \<le> MAX_QUALITY_BITRATE_BITS_PER_SECOND"
    by (cases q) (simp_all add: preset_bitrate_def MAX_QUALITY_BITRATE_BITS_PER_SECOND_def
        min.coboundedI1)
  moreover have "preset_bitrate q cap \<le> max cap 1" "1 \<le> preset_bitrate q cap"
    by (simp_all add: preset_bitrate_def Let_def max.coboundedI1)
  moreover have "preset_bitrate UltraDataSaver cap \<le> preset_bitrate DataSaver cap"
    "preset_bitrate DataSaver cap \<le> preset_bitrate Balanced cap"
    "preset_bitrate Balanced cap \<le> preset_bitrate BestQuality cap"
    unfolding preset_bitrate_def Let_def MAX_QUALITY_BITRATE_BITS_PER_SECOND_def
    by (simp_all only: quality_preset.case) (intro max.mono min.mono order_refl; simp)+
  moreover have "frames_per_second q fps \<le> fps"
    "frames_per_second q fps = fps \<or> q = UltraDataSaver \<and> frames_per_second q fps = 24"
    by (auto simp: frames_per_second_def grayscale_def min_def)
  ultimately show ?thesis by blast
qed

end
