(* ===== verification/Session_State.thy ===== *)
theory Session_State
  imports Prelude
begin

text \<open>
  The life cycle of a remote session (\<open>agent/protocol/src/session.rs\<close>): the checked transition
  function, the step relation it induces, and what every accepted history looks like.
\<close>

datatype session_state = Idle | Requested | Signaling | Connecting | Streaming | Closing

record invalid_session_transition =
  ist_from :: session_state
  ist_to :: session_state

definition valid_transition :: "session_state \<Rightarrow> session_state \<Rightarrow> bool" where
  "valid_transition s n \<longleftrightarrow>
     (s, n) \<in> {(Idle, Requested),
               (Requested, Signaling),
               (Signaling, Connecting),
               (Connecting, Streaming),
               (Streaming, Closing),
               (Connecting, Closing),
               (Signaling, Closing),
               (Requested, Closing),
               (Closing, Idle)}"

definition transition :: "session_state \<Rightarrow> session_state \<Rightarrow> invalid_session_transition + session_state" where
  "transition self next_state =
     (if valid_transition self next_state then Ok next_state
      else Err \<lparr>ist_from = self, ist_to = next_state\<rparr>)"

section \<open>The step relation and histories\<close>

inductive session_step :: "session_state \<Rightarrow> session_state \<Rightarrow> bool" where
  accept: "transition s n = Inr s' \<Longrightarrow> session_step s s'"

inductive_simps session_step_iff: "session_step s n"

inductive_cases to_Streaming: "session_step s Streaming"
inductive_cases to_Idle: "session_step s Idle"

lemma session_step_valid: "session_step s n \<longleftrightarrow> valid_transition s n"
  by (auto simp: session_step_iff transition_def split: if_splits)

text \<open>A history is the list of states a session has been in, oldest first, starting idle.\<close>

fun accepted_from :: "session_state \<Rightarrow> session_state list \<Rightarrow> bool" where
  "accepted_from s [] = True"
| "accepted_from s (n # ns) =
     (case transition s n of Inl _ \<Rightarrow> False | Inr s' \<Rightarrow> accepted_from s' ns)"

lemma accepted_from_Cons: "accepted_from s (n # ns) \<longleftrightarrow> valid_transition s n \<and> accepted_from n ns"
  by (simp add: transition_def)

lemma accepted_from_snoc:
  "accepted_from s (ns @ [n]) \<longleftrightarrow> accepted_from s ns \<and> valid_transition (last (s # ns)) n"
  by (induction ns arbitrary: s) (auto simp: accepted_from_Cons simp del: accepted_from.simps(2))

lemma valid_transition_target:
  "valid_transition s Streaming \<longleftrightarrow> s = Connecting"
  "valid_transition s Connecting \<longleftrightarrow> s = Signaling"
  "valid_transition s Signaling \<longleftrightarrow> s = Requested"
  "valid_transition s Requested \<longleftrightarrow> s = Idle"
  "valid_transition s Idle \<longleftrightarrow> s = Closing"
  by (auto simp: valid_transition_def)

text \<open>The state before an accepted state other than the first.\<close>

lemma accepted_last_step:
  assumes "accepted_from Idle ns" and "last (Idle # ns) \<noteq> Idle"
  obtains ms where "ns = ms @ [last (Idle # ns)]" and "accepted_from Idle ms"
    and "valid_transition (last (Idle # ms)) (last (Idle # ns))"
proof -
  have "ns \<noteq> []" using assms(2) by auto
  then have eq: "ns = butlast ns @ [last ns]" by simp
  show ?thesis
  proof (rule that [of "butlast ns"])
    show "ns = butlast ns @ [last (Idle # ns)]" using eq \<open>ns \<noteq> []\<close> by simp
    have "accepted_from Idle (butlast ns @ [last ns])" using assms(1) eq by simp
    then have "accepted_from Idle (butlast ns)"
      and "valid_transition (last (Idle # butlast ns)) (last ns)"
      unfolding accepted_from_snoc by blast+
    then show "accepted_from Idle (butlast ns)"
      and "valid_transition (last (Idle # butlast ns)) (last (Idle # ns))"
      using \<open>ns \<noteq> []\<close> by simp_all
  qed
qed

section \<open>Properties\<close>

text \<open>a session that streams got there step by step: in every accepted history that ends in
  streaming, the last four states before it are idle, requested, signaling and connecting.\<close>

theorem streaming_needs_full_setup:
  assumes "accepted_from Idle ns" and "last (Idle # ns) = Streaming"
  shows "\<exists>hs. Idle # ns = hs @ [Idle, Requested, Signaling, Connecting, Streaming]"
proof -
  obtain n4 where 4: "ns = n4 @ [Streaming]" "accepted_from Idle n4" "last (Idle # n4) = Connecting"
    using accepted_last_step [OF assms(1)] assms(2) by (auto simp: valid_transition_target)
  obtain n3 where 3: "n4 = n3 @ [Connecting]" "accepted_from Idle n3" "last (Idle # n3) = Signaling"
    using accepted_last_step [OF 4(2)] 4(3) by (auto simp: valid_transition_target)
  obtain n2 where 2: "n3 = n2 @ [Signaling]" "accepted_from Idle n2" "last (Idle # n2) = Requested"
    using accepted_last_step [OF 3(2)] 3(3) by (auto simp: valid_transition_target)
  obtain n1 where 1: "n2 = n1 @ [Requested]" "last (Idle # n1) = Idle"
    using accepted_last_step [OF 2(2)] 2(3) by (auto simp: valid_transition_target)
  have "Idle # n1 = butlast (Idle # n1) @ [Idle]" using 1(2) by (metis append_butlast_last_id list.distinct(1))
  then have "Idle # ns = butlast (Idle # n1) @ [Idle, Requested, Signaling, Connecting, Streaming]"
    using 1 2 3 4 by (metis append.assoc append_Cons append_Nil)
  then show ?thesis by blast
qed

theorem streaming_needs_full_setup_witness:
  "accepted_from Idle [Requested, Closing, Idle, Requested, Signaling, Connecting, Streaming]
   \<and> (\<exists>hs. Idle # [Requested, Closing, Idle, Requested, Signaling, Connecting, Streaming]
         = hs @ [Idle, Requested, Signaling, Connecting, Streaming])"
proof -
  have h: "accepted_from Idle [Requested, Closing, Idle, Requested, Signaling, Connecting, Streaming]"
    by (simp add: transition_def valid_transition_def)
  show ?thesis using h streaming_needs_full_setup [OF h] by simp
qed

text \<open>a refused transition names the two states and changes nothing; every state can be left;
  from every state idle is reached again in at most two accepted transitions; and idle is left only
  for requested.\<close>

theorem session_always_returns_to_idle:
  "(\<exists>ns. length ns \<le> 2 \<and> accepted_from s ns \<and> last (s # ns) = Idle)
   \<and> (\<exists>n. session_step s n)
   \<and> (transition s n = Ok n \<longleftrightarrow> session_step s n)
   \<and> (transition s n = Ok n \<or> transition s n = Err \<lparr>ist_from = s, ist_to = n\<rparr>)
   \<and> (session_step Idle n \<longleftrightarrow> n = Requested)"
proof -
  define ns where "ns = (if s = Idle then [] else if s = Closing then [Idle] else [Closing, Idle])"
  have "length ns \<le> 2 \<and> accepted_from s ns \<and> last (s # ns) = Idle"
    by (cases s) (simp_all add: ns_def transition_def valid_transition_def)
  then have "\<exists>ns. length ns \<le> 2 \<and> accepted_from s ns \<and> last (s # ns) = Idle" by blast
  moreover have "\<exists>n. session_step s n"
    by (cases s) (auto simp: session_step_valid valid_transition_def)
  moreover have "session_step Idle n \<longleftrightarrow> n = Requested"
    by (auto simp: session_step_valid valid_transition_def)
  ultimately show ?thesis by (simp add: session_step_valid transition_def)
qed

end
