(* ===== verification/Clipboard.thy ===== *)
theory Clipboard
  imports Control
begin

text \<open>
  Clipboard synchronisation (\<open>agent/protocol/src/clipboard.rs\<close>): the size checks, the cutting of a
  payload into control messages and the receiver that puts them together again. The postcard
  functions \<open>to_stdvec\<close> and \<open>take_from_bytes\<close> are arguments.
\<close>

definition MAX_CLIPBOARD_BYTES :: nat where
  "MAX_CLIPBOARD_BYTES = 32 * 1024 * 1024"

definition MAX_CLIPBOARD_WIRE_BYTES :: nat where
  "MAX_CLIPBOARD_WIRE_BYTES = MAX_CLIPBOARD_BYTES + 64"

definition CHUNK_BYTES :: nat where
  "CHUNK_BYTES = 60 * 1024"

datatype clipboard_content =
    CC_Text rust_string
  | CC_Html rust_string rust_string
  | CC_Image u32 u32 bytes

fun ClipboardContent_valid :: "clipboard_content \<Rightarrow> bool" where
  "ClipboardContent_valid (CC_Text text) \<longleftrightarrow> str_len text \<le> MAX_CLIPBOARD_BYTES"
| "ClipboardContent_valid (CC_Html html text) \<longleftrightarrow>
     usize_sat_add (str_len html) (str_len text) \<le> MAX_CLIPBOARD_BYTES"
| "ClipboardContent_valid (CC_Image width height rgba) \<longleftrightarrow>
     0 < width \<and> 0 < height
     \<and> length rgba \<le> MAX_CLIPBOARD_BYTES
     \<and> (ucast width :: u64) * ucast height = word_of_nat (length rgba div 4)
     \<and> length rgba mod 4 = 0"

definition ClipboardContent_encode ::
    "(clipboard_content \<Rightarrow> postcard_error + bytes) \<Rightarrow> clipboard_content \<Rightarrow> postcard_error + bytes" where
  "ClipboardContent_encode to_stdvec c =
     (if \<not> ClipboardContent_valid c then Err SerializeBufferFull else to_stdvec c)"

definition ClipboardContent_decode ::
    "(bytes \<Rightarrow> postcard_error + clipboard_content \<times> bytes) \<Rightarrow> bytes \<Rightarrow>
       postcard_error + clipboard_content" where
  "ClipboardContent_decode take_from_bytes bs =
     (if MAX_CLIPBOARD_WIRE_BYTES < length bs then Err DeserializeBadEncoding
      else case take_from_bytes bs of
        Inl e \<Rightarrow> Err e
      | Inr (content, remaining) \<Rightarrow>
          if \<not> ClipboardContent_valid content \<or> remaining \<noteq> [] then Err DeserializeBadEncoding
          else Ok content)"

definition chunk_message :: "nat \<Rightarrow> nat \<Rightarrow> bytes \<Rightarrow> session_message" where
  "chunk_message tot index data =
     SM_ClipboardChunk (word_of_nat (index * CHUNK_BYTES)) (word_of_nat tot) data"

definition ClipboardContent_messages ::
    "(clipboard_content \<Rightarrow> postcard_error + bytes) \<Rightarrow> clipboard_content \<Rightarrow>
       postcard_error + session_message list" where
  "ClipboardContent_messages to_stdvec c =
     (case c of
        CC_Text text \<Rightarrow>
          if str_len text \<le> MAX_CLIPBOARD_TEXT_BYTES then Ok [SM_Clipboard text]
          else (case ClipboardContent_encode to_stdvec c of
                  Inl e \<Rightarrow> Err e
                | Inr bs \<Rightarrow> Ok (map (\<lambda>(index, data). chunk_message (length bs) index data)
                                (List.enumerate 0 (chunks CHUNK_BYTES bs))))
      | _ \<Rightarrow>
          (case ClipboardContent_encode to_stdvec c of
             Inl e \<Rightarrow> Err e
           | Inr bs \<Rightarrow> Ok (map (\<lambda>(index, data). chunk_message (length bs) index data)
                           (List.enumerate 0 (chunks CHUNK_BYTES bs)))))"

record clipboard_receiver =
  cb_bytes :: bytes
  cb_total :: nat

definition ClipboardReceiver_default :: clipboard_receiver where
  "ClipboardReceiver_default = \<lparr>cb_bytes = [], cb_total = 0\<rparr>"

definition cleared :: "clipboard_receiver \<Rightarrow> clipboard_receiver" where
  "cleared r = r\<lparr>cb_bytes := [], cb_total := 0\<rparr>"

definition receive_chunk ::
    "(bytes \<Rightarrow> postcard_error + clipboard_content \<times> bytes) \<Rightarrow> clipboard_receiver \<Rightarrow>
       nat \<Rightarrow> nat \<Rightarrow> bytes \<Rightarrow> clipboard_receiver \<times> (postcard_error + clipboard_content option)" where
  "receive_chunk tfb r offset tot data =
     (let r = (if offset = 0 then r\<lparr>cb_bytes := [], cb_total := tot\<rparr> else r) in
      if tot = 0
         \<or> MAX_CLIPBOARD_WIRE_BYTES < tot
         \<or> tot \<noteq> cb_total r
         \<or> offset \<noteq> length (cb_bytes r)
         \<or> data = []
         \<or> CHUNK_BYTES < length data
         \<or> tot < usize_sat_add offset (length data)
      then (cleared r, Err DeserializeBadEncoding)
      else
        let r = r\<lparr>cb_bytes := cb_bytes r @ data\<rparr> in
        if length (cb_bytes r) = tot then
          (cleared r,
           (case ClipboardContent_decode tfb (cb_bytes r) of
              Inl e \<Rightarrow> Err e
            | Inr c \<Rightarrow> Ok (Some c)))
        else (r, Ok None))"

definition ClipboardReceiver_receive ::
    "(bytes \<Rightarrow> postcard_error + clipboard_content \<times> bytes) \<Rightarrow> clipboard_receiver \<Rightarrow> session_message \<Rightarrow>
       clipboard_receiver \<times> (postcard_error + clipboard_content option)" where
  "ClipboardReceiver_receive tfb r message =
     (case message of
        SM_Clipboard text \<Rightarrow>
          if MAX_CLIPBOARD_TEXT_BYTES < str_len text then (cleared r, Err DeserializeBadEncoding)
          else (cleared r, Ok (Some (CC_Text text)))
      | SM_ClipboardChunk offset tot data \<Rightarrow> receive_chunk tfb r (unat offset) (unat tot) data
      | _ \<Rightarrow> (r, Err DeserializeBadEncoding))"

section \<open>The receiver holds at most one payload\<close>

definition receiver_ok :: "clipboard_receiver \<Rightarrow> bool" where
  "receiver_ok r \<longleftrightarrow>
     length (cb_bytes r) \<le> cb_total r \<and> cb_total r \<le> MAX_CLIPBOARD_WIRE_BYTES
     \<and> (cb_total r = 0 \<or> length (cb_bytes r) < cb_total r)"

lemma cleared_ok [simp]: "receiver_ok (cleared r)"
  by (simp add: receiver_ok_def cleared_def)

lemma receive_chunk_ok: "receiver_ok r \<Longrightarrow> receiver_ok (fst (receive_chunk tfb r off tot d))"
  by (auto simp: receive_chunk_def Let_def receiver_ok_def cleared_def usize_sat_add_def
      usize_max_def MAX_CLIPBOARD_WIRE_BYTES_def MAX_CLIPBOARD_BYTES_def)

lemma receive_ok: "receiver_ok r \<Longrightarrow> receiver_ok (fst (ClipboardReceiver_receive tfb r m))"
  by (cases m) (auto simp: ClipboardReceiver_receive_def receive_chunk_ok)

interpretation clip: step_system "ClipboardReceiver_receive tfb" receiver_ok "\<lambda>_ _. True"
  for tfb by unfold_locales (rule receive_ok)

lemma clip_legal: "clip.legal_run tfb r ms"
  by (induction ms arbitrary: r) auto

lemma receive_delivers_valid:
  "snd (ClipboardReceiver_receive tfb r m) = Inr (Some c) \<Longrightarrow> ClipboardContent_valid c"
  by (cases m) (auto simp: ClipboardReceiver_receive_def receive_chunk_def Let_def
      ClipboardContent_decode_def MAX_CLIPBOARD_TEXT_BYTES_def MAX_CLIPBOARD_BYTES_def
      split: if_splits sum.splits)

section \<open>Chunks are put together again\<close>

lemma CHUNK_BYTES_pos: "0 < CHUNK_BYTES"
  by (simp add: CHUNK_BYTES_def)

lemma wire_bound: "n \<le> MAX_CLIPBOARD_WIRE_BYTES \<Longrightarrow> n < 2 ^ 32 \<and> n < usize_max"
  by (simp add: MAX_CLIPBOARD_WIRE_BYTES_def MAX_CLIPBOARD_BYTES_def usize_max_def)

text \<open>The receiver after the first \<open>k\<close> chunks of \<open>bs\<close>.\<close>

definition receiver_at :: "clipboard_receiver \<Rightarrow> bytes \<Rightarrow> nat \<Rightarrow> clipboard_receiver" where
  "receiver_at r bs k = r\<lparr>cb_bytes := take (k * CHUNK_BYTES) bs, cb_total := length bs\<rparr>"

lemma receive_chunk_next:
  assumes "bs \<noteq> []" and "length bs \<le> MAX_CLIPBOARD_WIRE_BYTES" and "k < length (chunks CHUNK_BYTES bs)"
    and "k = 0 \<or> r' = receiver_at r bs k"
    and "k = 0 \<Longrightarrow> r' = r"
  shows "ClipboardReceiver_receive tfb r' (chunk_message (length bs) k (chunks CHUNK_BYTES bs ! k)) =
    (if Suc k = length (chunks CHUNK_BYTES bs)
     then (cleared (receiver_at r bs (Suc k)),
           (case ClipboardContent_decode tfb bs of Inl e \<Rightarrow> Err e | Inr c \<Rightarrow> Ok (Some c)))
     else (receiver_at r bs (Suc k), Ok None))"
proof -
  let ?n = CHUNK_BYTES and ?d = "chunks CHUNK_BYTES bs ! k"
  have d: "?d = take ?n (drop (k * ?n) bs)" by (rule chunks_nth [OF CHUNK_BYTES_pos assms(3)])
  have lt: "k * ?n < length bs"
    using assms(3) less_div_ceil_iff [OF CHUNK_BYTES_pos] by (simp add: length_chunks CHUNK_BYTES_pos)
  have dlen: "?d \<noteq> []" "length ?d \<le> ?n" "k * ?n + length ?d \<le> length bs"
    using lt CHUNK_BYTES_pos by (simp_all add: d)
  have "Suc k * ?n = k * ?n + ?n" by simp
  then have grown: "take (k * ?n) bs @ ?d = take (Suc k * ?n) bs"
    by (simp only: d take_add)
  have words: "unat (word_of_nat (length bs) :: u32) = length bs"
    "unat (word_of_nat (k * ?n) :: u32) = k * ?n"
    using wire_bound [OF assms(2)] lt unat_of_nat [where ?'a = 32, of "k * ?n"]
    by (simp_all add: unat_of_nat del: of_nat_mult)
  have full: "length (take (Suc k * ?n) bs) = length bs \<longleftrightarrow> Suc k = length (chunks ?n bs)"
    using chunks_last_iff [OF CHUNK_BYTES_pos assms(3)] by auto
  have fits: "\<not> length bs < usize_sat_add (k * ?n) (length ?d)"
    using dlen(3) by (simp add: usize_sat_add_def)
  define r0 where "r0 = receiver_at r bs k"
  have start: "(if k * ?n = 0 then r'\<lparr>cb_bytes := [], cb_total := length bs\<rparr> else r') = r0"
    using assms(4,5) CHUNK_BYTES_pos by (auto simp: r0_def receiver_at_def)
  have r0: "cb_total r0 = length bs" "length (cb_bytes r0) = k * ?n"
    "r0\<lparr>cb_bytes := cb_bytes r0 @ ?d\<rparr> = receiver_at r bs (Suc k)"
    using lt grown by (simp_all add: r0_def receiver_at_def)
  have all: "length (cb_bytes (receiver_at r bs (Suc k))) = length bs \<Longrightarrow>
      cb_bytes (receiver_at r bs (Suc k)) = bs"
    by (simp add: receiver_at_def)
  have "ClipboardReceiver_receive tfb r' (chunk_message (length bs) k ?d)
      = receive_chunk tfb r' (k * ?n) (length bs) ?d"
    by (simp add: ClipboardReceiver_receive_def chunk_message_def words del: of_nat_mult)
  also have "\<dots> = (if length (cb_bytes (receiver_at r bs (Suc k))) = length bs
      then (cleared (receiver_at r bs (Suc k)),
           (case ClipboardContent_decode tfb (cb_bytes (receiver_at r bs (Suc k))) of
              Inl e \<Rightarrow> Err e | Inr c \<Rightarrow> Ok (Some c)))
      else (receiver_at r bs (Suc k), Ok None))"
    unfolding receive_chunk_def start Let_def
    using r0 assms(1,2) dlen fits by simp
  finally show ?thesis using full all by (auto simp: receiver_at_def)
qed

lemma run_chunks:
  assumes "bs \<noteq> []" and "length bs \<le> MAX_CLIPBOARD_WIRE_BYTES"
    and "cs = chunks CHUNK_BYTES bs" and "j \<le> length cs" and "0 < j"
    and "length cs - j = k" and "k = 0 \<or> r' = receiver_at r bs k" and "k = 0 \<Longrightarrow> r' = r"
  shows "snd (run (ClipboardReceiver_receive tfb) r'
      (map (\<lambda>i. chunk_message (length bs) i (cs ! i)) [k..<length cs]))
    = replicate (j - 1) (Ok None)
      @ [case ClipboardContent_decode tfb bs of Inl e \<Rightarrow> Err e | Inr c \<Rightarrow> Ok (Some c)]"
  using assms(4-)
proof (induction j arbitrary: k r')
  case (Suc j)
  have k: "k < length cs" using Suc.prems by linarith
  note step = receive_chunk_next [OF assms(1,2), of k r' r tfb]
  have next_step: "ClipboardReceiver_receive tfb r' (chunk_message (length bs) k (cs ! k)) =
    (if Suc k = length cs
     then (cleared (receiver_at r bs (Suc k)),
           (case ClipboardContent_decode tfb bs of Inl e \<Rightarrow> Err e | Inr c \<Rightarrow> Ok (Some c)))
     else (receiver_at r bs (Suc k), Ok None))"
    using step k Suc.prems(4,5) by (simp add: assms(3))
  show ?case
  proof (cases "j = 0")
    case True
    then have last: "Suc k = length cs" using Suc.prems k by linarith
    then have "[k..<length cs] = [k]" by (metis upt_conv_Cons upt_rec lessI less_irrefl)
    then show ?thesis using next_step last True by (simp add: Let_def)
  next
    case False
    then have more: "Suc k \<noteq> length cs" using Suc.prems k by linarith
    have "snd (run (ClipboardReceiver_receive tfb) (receiver_at r bs (Suc k))
        (map (\<lambda>i. chunk_message (length bs) i (cs ! i)) [Suc k..<length cs]))
      = replicate (j - 1) (Ok None)
        @ [case ClipboardContent_decode tfb bs of Inl e \<Rightarrow> Err e | Inr c \<Rightarrow> Ok (Some c)]"
      by (rule Suc.IH) (use Suc.prems False k in auto)
    then show ?thesis
      using next_step more False k by (cases j) (simp_all add: upt_conv_Cons Let_def)
  qed
qed simp

lemma messages_as_chunks:
  assumes "ClipboardContent_messages to_stdvec c = Inr ms"
  shows "(\<exists>t. c = CC_Text t \<and> str_len t \<le> MAX_CLIPBOARD_TEXT_BYTES \<and> ms = [SM_Clipboard t])
    \<or> (\<exists>bs. to_stdvec c = Inr bs \<and> ClipboardContent_valid c
         \<and> ms = map (\<lambda>i. chunk_message (length bs) i (chunks CHUNK_BYTES bs ! i))
                  [0..<length (chunks CHUNK_BYTES bs)])"
proof -
  have enum: "map (\<lambda>(index, data). g index data) (List.enumerate 0 xs)
      = map (\<lambda>i. g i (xs ! i)) [0..<length xs]" for g :: "nat \<Rightarrow> bytes \<Rightarrow> session_message" and xs
    by (rule nth_equalityI) (simp_all add: enumerate_eq_zip)
  show ?thesis
    using assms
    by (auto simp: ClipboardContent_messages_def ClipboardContent_encode_def enum
        split: clipboard_content.splits if_splits sum.splits)
qed

section \<open>Properties\<close>

text \<open>C26: sending a valid clipboard and receiving its messages in order, whatever the receiver was in
  the middle of, yields nothing until the last message and then exactly the content sent. Postcard
  is assumed to invert its own encoding of this content within the wire limit.\<close>

theorem clipboard_transfer_roundtrip:
  assumes "ClipboardContent_messages to_stdvec c = Ok ms"
    and "\<And>bs. to_stdvec c = Ok bs \<Longrightarrow> take_from_bytes bs = Ok (c, [])"
    and "\<And>bs. to_stdvec c = Ok bs \<Longrightarrow> bs \<noteq> [] \<and> length bs \<le> MAX_CLIPBOARD_WIRE_BYTES"
  shows "snd (run (ClipboardReceiver_receive take_from_bytes) r ms)
    = replicate (length ms - 1) (Ok None) @ [Ok (Some c)]"
  using messages_as_chunks [OF assms(1)]
proof (elim disjE exE conjE)
  fix t assume "c = CC_Text t" "str_len t \<le> MAX_CLIPBOARD_TEXT_BYTES" "ms = [SM_Clipboard t]"
  then show ?thesis by (simp add: ClipboardReceiver_receive_def Let_def)
next
  fix bs assume bs: "to_stdvec c = Inr bs" "ClipboardContent_valid c"
    and ms: "ms = map (\<lambda>i. chunk_message (length bs) i (chunks CHUNK_BYTES bs ! i))
                  [0..<length (chunks CHUNK_BYTES bs)]"
  note wire = assms(3) [OF bs(1)]
  have "ClipboardContent_decode take_from_bytes bs = Ok c"
    using wire bs(2) assms(2) [OF bs(1)] by (simp add: ClipboardContent_decode_def)
  moreover have "chunks CHUNK_BYTES bs \<noteq> []" using wire by (simp add: chunks_nonempty)
  ultimately show ?thesis
    using run_chunks [of bs "chunks CHUNK_BYTES bs" "length (chunks CHUNK_BYTES bs)" 0 r r
        take_from_bytes] wire ms by simp
qed

theorem clipboard_transfer_roundtrip_witness:
  "snd (run (ClipboardReceiver_receive (\<lambda>_. Ok (CC_Html (lit ''<b>x</b>'') (lit ''x''), [])))
      \<lparr>cb_bytes = [9], cb_total = 4\<rparr>
      [SM_ClipboardChunk 0 3 [1, 2, 3]])
   = [Ok (Some (CC_Html (lit ''<b>x</b>'') (lit ''x'')))]"
proof -
  let ?c = "CC_Html (lit ''<b>x</b>'') (lit ''x'')"
  let ?bs = "[1, 2, 3 :: byte]"
  have len: "str_len (lit ''<b>x</b>'') = 8" "str_len (lit ''x'') = 1"
    by (simp_all add: str_len_def utf8_len_def)
  then have "ClipboardContent_messages (\<lambda>_. Ok ?bs) ?c = Ok [SM_ClipboardChunk 0 3 ?bs]"
    by (simp add: ClipboardContent_messages_def ClipboardContent_encode_def usize_sat_add_def
        MAX_CLIPBOARD_BYTES_def usize_max_def chunks_step CHUNK_BYTES_def chunk_message_def)
  from clipboard_transfer_roundtrip [OF this, of "\<lambda>_. Ok (?c, [])" "\<lparr>cb_bytes = [9], cb_total = 4\<rparr>"]
  show ?thesis by (simp add: MAX_CLIPBOARD_WIRE_BYTES_def)
qed

text \<open>no sequence of control messages makes the clipboard receiver buffer more than the announced
  total or more than the wire limit of 32 MiB and 64 bytes, and whatever it delivers is a valid
  clipboard.\<close>

theorem clipboard_receiver_bounded:
  "let r = fst (run (ClipboardReceiver_receive tfb) ClipboardReceiver_default ms) in
     length (cb_bytes r) \<le> cb_total r \<and> cb_total r \<le> MAX_CLIPBOARD_WIRE_BYTES
     \<and> (case snd (ClipboardReceiver_receive tfb r m) of
          Inr (Some c) \<Rightarrow> ClipboardContent_valid c
        | _ \<Rightarrow> True)"
proof -
  have "receiver_ok ClipboardReceiver_default"
    by (simp add: receiver_ok_def ClipboardReceiver_default_def)
  then have "receiver_ok (fst (run (ClipboardReceiver_receive tfb) ClipboardReceiver_default ms))"
    by (rule clip.run_inv) (rule clip_legal)
  then show ?thesis
    using receive_delivers_valid by (auto simp: Let_def receiver_ok_def split: sum.splits option.splits)
qed

end
