(* ===== verification/Sender.thy ===== *)
theory Sender
  imports Video "HOL-Library.Sublist"
begin

text \<open>
  The Agent's video sender: the queue between encoder and network (\<open>agent/src/remote/video.rs\<close>), and
  the rate control of \<open>agent/src/remote/bitrate.rs\<close>: fragment pacing, the live additive-increase
  multiplicative-decrease controller and the restart ladder for encoders with a fixed bitrate. Times
  are 64-bit microseconds and rates 32-bit, as in the source. Waiting in \<open>next\<close> and \<open>keyframe\<close> is
  modelled as the poll that finds nothing; the mutexes serialise the operations.
\<close>

section \<open>The encoded-frame queue\<close>

definition MAX_ENCODED_FRAME_QUEUE :: nat where
  "MAX_ENCODED_FRAME_QUEUE = 15"

record latest_frame_slot =
  ls_frames :: "encoded_frame list"
  ls_keyframe :: "encoded_frame option"
  ls_dropped :: u64

definition LatestFrameSlot_default :: latest_frame_slot where
  "LatestFrameSlot_default = \<lparr>ls_frames = [], ls_keyframe = None, ls_dropped = 0\<rparr>"

definition slot_publish :: "latest_frame_slot \<Rightarrow> encoded_frame \<Rightarrow> latest_frame_slot" where
  "slot_publish s frame =
     (let s = (if ef_keyframe frame then s\<lparr>ls_keyframe := Some frame\<rparr> else s);
          s = (if MAX_ENCODED_FRAME_QUEUE \<le> length (ls_frames s)
               then s\<lparr>ls_dropped := ls_dropped s + word_of_nat (length (ls_frames s)), ls_frames := []\<rparr>
               else s)
      in s\<lparr>ls_frames := ls_frames s @ [frame]\<rparr>)"

definition slot_next :: "latest_frame_slot \<Rightarrow> latest_frame_slot \<times> encoded_frame option" where
  "slot_next s =
     (case ls_frames s of
        [] \<Rightarrow> (s, None)
      | f # fs \<Rightarrow> (s\<lparr>ls_frames := fs\<rparr>, Some f))"

definition slot_clear_pending :: "latest_frame_slot \<Rightarrow> latest_frame_slot" where
  "slot_clear_pending s = s\<lparr>ls_frames := []\<rparr>"

definition slot_clear :: "latest_frame_slot \<Rightarrow> latest_frame_slot" where
  "slot_clear s = (slot_clear_pending s)\<lparr>ls_keyframe := None\<rparr>"

definition slot_drop_pending :: "latest_frame_slot \<Rightarrow> latest_frame_slot \<times> nat" where
  "slot_drop_pending s =
     (let dropped = length (ls_frames s)
      in (s\<lparr>ls_frames := [], ls_dropped := ls_dropped s + word_of_nat dropped\<rparr>, dropped))"

definition slot_discard_through :: "latest_frame_slot \<Rightarrow> u64 \<Rightarrow> latest_frame_slot" where
  "slot_discard_through s frame_id =
     s\<lparr>ls_frames := dropWhile (\<lambda>f. ef_frame_id f \<le> frame_id) (ls_frames s)\<rparr>"

datatype slot_op =
    Publish encoded_frame | Next | Clear | Clear_Pending | Drop_Pending | Discard_Through u64

fun slot_step :: "latest_frame_slot \<Rightarrow> slot_op \<Rightarrow> latest_frame_slot \<times> encoded_frame option" where
  "slot_step s (Publish f) = (slot_publish s f, None)"
| "slot_step s Next = slot_next s"
| "slot_step s Clear = (slot_clear s, None)"
| "slot_step s Clear_Pending = (slot_clear_pending s, None)"
| "slot_step s Drop_Pending = (fst (slot_drop_pending s), None)"
| "slot_step s (Discard_Through i) = (slot_discard_through s i, None)"

section \<open>Pacing\<close>

definition VIDEO_PACING_BURST_US :: u64 where
  "VIDEO_PACING_BURST_US = 20000"

record video_pacer =
  next_send_us :: u64

definition fragment_duration_us :: "nat \<Rightarrow> u32 \<Rightarrow> u64" where
  "fragment_duration_us n bits_per_second =
     word_of_nat (div_ceil (unat (sat_mul (word_of_nat n :: u64) 8000000))
                           (unat (max bits_per_second 1)))"

definition pacer_reserve :: "video_pacer \<Rightarrow> u64 \<Rightarrow> nat \<Rightarrow> u32 \<Rightarrow> video_pacer \<times> u64" where
  "pacer_reserve s now_us n bits_per_second =
     (let duration_us = fragment_duration_us n bits_per_second;
          next = sat_add (max (next_send_us s) now_us) duration_us
      in (s\<lparr>next_send_us := next\<rparr>, sat_sub next (sat_add now_us VIDEO_PACING_BURST_US)))"

definition video_pacing_bitrate :: "u32 \<Rightarrow> u32 \<Rightarrow> u32" where
  "video_pacing_bitrate ceiling audio_bits_per_second =
     max (sat_sub ceiling audio_bits_per_second) (ceiling div 2)"

section \<open>The adaptive bitrate controller\<close>

definition VIDEO_BUFFER_DRAIN_MS :: u32 where
  "VIDEO_BUFFER_DRAIN_MS = 50"

definition VIDEO_BUFFER_CONGESTED_MS :: u32 where
  "VIDEO_BUFFER_CONGESTED_MS = 150"

definition BITRATE_DECREASE_INTERVAL_US :: u64 where
  "BITRATE_DECREASE_INTERVAL_US = 500000"

definition BITRATE_INCREASE_INTERVAL_US :: u64 where
  "BITRATE_INCREASE_INTERVAL_US = 5000000"

record adaptive_bitrate =
  ab_minimum :: u32
  ab_maximum :: u32
  ab_current :: u32
  ab_last_decrease_us :: u64
  ab_healthy_since_us :: u64

definition AdaptiveBitrate_new :: "u32 \<Rightarrow> adaptive_bitrate" where
  "AdaptiveBitrate_new maximum = \<lparr>
     ab_minimum = min (max (maximum div 8) 1000000) maximum,
     ab_maximum = maximum,
     ab_current = maximum,
     ab_last_decrease_us = 0,
     ab_healthy_since_us = 0\<rparr>"

definition ab_set_maximum :: "adaptive_bitrate \<Rightarrow> u32 \<Rightarrow> adaptive_bitrate \<times> u32 option" where
  "ab_set_maximum s maximum =
     (let maximum = max maximum 1 in
      if ab_maximum s = maximum then (s, None)
      else
        (s\<lparr>ab_maximum := maximum,
           ab_minimum := min (max (maximum div 8) 500000) maximum,
           ab_current := maximum,
           ab_last_decrease_us := 0,
           ab_healthy_since_us := 0\<rparr>,
         Some maximum))"

definition bitrate_duration_bytes :: "u32 \<Rightarrow> u32 \<Rightarrow> nat" where
  "bitrate_duration_bytes bits_per_second duration_ms =
     max (div_ceil (unat (sat_mul (ucast bits_per_second :: u64) (ucast duration_ms))) 8000)
         (16 * 1024)"

definition drain_bytes :: "adaptive_bitrate \<Rightarrow> nat" where
  "drain_bytes s = bitrate_duration_bytes (ab_current s) VIDEO_BUFFER_DRAIN_MS"

definition congested_bytes :: "adaptive_bitrate \<Rightarrow> nat" where
  "congested_bytes s = bitrate_duration_bytes (ab_current s) VIDEO_BUFFER_CONGESTED_MS"

definition ab_congested :: "adaptive_bitrate \<Rightarrow> nat \<Rightarrow> nat \<Rightarrow> bool \<Rightarrow> bool" where
  "ab_congested s buffered_bytes queued_frames reference_chain_lost \<longleftrightarrow>
     reference_chain_lost
     \<or> congested_bytes s \<le> buffered_bytes
     \<or> (MAX_ENCODED_FRAME_QUEUE * 4) div 5 \<le> queued_frames"

definition ab_healthy :: "adaptive_bitrate \<Rightarrow> nat \<Rightarrow> nat \<Rightarrow> bool" where
  "ab_healthy s buffered_bytes queued_frames \<longleftrightarrow>
     buffered_bytes \<le> drain_bytes s \<and> queued_frames \<le> 1"

definition ab_decrease :: "adaptive_bitrate \<Rightarrow> u64 \<Rightarrow> adaptive_bitrate \<times> u32 option" where
  "ab_decrease s now_us =
     (let s = s\<lparr>ab_healthy_since_us := 0\<rparr> in
      if ab_last_decrease_us s = 0
         \<or> BITRATE_DECREASE_INTERVAL_US \<le> sat_sub now_us (ab_last_decrease_us s)
      then
        let s = s\<lparr>ab_last_decrease_us := max now_us 1\<rparr>;
            reduced = (ucast ((ucast (ab_current s) * 3 :: u64) div 4) :: u32);
            reduced = max reduced (ab_minimum s)
        in if reduced < ab_current s then (s\<lparr>ab_current := reduced\<rparr>, Some reduced) else (s, None)
      else (s, None))"

definition ab_increase :: "adaptive_bitrate \<Rightarrow> u64 \<Rightarrow> nat \<Rightarrow> nat \<Rightarrow> adaptive_bitrate \<times> u32 option" where
  "ab_increase s now_us buffered_bytes queued_frames =
     (if \<not> ab_healthy s buffered_bytes queued_frames \<or> ab_maximum s \<le> ab_current s then
        (s\<lparr>ab_healthy_since_us := 0\<rparr>, None)
      else if ab_healthy_since_us s = 0 then (s\<lparr>ab_healthy_since_us := max now_us 1\<rparr>, None)
      else if BITRATE_INCREASE_INTERVAL_US \<le> sat_sub now_us (ab_healthy_since_us s) then
        let increase = max (ab_current s div 10) 250000;
            current = min (sat_add (ab_current s) increase) (ab_maximum s)
        in (s\<lparr>ab_healthy_since_us := max now_us 1, ab_current := current\<rparr>, Some current)
      else (s, None))"

definition ab_observe ::
    "adaptive_bitrate \<Rightarrow> u64 \<Rightarrow> nat \<Rightarrow> nat \<Rightarrow> bool \<Rightarrow> adaptive_bitrate \<times> u32 option" where
  "ab_observe s now_us buffered_bytes queued_frames reference_chain_lost =
     (if ab_congested s buffered_bytes queued_frames reference_chain_lost then ab_decrease s now_us
      else ab_increase s now_us buffered_bytes queued_frames)"

definition ab_rebase :: "adaptive_bitrate \<Rightarrow> u32 \<Rightarrow> adaptive_bitrate" where
  "ab_rebase s bits_per_second =
     (let bits_per_second = max bits_per_second 1 in
      if ab_current s = bits_per_second then s
      else s\<lparr>ab_current := bits_per_second, ab_last_decrease_us := 0, ab_healthy_since_us := 0\<rparr>)"

section \<open>The restart ladder\<close>

definition LADDER_STEPS_PERCENT :: "u64 list" where
  "LADDER_STEPS_PERCENT = [100, 70, 50, 35, 25]"

definition LADDER_MINIMUM_BITRATE :: u32 where
  "LADDER_MINIMUM_BITRATE = 500000"

definition LADDER_CONGESTED_US :: u64 where
  "LADDER_CONGESTED_US = 2500000"

definition LADDER_CONGESTION_GAP_US :: u64 where
  "LADDER_CONGESTION_GAP_US = 1000000"

definition LADDER_RESTART_SPACING_US :: u64 where
  "LADDER_RESTART_SPACING_US = 5000000"

definition LADDER_INITIAL_HOLD_US :: u64 where
  "LADDER_INITIAL_HOLD_US = 20000000"

definition LADDER_MAXIMUM_HOLD_US :: u64 where
  "LADDER_MAXIMUM_HOLD_US = 120000000"

definition LADDER_FAILED_STEP_UP_US :: u64 where
  "LADDER_FAILED_STEP_UP_US = 10000000"

definition LADDER_STABLE_STEP_UP_US :: u64 where
  "LADDER_STABLE_STEP_UP_US = 60000000"

record restart_ladder =
  rl_maximum :: u32
  rl_congested_since_us :: u64
  rl_last_congested_us :: u64
  rl_healthy_since_us :: u64
  rl_last_restart_us :: u64
  rl_last_step_up_us :: u64
  rl_hold_us :: u64

definition RestartLadder_new :: "u32 \<Rightarrow> restart_ladder" where
  "RestartLadder_new maximum = \<lparr>
     rl_maximum = max maximum 1,
     rl_congested_since_us = 0,
     rl_last_congested_us = 0,
     rl_healthy_since_us = 0,
     rl_last_restart_us = 0,
     rl_last_step_up_us = 0,
     rl_hold_us = LADDER_INITIAL_HOLD_US\<rparr>"

definition rl_set_maximum :: "restart_ladder \<Rightarrow> u32 \<Rightarrow> restart_ladder" where
  "rl_set_maximum s maximum =
     (let maximum = max maximum 1 in
      if rl_maximum s \<noteq> maximum then RestartLadder_new maximum else s)"

definition rl_steps :: "restart_ladder \<Rightarrow> u32 list" where
  "rl_steps s =
     (let floor = min (max (rl_maximum s div 8) LADDER_MINIMUM_BITRATE) (rl_maximum s)
      in map (\<lambda>percent. max (ucast ((ucast (rl_maximum s) * percent) div 100) :: u32) floor)
           LADDER_STEPS_PERCENT)"

definition rl_spaced :: "restart_ladder \<Rightarrow> u64 \<Rightarrow> bool" where
  "rl_spaced s now_us \<longleftrightarrow>
     rl_last_restart_us s = 0 \<or> LADDER_RESTART_SPACING_US \<le> sat_sub now_us (rl_last_restart_us s)"

definition rl_note_congestion :: "restart_ladder \<Rightarrow> u64 \<Rightarrow> restart_ladder" where
  "rl_note_congestion s now_us =
     (let s = s\<lparr>rl_healthy_since_us := 0\<rparr>;
          s = (if rl_congested_since_us s = 0
                  \<or> LADDER_CONGESTION_GAP_US < sat_sub now_us (rl_last_congested_us s)
               then s\<lparr>rl_congested_since_us := now_us\<rparr> else s)
      in s\<lparr>rl_last_congested_us := now_us\<rparr>)"

definition rl_judge_step_up :: "restart_ladder \<Rightarrow> restart_ladder" where
  "rl_judge_step_up s =
     (if rl_last_step_up_us s \<noteq> 0 then
        let s = (if sat_sub (rl_congested_since_us s) (rl_last_step_up_us s) < LADDER_FAILED_STEP_UP_US
                 then s\<lparr>rl_hold_us := min (rl_hold_us s * 2) LADDER_MAXIMUM_HOLD_US\<rparr>
                 else s)
        in s\<lparr>rl_last_step_up_us := 0\<rparr>
      else s)"

definition rl_observe_congested ::
    "restart_ladder \<Rightarrow> u64 \<Rightarrow> u32 \<Rightarrow> bool \<Rightarrow> restart_ladder \<times> u32 option" where
  "rl_observe_congested s now_us encoder_bitrate spaced =
     (let s = rl_note_congestion s now_us in
      if sat_sub now_us (rl_congested_since_us s) < LADDER_CONGESTED_US then (s, None)
      else
        let s = rl_judge_step_up s in
        if \<not> spaced then (s, None)
        else
          case find (\<lambda>step. step < encoder_bitrate) (rl_steps s) of
            None \<Rightarrow> (s, None)
          | Some lower \<Rightarrow>
              (s\<lparr>rl_last_restart_us := now_us, rl_congested_since_us := 0,
                 rl_last_congested_us := 0\<rparr>, Some lower))"

definition rl_observe_clear ::
    "restart_ladder \<Rightarrow> u64 \<Rightarrow> u32 \<Rightarrow> bool \<Rightarrow> bool \<Rightarrow> bool \<Rightarrow> restart_ladder \<times> u32 option" where
  "rl_observe_clear s now_us encoder_bitrate spaced healthy recording =
     (let s = (if rl_last_step_up_us s \<noteq> 0
                  \<and> LADDER_STABLE_STEP_UP_US \<le> sat_sub now_us (rl_last_step_up_us s)
               then s\<lparr>rl_hold_us := LADDER_INITIAL_HOLD_US, rl_last_step_up_us := 0\<rparr> else s)
      in
      case find (\<lambda>step. encoder_bitrate < step) (rev (rl_steps s)) of
        None \<Rightarrow> (s\<lparr>rl_healthy_since_us := 0\<rparr>, None)
      | Some higher \<Rightarrow>
          if \<not> healthy \<or> recording then (s\<lparr>rl_healthy_since_us := 0\<rparr>, None)
          else if rl_healthy_since_us s = 0 then (s\<lparr>rl_healthy_since_us := now_us\<rparr>, None)
          else if sat_sub now_us (rl_healthy_since_us s) < rl_hold_us s \<or> \<not> spaced then (s, None)
          else
            (s\<lparr>rl_healthy_since_us := 0, rl_last_restart_us := now_us, rl_last_step_up_us := now_us\<rparr>,
             Some higher))"

definition rl_observe ::
    "restart_ladder \<Rightarrow> u64 \<Rightarrow> u32 \<Rightarrow> bool \<Rightarrow> bool \<Rightarrow> bool \<Rightarrow> restart_ladder \<times> u32 option" where
  "rl_observe s now_us encoder_bitrate congested healthy recording =
     (let now_us = max now_us 1;
          spaced = rl_spaced s now_us
      in if congested then rl_observe_congested s now_us encoder_bitrate spaced
         else rl_observe_clear s now_us encoder_bitrate spaced healthy recording)"

record encoder_status =
  es_bits_per_second :: u32
  es_live_bitrate :: bool
  es_recording :: bool

definition es_publish :: "encoder_status \<Rightarrow> u32 \<Rightarrow> bool \<Rightarrow> bool \<Rightarrow> encoder_status" where
  "es_publish s bits_per_second live_bitrate recording =
     s\<lparr>es_bits_per_second := max bits_per_second 1, es_live_bitrate := live_bitrate,
       es_recording := recording\<rparr>"

definition es_read_bits_per_second :: "encoder_status \<Rightarrow> u32" where
  "es_read_bits_per_second s = max (es_bits_per_second s) 1"


section \<open>Queue: bounded, in order, newest keyframe kept\<close>

fun op_published :: "slot_op \<Rightarrow> encoded_frame list" where
  "op_published (Publish f) = [f]"
| "op_published _ = []"

fun op_keyframe :: "encoded_frame option \<Rightarrow> slot_op \<Rightarrow> encoded_frame option" where
  "op_keyframe k (Publish f) = (if ef_keyframe f then Some f else k)"
| "op_keyframe k Clear = None"
| "op_keyframe k _ = k"

abbreviation published :: "slot_op list \<Rightarrow> encoded_frame list" where
  "published ops \<equiv> concat (map op_published ops)"

abbreviation newest_keyframe :: "slot_op list \<Rightarrow> encoded_frame option" where
  "newest_keyframe ops \<equiv> foldl op_keyframe None ops"

abbreviation delivered :: "'a option list \<Rightarrow> 'a list" where
  "delivered outs \<equiv> concat (map (\<lambda>r. case r of None \<Rightarrow> [] | Some f \<Rightarrow> [f]) outs)"

lemmas slot_defs = slot_publish_def slot_next_def slot_clear_def slot_clear_pending_def
  slot_drop_pending_def slot_discard_through_def

interpretation slot: step_system slot_step
  "\<lambda>s. length (ls_frames s) \<le> MAX_ENCODED_FRAME_QUEUE" "\<lambda>_ _. True"
proof
  fix s :: latest_frame_slot and i
  assume "length (ls_frames s) \<le> MAX_ENCODED_FRAME_QUEUE"
  moreover have "length (dropWhile P xs) \<le> length xs" for P and xs :: "'x list"
    by (rule length_dropWhile_le)
  ultimately show "length (ls_frames (fst (slot_step s i))) \<le> MAX_ENCODED_FRAME_QUEUE"
    by (cases i)
      (auto simp: slot_defs Let_def MAX_ENCODED_FRAME_QUEUE_def split: list.splits intro: order_trans)
qed

lemma slot_legal_run [simp]: "slot.legal_run s ops"
  by (induction ops arbitrary: s) auto

lemma subseq_dropWhile: "subseq (dropWhile P xs) xs"
  by (metis dropWhile_eq_drop suffix_drop suffix_imp_subseq)

lemma slot_step_subseq:
  "subseq (delivered [snd (slot_step s i)] @ ls_frames (fst (slot_step s i))) (ls_frames s @ op_published i)"
  by (cases i) (auto simp: slot_defs Let_def subseq_dropWhile split: list.splits)

lemma slot_run_subseq:
  "subseq (delivered (snd (run slot_step s ops)) @ ls_frames (fst (run slot_step s ops)))
     (ls_frames s @ published ops)"
proof (induction ops arbitrary: s)
  case (Cons i ops)
  define s' where "s' = fst (slot_step s i)"
  have "subseq (delivered [snd (slot_step s i)]
           @ delivered (snd (run slot_step s' ops)) @ ls_frames (fst (run slot_step s' ops)))
         (delivered [snd (slot_step s i)] @ ls_frames s' @ published ops)"
    using Cons.IH by (simp only: subseq_append')
  also have "subseq \<dots> ((ls_frames s @ op_published i) @ published ops)"
    using slot_step_subseq [of s i] unfolding s'_def append.assoc [symmetric]
    by (rule list_emb_append_mono) simp
  finally show ?case
    by (simp add: Let_def s'_def [symmetric] del: slot_step.simps)
qed simp

lemma slot_step_keyframe: "ls_keyframe (fst (slot_step s i)) = op_keyframe (ls_keyframe s) i"
  by (cases i) (auto simp: slot_defs Let_def split: list.splits)

lemma slot_run_keyframe:
  "ls_keyframe (fst (run slot_step s ops)) = foldl op_keyframe (ls_keyframe s) ops"
  by (induction ops arbitrary: s) (simp_all add: Let_def slot_step_keyframe)

text \<open>For every sequence of queue operations from the empty queue, at most 15 frames are queued, the
  frames handed to the sender followed by the queued ones are a subsequence of the published ones (none
  is reordered, repeated or invented), and the retained keyframe is the newest one published since the
  last clear.\<close>

theorem frame_queue_correct:
  "let r = run slot_step LatestFrameSlot_default ops in
     length (ls_frames (fst r)) \<le> 15
     \<and> subseq (delivered (snd r) @ ls_frames (fst r)) (published ops)
     \<and> ls_keyframe (fst r) = newest_keyframe ops"
  using slot.run_inv [of LatestFrameSlot_default ops] slot_run_subseq [of LatestFrameSlot_default ops]
    slot_run_keyframe [of LatestFrameSlot_default ops]
  by (simp add: Let_def LatestFrameSlot_default_def MAX_ENCODED_FRAME_QUEUE_def)

section \<open>Pacing never runs ahead of the rate\<close>

type_synonym fragment_request = "u64 \<times> nat \<times> u32"

fun pacer_step :: "video_pacer \<Rightarrow> fragment_request \<Rightarrow> video_pacer \<times> u64" where
  "pacer_step s (now_us, n, bits_per_second) = pacer_reserve s now_us n bits_per_second"

abbreviation request_duration :: "fragment_request \<Rightarrow> nat" where
  "request_duration q \<equiv> unat (fragment_duration_us (fst (snd q)) (snd (snd q)))"

lemma pacer_step_next:
  "unat (next_send_us (fst (pacer_step s q))) =
     min (max (unat (next_send_us s)) (unat (fst q)) + request_duration q) (2 ^ 64 - 1)"
  by (cases q) (auto simp: pacer_reserve_def Let_def unat_sat_add max_def word_le_nat_alt)

lemma pacer_step_wait:
  "unat (next_send_us (fst (pacer_step s q))) \<le> unat (fst q) + unat (snd (pacer_step s q)) + 20000"
  by (cases q) (auto simp: pacer_reserve_def Let_def unat_sat_add unat_sat_sub VIDEO_PACING_BURST_US_def)

lemma pacer_run_next:
  "min (unat (next_send_us s) + sum_list (map request_duration qs)) (2 ^ 64 - 1)
     \<le> unat (next_send_us (fst (run pacer_step s qs)))"
proof (induction qs arbitrary: s)
  case (Cons q qs)
  show ?case
    using Cons.IH [of "fst (pacer_step s q)"] pacer_step_next [of s q]
    by (simp add: Let_def del: pacer_step.simps)
qed simp

lemma pacer_run_next_Cons:
  "min (unat (fst q) + sum_list (map request_duration (q # qs))) (2 ^ 64 - 1)
     \<le> unat (next_send_us (fst (run pacer_step s (q # qs))))"
  using pacer_run_next [of "fst (pacer_step s q)" qs] pacer_step_next [of s q]
  by (simp add: Let_def del: pacer_step.simps)

lemma pacer_run_wait:
  "qs \<noteq> [] \<Longrightarrow> unat (next_send_us (fst (run pacer_step s qs)))
     \<le> unat (fst (last qs)) + unat (last (snd (run pacer_step s qs))) + 20000"
proof (induction qs rule: rev_induct)
  case (snoc q qs)
  then show ?case
    using pacer_step_wait [of "fst (run pacer_step s qs)" q]
    by (simp add: run_append Let_def del: pacer_step.simps)
qed simp

lemma div_ceil_mult: "0 < b \<Longrightarrow> a \<le> div_ceil a b * b"
  using less_div_ceil_iff [of b "div_ceil a b" a] by simp

lemma div_ceil_le: "div_ceil a b \<le> a"
proof (cases "a mod b = 0")
  case False
  then have "b \<noteq> 1" by (metis mod_by_Suc_0 One_nat_def)
  show ?thesis
  proof (cases "b = 0")
    case b: False
    then have "a div b \<le> a div 2" using \<open>b \<noteq> 1\<close> by (intro div_le_mono2) auto
    moreover have "0 < a" using False by (cases a) auto
    ultimately show ?thesis using False by (simp add: div_ceil_def)
  qed (use False in \<open>simp add: div_ceil_def\<close>)
qed (simp add: div_ceil_def)

lemma fragment_duration_covers:
  assumes "n * 8000000 < 2 ^ 64"
  shows "n * 8000000 \<le> unat (fragment_duration_us n b) * unat (max b 1)"
proof -
  have small: "n < 2 ^ 64" using assms by simp
  have n: "unat (sat_mul (word_of_nat n :: u64) 8000000) = n * 8000000"
    using assms small by (simp add: unat_sat_mul unat_of_nat)
  have pos: "0 < unat (max b 1)" by (simp add: max_def word_le_nat_alt)
  have "div_ceil (n * 8000000) (unat (max b 1)) < 2 ^ 64"
    using div_ceil_le [of "n * 8000000" "unat (max b 1)"] assms by linarith
  then have "unat (fragment_duration_us n b) = div_ceil (n * 8000000) (unat (max b 1))"
    unfolding fragment_duration_us_def n by (simp add: unat_of_nat)
  then show ?thesis using div_ceil_mult [OF pos] by simp
qed

lemma paced_bytes_covered:
  "list_all (\<lambda>q. fst (snd q) * 8000000 < 2 ^ 64 \<and> snd (snd q) = b) qs \<Longrightarrow>
   sum_list (map (\<lambda>q. fst (snd q)) qs) * 8000000
     \<le> sum_list (map request_duration qs) * unat (max b 1)"
proof (induction qs)
  case (Cons q qs)
  then show ?case
    using fragment_duration_covers [of "fst (snd q)" b] by (simp add: add_mult_distrib)
qed simp

text \<open>C22: Token-bucket conformance of the pacer: when fragments are reserved at a constant rate \<open>b\<close>, from
  any pacer state, the bytes released by the time the last fragment may leave never exceed the rate
  times the time since the first request plus the 20 ms burst. The clock is assumed not to reach its
  64-bit limit.\<close>

theorem pacer_conforms:
  assumes "list_all (\<lambda>q. fst (snd q) * 8000000 < 2 ^ 64 \<and> snd (snd q) = b) (q # qs)"
    and "unat (fst q) + sum_list (map request_duration (q # qs)) < 2 ^ 64"
  shows "let r = run pacer_step s (q # qs);
             leaves_us = unat (fst (last (q # qs))) + unat (last (snd r))
         in sum_list (map (\<lambda>q. fst (snd q)) (q # qs)) * 8000000
              \<le> unat (max b 1) * (leaves_us + 20000 - unat (fst q))"
proof -
  let ?r = "run pacer_step s (q # qs)" and ?d = "sum_list (map request_duration (q # qs))"
  have "unat (fst q) + ?d \<le> unat (next_send_us (fst ?r))"
    using pacer_run_next_Cons [of q qs s] assms(2) by linarith
  also have "\<dots> \<le> unat (fst (last (q # qs))) + unat (last (snd ?r)) + 20000"
    by (rule pacer_run_wait) simp
  finally have "?d \<le> unat (fst (last (q # qs))) + unat (last (snd ?r)) + 20000 - unat (fst q)"
    by linarith
  then have "?d * unat (max b 1) \<le>
      (unat (fst (last (q # qs))) + unat (last (snd ?r)) + 20000 - unat (fst q)) * unat (max b 1)"
    by (rule mult_le_mono1)
  then show ?thesis
    unfolding Let_def mult.commute [of "unat (max b 1)"]
    by (rule order_trans [OF paced_bytes_covered [OF assms(1)]])
qed

theorem pacer_conforms_witness:
  "(let r = run pacer_step \<lparr>next_send_us = 0\<rparr> [(1000, 1200, 8000000), (1000, 90000, 8000000)];
        leaves_us = 1000 + unat (last (snd r))
    in (1200 + 90000) * 8000000 \<le> unat (max (8000000 :: u32) 1) * (leaves_us + 20000 - 1000))"
  using pacer_conforms [of 8000000 "(1000, 1200, 8000000)" "[(1000, 90000, 8000000)]"
      "\<lparr>next_send_us = 0\<rparr>"]
  by (simp add: fragment_duration_us_def div_ceil_def sat_mul_def max_def Let_def)

text \<open>The rate left for video after audio: between half the ceiling and the ceiling, so audio can take at most half.\<close>

theorem video_pacing_bitrate_bounds:
  "ceiling div 2 \<le> video_pacing_bitrate ceiling audio \<and> video_pacing_bitrate ceiling audio \<le> ceiling"
  by (auto simp: video_pacing_bitrate_def word_le_nat_alt unat_sat_sub unat_div max_def)

section \<open>The adaptive controller stays in its range\<close>

datatype bitrate_event =
    Observe u64 nat nat bool | Set_Maximum u32 | Rebase u32

fun bitrate_step :: "adaptive_bitrate \<Rightarrow> bitrate_event \<Rightarrow> adaptive_bitrate \<times> u32 option" where
  "bitrate_step s (Observe now_us buffered queued lost) = ab_observe s now_us buffered queued lost"
| "bitrate_step s (Set_Maximum m) = ab_set_maximum s m"
| "bitrate_step s (Rebase b) = (ab_rebase s b, None)"

definition bitrate_in_range :: "adaptive_bitrate \<Rightarrow> bool" where
  "bitrate_in_range s \<longleftrightarrow> ab_minimum s \<le> ab_current s \<and> ab_current s \<le> ab_maximum s"

text \<open>The encoder reports back a bitrate it was configured with, so a rebase is within the range.\<close>

fun rebase_in_range :: "adaptive_bitrate \<Rightarrow> bitrate_event \<Rightarrow> bool" where
  "rebase_in_range s (Rebase b) \<longleftrightarrow> ab_minimum s \<le> max b 1 \<and> max b 1 \<le> ab_maximum s"
| "rebase_in_range s _ \<longleftrightarrow> True"

lemma unat_three_quarters:
  "unat (ucast ((ucast (c :: u32) * 3 :: u64) div 4) :: u32) = unat c * 3 div 4"
proof -
  have c: "unat c < 2 ^ 32" using unat_lt_pow [of c] by simp
  have "unat (ucast c * 3 :: u64) = unat c * 3"
    using c by (simp add: unat_word_ariths unsigned_ucast_eq take_bit_eq_mod)
  then show ?thesis using c by (simp add: unsigned_ucast_eq take_bit_eq_mod unat_div)
qed

lemma ab_observe_shape:
  "(case ab_observe s now_us buffered queued lost of
      (s', None) \<Rightarrow> ab_current s' = ab_current s
    | (s', Some b) \<Rightarrow>
        ab_current s' = b \<and>
        (if ab_congested s buffered queued lost
         then b < ab_current s \<and> unat b = max (unat (ab_current s) * 3 div 4) (unat (ab_minimum s))
              \<and> ab_last_decrease_us s' = max now_us 1
              \<and> (ab_last_decrease_us s = 0 \<or> unat (ab_last_decrease_us s) + 500000 \<le> unat now_us)
         else ab_healthy s buffered queued \<and> ab_current s < b \<and> b \<le> ab_maximum s
              \<and> ab_healthy_since_us s \<noteq> 0
              \<and> unat (ab_healthy_since_us s) + 5000000 \<le> unat now_us))
   \<and> ab_minimum (fst (ab_observe s now_us buffered queued lost)) = ab_minimum s
   \<and> ab_maximum (fst (ab_observe s now_us buffered queued lost)) = ab_maximum s"
proof (cases "ab_congested s buffered queued lost")
  case True
  then show ?thesis
    by (auto simp: ab_observe_def ab_decrease_def Let_def unat_three_quarters unat_sat_sub
        BITRATE_DECREASE_INTERVAL_US_def word_le_nat_alt max_def)
next
  case False
  have gain: "c < sat_add c (max (c div 10) 250000)" if "c < m" for c m :: u32
  proof -
    have "unat c < unat m" using that by (simp add: word_less_nat_alt)
    moreover have "unat m < 2 ^ 32" using unat_lt_pow [of m] by simp
    moreover have "0 < unat (max (c div 10) 250000)" by (auto simp: max_def word_le_nat_alt)
    ultimately show ?thesis by (simp add: word_less_nat_alt unat_sat_add)
  qed
  show ?thesis
    using False gain [of "ab_current s" "ab_maximum s"]
    by (auto simp: ab_observe_def ab_increase_def Let_def unat_sat_sub BITRATE_INCREASE_INTERVAL_US_def
        word_le_nat_alt not_le word_less_nat_alt min_def)
qed

interpretation adaptive: step_system bitrate_step bitrate_in_range rebase_in_range
proof
  fix s :: adaptive_bitrate and i
  assume inv: "bitrate_in_range s" and legal: "rebase_in_range s i"
  show "bitrate_in_range (fst (bitrate_step s i))"
  proof (cases i)
    case (Observe now_us buffered queued lost)
    then show ?thesis
      using inv ab_observe_shape [where s = s and now_us = now_us and buffered = buffered and queued = queued
          and lost = lost]
      by (auto simp: bitrate_in_range_def word_le_nat_alt word_less_nat_alt split: prod.splits option.splits if_splits)
  next
    case (Set_Maximum m)
    then show ?thesis
      using inv by (auto simp: ab_set_maximum_def bitrate_in_range_def Let_def)
  next
    case (Rebase b)
    then show ?thesis
      using inv legal by (auto simp: ab_rebase_def bitrate_in_range_def Let_def)
  qed
qed

text \<open>One observation of the send buffer. A congested link lowers the bitrate to three quarters (never
  below the minimum), at most once every 500 ms; a raise happens only on a healthy link after five
  seconds of health, is a strict increase and never passes the maximum; otherwise the bitrate stays.
  The value returned is the one now in force.\<close>

theorem bitrate_observation:
  "case ab_observe s now_us buffered queued lost of
      (s', None) \<Rightarrow> ab_current s' = ab_current s
    | (s', Some b) \<Rightarrow>
        ab_current s' = b \<and>
        (if ab_congested s buffered queued lost
         then b < ab_current s \<and> unat b = max (unat (ab_current s) * 3 div 4) (unat (ab_minimum s))
              \<and> ab_last_decrease_us s' = max now_us 1
              \<and> (ab_last_decrease_us s = 0 \<or> unat (ab_last_decrease_us s) + 500000 \<le> unat now_us)
         else ab_healthy s buffered queued \<and> ab_current s < b \<and> b \<le> ab_maximum s
              \<and> ab_healthy_since_us s \<noteq> 0
              \<and> unat (ab_healthy_since_us s) + 5000000 \<le> unat now_us)"
  by (rule ab_observe_shape [THEN conjunct1])

text \<open>Over every sequence of observations, ceiling changes and encoder rebases from a fresh controller
  the bitrate stays between the controller's minimum and maximum, provided the encoder reports rates
  within the configured range.\<close>

theorem bitrate_stays_in_range:
  assumes "adaptive.legal_run (AdaptiveBitrate_new maximum) events"
  shows "bitrate_in_range (fst (run bitrate_step (AdaptiveBitrate_new maximum) events))"
proof (rule adaptive.run_inv [OF _ assms])
  show "bitrate_in_range (AdaptiveBitrate_new maximum)"
    by (simp add: bitrate_in_range_def AdaptiveBitrate_new_def)
qed

theorem bitrate_stays_in_range_witness:
  "bitrate_in_range (fst (run bitrate_step (AdaptiveBitrate_new 8000000)
     [Observe 1 0 15 False, Rebase 5000000, Set_Maximum 4000000]))"
  by (rule bitrate_stays_in_range)
    (simp add: AdaptiveBitrate_new_def ab_observe_def ab_decrease_def ab_congested_def
      MAX_ENCODED_FRAME_QUEUE_def Let_def max_def min_def word_le_nat_alt)

section \<open>The restart ladder\<close>

lemma rl_step_value:
  "p \<le> 100 \<Longrightarrow> unat (ucast ((ucast (m :: u32) * p :: u64) div 100) :: u32) = unat m * unat p div 100"
proof -
  assume p: "p \<le> 100"
  have m: "unat m < 2 ^ 32" using unat_lt_pow [of m] by simp
  have p': "unat p \<le> 100" using p by (simp add: word_le_nat_alt)
  have le: "unat m * unat p \<le> unat m * 100" using p' by simp
  have "unat (ucast m * p :: u64) = unat m * unat p"
  proof -
    have "unat m * 100 < 2 ^ 64" using m by simp
    with le have "unat m * unat p < 2 ^ 64" by (rule le_less_trans)
    then show ?thesis using m by (simp add: unat_word_ariths unsigned_ucast_eq take_bit_eq_mod)
  qed
  moreover have "unat m * unat p div 100 < 2 ^ 32"
    using le_less_trans [OF le, of "2 ^ 32 * 100"] m by (simp add: div_less_iff_less_mult)
  ultimately show ?thesis by (simp add: unsigned_ucast_eq take_bit_eq_mod unat_div)
qed

lemma rl_steps_descending: "sorted_wrt (\<ge>) (rl_steps s)"
proof -
  have mono: "max (ucast ((ucast m * a :: u64) div 100)) f \<le> max (ucast ((ucast m * b :: u64) div 100)) f"
    if "a \<le> b" "b \<le> 100" for m f :: u32 and a b :: u64
  proof -
    have "a \<le> 100" using that by (rule order_trans)
    then have "(ucast ((ucast m * a :: u64) div 100) :: u32) \<le> ucast ((ucast m * b :: u64) div 100)"
      using that by (simp add: word_le_nat_alt rl_step_value div_le_mono)
    then show ?thesis by (rule max.mono) simp
  qed
  have "sorted_wrt (\<lambda>a b. b \<le> a \<and> a \<le> 100) LADDER_STEPS_PERCENT"
    by (simp add: LADDER_STEPS_PERCENT_def)
  then show ?thesis
    unfolding rl_steps_def Let_def sorted_wrt_map
    by (rule sorted_wrt_mono_rel [rotated]) (use mono in blast)
qed

lemma find_first_descending:
  "sorted_wrt (\<ge>) xs \<Longrightarrow> find P xs = Some x \<Longrightarrow> x = Max {y \<in> set xs. P y}" for x :: "'a::linorder"
proof -
  assume "sorted_wrt (\<ge>) xs" "find P xs = Some x"
  then have "x \<in> set xs \<and> P x \<and> (\<forall>y\<in>set xs. P y \<longrightarrow> y \<le> x)"
    by (induction xs) (auto split: if_splits)
  then show ?thesis by (intro Max_eqI [symmetric]) auto
qed

lemma find_last_descending:
  "sorted_wrt (\<ge>) xs \<Longrightarrow> find P (rev xs) = Some x \<Longrightarrow> x = Min {y \<in> set xs. P y}" for x :: "'a::linorder"
proof -
  assume *: "sorted_wrt (\<ge>) xs" "find P (rev xs) = Some x"
  have "sorted_wrt (\<le>) ys \<Longrightarrow> find P ys = Some x \<Longrightarrow>
      x \<in> set ys \<and> P x \<and> (\<forall>y\<in>set ys. P y \<longrightarrow> x \<le> y)" for ys
    by (induction ys) (auto split: if_splits)
  then have "x \<in> set xs \<and> P x \<and> (\<forall>y\<in>set xs. P y \<longrightarrow> x \<le> y)"
    using * by (metis set_rev sorted_wrt_rev)
  then show ?thesis by (intro Min_eqI [symmetric]) auto
qed

lemma find_SomeD: "find P xs = Some x \<Longrightarrow> x \<in> set xs \<and> P x"
  by (auto simp: find_Some_iff)

definition ladder_ok :: "restart_ladder \<Rightarrow> bool" where
  "ladder_ok s \<longleftrightarrow> 0 < rl_maximum s \<and> LADDER_INITIAL_HOLD_US \<le> rl_hold_us s
     \<and> rl_hold_us s \<le> LADDER_MAXIMUM_HOLD_US"

lemmas ladder_consts = LADDER_INITIAL_HOLD_US_def LADDER_MAXIMUM_HOLD_US_def

lemma hold_doubled:
  assumes "LADDER_INITIAL_HOLD_US \<le> h" "h \<le> LADDER_MAXIMUM_HOLD_US"
  shows "LADDER_INITIAL_HOLD_US \<le> h * 2"
proof -
  have "unat (h * 2) = unat h * 2"
    using assms by (simp add: ladder_consts word_le_nat_alt unat_word_ariths)
  then show ?thesis using assms by (simp add: ladder_consts word_le_nat_alt)
qed

lemma rl_note_congestion_keeps [simp]:
  "rl_maximum (rl_note_congestion s now_us) = rl_maximum s"
  "rl_hold_us (rl_note_congestion s now_us) = rl_hold_us s"
  "rl_last_restart_us (rl_note_congestion s now_us) = rl_last_restart_us s"
  by (simp_all add: rl_note_congestion_def Let_def)

lemma rl_judge_step_up_keeps [simp]:
  "rl_maximum (rl_judge_step_up s) = rl_maximum s"
  "rl_last_restart_us (rl_judge_step_up s) = rl_last_restart_us s"
  by (simp_all add: rl_judge_step_up_def Let_def)

lemma rl_steps_cong: "rl_maximum s = rl_maximum t \<Longrightarrow> rl_steps s = rl_steps t"
  by (simp add: rl_steps_def)

lemma judge_ladder_ok: "ladder_ok s \<Longrightarrow> ladder_ok (rl_judge_step_up s)"
  by (auto simp: ladder_ok_def rl_judge_step_up_def Let_def hold_doubled)

lemma congested_ladder_ok:
  assumes "ladder_ok s"
  shows "ladder_ok (fst (rl_observe_congested s now_us enc spaced))"
proof -
  have "ladder_ok (rl_note_congestion s now_us)" using assms by (simp add: ladder_ok_def)
  moreover from this have "ladder_ok (rl_judge_step_up (rl_note_congestion s now_us))"
    by (rule judge_ladder_ok)
  ultimately show ?thesis
    by (auto simp: rl_observe_congested_def Let_def ladder_ok_def split: option.splits)
qed

lemma clear_ladder_ok:
  "ladder_ok s \<Longrightarrow> ladder_ok (fst (rl_observe_clear s now_us enc spaced healthy recording))"
  by (auto simp: rl_observe_clear_def ladder_ok_def Let_def ladder_consts split: option.splits)

datatype ladder_event = Ladder_Observe u64 u32 bool bool bool | Ladder_Set_Maximum u32

fun ladder_step :: "restart_ladder \<Rightarrow> ladder_event \<Rightarrow> restart_ladder \<times> u32 option" where
  "ladder_step s (Ladder_Observe now_us enc congested healthy recording) =
     rl_observe s now_us enc congested healthy recording"
| "ladder_step s (Ladder_Set_Maximum m) = (rl_set_maximum s m, None)"

lemma ladder_new_ok: "ladder_ok (RestartLadder_new m)"
  by (auto simp: RestartLadder_new_def ladder_ok_def ladder_consts max_def word_less_nat_alt word_le_nat_alt)

interpretation ladder: step_system ladder_step ladder_ok "\<lambda>_ _. True"
proof
  fix s :: restart_ladder and i
  assume "ladder_ok s"
  then show "ladder_ok (fst (ladder_step s i))"
    by (cases i)
      (simp_all add: rl_observe_def Let_def congested_ladder_ok clear_ladder_ok rl_set_maximum_def
        ladder_new_ok)
qed

lemma ladder_legal_run [simp]: "ladder.legal_run s events"
  by (induction events arbitrary: s) auto

text \<open>Whatever a fresh restart ladder observes and however the ceiling moves, the time a step up has
  to wait stays between 20 and 120 seconds and the ceiling stays positive.\<close>

theorem ladder_hold_bounded:
  "let s = fst (run ladder_step (RestartLadder_new maximum) events) in
     0 < rl_maximum s \<and> 20000000 \<le> rl_hold_us s \<and> rl_hold_us s \<le> 120000000"
  using ladder.run_inv [of "RestartLadder_new maximum" events, OF ladder_new_ok ladder_legal_run]
  by (simp add: Let_def ladder_ok_def ladder_consts)

lemma congested_restart:
  "case rl_observe_congested s now_us enc spaced of
     (s', None) \<Rightarrow> rl_last_restart_us s' = rl_last_restart_us s
   | (s', Some b) \<Rightarrow> spaced \<and> rl_last_restart_us s' = now_us \<and> b < enc
       \<and> b = Max {step \<in> set (rl_steps s). step < enc}"
proof -
  have "rl_steps (rl_judge_step_up (rl_note_congestion s now_us)) = rl_steps s"
    by (rule rl_steps_cong) simp
  then show ?thesis
    using find_SomeD [of "\<lambda>step. step < enc" "rl_steps s"]
      find_first_descending [OF rl_steps_descending, of "\<lambda>step. step < enc" s]
    by (auto simp: rl_observe_congested_def Let_def split: option.splits)
qed

lemma clear_restart:
  "case rl_observe_clear s now_us enc spaced healthy recording of
     (s', None) \<Rightarrow> rl_last_restart_us s' = rl_last_restart_us s
   | (s', Some b) \<Rightarrow> spaced \<and> rl_last_restart_us s' = now_us \<and> enc < b
       \<and> b = Min {step \<in> set (rl_steps s). enc < step}
       \<and> healthy \<and> \<not> recording \<and> rl_healthy_since_us s \<noteq> 0
       \<and> (rl_hold_us s \<le> sat_sub now_us (rl_healthy_since_us s)
          \<or> LADDER_INITIAL_HOLD_US \<le> sat_sub now_us (rl_healthy_since_us s))"
proof -
  have "rl_steps (s\<lparr>rl_hold_us := h, rl_last_step_up_us := u\<rparr>) = rl_steps s" for h u
    by (rule rl_steps_cong) simp
  then show ?thesis
    using find_SomeD [of "\<lambda>step. enc < step" "rev (rl_steps s)"]
      find_last_descending [OF rl_steps_descending, of "\<lambda>step. enc < step" s]
    by (auto simp: rl_observe_clear_def Let_def not_less split: option.splits if_splits)
qed

text \<open>One observation of the restart ladder. A restart is asked for only when the previous one lies at
  least five seconds back; under congestion it is the next rung below the encoder's bitrate, otherwise
  the next rung above it, and never a rung up while the link is unhealthy, during a recording, or
  before the link was healthy for the hold time (20 seconds when an earlier step up proved stable). Without a restart the time of the last one is unchanged.\<close>

theorem ladder_restart_rules:
  "case rl_observe s now_us enc congested healthy recording of
     (s', None) \<Rightarrow> rl_last_restart_us s' = rl_last_restart_us s
   | (s', Some b) \<Rightarrow>
       rl_last_restart_us s' = max now_us 1
       \<and> (rl_last_restart_us s = 0
          \<or> unat (rl_last_restart_us s) + 5000000 \<le> unat (max now_us 1))
       \<and> (if congested then b < enc \<and> b = Max {step \<in> set (rl_steps s). step < enc}
          else enc < b \<and> b = Min {step \<in> set (rl_steps s). enc < step}
               \<and> healthy \<and> \<not> recording \<and> rl_healthy_since_us s \<noteq> 0
               \<and> (rl_hold_us s \<le> sat_sub (max now_us 1) (rl_healthy_since_us s)
                  \<or> LADDER_INITIAL_HOLD_US \<le> sat_sub (max now_us 1) (rl_healthy_since_us s)))"
proof -
  have spaced: "rl_last_restart_us s = 0 \<or> unat (rl_last_restart_us s) + 5000000 \<le> unat t"
    if "rl_spaced s t" for t
    using that by (auto simp: rl_spaced_def LADDER_RESTART_SPACING_US_def word_le_nat_alt unat_sat_sub)
  show ?thesis
    using congested_restart [where s = s and now_us = "max now_us 1" and enc = enc
        and spaced = "rl_spaced s (max now_us 1)"]
      clear_restart [where s = s and now_us = "max now_us 1" and enc = enc and healthy = healthy
        and recording = recording and spaced = "rl_spaced s (max now_us 1)"]
      spaced [of "max now_us 1"]
    unfolding rl_observe_def Let_def
    by (cases congested) (simp_all split: prod.splits option.splits)
qed

end
