(* ===== verification/Update_Policy.thy ===== *)
theory Update_Policy
  imports Prelude Rust_Strings
begin

text \<open>
  When the Agent checks for updates and how often it retries a release
  (\<open>agent/src/update_policy.rs\<close>). Instants and durations are nanoseconds; the attempt record uses
  Unix seconds, a 64-bit word. The record's file and its JSON reader are parameters.
\<close>

definition UPDATE_CHECK_INTERVAL :: nanos where
  "UPDATE_CHECK_INTERVAL = 6 * 60 * 60 * 1000000000"

definition DEFERRED_UPDATE_RETRY :: nanos where
  "DEFERRED_UPDATE_RETRY = 5 * 60 * 1000000000"

definition MAX_UPDATE_DEFERRAL :: nanos where
  "MAX_UPDATE_DEFERRAL = 24 * 60 * 60 * 1000000000"

definition MAX_ATTEMPTS_PER_VERSION :: u32 where
  "MAX_ATTEMPTS_PER_VERSION = 3"

definition ATTEMPT_WINDOW_secs :: u64 where
  "ATTEMPT_WINDOW_secs = 24 * 60 * 60"

record update_schedule =
  next_check :: nanos
  deferred_since :: "nanos option"

definition UpdateSchedule_new :: "nanos \<Rightarrow> update_schedule" where
  "UpdateSchedule_new now = \<lparr>next_check = now, deferred_since = None\<rparr>"

definition due :: "update_schedule \<Rightarrow> nanos \<Rightarrow> bool \<Rightarrow> update_schedule \<times> bool" where
  "due s now session_active =
     (let run_check = \<lambda>s. (s\<lparr>deferred_since := None, next_check := now + UPDATE_CHECK_INTERVAL\<rparr>, True)
      in
      if now < next_check s then (s, False)
      else if session_active then
        let since = (case deferred_since s of None \<Rightarrow> now | Some t \<Rightarrow> t);
            s = s\<lparr>deferred_since := Some since\<rparr>;
            deferred = now - since
        in if deferred < MAX_UPDATE_DEFERRAL
           then (s\<lparr>next_check := now + DEFERRED_UPDATE_RETRY\<rparr>, False)
           else run_check s
      else run_check s)"

record update_attempts =
  ua_version :: rust_string
  ua_attempts :: u32
  ua_first_attempt_unix :: u64

definition within_window :: "update_attempts \<Rightarrow> u64 \<Rightarrow> bool" where
  "within_window previous now \<longleftrightarrow>
     ua_first_attempt_unix previous \<le> now
     \<and> now - ua_first_attempt_unix previous < ATTEMPT_WINDOW_secs"

definition attempts_next ::
    "update_attempts option \<Rightarrow> rust_string \<Rightarrow> u64 \<Rightarrow> update_attempts option" where
  "attempts_next previous version now =
     (let fresh = Some \<lparr>ua_version = version, ua_attempts = 1, ua_first_attempt_unix = now\<rparr> in
      case previous of
        None \<Rightarrow> fresh
      | Some previous \<Rightarrow>
          if ua_version previous = version \<and> within_window previous now then
            (if ua_attempts previous < MAX_ATTEMPTS_PER_VERSION then
               Some \<lparr>ua_version = version, ua_attempts = ua_attempts previous + 1,
                     ua_first_attempt_unix = ua_first_attempt_unix previous\<rparr>
             else None)
          else fresh)"

definition read_attempts ::
    "('p \<Rightarrow> bytes option) \<Rightarrow> (bytes \<Rightarrow> update_attempts option) \<Rightarrow> 'p \<Rightarrow> update_attempts option" where
  "read_attempts fs_read from_slice path = fs_read path \<bind> from_slice"

section \<open>The schedule of checks\<close>

text \<open>A poll is its time and whether a remote session is live.\<close>

fun poll :: "update_schedule \<Rightarrow> nanos \<times> bool \<Rightarrow> update_schedule \<times> bool" where
  "poll s (now, session_active) = due s now session_active"

abbreviation poll_times :: "(nanos \<times> bool) list \<Rightarrow> nanos list" where
  "poll_times polls \<equiv> map fst polls"

abbreviation checks :: "update_schedule \<Rightarrow> (nanos \<times> bool) list \<Rightarrow> nanos list" where
  "checks s polls \<equiv> map fst (filter snd (zip (poll_times polls) (snd (run poll s polls))))"

lemma due_cases:
  obtains (early) "now < next_check s" "due s now a = (s, False)"
  | (deferred) since where "next_check s \<le> now" "a" "now < since + MAX_UPDATE_DEFERRAL"
      "since = (case deferred_since s of None \<Rightarrow> now | Some t \<Rightarrow> t)"
      "due s now a = (\<lparr>next_check = now + DEFERRED_UPDATE_RETRY, deferred_since = Some since\<rparr>, False)"
  | (check) "next_check s \<le> now"
      "a \<longrightarrow> (\<exists>t. deferred_since s = Some t \<and> t + MAX_UPDATE_DEFERRAL \<le> now)"
      "due s now a = (\<lparr>next_check = now + UPDATE_CHECK_INTERVAL, deferred_since = None\<rparr>, True)"
proof (cases "now < next_check s \<or> \<not> a")
  case True
  then show thesis using that(1,3) by (cases s; cases "now < next_check s") (auto simp: due_def Let_def)
next
  case False
  define since where "since = (case deferred_since s of None \<Rightarrow> now | Some t \<Rightarrow> t)"
  show thesis
  proof (cases "now < since + MAX_UPDATE_DEFERRAL")
    case True
    then have "due s now a =
        (\<lparr>next_check = now + DEFERRED_UPDATE_RETRY, deferred_since = Some since\<rparr>, False)"
      using False by (cases s) (auto simp: due_def Let_def since_def MAX_UPDATE_DEFERRAL_def)
    then show thesis using that(2) False True since_def by simp
  next
    case late: False
    then have "deferred_since s = Some since" by (auto simp: since_def MAX_UPDATE_DEFERRAL_def split: option.splits)
    moreover from this have "due s now a =
        (\<lparr>next_check = now + UPDATE_CHECK_INTERVAL, deferred_since = None\<rparr>, True)"
      using False late by (cases s) (auto simp: due_def Let_def)
    ultimately show thesis using that(3) False late by auto
  qed
qed

lemma checks_after_next:
  "list_all (\<lambda>c. next_check s \<le> c) (checks s polls)"
proof (induction polls arbitrary: s)
  case (Cons p polls)
  obtain now a where p: "p = (now, a)" by (cases p)
  show ?case
    using Cons.IH [of "fst (due s now a)"]
    by (cases rule: due_cases [where now = now and s = s and a = a]) (auto simp: p Let_def list_all_iff DEFERRED_UPDATE_RETRY_def UPDATE_CHECK_INTERVAL_def)
qed simp

text \<open>Over any sequence of polls, two checks are at least six hours apart, whatever the sessions do.\<close>

theorem update_checks_spaced:
  "sorted_wrt (\<lambda>t u. t + UPDATE_CHECK_INTERVAL \<le> u) (checks s polls)"
proof (induction polls arbitrary: s)
  case (Cons p polls)
  obtain now a where p: "p = (now, a)" by (cases p)
  show ?case
    using Cons.IH [of "fst (due s now a)"] checks_after_next [of "fst (due s now a)" polls]
    by (cases rule: due_cases [where now = now and s = s and a = a]) (auto simp: p Let_def list_all_iff)
qed simp

text \<open>The deferral clock starts at the first postponed poll and is kept until a check runs.\<close>

lemma starved_bound:
  assumes "deferred_since s = Some d" "next_check s \<le> d + MAX_UPDATE_DEFERRAL + DEFERRED_UPDATE_RETRY"
    and "polls \<noteq> []" "d + MAX_UPDATE_DEFERRAL + DEFERRED_UPDATE_RETRY \<le> fst (last polls)"
  shows "True \<in> set (snd (run poll s polls))"
  using assms
proof (induction polls arbitrary: s)
  case (Cons p polls)
  obtain now a where p: "p = (now, a)" by (cases p)
  show ?case
  proof (cases rule: due_cases [where now = now and s = s and a = a])
    case early
    then show ?thesis using Cons p by (auto simp: Let_def split: if_splits)
  next
    case (deferred since)
    then show ?thesis using Cons p by (auto simp: Let_def split: if_splits)
  next
    case check
    then show ?thesis by (simp add: p Let_def)
  qed
qed simp

text \<open>C36: Updates are not starved by a session that never ends: from a schedule with no deferral pending
  whose check is due at the first poll, any sequence of polls whose last one comes 24 hours and five
  minutes after the first contains a check.\<close>

theorem update_check_not_starved:
  assumes "deferred_since s = None" "next_check s \<le> fst p"
    and "fst p + MAX_UPDATE_DEFERRAL + DEFERRED_UPDATE_RETRY \<le> fst (last (p # polls))"
  shows "True \<in> set (snd (run poll s (p # polls)))"
proof -
  obtain now a where p: "p = (now, a)" by (cases p)
  have ne: "polls \<noteq> []" using assms(3) by (auto simp: MAX_UPDATE_DEFERRAL_def DEFERRED_UPDATE_RETRY_def)
  show ?thesis
  proof (cases rule: due_cases [where now = now and s = s and a = a])
    case early
    then show ?thesis using assms p by simp
  next
    case (deferred since)
    then have "True \<in> set (snd (run poll \<lparr>next_check = now + DEFERRED_UPDATE_RETRY, deferred_since = Some now\<rparr> polls))"
      using assms p ne by (intro starved_bound [where d = now]) auto
    then show ?thesis using deferred assms p by (simp add: Let_def)
  next
    case check
    then show ?thesis by (simp add: p Let_def)
  qed
qed

theorem update_check_not_starved_witness:
  "True \<in> set (snd (run poll (UpdateSchedule_new 0)
     [(0, True), (300000000000, True), (86700000000000, True)]))"
  by (rule update_check_not_starved)
    (simp_all add: UpdateSchedule_new_def MAX_UPDATE_DEFERRAL_def DEFERRED_UPDATE_RETRY_def)

section \<open>Attempts per release\<close>

text \<open>The caller stores the granted record before it tries the release.\<close>

fun attempt :: "update_attempts option \<Rightarrow> rust_string \<times> u64 \<Rightarrow> update_attempts option \<times> update_attempts option" where
  "attempt stored (version, now) =
     (case attempts_next stored version now of
        None \<Rightarrow> (stored, None)
      | Some r \<Rightarrow> (Some r, Some r))"

definition in_window :: "u64 \<Rightarrow> update_attempts option \<Rightarrow> bool" where
  "in_window w r = (case r of None \<Rightarrow> False | Some r \<Rightarrow> ua_first_attempt_unix r = w)"

definition used :: "u64 \<Rightarrow> update_attempts option \<Rightarrow> nat" where
  "used w r = (case r of None \<Rightarrow> 0 | Some r \<Rightarrow>
     if ua_first_attempt_unix r = w then unat (ua_attempts r) else if w < ua_first_attempt_unix r then 3 else 0)"

definition stored_before :: "u64 \<Rightarrow> update_attempts option \<Rightarrow> bool" where
  "stored_before now r = (case r of None \<Rightarrow> True | Some r \<Rightarrow>
     ua_first_attempt_unix r \<le> now \<and> ua_attempts r \<le> 3)"

lemma attempt_step:
  assumes "stored_before now stored" "case stored of None \<Rightarrow> True | Some r \<Rightarrow> ua_version r = version"
  shows "stored_before now (fst (attempt stored (version, now)))"
    and "case fst (attempt stored (version, now)) of None \<Rightarrow> True | Some r \<Rightarrow> ua_version r = version"
    and "used w stored + (if in_window w (snd (attempt stored (version, now))) then 1 else 0)
           \<le> used w (fst (attempt stored (version, now)))"
    and "used w (fst (attempt stored (version, now))) \<le> 3"
proof -
  have bump: "unat (n + 1) = unat n + 1" if "n < 3" for n :: u32
    using that by (simp add: unat_word_ariths word_less_nat_alt)
  note defs = stored_before_def attempts_next_def within_window_def MAX_ATTEMPTS_PER_VERSION_def
    used_def in_window_def ATTEMPT_WINDOW_secs_def Let_def
  show "stored_before now (fst (attempt stored (version, now)))"
    using assms by (auto simp: defs word_le_nat_alt word_less_nat_alt bump split: option.splits if_splits)
  show "case fst (attempt stored (version, now)) of None \<Rightarrow> True | Some r \<Rightarrow> ua_version r = version"
    using assms by (auto simp: defs split: option.splits if_splits)
  show "used w stored + (if in_window w (snd (attempt stored (version, now))) then 1 else 0)
           \<le> used w (fst (attempt stored (version, now)))"
    using assms by (auto simp: defs bump word_le_nat_alt word_less_nat_alt not_less unat_sub
        split: option.splits if_splits)
  show "used w (fst (attempt stored (version, now))) \<le> 3"
    using assms by (auto simp: defs bump word_le_nat_alt word_less_nat_alt split: option.splits if_splits)
qed

lemma granted_bound:
  assumes "sorted nows" "list_all (\<lambda>now. stored_before now stored) nows"
    and "case stored of None \<Rightarrow> True | Some r \<Rightarrow> ua_version r = version" "used w stored \<le> 3"
  shows "used w stored
      + length (filter (in_window w) (snd (run attempt stored (map (\<lambda>now. (version, now)) nows)))) \<le> 3"
  using assms
proof (induction nows arbitrary: stored)
  case (Cons now nows)
  let ?next = "fst (attempt stored (version, now))"
  have step: "stored_before now stored" using Cons.prems by simp
  note facts = attempt_step [OF step Cons.prems(3)]
  have "stored_before t ?next" if "t \<in> set nows" for t
    using facts(1) that Cons.prems(1) by (auto simp: stored_before_def split: option.splits)
  then have "used w ?next
      + length (filter (in_window w) (snd (run attempt ?next (map (\<lambda>now. (version, now)) nows)))) \<le> 3"
    using Cons.IH [of ?next] Cons.prems(1) facts(2) facts(4) [of w] by (simp add: list_all_iff)
  then show ?case using facts(3) [of w] by (auto simp add: Let_def simp del: attempt.simps split: if_splits)
qed simp

text \<open>For one release and a clock that does not run backwards, at most three attempts are granted in
  the 24-hour window opened by any first attempt, no matter how often the Agent restarts and asks.\<close>

theorem attempts_per_window:
  assumes "sorted nows"
  shows "length (filter (in_window w) (snd (run attempt None (map (\<lambda>now. (version, now)) nows)))) \<le> 3"
  using granted_bound [OF assms, of None version w]
  by (simp add: stored_before_def used_def list_all_iff)

theorem attempts_per_window_witness:
  "length (filter (in_window 1000) (snd (run attempt None
     (map (\<lambda>now. (lit ''1.2.0'', now)) [1000, 1060, 1120, 1180, 87400])))) \<le> 3"
  by (rule attempts_per_window) simp

end
