(* ===== verification/File_Rules.thy ===== *)
theory File_Rules
  imports Control
begin

text \<open>
  The rules of a file transfer (\<open>crates/file-transfer/src/lib.rs\<close>): which of the peer's transfers a
  side admits, the size limits per destination, and which relative paths may be created. The viewer
  saves only files it asked for; the agent follows the viewer. Instants are nanoseconds. The text of
  an error is modelled by its kind.
\<close>

definition CLIPBOARD_LIMIT_BYTES :: u64 where
  "CLIPBOARD_LIMIT_BYTES = 512 * 1024 * 1024"

definition TRANSFER_LIMIT_BYTES :: u64 where
  "TRANSFER_LIMIT_BYTES = 64 * 1024 * 1024 * 1024"

definition FREE_SPACE_RESERVE_BYTES :: u64 where
  "FREE_SPACE_RESERVE_BYTES = 256 * 1024 * 1024"

definition PEER_PICK_WINDOW :: nanos where
  "PEER_PICK_WINDOW = 15 * 60 * 1000000000"

definition PEER_PICK_ID :: u64 where
  "PEER_PICK_ID = 0"

definition SEND_WINDOW :: nat where
  "SEND_WINDOW = 16"

definition COMMAND_QUEUE :: nat where
  "COMMAND_QUEUE = 64"

datatype role = Viewer | Agent

datatype path_error = Invalid_Path_Length | Not_A_Valid_File_Name | Reserved_Windows_File_Name

datatype transfer_error =
    Clipboard_Disabled
  | Not_Requested
  | Viewer_Refuses
  | Over_Clipboard_Limit
  | Over_Transfer_Limit
  | Path path_error
  | Invalid_Totals
  | Free_Space_Unknown
  | Not_Enough_Space
  | Totals_Missing
  | Previous_File_Unfinished
  | More_Entries_Than_Announced
  | Larger_Than_Announced
  | Parent_Directory_Missing
  | Invalid_Chunk_Size
  | No_Open_File
  | File_Exceeds_Declared_Size
  | Transfer_Size_Overflow
  | Checksum_Or_Size_Mismatch
  | Unexpected_Packet
  | Incomplete_Transfer
  | No_Free_Name
  | Io_Error
  | Folder_Tree_Too_Large
  | Symbolic_Link
  | Not_A_Regular_File
  | Name_Not_Unicode
  | Filesystem_Root
  | File_Changed
  | Acknowledgement_Timeout
  | Peer_Rejected
  | Another_Transfer_In_Progress
  | Transfer_Not_Started
  | Transfer_Id_Mismatch
  | Paste_Not_Supported
  | Transfer_Directory_Is_Link
  | Session_Closed

section \<open>Transfer identifiers\<close>

text \<open>One call of \<open>id\<close>: the clock reading and the last identifier give the new one.\<close>

definition fresh_id :: "u64 \<Rightarrow> u64 \<Rightarrow> u64" where
  "fresh_id now previous = max now (previous + 1)"

section \<open>Admission\<close>

record admission =
  adm_role :: role
  peer_picks :: "nanos list"

definition Admission_new :: "role \<Rightarrow> admission" where
  "Admission_new r = \<lparr>adm_role = r, peer_picks = []\<rparr>"

definition request_peer_pick :: "admission \<Rightarrow> nanos \<Rightarrow> admission" where
  "request_peer_pick a now =
     (let a = (if length (peer_picks a) = 4 then a\<lparr>peer_picks := tl (peer_picks a)\<rparr> else a)
      in a\<lparr>peer_picks := peer_picks a @ [now]\<rparr>)"

definition close_peer_pick :: "admission \<Rightarrow> admission" where
  "close_peer_pick a = a\<lparr>peer_picks := tl (peer_picks a)\<rparr>"

definition allows_peer_pick :: "admission \<Rightarrow> bool" where
  "allows_peer_pick a \<longleftrightarrow> adm_role a = Agent"

definition admit ::
    "admission \<Rightarrow> file_destination \<Rightarrow> bool \<Rightarrow> nanos \<Rightarrow> admission \<times> (transfer_error + unit)" where
  "admit a destination clipboard_enabled now =
     (let clipboard = (case destination of FD_Clipboard \<Rightarrow> True | FD_ClipboardPaste _ \<Rightarrow> True | _ \<Rightarrow> False)
      in
      if clipboard \<and> \<not> clipboard_enabled then (a, Err Clipboard_Disabled)
      else if adm_role a = Agent then (a, Ok ())
      else
        case destination of
          FD_Clipboard \<Rightarrow> (a, Ok ())
        | FD_Documents \<Rightarrow>
            (let a = a\<lparr>peer_picks := filter (\<lambda>requested. now - requested < PEER_PICK_WINDOW) (peer_picks a)\<rparr>
             in case peer_picks a of
                  [] \<Rightarrow> (a, Err Not_Requested)
                | _ # rest \<Rightarrow> (a\<lparr>peer_picks := rest\<rparr>, Ok ()))
        | FD_ClipboardPaste _ \<Rightarrow> (a, Err Viewer_Refuses)
        | FD_Drop _ _ _ \<Rightarrow> (a, Err Viewer_Refuses))"

definition answers_peer_pick :: "role \<Rightarrow> file_destination \<Rightarrow> bool" where
  "answers_peer_pick r destination \<longleftrightarrow> r = Agent \<and> destination = FD_Documents"

definition end_transfer :: "u64 list \<Rightarrow> u64 \<Rightarrow> u64 list" where
  "end_transfer ended i = (if length ended = 8 then tl ended else ended) @ [i]"

definition transfer_limit :: "file_destination \<Rightarrow> u64" where
  "transfer_limit destination =
     (case destination of
        FD_Clipboard \<Rightarrow> CLIPBOARD_LIMIT_BYTES
      | FD_ClipboardPaste _ \<Rightarrow> CLIPBOARD_LIMIT_BYTES
      | FD_Documents \<Rightarrow> TRANSFER_LIMIT_BYTES
      | FD_Drop _ _ _ \<Rightarrow> TRANSFER_LIMIT_BYTES)"

definition check_limit :: "file_destination \<Rightarrow> u64 \<Rightarrow> transfer_error + unit" where
  "check_limit destination n =
     (let limit = transfer_limit destination in
      if n \<le> limit then Ok ()
      else if limit = CLIPBOARD_LIMIT_BYTES then Err Over_Clipboard_Limit
      else Err Over_Transfer_Limit)"

definition message_id :: "file_message \<Rightarrow> u64" where
  "message_id m =
     (case m of
        FM_Begin i _ \<Rightarrow> i
      | FM_Entry i _ _ \<Rightarrow> i
      | FM_Chunk i _ \<Rightarrow> i
      | FM_EndEntry i _ \<Rightarrow> i
      | FM_Finish i \<Rightarrow> i
      | FM_Ack i \<Rightarrow> i
      | FM_Error i _ \<Rightarrow> i
      | FM_Totals i _ _ \<Rightarrow> i
      | _ \<Rightarrow> 0)"

section \<open>Paths\<close>

definition reserved_device_names :: "rust_string list" where
  "reserved_device_names =
     [lit ''CON'', lit ''PRN'', lit ''AUX'', lit ''NUL'', lit ''CONIN$'', lit ''CONOUT$'']"

definition device_digit :: "rust_char \<Rightarrow> bool" where
  "device_digit c \<longleftrightarrow> (48 \<le> c \<and> c \<le> 57) \<or> c = 0xB9 \<or> c = 0xB2 \<or> c = 0xB3"

definition reserved_on_windows :: "rust_string \<Rightarrow> bool" where
  "reserved_on_windows component =
     (let stem = map ascii_upper (trim_end_matches 32 (hd (str_split 46 component))) in
      if stem \<in> set reserved_device_names then True
      else
        case (case strip_prefix (lit ''COM'') stem of
                None \<Rightarrow> strip_prefix (lit ''LPT'') stem
              | Some number \<Rightarrow> Some number) of
          None \<Rightarrow> False
        | Some number \<Rightarrow> (case number of [d] \<Rightarrow> device_digit d | _ \<Rightarrow> False))"

definition forbidden_char :: "rust_char \<Rightarrow> bool" where
  "forbidden_char c \<longleftrightarrow> c < 32 \<or> c \<in> set (lit ''<>:'') \<or> c = 34 \<or> c = 92 \<or> c \<in> set (lit ''|?*'')"

definition valid_component :: "rust_string \<Rightarrow> bool" where
  "valid_component component \<longleftrightarrow>
     component \<noteq> []
     \<and> str_len component \<le> 255
     \<and> component \<noteq> lit ''.''
     \<and> component \<noteq> lit ''..''
     \<and> \<not> list_ex forbidden_char component
     \<and> \<not> (last component = 46 \<or> last component = 32)"

fun valid_components :: "rust_string list \<Rightarrow> path_error + rust_string list" where
  "valid_components [] = Ok []"
| "valid_components (component # rest) =
     (if \<not> valid_component component then Err Not_A_Valid_File_Name
      else if reserved_on_windows component then Err Reserved_Windows_File_Name
      else case valid_components rest of Inl e \<Rightarrow> Err e | Inr result \<Rightarrow> Ok (component # result))"

definition valid_path :: "rust_string \<Rightarrow> path_error + rust_string list" where
  "valid_path path =
     (if path = [] \<or> 4096 < str_len path then Err Invalid_Path_Length
      else valid_components (str_split 47 path))"

section \<open>A viewer saves only what it asked for\<close>

datatype admission_op =
    Request_Pick nanos
  | Close_Pick
  | Peer_Begin file_destination bool nanos

fun admission_step :: "admission \<Rightarrow> admission_op \<Rightarrow> admission \<times> (transfer_error + unit) option" where
  "admission_step a (Request_Pick now) = (request_peer_pick a now, None)"
| "admission_step a Close_Pick = (close_peer_pick a, None)"
| "admission_step a (Peer_Begin d enabled now) = (let r = admit a d enabled now in (fst r, Some (snd r)))"

fun asks :: "admission_op \<Rightarrow> bool" where
  "asks (Request_Pick now) = True"
| "asks _ = False"

fun saved :: "admission_op \<Rightarrow> (transfer_error + unit) option \<Rightarrow> bool" where
  "saved (Peer_Begin FD_Documents enabled now) r = (r = Some (Ok ()))"
| "saved _ _ = False"

fun pushed :: "admission_op \<Rightarrow> (transfer_error + unit) option \<Rightarrow> bool" where
  "pushed (Peer_Begin (FD_Drop i x y) enabled now) r = (r = Some (Ok ()))"
| "pushed (Peer_Begin (FD_ClipboardPaste i) enabled now) r = (r = Some (Ok ()))"
| "pushed _ _ = False"

abbreviation outcomes :: "admission \<Rightarrow> admission_op list \<Rightarrow> (admission_op \<times> (transfer_error + unit) option) list" where
  "outcomes a ops \<equiv> zip ops (snd (run admission_step a ops))"

lemmas admission_defs = request_peer_pick_def close_peer_pick_def admit_def

lemma admit_documents_viewer:
  assumes "adm_role a = Viewer"
  shows "length (peer_picks (fst (admit a FD_Documents e now)))
      + (if snd (admit a FD_Documents e now) = Ok () then 1 else 0) \<le> length (peer_picks a)"
proof -
  define kept where "kept = filter (\<lambda>requested. now - requested < PEER_PICK_WINDOW) (peer_picks a)"
  have "length kept \<le> length (peer_picks a)" by (simp add: kept_def)
  then show ?thesis
    using assms by (cases kept) (simp_all add: admit_def Let_def kept_def [symmetric])
qed

lemma admission_step_counts:
  assumes "adm_role a = Viewer"
  shows "adm_role (fst (admission_step a i)) = Viewer
    \<and> length (peer_picks (fst (admission_step a i)))
           + (if saved i (snd (admission_step a i)) then 1 else 0)
         \<le> length (peer_picks a) + (if asks i then 1 else 0)
    \<and> \<not> pushed i (snd (admission_step a i))"
proof (cases i)
  case (Peer_Begin d e now)
  show ?thesis
  proof (cases d)
    case FD_Documents
    have "adm_role (fst (admit a FD_Documents e now)) = Viewer"
      using assms by (auto simp: admit_def Let_def split: list.splits)
    then show ?thesis
      using admit_documents_viewer [OF assms, of e now] Peer_Begin FD_Documents
      by (auto simp: Let_def split: if_splits)
  qed (use Peer_Begin assms in \<open>auto simp: Let_def admit_def\<close>)
qed (use assms in \<open>auto simp: request_peer_pick_def close_peer_pick_def Let_def\<close>)

lemma admission_run_counts:
  assumes "adm_role a = Viewer"
  shows "length (filter (\<lambda>(i, r). saved i r) (outcomes a ops))
           \<le> length (peer_picks a) + length (filter asks ops)
    \<and> list_all (\<lambda>(i, r). \<not> pushed i r) (outcomes a ops)"
  using assms
proof (induction ops arbitrary: a)
  case (Cons i ops)
  have step: "adm_role (fst (admission_step a i)) = Viewer"
    using admission_step_counts [OF Cons.prems] by blast
  show ?case
    using Cons.IH [OF step] admission_step_counts [OF Cons.prems, of i]
    by (auto simp: Let_def simp del: admission_step.simps split: if_splits)
qed simp

text \<open>Whatever the remote device sends, a viewer admits at most as many Documents transfers as it
  asked for, and never a drop or a paste: a compromised endpoint cannot push files onto the
  technician's machine.\<close>

theorem viewer_saves_only_requested:
  "length (filter (\<lambda>(i, r). saved i r) (outcomes (Admission_new Viewer) ops)) \<le> length (filter asks ops)
   \<and> list_all (\<lambda>(i, r). \<not> pushed i r) (outcomes (Admission_new Viewer) ops)"
  using admission_run_counts [of "Admission_new Viewer" ops] by (simp add: Admission_new_def)

text \<open>A Documents transfer is admitted on a viewer exactly when a request younger than 15 minutes is
  open, and it uses up the oldest such request.\<close>

theorem viewer_admits_fresh_request:
  "let live = filter (\<lambda>requested. now - requested < PEER_PICK_WINDOW) picks;
       r = admit \<lparr>adm_role = Viewer, peer_picks = picks\<rparr> FD_Documents e now
   in (snd r = Ok () \<longleftrightarrow> live \<noteq> []) \<and> peer_picks (fst r) = tl live"
  by (auto simp: admit_def Let_def split: list.splits)

section \<open>Ended transfers and limits\<close>

lemma end_transfer_recent:
  "foldl end_transfer [] ids = drop (length ids - 8) ids"
proof (induction ids rule: rev_induct)
  case (snoc i ids)
  show ?case
  proof (cases "8 \<le> length ids")
    case True
    then have "length (drop (length ids - 8) ids) = 8" by simp
    moreover have "Suc (length ids - 8) = length (ids @ [i]) - 8" using True by simp
    then have "tl (drop (length ids - 8) ids) = drop (length (ids @ [i]) - 8) ids"
      by (metis drop_Suc tl_drop)
    ultimately show ?thesis using snoc True by (simp add: end_transfer_def)
  qed (use snoc in \<open>simp add: end_transfer_def\<close>)
qed simp

section \<open>Accepted paths stay inside the transfer folder\<close>

lemma valid_components_Ok_iff:
  "valid_components cs = Ok r \<longleftrightarrow> r = cs \<and> list_all (\<lambda>c. valid_component c \<and> \<not> reserved_on_windows c) cs"
proof (induction cs arbitrary: r)
  case (Cons c cs)
  then show ?case by (cases "valid_components cs") auto
qed auto

lemma valid_path_Ok_iff:
  "valid_path path = Ok r \<longleftrightarrow>
     path \<noteq> [] \<and> str_len path \<le> 4096 \<and> r = str_split 47 path
     \<and> list_all (\<lambda>c. valid_component c \<and> \<not> reserved_on_windows c) r"
  by (auto simp: valid_path_def valid_components_Ok_iff)

text \<open>How an operating system walks a relative path: an empty component or a dot stays, two dots go up
  (leaving the folder at its top is an escape), a separator or a drive colon inside a component starts
  somewhere else.\<close>

fun walks_inside :: "nat \<Rightarrow> rust_string list \<Rightarrow> bool" where
  "walks_inside depth [] = True"
| "walks_inside depth (c # cs) =
     (if c = [] \<or> c = lit ''.'' then walks_inside depth cs
      else if c = lit ''..'' then 0 < depth \<and> walks_inside (depth - 1) cs
      else 47 \<notin> set c \<and> 92 \<notin> set c \<and> 58 \<notin> set c \<and> walks_inside (Suc depth) cs)"

lemma valid_component_walks: "valid_component c \<Longrightarrow> 92 \<notin> set c \<and> 58 \<notin> set c"
  by (auto simp: valid_component_def list_ex_iff forbidden_char_def)

lemma valid_walks_inside:
  "list_all (\<lambda>c. valid_component c \<and> 47 \<notin> set c) cs \<Longrightarrow> walks_inside depth cs"
proof (induction cs arbitrary: depth)
  case (Cons c cs)
  then show ?case using valid_component_walks [of c] by (auto simp: valid_component_def)
qed simp


end
