(* ===== verification/File_Receive.thy ===== *)
theory File_Receive
  imports File_Rules
begin

text \<open>
  The receiving side of a file transfer (\<open>crates/file-transfer/src/receive.rs\<close>): the staging folder,
  the checks on every message, and the moves that publish a finished transfer without replacing
  anything. A path is its list of components relative to the staging folder; the staging folder and
  the transfer folder are maps from names to nodes. The operating system decides the free space, a
  failing call and a partial write, given per message; SHA-256 is a parameter, and the hasher's state
  is the bytes it has been fed.
\<close>

type_synonym path = "rust_string list"

datatype node = Node_Dir | Node_File bytes

type_synonym stage = "path \<rightharpoonup> node"

record receive_io =
  io_free_space :: "u64 option"
  io_create_file :: bool
  io_create_dir :: bool
  io_write_stops :: "nat option"
  io_sync :: bool

definition io_works :: "u64 \<Rightarrow> receive_io" where
  "io_works free = \<lparr>io_free_space = Some free, io_create_file = True, io_create_dir = True,
     io_write_stops = None, io_sync = True\<rparr>"

record incoming =
  in_id :: u64
  in_destination :: file_destination
  in_stage :: stage
  in_roots :: "rust_string list"
  in_file :: "(path \<times> u64 \<times> bytes) option"
  in_entries :: nat
  in_received_bytes :: u64
  in_declared_bytes :: u64
  in_total_bytes :: u64
  in_total_entries :: u64
  in_current_name :: rust_string

definition empty_incoming :: "u64 \<Rightarrow> file_destination \<Rightarrow> incoming" where
  "empty_incoming i destination = \<lparr>
     in_id = i,
     in_destination = destination,
     in_stage = [[] \<mapsto> Node_Dir],
     in_roots = [],
     in_file = None,
     in_entries = 0,
     in_received_bytes = 0,
     in_declared_bytes = 0,
     in_total_bytes = 0,
     in_total_entries = 0,
     in_current_name = []\<rparr>"

text \<open>What the operating system answers while the staging folder is created.\<close>

record stage_io =
  sio_base_created :: bool
  sio_base_is_link :: bool
  sio_stage_created :: bool

definition Incoming_new :: "stage_io \<Rightarrow> u64 \<Rightarrow> file_destination \<Rightarrow> transfer_error + incoming" where
  "Incoming_new sio i destination =
     (if \<not> sio_base_created sio then Err Io_Error
      else if sio_base_is_link sio then Err Transfer_Directory_Is_Link
      else if \<not> sio_stage_created sio then Err Io_Error
      else Ok (empty_incoming i destination))"

type_synonym accepted = "incoming \<times> (transfer_error + unit)"

definition accept_totals :: "receive_io \<Rightarrow> incoming \<Rightarrow> u64 \<Rightarrow> u64 \<Rightarrow> accepted" where
  "accept_totals io s n entries =
     (if \<not> (in_total_entries s = 0 \<and> 0 < entries \<and> entries \<le> 100000) then (s, Err Invalid_Totals)
      else case check_limit (in_destination s) n of
        Inl e \<Rightarrow> (s, Err e)
      | Inr _ \<Rightarrow>
          (case io_free_space io of
             None \<Rightarrow> (s, Err Free_Space_Unknown)
           | Some free \<Rightarrow>
               if free < sat_add n FREE_SPACE_RESERVE_BYTES then (s, Err Not_Enough_Space)
               else (s\<lparr>in_total_bytes := n, in_total_entries := entries\<rparr>, Ok ())))"

definition declare_size :: "incoming \<Rightarrow> u64 option \<Rightarrow> incoming option" where
  "declare_size s sz =
     (case sz of
        None \<Rightarrow> Some s
      | Some sz \<Rightarrow>
          (case checked_add (in_declared_bytes s) sz of
             None \<Rightarrow> None
           | Some declared \<Rightarrow>
               if declared \<le> in_total_bytes s then Some (s\<lparr>in_declared_bytes := declared\<rparr>) else None))"

definition path_root :: "rust_string \<Rightarrow> rust_string" where
  "path_root path = (case split_once 47 path of None \<Rightarrow> path | Some (root, _) \<Rightarrow> root)"

definition note_root :: "incoming \<Rightarrow> rust_string \<Rightarrow> incoming" where
  "note_root s root = (if root \<in> set (in_roots s) then s else s\<lparr>in_roots := in_roots s @ [root]\<rparr>)"

definition create_entry :: "receive_io \<Rightarrow> incoming \<Rightarrow> path \<Rightarrow> u64 option \<Rightarrow> accepted" where
  "create_entry io s relative sz =
     (if in_stage s (butlast relative) \<noteq> Some Node_Dir then (s, Err Parent_Directory_Missing)
      else case sz of
        Some sz \<Rightarrow>
          if in_stage s relative \<noteq> None \<or> \<not> io_create_file io then (s, Err Io_Error)
          else (s\<lparr>in_stage := (in_stage s)(relative \<mapsto> Node_File []),
                  in_file := Some (relative, sz, [])\<rparr>, Ok ())
      | None \<Rightarrow>
          if in_stage s relative \<noteq> None \<or> \<not> io_create_dir io then (s, Err Io_Error)
          else (s\<lparr>in_stage := (in_stage s)(relative \<mapsto> Node_Dir)\<rparr>, Ok ()))"

definition accept_entry :: "receive_io \<Rightarrow> incoming \<Rightarrow> rust_string \<Rightarrow> u64 option \<Rightarrow> accepted" where
  "accept_entry io s path sz =
     (if in_total_entries s = 0 then (s, Err Totals_Missing)
      else
        let s = s\<lparr>in_current_name := path\<rparr> in
        if in_file s \<noteq> None then (s, Err Previous_File_Unfinished)
        else if \<not> word_of_nat (in_entries s) < in_total_entries s then
          (s, Err More_Entries_Than_Announced)
        else
          let s = s\<lparr>in_entries := in_entries s + 1\<rparr> in
          case valid_path path of
            Inl e \<Rightarrow> (s, Err (Path e))
          | Inr relative \<Rightarrow>
              (case declare_size s sz of
                 None \<Rightarrow> (s, Err Larger_Than_Announced)
               | Some s \<Rightarrow> create_entry io (note_root s (path_root path)) relative sz))"

definition accept_chunk :: "receive_io \<Rightarrow> incoming \<Rightarrow> bytes \<Rightarrow> accepted" where
  "accept_chunk io s data =
     (if \<not> (data \<noteq> [] \<and> length data \<le> FILE_CHUNK_BYTES) then (s, Err Invalid_Chunk_Size)
      else case in_file s of
        None \<Rightarrow> (s, Err No_Open_File)
      | Some (file, remaining, hash) \<Rightarrow>
          if \<not> word_of_nat (length data) \<le> remaining then (s, Err File_Exceeds_Declared_Size)
          else case io_write_stops io of
            Some n \<Rightarrow>
              (s\<lparr>in_stage := (in_stage s)(file \<mapsto> Node_File (hash @ take n data))\<rparr>, Err Io_Error)
          | None \<Rightarrow>
              (let s = s\<lparr>in_stage := (in_stage s)(file \<mapsto> Node_File (hash @ data)),
                         in_file := Some (file, remaining - word_of_nat (length data), hash @ data)\<rparr>
               in case checked_add (in_received_bytes s) (word_of_nat (length data)) of
                    None \<Rightarrow> (s, Err Transfer_Size_Overflow)
                  | Some received \<Rightarrow> (s\<lparr>in_received_bytes := received\<rparr>, Ok ())))"

definition accept_end_entry :: "(bytes \<Rightarrow> bytes) \<Rightarrow> receive_io \<Rightarrow> incoming \<Rightarrow> bytes \<Rightarrow> accepted" where
  "accept_end_entry sha256 io s digest =
     (case in_file s of
        None \<Rightarrow> (s, Err No_Open_File)
      | Some (file, remaining, hash) \<Rightarrow>
          let s = s\<lparr>in_file := None\<rparr> in
          if \<not> (remaining = 0 \<and> sha256 hash = digest) then (s, Err Checksum_Or_Size_Mismatch)
          else if \<not> io_sync io then (s, Err Io_Error)
          else (s, Ok ()))"

definition accept :: "(bytes \<Rightarrow> bytes) \<Rightarrow> receive_io \<Rightarrow> incoming \<Rightarrow> file_message \<Rightarrow> accepted" where
  "accept sha256 io s message =
     (case message of
        FM_Totals _ n entries \<Rightarrow> accept_totals io s n entries
      | FM_Entry _ path sz \<Rightarrow> accept_entry io s path sz
      | FM_Chunk _ data \<Rightarrow> accept_chunk io s data
      | FM_EndEntry _ digest \<Rightarrow> accept_end_entry sha256 io s digest
      | _ \<Rightarrow> (s, Err Unexpected_Packet))"

section \<open>Publishing a finished transfer\<close>

text \<open>What an entry of the transfer folder holds: the received subtree.\<close>

type_synonym folder = "rust_string \<rightharpoonup> stage"

datatype native_rename = Atomic_Rename | Rename_Unsupported | Rename_Fails

datatype rename_error = Already_Exists | Other_Error

definition rename_no_replace ::
    "native_rename \<Rightarrow> folder \<Rightarrow> rust_string \<Rightarrow> stage \<Rightarrow> rename_error + folder" where
  "rename_no_replace native folder target tree =
     (case native of
        Atomic_Rename \<Rightarrow>
          if folder target \<noteq> None then Err Already_Exists else Ok (folder(target \<mapsto> tree))
      | Rename_Unsupported \<Rightarrow>
          if folder target \<noteq> None then Err Already_Exists else Ok (folder(target \<mapsto> tree))
      | Rename_Fails \<Rightarrow> Err Other_Error)"

fun move_unique_loop ::
    "nat \<Rightarrow> (nat \<Rightarrow> native_rename) \<Rightarrow> (nat \<Rightarrow> rust_string) \<Rightarrow> folder \<Rightarrow> rust_string \<Rightarrow> stage
     \<Rightarrow> nat \<Rightarrow> folder \<times> (transfer_error + rust_string)" where
  "move_unique_loop 0 native fallback folder target tree tries = (folder, Err No_Free_Name)"
| "move_unique_loop (Suc n) native fallback folder target tree tries =
     (case rename_no_replace (native tries) folder target tree of
        Inr folder' \<Rightarrow> (folder', Ok target)
      | Inl Already_Exists \<Rightarrow>
          move_unique_loop n native fallback folder (fallback tries) tree (Suc tries)
      | Inl Other_Error \<Rightarrow> (folder, Err Io_Error))"

definition move_unique ::
    "(nat \<Rightarrow> native_rename) \<Rightarrow> (nat \<Rightarrow> rust_string) \<Rightarrow> folder \<Rightarrow> rust_string \<Rightarrow> stage
     \<Rightarrow> folder \<times> (transfer_error + rust_string)" where
  "move_unique native fallback folder name tree =
     move_unique_loop 8 native fallback folder name tree 0"

definition subtree :: "stage \<Rightarrow> rust_string \<Rightarrow> stage" where
  "subtree st root = (\<lambda>p. st (root # p))"

fun publish_roots ::
    "(rust_string \<Rightarrow> nat \<Rightarrow> native_rename) \<Rightarrow> (rust_string \<Rightarrow> nat \<Rightarrow> u64) \<Rightarrow> stage \<Rightarrow> folder
     \<Rightarrow> rust_string list \<Rightarrow> folder \<times> (transfer_error + path list)" where
  "publish_roots native ids st base [] = (base, Ok [])"
| "publish_roots native ids st base (root # roots) =
     (case move_unique (native root) (\<lambda>k. show_dec (unat (ids root k)) @ lit ''-'' @ root)
             base root (subtree st root) of
        (base', Inl e) \<Rightarrow> (base', Err e)
      | (base', Inr target) \<Rightarrow>
          (case publish_roots native ids st base' roots of
             (base'', Inl e) \<Rightarrow> (base'', Err e)
           | (base'', Inr targets) \<Rightarrow> (base'', Ok ([target] # targets))))"

definition finish ::
    "(rust_string \<Rightarrow> nat \<Rightarrow> native_rename) \<Rightarrow> (rust_string \<Rightarrow> nat \<Rightarrow> u64) \<Rightarrow> folder \<Rightarrow> incoming
     \<Rightarrow> folder \<times> (transfer_error + path list)" where
  "finish native ids base s =
     (if \<not> (in_file s = None \<and> in_roots s \<noteq> []
            \<and> word_of_nat (in_entries s) = in_total_entries s
            \<and> in_received_bytes s = in_total_bytes s)
      then (base, Err Incomplete_Transfer)
      else if in_destination s \<noteq> FD_Documents then
        (let batch_name = \<lambda>k. lit ''transfer-'' @ show_dec (unat (ids [] k)) in
         case move_unique (native []) (\<lambda>k. batch_name (Suc k)) base (batch_name 0) (in_stage s) of
           (base', Inl e) \<Rightarrow> (base', Err e)
         | (base', Inr batch) \<Rightarrow> (base', Ok (map (\<lambda>root. [batch, root]) (in_roots s))))
      else publish_roots native ids (in_stage s) base (in_roots s))"

section \<open>The receiver's invariant\<close>

definition safe_path :: "path \<Rightarrow> bool" where
  "safe_path p \<longleftrightarrow> list_all (\<lambda>c. valid_component c \<and> \<not> reserved_on_windows c \<and> 47 \<notin> set c) p"

definition stage_ok :: "stage \<Rightarrow> bool" where
  "stage_ok st \<longleftrightarrow> finite (dom st) \<and> st [] = Some Node_Dir
     \<and> (\<forall>p \<in> dom st. safe_path p \<and> (p \<noteq> [] \<longrightarrow> st (butlast p) = Some Node_Dir))"

definition node_bytes :: "node option \<Rightarrow> nat" where
  "node_bytes n = (case n of Some (Node_File b) \<Rightarrow> length b | _ \<Rightarrow> 0)"

definition disk_bytes :: "stage \<Rightarrow> nat" where
  "disk_bytes st = (\<Sum>p \<in> dom st. node_bytes (st p))"

definition file_ok :: "incoming \<Rightarrow> bool" where
  "file_ok s \<longleftrightarrow>
     (case in_file s of
        None \<Rightarrow> in_received_bytes s = in_declared_bytes s
      | Some (p, remaining, hash) \<Rightarrow> in_stage s p = Some (Node_File hash)
          \<and> unat (in_received_bytes s) + unat remaining = unat (in_declared_bytes s))"

definition roots_ok :: "incoming \<Rightarrow> bool" where
  "roots_ok s \<longleftrightarrow> distinct (in_roots s) \<and> set (in_roots s) = hd ` (dom (in_stage s) - {[]})"

definition incoming_ok :: "incoming \<Rightarrow> bool" where
  "incoming_ok s \<longleftrightarrow> stage_ok (in_stage s) \<and> file_ok s \<and> roots_ok s
     \<and> in_declared_bytes s \<le> in_total_bytes s
     \<and> in_total_bytes s \<le> transfer_limit (in_destination s)
     \<and> in_total_entries s \<le> 100000
     \<and> in_entries s \<le> unat (in_total_entries s)
     \<and> disk_bytes (in_stage s) = unat (in_received_bytes s)
     \<and> card (dom (in_stage s)) = Suc (in_entries s)"

lemma empty_incoming_ok: "incoming_ok (empty_incoming i d)"
  by (auto simp: incoming_ok_def empty_incoming_def stage_ok_def file_ok_def roots_ok_def disk_bytes_def
      node_bytes_def safe_path_def)

lemma disk_bytes_update:
  assumes "finite (dom st)"
  shows "disk_bytes (st(p \<mapsto> n)) + node_bytes (st p) = disk_bytes st + node_bytes (Some n)"
proof -
  have rest: "(\<Sum>q \<in> dom st - {p}. node_bytes ((st(p \<mapsto> n)) q)) = (\<Sum>q \<in> dom st - {p}. node_bytes (st q))"
    by (rule sum.cong) auto
  have "disk_bytes (st(p \<mapsto> n)) = node_bytes (Some n) + (\<Sum>q \<in> dom st - {p}. node_bytes (st q))"
    using assms rest by (simp add: disk_bytes_def sum.insert_remove)
  moreover have "disk_bytes st = node_bytes (st p) + (\<Sum>q \<in> dom st - {p}. node_bytes (st q))"
  proof (cases "p \<in> dom st")
    case True
    then show ?thesis using assms by (simp add: disk_bytes_def sum.remove)
  next
    case False
    then show ?thesis by (simp add: disk_bytes_def domIff node_bytes_def)
  qed
  ultimately show ?thesis by simp
qed

lemma stage_ok_update:
  assumes "stage_ok st" "safe_path p" "st (butlast p) = Some Node_Dir" "p \<noteq> []"
    "\<And>q. st q = Some Node_Dir \<Longrightarrow> (st(p \<mapsto> n)) q = Some Node_Dir"
  shows "stage_ok (st(p \<mapsto> n))"
  using assms unfolding stage_ok_def by (auto split: if_splits)

lemma valid_path_safe:
  assumes "valid_path path = Ok p"
  shows "safe_path p" "p \<noteq> []" "p = str_split 47 path"
  using assms str_split_no_sep [of _ 47 path]
  by (auto simp: valid_path_Ok_iff safe_path_def list_all_iff)

lemma hd_str_split: "hd (str_split c s) = takeWhile (\<lambda>x. x \<noteq> c) s"
proof (induction s)
  case (Cons a s)
  then show ?case by (cases "str_split c s") auto
qed simp

lemma path_root_hd: "path_root path = hd (str_split 47 path)"
proof (cases "47 \<in> set path")
  case False
  then have "takeWhile (\<lambda>x. x \<noteq> 47) path = path" by (induction path) auto
  from this [symmetric] show ?thesis by (simp add: path_root_def split_once_def hd_str_split False)
qed (simp add: path_root_def split_once_def hd_str_split)

lemma no_entries_nothing_received:
  assumes "incoming_ok s" "in_total_entries s = 0"
  shows "in_file s = None" "in_received_bytes s = 0" "in_declared_bytes s = 0" "in_entries s = 0"
proof -
  show entries: "in_entries s = 0" using assms by (simp add: incoming_ok_def)
  have root: "in_stage s [] = Some Node_Dir" using assms by (simp add: incoming_ok_def stage_ok_def)
  have "card (dom (in_stage s)) = 1" using assms entries by (simp add: incoming_ok_def)
  then obtain q where "dom (in_stage s) = {q}" by (auto simp: card_1_singleton_iff)
  with root have dom: "dom (in_stage s) = {[]}" by (metis domI singletonD)
  show opened: "in_file s = None"
  proof (cases "in_file s")
    case (Some f)
    obtain p r h where "f = (p, r, h)" by (cases f)
    with Some have p: "in_stage s p = Some (Node_File h)"
      using assms by (simp add: incoming_ok_def file_ok_def)
    then have "p = []" using dom by blast
    then show ?thesis using root p by simp
  qed
  have "disk_bytes (in_stage s) = 0" by (simp add: disk_bytes_def dom root node_bytes_def)
  then show "in_received_bytes s = 0" using assms by (simp add: incoming_ok_def unat_eq_zero)
  then show "in_declared_bytes s = 0" using assms opened by (simp add: incoming_ok_def file_ok_def)
qed

lemma accept_totals_ok:
  assumes "incoming_ok s" "accept_totals io s n entries = (s', Ok r)"
  shows "incoming_ok s'"
proof -
  have *: "in_total_entries s = 0" "entries \<le> 100000" "n \<le> transfer_limit (in_destination s)"
    "s' = s\<lparr>in_total_bytes := n, in_total_entries := entries\<rparr>"
    using assms(2) by (auto simp: accept_totals_def check_limit_def Let_def
        split: if_splits sum.splits option.splits)
  then show ?thesis
    using assms(1) no_entries_nothing_received [OF assms(1) *(1)]
    by (simp add: incoming_ok_def file_ok_def roots_ok_def)
qed

lemma accept_chunk_ok:
  assumes ok: "incoming_ok s" and acc: "accept_chunk io s data = (s', Ok r)"
  shows "incoming_ok s'"
proof -
  obtain p remaining hash where opened: "in_file s = Some (p, remaining, hash)"
    and len: "length data \<le> FILE_CHUNK_BYTES" and fits: "word_of_nat (length data) \<le> remaining"
    using acc by (auto simp: accept_chunk_def split: if_splits option.splits)
  have n: "unat (word_of_nat (length data) :: u64) = length data"
    using len by (simp add: FILE_CHUNK_BYTES_def unat_of_nat)
  obtain received where recv: "checked_add (in_received_bytes s) (word_of_nat (length data)) = Some received"
    and s': "s' = s\<lparr>in_stage := (in_stage s)(p \<mapsto> Node_File (hash @ data)),
               in_file := Some (p, remaining - word_of_nat (length data), hash @ data),
               in_received_bytes := received\<rparr>"
    using acc opened by (auto simp: accept_chunk_def Let_def split: if_splits option.splits)
  have st: "in_stage s p = Some (Node_File hash)" "finite (dom (in_stage s))" "stage_ok (in_stage s)"
    using ok opened by (auto simp: incoming_ok_def file_ok_def stage_ok_def)
  have p: "p \<noteq> []" using st by (auto simp: stage_ok_def)
  have "stage_ok ((in_stage s)(p \<mapsto> Node_File (hash @ data)))"
    using st p by (intro stage_ok_update) (auto simp: stage_ok_def)
  moreover have "disk_bytes ((in_stage s)(p \<mapsto> Node_File (hash @ data))) = unat received"
    using disk_bytes_update [OF st(2), of p "Node_File (hash @ data)"] st ok checked_add_Some [OF recv] n
    by (simp add: node_bytes_def incoming_ok_def)
  moreover have "unat received + unat (remaining - word_of_nat (length data)) = unat (in_declared_bytes s)"
    using ok opened checked_add_Some [OF recv] n fits
    by (simp add: incoming_ok_def file_ok_def unat_sub word_le_nat_alt)
  moreover have "dom ((in_stage s)(p \<mapsto> Node_File (hash @ data))) = dom (in_stage s)"
    using st(1) by auto
  ultimately show ?thesis
    using ok by (simp add: s' incoming_ok_def file_ok_def roots_ok_def)
qed

lemma accept_end_entry_ok:
  assumes ok: "incoming_ok s" and acc: "accept_end_entry sha256 io s digest = (s', Ok r)"
  shows "incoming_ok s'"
proof -
  obtain p hash where opened: "in_file s = Some (p, 0, hash)" and s': "s' = s\<lparr>in_file := None\<rparr>"
    using acc by (auto simp: accept_end_entry_def Let_def split: if_splits option.splits)
  then show ?thesis
    using ok by (simp add: incoming_ok_def file_ok_def roots_ok_def word_unat_eq_iff)
qed

lemma declare_size_Some:
  "declare_size s sz = Some s' \<longleftrightarrow>
     (case sz of
        None \<Rightarrow> s' = s
      | Some n \<Rightarrow> unat (in_declared_bytes s) + unat n \<le> unat (in_total_bytes s)
          \<and> s' = s\<lparr>in_declared_bytes := in_declared_bytes s + n\<rparr>)"
proof (cases sz)
  case (Some n)
  have "unat (in_declared_bytes s) + unat n < 2 ^ 64 \<Longrightarrow>
      in_declared_bytes s + n \<le> in_total_bytes s \<longleftrightarrow>
      unat (in_declared_bytes s) + unat n \<le> unat (in_total_bytes s)"
    by (simp add: word_le_nat_alt unat_word_ariths)
  then show ?thesis
    using Some unat_lt_pow [of "in_total_bytes s"]
    by (auto simp: declare_size_def checked_add_def split: option.splits if_splits)
qed (auto simp: declare_size_def)

text \<open>An accepted entry: what was checked and how the state changes.\<close>

definition opened :: "path \<Rightarrow> u64 option \<Rightarrow> (path \<times> u64 \<times> bytes) option" where
  "opened p sz = (case sz of None \<Rightarrow> None | Some n \<Rightarrow> Some (p, n, []))"

definition entry_node :: "u64 option \<Rightarrow> node" where
  "entry_node sz = (case sz of None \<Rightarrow> Node_Dir | Some n \<Rightarrow> Node_File [])"

definition size_or_zero :: "u64 option \<Rightarrow> u64" where
  "size_or_zero sz = (case sz of None \<Rightarrow> 0 | Some n \<Rightarrow> n)"

definition after_entry :: "incoming \<Rightarrow> rust_string \<Rightarrow> path \<Rightarrow> u64 option \<Rightarrow> incoming" where
  "after_entry s path p sz =
     note_root (s\<lparr>in_current_name := path, in_entries := in_entries s + 1,
        in_declared_bytes := in_declared_bytes s + size_or_zero sz\<rparr>) (path_root path)
     \<lparr>in_stage := (in_stage s)(p \<mapsto> entry_node sz), in_file := opened p sz\<rparr>"

lemma note_root_simps [simp]:
  "in_stage (note_root s r) = in_stage s" "in_file (note_root s r) = in_file s"
  "in_entries (note_root s r) = in_entries s" "in_total_entries (note_root s r) = in_total_entries s"
  "in_total_bytes (note_root s r) = in_total_bytes s" "in_declared_bytes (note_root s r) = in_declared_bytes s"
  "in_received_bytes (note_root s r) = in_received_bytes s" "in_destination (note_root s r) = in_destination s"
  "in_id (note_root s r) = in_id s"
  "in_roots (note_root s r) = (if r \<in> set (in_roots s) then in_roots s else in_roots s @ [r])"
  by (simp_all add: note_root_def)

lemma create_entry_Ok:
  "in_file s = None \<Longrightarrow> create_entry io s p sz = (s', Ok r) \<Longrightarrow>
     in_stage s (butlast p) = Some Node_Dir \<and> in_stage s p = None
     \<and> s' = s\<lparr>in_stage := (in_stage s)(p \<mapsto> entry_node sz), in_file := opened p sz\<rparr>"
  by (auto simp: create_entry_def entry_node_def opened_def split: if_splits option.splits)

lemma accept_entry_Ok:
  assumes "accept_entry io s path sz = (s', Ok r)"
  obtains p where "in_file s = None" "word_of_nat (in_entries s) < in_total_entries s"
    "valid_path path = Ok p"
    "unat (in_declared_bytes s) + unat (size_or_zero sz) \<le> unat (in_total_bytes s) \<or> sz = None"
    "in_stage s (butlast p) = Some Node_Dir" "in_stage s p = None"
    "s' = after_entry s path p sz"
proof -
  let ?s = "s\<lparr>in_current_name := path, in_entries := in_entries s + 1\<rparr>"
  from assms have pre: "in_file s = None" "word_of_nat (in_entries s) < in_total_entries s"
    by (cases "in_file s"; auto simp: accept_entry_def Let_def split: if_splits)+
  from assms pre obtain p s2 where p: "valid_path path = Ok p" and s2: "declare_size ?s sz = Some s2"
    and s': "create_entry io (note_root s2 (path_root path)) p sz = (s', Ok r)"
    by (auto simp: accept_entry_def Let_def split: if_splits sum.splits option.splits)
  have s2': "s2 = ?s\<lparr>in_declared_bytes := in_declared_bytes s + size_or_zero sz\<rparr>"
    using s2 by (cases sz) (auto simp: declare_size_Some size_or_zero_def)
  have fits: "unat (in_declared_bytes s) + unat (size_or_zero sz) \<le> unat (in_total_bytes s) \<or> sz = None"
    using s2 by (cases sz) (auto simp: declare_size_Some size_or_zero_def)
  have "in_file (note_root s2 (path_root path)) = None" using pre s2' by simp
  from create_entry_Ok [OF this s'] show thesis
    using that [of p] pre p fits by (simp add: after_entry_def s2')
qed

lemma accept_entry_ok:
  assumes ok: "incoming_ok s" and acc: "accept_entry io s path sz = (s', Ok r)"
  shows "incoming_ok s'"
proof -
  from acc obtain p where pre: "in_file s = None" "word_of_nat (in_entries s) < in_total_entries s"
    and p: "valid_path path = Ok p"
    and fits: "unat (in_declared_bytes s) + unat (size_or_zero sz) \<le> unat (in_total_bytes s) \<or> sz = None"
    and st: "in_stage s (butlast p) = Some Node_Dir" "in_stage s p = None"
    and s': "s' = after_entry s path p sz"
    by (rule accept_entry_Ok)
  have stage: "stage_ok (in_stage s)" "finite (dom (in_stage s))"
    using ok by (auto simp: incoming_ok_def stage_ok_def)
  have "stage_ok ((in_stage s)(p \<mapsto> entry_node sz))"
    using stage st valid_path_safe [OF p] by (intro stage_ok_update) auto
  moreover have "disk_bytes ((in_stage s)(p \<mapsto> entry_node sz)) = disk_bytes (in_stage s)"
    using disk_bytes_update [OF stage(2), of p "entry_node sz"] st
    by (simp add: node_bytes_def entry_node_def split: option.splits)
  moreover have "unat (in_entries_word :: u64) = in_entries s"
    if "in_entries_word = word_of_nat (in_entries s)" for in_entries_word
  proof -
    have "unat (in_total_entries s) < 2 ^ 64" using unat_lt_pow [of "in_total_entries s"] by simp
    then have "in_entries s < 2 ^ 64" using ok unfolding incoming_ok_def by linarith
    then show ?thesis using that by (simp add: unat_of_nat)
  qed
  then have "in_entries s < unat (in_total_entries s)" using pre by (simp add: word_less_nat_alt)
  moreover have "unat (in_declared_bytes s + size_or_zero sz) = unat (in_declared_bytes s) + unat (size_or_zero sz)
      \<and> in_declared_bytes s + size_or_zero sz \<le> in_total_bytes s"
  proof (cases sz)
    case (Some n)
    then have "unat (in_declared_bytes s) + unat n < 2 ^ 64"
      using fits unat_lt_pow [of "in_total_bytes s"] by (simp add: size_or_zero_def)
    then show ?thesis using Some fits by (simp add: size_or_zero_def unat_word_ariths word_le_nat_alt)
  qed (use ok in \<open>simp add: size_or_zero_def incoming_ok_def\<close>)
  moreover have "roots_ok s'"
  proof -
    have "hd ` (dom (in_stage s') - {[]}) = insert (hd p) (hd ` (dom (in_stage s) - {[]}))"
      using valid_path_safe(2) [OF p] by (auto simp: s' after_entry_def)
    then show ?thesis
      using ok valid_path_safe(3) [OF p]
      by (auto simp: roots_ok_def incoming_ok_def s' after_entry_def path_root_hd)
  qed
  moreover have "card (dom ((in_stage s)(p \<mapsto> entry_node sz))) = Suc (Suc (in_entries s))"
    using ok st stage by (simp add: incoming_ok_def domIff)
  ultimately show ?thesis
    using ok pre unfolding incoming_ok_def
    by (simp add: s' after_entry_def file_ok_def opened_def size_or_zero_def entry_node_def
        word_unat_eq_iff split: option.splits)
qed

lemma accept_keeps_ok:
  "incoming_ok s \<Longrightarrow> accept sha256 io s m = (s', Ok r) \<Longrightarrow> incoming_ok s'"
  by (cases m)
    (auto simp: accept_def intro: accept_totals_ok accept_entry_ok accept_chunk_ok accept_end_entry_ok)

section \<open>A whole transfer\<close>

text \<open>Messages are accepted until the first error; the caller then drops the transfer, and dropping it
  removes the staging folder.\<close>

fun accept_all :: "(bytes \<Rightarrow> bytes) \<Rightarrow> incoming \<Rightarrow> (receive_io \<times> file_message) list \<Rightarrow> accepted" where
  "accept_all sha256 s [] = (s, Ok ())"
| "accept_all sha256 s ((io, m) # ms) =
     (case accept sha256 io s m of
        (s', Inl e) \<Rightarrow> (s', Err e)
      | (s', Inr _) \<Rightarrow> accept_all sha256 s' ms)"

lemma accept_all_ok: "incoming_ok s \<Longrightarrow> accept_all sha256 s ms = (s', Ok r) \<Longrightarrow> incoming_ok s'"
proof (induction ms arbitrary: s)
  case (Cons m ms)
  obtain io msg where m: "m = (io, msg)" by (cases m)
  show ?case
  proof (cases "accept sha256 io s msg")
    case (Pair s1 r1)
    then show ?thesis
      using Cons m accept_keeps_ok [OF Cons.prems(1), of sha256 io msg s1] by (cases r1) auto
  qed
qed simp

text \<open>After any sequence of accepted messages the staging folder holds at most the announced entries and
  bytes, never more than the destination's limit, every entry lies under safe components with its
  parent folder present, and the bytes on disk are exactly the bytes counted as received.\<close>

theorem receiver_stays_within_announcement:
  "case accept_all sha256 (empty_incoming i destination) ms of
     (s, Inl e) \<Rightarrow> True
   | (s, Inr _) \<Rightarrow>
       disk_bytes (in_stage s) = unat (in_received_bytes s)
       \<and> in_received_bytes s \<le> in_total_bytes s
       \<and> in_total_bytes s \<le> transfer_limit (in_destination s)
       \<and> card (dom (in_stage s) - {[]}) \<le> unat (in_total_entries s)
       \<and> in_total_entries s \<le> 100000
       \<and> stage_ok (in_stage s)"
proof (cases "accept_all sha256 (empty_incoming i destination) ms")
  case (Pair s r)
  show ?thesis
  proof (cases r)
    case (Inr u)
    then have ok: "incoming_ok s"
      using accept_all_ok [OF empty_incoming_ok, of sha256 i destination ms s] Pair by simp
    moreover have "in_received_bytes s \<le> in_declared_bytes s"
      using ok by (auto simp: incoming_ok_def file_ok_def word_le_nat_alt split: option.splits)
    moreover have "card (dom (in_stage s) - {[]}) = in_entries s"
      using ok by (auto simp: incoming_ok_def stage_ok_def domIff)
    ultimately show ?thesis
      using Pair Inr by (auto simp: incoming_ok_def intro: order_trans)
  qed (simp add: Pair)
qed


section \<open>Publishing never replaces\<close>

lemma move_unique_loop_adds:
  "move_unique_loop n native fallback folder target tree k = (folder', r) \<Longrightarrow>
     (case r of
        Inl e \<Rightarrow> folder' = folder
      | Inr t \<Rightarrow> folder t = None \<and> folder' = folder(t \<mapsto> tree))"
proof (induction n arbitrary: target k)
  case (Suc n)
  then show ?case
    by (auto simp: rename_no_replace_def split: native_rename.splits if_splits)
qed auto

lemma move_unique_adds:
  assumes "move_unique native fallback folder name tree = (folder', r)"
  shows "case r of
        Inl e \<Rightarrow> folder' = folder
      | Inr t \<Rightarrow> folder t = None \<and> folder' = folder(t \<mapsto> tree)"
  using assms unfolding move_unique_def by (rule move_unique_loop_adds)

lemma publish_roots_adds:
  "publish_roots native ids st base roots = (base', r) \<Longrightarrow>
     base \<subseteq>\<^sub>m base' \<and>
     (case r of
        Inl e \<Rightarrow> True
      | Inr targets \<Rightarrow>
          list_all2 (\<lambda>root p. \<exists>t. p = [t] \<and> base t = None \<and> base' t = Some (subtree st root)) roots targets)"
proof (induction roots arbitrary: base base' r)
  case (Cons root roots)
  obtain b1 r1 where mv: "move_unique (native root) (\<lambda>k. show_dec (unat (ids root k)) @ lit ''-'' @ root)
             base root (subtree st root) = (b1, r1)"
    by (cases "move_unique (native root) (\<lambda>k. show_dec (unat (ids root k)) @ lit ''-'' @ root)
             base root (subtree st root)")
  show ?case
  proof (cases r1)
    case (Inl e)
    then show ?thesis using Cons.prems mv move_unique_adds [OF mv] by auto
  next
    case (Inr t)
    obtain b2 r2 where rest: "publish_roots native ids st b1 roots = (b2, r2)"
      by (cases "publish_roots native ids st b1 roots")
    have t: "base t = None" "b1 = base(t \<mapsto> subtree st root)"
      using move_unique_adds [OF mv] Inr by auto
    have le: "base \<subseteq>\<^sub>m b1" using t by (auto simp: map_le_def domIff)
    note ih = Cons.IH [OF rest]
    have le2: "base \<subseteq>\<^sub>m b2" using le ih by (blast intro: map_le_trans)
    have t2: "b2 t = Some (subtree st root)"
    proof -
      have b1: "b1 t = Some (subtree st root)" using t(2) by simp
      then have "t \<in> dom b1" by blast
      then have "b1 t = b2 t" using ih unfolding map_le_def by blast
      then show ?thesis using b1 by simp
    qed
    show ?thesis
    proof (cases r2)
      case (Inl e)
      then show ?thesis using Cons.prems mv Inr rest le2 by auto
    next
      case ts: (Inr targets)
      have "list_all2 (\<lambda>root p. \<exists>t. p = [t] \<and> base t = None \<and> b2 t = Some (subtree st root)) roots targets"
      proof (rule list_all2_mono)
        show "list_all2 (\<lambda>root p. \<exists>t. p = [t] \<and> b1 t = None \<and> b2 t = Some (subtree st root)) roots targets"
          using ih ts by simp
      qed (auto simp: t(2) split: if_splits)
      then show ?thesis using Cons.prems mv Inr rest ts le2 t(1) t2 by auto
    qed
  qed
qed auto

text \<open>Finishing a transfer never replaces or removes anything in the transfer folder, whatever names are
  taken and whichever renames fail. A successful finish implies the whole announcement arrived; each
  root of a Documents transfer then lies, complete, under a name that was free before, and any other
  transfer lies as one new batch folder.\<close>

theorem finish_publishes_without_replacing:
  "case finish native ids base s of
     (base', r) \<Rightarrow> base \<subseteq>\<^sub>m base' \<and>
     (case r of
        Inl e \<Rightarrow> True
      | Inr paths \<Rightarrow>
          in_file s = None \<and> in_received_bytes s = in_total_bytes s
          \<and> word_of_nat (in_entries s) = in_total_entries s
          \<and> (if in_destination s = FD_Documents
             then list_all2 (\<lambda>root p. \<exists>t. p = [t] \<and> base t = None
                    \<and> base' t = Some (subtree (in_stage s) root)) (in_roots s) paths
             else \<exists>batch. base batch = None \<and> base' batch = Some (in_stage s)
                    \<and> paths = map (\<lambda>root. [batch, root]) (in_roots s)))"
proof (cases "in_file s = None \<and> in_roots s \<noteq> []
            \<and> word_of_nat (in_entries s) = in_total_entries s
            \<and> in_received_bytes s = in_total_bytes s")
  case complete: True
  show ?thesis
  proof (cases "in_destination s = FD_Documents")
    case True
    obtain b r where pub: "publish_roots native ids (in_stage s) base (in_roots s) = (b, r)"
      by (cases "publish_roots native ids (in_stage s) base (in_roots s)")
    then have "finish native ids base s = (b, r)" using complete True by (simp add: finish_def)
    then show ?thesis
      using publish_roots_adds [OF pub] complete True by (cases r) simp_all
  next
    case False
    define name where "name = (\<lambda>k. lit ''transfer-'' @ show_dec (unat (ids [] k)))"
    obtain b r where mv: "move_unique (native []) (\<lambda>k. name (Suc k)) base (name 0) (in_stage s) = (b, r)"
      by (cases "move_unique (native []) (\<lambda>k. name (Suc k)) base (name 0) (in_stage s)")
    have fin: "finish native ids base s =
        (case r of Inl e \<Rightarrow> (b, Err e) | Inr batch \<Rightarrow> (b, Ok (map (\<lambda>root. [batch, root]) (in_roots s))))"
      using complete False mv by (simp add: finish_def Let_def name_def)
    show ?thesis
      using move_unique_adds [OF mv] complete False
      by (cases r) (auto simp: fin map_le_def domIff)
  qed
next
  case False
  then have "finish native ids base s = (base, Err Incomplete_Transfer)" by (simp add: finish_def)
  then show ?thesis by simp
qed

end
