(* ===== verification/File_Send.thy ===== *)
theory File_Send
  imports File_Receive
begin

text \<open>
  The sending side of a file transfer (\<open>crates/file-transfer/src/send.rs\<close>) and the local copy into
  Documents that joins it to the receiver (\<open>commit_documents\<close> of \<open>lib.rs\<close>). What the file system shows
  under a path is a \<open>src_node\<close>; a file carries the length its metadata reported when it was listed and
  the content found when it is opened, which may differ. A read returns as many bytes as the operating
  system likes, at least one before the end of the file, or fails. The \<open>send\<close> closure is a function on
  an explicit state, so that the network sender and the local receiver are two instances of it.
\<close>

datatype entry_name = Utf8_Name rust_string | Non_Utf8_Name | Unreadable_Entry

datatype src_node =
    Src_File u64 "bytes option"
  | Src_Dir "(entry_name \<times> src_node) list"
  | Src_Unreadable_Dir
  | Src_Link
  | Src_Special
  | Src_Missing

type_synonym manifest_entry = "src_node \<times> rust_string \<times> u64 option"

fun visit ::
    "src_node \<Rightarrow> rust_string \<Rightarrow> manifest_entry list \<Rightarrow> nat \<Rightarrow> transfer_error + manifest_entry list"
  and visit_children ::
    "(entry_name \<times> src_node) list \<Rightarrow> rust_string \<Rightarrow> manifest_entry list \<Rightarrow> nat
     \<Rightarrow> transfer_error + manifest_entry list" where
  "visit node relative entries depth =
     (if \<not> (depth < 128 \<and> length entries < 100000) then Err Folder_Tree_Too_Large
      else case valid_path relative of
        Inl e \<Rightarrow> Err (Path e)
      | Inr _ \<Rightarrow>
          (case node of
             Src_Missing \<Rightarrow> Err Io_Error
           | Src_Link \<Rightarrow> Err Symbolic_Link
           | Src_Special \<Rightarrow> Err Not_A_Regular_File
           | Src_File len content \<Rightarrow> Ok (entries @ [(node, relative, Some len)])
           | Src_Unreadable_Dir \<Rightarrow> Err Io_Error
           | Src_Dir children \<Rightarrow>
               visit_children children relative (entries @ [(node, relative, None)]) (depth + 1)))"
| "visit_children [] relative entries depth = Ok entries"
| "visit_children ((name, node) # children) relative entries depth =
     (case name of
        Unreadable_Entry \<Rightarrow> Err Io_Error
      | Non_Utf8_Name \<Rightarrow> Err Name_Not_Unicode
      | Utf8_Name name \<Rightarrow>
          (case visit node (relative @ lit ''/'' @ name) entries depth of
             Inl e \<Rightarrow> Err e
           | Inr entries' \<Rightarrow> visit_children children relative entries' depth))"

declare visit.simps [simp del]

text \<open>The paths to send, each with its final component if it has one.\<close>

fun visit_paths ::
    "(entry_name option \<times> src_node) list \<Rightarrow> manifest_entry list \<Rightarrow> transfer_error + manifest_entry list"
  where
  "visit_paths [] entries = Ok entries"
| "visit_paths ((name, node) # paths) entries =
     (case name of
        None \<Rightarrow> Err Filesystem_Root
      | Some (Utf8_Name name) \<Rightarrow>
          (case visit node name entries 0 of
             Inl e \<Rightarrow> Err e
           | Inr entries' \<Rightarrow> visit_paths paths entries')
      | Some _ \<Rightarrow> Err Name_Not_Unicode)"

fun sum_sizes :: "u64 \<Rightarrow> manifest_entry list \<Rightarrow> u64 option" where
  "sum_sizes acc [] = Some acc"
| "sum_sizes acc ((_, _, sz) # entries) =
     (case checked_add acc (case sz of None \<Rightarrow> 0 | Some n \<Rightarrow> n) of
        None \<Rightarrow> None
      | Some acc' \<Rightarrow> sum_sizes acc' entries)"

type_synonym 's send_fn = "'s \<Rightarrow> file_message \<Rightarrow> 's \<times> (transfer_error + unit)"

definition read_len :: "nat \<Rightarrow> nat \<Rightarrow> nat" where
  "read_len k available = max 1 (min k available)"

function send_chunks ::
    "(nat \<Rightarrow> nat option) \<Rightarrow> u64 \<Rightarrow> 's send_fn \<Rightarrow> 's \<Rightarrow> bytes \<Rightarrow> bytes \<Rightarrow> 's \<times> (transfer_error + bytes)"
  where
  "send_chunks reads i send s rest hash =
     (if rest = [] then (s, Ok hash)
      else case reads (length rest) of
        None \<Rightarrow> (s, Err Io_Error)
      | Some k \<Rightarrow>
          (let n = read_len k (min FILE_CHUNK_BYTES (length rest)); data = take n rest in
           case send s (FM_Chunk i data) of
             (s', Inl e) \<Rightarrow> (s', Err e)
           | (s', Inr _) \<Rightarrow> send_chunks reads i send s' (drop n rest) (hash @ data)))"
  by pat_completeness auto
termination
  by (relation "measure (\<lambda>(reads, i, send, s, rest, hash). length rest)") (auto simp: read_len_def)

declare send_chunks.simps [simp del]

definition send_file ::
    "(bytes \<Rightarrow> bytes) \<Rightarrow> (nat \<Rightarrow> nat option) \<Rightarrow> u64 \<Rightarrow> bytes option \<Rightarrow> u64 \<Rightarrow> 's send_fn \<Rightarrow> 's
     \<Rightarrow> 's \<times> (transfer_error + unit)" where
  "send_file sha256 reads i content sz send s =
     (case content of
        None \<Rightarrow> (s, Err Io_Error)
      | Some content \<Rightarrow>
          (case send_chunks reads i send s (take (unat sz) content) [] of
             (s', Inl e) \<Rightarrow> (s', Err e)
           | (s', Inr hash) \<Rightarrow>
               if length hash \<noteq> unat sz then (s', Err File_Changed)
               else send s' (FM_EndEntry i (sha256 hash))))"

definition src_content :: "src_node \<Rightarrow> bytes option" where
  "src_content node = (case node of Src_File _ content \<Rightarrow> content | _ \<Rightarrow> None)"

fun send_entries ::
    "(bytes \<Rightarrow> bytes) \<Rightarrow> (nat \<Rightarrow> nat option) \<Rightarrow> u64 \<Rightarrow> 's send_fn \<Rightarrow> 's \<Rightarrow> manifest_entry list
     \<Rightarrow> 's \<times> (transfer_error + unit)" where
  "send_entries sha256 reads i send s [] = (s, Ok ())"
| "send_entries sha256 reads i send s ((node, relative, sz) # entries) =
     (case send s (FM_Entry i relative sz) of
        (s', Inl e) \<Rightarrow> (s', Err e)
      | (s', Inr _) \<Rightarrow>
          (case (case sz of
                   None \<Rightarrow> (s', Ok ())
                 | Some n \<Rightarrow> send_file sha256 reads i (src_content node) n send s') of
             (s'', Inl e) \<Rightarrow> (s'', Err e)
           | (s'', Inr _) \<Rightarrow> send_entries sha256 reads i send s'' entries))"

definition send_paths ::
    "(bytes \<Rightarrow> bytes) \<Rightarrow> (nat \<Rightarrow> nat option) \<Rightarrow> u64 \<Rightarrow> (entry_name option \<times> src_node) list
     \<Rightarrow> file_destination \<Rightarrow> 's send_fn \<Rightarrow> 's \<Rightarrow> 's \<times> (transfer_error + unit)" where
  "send_paths sha256 reads i paths destination send s =
     (case visit_paths paths [] of
        Inl e \<Rightarrow> (s, Err e)
      | Inr entries \<Rightarrow>
          (case sum_sizes 0 entries of
             None \<Rightarrow> (s, Err Transfer_Size_Overflow)
           | Some n \<Rightarrow>
               (case check_limit destination n of
                  Inl e \<Rightarrow> (s, Err e)
                | Inr _ \<Rightarrow>
                    (case send s (FM_Begin i destination) of
                       (s1, Inl e) \<Rightarrow> (s1, Err e)
                     | (s1, Inr _) \<Rightarrow>
                         (case send s1 (FM_Totals i n (word_of_nat (length entries))) of
                            (s2, Inl e) \<Rightarrow> (s2, Err e)
                          | (s2, Inr _) \<Rightarrow>
                              (case send_entries sha256 reads i send s2 entries of
                                 (s3, Inl e) \<Rightarrow> (s3, Err e)
                               | (s3, Inr _) \<Rightarrow> send s3 (FM_Finish i)))))))"

section \<open>The acknowledgement window\<close>

record ack_window =
  aw_limit :: nat
  aw_unacknowledged :: nat

definition AckWindow_new :: "nat \<Rightarrow> ack_window" where
  "AckWindow_new limit = \<lparr>aw_limit = limit, aw_unacknowledged = 0\<rparr>"

definition settles :: "file_message \<Rightarrow> bool" where
  "settles m = (case m of FM_Begin _ _ \<Rightarrow> True | FM_Totals _ _ _ \<Rightarrow> True | FM_Finish _ \<Rightarrow> True | _ \<Rightarrow> False)"

text \<open>Waiting for acknowledgements: each is a boolean from the channel; when none comes the wait times
  out. What is left of the channel is returned.\<close>

fun await_acks :: "nat \<Rightarrow> bool list \<Rightarrow> ack_window \<Rightarrow> ack_window \<times> bool list \<times> (transfer_error + unit)" where
  "await_acks limit acks w =
     (if \<not> limit \<le> aw_unacknowledged w then (w, acks, Ok ())
      else case acks of
        [] \<Rightarrow> (w, [], Err Acknowledgement_Timeout)
      | a # acks \<Rightarrow>
          if \<not> a then (w, acks, Err Peer_Rejected)
          else await_acks limit acks (w\<lparr>aw_unacknowledged := aw_unacknowledged w - 1\<rparr>))"

declare await_acks.simps [simp del]

definition ack_sent ::
    "bool \<Rightarrow> bool list \<Rightarrow> ack_window \<Rightarrow> ack_window \<times> bool list \<times> (transfer_error + unit)" where
  "ack_sent settle acks w =
     (let w = w\<lparr>aw_unacknowledged := aw_unacknowledged w + 1\<rparr>
      in await_acks (if settle then 1 else aw_limit w) acks w)"

section \<open>Copying into Documents\<close>

record commit_state =
  cm_receiver :: incoming
  cm_folder :: folder
  cm_result :: "path list"
  cm_step :: nat

definition commit_send ::
    "(bytes \<Rightarrow> bytes) \<Rightarrow> (nat \<Rightarrow> receive_io) \<Rightarrow> (rust_string \<Rightarrow> nat \<Rightarrow> native_rename)
     \<Rightarrow> (rust_string \<Rightarrow> nat \<Rightarrow> u64) \<Rightarrow> commit_state send_fn" where
  "commit_send sha256 io native ids s message =
     (case message of
        FM_Begin _ _ \<Rightarrow> (s, Ok ())
      | FM_Finish _ \<Rightarrow>
          (case finish native ids (cm_folder s) (cm_receiver s) of
             (folder, Inl e) \<Rightarrow> (s\<lparr>cm_folder := folder\<rparr>, Err e)
           | (folder, Inr paths) \<Rightarrow> (s\<lparr>cm_folder := folder, cm_result := paths\<rparr>, Ok ()))
      | message \<Rightarrow>
          (case accept sha256 (io (cm_step s)) (cm_receiver s) message of
             (receiver, r) \<Rightarrow> (s\<lparr>cm_receiver := receiver, cm_step := cm_step s + 1\<rparr>, r)))"

definition commit_documents ::
    "(bytes \<Rightarrow> bytes) \<Rightarrow> (nat \<Rightarrow> nat option) \<Rightarrow> (nat \<Rightarrow> receive_io) \<Rightarrow> (rust_string \<Rightarrow> nat \<Rightarrow> native_rename)
     \<Rightarrow> (rust_string \<Rightarrow> nat \<Rightarrow> u64) \<Rightarrow> stage_io \<Rightarrow> u64 \<Rightarrow> (entry_name option \<times> src_node) list \<Rightarrow> folder
     \<Rightarrow> folder \<times> (transfer_error + path list)" where
  "commit_documents sha256 reads io native ids sio transfer_id paths documents =
     (case Incoming_new sio transfer_id FD_Documents of
        Inl e \<Rightarrow> (documents, Err e)
      | Inr receiver \<Rightarrow>
          (case send_paths sha256 reads transfer_id paths FD_Documents (commit_send sha256 io native ids)
                  \<lparr>cm_receiver = receiver, cm_folder = documents, cm_result = [], cm_step = 0\<rparr> of
             (s, Inl e) \<Rightarrow> (cm_folder s, Err e)
           | (s, Inr _) \<Rightarrow> (cm_folder s, Ok (cm_result s))))"

section \<open>The window bounds what is in flight\<close>

lemma await_acks_Ok:
  "await_acks limit acks w = (w', rest, Ok u) \<Longrightarrow> 0 < limit \<Longrightarrow>
     aw_unacknowledged w' < limit
     \<and> (\<exists>used. acks = used @ rest \<and> list_all (\<lambda>a. a) used
          \<and> aw_unacknowledged w = aw_unacknowledged w' + length used)"
proof (induction limit acks w rule: await_acks.induct)
  case (1 limit acks w)
  show ?case
  proof (cases "limit \<le> aw_unacknowledged w")
    case False
    then show ?thesis using 1 by (auto simp: await_acks.simps [of limit acks w])
  next
    case True
    then obtain added where acks: "acks = True # added"
      and rec: "await_acks limit added (w\<lparr>aw_unacknowledged := aw_unacknowledged w - 1\<rparr>) = (w', rest, Ok u)"
      using 1(2) by (auto simp: await_acks.simps [of limit acks w] split: list.splits if_splits)
    from 1(1) [of True added] True acks rec 1(3)
    have *: "aw_unacknowledged w' < limit"
      and "\<exists>used. added = used @ rest \<and> list_all (\<lambda>a. a) used
          \<and> aw_unacknowledged w - 1 = aw_unacknowledged w' + length used"
      by auto
    then obtain used where "added = used @ rest" "list_all (\<lambda>a. a) used"
      "aw_unacknowledged w - 1 = aw_unacknowledged w' + length used" by blast
    then have "acks = (True # used) @ rest \<and> list_all (\<lambda>a. a) (True # used)
          \<and> aw_unacknowledged w = aw_unacknowledged w' + length (True # used)"
      using acks True 1(3) by auto
    then show ?thesis using * by blast
  qed
qed

lemma await_acks_Err:
  "await_acks limit acks w = (w', rest, Inl e) \<Longrightarrow> e = Acknowledgement_Timeout \<or> e = Peer_Rejected"
proof (induction limit acks w rule: await_acks.induct)
  case (1 limit acks w)
  show ?case
    using 1(2) 1(1) by (subst (asm) await_acks.simps) (auto split: if_splits list.splits)
qed

text \<open>Recording a sent message returns only when fewer messages than the window are unacknowledged (none
  at all after a begin, totals or finish message), having taken exactly one positive acknowledgement
  for each message that left the window; a rejection or a silent peer ends the transfer.\<close>

theorem ack_window_bounds_in_flight:
  "case ack_sent (settles m) acks \<lparr>aw_limit = SEND_WINDOW, aw_unacknowledged = n\<rparr> of
     (w, rest, Inl e) \<Rightarrow> e = Acknowledgement_Timeout \<or> e = Peer_Rejected
   | (w, rest, Inr _) \<Rightarrow> aw_unacknowledged w \<le> 15 \<and> (if settles m then aw_unacknowledged w = 0 else True)
       \<and> (\<exists>used. acks = used @ rest \<and> list_all (\<lambda>a. a) used
            \<and> Suc n = aw_unacknowledged w + length used)"
proof -
  let ?w = "\<lparr>aw_limit = SEND_WINDOW, aw_unacknowledged = Suc n\<rparr>"
  let ?l = "if settles m then 1 else SEND_WINDOW"
  obtain w rest r where res: "await_acks ?l acks ?w = (w, rest, r)" by (cases "await_acks ?l acks ?w") auto
  have pos: "0 < ?l" by (simp add: SEND_WINDOW_def)
  show ?thesis
  proof (cases r)
    case (Inl e)
    then show ?thesis using await_acks_Err [of ?l acks ?w w rest e] res by (auto simp: ack_sent_def Let_def)
  next
    case (Inr u)
    then show ?thesis
      using await_acks_Ok [of ?l acks ?w w rest u] res pos
      by (auto simp: ack_sent_def Let_def SEND_WINDOW_def)
  qed
qed

section \<open>What the manifest looks like\<close>

abbreviation entry_path :: "manifest_entry \<Rightarrow> path" where
  "entry_path e \<equiv> str_split 47 (fst (snd e))"

abbreviation entry_size :: "manifest_entry \<Rightarrow> u64 option" where
  "entry_size e \<equiv> snd (snd e)"

text \<open>A folder is listed before what it contains.\<close>

definition has_parent :: "manifest_entry list \<Rightarrow> path \<Rightarrow> bool" where
  "has_parent es p \<longleftrightarrow> butlast p = [] \<or> (\<exists>e \<in> set es. entry_path e = butlast p \<and> entry_size e = None)"

fun parents_first :: "manifest_entry list \<Rightarrow> manifest_entry list \<Rightarrow> bool" where
  "parents_first before [] = True"
| "parents_first before (e # es) = (has_parent before (entry_path e) \<and> parents_first (before @ [e]) es)"

lemma parents_first_append:
  "parents_first before (xs @ ys) = (parents_first before xs \<and> parents_first (before @ xs) ys)"
  by (induction xs arbitrary: before) auto

lemma has_parent_mono: "has_parent es p \<Longrightarrow> has_parent (es @ added) p"
  by (auto simp: has_parent_def)

text \<open>Names the operating system reports: non-empty and without a slash.\<close>

fun os_name :: "entry_name \<Rightarrow> bool" where
  "os_name (Utf8_Name n) \<longleftrightarrow> n \<noteq> [] \<and> 47 \<notin> set n"
| "os_name _ \<longleftrightarrow> True"

fun os_names :: "src_node \<Rightarrow> bool" where
  "os_names (Src_Dir children) \<longleftrightarrow> list_all (\<lambda>c. os_name (fst c) \<and> os_names (snd c)) children"
| "os_names _ \<longleftrightarrow> True"

lemma str_split_append_sep: "str_split c (s @ c # t) = str_split c s @ str_split c t"
proof (induction s)
  case (Cons x s)
  then show ?case by (cases "str_split c s") auto
qed simp

lemma entry_path_child: "47 \<notin> set n \<Longrightarrow> str_split 47 (rel @ lit ''/'' @ n) = str_split 47 rel @ [n]"
  by (simp add: str_split_append_sep split_no_sep)

definition manifest_ok :: "manifest_entry \<Rightarrow> bool" where
  "manifest_ok e \<longleftrightarrow> valid_path (fst (snd e)) = Ok (entry_path e)
     \<and> (case fst e of
          Src_File len content \<Rightarrow> entry_size e = Some len
        | Src_Dir _ \<Rightarrow> entry_size e = None
        | _ \<Rightarrow> False)"

lemma visit_manifest:
  "visit node rel es d = Ok es' \<Longrightarrow> os_names node \<Longrightarrow> has_parent es (str_split 47 rel) \<Longrightarrow>
     \<exists>added. es' = es @ added \<and> added \<noteq> [] \<and> parents_first es added \<and> list_all manifest_ok added
       \<and> length es' \<le> 100000"
  "visit_children cs rel es d = Ok es' \<Longrightarrow> list_all (\<lambda>c. os_name (fst c) \<and> os_names (snd c)) cs \<Longrightarrow>
     (\<exists>e \<in> set es. entry_path e = str_split 47 rel \<and> entry_size e = None) \<Longrightarrow> length es \<le> 100000 \<Longrightarrow>
     \<exists>added. es' = es @ added \<and> parents_first es added \<and> list_all manifest_ok added \<and> length es' \<le> 100000"
proof (induction node rel es d and cs rel es d arbitrary: es' and es' rule: visit_visit_children.induct)
  case (1 node rel es d)
  note body = 1(2) [unfolded visit.simps [of node rel es d]]
  from body have lim: "length es < 100000" and vp: "valid_path rel = Ok (str_split 47 rel)"
    by (auto simp: valid_path_Ok_iff split: if_splits sum.splits)
  show ?case
  proof (cases node)
    case (Src_File len content)
    then have "es' = es @ [(node, rel, Some len)]"
      using body by (auto split: if_splits sum.splits)
    then show ?thesis using 1(4) lim vp Src_File by (auto simp: manifest_ok_def)
  next
    case (Src_Dir children)
    let ?e = "(node, rel, None)"
    have "visit_children children rel (es @ [?e]) (d + 1) = Ok es'"
      using body Src_Dir by (auto split: if_splits sum.splits)
    moreover have "\<exists>added. es' = (es @ [?e]) @ added \<and> parents_first (es @ [?e]) added
        \<and> list_all manifest_ok added \<and> length es' \<le> 100000"
      using body by (intro 1(1) [OF _ vp Src_Dir calculation]) (use 1(3) Src_Dir lim in \<open>auto split: if_splits\<close>)
    ultimately obtain added where added: "es' = (es @ [?e]) @ added" "parents_first (es @ [?e]) added"
      "list_all manifest_ok added" "length es' \<le> 100000" by blast
    have "manifest_ok ?e" using vp Src_Dir by (simp add: manifest_ok_def)
    then show ?thesis using added 1(4) by (intro exI [of _ "?e # added"]) auto
  qed (use body in \<open>auto split: if_splits sum.splits\<close>)
next
  case (2 rel es d)
  then show ?case by auto
next
  case (3 name node cs rel es d)
  from 3(3) obtain n es1 where n: "name = Utf8_Name n"
    and v: "visit node (rel @ lit ''/'' @ n) es d = Ok es1"
    and c: "visit_children cs rel es1 d = Ok es'"
    by (auto split: entry_name.splits sum.splits)
  have slash: "47 \<notin> set n" using 3(4) n by simp
  have "has_parent es (str_split 47 (rel @ lit ''/'' @ n))"
    using 3(5) unfolding entry_path_child [OF slash] has_parent_def by simp
  then obtain m1 where m1: "es1 = es @ m1" "parents_first es m1" "list_all manifest_ok m1" "length es1 \<le> 100000"
    using 3(1) [OF n v] 3(4) by auto
  moreover have "\<exists>e \<in> set es1. entry_path e = str_split 47 rel \<and> entry_size e = None"
    using 3(5) m1(1) by auto
  ultimately obtain m2 where "es' = es1 @ m2" "parents_first es1 m2" "list_all manifest_ok m2"
    "length es' \<le> 100000"
    using 3(2) [OF n v c] 3(4) by auto
  then show ?case using m1 by (intro exI [of _ "m1 @ m2"]) (auto simp: parents_first_append)
qed

lemma visit_paths_manifest:
  "visit_paths paths es = Ok es' \<Longrightarrow>
     list_all (\<lambda>p. (case fst p of None \<Rightarrow> True | Some n \<Rightarrow> os_name n) \<and> os_names (snd p)) paths \<Longrightarrow>
     length es \<le> 100000 \<Longrightarrow>
     \<exists>added. es' = es @ added \<and> parents_first es added \<and> list_all manifest_ok added \<and> length es' \<le> 100000"
proof (induction paths es arbitrary: es' rule: visit_paths.induct)
  case (2 name node paths es)
  from 2(2) obtain n es1 where n: "name = Some (Utf8_Name n)" and v: "visit node n es 0 = Ok es1"
    and rest: "visit_paths paths es1 = Ok es'"
    by (auto split: option.splits entry_name.splits sum.splits)
  have "47 \<notin> set n" "os_names node" using 2(3) n by auto
  then have "has_parent es (str_split 47 n)" by (simp add: has_parent_def split_no_sep)
  then obtain m1 where m1: "es1 = es @ m1" "parents_first es m1" "list_all manifest_ok m1" "length es1 \<le> 100000"
    using visit_manifest(1) [OF v \<open>os_names node\<close>] by auto
  then obtain m2 where "es' = es1 @ m2" "parents_first es1 m2" "list_all manifest_ok m2" "length es' \<le> 100000"
    using 2(1) [OF n _ v rest] 2(3) by auto
  then show ?case using m1 by (intro exI [of _ "m1 @ m2"]) (auto simp: parents_first_append)
qed auto

section \<open>The copy is exact\<close>

definition entry_content :: "manifest_entry \<Rightarrow> node" where
  "entry_content e = (case entry_size e of
     None \<Rightarrow> Node_Dir
   | Some n \<Rightarrow> Node_File (case src_content (fst e) of None \<Rightarrow> [] | Some content \<Rightarrow> take (unat n) content))"

definition staged :: "manifest_entry list \<Rightarrow> stage" where
  "staged es = foldl (\<lambda>st e. st(entry_path e \<mapsto> entry_content e)) [[] \<mapsto> Node_Dir] es"

definition add_root :: "rust_string list \<Rightarrow> manifest_entry \<Rightarrow> rust_string list" where
  "add_root roots e = (if hd (entry_path e) \<in> set roots then roots else roots @ [hd (entry_path e)])"

definition manifest_bytes :: "manifest_entry list \<Rightarrow> nat" where
  "manifest_bytes es = sum_list (map (\<lambda>e. unat (size_or_zero (entry_size e))) es)"

definition readable :: "manifest_entry \<Rightarrow> bool" where
  "readable e \<longleftrightarrow> (case entry_size e of
     None \<Rightarrow> True
   | Some n \<Rightarrow> (case src_content (fst e) of None \<Rightarrow> False | Some content \<Rightarrow> unat n \<le> length content))"

lemma staged_snoc: "staged (es @ [e]) = (staged es)(entry_path e \<mapsto> entry_content e)"
  by (simp add: staged_def)

lemma staged_lookup:
  "distinct (map entry_path es) \<Longrightarrow> e \<in> set es \<Longrightarrow> staged es (entry_path e) = Some (entry_content e)"
proof (induction es rule: rev_induct)
  case (snoc x es)
  show ?case
  proof (cases "e = x")
    case False
    then have "e \<in> set es" using snoc.prems by simp
    moreover have "entry_path e \<noteq> entry_path x"
    proof
      assume "entry_path e = entry_path x"
      then have "entry_path x \<in> entry_path ` set es" using \<open>e \<in> set es\<close> by (rule rev_image_eqI [OF _ sym, rotated])
      then show False using snoc.prems by simp
    qed
    ultimately show ?thesis using snoc by (simp add: staged_snoc)
  qed (simp add: staged_snoc)
qed simp

lemma staged_None: "p \<noteq> [] \<Longrightarrow> p \<notin> set (map entry_path es) \<Longrightarrow> staged es p = None"
  by (induction es rule: rev_induct) (auto simp: staged_snoc, auto simp: staged_def)

lemma staged_root: "staged es [] = Some Node_Dir"
proof (induction es rule: rev_induct)
  case (snoc e es)
  have "entry_path e \<noteq> []" by simp
  with snoc show ?case by (simp add: staged_snoc del: str_split_nonempty)
qed (simp add: staged_def)

lemma staged_parent:
  assumes "distinct (map entry_path es)" "has_parent es p"
  shows "staged es (butlast p) = Some Node_Dir"
  using assms staged_root staged_lookup [of es]
  by (auto simp: has_parent_def entry_content_def) (metis entry_content_def option.case(1) snd_conv staged_lookup)

definition receiver_after :: "u64 \<Rightarrow> nat \<Rightarrow> nat \<Rightarrow> manifest_entry list \<Rightarrow> incoming" where
  "receiver_after i tb te es = \<lparr>
     in_id = i, in_destination = FD_Documents, in_stage = staged es,
     in_roots = foldl add_root [] es, in_file = None, in_entries = length es,
     in_received_bytes = word_of_nat (manifest_bytes es),
     in_declared_bytes = word_of_nat (manifest_bytes es),
     in_total_bytes = word_of_nat tb, in_total_entries = word_of_nat te,
     in_current_name = (if es = [] then [] else fst (snd (last es)))\<rparr>"

lemma receiver_after_simps [simp]:
  "in_stage (receiver_after i tb te es) = staged es"
  "in_roots (receiver_after i tb te es) = foldl add_root [] es"
  "in_file (receiver_after i tb te es) = None"
  "in_entries (receiver_after i tb te es) = length es"
  "in_received_bytes (receiver_after i tb te es) = word_of_nat (manifest_bytes es)"
  "in_declared_bytes (receiver_after i tb te es) = word_of_nat (manifest_bytes es)"
  "in_total_bytes (receiver_after i tb te es) = word_of_nat tb"
  "in_total_entries (receiver_after i tb te es) = word_of_nat te"
  "in_destination (receiver_after i tb te es) = FD_Documents"
  by (simp_all add: receiver_after_def)

lemma accept_chunk_writes:
  assumes "in_file s = Some (p, rem, h)" "data \<noteq> []" "length data \<le> FILE_CHUNK_BYTES"
    "length data \<le> unat rem" "unat (in_received_bytes s) + length data < 2 ^ 64" "io_write_stops io = None"
  shows "accept_chunk io s data =
    (s\<lparr>in_stage := (in_stage s)(p \<mapsto> Node_File (h @ data)),
       in_file := Some (p, rem - word_of_nat (length data), h @ data),
       in_received_bytes := in_received_bytes s + word_of_nat (length data)\<rparr>, Ok ())"
proof -
  have "unat (word_of_nat (length data) :: u64) = length data"
    using assms(3) by (simp add: FILE_CHUNK_BYTES_def unat_of_nat)
  then show ?thesis
    using assms by (simp add: accept_chunk_def checked_add_def word_le_nat_alt Let_def)
qed

lemma commit_send_accept:
  assumes "accept sha256 (io (cm_step c)) (cm_receiver c) m = (s, r)"
    "case m of FM_Begin _ _ \<Rightarrow> False | FM_Finish _ \<Rightarrow> False | _ \<Rightarrow> True"
  shows "commit_send sha256 io native ids c m = (c\<lparr>cm_receiver := s, cm_step := cm_step c + 1\<rparr>, r)"
  using assms by (cases m) (simp_all add: commit_send_def)

text \<open>Nothing fails: reads and the receiver's file operations succeed and space is left.\<close>

definition copy_works :: "(nat \<Rightarrow> nat option) \<Rightarrow> (nat \<Rightarrow> receive_io) \<Rightarrow> u64 \<Rightarrow> bool" where
  "copy_works reads io free \<longleftrightarrow> (\<forall>n. reads n \<noteq> None) \<and> (\<forall>k. io k = io_works free)"

definition file_copied :: "commit_state \<Rightarrow> path \<Rightarrow> bytes \<Rightarrow> bytes \<Rightarrow> nat \<Rightarrow> commit_state" where
  "file_copied c p h rest k =
     c\<lparr>cm_receiver := (cm_receiver c)
          \<lparr>in_stage := (in_stage (cm_receiver c))(p \<mapsto> Node_File (h @ rest)),
           in_file := Some (p, 0, h @ rest),
           in_received_bytes := in_received_bytes (cm_receiver c) + word_of_nat (length rest)\<rparr>,
        cm_step := k\<rparr>"

lemma send_chunks_copies:
  assumes "copy_works reads io free"
    and "in_file (cm_receiver c) = Some (p, rem, h)" "unat rem = length rest"
    and "in_stage (cm_receiver c) p = Some (Node_File h)"
    and "unat (in_received_bytes (cm_receiver c)) + length rest < 2 ^ 64"
  shows "\<exists>k. send_chunks reads i (commit_send sha256 io native ids) c rest h =
     (file_copied c p h rest k, Ok (h @ rest))"
  using assms(2-)
proof (induction "length rest" arbitrary: c rem h rest rule: less_induct)
  case less
  let ?s = "cm_receiver c"
  show ?case
  proof (cases "rest = []")
    case True
    then have "rem = 0" using less.prems(2) by (simp add: unat_eq_zero)
    then have "?s = ?s\<lparr>in_stage := (in_stage ?s)(p \<mapsto> Node_File h), in_file := Some (p, 0, h)\<rparr>"
      using less.prems by (simp add: fun_upd_idem)
    then have "c = file_copied c p h rest (cm_step c)"
      using True by (simp add: file_copied_def)
    then show ?thesis using True by (subst send_chunks.simps) auto
  next
    case False
    obtain k where k: "reads (length rest) = Some k" using assms(1) by (auto simp: copy_works_def)
    define n where "n = read_len k (min FILE_CHUNK_BYTES (length rest))"
    have "0 < length rest" using False by simp
    then have n: "1 \<le> n" "n \<le> FILE_CHUNK_BYTES" "n \<le> length rest"
      unfolding n_def read_len_def by (simp_all add: FILE_CHUNK_BYTES_def Suc_le_eq)
    let ?data = "take n rest" and ?w = "word_of_nat n :: u64"
    have w: "unat ?w = n" using n(2) by (simp add: FILE_CHUNK_BYTES_def unat_of_nat)
    define s' where "s' = ?s\<lparr>in_stage := (in_stage ?s)(p \<mapsto> Node_File (h @ ?data)),
       in_file := Some (p, rem - ?w, h @ ?data), in_received_bytes := in_received_bytes ?s + ?w\<rparr>"
    define c' where "c' = c\<lparr>cm_receiver := s', cm_step := cm_step c + 1\<rparr>"
    have len: "length ?data = n" using n by simp
    have "accept_chunk (io (cm_step c)) ?s ?data = (s', Ok ())"
      using accept_chunk_writes [OF less.prems(1), of ?data "io (cm_step c)"] n len False less.prems assms(1)
      by (simp add: s'_def copy_works_def io_works_def)
    then have sent: "commit_send sha256 io native ids c (FM_Chunk i ?data) = (c', Ok ())"
      unfolding c'_def by (intro commit_send_accept) (simp_all add: accept_def)
    have le: "?w \<le> rem" using w n(3) less.prems(2) by (simp add: word_le_nat_alt)
    have "unat (in_received_bytes ?s + ?w) = unat (in_received_bytes ?s) + n"
      using w n(3) less.prems(4) by (simp add: unat_word_ariths)
    then have "\<exists>k. send_chunks reads i (commit_send sha256 io native ids) c' (drop n rest) (h @ ?data) =
        (file_copied c' p (h @ ?data) (drop n rest) k, Ok ((h @ ?data) @ drop n rest))"
      using n less.prems le w
      by (intro less.hyps [where rem = "rem - ?w"]) (auto simp: c'_def s'_def unat_sub)
    then obtain k' where rec: "send_chunks reads i (commit_send sha256 io native ids) c' (drop n rest) (h @ ?data) =
        (file_copied c' p (h @ ?data) (drop n rest) k', Ok (h @ rest))" by auto
    have "(word_of_nat (length rest) :: u64) = ?w + word_of_nat (length (drop n rest))"
      using n(3) by (simp flip: of_nat_add)
    then have "file_copied c' p (h @ ?data) (drop n rest) k' = file_copied c p h rest k'"
      by (simp add: file_copied_def c'_def s'_def add.assoc)
    then show ?thesis
      using k sent rec False by (subst send_chunks.simps) (auto simp: Let_def n_def [symmetric])
  qed
qed

lemma entry_file_ready:
  assumes "copy_works reads io free"
    and c: "cm_receiver c = receiver_after i tb te es"
    and e: "manifest_ok e" "has_parent es (entry_path e)"
    and fresh: "distinct (map entry_path (es @ [e]))"
    and room: "length es < te" "te \<le> 100000" "manifest_bytes (es @ [e]) \<le> tb" "tb < 2 ^ 64"
  shows "commit_send sha256 io native ids c (FM_Entry i (fst (snd e)) (entry_size e)) =
    (c\<lparr>cm_receiver := after_entry (receiver_after i tb te es) (fst (snd e)) (entry_path e) (entry_size e),
       cm_step := cm_step c + 1\<rparr>, Ok ())"
proof (intro commit_send_accept)
  let ?s = "receiver_after i tb te es"
  have vp: "valid_path (fst (snd e)) = Ok (entry_path e)" using e(1) by (simp add: manifest_ok_def)
  have te: "unat (word_of_nat te :: u64) = te" "unat (word_of_nat (length es) :: u64) = length es"
    using room by (simp_all add: unat_of_nat)
  have par: "staged es (butlast (entry_path e)) = Some Node_Dir"
    using staged_parent [of es "entry_path e"] e fresh by simp
  have new: "staged es (entry_path e) = None"
    using staged_None [of "entry_path e" es] fresh by simp
  have bytes: "manifest_bytes (es @ [e]) = manifest_bytes es + unat (size_or_zero (entry_size e))"
    by (simp add: manifest_bytes_def)
  have small: "manifest_bytes es < 2 ^ 64" using room bytes by simp
  have nz: "(word_of_nat te :: u64) \<noteq> 0" using te(1) room(1) by (metis gr_implies_not0 unat_0)
  define s1 where "s1 = ?s\<lparr>in_current_name := fst (snd e), in_entries := in_entries ?s + 1\<rparr>"
  define s2 where "s2 = s1\<lparr>in_declared_bytes := in_declared_bytes ?s + size_or_zero (entry_size e)\<rparr>"
  have decl: "declare_size s1 (entry_size e) = Some s2"
  proof (cases "entry_size e")
    case None
    then show ?thesis by (simp add: declare_size_def s2_def s1_def size_or_zero_def)
  next
    case (Some n)
    then have "unat (in_declared_bytes s1) + unat n \<le> unat (in_total_bytes s1)"
      using room bytes small by (simp add: s1_def size_or_zero_def unat_of_nat)
    then show ?thesis using Some by (simp add: declare_size_Some s2_def s1_def size_or_zero_def)
  qed
  have "create_entry (io (cm_step c)) (note_root s2 (path_root (fst (snd e)))) (entry_path e) (entry_size e)
      = (after_entry ?s (fst (snd e)) (entry_path e) (entry_size e), Ok ())"
    using par new assms(1)
    by (simp add: create_entry_def after_entry_def s1_def s2_def copy_works_def
        io_works_def entry_node_def opened_def note_root_def split: option.splits)
  then show "accept sha256 (io (cm_step c)) (cm_receiver c) (FM_Entry i (fst (snd e)) (entry_size e)) =
      (after_entry ?s (fst (snd e)) (entry_path e) (entry_size e), Ok ())"
    using vp decl te room nz unfolding s1_def
    by (simp add: accept_def accept_entry_def Let_def c word_less_nat_alt)
qed simp

lemma after_entry_dir:
  assumes "entry_size e = None"
  shows "after_entry (receiver_after i tb te es) (fst (snd e)) (entry_path e) (entry_size e)
    = receiver_after i tb te (es @ [e])"
  using assms
  by (simp add: after_entry_def receiver_after_def note_root_def add_root_def staged_snoc opened_def
      entry_node_def entry_content_def size_or_zero_def manifest_bytes_def path_root_hd)

lemma after_entry_file:
  assumes "entry_size e = Some n" "src_content (fst e) = Some content" "unat n \<le> length content"
  shows "(after_entry (receiver_after i tb te es) (fst (snd e)) (entry_path e) (entry_size e))
      \<lparr>in_stage := (staged es)(entry_path e \<mapsto> Node_File (take (unat n) content)),
       in_received_bytes := word_of_nat (manifest_bytes es) + n, in_file := None\<rparr>
    = receiver_after i tb te (es @ [e])"
  using assms
  by (simp add: after_entry_def receiver_after_def note_root_def add_root_def staged_snoc opened_def
      entry_node_def entry_content_def size_or_zero_def manifest_bytes_def path_root_hd)

lemma send_file_copies:
  assumes works: "copy_works reads io free"
    and c: "cm_receiver c = after_entry (receiver_after i tb te es) (fst (snd e)) (entry_path e) (Some n)"
    and e: "entry_size e = Some n" "src_content (fst e) = Some content" "unat n \<le> length content"
    and room: "manifest_bytes (es @ [e]) \<le> tb" "tb < 2 ^ 64"
  shows "\<exists>k. send_file sha256 reads i (src_content (fst e)) n (commit_send sha256 io native ids) c =
    (c\<lparr>cm_receiver := receiver_after i tb te (es @ [e]), cm_step := k\<rparr>, Ok ())"
proof -
  let ?rest = "take (unat n) content" and ?p = "entry_path e"
  have bytes: "manifest_bytes (es @ [e]) = manifest_bytes es + unat n"
    using e(1) by (simp add: manifest_bytes_def size_or_zero_def)
  have len: "length ?rest = unat n" using e(3) by simp
  have recv: "in_received_bytes (cm_receiver c) = word_of_nat (manifest_bytes es)"
    by (simp add: c after_entry_def)
  have "\<exists>k. send_chunks reads i (commit_send sha256 io native ids) c ?rest [] =
      (file_copied c ?p [] ?rest k, Ok ([] @ ?rest))"
  proof (rule send_chunks_copies [OF works])
    show "unat (in_received_bytes (cm_receiver c)) + length ?rest < 2 ^ 64"
      using bytes room len unfolding recv by (simp add: unat_of_nat)
  qed (use e(3) in \<open>auto simp: c after_entry_def opened_def entry_node_def\<close>)
  then obtain k where chunks: "send_chunks reads i (commit_send sha256 io native ids) c ?rest [] =
      (file_copied c ?p [] ?rest k, Ok ?rest)" by auto
  let ?c = "file_copied c ?p [] ?rest k"
  have "cm_receiver ?c\<lparr>in_file := None\<rparr> = receiver_after i tb te (es @ [e])"
    using after_entry_file [OF e, where i = i and tb = tb and te = te and es = es] e(1) len
    by (simp add: file_copied_def c after_entry_def)
  then have "accept sha256 (io (cm_step ?c)) (cm_receiver ?c) (FM_EndEntry i (sha256 ?rest)) =
      (receiver_after i tb te (es @ [e]), Ok ())"
    using works by (simp add: accept_def accept_end_entry_def file_copied_def copy_works_def io_works_def Let_def)
  then have "commit_send sha256 io native ids ?c (FM_EndEntry i (sha256 ?rest)) =
      (?c\<lparr>cm_receiver := receiver_after i tb te (es @ [e]), cm_step := cm_step ?c + 1\<rparr>, Ok ())"
    by (rule commit_send_accept) simp
  then show ?thesis
    using chunks e len by (auto simp: send_file_def file_copied_def)
qed

lemma send_entries_Cons:
  "send_entries sha256 reads i send s (e # es) =
     (case send s (FM_Entry i (fst (snd e)) (entry_size e)) of
        (s', Inl e) \<Rightarrow> (s', Err e)
      | (s', Inr _) \<Rightarrow>
          (case (case entry_size e of
                   None \<Rightarrow> (s', Ok ())
                 | Some n \<Rightarrow> send_file sha256 reads i (src_content (fst e)) n send s') of
             (s'', Inl e) \<Rightarrow> (s'', Err e)
           | (s'', Inr _) \<Rightarrow> send_entries sha256 reads i send s'' es))"
  by (cases e, hypsubst, unfold send_entries.simps fst_conv snd_conv, rule refl)

lemma send_entries_copies:
  assumes works: "copy_works reads io free" and room: "te \<le> 100000" "tb < 2 ^ 64"
  shows "cm_receiver c = receiver_after i tb te es \<Longrightarrow> parents_first es more_es \<Longrightarrow>
    list_all manifest_ok more_es \<Longrightarrow> list_all readable more_es \<Longrightarrow>
    distinct (map entry_path (es @ more_es)) \<Longrightarrow> length (es @ more_es) \<le> te \<Longrightarrow>
    manifest_bytes (es @ more_es) \<le> tb \<Longrightarrow>
    \<exists>k. send_entries sha256 reads i (commit_send sha256 io native ids) c more_es =
      (c\<lparr>cm_receiver := receiver_after i tb te (es @ more_es), cm_step := k\<rparr>, Ok ())"
proof (induction more_es arbitrary: es c)
  case Nil
  then have "c = c\<lparr>cm_receiver := receiver_after i tb te es, cm_step := cm_step c\<rparr>" by simp
  then show ?case by (metis append_Nil2 send_entries.simps(1))
next
  case (Cons e rest)
  let ?send = "commit_send sha256 io native ids"
  let ?c1 = "c\<lparr>cm_receiver := after_entry (receiver_after i tb te es) (fst (snd e)) (entry_path e) (entry_size e),
       cm_step := cm_step c + 1\<rparr>"
  have bytes: "manifest_bytes (es @ [e]) \<le> tb"
    using Cons.prems(7) by (simp add: manifest_bytes_def)
  have entry: "?send c (FM_Entry i (fst (snd e)) (entry_size e)) = (?c1, Ok ())"
    using Cons.prems room bytes by (intro entry_file_ready [OF works]) auto
  have "\<exists>k. (case entry_size e of
          None \<Rightarrow> (?c1, Ok ())
        | Some n \<Rightarrow> send_file sha256 reads i (src_content (fst e)) n ?send ?c1) =
      (c\<lparr>cm_receiver := receiver_after i tb te (es @ [e]), cm_step := k\<rparr>, Ok ())"
  proof (cases "entry_size e")
    case None
    then show ?thesis using after_entry_dir [OF None, of i tb te es] by auto
  next
    case (Some n)
    then obtain content where "src_content (fst e) = Some content" "unat n \<le> length content"
      using Cons.prems(4) by (auto simp: readable_def split: option.splits)
    then show ?thesis
      using send_file_copies [OF works, of ?c1 i tb te es e n content] Some bytes room by auto
  qed
  then obtain k where body: "(case entry_size e of
          None \<Rightarrow> (?c1, Ok ())
        | Some n \<Rightarrow> send_file sha256 reads i (src_content (fst e)) n ?send ?c1) =
      (c\<lparr>cm_receiver := receiver_after i tb te (es @ [e]), cm_step := k\<rparr>, Ok ())" by blast
  obtain k' where "send_entries sha256 reads i ?send (c\<lparr>cm_receiver := receiver_after i tb te (es @ [e]), cm_step := k\<rparr>) rest
      = (c\<lparr>cm_receiver := receiver_after i tb te (es @ [e] @ rest), cm_step := k'\<rparr>, Ok ())"
    using Cons.IH [of "c\<lparr>cm_receiver := receiver_after i tb te (es @ [e]), cm_step := k\<rparr>" "es @ [e]"]
      Cons.prems by auto
  then show ?case by (simp only: send_entries_Cons entry prod.case sum.case body) auto
qed

lemma sum_sizes_Some:
  "sum_sizes acc es = Some n \<longleftrightarrow> unat acc + manifest_bytes es < 2 ^ 64 \<and> unat n = unat acc + manifest_bytes es"
proof (induction acc es rule: sum_sizes.induct)
  case (1 acc)
  then show ?case using unat_lt_pow [of acc] by (auto simp: manifest_bytes_def word_unat_eq_iff)
next
  case (2 acc node rel sz es)
  have m: "manifest_bytes ((node, rel, sz) # es) = unat (size_or_zero sz) + manifest_bytes es"
    by (simp add: manifest_bytes_def)
  have z: "(case sz of None \<Rightarrow> 0 | Some n \<Rightarrow> n) = size_or_zero sz" by (simp add: size_or_zero_def)
  show ?case
  proof (cases "checked_add acc (size_or_zero sz)")
    case None
    then show ?thesis by (auto simp: z m checked_add_def split: if_splits)
  next
    case (Some a)
    then show ?thesis using 2 [of a] checked_add_Some [OF Some] by (simp add: z m add.assoc)
  qed
qed



end
