(* ===== verification/File_Worker.thy ===== *)
theory File_Worker
  imports File_Send
begin

text \<open>
  The worker of a file-transfer session (\<open>crates/file-transfer/src/worker.rs\<close>): one step handles at most
  one command, polls the file clipboard, queues a job and starts the next one. What the operating
  system and the user answer during a step (the file picker, the clipboard, the folders, the clock, the
  acceptance of a drop) is the step's environment. The step's effects on the outside are its list of
  events. A closed outgoing channel ends the step with the error \<open>Closed\<close>; what it did before stands.
  The text of a status or error is modelled by its kind, and \<open>wording\<close> gives the words put on the wire.
\<close>

type_synonym selection = "(entry_name option \<times> src_node) list"
type_synonym job = "selection \<times> file_destination"

datatype worker_status =
    Waiting_For_Support | Ready | Queue_Full | Transfer_Complete | Picker_Failed
  | Rejected transfer_error | Transfer_Failed rust_string | No_Files_Received rust_string
  | Receive_Failed transfer_error

datatype command =
    Cmd_Peer file_message
  | Cmd_Send selection file_destination
  | Cmd_Pick
  | Cmd_Request_Peer_Pick

datatype event =
    Out file_message
  | Open_Picker
  | Settle u64 bool
  | Start_Sender u64 job
  | Sweep_Cache

record worker =
  wk_role :: role
  wk_status :: worker_status
  wk_poll :: nanos
  wk_last_cache_sweep :: nanos
  wk_last_clipboard_sequence :: u64
  wk_available :: bool
  wk_pending :: "job list"
  wk_sender :: "u64 option"
  wk_progress_updated :: nanos
  wk_progress :: bool
  wk_ended :: "u64 list"
  wk_incoming :: "incoming option"
  wk_admission :: admission
  wk_documents :: folder
  wk_cache :: folder

record worker_env =
  we_now :: nanos
  we_clipboard_enabled :: bool
  we_out_open :: bool
  we_picked :: "selection option"
  we_documents_known :: bool
  we_cache_known :: bool
  we_stage_io :: stage_io
  we_progress_opens :: bool
  we_io :: receive_io
  we_native :: "rust_string \<Rightarrow> nat \<Rightarrow> native_rename"
  we_ids :: "rust_string \<Rightarrow> nat \<Rightarrow> u64"
  we_clipboard_set :: bool
  we_clipboard_sequence :: u64
  we_clipboard_files :: "selection option"
  we_paste :: "(transfer_error + unit) option"
  we_drop_accepted :: "bool option"
  we_dropped :: selection
  we_copy_reads :: "nat \<Rightarrow> nat option"
  we_copy_io :: "nat \<Rightarrow> receive_io"
  we_copy_id :: u64
  we_batch_removed :: bool
  we_sender_finished :: bool
  we_transfer_id :: u64

type_synonym 'a step = "worker \<times> event list \<times> (unit + 'a)"

text \<open>Sending on the session's channel.\<close>

definition out_send :: "worker_env \<Rightarrow> worker \<Rightarrow> file_message \<Rightarrow> unit step" where
  "out_send env w m = (if we_out_open env then (w, [Out m], Ok ()) else (w, [], Err ()))"

definition Worker_new :: "role \<Rightarrow> nanos \<Rightarrow> u64 \<Rightarrow> folder \<Rightarrow> folder \<Rightarrow> worker" where
  "Worker_new r now sequence documents cache = \<lparr>
     wk_role = r, wk_status = Waiting_For_Support, wk_poll = now, wk_last_cache_sweep = now,
     wk_last_clipboard_sequence = sequence, wk_available = False, wk_pending = [], wk_sender = None,
     wk_progress_updated = now, wk_progress = False, wk_ended = [], wk_incoming = None,
     wk_admission = Admission_new r, wk_documents = documents, wk_cache = cache\<rparr>"

definition worker_admit ::
    "(transfer_error \<Rightarrow> rust_string) \<Rightarrow> worker_env \<Rightarrow> worker \<Rightarrow> u64 \<Rightarrow> file_destination
     \<Rightarrow> command option step" where
  "worker_admit wording env w i destination =
     (let (w, admitted) =
        (if wk_incoming w \<noteq> None then
           ((if destination = FD_Documents then w\<lparr>wk_admission := close_peer_pick (wk_admission w)\<rparr> else w),
            Err Another_Transfer_In_Progress)
         else
           (let r = admit (wk_admission w) destination (we_clipboard_enabled env) (we_now env)
            in (w\<lparr>wk_admission := fst r\<rparr>, snd r)))
      in case admitted of
           Inr _ \<Rightarrow> (w, [], Ok (Some (Cmd_Peer (FM_Begin i destination))))
         | Inl reason \<Rightarrow>
             (let w = w\<lparr>wk_ended := end_transfer (wk_ended w) i\<rparr>;
                  w = (if wk_role w = Viewer \<and> destination \<noteq> FD_Clipboard
                       then w\<lparr>wk_status := Rejected reason\<rparr> else w)
              in case out_send env w (FM_Error i (wording reason)) of
                   (w, events, Inl _) \<Rightarrow> (w, events, Err ())
                 | (w, events, Inr _) \<Rightarrow> (w, events, Ok None)))"

definition pick_files :: "worker_env \<Rightarrow> worker \<Rightarrow> worker \<times> selection option" where
  "pick_files env w =
     (case we_picked env of
        None \<Rightarrow> (w\<lparr>wk_status := Picker_Failed\<rparr>, None)
      | Some paths \<Rightarrow> (w, Some paths))"

definition answer_peer_pick ::
    "rust_string \<Rightarrow> worker_env \<Rightarrow> worker \<Rightarrow> job option step" where
  "answer_peer_pick reason env w =
     (let (w, events, picked) =
        (if \<not> wk_available w then (w, [], None)
         else (let (w, paths) = pick_files env w
               in (w, [Open_Picker], case paths of Some [] \<Rightarrow> None | _ \<Rightarrow> paths)))
      in case picked of
           Some paths \<Rightarrow> (w, events, Ok (Some (paths, FD_Documents)))
         | None \<Rightarrow>
             (case out_send env w (FM_Error PEER_PICK_ID reason) of
                (w, sent, Inl _) \<Rightarrow> (w, events @ sent, Err ())
              | (w, sent, Inr _) \<Rightarrow> (w, events @ sent, Ok None)))"

definition settle_sender :: "worker \<Rightarrow> u64 \<Rightarrow> bool \<Rightarrow> event list" where
  "settle_sender w i accepted = (if wk_sender w = Some i then [Settle i accepted] else [])"

definition peer_failed :: "worker \<Rightarrow> u64 \<Rightarrow> rust_string \<Rightarrow> worker \<times> event list" where
  "peer_failed w i reason =
     (let sending = (wk_sender w = Some i);
          receiving = (case wk_incoming w of None \<Rightarrow> False | Some s \<Rightarrow> in_id s = i);
          w = (if sending \<or> receiving then w\<lparr>wk_status := Transfer_Failed reason\<rparr> else w);
          events = settle_sender w i False
      in ((if receiving then w\<lparr>wk_incoming := None, wk_progress := False\<rparr> else w), events))"

definition begin_incoming :: "worker_env \<Rightarrow> worker \<Rightarrow> u64 \<Rightarrow> file_destination \<Rightarrow> worker \<times> (transfer_error + unit)"
  where
  "begin_incoming env w i destination =
     (if \<not> (if destination = FD_Documents then we_documents_known env else we_cache_known env)
      then (w, Err Io_Error)
      else case Incoming_new (we_stage_io env) i destination of
        Inl e \<Rightarrow> (w, Err e)
      | Inr s \<Rightarrow> (w\<lparr>wk_incoming := Some s, wk_progress := we_progress_opens env\<rparr>, Ok ()))"

definition active_incoming :: "worker \<Rightarrow> u64 \<Rightarrow> transfer_error + incoming" where
  "active_incoming w packet_id =
     (case wk_incoming w of
        None \<Rightarrow> Err Transfer_Not_Started
      | Some s \<Rightarrow> if in_id s \<noteq> packet_id then Err Transfer_Id_Mismatch else Ok s)"

definition accept_incoming ::
    "(bytes \<Rightarrow> bytes) \<Rightarrow> worker_env \<Rightarrow> worker \<Rightarrow> u64 \<Rightarrow> file_message \<Rightarrow> worker \<times> (transfer_error + unit)" where
  "accept_incoming sha256 env w packet_id m =
     (case active_incoming w packet_id of
        Inl e \<Rightarrow> (w, Err e)
      | Inr s \<Rightarrow>
          let refresh = (case m of FM_Chunk _ _ \<Rightarrow> False | _ \<Rightarrow> True);
              (s, r) = accept sha256 (we_io env) s m;
              w = w\<lparr>wk_incoming := Some s\<rparr>
          in case r of
               Inl e \<Rightarrow> (w, Err e)
             | Inr _ \<Rightarrow>
                 ((if refresh \<or> 100000000 \<le> we_now env - wk_progress_updated w
                   then w\<lparr>wk_progress_updated := we_now env\<rparr> else w), Ok ()))"

text \<open>Removing the cache batch that held the delivered paths.\<close>

definition remove_batch :: "bool \<Rightarrow> folder \<Rightarrow> path list \<Rightarrow> folder" where
  "remove_batch removed cache paths =
     (case paths of
        (batch # root # _) # _ \<Rightarrow>
          if take 9 batch = lit ''transfer-'' \<and> removed then cache(batch := None) else cache
      | _ \<Rightarrow> cache)"

text \<open>Handing the files to the clipboard, the paste shortcut or the drop target.\<close>

definition deliver ::
    "(bytes \<Rightarrow> bytes) \<Rightarrow> worker_env \<Rightarrow> worker \<Rightarrow> path list \<Rightarrow> file_destination
     \<Rightarrow> worker \<times> (transfer_error + unit)" where
  "deliver sha256 env w paths destination =
     (let to_clipboard = \<lambda>w.
        if we_clipboard_set env
        then (w\<lparr>wk_last_clipboard_sequence := we_clipboard_sequence env\<rparr>, Ok ())
        else (w, Err Io_Error)
      in case destination of
        FD_Clipboard \<Rightarrow> to_clipboard w
      | FD_ClipboardPaste display \<Rightarrow>
          (case to_clipboard w of
             (w, Inl e) \<Rightarrow> (w, Err e)
           | (w, Inr _) \<Rightarrow>
               (case we_paste env of
                  None \<Rightarrow> (w, Err Paste_Not_Supported)
                | Some r \<Rightarrow> (w, r)))
      | FD_Drop display x y \<Rightarrow>
          if (case we_drop_accepted env of None \<Rightarrow> False | Some accepted \<Rightarrow> accepted) then (w, Ok ())
          else if \<not> we_documents_known env then (w, Err Io_Error)
          else
            (case commit_documents sha256 (we_copy_reads env) (we_copy_io env) (we_native env) (we_ids env)
                    (we_stage_io env) (we_copy_id env) (we_dropped env) (wk_documents w) of
               (documents, Inl e) \<Rightarrow> (w\<lparr>wk_documents := documents\<rparr>, Err e)
             | (documents, Inr _) \<Rightarrow>
                 (w\<lparr>wk_documents := documents,
                    wk_cache := remove_batch (we_batch_removed env) (wk_cache w) paths\<rparr>, Ok ()))
      | FD_Documents \<Rightarrow> (w, Ok ()))"

definition CACHE_SWEEP_INTERVAL :: nanos where
  "CACHE_SWEEP_INTERVAL = 10 * 60 * 1000000000"

definition finish_incoming ::
    "(bytes \<Rightarrow> bytes) \<Rightarrow> worker_env \<Rightarrow> worker \<Rightarrow> u64 \<Rightarrow> worker \<times> event list \<times> (transfer_error + unit)" where
  "finish_incoming sha256 env w packet_id =
     (case active_incoming w packet_id of
        Inl e \<Rightarrow> (w, [], Err e)
      | Inr s \<Rightarrow>
          let documents = (in_destination s = FD_Documents);
              base = (if documents then wk_documents w else wk_cache w);
              (base, r) = finish (we_native env) (we_ids env) base s;
              w = (if documents then w\<lparr>wk_documents := base\<rparr> else w\<lparr>wk_cache := base\<rparr>)
          in case r of
               Inl e \<Rightarrow> (w, [], Err e)
             | Inr paths \<Rightarrow>
                 let w = w\<lparr>wk_progress := False\<rparr>;
                     (w, delivered) = deliver sha256 env w paths (in_destination s)
                 in case delivered of
                      Inl e \<Rightarrow> (w, [], Err e)
                    | Inr _ \<Rightarrow>
                        let sweep = (\<not> documents \<and> CACHE_SWEEP_INTERVAL \<le> we_now env - wk_last_cache_sweep w);
                            w = (if sweep then w\<lparr>wk_last_cache_sweep := we_now env\<rparr> else w)
                        in (w\<lparr>wk_status := Transfer_Complete, wk_incoming := None\<rparr>,
                            if sweep then [Sweep_Cache] else [], Ok ()))"

definition receive ::
    "(bytes \<Rightarrow> bytes) \<Rightarrow> (transfer_error \<Rightarrow> rust_string) \<Rightarrow> worker_env \<Rightarrow> worker \<Rightarrow> file_message \<Rightarrow> unit step" where
  "receive sha256 wording env w m =
     (let packet_id = message_id m;
          (w, events, result) =
            (case m of
               FM_Begin i destination \<Rightarrow> (let (w, r) = begin_incoming env w i destination in (w, [], r))
             | FM_Finish _ \<Rightarrow> finish_incoming sha256 env w packet_id
             | _ \<Rightarrow> (let (w, r) = accept_incoming sha256 env w packet_id m in (w, [], r)));
          (w, response) =
            (case result of
               Inr _ \<Rightarrow> (w, FM_Ack packet_id)
             | Inl e \<Rightarrow>
                 (w\<lparr>wk_incoming := None, wk_progress := False, wk_ended := end_transfer (wk_ended w) packet_id,
                    wk_status := Receive_Failed e\<rparr>, FM_Error packet_id (wording e)))
      in case out_send env w response of (w, sent, r) \<Rightarrow> (w, events @ sent, r))"

definition handle_peer ::
    "(bytes \<Rightarrow> bytes) \<Rightarrow> (transfer_error \<Rightarrow> rust_string) \<Rightarrow> rust_string \<Rightarrow> worker_env \<Rightarrow> worker \<Rightarrow> file_message
     \<Rightarrow> job option step" where
  "handle_peer sha256 wording no_files env w m =
     (let other =
        (if message_id m \<in> set (wk_ended w) then (w, [], Ok None)
         else case receive sha256 wording env w m of
                (w, events, Inl _) \<Rightarrow> (w, events, Err ())
              | (w, events, Inr _) \<Rightarrow> (w, events, Ok None))
      in case m of
        FM_Available \<Rightarrow> (w\<lparr>wk_available := True, wk_status := Ready\<rparr>, [], Ok None)
      | FM_Pick \<Rightarrow>
          if \<not> allows_peer_pick (wk_admission w) then (w, [], Ok None)
          else answer_peer_pick no_files env w
      | FM_Error i reason \<Rightarrow>
          if i = PEER_PICK_ID \<and> wk_role w = Viewer then
            (w\<lparr>wk_admission := close_peer_pick (wk_admission w), wk_status := No_Files_Received reason\<rparr>, [], Ok None)
          else (let (w, events) = peer_failed w i reason in (w, events, Ok None))
      | FM_Ack i \<Rightarrow> (w, settle_sender w i True, Ok None)
      | _ \<Rightarrow> other)"

definition handle ::
    "(bytes \<Rightarrow> bytes) \<Rightarrow> (transfer_error \<Rightarrow> rust_string) \<Rightarrow> rust_string \<Rightarrow> worker_env \<Rightarrow> worker \<Rightarrow> command option
     \<Rightarrow> job option step" where
  "handle sha256 wording no_files env w cmd =
     (case cmd of
        None \<Rightarrow> (w, [], Ok None)
      | Some Cmd_Pick \<Rightarrow>
          if wk_available w then
            (let (w, paths) = pick_files env w
             in (w, [Open_Picker], Ok (case paths of None \<Rightarrow> None | Some paths \<Rightarrow> Some (paths, FD_Documents))))
          else (w, [], Ok None)
      | Some Cmd_Request_Peer_Pick \<Rightarrow>
          if \<not> wk_available w then (w\<lparr>wk_status := Waiting_For_Support\<rparr>, [], Ok None)
          else
            (case out_send env (w\<lparr>wk_admission := request_peer_pick (wk_admission w) (we_now env)\<rparr>) FM_Pick of
               (w, events, Inl _) \<Rightarrow> (w, events, Err ())
             | (w, events, Inr _) \<Rightarrow> (w, events, Ok None))
      | Some (Cmd_Send paths destination) \<Rightarrow>
          (w, [], Ok (if wk_available w then Some (paths, destination) else None))
      | Some (Cmd_Peer m) \<Rightarrow> handle_peer sha256 wording no_files env w m)"

definition poll_clipboard :: "worker_env \<Rightarrow> worker \<Rightarrow> worker \<times> job option" where
  "poll_clipboard env w =
     (let w = w\<lparr>wk_poll := we_now env\<rparr>;
          sequence = we_clipboard_sequence env
      in
      if sequence \<noteq> wk_last_clipboard_sequence w \<and> \<not> we_clipboard_enabled env then
        (w\<lparr>wk_last_clipboard_sequence := sequence\<rparr>, None)
      else if sequence \<noteq> wk_last_clipboard_sequence w then
        (case we_clipboard_files env of
           None \<Rightarrow> (w, None)
         | Some paths \<Rightarrow>
             (w\<lparr>wk_last_clipboard_sequence := sequence\<rparr>,
              if paths \<noteq> [] then Some (paths, FD_Clipboard) else None))
      else (w, None))"

definition queue_job :: "rust_string \<Rightarrow> worker_env \<Rightarrow> worker \<Rightarrow> job \<Rightarrow> unit step" where
  "queue_job queue_full env w j =
     (if length (wk_pending w) < 8 then (w\<lparr>wk_pending := wk_pending w @ [j]\<rparr>, [], Ok ())
      else
        let w = w\<lparr>wk_status := Queue_Full\<rparr> in
        if answers_peer_pick (wk_role w) (snd j) then out_send env w (FM_Error PEER_PICK_ID queue_full)
        else (w, [], Ok ()))"

definition start_next_send :: "worker_env \<Rightarrow> worker \<Rightarrow> worker \<times> event list" where
  "start_next_send env w =
     (if wk_sender w = None \<or> we_sender_finished env then
        (case wk_pending w of
           [] \<Rightarrow> (w, [])
         | j # pending \<Rightarrow>
             (w\<lparr>wk_pending := pending, wk_sender := Some (we_transfer_id env)\<rparr>,
              [Start_Sender (we_transfer_id env) j]))
      else (w, []))"

definition worker_step ::
    "(bytes \<Rightarrow> bytes) \<Rightarrow> (transfer_error \<Rightarrow> rust_string) \<Rightarrow> rust_string \<Rightarrow> rust_string \<Rightarrow> worker
     \<Rightarrow> worker_env \<times> command option \<Rightarrow> unit step" where
  "worker_step sha256 wording no_files queue_full w input =
     (let (env, cmd) = input in
      case (case cmd of
              Some (Cmd_Peer (FM_Begin i destination)) \<Rightarrow> worker_admit wording env w i destination
            | _ \<Rightarrow> (w, [], Ok cmd)) of
        (w, e1, Inl _) \<Rightarrow> (w, e1, Err ())
      | (w, e1, Inr cmd) \<Rightarrow>
          (case handle sha256 wording no_files env w cmd of
             (w, e2, Inl _) \<Rightarrow> (w, e1 @ e2, Err ())
           | (w, e2, Inr send) \<Rightarrow>
               let (w, send) =
                 (if send = None \<and> wk_available w \<and> 250000000 \<le> we_now env - wk_poll w
                  then poll_clipboard env w else (w, send));
                   (w, e3, r) =
                 (case send of
                    None \<Rightarrow> (w, [], Ok ())
                  | Some j \<Rightarrow> if fst j = [] then (w, [], Ok ()) else queue_job queue_full env w j)
               in case r of
                    Inl _ \<Rightarrow> (w, e1 @ e2 @ e3, Err ())
                  | Inr _ \<Rightarrow>
                      (let (w, e4) = start_next_send env w in (w, e1 @ e2 @ e3 @ e4, Ok ()))))"

section \<open>The sending thread\<close>

record sender_state =
  ss_window :: ack_window
  ss_acks :: "bool list"
  ss_sent :: "file_message list"
  ss_began :: bool

text \<open>The channel takes \<open>capacity\<close> messages before the session closes.\<close>

definition sender_send :: "nat \<Rightarrow> sender_state send_fn" where
  "sender_send capacity s m =
     (let s = s\<lparr>ss_began := ss_began s \<or> (case m of FM_Begin _ _ \<Rightarrow> True | _ \<Rightarrow> False)\<rparr>;
          settle = settles m
      in
      if capacity \<le> length (ss_sent s) then (s, Err Session_Closed)
      else
        let s = s\<lparr>ss_sent := ss_sent s @ [m]\<rparr>;
            (w, acks, r) = ack_sent settle (ss_acks s) (ss_window s)
        in (s\<lparr>ss_window := w, ss_acks := acks\<rparr>, r))"

definition sender_thread ::
    "(bytes \<Rightarrow> bytes) \<Rightarrow> (transfer_error \<Rightarrow> rust_string) \<Rightarrow> (nat \<Rightarrow> nat option) \<Rightarrow> nat \<Rightarrow> role \<Rightarrow> u64 \<Rightarrow> job
     \<Rightarrow> bool list \<Rightarrow> file_message list \<times> (transfer_error + unit)" where
  "sender_thread sha256 wording reads capacity r transfer_id j acks =
     (let (paths, destination) = j;
          answers_pick = answers_peer_pick r destination;
          (s, result) = send_paths sha256 reads transfer_id paths destination (sender_send capacity)
            \<lparr>ss_window = AckWindow_new SEND_WINDOW, ss_acks = acks, ss_sent = [], ss_began = False\<rparr>
      in case result of
           Inr _ \<Rightarrow> (ss_sent s, Ok ())
         | Inl e \<Rightarrow>
             (let i = (if answers_pick \<and> \<not> ss_began s then PEER_PICK_ID else transfer_id)
              in (if capacity \<le> length (ss_sent s) then ss_sent s
                  else ss_sent s @ [FM_Error i (wording e)], Err e)))"

section \<open>Sweeping old transfers\<close>

definition STALE_PARTIAL_AGE :: nanos where
  "STALE_PARTIAL_AGE = 24 * 60 * 60 * 1000000000"

definition CACHE_BATCH_AGE :: nanos where
  "CACHE_BATCH_AGE = 60 * 60 * 1000000000"

text \<open>A folder tree with modification times; a missing time is a failing call.\<close>

datatype dated_node = Dated_File "nanos option" | Dated_Dir "nanos option" "dated_node list option"

fun latest_write :: "dated_node \<Rightarrow> nat \<Rightarrow> nanos option" where
  "latest_write (Dated_File modified) depth = modified"
| "latest_write (Dated_Dir modified children) depth =
     (case modified of
        None \<Rightarrow> None
      | Some latest \<Rightarrow>
          if \<not> depth < 128 then Some latest
          else (case children of
                  None \<Rightarrow> None
                | Some cs \<Rightarrow>
                    foldl (\<lambda>acc r. case (acc, r) of (Some a, Some b) \<Rightarrow> Some (max a b) | _ \<Rightarrow> None)
                      (Some latest) (map (\<lambda>c. latest_write c (depth + 1)) cs)))"

definition is_dated_dir :: "dated_node \<Rightarrow> bool" where
  "is_dated_dir n = (case n of Dated_Dir _ _ \<Rightarrow> True | _ \<Rightarrow> False)"

text \<open>The names a sweep removes; \<open>keep\<close> lists the batches that hold a file on the clipboard.\<close>

definition sweep ::
    "(rust_string option \<times> dated_node) list option \<Rightarrow> rust_string \<Rightarrow> nanos \<Rightarrow> rust_string list \<Rightarrow> nanos
     \<Rightarrow> rust_string list" where
  "sweep children prefix age keep now =
     (case children of
        None \<Rightarrow> []
      | Some children \<Rightarrow>
          concat (map (\<lambda>(name, child).
            case name of
              None \<Rightarrow> []
            | Some name \<Rightarrow>
                if take (length prefix) name \<noteq> prefix \<or> \<not> is_dated_dir child \<or> name \<in> set keep then []
                else (case latest_write child 0 of
                        None \<Rightarrow> []
                      | Some written \<Rightarrow> if written \<le> now \<and> age \<le> now - written then [name] else []))
            children))"

definition sweep_partials where
  "sweep_partials children now = sweep children (lit ''.partial-'') STALE_PARTIAL_AGE [] now"

definition sweep_batches where
  "sweep_batches children keep now = sweep children (lit ''transfer-'') CACHE_BATCH_AGE keep now"

section \<open>The worker's invariant\<close>

definition worker_ok :: "worker \<Rightarrow> bool" where
  "worker_ok w \<longleftrightarrow> adm_role (wk_admission w) = wk_role w
     \<and> length (wk_pending w) \<le> 8 \<and> length (wk_ended w) \<le> 8 \<and> length (peer_picks (wk_admission w)) \<le> 4
     \<and> (case wk_incoming w of None \<Rightarrow> True | Some s \<Rightarrow> incoming_ok s)"

lemma end_transfer_bound: "length ended \<le> 8 \<Longrightarrow> length (end_transfer ended i) \<le> 8"
  by (auto simp: end_transfer_def)

lemma close_peer_pick_keeps [simp]:
  "adm_role (close_peer_pick a) = adm_role a"
  "length (peer_picks a) \<le> 4 \<Longrightarrow> length (peer_picks (close_peer_pick a)) \<le> 4"
  by (auto simp: close_peer_pick_def)

lemma request_peer_pick_keeps [simp]:
  "adm_role (request_peer_pick a now) = adm_role a"
  "length (peer_picks a) \<le> 4 \<Longrightarrow> length (peer_picks (request_peer_pick a now)) \<le> 4"
  by (auto simp: request_peer_pick_def Let_def)

lemma admit_keeps [simp]:
  "adm_role (fst (admit a d e now)) = adm_role a"
  "length (peer_picks a) \<le> 4 \<Longrightarrow> length (peer_picks (fst (admit a d e now))) \<le> 4"
proof -
  have "length (filter P (peer_picks a)) \<le> length (peer_picks a)" for P by simp
  note le = this [THEN order_trans]
  show "adm_role (fst (admit a d e now)) = adm_role a"
    by (auto simp: admit_def Let_def split: list.splits file_destination.splits)
  assume four: "length (peer_picks a) \<le> 4"
  have "length (filter (\<lambda>r. now - r < PEER_PICK_WINDOW) (peer_picks a)) \<le> 4" by (rule le [OF four])
  then show "length (peer_picks (fst (admit a d e now))) \<le> 4"
    using four by (auto simp: admit_def Let_def split: list.splits file_destination.splits)
qed

lemma out_send_keeps [simp]: "fst (out_send env w m) = w"
  by (simp add: out_send_def)

lemma worker_admit_ok:
  "worker_ok w \<Longrightarrow> worker_ok (fst (worker_admit wording env w i d)) \<and> wk_role (fst (worker_admit wording env w i d)) = wk_role w"
  by (auto simp: worker_admit_def worker_ok_def Let_def end_transfer_bound out_send_def
      split: sum.splits prod.splits)

lemma peer_failed_ok:
  "worker_ok w \<Longrightarrow> worker_ok (fst (peer_failed w i reason)) \<and> wk_role (fst (peer_failed w i reason)) = wk_role w"
  by (auto simp: peer_failed_def worker_ok_def Let_def split: option.splits)

lemma answer_peer_pick_ok:
  "worker_ok w \<Longrightarrow> worker_ok (fst (answer_peer_pick reason env w))
     \<and> wk_role (fst (answer_peer_pick reason env w)) = wk_role w"
  by (auto simp: answer_peer_pick_def pick_files_def worker_ok_def Let_def out_send_def
      split: option.splits prod.splits list.splits)

lemma begin_incoming_ok:
  "worker_ok w \<Longrightarrow> worker_ok (fst (begin_incoming env w i d)) \<and> wk_role (fst (begin_incoming env w i d)) = wk_role w"
  by (auto simp: begin_incoming_def worker_ok_def Incoming_new_def empty_incoming_ok split: sum.splits)

text \<open>An accepted packet keeps the invariant; a refused one is followed by dropping the transfer.\<close>

lemma accept_incoming_keeps:
  "worker_ok w \<Longrightarrow> accept_incoming sha256 env w i m = (w1, r) \<Longrightarrow>
     wk_role w1 = wk_role w \<and> worker_ok (w1\<lparr>wk_incoming := None\<rparr>)
     \<and> (case r of Inl e \<Rightarrow> True | Inr _ \<Rightarrow> worker_ok w1)"
  by (auto simp: accept_incoming_def active_incoming_def worker_ok_def Let_def
      split: sum.splits option.splits prod.splits if_splits dest: accept_keeps_ok)

lemma deliver_keeps [simp]:
  "wk_incoming (fst (deliver sha256 env w ps d)) = wk_incoming w"
  "wk_admission (fst (deliver sha256 env w ps d)) = wk_admission w"
  "wk_role (fst (deliver sha256 env w ps d)) = wk_role w"
  "wk_pending (fst (deliver sha256 env w ps d)) = wk_pending w"
  "wk_ended (fst (deliver sha256 env w ps d)) = wk_ended w"
  by (auto simp: deliver_def Let_def split: file_destination.splits prod.splits sum.splits option.splits)

lemma finish_incoming_keeps:
  assumes "worker_ok w"
  shows "worker_ok (fst (finish_incoming sha256 env w i)) \<and> wk_role (fst (finish_incoming sha256 env w i)) = wk_role w"
proof (cases "active_incoming w i")
  case (Inr s)
  define base where "base = (if in_destination s = FD_Documents then wk_documents w else wk_cache w)"
  obtain b r where fin: "finish (we_native env) (we_ids env) base s = (b, r)"
    by (cases "finish (we_native env) (we_ids env) base s")
  define w1 where "w1 = (if in_destination s = FD_Documents then w\<lparr>wk_documents := b\<rparr> else w\<lparr>wk_cache := b\<rparr>)"
  have w1: "worker_ok w1" "wk_role w1 = wk_role w" using assms by (auto simp: worker_ok_def w1_def)
  show ?thesis
  proof (cases r)
    case (Inl e)
    then show ?thesis
      using Inr fin w1 by (simp add: finish_incoming_def Let_def base_def [symmetric] w1_def [symmetric])
  next
    case paths: (Inr paths)
    obtain w2 d where del: "deliver sha256 env (w1\<lparr>wk_progress := False\<rparr>) paths (in_destination s) = (w2, d)"
      by (cases "deliver sha256 env (w1\<lparr>wk_progress := False\<rparr>) paths (in_destination s)")
    have w2: "worker_ok w2" "wk_role w2 = wk_role w"
      using w1 deliver_keeps [of sha256 env "w1\<lparr>wk_progress := False\<rparr>" paths "in_destination s", unfolded del]
      by (auto simp: worker_ok_def)
    show ?thesis
      using Inr fin paths del w2
      by (cases d) (auto simp: finish_incoming_def Let_def base_def [symmetric] w1_def [symmetric] worker_ok_def)
  qed
qed (use assms in \<open>simp add: finish_incoming_def\<close>)

lemma dropped_ok:
  "worker_ok (w\<lparr>wk_incoming := None\<rparr>) \<Longrightarrow> worker_ok (w\<lparr>wk_incoming := None, wk_progress := p,
      wk_ended := end_transfer (wk_ended w) i, wk_status := st\<rparr>)"
  by (simp add: worker_ok_def end_transfer_bound)

lemma worker_ok_forget: "worker_ok w \<Longrightarrow> worker_ok (w\<lparr>wk_incoming := None\<rparr>)"
  by (simp add: worker_ok_def)

text \<open>The three kinds of transfer packets, with the worker after the packet and its result.\<close>

definition packet ::
    "(bytes \<Rightarrow> bytes) \<Rightarrow> worker_env \<Rightarrow> worker \<Rightarrow> file_message \<Rightarrow> worker \<times> event list \<times> (transfer_error + unit)" where
  "packet sha256 env w m =
     (case m of
        FM_Begin i destination \<Rightarrow> (let (w, r) = begin_incoming env w i destination in (w, [], r))
      | FM_Finish _ \<Rightarrow> finish_incoming sha256 env w (message_id m)
      | _ \<Rightarrow> (let (w, r) = accept_incoming sha256 env w (message_id m) m in (w, [], r)))"

definition answered ::
    "(transfer_error \<Rightarrow> rust_string) \<Rightarrow> u64 \<Rightarrow> worker \<Rightarrow> transfer_error + unit \<Rightarrow> worker \<times> file_message" where
  "answered wording i w result =
     (case result of
        Inr _ \<Rightarrow> (w, FM_Ack i)
      | Inl e \<Rightarrow>
          (w\<lparr>wk_incoming := None, wk_progress := False, wk_ended := end_transfer (wk_ended w) i,
             wk_status := Receive_Failed e\<rparr>, FM_Error i (wording e)))"

lemma receive_eq:
  "receive sha256 wording env w m =
     (case packet sha256 env w m of
        (w, events, result) \<Rightarrow>
          (case answered wording (message_id m) w result of
             (w, response) \<Rightarrow> (case out_send env w response of (w, sent, r) \<Rightarrow> (w, events @ sent, r))))"
  by (auto simp: receive_def packet_def answered_def Let_def split: prod.splits sum.splits)

lemma packet_keeps:
  assumes "worker_ok w" "packet sha256 env w m = (w1, events, r)"
  shows "wk_role w1 = wk_role w \<and> worker_ok (w1\<lparr>wk_incoming := None\<rparr>)
    \<and> (case r of Inl e \<Rightarrow> True | Inr _ \<Rightarrow> worker_ok w1)"
proof -
  have acc: ?thesis if "accept_incoming sha256 env w (message_id m) m = (w1, r)"
    using accept_incoming_keeps [OF assms(1) that] .
  show ?thesis
  proof (cases m)
    case (FM_Begin j d)
    then have "w1 = fst (begin_incoming env w j d)"
      using assms(2) by (auto simp: packet_def split: prod.splits)
    then show ?thesis
      using begin_incoming_ok [OF assms(1), of env j d] worker_ok_forget by (auto split: sum.splits)
  next
    case (FM_Finish j)
    then have "w1 = fst (finish_incoming sha256 env w j)"
      using assms(2) by (auto simp: packet_def message_id_def)
    then show ?thesis
      using finish_incoming_keeps [OF assms(1), of sha256 env j] worker_ok_forget
      by (auto split: sum.splits)
  qed (use assms(2) acc in \<open>auto simp: packet_def split: prod.splits\<close>)
qed

lemma packet_answered_ok:
  assumes "worker_ok w" "packet sha256 env w m = (w1, events, r)"
  shows "worker_ok (fst (answered wording i w1 r)) \<and> wk_role (fst (answered wording i w1 r)) = wk_role w"
  using packet_keeps [OF assms] dropped_ok by (auto simp: answered_def split: sum.splits)

lemma worker_receive_ok:
  assumes "worker_ok w"
  shows "worker_ok (fst (receive sha256 wording env w m)) \<and> wk_role (fst (receive sha256 wording env w m)) = wk_role w"
proof -
  obtain w1 events r where p: "packet sha256 env w m = (w1, events, r)" by (cases "packet sha256 env w m") auto
  show ?thesis
    using packet_answered_ok [OF assms p, of wording "message_id m"]
    by (auto simp: receive_eq p out_send_def split: prod.splits)
qed

lemma handle_peer_ok:
  assumes "worker_ok w"
  shows "worker_ok (fst (handle_peer sha256 wording no_files env w m))
    \<and> wk_role (fst (handle_peer sha256 wording no_files env w m)) = wk_role w"
proof -
  let ?keeps = "\<lambda>w1. worker_ok w1 \<and> wk_role w1 = wk_role w"
  have other: "?keeps (fst (if message_id p \<in> set (wk_ended w) then (w, [], Ok None)
         else case receive sha256 wording env w p of
                (w, events, Inl _) \<Rightarrow> (w, events, Err ())
              | (w, events, Inr _) \<Rightarrow> (w, events, Ok (None :: job option))))" for p
    using worker_receive_ok [OF assms, of sha256 wording env p] assms by (auto split: prod.splits sum.splits)
  have closed: "?keeps (w\<lparr>wk_admission := close_peer_pick (wk_admission w), wk_status := st\<rparr>)" for st
    using assms by (simp add: worker_ok_def)
  have ready: "?keeps (w\<lparr>wk_available := True, wk_status := st\<rparr>)" for st
    using assms by (simp add: worker_ok_def)
  show ?thesis
  proof (cases m)
    case (FM_Error i reason)
    then show ?thesis
      using peer_failed_ok [OF assms, of i reason] closed
      by (simp add: handle_peer_def case_prod_beta)
  next
    case FM_Pick
    then show ?thesis using assms answer_peer_pick_ok [OF assms, of no_files env] by (simp add: handle_peer_def)
  next
    case FM_Available
    then show ?thesis using ready by (simp add: handle_peer_def)
  next
    case (FM_Ack i)
    then show ?thesis using assms by (simp add: handle_peer_def)
  qed (simp only: handle_peer_def Let_def file_message.case, rule other)+
qed

lemma handle_ok:
  assumes "worker_ok w"
  shows "worker_ok (fst (handle sha256 wording no_files env w cmd))
    \<and> wk_role (fst (handle sha256 wording no_files env w cmd)) = wk_role w"
proof (cases cmd)
  case (Some c)
  then show ?thesis
    using assms handle_peer_ok [OF assms]
    by (cases c) (auto simp: handle_def pick_files_def worker_ok_def out_send_def split: option.splits prod.splits sum.splits)
qed (use assms in \<open>simp add: handle_def\<close>)

lemma poll_clipboard_ok:
  "worker_ok w \<Longrightarrow> worker_ok (fst (poll_clipboard env w)) \<and> wk_role (fst (poll_clipboard env w)) = wk_role w"
  by (auto simp: poll_clipboard_def worker_ok_def Let_def split: option.splits)

lemma queue_job_ok:
  "worker_ok w \<Longrightarrow> worker_ok (fst (queue_job q env w j)) \<and> wk_role (fst (queue_job q env w j)) = wk_role w"
  by (auto simp: queue_job_def worker_ok_def Let_def)

lemma start_next_send_ok:
  "worker_ok w \<Longrightarrow> worker_ok (fst (start_next_send env w)) \<and> wk_role (fst (start_next_send env w)) = wk_role w"
  by (auto simp: start_next_send_def worker_ok_def split: list.splits)

section \<open>Whole steps\<close>

text \<open>A step in four phases: admission, the command, the clipboard poll with the queue, and the sender.\<close>

definition admit_phase ::
    "(transfer_error \<Rightarrow> rust_string) \<Rightarrow> worker_env \<Rightarrow> worker \<Rightarrow> command option \<Rightarrow> command option step" where
  "admit_phase wording env w cmd =
     (case cmd of
        Some (Cmd_Peer (FM_Begin i destination)) \<Rightarrow> worker_admit wording env w i destination
      | _ \<Rightarrow> (w, [], Ok cmd))"

definition queue_phase :: "rust_string \<Rightarrow> worker_env \<Rightarrow> worker \<Rightarrow> job option \<Rightarrow> unit step" where
  "queue_phase queue_full env w send =
     (let (w, send) =
        (if send = None \<and> wk_available w \<and> 250000000 \<le> we_now env - wk_poll w
         then poll_clipboard env w else (w, send))
      in case send of
           None \<Rightarrow> (w, [], Ok ())
         | Some j \<Rightarrow> if fst j = [] then (w, [], Ok ()) else queue_job queue_full env w j)"

lemma worker_step_phases:
  "worker_step sha256 wording no_files queue_full w (env, cmd) =
     (case admit_phase wording env w cmd of
        (w, e1, Inl _) \<Rightarrow> (w, e1, Err ())
      | (w, e1, Inr cmd) \<Rightarrow>
          (case handle sha256 wording no_files env w cmd of
             (w, e2, Inl _) \<Rightarrow> (w, e1 @ e2, Err ())
           | (w, e2, Inr send) \<Rightarrow>
               (case queue_phase queue_full env w send of
                  (w, e3, Inl _) \<Rightarrow> (w, e1 @ e2 @ e3, Err ())
                | (w, e3, Inr _) \<Rightarrow>
                    (case start_next_send env w of (w, e4) \<Rightarrow> (w, e1 @ e2 @ e3 @ e4, Ok ())))))"
  unfolding worker_step_def admit_phase_def queue_phase_def Let_def prod.case
  by (intro arg_cong2 [where f = case_prod] refl ext) (auto split: prod.splits sum.splits option.splits)

lemma admit_phase_ok:
  "worker_ok w \<Longrightarrow> worker_ok (fst (admit_phase wording env w cmd)) \<and> wk_role (fst (admit_phase wording env w cmd)) = wk_role w"
  using worker_admit_ok
  by (auto simp: admit_phase_def split: option.splits command.splits file_message.splits)

lemma queue_phase_ok:
  "worker_ok w \<Longrightarrow> worker_ok (fst (queue_phase q env w send)) \<and> wk_role (fst (queue_phase q env w send)) = wk_role w"
  using poll_clipboard_ok [of w env] queue_job_ok
  by (auto simp: queue_phase_def Let_def split: prod.splits option.splits)

lemma worker_step_ok:
  assumes "worker_ok w"
  shows "worker_ok (fst (worker_step sha256 wording no_files queue_full w input))
    \<and> wk_role (fst (worker_step sha256 wording no_files queue_full w input)) = wk_role w"
proof -
  obtain env cmd where input: "input = (env, cmd)" by (cases input)
  obtain w1 e1 r1 where p1: "admit_phase wording env w cmd = (w1, e1, r1)"
    by (cases "admit_phase wording env w cmd") auto
  have k1: "worker_ok w1 \<and> wk_role w1 = wk_role w" using admit_phase_ok [OF assms, of wording env cmd] p1 by simp
  show ?thesis
  proof (cases r1)
    case (Inl u)
    then show ?thesis using k1 p1 by (simp add: input worker_step_phases)
  next
    case (Inr c)
    obtain w2 e2 r2 where p2: "handle sha256 wording no_files env w1 c = (w2, e2, r2)"
      by (cases "handle sha256 wording no_files env w1 c") auto
    have k2: "worker_ok w2 \<and> wk_role w2 = wk_role w"
      using handle_ok [of w1 sha256 wording no_files env c] p2 k1 by simp
    show ?thesis
    proof (cases r2)
      case (Inl u)
      then show ?thesis using k2 p1 p2 Inr by (simp add: input worker_step_phases)
    next
      case send: (Inr j)
      obtain w3 e3 r3 where p3: "queue_phase queue_full env w2 j = (w3, e3, r3)"
        by (cases "queue_phase queue_full env w2 j") auto
      have k3: "worker_ok w3 \<and> wk_role w3 = wk_role w"
        using queue_phase_ok [of w2 queue_full env j] p3 k2 by simp
      show ?thesis
        using k3 p1 p2 p3 Inr send start_next_send_ok [of w3 env]
        by (cases r3) (auto simp: input worker_step_phases split: prod.splits)
    qed
  qed
qed

interpretation file_worker: step_system "worker_step sha256 wording no_files queue_full" worker_ok "\<lambda>_ _. True"
  by unfold_locales (simp add: worker_step_ok)

lemma file_worker_legal_run [simp]: "file_worker.legal_run sha256 wording no_files queue_full w inputs"
  by (induction inputs arbitrary: w) auto

lemma Worker_new_ok: "worker_ok (Worker_new r now sequence documents cache)"
  by (simp add: Worker_new_def worker_ok_def Admission_new_def)

text \<open>Whatever commands and packets arrive and however the system answers, a worker queues at most eight
  jobs, remembers at most eight ended transfers and four open requests, and the transfer it is receiving
  holds no more bytes on disk than were announced and than its destination allows.\<close>

theorem file_worker_bounded:
  "let w = fst (run (worker_step sha256 wording no_files queue_full)
                  (Worker_new r now sequence documents cache) inputs)
   in length (wk_pending w) \<le> 8 \<and> length (wk_ended w) \<le> 8 \<and> length (peer_picks (wk_admission w)) \<le> 4
      \<and> (case wk_incoming w of
           None \<Rightarrow> True
         | Some s \<Rightarrow> disk_bytes (in_stage s) \<le> unat (in_total_bytes s)
             \<and> in_total_bytes s \<le> transfer_limit (in_destination s))"
proof -
  let ?w = "fst (run (worker_step sha256 wording no_files queue_full)
                  (Worker_new r now sequence documents cache) inputs)"
  have ok: "worker_ok ?w" by (rule file_worker.run_inv [OF Worker_new_ok]) simp
  have "disk_bytes (in_stage s) \<le> unat (in_total_bytes s)" if "incoming_ok s" for s
    using that by (auto simp: incoming_ok_def file_ok_def word_le_nat_alt split: option.splits)
  then show ?thesis
    using ok by (auto simp: Let_def worker_ok_def incoming_ok_def split: option.splits)
qed

section \<open>Each packet is answered once\<close>

lemma packet_events: "packet sha256 env w m = (w1, events, r) \<Longrightarrow> set events \<subseteq> {Sweep_Cache}"
  by (cases m) (auto simp: packet_def finish_incoming_def Let_def split: prod.splits sum.splits if_splits)

text \<open>Every packet of a transfer is answered exactly once, while the channel is open: with an
  acknowledgement of its identifier, or with an error for it, in which case the transfer is dropped and
  its later packets are ignored.\<close>

theorem packet_answered_once:
  "case receive sha256 wording (env\<lparr>we_out_open := True\<rparr>) w m of
     (w', events, r) \<Rightarrow>
       (\<exists>e. filter (\<lambda>ev. ev \<noteq> Sweep_Cache) events = [Out (FM_Error (message_id m) (wording e))]
            \<and> wk_incoming w' = None \<and> message_id m \<in> set (wk_ended w'))
       \<or> filter (\<lambda>ev. ev \<noteq> Sweep_Cache) events = [Out (FM_Ack (message_id m))]"
proof -
  let ?env = "env\<lparr>we_out_open := True\<rparr>"
  obtain w1 events r where p: "packet sha256 ?env w m = (w1, events, r)"
    by (cases "packet sha256 ?env w m") auto
  have "filter (\<lambda>ev. ev \<noteq> Sweep_Cache) events = []"
    using packet_events [OF p] by (auto simp: filter_empty_conv)
  then show ?thesis
    by (cases r) (auto simp: receive_eq p answered_def out_send_def end_transfer_def)
qed

section \<open>A viewer opens no picker for the remote device\<close>

lemma receive_no_picker: "Open_Picker \<notin> set (fst (snd (receive sha256 wording env w m)))"
proof -
  obtain w1 events r where p: "packet sha256 env w m = (w1, events, r)" by (cases "packet sha256 env w m") auto
  show ?thesis
    using packet_events [OF p] by (auto simp: receive_eq p answered_def out_send_def split: sum.splits)
qed

lemma handle_peer_no_picker:
  assumes "adm_role (wk_admission w) = Viewer"
  shows "Open_Picker \<notin> set (fst (snd (handle_peer sha256 wording no_files env w m)))"
proof -
  have other: "Open_Picker \<notin> set (fst (snd (if message_id p \<in> set (wk_ended w) then (w, [], Ok None)
         else case receive sha256 wording env w p of
                (w, events, Inl _) \<Rightarrow> (w, events, Err ())
              | (w, events, Inr _) \<Rightarrow> (w, events, Ok (None :: job option)))))" for p
    using receive_no_picker [of sha256 wording env w p] by (auto split: prod.splits sum.splits)
  have settle: "Open_Picker \<notin> set (settle_sender v i a)" for v i a by (simp add: settle_sender_def)
  show ?thesis
  proof (cases m)
    case (FM_Error i reason)
    then show ?thesis using settle by (simp add: handle_peer_def peer_failed_def Let_def)
  next
    case FM_Pick
    then show ?thesis using assms by (simp add: handle_peer_def allows_peer_pick_def)
  next
    case FM_Available
    then show ?thesis by (simp add: handle_peer_def)
  next
    case (FM_Ack i)
    then show ?thesis using settle by (simp add: handle_peer_def)
  qed (simp only: handle_peer_def Let_def file_message.case, rule other)+
qed

lemma handle_no_picker:
  assumes "adm_role (wk_admission w) = Viewer" "cmd \<noteq> Some Cmd_Pick"
  shows "Open_Picker \<notin> set (fst (snd (handle sha256 wording no_files env w cmd)))"
proof (cases cmd)
  case (Some c)
  then show ?thesis
    using assms handle_peer_no_picker [OF assms(1)]
    by (cases c) (auto simp: handle_def out_send_def split: prod.splits sum.splits)
qed (simp add: handle_def)

lemma phases_no_picker:
  "Open_Picker \<notin> set (fst (snd (admit_phase wording env w cmd)))"
  "Open_Picker \<notin> set (fst (snd (queue_phase q env w send)))"
  "Open_Picker \<notin> set (snd (start_next_send env w))"
  "snd (snd (admit_phase wording env w cmd)) = Ok (Some Cmd_Pick) \<Longrightarrow> cmd = Some Cmd_Pick"
proof -
  show "Open_Picker \<notin> set (fst (snd (admit_phase wording env w cmd)))"
    by (auto simp: admit_phase_def worker_admit_def Let_def out_send_def
        split: option.splits command.splits file_message.splits sum.splits prod.splits if_splits)
  show "Open_Picker \<notin> set (fst (snd (queue_phase q env w send)))"
    by (auto simp: queue_phase_def queue_job_def Let_def out_send_def
        split: option.splits prod.splits if_splits)
  show "Open_Picker \<notin> set (snd (start_next_send env w))"
    by (auto simp: start_next_send_def split: list.splits)
  show "snd (snd (admit_phase wording env w cmd)) = Ok (Some Cmd_Pick) \<Longrightarrow> cmd = Some Cmd_Pick"
    by (auto simp: admit_phase_def worker_admit_def Let_def out_send_def
        split: option.splits command.splits file_message.splits sum.splits prod.splits if_splits)
qed

lemma step_no_picker:
  assumes "worker_ok w" "wk_role w = Viewer" "cmd \<noteq> Some Cmd_Pick"
  shows "Open_Picker \<notin> set (fst (snd (worker_step sha256 wording no_files queue_full w (env, cmd))))"
proof -
  obtain w1 e1 r1 where p1: "admit_phase wording env w cmd = (w1, e1, r1)"
    by (cases "admit_phase wording env w cmd") auto
  have k1: "adm_role (wk_admission w1) = Viewer" "Open_Picker \<notin> set e1" "r1 \<noteq> Ok (Some Cmd_Pick)"
    using admit_phase_ok [OF assms(1), of wording env cmd] phases_no_picker(1,4) [of wording env w cmd] assms p1
    by (auto simp: worker_ok_def)
  have h: "Open_Picker \<notin> set e2" if "r1 = Ok c" "handle sha256 wording no_files env w1 c = (w2, e2, r2)" for c w2 e2 r2
    using handle_no_picker [of w1 c sha256 wording no_files env] k1 that by auto
  have q: "Open_Picker \<notin> set e3" if "queue_phase queue_full env v j = (w3, e3, r3)" for v j w3 e3 r3
    using phases_no_picker(2) [of queue_full env v j] that by simp
  have s: "Open_Picker \<notin> set e4" if "start_next_send env v = (w4, e4)" for v w4 e4
    using phases_no_picker(3) [of env v] that by simp
  show ?thesis
    using k1 h q s by (auto simp: worker_step_phases p1 split: prod.splits sum.splits)
qed

text \<open>The remote device cannot make a viewer choose local files: over any run of a viewer's worker the
  file picker opens only in steps whose command is the technician's own \<open>Pick\<close>.\<close>

theorem viewer_opens_no_picker_for_peer:
  "let inputs_events = zip inputs (map fst (snd (run (worker_step sha256 wording no_files queue_full)
                         (Worker_new Viewer now sequence documents cache) inputs)))
   in filter (\<lambda>((env, cmd), events). Open_Picker \<in> set events \<and> cmd \<noteq> Some Cmd_Pick) inputs_events = []"
proof -
  have "list_all (\<lambda>((env, cmd), events). cmd = Some Cmd_Pick \<or> Open_Picker \<notin> set events)
      (zip inputs (map fst (snd (run (worker_step sha256 wording no_files queue_full) w inputs))))"
    if "worker_ok w" "wk_role w = Viewer" for w
    using that
  proof (induction inputs arbitrary: w)
    case (Cons x inputs)
    obtain env cmd where x: "x = (env, cmd)" by (cases x)
    note step = worker_step_ok [OF Cons.prems(1), of sha256 wording no_files queue_full x]
    show ?case
      using Cons.IH [of "fst (worker_step sha256 wording no_files queue_full w x)"] step Cons.prems
        step_no_picker [OF Cons.prems, of cmd sha256 wording no_files queue_full env]
      by (auto simp: Let_def x)
  qed simp
  then show ?thesis
    using Worker_new_ok [of Viewer now sequence documents cache]
    by (fastforce simp: Let_def Worker_new_def filter_empty_conv list_all_iff)
qed

section \<open>A viewer's Documents folder changes only on request\<close>

definition documents_budget :: "worker \<Rightarrow> nat" where
  "documents_budget w = length (peer_picks (wk_admission w))
     + (case wk_incoming w of None \<Rightarrow> 0 | Some s \<Rightarrow> if in_destination s = FD_Documents then 1 else 0)"

definition viewer_ok :: "worker \<Rightarrow> bool" where
  "viewer_ok w \<longleftrightarrow> wk_role w = Viewer \<and> adm_role (wk_admission w) = Viewer
     \<and> (case wk_incoming w of None \<Rightarrow> True | Some s \<Rightarrow> in_destination s \<in> {FD_Documents, FD_Clipboard})"

definition changed :: "worker \<Rightarrow> worker \<Rightarrow> nat" where
  "changed w w' = (if wk_documents w' = wk_documents w then 0 else 1)"

lemma accept_destination: "in_destination (fst (accept sha256 io s m)) = in_destination s"
  by (auto simp: accept_def accept_totals_def accept_entry_def create_entry_def accept_chunk_def
      accept_end_entry_def declare_size_def Let_def
      split: file_message.splits sum.splits option.splits if_splits prod.splits)

lemma accept_incoming_budget:
  assumes "viewer_ok w" "accept_incoming sha256 env w i m = (w1, r)"
  shows "viewer_ok w1 \<and> documents_budget w1 = documents_budget w \<and> wk_documents w1 = wk_documents w"
proof (cases "wk_incoming w")
  case None
  then show ?thesis using assms by (auto simp: accept_incoming_def active_incoming_def)
next
  case (Some s)
  obtain s' r' where a: "accept sha256 (we_io env) s m = (s', r')" by (cases "accept sha256 (we_io env) s m")
  have "in_destination s' = in_destination s" using accept_destination [of sha256 "we_io env" s m] a by simp
  then show ?thesis
    using assms Some a
    by (auto simp: accept_incoming_def active_incoming_def Let_def viewer_ok_def documents_budget_def
        split: if_splits sum.splits)
qed

lemma finish_incoming_budget:
  assumes "viewer_ok w" "finish_incoming sha256 env w i = (w1, ev, r)"
  shows "wk_role w1 = wk_role w \<and> wk_admission w1 = wk_admission w
    \<and> (case r of Inl e \<Rightarrow> True | Inr _ \<Rightarrow> wk_incoming w1 = None)
    \<and> changed w w1 \<le> (case wk_incoming w of None \<Rightarrow> 0 | Some s \<Rightarrow> if in_destination s = FD_Documents then 1 else 0)"
proof (cases "active_incoming w i")
  case (Inl e)
  then show ?thesis using assms(2) by (auto simp: finish_incoming_def changed_def)
next
  case (Inr s)
  then have inc: "wk_incoming w = Some s" by (auto simp: active_incoming_def split: option.splits if_splits)
  then consider "in_destination s = FD_Documents" | "in_destination s = FD_Clipboard"
    using assms(1) by (auto simp: viewer_ok_def)
  then show ?thesis
  proof cases
    case 1
    then show ?thesis
      using assms(2) Inr inc
      by (auto simp: finish_incoming_def Let_def deliver_def changed_def split: prod.splits sum.splits)
  next
    case 2
    then show ?thesis
      using assms(2) Inr inc
      by (auto simp: finish_incoming_def Let_def deliver_def changed_def split: prod.splits sum.splits if_splits)
  qed
qed

text \<open>A packet: a begin spends its admission, a finish spends the transfer in progress.\<close>

definition begins_documents :: "file_message \<Rightarrow> nat" where
  "begins_documents m = (case m of FM_Begin _ d \<Rightarrow> if d = FD_Documents then 1 else 0 | _ \<Rightarrow> 0)"

definition begin_allowed :: "worker \<Rightarrow> file_message \<Rightarrow> bool" where
  "begin_allowed w m = (case m of
     FM_Begin _ d \<Rightarrow> d \<in> {FD_Documents, FD_Clipboard} \<and> wk_incoming w = None | _ \<Rightarrow> True)"

lemma answered_budget:
  "viewer_ok w \<Longrightarrow> viewer_ok (fst (answered wording i w r))
     \<and> documents_budget (fst (answered wording i w r)) \<le> documents_budget w
     \<and> wk_documents (fst (answered wording i w r)) = wk_documents w"
  by (auto simp: answered_def viewer_ok_def documents_budget_def split: sum.splits)

lemma receive_budget:
  assumes v: "viewer_ok w" and b: "begin_allowed w m"
  shows "viewer_ok (fst (receive sha256 wording env w m))
    \<and> documents_budget (fst (receive sha256 wording env w m)) + changed w (fst (receive sha256 wording env w m))
        \<le> documents_budget w + begins_documents m"
proof -
  obtain w1 ev r where p: "packet sha256 env w m = (w1, ev, r)" by (cases "packet sha256 env w m") auto
  let ?w = "fst (answered wording (message_id m) w1 r)"
  have acc: "viewer_ok ?w \<and> documents_budget ?w + changed w ?w \<le> documents_budget w + begins_documents m"
    if "accept_incoming sha256 env w (message_id m) m = (w1, r)"
    using accept_incoming_budget [OF v that] answered_budget [of w1 wording "message_id m" r]
    by (auto simp: changed_def)
  have "viewer_ok ?w \<and> documents_budget ?w + changed w ?w \<le> documents_budget w + begins_documents m"
  proof (cases m)
    case (FM_Begin i d)
    then show ?thesis
      using v b p
      by (auto simp: packet_def begin_incoming_def Incoming_new_def empty_incoming_def answered_def viewer_ok_def
          documents_budget_def changed_def begins_documents_def begin_allowed_def
          split: sum.splits if_splits)
  next
    case (FM_Finish i)
    then have "finish_incoming sha256 env w i = (w1, ev, r)" using p by (simp add: packet_def message_id_def)
    from finish_incoming_budget [OF v this] show ?thesis
      using v by (auto simp: answered_def viewer_ok_def documents_budget_def changed_def split: sum.splits)
  qed (use p acc in \<open>auto simp: packet_def split: prod.splits\<close>)
  then show ?thesis by (auto simp: receive_eq p out_send_def split: prod.splits)
qed

lemma handle_peer_budget:
  assumes v: "viewer_ok w" and b: "begin_allowed w m"
  shows "viewer_ok (fst (handle_peer sha256 wording no_files env w m))
    \<and> documents_budget (fst (handle_peer sha256 wording no_files env w m))
        + changed w (fst (handle_peer sha256 wording no_files env w m))
        \<le> documents_budget w + begins_documents m"
proof -
  let ?P = "\<lambda>p w1. viewer_ok w1 \<and> documents_budget w1 + changed w w1 \<le> documents_budget w + begins_documents p"
  have other: "?P p (fst (if message_id p \<in> set (wk_ended w) then (w, [], Ok None)
         else case receive sha256 wording env w p of
                (w, events, Inl _) \<Rightarrow> (w, events, Err ())
              | (w, events, Inr _) \<Rightarrow> (w, events, Ok (None :: job option))))" if "begin_allowed w p" for p
    using receive_budget [OF v that, of sha256 wording env] v by (auto simp: changed_def split: prod.splits sum.splits)
  have same: "?P p w" for p using v by (simp add: changed_def)
  show ?thesis
  proof (cases m)
    case (FM_Error i reason)
    then show ?thesis
      using v
      by (auto simp: handle_peer_def peer_failed_def Let_def viewer_ok_def documents_budget_def changed_def
          close_peer_pick_def split: option.splits)
  next
    case FM_Pick
    then show ?thesis using v same by (simp add: handle_peer_def allows_peer_pick_def viewer_ok_def)
  next
    case FM_Available
    then show ?thesis
      using v by (simp add: handle_peer_def viewer_ok_def documents_budget_def changed_def)
  next
    case (FM_Ack i)
    then show ?thesis using same by (simp add: handle_peer_def)
  qed (use b in \<open>simp only: handle_peer_def Let_def file_message.case\<close>, rule other, simp)+
qed

definition command_begin :: "command option \<Rightarrow> nat" where
  "command_begin cmd = (case cmd of Some (Cmd_Peer m) \<Rightarrow> begins_documents m | _ \<Rightarrow> 0)"

definition command_allowed :: "worker \<Rightarrow> command option \<Rightarrow> bool" where
  "command_allowed w cmd = (case cmd of Some (Cmd_Peer m) \<Rightarrow> begin_allowed w m | _ \<Rightarrow> True)"

definition command_asks :: "command option \<Rightarrow> nat" where
  "command_asks cmd = (if cmd = Some Cmd_Request_Peer_Pick then 1 else 0)"

lemma handle_budget:
  assumes v: "viewer_ok w" and b: "command_allowed w cmd"
  shows "viewer_ok (fst (handle sha256 wording no_files env w cmd))
    \<and> documents_budget (fst (handle sha256 wording no_files env w cmd))
        + changed w (fst (handle sha256 wording no_files env w cmd))
        \<le> documents_budget w + command_begin cmd + command_asks cmd"
proof (cases cmd)
  case (Some c)
  show ?thesis
  proof (cases c)
    case (Cmd_Peer m)
    then show ?thesis
      using handle_peer_budget [OF v, of m sha256 wording no_files env] Some b
      by (simp add: handle_def command_begin_def command_asks_def command_allowed_def)
  qed (use v Some in \<open>auto simp: handle_def pick_files_def out_send_def viewer_ok_def documents_budget_def
      changed_def command_asks_def request_peer_pick_def Let_def split: option.splits prod.splits sum.splits\<close>)
qed (use v in \<open>simp add: handle_def changed_def\<close>)

lemma admit_viewer_Ok:
  assumes "adm_role a = Viewer" "snd (admit a d e now) = Ok ()"
  shows "d \<in> {FD_Documents, FD_Clipboard}"
    and "length (peer_picks (fst (admit a d e now))) + (if d = FD_Documents then 1 else 0) \<le> length (peer_picks a)"
proof -
  show d: "d \<in> {FD_Documents, FD_Clipboard}"
    using assms by (cases d) (auto simp: admit_def Let_def split: if_splits)
  then consider "d = FD_Documents" | "d = FD_Clipboard" by auto
  then show "length (peer_picks (fst (admit a d e now))) + (if d = FD_Documents then 1 else 0) \<le> length (peer_picks a)"
  proof cases
    case 1
    then show ?thesis using admit_documents_viewer [OF assms(1), of e now] assms(2) by simp
  next
    case 2
    then show ?thesis using assms by (auto simp: admit_def Let_def split: if_splits)
  qed
qed

lemma admit_viewer_le:
  "adm_role a = Viewer \<Longrightarrow> length (peer_picks (fst (admit a d e now))) \<le> length (peer_picks a)"
  using admit_documents_viewer [of a e now]
  by (cases d) (auto simp: admit_def Let_def split: if_splits)

lemma admit_phase_budget:
  assumes v: "viewer_ok w" and p: "admit_phase wording env w cmd = (w1, e1, r)"
  shows "viewer_ok w1 \<and> wk_documents w1 = wk_documents w
    \<and> (case r of
         Inl _ \<Rightarrow> documents_budget w1 \<le> documents_budget w
       | Inr c \<Rightarrow> documents_budget w1 + command_begin c \<le> documents_budget w
           \<and> command_allowed w1 c \<and> command_asks c \<le> command_asks cmd)"
proof (cases "\<exists>i d. cmd = Some (Cmd_Peer (FM_Begin i d))")
  case False
  then have "w1 = w \<and> r = Ok cmd \<and> command_begin cmd = 0 \<and> command_allowed w cmd"
    using p by (auto simp: admit_phase_def command_begin_def command_allowed_def begins_documents_def
        begin_allowed_def split: option.splits command.splits file_message.splits)
  then show ?thesis using v by simp
next
  case True
  then obtain i d where cmd: "cmd = Some (Cmd_Peer (FM_Begin i d))" by blast
  have wa: "worker_admit wording env w i d = (w1, e1, r)" using p cmd by (simp add: admit_phase_def)
  have role: "adm_role (wk_admission w) = Viewer" using v by (simp add: viewer_ok_def)
  let ?a = "admit (wk_admission w) d (we_clipboard_enabled env) (we_now env)"
  show ?thesis
  proof (cases "wk_incoming w")
    case (Some s)
    then show ?thesis
      using wa v by (auto simp: worker_admit_def Let_def out_send_def viewer_ok_def documents_budget_def
          close_peer_pick_def command_begin_def command_allowed_def command_asks_def split: if_splits)
  next
    case None
    show ?thesis
    proof (cases "snd ?a")
      case (Inl e)
      then show ?thesis
        using wa v None admit_viewer_le [OF role, of d "we_clipboard_enabled env" "we_now env"]
        by (auto simp: worker_admit_def Let_def out_send_def viewer_ok_def documents_budget_def
            command_begin_def command_allowed_def command_asks_def split: if_splits)
    next
      case (Inr u)
      then have ok: "snd ?a = Ok ()" by simp
      show ?thesis
        using wa v None ok admit_viewer_Ok [OF role ok]
        by (auto simp: worker_admit_def Let_def viewer_ok_def documents_budget_def command_begin_def
            begins_documents_def command_allowed_def begin_allowed_def command_asks_def)
    qed
  qed
qed

lemma later_phases_budget:
  "viewer_ok w \<Longrightarrow> viewer_ok (fst (queue_phase q env w j))
     \<and> documents_budget (fst (queue_phase q env w j)) = documents_budget w
     \<and> wk_documents (fst (queue_phase q env w j)) = wk_documents w"
  "viewer_ok w \<Longrightarrow> viewer_ok (fst (start_next_send env w))
     \<and> documents_budget (fst (start_next_send env w)) = documents_budget w
     \<and> wk_documents (fst (start_next_send env w)) = wk_documents w"
proof -
  have poll: "viewer_ok v' \<and> documents_budget v' = documents_budget v \<and> wk_documents v' = wk_documents v"
    if "viewer_ok v" "poll_clipboard env v = (v', j')" for v v' j'
    using that by (auto simp: poll_clipboard_def Let_def viewer_ok_def documents_budget_def
        split: if_splits option.splits)
  have queue: "viewer_ok v' \<and> documents_budget v' = documents_budget v \<and> wk_documents v' = wk_documents v"
    if "viewer_ok v" "queue_job q env v j' = (v', e)" for v v' j' e
    using that by (auto simp: queue_job_def Let_def out_send_def viewer_ok_def documents_budget_def split: if_splits)
  show "viewer_ok (fst (queue_phase q env w j))
     \<and> documents_budget (fst (queue_phase q env w j)) = documents_budget w
     \<and> wk_documents (fst (queue_phase q env w j)) = wk_documents w" if w: "viewer_ok w"
  proof -
    obtain v j' where v: "(if j = None \<and> wk_available w \<and> 250000000 \<le> we_now env - wk_poll w
         then poll_clipboard env w else (w, j)) = (v, j')" by fastforce
    have vw: "viewer_ok v \<and> documents_budget v = documents_budget w \<and> wk_documents v = wk_documents w"
      using poll [OF w] v w by (auto split: if_splits)
    have eq: "queue_phase q env w j = (case j' of
           None \<Rightarrow> (v, [], Ok ())
         | Some j \<Rightarrow> if fst j = [] then (v, [], Ok ()) else queue_job q env v j)"
      unfolding queue_phase_def Let_def v by simp
    show ?thesis
    proof (cases j')
      case (Some x)
      obtain v' e where "queue_job q env v x = (v', e)" by (cases "queue_job q env v x")
      then show ?thesis using queue [of v x v' e] vw by (simp add: eq Some)
    qed (use vw in \<open>simp add: eq\<close>)
  qed
  show "viewer_ok w \<Longrightarrow> viewer_ok (fst (start_next_send env w))
     \<and> documents_budget (fst (start_next_send env w)) = documents_budget w
     \<and> wk_documents (fst (start_next_send env w)) = wk_documents w"
    by (auto simp: start_next_send_def viewer_ok_def documents_budget_def split: list.splits)
qed

lemma worker_step_budget:
  assumes v: "viewer_ok w"
  shows "viewer_ok (fst (worker_step sha256 wording no_files queue_full w (env, cmd)))
    \<and> documents_budget (fst (worker_step sha256 wording no_files queue_full w (env, cmd)))
        + changed w (fst (worker_step sha256 wording no_files queue_full w (env, cmd)))
        \<le> documents_budget w + command_asks cmd"
proof -
  obtain w1 e1 r1 where p1: "admit_phase wording env w cmd = (w1, e1, r1)"
    by (cases "admit_phase wording env w cmd") auto
  note k1 = admit_phase_budget [OF v p1]
  show ?thesis
  proof (cases r1)
    case (Inl u)
    then show ?thesis using k1 p1 by (simp add: worker_step_phases changed_def)
  next
    case (Inr c)
    obtain w2 e2 r2 where p2: "handle sha256 wording no_files env w1 c = (w2, e2, r2)"
      by (cases "handle sha256 wording no_files env w1 c") auto
    have k2: "viewer_ok w2 \<and> documents_budget w2 + changed w w2 \<le> documents_budget w + command_asks cmd"
      using handle_budget [of w1 c sha256 wording no_files env] p2 k1 Inr by (auto simp: changed_def)
    show ?thesis
    proof (cases r2)
      case (Inl u)
      then show ?thesis using k2 p1 p2 Inr by (simp add: worker_step_phases)
    next
      case send: (Inr j)
      obtain w3 e3 r3 where p3: "queue_phase queue_full env w2 j = (w3, e3, r3)"
        by (cases "queue_phase queue_full env w2 j") auto
      obtain w4 e4 where p4: "start_next_send env w3 = (w4, e4)" by (cases "start_next_send env w3")
      have k3: "viewer_ok w3 \<and> documents_budget w3 = documents_budget w2 \<and> wk_documents w3 = wk_documents w2"
        using later_phases_budget(1) [of w2 queue_full env j] p3 k2 by simp
      then have k4: "viewer_ok w4 \<and> documents_budget w4 = documents_budget w2 \<and> wk_documents w4 = wk_documents w2"
        using later_phases_budget(2) [of w3 env] p4 by simp
      show ?thesis
        using k2 k3 k4 p1 p2 p3 p4 Inr send
        by (cases r3) (simp_all add: worker_step_phases changed_def)
    qed
  qed
qed

fun documents_changes :: "(worker \<Rightarrow> 'i \<Rightarrow> worker \<times> 'o) \<Rightarrow> worker \<Rightarrow> 'i list \<Rightarrow> nat" where
  "documents_changes step w [] = 0"
| "documents_changes step w (i # is) =
     changed w (fst (step w i)) + documents_changes step (fst (step w i)) is"

text \<open>C12: Over any run of a viewer's worker, with an arbitrary remote device, the number of steps that change
  the technician's Documents folder is at most the number of times the technician asked the device for
  files.\<close>

theorem viewer_documents_only_on_request:
  "documents_changes (worker_step sha256 wording no_files queue_full)
     (Worker_new Viewer now sequence documents cache) inputs
   \<le> length (filter (\<lambda>(env, cmd). cmd = Some Cmd_Request_Peer_Pick) inputs)"
proof -
  have "documents_changes (worker_step sha256 wording no_files queue_full) w inputs
      \<le> documents_budget w + length (filter (\<lambda>(env, cmd). cmd = Some Cmd_Request_Peer_Pick) inputs)"
    if "viewer_ok w" for w
    using that
  proof (induction inputs arbitrary: w)
    case (Cons x inputs)
    obtain env cmd where x: "x = (env, cmd)" by (cases x)
    show ?case
      using Cons.IH [of "fst (worker_step sha256 wording no_files queue_full w x)"]
        worker_step_budget [OF Cons.prems, of sha256 wording no_files queue_full env cmd]
      by (auto simp: x command_asks_def)
  qed simp
  from this [of "Worker_new Viewer now sequence documents cache"] show ?thesis
    by (simp add: Worker_new_def viewer_ok_def documents_budget_def Admission_new_def)
qed

end
