(* ===== verification/Auth_Limits.thy ===== *)
theory Auth_Limits
  imports Prelude Rust_Strings "HOL-Library.AList"
begin

text \<open>
  The in-memory limits of sign-in (\<open>server/src/auth/limits.rs\<close>): the sliding-window rate limiter, the key
  of a client address, second-factor challenges and the one-time setup token. A hash map is an
  association list with distinct keys, instants and durations are nanoseconds, and every operation is
  one step because the source holds a mutex for its whole body. New tokens are random and come from the
  caller; the hash of a token (hexadecimal SHA-256) is the parameter \<open>token_hash\<close>, of which nothing is
  assumed.
\<close>

section \<open>The rate limiter\<close>

definition PRUNE_THRESHOLD :: nat where
  "PRUNE_THRESHOLD = 10000"

type_synonym attempt_map = "(rust_string \<times> nanos list) list"

record rate_limiter =
  rl_limit :: nat
  rl_window :: nanos
  rl_attempts :: attempt_map

definition RateLimiter_new :: "nat \<Rightarrow> nanos \<Rightarrow> rate_limiter" where
  "RateLimiter_new limit window = \<lparr>rl_limit = limit, rl_window = window, rl_attempts = []\<rparr>"

definition expire :: "nanos list \<Rightarrow> nanos \<Rightarrow> nanos \<Rightarrow> nanos list" where
  "expire ts now window = dropWhile (\<lambda>time. window \<le> now - time) ts"

definition retry_after :: "nanos \<Rightarrow> nanos \<Rightarrow> nanos \<Rightarrow> nat" where
  "retry_after oldest window now = max ((oldest + window - now) div 1000000000) 1"

definition prune :: "rate_limiter \<Rightarrow> nanos \<Rightarrow> attempt_map" where
  "prune s now =
     (if PRUNE_THRESHOLD \<le> length (rl_attempts s)
      then filter (\<lambda>(_, ts). ts \<noteq> [])
             (map (\<lambda>(key, ts). (key, expire ts now (rl_window s))) (rl_attempts s))
      else rl_attempts s)"

definition times_of :: "attempt_map \<Rightarrow> rust_string \<Rightarrow> nanos list" where
  "times_of attempts key = (case map_of attempts key of None \<Rightarrow> [] | Some ts \<Rightarrow> ts)"

definition hit_at :: "rate_limiter \<Rightarrow> rust_string \<Rightarrow> nanos \<Rightarrow> rate_limiter \<times> (nat + unit)" where
  "hit_at s key now =
     (let attempts = prune s now;
          ts = expire (times_of attempts key) now (rl_window s)
      in
      if rl_limit s \<le> length ts then
        (s\<lparr>rl_attempts := AList.update key ts attempts\<rparr>,
         Err (retry_after (case ts of [] \<Rightarrow> now | t # _ \<Rightarrow> t) (rl_window s) now))
      else (s\<lparr>rl_attempts := AList.update key (ts @ [now]) attempts\<rparr>, Ok ()))"

definition check :: "rate_limiter \<Rightarrow> rust_string \<Rightarrow> nanos \<Rightarrow> rate_limiter \<times> (nat + unit)" where
  "check s key now =
     (case map_of (rl_attempts s) key of
        None \<Rightarrow> (s, Ok ())
      | Some ts \<Rightarrow>
          let ts = expire ts now (rl_window s);
              s = s\<lparr>rl_attempts := AList.update key ts (rl_attempts s)\<rparr>
          in case ts of
               oldest # _ \<Rightarrow>
                 if rl_limit s \<le> length ts then (s, Err (retry_after oldest (rl_window s) now))
                 else (s, Ok ())
             | [] \<Rightarrow> (s, Ok ()))"

definition refund :: "rate_limiter \<Rightarrow> rust_string \<Rightarrow> rate_limiter" where
  "refund s key =
     (case map_of (rl_attempts s) key of
        None \<Rightarrow> s
      | Some ts \<Rightarrow> s\<lparr>rl_attempts := AList.update key (butlast ts) (rl_attempts s)\<rparr>)"

definition clear_key :: "rate_limiter \<Rightarrow> rust_string \<Rightarrow> rate_limiter" where
  "clear_key s key = s\<lparr>rl_attempts := AList.delete key (rl_attempts s)\<rparr>"

section \<open>The key of a client address\<close>

text \<open>\<open>{:x}\<close> formatting.\<close>

definition hex_digit :: "nat \<Rightarrow> rust_char" where
  "hex_digit d = (if d < 10 then 48 + d else 87 + d)"

fun show_hex :: "nat \<Rightarrow> rust_string" where
  "show_hex n = (if n < 16 then [hex_digit n] else show_hex (n div 16) @ [hex_digit (n mod 16)])"

declare show_hex.simps [simp del]

datatype ip_addr = V4 byte byte byte byte | V6 u16 u16 u16 u16 u16 u16 u16 u16

definition show_v4 :: "byte \<Rightarrow> byte \<Rightarrow> byte \<Rightarrow> byte \<Rightarrow> rust_string" where
  "show_v4 a b c d = join_with 46 (map (\<lambda>x. show_dec (unat x)) [a, b, c, d])"

definition to_ipv4_mapped :: "u16 list \<Rightarrow> byte list option" where
  "to_ipv4_mapped segments =
     (case segments of
        [s0, s1, s2, s3, s4, s5, s6, s7] \<Rightarrow>
          if s0 = 0 \<and> s1 = 0 \<and> s2 = 0 \<and> s3 = 0 \<and> s4 = 0 \<and> s5 = 0xFFFF then
            Some [word_of_nat (unat s6 div 256), word_of_nat (unat s6),
                  word_of_nat (unat s7 div 256), word_of_nat (unat s7)]
          else None
      | _ \<Rightarrow> None)"

fun ip_key :: "ip_addr \<Rightarrow> rust_string" where
  "ip_key (V4 a b c d) = show_v4 a b c d"
| "ip_key (V6 s0 s1 s2 s3 s4 s5 s6 s7) =
     (case to_ipv4_mapped [s0, s1, s2, s3, s4, s5, s6, s7] of
        Some [a, b, c, d] \<Rightarrow> show_v4 a b c d
      | _ \<Rightarrow> join_with 58 (map (\<lambda>s. show_hex (unat s)) [s0, s1, s2, s3]) @ lit ''::/64'')"

section \<open>Second-factor challenges\<close>

record 'pk challenge =
  ch_user_id :: rust_string
  ch_passkey :: "'pk option"
  ch_expires :: nanos
  ch_attempts :: u32

record 'pk challenges =
  cs_ttl :: nanos
  cs_max_attempts :: u32
  cs_pending :: "(rust_string \<times> 'pk challenge) list"

definition Challenges_new :: "nanos \<Rightarrow> u32 \<Rightarrow> 'pk challenges" where
  "Challenges_new ttl max_attempts = \<lparr>cs_ttl = ttl, cs_max_attempts = max_attempts, cs_pending = []\<rparr>"

definition challenge_issue ::
    "(rust_string \<Rightarrow> rust_string) \<Rightarrow> 'pk challenges \<Rightarrow> rust_string \<Rightarrow> rust_string \<Rightarrow> 'pk option \<Rightarrow> nanos
     \<Rightarrow> 'pk challenges" where
  "challenge_issue token_hash s token user_id passkey now =
     (let pending = filter (\<lambda>(_, challenge). now < ch_expires challenge) (cs_pending s)
      in s\<lparr>cs_pending := AList.update (token_hash token)
             \<lparr>ch_user_id = user_id, ch_passkey = passkey, ch_expires = now + cs_ttl s, ch_attempts = 0\<rparr>
             pending\<rparr>)"

definition challenge_attempt ::
    "(rust_string \<Rightarrow> rust_string) \<Rightarrow> 'pk challenges \<Rightarrow> rust_string \<Rightarrow> bool \<Rightarrow> nanos
     \<Rightarrow> 'pk challenges \<times> (rust_string \<times> 'pk option) option" where
  "challenge_attempt token_hash s token take_passkey now =
     (let key = token_hash token in
      case map_of (cs_pending s) key of
        None \<Rightarrow> (s, None)
      | Some challenge \<Rightarrow>
          if ch_expires challenge \<le> now \<or> cs_max_attempts s \<le> ch_attempts challenge then
            (s\<lparr>cs_pending := AList.delete key (cs_pending s)\<rparr>, None)
          else
            let challenge' = challenge\<lparr>ch_attempts := ch_attempts challenge + 1,
                  ch_passkey := (if take_passkey then None else ch_passkey challenge)\<rparr>
            in (s\<lparr>cs_pending := AList.update key challenge' (cs_pending s)\<rparr>,
                Some (ch_user_id challenge, if take_passkey then ch_passkey challenge else None)))"

definition challenge_complete ::
    "(rust_string \<Rightarrow> rust_string) \<Rightarrow> 'pk challenges \<Rightarrow> rust_string \<Rightarrow> 'pk challenges" where
  "challenge_complete token_hash s token =
     s\<lparr>cs_pending := AList.delete (token_hash token) (cs_pending s)\<rparr>"

section \<open>The setup token\<close>

type_synonym setup_gate = "rust_string option"

definition gate_issue :: "(rust_string \<Rightarrow> rust_string) \<Rightarrow> setup_gate \<Rightarrow> rust_string \<Rightarrow> setup_gate" where
  "gate_issue token_hash g token = Some (token_hash token)"

definition gate_matches :: "(rust_string \<Rightarrow> rust_string) \<Rightarrow> setup_gate \<Rightarrow> rust_string \<Rightarrow> bool" where
  "gate_matches token_hash g token = (case g of None \<Rightarrow> False | Some hash \<Rightarrow> hash = token_hash token)"

definition gate_consume ::
    "(rust_string \<Rightarrow> rust_string) \<Rightarrow> setup_gate \<Rightarrow> rust_string \<Rightarrow> setup_gate \<times> bool" where
  "gate_consume token_hash g token =
     (let matches = (case g of None \<Rightarrow> False | Some hash \<Rightarrow> hash = token_hash token)
      in (if matches then None else g, matches))"

definition gate_restore :: "(rust_string \<Rightarrow> rust_string) \<Rightarrow> setup_gate \<Rightarrow> rust_string \<Rightarrow> setup_gate" where
  "gate_restore token_hash g token = (case g of None \<Rightarrow> Some (token_hash token) | Some _ \<Rightarrow> g)"

section \<open>At most \<open>limit\<close> successes in any window\<close>

datatype limiter_op =
    Hit rust_string nanos | Check rust_string nanos | Refund rust_string | Clear_Key rust_string

fun limiter_step :: "rate_limiter \<Rightarrow> limiter_op \<Rightarrow> rate_limiter \<times> (nat + unit) option" where
  "limiter_step s (Hit key now) = (let r = hit_at s key now in (fst r, Some (snd r)))"
| "limiter_step s (Check key now) = (let r = check s key now in (fst r, Some (snd r)))"
| "limiter_step s (Refund key) = (refund s key, None)"
| "limiter_step s (Clear_Key key) = (clear_key s key, None)"

fun op_time :: "limiter_op \<Rightarrow> nanos list" where
  "op_time (Hit key now) = [now]"
| "op_time (Check key now) = [now]"
| "op_time _ = []"

text \<open>An operation that takes attempts of the key back.\<close>

fun gives_back :: "rust_string \<Rightarrow> limiter_op \<Rightarrow> bool" where
  "gives_back key (Refund k) = (k = key)"
| "gives_back key (Clear_Key k) = (k = key)"
| "gives_back key _ = False"

fun success :: "rust_string \<Rightarrow> limiter_op \<times> (nat + unit) option \<Rightarrow> nanos list" where
  "success key (Hit k now, r) = (if k = key \<and> r = Some (Ok ()) then [now] else [])"
| "success key _ = []"

abbreviation successes :: "rust_string \<Rightarrow> rate_limiter \<Rightarrow> limiter_op list \<Rightarrow> nanos list" where
  "successes key s ops \<equiv> concat (map (success key) (zip ops (snd (run limiter_step s ops))))"

definition spaced :: "nat \<Rightarrow> nanos \<Rightarrow> nanos list \<Rightarrow> bool" where
  "spaced limit window ts \<longleftrightarrow>
     list_all2 (\<lambda>a b. a + window \<le> b) (take (length ts - limit) ts) (drop limit ts)"

lemma spaced_snoc:
  assumes "spaced limit window ts" "limit \<le> length ts \<Longrightarrow> (ts @ [now]) ! (length ts - limit) + window \<le> now"
  shows "spaced limit window (ts @ [now])"
proof (cases "limit \<le> length ts")
  case True
  have "take (length (ts @ [now]) - limit) (ts @ [now])
      = take (length ts - limit) ts @ [(ts @ [now]) ! (length ts - limit)]"
    using True take_Suc_conv_app_nth [of "length ts - limit" "ts @ [now]"] by (simp add: Suc_diff_le)
  moreover have "drop limit (ts @ [now]) = drop limit ts @ [now]" using True by simp
  ultimately show ?thesis
    using assms True by (simp add: spaced_def list_all2_append)
next
  case False
  then show ?thesis by (simp add: spaced_def)
qed

text \<open>The queue of a key is what is left of its successes; what was dropped is old.\<close>

definition tracks :: "rate_limiter \<Rightarrow> rust_string \<Rightarrow> nanos \<Rightarrow> nanos list \<Rightarrow> bool" where
  "tracks s key now succ \<longleftrightarrow>
     (\<exists>old. succ = old @ times_of (rl_attempts s) key \<and> (\<forall>t \<in> set old. t + rl_window s \<le> now))
     \<and> (\<forall>t \<in> set succ. t \<le> now) \<and> spaced (rl_limit s) (rl_window s) succ
     \<and> distinct (map fst (rl_attempts s))"

lemma expire_split: "\<exists>old. ts = old @ expire ts now w \<and> (\<forall>t \<in> set old. w \<le> now - t)"
  unfolding expire_def by (metis set_takeWhileD takeWhile_dropWhile_id)

lemma times_of_update:
  "times_of (AList.update k ts m) key = (if key = k then ts else times_of m key)"
  by (simp add: times_of_def update_conv')

lemma times_of_delete: "times_of (AList.delete k m) key = (if key = k then [] else times_of m key)"
  by (simp add: times_of_def delete_conv')

lemma expire_Nil [simp]: "expire [] now w = []"
  by (simp add: expire_def)

lemma expire_expire [simp]: "expire (expire ts now w) now w = expire ts now w"
  by (simp add: expire_def)

lemma map_of_expired:
  "distinct (map fst m) \<Longrightarrow>
   times_of (filter (\<lambda>(_, ts). ts \<noteq> []) (map (\<lambda>(k, ts). (k, f ts)) m)) key =
     (case map_of m key of None \<Rightarrow> [] | Some ts \<Rightarrow> f ts)"
proof (induction m)
  case (Cons x m)
  obtain k ts where x: "x = (k, ts)" by (cases x)
  have "k \<notin> fst ` set m" using Cons.prems x by simp
  then have "map_of (filter (\<lambda>(_, ts). ts \<noteq> []) (map (\<lambda>(k, ts). (k, f ts)) m)) k = None"
    by (force simp: map_of_eq_None_iff)
  then show ?case using Cons x by (auto simp: times_of_def)
qed (simp add: times_of_def)

lemma times_of_prune:
  "distinct (map fst (rl_attempts s)) \<Longrightarrow>
   times_of (prune s now) key = times_of (rl_attempts s) key
   \<or> times_of (prune s now) key = expire (times_of (rl_attempts s) key) now (rl_window s)"
  by (auto simp: prune_def map_of_expired) (auto simp: times_of_def split: option.splits)

lemma distinct_prune: "distinct (map fst (rl_attempts s)) \<Longrightarrow> distinct (map fst (prune s now))"
proof -
  have "map fst (filter P (map (\<lambda>(k, ts). (k, f ts)) m)) = map fst (filter (\<lambda>(k, ts). P (k, f ts)) m)"
    for P and f :: "nanos list \<Rightarrow> nanos list" and m :: attempt_map
    by (induction m) auto
  note eq = this
  assume "distinct (map fst (rl_attempts s))"
  then show ?thesis
    using eq [of "\<lambda>(_, ts). ts \<noteq> []" "\<lambda>ts. expire ts now (rl_window s)" "rl_attempts s"]
    by (simp add: prune_def distinct_map_filter)
qed

text \<open>Expiring the queue at a later time keeps the tracking.\<close>

lemma expired_tracks:
  assumes "tracks s key now succ" "now \<le> now'"
  obtains old where "succ = old @ expire (times_of (rl_attempts s) key) now' (rl_window s)"
    "\<forall>t \<in> set old. t + rl_window s \<le> now'"
proof -
  let ?q = "times_of (rl_attempts s) key"
  obtain old where old: "succ = old @ ?q" "\<forall>t \<in> set old. t + rl_window s \<le> now"
    using assms(1) by (auto simp: tracks_def)
  obtain old2 where old2: "?q = old2 @ expire ?q now' (rl_window s)" "\<forall>t \<in> set old2. rl_window s \<le> now' - t"
    using expire_split by blast
  have "t + rl_window s \<le> now'" if "t \<in> set old2" for t
  proof -
    have "t \<in> set succ" using that old(1) old2(1) by (metis Un_iff set_append)
    then have "t \<le> now'" using assms by (auto simp: tracks_def)
    then show ?thesis using old2(2) that by (metis add.commute le_diff_conv2)
  qed
  moreover have "succ = (old @ old2) @ expire ?q now' (rl_window s)" using old(1) old2(1) by simp
  ultimately show thesis using that [of "old @ old2"] old(2) assms(2) by fastforce
qed

lemma tracks_mono: "tracks s key now succ \<Longrightarrow> now \<le> now' \<Longrightarrow> tracks s key now' succ"
  by (fastforce simp: tracks_def)

lemma tracks_updateI:
  "succ = old @ times_of m key \<Longrightarrow> \<forall>t \<in> set old. t + rl_window s \<le> now \<Longrightarrow> \<forall>t \<in> set succ. t \<le> now \<Longrightarrow>
   spaced (rl_limit s) (rl_window s) succ \<Longrightarrow> distinct (map fst m) \<Longrightarrow> tracks (s\<lparr>rl_attempts := m\<rparr>) key now succ"
  by (auto simp: tracks_def)

lemma fst_hit_at:
  "fst (hit_at s k now) = s\<lparr>rl_attempts := AList.update k
     (let e = expire (times_of (prune s now) k) now (rl_window s)
      in if rl_limit s \<le> length e then e else e @ [now]) (prune s now)\<rparr>"
  by (simp add: hit_at_def Let_def)

lemma snd_hit_at:
  "snd (hit_at s k now) = Ok () \<longleftrightarrow>
     length (expire (times_of (prune s now) k) now (rl_window s)) < rl_limit s"
  by (simp add: hit_at_def Let_def)

lemma hit_tracks:
  assumes tr: "tracks s key now succ" and le: "now \<le> now'"
  shows "tracks (fst (hit_at s k now')) key now'
    (succ @ (if k = key \<and> snd (hit_at s k now') = Ok () then [now'] else []))"
proof -
  have dist: "distinct (map fst (rl_attempts s))" using tr by (simp add: tracks_def)
  let ?q = "times_of (rl_attempts s) key" and ?w = "rl_window s"
  let ?e = "expire (times_of (prune s now') k) now' ?w"
  have dist': "distinct (map fst (AList.update k v (prune s now')))" for v
    by (rule distinct_update [OF distinct_prune [OF dist]])
  obtain old where old: "succ = old @ expire ?q now' ?w" "\<forall>t \<in> set old. t + ?w \<le> now'"
    using expired_tracks [OF tr le] .
  obtain old0 where old0: "succ = old0 @ ?q" "\<forall>t \<in> set old0. t + ?w \<le> now'"
    using tr le by (fastforce simp: tracks_def)
  have bound: "\<forall>t \<in> set succ. t \<le> now'" and sp: "spaced (rl_limit s) ?w succ"
    using tr le by (auto simp: tracks_def)
  show ?thesis
  proof (cases "k = key")
    case False
    then have "times_of (rl_attempts (fst (hit_at s k now'))) key = times_of (prune s now') key"
      by (simp add: fst_hit_at times_of_update)
    then have "\<exists>o'. succ = o' @ times_of (rl_attempts (fst (hit_at s k now'))) key \<and> (\<forall>t \<in> set o'. t + ?w \<le> now')"
      using times_of_prune [OF dist, of now' key] old old0 by metis
    then show ?thesis
      using False bound sp dist' unfolding fst_hit_at by (auto intro!: tracks_updateI)
  next
    case True
    have e: "?e = expire ?q now' ?w" using times_of_prune [OF dist, of now' key] True by auto
    show ?thesis
    proof (cases "rl_limit s \<le> length ?e")
      case full: True
      then show ?thesis
        using True e old bound sp dist' unfolding fst_hit_at snd_hit_at
        by (intro tracks_updateI [of _ old]) (auto simp: times_of_update Let_def)
    next
      case free: False
      have "spaced (rl_limit s) ?w (succ @ [now'])"
      proof (rule spaced_snoc [OF sp])
        assume "rl_limit s \<le> length succ"
        then have "length succ - rl_limit s < length old" using free e old(1) by simp
        then have "(succ @ [now']) ! (length succ - rl_limit s) \<in> set old"
          using old(1) by (metis append.assoc nth_append nth_mem)
        then show "(succ @ [now']) ! (length succ - rl_limit s) + ?w \<le> now'" using old(2) by blast
      qed
      then show ?thesis
        using True free e old bound dist' unfolding fst_hit_at snd_hit_at
        by (intro tracks_updateI [of _ old]) (auto simp: times_of_update Let_def)
    qed
  qed
qed

lemma check_tracks:
  assumes tr: "tracks s key now succ" and le: "now \<le> now'"
  shows "tracks (fst (check s k now')) key now' succ"
proof -
  obtain old where old: "succ = old @ expire (times_of (rl_attempts s) key) now' (rl_window s)"
    "\<forall>t \<in> set old. t + rl_window s \<le> now'"
    using expired_tracks [OF tr le] .
  have dist': "distinct (map fst (AList.update k v (rl_attempts s)))" for v
    by (rule distinct_update) (use tr in \<open>simp add: tracks_def\<close>)
  note tr' = tracks_mono [OF tr le]
  show ?thesis
  proof (cases "map_of (rl_attempts s) k")
    case None
    then show ?thesis using tr' by (simp add: check_def)
  next
    case (Some ts)
    have st: "fst (check s k now') = s\<lparr>rl_attempts := AList.update k (expire ts now' (rl_window s)) (rl_attempts s)\<rparr>"
      using Some by (auto simp: check_def Let_def split: list.splits)
    show ?thesis
    proof (cases "k = key")
      case True
      then have "times_of (rl_attempts s) key = ts" using Some by (simp add: times_of_def)
      then show ?thesis
        using True old tr' dist' unfolding st
        by (intro tracks_updateI [of _ old]) (auto simp: times_of_update tracks_def)
    next
      case False
      obtain o' where "succ = o' @ times_of (rl_attempts s) key" "\<forall>t \<in> set o'. t + rl_window s \<le> now'"
        using tr' by (auto simp: tracks_def)
      then show ?thesis
        using False tr' dist' unfolding st
        by (intro tracks_updateI [of _ o']) (auto simp: times_of_update tracks_def)
    qed
  qed
qed

lemma give_back_other:
  assumes "tracks s key now succ" "k \<noteq> key"
  shows "tracks (refund s k) key now succ" "tracks (clear_key s k) key now succ"
proof -
  obtain old where old: "succ = old @ times_of (rl_attempts s) key" "\<forall>t \<in> set old. t + rl_window s \<le> now"
    using assms(1) by (auto simp: tracks_def)
  have d: "distinct (map fst (AList.update k v (rl_attempts s)))" for v
    by (rule distinct_update) (use assms(1) in \<open>simp add: tracks_def\<close>)
  show "tracks (refund s k) key now succ"
    using assms old d
    by (auto simp: refund_def times_of_update tracks_def split: option.splits intro!: tracks_updateI [of _ old])
  have "distinct (map fst (AList.delete k (rl_attempts s)))"
    by (rule distinct_delete) (use assms(1) in \<open>simp add: tracks_def\<close>)
  then show "tracks (clear_key s k) key now succ"
    using assms old unfolding clear_key_def
    by (intro tracks_updateI [of _ old]) (auto simp: times_of_delete tracks_def)
qed

lemma step_tracks:
  assumes "tracks s key now succ" "list_all (\<lambda>t. now \<le> t) (op_time i)" "\<not> gives_back key i"
  shows "tracks (fst (limiter_step s i)) key (last (now # op_time i)) (succ @ success key (i, snd (limiter_step s i)))"
  using assms
proof (cases i)
  case (Hit k now')
  then show ?thesis using assms hit_tracks [of s key now succ now' k] by (simp add: Let_def)
next
  case (Check k now')
  then show ?thesis using assms check_tracks [of s key now succ now' k] by (simp add: Let_def)
qed (use assms give_back_other in \<open>simp_all\<close>)

lemma run_tracks:
  assumes "tracks s key now succ" "sorted (now # concat (map op_time ops))"
    "list_all (\<lambda>i. \<not> gives_back key i) ops"
  shows "\<exists>now'. tracks (fst (run limiter_step s ops)) key now' (succ @ successes key s ops)"
  using assms
proof (induction ops arbitrary: s now succ)
  case (Cons i ops)
  let ?s = "fst (limiter_step s i)" and ?now = "last (now # op_time i)"
  have ge: "list_all (\<lambda>t. now \<le> t) (op_time i)" using Cons.prems(2) by (auto simp: list_all_iff)
  have tr: "tracks ?s key ?now (succ @ success key (i, snd (limiter_step s i)))"
    using step_tracks [OF Cons.prems(1) ge] Cons.prems(3) by simp
  have "sorted (?now # concat (map op_time ops))"
    using Cons.prems(2) by (cases i) (auto simp: sorted_append)
  from Cons.IH [OF tr this] Cons.prems(3) show ?case
    by (simp add: Let_def del: success.simps)
qed auto



text \<open>The advice given with a refusal.\<close>

lemma hit_refused:
  assumes "snd (hit_at s key now) = Err secs" "0 < rl_limit s" "distinct (map fst (rl_attempts s))"
    "length (times_of (rl_attempts s) key) \<le> rl_limit s"
    and later: "now + (secs + 1) * 1000000000 \<le> now'"
  shows "snd (hit_at (fst (hit_at s key now)) key now') = Ok ()"
proof -
  let ?e = "expire (times_of (prune s now) key) now (rl_window s)" and ?s = "fst (hit_at s key now)"
  have full: "rl_limit s \<le> length ?e" and secs: "secs = retry_after (case ?e of [] \<Rightarrow> now | t # _ \<Rightarrow> t) (rl_window s) now"
    using assms(1) by (auto simp: hit_at_def Let_def split: if_splits)
  obtain t ts where e: "?e = t # ts" using full assms(2) by (cases ?e) auto
  have "(t + rl_window s - now) div 1000000000 \<le> secs" using secs e by (simp add: retry_after_def)
  then have "t + rl_window s - now < (secs + 1) * 1000000000" by (simp add: div_less_iff_less_mult flip: less_eq_Suc_le)
  then have old: "rl_window s \<le> now' - t" using later by linarith
  have "length ?e \<le> rl_limit s"
  proof -
    have "length (expire xs n w) \<le> length xs" for xs n w by (simp add: expire_def length_dropWhile_le)
    then show ?thesis using times_of_prune [OF assms(3), of now key] assms(4) by (metis expire_expire order_trans)
  qed
  have attempts: "rl_attempts ?s = AList.update key ?e (prune s now)" using full by (simp add: fst_hit_at)
  have dist: "distinct (map fst (rl_attempts ?s))"
    unfolding attempts by (rule distinct_update [OF distinct_prune [OF assms(3)]])
  have q: "times_of (rl_attempts ?s) key = t # ts" using e by (simp add: attempts times_of_update)
  have "length (expire (t # ts) now' (rl_window s)) < rl_limit s"
  proof -
    have "length (dropWhile P ts) \<le> length ts" for P by (rule length_dropWhile_le)
    moreover have "length ts < rl_limit s" using e \<open>length ?e \<le> rl_limit s\<close> by simp
    ultimately show ?thesis using old by (simp add: expire_def) (meson le_less_trans)
  qed
  moreover have "rl_window ?s = rl_window s" "rl_limit ?s = rl_limit s" by (simp_all add: fst_hit_at)
  ultimately show ?thesis
    using times_of_prune [OF dist, of now' key] q unfolding snd_hit_at by auto
qed

section \<open>Client addresses\<close>

lemma hex_digit_range: "d < 16 \<Longrightarrow> (48 \<le> hex_digit d \<and> hex_digit d \<le> 57) \<or> (97 \<le> hex_digit d \<and> hex_digit d \<le> 102)"
  by (auto simp: hex_digit_def)

lemma hex_digit_inj: "a < 16 \<Longrightarrow> b < 16 \<Longrightarrow> hex_digit a = hex_digit b \<longleftrightarrow> a = b"
  by (auto simp: hex_digit_def split: if_splits)

lemma show_hex_digits: "c \<in> set (show_hex n) \<Longrightarrow> (48 \<le> c \<and> c \<le> 57) \<or> (97 \<le> c \<and> c \<le> 102)"
proof (induction n rule: show_hex.induct)
  case (1 n)
  then show ?case
    using hex_digit_range [of n] hex_digit_range [of "n mod 16"]
    by (cases "n < 16") (auto simp: show_hex.simps [of n])
qed

lemma show_hex_nonempty [simp]: "show_hex n \<noteq> []"
  by (subst show_hex.simps) simp

lemma show_hex_inj: "show_hex a = show_hex b \<longleftrightarrow> a = b"
proof (induction a arbitrary: b rule: show_hex.induct)
  case (1 a)
  show ?case
  proof (cases "a < 16 \<or> b < 16")
    case True
    then show ?thesis
      by (subst (1 2) show_hex.simps) (auto simp: hex_digit_inj not_sym [OF show_hex_nonempty])
  next
    case False
    then have "show_hex a = show_hex b \<longleftrightarrow> show_hex (a div 16) = show_hex (b div 16) \<and> a mod 16 = b mod 16"
      by (subst (1 2) show_hex.simps) (auto simp: hex_digit_inj)
    also have "\<dots> \<longleftrightarrow> a div 16 = b div 16 \<and> a mod 16 = b mod 16" using 1 False by simp
    also have "\<dots> \<longleftrightarrow> a = b" by (metis div_mult_mod_eq)
    finally show ?thesis .
  qed
qed

lemma show_v4_inj:
  "show_v4 a b c d = show_v4 a' b' c' d' \<longleftrightarrow> [a, b, c, d] = [a', b', c', d']"
proof
  assume eq: "show_v4 a b c d = show_v4 a' b' c' d'"
  have split: "str_split 46 (show_v4 a b c d) = map (\<lambda>x. show_dec (unat x)) [a, b, c, d]" for a b c d :: byte
    unfolding show_v4_def by (rule split_join) (auto dest: show_dec_digits)
  have "show_dec m = show_dec n \<longleftrightarrow> m = n" for m n by (metis parse_show_dec)
  then show "[a, b, c, d] = [a', b', c', d']"
    using arg_cong [OF eq, of "str_split 46"] unfolding split by (simp add: word_unat_eq_iff)
qed auto

definition show_net :: "u16 \<Rightarrow> u16 \<Rightarrow> u16 \<Rightarrow> u16 \<Rightarrow> rust_string" where
  "show_net a b c d = join_with 58 (map (\<lambda>s. show_hex (unat s)) [a, b, c, d]) @ lit ''::/64''"

lemma show_net_inj:
  "show_net a b c d = show_net a' b' c' d' \<longleftrightarrow> [a, b, c, d] = [a', b', c', d']"
proof
  assume "show_net a b c d = show_net a' b' c' d'"
  then have eq: "join_with 58 (map (\<lambda>s. show_hex (unat s)) [a, b, c, d])
      = join_with 58 (map (\<lambda>s. show_hex (unat s)) [a', b', c', d'])"
    unfolding show_net_def by (rule append_same_eq [THEN iffD1])
  have "str_split 58 (join_with 58 (map (\<lambda>s. show_hex (unat s)) [a, b, c, d]))
      = map (\<lambda>s. show_hex (unat s)) [a, b, c, d]" for a b c d :: u16
    by (rule split_join) (auto dest: show_hex_digits)
  then show "[a, b, c, d] = [a', b', c', d']"
    using arg_cong [OF eq, of "str_split 58"] by (simp only: list.map list.inject show_hex_inj word_unat_eq_iff)
qed auto

lemma v4_no_slash: "47 \<notin> set (show_v4 a b c d)"
  by (auto simp: show_v4_def dest: show_dec_digits)

lemma net_slash: "47 \<in> set (show_net a b c d)"
  by (simp add: show_net_def)

text \<open>The client an address stands for: an IPv4 address, also when mapped into IPv6, or an IPv6 /64.\<close>

fun client_of :: "ip_addr \<Rightarrow> byte list + u16 list" where
  "client_of (V4 a b c d) = Inl [a, b, c, d]"
| "client_of (V6 s0 s1 s2 s3 s4 s5 s6 s7) =
     (if [s0, s1, s2, s3, s4] = [0, 0, 0, 0, 0] \<and> s5 = 0xFFFF
      then Inl [word_of_nat (unat s6 div 256), word_of_nat (unat s6), word_of_nat (unat s7 div 256), word_of_nat (unat s7)]
      else Inr [s0, s1, s2, s3])"

lemma ip_key_client:
  "ip_key x = (case client_of x of Inl [a, b, c, d] \<Rightarrow> show_v4 a b c d | Inr [a, b, c, d] \<Rightarrow> show_net a b c d | _ \<Rightarrow> [])"
  by (cases x) (simp_all add: to_ipv4_mapped_def show_net_def)

lemma client_of_shape: "(\<exists>a b c d. client_of x = Inl [a, b, c, d]) \<or> (\<exists>a b c d. client_of x = Inr [a, b, c, d])"
  by (cases x) auto

text \<open>Two addresses share a rate-limit key exactly when they are the same client: the same IPv4 address,
  also when it is mapped into IPv6, or the same IPv6 /64 network. An attacker can neither escape its
  own counter by changing host bits nor exhaust another client's.\<close>

theorem ip_key_identifies_client: "ip_key x = ip_key y \<longleftrightarrow> client_of x = client_of y"
  using client_of_shape [of x] client_of_shape [of y] v4_no_slash net_slash
  by (auto simp: ip_key_client show_v4_inj show_net_inj) metis+

section \<open>A challenge is bounded in attempts and time\<close>

datatype 'pk challenge_op =
    Issue rust_string rust_string "'pk option" nanos
  | Try rust_string bool nanos
  | Complete rust_string

fun challenge_step ::
    "(rust_string \<Rightarrow> rust_string) \<Rightarrow> 'pk challenges \<Rightarrow> 'pk challenge_op
     \<Rightarrow> 'pk challenges \<times> (rust_string \<times> 'pk option) option" where
  "challenge_step token_hash s (Issue token user passkey now) =
     (challenge_issue token_hash s token user passkey now, None)"
| "challenge_step token_hash s (Try token take_passkey now) =
     challenge_attempt token_hash s token take_passkey now"
| "challenge_step token_hash s (Complete token) = (challenge_complete token_hash s token, None)"

text \<open>The results of attempts at the challenge with this hash.\<close>

fun tries :: "(rust_string \<Rightarrow> rust_string) \<Rightarrow> rust_string
     \<Rightarrow> 'pk challenge_op \<times> (rust_string \<times> 'pk option) option \<Rightarrow> (nanos \<times> 'pk option) list" where
  "tries token_hash key (Try token take_passkey now, Some (user, passkey)) =
     (if token_hash token = key then [(now, passkey)] else [])"
| "tries token_hash key _ = []"

fun reissues :: "(rust_string \<Rightarrow> rust_string) \<Rightarrow> rust_string \<Rightarrow> 'pk challenge_op \<Rightarrow> bool" where
  "reissues token_hash key (Issue token user passkey now) = (token_hash token = key)"
| "reissues token_hash key _ = False"

abbreviation tries_of where
  "tries_of token_hash key s ops \<equiv>
     concat (map (tries token_hash key) (zip ops (snd (run (challenge_step token_hash) s ops))))"

text \<open>What is left of a challenge: attempts, the passkey prompt, and its deadline.\<close>

definition left_attempts :: "'pk challenges \<Rightarrow> rust_string \<Rightarrow> nat" where
  "left_attempts s key = (case map_of (cs_pending s) key of
     None \<Rightarrow> 0 | Some c \<Rightarrow> unat (cs_max_attempts s) - unat (ch_attempts c))"

definition left_passkeys :: "'pk challenges \<Rightarrow> rust_string \<Rightarrow> nat" where
  "left_passkeys s key = (case map_of (cs_pending s) key of
     None \<Rightarrow> 0 | Some c \<Rightarrow> if ch_passkey c = None then 0 else 1)"

definition deadline_le :: "'pk challenges \<Rightarrow> rust_string \<Rightarrow> nanos \<Rightarrow> bool" where
  "deadline_le s key d = (case map_of (cs_pending s) key of None \<Rightarrow> True | Some c \<Rightarrow> ch_expires c \<le> d)"

definition challenges_wf :: "'pk challenges \<Rightarrow> bool" where
  "challenges_wf s \<longleftrightarrow> distinct (map fst (cs_pending s))"

lemma map_of_filter_distinct:
  "distinct (map fst m) \<Longrightarrow> map_of (filter (\<lambda>(k, v). P v) m) key =
     (case map_of m key of None \<Rightarrow> None | Some v \<Rightarrow> if P v then Some v else None)"
proof (induction m)
  case (Cons x m)
  obtain k v where x: "x = (k, v)" by (cases x)
  have "k \<notin> fst ` set m" using Cons.prems x by simp
  then have "map_of (filter (\<lambda>(k, v). P v) m) k = None" by (force simp: map_of_eq_None_iff)
  then show ?case using Cons x by auto
qed simp

lemma challenge_attempt_left:
  assumes "challenges_wf s"
  shows "challenges_wf (fst (challenge_attempt h s token t now))
    \<and> cs_max_attempts (fst (challenge_attempt h s token t now)) = cs_max_attempts s
    \<and> left_attempts (fst (challenge_attempt h s token t now)) key
        + length (tries h key (Try token t now, snd (challenge_attempt h s token t now))) \<le> left_attempts s key
    \<and> left_passkeys (fst (challenge_attempt h s token t now)) key
        + length (filter (\<lambda>(n, pk). pk \<noteq> None) (tries h key (Try token t now, snd (challenge_attempt h s token t now))))
        \<le> left_passkeys s key
    \<and> (deadline_le s key d \<longrightarrow> deadline_le (fst (challenge_attempt h s token t now)) key d
        \<and> list_all (\<lambda>(n, pk). n < d) (tries h key (Try token t now, snd (challenge_attempt h s token t now))))"
proof (cases "map_of (cs_pending s) (h token)")
  case None
  then show ?thesis using assms by (simp add: challenge_attempt_def Let_def)
next
  case (Some c)
  show ?thesis
  proof (cases "ch_expires c \<le> now \<or> cs_max_attempts s \<le> ch_attempts c")
    case True
    then show ?thesis
      using assms Some
      by (auto simp: challenge_attempt_def Let_def challenges_wf_def left_attempts_def left_passkeys_def
          deadline_le_def delete_conv' distinct_delete split: option.splits)
  next
    case False
    have lt: "unat (ch_attempts c) < unat (cs_max_attempts s)"
      using False by (simp add: word_le_nat_alt)
    moreover have "unat (cs_max_attempts s) < 2 ^ 32" using unat_lt_pow [of "cs_max_attempts s"] by simp
    ultimately have up: "unat (ch_attempts c + 1) = unat (ch_attempts c) + 1"
      by (simp add: unat_word_ariths)
    show ?thesis
    proof (cases "key = h token")
      case True
      then show ?thesis
        using assms Some False lt
        by (auto simp: challenge_attempt_def Let_def challenges_wf_def left_attempts_def left_passkeys_def
            deadline_le_def update_conv' distinct_update up)
    next
      case other: False
      then show ?thesis
        using assms Some False
        by (auto simp: challenge_attempt_def Let_def challenges_wf_def left_attempts_def left_passkeys_def
            deadline_le_def update_conv' distinct_update split: option.splits)
    qed
  qed
qed

lemma challenge_step_left:
  assumes "challenges_wf s" "\<not> reissues h key i"
  shows "challenges_wf (fst (challenge_step h s i))
    \<and> cs_max_attempts (fst (challenge_step h s i)) = cs_max_attempts s
    \<and> left_attempts (fst (challenge_step h s i)) key + length (tries h key (i, snd (challenge_step h s i)))
        \<le> left_attempts s key
    \<and> left_passkeys (fst (challenge_step h s i)) key
        + length (filter (\<lambda>(n, pk). pk \<noteq> None) (tries h key (i, snd (challenge_step h s i)))) \<le> left_passkeys s key
    \<and> (deadline_le s key d \<longrightarrow> deadline_le (fst (challenge_step h s i)) key d
        \<and> list_all (\<lambda>(n, pk). n < d) (tries h key (i, snd (challenge_step h s i))))"
proof (cases i)
  case (Try token t now)
  then show ?thesis using challenge_attempt_left [OF assms(1), of h token t now key d] by simp
next
  case (Issue token user pk now)
  have "distinct (map fst (filter P (cs_pending s)))" for P
    using assms(1) by (simp add: challenges_wf_def distinct_map_filter)
  then show ?thesis
    using assms Issue
    by (auto simp: challenge_issue_def Let_def challenges_wf_def left_attempts_def left_passkeys_def deadline_le_def
        update_conv' distinct_update map_of_filter_distinct split: option.splits)
next
  case (Complete token)
  then show ?thesis
    using assms
    by (auto simp: challenge_complete_def challenges_wf_def left_attempts_def left_passkeys_def deadline_le_def
        delete_conv' distinct_delete split: option.splits)
qed

lemma challenge_run_left:
  assumes "challenges_wf s" "list_all (\<lambda>i. \<not> reissues h key i) ops" "deadline_le s key d"
  shows "length (tries_of h key s ops) \<le> left_attempts s key
    \<and> length (filter (\<lambda>(n, pk). pk \<noteq> None) (tries_of h key s ops)) \<le> left_passkeys s key
    \<and> list_all (\<lambda>(n, pk). n < d) (tries_of h key s ops)"
  using assms
proof (induction ops arbitrary: s)
  case (Cons i ops)
  have ni: "\<not> reissues h key i" using Cons.prems(2) by simp
  note step = challenge_step_left [OF Cons.prems(1) ni, of d]
  from step Cons.prems Cons.IH [of "fst (challenge_step h s i)"]
  show ?case by (auto simp: Let_def simp del: challenge_step.simps tries.simps)
qed simp

text \<open>C25: A second-factor challenge, once issued, is good for at most \<open>max_attempts\<close> attempts, all before its
  deadline, and its passkey prompt is handed out at most once, over every later sequence of issued,
  attempted and completed challenges in which its token hash is not issued again.\<close>

theorem challenge_bounded:
  assumes "list_all (\<lambda>i. \<not> reissues token_hash (token_hash token) i) ops"
  shows "let s = challenge_issue token_hash (Challenges_new ttl max_attempts) token user passkey now;
             ts = tries_of token_hash (token_hash token) s ops
         in length ts \<le> unat max_attempts
            \<and> length (filter (\<lambda>(n, pk). pk \<noteq> None) ts) \<le> 1
            \<and> list_all (\<lambda>(n, pk). n < now + ttl) ts"
proof -
  let ?s = "challenge_issue token_hash (Challenges_new ttl max_attempts) token user passkey now"
  have s: "challenges_wf ?s" "left_attempts ?s (token_hash token) = unat max_attempts"
    "left_passkeys ?s (token_hash token) \<le> 1" "deadline_le ?s (token_hash token) (now + ttl)"
    by (simp_all add: challenge_issue_def Challenges_new_def challenges_wf_def left_attempts_def
        left_passkeys_def deadline_le_def)
  from challenge_run_left [OF s(1) assms s(4)] s show ?thesis by (auto simp: Let_def)
qed

theorem challenge_bounded_witness:
  "let s = challenge_issue (\<lambda>t. t) (Challenges_new 300 2) (lit ''t'') (lit ''ada'') (Some (7::nat)) 0;
       ts = tries_of (\<lambda>t. t) (lit ''t'') s
              [Try (lit ''t'') True 1, Try (lit ''x'') True 2, Try (lit ''t'') True 3, Try (lit ''t'') False 4]
   in length ts \<le> unat (2 :: u32) \<and> length (filter (\<lambda>(n, pk). pk \<noteq> None) ts) \<le> 1
      \<and> list_all (\<lambda>(n, pk). n < 0 + 300) ts"
  by (rule challenge_bounded) simp

section \<open>The setup token is used once\<close>

datatype gate_op = Gate_Issue rust_string | Gate_Matches rust_string | Gate_Consume rust_string | Gate_Restore rust_string

fun gate_step :: "(rust_string \<Rightarrow> rust_string) \<Rightarrow> setup_gate \<Rightarrow> gate_op \<Rightarrow> setup_gate \<times> bool" where
  "gate_step h g (Gate_Issue token) = (gate_issue h g token, False)"
| "gate_step h g (Gate_Matches token) = (g, False)"
| "gate_step h g (Gate_Consume token) = gate_consume h g token"
| "gate_step h g (Gate_Restore token) = (gate_restore h g token, False)"

fun opens :: "gate_op \<Rightarrow> bool" where
  "opens (Gate_Issue token) = True"
| "opens (Gate_Restore token) = True"
| "opens _ = False"

text \<open>Setup happens at most once per issued or restored token: over any sequence of operations the number
  of successful uses is at most the number of issues and restores, so without a restore the first
  visitor's token admits exactly one administrator.\<close>

theorem setup_token_used_once:
  "length (filter (\<lambda>b. b) (snd (run (gate_step token_hash) None ops))) \<le> length (filter opens ops)"
proof -
  have "length (filter (\<lambda>b. b) (snd (run (gate_step token_hash) g ops)))
      \<le> length (filter opens ops) + (if g = None then 0 else 1)" for g
  proof (induction ops arbitrary: g)
    case (Cons i ops)
    have step: "(if snd (gate_step token_hash g i) then 1 else 0) + (if fst (gate_step token_hash g i) = None then 0 else 1)
        \<le> (if opens i then 1 else 0) + (if g = None then (0::nat) else 1)"
      by (cases i) (auto simp: gate_issue_def gate_consume_def gate_restore_def Let_def split: option.splits)
    show ?case
      using Cons.IH [of "fst (gate_step token_hash g i)"] step
      by (auto simp: Let_def simp del: gate_step.simps split: if_splits)
  qed simp
  from this [of None] show ?thesis by simp
qed

end
