(* ===== verification/Scim_Filter.thy ===== *)
theory Scim_Filter
  imports Prelude Rust_Strings "HOL-Library.Sublist"
begin

text \<open>
  SCIM filters (\<open>server/src/scim/filter.rs\<close> and \<open>attribute_key\<close> of \<open>server/src/scim/mod.rs\<close>): the
  tokenizer, the recursive-descent parser with its nesting bound, and the evaluation against a
  resource's JSON. JSON numbers, their parser and Unicode lowercasing are parameters. The parser's
  position is the list of tokens left. Its nesting level is a structural argument (32 levels at the
  start, one less inside each parenthesis or bracket); its two loops take the number of tokens as fuel,
  and \<open>Out_Of_Fuel\<close> is shown to be unreachable.
\<close>

datatype 'n json =
    JNull
  | JBool bool
  | JNumber 'n
  | JString rust_string
  | JArray "'n json list"
  | JObject "(rust_string \<times> 'n json) list"

datatype filter_op = Op_Eq | Op_Ne | Op_Co | Op_Sw | Op_Ew

datatype 'n filter_expr =
    Compare "rust_string list" filter_op "'n json"
  | Present "rust_string list"
  | ValuePath rust_string "'n filter_expr"
  | And "'n filter_expr" "'n filter_expr"
  | Or "'n filter_expr" "'n filter_expr"
  | Not "'n filter_expr"

datatype token = Word rust_string | Text rust_string | Open | Close | OpenBracket | CloseBracket

datatype filter_error =
    Unterminated_String
  | Nested_Too_Deeply
  | Expected_Open_After_Not
  | Expected_Close
  | Expected_Close_Bracket
  | Expected_Operator rust_string
  | Unsupported_Operator rust_string
  | Invalid_Value rust_string
  | Expected_Value
  | Expected_Attribute
  | Too_Long
  | Trailing_Text
  | Out_Of_Fuel

section \<open>Tokens\<close>

definition delimiter :: "rust_char \<Rightarrow> bool" where
  "delimiter c \<longleftrightarrow> c = 40 \<or> c = 41 \<or> c = 91 \<or> c = 93 \<or> c = 34"

definition word_char :: "rust_char \<Rightarrow> bool" where
  "word_char c \<longleftrightarrow> \<not> (is_whitespace c \<or> delimiter c)"

text \<open>The text of a quoted string after its opening quote, with what follows it.\<close>

fun read_text :: "rust_string \<Rightarrow> rust_string \<Rightarrow> (rust_string \<times> rust_string) option" where
  "read_text acc [] = None"
| "read_text acc (c # cs) =
     (if c = 34 then Some (acc, cs)
      else if c = 92 then (case cs of [] \<Rightarrow> None | e # cs' \<Rightarrow> read_text (acc @ [e]) cs')
      else read_text (acc @ [c]) cs)"

lemma read_text_shorter: "read_text acc cs = Some (t, rest) \<Longrightarrow> length rest < length cs"
  by (induction acc cs rule: read_text.induct) (auto split: if_splits list.splits)

function tokenize :: "rust_string \<Rightarrow> filter_error + token list" where
  "tokenize [] = Ok []"
| "tokenize (c # cs) =
     (if is_whitespace c then tokenize cs
      else if c = 40 then map_sum id (\<lambda>ts. Open # ts) (tokenize cs)
      else if c = 41 then map_sum id (\<lambda>ts. Close # ts) (tokenize cs)
      else if c = 91 then map_sum id (\<lambda>ts. OpenBracket # ts) (tokenize cs)
      else if c = 93 then map_sum id (\<lambda>ts. CloseBracket # ts) (tokenize cs)
      else if c = 34 then
        (case read_text [] cs of
           None \<Rightarrow> Err Unterminated_String
         | Some (t, rest) \<Rightarrow> map_sum id (\<lambda>ts. Text t # ts) (tokenize rest))
      else
        map_sum id (\<lambda>ts. Word (c # takeWhile word_char cs) # ts) (tokenize (dropWhile word_char cs)))"
  by pat_completeness auto
termination
  by (relation "measure length")
    (auto simp: le_imp_less_Suc length_dropWhile_le intro: less_SucI read_text_shorter [OF sym] read_text_shorter)

section \<open>The parser\<close>

definition MAX_DEPTH :: nat where
  "MAX_DEPTH = 32"

definition MAX_LENGTH :: nat where
  "MAX_LENGTH = 4096"

text \<open>An attribute name without its schema URN, lowercased.\<close>

definition strip_urn :: "rust_string \<Rightarrow> rust_string" where
  "strip_urn raw =
     (let raw = str_trim raw in
      if 4 < str_len raw \<and> eq_ignore_ascii_case (take 4 raw) (lit ''urn:'')
      then rev (takeWhile (\<lambda>c. c \<noteq> 58) (rev raw))
      else raw)"

definition attribute_key :: "rust_string \<Rightarrow> rust_string" where
  "attribute_key raw = map ascii_lower (strip_urn raw)"

definition split_path :: "rust_string \<Rightarrow> rust_string list" where
  "split_path attribute = str_split 46 (attribute_key attribute)"

definition keyword :: "token list \<Rightarrow> string \<Rightarrow> bool" where
  "keyword ts kw = (case ts of Word w # _ \<Rightarrow> eq_ignore_ascii_case w (lit kw) | _ \<Rightarrow> False)"

type_synonym 'n parsed = "filter_error + 'n filter_expr \<times> token list"

definition parse_value ::
    "(rust_string \<Rightarrow> 'n option) \<Rightarrow> token list \<Rightarrow> filter_error + 'n json \<times> token list" where
  "parse_value number ts =
     (case ts of
        Text t # rest \<Rightarrow> Ok (JString t, rest)
      | Word w # rest \<Rightarrow>
          let l = map ascii_lower w in
          if l = lit ''true'' then Ok (JBool True, rest)
          else if l = lit ''false'' then Ok (JBool False, rest)
          else if l = lit ''null'' then Ok (JNull, rest)
          else (case number w of None \<Rightarrow> Err (Invalid_Value w) | Some n \<Rightarrow> Ok (JNumber n, rest))
      | _ \<Rightarrow> Err Expected_Value)"

definition parse_op :: "rust_string \<Rightarrow> filter_op option" where
  "parse_op l =
     (if l = lit ''eq'' then Some Op_Eq else if l = lit ''ne'' then Some Op_Ne
      else if l = lit ''co'' then Some Op_Co else if l = lit ''sw'' then Some Op_Sw
      else if l = lit ''ew'' then Some Op_Ew else None)"

definition parse_comparison ::
    "(rust_string \<Rightarrow> 'n option) \<Rightarrow> rust_string \<Rightarrow> token list \<Rightarrow> 'n parsed" where
  "parse_comparison number attribute ts =
     (let path = split_path attribute in
      case ts of
        Word w # rest \<Rightarrow>
          let l = map ascii_lower w in
          if l = lit ''pr'' then Ok (Present path, rest)
          else (case parse_op l of
                  None \<Rightarrow> Err (Unsupported_Operator l)
                | Some op \<Rightarrow>
                    (case parse_value number rest of
                       Inl e \<Rightarrow> Err e
                     | Inr (v, rest') \<Rightarrow> Ok (Compare path op v, rest')))
      | _ \<Rightarrow> Err (Expected_Operator attribute))"

text \<open>\<open>inner\<close> parses what stands inside parentheses or brackets.\<close>

definition parse_term ::
    "(rust_string \<Rightarrow> 'n option) \<Rightarrow> (token list \<Rightarrow> 'n parsed) \<Rightarrow> token list \<Rightarrow> 'n parsed" where
  "parse_term number inner ts =
     (if keyword ts ''not'' then
        (case tl ts of
           Open # rest \<Rightarrow>
             (case inner rest of
                Inl e \<Rightarrow> Err e
              | Inr (f, Close # rest') \<Rightarrow> Ok (Not f, rest')
              | Inr (f, _) \<Rightarrow> Err Expected_Close)
         | _ \<Rightarrow> Err Expected_Open_After_Not)
      else
        case ts of
          Open # rest \<Rightarrow>
            (case inner rest of
               Inl e \<Rightarrow> Err e
             | Inr (f, Close # rest') \<Rightarrow> Ok (f, rest')
             | Inr (f, _) \<Rightarrow> Err Expected_Close)
        | Word attribute # OpenBracket # rest \<Rightarrow>
            (case inner rest of
               Inl e \<Rightarrow> Err e
             | Inr (f, CloseBracket # rest') \<Rightarrow> Ok (ValuePath (attribute_key attribute) f, rest')
             | Inr (f, _) \<Rightarrow> Err Expected_Close_Bracket)
        | Word attribute # rest \<Rightarrow> parse_comparison number attribute rest
        | _ \<Rightarrow> Err Expected_Attribute)"

fun chain ::
    "nat \<Rightarrow> string \<Rightarrow> ('n filter_expr \<Rightarrow> 'n filter_expr \<Rightarrow> 'n filter_expr) \<Rightarrow> (token list \<Rightarrow> 'n parsed)
     \<Rightarrow> 'n filter_expr \<Rightarrow> token list \<Rightarrow> 'n parsed" where
  "chain fuel kw join operand left ts =
     (if \<not> keyword ts kw then Ok (left, ts)
      else case fuel of
        0 \<Rightarrow> Err Out_Of_Fuel
      | Suc fuel' \<Rightarrow>
          (case operand (tl ts) of
             Inl e \<Rightarrow> Err e
           | Inr (right, rest) \<Rightarrow> chain fuel' kw join operand (join left right) rest))"

declare chain.simps [simp del]

definition parse_and ::
    "(rust_string \<Rightarrow> 'n option) \<Rightarrow> (token list \<Rightarrow> 'n parsed) \<Rightarrow> token list \<Rightarrow> 'n parsed" where
  "parse_and number inner ts =
     (case parse_term number inner ts of
        Inl e \<Rightarrow> Err e
      | Inr (left, rest) \<Rightarrow> chain (length rest) ''and'' And (parse_term number inner) left rest)"

definition parse_or_inner ::
    "(rust_string \<Rightarrow> 'n option) \<Rightarrow> (token list \<Rightarrow> 'n parsed) \<Rightarrow> token list \<Rightarrow> 'n parsed" where
  "parse_or_inner number inner ts =
     (case parse_and number inner ts of
        Inl e \<Rightarrow> Err e
      | Inr (left, rest) \<Rightarrow> chain (length rest) ''or'' Or (parse_and number inner) left rest)"

text \<open>The levels that are left bound the nesting.\<close>

fun parse_or :: "(rust_string \<Rightarrow> 'n option) \<Rightarrow> nat \<Rightarrow> token list \<Rightarrow> 'n parsed" where
  "parse_or number 0 ts = Err Nested_Too_Deeply"
| "parse_or number (Suc levels) ts = parse_or_inner number (parse_or number levels) ts"

definition parse :: "(rust_string \<Rightarrow> 'n option) \<Rightarrow> rust_string \<Rightarrow> filter_error + 'n filter_expr" where
  "parse number input =
     (if MAX_LENGTH < str_len input then Err Too_Long
      else case tokenize input of
        Inl e \<Rightarrow> Err e
      | Inr ts \<Rightarrow>
          (case parse_or number MAX_DEPTH ts of
             Inl e \<Rightarrow> Err e
           | Inr (f, []) \<Rightarrow> Ok f
           | Inr (f, _ # _) \<Rightarrow> Err Trailing_Text))"

section \<open>Evaluation\<close>

definition member :: "'n json \<Rightarrow> rust_string \<Rightarrow> 'n json option" where
  "member v key =
     (case v of
        JObject members \<Rightarrow>
          (case find (\<lambda>(name, _). eq_ignore_ascii_case name key) members of
             None \<Rightarrow> None
           | Some (_, x) \<Rightarrow> Some x)
      | _ \<Rightarrow> None)"

definition flatten :: "'n json \<Rightarrow> 'n json list" where
  "flatten v = (case v of JArray items \<Rightarrow> items | other \<Rightarrow> [other])"

definition values_at :: "'n json \<Rightarrow> rust_string list \<Rightarrow> 'n json list" where
  "values_at resource path =
     concat (map flatten
       (foldl (\<lambda>current key. List.map_filter (\<lambda>v. member v key) (concat (map flatten current))) [resource] path))"

definition case_exact :: "rust_string list \<Rightarrow> bool" where
  "case_exact path \<longleftrightarrow>
     (path \<noteq> [] \<and> (last path = lit ''id'' \<or> last path = lit ''externalid''))
     \<or> path = [lit ''members'', lit ''value'']"

definition compare ::
    "(rust_string \<Rightarrow> rust_string) \<Rightarrow> 'n json \<Rightarrow> filter_op \<Rightarrow> 'n json \<Rightarrow> bool \<Rightarrow> bool" where
  "compare to_lowercase actual op expected exact =
     (case (actual, expected) of
        (JString a, JString e) \<Rightarrow>
          let (a, e) = (if exact then (a, e) else (to_lowercase a, to_lowercase e)) in
          (case op of
             Op_Eq \<Rightarrow> a = e
           | Op_Ne \<Rightarrow> a \<noteq> e
           | Op_Co \<Rightarrow> sublist e a
           | Op_Sw \<Rightarrow> prefix e a
           | Op_Ew \<Rightarrow> suffix e a)
      | _ \<Rightarrow>
          (case op of Op_Eq \<Rightarrow> actual = expected | Op_Ne \<Rightarrow> actual \<noteq> expected | _ \<Rightarrow> False))"

fun matches_in ::
    "(rust_string \<Rightarrow> rust_string) \<Rightarrow> 'n json \<Rightarrow> 'n filter_expr \<Rightarrow> rust_string list \<Rightarrow> bool" where
  "matches_in lower resource (Compare path op v) pre =
     (let full = pre @ path; found = values_at resource path in
      case op of
        Op_Ne \<Rightarrow> \<not> list_ex (\<lambda>actual. compare lower actual Op_Eq v (case_exact full)) found
      | _ \<Rightarrow> list_ex (\<lambda>actual. compare lower actual op v (case_exact full)) found)"
| "matches_in lower resource (Present path) pre =
     list_ex (\<lambda>v. v \<noteq> JNull \<and> v \<noteq> JString []) (values_at resource path)"
| "matches_in lower resource (ValuePath attribute f) pre =
     list_ex (\<lambda>element. matches_in lower element f (pre @ [attribute])) (values_at resource [attribute])"
| "matches_in lower resource (And l r) pre = (matches_in lower resource l pre \<and> matches_in lower resource r pre)"
| "matches_in lower resource (Or l r) pre = (matches_in lower resource l pre \<or> matches_in lower resource r pre)"
| "matches_in lower resource (Not f) pre = (\<not> matches_in lower resource f pre)"

definition matches :: "(rust_string \<Rightarrow> rust_string) \<Rightarrow> 'n json \<Rightarrow> 'n filter_expr \<Rightarrow> bool" where
  "matches lower resource f = matches_in lower resource f []"

definition element_matches ::
    "(rust_string \<Rightarrow> rust_string) \<Rightarrow> 'n json \<Rightarrow> rust_string \<Rightarrow> 'n filter_expr \<Rightarrow> bool" where
  "element_matches lower element attribute f = matches_in lower element f [attribute]"

section \<open>The parser always returns\<close>

text \<open>A parser that consumes: it reports no fuel error, and what it leaves is shorter.\<close>

definition consuming :: "(token list \<Rightarrow> 'n parsed) \<Rightarrow> bool" where
  "consuming p \<longleftrightarrow> (\<forall>ts. case p ts of Inl e \<Rightarrow> e \<noteq> Out_Of_Fuel | Inr (f, rest) \<Rightarrow> length rest < length ts)"

lemma consumingI:
  "(\<And>ts e. p ts = Inl e \<Longrightarrow> e \<noteq> Out_Of_Fuel) \<Longrightarrow> (\<And>ts f rest. p ts = Inr (f, rest) \<Longrightarrow> length rest < length ts)
   \<Longrightarrow> consuming p"
  by (auto simp: consuming_def split: sum.splits prod.splits)

lemma consumingD:
  assumes "consuming p"
  shows "p ts = Inl e \<Longrightarrow> e \<noteq> Out_Of_Fuel" "p ts = Inr (f, rest) \<Longrightarrow> length rest < length ts"
  using assms by (auto simp: consuming_def split: sum.splits dest: spec [of _ ts])

lemma keyword_nonempty: "keyword ts kw \<Longrightarrow> ts \<noteq> []"
  by (auto simp: keyword_def split: list.splits)

lemma parse_value_shorter:
  "parse_value number ts = Inr (v, rest) \<Longrightarrow> length rest < length ts"
  "parse_value number ts = Inl e \<Longrightarrow> e \<noteq> Out_Of_Fuel"
  by (auto simp: parse_value_def Let_def split: list.splits token.splits if_splits option.splits)

lemma parse_comparison_shorter:
  "parse_comparison number a ts = Inr (f, rest) \<Longrightarrow> length rest < length ts"
  "parse_comparison number a ts = Inl e \<Longrightarrow> e \<noteq> Out_Of_Fuel"
proof -
  assume "parse_comparison number a ts = Inr (f, rest)"
  then show "length rest < length ts"
    by (auto simp: parse_comparison_def Let_def split: list.splits token.splits if_splits option.splits sum.splits
        dest!: parse_value_shorter(1))
next
  assume "parse_comparison number a ts = Inl e"
  then show "e \<noteq> Out_Of_Fuel"
    by (auto simp: parse_comparison_def Let_def split: list.splits token.splits if_splits option.splits sum.splits
        dest: parse_value_shorter(2))
qed

lemma parse_term_consuming:
  assumes "consuming inner"
  shows "consuming (parse_term number inner)"
proof (rule consumingI)
  fix ts e
  assume p: "parse_term number inner ts = Inl e"
  have no: "inner ts \<noteq> Inl Out_Of_Fuel" "parse_comparison number a ts \<noteq> Inl Out_Of_Fuel" for a ts
    using consumingD(1) [OF assms] parse_comparison_shorter(2) by blast+
  show "e \<noteq> Out_Of_Fuel"
  proof
    assume "e = Out_Of_Fuel"
    with p show False
      by (auto simp: parse_term_def no split: list.splits token.splits if_splits sum.splits)
  qed
next
  fix ts f rest
  assume "parse_term number inner ts = Inr (f, rest)"
  then show "length rest < length ts"
    by (auto simp: parse_term_def split: list.splits token.splits if_splits sum.splits
        dest!: consumingD(2) [OF assms] parse_comparison_shorter(1))
qed

lemma chain_result:
  assumes "consuming operand" "length ts \<le> fuel"
  shows "case chain fuel kw join operand left ts of
     Inl e \<Rightarrow> e \<noteq> Out_Of_Fuel | Inr (f, rest) \<Rightarrow> length rest \<le> length ts"
  using assms(2)
proof (induction fuel arbitrary: left ts)
  case 0
  then show ?case by (simp add: chain.simps keyword_def)
next
  case (Suc fuel)
  show ?case
  proof (cases "keyword ts kw")
    case True
    then obtain t ts' where ts: "ts = t # ts'" by (cases ts) (auto simp: keyword_def)
    show ?thesis
    proof (cases "operand ts'")
      case (Inl e)
      then show ?thesis using True ts consumingD(1) [OF assms(1)] by (auto simp: chain.simps [of "Suc fuel"])
    next
      case (Inr p)
      obtain f rest where p: "p = (f, rest)" by (cases p)
      have "length rest < length ts'" using consumingD(2) [OF assms(1)] Inr p by blast
      then have len: "length rest \<le> fuel" "length rest \<le> length ts" using Suc.prems ts by auto
      from Suc.IH [OF len(1), of "join left f"] len(2) show ?thesis
        using True ts Inr p by (auto simp: chain.simps [of "Suc fuel"] split: sum.splits)
    qed
  qed (simp add: chain.simps [of "Suc fuel"])
qed

lemma chained_consuming:
  assumes "consuming first" "consuming operand"
  shows "consuming (\<lambda>ts. case first ts of
     Inl e \<Rightarrow> Err e | Inr (left, rest) \<Rightarrow> chain (length rest) kw join operand left rest)"
proof (rule consumingI)
  fix ts e
  assume a: "(case first ts of Inl e \<Rightarrow> Err e | Inr (left, rest) \<Rightarrow> chain (length rest) kw join operand left rest) = Inl e"
  show "e \<noteq> Out_Of_Fuel"
  proof (cases "first ts")
    case (Inl e')
    then show ?thesis using a consumingD(1) [OF assms(1)] by auto
  next
    case (Inr p)
    obtain l r where "p = (l, r)" by (cases p)
    then show ?thesis using a Inr chain_result [OF assms(2) le_refl, of r kw join l] by simp
  qed
next
  fix ts f rest
  assume a: "(case first ts of Inl e \<Rightarrow> Err e | Inr (left, rest) \<Rightarrow> chain (length rest) kw join operand left rest) = Inr (f, rest)"
  then obtain l r where fst: "first ts = Inr (l, r)" and c: "chain (length r) kw join operand l r = Inr (f, rest)"
    by (auto split: sum.splits prod.splits)
  have "length rest \<le> length r" using chain_result [OF assms(2) le_refl, of r kw join l] c by simp
  then show "length rest < length ts" using consumingD(2) [OF assms(1) fst] by simp
qed

lemma parse_and_consuming: "consuming inner \<Longrightarrow> consuming (parse_and number inner)"
  using chained_consuming [OF parse_term_consuming parse_term_consuming] unfolding parse_and_def by blast

lemma parse_or_consuming: "consuming (parse_or number levels)"
proof (induction levels)
  case 0
  then show ?case by (simp add: consuming_def)
next
  case (Suc levels)
  then have "consuming (parse_or_inner number (parse_or number levels))"
    unfolding parse_or_inner_def by (intro chained_consuming parse_and_consuming)
  then show ?case by (simp add: consuming_def)
qed

text \<open>Nesting of a parsed filter.\<close>

fun nest :: "'n filter_expr \<Rightarrow> nat" where
  "nest (ValuePath a f) = Suc (nest f)"
| "nest (Not f) = Suc (nest f)"
| "nest (And l r) = max (nest l) (nest r)"
| "nest (Or l r) = max (nest l) (nest r)"
| "nest _ = 0"

definition nests :: "nat \<Rightarrow> (token list \<Rightarrow> 'n parsed) \<Rightarrow> bool" where
  "nests n p \<longleftrightarrow> (\<forall>ts f rest. p ts = Inr (f, rest) \<longrightarrow> nest f < n)"

lemma nestsD: "nests n p \<Longrightarrow> p ts = Inr (f, rest) \<Longrightarrow> nest f < n"
  by (auto simp: nests_def)

lemma parse_term_nests: "nests n inner \<Longrightarrow> nests (Suc n) (parse_term number inner)"
  unfolding nests_def parse_term_def parse_comparison_def Let_def
  by (fastforce split: list.splits token.splits if_splits sum.splits option.splits prod.splits)

lemma chain_nests:
  "nests n operand \<Longrightarrow> (\<And>l r. nest (join l r) = max (nest l) (nest r)) \<Longrightarrow> nest left < n \<Longrightarrow>
   chain fuel kw join operand left ts = Inr (f, rest) \<Longrightarrow> nest f < n"
proof (induction fuel arbitrary: left ts)
  case 0
  then show ?case by (auto simp: chain.simps [of 0] split: if_splits)
next
  case (Suc fuel)
  show ?case
  proof (cases "keyword ts kw")
    case True
    then obtain r rest' where "operand (tl ts) = Inr (r, rest')"
      and "chain fuel kw join operand (join left r) rest' = Inr (f, rest)"
      using Suc.prems(4) by (auto simp: chain.simps [of "Suc fuel"] split: sum.splits prod.splits)
    moreover from this have "nest (join left r) < n" using Suc.prems(1-3) by (auto simp: nests_def)
    ultimately show ?thesis using Suc.IH [OF Suc.prems(1,2)] by blast
  qed (use Suc.prems in \<open>auto simp: chain.simps [of "Suc fuel"]\<close>)
qed

lemma chained_nests:
  assumes "nests n first" "nests n operand" "\<And>l r. nest (join l r) = max (nest l) (nest r)"
  shows "nests n (\<lambda>ts. case first ts of
     Inl e \<Rightarrow> Err e | Inr (left, rest) \<Rightarrow> chain (length rest) kw join operand left rest)"
  unfolding nests_def
proof (intro allI impI)
  fix ts f rest
  assume "(case first ts of Inl e \<Rightarrow> Err e | Inr (left, rest) \<Rightarrow> chain (length rest) kw join operand left rest) = Inr (f, rest)"
  then obtain l r where "first ts = Inr (l, r)" "chain (length r) kw join operand l r = Inr (f, rest)"
    by (auto split: sum.splits prod.splits)
  then show "nest f < n" using nestsD [OF assms(1)] chain_nests [OF assms(2,3)] by blast
qed

lemma parse_or_nests: "nests levels (parse_or number levels)"
proof (induction levels)
  case 0
  then show ?case by (simp add: nests_def)
next
  case (Suc levels)
  have "nests (Suc levels) (parse_and number (parse_or number levels))"
    unfolding parse_and_def by (intro chained_nests parse_term_nests Suc) simp
  then have "nests (Suc levels) (parse_or_inner number (parse_or number levels))"
    unfolding parse_or_inner_def by (intro chained_nests) simp_all
  then show ?case by (simp add: nests_def)
qed


section \<open>Printed filters parse back\<close>

fun op_name :: "filter_op \<Rightarrow> string" where
  "op_name Op_Eq = ''eq''"
| "op_name Op_Ne = ''ne''"
| "op_name Op_Co = ''co''"
| "op_name Op_Sw = ''sw''"
| "op_name Op_Ew = ''ew''"

fun print_value :: "('n \<Rightarrow> rust_string) \<Rightarrow> 'n json \<Rightarrow> token" where
  "print_value show_number (JString t) = Text t"
| "print_value show_number (JBool b) = Word (if b then lit ''true'' else lit ''false'')"
| "print_value show_number (JNumber n) = Word (show_number n)"
| "print_value show_number _ = Word (lit ''null'')"

text \<open>The tokens of a filter, with every conjunction and disjunction in parentheses.\<close>

fun print :: "('n \<Rightarrow> rust_string) \<Rightarrow> 'n filter_expr \<Rightarrow> token list" where
  "print show_number (Compare path op v) =
     [Word (join_with 46 path), Word (lit (op_name op)), print_value show_number v]"
| "print show_number (Present path) = [Word (join_with 46 path), Word (lit ''pr'')]"
| "print show_number (ValuePath a f) = [Word a, OpenBracket] @ print show_number f @ [CloseBracket]"
| "print show_number (Not f) = [Word (lit ''not''), Open] @ print show_number f @ [Close]"
| "print show_number (And l r) =
     [Open] @ print show_number l @ [Word (lit ''and'')] @ print show_number r @ [Close]"
| "print show_number (Or l r) =
     [Open] @ print show_number l @ [Word (lit ''or'')] @ print show_number r @ [Close]"

fun levels_needed :: "'n filter_expr \<Rightarrow> nat" where
  "levels_needed (ValuePath a f) = Suc (levels_needed f)"
| "levels_needed (Not f) = Suc (levels_needed f)"
| "levels_needed (And l r) = Suc (max (levels_needed l) (levels_needed r))"
| "levels_needed (Or l r) = Suc (max (levels_needed l) (levels_needed r))"
| "levels_needed _ = 0"

definition plain_word :: "rust_string \<Rightarrow> bool" where
  "plain_word w \<longleftrightarrow> \<not> eq_ignore_ascii_case w (lit ''not'')"

fun printable_value :: "(rust_string \<Rightarrow> 'n option) \<Rightarrow> ('n \<Rightarrow> rust_string) \<Rightarrow> 'n json \<Rightarrow> bool" where
  "printable_value number show_number (JNumber n) \<longleftrightarrow> number (show_number n) = Some n
     \<and> map ascii_lower (show_number n) \<notin> {lit ''true'', lit ''false'', lit ''null''}"
| "printable_value number show_number (JArray _) \<longleftrightarrow> False"
| "printable_value number show_number (JObject _) \<longleftrightarrow> False"
| "printable_value number show_number _ \<longleftrightarrow> True"

text \<open>Attribute names are written in the normal form the parser keeps, and no attribute is called \<open>not\<close>.\<close>

fun printable :: "(rust_string \<Rightarrow> 'n option) \<Rightarrow> ('n \<Rightarrow> rust_string) \<Rightarrow> 'n filter_expr \<Rightarrow> bool" where
  "printable number show_number (Compare path op v) \<longleftrightarrow>
     split_path (join_with 46 path) = path \<and> plain_word (join_with 46 path) \<and> printable_value number show_number v"
| "printable number show_number (Present path) \<longleftrightarrow>
     split_path (join_with 46 path) = path \<and> plain_word (join_with 46 path)"
| "printable number show_number (ValuePath a f) \<longleftrightarrow>
     attribute_key a = a \<and> plain_word a \<and> printable number show_number f"
| "printable number show_number (Not f) \<longleftrightarrow> printable number show_number f"
| "printable number show_number (And l r) \<longleftrightarrow> printable number show_number l \<and> printable number show_number r"
| "printable number show_number (Or l r) \<longleftrightarrow> printable number show_number l \<and> printable number show_number r"

lemma keyword_lit [simp]:
  "keyword (Word [97, 110, 100] # ts) ''and''" "keyword (Word [111, 114] # ts) ''or''"
  "keyword (Word [110, 111, 116] # ts) ''not''" "\<not> keyword (Word [111, 114] # ts) ''and''"
  "\<not> keyword (Word [97, 110, 100] # ts) ''or''"
  "\<not> keyword (Close # ts) kw" "\<not> keyword (CloseBracket # ts) kw" "\<not> keyword (Open # ts) kw" "\<not> keyword [] kw"
  by (simp_all add: keyword_def eq_ignore_ascii_case_def ascii_lower_def)

lemma keyword_plain: "keyword (Word w # ts) ''not'' \<longleftrightarrow> \<not> plain_word w"
  by (simp add: keyword_def plain_word_def)

lemma parse_value_print:
  "printable_value number show_number v \<Longrightarrow>
   parse_value number (print_value show_number v # rest) = Ok (v, rest)"
  by (cases v) (auto simp: parse_value_def Let_def ascii_lower_def)

lemma parse_op_name:
  "parse_op (map ascii_lower (lit (op_name op))) = Some op" "map ascii_lower (lit (op_name op)) \<noteq> lit ''pr''"
  by (cases op; simp add: parse_op_def ascii_lower_def)+

lemma leaf_prints:
  "printable number show_number (Compare path op v) \<Longrightarrow>
     parse_term number inner (print show_number (Compare path op v) @ rest) = Ok (Compare path op v, rest)"
  "printable number show_number (Present path) \<Longrightarrow>
     parse_term number inner (print show_number (Present path :: 'n filter_expr) @ rest) = Ok (Present path, rest)"
  using parse_op_name [of op]
  by (simp_all add: parse_term_def keyword_plain parse_comparison_def parse_value_print Let_def)
    (simp add: ascii_lower_def)

text \<open>Two operands joined by a keyword inside brackets.\<close>

lemma parse_or_single:
  assumes "parse_term number (parse_or number levels) ts = Ok (f, d # rest)" "d = Close \<or> d = CloseBracket"
  shows "parse_or number (Suc levels) ts = Ok (f, d # rest)"
  using assms by (auto simp: parse_or_inner_def parse_and_def chain.simps)

lemma parse_or_and:
  assumes "parse_term number (parse_or number levels) ts = Ok (l, Word (lit ''and'') # us)"
    "parse_term number (parse_or number levels) us = Ok (r, Close # rest)"
  shows "parse_or number (Suc levels) ts = Ok (And l r, Close # rest)"
  using assms by (simp add: parse_or_inner_def parse_and_def chain.simps)

lemma parse_or_or:
  assumes "parse_term number (parse_or number levels) ts = Ok (l, Word (lit ''or'') # us)"
    "parse_term number (parse_or number levels) us = Ok (r, Close # rest)"
  shows "parse_or number (Suc levels) ts = Ok (Or l r, Close # rest)"
  using assms by (simp add: parse_or_inner_def parse_and_def chain.simps)

lemma parse_term_print:
  "printable number show_number f \<Longrightarrow> levels_needed f \<le> levels \<Longrightarrow>
   parse_term number (parse_or number levels) (print show_number f @ rest) = Ok (f, rest)"
proof (induction f arbitrary: levels rest)
  case (ValuePath a f)
  then obtain n where n: "levels = Suc n" by (cases levels) auto
  have "parse_or number (Suc n) (print show_number f @ CloseBracket # rest) = Ok (f, CloseBracket # rest)"
    using ValuePath n by (intro parse_or_single) auto
  then show ?case using ValuePath.prems n by (simp add: parse_term_def keyword_plain del: parse_or.simps)
next
  case (Not f)
  then obtain n where n: "levels = Suc n" by (cases levels) auto
  have "parse_or number (Suc n) (print show_number f @ Close # rest) = Ok (f, Close # rest)"
    using Not n by (intro parse_or_single) auto
  then show ?case using n by (simp add: parse_term_def del: parse_or.simps)
next
  case (And l r)
  then obtain n where n: "levels = Suc n" by (cases levels) auto
  have "parse_or number (Suc n) (print show_number l @ Word (lit ''and'') # print show_number r @ Close # rest)
      = Ok (And l r, Close # rest)"
    using And n by (intro parse_or_and [where us = "print show_number r @ Close # rest"]) auto
  then show ?case using n by (simp add: parse_term_def del: parse_or.simps)
next
  case (Or l r)
  then obtain n where n: "levels = Suc n" by (cases levels) auto
  have "parse_or number (Suc n) (print show_number l @ Word (lit ''or'') # print show_number r @ Close # rest)
      = Ok (Or l r, Close # rest)"
    using Or n by (intro parse_or_or [where us = "print show_number r @ Close # rest"]) auto
  then show ?case using n by (simp add: parse_term_def del: parse_or.simps)
qed (simp_all add: leaf_prints del: print.simps printable.simps)

lemma print_parses:
  assumes "printable number show_number f" "levels_needed f \<le> 31"
  shows "parse_or number MAX_DEPTH (print show_number f) = Ok (f, [])"
proof -
  have "parse_term number (parse_or number 31) (print show_number f @ []) = Ok (f, [])"
    by (rule parse_term_print [OF assms])
  then have "parse_or number (Suc 31) (print show_number f) = Ok (f, [])"
    by (simp only: parse_or.simps) (simp add: parse_or_inner_def parse_and_def chain.simps)
  then show ?thesis by (simp add: MAX_DEPTH_def del: parse_or.simps)
qed

text \<open>A token as text. A word ends with a space; a quoted string escapes quotes and backslashes.\<close>

fun render :: "token \<Rightarrow> rust_string" where
  "render (Word w) = w @ [32]"
| "render (Text t) = [34] @ concat (map (\<lambda>c. if c = 34 \<or> c = 92 then [92, c] else [c]) t) @ [34]"
| "render Open = [40]"
| "render Close = [41]"
| "render OpenBracket = [91]"
| "render CloseBracket = [93]"

fun lexical :: "token \<Rightarrow> bool" where
  "lexical (Word w) \<longleftrightarrow> w \<noteq> [] \<and> list_all word_char w"
| "lexical _ \<longleftrightarrow> True"

lemma read_text_render:
  "read_text acc (concat (map (\<lambda>c. if c = 34 \<or> c = 92 then [92, c] else [c]) t) @ 34 # rest) = Some (acc @ t, rest)"
  by (induction t arbitrary: acc) auto

lemma tokenize_word:
  assumes "w \<noteq> []" "list_all word_char w"
  shows "tokenize (w @ 32 # rest) = map_sum id (\<lambda>ts. Word w # ts) (tokenize rest)"
proof -
  obtain c cs where w: "w = c # cs" using assms(1) by (cases w) auto
  have sp: "\<not> word_char 32" "is_whitespace 32" by (simp_all add: word_char_def is_whitespace_def)
  have all: "\<forall>x \<in> set cs. word_char x" and c: "word_char c" using assms(2) w by (auto simp: list_all_iff)
  have "takeWhile word_char (cs @ 32 # rest) = cs" "dropWhile word_char (cs @ 32 # rest) = 32 # rest"
    using all sp by (simp_all add: takeWhile_append2 dropWhile_append2)
  then show ?thesis using w c sp by (simp add: word_char_def delimiter_def)
qed

lemma tokenize_render:
  "list_all lexical ts \<Longrightarrow> tokenize (concat (map render ts)) = Ok ts"
proof (induction ts)
  case (Cons t ts)
  then show ?case
    by (cases t)
      (simp_all add: tokenize_word read_text_render is_whitespace_def del: tokenize.simps(2) split del: if_split,
       simp_all add: read_text_render is_whitespace_def)
qed simp

text \<open>C21: Printing and parsing agree: every filter that needs at most 31 levels of brackets, written out with
  each conjunction and disjunction in parentheses, quotes and backslashes escaped, and attribute names in
  normal form, is parsed to exactly that filter, when the text is within the length limit.\<close>

theorem filter_print_parse:
  assumes "printable number show_number f" "levels_needed f \<le> 31"
    and "list_all lexical (print show_number f)"
    and "str_len (concat (map render (print show_number f))) \<le> MAX_LENGTH"
  shows "parse number (concat (map render (print show_number f))) = Ok f"
  using assms(4) tokenize_render [OF assms(3)] print_parses [OF assms(1,2)] by (simp add: parse_def)

theorem filter_print_parse_witness:
  "let f = And (Compare [lit ''username''] Op_Eq (JString (lit ''a d'' @ [34]))) (Not (Present [lit ''name'', lit ''givenname'']))
   in parse (\<lambda>w. if w = lit ''1'' then Some (1::nat) else None) (concat (map render (print (\<lambda>n. lit ''1'') f))) = Ok f"
  unfolding Let_def
  by (rule filter_print_parse)
    (simp_all add: split_path_def attribute_key_def strip_urn_def str_trim_def is_whitespace_def str_len_def
      utf8_len_def eq_ignore_ascii_case_def ascii_lower_def plain_word_def word_char_def delimiter_def MAX_LENGTH_def)

end
