(* ===== verification/Scim_Patch.thy ===== *)
theory Scim_Patch
  imports Scim_Filter "HOL-Library.List_Lexorder"
begin

text \<open>
  SCIM PATCH (\<open>server/src/scim/patch.rs\<close>): paths, the three operations on attributes and on elements
  chosen by a filter, and the whole request. A JSON object is the list of its members in key order, as
  the \<open>BTreeMap\<close> (\<open>btree_insert\<close>) behind \<open>serde_json::Map\<close> keeps them; an error keeps its SCIM type, not its detail. A
  failed patch returns no resource: its caller drops what was patched so far.
\<close>

type_synonym 'n members = "(rust_string \<times> 'n json) list"

datatype patch_kind = Add | Replace | Remove

datatype patch_error = Invalid_Path | Invalid_Syntax | No_Target | Patch_Invalid_Value

record 'n patch_operation =
  po_op :: rust_string
  po_path :: "rust_string option"
  po_value :: "'n json option"

datatype 'n patch_path =
    Path_Attribute "rust_string list"
  | Path_Value rust_string "'n filter_expr" "rust_string option"

section \<open>Objects\<close>

definition map_remove :: "rust_string \<Rightarrow> 'n members \<Rightarrow> 'n members" where
  "map_remove k ob = filter (\<lambda>(k', _). k' \<noteq> k) ob"

definition key_in :: "'n members \<Rightarrow> rust_string \<Rightarrow> rust_string" where
  "key_in object key =
     (case find (\<lambda>name. eq_ignore_ascii_case name key) (map fst object) of None \<Rightarrow> key | Some name \<Rightarrow> name)"

section \<open>Paths\<close>

definition split_last :: "rust_char \<Rightarrow> rust_string \<Rightarrow> (rust_string \<times> rust_string) option" where
  "split_last c s = map_option (\<lambda>(a, b). (rev b, rev a)) (split_once c (rev s))"

definition parse_path :: "(rust_string \<Rightarrow> 'n option) \<Rightarrow> rust_string \<Rightarrow> patch_error + 'n patch_path" where
  "parse_path number raw =
     (let raw = str_trim raw in
      case split_once 91 raw of
        None \<Rightarrow> if raw = [] then Err Invalid_Path else Ok (Path_Attribute (str_split 46 (strip_urn raw)))
      | Some (attribute, after) \<Rightarrow>
          (case split_last 93 after of
             None \<Rightarrow> Err Invalid_Path
           | Some (inner, rest) \<Rightarrow>
               (case parse number inner of
                  Inl _ \<Rightarrow> Err Invalid_Path
                | Inr f \<Rightarrow>
                    (case rest of
                       [] \<Rightarrow> Ok (Path_Value (strip_urn attribute) f None)
                     | c # sub \<Rightarrow>
                         if c = 46 \<and> sub \<noteq> [] then Ok (Path_Value (strip_urn attribute) f (Some sub))
                         else Err Invalid_Path))))"

section \<open>Attributes\<close>

definition same_element :: "'n json \<Rightarrow> 'n json \<Rightarrow> bool" where
  "same_element a b =
     (case (member a (lit ''value''), member b (lit ''value'')) of
        (Some x, Some y) \<Rightarrow> x = y
      | _ \<Rightarrow> a = b)"

definition push_new :: "'n json list \<Rightarrow> 'n json \<Rightarrow> 'n json list" where
  "push_new items item = (if list_ex (\<lambda>existing. same_element existing item) items then items else items @ [item])"

definition merge_members :: "'n members \<Rightarrow> 'n members \<Rightarrow> 'n members" where
  "merge_members existing added = foldl (\<lambda>ob (name, item). btree_insert (key_in ob name) item ob) existing added"

definition apply_last ::
    "patch_kind \<Rightarrow> rust_string \<Rightarrow> 'n json option \<Rightarrow> 'n members \<Rightarrow> patch_error + 'n members" where
  "apply_last kind attribute v target =
     (let key = key_in target attribute in
      case kind of
        Remove \<Rightarrow>
          (case (map_of target key, v) of
             (Some (JArray items), Some (JArray removed)) \<Rightarrow>
               Ok (btree_insert key (JArray (filter (\<lambda>item. \<not> list_ex (same_element item) removed) items)) target)
           | _ \<Rightarrow> Ok (map_remove key target))
      | Replace \<Rightarrow> Ok (btree_insert key (case v of None \<Rightarrow> JNull | Some x \<Rightarrow> x) target)
      | Add \<Rightarrow>
          (case v of
             None \<Rightarrow> Err Patch_Invalid_Value
           | Some x \<Rightarrow>
               (case (map_of target key, x) of
                  (Some (JArray items), JArray added) \<Rightarrow>
                    Ok (btree_insert key (JArray (foldl push_new items added)) target)
                | (Some (JArray items), item) \<Rightarrow> Ok (btree_insert key (JArray (push_new items item)) target)
                | (Some (JObject existing), JObject added) \<Rightarrow>
                    Ok (btree_insert key (JObject (merge_members existing added)) target)
                | _ \<Rightarrow> Ok (btree_insert key x target))))"

text \<open>An operation on every object of an array, up to the first that fails.\<close>

fun map_objects :: "('n members \<Rightarrow> patch_error + 'n members) \<Rightarrow> 'n json list \<Rightarrow> patch_error + 'n json list" where
  "map_objects f [] = Ok []"
| "map_objects f (JObject ob # items) =
     (case f ob of
        Inl e \<Rightarrow> Err e
      | Inr ob' \<Rightarrow> (case map_objects f items of Inl e \<Rightarrow> Err e | Inr items' \<Rightarrow> Ok (JObject ob' # items')))"
| "map_objects f (item # items) =
     (case map_objects f items of Inl e \<Rightarrow> Err e | Inr items' \<Rightarrow> Ok (item # items'))"

definition lift_value :: "('a \<Rightarrow> 'n json) \<Rightarrow> rust_string \<Rightarrow> 'n members \<Rightarrow> patch_error + 'a \<Rightarrow> patch_error + 'n members" where
  "lift_value wrap key object r = (case r of Inl e \<Rightarrow> Err e | Inr x \<Rightarrow> Ok (btree_insert key (wrap x) object))"

primrec apply_attribute ::
    "patch_kind \<Rightarrow> 'n json option \<Rightarrow> rust_string list \<Rightarrow> 'n members \<Rightarrow> patch_error + 'n members" where
  "apply_attribute kind v [] = (\<lambda>object. Err Invalid_Path)"
| "apply_attribute kind v (part # parts) =
     (\<lambda>object.
        if parts = [] then apply_last kind part v object
        else
          let key = key_in object part; inside = apply_attribute kind v parts in
          case map_of object key of
            None \<Rightarrow>
              if kind = Remove then Ok object else lift_value JObject key object (inside [])
          | Some (JArray items) \<Rightarrow> lift_value JArray key object (map_objects inside items)
          | Some (JObject child) \<Rightarrow> lift_value JObject key object (inside child)
          | Some _ \<Rightarrow> lift_value JObject key object (inside []))"

section \<open>Elements chosen by a filter\<close>

text \<open>The fields a filter pins down with \<open>eq\<close>. The work list takes the right operand first.\<close>

function seed_loop :: "'n filter_expr list \<Rightarrow> 'n members \<Rightarrow> 'n members" where
  "seed_loop [] element = element"
| "seed_loop (Compare path op v # pending) element =
     (case (path, op) of
        ([name], Op_Eq) \<Rightarrow> seed_loop pending (btree_insert name v element)
      | _ \<Rightarrow> seed_loop pending element)"
| "seed_loop (And l r # pending) element = seed_loop (r # l # pending) element"
| "seed_loop (Or l r # pending) element = seed_loop pending element"
| "seed_loop (Present p # pending) element = seed_loop pending element"
| "seed_loop (ValuePath a f # pending) element = seed_loop pending element"
| "seed_loop (Not f # pending) element = seed_loop pending element"
  by pat_completeness auto
termination
  by (relation "measure (\<lambda>(pending, _). sum_list (map (\<lambda>f. 2 * size f + 1) pending))") auto

definition seed :: "'n filter_expr \<Rightarrow> 'n members" where
  "seed f = seed_loop [f] []"

definition set_element :: "patch_kind \<Rightarrow> rust_string option \<Rightarrow> 'n json \<Rightarrow> 'n json \<Rightarrow> 'n json" where
  "set_element kind sub v item =
     (case sub of
        Some s \<Rightarrow>
          (case item of JObject element \<Rightarrow> JObject (btree_insert (key_in element s) v element) | _ \<Rightarrow> item)
      | None \<Rightarrow>
          if kind = Replace then v
          else (case (item, v) of
                  (JObject element, JObject set_fields) \<Rightarrow> JObject (merge_members element set_fields)
                | _ \<Rightarrow> item))"

definition new_element :: "'n filter_expr \<Rightarrow> rust_string option \<Rightarrow> 'n json \<Rightarrow> 'n json" where
  "new_element f sub v =
     JObject (case sub of
        Some s \<Rightarrow> btree_insert s v (seed f)
      | None \<Rightarrow>
          (case v of
             JObject set_fields \<Rightarrow> foldl (\<lambda>ob (name, item). btree_insert name item ob) (seed f) set_fields
           | _ \<Rightarrow> seed f))"

definition remove_sub :: "rust_string \<Rightarrow> 'n json \<Rightarrow> 'n json" where
  "remove_sub s item =
     (case item of JObject element \<Rightarrow> JObject (map_remove (key_in element s) element) | _ \<Rightarrow> item)"

definition patch_items ::
    "('n json \<Rightarrow> bool) \<Rightarrow> patch_kind \<Rightarrow> 'n filter_expr \<Rightarrow> rust_string option \<Rightarrow> 'n json option \<Rightarrow> 'n json list
     \<Rightarrow> patch_error + 'n json list" where
  "patch_items matching kind f sub v items =
     (case (kind, sub) of
        (Remove, None) \<Rightarrow> Ok (filter (\<lambda>item. \<not> matching item) items)
      | (Remove, Some s) \<Rightarrow> Ok (map (\<lambda>item. if matching item then remove_sub s item else item) items)
      | _ \<Rightarrow>
          (case v of
             None \<Rightarrow> Err Patch_Invalid_Value
           | Some x \<Rightarrow>
               if \<not> list_ex matching items then Ok (items @ [new_element f sub x])
               else Ok (map (\<lambda>item. if matching item then set_element kind sub x item else item) items)))"

definition apply_value_path ::
    "(rust_string \<Rightarrow> rust_string) \<Rightarrow> patch_kind \<Rightarrow> rust_string \<Rightarrow> 'n filter_expr \<Rightarrow> rust_string option
     \<Rightarrow> 'n json option \<Rightarrow> 'n members \<Rightarrow> patch_error + 'n members" where
  "apply_value_path lower kind attribute f sub v object =
     (let key = key_in object attribute;
          matching = (\<lambda>item. element_matches lower item (map ascii_lower attribute) f);
          patched = (\<lambda>items. lift_value JArray key object (patch_items matching kind f sub v items))
      in case map_of object key of
           Some (JArray items) \<Rightarrow> patched items
         | _ \<Rightarrow> if kind = Remove then Ok object else patched [])"

section \<open>Requests\<close>

definition apply_path ::
    "(rust_string \<Rightarrow> rust_string) \<Rightarrow> patch_kind \<Rightarrow> 'n patch_path \<Rightarrow> 'n json option \<Rightarrow> 'n members
     \<Rightarrow> patch_error + 'n members" where
  "apply_path lower kind path v object =
     (case path of
        Path_Attribute parts \<Rightarrow> apply_attribute kind v parts object
      | Path_Value attribute f sub \<Rightarrow> apply_value_path lower kind attribute f sub v object)"

definition parse_kind :: "rust_string \<Rightarrow> patch_error + patch_kind" where
  "parse_kind op =
     (let l = map ascii_lower op in
      if l = lit ''add'' then Ok Add else if l = lit ''replace'' then Ok Replace
      else if l = lit ''remove'' then Ok Remove else Err Invalid_Syntax)"

fun apply_members ::
    "(rust_string \<Rightarrow> rust_string) \<Rightarrow> (rust_string \<Rightarrow> 'n option) \<Rightarrow> patch_kind \<Rightarrow> 'n members \<Rightarrow> 'n members
     \<Rightarrow> patch_error + 'n members" where
  "apply_members lower number kind [] object = Ok object"
| "apply_members lower number kind ((key, v) # members) object =
     (case parse_path number key of
        Inl e \<Rightarrow> Err e
      | Inr path \<Rightarrow>
          (case apply_path lower kind path (Some v) object of
             Inl e \<Rightarrow> Err e
           | Inr object' \<Rightarrow> apply_members lower number kind members object'))"

definition apply_operation ::
    "(rust_string \<Rightarrow> rust_string) \<Rightarrow> (rust_string \<Rightarrow> 'n option) \<Rightarrow> 'n patch_operation \<Rightarrow> 'n members
     \<Rightarrow> patch_error + 'n members" where
  "apply_operation lower number operation object =
     (case parse_kind (po_op operation) of
        Inl e \<Rightarrow> Err e
      | Inr kind \<Rightarrow>
          (let path = (case po_path operation of None \<Rightarrow> [] | Some p \<Rightarrow> str_trim p) in
           if path \<noteq> [] then
             (case parse_path number path of
                Inl e \<Rightarrow> Err e
              | Inr path \<Rightarrow> apply_path lower kind path (po_value operation) object)
           else if kind = Remove then Err No_Target
           else (case po_value operation of
                   Some (JObject members) \<Rightarrow> apply_members lower number kind members object
                 | _ \<Rightarrow> Err Patch_Invalid_Value)))"

fun apply_operations ::
    "(rust_string \<Rightarrow> rust_string) \<Rightarrow> (rust_string \<Rightarrow> 'n option) \<Rightarrow> 'n patch_operation list \<Rightarrow> 'n members
     \<Rightarrow> patch_error + 'n members" where
  "apply_operations lower number [] object = Ok object"
| "apply_operations lower number (operation # operations) object =
     (case apply_operation lower number operation object of
        Inl e \<Rightarrow> Err e
      | Inr object' \<Rightarrow> apply_operations lower number operations object')"

definition apply_patch ::
    "(rust_string \<Rightarrow> rust_string) \<Rightarrow> (rust_string \<Rightarrow> 'n option) \<Rightarrow> 'n patch_operation list \<Rightarrow> 'n json
     \<Rightarrow> patch_error + 'n json" where
  "apply_patch lower number operations resource =
     (case resource of
        JObject object \<Rightarrow>
          (case apply_operations lower number operations object of Inl e \<Rightarrow> Err e | Inr ob' \<Rightarrow> Ok (JObject ob'))
      | _ \<Rightarrow> Err Patch_Invalid_Value)"

section \<open>Keys\<close>

lemma eq_ignore_refl [simp]: "eq_ignore_ascii_case k k"
  by (simp add: eq_ignore_ascii_case_def)

lemma map_of_remove [simp]: "map_of (map_remove k ob) = (map_of ob)(k := None)"
  by (induction ob) (auto simp: map_remove_def)

lemma key_in_Nil [simp]: "key_in [] key = key"
  by (simp add: key_in_def)

lemma key_in_Cons: "key_in ((k, v) # ob) key = (if eq_ignore_ascii_case k key then k else key_in ob key)"
  by (simp add: key_in_def)

lemma key_in_same: "eq_ignore_ascii_case (key_in ob key) key"
  by (induction ob) (auto simp: key_in_Cons)

lemma member_key: "member (JObject ob) key = map_of ob (key_in ob key)"
proof (induction ob)
  case (Cons m ob)
  obtain k v where m: "m = (k, v)" by (cases m)
  have "\<not> eq_ignore_ascii_case k key \<Longrightarrow> k \<noteq> key_in ob key" using key_in_same by auto
  then show ?case using Cons m by (auto simp: member_def key_in_Cons)
qed (simp add: member_def)

lemma key_in_insert: "key_in (btree_insert (key_in ob key) v ob) key = key_in ob key"
proof (induction ob)
  case (Cons m ob)
  obtain k w where m: "m = (k, w)" by (cases m)
  then show ?case
    using Cons key_in_same [of ob key] by (cases "eq_ignore_ascii_case k key") (auto simp: key_in_Cons)
qed (simp add: key_in_Cons)

lemma member_insert: "member (JObject (btree_insert (key_in ob key) v ob)) key = Some v"
  by (simp add: member_key key_in_insert)

lemma ascii_lower_idem [simp]: "ascii_lower (ascii_lower c) = ascii_lower c"
  by (simp add: ascii_lower_def)

lemma eq_ignore_lower [simp]: "eq_ignore_ascii_case n (map ascii_lower key) = eq_ignore_ascii_case n key"
  by (simp add: eq_ignore_ascii_case_def comp_def)

lemma member_lower [simp]: "member j (map ascii_lower key) = member j key"
  by (cases j) (simp_all add: member_def)

section \<open>What an operation leaves alone\<close>

fun path_head :: "'n patch_path \<Rightarrow> rust_string" where
  "path_head (Path_Attribute parts) = (case parts of [] \<Rightarrow> [] | p # _ \<Rightarrow> p)"
| "path_head (Path_Value attribute f sub) = attribute"

lemma apply_last_frame:
  "apply_last kind attribute v ob = Ok ob' \<Longrightarrow> \<not> eq_ignore_ascii_case name attribute \<Longrightarrow> map_of ob' name = map_of ob name"
  using key_in_same [of ob attribute]
  by (auto simp: apply_last_def Let_def split: patch_kind.splits option.splits json.splits)

lemma lift_value_frame: "lift_value wrap key ob r = Ok ob' \<Longrightarrow> name \<noteq> key \<Longrightarrow> map_of ob' name = map_of ob name"
  by (auto simp: lift_value_def split: sum.splits)

lemma apply_attribute_frame:
  assumes "apply_attribute kind v (p # ps) ob = Ok ob'" "\<not> eq_ignore_ascii_case name p"
  shows "map_of ob' name = map_of ob name"
proof -
  have "name \<noteq> key_in ob p" using assms(2) key_in_same [of ob p] by auto
  then show ?thesis
    using assms
    by (auto simp: Let_def split: if_splits option.splits json.splits dest: apply_last_frame lift_value_frame)
qed

lemma apply_value_path_frame:
  assumes "apply_value_path lower kind attribute f sub v ob = Ok ob'" "\<not> eq_ignore_ascii_case name attribute"
  shows "map_of ob' name = map_of ob name"
proof -
  have "name \<noteq> key_in ob attribute" using assms(2) key_in_same [of ob attribute] by auto
  then show ?thesis
    using assms
    by (auto simp: apply_value_path_def Let_def split: if_splits option.splits json.splits dest: lift_value_frame)
qed

lemma apply_path_frame:
  assumes "apply_path lower kind path v ob = Ok ob'" "\<not> eq_ignore_ascii_case name (path_head path)"
  shows "map_of ob' name = map_of ob name"
proof (cases path)
  case (Path_Attribute parts)
  then show ?thesis
    using assms apply_attribute_frame by (cases parts) (simp_all add: apply_path_def del: apply_attribute.simps(2))
next
  case (Path_Value attribute f sub)
  then show ?thesis using assms apply_value_path_frame by (simp add: apply_path_def)
qed

text \<open>The attributes an operation names, as far as its paths can be read.\<close>

definition path_names :: "(rust_string \<Rightarrow> 'n option) \<Rightarrow> rust_string \<Rightarrow> rust_string \<Rightarrow> bool" where
  "path_names number raw name =
     (case parse_path number raw of Inl _ \<Rightarrow> False | Inr path \<Rightarrow> eq_ignore_ascii_case name (path_head path))"

definition operation_names :: "(rust_string \<Rightarrow> 'n option) \<Rightarrow> rust_string \<Rightarrow> 'n patch_operation \<Rightarrow> bool" where
  "operation_names number name operation =
     (let path = (case po_path operation of None \<Rightarrow> [] | Some p \<Rightarrow> str_trim p) in
      if path \<noteq> [] then path_names number path name
      else (case po_value operation of
              Some (JObject ms) \<Rightarrow> list_ex (\<lambda>(key, _). path_names number key name) ms
            | _ \<Rightarrow> False))"

lemma apply_members_frame:
  "apply_members lower number kind ms ob = Ok ob' \<Longrightarrow> \<not> list_ex (\<lambda>(key, _). path_names number key name) ms \<Longrightarrow>
   map_of ob' name = map_of ob name"
proof (induction lower number kind ms ob rule: apply_members.induct)
  case (2 lower number kind key v ms ob)
  then show ?case
    by (auto simp: path_names_def split: sum.splits dest!: apply_path_frame [where name = name])
qed simp

lemma apply_operation_frame:
  "apply_operation lower number operation ob = Ok ob' \<Longrightarrow> \<not> operation_names number name operation \<Longrightarrow>
   map_of ob' name = map_of ob name"
  by (auto simp: apply_operation_def operation_names_def path_names_def Let_def
      split: sum.splits if_splits option.splits json.splits dest: apply_path_frame apply_members_frame)

lemma apply_operations_frame:
  "apply_operations lower number ops ob = Ok ob' \<Longrightarrow> \<not> list_ex (operation_names number name) ops \<Longrightarrow>
   map_of ob' name = map_of ob name"
proof (induction lower number ops ob rule: apply_operations.induct)
  case (2 lower number operation ops ob)
  then show ?case by (auto split: sum.splits dest: apply_operation_frame)
qed simp

section \<open>What a replace writes is read back\<close>

lemma values_at_member:
  "values_at (JObject ob) (key # keys) = (case member (JObject ob) key of None \<Rightarrow> [] | Some v \<Rightarrow> values_at v keys)"
proof -
  have empty: "foldl (\<lambda>current key. List.map_filter (\<lambda>v. member v key) (concat (map flatten current))) [] ks = ([] :: 'a json list)"
    for ks by (induction ks) (simp_all add: List.map_filter_simps)
  have one: "concat (map flatten [JObject ob]) = [JObject ob]" by (simp add: flatten_def)
  show ?thesis
    unfolding values_at_def foldl_Cons one
    by (simp add: empty List.map_filter_simps split: option.splits)
qed

text \<open>No array stands on the way to the attribute.\<close>

fun direct :: "rust_string list \<Rightarrow> 'n members \<Rightarrow> bool" where
  "direct (p # q # ps) ob =
     (case map_of ob (key_in ob p) of
        Some (JArray _) \<Rightarrow> False
      | Some (JObject child) \<Rightarrow> direct (q # ps) child
      | _ \<Rightarrow> direct (q # ps) [])"
| "direct _ ob = True"

lemma replace_value_read:
  "apply_attribute Replace (Some v) parts ob = Ok ob' \<Longrightarrow> direct parts ob \<Longrightarrow>
   values_at (JObject ob') (map (map ascii_lower) parts) = flatten v"
proof (induction parts arbitrary: ob ob')
  case (Cons p ps)
  show ?case
  proof (cases ps)
    case Nil
    then have "ob' = btree_insert (key_in ob p) v ob"
      using Cons.prems by (simp add: apply_last_def Let_def)
    then show ?thesis using Nil by (simp add: values_at_member member_insert) (simp add: values_at_def)
  next
    case (Cons q qs)
    define child where "child = (case map_of ob (key_in ob p) of Some (JObject c) \<Rightarrow> c | _ \<Rightarrow> [])"
    have "lift_value JObject (key_in ob p) ob (apply_attribute Replace (Some v) ps child) = Ok ob'" "direct ps child"
      using Cons.prems Cons by (auto simp: child_def Let_def split: option.splits json.splits)
    then obtain c where "apply_attribute Replace (Some v) ps child = Ok c"
      and ob': "ob' = btree_insert (key_in ob p) (JObject c) ob"
      by (auto simp: lift_value_def split: sum.splits)
    then have "values_at (JObject c) (map (map ascii_lower) ps) = flatten v"
      using Cons.IH \<open>direct ps child\<close> by blast
    then show ?thesis by (simp add: ob' values_at_member member_insert)
  qed
qed simp

section \<open>Patched resources are well-formed\<close>

text \<open>Every object of a resource has its members in strictly increasing key order: no key twice.\<close>

fun wf_json :: "'n json \<Rightarrow> bool" where
  "wf_json (JArray items) = list_all wf_json items"
| "wf_json (JObject ms) = (sorted_wrt (<) (map fst ms) \<and> list_all (\<lambda>m. wf_json (snd m)) ms)"
| "wf_json _ = True"

abbreviation wf_members :: "'n members \<Rightarrow> bool" where "wf_members ob \<equiv> wf_json (JObject ob)"

lemma wf_insert [simp]: "wf_members ob \<Longrightarrow> wf_json v \<Longrightarrow> wf_members (btree_insert k v ob)"
  using set_btree_insert [of k v ob] by (auto simp: sorted_btree_insert list_all_iff)

lemma wf_remove [simp]: "wf_members ob \<Longrightarrow> wf_members (map_remove k ob)"
  by (auto simp: map_remove_def list_all_iff sorted_wrt_filter simp flip: filter_map
      intro: sorted_wrt_filter) (induction ob; auto)

lemma wf_map_of: "wf_members ob \<Longrightarrow> map_of ob k = Some v \<Longrightarrow> wf_json v"
  by (auto simp: list_all_iff dest!: map_of_SomeD)

lemma wf_push [simp]: "list_all wf_json items \<Longrightarrow> wf_json item \<Longrightarrow> list_all wf_json (push_new items item)"
  by (simp add: push_new_def)

lemma wf_pushes [simp]:
  "list_all wf_json items \<Longrightarrow> list_all wf_json added \<Longrightarrow> list_all wf_json (foldl push_new items added)"
  by (induction added arbitrary: items) auto

lemma wf_empty [simp]: "wf_members []"
  by simp

declare wf_json.simps(2) [simp del]

lemma wf_foldl_insert:
  "wf_members ob \<Longrightarrow> list_all (\<lambda>m. wf_json (snd m)) added \<Longrightarrow>
   wf_members (foldl (\<lambda>ob (name, item). btree_insert (key ob name) item ob) ob added)"
  by (induction added arbitrary: ob) (auto)

lemma wf_merge [simp]: "wf_members ob \<Longrightarrow> wf_members added \<Longrightarrow> wf_members (merge_members ob added)"
  unfolding merge_members_def by (rule wf_foldl_insert) (simp_all add: wf_json.simps(2))

lemma list_all_filterI: "list_all P xs \<Longrightarrow> list_all P (filter Q xs)"
  by (simp add: list_all_iff)

lemma wf_apply_last:
  assumes "wf_members ob" "pred_option wf_json v" "apply_last kind attribute v ob = Ok ob'"
  shows "wf_members ob'"
proof -
  let ?key = "key_in ob attribute"
  have key: "map_of ob ?key = Some j \<Longrightarrow> wf_json j" for j by (rule wf_map_of [OF assms(1)])
  have array: "list_all wf_json items \<Longrightarrow> wf_members (btree_insert ?key (JArray items) ob)" for items
    using assms(1) by simp
  show ?thesis
  proof (cases kind)
    case Add
    then obtain x where x: "v = Some x" "wf_json x" using assms(2,3) by (cases v) (auto simp: apply_last_def Let_def)
    then show ?thesis
      using Add assms(1,3) key array
      by (auto simp: apply_last_def Let_def split: option.splits json.splits)
  next
    case Replace
    then show ?thesis using assms by (auto simp: apply_last_def split: option.splits)
  next
    case Remove
    then show ?thesis
      using assms key
      by (auto simp: apply_last_def Let_def split: option.splits json.splits intro!: array list_all_filterI)
  qed
qed

lemma wf_lift_value:
  "wf_members ob \<Longrightarrow> lift_value wrap key ob r = Ok ob' \<Longrightarrow> (\<And>x. r = Ok x \<Longrightarrow> wf_json (wrap x)) \<Longrightarrow> wf_members ob'"
  by (auto simp: lift_value_def split: sum.splits)

lemma wf_map_objects:
  "(\<And>ob ob'. wf_members ob \<Longrightarrow> f ob = Ok ob' \<Longrightarrow> wf_members ob') \<Longrightarrow>
   list_all wf_json items \<Longrightarrow> map_objects f items = Ok items' \<Longrightarrow> list_all wf_json items'"
proof (induction f items arbitrary: items' rule: map_objects.induct)
  case (2 f ob items)
  then obtain ob' is' where "f ob = Ok ob'" "map_objects f items = Ok is'" "items' = JObject ob' # is'"
    by (auto split: sum.splits)
  then show ?case using 2 by auto
qed (auto split: sum.splits)

lemma wf_apply_attribute:
  assumes "pred_option wf_json v"
  shows "wf_members ob \<Longrightarrow> apply_attribute kind v parts ob = Ok ob' \<Longrightarrow> wf_members ob'"
proof (induction parts arbitrary: ob ob')
  case (Cons p ps)
  let ?key = "key_in ob p" and ?inside = "apply_attribute kind v ps"
  show ?case
  proof (cases "ps = []")
    case True
    then show ?thesis using Cons.prems assms wf_apply_last by (simp)
  next
    case False
    have object: "wf_members c \<Longrightarrow> lift_value JObject ?key ob (?inside c) = Ok ob' \<Longrightarrow> wf_members ob'" for c
      using wf_lift_value [OF Cons.prems(1)] Cons.IH by blast
    have array: "list_all wf_json items \<Longrightarrow> lift_value JArray ?key ob (map_objects ?inside items) = Ok ob' \<Longrightarrow> wf_members ob'"
      for items
      using wf_lift_value [OF Cons.prems(1), of JArray] wf_map_objects [of ?inside items] Cons.IH
      by (metis wf_json.simps(1))
    have nil: "wf_members ([] :: 'a members)" by simp
    show ?thesis
      using Cons.prems False wf_map_of [OF Cons.prems(1), of ?key]
      by (auto simp: Let_def split: option.splits json.splits if_splits intro: object [OF nil] object array)
  qed
qed simp

text \<open>A filter that was parsed compares with literals only.\<close>

fun literal :: "'n json \<Rightarrow> bool" where
  "literal (JArray _) = False"
| "literal (JObject _) = False"
| "literal _ = True"

fun literal_filter :: "'n filter_expr \<Rightarrow> bool" where
  "literal_filter (Compare path op v) = literal v"
| "literal_filter (Present path) = True"
| "literal_filter (ValuePath a f) = literal_filter f"
| "literal_filter (And l r) = (literal_filter l \<and> literal_filter r)"
| "literal_filter (Or l r) = (literal_filter l \<and> literal_filter r)"
| "literal_filter (Not f) = literal_filter f"

definition literal_parser :: "(token list \<Rightarrow> 'n parsed) \<Rightarrow> bool" where
  "literal_parser p \<longleftrightarrow> (\<forall>ts f rest. p ts = Inr (f, rest) \<longrightarrow> literal_filter f)"

lemma literal_parserD: "literal_parser p \<Longrightarrow> p ts = Inr (f, rest) \<Longrightarrow> literal_filter f"
  by (auto simp: literal_parser_def)

lemma parse_value_literal: "parse_value number ts = Ok (v, rest) \<Longrightarrow> literal v"
  by (auto simp: parse_value_def Let_def split: list.splits token.splits if_splits option.splits)

lemma parse_comparison_literal: "parse_comparison number a ts = Ok (f, rest) \<Longrightarrow> literal_filter f"
  by (auto simp: parse_comparison_def Let_def split: list.splits token.splits if_splits option.splits sum.splits
      dest: parse_value_literal)

lemma parse_term_literal: "literal_parser inner \<Longrightarrow> literal_parser (parse_term number inner)"
  unfolding literal_parser_def parse_term_def
  by (fastforce split: list.splits token.splits if_splits sum.splits prod.splits dest: parse_comparison_literal)

lemma chain_literal:
  "literal_parser operand \<Longrightarrow> (\<And>l r. literal_filter (join l r) = (literal_filter l \<and> literal_filter r)) \<Longrightarrow>
   literal_filter left \<Longrightarrow> chain fuel kw join operand left ts = Inr (f, rest) \<Longrightarrow> literal_filter f"
proof (induction fuel arbitrary: left ts)
  case 0
  then show ?case by (auto simp: chain.simps [of 0] split: if_splits)
next
  case (Suc fuel)
  show ?case
  proof (cases "keyword ts kw")
    case True
    then obtain r rest' where "operand (tl ts) = Inr (r, rest')"
      and "chain fuel kw join operand (join left r) rest' = Inr (f, rest)"
      using Suc.prems(4) by (auto simp: chain.simps [of "Suc fuel"] split: sum.splits prod.splits)
    moreover from this have "literal_filter (join left r)" using Suc.prems(1-3) by (auto simp: literal_parser_def)
    ultimately show ?thesis using Suc.IH [OF Suc.prems(1,2)] by blast
  qed (use Suc.prems in \<open>auto simp: chain.simps [of "Suc fuel"]\<close>)
qed

lemma chained_literal:
  assumes "literal_parser first" "literal_parser operand"
    "\<And>l r. literal_filter (join l r) = (literal_filter l \<and> literal_filter r)"
  shows "literal_parser (\<lambda>ts. case first ts of
     Inl e \<Rightarrow> Err e | Inr (left, rest) \<Rightarrow> chain (length rest) kw join operand left rest)"
  unfolding literal_parser_def
proof (intro allI impI)
  fix ts f rest
  assume "(case first ts of Inl e \<Rightarrow> Err e | Inr (left, rest) \<Rightarrow> chain (length rest) kw join operand left rest) = Inr (f, rest)"
  then obtain l r where "first ts = Inr (l, r)" "chain (length r) kw join operand l r = Inr (f, rest)"
    by (auto split: sum.splits prod.splits)
  then show "literal_filter f" using literal_parserD [OF assms(1)] chain_literal [OF assms(2,3)] by blast
qed

lemma parse_or_literal: "literal_parser (parse_or number levels)"
proof (induction levels)
  case 0
  then show ?case by (simp add: literal_parser_def)
next
  case (Suc levels)
  have "literal_parser (parse_and number (parse_or number levels))"
    unfolding parse_and_def by (intro chained_literal parse_term_literal Suc) simp
  then have "literal_parser (parse_or_inner number (parse_or number levels))"
    unfolding parse_or_inner_def by (intro chained_literal) simp_all
  then show ?case by (simp add: literal_parser_def)
qed

lemma parse_literal: "parse number input = Ok f \<Longrightarrow> literal_filter f"
  by (auto simp: parse_def split: if_splits sum.splits list.splits dest: literal_parserD [OF parse_or_literal])

lemma literal_wf: "literal v \<Longrightarrow> wf_json v"
  by (cases v) auto

lemma wf_seed_loop: "list_all literal_filter fs \<Longrightarrow> wf_members ob \<Longrightarrow> wf_members (seed_loop fs ob)"
  by (induction fs ob rule: seed_loop.induct)
    (auto simp: literal_wf split: list.splits filter_op.splits)

lemma wf_new_element: "literal_filter f \<Longrightarrow> wf_json v \<Longrightarrow> wf_json (new_element f sub v)"
proof -
  assume f: "literal_filter f" and v: "wf_json v"
  have s: "wf_members (seed f)" unfolding seed_def by (rule wf_seed_loop) (use f in simp_all)
  have "wf_members (foldl (\<lambda>ob (name, item). btree_insert name item ob) (seed f) ms)" if "v = JObject ms" for ms
    using wf_foldl_insert [OF s, of ms "\<lambda>_ n. n"] v that by (simp add: wf_json.simps(2))
  then show ?thesis using s v by (simp add: new_element_def split: option.splits json.splits)
qed

lemma wf_set_element: "wf_json item \<Longrightarrow> wf_json v \<Longrightarrow> wf_json (set_element kind sub v item)"
  by (auto simp: set_element_def split: option.splits json.splits)

lemma wf_remove_sub: "wf_json item \<Longrightarrow> wf_json (remove_sub s item)"
  by (auto simp: remove_sub_def split: json.splits)

lemma wf_patch_items:
  assumes "list_all wf_json items" "literal_filter f" "pred_option wf_json v"
    "patch_items matching kind f sub v items = Ok items'"
  shows "list_all wf_json items'"
  using assms wf_new_element [OF assms(2)]
  by (auto simp: patch_items_def list_all_iff wf_set_element wf_remove_sub
      split: patch_kind.splits option.splits if_splits)

lemma wf_apply_value_path:
  assumes "wf_members ob" "literal_filter f" "pred_option wf_json v"
    "apply_value_path lower kind attribute f sub v ob = Ok ob'"
  shows "wf_members ob'"
proof -
  let ?key = "key_in ob attribute"
  let ?mt = "\<lambda>item. element_matches lower item (map ascii_lower attribute) f"
  have lift: "wf_members ob'"
    if "list_all wf_json items" "lift_value JArray ?key ob (patch_items ?mt kind f sub v items) = Ok ob'" for items
  proof (rule wf_lift_value [OF assms(1) that(2)])
    fix x
    assume "patch_items ?mt kind f sub v items = Ok x"
    then show "wf_json (JArray x)" using wf_patch_items [OF that(1) assms(2,3)] by simp
  qed
  show ?thesis
  proof (cases "\<exists>items. map_of ob ?key = Some (JArray items)")
    case True
    then obtain items where i: "map_of ob ?key = Some (JArray items)" by blast
    then have "list_all wf_json items" using wf_map_of [OF assms(1)] by fastforce
    then show ?thesis using lift assms(4) i by (simp add: apply_value_path_def Let_def)
  next
    case False
    then show ?thesis
      using lift [of "[]"] assms(1,4)
      by (auto simp: apply_value_path_def Let_def split: option.splits json.splits if_splits)
  qed
qed

lemma parse_path_literal: "parse_path number raw = Ok (Path_Value a f sub) \<Longrightarrow> literal_filter f"
proof -
  assume "parse_path number raw = Ok (Path_Value a f sub)"
  then obtain inner where "parse number inner = Ok f"
    by (auto simp: parse_path_def Let_def split: option.splits sum.splits list.splits if_splits)
  then show ?thesis by (rule parse_literal)
qed

lemma wf_apply_path:
  assumes "parse_path number raw = Ok path" "wf_members ob" "pred_option wf_json v" "apply_path lower kind path v ob = Ok ob'"
  shows "wf_members ob'"
proof (cases path)
  case (Path_Attribute parts)
  then show ?thesis using assms wf_apply_attribute [OF assms(3,2)] by (simp add: apply_path_def)
next
  case (Path_Value a f sub)
  then have "literal_filter f" using assms(1) parse_path_literal by blast
  then show ?thesis using assms Path_Value wf_apply_value_path [OF assms(2) _ assms(3)] by (simp add: apply_path_def)
qed

lemma wf_apply_members:
  "wf_members ob \<Longrightarrow> list_all (\<lambda>m. wf_json (snd m)) ms \<Longrightarrow> apply_members lower number kind ms ob = Ok ob' \<Longrightarrow> wf_members ob'"
proof (induction lower number kind ms ob rule: apply_members.induct)
  case (2 lower number kind key v ms ob)
  then obtain path ob1 where p: "parse_path number key = Ok path" "apply_path lower kind path (Some v) ob = Ok ob1"
    "apply_members lower number kind ms ob1 = Ok ob'"
    by (auto split: sum.splits)
  have "wf_members ob1" using wf_apply_path [OF p(1) "2.prems"(1) _ p(2)] "2.prems"(2) by simp
  then show ?case using "2.IH" [OF p(1,2)] "2.prems"(2) p(3) by simp
qed simp

lemma wf_apply_operation:
  assumes "wf_members ob" "pred_option wf_json (po_value operation)" "apply_operation lower number operation ob = Ok ob'"
  shows "wf_members ob'"
proof -
  obtain kind where k: "parse_kind (po_op operation) = Ok kind"
    using assms(3) by (auto simp: apply_operation_def split: sum.splits)
  let ?path = "case po_path operation of None \<Rightarrow> [] | Some p \<Rightarrow> str_trim p"
  show ?thesis
  proof (cases "?path = []")
    case True
    then obtain ms where "po_value operation = Some (JObject ms)" "apply_members lower number kind ms ob = Ok ob'"
      using assms(3) k by (auto simp: apply_operation_def Let_def split: if_splits option.splits json.splits)
    moreover from this have "list_all (\<lambda>m. wf_json (snd m)) ms" using assms(2) by (simp add: wf_json.simps(2))
    ultimately show ?thesis using wf_apply_members [OF assms(1)] by blast
  next
    case False
    then obtain path where p: "parse_path number ?path = Ok path" "apply_path lower kind path (po_value operation) ob = Ok ob'"
      using assms(3) k by (auto simp: apply_operation_def Let_def split: sum.splits)
    show ?thesis by (rule wf_apply_path [OF p(1) assms(1,2) p(2)])
  qed
qed

lemma wf_apply_operations:
  "wf_members ob \<Longrightarrow> list_all (\<lambda>operation. pred_option wf_json (po_value operation)) ops \<Longrightarrow>
   apply_operations lower number ops ob = Ok ob' \<Longrightarrow> wf_members ob'"
proof (induction lower number ops ob rule: apply_operations.induct)
  case (2 lower number operation ops ob)
  then obtain ob1 where o: "apply_operation lower number operation ob = Ok ob1" "apply_operations lower number ops ob1 = Ok ob'"
    by (auto split: sum.splits)
  then show ?case using "2.IH" [OF o(1)] "2.prems" wf_apply_operation [OF "2.prems"(1) _ o(1)] by simp
qed simp

section \<open>Properties\<close>

lemma str_trim_idem [simp]: "str_trim (str_trim s) = str_trim s"
proof -
  define u where "u = dropWhile is_whitespace s"
  define t where "t = rev (dropWhile is_whitespace (rev u))"
  have trim: "str_trim s = t" by (simp add: str_trim_def t_def u_def)
  obtain w where u: "u = t @ w"
    unfolding t_def by (metis rev_append rev_rev_ident takeWhile_dropWhile_id)
  have "dropWhile is_whitespace t = t"
  proof (cases t)
    case (Cons c cs)
    then have "u \<noteq> []" "hd u = c" using u by auto
    then have "\<not> is_whitespace c" using hd_dropWhile [of is_whitespace s] u_def by auto
    then show ?thesis using Cons by simp
  qed simp
  moreover have "rev (dropWhile is_whitespace (rev t)) = t" by (simp add: t_def)
  ultimately show ?thesis using trim by (simp add: str_trim_def)
qed

lemma strip_urn_trim [simp]: "strip_urn (str_trim raw) = strip_urn raw"
  by (simp add: strip_urn_def)

lemma split_lower: "map (map ascii_lower) (str_split 46 s) = str_split 46 (map ascii_lower s)"
proof (induction s)
  case (Cons c s)
  have "ascii_lower c = 46 \<longleftrightarrow> c = 46" by (simp add: ascii_lower_def)
  then show ?case using Cons by (cases "str_split 46 s"; cases "str_split 46 (map ascii_lower s)") auto
qed simp

text \<open>C24: A patch changes the attributes its operations name and nothing else: whatever the operations are, a
  member of the resource that no path of the request names, in any case, has the same value afterwards.\<close>

theorem patch_keeps_other_attributes:
  assumes "apply_patch lower number operations (JObject object) = Ok (JObject patched)"
    and "\<not> list_ex (operation_names number name) operations"
  shows "map_of patched name = map_of object name"
  using assms apply_operations_frame by (auto simp: apply_patch_def split: sum.splits)

definition witness_user :: "nat members" where
  "witness_user = [(lit ''active'', JBool True), (lit ''id'', JNumber 7),
     (lit ''name'', JObject [(lit ''givenName'', JString (lit ''Ada''))])]"

definition witness_replace :: "nat patch_operation" where
  "witness_replace = \<lparr>po_op = lit ''Replace'', po_path = Some (lit ''NAME.givenname''), po_value = Some (JString (lit ''Eve''))\<rparr>"

definition witness_patched :: "nat members" where
  "witness_patched = [(lit ''active'', JBool True), (lit ''id'', JNumber 7),
     (lit ''name'', JObject [(lit ''givenName'', JString (lit ''Eve''))])]"

lemmas patch_simps = apply_patch_def apply_operation_def parse_kind_def parse_path_def split_once_def apply_path_def
  apply_last_def lift_value_def key_in_def strip_urn_def str_trim_def is_whitespace_def str_len_def utf8_len_def
  eq_ignore_ascii_case_def ascii_lower_def Let_def

lemma witness_parse:
  "parse_path (\<lambda>_. None :: nat option) (lit ''NAME.givenname'') = Ok (Path_Attribute [lit ''NAME'', lit ''givenname''])"
  by (simp add: patch_simps)

lemma witness_apply:
  "apply_patch id (\<lambda>_. None) [witness_replace] (JObject witness_user) = Ok (JObject witness_patched)"
  by (simp add: witness_replace_def witness_user_def witness_patched_def patch_simps)

theorem patch_keeps_other_attributes_witness: "map_of witness_patched (lit ''id'') = Some (JNumber 7)"
  using patch_keeps_other_attributes [OF witness_apply, of "lit ''id''"]
  by (simp add: operation_names_def path_names_def witness_replace_def patch_simps witness_user_def)



text \<open>What a replace writes, a filter finds. After replacing the attribute at a path without arrays by a
  string, number, boolean or null, the filter that compares the same path text with that value matches
  the resource, whichever case the path is written in and whatever stood there before.\<close>

theorem replaced_value_is_found:
  assumes "apply_patch lower number
      [\<lparr>po_op = lit ''replace'', po_path = Some raw, po_value = Some v\<rparr>] (JObject object) = Ok patched"
    and "parse_path number raw = Ok (Path_Attribute parts)" "direct parts object" "literal v"
  shows "matches lower patched (Compare (split_path raw) Op_Eq v)"
proof -
  have parts: "parts = str_split 46 (strip_urn raw)" "str_trim raw \<noteq> []"
    using assms(2) by (auto simp: parse_path_def Let_def split: option.splits sum.splits list.splits if_splits)
  have same: "parse_path number (str_trim raw) = parse_path number raw" by (simp add: parse_path_def)
  obtain ob where ob: "patched = JObject ob" "apply_attribute Replace (Some v) parts object = Ok ob"
    using assms(1,2) parts(2) same
    by (auto simp: apply_patch_def apply_operation_def parse_kind_def ascii_lower_def Let_def apply_path_def split: sum.splits)
  have "values_at patched (split_path raw) = flatten v"
    using replace_value_read [OF ob(2) assms(3)] ob(1) parts(1)
    by (simp add: split_path_def attribute_key_def split_lower)
  moreover have "flatten v = [v]" "compare lower v Op_Eq v e" for e
    using assms(4) by (cases v; simp add: flatten_def compare_def)+
  ultimately show ?thesis by (simp add: matches_def Let_def)
qed

theorem replaced_value_is_found_witness:
  "matches id (JObject witness_patched) (Compare [lit ''name'', lit ''givenname''] Op_Eq (JString (lit ''Eve'')))"
proof -
  have "matches id (JObject witness_patched) (Compare (split_path (lit ''NAME.givenname'')) Op_Eq (JString (lit ''Eve'')))"
    by (rule replaced_value_is_found [OF _ witness_parse, of id "JString (lit ''Eve'')" witness_user])
      (simp_all add: witness_user_def witness_patched_def patch_simps)
  then show ?thesis by (simp add: split_path_def attribute_key_def strip_urn_def str_trim_def is_whitespace_def
        str_len_def utf8_len_def eq_ignore_ascii_case_def ascii_lower_def)
qed

end
