(* ===== verification/Utf8.thy ===== *)
theory Utf8
  imports Rust_Strings
begin

text \<open>
  UTF-8 as the Rust standard library has it: \<open>str::as_bytes\<close>, \<open>String::from_utf8\<close>, which refuses
  every ill-formed sequence, and \<open>String::from_utf8_lossy\<close>, which replaces each maximal ill-formed
  prefix by U+FFFD. A \<open>char\<close> is a Unicode scalar value, so a string of the program satisfies
  \<open>scalar_string\<close>.
\<close>

definition scalar_char :: "rust_char \<Rightarrow> bool" where
  "scalar_char c \<longleftrightarrow> c < 0xD800 \<or> (0xE000 \<le> c \<and> c < 0x110000)"

definition scalar_string :: "rust_string \<Rightarrow> bool" where
  "scalar_string s = list_all scalar_char s"

definition utf8_char :: "rust_char \<Rightarrow> nat list" where
  "utf8_char c =
     (if c < 0x80 then [c]
      else if c < 0x800 then [0xC0 + c div 64, 0x80 + c mod 64]
      else if c < 0x10000 then [0xE0 + c div 4096, 0x80 + c div 64 mod 64, 0x80 + c mod 64]
      else [0xF0 + c div 262144, 0x80 + c div 4096 mod 64, 0x80 + c div 64 mod 64, 0x80 + c mod 64])"

definition as_bytes :: "rust_string \<Rightarrow> bytes" where
  "as_bytes s = map word_of_nat (concat (map utf8_char s))"

definition continuation :: "nat \<Rightarrow> bool" where
  "continuation b \<longleftrightarrow> 0x80 \<le> b \<and> b < 0xC0"

definition byte_at :: "nat list \<Rightarrow> nat \<Rightarrow> nat" where
  "byte_at bs i = (if i < length bs then bs ! i else 0)"

text \<open>The first character with the bytes it takes, or the length of the ill-formed prefix.\<close>

definition second_of_three :: "nat \<Rightarrow> nat \<Rightarrow> bool" where
  "second_of_three b0 b1 \<longleftrightarrow>
     (if b0 = 0xE0 then 0xA0 \<le> b1 \<and> b1 < 0xC0 else if b0 = 0xED then 0x80 \<le> b1 \<and> b1 < 0xA0 else continuation b1)"

definition second_of_four :: "nat \<Rightarrow> nat \<Rightarrow> bool" where
  "second_of_four b0 b1 \<longleftrightarrow>
     (if b0 = 0xF0 then 0x90 \<le> b1 \<and> b1 < 0xC0 else if b0 = 0xF4 then 0x80 \<le> b1 \<and> b1 < 0x90 else continuation b1)"

definition utf8_next :: "nat list \<Rightarrow> rust_char option \<times> nat" where
  "utf8_next bs =
     (let b0 = byte_at bs 0; b1 = byte_at bs 1; b2 = byte_at bs 2; b3 = byte_at bs 3 in
      if b0 < 0x80 then (Some b0, 1)
      else if 0xC2 \<le> b0 \<and> b0 < 0xE0 then
        (if continuation b1 then (Some ((b0 - 0xC0) * 64 + (b1 - 0x80)), 2) else (None, 1))
      else if 0xE0 \<le> b0 \<and> b0 < 0xF0 then
        (if \<not> second_of_three b0 b1 then (None, 1)
         else if continuation b2
         then (Some ((b0 - 0xE0) * 4096 + (b1 - 0x80) * 64 + (b2 - 0x80)), 3) else (None, 2))
      else if 0xF0 \<le> b0 \<and> b0 < 0xF5 then
        (if \<not> second_of_four b0 b1 then (None, 1)
         else if \<not> continuation b2 then (None, 2)
         else if continuation b3
         then (Some ((b0 - 0xF0) * 262144 + (b1 - 0x80) * 4096 + (b2 - 0x80) * 64 + (b3 - 0x80)), 4)
         else (None, 3))
      else (None, 1))"

lemma utf8_next_pos: "0 < snd (utf8_next bs)"
  by (simp add: utf8_next_def Let_def)

function utf8_decode :: "nat list \<Rightarrow> rust_char option list" where
  "utf8_decode bs =
     (if bs = [] then []
      else (case utf8_next bs of (c, n) \<Rightarrow> c # utf8_decode (drop n bs)))"
  by pat_completeness auto
termination
  using utf8_next_pos by (relation "measure length") (auto, metis diff_less length_greater_0_conv snd_conv)

declare utf8_decode.simps [simp del]

definition from_utf8 :: "bytes \<Rightarrow> rust_string option" where
  "from_utf8 bs = those (utf8_decode (map unat bs))"

definition from_utf8_lossy :: "bytes \<Rightarrow> rust_string" where
  "from_utf8_lossy bs =
     map (\<lambda>c. case c of None \<Rightarrow> 0xFFFD | Some x \<Rightarrow> x) (utf8_decode (map unat bs))"

section \<open>Lemmas\<close>

lemma byte_at_simps [simp]:
  "byte_at (b # bs) 0 = b" "byte_at (b # bs) (Suc i) = byte_at bs i"
  "byte_at (b # bs) 1 = byte_at bs 0" "byte_at (b # bs) 2 = byte_at bs 1" "byte_at (b # bs) 3 = byte_at bs 2"
  by (simp_all add: byte_at_def)

lemma utf8_next_two:
  "2 \<le> a \<Longrightarrow> a < 32 \<Longrightarrow> b < 64 \<Longrightarrow> utf8_next ([0xC0 + a, 0x80 + b] @ bs) = (Some (a * 64 + b), 2)"
  by (simp add: utf8_next_def continuation_def)

lemma utf8_next_three:
  assumes "a < 16" "b < 64" "d < 64" "a = 0 \<longrightarrow> 32 \<le> b" "a = 13 \<longrightarrow> b < 32"
  shows "utf8_next ([0xE0 + a, 0x80 + b, 0x80 + d] @ bs) = (Some (a * 4096 + b * 64 + d), 3)"
  using assms by (auto simp: utf8_next_def continuation_def second_of_three_def Let_def)

lemma utf8_next_four:
  assumes "a < 5" "b < 64" "d < 64" "e < 64" "a = 0 \<longrightarrow> 16 \<le> b" "a = 4 \<longrightarrow> b < 16"
  shows "utf8_next ([0xF0 + a, 0x80 + b, 0x80 + d, 0x80 + e] @ bs)
    = (Some (a * 262144 + b * 4096 + d * 64 + e), 4)"
  using assms by (auto simp: utf8_next_def continuation_def second_of_four_def Let_def)

text \<open>The digits of a code point to base 64.\<close>

lemma base64_digits:
  fixes c :: nat
  shows "c div 64 * 64 + c mod 64 = c"
    "c div 4096 * 4096 + c div 64 mod 64 * 64 + c mod 64 = c"
    "c div 262144 * 262144 + c div 4096 mod 64 * 4096 + c div 64 mod 64 * 64 + c mod 64 = c"
proof -
  have d: "c div 4096 = c div 64 div 64" "c div 262144 = c div 4096 div 64"
    using div_mult2_eq [of c 64 64] div_mult2_eq [of c 4096 64] by simp_all
  have e: "n div 64 * 64 + n mod 64 = n" for n :: nat by simp
  show "c div 64 * 64 + c mod 64 = c" by (rule e)
  show two: "c div 4096 * 4096 + c div 64 mod 64 * 64 + c mod 64 = c"
    using e [of c] e [of "c div 64"] d(1) by linarith
  show "c div 262144 * 262144 + c div 4096 mod 64 * 4096 + c div 64 mod 64 * 64 + c mod 64 = c"
    using two e [of "c div 4096"] d(2) by linarith
qed

lemma utf8_next_char:
  assumes "scalar_char c"
  shows "utf8_next (utf8_char c @ bs) = (Some c, length (utf8_char c))"
proof -
  have lt: "c mod 64 < 64" "c div 64 mod 64 < 64" "c div 4096 mod 64 < 64" by simp_all
  consider (one) "c < 0x80" | (two) "0x80 \<le> c" "c < 0x800" | (three) "0x800 \<le> c" "c < 0x10000"
    | (four) "0x10000 \<le> c" by linarith
  then show ?thesis
  proof cases
    case one
    then show ?thesis by (simp add: utf8_char_def utf8_next_def)
  next
    case two
    then have "2 \<le> c div 64" "c div 64 < 32" using base64_digits(1) [of c] lt by linarith+
    then show ?thesis
      using two utf8_next_two [of "c div 64" "c mod 64" bs] by (simp add: utf8_char_def base64_digits(1))
  next
    case three
    note d = base64_digits(2) [of c]
    have "c div 4096 < 16" "c div 4096 = 0 \<longrightarrow> 32 \<le> c div 64 mod 64" using three d lt by linarith+
    moreover have "c div 4096 = 13 \<longrightarrow> c div 64 mod 64 < 32"
      using assms d lt unfolding scalar_char_def by linarith
    ultimately have "utf8_next ([0xE0 + c div 4096, 0x80 + c div 64 mod 64, 0x80 + c mod 64] @ bs)
        = (Some (c div 4096 * 4096 + c div 64 mod 64 * 64 + c mod 64), 3)"
      by (intro utf8_next_three) simp_all
    then show ?thesis using three d by (simp add: utf8_char_def)
  next
    case four
    note d = base64_digits(3) [of c]
    have "c < 0x110000" using assms four by (auto simp: scalar_char_def)
    then have "c div 262144 < 5" "c div 262144 = 0 \<longrightarrow> 16 \<le> c div 4096 mod 64"
      "c div 262144 = 4 \<longrightarrow> c div 4096 mod 64 < 16"
      using four d lt by linarith+
    then have "utf8_next ([0xF0 + c div 262144, 0x80 + c div 4096 mod 64, 0x80 + c div 64 mod 64, 0x80 + c mod 64] @ bs)
        = (Some (c div 262144 * 262144 + c div 4096 mod 64 * 4096 + c div 64 mod 64 * 64 + c mod 64), 4)"
      by (intro utf8_next_four) simp_all
    then show ?thesis using four d by (simp add: utf8_char_def)
  qed
qed

lemma utf8_char_nonempty: "utf8_char c \<noteq> []"
  by (simp add: utf8_char_def)

lemma utf8_decode_encode:
  "scalar_string s \<Longrightarrow> utf8_decode (concat (map utf8_char s)) = map Some s"
proof (induction s)
  case (Cons c s)
  have ne: "utf8_char c @ concat (map utf8_char s) \<noteq> []" using utf8_char_nonempty by simp
  have "scalar_char c" "scalar_string s" using Cons.prems by (auto simp: scalar_string_def)
  then show ?case
    using Cons.IH ne utf8_next_char by (simp add: utf8_decode.simps [of "utf8_char c @ concat (map utf8_char s)"])
qed (simp add: utf8_decode.simps)

lemma utf8_char_byte: "scalar_char c \<Longrightarrow> b \<in> set (utf8_char c) \<Longrightarrow> b < 256"
  by (auto simp: utf8_char_def scalar_char_def split: if_splits)

lemma map_unat_as_bytes: "scalar_string s \<Longrightarrow> map unat (as_bytes s) = concat (map utf8_char s)"
proof -
  assume s: "scalar_string s"
  have "\<forall>b \<in> set (concat (map utf8_char s)). unat (word_of_nat b :: byte) = b"
    using s utf8_char_byte by (auto simp: scalar_string_def list_all_iff unat_of_nat)
  then have "map (\<lambda>b. unat (word_of_nat b :: byte)) (concat (map utf8_char s)) = concat (map utf8_char s)"
    by (intro map_idI) blast
  then show ?thesis by (simp only: as_bytes_def map_map comp_def)
qed

lemma those_Some: "those (map Some xs) = Some xs"
  by (induction xs) auto

lemma from_utf8_as_bytes: "scalar_string s \<Longrightarrow> from_utf8 (as_bytes s) = Some s"
  by (simp add: from_utf8_def map_unat_as_bytes utf8_decode_encode those_Some)

lemma from_utf8_lossy_as_bytes: "scalar_string s \<Longrightarrow> from_utf8_lossy (as_bytes s) = s"
  by (simp add: from_utf8_lossy_def map_unat_as_bytes utf8_decode_encode comp_def)

lemma length_as_bytes: "length (as_bytes s) = str_len s"
proof -
  have "length (utf8_char c) = utf8_len c" for c by (simp add: utf8_char_def utf8_len_def)
  then show ?thesis by (simp add: as_bytes_def str_len_def length_concat comp_def)
qed

lemma scalar_string_Nil [simp]: "scalar_string []"
  and scalar_string_Cons [simp]: "scalar_string (c # s) \<longleftrightarrow> scalar_char c \<and> scalar_string s"
  by (simp_all add: scalar_string_def)

interpretation utf8: codec as_bytes from_utf8 scalar_string
  by unfold_locales (rule from_utf8_as_bytes)

end
