(* ===== verification/Byte_Pipe.thy ===== *)
theory Byte_Pipe
  imports Utf8 "HOL-Library.Sublist"
begin

text \<open>
  Byte pipes as the code uses them through \<open>impl Read\<close> and \<open>impl Write\<close>. A reader takes the bytes
  that have arrived and returns a value with what is left, or an error; \<open>read_exact\<close> reports
  \<open>Unexpected_Eof\<close> when too little has arrived. A writer returns the bytes it has put into the pipe,
  also when it fails half-way; the pipe itself accepts every byte. Error values keep their
  \<open>io::ErrorKind\<close>, not the message. \<open>framing\<close> is the interface between the two ends: what is
  written is read back, and more bytes never change what was read.
\<close>

datatype io_error = Unexpected_Eof | Invalid_Data | Io_Other

type_synonym 'a reader = "bytes \<Rightarrow> io_error + 'a \<times> bytes"
type_synonym written = "bytes \<times> (io_error + unit)"

definition rpure :: "'a \<Rightarrow> 'a reader" where
  "rpure v bs = Ok (v, bs)"

definition rfail :: "io_error \<Rightarrow> 'a reader" where
  "rfail e bs = Err e"

definition rbind :: "'a reader \<Rightarrow> ('a \<Rightarrow> 'b reader) \<Rightarrow> 'b reader" where
  "rbind r f bs = (case r bs of Inl e \<Rightarrow> Err e | Inr (v, rest) \<Rightarrow> f v rest)"

definition rlift :: "io_error + 'a \<Rightarrow> 'a reader" where
  "rlift x bs = (case x of Inl e \<Rightarrow> Err e | Inr v \<Rightarrow> Ok (v, bs))"

definition read_exact :: "nat \<Rightarrow> bytes reader" where
  "read_exact n bs = (if length bs < n then Err Unexpected_Eof else Ok (take n bs, drop n bs))"

definition write_all :: "bytes \<Rightarrow> written" where
  "write_all bs = (bs, Ok ())"

definition wcheck :: "io_error + unit \<Rightarrow> written" where
  "wcheck r = ([], r)"

text \<open>Writes in order, up to the first that fails (\<open>?\<close> and \<open>and_then\<close>).\<close>

fun write_seq :: "written list \<Rightarrow> written" where
  "write_seq [] = ([], Ok ())"
| "write_seq ((bs, Inl e) # ws) = (bs, Err e)"
| "write_seq ((bs, Inr u) # ws) = (case write_seq ws of (cs, r) \<Rightarrow> (bs @ cs, r))"

section \<open>Little-endian integers\<close>

definition le_bytes :: "nat \<Rightarrow> nat \<Rightarrow> bytes" where
  "le_bytes n x = rev (be_bytes n x)"

definition le_nat :: "bytes \<Rightarrow> nat" where
  "le_nat bs = be_nat (rev bs)"

lemma length_le_bytes [simp]: "length (le_bytes n x) = n"
  by (simp add: le_bytes_def)

lemma le_nat_le_bytes: "le_nat (le_bytes n x) = x mod 256 ^ n"
  by (simp add: le_bytes_def le_nat_def be_nat_be_bytes)

section \<open>Stable readers\<close>

text \<open>A reader is stable when bytes that arrive later do not change its answer, unless it asked for more.\<close>

definition stable :: "'a reader \<Rightarrow> bool" where
  "stable r \<longleftrightarrow>
     (\<forall>bs more. case r bs of
        Inr (v, rest) \<Rightarrow> r (bs @ more) = Ok (v, rest @ more)
      | Inl e \<Rightarrow> e = Unexpected_Eof \<or> r (bs @ more) = Err e)"

lemma stableD:
  assumes "stable r"
  shows "r bs = Ok (v, rest) \<Longrightarrow> r (bs @ more) = Ok (v, rest @ more)"
    "r bs = Err e \<Longrightarrow> e \<noteq> Unexpected_Eof \<Longrightarrow> r (bs @ more) = Err e"
proof -
  have s: "case r bs of
      Inr (v, rest) \<Rightarrow> r (bs @ more) = Ok (v, rest @ more)
    | Inl e \<Rightarrow> e = Unexpected_Eof \<or> r (bs @ more) = Err e"
    using assms unfolding stable_def by blast
  show "r bs = Ok (v, rest) \<Longrightarrow> r (bs @ more) = Ok (v, rest @ more)"
    "r bs = Err e \<Longrightarrow> e \<noteq> Unexpected_Eof \<Longrightarrow> r (bs @ more) = Err e"
    using s by simp_all
qed

named_theorems stable_intro \<open>stable readers\<close>

lemma stable_pure [stable_intro]: "stable (rpure v)"
  by (simp add: stable_def rpure_def)

lemma stable_fail [stable_intro]: "stable (rfail e)"
  by (simp add: stable_def rfail_def)

lemma stable_lift [stable_intro]: "stable (rlift x)"
  by (simp add: stable_def rlift_def split: sum.splits)

lemma stable_read_exact [stable_intro]: "stable (read_exact n)"
  by (auto simp: stable_def read_exact_def)

lemma stable_bind [stable_intro]:
  assumes "stable r" "\<And>v. stable (f v)"
  shows "stable (rbind r f)"
  unfolding stable_def
proof (intro allI)
  fix bs more
  show "case rbind r f bs of
      Inr (v, rest) \<Rightarrow> rbind r f (bs @ more) = Ok (v, rest @ more)
    | Inl e \<Rightarrow> e = Unexpected_Eof \<or> rbind r f (bs @ more) = Err e"
  proof (cases "r bs")
    case (Inl e)
    then show ?thesis
      using stableD(2) [OF assms(1) Inl, of more] by (cases "e = Unexpected_Eof") (simp_all add: rbind_def)
  next
    case (Inr p)
    obtain v rest where p: "p = (v, rest)" by (cases p)
    then have "r (bs @ more) = Ok (v, rest @ more)" using stableD(1) [OF assms(1)] Inr by simp
    then have "rbind r f bs = f v rest" "rbind r f (bs @ more) = f v (rest @ more)"
      using Inr p by (simp_all add: rbind_def)
    moreover have "case f v rest of
        Inr (w, left) \<Rightarrow> f v (rest @ more) = Ok (w, left @ more)
      | Inl e \<Rightarrow> e = Unexpected_Eof \<or> f v (rest @ more) = Err e"
      using assms(2) [of v] unfolding stable_def by blast
    ultimately show ?thesis by (simp only:)
  qed
qed

lemma stable_if [stable_intro]: "stable r \<Longrightarrow> stable s \<Longrightarrow> stable (if b then r else s)"
  by simp

lemma stable_option [stable_intro]:
  "stable r \<Longrightarrow> (\<And>v. stable (f v)) \<Longrightarrow> stable (case x of None \<Rightarrow> r | Some v \<Rightarrow> f v)"
  by (cases x) auto

section \<open>Framing\<close>

fun read_many :: "'m reader \<Rightarrow> nat \<Rightarrow> 'm list reader" where
  "read_many r 0 = rpure []"
| "read_many r (Suc n) = rbind r (\<lambda>m. rbind (read_many r n) (\<lambda>ms. rpure (m # ms)))"

lemma stable_read_many [stable_intro]: "stable r \<Longrightarrow> stable (read_many r n)"
  by (induction n) (auto intro!: stable_intro)

text \<open>The pipe as a state machine, and the queue of messages it stands for.\<close>

datatype 'm pipe_op = Send 'm | Receive

datatype 'm pipe_answer = Sent "io_error + unit" | Received "io_error + 'm"

fun pipe_step ::
    "('m \<Rightarrow> written) \<Rightarrow> 'm reader \<Rightarrow> bytes \<Rightarrow> 'm pipe_op \<Rightarrow> bytes \<times> 'm pipe_answer" where
  "pipe_step w r pipe (Send m) = (pipe @ fst (w m), Sent (snd (w m)))"
| "pipe_step w r pipe Receive =
     (case r pipe of Inl e \<Rightarrow> (pipe, Received (Err e)) | Inr (m, rest) \<Rightarrow> (rest, Received (Ok m)))"

fun queue_step :: "'m list \<Rightarrow> 'm pipe_op \<Rightarrow> 'm list \<times> 'm pipe_answer" where
  "queue_step q (Send m) = (q @ [m], Sent (Ok ()))"
| "queue_step [] Receive = ([], Received (Err Unexpected_Eof))"
| "queue_step (m # q) Receive = (q, Received (Ok m))"

fun sendable :: "('m \<Rightarrow> bool) \<Rightarrow> 'm pipe_op \<Rightarrow> bool" where
  "sendable ok (Send m) = ok m"
| "sendable ok Receive = True"

locale framing =
  fixes wr :: "'m \<Rightarrow> written"
    and rd :: "'m reader"
    and ok :: "'m \<Rightarrow> bool"
  assumes wr_ok: "ok m \<Longrightarrow> snd (wr m) = Ok ()"
    and rd_wr: "ok m \<Longrightarrow> rd (fst (wr m) @ rest) = Ok (m, rest)"
    and rd_stable: "stable rd"
    and rd_empty: "rd [] = Err Unexpected_Eof"
begin

lemma read_many_written:
  "list_all ok ms \<Longrightarrow> read_many rd (length ms) (concat (map (\<lambda>m. fst (wr m)) ms) @ rest) = Ok (ms, rest)"
  by (induction ms) (auto simp: rpure_def rbind_def rd_wr)

text \<open>A message that has not arrived completely is not read, whatever part of it has arrived.\<close>

lemma truncated:
  assumes "ok m" "fst (wr m) = bs @ missing" "missing \<noteq> []"
  shows "rd bs = Err Unexpected_Eof"
proof (cases "rd bs")
  case (Inl e)
  then show ?thesis
    using stableD(2) [OF rd_stable Inl, of missing] rd_wr [OF assms(1), of "[]"] assms(2) by fastforce
next
  case (Inr p)
  obtain v rest where "p = (v, rest)" by (cases p)
  then have "rd (bs @ missing) = Ok (v, rest @ missing)" using stableD(1) [OF rd_stable] Inr by blast
  then show ?thesis using rd_wr [OF assms(1), of "[]"] assms(2,3) by simp
qed

lemma prefix_free:
  assumes "ok m" "ok m'" "fst (wr m') = fst (wr m) @ more"
  shows "m' = m \<and> more = []"
  using rd_wr [OF assms(1), of more] rd_wr [OF assms(2), of "[]"] assms(3) by simp

text \<open>Whatever part of a stream of messages has arrived: the reader returns the first messages, in order,
  and then asks for more.\<close>

lemma read_stream_prefix:
  "list_all ok ms \<Longrightarrow> prefix bs (concat (map (\<lambda>m. fst (wr m)) ms)) \<Longrightarrow>
   \<exists>n rest. n \<le> length ms \<and> read_many rd n bs = Ok (take n ms, rest) \<and> rd rest = Err Unexpected_Eof"
proof (induction ms arbitrary: bs)
  case Nil
  then show ?case by (intro exI [of _ 0] exI [of _ "[]"]) (simp add: rpure_def rd_empty)
next
  case (Cons m ms)
  then have m: "ok m" and ms: "list_all ok ms" and p: "prefix bs (fst (wr m) @ concat (map (\<lambda>m. fst (wr m)) ms))"
    by simp_all
  from p consider (part) "prefix bs (fst (wr m))" "bs \<noteq> fst (wr m)"
    | (all) cs where "bs = fst (wr m) @ cs" "prefix cs (concat (map (\<lambda>m. fst (wr m)) ms))"
    by (cases "bs = fst (wr m)") (metis append_Nil2 Nil_prefix, auto simp: prefix_append)
  then show ?case
  proof cases
    case part
    then obtain missing where "fst (wr m) = bs @ missing" "missing \<noteq> []" by (auto simp: prefix_def)
    then show ?thesis using truncated [OF m] by (intro exI [of _ 0] exI [of _ bs]) (simp add: rpure_def)
  next
    case all
    then obtain n rest where "n \<le> length ms" "read_many rd n cs = Ok (take n ms, rest)" "rd rest = Err Unexpected_Eof"
      using Cons.IH ms by blast
    then show ?thesis
      using all(1) rd_wr [OF m] by (intro exI [of _ "Suc n"] exI [of _ rest]) (simp add: rbind_def rpure_def)
  qed
qed

definition holds :: "bytes \<Rightarrow> 'm list \<Rightarrow> bool" where
  "holds pipe q \<longleftrightarrow> list_all ok q \<and> pipe = concat (map (\<lambda>m. fst (wr m)) q)"

lemma holds_step:
  assumes "holds pipe q" "sendable ok i"
  shows "holds (fst (pipe_step wr rd pipe i)) (fst (queue_step q i))
    \<and> snd (pipe_step wr rd pipe i) = snd (queue_step q i)"
proof (cases i)
  case (Send m)
  then show ?thesis using assms by (auto simp: holds_def wr_ok)
next
  case Receive
  then show ?thesis using assms by (cases q) (auto simp: holds_def rd_wr rd_empty)
qed

end

sublocale framing \<subseteq> pipe: simulation "pipe_step wr rd" queue_step holds "sendable ok"
  by unfold_locales (use holds_step in blast)+

context framing
begin

text \<open>The pipe refines a queue of messages.\<close>

lemma pipe_refines_queue:
  assumes "list_all (sendable ok) ops"
  shows "snd (run (pipe_step wr rd) [] ops) = snd (run queue_step [] ops)"
  by (rule pipe.run_output [OF _ assms]) (simp add: holds_def)

end

end
