(* ===== verification/Helper_Wire.thy ===== *)
theory Helper_Wire
  imports Byte_Pipe Clipboard
begin

text \<open>
  The pipes between the Agent service and its desktop helpers
  (\<open>agent/src/remote/capture_helper/wire.rs\<close>, with the message types of \<open>capture_helper.rs\<close>): every
  command and event, its framing and its limits. The postcard and JSON functions of the wire are a
  record of parameters. \<open>i32\<close> coordinates are kept as their 32-bit patterns.
\<close>

section \<open>Limits and message types\<close>

definition MAX_CODEC_CONFIG_BYTES :: nat where "MAX_CODEC_CONFIG_BYTES = 1024 * 1024"

definition MAX_FRAME_BYTES :: nat where "MAX_FRAME_BYTES = 32 * 1024 * 1024"

definition MAX_ERROR_BYTES :: nat where "MAX_ERROR_BYTES = 64 * 1024"

definition MAX_CONTROL_BYTES :: nat where "MAX_CONTROL_BYTES = 64 * 1024"

definition MAX_DISPLAY_NAME_BYTES :: nat where "MAX_DISPLAY_NAME_BYTES = 4 * 1024"

definition MAX_DISPLAYS :: nat where "MAX_DISPLAYS = 64"

definition NO_DISPLAY :: u32 where "NO_DISPLAY = - 1"

definition THUMBNAIL_MAX_BYTES :: nat where "THUMBNAIL_MAX_BYTES = 512 * 1024"

record headless_target =
  ht_adapter_low :: u32
  ht_adapter_high :: u32
  ht_target_id :: u32
  ht_resolution :: headless_resolution

record active_format =
  af_width :: u32
  af_height :: u32
  af_frames_per_second :: u32
  af_bitrate_bits_per_second :: u32
  af_codec :: codec_kind
  af_pixel_format :: chroma_mode

record encoded_access_unit =
  au_capture_timestamp_us :: u64
  au_encode_complete_timestamp_us :: u64
  au_keyframe :: bool
  au_codec_config :: "bytes option"
  au_data :: bytes

record started_desktop =
  sd_format :: active_format
  sd_displays :: "display list"
  sd_active_display :: display

record credential_result =
  cr_encrypted :: "bytes option"
  cr_message :: rust_string

datatype decision = Accepted | Declined | TimedOut | LockedAndIdle

fun decision_to_byte :: "decision \<Rightarrow> u8" where
  "decision_to_byte Accepted = 0"
| "decision_to_byte Declined = 1"
| "decision_to_byte TimedOut = 2"
| "decision_to_byte LockedAndIdle = 3"

definition decision_from_byte :: "u8 \<Rightarrow> decision option" where
  "decision_from_byte b =
     (if b = 0 then Some Accepted else if b = 1 then Some Declined else if b = 2 then Some TimedOut
      else if b = 3 then Some LockedAndIdle else None)"

datatype parent_command =
    PC_PromptCredentials
  | PC_AutofillCredentials bytes
  | PC_EnumerateDisplays
  | PC_CaptureThumbnail
  | PC_StartFiles
  | PC_StartClipboard
  | PC_StartChatHelper rust_string bool
  | PC_ShowConnectionNotification rust_string
  | PC_PromptConnectionApproval rust_string rust_string u32 u32
  | PC_Files file_message
  | PC_Start rust_string "display_id option" u32 u32 codec_kind chroma_mode bool bool "headless_target option"
  | PC_RequestKeyframe
  | PC_SetBitrate u32
  | PC_SetCursorCapture bool
  | PC_SetDisplayBorder bool
  | PC_SetWallpaperHidden bool
  | PC_SetPreventIdleLock bool
  | PC_StartInput rust_string display_id
  | PC_Input remote_input
  | PC_Annotate annotation
  | PC_ReleaseInput
  | PC_BlockInput bool
  | PC_Blackout bool rust_string
  | PC_Clipboard clipboard_content
  | PC_Chat rust_string
  | PC_StartChat
  | PC_StopChat
  | PC_Stop

datatype child_event =
    CE_Credentials credential_result
  | CE_CredentialPrompt bool
  | CE_Files file_message
  | CE_Started started_desktop
  | CE_InputStarted
  | CE_MaintenanceState bool bool
  | CE_MaintenanceError rust_string
  | CE_Frame encoded_access_unit
  | CE_Cursor cursor_shape bool "display_id option"
  | CE_Clipboard clipboard_content
  | CE_Chat rust_string
  | CE_ApprovalDecision decision
  | CE_NoDisplays
  | CE_Error rust_string
  | CE_Stopped

text \<open>The serialisers the wire calls: postcard for messages and clipboards, JSON for credentials.\<close>

record wire_lib =
  message_to_stdvec :: "session_message \<Rightarrow> postcard_error + bytes"
  message_from_bytes :: "bytes \<Rightarrow> postcard_error + session_message"
  clipboard_to_stdvec :: "clipboard_content \<Rightarrow> postcard_error + bytes"
  clipboard_take_from_bytes :: "bytes \<Rightarrow> postcard_error + clipboard_content \<times> bytes"
  credentials_to_vec :: "credential_result \<Rightarrow> bytes option"
  credentials_from_slice :: "bytes \<Rightarrow> credential_result option"

section \<open>Primitives\<close>

definition checked_len :: "nat \<Rightarrow> nat \<Rightarrow> io_error + unit" where
  "checked_len len maximum = (if maximum < len \<or> 2 ^ 32 - 1 < len then Err Invalid_Data else Ok ())"

definition bounded_len :: "u32 \<Rightarrow> nat \<Rightarrow> io_error + nat" where
  "bounded_len len maximum =
     (case checked_len (unat len) maximum of Inl e \<Rightarrow> Err e | Inr _ \<Rightarrow> Ok (unat len))"

definition write_u32 :: "u32 \<Rightarrow> written" where
  "write_u32 v = write_all (le_bytes 4 (unat v))"

definition write_u64 :: "u64 \<Rightarrow> written" where
  "write_u64 v = write_all (le_bytes 8 (unat v))"

definition bool_byte :: "bool \<Rightarrow> u8" where
  "bool_byte b = (if b then 1 else 0)"

definition read_u8 :: "u8 reader" where
  "read_u8 = rbind (read_exact 1) (\<lambda>v. rpure (hd v))"

definition pipe_read_u32 :: "u32 reader" where
  "pipe_read_u32 = rbind (read_exact 4) (\<lambda>v. rpure (word_of_nat (le_nat v)))"

definition pipe_read_u64 :: "u64 reader" where
  "pipe_read_u64 = rbind (read_exact 8) (\<lambda>v. rpure (word_of_nat (le_nat v)))"

definition read_bool :: "bool reader" where
  "read_bool = rbind read_u8 (\<lambda>v.
     if v = 0 then rpure False else if v = 1 then rpure True else rfail Invalid_Data)"

definition write_sized :: "bytes \<Rightarrow> written" where
  "write_sized bs = write_seq [write_u32 (word_of_nat (length bs)), write_all bs]"

definition read_sized :: "nat \<Rightarrow> bytes reader" where
  "read_sized maximum =
     rbind pipe_read_u32 (\<lambda>len. rbind (rlift (bounded_len len maximum)) (\<lambda>n. read_exact n))"

definition string_of :: "bytes \<Rightarrow> io_error + rust_string" where
  "string_of bs = (case from_utf8 bs of None \<Rightarrow> Err Invalid_Data | Some s \<Rightarrow> Ok s)"

definition read_sized_string :: "nat \<Rightarrow> rust_string reader" where
  "read_sized_string maximum = rbind (read_sized maximum) (\<lambda>bs. rlift (string_of bs))"

fun codec_byte :: "codec_kind \<Rightarrow> u8" where
  "codec_byte H264 = 1"
| "codec_byte H265 = 2"

definition read_codec :: "codec_kind reader" where
  "read_codec = rbind read_u8 (\<lambda>v.
     if v = 1 then rpure H264 else if v = 2 then rpure H265 else rfail Invalid_Data)"

fun pixel_format_byte :: "chroma_mode \<Rightarrow> u8" where
  "pixel_format_byte Yuv420 = 1"
| "pixel_format_byte Yuv444 = 2"

definition read_pixel_format :: "chroma_mode reader" where
  "read_pixel_format = rbind read_u8 (\<lambda>v.
     if v = 1 then rpure Yuv420 else if v = 2 then rpure Yuv444 else rfail Invalid_Data)"

fun display_number :: "display_id \<Rightarrow> u32" where
  "display_number (DisplayId n) = n"

section \<open>Parts of messages\<close>

definition encode_message :: "wire_lib \<Rightarrow> session_message \<Rightarrow> io_error + bytes" where
  "encode_message lib m = (case message_to_stdvec lib m of Inl _ \<Rightarrow> Err Invalid_Data | Inr bs \<Rightarrow> Ok bs)"

definition read_session_message :: "wire_lib \<Rightarrow> session_message reader" where
  "read_session_message lib = rbind (read_sized MAX_CONTROL_BYTES) (\<lambda>bs.
     rlift (case SessionMessage_decode (message_from_bytes lib) bs of Inl _ \<Rightarrow> Err Invalid_Data | Inr m \<Rightarrow> Ok m))"

definition write_file_message :: "wire_lib \<Rightarrow> file_message \<Rightarrow> written" where
  "write_file_message lib m =
     (case message_to_stdvec lib (SM_FileTransfer m) of
        Inl _ \<Rightarrow> wcheck (Err Io_Other)
      | Inr bs \<Rightarrow>
          write_seq [wcheck (checked_len (length bs) MAX_CONTROL_BYTES),
            write_u32 (word_of_nat (length bs)), write_all bs])"

definition read_file_message :: "wire_lib \<Rightarrow> file_message reader" where
  "read_file_message lib =
     rbind pipe_read_u32 (\<lambda>len. rbind (rlift (bounded_len len MAX_CONTROL_BYTES)) (\<lambda>n. rbind (read_exact n) (\<lambda>bs.
       rlift (case SessionMessage_decode (message_from_bytes lib) bs of
          Inl _ \<Rightarrow> Err Io_Other
        | Inr (SM_FileTransfer m) \<Rightarrow> Ok m
        | Inr _ \<Rightarrow> Err Io_Other))))"

definition write_chat_text :: "u8 \<Rightarrow> rust_string \<Rightarrow> written" where
  "write_chat_text opcode t =
     (if \<not> valid_chat_text t then wcheck (Err Invalid_Data)
      else write_seq [write_all [opcode], write_sized (as_bytes t)])"

definition read_chat_text :: "rust_string reader" where
  "read_chat_text = rbind (read_sized_string MAX_CHAT_TEXT_BYTES) (\<lambda>t.
     if \<not> valid_chat_text t then rfail Invalid_Data else rpure t)"

definition write_clipboard :: "wire_lib \<Rightarrow> u8 \<Rightarrow> clipboard_content \<Rightarrow> written" where
  "write_clipboard lib opcode content =
     (case ClipboardContent_encode (clipboard_to_stdvec lib) content of
        Inl _ \<Rightarrow> wcheck (Err Invalid_Data)
      | Inr bs \<Rightarrow>
          write_seq [wcheck (checked_len (length bs) MAX_CLIPBOARD_WIRE_BYTES), write_all [opcode], write_sized bs])"

definition read_clipboard :: "wire_lib \<Rightarrow> clipboard_content reader" where
  "read_clipboard lib = rbind (read_sized MAX_CLIPBOARD_WIRE_BYTES) (\<lambda>bs.
     rlift (case ClipboardContent_decode (clipboard_take_from_bytes lib) bs of
       Inl _ \<Rightarrow> Err Invalid_Data | Inr c \<Rightarrow> Ok c))"

definition write_headless_target :: "headless_target option \<Rightarrow> written" where
  "write_headless_target t =
     (case t of
        None \<Rightarrow> write_all [0]
      | Some t \<Rightarrow>
          write_seq [write_all [1], write_u32 (ht_adapter_low t), write_u32 (ht_adapter_high t),
            write_u32 (ht_target_id t), write_u32 (hr_width (ht_resolution t)),
            write_u32 (hr_height (ht_resolution t))])"

definition read_headless_target :: "headless_target option reader" where
  "read_headless_target = rbind read_bool (\<lambda>present.
     if \<not> present then rpure None
     else rbind pipe_read_u32 (\<lambda>low. rbind pipe_read_u32 (\<lambda>high. rbind pipe_read_u32 (\<lambda>target.
          rbind pipe_read_u32 (\<lambda>width. rbind pipe_read_u32 (\<lambda>height.
          rpure (Some \<lparr>ht_adapter_low = low, ht_adapter_high = high, ht_target_id = target,
            ht_resolution = HeadlessResolution_new width height\<rparr>)))))))"

definition write_display :: "display \<Rightarrow> written" where
  "write_display d =
     (let name = as_bytes (dp_name d) in
      write_seq [wcheck (checked_len (length name) MAX_DISPLAY_NAME_BYTES),
        write_u32 (display_number (dp_id d)), write_u32 (dp_x d), write_u32 (dp_y d),
        write_u32 (dp_width d), write_u32 (dp_height d), write_all [bool_byte (dp_primary d)],
        write_u32 (word_of_nat (length name)), write_all name])"

definition read_display :: "display reader" where
  "read_display =
     rbind pipe_read_u32 (\<lambda>i. rbind pipe_read_u32 (\<lambda>x. rbind pipe_read_u32 (\<lambda>y. rbind pipe_read_u32 (\<lambda>width.
     rbind pipe_read_u32 (\<lambda>height. rbind read_bool (\<lambda>primary.
     rbind pipe_read_u32 (\<lambda>len. rbind (rlift (bounded_len len MAX_DISPLAY_NAME_BYTES)) (\<lambda>n.
     rbind (read_exact n) (\<lambda>bs. rbind (rlift (string_of bs)) (\<lambda>name.
     rpure \<lparr>dp_session = (if DisplayId i = BACKGROUND_DISPLAY_ID then DS_Background else DS_Console),
       dp_id = DisplayId i, dp_name = name, dp_x = x, dp_y = y, dp_width = width, dp_height = height,
       dp_primary = primary\<rparr>))))))))))"

section \<open>Commands\<close>

definition optional_display :: "display_id option \<Rightarrow> u32" where
  "optional_display i = (case i of None \<Rightarrow> NO_DISPLAY | Some (DisplayId n) \<Rightarrow> n)"

definition display_of_number :: "u32 \<Rightarrow> display_id option" where
  "display_of_number n = (if n \<noteq> NO_DISPLAY then Some (DisplayId n) else None)"

fun write_command :: "wire_lib \<Rightarrow> parent_command \<Rightarrow> written" where
  "write_command lib PC_PromptCredentials = write_all [23]"
| "write_command lib (PC_AutofillCredentials bs) =
     write_seq [wcheck (checked_len (length bs) 8192), write_all [24], write_sized bs]"
| "write_command lib PC_EnumerateDisplays = write_all [22]"
| "write_command lib PC_CaptureThumbnail = write_all [27]"
| "write_command lib PC_StartFiles = write_all [13]"
| "write_command lib PC_StartClipboard = write_all [16]"
| "write_command lib (PC_StartChatHelper viewer_name show_banner) =
     write_seq [wcheck (checked_len (str_len viewer_name) MAX_CONTROL_BYTES), write_all [17],
       write_sized (as_bytes viewer_name), write_all [bool_byte show_banner]]"
| "write_command lib (PC_ShowConnectionNotification message) =
     write_seq [wcheck (checked_len (str_len message) MAX_CONTROL_BYTES), write_all [25],
       write_sized (as_bytes message)]"
| "write_command lib (PC_PromptConnectionApproval message reason timeout_seconds lock_idle_seconds) =
     write_seq [wcheck (checked_len (str_len message) MAX_CONTROL_BYTES),
       wcheck (checked_len (str_len reason) MAX_CONTROL_BYTES), write_all [26],
       write_sized (as_bytes message), write_sized (as_bytes reason), write_u32 timeout_seconds,
       write_u32 lock_idle_seconds]"
| "write_command lib (PC_Files m) = write_seq [write_all [12], write_file_message lib m]"
| "write_command lib (PC_Start viewer_name display frames bitrate vcodec pixels cursor gray headless) =
     write_seq [write_all [1], wcheck (checked_len (str_len viewer_name) MAX_DISPLAY_NAME_BYTES),
       write_sized (as_bytes viewer_name), write_u32 (optional_display display), write_u32 frames,
       write_u32 bitrate, write_all [codec_byte vcodec], write_all [pixel_format_byte pixels],
       write_all [bool_byte cursor], write_all [bool_byte gray], write_headless_target headless]"
| "write_command lib (PC_SetWallpaperHidden hidden) = write_all [19, bool_byte hidden]"
| "write_command lib (PC_SetPreventIdleLock enabled) = write_all [21, bool_byte enabled]"
| "write_command lib (PC_SetCursorCapture enabled) = write_all [18, bool_byte enabled]"
| "write_command lib (PC_SetDisplayBorder enabled) = write_all [20, bool_byte enabled]"
| "write_command lib PC_RequestKeyframe = write_all [2]"
| "write_command lib (PC_SetBitrate bits_per_second) = write_seq [write_all [3], write_u32 bits_per_second]"
| "write_command lib (PC_StartInput viewer_name display) =
     write_seq [wcheck (checked_len (str_len viewer_name) MAX_DISPLAY_NAME_BYTES), write_all [7],
       write_u32 (display_number display), write_sized (as_bytes viewer_name)]"
| "write_command lib (PC_Input input) =
     (case encode_message lib (SM_Input input) of
        Inl e \<Rightarrow> wcheck (Err e)
      | Inr bs \<Rightarrow> write_seq [wcheck (checked_len (length bs) MAX_CONTROL_BYTES), write_all [5], write_sized bs])"
| "write_command lib (PC_Annotate a) =
     (case encode_message lib (SM_Annotate a) of
        Inl e \<Rightarrow> wcheck (Err e)
      | Inr bs \<Rightarrow> write_seq [write_all [28], write_sized bs])"
| "write_command lib (PC_Blackout enabled message) =
     write_seq [wcheck (checked_len (str_len message) MAX_CONTROL_BYTES), write_all [15, bool_byte enabled],
       write_sized (as_bytes message)]"
| "write_command lib (PC_BlockInput blocked) = write_all [14, bool_byte blocked]"
| "write_command lib PC_ReleaseInput = write_all [6]"
| "write_command lib (PC_Clipboard content) = write_clipboard lib 8 content"
| "write_command lib PC_StopChat = write_all [11]"
| "write_command lib PC_StartChat = write_all [10]"
| "write_command lib (PC_Chat t) = write_chat_text 9 t"
| "write_command lib PC_Stop = write_all [4]"

definition read_start_command :: "parent_command reader" where
  "read_start_command =
     rbind (read_sized_string MAX_DISPLAY_NAME_BYTES) (\<lambda>viewer_name. rbind pipe_read_u32 (\<lambda>display.
     rbind pipe_read_u32 (\<lambda>frames. rbind pipe_read_u32 (\<lambda>bitrate. rbind read_codec (\<lambda>vcodec.
     rbind read_pixel_format (\<lambda>pixels. rbind read_bool (\<lambda>cursor. rbind read_bool (\<lambda>gray.
     rbind read_headless_target (\<lambda>headless.
     rpure (PC_Start viewer_name (display_of_number display) frames bitrate vcodec pixels cursor gray
       headless))))))))))"

definition read_command_body :: "wire_lib \<Rightarrow> u8 \<Rightarrow> parent_command reader" where
  "read_command_body lib opcode =
     (if opcode = 23 then rpure PC_PromptCredentials
      else if opcode = 24 then rbind (read_sized 8192) (\<lambda>bs. rpure (PC_AutofillCredentials bs))
      else if opcode = 22 then rpure PC_EnumerateDisplays
      else if opcode = 27 then rpure PC_CaptureThumbnail
      else if opcode = 16 then rpure PC_StartClipboard
      else if opcode = 17 then
        rbind (read_sized_string MAX_CONTROL_BYTES) (\<lambda>viewer_name. rbind read_bool (\<lambda>show_banner.
          rpure (PC_StartChatHelper viewer_name show_banner)))
      else if opcode = 25 then
        rbind (read_sized_string MAX_CONTROL_BYTES) (\<lambda>message. rpure (PC_ShowConnectionNotification message))
      else if opcode = 26 then
        rbind (read_sized_string MAX_CONTROL_BYTES) (\<lambda>message.
        rbind (read_sized_string MAX_CONTROL_BYTES) (\<lambda>reason.
        rbind pipe_read_u32 (\<lambda>timeout_seconds. rbind pipe_read_u32 (\<lambda>lock_idle_seconds.
          rpure (PC_PromptConnectionApproval message reason timeout_seconds lock_idle_seconds)))))
      else if opcode = 1 then read_start_command
      else if opcode = 19 then rbind read_bool (\<lambda>b. rpure (PC_SetWallpaperHidden b))
      else if opcode = 21 then rbind read_bool (\<lambda>b. rpure (PC_SetPreventIdleLock b))
      else if opcode = 18 then rbind read_bool (\<lambda>b. rpure (PC_SetCursorCapture b))
      else if opcode = 20 then rbind read_bool (\<lambda>b. rpure (PC_SetDisplayBorder b))
      else if opcode = 2 then rpure PC_RequestKeyframe
      else if opcode = 3 then rbind pipe_read_u32 (\<lambda>bits. rpure (PC_SetBitrate bits))
      else if opcode = 7 then
        rbind pipe_read_u32 (\<lambda>display. rbind (read_sized_string MAX_DISPLAY_NAME_BYTES) (\<lambda>viewer_name.
          rpure (PC_StartInput viewer_name (DisplayId display))))
      else if opcode = 5 then
        rbind (read_session_message lib) (\<lambda>m. case m of SM_Input i \<Rightarrow> rpure (PC_Input i) | _ \<Rightarrow> rfail Invalid_Data)
      else if opcode = 28 then
        rbind (read_session_message lib) (\<lambda>m.
          case m of SM_Annotate a \<Rightarrow> rpure (PC_Annotate a) | _ \<Rightarrow> rfail Invalid_Data)
      else if opcode = 15 then
        rbind read_u8 (\<lambda>enabled.
          if 1 < enabled then rfail Invalid_Data
          else rbind (read_sized_string MAX_CONTROL_BYTES) (\<lambda>message. rpure (PC_Blackout (enabled = 1) message)))
      else if opcode = 14 then
        rbind read_u8 (\<lambda>b.
          if b = 0 then rpure (PC_BlockInput False) else if b = 1 then rpure (PC_BlockInput True)
          else rfail Invalid_Data)
      else if opcode = 6 then rpure PC_ReleaseInput
      else if opcode = 8 then rbind (read_clipboard lib) (\<lambda>c. rpure (PC_Clipboard c))
      else if opcode = 13 then rpure PC_StartFiles
      else if opcode = 12 then rbind (read_file_message lib) (\<lambda>m. rpure (PC_Files m))
      else if opcode = 11 then rpure PC_StopChat
      else if opcode = 10 then rpure PC_StartChat
      else if opcode = 9 then rbind read_chat_text (\<lambda>t. rpure (PC_Chat t))
      else if opcode = 4 then rpure PC_Stop
      else rfail Invalid_Data)"

definition read_command :: "wire_lib \<Rightarrow> parent_command reader" where
  "read_command lib = rbind read_u8 (read_command_body lib)"

section \<open>Events\<close>

fun write_event :: "wire_lib \<Rightarrow> child_event \<Rightarrow> written" where
  "write_event lib (CE_CredentialPrompt ready) = write_all [13, bool_byte ready]"
| "write_event lib (CE_Credentials result) =
     (case credentials_to_vec lib result of
        None \<Rightarrow> wcheck (Err Io_Other)
      | Some bs \<Rightarrow> write_seq [wcheck (checked_len (length bs) 32768), write_all [12], write_sized bs])"
| "write_event lib (CE_Files m) = write_seq [write_all [9], write_file_message lib m]"
| "write_event lib (CE_Started started) =
     (let f = sd_format started in
      write_seq ([write_all [1], write_u32 (af_width f), write_u32 (af_height f),
        write_u32 (af_frames_per_second f), write_u32 (af_bitrate_bits_per_second f),
        write_all [codec_byte (af_codec f)], write_all [pixel_format_byte (af_pixel_format f)],
        write_u32 (display_number (dp_id (sd_active_display started))),
        wcheck (checked_len (length (sd_displays started)) MAX_DISPLAYS),
        write_u32 (word_of_nat (length (sd_displays started)))] @ map write_display (sd_displays started)))"
| "write_event lib (CE_MaintenanceError reason) =
     write_seq [wcheck (checked_len (str_len reason) MAX_ERROR_BYTES), write_all [11], write_sized (as_bytes reason)]"
| "write_event lib (CE_MaintenanceState agent_input_blocked blacked_out) =
     write_all [10, bool_byte agent_input_blocked, bool_byte blacked_out]"
| "write_event lib CE_InputStarted = write_all [6]"
| "write_event lib (CE_Frame frame) =
     (let codec_config = (case au_codec_config frame of None \<Rightarrow> [] | Some c \<Rightarrow> c) in
      write_seq [wcheck (checked_len (length codec_config) MAX_CODEC_CONFIG_BYTES),
        wcheck (checked_len (length (au_data frame)) MAX_FRAME_BYTES), write_all [2],
        write_u64 (au_capture_timestamp_us frame), write_u64 (au_encode_complete_timestamp_us frame),
        write_all [bool_byte (au_keyframe frame)], write_u32 (word_of_nat (length codec_config)),
        write_u32 (word_of_nat (length (au_data frame))), write_all codec_config, write_all (au_data frame)])"
| "write_event lib (CE_Cursor shape viewer_controls_input pointer_display) =
     (case encode_message lib (SM_CursorShape shape) of
        Inl e \<Rightarrow> wcheck (Err e)
      | Inr bs \<Rightarrow>
          write_seq [wcheck (checked_len (length bs) MAX_CONTROL_BYTES), write_all [5, bool_byte viewer_controls_input],
            write_u32 (optional_display pointer_display), write_sized bs])"
| "write_event lib (CE_Clipboard content) = write_clipboard lib 7 content"
| "write_event lib (CE_Chat t) = write_chat_text 8 t"
| "write_event lib (CE_ApprovalDecision d) = write_all [14, decision_to_byte d]"
| "write_event lib (CE_Error message) =
     write_seq [wcheck (checked_len (str_len message) MAX_ERROR_BYTES), write_all [3], write_sized (as_bytes message)]"
| "write_event lib CE_NoDisplays = write_all [15]"
| "write_event lib CE_Stopped = write_all [4]"

definition read_started_event :: "child_event reader" where
  "read_started_event =
     rbind pipe_read_u32 (\<lambda>width. rbind pipe_read_u32 (\<lambda>height. rbind pipe_read_u32 (\<lambda>frames. rbind pipe_read_u32 (\<lambda>bitrate.
     rbind read_codec (\<lambda>vcodec. rbind read_pixel_format (\<lambda>pixels. rbind pipe_read_u32 (\<lambda>active.
     rbind pipe_read_u32 (\<lambda>n. rbind (rlift (bounded_len n MAX_DISPLAYS)) (\<lambda>n.
     rbind (read_many read_display n) (\<lambda>displays.
       case find (\<lambda>d. dp_id d = DisplayId active) displays of
         None \<Rightarrow> rfail Invalid_Data
       | Some d \<Rightarrow>
           rpure (CE_Started \<lparr>sd_format = \<lparr>af_width = width, af_height = height, af_frames_per_second = frames,
               af_bitrate_bits_per_second = bitrate, af_codec = vcodec, af_pixel_format = pixels\<rparr>,
             sd_displays = displays, sd_active_display = d\<rparr>)))))))))))"

definition read_frame_event :: "child_event reader" where
  "read_frame_event =
     rbind pipe_read_u64 (\<lambda>capture. rbind pipe_read_u64 (\<lambda>encoded. rbind read_bool (\<lambda>keyframe.
     rbind pipe_read_u32 (\<lambda>m. rbind (rlift (bounded_len m MAX_CODEC_CONFIG_BYTES)) (\<lambda>config_len.
     rbind pipe_read_u32 (\<lambda>n. rbind (rlift (bounded_len n MAX_FRAME_BYTES)) (\<lambda>frame_len.
     rbind (read_exact config_len) (\<lambda>config. rbind (read_exact frame_len) (\<lambda>frame_data.
       rpure (CE_Frame \<lparr>au_capture_timestamp_us = capture, au_encode_complete_timestamp_us = encoded,
         au_keyframe = keyframe, au_codec_config = (if config \<noteq> [] then Some config else None),
         au_data = frame_data\<rparr>))))))))))"

definition read_event_body :: "wire_lib \<Rightarrow> u8 \<Rightarrow> child_event reader" where
  "read_event_body lib opcode =
     (if opcode = 12 then
        rbind (read_sized 32768) (\<lambda>bs.
          case credentials_from_slice lib bs of None \<Rightarrow> rfail Io_Other | Some r \<Rightarrow> rpure (CE_Credentials r))
      else if opcode = 13 then
        rbind read_u8 (\<lambda>b.
          if b = 0 then rpure (CE_CredentialPrompt False) else if b = 1 then rpure (CE_CredentialPrompt True)
          else rfail Io_Other)
      else if opcode = 11 then rbind (read_sized_string MAX_ERROR_BYTES) (\<lambda>s. rpure (CE_MaintenanceError s))
      else if opcode = 10 then
        rbind read_u8 (\<lambda>a. rbind read_u8 (\<lambda>b.
          if 1 < a \<or> 1 < b then rfail Invalid_Data else rpure (CE_MaintenanceState (a = 1) (b = 1))))
      else if opcode = 1 then read_started_event
      else if opcode = 6 then rpure CE_InputStarted
      else if opcode = 2 then read_frame_event
      else if opcode = 5 then
        rbind read_bool (\<lambda>viewer_controls_input. rbind pipe_read_u32 (\<lambda>pointer. rbind (read_session_message lib) (\<lambda>m.
          case m of
            SM_CursorShape shape \<Rightarrow> rpure (CE_Cursor shape viewer_controls_input (display_of_number pointer))
          | _ \<Rightarrow> rfail Invalid_Data)))
      else if opcode = 7 then rbind (read_clipboard lib) (\<lambda>c. rpure (CE_Clipboard c))
      else if opcode = 9 then rbind (read_file_message lib) (\<lambda>m. rpure (CE_Files m))
      else if opcode = 8 then rbind read_chat_text (\<lambda>t. rpure (CE_Chat t))
      else if opcode = 3 then rbind (read_sized_string MAX_ERROR_BYTES) (\<lambda>s. rpure (CE_Error s))
      else if opcode = 4 then rpure CE_Stopped
      else if opcode = 15 then rpure CE_NoDisplays
      else if opcode = 14 then
        rbind read_u8 (\<lambda>b.
          case decision_from_byte b of None \<Rightarrow> rfail Invalid_Data | Some d \<Rightarrow> rpure (CE_ApprovalDecision d))
      else rfail Invalid_Data)"

definition read_event :: "wire_lib \<Rightarrow> child_event reader" where
  "read_event lib = rbind read_u8 (read_event_body lib)"

section \<open>Thumbnails\<close>

definition write_thumbnail :: "rust_string + bytes \<Rightarrow> written" where
  "write_thumbnail thumbnail =
     (let (status, bs, maximum) =
        (case thumbnail of
           Inr jpeg \<Rightarrow> (0, jpeg, THUMBNAIL_MAX_BYTES)
         | Inl message \<Rightarrow> (1, as_bytes message, MAX_ERROR_BYTES))
      in write_seq [wcheck (checked_len (length bs) maximum), write_all [status],
           write_u32 (word_of_nat (length bs)), write_all bs])"

definition read_thumbnail :: "(rust_string + bytes) reader" where
  "read_thumbnail = rbind read_u8 (\<lambda>status.
     if 1 < status then rfail Invalid_Data
     else
       let maximum = (if status = 0 then THUMBNAIL_MAX_BYTES else MAX_ERROR_BYTES) in
       rbind pipe_read_u32 (\<lambda>n. rbind (rlift (bounded_len n maximum)) (\<lambda>n. rbind (read_exact n) (\<lambda>bs.
         rpure (if status = 0 then Inr bs else Inl (from_utf8_lossy bs))))))"

end
