(* ===== verification/Helper_Protocol.thy ===== *)
theory Helper_Protocol
  imports Helper_Wire
begin

text \<open>
  Both ends of the helper pipes agree. Commands, events and thumbnails are three interpretations of
  the \<open>framing\<close> interface: what one process writes the other reads back, however the bytes are cut on
  the way, so each pipe refines a queue of messages. The writers that put bytes into the pipe before
  they check the message are singled out.
\<close>

section \<open>What a reader makes of what was written\<close>

abbreviation le32 :: "u32 \<Rightarrow> bytes" where "le32 v \<equiv> le_bytes 4 (unat v)"

abbreviation len32 :: "bytes \<Rightarrow> bytes" where "len32 bs \<equiv> le32 (word_of_nat (length bs))"

lemma read_u8_Cons [simp]: "read_u8 (b # rest) = Ok (b, rest)"
  by (simp add: read_u8_def rbind_def rpure_def read_exact_def)

lemma read_u32_le [simp]: "pipe_read_u32 (le32 v @ rest) = Ok (v, rest)"
  using unat_lt_pow [of v] by (simp add: pipe_read_u32_def rbind_def rpure_def read_exact_def le_nat_le_bytes)

lemma read_u64_le [simp]: "pipe_read_u64 (le_bytes 8 (unat v) @ rest) = Ok (v, rest)"
  using unat_lt_pow [of v] by (simp add: pipe_read_u64_def rbind_def rpure_def read_exact_def le_nat_le_bytes)

lemma read_exact_append [simp]: "read_exact (length bs) (bs @ rest) = Ok (bs, rest)"
  by (simp add: read_exact_def)

lemma read_bool_byte [simp]: "read_bool (bool_byte b # rest) = Ok (b, rest)"
  by (simp add: read_bool_def rbind_def rpure_def bool_byte_def)

lemma read_codec_byte [simp]: "read_codec (codec_byte c # rest) = Ok (c, rest)"
  by (cases c) (simp_all add: read_codec_def rbind_def rpure_def)

lemma read_pixel_format_byte [simp]: "read_pixel_format (pixel_format_byte c # rest) = Ok (c, rest)"
  by (cases c) (simp_all add: read_pixel_format_def rbind_def rpure_def)

lemma checked_len_Ok: "checked_len n m = Ok u \<longleftrightarrow> n \<le> m \<and> n < 2 ^ 32"
  by (auto simp: checked_len_def)

lemma bounded_len_length: "n \<le> m \<Longrightarrow> n < 2 ^ 32 \<Longrightarrow> bounded_len (word_of_nat n) m = Ok n"
  by (simp add: bounded_len_def checked_len_def unat_of_nat)

lemma read_sized_written [simp]:
  "length bs \<le> m \<Longrightarrow> length bs < 2 ^ 32 \<Longrightarrow> read_sized m (len32 bs @ bs @ rest) = Ok (bs, rest)"
  by (simp add: read_sized_def rbind_def rlift_def bounded_len_length)

lemma read_sized_string_written [simp]:
  "scalar_string s \<Longrightarrow> str_len s \<le> m \<Longrightarrow> str_len s < 2 ^ 32 \<Longrightarrow>
   read_sized_string m (le32 (word_of_nat (str_len s)) @ as_bytes s @ rest) = Ok (s, rest)"
  using read_sized_written [of "as_bytes s" m rest]
  by (simp add: read_sized_string_def rbind_def length_as_bytes string_of_def rlift_def from_utf8_as_bytes)

section \<open>What a writer writes\<close>

lemma write_seq_check:
  "write_seq (wcheck r # ws) = (case r of Inl e \<Rightarrow> ([], Err e) | Inr u \<Rightarrow> write_seq ws)"
  by (cases r; cases "write_seq ws") (auto simp: wcheck_def)

lemma write_seq_all: "write_seq (write_all bs # ws) = (bs @ fst (write_seq ws), snd (write_seq ws))"
  by (simp add: write_all_def split: prod.splits)

lemma write_sized_all: "write_sized bs = write_all (len32 bs @ bs)"
  by (simp add: write_sized_def write_u32_def write_seq_all) (simp add: write_all_def)

lemma write_headless_all:
  "write_headless_target t = write_all
     (case t of None \<Rightarrow> [0]
      | Some t \<Rightarrow> [1] @ le32 (ht_adapter_low t) @ le32 (ht_adapter_high t) @ le32 (ht_target_id t)
          @ le32 (hr_width (ht_resolution t)) @ le32 (hr_height (ht_resolution t)))"
  by (cases t) (simp_all add: write_headless_target_def write_seq_all write_u32_def, simp_all add: write_all_def)

lemmas written = write_seq_check write_seq_all write_u32_def write_u64_def write_sized_all write_headless_all
  write_clipboard_def write_chat_text_def write_file_message_def encode_message_def

lemma fst_write_all [simp]: "fst (write_all bs) = bs" and snd_write_all [simp]: "snd (write_all bs) = Ok ()"
  by (simp_all add: write_all_def)

lemma wcheck_simps [simp]: "fst (wcheck r) = []" "snd (wcheck r) = r"
  by (simp_all add: wcheck_def)

section \<open>Readers are stable\<close>

lemma stable_basic [stable_intro]:
  "stable read_u8" "stable pipe_read_u32" "stable pipe_read_u64" "stable read_bool" "stable (read_sized m)"
  "stable (read_sized_string m)" "stable read_codec" "stable read_pixel_format"
  unfolding read_u8_def pipe_read_u32_def pipe_read_u64_def read_bool_def read_sized_def read_sized_string_def
    read_codec_def read_pixel_format_def
  by (intro stable_intro)+

lemma stable_parts [stable_intro]:
  "stable (read_session_message lib)" "stable (read_file_message lib)" "stable read_chat_text"
  "stable (read_clipboard lib)" "stable read_headless_target" "stable read_display"
  unfolding read_session_message_def read_file_message_def read_chat_text_def read_clipboard_def
    read_headless_target_def read_display_def
  by (intro stable_intro)+

lemma stable_message_case [stable_intro]:
  "(\<And>i. stable (f i)) \<Longrightarrow> stable (case m of SM_Input i \<Rightarrow> f i | _ \<Rightarrow> rfail e)"
  "(\<And>a. stable (g a)) \<Longrightarrow> stable (case m of SM_Annotate a \<Rightarrow> g a | _ \<Rightarrow> rfail e)"
  "(\<And>s. stable (h s)) \<Longrightarrow> stable (case m of SM_CursorShape s \<Rightarrow> h s | _ \<Rightarrow> rfail e)"
  by (cases m; simp add: stable_fail)+

lemma stable_read_command: "stable (read_command lib)"
  unfolding read_command_def read_command_body_def read_start_command_def by (intro stable_intro)

lemma stable_read_event: "stable (read_event lib)"
  unfolding read_event_def read_event_body_def read_started_event_def read_frame_event_def by (intro stable_intro)

lemma stable_read_thumbnail: "stable read_thumbnail"
  unfolding read_thumbnail_def Let_def by (intro stable_intro)

lemma read_u8_empty [simp]: "read_u8 [] = Err Unexpected_Eof"
  by (simp add: read_u8_def rbind_def read_exact_def)

lemma read_nothing:
  "read_command lib [] = Err Unexpected_Eof" "read_event lib [] = Err Unexpected_Eof"
  "read_thumbnail [] = Err Unexpected_Eof"
  by (simp_all add: read_command_def read_event_def read_thumbnail_def rbind_def)

section \<open>Commands\<close>

definition message_roundtrips :: "wire_lib \<Rightarrow> session_message \<Rightarrow> bool" where
  "message_roundtrips lib m =
     (case message_to_stdvec lib m of Inl _ \<Rightarrow> False | Inr bs \<Rightarrow> message_from_bytes lib bs = Ok m)"

definition clipboard_roundtrips :: "wire_lib \<Rightarrow> clipboard_content \<Rightarrow> bool" where
  "clipboard_roundtrips lib c =
     (case clipboard_to_stdvec lib c of Inl _ \<Rightarrow> False | Inr bs \<Rightarrow> clipboard_take_from_bytes lib bs = Ok (c, []))"

definition encoded_length :: "wire_lib \<Rightarrow> session_message \<Rightarrow> nat" where
  "encoded_length lib m = (case message_to_stdvec lib m of Inl _ \<Rightarrow> 0 | Inr bs \<Rightarrow> length bs)"

text \<open>What the pipe can carry: the serialiser gives the message back, strings are strings, no display
  has the number that stands for none, and typed text is within its limit.\<close>

fun carries_command :: "wire_lib \<Rightarrow> parent_command \<Rightarrow> bool" where
  "carries_command lib (PC_StartChatHelper viewer_name show_banner) = scalar_string viewer_name"
| "carries_command lib (PC_ShowConnectionNotification message) = scalar_string message"
| "carries_command lib (PC_PromptConnectionApproval message reason a b) =
     (scalar_string message \<and> scalar_string reason)"
| "carries_command lib (PC_Files m) = message_roundtrips lib (SM_FileTransfer m)"
| "carries_command lib (PC_Start viewer_name d a b c e f g h) =
     (scalar_string viewer_name \<and> d \<noteq> Some (DisplayId NO_DISPLAY))"
| "carries_command lib (PC_StartInput viewer_name d) = scalar_string viewer_name"
| "carries_command lib (PC_Input i) = (message_roundtrips lib (SM_Input i) \<and> message_text_ok (SM_Input i))"
| "carries_command lib (PC_Annotate a) =
     (message_roundtrips lib (SM_Annotate a) \<and> encoded_length lib (SM_Annotate a) \<le> MAX_CONTROL_BYTES)"
| "carries_command lib (PC_Blackout enabled message) = scalar_string message"
| "carries_command lib (PC_Clipboard c) = clipboard_roundtrips lib c"
| "carries_command lib (PC_Chat t) = scalar_string t"
| "carries_command lib _ = True"

definition can_send_command :: "wire_lib \<Rightarrow> parent_command \<Rightarrow> bool" where
  "can_send_command lib c \<longleftrightarrow> carries_command lib c \<and> snd (write_command lib c) = Ok ()"

lemma read_session_message_written:
  assumes "message_roundtrips lib m" "message_text_ok m" "message_to_stdvec lib m = Ok bs"
    "length bs \<le> MAX_CONTROL_BYTES"
  shows "read_session_message lib (len32 bs @ bs @ rest) = Ok (m, rest)"
proof -
  have "read_sized MAX_CONTROL_BYTES (len32 bs @ bs @ rest) = Ok (bs, rest)"
    using assms(4) by (simp add: MAX_CONTROL_BYTES_def)
  moreover have "message_from_bytes lib bs = Ok m" using assms(1,3) by (simp add: message_roundtrips_def)
  ultimately show ?thesis
    using assms(2) by (simp add: read_session_message_def rbind_def rlift_def decode_checks_text)
qed

lemma read_file_message_written:
  assumes "message_roundtrips lib (SM_FileTransfer m)" "message_to_stdvec lib (SM_FileTransfer m) = Ok bs"
    "length bs \<le> MAX_CONTROL_BYTES"
  shows "read_file_message lib (len32 bs @ bs @ rest) = Ok (m, rest)"
proof -
  have "message_from_bytes lib bs = Ok (SM_FileTransfer m)" using assms(1,2) by (simp add: message_roundtrips_def)
  then show ?thesis
    using assms(3)
    by (simp add: read_file_message_def rbind_def rlift_def decode_checks_text message_text_ok_def
        bounded_len_length MAX_CONTROL_BYTES_def)
qed

lemma read_clipboard_written:
  assumes "clipboard_roundtrips lib c" "ClipboardContent_encode (clipboard_to_stdvec lib) c = Ok bs"
    "length bs \<le> MAX_CLIPBOARD_WIRE_BYTES"
  shows "read_clipboard lib (len32 bs @ bs @ rest) = Ok (c, rest)"
proof -
  have v: "ClipboardContent_valid c" "clipboard_to_stdvec lib c = Ok bs"
    using assms(2) by (auto simp: ClipboardContent_encode_def split: if_splits)
  then have "clipboard_take_from_bytes lib bs = Ok (c, [])"
    using assms(1) by (simp add: clipboard_roundtrips_def)
  then have "ClipboardContent_decode (clipboard_take_from_bytes lib) bs = Ok c"
    using v assms(3) by (simp add: ClipboardContent_decode_def)
  moreover have "read_sized MAX_CLIPBOARD_WIRE_BYTES (len32 bs @ bs @ rest) = Ok (bs, rest)"
    using assms(3) by (simp add: MAX_CLIPBOARD_WIRE_BYTES_def MAX_CLIPBOARD_BYTES_def)
  ultimately show ?thesis by (simp add: read_clipboard_def rbind_def rlift_def)
qed

lemma read_chat_written:
  "scalar_string t \<Longrightarrow> valid_chat_text t \<Longrightarrow>
   read_chat_text (le32 (word_of_nat (str_len t)) @ as_bytes t @ rest) = Ok (t, rest)"
  by (simp add: read_chat_text_def rbind_def rpure_def valid_chat_text_def MAX_CHAT_TEXT_BYTES_def)

lemma read_headless_written:
  "read_headless_target (fst (write_headless_target t) @ rest) = Ok (t, rest)"
  by (cases t)
    (simp_all add: write_headless_all read_headless_target_def read_bool_def rbind_def rpure_def
      HeadlessResolution_new_def)

lemmas limits = MAX_CONTROL_BYTES_def MAX_DISPLAY_NAME_BYTES_def MAX_ERROR_BYTES_def MAX_DISPLAYS_def
  MAX_CODEC_CONFIG_BYTES_def MAX_FRAME_BYTES_def THUMBNAIL_MAX_BYTES_def

lemmas reads = rbind_def rpure_def rfail_def rlift_def

lemma display_number_roundtrip [simp]: "DisplayId (display_number d) = d"
  by (cases d) simp

lemma optional_display_roundtrip:
  "d \<noteq> Some (DisplayId NO_DISPLAY) \<Longrightarrow> display_of_number (optional_display d) = d"
  by (auto simp: display_of_number_def optional_display_def split: option.splits display_id.splits)

lemma read_command_Cons: "read_command lib (opcode # rest) = read_command_body lib opcode rest"
  by (simp add: read_command_def rbind_def)

lemma read_command_simple:
  "read_command_body lib 23 = rpure PC_PromptCredentials" "read_command_body lib 22 = rpure PC_EnumerateDisplays"
  "read_command_body lib 27 = rpure PC_CaptureThumbnail" "read_command_body lib 16 = rpure PC_StartClipboard"
  "read_command_body lib 2 = rpure PC_RequestKeyframe" "read_command_body lib 6 = rpure PC_ReleaseInput"
  "read_command_body lib 13 = rpure PC_StartFiles" "read_command_body lib 11 = rpure PC_StopChat"
  "read_command_body lib 10 = rpure PC_StartChat" "read_command_body lib 4 = rpure PC_Stop"
  "read_command_body lib 1 = read_start_command"
  "read_command_body lib 19 = rbind read_bool (\<lambda>b. rpure (PC_SetWallpaperHidden b))"
  "read_command_body lib 21 = rbind read_bool (\<lambda>b. rpure (PC_SetPreventIdleLock b))"
  "read_command_body lib 18 = rbind read_bool (\<lambda>b. rpure (PC_SetCursorCapture b))"
  "read_command_body lib 20 = rbind read_bool (\<lambda>b. rpure (PC_SetDisplayBorder b))"
  "read_command_body lib 3 = rbind pipe_read_u32 (\<lambda>bits. rpure (PC_SetBitrate bits))"
  "read_command_body lib 24 = rbind (read_sized 8192) (\<lambda>bs. rpure (PC_AutofillCredentials bs))"
  "read_command_body lib 8 = rbind (read_clipboard lib) (\<lambda>c. rpure (PC_Clipboard c))"
  "read_command_body lib 12 = rbind (read_file_message lib) (\<lambda>m. rpure (PC_Files m))"
  "read_command_body lib 9 = rbind read_chat_text (\<lambda>t. rpure (PC_Chat t))"
  by (simp_all add: read_command_body_def)

lemma read_command_texts:
  "read_command_body lib 17 = rbind (read_sized_string MAX_CONTROL_BYTES) (\<lambda>viewer_name.
     rbind read_bool (\<lambda>show_banner. rpure (PC_StartChatHelper viewer_name show_banner)))"
  "read_command_body lib 25 =
     rbind (read_sized_string MAX_CONTROL_BYTES) (\<lambda>message. rpure (PC_ShowConnectionNotification message))"
  "read_command_body lib 26 = rbind (read_sized_string MAX_CONTROL_BYTES) (\<lambda>message.
     rbind (read_sized_string MAX_CONTROL_BYTES) (\<lambda>reason.
     rbind pipe_read_u32 (\<lambda>timeout_seconds. rbind pipe_read_u32 (\<lambda>lock_idle_seconds.
       rpure (PC_PromptConnectionApproval message reason timeout_seconds lock_idle_seconds)))))"
  "read_command_body lib 7 = rbind pipe_read_u32 (\<lambda>display. rbind (read_sized_string MAX_DISPLAY_NAME_BYTES)
     (\<lambda>viewer_name. rpure (PC_StartInput viewer_name (DisplayId display))))"
  by (simp_all add: read_command_body_def)

lemma read_command_flags:
  "read_command_body lib 15 (bool_byte b # rest) =
     rbind (read_sized_string MAX_CONTROL_BYTES) (\<lambda>message. rpure (PC_Blackout b message)) rest"
  "read_command_body lib 14 (bool_byte b # rest) = Ok (PC_BlockInput b, rest)"
  by (cases b; simp add: read_command_body_def bool_byte_def reads split: sum.splits)+

lemma read_command_messages:
  "read_session_message lib bs = Ok (SM_Input i, rest) \<Longrightarrow> read_command_body lib 5 bs = Ok (PC_Input i, rest)"
  "read_session_message lib bs = Ok (SM_Annotate a, rest) \<Longrightarrow> read_command_body lib 28 bs = Ok (PC_Annotate a, rest)"
  by (simp_all add: read_command_body_def reads)

lemmas command_bodies = read_command_Cons read_command_simple read_command_texts read_command_flags

lemma read_start_written:
  assumes "can_send_command lib (PC_Start v d a b c e f g h)"
  shows "read_command lib (fst (write_command lib (PC_Start v d a b c e f g h)) @ rest)
    = Ok (PC_Start v d a b c e f g h, rest)"
proof -
  have v: "scalar_string v" "str_len v \<le> MAX_DISPLAY_NAME_BYTES"
    and d: "display_of_number (optional_display d) = d"
    using assms optional_display_roundtrip
    by (auto simp: can_send_command_def write_seq_all write_seq_check checked_len_Ok split: sum.splits)
  then have small: "checked_len (str_len v) MAX_DISPLAY_NAME_BYTES = Ok ()" "str_len v < 2 ^ 32"
    by (simp_all add: checked_len_Ok limits)
  have h: "read_headless_target (fst (write_seq [write_headless_target h]) @ r) = Ok (h, r)" for r
    using read_headless_written [of h r] by (simp add: write_headless_all write_seq_all)
  show ?thesis
    using v d small h
    by (simp add: write_seq_all write_seq_check write_u32_def write_sized_all length_as_bytes read_command_Cons
        read_command_simple read_start_command_def rbind_def rpure_def)
qed

lemma read_command_written:
  assumes "can_send_command lib c"
  shows "read_command lib (fst (write_command lib c) @ rest) = Ok (c, rest)"
proof (cases c)
  case (PC_Start v d a b c e f g h)
  then show ?thesis using assms read_start_written by simp
next
  case (PC_Input i)
  then obtain bs where "message_to_stdvec lib (SM_Input i) = Ok bs" "length bs \<le> MAX_CONTROL_BYTES"
    using assms by (auto simp: can_send_command_def encode_message_def write_seq_check checked_len_Ok split: sum.splits)
  moreover have "read_session_message lib (len32 bs @ bs @ rest) = Ok (SM_Input i, rest)"
    using assms PC_Input calculation by (intro read_session_message_written) (auto simp: can_send_command_def)
  ultimately show ?thesis
    using PC_Input read_command_messages(1)
    by (simp add: encode_message_def written checked_len_def limits read_command_Cons)
next
  case (PC_Annotate a)
  then obtain bs where bs: "message_to_stdvec lib (SM_Annotate a) = Ok bs"
    using assms by (auto simp: can_send_command_def encode_message_def split: sum.splits)
  have "read_session_message lib (len32 bs @ bs @ rest) = Ok (SM_Annotate a, rest)"
    using assms PC_Annotate bs
    by (intro read_session_message_written) (auto simp: can_send_command_def message_text_ok_def encoded_length_def)
  then show ?thesis
    using PC_Annotate bs read_command_messages(2)
    by (simp add: encode_message_def written read_command_Cons)
next
  case (PC_Files m)
  then obtain bs where "message_to_stdvec lib (SM_FileTransfer m) = Ok bs" "length bs \<le> MAX_CONTROL_BYTES"
    using assms
    by (auto simp: can_send_command_def write_file_message_def write_seq_check write_seq_all checked_len_Ok split: sum.splits)
  moreover have "read_file_message lib (len32 bs @ bs @ rest) = Ok (m, rest)"
    using assms PC_Files calculation by (intro read_file_message_written) (auto simp: can_send_command_def)
  ultimately show ?thesis
    using PC_Files by (simp add: written checked_len_def limits command_bodies rbind_def rpure_def)
next
  case (PC_Clipboard k)
  then obtain bs where "ClipboardContent_encode (clipboard_to_stdvec lib) k = Ok bs" "length bs \<le> MAX_CLIPBOARD_WIRE_BYTES"
    using assms by (auto simp: can_send_command_def write_clipboard_def write_seq_check checked_len_Ok split: sum.splits)
  moreover have "read_clipboard lib (len32 bs @ bs @ rest) = Ok (k, rest)"
    using assms PC_Clipboard calculation by (intro read_clipboard_written) (auto simp: can_send_command_def)
  ultimately show ?thesis
    using PC_Clipboard
    by (simp add: written checked_len_def MAX_CLIPBOARD_WIRE_BYTES_def MAX_CLIPBOARD_BYTES_def command_bodies rbind_def rpure_def)
qed (use assms in \<open>auto simp: can_send_command_def written command_bodies rbind_def rpure_def length_as_bytes
      checked_len_Ok checked_len_def limits read_chat_written split: sum.splits if_splits\<close>)

interpretation commands: framing "write_command lib" "read_command lib" "can_send_command lib" for lib
  by unfold_locales
    (simp_all add: read_command_written stable_read_command read_nothing, simp add: can_send_command_def)

section \<open>Events\<close>

definition helper_session :: "display_id \<Rightarrow> desktop_session" where
  "helper_session i = (if i = BACKGROUND_DISPLAY_ID then DS_Background else DS_Console)"

definition carries_display :: "display \<Rightarrow> bool" where
  "carries_display d \<longleftrightarrow> scalar_string (dp_name d) \<and> dp_session d = helper_session (dp_id d)"

text \<open>The session of a display is not written: the helper has its own session's displays only. The
  active display is the first with its number, and an empty codec configuration is none.\<close>

fun carries_event :: "wire_lib \<Rightarrow> child_event \<Rightarrow> bool" where
  "carries_event lib (CE_Credentials r) =
     (case credentials_to_vec lib r of None \<Rightarrow> False | Some bs \<Rightarrow> credentials_from_slice lib bs = Some r)"
| "carries_event lib (CE_Files m) = message_roundtrips lib (SM_FileTransfer m)"
| "carries_event lib (CE_Started s) =
     (list_all carries_display (sd_displays s)
      \<and> find (\<lambda>d. dp_id d = dp_id (sd_active_display s)) (sd_displays s) = Some (sd_active_display s))"
| "carries_event lib (CE_MaintenanceError reason) = scalar_string reason"
| "carries_event lib (CE_Frame frame) = (au_codec_config frame \<noteq> Some [])"
| "carries_event lib (CE_Cursor shape b d) =
     (message_roundtrips lib (SM_CursorShape shape) \<and> d \<noteq> Some (DisplayId NO_DISPLAY))"
| "carries_event lib (CE_Clipboard c) = clipboard_roundtrips lib c"
| "carries_event lib (CE_Chat t) = scalar_string t"
| "carries_event lib (CE_Error t) = scalar_string t"
| "carries_event lib _ = True"

definition can_send_event :: "wire_lib \<Rightarrow> child_event \<Rightarrow> bool" where
  "can_send_event lib e \<longleftrightarrow> carries_event lib e \<and> snd (write_event lib e) = Ok ()"

lemma write_display_Ok:
  "snd (write_display d) = Ok () \<longleftrightarrow> str_len (dp_name d) \<le> MAX_DISPLAY_NAME_BYTES"
  by (auto simp: write_display_def written checked_len_def length_as_bytes limits Let_def)

lemma read_display_written:
  assumes "carries_display d" "snd (write_display d) = Ok ()"
  shows "read_display (fst (write_display d) @ rest) = Ok (d, rest)"
proof -
  have n: "str_len (dp_name d) \<le> MAX_DISPLAY_NAME_BYTES" using assms(2) write_display_Ok by simp
  then have small: "checked_len (str_len (dp_name d)) MAX_DISPLAY_NAME_BYTES = Ok ()"
    "bounded_len (word_of_nat (str_len (dp_name d))) MAX_DISPLAY_NAME_BYTES = Ok (str_len (dp_name d))"
    by (simp_all add: checked_len_Ok bounded_len_length limits)
  have e: "read_exact (str_len (dp_name d)) (as_bytes (dp_name d) @ rest) = Ok (as_bytes (dp_name d), rest)"
    using read_exact_append [of "as_bytes (dp_name d)"] by (simp add: length_as_bytes)
  show ?thesis
    using assms(1) small e
    by (simp add: write_display_def written length_as_bytes read_display_def reads string_of_def
        from_utf8_as_bytes carries_display_def helper_session_def)
qed

lemma write_seq_Ok: "snd (write_seq ws) = Ok () \<longleftrightarrow> (\<forall>w \<in> set ws. snd w = Ok ())"
proof (induction ws rule: write_seq.induct)
  case (3 bs u ws)
  then show ?case by (cases "write_seq ws") auto
qed auto

lemma write_seq_fst: "(\<forall>w \<in> set ws. snd w = Ok ()) \<Longrightarrow> fst (write_seq ws) = concat (map fst ws)"
proof (induction ws rule: write_seq.induct)
  case (3 bs u ws)
  then show ?case by (cases "write_seq ws") auto
qed auto

lemma read_displays_written:
  "list_all carries_display ds \<Longrightarrow> (\<forall>d \<in> set ds. snd (write_display d) = Ok ()) \<Longrightarrow>
   read_many read_display (length ds) (concat (map (\<lambda>d. fst (write_display d)) ds) @ rest) = Ok (ds, rest)"
  by (induction ds) (auto simp: rpure_def rbind_def read_display_written)

lemma read_event_Cons: "read_event lib (opcode # rest) = read_event_body lib opcode rest"
  by (simp add: read_event_def rbind_def)

lemma read_event_simple:
  "read_event_body lib 1 = read_started_event" "read_event_body lib 6 = rpure CE_InputStarted"
  "read_event_body lib 2 = read_frame_event" "read_event_body lib 4 = rpure CE_Stopped"
  "read_event_body lib 15 = rpure CE_NoDisplays"
  "read_event_body lib 11 = rbind (read_sized_string MAX_ERROR_BYTES) (\<lambda>s. rpure (CE_MaintenanceError s))"
  "read_event_body lib 3 = rbind (read_sized_string MAX_ERROR_BYTES) (\<lambda>s. rpure (CE_Error s))"
  "read_event_body lib 7 = rbind (read_clipboard lib) (\<lambda>c. rpure (CE_Clipboard c))"
  "read_event_body lib 9 = rbind (read_file_message lib) (\<lambda>m. rpure (CE_Files m))"
  "read_event_body lib 8 = rbind read_chat_text (\<lambda>t. rpure (CE_Chat t))"
  by (simp_all add: read_event_body_def)

lemma read_event_flags:
  "read_event_body lib 13 (bool_byte b # rest) = Ok (CE_CredentialPrompt b, rest)"
  "read_event_body lib 10 (bool_byte a # bool_byte b # rest) = Ok (CE_MaintenanceState a b, rest)"
  "read_event_body lib 14 (decision_to_byte d # rest) = Ok (CE_ApprovalDecision d, rest)"
  by (cases a; cases b; cases d; simp add: read_event_body_def bool_byte_def decision_from_byte_def reads)+

lemma read_event_values:
  "read_sized 32768 bs = Ok (js, rest) \<Longrightarrow> credentials_from_slice lib js = Some r \<Longrightarrow>
     read_event_body lib 12 bs = Ok (CE_Credentials r, rest)"
  "read_session_message lib bs = Ok (SM_CursorShape s, rest) \<Longrightarrow>
     read_event_body lib 5 (bool_byte b # le32 n @ bs) = Ok (CE_Cursor s b (display_of_number n), rest)"
  by (simp_all add: read_event_body_def reads)

lemmas event_bodies = read_event_Cons read_event_simple read_event_flags

lemma read_started_written:
  assumes "can_send_event lib (CE_Started s)"
  shows "read_event lib (fst (write_event lib (CE_Started s)) @ rest) = Ok (CE_Started s, rest)"
proof -
  let ?ds = "sd_displays s"
  have ok: "snd (write_seq (map write_display ?ds)) = Ok ()" "length ?ds \<le> MAX_DISPLAYS"
    using assms
    by (auto simp: can_send_event_def written checked_len_Ok Let_def split: sum.splits)
  then have len: "checked_len (length ?ds) MAX_DISPLAYS = Ok ()"
    "bounded_len (word_of_nat (length ?ds)) MAX_DISPLAYS = Ok (length ?ds)"
    by (simp_all add: checked_len_Ok bounded_len_length limits)
  have all: "\<forall>d \<in> set ?ds. snd (write_display d) = Ok ()" using ok(1) by (simp add: write_seq_Ok)
  then have w: "fst (write_seq (map write_display ?ds)) = concat (map (\<lambda>d. fst (write_display d)) ?ds)"
    by (simp add: write_seq_fst comp_def)
  have r: "read_many read_display (length ?ds) (concat (map (\<lambda>d. fst (write_display d)) ?ds) @ rest) = Ok (?ds, rest)"
    using assms all by (intro read_displays_written) (auto simp: can_send_event_def)
  show ?thesis
    using assms len r
    by (simp add: written w Let_def read_event_Cons read_event_simple read_started_event_def rbind_def rlift_def
        can_send_event_def) (simp add: rpure_def)
qed

lemma read_frame_written:
  assumes "can_send_event lib (CE_Frame f)"
  shows "read_event lib (fst (write_event lib (CE_Frame f)) @ rest) = Ok (CE_Frame f, rest)"
proof -
  define config where "config = (case au_codec_config f of None \<Rightarrow> [] | Some c \<Rightarrow> c)"
  have len: "length config \<le> MAX_CODEC_CONFIG_BYTES" "length (au_data f) \<le> MAX_FRAME_BYTES"
    using assms
    by (auto simp: can_send_event_def written checked_len_Ok Let_def config_def split: sum.splits)
  then have b: "bounded_len (word_of_nat (length config)) MAX_CODEC_CONFIG_BYTES = Ok (length config)"
    "bounded_len (word_of_nat (length (au_data f))) MAX_FRAME_BYTES = Ok (length (au_data f))"
    "checked_len (length config) MAX_CODEC_CONFIG_BYTES = Ok ()"
    "checked_len (length (au_data f)) MAX_FRAME_BYTES = Ok ()"
    by (simp_all add: checked_len_Ok bounded_len_length limits)
  have c: "(if config \<noteq> [] then Some config else None) = au_codec_config f"
    using assms by (auto simp: can_send_event_def config_def split: option.splits)
  show ?thesis
    using b c
    by (simp add: written Let_def config_def [symmetric] read_event_Cons read_event_simple read_frame_event_def
        rbind_def rlift_def rpure_def)
qed

lemma read_event_written:
  assumes "can_send_event lib e"
  shows "read_event lib (fst (write_event lib e) @ rest) = Ok (e, rest)"
proof (cases e)
  case (CE_Started s)
  then show ?thesis using assms read_started_written by simp
next
  case (CE_Frame f)
  then show ?thesis using assms read_frame_written by simp
next
  case (CE_Credentials r)
  then obtain bs where bs: "credentials_to_vec lib r = Some bs" "credentials_from_slice lib bs = Some r" "length bs \<le> 32768"
    using assms by (auto simp: can_send_event_def write_seq_check checked_len_Ok split: sum.splits option.splits)
  then have "read_sized 32768 (len32 bs @ bs @ rest) = Ok (bs, rest)" by simp
  then show ?thesis
    using CE_Credentials bs read_event_values(1) by (simp add: written checked_len_def read_event_Cons)
next
  case (CE_Cursor s b d)
  then obtain bs where bs: "message_to_stdvec lib (SM_CursorShape s) = Ok bs" "length bs \<le> MAX_CONTROL_BYTES"
    using assms by (auto simp: can_send_event_def encode_message_def write_seq_check checked_len_Ok split: sum.splits)
  have "read_session_message lib (len32 bs @ bs @ rest) = Ok (SM_CursorShape s, rest)"
    using assms CE_Cursor bs
    by (intro read_session_message_written) (auto simp: can_send_event_def message_text_ok_def)
  moreover have "display_of_number (optional_display d) = d"
    using assms CE_Cursor by (intro optional_display_roundtrip) (auto simp: can_send_event_def)
  ultimately show ?thesis
    using CE_Cursor bs read_event_values(2) by (simp add: written checked_len_def limits read_event_Cons)
next
  case (CE_Files m)
  then obtain bs where "message_to_stdvec lib (SM_FileTransfer m) = Ok bs" "length bs \<le> MAX_CONTROL_BYTES"
    using assms
    by (auto simp: can_send_event_def write_file_message_def write_seq_check write_seq_all checked_len_Ok split: sum.splits)
  moreover have "read_file_message lib (len32 bs @ bs @ rest) = Ok (m, rest)"
    using assms CE_Files calculation by (intro read_file_message_written) (auto simp: can_send_event_def)
  ultimately show ?thesis
    using CE_Files by (simp add: written checked_len_def limits event_bodies rbind_def rpure_def)
next
  case (CE_Clipboard k)
  then obtain bs where "ClipboardContent_encode (clipboard_to_stdvec lib) k = Ok bs" "length bs \<le> MAX_CLIPBOARD_WIRE_BYTES"
    using assms by (auto simp: can_send_event_def write_clipboard_def write_seq_check checked_len_Ok split: sum.splits)
  moreover have "read_clipboard lib (len32 bs @ bs @ rest) = Ok (k, rest)"
    using assms CE_Clipboard calculation by (intro read_clipboard_written) (auto simp: can_send_event_def)
  ultimately show ?thesis
    using CE_Clipboard
    by (simp add: written checked_len_def MAX_CLIPBOARD_WIRE_BYTES_def MAX_CLIPBOARD_BYTES_def event_bodies rbind_def rpure_def)
qed (use assms in \<open>auto simp: can_send_event_def written event_bodies rbind_def rpure_def length_as_bytes
      checked_len_Ok checked_len_def limits read_chat_written split: sum.splits if_splits\<close>)

interpretation events: framing "write_event lib" "read_event lib" "can_send_event lib" for lib
  by unfold_locales
    (simp_all add: read_event_written stable_read_event read_nothing, simp add: can_send_event_def)

section \<open>Thumbnails\<close>

fun can_send_thumbnail :: "rust_string + bytes \<Rightarrow> bool" where
  "can_send_thumbnail (Inr jpeg) \<longleftrightarrow> length jpeg \<le> THUMBNAIL_MAX_BYTES"
| "can_send_thumbnail (Inl message) \<longleftrightarrow> scalar_string message \<and> str_len message \<le> MAX_ERROR_BYTES"

lemma read_thumbnail_written:
  assumes "can_send_thumbnail t"
  shows "read_thumbnail (fst (write_thumbnail t) @ rest) = Ok (t, rest) \<and> snd (write_thumbnail t) = Ok ()"
proof (cases t)
  case (Inr jpeg)
  then show ?thesis
    using assms
    by (simp add: write_thumbnail_def written checked_len_def limits read_thumbnail_def reads bounded_len_length)
next
  case (Inl message)
  have e: "read_exact (str_len message) (as_bytes message @ rest) = Ok (as_bytes message, rest)"
    using read_exact_append [of "as_bytes message"] by (simp add: length_as_bytes)
  show ?thesis
    using assms Inl e
    by (simp add: write_thumbnail_def written checked_len_def limits length_as_bytes read_thumbnail_def reads
        bounded_len_length from_utf8_lossy_as_bytes)
qed

interpretation thumbnails: framing write_thumbnail read_thumbnail can_send_thumbnail
  by unfold_locales (simp_all add: read_thumbnail_written stable_read_thumbnail read_nothing)

section \<open>Properties\<close>

text \<open>C13: The command pipe refines a queue of commands. Whatever the service sends and whenever the helper
  reads, every answer is the one a queue of commands gives: a read returns the oldest command not yet
  read, unchanged, and with nothing left it waits for more. Commands must be ones the pipe carries:
  the serialiser gives their message back, sizes are within the limits and no display has the number
  that stands for none.\<close>

theorem command_pipe_refines_queue:
  assumes "list_all (sendable (can_send_command lib)) ops"
  shows "snd (run (pipe_step (write_command lib) (read_command lib)) [] ops) = snd (run queue_step [] ops)"
  using assms by (rule commands.pipe_refines_queue)

definition witness_lib :: wire_lib where
  "witness_lib =
     \<lparr>message_to_stdvec = (\<lambda>m. if m = SM_Annotate An_Clear then Ok [38] else Err OtherPostcardError),
      message_from_bytes = (\<lambda>bs. if bs = [38] then Ok (SM_Annotate An_Clear) else Err DeserializeBadEncoding),
      clipboard_to_stdvec = (\<lambda>c. Err OtherPostcardError),
      clipboard_take_from_bytes = (\<lambda>bs. Err DeserializeBadEncoding),
      credentials_to_vec = (\<lambda>r. None), credentials_from_slice = (\<lambda>bs. None)\<rparr>"

lemmas witness_simps = witness_lib_def can_send_command_def can_send_event_def written checked_len_def limits
  message_roundtrips_def encoded_length_def scalar_char_def str_len_def utf8_len_def NO_DISPLAY_def
  optional_display_def valid_chat_text_def str_trim_def is_whitespace_def MAX_CHAT_TEXT_BYTES_def

theorem command_pipe_refines_queue_witness:
  "snd (run (pipe_step (write_command witness_lib) (read_command witness_lib)) []
     [Send (PC_Start (lit ''Ada'') None 30 4000 H264 Yuv420 True False None), Send (PC_Annotate An_Clear),
      Receive, Send (PC_Blackout True [0x20AC]), Receive, Receive, Receive])
   = [Sent (Ok ()), Sent (Ok ()), Received (Ok (PC_Start (lit ''Ada'') None 30 4000 H264 Yuv420 True False None)),
      Sent (Ok ()), Received (Ok (PC_Annotate An_Clear)), Received (Ok (PC_Blackout True [0x20AC])),
      Received (Err Unexpected_Eof)]"
  by (subst command_pipe_refines_queue) (simp_all add: witness_simps)

text \<open>The service reads an event of its helper exactly when all of it has arrived. Of any first part of
  the bytes of an event and what follows it, the reader either asks for more, or returns exactly that
  event and leaves what follows it.\<close>

theorem event_read_when_complete:
  assumes "can_send_event lib e"
  shows "read_event lib (take n (fst (write_event lib e) @ later)) =
     (if n < length (fst (write_event lib e)) then Err Unexpected_Eof
      else Ok (e, take (n - length (fst (write_event lib e))) later))"
proof (cases "n < length (fst (write_event lib e))")
  case True
  then have "drop n (fst (write_event lib e)) \<noteq> []" by simp
  then show ?thesis
    using True events.truncated [OF assms append_take_drop_id [symmetric]] by simp
next
  case False
  then show ?thesis using events.rd_wr [OF assms] by simp
qed

theorem event_read_when_complete_witness:
  "read_event witness_lib (take 4 (fst (write_event witness_lib (CE_Chat [104, 105])) @ [4]))
     = Err Unexpected_Eof
   \<and> read_event witness_lib (take 8 (fst (write_event witness_lib (CE_Chat [104, 105])) @ [4]))
     = Ok (CE_Chat [104, 105], [4])"
proof -
  have ok: "can_send_event witness_lib (CE_Chat [104, 105])" by (simp add: witness_simps)
  have "length (fst (write_event witness_lib (CE_Chat [104, 105]))) = 7"
    by (simp add: witness_simps length_as_bytes)
  then show ?thesis
    using event_read_when_complete [OF ok, of 4 "[4]"] event_read_when_complete [OF ok, of 8 "[4]"] by simp
qed

text \<open>A refused command leaves its opcode behind in two cases; \<open>send_command\<close> writes into memory first,
  so this does not reach the pipe.\<close>

lemma refused_command_leaves:
  "case snd (write_command lib c) of
     Inr _ \<Rightarrow> True
   | Inl e \<Rightarrow> fst (write_command lib c) =
       (case c of PC_Start _ _ _ _ _ _ _ _ _ \<Rightarrow> [1] | PC_Files _ \<Rightarrow> [12] | _ \<Rightarrow> [])"
  by (cases c) (auto simp: written split: sum.splits)

text \<open>C38: The helper writes its events into the pipe itself. An event the writer refuses leaves nothing there,
  with two exceptions: a refused \<open>Files\<close> event has already written its opcode, and a refused \<open>Started\<close>
  event at least its opcode and format, so the service takes what comes next for the rest of it.\<close>

theorem refused_event_leaves:
  "case snd (write_event lib e) of
     Inr _ \<Rightarrow> True
   | Inl _ \<Rightarrow>
       (case e of
          CE_Files _ \<Rightarrow> fst (write_event lib e) = [9]
        | CE_Started s \<Rightarrow> take 5 (fst (write_event lib e)) = 1 # le32 (af_width (sd_format s))
        | _ \<Rightarrow> fst (write_event lib e) = [])"
  by (cases e) (auto simp: written Let_def split: sum.splits option.splits)

text \<open>The status byte tells a thumbnail from an error message: the service reads back exactly what the
  thumbnail helper wrote, also after other bytes have followed, and a JPEG over its limit or an error
  message over its limit is refused before anything is written.\<close>

theorem thumbnail_roundtrip:
  "if can_send_thumbnail t
   then snd (write_thumbnail t) = Ok () \<and> read_thumbnail (fst (write_thumbnail t) @ later) = Ok (t, later)
   else (case t of
       Inr jpeg \<Rightarrow> write_thumbnail t = ([], Err Invalid_Data)
     | Inl message \<Rightarrow> if scalar_string message then write_thumbnail t = ([], Err Invalid_Data) else True)"
  using read_thumbnail_written [of t later]
  by (cases t) (auto simp: write_thumbnail_def written checked_len_def limits length_as_bytes)

end
