(* ===== verification/Helper_Writer.thy ===== *)
theory Helper_Writer
  imports Helper_Protocol
begin

text \<open>
  Sending commands to a helper (\<open>CommandWriter\<close> and \<open>send_command\<close> of
  \<open>agent/src/remote/capture_helper.rs\<close>): a command is written into memory first, then queued within a
  byte budget for the thread that writes the pipe. The bounded channel holds 64 entries; the thread
  takes one, writes it and gives its bytes back to the budget, and ends at the first failed write,
  which closes the channel.
\<close>

record command_writer =
  cw_queue :: "bytes list"
  cw_writing :: "bytes option"
  cw_queued :: nat
  cw_open :: bool

definition CommandWriter_new :: command_writer where
  "CommandWriter_new = \<lparr>cw_queue = [], cw_writing = None, cw_queued = 0, cw_open = True\<rparr>"

datatype send_error = Write_Refused io_error | Budget_Exhausted | Queue_Full_Or_Closed

definition cw_limit :: nat where
  "cw_limit = 2 * MAX_CLIPBOARD_WIRE_BYTES + MAX_CONTROL_BYTES"

definition cw_send :: "command_writer \<Rightarrow> bytes \<Rightarrow> command_writer \<times> (send_error + unit)" where
  "cw_send w bs =
     (if cw_limit < cw_queued w + length bs then (w, Err Budget_Exhausted)
      else if \<not> cw_open w \<or> 64 \<le> length (cw_queue w) then (w, Err Queue_Full_Or_Closed)
      else (w\<lparr>cw_queue := cw_queue w @ [bs], cw_queued := cw_queued w + length bs\<rparr>, Ok ()))"

definition send_command ::
    "wire_lib \<Rightarrow> command_writer \<Rightarrow> parent_command \<Rightarrow> command_writer \<times> (send_error + unit)" where
  "send_command lib w c =
     (case snd (write_command lib c) of
        Inl e \<Rightarrow> (w, Err (Write_Refused e))
      | Inr _ \<Rightarrow> cw_send w (fst (write_command lib c)))"

text \<open>The writer thread: it takes an entry, and writes all of it or fails after some bytes.\<close>

definition cw_recv :: "command_writer \<Rightarrow> command_writer" where
  "cw_recv w =
     (case (cw_open w, cw_writing w, cw_queue w) of
        (True, None, bs # q) \<Rightarrow> w\<lparr>cw_writing := Some bs, cw_queue := q\<rparr>
      | _ \<Rightarrow> w)"

definition cw_written :: "command_writer \<Rightarrow> nat option \<Rightarrow> command_writer \<times> bytes" where
  "cw_written w failed_after =
     (case cw_writing w of
        None \<Rightarrow> (w, [])
      | Some bs \<Rightarrow>
          let w = w\<lparr>cw_writing := None, cw_queued := cw_queued w - length bs\<rparr> in
          (case failed_after of
             None \<Rightarrow> (w, bs)
           | Some n \<Rightarrow> (w\<lparr>cw_open := False, cw_queue := []\<rparr>, take n bs)))"

datatype writer_op = Send_Command parent_command | Thread_Recv | Thread_Written "nat option"

text \<open>One step, with the command it accepted and the bytes it put into the pipe.\<close>

fun writer_step :: "wire_lib \<Rightarrow> command_writer \<Rightarrow> writer_op \<Rightarrow> command_writer \<times> parent_command list \<times> bytes" where
  "writer_step lib w (Send_Command c) =
     (case send_command lib w c of (w', r) \<Rightarrow> (w', (case r of Inl _ \<Rightarrow> [] | Inr _ \<Rightarrow> [c]), []))"
| "writer_step lib w Thread_Recv = (cw_recv w, [], [])"
| "writer_step lib w (Thread_Written failed_after) =
     (case cw_written w failed_after of (w', bs) \<Rightarrow> (w', [], bs))"

definition accepted :: "(parent_command list \<times> bytes) list \<Rightarrow> parent_command list" where
  "accepted outs = concat (map fst outs)"

definition piped :: "(parent_command list \<times> bytes) list \<Rightarrow> bytes" where
  "piped outs = concat (map snd outs)"

definition encoded :: "wire_lib \<Rightarrow> parent_command list \<Rightarrow> bytes" where
  "encoded lib cs = concat (map (\<lambda>c. fst (write_command lib c)) cs)"

definition waiting :: "command_writer \<Rightarrow> bytes" where
  "waiting w = (case cw_writing w of None \<Rightarrow> [] | Some bs \<Rightarrow> bs) @ concat (cw_queue w)"

section \<open>Budget\<close>

definition writer_inv :: "command_writer \<Rightarrow> bool" where
  "writer_inv w \<longleftrightarrow>
     length (waiting w) \<le> cw_queued w \<and> cw_queued w \<le> cw_limit \<and> length (cw_queue w) \<le> 64
     \<and> (cw_open w \<longrightarrow> cw_queued w = length (waiting w))"

lemma writer_step_inv: "writer_inv w \<Longrightarrow> writer_inv (fst (writer_step lib w op))"
  by (cases op)
    (auto simp: writer_inv_def waiting_def send_command_def cw_send_def cw_recv_def cw_written_def Let_def
      split: sum.splits option.splits list.splits bool.splits)

interpretation writer: step_system "writer_step lib" writer_inv "\<lambda>_ _. True" for lib
  by unfold_locales (rule writer_step_inv)

section \<open>Order\<close>

text \<open>What has been piped and what waits is what was accepted, as long as no write has failed.\<close>

definition writer_rel :: "wire_lib \<Rightarrow> command_writer \<Rightarrow> parent_command list \<Rightarrow> bytes \<Rightarrow> bool" where
  "writer_rel lib w acc pipe \<longleftrightarrow>
     (if cw_open w then pipe @ waiting w = encoded lib acc
      else prefix pipe (encoded lib acc) \<and> cw_writing w = None)"

lemma writer_step_rel:
  assumes "writer_rel lib w acc pipe"
  shows "writer_rel lib (fst (writer_step lib w op)) (acc @ fst (snd (writer_step lib w op)))
    (pipe @ snd (snd (writer_step lib w op)))"
proof (cases op)
  case (Send_Command c)
  then show ?thesis
    using assms
    by (auto simp: writer_rel_def send_command_def cw_send_def waiting_def encoded_def split: sum.splits option.splits)
next
  case Thread_Recv
  then show ?thesis
    using assms by (auto simp: writer_rel_def cw_recv_def waiting_def split: bool.splits option.splits list.splits)
next
  case (Thread_Written f)
  have "pipe @ bs @ more = enc \<Longrightarrow> prefix (pipe @ take n bs) enc" for n bs more and enc :: bytes
    by (metis append.assoc append_take_drop_id prefixI)
  then show ?thesis
    using assms Thread_Written
    by (auto simp: writer_rel_def cw_written_def waiting_def Let_def split: option.splits if_splits)
qed

lemma writer_run_rel:
  "writer_rel lib w acc pipe \<Longrightarrow> r = run (writer_step lib) w ops \<Longrightarrow>
   writer_rel lib (fst r) (acc @ accepted (snd r)) (pipe @ piped (snd r))"
proof (induction ops arbitrary: w acc pipe r)
  case (Cons op ops)
  from writer_step_rel [OF Cons.prems(1), of op] Cons.IH Cons.prems(2)
  show ?case by (fastforce simp: Let_def accepted_def piped_def)
qed (simp add: accepted_def piped_def)

lemma writer_rel_prefix: "writer_rel lib w acc pipe \<Longrightarrow> prefix pipe (encoded lib acc)"
  by (auto simp: writer_rel_def split: if_splits) (metis prefixI)

fun sends :: "(parent_command \<Rightarrow> bool) \<Rightarrow> writer_op \<Rightarrow> bool" where
  "sends P (Send_Command c) = P c"
| "sends P _ = True"

lemma accepted_sendable:
  "list_all (sends (carries_command lib)) ops \<Longrightarrow>
   list_all (can_send_command lib) (accepted (snd (run (writer_step lib) w ops)))"
proof (induction ops arbitrary: w)
  case (Cons op ops)
  have "list_all (can_send_command lib) (fst (snd (writer_step lib w op)))"
    using Cons.prems
    by (cases op) (auto simp: can_send_command_def send_command_def split: sum.splits prod.splits)
  then show ?case using Cons by (simp add: Let_def accepted_def)
qed (simp add: accepted_def)

section \<open>Properties\<close>

text \<open>One step at a time, on states given by their fields.\<close>

lemma run_outputs:
  "snd (run step s []) = []"
  "snd (run step s (i # is)) = snd (step s i) # snd (run step (fst (step s i)) is)"
  by (simp_all add: Let_def)

lemma writer_step_eqs:
  "snd (write_command lib c) = Ok () \<Longrightarrow> n + length (fst (write_command lib c)) \<le> 1000 \<Longrightarrow> length q < 64 \<Longrightarrow>
   writer_step lib \<lparr>cw_queue = q, cw_writing = v, cw_queued = n, cw_open = True\<rparr> (Send_Command c)
     = (\<lparr>cw_queue = q @ [fst (write_command lib c)], cw_writing = v,
         cw_queued = n + length (fst (write_command lib c)), cw_open = True\<rparr>, [c], [])"
  "snd (write_command lib c) = Ok () \<Longrightarrow>
   writer_step lib \<lparr>cw_queue = q, cw_writing = v, cw_queued = n, cw_open = False\<rparr> (Send_Command c)
     = (\<lparr>cw_queue = q, cw_writing = v, cw_queued = n, cw_open = False\<rparr>, [], [])"
  "writer_step lib \<lparr>cw_queue = bs # q, cw_writing = None, cw_queued = n, cw_open = True\<rparr> Thread_Recv
     = (\<lparr>cw_queue = q, cw_writing = Some bs, cw_queued = n, cw_open = True\<rparr>, [], [])"
  "writer_step lib \<lparr>cw_queue = q, cw_writing = Some bs, cw_queued = n, cw_open = b\<rparr> (Thread_Written None)
     = (\<lparr>cw_queue = q, cw_writing = None, cw_queued = n - length bs, cw_open = b\<rparr>, [], bs)"
  "writer_step lib \<lparr>cw_queue = q, cw_writing = Some bs, cw_queued = n, cw_open = b\<rparr> (Thread_Written (Some k))
     = (\<lparr>cw_queue = [], cw_writing = None, cw_queued = n - length bs, cw_open = False\<rparr>, [], take k bs)"
  by (auto simp: send_command_def cw_send_def cw_recv_def cw_written_def cw_limit_def
      MAX_CLIPBOARD_WIRE_BYTES_def MAX_CLIPBOARD_BYTES_def MAX_CONTROL_BYTES_def)

text \<open>C20: The helper executes the commands its service had accepted, in order and unchanged. Over any
  interleaving of sends with the writer thread, also when a write fails half-way, what has reached
  the pipe reads as a beginning of the accepted commands, after which the reader waits for more.\<close>

theorem helper_reads_accepted_commands:
  assumes "list_all (sends (carries_command lib)) ops"
    and "outs = snd (run (writer_step lib) CommandWriter_new ops)"
  shows "\<exists>n rest. n \<le> length (accepted outs)
     \<and> read_many (read_command lib) n (piped outs) = Ok (take n (accepted outs), rest)
     \<and> read_command lib rest = Err Unexpected_Eof"
proof -
  have "writer_rel lib CommandWriter_new [] []"
    by (simp add: writer_rel_def CommandWriter_new_def waiting_def encoded_def)
  from writer_run_rel [OF this refl, of ops] have "prefix (piped outs) (encoded lib (accepted outs))"
    using assms(2) writer_rel_prefix by fastforce
  then show ?thesis
    using commands.read_stream_prefix [OF accepted_sendable [OF assms(1)]] assms(2) by (simp add: encoded_def)
qed

theorem helper_reads_accepted_commands_witness:
  "\<exists>n rest. n \<le> length [PC_StartChat, PC_BlockInput True]
     \<and> read_many (read_command witness_lib) n [10, 14] = Ok (take n [PC_StartChat, PC_BlockInput True], rest)
     \<and> read_command witness_lib rest = Err Unexpected_Eof"
proof -
  let ?ops = "[Send_Command PC_StartChat, Thread_Recv, Send_Command (PC_BlockInput True), Thread_Written None,
    Thread_Recv, Thread_Written (Some 1), Send_Command PC_Stop]"
  have ops: "list_all (sends (carries_command witness_lib)) ?ops" by simp
  have outs: "snd (run (writer_step witness_lib) CommandWriter_new ?ops)
      = [([PC_StartChat], []), ([], []), ([PC_BlockInput True], []), ([], [10]), ([], []), ([], [14]), ([], [])]"
    by (simp add: run_outputs writer_step_eqs CommandWriter_new_def bool_byte_def del: run.simps writer_step.simps)
  show ?thesis
    using helper_reads_accepted_commands [OF ops refl] unfolding outs by (simp add: accepted_def piped_def)
qed

text \<open>The writer's memory is bounded: at most 64 commands are queued, the bytes waiting for the helper stay
  within the budget of two clipboards and a control message, and while the pipe works the budget is
  exactly the bytes that wait, so what is written becomes available again.\<close>

theorem writer_budget:
  "case run (writer_step lib) CommandWriter_new ops of (w, outs) \<Rightarrow>
     length (cw_queue w) \<le> 64 \<and> length (waiting w) \<le> cw_queued w \<and> cw_queued w \<le> 67174528
     \<and> (if cw_open w then cw_queued w = length (waiting w) else True)"
proof -
  have legal: "writer.legal_run lib s is" for s "is" by (induction "is" arbitrary: s) auto
  have "writer_inv CommandWriter_new" by (simp add: writer_inv_def CommandWriter_new_def waiting_def)
  from writer.run_inv [OF this legal] have "writer_inv (fst (run (writer_step lib) CommandWriter_new ops))" .
  then show ?thesis
    by (auto simp: writer_inv_def cw_limit_def MAX_CLIPBOARD_WIRE_BYTES_def MAX_CLIPBOARD_BYTES_def MAX_CONTROL_BYTES_def
        split: prod.splits)
qed

end
