(* ===== verification/Schedule.thy ===== *)
theory Schedule
  imports Prelude Rust_Strings
begin

text \<open>
  When an automation policy fires (\<open>server/src/automation/schedule.rs\<close>): weekday sets, triggers, the
  next firing and the \<open>HH:MM\<close> times of day. Milliseconds and dates are integers: \<open>i64\<close> milliseconds do
  not overflow for the intervals the API admits. A date is its day number from 1 January 1970, a local
  date and time the seconds from that day's midnight. The time-zone database is a record of parameters:
  the local date of a moment and the first moment with a local time.
\<close>

unbundle bit_operations_syntax

section \<open>Days of the week\<close>

definition MINUTE_MS :: int where "MINUTE_MS = 60 * 1000"

definition MIN_INTERVAL_MINUTES :: int where "MIN_INTERVAL_MINUTES = 5"

definition MAX_INTERVAL_MINUTES :: int where "MAX_INTERVAL_MINUTES = 28 * 24 * 60"

datatype weekdays = Weekdays u8

definition Weekdays_ALL :: weekdays where "Weekdays_ALL = Weekdays 0x7F"

fun from_days_loop :: "u8 \<Rightarrow> u8 list \<Rightarrow> u8 option" where
  "from_days_loop bits [] = Some bits"
| "from_days_loop bits (day # days) =
     (if \<not> (1 \<le> day \<and> day \<le> 7) then None
      else from_days_loop (bits OR push_bit (unat (day - 1)) 1) days)"

definition from_days :: "u8 list \<Rightarrow> weekdays option" where
  "from_days days =
     (case from_days_loop 0 days of None \<Rightarrow> None | Some bits \<Rightarrow> if bits \<noteq> 0 then Some (Weekdays bits) else None)"

definition from_bits :: "int \<Rightarrow> weekdays option" where
  "from_bits bits = (if 0 \<le> bits \<and> bits \<le> 255 \<and> bits \<noteq> 0 \<and> bits \<le> 0x7F then Some (Weekdays (word_of_int bits)) else None)"

fun weekdays_bits :: "weekdays \<Rightarrow> int" where
  "weekdays_bits (Weekdays b) = uint b"

fun days_of :: "weekdays \<Rightarrow> u8 list" where
  "days_of (Weekdays b) = filter (\<lambda>day. b AND push_bit (unat (day - 1)) 1 \<noteq> 0) [1, 2, 3, 4, 5, 6, 7]"

text \<open>1 January 1970 was a Thursday.\<close>

definition number_from_monday :: "int \<Rightarrow> nat" where
  "number_from_monday date = nat ((date + 3) mod 7) + 1"

fun contains_date :: "weekdays \<Rightarrow> int \<Rightarrow> bool" where
  "contains_date (Weekdays b) date \<longleftrightarrow> b AND push_bit (number_from_monday date - 1) 1 \<noteq> 0"

section \<open>Triggers\<close>

record 'tz zone_lib =
  timestamp_ok :: "int \<Rightarrow> bool"
  local_date :: "'tz \<Rightarrow> int \<Rightarrow> int"
  earliest :: "'tz \<Rightarrow> int \<Rightarrow> int option"
  date_ok :: "int \<Rightarrow> bool"

datatype 'tz trigger =
    Interval int
  | Daily nat 'tz
  | Weekly weekdays nat 'tz
  | Once int 'tz
  | Enroll

fun trigger_kind :: "'tz trigger \<Rightarrow> string" where
  "trigger_kind (Interval minutes) = ''interval''"
| "trigger_kind (Daily time zone) = ''daily''"
| "trigger_kind (Weekly days time zone) = ''weekly''"
| "trigger_kind (Once at zone) = ''once''"
| "trigger_kind Enroll = ''enroll''"

definition scheduled :: "'tz trigger \<Rightarrow> bool" where
  "scheduled t = (case t of Enroll \<Rightarrow> False | _ \<Rightarrow> True)"

definition catches_up_late :: "'tz trigger \<Rightarrow> bool" where
  "catches_up_late t = (case t of Interval _ \<Rightarrow> True | _ \<Rightarrow> False)"

fun resolve_from :: "'tz zone_lib \<Rightarrow> 'tz \<Rightarrow> int \<Rightarrow> nat \<Rightarrow> nat \<Rightarrow> int option" where
  "resolve_from lib zone local minute 0 = None"
| "resolve_from lib zone local minute (Suc left) =
     (case earliest lib zone (local + 60 * int minute) of
        Some at \<Rightarrow> Some at
      | None \<Rightarrow> resolve_from lib zone local (Suc minute) left)"

definition resolve :: "'tz zone_lib \<Rightarrow> 'tz \<Rightarrow> int \<Rightarrow> int option" where
  "resolve lib zone local =
     (case earliest lib zone local of Some at \<Rightarrow> Some at | None \<Rightarrow> resolve_from lib zone local 1 (24 * 60))"

definition and_time :: "int \<Rightarrow> nat \<Rightarrow> int" where
  "and_time date time = date * 86400 + int time"

fun next_on_days_loop :: "'tz zone_lib \<Rightarrow> int \<Rightarrow> nat \<Rightarrow> 'tz \<Rightarrow> weekdays \<Rightarrow> int \<Rightarrow> nat \<Rightarrow> int option" where
  "next_on_days_loop lib after_ms time zone days date 0 = None"
| "next_on_days_loop lib after_ms time zone days date (Suc left) =
     (case (if contains_date days date then resolve lib zone (and_time date time) else None) of
        Some at \<Rightarrow>
          if at > after_ms then Some at
          else if date_ok lib (date + 1) then next_on_days_loop lib after_ms time zone days (date + 1) left
          else None
      | None \<Rightarrow>
          if date_ok lib (date + 1) then next_on_days_loop lib after_ms time zone days (date + 1) left
          else None)"

definition next_on_days :: "'tz zone_lib \<Rightarrow> int \<Rightarrow> nat \<Rightarrow> 'tz \<Rightarrow> weekdays \<Rightarrow> int option" where
  "next_on_days lib after_ms time zone days =
     (if \<not> timestamp_ok lib after_ms then None
      else next_on_days_loop lib after_ms time zone days (local_date lib zone after_ms) 9)"

fun next_after :: "'tz zone_lib \<Rightarrow> 'tz trigger \<Rightarrow> int \<Rightarrow> int \<Rightarrow> int option" where
  "next_after lib (Interval minutes) after_ms anchor_ms =
     (let step = max minutes 1 * MINUTE_MS;
          periods = (if after_ms < anchor_ms then 1 else (after_ms - anchor_ms) div step + 1)
      in Some (anchor_ms + periods * step))"
| "next_after lib (Daily time zone) after_ms anchor_ms = next_on_days lib after_ms time zone Weekdays_ALL"
| "next_after lib (Weekly days time zone) after_ms anchor_ms = next_on_days lib after_ms time zone days"
| "next_after lib (Once at zone) after_ms anchor_ms =
     (case resolve lib zone at of Some m \<Rightarrow> if m > after_ms then Some m else None | None \<Rightarrow> None)"
| "next_after lib Enroll after_ms anchor_ms = None"

section \<open>Times of day\<close>

text \<open>\<open>str::parse::<u32>\<close>: an optional plus sign and decimal digits, at most \<open>u32::MAX\<close>.\<close>

definition parse_u32 :: "rust_string \<Rightarrow> nat option" where
  "parse_u32 s =
     (let digits = (case s of c # cs \<Rightarrow> if c = 43 then cs else s | [] \<Rightarrow> []) in
      if digits = [] \<or> \<not> list_all (\<lambda>c. 48 \<le> c \<and> c \<le> 57) digits \<or> 2 ^ 32 \<le> parse_digits digits then None
      else Some (parse_digits digits))"

definition parse_time_of_day :: "rust_string \<Rightarrow> nat option" where
  "parse_time_of_day s =
     (case split_once 58 s of
        None \<Rightarrow> None
      | Some (hours, minutes) \<Rightarrow>
          if str_len hours \<noteq> 2 \<or> str_len minutes \<noteq> 2 then None
          else (case (parse_u32 hours, parse_u32 minutes) of
                  (Some h, Some m) \<Rightarrow> if h < 24 \<and> m < 60 then Some (h * 3600 + m * 60) else None
                | _ \<Rightarrow> None))"

definition two_digits :: "nat \<Rightarrow> rust_string" where
  "two_digits n = [48 + n div 10, 48 + n mod 10]"

definition format_time_of_day :: "nat \<Rightarrow> rust_string" where
  "format_time_of_day time = two_digits (time div 3600) @ [58] @ two_digits (time div 60 mod 60)"

section \<open>Lemmas\<close>

lemma and_one_bit: "b AND push_bit n 1 \<noteq> 0 \<longleftrightarrow> bit b n" for b :: u8
  using and_exp_eq_0_iff_not_bit [of b n] by (simp add: push_bit_eq_mult)

lemma days_of_bits: "days_of (Weekdays b) = filter (\<lambda>d. bit b (unat (d - 1))) [1, 2, 3, 4, 5, 6, 7]"
  unfolding days_of.simps and_one_bit by (rule refl)

lemma contains_date_bit: "contains_date (Weekdays b) date \<longleftrightarrow> bit b (nat ((date + 3) mod 7))"
  unfolding contains_date.simps and_one_bit by (simp add: number_from_monday_def)

declare contains_date.simps [simp del]

lemma from_days_loop_bits:
  "case from_days_loop b ds of
     None \<Rightarrow> list_ex (\<lambda>d. d < 1 \<or> 7 < d) ds
   | Some b' \<Rightarrow> list_all (\<lambda>d. 1 \<le> d \<and> d \<le> 7) ds \<and> (\<forall>n. bit b' n \<longleftrightarrow> bit b n \<or> (\<exists>d \<in> set ds. unat (d - 1) = n))"
proof (induction b ds rule: from_days_loop.induct)
  case (2 b d ds)
  show ?case
  proof (cases "1 \<le> d \<and> d \<le> 7")
    case False
    then show ?thesis by (auto simp: not_le)
  next
    case True
    then have "unat d \<le> 7" "1 \<le> unat d" by (simp_all add: word_le_nat_alt)
    then have small: "unat (d - 1) < 8" using True by (simp add: unat_sub)
    have "bit (b OR push_bit (unat (d - 1)) 1) n \<longleftrightarrow> bit b n \<or> unat (d - 1) = n" for n
      using small by (auto simp: bit_or_iff bit_exp_iff push_bit_eq_mult possible_bit_def exp_eq_zero_iff)
    then show ?thesis using 2 True by (auto split: option.splits)
  qed
qed simp

lemma uint_bits_range:
  fixes b :: u8
  assumes "\<And>n. bit b n \<Longrightarrow> n < 7"
  shows "uint b \<le> 0x7F"
proof -
  have "take_bit 7 b = b" using assms by (auto simp: bit_eq_iff bit_take_bit_iff)
  then have "uint b = take_bit 7 (uint b)" by (metis unsigned_take_bit_eq)
  then show ?thesis using take_bit_int_less_exp [of 7 "uint b"] by simp
qed

text \<open>The dates the search tries, and the first that fires.\<close>

definition fires_at :: "'tz zone_lib \<Rightarrow> int \<Rightarrow> nat \<Rightarrow> 'tz \<Rightarrow> weekdays \<Rightarrow> int \<Rightarrow> int option" where
  "fires_at lib after_ms time zone days date =
     (case (if contains_date days date then resolve lib zone (and_time date time) else None) of
        Some at \<Rightarrow> if at > after_ms then Some at else None
      | None \<Rightarrow> None)"

lemma next_on_days_loop_first:
  assumes "fires_at lib after_ms time zone days (date + int k) = Some at" "k < n"
    and "\<forall>j < k. fires_at lib after_ms time zone days (date + int j) = None"
    and "\<forall>j < n. date_ok lib (date + 1 + int j)"
  shows "next_on_days_loop lib after_ms time zone days date n = Some at"
  using assms
proof (induction n arbitrary: date k)
  case (Suc n)
  show ?case
  proof (cases k)
    case 0
    then show ?thesis using Suc.prems(1) by (auto simp: fires_at_def split: option.splits if_splits)
  next
    case (Suc j)
    have next_ok: "next_on_days_loop lib after_ms time zone days (date + 1) n = Some at"
    proof (rule Suc.IH [of "date + 1" j])
      show "fires_at lib after_ms time zone days (date + 1 + int j) = Some at"
        using Suc.prems(1) Suc by (simp add: algebra_simps)
      show "\<forall>i < j. fires_at lib after_ms time zone days (date + 1 + int i) = None"
        using Suc.prems(3) Suc by (metis Suc_less_eq add.assoc add.commute of_nat_Suc)
      show "\<forall>i < n. date_ok lib (date + 1 + 1 + int i)"
        using Suc.prems(4) by (metis Suc_less_eq add.assoc add.commute of_nat_Suc)
    qed (use Suc.prems(2) Suc in simp)
    have "fires_at lib after_ms time zone days date = None" using Suc.prems(3) Suc by force
    moreover have "date_ok lib (date + 1)" using Suc.prems(4) by force
    ultimately show ?thesis using next_ok by (auto simp: fires_at_def split: option.splits if_splits)
  qed
qed simp

lemma some_day_of_week:
  assumes "bit b m" "m < 7"
  shows "\<exists>k. 2 \<le> k \<and> k < 9 \<and> contains_date (Weekdays b) (date + int k)"
proof -
  define k where "k = nat ((int m - date - 5) mod 7) + 2"
  have "(date + int k + 3) mod 7 = int m mod 7"
  proof -
    have "int k = (int m - date - 5) mod 7 + 2" by (simp add: k_def)
    then have "date + int k + 3 = (int m - date - 5) mod 7 + (date + 5)" by simp
    also have "\<dots> mod 7 = (int m - date - 5 + (date + 5)) mod 7" by (simp only: mod_add_left_eq)
    finally show ?thesis by simp
  qed
  then have "contains_date (Weekdays b) (date + int k)"
    using assms by (simp add: contains_date_bit)
  moreover have "2 \<le> k" "k < 9" by (simp_all add: k_def nat_less_iff)
  ultimately show ?thesis by blast
qed

section \<open>Properties\<close>

text \<open>An interval policy fires at the anchor plus a whole number of periods: the closed form the code
  computes is the first such time, at least one period after the anchor, that is later than the moment
  asked about.\<close>

theorem interval_fires_at_least_multiple:
  "next_after lib (Interval minutes) after_ms anchor_ms =
     Some (anchor_ms + int (LEAST k. 1 \<le> k \<and> after_ms < anchor_ms + int k * (max minutes 1 * MINUTE_MS))
       * (max minutes 1 * MINUTE_MS))"
proof -
  define step where "step = max minutes 1 * MINUTE_MS"
  have pos: "0 < step" by (simp add: step_def MINUTE_MS_def)
  define periods where "periods = (if after_ms < anchor_ms then 1 else (after_ms - anchor_ms) div step + 1)"
  have p1: "1 \<le> periods" using pos by (simp add: periods_def pos_imp_zdiv_nonneg_iff)
  have later: "after_ms < anchor_ms + periods * step"
  proof (cases "after_ms < anchor_ms")
    case False
    have "after_ms - anchor_ms < (after_ms - anchor_ms) div step * step + step"
      using div_mult_mod_eq [of "after_ms - anchor_ms" step] pos_mod_bound [OF pos, of "after_ms - anchor_ms"] by linarith
    then show ?thesis using False by (simp add: periods_def distrib_right)
  qed (use pos in \<open>simp add: periods_def\<close>)
  have least: "periods \<le> int k" if "1 \<le> k" "after_ms < anchor_ms + int k * step" for k
  proof (cases "after_ms < anchor_ms")
    case False
    have "(after_ms - anchor_ms) div step < int k"
    proof (rule ccontr)
      assume "\<not> (after_ms - anchor_ms) div step < int k"
      then have "int k * step \<le> (after_ms - anchor_ms) div step * step" using pos by simp
      then show False
        using that(2) div_mult_mod_eq [of "after_ms - anchor_ms" step] pos_mod_sign [OF pos, of "after_ms - anchor_ms"]
        by linarith
    qed
    then show ?thesis using False by (simp add: periods_def)
  qed (use that in \<open>simp add: periods_def\<close>)
  have "(LEAST k. 1 \<le> k \<and> after_ms < anchor_ms + int k * step) = nat periods"
    by (rule Least_equality) (use p1 later least in \<open>auto simp: nat_le_iff\<close>)
  then show ?thesis using p1 by (simp add: step_def periods_def Let_def)
qed

text \<open>C40: A weekly policy always fires again, and at the right time. For every non-empty set of days, if from
  the second day after the moment asked about its time of day comes later than that moment (clock
  changes can move the next day's time before it), the search through nine days finds the first date, from the local date on,
  that is one of the days and whose time is later.\<close>

theorem weekly_finds_next:
  assumes "timestamp_ok lib after_ms" "from_bits bits = Some days"
    and "\<forall>k < 9. date_ok lib (local_date lib zone after_ms + 1 + int k)"
    and "\<forall>k \<in> {2..<9}. \<exists>at > after_ms. resolve lib zone (and_time (local_date lib zone after_ms + int k) time) = Some at"
  shows "\<exists>k at. next_after lib (Weekly days time zone) after_ms anchor_ms = Some at \<and> k < 9 \<and> at > after_ms
     \<and> contains_date days (local_date lib zone after_ms + int k)
     \<and> resolve lib zone (and_time (local_date lib zone after_ms + int k) time) = Some at
     \<and> list_all (\<lambda>j. fires_at lib after_ms time zone days (local_date lib zone after_ms + int j) = None) [0..<k]"
proof -
  let ?date = "local_date lib zone after_ms" and ?fires = "\<lambda>k. fires_at lib after_ms time zone days (local_date lib zone after_ms + int k)"
  obtain b where days: "days = Weekdays b" "uint b \<le> 0x7F" "b \<noteq> 0"
  proof (rule that)
    have r: "0 < bits" "bits \<le> 0x7F" "days = Weekdays (word_of_int bits)"
      using assms(2) by (auto simp: from_bits_def split: if_splits)
    then have "uint (word_of_int bits :: u8) = bits" by (simp add: uint_word_of_int take_bit_int_eq_self)
    then show "days = Weekdays (word_of_int bits)" "uint (word_of_int bits :: u8) \<le> 0x7F" "(word_of_int bits :: u8) \<noteq> 0"
      using r by (auto simp flip: unsigned_eq_0_iff)
  qed
  obtain m where "bit b m" using days(3) by (metis bit_eq_iff bit_0_eq bot_apply bot_bool_def)
  moreover have "m < 7"
  proof (rule ccontr)
    assume "\<not> m < 7"
    moreover have "m < 8" using \<open>bit b m\<close> bit_imp_le_length by fastforce
    ultimately have "m = 7" by simp
    then have "bit (uint b) 7" using \<open>bit b m\<close> by (simp add: bit_uint_iff)
    moreover have "take_bit 7 (uint b) = uint b"
      using days(2) uint_nonnegative [of b] by (simp add: take_bit_int_eq_self_iff)
    ultimately show False by (metis bit_take_bit_iff less_irrefl)
  qed
  ultimately obtain k where k: "2 \<le> k" "k < 9" "contains_date days (?date + int k)"
    using some_day_of_week days(1) by blast
  then have "?fires k \<noteq> None" using assms(4) by (force simp: fires_at_def)
  define first where "first = (LEAST k. ?fires k \<noteq> None)"
  have f: "?fires first \<noteq> None" "first \<le> k" "\<forall>j < first. ?fires j = None"
    unfolding first_def
    by (rule LeastI [of "\<lambda>k. ?fires k \<noteq> None", OF \<open>?fires k \<noteq> None\<close>],
      rule Least_le [of "\<lambda>k. ?fires k \<noteq> None", OF \<open>?fires k \<noteq> None\<close>], blast dest: not_less_Least)
  then obtain at where at: "?fires first = Some at" by blast
  have "next_on_days_loop lib after_ms time zone days ?date 9 = Some at"
    by (rule next_on_days_loop_first [OF at _ f(3)]) (use f(2) k(2) assms(3) in auto)
  then show ?thesis
    using at f k assms(1)
    by (intro exI [of _ first] exI [of _ at])
      (auto simp: next_on_days_def fires_at_def list_all_iff split: option.splits if_splits)
qed

definition utc_lib :: "unit zone_lib" where
  "utc_lib = \<lparr>timestamp_ok = (\<lambda>_. True), local_date = (\<lambda>_ ms. ms div 86400000),
     earliest = (\<lambda>_ local. Some (local * 1000)), date_ok = (\<lambda>_. True)\<rparr>"

theorem weekly_finds_next_witness:
  "\<exists>k at. next_after utc_lib (Weekly (Weekdays 1) 3600 ()) 0 5 = Some at \<and> k < 9 \<and> at > 0
     \<and> contains_date (Weekdays 1) (int k) \<and> resolve utc_lib () (and_time (int k) 3600) = Some at"
  using weekly_finds_next [of utc_lib 0 1 "Weekdays 1" "()" 3600 5]
  by (auto simp: utc_lib_def from_bits_def resolve_def and_time_def)

text \<open>A set of weekdays survives storage and display. From ISO day numbers, the set is refused exactly when a
  number is out of range or there is none; otherwise it lists the given days once each from Monday on,
  and reading back its stored bits gives the same set.\<close>

theorem weekdays_roundtrip:
  "case from_days ds of
     None \<Rightarrow> ds = [] \<or> list_ex (\<lambda>d. d < 1 \<or> 7 < d) ds
   | Some w \<Rightarrow> days_of w = filter (\<lambda>d. d \<in> set ds) [1, 2, 3, 4, 5, 6, 7] \<and> from_bits (weekdays_bits w) = Some w"
proof (cases "from_days_loop 0 ds")
  case None
  then show ?thesis using from_days_loop_bits [of ds 0] by (simp add: from_days_def)
next
  case (Some b)
  have range: "\<forall>d \<in> set ds. 1 \<le> d \<and> d \<le> 7" and bits: "bit b n \<longleftrightarrow> (\<exists>d \<in> set ds. unat (d - 1) = n)" for n
    using from_days_loop_bits [of ds 0] Some by (auto simp: list_all_iff)
  have unat: "unat (d - 1) = unat d - 1" "1 \<le> unat d" "unat d \<le> 7" if "1 \<le> d" "d \<le> 7" for d :: u8
    using that by (simp_all add: unat_sub word_le_nat_alt)
  show ?thesis
  proof (cases "b = 0")
    case True
    then have "ds = []" using bits by (metis bit_0_eq bot_apply bot_bool_def ex_in_conv set_empty)
    then show ?thesis using Some True by (simp add: from_days_def)
  next
    case False
    have same: "bit b (unat (d - 1)) \<longleftrightarrow> d \<in> set ds" if "1 \<le> d" "d \<le> 7" for d
    proof -
      have "d' = d" if "d' \<in> set ds" "unat (d' - 1) = unat (d - 1)" for d'
        using that range unat [OF \<open>1 \<le> d\<close> \<open>d \<le> 7\<close>] unat [of d']
        by (metis Suc_diff_1 add_leD1 diff_is_0_eq le_add_diff_inverse word_unat_eq_iff)
      then show ?thesis using bits by blast
    qed
    have "\<forall>d \<in> set [1, 2, 3, 4, 5, 6, 7 :: u8]. 1 \<le> d \<and> d \<le> 7" by simp
    then have days: "days_of (Weekdays b) = filter (\<lambda>d. d \<in> set ds) [1, 2, 3, 4, 5, 6, 7]"
      unfolding days_of_bits using same by (intro filter_cong refl) blast
    have "n < 7" if "bit b n" for n using that bits range unat by fastforce
    then have "uint b \<le> 0x7F" by (rule uint_bits_range)
    then have "from_bits (weekdays_bits (Weekdays b)) = Some (Weekdays b)"
      using False by (simp add: from_bits_def unsigned_eq_0_iff)
    then show ?thesis using Some False days by (simp add: from_days_def)
  qed
qed

lemma two_digits_parse: "n < 100 \<Longrightarrow> parse_u32 (two_digits n) = Some n \<and> str_len (two_digits n) = 2 \<and> 58 \<notin> set (two_digits n)"
  by (auto simp: parse_u32_def two_digits_def parse_digits_def str_len_def utf8_len_def Let_def)

lemma time_of_day_roundtrip:
  assumes "time < 86400"
  shows "parse_time_of_day (format_time_of_day time) = Some (time div 60 * 60)"
proof -
  define h m where "h = time div 3600" and "m = time div 60 mod 60"
  have hm: "h < 24" "m < 60" using assms by (simp_all add: h_def m_def)
  have "time div 3600 = time div 60 div 60" using div_mult2_eq [of time 60 60] by simp
  then have "time div 60 = h * 60 + m"
    using div_mult_mod_eq [of "time div 60" 60] by (simp add: h_def m_def)
  then have "time div 60 * 60 = h * 3600 + m * 60" by simp
  moreover have "split_once 58 (two_digits h @ [58] @ two_digits m) = Some (two_digits h, two_digits m)"
    using two_digits_parse [of h] hm by (auto simp: split_once_def two_digits_def)
  ultimately show ?thesis
    using hm two_digits_parse [of h] two_digits_parse [of m]
    by (simp add: parse_time_of_day_def format_time_of_day_def flip: h_def m_def)
qed

text \<open>A plus sign is read as part of a two-character number, so \<open>HH:MM\<close> is not the only form accepted.\<close>

lemma plus_sign_accepted: "parse_time_of_day (lit ''+5:+3'') = Some (5 * 3600 + 3 * 60)"
  by (simp add: parse_time_of_day_def split_once_def parse_u32_def parse_digits_def str_len_def utf8_len_def)

end
