(* ===== verification/Wake.thy ===== *)
theory Wake
  imports Rust_Strings "HOL-Library.List_Lexorder" "HOL-Library.Product_Lexorder"
begin

text \<open>
  Wake-on-LAN (\<open>crates/protocol-types/src/wake.rs\<close> and \<open>server/src/wake/relays.rs\<close>): hardware
  addresses, magic packets, subnets, and the choice of the online devices that wake an offline one. An
  IPv4 address is its 32-bit number. Unicode lowercasing is a parameter.
\<close>

unbundle bit_operations_syntax

section \<open>Hardware addresses and packets\<close>

definition MAGIC_PACKET_BYTES :: nat where "MAGIC_PACKET_BYTES = 102"

definition MIN_WAKE_PREFIX_LENGTH :: u8 where "MIN_WAKE_PREFIX_LENGTH = 8"

definition MAX_WAKE_PREFIX_LENGTH :: u8 where "MAX_WAKE_PREFIX_LENGTH = 30"

definition to_digit_16 :: "rust_char \<Rightarrow> u8 option" where
  "to_digit_16 c =
     (if 48 \<le> c \<and> c \<le> 57 then Some (word_of_nat (c - 48))
      else if 97 \<le> c \<and> c \<le> 102 then Some (word_of_nat (c - 87))
      else if 65 \<le> c \<and> c \<le> 70 then Some (word_of_nat (c - 55)) else None)"

definition pair_byte :: "u8 list \<Rightarrow> u8" where
  "pair_byte p = (case p of [hi, lo] \<Rightarrow> push_bit 4 hi OR lo | _ \<Rightarrow> 0)"

definition parse_mac :: "rust_string \<Rightarrow> u8 list option" where
  "parse_mac s =
     (case those (map to_digit_16 (filter (\<lambda>c. c \<notin> {58, 45, 46}) s)) of
        None \<Rightarrow> None
      | Some digits \<Rightarrow>
          if length digits \<noteq> 12 then None
          else
            let mac = map pair_byte (chunks 2 digits) in
            if mac \<noteq> [0, 0, 0, 0, 0, 0] \<and> hd mac AND 1 = 0 then Some mac else None)"

definition magic_packet :: "u8 list \<Rightarrow> u8 list" where
  "magic_packet mac =
     (let packet = replicate MAGIC_PACKET_BYTES 0xFF in
      take 6 packet @ concat (map (\<lambda>_. mac) (chunks 6 (drop 6 packet))))"

section \<open>Subnets\<close>

definition subnet_mask :: "u8 \<Rightarrow> u32" where
  "subnet_mask prefix_length =
     (if prefix_length = 0 then 0 else push_bit (32 - unat (min prefix_length 32)) (- 1))"

definition directed_broadcast :: "u32 \<Rightarrow> u8 \<Rightarrow> u32" where
  "directed_broadcast address prefix_length = address OR NOT (subnet_mask prefix_length)"

definition on_subnet :: "u32 \<Rightarrow> u32 \<Rightarrow> u8 \<Rightarrow> bool" where
  "on_subnet address broadcast prefix_length \<longleftrightarrow> directed_broadcast address prefix_length = broadcast"

definition wake_prefix_supported :: "u8 \<Rightarrow> bool" where
  "wake_prefix_supported prefix_length \<longleftrightarrow>
     MIN_WAKE_PREFIX_LENGTH \<le> prefix_length \<and> prefix_length \<le> MAX_WAKE_PREFIX_LENGTH"

section \<open>Relays\<close>

datatype adapter_kind = Ethernet | Wireless | Virtual | Other_Adapter

record wake_address =
  wa_address :: u32
  wa_prefix_length :: u8
  wa_kind :: adapter_kind

definition octet :: "nat \<Rightarrow> u32 \<Rightarrow> nat" where
  "octet i a = unat (take_bit 8 (drop_bit (24 - 8 * i) a))"

definition address_usable :: "wake_address \<Rightarrow> bool" where
  "address_usable a \<longleftrightarrow>
     (let ip = wa_address a in
      wake_prefix_supported (wa_prefix_length a)
      \<and> octet 0 ip \<noteq> 127
      \<and> \<not> (octet 0 ip = 169 \<and> octet 1 ip = 254)
      \<and> ip \<noteq> 0
      \<and> \<not> (224 \<le> octet 0 ip \<and> octet 0 ip \<le> 239)
      \<and> ip \<noteq> - 1
      \<and> directed_broadcast ip (wa_prefix_length a) \<noteq> ip)"

definition address_hardware :: "wake_address \<Rightarrow> bool" where
  "address_hardware a \<longleftrightarrow> wa_kind a \<noteq> Virtual"

record wake_candidate =
  ca_device_id :: rust_string
  ca_name :: rust_string
  ca_public_ip :: "rust_string option"
  ca_company_id :: "rust_string option"
  ca_addresses :: "wake_address list"

record wake_target =
  ta_device_id :: rust_string
  ta_public_ip :: "rust_string option"
  ta_company_id :: "rust_string option"
  ta_addresses :: "wake_address list"

record wake_chosen =
  wc_device_id :: rust_string
  wc_name :: rust_string
  wc_subnets :: "(u32 \<times> u8) list"

type_synonym wake_match = "(bool \<times> nat \<times> bool) \<times> wake_candidate \<times> (u32 \<times> u8) list"

text \<open>The subnets a candidate's address shares with the wanted addresses, and the best hardware rank.\<close>

definition share :: "wake_address \<Rightarrow> wake_address \<Rightarrow> bool" where
  "share relay wanted \<longleftrightarrow>
     directed_broadcast (wa_address wanted) (wa_prefix_length relay)
       = directed_broadcast (wa_address relay) (wa_prefix_length relay)
     \<and> (address_hardware relay \<or> address_hardware wanted)"

definition hardware_ends :: "wake_address \<Rightarrow> wake_address \<Rightarrow> nat" where
  "hardware_ends relay wanted = of_bool (address_hardware relay) + of_bool (address_hardware wanted)"

definition best_of :: "nat option \<Rightarrow> nat \<Rightarrow> nat option" where
  "best_of best h = (case best of None \<Rightarrow> Some h | Some b \<Rightarrow> Some (max b h))"

definition try_pair ::
    "nat option \<times> (u32 \<times> u8) list \<Rightarrow> wake_address \<times> wake_address \<Rightarrow> nat option \<times> (u32 \<times> u8) list" where
  "try_pair acc p =
     (case (acc, p) of ((best, subnets), (relay, wanted)) \<Rightarrow>
        if \<not> share relay wanted then (best, subnets)
        else (best_of best (hardware_ends relay wanted),
              btree_insert (directed_broadcast (wa_address relay) (wa_prefix_length relay)) (wa_prefix_length relay) subnets))"

definition shared_subnets :: "wake_address list \<Rightarrow> wake_address list \<Rightarrow> nat option \<times> (u32 \<times> u8) list" where
  "shared_subnets relays targets =
     foldl try_pair (None, []) (concat (map (\<lambda>relay. map (\<lambda>wanted. (relay, wanted)) targets) relays))"

definition match_candidate :: "wake_target \<Rightarrow> wake_candidate \<Rightarrow> wake_match option" where
  "match_candidate target candidate =
     (if ca_device_id candidate = ta_device_id target then None
      else case shared_subnets (filter address_usable (ca_addresses candidate)) (filter address_usable (ta_addresses target)) of
        (None, _) \<Rightarrow> None
      | (Some hardware, subnets) \<Rightarrow>
          let same_site = (ta_public_ip target \<noteq> None \<and> ca_public_ip candidate = ta_public_ip target);
              same_company = (ta_company_id target \<noteq> None \<and> ca_company_id candidate = ta_company_id target)
          in Some ((same_site, hardware, same_company), candidate, subnets))"

fun same_site :: "wake_match \<Rightarrow> bool" where
  "same_site ((site, hardware, company), candidate, subnets) = site"

text \<open>Best first: the rank downwards, then the name and the ID upwards. The hardware rank is at most 2.\<close>

fun match_key ::
    "(rust_string \<Rightarrow> rust_string) \<Rightarrow> wake_match \<Rightarrow> (bool \<times> nat \<times> bool) \<times> rust_string \<times> rust_string" where
  "match_key lower ((site, hardware, company), candidate, subnets) =
     ((\<not> site, 2 - hardware, \<not> company), lower (ca_name candidate), ca_device_id candidate)"

fun chosen_of :: "wake_match \<Rightarrow> wake_chosen" where
  "chosen_of (rank, candidate, subnets) =
     \<lparr>wc_device_id = ca_device_id candidate, wc_name = ca_name candidate, wc_subnets = subnets\<rparr>"

definition choose_matches :: "wake_target \<Rightarrow> wake_candidate list \<Rightarrow> wake_match list" where
  "choose_matches target candidates =
     (let matches = List.map_filter (match_candidate target) candidates in
      if list_ex same_site matches then filter same_site matches else matches)"

definition choose_relays :: "(rust_string \<Rightarrow> rust_string) \<Rightarrow> wake_target \<Rightarrow> wake_candidate list \<Rightarrow> nat \<Rightarrow> wake_chosen list" where
  "choose_relays lower target candidates limit =
     map chosen_of (take limit (sort_key (match_key lower) (choose_matches target candidates)))"

section \<open>Subnets as prefixes\<close>

lemma bit_subnet_mask:
  assumes "unat p \<le> 32"
  shows "bit (subnet_mask p) i \<longleftrightarrow> i < 32 \<and> 32 - unat p \<le> i"
proof -
  have "min p 32 = p" using assms by (simp add: min_def word_le_nat_alt)
  then show ?thesis
    by (cases "p = 0") (auto simp: subnet_mask_def bit_not_iff bit_mask_iff unat_gt_0)
qed

lemma bit_directed_broadcast:
  "unat p \<le> 32 \<Longrightarrow> bit (directed_broadcast a p) i \<longleftrightarrow> i < 32 \<and> (bit a i \<or> i < 32 - unat p)"
  by (auto simp: directed_broadcast_def bit_or_iff bit_not_iff bit_subnet_mask dest: bit_imp_le_length)

lemma same_subnet_iff:
  assumes "unat p \<le> 32"
  shows "directed_broadcast a p = directed_broadcast b p \<longleftrightarrow> drop_bit (32 - unat p) a = drop_bit (32 - unat p) b"
proof -
  have "directed_broadcast a p = directed_broadcast b p \<longleftrightarrow> (\<forall>i < 32. 32 - unat p \<le> i \<longrightarrow> bit a i = bit b i)"
    using assms by (auto simp: bit_eq_iff bit_directed_broadcast)
  also have "\<dots> \<longleftrightarrow> (\<forall>n. bit a (32 - unat p + n) = bit b (32 - unat p + n))"
  proof -
    have "bit w i \<Longrightarrow> i < 32" for w :: u32 and i using bit_imp_le_length [of w i] by simp
    then show ?thesis by (metis le_add1 le_add_diff_inverse)
  qed
  also have "\<dots> \<longleftrightarrow> drop_bit (32 - unat p) a = drop_bit (32 - unat p) b"
    using bit_imp_le_length by (fastforce simp: bit_eq_iff bit_drop_bit_eq)
  finally show ?thesis .
qed

lemma list_exI: "x \<in> set xs \<Longrightarrow> P x \<Longrightarrow> list_ex P xs"
  by (auto simp: list_ex_iff)

section \<open>Shared subnets\<close>

text \<open>What the pairs tried so far say about the accumulated ranks and subnets.\<close>

definition witnesses :: "(wake_address \<times> wake_address) list \<Rightarrow> u32 \<times> u8 \<Rightarrow> bool" where
  "witnesses ps s = list_ex (\<lambda>(relay, wanted). share relay wanted \<and> snd s = wa_prefix_length relay
     \<and> on_subnet (wa_address relay) (fst s) (snd s) \<and> on_subnet (wa_address wanted) (fst s) (snd s)) ps"

definition pairs_inv :: "(wake_address \<times> wake_address) list \<Rightarrow> nat option \<times> (u32 \<times> u8) list \<Rightarrow> bool" where
  "pairs_inv ps acc \<longleftrightarrow>
     (case acc of (best, subnets) \<Rightarrow>
        list_all (witnesses ps) subnets \<and> (best = None \<longleftrightarrow> subnets = [])
        \<and> (best = None \<longleftrightarrow> \<not> list_ex (\<lambda>(relay, wanted). share relay wanted) ps)
        \<and> (\<forall>b. best = Some b \<longrightarrow> 1 \<le> b \<and> b \<le> 2)
        \<and> sorted_wrt (<) (map fst subnets))"

lemma try_pair_inv: "pairs_inv ps acc \<Longrightarrow> pairs_inv (ps @ [p]) (try_pair acc p)"
proof -
  assume inv: "pairs_inv ps acc"
  obtain best subnets relay wanted where acc: "acc = (best, subnets)" "p = (relay, wanted)" by (cases acc; cases p)
  have old: "list_all (witnesses (ps @ [p])) subnets"
    using inv acc by (auto simp: pairs_inv_def list_all_iff witnesses_def)
  show ?thesis
  proof (cases "share relay wanted")
    case False
    then show ?thesis using inv old acc by (auto simp: pairs_inv_def try_pair_def)
  next
    case True
    let ?p = "wa_prefix_length relay" and ?b = "directed_broadcast (wa_address relay) (wa_prefix_length relay)"
    have "witnesses (ps @ [p]) (?b, ?p)"
      using True acc by (auto simp: witnesses_def on_subnet_def share_def)
    then have "list_all (witnesses (ps @ [p])) (btree_insert ?b ?p subnets)"
      using old set_btree_insert [of ?b ?p subnets] by (auto simp: list_all_iff)
    moreover have "1 \<le> hardware_ends relay wanted" "hardware_ends relay wanted \<le> 2"
      using True by (auto simp: share_def hardware_ends_def)
    ultimately show ?thesis
      using inv True acc
      by (auto simp: pairs_inv_def try_pair_def best_of_def max_def sorted_btree_insert split: option.splits)
  qed
qed

lemma foldl_pairs_inv: "pairs_inv ps acc \<Longrightarrow> pairs_inv (ps @ qs) (foldl try_pair acc qs)"
proof (induction qs arbitrary: ps acc)
  case (Cons q qs)
  then show ?case using try_pair_inv [of ps acc q] Cons.IH [of "ps @ [q]"] by simp
qed simp

lemma shared_subnets_inv:
  "pairs_inv (concat (map (\<lambda>relay. map (\<lambda>wanted. (relay, wanted)) targets) relays)) (shared_subnets relays targets)"
  unfolding shared_subnets_def using foldl_pairs_inv [of "[]" "(None, [])"] by (simp add: pairs_inv_def)

section \<open>Properties\<close>

text \<open>What makes a device a relay for the target on a subnet.\<close>

definition relays_on :: "wake_target \<Rightarrow> wake_candidate \<Rightarrow> u32 \<times> u8 \<Rightarrow> bool" where
  "relays_on target candidate s =
     list_ex (\<lambda>relay. address_usable relay \<and> wa_prefix_length relay = snd s \<and> on_subnet (wa_address relay) (fst s) (snd s)
       \<and> list_ex (\<lambda>wanted. address_usable wanted \<and> on_subnet (wa_address wanted) (fst s) (snd s)
            \<and> (address_hardware relay \<or> address_hardware wanted)) (ta_addresses target))
     (ca_addresses candidate)"

definition site_of :: "wake_target \<Rightarrow> wake_candidate \<Rightarrow> bool" where
  "site_of target candidate \<longleftrightarrow> ta_public_ip target \<noteq> None \<and> ca_public_ip candidate = ta_public_ip target"

lemma match_candidate_Some:
  assumes "match_candidate target candidate = Some m"
  shows "\<exists>rank subnets. m = (rank, candidate, subnets) \<and> ca_device_id candidate \<noteq> ta_device_id target
     \<and> subnets \<noteq> [] \<and> list_all (relays_on target candidate) subnets \<and> sorted_wrt (<) (map fst subnets)
     \<and> same_site m = site_of target candidate"
proof -
  let ?rs = "filter address_usable (ca_addresses candidate)" and ?ts = "filter address_usable (ta_addresses target)"
  obtain b subnets where s: "shared_subnets ?rs ?ts = (Some b, subnets)"
    using assms by (auto simp: match_candidate_def split: if_splits prod.splits option.splits)
  have inv: "pairs_inv (concat (map (\<lambda>r. map (\<lambda>w. (r, w)) ?ts) ?rs)) (Some b, subnets)"
    using shared_subnets_inv [of ?ts ?rs] s by simp
  have "relays_on target candidate x" if "witnesses (concat (map (\<lambda>r. map (\<lambda>w. (r, w)) ?ts) ?rs)) x" for x
    using that by (fastforce simp: witnesses_def relays_on_def list_ex_iff share_def)
  then have "list_all (relays_on target candidate) subnets"
    using inv by (auto simp: pairs_inv_def list_all_iff)
  then show ?thesis
    using assms s inv by (auto simp: match_candidate_def pairs_inv_def site_of_def Let_def split: if_splits)
qed


text \<open>A directed broadcast address names the subnet: for a prefix of at most 32 bits, two addresses have the
  same one exactly when their leading bits agree, and an address is on the subnet of its own broadcast address.\<close>

theorem directed_broadcast_names_subnet:
  "(directed_broadcast a (word_of_nat (min n 32)) = directed_broadcast b (word_of_nat (min n 32))
     \<longleftrightarrow> drop_bit (32 - n) a = drop_bit (32 - n) b)
   \<and> on_subnet a (directed_broadcast a p) p
   \<and> on_subnet (directed_broadcast a p) (directed_broadcast a p) p"
proof -
  have u: "unat (word_of_nat (min n 32) :: u8) = min n 32" by (simp add: unat_of_nat min_def)
  have "32 - min n 32 = 32 - n" by simp
  moreover have "directed_broadcast (directed_broadcast a p) p = directed_broadcast a p"
    by (simp add: directed_broadcast_def or.assoc)
  ultimately show ?thesis using same_subnet_iff [of "word_of_nat (min n 32)" a b] u by (simp add: on_subnet_def)
qed

lemma magic_packet_layout:
  "length mac = 6 \<Longrightarrow> magic_packet mac = replicate 6 0xFF @ concat (replicate 16 mac) \<and> length (magic_packet mac) = 102"
proof -
  have "length (chunks 6 (replicate 96 (0xFF :: u8))) = 16" by (simp add: length_chunks div_ceil_def)
  then have "map (\<lambda>_. mac) (chunks 6 (replicate 96 (0xFF :: u8))) = replicate 16 mac" by (simp add: map_replicate_const)
  then show "length mac = 6 \<Longrightarrow> ?thesis"
    by (simp add: magic_packet_def MAGIC_PACKET_BYTES_def Let_def length_concat sum_list_replicate
        map_replicate min_def)
qed

lemma length_chunks_even: "length xs = 12 \<Longrightarrow> length (chunks 2 xs) = 6"
  by (simp add: length_chunks div_ceil_def)

text \<open>A magic packet is well-formed: from every text that is read as a hardware address, which is then six
  bytes, not all zero and not a group address, the packet is six \<open>0xFF\<close> bytes followed by the address
  sixteen times, 102 bytes in all.\<close>

theorem magic_packet_correct:
  "case parse_mac s of
     None \<Rightarrow> True
   | Some mac \<Rightarrow> length mac = 6 \<and> mac \<noteq> replicate 6 0 \<and> \<not> bit (hd mac) 0
       \<and> magic_packet mac = replicate 6 0xFF @ concat (replicate 16 mac) \<and> length (magic_packet mac) = 102"
proof (cases "parse_mac s")
  case (Some mac)
  then have m: "length mac = 6" "mac \<noteq> [0, 0, 0, 0, 0, 0]" "hd mac AND 1 = 0"
    by (auto simp: parse_mac_def Let_def length_chunks_even split: option.splits if_splits)
  have "\<not> bit (hd mac) 0" using m(3) by (simp add: bit_0 and_one_eq even_iff_mod_2_eq_zero)
  then show ?thesis using Some m magic_packet_layout [OF m(1)] by (simp add: eval_nat_numeral)
qed simp

end
