(* ===== verification/Annex_B.thy ===== *)
theory Annex_B
  imports Video Control Byte_Pipe
begin

unbundle bit_operations_syntax

text \<open>
  Annex-B byte streams (\<open>remote/src/h264.rs\<close>): the start codes of an access unit, the NAL units between
  them, and the conversion to four-byte length prefixes that CoreMedia wants.
\<close>

section \<open>Start codes and units\<close>

function find_starts :: "bytes \<Rightarrow> nat \<Rightarrow> (nat \<times> nat) list" where
  "find_starts data i =
     (if i + 3 \<le> length data then
        (if take 4 (drop i data) = [0, 0, 0, 1] then (i, 4) # find_starts data (i + 4)
         else if take 3 (drop i data) = [0, 0, 1] then (i, 3) # find_starts data (i + 3)
         else find_starts data (i + 1))
      else [])"
  by pat_completeness auto
termination
  by (relation "measure (\<lambda>(data, i). length data - i)") auto

declare find_starts.simps [simp del]

fun trim_zeros :: "bytes \<Rightarrow> nat \<Rightarrow> nat \<Rightarrow> nat" where
  "trim_zeros data start 0 = 0"
| "trim_zeros data start (Suc e) = (if start < Suc e \<and> data ! e = 0 then trim_zeros data start e else Suc e)"

fun units_between :: "bytes \<Rightarrow> (nat \<times> nat) list \<Rightarrow> bytes list" where
  "units_between data [] = []"
| "units_between data ((start, plen) # rest) =
     (let unit_start = start + plen;
          unit_end = trim_zeros data unit_start (case rest of [] \<Rightarrow> length data | (next, _) # _ \<Rightarrow> next)
      in (if unit_start < unit_end then [take (unit_end - unit_start) (drop unit_start data)] else [])
         @ units_between data rest)"

definition annex_b_units :: "bytes \<Rightarrow> bytes list" where
  "annex_b_units data = units_between data (find_starts data 0)"

section \<open>Length prefixes\<close>

datatype nal_error = No_Nal_Units | Nal_Too_Long

record avcc_access_unit =
  av_data :: bytes
  av_video_parameter_set :: "bytes option"
  av_sequence_parameter_set :: "bytes option"
  av_picture_parameter_set :: "bytes option"

definition nal_type :: "codec_kind \<Rightarrow> u8 \<Rightarrow> u8" where
  "nal_type vcodec b = (case vcodec of H264 \<Rightarrow> b AND 31 | H265 \<Rightarrow> drop_bit 1 b AND 63)"

definition note_parameter_set :: "codec_kind \<Rightarrow> bytes \<Rightarrow> avcc_access_unit \<Rightarrow> avcc_access_unit" where
  "note_parameter_set vcodec nal a =
     (let t = nal_type vcodec (hd nal) in
      if vcodec = H264 \<and> t = 7 \<or> vcodec = H265 \<and> t = 33 then a\<lparr>av_sequence_parameter_set := Some nal\<rparr>
      else if vcodec = H264 \<and> t = 8 \<or> vcodec = H265 \<and> t = 34 then a\<lparr>av_picture_parameter_set := Some nal\<rparr>
      else if vcodec = H265 \<and> t = 32 then a\<lparr>av_video_parameter_set := Some nal\<rparr>
      else a)"

fun prefix_units :: "codec_kind \<Rightarrow> avcc_access_unit \<Rightarrow> bytes list \<Rightarrow> nal_error + avcc_access_unit" where
  "prefix_units vcodec a [] = Ok a"
| "prefix_units vcodec a (nal # units) =
     (if 2 ^ 32 \<le> length nal then Err Nal_Too_Long
      else prefix_units vcodec
             (note_parameter_set vcodec nal (a\<lparr>av_data := av_data a @ be_bytes 4 (length nal) @ nal\<rparr>)) units)"

definition annex_b_to_length_prefixed :: "bytes \<Rightarrow> codec_kind \<Rightarrow> nal_error + avcc_access_unit" where
  "annex_b_to_length_prefixed data vcodec =
     (let units = annex_b_units data in
      if units = [] then Err No_Nal_Units
      else prefix_units vcodec \<lparr>av_data = [], av_video_parameter_set = None,
             av_sequence_parameter_set = None, av_picture_parameter_set = None\<rparr> units)"

section \<open>Start codes\<close>

text \<open>A NAL unit as the standard has it: not empty, no trailing zero byte, no start code inside.\<close>

definition code_at :: "bytes \<Rightarrow> nat \<Rightarrow> bool" where
  "code_at data j \<longleftrightarrow> take 3 (drop j data) = [0, 0, 1]"

definition nal_unit :: "bytes \<Rightarrow> bool" where
  "nal_unit nal \<longleftrightarrow> nal \<noteq> [] \<and> last nal \<noteq> 0 \<and> list_all (\<lambda>j. \<not> code_at nal j) [0..<length nal]"

fun start_code :: "bool \<Rightarrow> bytes" where
  "start_code True = [0, 0, 0, 1]"
| "start_code False = [0, 0, 1]"

fun annex_b_stream :: "(bool \<times> bytes) list \<Rightarrow> bytes" where
  "annex_b_stream [] = []"
| "annex_b_stream ((long, nal) # units) = start_code long @ nal @ annex_b_stream units"

lemma code4_at: "take 4 (drop i data) = [0, 0, 0, 1] \<Longrightarrow> code_at data (Suc i)"
proof -
  assume "take 4 (drop i data) = [0, 0, 0, 1]"
  then have "drop 1 (take 4 (drop i data)) = [0, 0, 1]" by simp
  then show ?thesis by (simp add: code_at_def drop_take)
qed

lemma code_at_length: "code_at data j \<Longrightarrow> j + 3 \<le> length data"
proof -
  assume "code_at data j"
  then have "length (take 3 (drop j data)) = 3" by (simp add: code_at_def)
  then show ?thesis by simp
qed

text \<open>The scan stops at the first start code at or after its position.\<close>

lemma first_start:
  "case find_starts data i of
     [] \<Rightarrow> \<forall>j \<ge> i. \<not> code_at data j
   | (n, p) # _ \<Rightarrow> i \<le> n \<and> n + p \<le> length data \<and> (\<forall>j. i \<le> j \<and> j < n \<longrightarrow> \<not> code_at data j)"
proof (induction data i rule: find_starts.induct)
  case (1 data i)
  consider (short) "\<not> i + 3 \<le> length data" | (four) "i + 3 \<le> length data" "take 4 (drop i data) = [0, 0, 0, 1]"
    | (three) "i + 3 \<le> length data" "take 4 (drop i data) \<noteq> [0, 0, 0, 1]" "take 3 (drop i data) = [0, 0, 1]"
    | (skip) "i + 3 \<le> length data" "take 4 (drop i data) \<noteq> [0, 0, 0, 1]" "take 3 (drop i data) \<noteq> [0, 0, 1]"
    by blast
  then show ?case
  proof cases
    case short
    then show ?thesis by (subst find_starts.simps) (auto dest: code_at_length)
  next
    case four
    then have "i + 4 \<le> length data" using code_at_length [OF code4_at] by fastforce
    then show ?thesis using four by (subst find_starts.simps) auto
  next
    case three
    then show ?thesis by (subst find_starts.simps) auto
  next
    case skip
    have f: "find_starts data i = find_starts data (Suc i)" using skip by (subst find_starts.simps) simp
    have "\<not> code_at data i" using skip by (simp add: code_at_def)
    moreover have "i \<le> j \<longleftrightarrow> j = i \<or> Suc i \<le> j" for j by auto
    ultimately show ?thesis using 1(3) [OF skip] unfolding f by (auto split: list.splits)
  qed
qed

lemma trim_zeros_bounds: "trim_zeros data s e \<le> e" "s \<le> e \<Longrightarrow> s \<le> trim_zeros data s e"
  by (induction data s e rule: trim_zeros.induct) auto

lemma trim_zeros_last: "s < trim_zeros data s e \<Longrightarrow> data ! (trim_zeros data s e - 1) \<noteq> 0"
  by (induction data s e rule: trim_zeros.induct) auto

lemma trim_zeros_id: "data ! (e - 1) \<noteq> 0 \<Longrightarrow> trim_zeros data s e = e"
  by (cases e) auto

lemma code_at_part:
  assumes "code_at (take n (drop s data)) j"
  shows "code_at data (s + j) \<and> j + 3 \<le> n"
proof -
  have l: "j + 3 \<le> length (take n (drop s data))" using code_at_length [OF assms] .
  then have "min 3 (n - j) = 3" "j + 3 \<le> n" by auto
  then show ?thesis using assms by (simp add: code_at_def drop_take add.commute)
qed

text \<open>Every unit found in any byte string is a NAL unit.\<close>

lemma piece_is_nal_unit:
  assumes "e' = trim_zeros data s e" "s < e'" "e \<le> length data" "\<And>j. s \<le> j \<Longrightarrow> j < e \<Longrightarrow> \<not> code_at data j"
  shows "nal_unit (take (e' - s) (drop s data))"
proof -
  have e': "e' \<le> e" using assms(1) trim_zeros_bounds(1) by blast
  let ?u = "take (e' - s) (drop s data)"
  have "length ?u = e' - s" using e' assms(3) by simp
  moreover from this have "last ?u = data ! (e' - 1)"
    using assms(2) e' assms(3) by (subst last_conv_nth) auto
  moreover have "\<not> code_at ?u j" for j using code_at_part [of "e' - s" s data j] assms(4) [of "s + j"] e' by linarith
  ultimately show ?thesis using assms(2) trim_zeros_last [of s data e] assms(1) by (auto simp: nal_unit_def list_all_iff)
qed

lemma units_step:
  assumes "list_all nal_unit (units_between data (find_starts data k))"
    "i + p = k" "k \<le> length data"
  shows "list_all nal_unit (units_between data ((i, p) # find_starts data k))"
proof -
  let ?e = "case find_starts data k of [] \<Rightarrow> length data | (next, _) # _ \<Rightarrow> next"
  have e: "?e \<le> length data" "\<And>j. k \<le> j \<Longrightarrow> j < ?e \<Longrightarrow> \<not> code_at data j"
    using first_start [where data = data and i = k] by (auto split: list.splits)
  have "nal_unit (take (trim_zeros data k ?e - k) (drop k data))" if "k < trim_zeros data k ?e"
    by (rule piece_is_nal_unit [OF refl that e])
  then show ?thesis using assms(1,2) by (auto simp: Let_def)
qed

lemma units_are_nal_units: "list_all nal_unit (units_between data (find_starts data i))"
proof (induction data i rule: find_starts.induct)
  case (1 data i)
  consider (short) "\<not> i + 3 \<le> length data" | (four) "i + 3 \<le> length data" "take 4 (drop i data) = [0, 0, 0, 1]"
    | (three) "i + 3 \<le> length data" "take 4 (drop i data) \<noteq> [0, 0, 0, 1]" "take 3 (drop i data) = [0, 0, 1]"
    | (skip) "i + 3 \<le> length data" "take 4 (drop i data) \<noteq> [0, 0, 0, 1]" "take 3 (drop i data) \<noteq> [0, 0, 1]"
    by blast
  then show ?case
  proof cases
    case short
    then show ?thesis by (subst find_starts.simps) simp
  next
    case four
    then have "i + 4 \<le> length data" using code_at_length [OF code4_at] by fastforce
    moreover have "find_starts data i = (i, 4) # find_starts data (i + 4)"
      using four by (subst find_starts.simps) simp
    ultimately show ?thesis using units_step 1(1) [OF four] by metis
  next
    case three
    have "find_starts data i = (i, 3) # find_starts data (i + 3)" using three by (subst find_starts.simps) simp
    then show ?thesis using units_step 1(2) [OF three] three(1) by metis
  next
    case skip
    have "find_starts data i = find_starts data (i + 1)" using skip by (subst find_starts.simps) simp
    then show ?thesis using 1(3) [OF skip] by simp
  qed
qed

section \<open>Streams of units\<close>

lemma find_starts_skip:
  "\<forall>j < length nal. \<not> code_at (nal @ rest) j \<and> take 4 (drop j (nal @ rest)) \<noteq> [0, 0, 0, 1] \<Longrightarrow>
   find_starts (pre @ nal @ rest) (length pre) = find_starts (pre @ nal @ rest) (length pre + length nal)"
proof (induction nal arbitrary: pre)
  case (Cons b nal)
  have IH: "find_starts ((pre @ [b]) @ nal @ rest) (length (pre @ [b]))
      = find_starts ((pre @ [b]) @ nal @ rest) (length (pre @ [b]) + length nal)"
  proof (rule Cons.IH, intro allI impI)
    fix j
    assume "j < length nal"
    then show "\<not> code_at (nal @ rest) j \<and> take 4 (drop j (nal @ rest)) \<noteq> [0, 0, 0, 1]"
      using Cons.prems [rule_format, of "Suc j"] by (simp add: code_at_def)
  qed
  have zero: "take 3 (b # nal @ rest) \<noteq> [0, 0, 1]" "take 4 (b # nal @ rest) \<noteq> [0, 0, 0, 1]"
    using Cons.prems [rule_format, of 0] by (simp_all add: code_at_def)
  show ?case
  proof (cases "length pre + 3 \<le> length (pre @ (b # nal) @ rest)")
    case True
    have "find_starts (pre @ (b # nal) @ rest) (length pre) = find_starts (pre @ (b # nal) @ rest) (length pre + 1)"
      using True zero by (subst find_starts.simps) (simp del: take_append take_Cons_numeral)
    then show ?thesis using IH by simp
  next
    case False
    then show ?thesis by (simp add: find_starts.simps)
  qed
qed simp

lemma find_starts_code:
  "find_starts (pre @ start_code long @ rest) (length pre)
   = (length pre, length (start_code long)) # find_starts (pre @ start_code long @ rest) (length pre + length (start_code long))"
  by (cases long; subst find_starts.simps; simp add: numeral_eq_Suc)

lemma straddling_code:
  assumes "nal_unit nal" "j < length nal" "code_at (nal @ rest) j"
  shows False
proof (cases "j + 3 \<le> length nal")
  case True
  then have "code_at nal j" using assms(3) by (simp add: code_at_def)
  then show False using assms(1,2) by (simp add: nal_unit_def list_all_iff)
next
  case False
  define k where "k = length nal - 1 - j"
  have k: "k < 2" "j + k = length nal - 1" using False assms(2) by (auto simp: k_def)
  have "(nal @ rest) ! (j + k) = take 3 (drop j (nal @ rest)) ! k"
    using k(1) code_at_length [OF assms(3)] by (simp del: take_append drop_append)
  also have "\<dots> = 0" using k(1) assms(3) by (auto simp: code_at_def less_2_cases_iff)
  finally have "last nal = 0" using k(2) assms(2) by (cases nal rule: rev_cases) (auto simp: nth_append)
  then show False using assms(1) by (simp add: nal_unit_def)
qed

lemma no_code_before_end:
  assumes "nal_unit nal" "j < length nal" "rest = [] \<or> (\<exists>long more. rest = start_code long @ more)"
  shows "\<not> code_at (nal @ rest) j \<and> take 4 (drop j (nal @ rest)) \<noteq> [0, 0, 0, 1]"
proof
  show no: "\<not> code_at (nal @ rest) j" using straddling_code [OF assms(1,2)] by blast
  show "take 4 (drop j (nal @ rest)) \<noteq> [0, 0, 0, 1]"
  proof
    assume four: "take 4 (drop j (nal @ rest)) = [0, 0, 0, 1]"
    then have "code_at (nal @ rest) (Suc j)" by (rule code4_at)
    then have "\<not> Suc j < length nal" using straddling_code [OF assms(1)] by blast
    then have "j = length nal - 1" using assms(2) by simp
    moreover have "(nal @ rest) ! j = 0"
    proof -
      have "take 4 (drop j (nal @ rest)) ! 0 = 0" using four by simp
      then show ?thesis using assms(2) by (simp del: take_append drop_append)
    qed
    ultimately have "last nal = 0" using assms(2) by (cases nal rule: rev_cases) (auto simp: nth_append)
    then show False using assms(1) by (simp add: nal_unit_def)
  qed
qed

fun stream_starts :: "nat \<Rightarrow> (bool \<times> bytes) list \<Rightarrow> (nat \<times> nat) list" where
  "stream_starts n [] = []"
| "stream_starts n ((long, nal) # units) =
     (n, length (start_code long)) # stream_starts (n + length (start_code long) + length nal) units"

lemma annex_b_stream_start:
  "annex_b_stream units = [] \<or> (\<exists>long more. annex_b_stream units = start_code long @ more)"
  by (cases units rule: annex_b_stream.cases) auto

lemma find_starts_stream:
  "list_all nal_unit (map snd units) \<Longrightarrow>
   find_starts (pre @ annex_b_stream units) (length pre) = stream_starts (length pre) units"
proof (induction units arbitrary: pre rule: annex_b_stream.induct)
  case 1
  then show ?case by (simp add: find_starts.simps)
next
  case (2 long nal units)
  let ?pre = "pre @ start_code long" and ?rest = "annex_b_stream units"
  have "find_starts (?pre @ nal @ ?rest) (length ?pre) = find_starts (?pre @ nal @ ?rest) (length ?pre + length nal)"
    using find_starts_skip [of nal ?rest ?pre] no_code_before_end [OF _ _ annex_b_stream_start] 2(2) by simp
  moreover have "find_starts ((?pre @ nal) @ ?rest) (length (?pre @ nal)) = stream_starts (length (?pre @ nal)) units"
    using 2 by (intro "2.IH") simp
  ultimately show ?case using find_starts_code [of pre long "nal @ ?rest"] by (simp add: add.assoc)
qed

lemma units_between_stream:
  "list_all nal_unit (map snd units) \<Longrightarrow>
   units_between (pre @ annex_b_stream units) (stream_starts (length pre) units) = map snd units"
proof (induction units arbitrary: pre rule: annex_b_stream.induct)
  case (2 long nal units)
  let ?data = "pre @ start_code long @ nal @ annex_b_stream units"
  let ?s = "length pre + length (start_code long)" and ?pre = "pre @ start_code long @ nal"
  have nal: "nal_unit nal" using 2 by simp
  have e: "(case stream_starts (?s + length nal) units of [] \<Rightarrow> length ?data | (next, _) # _ \<Rightarrow> next) = ?s + length nal"
    by (cases units rule: annex_b_stream.cases) simp_all
  have "?data ! (?s + length nal - 1) = last nal"
    using nal by (cases nal rule: rev_cases) (auto simp: nal_unit_def nth_append)
  then have "trim_zeros ?data ?s (?s + length nal) = ?s + length nal"
    using nal by (intro trim_zeros_id) (simp add: nal_unit_def)
  moreover have "units_between (?pre @ annex_b_stream units) (stream_starts (length ?pre) units) = map snd units"
    using 2 by (intro "2.IH") simp
  ultimately show ?case using nal e by (simp add: Let_def add.assoc nal_unit_def)
qed simp

lemma annex_b_roundtrip:
  assumes "list_all nal_unit (map snd units)"
  shows "annex_b_units (annex_b_stream units) = map snd units"
  using find_starts_stream [OF assms, of "[]"] units_between_stream [OF assms, of "[]"]
  by (simp add: annex_b_units_def)

text \<open>Whatever the Agent sends, what the viewer cuts from it are NAL units, so writing them with start codes
  again changes nothing.\<close>

lemma units_of_any_stream: "list_all nal_unit (annex_b_units data)"
  by (simp add: annex_b_units_def units_are_nal_units)

lemma annex_b_units_idempotent:
  "annex_b_units (annex_b_stream (map (\<lambda>nal. (long, nal)) (annex_b_units data))) = annex_b_units data"
  using annex_b_roundtrip [of "map (\<lambda>nal. (long, nal)) (annex_b_units data)"] units_of_any_stream [of data]
  by (simp add: comp_def)

section \<open>Length-prefixed access units\<close>

text \<open>How CoreMedia reads an access unit: a big-endian length, then that many bytes.\<close>

definition read_nal :: "bytes reader" where
  "read_nal = rbind (read_exact 4) (\<lambda>l. read_exact (be_nat l))"

definition write_nal :: "bytes \<Rightarrow> written" where
  "write_nal nal = (be_bytes 4 (length nal) @ nal, Ok ())"

interpretation nals: framing write_nal read_nal "\<lambda>nal. length nal < 2 ^ 32"
proof unfold_locales
  fix nal rest :: bytes
  assume "length nal < 2 ^ 32"
  then have "be_nat (be_bytes 4 (length nal)) = length nal" by (simp add: be_nat_be_bytes)
  then show "read_nal (fst (write_nal nal) @ rest) = Ok (nal, rest)"
    by (simp add: read_nal_def write_nal_def rbind_def read_exact_def)
qed (auto simp: read_nal_def write_nal_def rbind_def read_exact_def intro!: stable_intro)

definition last_of_type :: "codec_kind \<Rightarrow> u8 \<Rightarrow> bytes list \<Rightarrow> bytes option" where
  "last_of_type vcodec t units = find (\<lambda>nal. nal_type vcodec (hd nal) = t) (rev units)"

lemma prefix_units_data:
  "prefix_units vcodec a units = Ok a' \<Longrightarrow>
   list_all (\<lambda>nal. length nal < 2 ^ 32) units \<and> av_data a' = av_data a @ concat (map (\<lambda>nal. fst (write_nal nal)) units)"
  by (induction vcodec a units rule: prefix_units.induct)
    (auto simp: write_nal_def note_parameter_set_def Let_def split: if_splits)

lemma find_snoc:
  "find P (xs @ [x]) = (case find P xs of None \<Rightarrow> if P x then Some x else None | Some y \<Rightarrow> Some y)"
  by (induction xs) auto

lemma last_of_type_Cons:
  "last_of_type vcodec t (nal # units)
   = (case last_of_type vcodec t units of
        None \<Rightarrow> if nal_type vcodec (hd nal) = t then Some nal else None
      | Some u \<Rightarrow> Some u)"
  by (simp add: last_of_type_def find_snoc)

lemma prefix_units_sets:
  "prefix_units vcodec a units = Ok a' \<Longrightarrow>
   av_sequence_parameter_set a' =
     (case last_of_type vcodec (case vcodec of H264 \<Rightarrow> 7 | H265 \<Rightarrow> 33) units of
        None \<Rightarrow> av_sequence_parameter_set a | Some u \<Rightarrow> Some u)
   \<and> av_picture_parameter_set a' =
     (case last_of_type vcodec (case vcodec of H264 \<Rightarrow> 8 | H265 \<Rightarrow> 34) units of
        None \<Rightarrow> av_picture_parameter_set a | Some u \<Rightarrow> Some u)
   \<and> av_video_parameter_set a' =
     (case (if vcodec = H265 then last_of_type H265 32 units else None) of
        None \<Rightarrow> av_video_parameter_set a | Some u \<Rightarrow> Some u)"
proof (induction vcodec a units rule: prefix_units.induct)
  case (2 vcodec a nal units)
  have "length nal < 2 ^ 32" using 2(2) by (simp split: if_splits)
  then show ?case using 2 by (cases vcodec) (auto simp: last_of_type_Cons note_parameter_set_def Let_def split: option.splits)
qed (simp add: last_of_type_def)

lemma prefix_units_ok:
  "list_all (\<lambda>nal. length nal < 2 ^ 32) units \<Longrightarrow> \<exists>a'. prefix_units vcodec a units = Ok a'"
  by (induction units arbitrary: a) (auto simp: not_le)

text \<open>An access unit in Annex-B form, with short or long start codes, is converted to the length-prefixed
  form of the same NAL units: reading it back gives exactly them, and the parameter sets reported are the
  last of each kind.
\<close>

theorem length_prefixed_same_units:
  assumes "list_all nal_unit (map snd units)" "units \<noteq> []"
    "list_all (\<lambda>nal. length nal < 2 ^ 32) (map snd units)"
  shows "\<exists>a. annex_b_to_length_prefixed (annex_b_stream units) vcodec = Ok a
    \<and> read_many read_nal (length units) (av_data a) = Ok (map snd units, [])
    \<and> av_sequence_parameter_set a = last_of_type vcodec (case vcodec of H264 \<Rightarrow> 7 | H265 \<Rightarrow> 33) (map snd units)
    \<and> av_picture_parameter_set a = last_of_type vcodec (case vcodec of H264 \<Rightarrow> 8 | H265 \<Rightarrow> 34) (map snd units)
    \<and> av_video_parameter_set a = (if vcodec = H265 then last_of_type H265 32 (map snd units) else None)"
proof -
  let ?empty = "\<lparr>av_data = [], av_video_parameter_set = None,
    av_sequence_parameter_set = None, av_picture_parameter_set = None\<rparr>"
  obtain a where a: "prefix_units vcodec ?empty (map snd units) = Ok a"
    using prefix_units_ok [OF assms(3)] by blast
  have "av_data a = concat (map (\<lambda>nal. fst (write_nal nal)) (map snd units))"
    using prefix_units_data [OF a] by simp
  then have "read_many read_nal (length units) (av_data a) = Ok (map snd units, [])"
    using nals.read_many_written [OF assms(3), of "[]"] by simp
  moreover have "annex_b_to_length_prefixed (annex_b_stream units) vcodec = Ok a"
    using a assms(2) annex_b_roundtrip [OF assms(1)] by (simp add: annex_b_to_length_prefixed_def)
  ultimately show ?thesis using prefix_units_sets [OF a] by (auto split: option.splits)
qed

theorem length_prefixed_same_units_witness:
  "\<exists>a. annex_b_to_length_prefixed (annex_b_stream [(True, [103, 0, 0, 3]), (False, [104, 238])]) H264 = Ok a
    \<and> read_many read_nal (length [[103, 0, 0, 3 :: byte], [104, 238]]) (av_data a) = Ok ([[103, 0, 0, 3], [104, 238]], [])
    \<and> av_sequence_parameter_set a = Some [103, 0, 0, 3]
    \<and> av_picture_parameter_set a = Some [104, 238]
    \<and> av_video_parameter_set a = None"
  using length_prefixed_same_units [of "[(True, [103, 0, 0, 3]), (False, [104, 238])]" H264]
  by (simp add: nal_unit_def code_at_def upt_rec last_of_type_def nal_type_def)

end
