(* ===== verification/Parameter_Sets.thy ===== *)
theory Parameter_Sets
  imports Annex_B
begin

text \<open>
  The codec configuration of a recording (\<open>Bits\<close> and \<open>codec_private\<close> of \<open>remote/src/matroska.rs\<close>): a bit
  reader over the parameter sets of the first keyframe, Exp-Golomb numbers, and the AVC and HEVC
  configuration records. A read returns \<open>None\<close> when the code would panic on an index out of range.
\<close>

section \<open>The bit reader\<close>

datatype recording_error =
  Missing_Parameter_Set | Truncated_Sps | Truncated_Bits | Invalid_Exp_Golomb | Invalid_Chroma_Format
  | Invalid_Bit_Depth | Length_Overflow | No_Annex_B_Units | Disk_Error

type_synonym 'a outcome = "(recording_error + 'a) option"

definition pbind :: "'a outcome \<Rightarrow> ('a \<Rightarrow> 'b outcome) \<Rightarrow> 'b outcome" where
  "pbind r f = (case r of None \<Rightarrow> None | Some (Inl e) \<Rightarrow> Some (Err e) | Some (Inr v) \<Rightarrow> f v)"

definition pindex :: "bytes \<Rightarrow> nat \<Rightarrow> u8 outcome" where
  "pindex bs i = map_option Ok (index_byte bs i)"

record bits =
  bits_bytes :: bytes
  bits_position :: nat

type_synonym 'a bit_read = "bits \<Rightarrow> ('a \<times> bits) outcome"

fun unescape :: "nat \<Rightarrow> bytes \<Rightarrow> bytes" where
  "unescape zeros [] = []"
| "unescape zeros (b # bs) =
     (if 2 \<le> zeros \<and> b = 3 then unescape 0 bs
      else b # unescape (if b = 0 then zeros + 1 else 0) bs)"

definition Bits_new :: "bytes \<Rightarrow> bits" where
  "Bits_new escaped = \<lparr>bits_bytes = unescape 0 escaped, bits_position = 0\<rparr>"

fun bits_loop :: "nat \<Rightarrow> u32 \<Rightarrow> u32 bit_read" where
  "bits_loop 0 v s = Some (Ok (v, s))"
| "bits_loop (Suc n) v s =
     pbind (pindex (bits_bytes s) (bits_position s div 8)) (\<lambda>b.
       bits_loop n (push_bit 1 v OR (ucast (drop_bit (7 - bits_position s mod 8) b AND 1)))
         (s\<lparr>bits_position := bits_position s + 1\<rparr>))"

definition bits_read :: "nat \<Rightarrow> u32 bit_read" where
  "bits_read n s =
     (if bits_position s + n \<le> length (bits_bytes s) * 8 then bits_loop n 0 s else Some (Err Truncated_Bits))"

definition bpure :: "'a \<Rightarrow> 'a bit_read" where
  "bpure v s = Some (Ok (v, s))"

definition bfail :: "recording_error \<Rightarrow> 'a bit_read" where
  "bfail e s = Some (Err e)"

definition bbind :: "'a bit_read \<Rightarrow> ('a \<Rightarrow> 'b bit_read) \<Rightarrow> 'b bit_read" where
  "bbind r f s = pbind (r s) (\<lambda>(v, s'). f v s')"

fun read_times :: "nat \<Rightarrow> 'a bit_read \<Rightarrow> 'a list bit_read" where
  "read_times 0 r = bpure []"
| "read_times (Suc n) r = bbind r (\<lambda>v. bbind (read_times n r) (\<lambda>vs. bpure (v # vs)))"

function ue_zeros :: "nat \<Rightarrow> nat bit_read" where
  "ue_zeros zeros s =
     pbind (bits_read 1 s) (\<lambda>(v, s').
       if v = 0 then (if zeros + 1 < 32 then ue_zeros (zeros + 1) s' else Some (Err Invalid_Exp_Golomb))
       else Some (Ok (zeros, s')))"
  by pat_completeness auto
termination
  by (relation "measure (\<lambda>(zeros, s). 32 - zeros)") auto

declare ue_zeros.simps [simp del]

definition ue :: "u32 bit_read" where
  "ue = bbind (ue_zeros 0) (\<lambda>zeros. bbind (bits_read zeros) (\<lambda>v. bpure (push_bit zeros 1 - 1 + v)))"

section \<open>Configuration records\<close>

fun find_unit :: "codec_kind \<Rightarrow> u8 \<Rightarrow> bytes list \<Rightarrow> bytes outcome" where
  "find_unit vcodec kind [] = Some (Err Missing_Parameter_Set)"
| "find_unit vcodec kind (nal # units) =
     pbind (pindex nal 0) (\<lambda>b. if nal_type vcodec b = kind then Some (Ok nal) else find_unit vcodec kind units)"

definition append_nal :: "bytes \<Rightarrow> bytes \<Rightarrow> bytes outcome" where
  "append_nal out nal =
     Some (if length nal < 2 ^ 16 then Ok (out @ be_bytes 2 (length nal) @ nal) else Err Length_Overflow)"

definition high_profiles :: "u8 list" where
  "high_profiles = [100, 110, 122, 144, 44, 83, 86, 118, 128, 138, 139, 134, 135]"

definition skip_bit_if :: "bool \<Rightarrow> unit bit_read" where
  "skip_bit_if b = (if b then bbind (bits_read 1) (\<lambda>_. bpure ()) else bpure ())"

definition avc_extension :: "bytes bit_read" where
  "avc_extension =
     bbind ue (\<lambda>_. bbind ue (\<lambda>chroma.
       if 3 < chroma then bfail Invalid_Chroma_Format
       else bbind (skip_bit_if (chroma = 3)) (\<lambda>_. bbind ue (\<lambda>luma. bbind ue (\<lambda>chroma_depth.
         if \<not> (luma \<le> 7 \<and> chroma_depth \<le> 7) then bfail Invalid_Bit_Depth
         else bpure [0xfc OR ucast chroma, 0xf8 OR ucast luma, 0xf8 OR ucast chroma_depth, 0])))))"

definition avc_private :: "bytes list \<Rightarrow> bytes outcome" where
  "avc_private units =
     pbind (find_unit H264 7 units) (\<lambda>sps. pbind (find_unit H264 8 units) (\<lambda>pps.
     if length sps < 4 then Some (Err Truncated_Sps)
     else pbind (pindex sps 1) (\<lambda>a. pbind (pindex sps 2) (\<lambda>b. pbind (pindex sps 3) (\<lambda>c.
       pbind (append_nal [1, a, b, c, 0xff, 0xe1] sps) (\<lambda>out. pbind (append_nal (out @ [1]) pps) (\<lambda>out.
       if a \<in> set high_profiles
       then pbind (avc_extension (Bits_new (drop 4 sps))) (\<lambda>(ext, _). Some (Ok (out @ ext)))
       else Some (Ok out))))))))"

definition skip_sublayer :: "u32 \<times> u32 \<Rightarrow> unit bit_read" where
  "skip_sublayer f =
     bbind (if fst f \<noteq> 0 then read_times 11 (bits_read 8) else bpure []) (\<lambda>_.
     bbind (if snd f \<noteq> 0 then bits_read 8 else bpure 0) (\<lambda>_. bpure ()))"

fun skip_sublayers :: "(u32 \<times> u32) list \<Rightarrow> unit bit_read" where
  "skip_sublayers [] = bpure ()"
| "skip_sublayers (f # fs) = bbind (skip_sublayer f) (\<lambda>_. skip_sublayers fs)"

definition hevc_record :: "bytes bit_read" where
  "hevc_record =
     bbind (bits_read 4) (\<lambda>_. bbind (bits_read 3) (\<lambda>sublayers. bbind (bits_read 1) (\<lambda>nested.
     bbind (read_times 12 (bits_read 8)) (\<lambda>profile.
     bbind (read_times (unat sublayers) (bbind (bits_read 1) (\<lambda>p. bbind (bits_read 1) (\<lambda>l. bpure (p, l))))) (\<lambda>flags.
     bbind (if 0 < sublayers then read_times (8 - unat sublayers) (bits_read 2) else bpure []) (\<lambda>_.
     bbind (skip_sublayers flags) (\<lambda>_. bbind ue (\<lambda>_. bbind ue (\<lambda>chroma.
     if 3 < chroma then bfail Invalid_Chroma_Format
     else bbind (skip_bit_if (chroma = 3)) (\<lambda>_. bbind ue (\<lambda>_. bbind ue (\<lambda>_.
       bbind (bits_read 1) (\<lambda>window. bbind (if window \<noteq> 0 then read_times 4 ue else bpure []) (\<lambda>_.
       bbind ue (\<lambda>luma. bbind ue (\<lambda>chroma_depth.
       if \<not> (luma \<le> 7 \<and> chroma_depth \<le> 7) then bfail Invalid_Bit_Depth
       else bpure ([1] @ map ucast profile @ [0xf0, 0, 0xfc, 0xfc OR ucast chroma, 0xf8 OR ucast luma,
              0xf8 OR ucast chroma_depth, 0, 0,
              push_bit 3 (ucast sublayers + 1) OR push_bit 2 (ucast nested) OR 3, 3])))))))))))))))))"

fun append_sets :: "bytes \<Rightarrow> (u8 \<times> bytes) list \<Rightarrow> bytes outcome" where
  "append_sets out [] = Some (Ok out)"
| "append_sets out ((kind, nal) # sets) =
     pbind (append_nal (out @ [0x80 OR kind, 0, 1]) nal) (\<lambda>out. append_sets out sets)"

definition hevc_private :: "bytes list \<Rightarrow> bytes outcome" where
  "hevc_private units =
     pbind (find_unit H265 32 units) (\<lambda>vps. pbind (find_unit H265 33 units) (\<lambda>sps.
     pbind (find_unit H265 34 units) (\<lambda>pps.
     if length sps < 3 then Some (Err Truncated_Sps)
     else pbind (hevc_record (Bits_new (drop 2 sps))) (\<lambda>(out, _).
       append_sets out [(32, vps), (33, sps), (34, pps)]))))"

definition codec_private :: "codec_kind \<Rightarrow> bytes \<Rightarrow> bytes outcome" where
  "codec_private vcodec data =
     (let units = annex_b_units data in
      case vcodec of H264 \<Rightarrow> avc_private units | H265 \<Rightarrow> hevc_private units)"

section \<open>No panic\<close>

text \<open>Reading never indexes past the end: the length check of \<open>read\<close> covers every bit it takes.\<close>

definition returns :: "'a outcome \<Rightarrow> bool" where
  "returns r \<longleftrightarrow> r \<noteq> None"

definition total_read :: "'a bit_read \<Rightarrow> bool" where
  "total_read r \<longleftrightarrow> (\<forall>s. returns (r s))"

named_theorems total_intro \<open>operations that do not panic\<close>

lemma returns_Some [simp]: "returns (Some r)"
  by (simp add: returns_def)

lemma returns_bind [total_intro]: "returns r \<Longrightarrow> (\<And>v. returns (f v)) \<Longrightarrow> returns (pbind r f)"
  by (auto simp: returns_def pbind_def split: sum.splits)

lemma total_readD [total_intro]: "total_read r \<Longrightarrow> returns (r s)"
  by (simp add: total_read_def)

lemma returns_pindex: "i < length bs \<Longrightarrow> returns (pindex bs i)"
  by (simp add: returns_def pindex_def index_byte_def)

lemma returns_if [total_intro]:
  "(b \<Longrightarrow> returns r) \<Longrightarrow> (\<not> b \<Longrightarrow> returns s) \<Longrightarrow> returns (if b then r else s)"
  by simp

lemma total_pure [total_intro]: "total_read (bpure v)"
  by (simp add: total_read_def bpure_def)

lemma total_fail [total_intro]: "total_read (bfail e)"
  by (simp add: total_read_def bfail_def)

lemma total_bind [total_intro]: "total_read r \<Longrightarrow> (\<And>v. total_read (f v)) \<Longrightarrow> total_read (bbind r f)"
  unfolding total_read_def bbind_def by (auto intro!: returns_bind)

lemma total_if [total_intro]: "total_read r \<Longrightarrow> total_read s \<Longrightarrow> total_read (if b then r else s)"
  by simp

lemma bits_loop_returns: "bits_position s + n \<le> length (bits_bytes s) * 8 \<Longrightarrow> returns (bits_loop n v s)"
proof (induction n arbitrary: v s)
  case (Suc n)
  then have "bits_position s div 8 < length (bits_bytes s)" by (simp add: less_mult_imp_div_less)
  then show ?case using Suc by (auto intro!: returns_bind returns_pindex)
qed simp

lemma total_bits_read [total_intro]: "total_read (bits_read n)"
  by (simp add: total_read_def bits_read_def bits_loop_returns)

lemma total_read_times [total_intro]: "total_read r \<Longrightarrow> total_read (read_times n r)"
  by (induction n) (auto intro!: total_intro)

lemma total_ue_zeros [total_intro]: "total_read (ue_zeros zeros)"
proof -
  have "returns (ue_zeros zeros s)" for s
  proof (induction zeros s rule: ue_zeros.induct)
    case (1 zeros s)
    have "returns (bits_read 1 s)" by (intro total_intro)
    then show ?case using 1 by (subst ue_zeros.simps) (auto intro!: returns_bind)
  qed
  then show ?thesis by (simp add: total_read_def)
qed

lemma total_ue [total_intro]: "total_read ue"
  unfolding ue_def by (intro total_intro)

lemma total_skip_bit_if [total_intro]: "total_read (skip_bit_if b)"
  unfolding skip_bit_if_def by (intro total_intro)

lemma total_skip_sublayers [total_intro]: "total_read (skip_sublayers fs)"
  by (induction fs) (auto simp: skip_sublayer_def intro!: total_intro)

lemma total_avc_extension [total_intro]: "total_read avc_extension"
  unfolding avc_extension_def by (intro total_intro)

lemma total_hevc_record [total_intro]: "total_read hevc_record"
  unfolding hevc_record_def by (intro total_intro)

lemma returns_find_unit: "list_all (\<lambda>nal. nal \<noteq> []) units \<Longrightarrow> returns (find_unit vcodec kind units)"
  by (induction units) (auto intro!: returns_bind returns_pindex)

lemma returns_append_nal [total_intro]: "returns (append_nal out nal)"
  by (simp add: append_nal_def)

lemma returns_append_sets [total_intro]: "returns (append_sets out sets)"
  by (induction out sets rule: append_sets.induct) (auto intro!: total_intro)

lemma returns_avc_private: "list_all (\<lambda>nal. nal \<noteq> []) units \<Longrightarrow> returns (avc_private units)"
  unfolding avc_private_def by (auto intro!: total_intro returns_find_unit returns_pindex)

lemma returns_hevc_private: "list_all (\<lambda>nal. nal \<noteq> []) units \<Longrightarrow> returns (hevc_private units)"
  unfolding hevc_private_def by (auto intro!: total_intro returns_find_unit simp del: append_sets.simps)

lemma returns_codec_private: "returns (codec_private vcodec data)"
proof -
  have "list_all (\<lambda>nal. nal \<noteq> []) (annex_b_units data)"
    using units_of_any_stream [of data] by (auto simp: list_all_iff nal_unit_def)
  then show ?thesis
    by (cases vcodec) (simp_all add: codec_private_def Let_def returns_avc_private returns_hevc_private)
qed

section \<open>Bits and Exp-Golomb numbers\<close>

text \<open>What the reader still has to read, most significant bit first.\<close>

definition byte_bits :: "u8 \<Rightarrow> bool list" where
  "byte_bits b = map (bit b) [7, 6, 5, 4, 3, 2, 1, 0]"

definition remaining :: "bits \<Rightarrow> bool list" where
  "remaining s = drop (bits_position s) (concat (map byte_bits (bits_bytes s)))"

definition bits_value :: "bool list \<Rightarrow> u32" where
  "bits_value bs = foldl (\<lambda>v b. 2 * v + of_bool b) 0 bs"

fun nat_bits :: "nat \<Rightarrow> nat \<Rightarrow> bool list" where
  "nat_bits 0 x = []"
| "nat_bits (Suc n) x = nat_bits n (x div 2) @ [odd x]"

text \<open>The standard's reference encodings: Exp-Golomb numbers and emulation prevention bytes.\<close>

fun bit_length :: "nat \<Rightarrow> nat" where
  "bit_length x = (if x = 0 then 0 else Suc (bit_length (x div 2)))"

declare bit_length.simps [simp del]

definition ue_bits :: "nat \<Rightarrow> bool list" where
  "ue_bits v = replicate (bit_length (v + 1) - 1) False @ nat_bits (bit_length (v + 1)) (v + 1)"

fun escape :: "nat \<Rightarrow> bytes \<Rightarrow> bytes" where
  "escape zeros [] = []"
| "escape zeros (b # bs) =
     (if 2 \<le> zeros \<and> b \<le> 3 then 3 # b # escape (if b = 0 then 1 else 0) bs
      else b # escape (if b = 0 then zeros + 1 else 0) bs)"

lemma unescape_escape: "unescape zeros (escape zeros bs) = bs"
proof (induction zeros bs rule: escape.induct)
  case (2 zeros b bs)
  then show ?case by (cases "2 \<le> zeros \<and> b \<le> 3") auto
qed simp

lemma length_byte_bits [simp]: "length (byte_bits b) = 8"
  by (simp add: byte_bits_def)

lemma length_bit_string: "length (concat (map byte_bits bs)) = 8 * length bs"
  by (induction bs) auto

lemma nth_bit_string: "i < 8 * length bs \<Longrightarrow> concat (map byte_bits bs) ! i = bit (bs ! (i div 8)) (7 - i mod 8)"
proof (induction bs arbitrary: i)
  case (Cons b bs)
  show ?case
  proof (cases "i < 8")
    case True
    then have "i \<in> {0, 1, 2, 3, 4, 5, 6, 7}" by auto
    then show ?thesis by (auto simp: nth_append byte_bits_def)
  next
    case False
    then have "i div 8 = Suc ((i - 8) div 8)" "i mod 8 = (i - 8) mod 8" by (simp_all add: le_div_geq le_mod_geq)
    then show ?thesis using False Cons by (simp add: nth_append)
  qed
qed simp

lemma shifted_bit: "push_bit 1 v OR ucast (drop_bit k b AND 1) = 2 * v + (of_bool (bit b k) :: u32)" for b :: u8
proof -
  have "ucast (drop_bit k b AND 1) = (of_bool (bit b k) :: u32)"
    by (rule bit_word_eqI) (auto simp: bit_simps)
  moreover have "push_bit 1 v OR (of_bool c :: u32) = 2 * v + of_bool c" for c
    by (cases c) (simp_all add: push_bit_eq_mult mult.commute even_or_iff or_one_eq)
  ultimately show ?thesis by simp
qed

definition bits_ok :: "bits \<Rightarrow> bool" where
  "bits_ok s \<longleftrightarrow> bits_position s \<le> 8 * length (bits_bytes s)"

text \<open>A read consumes a bit string when it takes exactly it from the front and returns the value.\<close>

definition consumes :: "'a bit_read \<Rightarrow> bool list \<Rightarrow> 'a \<Rightarrow> bool" where
  "consumes r bs v \<longleftrightarrow>
     (\<forall>s rest. bits_ok s \<and> remaining s = bs @ rest \<longrightarrow>
        (\<exists>s'. r s = Some (Ok (v, s')) \<and> bits_ok s' \<and> remaining s' = rest))"

lemma remaining_step:
  assumes "bits_position s < 8 * length (bits_bytes s)"
  shows "remaining s = bit (bits_bytes s ! (bits_position s div 8)) (7 - bits_position s mod 8)
    # remaining (s\<lparr>bits_position := bits_position s + 1\<rparr>)"
  using assms Cons_nth_drop_Suc [of "bits_position s" "concat (map byte_bits (bits_bytes s))"]
  by (simp add: remaining_def length_bit_string nth_bit_string)

lemma bits_loop_spec:
  "bits_position s + n \<le> 8 * length (bits_bytes s) \<Longrightarrow>
   bits_loop n v s = Some (Ok (foldl (\<lambda>v b. 2 * v + of_bool b) v (take n (remaining s)),
     s\<lparr>bits_position := bits_position s + n\<rparr>))"
proof (induction n arbitrary: v s)
  case (Suc n)
  let ?s = "s\<lparr>bits_position := bits_position s + 1\<rparr>"
  have p: "bits_position s < 8 * length (bits_bytes s)" using Suc.prems by simp
  then have "bits_position s div 8 < length (bits_bytes s)" by (simp add: less_mult_imp_div_less mult.commute)
  then have "bits_loop (Suc n) v s = bits_loop n
      (2 * v + of_bool (bit (bits_bytes s ! (bits_position s div 8)) (7 - bits_position s mod 8))) ?s"
    unfolding bits_loop.simps shifted_bit by (simp add: pbind_def pindex_def index_byte_def)
  then show ?case using Suc.IH [of ?s] Suc.prems remaining_step [OF p] by simp
qed simp

lemma consumes_pure: "consumes (bpure v) [] v"
  by (simp add: consumes_def bpure_def)

lemma consumes_bind: "consumes r bs v \<Longrightarrow> consumes (f v) cs w \<Longrightarrow> consumes (bbind r f) (bs @ cs) w"
proof (unfold consumes_def, intro allI impI)
  fix s rest
  assume r: "\<forall>s rest. bits_ok s \<and> remaining s = bs @ rest \<longrightarrow>
      (\<exists>s'. r s = Some (Ok (v, s')) \<and> bits_ok s' \<and> remaining s' = rest)"
    and f: "\<forall>s rest. bits_ok s \<and> remaining s = cs @ rest \<longrightarrow>
      (\<exists>s'. f v s = Some (Ok (w, s')) \<and> bits_ok s' \<and> remaining s' = rest)"
    and s: "bits_ok s \<and> remaining s = (bs @ cs) @ rest"
  obtain s' where s': "r s = Some (Ok (v, s'))" "bits_ok s'" "remaining s' = cs @ rest"
    using r [rule_format, of s "cs @ rest"] s by auto
  then show "\<exists>s'. bbind r f s = Some (Ok (w, s')) \<and> bits_ok s' \<and> remaining s' = rest"
    using f [rule_format, of s' rest] by (simp add: bbind_def pbind_def)
qed

lemma consumes_bits:
  assumes "length bs = n"
  shows "consumes (bits_read n) bs (bits_value bs)"
proof (unfold consumes_def, intro allI impI)
  fix s rest
  assume s: "bits_ok s \<and> remaining s = bs @ rest"
  then have "length (remaining s) = n + length rest" using assms by simp
  then have l: "8 * length (bits_bytes s) - bits_position s = n + length rest"
    by (simp add: remaining_def length_bit_string)
  then have fits: "bits_position s + n \<le> 8 * length (bits_bytes s)" using s unfolding bits_ok_def by linarith
  have "remaining (s\<lparr>bits_position := bits_position s + n\<rparr>) = drop n (remaining s)"
    by (simp add: remaining_def add.commute)
  then show "\<exists>s'. bits_read n s = Some (Ok (bits_value bs, s')) \<and> bits_ok s' \<and> remaining s' = rest"
    using s fits assms bits_loop_spec [OF fits, of 0]
    by (intro exI [of _ "s\<lparr>bits_position := bits_position s + n\<rparr>"])
      (simp add: bits_read_def bits_value_def bits_ok_def mult.commute)
qed

lemma consumes_ue_zeros:
  "z + k < 32 \<Longrightarrow> consumes (ue_zeros z) (replicate k False @ [True]) (z + k)"
proof (induction k arbitrary: z)
  case 0
  have v: "bits_value [True] = 1" by (simp add: bits_value_def)
  show ?case
  proof (unfold consumes_def, intro allI impI)
    fix s rest
    assume "bits_ok s \<and> remaining s = (replicate 0 False @ [True]) @ rest"
    then obtain s' where s': "bits_read 1 s = Some (Ok (1, s'))" "bits_ok s'" "remaining s' = rest"
      using consumes_bits [of "[True]" 1] v unfolding consumes_def by fastforce
    then show "\<exists>s'. ue_zeros z s = Some (Ok (z + 0, s')) \<and> bits_ok s' \<and> remaining s' = rest"
      by (subst ue_zeros.simps) (simp add: pbind_def)
  qed
next
  case (Suc k)
  have v: "bits_value [False] = 0" by (simp add: bits_value_def)
  show ?case
  proof (unfold consumes_def, intro allI impI)
    fix s rest
    assume s: "bits_ok s \<and> remaining s = (replicate (Suc k) False @ [True]) @ rest"
    then obtain s' where s': "bits_read 1 s = Some (Ok (0, s'))" "bits_ok s'"
        "remaining s' = (replicate k False @ [True]) @ rest"
      using consumes_bits [of "[False]" 1] v unfolding consumes_def by fastforce
    then have "ue_zeros z s = ue_zeros (z + 1) s'" using Suc.prems by (subst ue_zeros.simps) (simp add: pbind_def)
    moreover have "consumes (ue_zeros (z + 1)) (replicate k False @ [True]) (z + 1 + k)"
      using Suc.prems by (intro Suc.IH) simp
    ultimately show "\<exists>s'. ue_zeros z s = Some (Ok (z + Suc k, s')) \<and> bits_ok s' \<and> remaining s' = rest"
      using s' unfolding consumes_def by fastforce
  qed
qed

lemma length_nat_bits [simp]: "length (nat_bits n x) = n"
  by (induction n arbitrary: x) auto

lemma bits_value_nat_bits: "bits_value (nat_bits n x) = word_of_nat (x mod 2 ^ n)"
proof (induction n arbitrary: x)
  case (Suc n)
  have "x mod 2 ^ Suc n = 2 * (x div 2 mod 2 ^ n) + x mod 2" by (simp add: mod_mult2_eq)
  moreover have "of_bool (odd x) = (word_of_nat (x mod 2) :: u32)" by (cases "even x") (simp_all add: mod2_eq_if)
  ultimately show ?case using Suc [of "x div 2"] by (simp add: bits_value_def)
qed (simp add: bits_value_def)

lemma nat_bits_msb: "x < 2 ^ Suc n \<Longrightarrow> nat_bits (Suc n) x = (2 ^ n \<le> x) # nat_bits n (x mod 2 ^ n)"
proof (induction n arbitrary: x)
  case 0
  then have "x = 0 \<or> x = 1" by auto
  then show ?case by auto
next
  case (Suc n)
  have "nat_bits (Suc n) (x div 2) = (2 ^ n \<le> x div 2) # nat_bits n (x div 2 mod 2 ^ n)"
    using Suc.prems by (intro Suc.IH) auto
  moreover have "2 ^ n \<le> x div 2 \<longleftrightarrow> 2 ^ Suc n \<le> x" by auto
  moreover have "x div 2 mod 2 ^ n = x mod 2 ^ Suc n div 2" "odd x = odd (x mod 2 ^ Suc n)"
    by (simp_all add: mod_mult2_eq)
  ultimately show ?case by simp
qed

lemma bit_length_bounds: "0 < x \<Longrightarrow> 0 < bit_length x \<and> 2 ^ (bit_length x - 1) \<le> x \<and> x < 2 ^ bit_length x"
proof (induction x rule: bit_length.induct)
  case (1 x)
  show ?case
  proof (cases "x = 1")
    case False
    then have "0 < x div 2" using 1(2) by auto
    then have IH: "0 < bit_length (x div 2)" "2 ^ (bit_length (x div 2) - 1) \<le> x div 2"
        "x div 2 < 2 ^ bit_length (x div 2)"
      using 1 by auto
    then obtain n where n: "bit_length (x div 2) = Suc n" using gr0_implies_Suc by blast
    then show ?thesis using IH 1(2) by (subst (1 2 3) bit_length.simps) auto
  qed (simp add: bit_length.simps)
qed

lemma consumes_ue:
  assumes "v < 2 ^ 32 - 1"
  shows "consumes ue (ue_bits v) (word_of_nat v)"
proof -
  obtain k where k: "bit_length (v + 1) = Suc k" "2 ^ k \<le> v + 1" "v + 1 < 2 ^ Suc k"
    using bit_length_bounds [of "v + 1"] by (cases "bit_length (v + 1)") auto
  have "k < 32"
  proof (rule ccontr)
    assume "\<not> k < 32"
    then have "(2 :: nat) ^ 32 \<le> 2 ^ k" by (intro power_increasing) auto
    then show False using k(2) assms by simp
  qed
  have r: "(v + 1) mod 2 ^ k = v + 1 - 2 ^ k" using k(2,3) by (simp add: le_mod_geq)
  have bits: "ue_bits v = (replicate k False @ [True]) @ nat_bits k (v + 1 - 2 ^ k) @ []"
    using nat_bits_msb [OF k(3)] k(1,2) r by (simp add: ue_bits_def)
  have "v + 1 - 2 ^ k < 2 ^ k" using k(3) by simp
  then have "bits_value (nat_bits k (v + 1 - 2 ^ k)) = word_of_nat (v + 1 - 2 ^ k)"
    by (simp add: bits_value_nat_bits)
  moreover have "push_bit k 1 - 1 + word_of_nat (v + 1 - 2 ^ k) = (word_of_nat v :: u32)"
  proof -
    have "v = 2 ^ k - 1 + (v + 1 - 2 ^ k)" using k(2) by simp
    then have "(word_of_nat v :: u32) = word_of_nat (2 ^ k - 1) + word_of_nat (v + 1 - 2 ^ k)"
      by (metis of_nat_add)
    then show ?thesis by (simp add: push_bit_eq_mult of_nat_diff)
  qed
  ultimately have "consumes (bbind (bits_read k) (\<lambda>v. bpure (push_bit k 1 - 1 + v)))
      (nat_bits k (v + 1 - 2 ^ k) @ []) (word_of_nat v)"
    using consumes_bind [OF consumes_bits [of "nat_bits k (v + 1 - 2 ^ k)" k] consumes_pure,
        of "\<lambda>v. push_bit k 1 - 1 + v"] by simp
  then show ?thesis
    unfolding ue_def bits using consumes_bind [OF consumes_ue_zeros [of 0 k]] \<open>k < 32\<close> by simp
qed

section \<open>The AVC configuration record\<close>

lemma find_unit_find:
  "list_all (\<lambda>nal. nal \<noteq> []) units \<Longrightarrow>
   find_unit vcodec kind units =
     Some (case find (\<lambda>nal. nal_type vcodec (hd nal) = kind) units of
             None \<Rightarrow> Err Missing_Parameter_Set | Some nal \<Rightarrow> Ok nal)"
  by (induction units) (auto simp: pbind_def pindex_def index_byte_def hd_conv_nth)

lemma consumes_skip_bit:
  assumes "length fl = of_bool b"
  shows "consumes (skip_bit_if b) fl ()"
  using assms consumes_bind [OF consumes_bits [of fl 1] consumes_pure, of "\<lambda>_. ()"]
  by (cases b) (simp_all add: skip_bit_if_def consumes_pure)

lemma consumes_avc_extension:
  assumes "i < 2 ^ 32 - 1" "chroma \<le> 3" "luma \<le> 7" "depth \<le> 7" "length fl = of_bool (chroma = 3)"
  shows "consumes avc_extension (ue_bits i @ ue_bits chroma @ fl @ ue_bits luma @ ue_bits depth @ [])
    [0xfc OR word_of_nat chroma, 0xf8 OR word_of_nat luma, 0xf8 OR word_of_nat depth, 0]"
proof -
  have three: "\<not> 3 < (word_of_nat chroma :: u32)" "(word_of_nat chroma :: u32) = 3 \<longleftrightarrow> chroma = 3"
    using assms(2) by (auto simp: word_less_nat_alt word_unat_eq_iff unat_of_nat)
  have seven: "(word_of_nat luma :: u32) \<le> 7 \<and> (word_of_nat depth :: u32) \<le> 7"
    using assms(3,4) by (simp add: word_le_nat_alt unat_of_nat)
  have narrow: "ucast (word_of_nat n :: u32) = (word_of_nat n :: u8)" if "n < 256" for n
    using that by (simp add: word_unat_eq_iff unat_of_nat unsigned_ucast_eq take_bit_eq_mod)
  have "consumes (bpure [0xfc OR ucast (word_of_nat chroma :: u32), 0xf8 OR ucast (word_of_nat luma :: u32),
      0xf8 OR ucast (word_of_nat depth :: u32), 0 :: u8]) []
    [0xfc OR word_of_nat chroma, 0xf8 OR word_of_nat luma, 0xf8 OR word_of_nat depth, 0]"
    using assms(2-4) by (simp add: narrow consumes_pure)
  then have tail: "consumes (bbind ue (\<lambda>luma. bbind ue (\<lambda>chroma_depth.
        if \<not> (luma \<le> 7 \<and> chroma_depth \<le> 7) then bfail Invalid_Bit_Depth
        else bpure [0xfc OR ucast (word_of_nat chroma :: u32), 0xf8 OR ucast luma, 0xf8 OR ucast chroma_depth, 0 :: u8])))
      (ue_bits luma @ ue_bits depth @ [])
      [0xfc OR word_of_nat chroma, 0xf8 OR word_of_nat luma, 0xf8 OR word_of_nat depth, 0]"
    using assms seven by (intro consumes_bind [OF consumes_ue [of luma]] consumes_bind [OF consumes_ue [of depth]]) simp_all
  show ?thesis
    unfolding avc_extension_def
  proof (rule consumes_bind [OF consumes_ue [OF assms(1)]], rule consumes_bind [OF consumes_ue])
    show "chroma < 2 ^ 32 - 1" using assms(2) by simp
  qed (use consumes_bind [OF consumes_skip_bit [OF assms(5)] tail] three in simp)
qed

text \<open>Building the codec configuration of a recording never panics: whatever bytes the Agent sends as its
  first keyframe, \<open>codec_private\<close> returns a record or an error. For an access unit whose high-profile SPS
  is written as the standard says (Exp-Golomb fields, emulation prevention bytes), the AVC configuration
  record holds the profile and level bytes, both parameter sets with their lengths, and the chroma format
  and bit depths of the SPS.
\<close>

theorem codec_private_correct:
  assumes "list_all nal_unit (map snd units)"
    and "find (\<lambda>nal. nal_type H264 (hd nal) = 7) (map snd units) = Some sps"
    and "find (\<lambda>nal. nal_type H264 (hd nal) = 8) (map snd units) = Some pps"
    and "sps = [h, a, b, c] @ escape 0 payload" "a \<in> set high_profiles"
    and "length sps < 2 ^ 16" "length pps < 2 ^ 16"
    and "concat (map byte_bits payload)
      = ue_bits i @ ue_bits chroma @ fl @ ue_bits luma @ ue_bits depth @ rest"
    and "i < 2 ^ 32 - 1" "chroma \<le> 3" "length fl = of_bool (chroma = 3)" "luma \<le> 7" "depth \<le> 7"
  shows "codec_private vcodec data \<noteq> None
    \<and> codec_private H264 (annex_b_stream units) = Some (Ok (
        [1, a, b, c, 0xff, 0xe1] @ be_bytes 2 (length sps) @ sps @ [1] @ be_bytes 2 (length pps) @ pps
        @ [0xfc OR word_of_nat chroma, 0xf8 OR word_of_nat luma, 0xf8 OR word_of_nat depth, 0]))"
proof -
  have ne: "list_all (\<lambda>nal. nal \<noteq> []) (map snd units)" using assms(1) by (auto simp: list_all_iff nal_unit_def)
  have bits: "bits_ok (Bits_new (drop 4 sps))"
      "remaining (Bits_new (drop 4 sps)) = (ue_bits i @ ue_bits chroma @ fl @ ue_bits luma @ ue_bits depth @ []) @ rest"
    using assms(4,8) by (simp_all add: Bits_new_def bits_ok_def remaining_def unescape_escape)
  obtain s' where ext: "avc_extension (Bits_new (drop 4 sps)) =
      Some (Ok ([0xfc OR word_of_nat chroma, 0xf8 OR word_of_nat luma, 0xf8 OR word_of_nat depth, 0], s'))"
    using consumes_avc_extension [OF assms(9,10,12,13,11)] bits unfolding consumes_def by blast
  have "\<not> length sps < 4" "pindex sps 1 = Some (Ok a)" "pindex sps 2 = Some (Ok b)" "pindex sps 3 = Some (Ok c)"
    using assms(4) by (simp_all add: pindex_def index_byte_def)
  then have "codec_private H264 (annex_b_stream units) = Some (Ok (
      [1, a, b, c, 0xff, 0xe1] @ be_bytes 2 (length sps) @ sps @ [1] @ be_bytes 2 (length pps) @ pps
      @ [0xfc OR word_of_nat chroma, 0xf8 OR word_of_nat luma, 0xf8 OR word_of_nat depth, 0]))"
    using ext assms(2,3,5-7)
    by (simp add: codec_private_def avc_private_def annex_b_roundtrip [OF assms(1)] find_unit_find [OF ne]
      pbind_def append_nal_def)
  then show ?thesis using returns_codec_private [of vcodec data] by (simp add: returns_def)
qed

theorem codec_private_correct_witness:
  "codec_private H265 [0, 0, 1] \<noteq> None
   \<and> codec_private H264 (annex_b_stream [(True, [103, 100, 0, 31, 174]), (False, [104, 238])]) = Some (Ok (
       [1, 100, 0, 31, 0xff, 0xe1] @ be_bytes 2 (length [103, 100, 0, 31, 174 :: u8]) @ [103, 100, 0, 31, 174]
       @ [1] @ be_bytes 2 (length [104, 238 :: u8]) @ [104, 238]
       @ [0xfc OR word_of_nat 1, 0xf8 OR word_of_nat 0, 0xf8 OR word_of_nat 0, 0]))"
proof (rule codec_private_correct)
  show "list_all nal_unit (map snd [(True, [103, 100, 0, 31, 174]), (False, [104, 238])])"
    by (simp add: nal_unit_def code_at_def upt_rec)
  show "[103, 100, 0, 31, 174] = [103, 100, 0, 31] @ escape 0 [174 :: u8]" by simp
  have "ue_bits 0 = [True]" "ue_bits 1 = [False, True, False]"
    by (simp_all add: ue_bits_def bit_length.simps numeral_2_eq_2)
  then show "concat (map byte_bits [174]) = ue_bits 0 @ ue_bits 1 @ [] @ ue_bits 0 @ ue_bits 0 @ [True, False]"
    by (simp add: byte_bits_def)
qed (simp_all add: nal_type_def high_profiles_def)

end
