(* ===== verification/Matroska.thy ===== *)
theory Matroska
  imports Parameter_Sets
begin

text \<open>
  Matroska files as the viewer streams them (\<open>remote/src/matroska.rs\<close>): EBML elements, the header of a
  recording and one cluster per frame. The expectations the code states (identifiers are not zero, an
  element is shorter than \<open>2 ^ 56 - 1\<close> bytes) are the branches \<open>None\<close>. A write to the file either puts
  all bytes there or fails after some of them.
\<close>

section \<open>EBML elements\<close>

definition element :: "u32 \<Rightarrow> bytes \<Rightarrow> bytes option" where
  "element i data =
     (let bs = be_bytes 4 (unat i); len = (word_of_nat (length data) :: u64) in
      case find (\<lambda>k. bs ! k \<noteq> 0) [0..<4] of
        None \<Rightarrow> None
      | Some first \<Rightarrow>
          (case find (\<lambda>w. len < push_bit (7 * w) 1 - 1) [1..<9] of
             None \<Rightarrow> None
           | Some width \<Rightarrow>
               Some (drop first bs @ drop (8 - width) (be_bytes 8 (unat (len OR push_bit (7 * width) 1))) @ data)))"

definition uint_element :: "u32 \<Rightarrow> u64 \<Rightarrow> bytes option" where
  "uint_element i v =
     (let bs = be_bytes 8 (unat v) in
      element i (drop (case find (\<lambda>k. bs ! k \<noteq> 0) [0..<8] of None \<Rightarrow> 7 | Some k \<Rightarrow> k) bs))"

fun concat_elements :: "bytes option list \<Rightarrow> bytes option" where
  "concat_elements [] = Some []"
| "concat_elements (None # es) = None"
| "concat_elements (Some bs # es) = map_option ((@) bs) (concat_elements es)"

section \<open>Writing a recording\<close>

definition disk_write :: "nat option \<Rightarrow> bytes \<Rightarrow> bytes \<times> (recording_error + unit)" where
  "disk_write failed_after bs =
     (case failed_after of None \<Rightarrow> (bs, Ok ()) | Some k \<Rightarrow> (take k bs, Err Disk_Error))"

record matroska =
  mk_output :: bytes
  mk_origin_us :: u64

definition ascii :: "string \<Rightarrow> bytes" where
  "ascii s = map (\<lambda>c. of_char c) s"

definition segment_start :: bytes where
  "segment_start = [0x18, 0x53, 0x80, 0x67, 0x01, 0xff, 0xff, 0xff, 0xff, 0xff, 0xff, 0xff]"

definition codec_name :: "codec_kind \<Rightarrow> bytes" where
  "codec_name vcodec = (case vcodec of H264 \<Rightarrow> ascii ''V_MPEG4/ISO/AVC'' | H265 \<Rightarrow> ascii ''V_MPEGH/ISO/HEVC'')"

definition ebml_head :: "bytes option" where
  "ebml_head =
     Option.bind (concat_elements [uint_element 0x4286 1, uint_element 0x42f7 1, uint_element 0x42f2 4,
         uint_element 0x42f3 8, element 0x4282 (ascii ''matroska''), uint_element 0x4287 4, uint_element 0x4285 2])
       (element 0x1a45dfa3)"

definition segment_info :: "bytes option" where
  "segment_info =
     Option.bind (concat_elements [uint_element 0x2ad7b1 1000000, element 0x4d80 (ascii ''MeshRMM''),
         element 0x5741 (ascii ''MeshRMM'')])
       (element 0x1549a966)"

definition track_entry :: "video_format \<Rightarrow> bytes \<Rightarrow> bytes option" where
  "track_entry f private =
     concat_elements [uint_element 0xd7 1, uint_element 0x73c5 1, uint_element 0x83 1, uint_element 0x9c 0,
       element 0x86 (codec_name (vf_codec f)), element 0x63a2 private,
       Option.bind (concat_elements [uint_element 0xb0 (ucast (vf_width f)), uint_element 0xba (ucast (vf_height f))])
         (element 0xe0)]"

definition tracks_element :: "video_format \<Rightarrow> bytes \<Rightarrow> bytes option" where
  "tracks_element f private =
     Option.bind (track_entry f private) (\<lambda>entry. Option.bind (element 0xae entry) (element 0x1654ae6b))"

definition file_header :: "video_format \<Rightarrow> bytes \<Rightarrow> bytes option" where
  "file_header f private = concat_elements [ebml_head, Some segment_start, segment_info, tracks_element f private]"

definition Matroska_new ::
    "nat option \<Rightarrow> video_format \<Rightarrow> encoded_frame \<Rightarrow> (bytes \<times> (recording_error + matroska)) option" where
  "Matroska_new failed_after f first =
     (case codec_private (vf_codec f) (ef_data first) of
        None \<Rightarrow> None
      | Some (Inl e) \<Rightarrow> Some ([], Err e)
      | Some (Inr private) \<Rightarrow>
          (case file_header f private of
             None \<Rightarrow> None
           | Some h \<Rightarrow>
               (case disk_write failed_after h of
                  (out, Inl e) \<Rightarrow> Some (out, Err e)
                | (out, Inr _) \<Rightarrow>
                    Some (out, Ok \<lparr>mk_output = out, mk_origin_us = ef_capture_timestamp_us first\<rparr>))))"

fun block_units :: "bytes list \<Rightarrow> recording_error + bytes" where
  "block_units [] = Ok []"
| "block_units (nal # units) =
     (if 2 ^ 32 \<le> length nal then Err Length_Overflow
      else case block_units units of Inl e \<Rightarrow> Err e | Inr bs \<Rightarrow> Ok (be_bytes 4 (length nal) @ nal @ bs))"

definition cluster :: "u64 \<Rightarrow> bytes \<Rightarrow> bytes option" where
  "cluster timestamp block =
     Option.bind (concat_elements [uint_element 0xe7 timestamp, element 0xa3 block]) (element 0x1f43b675)"

definition Matroska_frame ::
    "nat option \<Rightarrow> matroska \<Rightarrow> encoded_frame \<Rightarrow> (matroska \<times> (recording_error + unit)) option" where
  "Matroska_frame failed_after m frame =
     (let units = annex_b_units (ef_data frame) in
      if units = [] then Some (m, Err No_Annex_B_Units)
      else case block_units units of
        Inl e \<Rightarrow> Some (m, Err e)
      | Inr bs \<Rightarrow>
          (let timestamp = sat_sub (ef_capture_timestamp_us frame) (mk_origin_us m) div 1000 in
           case cluster timestamp ([0x81, 0, 0, if ef_keyframe frame then 0x80 else 0] @ bs) of
             None \<Rightarrow> None
           | Some c \<Rightarrow>
               (let (out, r) = disk_write failed_after c in Some (m\<lparr>mk_output := mk_output m @ out\<rparr>, r))))"

section \<open>A reference reader\<close>

text \<open>Variable-length integers of EBML: the leading zero bits of the first byte give the length.\<close>

definition vint_width :: "u8 \<Rightarrow> nat" where
  "vint_width b =
     (if 128 \<le> b then 1 else if 64 \<le> b then 2 else if 32 \<le> b then 3 else if 16 \<le> b then 4
      else if 8 \<le> b then 5 else if 4 \<le> b then 6 else if 2 \<le> b then 7 else if 1 \<le> b then 8 else 0)"

definition read_vint :: "nat \<Rightarrow> bytes reader" where
  "read_vint limit =
     rbind (read_exact 1) (\<lambda>b. let w = vint_width (hd b) in
       if w = 0 \<or> limit < w then rfail Invalid_Data
       else rbind (read_exact (w - 1)) (\<lambda>bs. rpure (b @ bs)))"

definition read_element :: "(nat \<times> bytes) reader" where
  "read_element =
     rbind (read_vint 4) (\<lambda>i. rbind (read_vint 8) (\<lambda>n.
       rbind (read_exact (be_nat n - 2 ^ (7 * length n))) (\<lambda>data. rpure (be_nat i, data))))"

function read_units :: "bytes \<Rightarrow> io_error + bytes list" where
  "read_units bs =
     (if bs = [] then Ok []
      else case read_nal bs of
        Inl e \<Rightarrow> Err e
      | Inr (nal, rest) \<Rightarrow>
          if length rest < length bs
          then (case read_units rest of Inl e \<Rightarrow> Err e | Inr units \<Rightarrow> Ok (nal # units))
          else Err Invalid_Data)"
  by pat_completeness auto
termination
  by (relation "measure length") auto

declare read_units.simps [simp del]

definition read_block :: "bytes \<Rightarrow> io_error + bool \<times> bytes list" where
  "read_block bs =
     (if take 3 bs = [0x81, 0, 0] \<and> 4 \<le> length bs
      then (case read_units (drop 4 bs) of Inl e \<Rightarrow> Err e | Inr units \<Rightarrow> Ok (bs ! 3 = 0x80, units))
      else Err Invalid_Data)"

definition parse_cluster :: "bytes \<Rightarrow> io_error + nat \<times> bool \<times> bytes list" where
  "parse_cluster bs =
     (case read_element bs of
        Inr ((i, ts), left) \<Rightarrow>
          if i = 0xe7 then
            (case read_element left of
               Inr ((j, block), []) \<Rightarrow>
                 if j = 0xa3 then
                   (case read_block block of Inl e \<Rightarrow> Err e | Inr (key, units) \<Rightarrow> Ok (be_nat ts, key, units))
                 else Err Invalid_Data
             | _ \<Rightarrow> Err Invalid_Data)
          else Err Invalid_Data
      | _ \<Rightarrow> Err Invalid_Data)"

definition read_cluster :: "(nat \<times> bool \<times> bytes list) reader" where
  "read_cluster =
     rbind read_element (\<lambda>(i, data). if i = 0x1f43b675 then rlift (parse_cluster data) else rfail Invalid_Data)"

function read_children :: "bytes \<Rightarrow> io_error + (nat \<times> bytes) list" where
  "read_children bs =
     (if bs = [] then Ok []
      else case read_element bs of
        Inl e \<Rightarrow> Err e
      | Inr (child, rest) \<Rightarrow>
          if length rest < length bs
          then (case read_children rest of Inl e \<Rightarrow> Err e | Inr children \<Rightarrow> Ok (child # children))
          else Err Invalid_Data)"
  by pat_completeness auto
termination
  by (relation "measure length") auto

declare read_children.simps [simp del]

definition parse_tracks :: "bytes \<Rightarrow> io_error + (nat \<times> bytes) list" where
  "parse_tracks bs =
     (case read_element bs of
        Inr ((i, entry), []) \<Rightarrow> if i = 0xae then read_children entry else Err Invalid_Data
      | _ \<Rightarrow> Err Invalid_Data)"

definition expect_element :: "nat \<Rightarrow> bytes reader" where
  "expect_element i = rbind read_element (\<lambda>(j, data). if j = i then rpure data else rfail Invalid_Data)"

definition read_header :: "(nat \<times> bytes) list reader" where
  "read_header =
     rbind (expect_element 0x1a45dfa3) (\<lambda>_. rbind (read_exact 12) (\<lambda>seg.
       if seg \<noteq> segment_start then rfail Invalid_Data
       else rbind (expect_element 0x1549a966) (\<lambda>_. rbind (expect_element 0x1654ae6b) (\<lambda>d. rlift (parse_tracks d)))))"

section \<open>Elements read back\<close>

lemma be_bytes_Cons: "be_bytes (Suc n) x = word_of_nat (x div 256 ^ n) # be_bytes n x"
proof (induction n arbitrary: x)
  case (Suc n)
  have "be_bytes (Suc (Suc n)) x = (word_of_nat (x div 256 div 256 ^ n) # be_bytes n (x div 256)) @ [word_of_nat x]"
    using Suc by simp
  then show ?case by (simp add: div_mult2_eq)
qed simp

lemma drop_be_bytes: "n \<le> m \<Longrightarrow> drop (m - n) (be_bytes m x) = be_bytes n x"
proof (induction m)
  case (Suc m)
  then show ?case by (cases "n = Suc m") (auto simp: be_bytes_Cons Suc_diff_le simp del: be_bytes.simps(2))
qed simp

lemma unat_or_marker:
  assumes "n < 2 ^ k" "k < 64"
  shows "unat ((word_of_nat n :: u64) OR push_bit k 1) = n + 2 ^ k"
proof -
  have n64: "n < 2 ^ 64" using assms by (meson less_trans power_strict_increasing_iff one_less_numeral_iff semiring_norm(76))
  have "(word_of_nat n :: u64) AND push_bit k 1 = 0"
    using assms by (intro bit_word_eqI) (auto simp: bit_simps bit_nat_def)
  then have "(word_of_nat n :: u64) OR push_bit k 1 = word_of_nat n + push_bit k 1"
    by (simp add: disjunctive_add_eq_or)
  also have "\<dots> = word_of_nat (n + 2 ^ k)" by (simp add: push_bit_eq_mult)
  finally have "unat ((word_of_nat n :: u64) OR push_bit k 1) = (n + 2 ^ k) mod 2 ^ 64" by (simp only: unat_of_nat) simp
  moreover have "(2 :: nat) ^ k + 2 ^ k \<le> 2 ^ 64"
    using assms(2) power_increasing [of "Suc k" 64 "2 :: nat"] by simp
  ultimately show ?thesis using assms(1) by simp
qed

lemma vint_width_of:
  assumes "k \<le> 7" "2 ^ (7 - k) \<le> y" "y < 2 ^ (8 - k)"
  shows "vint_width (word_of_nat y) = Suc k"
proof -
  have "(2 :: nat) ^ (8 - k) \<le> 2 ^ 8" by (intro power_increasing) auto
  then have "unat (word_of_nat y :: u8) = y" using assms(3) by (simp add: unat_of_nat)
  moreover have "k \<in> {0, 1, 2, 3, 4, 5, 6, 7}" using assms(1) by auto
  ultimately show ?thesis using assms(2,3) by (auto simp: vint_width_def word_le_nat_alt)
qed

lemma read_vint_bytes:
  assumes "1 \<le> w" "w \<le> limit" "limit \<le> 8" "2 ^ (7 * w) \<le> x" "x < 2 ^ Suc (7 * w)"
  shows "read_vint limit (be_bytes w x @ rest) = Ok (be_bytes w x, rest)"
proof -
  obtain k where w: "w = Suc k" using assms(1) by (cases w) auto
  have k: "k \<le> 7" using assms(2,3) w by simp
  have e: "(2 :: nat) ^ (7 * w) = 2 ^ (7 - k) * 256 ^ k" "(2 :: nat) ^ Suc (7 * w) = 2 ^ (8 - k) * 256 ^ k"
  proof -
    have "(256 :: nat) ^ k = 2 ^ (8 * k)" by (simp add: power_mult)
    then show "(2 :: nat) ^ (7 * w) = 2 ^ (7 - k) * 256 ^ k" "(2 :: nat) ^ Suc (7 * w) = 2 ^ (8 - k) * 256 ^ k"
      using k w by (simp_all add: power_add [symmetric])
  qed
  have "2 ^ (7 - k) \<le> x div 256 ^ k" "x div 256 ^ k < 2 ^ (8 - k)"
    using assms(4,5) unfolding e by (simp_all add: less_mult_imp_div_less less_eq_div_iff_mult_less_eq)
  then have "vint_width (word_of_nat (x div 256 ^ k)) = w" using vint_width_of k w by simp
  then show ?thesis
    using assms(2) w by (simp add: read_vint_def rbind_def rpure_def read_exact_def be_bytes_Cons Let_def del: be_bytes.simps(2))
qed

lemma find_map: "find P (map f xs) = map_option f (find (\<lambda>x. P (f x)) xs)"
  by (induction xs) auto

lemma drop_leading_zeros:
  "(case find (\<lambda>k. bs ! k \<noteq> 0) [0..<length bs] of None \<Rightarrow> [] | Some k \<Rightarrow> drop k bs) = dropWhile (\<lambda>b. b = 0) bs"
  for bs :: bytes
proof (induction bs)
  case (Cons b bs)
  have "find (\<lambda>k. (b # bs) ! k \<noteq> 0) (map Suc [0..<length bs])
      = map_option Suc (find (\<lambda>k. bs ! k \<noteq> 0) [0..<length bs])"
    by (simp add: find_map del: map_Suc_upt)
  then show ?case using Cons
    by (auto simp: upt_conv_Cons map_Suc_upt [symmetric] simp del: map_Suc_upt upt_Suc split: option.splits)
qed simp

lemma first_nonzero:
  "dropWhile (\<lambda>b. b = 0) bs \<noteq> [] \<Longrightarrow>
   \<exists>k. find (\<lambda>k. bs ! k \<noteq> 0) [0..<length bs] = Some k \<and> drop k bs = dropWhile (\<lambda>b. b = 0) bs"
  for bs :: bytes
  using drop_leading_zeros [of bs] by (cases "find (\<lambda>k. bs ! k \<noteq> 0) [0..<length bs]") (simp_all del: dropWhile_eq_Nil_conv)

lemma dropWhile_be_bytes:
  "1 \<le> w \<Longrightarrow> w \<le> m \<Longrightarrow> 256 ^ (w - 1) \<le> x \<Longrightarrow> x < 256 ^ w \<Longrightarrow> dropWhile (\<lambda>b. b = 0) (be_bytes m x) = be_bytes w x"
proof (induction m)
  case (Suc m)
  show ?case
  proof (cases "w = Suc m")
    case True
    then have "0 < x div 256 ^ m" "x div 256 ^ m < 256"
      using Suc.prems by (simp_all add: div_greater_zero_iff less_mult_imp_div_less)
    then have "(word_of_nat (x div 256 ^ m) :: u8) \<noteq> 0" by (simp add: word_unat_eq_iff unat_of_nat)
    then show ?thesis using True by (simp add: be_bytes_Cons del: be_bytes.simps(2))
  next
    case False
    then have "(256 :: nat) ^ w \<le> 256 ^ m" using Suc.prems by (intro power_increasing) auto
    then have "x div 256 ^ m = 0" using Suc.prems(4) by (intro div_less) (rule less_le_trans)
    then show ?thesis using Suc False by (simp add: be_bytes_Cons del: be_bytes.simps(2))
  qed
qed simp

lemma be_nat_zero_Cons: "be_nat (0 # bs) = be_nat bs"
  by (simp add: be_nat_def)

lemma be_nat_dropWhile: "be_nat (dropWhile (\<lambda>b. b = 0) bs) = be_nat bs"
  by (induction bs) (auto simp: be_nat_zero_Cons)

text \<open>An identifier is well-formed when its leading bits tell its length, as EBML wants.\<close>

definition id_ok :: "u32 \<Rightarrow> bool" where
  "id_ok i \<longleftrightarrow> list_ex (\<lambda>w. 2 ^ (7 * w) \<le> unat i \<and> unat i < 2 ^ Suc (7 * w)) [1, 2, 3, 4]"

lemma find_width:
  assumes "n < 2 ^ 56 - 1"
  obtains w where "1 \<le> w" "w \<le> 8" "n < 2 ^ (7 * w) - 1"
    "find (\<lambda>w. (word_of_nat n :: u64) < push_bit (7 * w) 1 - 1) [1..<9] = Some w"
proof -
  have lt: "(word_of_nat n :: u64) < push_bit (7 * w) 1 - 1 \<longleftrightarrow> n < 2 ^ (7 * w) - 1" if "w \<in> {1..8}" for w
  proof -
    have p: "(2 :: nat) ^ (7 * w) \<le> 2 ^ 56" using that by (intro power_increasing) auto
    have "(push_bit (7 * w) 1 - 1 :: u64) = word_of_nat (2 ^ (7 * w) - 1)" by (simp add: push_bit_eq_mult of_nat_diff)
    then have "unat (push_bit (7 * w) 1 - 1 :: u64) = (2 ^ (7 * w) - 1) mod 2 ^ 64" by (simp only: unat_of_nat) simp
    then have "unat (push_bit (7 * w) 1 - 1 :: u64) = 2 ^ (7 * w) - 1" using p by simp
    then show ?thesis using assms by (simp add: word_less_nat_alt unat_of_nat)
  qed
  have "\<exists>w \<in> set [1..<9]. (word_of_nat n :: u64) < push_bit (7 * w) 1 - 1"
    using lt [of 8] assms by (intro bexI [of _ 8]) auto
  then obtain w where w: "find (\<lambda>w. (word_of_nat n :: u64) < push_bit (7 * w) 1 - 1) [1..<9] = Some w"
    by (metis (no_types, lifting) find_None_iff option.exhaust)
  then have "w \<in> {1..8}" "(word_of_nat n :: u64) < push_bit (7 * w) 1 - 1"
    by (auto simp: find_Some_iff nth_append simp del: upt_rec_numeral)
  then show ?thesis using that w lt by auto
qed

lemma element_bytes:
  assumes "id_ok i" "length data < 2 ^ 56 - 1"
  obtains v w where "1 \<le> v" "v \<le> 4" "2 ^ (7 * v) \<le> unat i" "unat i < 2 ^ Suc (7 * v)"
    "1 \<le> w" "w \<le> 8" "length data < 2 ^ (7 * w)"
    "element i data = Some (be_bytes v (unat i) @ be_bytes w (length data + 2 ^ (7 * w)) @ data)"
proof -
  obtain v where v': "v \<in> set [1, 2, 3, 4]" and v: "2 ^ (7 * v) \<le> unat i" "unat i < 2 ^ Suc (7 * v)"
    using assms(1) unfolding id_ok_def list_ex_iff by blast
  have v1: "1 \<le> v" "v \<le> 4" using v' by auto
  have "(256 :: nat) ^ (v - 1) \<le> 2 ^ (7 * v)" "(2 :: nat) ^ Suc (7 * v) \<le> 256 ^ v" using v' by auto
  then have "256 ^ (v - 1) \<le> unat i" "unat i < 256 ^ v" using v by linarith+
  then have d: "dropWhile (\<lambda>b. b = 0) (be_bytes 4 (unat i)) = be_bytes v (unat i)"
    using v1 by (intro dropWhile_be_bytes)
  have "be_bytes v (unat i) \<noteq> []" using v1 by (metis length_be_bytes length_0_conv not_one_le_zero)
  then obtain first where first: "find (\<lambda>k. be_bytes 4 (unat i) ! k \<noteq> 0) [0..<4] = Some first"
      "drop first (be_bytes 4 (unat i)) = be_bytes v (unat i)"
    using first_nonzero [of "be_bytes 4 (unat i)"] unfolding d length_be_bytes by blast
  obtain w where w: "1 \<le> w" "w \<le> 8" "length data < 2 ^ (7 * w) - 1"
      "find (\<lambda>w. (word_of_nat (length data) :: u64) < push_bit (7 * w) 1 - 1) [1..<9] = Some w"
    using find_width [OF assms(2)] .
  have size: "unat ((word_of_nat (length data) :: u64) OR push_bit (7 * w) 1) = length data + 2 ^ (7 * w)"
    by (rule unat_or_marker) (use w(2,3) in linarith)+
  have "element i data = Some (be_bytes v (unat i) @ be_bytes w (length data + 2 ^ (7 * w)) @ data)"
    unfolding element_def Let_def first(1) w(4) option.case first(2) size drop_be_bytes [OF w(2)] ..
  moreover have "length data < 2 ^ (7 * w)" using w(3) by linarith
  ultimately show ?thesis using that v v1 w(1,2) by blast
qed

lemma element_read:
  assumes "id_ok i" "length data < 2 ^ 56 - 1"
  shows "\<exists>bs. element i data = Some bs \<and> bs \<noteq> [] \<and> length bs \<le> 12 + length data
    \<and> (\<forall>rest. read_element (bs @ rest) = Ok ((unat i, data), rest))"
proof -
  obtain v w where v: "1 \<le> v" "v \<le> 4" "2 ^ (7 * v) \<le> unat i" "unat i < 2 ^ Suc (7 * v)"
    and w: "1 \<le> w" "w \<le> 8" "length data < 2 ^ (7 * w)"
    and e: "element i data = Some (be_bytes v (unat i) @ be_bytes w (length data + 2 ^ (7 * w)) @ data)"
    using element_bytes [OF assms] .
  let ?i = "be_bytes v (unat i)" and ?n = "be_bytes w (length data + 2 ^ (7 * w))"
  have "unat i < 256 ^ v" "length data + 2 ^ (7 * w) < 256 ^ w"
  proof -
    have "(2 :: nat) ^ Suc (7 * v) \<le> 2 ^ (8 * v)" "(2 :: nat) ^ Suc (7 * w) \<le> 2 ^ (8 * w)"
      using v(1) w(1) by (intro power_increasing; simp)+
    then show "unat i < 256 ^ v" "length data + 2 ^ (7 * w) < 256 ^ w"
      using v(4) w(3) by (simp_all add: power_mult)
  qed
  then have n: "be_nat ?i = unat i" "be_nat ?n = length data + 2 ^ (7 * w)" by (simp_all add: be_nat_be_bytes)
  have "read_element ((?i @ ?n @ data) @ rest) = Ok ((unat i, data), rest)" for rest
    using read_vint_bytes [of v 4 "unat i" "?n @ data @ rest"] v
      read_vint_bytes [of w 8 "length data + 2 ^ (7 * w)" "data @ rest"] w n
    by (simp add: read_element_def rbind_def rpure_def read_exact_def)
  moreover have "?i \<noteq> []" using v(1) by (metis length_be_bytes length_0_conv not_one_le_zero)
  moreover have "length (?i @ ?n @ data) \<le> 12 + length data" using v w by simp
  ultimately show ?thesis using e by (metis append_is_Nil_conv)
qed

lemma uint_read:
  assumes "id_ok i"
  shows "\<exists>bs d. uint_element i v = Some bs \<and> bs \<noteq> [] \<and> length d \<le> 8 \<and> length bs \<le> 12 + length d \<and> be_nat d = unat v
    \<and> (\<forall>rest. read_element (bs @ rest) = Ok ((unat i, d), rest))"
proof -
  define d where "d = (let bs = be_bytes 8 (unat v) in
    drop (case find (\<lambda>k. bs ! k \<noteq> 0) [0..<8] of None \<Rightarrow> 7 | Some k \<Rightarrow> k) bs)"
  have all: "be_nat (be_bytes 8 (unat v)) = unat v" using unat_lt_pow [of v] by (simp add: be_nat_be_bytes)
  have "be_nat d = unat v"
  proof (cases "dropWhile (\<lambda>b. b = 0) (be_bytes 8 (unat v)) = []")
    case True
    then have "unat v = 0" using all be_nat_dropWhile [of "be_bytes 8 (unat v)"] by (simp del: dropWhile_eq_Nil_conv)
    moreover have "find (\<lambda>k. be_bytes 8 (unat v) ! k \<noteq> 0) [0..<8] = None"
      using True by (simp add: find_None_iff dropWhile_eq_Nil_conv all_set_conv_all_nth del: upt_rec_numeral)
    ultimately show ?thesis using drop_be_bytes [of 1 8 0] by (simp add: d_def Let_def be_nat_zero_Cons del: upt_rec_numeral)
  next
    case False
    then show ?thesis
      using first_nonzero [OF False] all be_nat_dropWhile [of "be_bytes 8 (unat v)"]
      by (auto simp: d_def Let_def simp del: upt_rec_numeral)
  qed
  moreover have l: "length d \<le> 8" by (simp add: d_def Let_def)
  moreover have "uint_element i v = element i d" by (simp add: uint_element_def d_def Let_def)
  ultimately show ?thesis using element_read [OF assms, of d] by fastforce
qed

section \<open>Clusters\<close>

lemma stable_read_vint [stable_intro]: "stable (read_vint limit)"
  unfolding read_vint_def Let_def by (intro stable_intro)

lemma stable_read_element [stable_intro]: "stable read_element"
  unfolding read_element_def by (intro stable_intro)

lemma stable_read_cluster: "stable read_cluster"
  unfolding read_cluster_def by (intro stable_intro) (auto intro!: stable_intro split: prod.splits)

lemma read_element_empty: "read_element [] = Err Unexpected_Eof"
  by (simp add: read_element_def read_vint_def rbind_def read_exact_def)

lemma read_nal_shorter: "read_nal bs = Ok (nal, rest) \<Longrightarrow> length rest < length bs"
  by (auto simp: read_nal_def rbind_def read_exact_def split: if_splits)

lemma block_units_ok: "list_all (\<lambda>nal. length nal < 2 ^ 32) units \<Longrightarrow>
  block_units units = Ok (concat (map (\<lambda>nal. fst (write_nal nal)) units))"
  by (induction units) (auto simp: write_nal_def not_le)

lemma block_units_conv: "block_units units =
  (if list_all (\<lambda>nal. length nal < 2 ^ 32) units then Ok (concat (map (\<lambda>nal. fst (write_nal nal)) units))
   else Err Length_Overflow)"
  by (induction units) (auto simp: write_nal_def not_le)

lemma read_units_written:
  "list_all (\<lambda>nal. length nal < 2 ^ 32) units \<Longrightarrow> read_units (concat (map (\<lambda>nal. fst (write_nal nal)) units)) = Ok units"
proof (induction units)
  case (Cons nal units)
  let ?rest = "concat (map (\<lambda>nal. fst (write_nal nal)) units)"
  have "read_nal (fst (write_nal nal) @ ?rest) = Ok (nal, ?rest)" using Cons.prems by (intro nals.rd_wr) simp
  moreover have "fst (write_nal nal) \<noteq> []" by (metis append_is_Nil_conv fst_conv length_be_bytes length_0_conv write_nal_def zero_neq_numeral)
  ultimately show ?case using Cons by (subst read_units.simps) simp
qed (simp add: read_units.simps)

text \<open>A cluster stands for its timestamp, its key flag and its NAL units.\<close>

type_synonym mkv_block = "u64 \<times> bool \<times> bytes list"

definition block_bytes :: "bool \<Rightarrow> bytes list \<Rightarrow> bytes" where
  "block_bytes key units = [0x81, 0, 0, if key then 0x80 else 0] @ concat (map (\<lambda>nal. fst (write_nal nal)) units)"

definition block_ok :: "mkv_block \<Rightarrow> bool" where
  "block_ok m \<longleftrightarrow> (case m of (timestamp, key, units) \<Rightarrow>
     list_all (\<lambda>nal. length nal < 2 ^ 32) units \<and> length (block_bytes key units) < 2 ^ 55)"

definition write_cluster :: "mkv_block \<Rightarrow> written" where
  "write_cluster m = (case m of (timestamp, key, units) \<Rightarrow>
     case cluster timestamp (block_bytes key units) of None \<Rightarrow> ([], Err Io_Other) | Some bs \<Rightarrow> (bs, Ok ()))"

definition read_mkv_block :: "mkv_block reader" where
  "read_mkv_block = rbind read_cluster (\<lambda>(timestamp, key, units). rpure (word_of_nat timestamp, key, units))"

lemma read_block_bytes:
  "list_all (\<lambda>nal. length nal < 2 ^ 32) units \<Longrightarrow> read_block (block_bytes key units) = Ok (key, units)"
  by (simp add: read_block_def block_bytes_def read_units_written)

lemma cluster_read:
  assumes "list_all (\<lambda>nal. length nal < 2 ^ 32) units" "length (block_bytes key units) < 2 ^ 55"
  shows "\<exists>bs. cluster timestamp (block_bytes key units) = Some bs \<and> bs \<noteq> []
    \<and> (\<forall>rest. read_cluster (bs @ rest) = Ok ((unat timestamp, key, units), rest))"
proof -
  let ?block = "block_bytes key units"
  have ids: "id_ok 0xe7" "id_ok 0xa3" "id_ok 0x1f43b675" by (simp_all add: id_ok_def)
  obtain t d where t: "uint_element 0xe7 timestamp = Some t" "length t \<le> 20" "be_nat d = unat timestamp"
      "\<And>rest. read_element (t @ rest) = Ok ((unat (0xe7 :: u32), d), rest)"
    using uint_read [OF ids(1), of timestamp] by force
  obtain b where b: "element 0xa3 ?block = Some b" "length b \<le> 12 + length ?block"
      "\<And>rest. read_element (b @ rest) = Ok ((unat (0xa3 :: u32), ?block), rest)"
    using element_read [OF ids(2), of ?block] assms(2) by auto
  have parsed: "parse_cluster (t @ b) = Ok (unat timestamp, key, units)"
    using t(3,4) b(3) [of "[]"] read_block_bytes [OF assms(1)] by (simp add: parse_cluster_def)
  have "length (t @ b) < 2 ^ 56 - 1" using t(2) b(2) assms(2) by simp
  then obtain c where c: "element 0x1f43b675 (t @ b) = Some c" "c \<noteq> []"
      "\<And>rest. read_element (c @ rest) = Ok ((unat (0x1f43b675 :: u32), t @ b), rest)"
    using element_read [OF ids(3), of "t @ b"] by blast
  have "cluster timestamp ?block = Some c" using t(1) b(1) c(1) by (simp add: cluster_def)
  moreover have "read_cluster (c @ rest) = Ok ((unat timestamp, key, units), rest)" for rest
    using c(3) parsed by (simp add: read_cluster_def rbind_def rlift_def)
  ultimately show ?thesis using c(2) by blast
qed

interpretation clusters: framing write_cluster read_mkv_block block_ok
proof unfold_locales
  fix m :: mkv_block and rest
  assume "block_ok m"
  then obtain timestamp key units where m: "m = (timestamp, key, units)"
      "list_all (\<lambda>nal. length nal < 2 ^ 32) units" "length (block_bytes key units) < 2 ^ 55"
    by (auto simp: block_ok_def)
  then show "snd (write_cluster m) = Ok ()" "read_mkv_block (fst (write_cluster m) @ rest) = Ok (m, rest)"
    using cluster_read [OF m(2,3), of timestamp]
    by (auto simp: write_cluster_def read_mkv_block_def rbind_def rpure_def)
next
  show "stable read_mkv_block"
    unfolding read_mkv_block_def by (intro stable_intro stable_read_cluster) (auto intro!: stable_intro split: prod.splits)
  show "read_mkv_block [] = Err Unexpected_Eof"
    by (simp add: read_mkv_block_def read_cluster_def rbind_def read_element_empty)
qed

section \<open>The header\<close>

definition reads_as :: "bytes option \<Rightarrow> nat \<times> bytes \<Rightarrow> bool" where
  "reads_as e c \<longleftrightarrow> (\<exists>bs. e = Some bs \<and> bs \<noteq> [] \<and> length bs \<le> 12 + length (snd c)
     \<and> (\<forall>rest. read_element (bs @ rest) = Ok (c, rest)))"

lemma element_reads_as: "id_ok i \<Longrightarrow> length data < 2 ^ 56 - 1 \<Longrightarrow> reads_as (element i data) (unat i, data)"
  using element_read [of i data] by (simp add: reads_as_def)

lemma concat_elements_read:
  "list_all2 reads_as es cs \<Longrightarrow>
   \<exists>bs. concat_elements es = Some bs \<and> length bs \<le> sum_list (map (\<lambda>c. 12 + length (snd c)) cs) \<and> read_children bs = Ok cs"
proof (induction es cs rule: list_all2_induct)
  case Nil
  then show ?case by (simp add: read_children.simps)
next
  case (Cons e es c cs)
  then obtain b bs where b: "e = Some b" "b \<noteq> []" "length b \<le> 12 + length (snd c)"
      "\<And>rest. read_element (b @ rest) = Ok (c, rest)"
    and bs: "concat_elements es = Some bs" "length bs \<le> sum_list (map (\<lambda>c. 12 + length (snd c)) cs)"
      "read_children bs = Ok cs"
    unfolding reads_as_def by blast
  have "read_children (b @ bs) = Ok (c # cs)" using b bs(3) by (subst read_children.simps) simp
  then show ?case using b bs by simp
qed

lemma uint_reads_as:
  assumes "id_ok i"
  obtains d where "length d \<le> 8" "be_nat d = unat v" "reads_as (uint_element i v) (unat i, d)"
proof -
  obtain bs d where d: "uint_element i v = Some bs" "bs \<noteq> []" "length d \<le> 8" "length bs \<le> 12 + length d" "be_nat d = unat v"
      "\<forall>rest. read_element (bs @ rest) = Ok ((unat i, d), rest)"
    using uint_read [OF assms] by blast
  then show ?thesis using that by (simp add: reads_as_def)
qed

lemma expect_reads: "reads_as (Some bs) (i, data) \<Longrightarrow> expect_element i (bs @ rest) = Ok (data, rest)"
  by (simp add: reads_as_def expect_element_def rbind_def rpure_def)

lemma bound_reads_as:
  assumes "list_all2 reads_as es cs" "sum_list (map (\<lambda>c. 12 + length (snd c)) cs) < 2 ^ 56 - 1" "id_ok i"
  obtains data where "concat_elements es = Some data" "read_children data = Ok cs"
    "length data \<le> sum_list (map (\<lambda>c. 12 + length (snd c)) cs)"
    "reads_as (Option.bind (concat_elements es) (element i)) (unat i, data)"
proof -
  obtain data where d: "concat_elements es = Some data" "read_children data = Ok cs"
      "length data \<le> sum_list (map (\<lambda>c. 12 + length (snd c)) cs)"
    using concat_elements_read [OF assms(1)] by blast
  then have "reads_as (element i data) (unat i, data)" using assms(2,3) by (intro element_reads_as) linarith+
  then show ?thesis using that d by simp
qed

lemma short_elements:
  "list_all (\<lambda>e. \<exists>c. reads_as e c \<and> length (snd c) \<le> 20) es \<Longrightarrow>
   \<exists>cs. list_all2 reads_as es cs \<and> sum_list (map (\<lambda>c. 12 + length (snd c)) cs) \<le> 32 * length es"
proof (induction es)
  case (Cons e es)
  then obtain c cs where "reads_as e c" "length (snd c) \<le> 20" "list_all2 reads_as es cs"
      "sum_list (map (\<lambda>c. 12 + length (snd c)) cs) \<le> 32 * length es"
    by auto
  then show ?case by (intro exI [of _ "c # cs"]) auto
qed simp

lemma uint_short: "id_ok i \<Longrightarrow> \<exists>c. reads_as (uint_element i v) c \<and> length (snd c) \<le> 20"
proof -
  assume "id_ok i"
  then obtain d where "length d \<le> 8" "reads_as (uint_element i v) (unat i, d)" using uint_reads_as by blast
  then show ?thesis by (intro exI [of _ "(unat i, d)"]) simp
qed

lemma element_short: "id_ok i \<Longrightarrow> length data \<le> 20 \<Longrightarrow> \<exists>c. reads_as (element i data) c \<and> length (snd c) \<le> 20"
  using element_reads_as [of i data] by (intro exI [of _ "(unat i, data)"]) simp

lemma ebml_head_reads: "\<exists>data. reads_as ebml_head (0x1a45dfa3, data)"
proof -
  let ?es = "[uint_element 0x4286 1, uint_element 0x42f7 1, uint_element 0x42f2 4,
    uint_element 0x42f3 8, element 0x4282 (ascii ''matroska''), uint_element 0x4287 4, uint_element 0x4285 2]"
  have "list_all (\<lambda>e. \<exists>c. reads_as e c \<and> length (snd c) \<le> 20) ?es"
    unfolding list.pred_inject by (intro conjI uint_short element_short TrueI) (simp_all add: id_ok_def ascii_def)
  then obtain cs where cs: "list_all2 reads_as ?es cs" "sum_list (map (\<lambda>c. 12 + length (snd c)) cs) \<le> 32 * 7"
    using short_elements by fastforce
  have "id_ok 0x1a45dfa3" by (simp add: id_ok_def)
  moreover have "sum_list (map (\<lambda>c. 12 + length (snd c)) cs) < 2 ^ 56 - 1" by (rule le_less_trans [OF cs(2)]) simp
  ultimately obtain data where "reads_as ebml_head (unat (0x1a45dfa3 :: u32), data)"
    unfolding ebml_head_def using bound_reads_as [OF cs(1)] by metis
  then show ?thesis by auto
qed

lemma segment_info_reads: "\<exists>data. reads_as segment_info (0x1549a966, data)"
proof -
  let ?es = "[uint_element 0x2ad7b1 1000000, element 0x4d80 (ascii ''MeshRMM''), element 0x5741 (ascii ''MeshRMM'')]"
  have "list_all (\<lambda>e. \<exists>c. reads_as e c \<and> length (snd c) \<le> 20) ?es"
    unfolding list.pred_inject by (intro conjI uint_short element_short TrueI) (simp_all add: id_ok_def ascii_def)
  then obtain cs where cs: "list_all2 reads_as ?es cs" "sum_list (map (\<lambda>c. 12 + length (snd c)) cs) \<le> 32 * 3"
    using short_elements by fastforce
  have "id_ok 0x1549a966" by (simp add: id_ok_def)
  moreover have "sum_list (map (\<lambda>c. 12 + length (snd c)) cs) < 2 ^ 56 - 1" by (rule le_less_trans [OF cs(2)]) simp
  ultimately obtain data where "reads_as segment_info (unat (0x1549a966 :: u32), data)"
    unfolding segment_info_def using bound_reads_as [OF cs(1)] by metis
  then show ?thesis by auto
qed

lemma unat_widened: "unat (ucast (x :: u32) :: u64) = unat x"
  using unat_lt_pow [of x] by (simp add: unsigned_ucast_eq take_bit_eq_mod)

lemma track_entry_reads:
  assumes "length private < 2 ^ 50"
  shows "\<exists>entry cs video w h. track_entry f private = Some entry \<and> length entry < 2 ^ 51 \<and> read_children entry = Ok cs
    \<and> map_of cs 0x86 = Some (codec_name (vf_codec f)) \<and> map_of cs 0x63a2 = Some private
    \<and> map_of cs 0xe0 = Some video \<and> read_children video = Ok [(0xb0, w), (0xba, h)]
    \<and> be_nat w = unat (vf_width f) \<and> be_nat h = unat (vf_height f)"
proof -
  have ids: "id_ok 0xd7" "id_ok 0x73c5" "id_ok 0x83" "id_ok 0x9c" "id_ok 0x86" "id_ok 0x63a2" "id_ok 0xe0"
      "id_ok 0xb0" "id_ok 0xba"
    by (simp_all add: id_ok_def)
  have name: "length (codec_name (vf_codec f)) \<le> 20" by (simp add: codec_name_def ascii_def split: codec_kind.splits)
  obtain w where w: "length w \<le> 8" "be_nat w = unat (ucast (vf_width f) :: u64)" "reads_as (uint_element 0xb0 (ucast (vf_width f))) (0xb0, w)"
    using uint_reads_as [OF ids(8), of "ucast (vf_width f)"] by auto
  obtain h where h: "length h \<le> 8" "be_nat h = unat (ucast (vf_height f) :: u64)" "reads_as (uint_element 0xba (ucast (vf_height f))) (0xba, h)"
    using uint_reads_as [OF ids(9), of "ucast (vf_height f)"] by auto
  let ?video = "[uint_element 0xb0 (ucast (vf_width f)), uint_element 0xba (ucast (vf_height f))]"
  have "list_all2 reads_as ?video [(0xb0, w), (0xba, h)]" using w h by simp
  then obtain video where video: "read_children video = Ok [(0xb0, w), (0xba, h)]" "length video \<le> 40"
      "reads_as (Option.bind (concat_elements ?video) (element 0xe0)) (0xe0, video)"
    using bound_reads_as [of ?video "[(0xb0, w), (0xba, h)]" "0xe0"] w(1) h(1) ids(7) by force
  obtain a where a: "length a \<le> 8" "reads_as (uint_element 0xd7 1) (0xd7, a)"
    using uint_reads_as [OF ids(1), of 1] by auto
  obtain b where b: "length b \<le> 8" "reads_as (uint_element 0x73c5 1) (0x73c5, b)"
    using uint_reads_as [OF ids(2), of 1] by auto
  obtain c where c: "length c \<le> 8" "reads_as (uint_element 0x83 1) (0x83, c)"
    using uint_reads_as [OF ids(3), of 1] by auto
  obtain d where d: "length d \<le> 8" "reads_as (uint_element 0x9c 0) (0x9c, d)"
    using uint_reads_as [OF ids(4), of 0] by auto
  note small = a b c d
  have big: "reads_as (element 0x86 (codec_name (vf_codec f))) (0x86, codec_name (vf_codec f))"
      "reads_as (element 0x63a2 private) (0x63a2, private)"
    using element_reads_as [OF ids(5), of "codec_name (vf_codec f)"] element_reads_as [OF ids(6), of "private"] name assms
    by simp_all
  let ?cs = "[(0xd7, a), (0x73c5, b), (0x83, c), (0x9c, d), (0x86, codec_name (vf_codec f)), (0x63a2, private), (0xe0, video)]"
  obtain entry where entry: "track_entry f private = Some entry" "read_children entry = Ok ?cs"
      "length entry \<le> sum_list (map (\<lambda>c. 12 + length (snd c)) ?cs)"
    using concat_elements_read [of _ ?cs] small big video(3) unfolding track_entry_def by force
  moreover have "length entry < 2 ^ 51" using entry(3) small name video(2) assms by simp
  ultimately show ?thesis using w(2) h(2) video(1)
    by (intro exI [of _ entry] exI [of _ ?cs] exI [of _ video] exI [of _ w] exI [of _ h]) (simp add: unat_widened)
qed

lemma header_reads:
  assumes "length private < 2 ^ 50"
  shows "\<exists>hdr cs video w h. file_header f private = Some hdr \<and> (\<forall>rest. read_header (hdr @ rest) = Ok (cs, rest))
    \<and> map_of cs 0x86 = Some (codec_name (vf_codec f)) \<and> map_of cs 0x63a2 = Some private
    \<and> map_of cs 0xe0 = Some video \<and> read_children video = Ok [(0xb0, w), (0xba, h)]
    \<and> be_nat w = unat (vf_width f) \<and> be_nat h = unat (vf_height f)"
proof -
  obtain e where e: "ebml_head = Some e" "\<And>rest. \<exists>d. expect_element 0x1a45dfa3 (e @ rest) = Ok (d, rest)"
    using ebml_head_reads expect_reads by (metis reads_as_def)
  obtain i where i: "segment_info = Some i" "\<And>rest. \<exists>d. expect_element 0x1549a966 (i @ rest) = Ok (d, rest)"
    using segment_info_reads expect_reads by (metis reads_as_def)
  obtain entry cs video w h where entry: "track_entry f private = Some entry" "length entry < 2 ^ 51"
      "read_children entry = Ok cs" "map_of cs 0x86 = Some (codec_name (vf_codec f))"
      "map_of cs 0x63a2 = Some private" "map_of cs 0xe0 = Some video" "read_children video = Ok [(0xb0, w), (0xba, h)]"
      "be_nat w = unat (vf_width f)" "be_nat h = unat (vf_height f)"
    using track_entry_reads [OF assms] by blast
  have ids: "id_ok 0xae" "id_ok 0x1654ae6b" by (simp_all add: id_ok_def)
  obtain t where t: "element 0xae entry = Some t" "length t \<le> 12 + length entry"
      "\<And>rest. read_element (t @ rest) = Ok ((0xae, entry), rest)"
    using element_read [OF ids(1), of entry] entry(2) by auto
  then have parsed: "parse_tracks t = Ok cs" using t(3) [of "[]"] entry(3) by (simp add: parse_tracks_def)
  obtain ts where ts: "element 0x1654ae6b t = Some ts" "reads_as (Some ts) (0x1654ae6b, t)"
    using element_reads_as [OF ids(2), of t] t(2) entry(2) by (auto simp: reads_as_def)
  let ?h = "e @ segment_start @ i @ ts"
  have "file_header f private = Some ?h"
    unfolding file_header_def tracks_element_def e(1) i(1) entry(1) using t(1) ts(1) by simp
  moreover have "read_header (?h @ rest) = Ok (cs, rest)" for rest
  proof -
    obtain d where d: "expect_element 0x1a45dfa3 (e @ segment_start @ i @ ts @ rest) = Ok (d, segment_start @ i @ ts @ rest)"
      using e(2) by blast
    obtain d' where d': "expect_element 0x1549a966 (i @ ts @ rest) = Ok (d', ts @ rest)" using i(2) by blast
    have "read_exact 12 (segment_start @ i @ ts @ rest) = Ok (segment_start, i @ ts @ rest)"
      by (simp add: read_exact_def segment_start_def)
    then show ?thesis using d d' expect_reads [OF ts(2)] parsed by (simp add: read_header_def rbind_def rlift_def)
  qed
  ultimately show ?thesis using entry(4-9) by blast
qed

end
