(* ===== verification/Recording.thy ===== *)
theory Recording
  imports Matroska
begin

text \<open>
  Session recordings (\<open>remote/src/recording.rs\<close>): the writer thread, which starts a new file for every
  stream at its first keyframe, and the recorder that feeds it through a bounded queue without ever
  waiting for the disk. Disk operations are inputs of a step: each succeeds, or fails after some bytes.
\<close>

section \<open>The writer thread\<close>

record disk =
  dk_flush :: bool
  dk_create :: bool
  dk_header :: "nat option"
  dk_frame :: "nat option"

type_synonym item = "encoded_frame \<times> video_format"

record recording =
  rc_files :: "bytes list"
  rc_part :: "(video_stream_id \<times> matroska) option"
  rc_count :: nat

definition recording_start :: recording where
  "recording_start = \<lparr>rc_files = [], rc_part = None, rc_count = 0\<rparr>"

definition write_part :: "disk \<Rightarrow> recording \<Rightarrow> encoded_frame \<Rightarrow> (recording \<times> (recording_error + unit)) option" where
  "write_part d s frame =
     (case rc_part s of
        None \<Rightarrow> Some (s, Ok ())
      | Some (i, m) \<Rightarrow>
          (case Matroska_frame (dk_frame d) m frame of
             None \<Rightarrow> None
           | Some (m', r) \<Rightarrow>
               Some (s\<lparr>rc_part := Some (i, m'), rc_files := butlast (rc_files s) @ [mk_output m']\<rparr>, r)))"

definition new_part :: "disk \<Rightarrow> recording \<Rightarrow> item \<Rightarrow> (recording \<times> (recording_error + unit)) option" where
  "new_part d s it =
     (if rc_part s \<noteq> None \<and> \<not> dk_flush d then Some (s\<lparr>rc_part := None\<rparr>, Err Disk_Error)
      else
        let s = s\<lparr>rc_part := None, rc_count := rc_count s + 1\<rparr> in
        if \<not> dk_create d then Some (s, Err Disk_Error)
        else
          case Matroska_new (dk_header d) (snd it) (fst it) of
            None \<Rightarrow> None
          | Some (out, Inl e) \<Rightarrow> Some (s\<lparr>rc_files := rc_files s @ [out]\<rparr>, Err e)
          | Some (out, Inr m) \<Rightarrow>
              Some (s\<lparr>rc_files := rc_files s @ [out], rc_part := Some (ef_stream_id (fst it), m)\<rparr>, Ok ()))"

definition record_item :: "disk \<Rightarrow> recording \<Rightarrow> item \<Rightarrow> (recording \<times> (recording_error + unit)) option" where
  "record_item d s it =
     (if (case rc_part s of None \<Rightarrow> True | Some (i, _) \<Rightarrow> i \<noteq> ef_stream_id (fst it)) then
        (if \<not> ef_keyframe (fst it) then Some (s, Ok ())
         else case new_part d s it of
           None \<Rightarrow> None
         | Some (s', Inl e) \<Rightarrow> Some (s', Err e)
         | Some (s', Inr _) \<Rightarrow> write_part d s' (fst it))
      else write_part d s (fst it))"

fun record_items :: "recording \<Rightarrow> (disk \<times> item) list \<Rightarrow> (recording \<times> (recording_error + unit)) option" where
  "record_items s [] = Some (s, Ok ())"
| "record_items s ((d, it) # its) =
     (case record_item d s it of
        None \<Rightarrow> None
      | Some (s', Inl e) \<Rightarrow> Some (s', Err e)
      | Some (s', Inr _) \<Rightarrow> record_items s' its)"

definition write_recording ::
    "bool \<Rightarrow> (disk \<times> item) list \<Rightarrow> (recording \<times> (recording_error + nat)) option" where
  "write_recording synced its =
     (case record_items recording_start its of
        None \<Rightarrow> None
      | Some (s, Inl e) \<Rightarrow> Some (s, Err e)
      | Some (s, Inr _) \<Rightarrow>
          if rc_part s \<noteq> None \<and> \<not> synced then Some (s, Err Disk_Error) else Some (s, Ok (rc_count s)))"

section \<open>What a recording should hold\<close>

text \<open>The parts: a keyframe of another stream starts one, frames of its stream continue it, and what comes
  before a stream's first keyframe is left out.\<close>

type_synonym part = "video_format \<times> encoded_frame list"

definition add_to_parts :: "part list \<Rightarrow> item \<Rightarrow> part list" where
  "add_to_parts ps it =
     (if ps = [] \<or> ef_stream_id (hd (snd (last ps))) \<noteq> ef_stream_id (fst it)
      then (if ef_keyframe (fst it) then ps @ [(snd it, [fst it])] else ps)
      else butlast ps @ [(fst (last ps), snd (last ps) @ [fst it])])"

definition parts_of :: "item list \<Rightarrow> part list" where
  "parts_of its = foldl add_to_parts [] its"

definition block_of :: "u64 \<Rightarrow> encoded_frame \<Rightarrow> mkv_block" where
  "block_of origin frame =
     (sat_sub (ef_capture_timestamp_us frame) origin div 1000, ef_keyframe frame, annex_b_units (ef_data frame))"

definition part_blocks :: "part \<Rightarrow> mkv_block list" where
  "part_blocks p = map (block_of (ef_capture_timestamp_us (hd (snd p)))) (snd p)"

text \<open>A player: the header, then every complete cluster.\<close>

function read_blocks :: "bytes \<Rightarrow> mkv_block list" where
  "read_blocks bs =
     (case read_mkv_block bs of
        Inl _ \<Rightarrow> []
      | Inr (m, rest) \<Rightarrow> if length rest < length bs then m # read_blocks rest else [])"
  by pat_completeness auto
termination
  by (relation "measure length") auto

declare read_blocks.simps [simp del]

definition play :: "bytes \<Rightarrow> ((nat \<times> bytes) list \<times> mkv_block list) option" where
  "play bs = (case read_header bs of Inl _ \<Rightarrow> None | Inr (track, rest) \<Rightarrow> Some (track, read_blocks rest))"

section \<open>Sizes\<close>

lemma pbind_Ok: "pbind r f = Some (Ok v) \<longleftrightarrow> (\<exists>x. r = Some (Ok x) \<and> f x = Some (Ok v))"
  by (auto simp: pbind_def split: option.splits sum.splits)

lemma append_nal_Ok:
  "append_nal out nal = Some (Ok out') \<longleftrightarrow> length nal < 2 ^ 16 \<and> out' = out @ be_bytes 2 (length nal) @ nal"
  by (auto simp: append_nal_def)

lemma read_times_length: "read_times n r s = Some (Ok (vs, s')) \<Longrightarrow> length vs = n"
  by (induction n arbitrary: s vs) (auto simp: bpure_def bbind_def pbind_Ok)

lemma bbind_Ok: "bbind r f s = Some (Ok p) \<longleftrightarrow> (\<exists>v s'. r s = Some (Ok (v, s')) \<and> f v s' = Some (Ok p))"
  by (auto simp: bbind_def pbind_Ok)

lemma avc_extension_length: "avc_extension s = Some (Ok (bs, s')) \<Longrightarrow> length bs = 4"
  by (auto simp: avc_extension_def bbind_Ok bpure_def bfail_def split: if_splits)

lemma hevc_record_length: "hevc_record s = Some (Ok (bs, s')) \<Longrightarrow> length bs = 23"
  unfolding hevc_record_def bbind_Ok
  by (elim exE conjE, simp only: bbind_Ok bpure_def bfail_def split: if_splits)
    (auto simp: bbind_Ok bpure_def dest!: read_times_length)

lemma append_sets_length:
  "append_sets out sets = Some (Ok out') \<Longrightarrow> length out' \<le> length out + length sets * (5 + 2 ^ 16)"
  by (induction out sets rule: append_sets.induct) (fastforce simp: pbind_Ok append_nal_Ok)+

lemma codec_private_length: "codec_private vcodec data = Some (Ok bs) \<Longrightarrow> length bs < 2 ^ 50"
proof (cases vcodec)
  case H264
  assume "codec_private vcodec data = Some (Ok bs)"
  then show ?thesis using H264
    by (auto simp: codec_private_def avc_private_def Let_def pbind_Ok append_nal_Ok split: if_splits
      dest!: avc_extension_length)
next
  case H265
  assume "codec_private vcodec data = Some (Ok bs)"
  then obtain out sets where "append_sets out sets = Some (Ok bs)" "length out = 23" "length sets = 3"
    using H265 hevc_record_length
    by (auto simp: codec_private_def hevc_private_def Let_def pbind_Ok split: if_splits simp del: append_sets.simps)
  then show ?thesis using append_sets_length [of out sets bs] by simp
qed

lemma units_total_step:
  assumes "sum_list (map (\<lambda>u. 3 + length u) (units_between data (find_starts data k))) \<le> length data - (case find_starts data k of [] \<Rightarrow> length data | (next, _) # _ \<Rightarrow> next)"
    "i + p = k" "3 \<le> p" "k \<le> length data"
  shows "sum_list (map (\<lambda>u. 3 + length u) (units_between data ((i, p) # find_starts data k))) \<le> length data - i"
proof -
  define e where "e = (case find_starts data k of [] \<Rightarrow> length data | (next, _) # _ \<Rightarrow> next)"
  define t where "t = trim_zeros data k e"
  have e: "k \<le> e" "e \<le> length data"
    using first_start [where data = data and i = k] assms(4) by (auto simp: e_def split: list.splits)
  have t: "t \<le> e" unfolding t_def by (rule trim_zeros_bounds)
  let ?S = "sum_list (map (\<lambda>u. 3 + length u) (units_between data (find_starts data k)))"
  have "sum_list (map (\<lambda>u. 3 + length u) (units_between data ((i, p) # find_starts data k)))
      = (if k < t then 3 + (t - k) else 0) + ?S"
    using assms(2) t e by (simp add: Let_def e_def [symmetric] t_def [symmetric])
  also have "\<dots> \<le> (e - i) + (length data - e)"
    using assms(1-3) t e unfolding e_def [symmetric] by (intro add_mono) auto
  finally show ?thesis using assms(2) e by simp
qed

lemma units_total_from:
  "sum_list (map (\<lambda>u. 3 + length u) (units_between data (find_starts data i)))
   \<le> length data - (case find_starts data i of [] \<Rightarrow> length data | (next, _) # _ \<Rightarrow> next)"
proof (induction data i rule: find_starts.induct)
  case (1 data i)
  consider (short) "\<not> i + 3 \<le> length data" | (four) "i + 3 \<le> length data" "take 4 (drop i data) = [0, 0, 0, 1]"
    | (three) "i + 3 \<le> length data" "take 4 (drop i data) \<noteq> [0, 0, 0, 1]" "take 3 (drop i data) = [0, 0, 1]"
    | (skip) "i + 3 \<le> length data" "take 4 (drop i data) \<noteq> [0, 0, 0, 1]" "take 3 (drop i data) \<noteq> [0, 0, 1]"
    by blast
  then show ?case
  proof cases
    case short
    then show ?thesis by (subst (1 2) find_starts.simps) simp
  next
    case four
    then have "i + 4 \<le> length data" using code_at_length [OF code4_at] by fastforce
    moreover have "find_starts data i = (i, 4) # find_starts data (i + 4)"
      using four by (subst find_starts.simps) simp
    ultimately show ?thesis using units_total_step [OF 1(1) [OF four], of i 4] by simp
  next
    case three
    have "find_starts data i = (i, 3) # find_starts data (i + 3)" using three by (subst find_starts.simps) simp
    then show ?thesis using units_total_step [OF 1(2) [OF three], of i 3] three(1) by simp
  next
    case skip
    have "find_starts data i = find_starts data (i + 1)" using skip by (subst find_starts.simps) simp
    then show ?thesis using 1(3) [OF skip] by simp
  qed
qed

lemma units_total: "sum_list (map (\<lambda>u. 3 + length u) (annex_b_units data)) \<le> length data"
  unfolding annex_b_units_def using units_total_from [of data 0] by (rule le_trans) simp

lemma block_bytes_length: "length (block_bytes key units) \<le> 4 + 2 * sum_list (map (\<lambda>u. 3 + length u) units)"
  by (induction units) (auto simp: block_bytes_def write_nal_def)

text \<open>Frames of the size the reassembler lets through, and far more.\<close>

definition sized :: "encoded_frame \<Rightarrow> bool" where
  "sized frame \<longleftrightarrow> length (ef_data frame) < 2 ^ 40"

lemma block_of_ok:
  assumes "sized frame" "list_all (\<lambda>nal. length nal < 2 ^ 32) (annex_b_units (ef_data frame))"
  shows "block_ok (block_of origin frame)"
  using assms units_total [of "ef_data frame"] block_bytes_length [of "ef_keyframe frame" "annex_b_units (ef_data frame)"]
  by (simp add: block_ok_def block_of_def sized_def)

section \<open>Files read back\<close>

lemma read_blocks_stream:
  assumes "list_all block_ok ms" "read_mkv_block rest = Err Unexpected_Eof"
  shows "read_blocks (concat (map (\<lambda>m. fst (write_cluster m)) ms) @ rest) = ms"
  using assms(1)
proof (induction ms)
  case Nil
  then show ?case using assms(2) by (simp add: read_blocks.simps)
next
  case (Cons m ms)
  have "fst (write_cluster m) \<noteq> []"
  proof
    assume "fst (write_cluster m) = []"
    then show False using clusters.rd_wr [of m "[]"] clusters.rd_empty Cons.prems by simp
  qed
  moreover have "read_mkv_block (fst (write_cluster m) @ x) = Ok (m, x)" for x
    using Cons.prems by (intro clusters.rd_wr) simp
  ultimately show ?case using Cons by (subst read_blocks.simps) simp
qed

text \<open>A file that holds a part, and perhaps the beginning of one more cluster.\<close>

definition part_header :: "part \<Rightarrow> bytes option" where
  "part_header p =
     (case codec_private (vf_codec (fst p)) (ef_data (hd (snd p))) of
        Some (Inr private) \<Rightarrow> file_header (fst p) private
      | _ \<Rightarrow> None)"

definition holds_part :: "bytes \<Rightarrow> part \<Rightarrow> bool" where
  "holds_part file p \<longleftrightarrow> (\<exists>hdr. part_header p = Some hdr \<and> list_all block_ok (part_blocks p)
     \<and> file = hdr @ concat (map (\<lambda>m. fst (write_cluster m)) (part_blocks p)))"

definition plays_part :: "bytes \<Rightarrow> part \<Rightarrow> bool" where
  "plays_part file p \<longleftrightarrow>
     (\<exists>track. play file = Some (track, part_blocks p)
       \<and> map_of track 0x86 = Some (codec_name (vf_codec (fst p)))
       \<and> codec_private (vf_codec (fst p)) (ef_data (hd (snd p))) = Some (Ok (the (map_of track 0x63a2))))"

lemma plays_rest:
  assumes "part_header p = Some hdr" "list_all block_ok (part_blocks p)"
    "read_mkv_block rest = Err Unexpected_Eof"
  shows "plays_part (hdr @ concat (map (\<lambda>m. fst (write_cluster m)) (part_blocks p)) @ rest) p"
proof -
  obtain bs where bs: "codec_private (vf_codec (fst p)) (ef_data (hd (snd p))) = Some (Ok bs)"
      "file_header (fst p) bs = Some hdr"
    using assms(1) by (auto simp: part_header_def split: option.splits sum.splits)
  obtain cs where cs: "\<And>rest. read_header (hdr @ rest) = Ok (cs, rest)" "map_of cs 0x86 = Some (codec_name (vf_codec (fst p)))"
      "map_of cs 0x63a2 = Some bs"
    using header_reads [OF codec_private_length [OF bs(1)], of "fst p"] bs(2) by force
  then show ?thesis
    using bs(1) read_blocks_stream [OF assms(2,3)] by (simp add: plays_part_def play_def)
qed

section \<open>The writer keeps every part playable\<close>

lemma frame_written:
  assumes "sized frame"
  shows "\<exists>out r. Matroska_frame fa m frame = Some (m\<lparr>mk_output := mk_output m @ out\<rparr>, r)
    \<and> (let b = block_of (mk_origin_us m) frame in
        block_ok b \<and> out = fst (write_cluster b) \<or> r \<noteq> Ok () \<and> read_mkv_block out = Err Unexpected_Eof)"
proof -
  let ?b = "block_of (mk_origin_us m) frame" and ?units = "annex_b_units (ef_data frame)"
  consider (none) "?units = []" | (long) "?units \<noteq> []" "\<not> list_all (\<lambda>nal. length nal < 2 ^ 32) ?units"
    | (fits) "?units \<noteq> []" "list_all (\<lambda>nal. length nal < 2 ^ 32) ?units"
    by blast
  then show ?thesis
  proof cases
    case none
    then show ?thesis using clusters.rd_empty
      by (intro exI [of _ "[]"] exI [of _ "Err No_Annex_B_Units"]) (simp add: Matroska_frame_def)
  next
    case long
    then show ?thesis using clusters.rd_empty
      by (intro exI [of _ "[]"] exI [of _ "Err Length_Overflow"]) (simp add: Matroska_frame_def block_units_conv)
  next
    case fits
    have ok: "block_ok ?b" using block_of_ok [OF assms fits(2)] .
    then have "snd (write_cluster ?b) = Ok ()" by (rule clusters.wr_ok)
    then obtain c where c: "cluster (fst ?b) (block_bytes (ef_keyframe frame) ?units) = Some c" "fst (write_cluster ?b) = c"
      by (auto simp: write_cluster_def block_of_def split: option.splits)
    have eq: "Matroska_frame fa m frame =
        (let (out, r) = disk_write fa c in Some (m\<lparr>mk_output := mk_output m @ out\<rparr>, r))"
      using fits c(1) by (simp add: Matroska_frame_def block_units_ok Let_def block_of_def block_bytes_def)
    show ?thesis
    proof (cases fa)
      case None
      then show ?thesis using eq ok c(2) by (simp add: disk_write_def)
    next
      case (Some k)
      show ?thesis
      proof (cases "k < length c")
        case True
        have "read_mkv_block (take k c) = Err Unexpected_Eof"
          by (rule clusters.truncated [OF ok, of _ "drop k c"]) (use c(2) True in simp_all)
        then show ?thesis using eq Some by (auto simp: disk_write_def)
      next
        case False
        then show ?thesis using eq ok c(2) Some by (auto simp: disk_write_def)
      qed
    qed
  qed
qed

definition playable :: "bytes list \<Rightarrow> part list \<Rightarrow> bool" where
  "playable files ps \<longleftrightarrow> list_all2 plays_part (take (length ps) files) ps \<and> length files \<le> length ps + 1"

definition rec_inv :: "recording \<Rightarrow> part list \<Rightarrow> bool" where
  "rec_inv s ps \<longleftrightarrow> list_all2 holds_part (rc_files s) ps \<and> rc_count s = length ps \<and> list_all (\<lambda>p. snd p \<noteq> []) ps
     \<and> (case rc_part s of
          None \<Rightarrow> ps = []
        | Some (i, m) \<Rightarrow> ps \<noteq> [] \<and> i = ef_stream_id (hd (snd (last ps))) \<and> mk_output m = last (rc_files s)
            \<and> mk_origin_us m = ef_capture_timestamp_us (hd (snd (last ps))))"

lemma holds_plays: "holds_part file p \<Longrightarrow> plays_part file p"
  using plays_rest [of p _ "[]"] clusters.rd_empty by (auto simp: holds_part_def)

lemma all_plays: "list_all2 holds_part files ps \<Longrightarrow> list_all2 plays_part files ps"
  by (rule list_all2_mono [OF _ holds_plays])

lemma playable_extra:
  "list_all2 plays_part files ps \<Longrightarrow> playable (files @ [file]) ps" "list_all2 plays_part files ps \<Longrightarrow> playable files ps"
  by (simp_all add: playable_def list_all2_lengthD)

lemma part_header_extend: "frames \<noteq> [] \<Longrightarrow> part_header (f, frames @ [frame]) = part_header (f, frames)"
  by (simp add: part_header_def split: option.split sum.split)

lemma holds_extend:
  assumes "holds_part file (f, frames)" "frames \<noteq> []" "b = block_of (ef_capture_timestamp_us (hd frames)) frame" "block_ok b"
  shows "holds_part (file @ fst (write_cluster b)) (f, frames @ [frame])"
  using assms by (auto simp: holds_part_def part_header_extend part_blocks_def)

lemma continue_part:
  assumes inv: "rec_inv s ps" and part: "rc_part s = Some (i, m)" "i = ef_stream_id frame" and "sized frame"
  shows "\<exists>s' r. write_part d s frame = Some (s', r)
    \<and> (if r = Ok () then rec_inv s' (add_to_parts ps (frame, f))
       else playable (rc_files s') ps \<or> playable (rc_files s') (add_to_parts ps (frame, f)))"
proof -
  obtain out r where out: "Matroska_frame (dk_frame d) m frame = Some (m\<lparr>mk_output := mk_output m @ out\<rparr>, r)"
      "block_ok (block_of (mk_origin_us m) frame) \<and> out = fst (write_cluster (block_of (mk_origin_us m) frame))
        \<or> r \<noteq> Ok () \<and> read_mkv_block out = Err Unexpected_Eof"
    using frame_written [OF \<open>sized frame\<close>, of "dk_frame d" m] unfolding Let_def by blast
  have ps: "ps \<noteq> []" "ef_stream_id frame = ef_stream_id (hd (snd (last ps)))" "mk_output m = last (rc_files s)"
      "mk_origin_us m = ef_capture_timestamp_us (hd (snd (last ps)))" "list_all2 holds_part (rc_files s) ps"
      "rc_count s = length ps" "list_all (\<lambda>p. snd p \<noteq> []) ps"
    using inv part by (auto simp: rec_inv_def)
  obtain qs fmt frames where qs: "ps = qs @ [(fmt, frames)]" using ps(1) by (metis prod.exhaust rev_exhaust)
  obtain gs g where gs: "rc_files s = gs @ [g]" "list_all2 holds_part gs qs" "holds_part g (fmt, frames)"
    using ps(5) qs by (auto simp: list_all2_append2 list_all2_Cons2)
  have ne: "frames \<noteq> []" using ps(7) qs by simp
  let ?s = "s\<lparr>rc_part := Some (i, m\<lparr>mk_output := g @ out\<rparr>), rc_files := gs @ [g @ out]\<rparr>"
  have step: "write_part d s frame = Some (?s, r)" using out(1) part ps(3) gs(1) by (simp add: write_part_def)
  have add: "add_to_parts ps (frame, f) = qs @ [(fmt, frames @ [frame])]"
    using ps(2) qs ne by (simp add: add_to_parts_def)
  have complete: "rec_inv ?s (add_to_parts ps (frame, f))" if "block_ok (block_of (mk_origin_us m) frame)"
    "out = fst (write_cluster (block_of (mk_origin_us m) frame))"
  proof -
    have "holds_part (g @ out) (fmt, frames @ [frame])" using holds_extend [OF gs(3) ne _ that(1)] that(2) ps(4) qs by simp
    then show ?thesis
      unfolding add using ps gs qs ne part(2) by (simp add: rec_inv_def list_all2_appendI)
  qed
  have "playable (gs @ [g @ out]) ps" if "read_mkv_block out = Err Unexpected_Eof"
  proof -
    have "plays_part (g @ out) (fmt, frames)"
      using gs(3) plays_rest [OF _ _ that] by (auto simp: holds_part_def)
    then show ?thesis using gs(2) qs by (intro playable_extra) (simp add: all_plays list_all2_appendI)
  qed
  moreover have "playable (rc_files ?s) (add_to_parts ps (frame, f))" if "rec_inv ?s (add_to_parts ps (frame, f))"
    using that by (intro playable_extra all_plays) (simp add: rec_inv_def)
  ultimately show ?thesis using step out(2) complete by (intro exI [of _ ?s] exI [of _ r]) auto
qed

lemma new_part_spec:
  assumes inv: "rec_inv s ps"
  shows "\<exists>s' r. new_part d s (frame, f) = Some (s', r)
    \<and> (if r = Ok ()
       then \<exists>hdr. part_header (f, [frame]) = Some hdr
         \<and> s' = \<lparr>rc_files = rc_files s @ [hdr],
                rc_part = Some (ef_stream_id frame, \<lparr>mk_output = hdr, mk_origin_us = ef_capture_timestamp_us frame\<rparr>),
                rc_count = rc_count s + 1\<rparr>
       else playable (rc_files s') ps)"
proof -
  have plays: "list_all2 plays_part (rc_files s) ps" using inv by (intro all_plays) (simp add: rec_inv_def)
  have keep: "playable (rc_files s) ps" "\<And>out. playable (rc_files s @ [out]) ps"
    using playable_extra [OF plays] by blast+
  consider (disk) "rc_part s \<noteq> None \<and> \<not> dk_flush d \<or> \<not> dk_create d"
    | (codec) e where "\<not> (rc_part s \<noteq> None \<and> \<not> dk_flush d)" "dk_create d" "codec_private (vf_codec f) (ef_data frame) = Some (Err e)"
    | (hdr) bs where "\<not> (rc_part s \<noteq> None \<and> \<not> dk_flush d)" "dk_create d" "codec_private (vf_codec f) (ef_data frame) = Some (Ok bs)"
    using returns_codec_private [of "vf_codec f" "ef_data frame"] unfolding returns_def by (metis not_None_eq sum.exhaust)
  then show ?thesis
  proof cases
    case disk
    then show ?thesis using keep by (cases "rc_part s \<noteq> None \<and> \<not> dk_flush d") (auto simp: new_part_def Let_def)
  next
    case codec
    then show ?thesis using keep by (auto simp: new_part_def Let_def Matroska_new_def)
  next
    case hdr
    obtain h where h: "file_header f bs = Some h" using header_reads [OF codec_private_length [OF hdr(3)]] by blast
    then have "part_header (f, [frame]) = Some h" using hdr(3) by (simp add: part_header_def)
    then show ?thesis
      using hdr h keep by (cases "dk_header d") (auto simp: new_part_def Let_def Matroska_new_def disk_write_def)
  qed
qed

lemma start_part:
  assumes inv: "rec_inv s ps" and other: "ps = [] \<or> ef_stream_id (hd (snd (last ps))) \<noteq> ef_stream_id frame"
    and key: "ef_keyframe frame" and "sized frame"
    and new: "new_part d s (frame, f) = Some (s', Ok ())"
  shows "\<exists>s'' r. write_part d s' frame = Some (s'', r)
    \<and> (if r = Ok () then rec_inv s'' (add_to_parts ps (frame, f)) else playable (rc_files s'') ps)"
proof -
  have holds: "list_all2 holds_part (rc_files s) ps" "rc_count s = length ps" "list_all (\<lambda>p. snd p \<noteq> []) ps"
    using inv by (simp_all add: rec_inv_def)
  obtain hdr where hdr: "part_header (f, [frame]) = Some hdr"
      "s' = \<lparr>rc_files = rc_files s @ [hdr],
             rc_part = Some (ef_stream_id frame, \<lparr>mk_output = hdr, mk_origin_us = ef_capture_timestamp_us frame\<rparr>),
             rc_count = rc_count s + 1\<rparr>"
    using new_part_spec [OF inv, of d frame f] new by auto
  let ?m = "\<lparr>mk_output = hdr, mk_origin_us = ef_capture_timestamp_us frame\<rparr>"
  let ?b = "block_of (ef_capture_timestamp_us frame) frame"
  obtain out r where out: "Matroska_frame (dk_frame d) ?m frame = Some (?m\<lparr>mk_output := hdr @ out\<rparr>, r)"
      "block_ok ?b \<and> out = fst (write_cluster ?b) \<or> r \<noteq> Ok () \<and> read_mkv_block out = Err Unexpected_Eof"
    using frame_written [OF \<open>sized frame\<close>, of "dk_frame d" ?m] unfolding Let_def by auto
  let ?s = "s'\<lparr>rc_part := Some (ef_stream_id frame, ?m\<lparr>mk_output := hdr @ out\<rparr>), rc_files := rc_files s @ [hdr @ out]\<rparr>"
  have step: "write_part d s' frame = Some (?s, r)" using out(1) hdr(2) by (simp add: write_part_def)
  have add: "add_to_parts ps (frame, f) = ps @ [(f, [frame])]" using other key by (simp add: add_to_parts_def)
  have "rec_inv ?s (add_to_parts ps (frame, f))" if "block_ok ?b" "out = fst (write_cluster ?b)"
  proof -
    have "holds_part (hdr @ out) (f, [frame])" using hdr(1) that by (simp add: holds_part_def part_blocks_def)
    then show ?thesis unfolding add using holds hdr(2) by (simp add: rec_inv_def list_all2_appendI)
  qed
  moreover have "playable (rc_files ?s) ps" using playable_extra(1) [OF all_plays [OF holds(1)]] by simp
  ultimately show ?thesis using step out(2) by (intro exI [of _ ?s] exI [of _ r]) auto
qed

lemma record_item_spec:
  assumes inv: "rec_inv s ps" and "sized (fst it)"
  shows "\<exists>s' r. record_item d s it = Some (s', r)
    \<and> (if r = Ok () then rec_inv s' (add_to_parts ps it)
       else playable (rc_files s') ps \<or> playable (rc_files s') (add_to_parts ps it))"
proof -
  obtain frame f where it: "it = (frame, f)" by (cases it)
  have current: "(case rc_part s of None \<Rightarrow> True | Some (i, _) \<Rightarrow> i \<noteq> ef_stream_id (fst it))
      \<longleftrightarrow> ps = [] \<or> ef_stream_id (hd (snd (last ps))) \<noteq> ef_stream_id frame"
    using inv it by (auto simp: rec_inv_def split: option.splits)
  have item: "record_item d s it =
      (if ps = [] \<or> ef_stream_id (hd (snd (last ps))) \<noteq> ef_stream_id frame then
         (if \<not> ef_keyframe frame then Some (s, Ok ())
          else case new_part d s it of
            None \<Rightarrow> None
          | Some (s', Inl e) \<Rightarrow> Some (s', Err e)
          | Some (s', Inr _) \<Rightarrow> write_part d s' frame)
       else write_part d s frame)"
  proof -
    have "fst it = frame" using it by simp
    then show ?thesis unfolding record_item_def current by (simp only:)
  qed
  consider (skip) "ps = [] \<or> ef_stream_id (hd (snd (last ps))) \<noteq> ef_stream_id frame" "\<not> ef_keyframe frame"
    | (start) "ps = [] \<or> ef_stream_id (hd (snd (last ps))) \<noteq> ef_stream_id frame" "ef_keyframe frame"
    | (same) "\<not> (ps = [] \<or> ef_stream_id (hd (snd (last ps))) \<noteq> ef_stream_id frame)"
    by blast
  then show ?thesis
  proof cases
    case skip
    then have "record_item d s it = Some (s, Ok ())" "add_to_parts ps it = ps"
      unfolding item by (simp_all add: it add_to_parts_def)
    then show ?thesis using inv by simp
  next
    case start
    obtain s' r where new: "new_part d s it = Some (s', r)" "r = Ok () \<or> playable (rc_files s') ps"
      using new_part_spec [OF inv, of d frame f] it by metis
    show ?thesis
    proof (cases r)
      case (Inl e)
      then have "record_item d s it = Some (s', Err e)" using start new(1) unfolding item by simp
      then show ?thesis using new(2) Inl by simp
    next
      case (Inr u)
      then have "record_item d s it = write_part d s' frame" "new_part d s (frame, f) = Some (s', Ok ())"
        using start new(1) unfolding item by (simp_all add: it)
      then show ?thesis using start_part [OF inv start, of d f s'] it assms(2) by fastforce
    qed
  next
    case same
    then have "record_item d s it = write_part d s frame" unfolding item by simp
    moreover obtain i m where "rc_part s = Some (i, m)" "i = ef_stream_id frame"
      using same inv by (auto simp: rec_inv_def split: option.splits)
    ultimately show ?thesis using continue_part [OF inv, of i m frame d f] assms(2) unfolding it fst_conv by metis
  qed
qed

fun accepted_items :: "recording \<Rightarrow> (disk \<times> item) list \<Rightarrow> nat" where
  "accepted_items s [] = 0"
| "accepted_items s ((d, it) # its) = (case record_item d s it of Some (s', Inr _) \<Rightarrow> Suc (accepted_items s' its) | _ \<Rightarrow> 0)"

lemma record_items_spec:
  "rec_inv s ps \<Longrightarrow> list_all (\<lambda>(d, it). sized (fst it)) its \<Longrightarrow>
   \<exists>s' r. record_items s its = Some (s', r) \<and>
     (let k = accepted_items s its in
      if r = Ok () then k = length its \<and> rec_inv s' (foldl add_to_parts ps (map snd its))
      else k < length its \<and> (playable (rc_files s') (foldl add_to_parts ps (map snd (take k its)))
        \<or> playable (rc_files s') (foldl add_to_parts ps (map snd (take (Suc k) its)))))"
proof (induction its arbitrary: s ps)
  case (Cons x its)
  obtain d it where x: "x = (d, it)" by (cases x)
  obtain s' r where item: "record_item d s it = Some (s', r)"
      "if r = Ok () then rec_inv s' (add_to_parts ps it)
       else playable (rc_files s') ps \<or> playable (rc_files s') (add_to_parts ps it)"
    using record_item_spec [OF Cons.prems(1), of it d] Cons.prems(2) x by auto
  show ?case
  proof (cases r)
    case (Inl e)
    then show ?thesis using item x by simp
  next
    case (Inr u)
    then have inv': "rec_inv s' (add_to_parts ps it)" using item(2) by simp
    obtain s2 r2 where "record_items s' its = Some (s2, r2)"
        "let k = accepted_items s' its in
         if r2 = Ok () then k = length its \<and> rec_inv s2 (foldl add_to_parts (add_to_parts ps it) (map snd its))
         else k < length its \<and> (playable (rc_files s2) (foldl add_to_parts (add_to_parts ps it) (map snd (take k its)))
           \<or> playable (rc_files s2) (foldl add_to_parts (add_to_parts ps it) (map snd (take (Suc k) its))))"
      using Cons.IH [OF inv'] Cons.prems(2) by auto
    then show ?thesis
      using x item(1) Inr by (intro exI [of _ s2] exI [of _ r2]) (simp add: Let_def)
  qed
qed simp

section \<open>Parts\<close>

text \<open>A part is never empty, begins with a keyframe and holds frames of one stream.\<close>

definition part_ok :: "part \<Rightarrow> bool" where
  "part_ok p \<longleftrightarrow> (case snd p of
     [] \<Rightarrow> False
   | first # _ \<Rightarrow> ef_keyframe first \<and> list_all (\<lambda>frame. ef_stream_id frame = ef_stream_id first) (snd p))"

lemma add_to_parts_ok:
  assumes "list_all part_ok ps"
  shows "list_all part_ok (add_to_parts ps it)"
proof (cases "ps = []")
  case False
  then obtain qs f first frames where ps: "ps = qs @ [(f, first # frames)]" "list_all part_ok qs"
      "ef_keyframe first" "list_all (\<lambda>frame. ef_stream_id frame = ef_stream_id first) frames"
    using assms by (cases ps rule: rev_cases) (auto simp: part_ok_def split: list.splits)
  then show ?thesis using assms by (auto simp: add_to_parts_def part_ok_def)
qed (auto simp: add_to_parts_def part_ok_def)

lemma parts_of_ok: "list_all part_ok (parts_of its)"
proof -
  have "list_all part_ok ps \<Longrightarrow> list_all part_ok (foldl add_to_parts ps its)" for ps
    by (induction its arbitrary: ps) (simp_all add: add_to_parts_ok)
  then show ?thesis by (simp add: parts_of_def)
qed

text \<open>C7: Whatever the disk does, the recording worker neither panics nor loses what it has accepted: every file
  it leaves, read from the start up to its last complete cluster, is exactly one part of the recording, with
  the codec configuration of the part's first keyframe and every frame of the part in order, with its
  timestamp and its NAL units. A part begins with a keyframe and holds frames of one stream. All frames accepted before an error are there (and perhaps the one being
  written); at most one more file was begun. When the worker ends without an error the files are exactly the
  parts of all frames it received.
\<close>

theorem recording_playable:
  assumes "list_all (\<lambda>(d, it). sized (fst it)) its"
  shows "\<exists>s r k. write_recording synced its = Some (s, r)
    \<and> k \<in> {accepted_items recording_start its, Suc (accepted_items recording_start its)}
    \<and> playable (rc_files s) (parts_of (map snd (take k its))) \<and> list_all part_ok (parts_of (map snd its))
    \<and> (case r of
         Inl _ \<Rightarrow> True
       | Inr n \<Rightarrow> n = length (rc_files s) \<and> list_all2 plays_part (rc_files s) (parts_of (map snd its)))"
proof -
  have "rec_inv recording_start []" by (simp add: rec_inv_def recording_start_def)
  then obtain s r where run: "record_items recording_start its = Some (s, r)"
      "let k = accepted_items recording_start its in
       if r = Ok () then k = length its \<and> rec_inv s (parts_of (map snd its))
       else k < length its \<and> (playable (rc_files s) (parts_of (map snd (take k its)))
         \<or> playable (rc_files s) (parts_of (map snd (take (Suc k) its))))"
    using record_items_spec [OF _ assms] unfolding parts_of_def by blast
  show ?thesis
  proof (cases r)
    case (Inl e)
    then have "write_recording synced its = Some (s, Err e)" using run(1) by (simp add: write_recording_def)
    then show ?thesis using run(2) Inl parts_of_ok by (auto simp: Let_def)
  next
    case (Inr u)
    then have all: "accepted_items recording_start its = length its" "rec_inv s (parts_of (map snd its))"
      using run(2) by (simp_all add: Let_def)
    then have plays: "list_all2 plays_part (rc_files s) (parts_of (map snd its))" "rc_count s = length (rc_files s)"
      by (auto simp: rec_inv_def list_all2_lengthD intro!: all_plays)
    moreover have "write_recording synced its = Some (s, Err Disk_Error)
        \<or> write_recording synced its = Some (s, Ok (rc_count s))"
      using run(1) Inr by (simp add: write_recording_def)
    moreover have "playable (rc_files s) (parts_of (map snd (take (length its) its)))"
      using playable_extra(2) [OF plays(1)] by simp
    ultimately show ?thesis using all(1) parts_of_ok by fastforce
  qed
qed

definition recording_frame :: "bool \<Rightarrow> encoded_frame" where
  "recording_frame key = \<lparr>ef_stream_id = VideoStreamId 1, ef_frame_id = 1, ef_capture_timestamp_us = 5000,
     ef_encode_complete_timestamp_us = 5001, ef_send_timestamp_us = 5002, ef_keyframe = key,
     ef_data = [0, 0, 1, 103, 66, 0, 30, 0, 0, 1, 104, 238, 0, 0, 1, 101, 1]\<rparr>"

definition sample_format :: video_format where
  "sample_format = \<lparr>vf_width = 64, vf_height = 48, vf_frames_per_second = 1, vf_codec = H264,
     vf_pixel_format = Nv12, vf_bitrate_bits_per_second = 100000\<rparr>"

definition sample_items :: "(disk \<times> item) list" where
  "sample_items =
     [(\<lparr>dk_flush = True, dk_create = True, dk_header = None, dk_frame = None\<rparr>, (recording_frame True, sample_format)),
      (\<lparr>dk_flush = True, dk_create = True, dk_header = None, dk_frame = Some 9\<rparr>, (recording_frame False, sample_format))]"

theorem recording_playable_witness:
  "\<exists>s r k. write_recording True sample_items = Some (s, r)
    \<and> k \<in> {accepted_items recording_start sample_items, Suc (accepted_items recording_start sample_items)}
    \<and> playable (rc_files s) (parts_of (map snd (take k sample_items))) \<and> list_all part_ok (parts_of (map snd sample_items))
    \<and> (case r of
         Inl _ \<Rightarrow> True
       | Inr n \<Rightarrow> n = length (rc_files s) \<and> list_all2 plays_part (rc_files s) (parts_of (map snd sample_items)))"
proof (rule recording_playable)
  show "list_all (\<lambda>(d, it). sized (fst it)) sample_items" by (simp add: sample_items_def sized_def recording_frame_def)
qed

end
