(* ===== verification/Recorder.thy ===== *)
theory Recorder
  imports Recording "HOL-Library.Sublist"
begin

text \<open>
  The recorder of a viewer session (\<open>Recorder\<close> of \<open>remote/src/recording.rs\<close>), shared by the video callback,
  the user interface and the writer threads: frames go through a queue of eight to the writer, which is never
  waited for; a full queue or a writer that has ended closes the recording. Each operation is one step under
  its lock; the writer's own progress (taking a frame, ending) is a step as well, so a run is any
  interleaving of the threads. \<open>rs_received\<close> and \<open>rs_taken\<close> remember what the code does not.
\<close>

section \<open>State\<close>

record rec_session =
  rs_open :: bool
  rs_overloaded :: bool
  rs_queue :: "item list"
  rs_result :: "(recording_error + nat) option"
  rs_taken :: "item list"
  rs_received :: "item list"

datatype notice =
    Could_Not_Start
  | Nothing_Received bool
  | Recording_Saved bool
  | Recording_Stopped recording_error bool

record recorder =
  re_session :: "rec_session option"
  re_stream :: "video_stream_id option"
  re_notice :: "notice option"
  re_finishing :: "rec_session list"
  re_active :: "bool list"

definition Recorder_new :: recorder where
  "Recorder_new = \<lparr>re_session = None, re_stream = None, re_notice = None, re_finishing = [], re_active = []\<rparr>"

definition QUEUE_FRAMES :: nat where
  "QUEUE_FRAMES = 8"

definition session_start :: rec_session where
  "session_start = \<lparr>rs_open = True, rs_overloaded = False, rs_queue = [], rs_result = None, rs_taken = [], rs_received = []\<rparr>"

section \<open>Operations\<close>

definition offer :: "rec_session \<Rightarrow> item \<Rightarrow> rec_session" where
  "offer s it =
     (if \<not> rs_open s then s
      else if rs_result s \<noteq> None then s\<lparr>rs_overloaded := False, rs_open := False\<rparr>
      else if QUEUE_FRAMES \<le> length (rs_queue s) then s\<lparr>rs_overloaded := True, rs_open := False\<rparr>
      else s\<lparr>rs_queue := rs_queue s @ [it]\<rparr>)"

definition recorder_receive :: "recorder \<Rightarrow> item \<Rightarrow> recorder" where
  "recorder_receive r it =
     r\<lparr>re_stream := Some (ef_stream_id (fst it)),
       re_session := map_option (\<lambda>s. (offer s it)\<lparr>rs_received := rs_received s @ [it]\<rparr>) (re_session r)\<rparr>"

definition recorder_stop :: "recorder \<Rightarrow> recorder" where
  "recorder_stop r =
     (case re_session r of
        None \<Rightarrow> r
      | Some s \<Rightarrow> r\<lparr>re_session := None, re_active := re_active r @ [False],
                   re_finishing := re_finishing r @ [s\<lparr>rs_open := False\<rparr>]\<rparr>)"

definition recorder_toggle :: "bool \<Rightarrow> recorder \<Rightarrow> recorder \<times> video_stream_id option" where
  "recorder_toggle started r =
     (if re_session r \<noteq> None then (recorder_stop r, None)
      else if started then
        (r\<lparr>re_session := Some session_start, re_active := re_active r @ [True]\<rparr>, re_stream r)
      else (r\<lparr>re_notice := Some Could_Not_Start\<rparr>, None))"

definition session_notice :: "rec_session \<Rightarrow> notice" where
  "session_notice s =
     (case rs_result s of
        Some (Inr n) \<Rightarrow> if n = 0 then Nothing_Received (rs_overloaded s) else Recording_Saved (rs_overloaded s)
      | Some (Inl e) \<Rightarrow> Recording_Stopped e (rs_overloaded s)
      | None \<Rightarrow> Recording_Stopped Disk_Error (rs_overloaded s))"

definition collect :: "recorder \<Rightarrow> rec_session \<Rightarrow> recorder" where
  "collect r s = r\<lparr>re_notice := Some (session_notice s)\<rparr>"

definition finished :: "rec_session \<Rightarrow> bool" where
  "finished s \<longleftrightarrow> rs_result s \<noteq> None"

fun remove_first :: "('a \<Rightarrow> bool) \<Rightarrow> 'a list \<Rightarrow> 'a list" where
  "remove_first P [] = []"
| "remove_first P (x # xs) = (if P x then xs else x # remove_first P xs)"

definition recorder_take_notice :: "recorder \<Rightarrow> recorder \<times> notice option" where
  "recorder_take_notice r =
     (let r = (case re_session r of Some s \<Rightarrow> if finished s then recorder_stop r else r | None \<Rightarrow> r);
          r = (case find finished (re_finishing r) of
                 None \<Rightarrow> r
               | Some s \<Rightarrow> collect (r\<lparr>re_finishing := remove_first finished (re_finishing r)\<rparr>) s)
      in (r\<lparr>re_notice := None\<rparr>, re_notice r))"

text \<open>One round of \<open>finish\<close>: collect every writer that has ended; \<open>True\<close> when none is left.\<close>

definition recorder_finish_round :: "recorder \<Rightarrow> recorder \<times> bool" where
  "recorder_finish_round r =
     (let ended = filter finished (re_finishing r);
          r = foldl collect (r\<lparr>re_finishing := filter (\<lambda>s. \<not> finished s) (re_finishing r)\<rparr>) ended
      in (r, re_finishing r = []))"

section \<open>Steps\<close>

definition worker_take :: "rec_session \<Rightarrow> rec_session" where
  "worker_take s =
     (case rs_queue s of
        it # q \<Rightarrow> if rs_result s = None then s\<lparr>rs_queue := q, rs_taken := rs_taken s @ [it]\<rparr> else s
      | [] \<Rightarrow> s)"

text \<open>A writer that has not failed ends only when its queue is empty and closed; a failing one drops its queue.\<close>

definition worker_end :: "recording_error + nat \<Rightarrow> rec_session \<Rightarrow> rec_session" where
  "worker_end res s =
     (if rs_result s \<noteq> None then s
      else case res of
        Inl e \<Rightarrow> s\<lparr>rs_result := Some (Err e), rs_queue := []\<rparr>
      | Inr n \<Rightarrow> if rs_open s \<or> rs_queue s \<noteq> [] then s else s\<lparr>rs_result := Some (Ok n)\<rparr>)"

definition on_worker :: "nat option \<Rightarrow> (rec_session \<Rightarrow> rec_session) \<Rightarrow> recorder \<Rightarrow> recorder" where
  "on_worker target f r =
     (case target of
        None \<Rightarrow> r\<lparr>re_session := map_option f (re_session r)\<rparr>
      | Some i \<Rightarrow> if i < length (re_finishing r)
                 then r\<lparr>re_finishing := (re_finishing r)[i := f (re_finishing r ! i)]\<rparr> else r)"

datatype recorder_event =
    Frame_Received item
  | Toggled bool
  | Stopped
  | Notice_Taken
  | Finish_Round
  | Worker_Takes "nat option"
  | Worker_Ends "nat option" "recording_error + nat"

fun recorder_step :: "recorder \<Rightarrow> recorder_event \<Rightarrow> recorder \<times> notice option" where
  "recorder_step r (Frame_Received it) = (recorder_receive r it, None)"
| "recorder_step r (Toggled started) = (fst (recorder_toggle started r), None)"
| "recorder_step r Stopped = (recorder_stop r, None)"
| "recorder_step r Notice_Taken = recorder_take_notice r"
| "recorder_step r Finish_Round = (fst (recorder_finish_round r), None)"
| "recorder_step r (Worker_Takes target) = (on_worker target worker_take r, None)"
| "recorder_step r (Worker_Ends target res) = (on_worker target (worker_end res) r, None)"

section \<open>No gaps\<close>

definition session_ok :: "rec_session \<Rightarrow> bool" where
  "session_ok s \<longleftrightarrow> length (rs_queue s) \<le> QUEUE_FRAMES
     \<and> prefix (rs_taken s @ rs_queue s) (rs_received s)
     \<and> (rs_open s \<and> rs_result s = None \<longrightarrow> rs_taken s @ rs_queue s = rs_received s)
     \<and> (rs_overloaded s \<longrightarrow> \<not> rs_open s)"

definition recorder_ok :: "recorder \<Rightarrow> bool" where
  "recorder_ok r \<longleftrightarrow> pred_option session_ok (re_session r)
     \<and> list_all (\<lambda>s. session_ok s \<and> \<not> rs_open s) (re_finishing r)
     \<and> (re_session r \<noteq> None \<longleftrightarrow> re_active r \<noteq> [] \<and> last (re_active r))"

lemma prefix_snoc_intro: "prefix xs ys \<Longrightarrow> prefix xs (ys @ zs)"
  by (simp add: prefix_append)

lemma offer_ok: "session_ok s \<Longrightarrow> session_ok ((offer s it)\<lparr>rs_received := rs_received s @ [it]\<rparr>)"
  by (auto simp: session_ok_def offer_def intro: prefix_snoc_intro)

lemma worker_take_ok: "session_ok s \<Longrightarrow> session_ok (worker_take s) \<and> rs_open (worker_take s) = rs_open s"
  by (auto simp: session_ok_def worker_take_def split: list.splits)

lemma worker_end_ok: "session_ok s \<Longrightarrow> session_ok (worker_end res s) \<and> rs_open (worker_end res s) = rs_open s"
  by (auto simp: session_ok_def worker_end_def split: sum.splits dest: append_prefixD)

lemma on_worker_ok:
  assumes "recorder_ok r" "\<And>s. session_ok s \<Longrightarrow> session_ok (f s) \<and> rs_open (f s) = rs_open s"
  shows "recorder_ok (on_worker target f r)"
proof (cases target)
  case None
  then show ?thesis using assms by (auto simp: recorder_ok_def on_worker_def pred_option_def)
next
  case (Some i)
  then show ?thesis using assms
    by (auto simp: recorder_ok_def on_worker_def list_all_length nth_list_update)
qed

lemma stop_ok: "recorder_ok r \<Longrightarrow> recorder_ok (recorder_stop r)"
  by (auto simp: recorder_ok_def recorder_stop_def session_ok_def pred_option_def split: option.splits)

lemma collect_ok: "recorder_ok r \<Longrightarrow> recorder_ok (collect r s)"
  by (simp add: recorder_ok_def collect_def)

lemma set_remove_first: "set (remove_first P xs) \<subseteq> set xs"
  by (induction xs) auto

lemma fewer_finishing:
  "recorder_ok r \<Longrightarrow> set ss \<subseteq> set (re_finishing r) \<Longrightarrow> recorder_ok (r\<lparr>re_finishing := ss\<rparr>)"
  by (auto simp: recorder_ok_def list_all_iff)

lemma take_notice_ok: "recorder_ok r \<Longrightarrow> recorder_ok (fst (recorder_take_notice r))"
proof -
  have clear: "recorder_ok q \<Longrightarrow> recorder_ok (q\<lparr>re_notice := None\<rparr>)" for q by (simp add: recorder_ok_def)
  assume "recorder_ok r"
  then have "recorder_ok (case re_session r of Some s \<Rightarrow> if finished s then recorder_stop r else r | None \<Rightarrow> r)"
    by (simp add: stop_ok split: option.splits)
  then show ?thesis
    unfolding recorder_take_notice_def Let_def fst_conv
    by (intro clear) (auto intro!: collect_ok fewer_finishing set_remove_first split: option.split)
qed

lemma finish_round_ok: "recorder_ok r \<Longrightarrow> recorder_ok (fst (recorder_finish_round r))"
proof -
  have all: "recorder_ok q \<Longrightarrow> recorder_ok (foldl collect q ss)" for q ss
    by (induction ss arbitrary: q) (simp_all add: collect_ok)
  assume "recorder_ok r"
  then show ?thesis
    unfolding recorder_finish_round_def Let_def fst_conv by (intro all fewer_finishing) auto
qed

interpretation rec: step_system recorder_step recorder_ok "\<lambda>_ _. True"
proof unfold_locales
  fix r i
  assume ok: "recorder_ok r"
  show "recorder_ok (fst (recorder_step r i))"
  proof (cases i)
    case (Frame_Received it)
    then show ?thesis using ok offer_ok [of _ it] by (auto simp: recorder_ok_def recorder_receive_def pred_option_def)
  next
    case (Toggled started)
    have "session_ok session_start" by (simp add: session_ok_def session_start_def)
    then show ?thesis using ok stop_ok [OF ok] Toggled
      by (auto simp: recorder_toggle_def recorder_ok_def pred_option_def)
  qed (use ok stop_ok take_notice_ok finish_round_ok on_worker_ok worker_take_ok worker_end_ok in auto)
qed

definition sessions :: "recorder \<Rightarrow> rec_session list" where
  "sessions r = (case re_session r of None \<Rightarrow> [] | Some s \<Rightarrow> [s]) @ re_finishing r"

lemma legal_always: "rec.legal_run r events"
  by (induction events arbitrary: r) simp_all

text \<open>C34: Over every interleaving of the video callback, the user interface and the writer threads, a recording
  has no gaps: what the writer has taken and what waits for it are a beginning of the frames received since
  the recording started, all of them while it is open and its writer lives; at most eight wait; and the
  indicator shows recording exactly while a session is active.
\<close>

theorem recording_without_gaps:
  "let r = fst (run recorder_step Recorder_new events) in
   list_all (\<lambda>s. length (rs_queue s) \<le> 8
     \<and> (if rs_open s \<and> rs_result s = None then rs_taken s @ rs_queue s = rs_received s
        else prefix (rs_taken s @ rs_queue s) (rs_received s))) (sessions r)
   \<and> (re_session r \<noteq> None \<longleftrightarrow> re_active r \<noteq> [] \<and> last (re_active r))"
proof -
  have "recorder_ok Recorder_new" by (simp add: recorder_ok_def Recorder_new_def)
  then have ok: "recorder_ok (fst (run recorder_step Recorder_new events))" by (rule rec.run_inv) (rule legal_always)
  then have "list_all session_ok (sessions (fst (run recorder_step Recorder_new events)))"
    by (auto simp: recorder_ok_def sessions_def list_all_iff pred_option_def split: option.splits)
  then show ?thesis using ok
    by (auto simp: Let_def list_all_iff session_ok_def QUEUE_FRAMES_def recorder_ok_def)
qed

text \<open>Once every writer has ended, one round of \<open>finish\<close> collects them all and leaves a notice.\<close>

lemma foldl_collect:
  "re_finishing (foldl collect r ss) = re_finishing r"
  "re_notice (foldl collect r ss) = (if ss = [] then re_notice r else Some (session_notice (last ss)))"
  by (induction ss arbitrary: r) (auto simp: collect_def)

lemma finish_round_collects:
  assumes "list_all finished (re_finishing r)"
  shows "snd (recorder_finish_round r)
    \<and> (re_finishing r \<noteq> [] \<longrightarrow> re_notice (fst (recorder_finish_round r)) = Some (session_notice (last (re_finishing r))))"
proof -
  have "filter (\<lambda>s. \<not> finished s) (re_finishing r) = []" "filter finished (re_finishing r) = re_finishing r"
    using assms by (simp_all add: list_all_iff filter_empty_conv)
  then show ?thesis by (simp add: recorder_finish_round_def Let_def foldl_collect)
qed

end
