(* ===== verification/Hub.thy ===== *)
theory Hub
  imports Rust_Strings "HOL-Library.AList" "HOL-Library.Sublist"
begin

text \<open>
  The Agents connected to the server (\<open>server/src/realtime/hub.rs\<close>): one control connection per device, a
  bounded queue of messages for each, replacement by a newer connection, and the clean-up when a connection
  is dropped. A connection's identifier is a counter; the map and the channels are one state, because the
  hub holds its lock for a whole operation. \<open>ch_accepted\<close> and \<open>ch_received\<close> remember what the code does not.
\<close>

section \<open>State\<close>

record 'm channel =
  ch_device :: rust_string
  ch_queue :: "'m list"
  ch_receiver :: bool
  ch_accepted :: "'m list"
  ch_received :: "'m list"

record 'm hub =
  hub_connections :: "(rust_string \<times> nat) list"
  hub_next_id :: nat
  hub_channels :: "'m channel list"

definition COMMAND_BACKLOG :: nat where
  "COMMAND_BACKLOG = 32"

definition hub_default :: "'m hub" where
  "hub_default = \<lparr>hub_connections = [], hub_next_id = 0, hub_channels = []\<rparr>"

section \<open>Operations\<close>

definition hub_connect :: "'m hub \<Rightarrow> rust_string \<Rightarrow> 'm hub \<times> nat" where
  "hub_connect h device =
     (let i = hub_next_id h in
      (\<lparr>hub_connections = AList.update device i (hub_connections h), hub_next_id = i + 1,
        hub_channels = hub_channels h @ [\<lparr>ch_device = device, ch_queue = [], ch_receiver = True, ch_accepted = [], ch_received = []\<rparr>]\<rparr>,
       i))"

definition is_connected :: "'m hub \<Rightarrow> rust_string \<Rightarrow> bool" where
  "is_connected h device =
     (case map_of (hub_connections h) device of None \<Rightarrow> False | Some i \<Rightarrow> ch_receiver (hub_channels h ! i))"

definition is_current :: "'m hub \<Rightarrow> rust_string \<Rightarrow> nat \<Rightarrow> bool" where
  "is_current h device i \<longleftrightarrow> map_of (hub_connections h) device = Some i"

definition hub_connected :: "'m hub \<Rightarrow> rust_string list" where
  "hub_connected h = map fst (filter (\<lambda>(_, i). ch_receiver (hub_channels h ! i)) (hub_connections h))"

definition hub_send :: "'m hub \<Rightarrow> rust_string \<Rightarrow> 'm \<Rightarrow> 'm hub \<times> bool" where
  "hub_send h device m =
     (case map_of (hub_connections h) device of
        None \<Rightarrow> (h, False)
      | Some i \<Rightarrow>
          let c = hub_channels h ! i in
          if ch_receiver c \<and> length (ch_queue c) < COMMAND_BACKLOG then
            (h\<lparr>hub_channels := (hub_channels h)[i := c\<lparr>ch_queue := ch_queue c @ [m], ch_accepted := ch_accepted c @ [m]\<rparr>]\<rparr>, True)
          else (h, False))"

definition hub_disconnect :: "'m hub \<Rightarrow> rust_string \<Rightarrow> 'm hub" where
  "hub_disconnect h device = h\<lparr>hub_connections := AList.delete device (hub_connections h)\<rparr>"

text \<open>Dropping a connection: it unregisters itself unless a newer one has replaced it, and its queue goes.\<close>

definition connection_drop :: "'m hub \<Rightarrow> nat \<Rightarrow> 'm hub" where
  "connection_drop h i =
     (if i < length (hub_channels h) then
        let c = hub_channels h ! i;
            h = (if map_of (hub_connections h) (ch_device c) = Some i
                 then h\<lparr>hub_connections := AList.delete (ch_device c) (hub_connections h)\<rparr> else h)
        in h\<lparr>hub_channels := (hub_channels h)[i := c\<lparr>ch_receiver := False, ch_queue := []\<rparr>]\<rparr>
      else h)"

text \<open>The connection's own loop: the next message, the end of the stream, or nothing yet.\<close>

datatype 'm stream_item = Message 'm | Stream_End | Pending_Item

definition connection_recv :: "'m hub \<Rightarrow> nat \<Rightarrow> 'm hub \<times> 'm stream_item" where
  "connection_recv h i =
     (if i < length (hub_channels h) \<and> ch_receiver (hub_channels h ! i) then
        let c = hub_channels h ! i in
        case ch_queue c of
          m # q \<Rightarrow> (h\<lparr>hub_channels := (hub_channels h)[i := c\<lparr>ch_queue := q, ch_received := ch_received c @ [m]\<rparr>]\<rparr>, Message m)
        | [] \<Rightarrow> (h, if map_of (hub_connections h) (ch_device c) = Some i then Pending_Item else Stream_End)
      else (h, Stream_End))"

datatype 'm hub_event =
    Hub_Connect rust_string
  | Hub_Send rust_string 'm
  | Hub_Disconnect rust_string
  | Connection_Drop nat
  | Connection_Recv nat

fun hub_step :: "'m hub \<Rightarrow> 'm hub_event \<Rightarrow> 'm hub \<times> unit" where
  "hub_step h (Hub_Connect device) = (fst (hub_connect h device), ())"
| "hub_step h (Hub_Send device m) = (fst (hub_send h device m), ())"
| "hub_step h (Hub_Disconnect device) = (hub_disconnect h device, ())"
| "hub_step h (Connection_Drop i) = (connection_drop h i, ())"
| "hub_step h (Connection_Recv i) = (fst (connection_recv h i), ())"

section \<open>One live connection per device\<close>

definition channel_ok :: "'m channel \<Rightarrow> bool" where
  "channel_ok c \<longleftrightarrow> length (ch_queue c) \<le> COMMAND_BACKLOG \<and> prefix (ch_received c @ ch_queue c) (ch_accepted c)
     \<and> (ch_receiver c \<longrightarrow> ch_received c @ ch_queue c = ch_accepted c)"

text \<open>A registered connection is the device's newest and has not been dropped.\<close>

definition newest :: "'m channel list \<Rightarrow> rust_string \<Rightarrow> nat \<Rightarrow> bool" where
  "newest cs device i \<longleftrightarrow> i < length cs \<and> ch_device (cs ! i) = device \<and> ch_receiver (cs ! i)
     \<and> device \<notin> set (map ch_device (drop (Suc i) cs))"

definition hub_ok :: "'m hub \<Rightarrow> bool" where
  "hub_ok h \<longleftrightarrow> hub_next_id h = length (hub_channels h) \<and> distinct (map fst (hub_connections h))
     \<and> list_all channel_ok (hub_channels h)
     \<and> list_all (\<lambda>(device, i). newest (hub_channels h) device i) (hub_connections h)"

lemma hub_okD:
  assumes "hub_ok h"
  shows "hub_next_id h = length (hub_channels h)" "distinct (map fst (hub_connections h))"
    "\<And>i. i < length (hub_channels h) \<Longrightarrow> channel_ok (hub_channels h ! i)"
    "\<And>device i. map_of (hub_connections h) device = Some i \<Longrightarrow> newest (hub_channels h) device i"
    "\<And>device i. (device, i) \<in> set (hub_connections h) \<Longrightarrow> newest (hub_channels h) device i"
  using assms by (auto simp: hub_ok_def list_all_iff dest: map_of_SomeD)

lemma newest_snoc: "newest cs device i \<Longrightarrow> device \<noteq> ch_device c \<Longrightarrow> newest (cs @ [c]) device i"
  by (auto simp: newest_def nth_append)

lemma newest_update:
  assumes "newest cs device i" "j < length cs" "ch_device c = ch_device (cs ! j)"
    "j = i \<Longrightarrow> ch_receiver c"
  shows "newest (cs[j := c]) device i"
proof -
  have "map ch_device (cs[j := c]) = map ch_device cs" using assms(2,3) by (metis list_update_id map_update)
  then have "map ch_device (drop (Suc i) (cs[j := c])) = map ch_device (drop (Suc i) cs)" by (simp add: drop_map [symmetric])
  then show ?thesis using assms unfolding newest_def by (simp only:) (auto simp: nth_list_update)
qed

lemma list_all_update: "list_all P xs \<Longrightarrow> P x \<Longrightarrow> list_all P (xs[i := x])"
  by (auto simp: list_all_iff dest: set_update_subset_insert [THEN subsetD])

lemma hub_ok_channel:
  assumes "hub_ok h" "j < length (hub_channels h)" "ch_device c = ch_device (hub_channels h ! j)"
    "ch_receiver c = ch_receiver (hub_channels h ! j)" "channel_ok c"
  shows "hub_ok (h\<lparr>hub_channels := (hub_channels h)[j := c]\<rparr>)"
proof -
  have "newest ((hub_channels h)[j := c]) device i" if "(device, i) \<in> set (hub_connections h)" for device i
    using newest_update [OF hub_okD(5) [OF assms(1) that] assms(2,3)] hub_okD(5) [OF assms(1) that] assms(4)
    by (auto simp: newest_def)
  then show ?thesis using assms(1,5) by (auto simp: hub_ok_def list_all_iff dest: set_update_subset_insert [THEN subsetD])
qed

lemma connect_ok: "hub_ok h \<Longrightarrow> hub_ok (fst (hub_connect h device))"
proof -
  assume h: "hub_ok h"
  let ?c = "\<lparr>ch_device = device, ch_queue = [], ch_receiver = True, ch_accepted = [], ch_received = []\<rparr>"
  have new: "newest (hub_channels h @ [?c]) device (length (hub_channels h))" by (simp add: newest_def)
  have "newest (hub_channels h @ [?c]) d i" if "(d, i) \<in> set (AList.update device (length (hub_channels h)) (hub_connections h))" for d i
  proof (cases "d = device")
    case True
    then have "i = length (hub_channels h)"
      using map_of_is_SomeI [OF distinct_update [OF hub_okD(2) [OF h]] that] by (simp add: update_conv')
    then show ?thesis using new True by simp
  next
    case False
    have "map_of (AList.update device (length (hub_channels h)) (hub_connections h)) d = Some i"
      by (rule map_of_is_SomeI [OF distinct_update [OF hub_okD(2) [OF h]] that])
    then have "map_of (hub_connections h) d = Some i" using False by (simp add: update_conv')
    then show ?thesis using newest_snoc [OF hub_okD(4) [OF h], of d i ?c] False by simp
  qed
  then show ?thesis using h
    by (auto simp: hub_ok_def hub_connect_def Let_def list_all_iff channel_ok_def distinct_update)
qed

lemma send_ok: "hub_ok h \<Longrightarrow> hub_ok (fst (hub_send h device m))"
proof -
  assume h: "hub_ok h"
  show ?thesis
  proof (cases "map_of (hub_connections h) device")
    case (Some i)
    then have i: "i < length (hub_channels h)" using hub_okD(4) [OF h Some] by (simp add: newest_def)
    then show ?thesis using h Some hub_okD(3) [OF h i]
      by (auto simp: hub_send_def Let_def channel_ok_def intro!: hub_ok_channel)
  qed (simp add: hub_send_def h)
qed

lemma fewer_connections: "hub_ok h \<Longrightarrow> hub_ok (h\<lparr>hub_connections := AList.delete device (hub_connections h)\<rparr>)"
  by (auto simp: hub_ok_def list_all_iff AList.delete_eq intro!: distinct_map_filter)

lemma drop_ok: "hub_ok h \<Longrightarrow> hub_ok (connection_drop h i)"
proof (cases "i < length (hub_channels h)")
  case True
  assume h: "hub_ok h"
  let ?c = "hub_channels h ! i" and ?n = "(hub_channels h ! i)\<lparr>ch_receiver := False, ch_queue := []\<rparr>"
  define g where "g = (if map_of (hub_connections h) (ch_device ?c) = Some i
    then h\<lparr>hub_connections := AList.delete (ch_device ?c) (hub_connections h)\<rparr> else h)"
  have g: "hub_ok g" "hub_channels g = hub_channels h" using h fewer_connections by (auto simp: g_def)
  have "i \<noteq> j" if "(d, j) \<in> set (hub_connections g)" for d j
  proof
    assume "i = j"
    then have "d = ch_device ?c" using hub_okD(5) [OF g(1) that] g(2) by (simp add: newest_def)
    then show False using that \<open>i = j\<close> map_of_is_SomeI [OF hub_okD(2) [OF h], of d j]
      by (auto simp: g_def AList.delete_eq split: if_splits)
  qed
  then have "newest ((hub_channels h)[i := ?n]) d j" if "(d, j) \<in> set (hub_connections g)" for d j
    using newest_update [OF hub_okD(5) [OF g(1) that], of i ?n] g(2) True that by auto
  moreover have "channel_ok ?n" using hub_okD(3) [OF h True] by (auto simp: channel_ok_def dest: append_prefixD)
  ultimately have "hub_ok (g\<lparr>hub_channels := (hub_channels h)[i := ?n]\<rparr>)"
    using g by (auto simp: hub_ok_def list_all_iff dest: set_update_subset_insert [THEN subsetD])
  then show ?thesis using True g(2) by (simp add: connection_drop_def Let_def g_def split: if_splits)
qed (simp add: connection_drop_def)

lemma recv_ok: "hub_ok h \<Longrightarrow> hub_ok (fst (connection_recv h i))"
proof (cases "i < length (hub_channels h) \<and> ch_receiver (hub_channels h ! i)")
  case True
  assume h: "hub_ok h"
  show ?thesis
  proof (cases "ch_queue (hub_channels h ! i)")
    case (Cons m q)
    then show ?thesis using True h hub_okD(3) [OF h, of i]
      by (auto simp: connection_recv_def Let_def channel_ok_def intro!: hub_ok_channel)
  qed (use True h in \<open>simp add: connection_recv_def Let_def\<close>)
next
  case False
  assume "hub_ok h"
  moreover have "fst (connection_recv h i) = h" using False by (auto simp: connection_recv_def)
  ultimately show ?thesis by simp
qed

interpretation hub: step_system hub_step hub_ok "\<lambda>_ _. True"
proof unfold_locales
  fix h i
  assume "hub_ok h"
  then show "hub_ok (fst (hub_step h i))"
    by (cases i) (simp_all add: connect_ok send_ok drop_ok recv_ok hub_disconnect_def fewer_connections)
qed

lemma hub_legal: "hub.legal_run h events"
  by (induction events arbitrary: h) simp_all

lemma hub_run_ok: "hub_ok (fst (run hub_step hub_default events))"
  by (rule hub.run_inv [OF _ hub_legal]) (simp add: hub_ok_def hub_default_def)


text \<open>\<open>is_connected\<close> is registration: a registered connection is alive.\<close>

lemma is_connected_iff: "hub_ok h \<Longrightarrow> is_connected h device \<longleftrightarrow> map_of (hub_connections h) device \<noteq> None"
  using hub_okD(4) [of h device] by (auto simp: is_connected_def newest_def split: option.splits)

end
