(* ===== verification/Presence.thy ===== *)
theory Presence
  imports Hub "HOL-Library.List_Lexorder" "HOL-Library.Product_Lexorder"
begin

text \<open>
  Device presence for the website (\<open>server/src/realtime/presence.rs\<close>) and the socket that sends it
  (\<open>serve\<close> of \<open>server/src/api/events.rs\<close>): the server publishes what it reads when it differs from what it
  last published, as numbered changes, and a snapshot for a new subscriber or one that fell behind. What the
  database holds is an argument of the operation that reads it, and so are the time, whether a device's Agent
  is connected (\<open>is_connected\<close> of the hub) and the lowercasing of names. The summary of a device's system
  is opaque. The channel of published events is the list of all of them; a subscriber has a position in it.
\<close>

section \<open>What is published\<close>

record 'y presence_agent =
  pa_id :: rust_string
  pa_name :: rust_string
  pa_platform :: rust_string
  pa_connected :: bool
  pa_updating_to :: "rust_string option"
  pa_company_id :: "rust_string option"
  pa_tag_ids :: "rust_string list"
  pa_notes_revision :: int
  pa_created_at :: int
  pa_system :: "'y option"

record presence_company =
  pc_id :: rust_string
  pc_name :: rust_string

record tag =
  tg_id :: rust_string
  tg_name :: rust_string
  tg_color :: rust_string

datatype 'y presence_event =
    Snapshot nat "'y presence_agent list" "presence_company list" "tag list" int
  | AgentUpsert nat "'y presence_agent"
  | AgentDeleted nat rust_string
  | CompanyUpsert nat presence_company
  | CompanyDeleted nat rust_string
  | TagUpsert nat tag
  | TagDeleted nat rust_string

fun event_revision :: "'y presence_event \<Rightarrow> nat" where
  "event_revision (Snapshot n _ _ _ _) = n"
| "event_revision (AgentUpsert n _) = n"
| "event_revision (AgentDeleted n _) = n"
| "event_revision (CompanyUpsert n _) = n"
| "event_revision (CompanyDeleted n _) = n"
| "event_revision (TagUpsert n _) = n"
| "event_revision (TagDeleted n _) = n"

record update =
  up_version :: rust_string
  up_until :: nanos

record 'y presence =
  pr_revision :: nat
  pr_published :: "(rust_string \<times> 'y presence_agent option) list"
  pr_companies :: "(rust_string \<times> presence_company option) list"
  pr_tags :: "(rust_string \<times> tag option) list"
  pr_updating :: "(rust_string \<times> update) list"
  pr_events :: "'y presence_event list"

definition Presence_new :: "'y presence" where
  "Presence_new = \<lparr>pr_revision = 0, pr_published = [], pr_companies = [], pr_tags = [], pr_updating = [], pr_events = []\<rparr>"

type_synonym agent_row = "rust_string \<times> rust_string \<times> rust_string \<times> rust_string option \<times> int"

record 'y details =
  de_tag_ids :: "rust_string list"
  de_notes_revision :: int
  de_system :: "'y option"

record 'y database =
  db_agents :: "agent_row list"
  db_details :: "rust_string \<Rightarrow> 'y details"
  db_companies :: "presence_company list"
  db_tags :: "tag list"

datatype db_error = Database_Error

section \<open>Publishing\<close>

definition prune_updates :: "'y presence \<Rightarrow> nanos \<Rightarrow> 'y presence" where
  "prune_updates st now = st\<lparr>pr_updating := filter (\<lambda>(_, u). now < up_until u) (pr_updating st)\<rparr>"

definition agent :: "'y presence \<Rightarrow> (rust_string \<Rightarrow> bool) \<Rightarrow> agent_row \<Rightarrow> 'y details \<Rightarrow> 'y presence_agent" where
  "agent st connected row d =
     (let (i, name, platform, company, created_at) = row; on = connected i in
      \<lparr>pa_id = i, pa_name = name, pa_platform = platform, pa_connected = on,
       pa_updating_to = (if on then None else map_option up_version (map_of (pr_updating st) i)),
       pa_company_id = company, pa_tag_ids = de_tag_ids d, pa_notes_revision = de_notes_revision d,
       pa_created_at = created_at, pa_system = de_system d\<rparr>)"

definition publish :: "'y presence \<Rightarrow> rust_string \<Rightarrow> 'y presence_agent option \<Rightarrow> 'y presence" where
  "publish st i a =
     (if map_of (pr_published st) i = Some a then st
      else
        let n = pr_revision st + 1 in
        st\<lparr>pr_revision := n, pr_published := AList.update i a (pr_published st),
           pr_events := pr_events st @ [case a of Some v \<Rightarrow> AgentUpsert n v | None \<Rightarrow> AgentDeleted n i]\<rparr>)"

definition publish_company :: "'y presence \<Rightarrow> rust_string \<Rightarrow> presence_company option \<Rightarrow> 'y presence" where
  "publish_company st i c =
     (if map_of (pr_companies st) i = Some c then st
      else
        let n = pr_revision st + 1 in
        st\<lparr>pr_revision := n, pr_companies := AList.update i c (pr_companies st),
           pr_events := pr_events st @ [case c of Some v \<Rightarrow> CompanyUpsert n v | None \<Rightarrow> CompanyDeleted n i]\<rparr>)"

definition publish_tag :: "'y presence \<Rightarrow> rust_string \<Rightarrow> tag option \<Rightarrow> 'y presence" where
  "publish_tag st i t =
     (if map_of (pr_tags st) i = Some t then st
      else
        let n = pr_revision st + 1 in
        st\<lparr>pr_revision := n, pr_tags := AList.update i t (pr_tags st),
           pr_events := pr_events st @ [case t of Some v \<Rightarrow> TagUpsert n v | None \<Rightarrow> TagDeleted n i]\<rparr>)"

definition refresh ::
    "'y presence \<Rightarrow> nanos \<Rightarrow> (rust_string \<Rightarrow> bool) \<Rightarrow> rust_string
     \<Rightarrow> db_error + (agent_row \<times> 'y details) option \<Rightarrow> 'y presence" where
  "refresh st now connected i found =
     (case found of
        Inl _ \<Rightarrow> st
      | Inr r \<Rightarrow>
          let st = prune_updates st now in
          publish st i (map_option (\<lambda>(row, d). agent st connected row d) r))"

definition refresh_company :: "'y presence \<Rightarrow> rust_string \<Rightarrow> db_error + presence_company option \<Rightarrow> 'y presence" where
  "refresh_company st i found = (case found of Inl _ \<Rightarrow> st | Inr c \<Rightarrow> publish_company st i c)"

definition refresh_tag :: "'y presence \<Rightarrow> rust_string \<Rightarrow> db_error + tag option \<Rightarrow> 'y presence" where
  "refresh_tag st i found = (case found of Inl _ \<Rightarrow> st | Inr t \<Rightarrow> publish_tag st i t)"

definition updating :: "'y presence \<Rightarrow> rust_string \<Rightarrow> rust_string \<Rightarrow> nanos \<Rightarrow> nanos \<Rightarrow> 'y presence" where
  "updating st i version now update_grace =
     st\<lparr>pr_updating := AList.update i \<lparr>up_version = version, up_until = now + update_grace\<rparr> (pr_updating st)\<rparr>"

text \<open>The first half of \<open>connected\<close>; the second is a \<open>refresh\<close>.\<close>

definition end_update :: "'y presence \<Rightarrow> rust_string \<Rightarrow> 'y presence" where
  "end_update st i = st\<lparr>pr_updating := AList.delete i (pr_updating st)\<rparr>"

definition updating_devices :: "'y presence \<Rightarrow> nanos \<Rightarrow> 'y presence \<times> rust_string list" where
  "updating_devices st now = (let st = prune_updates st now in (st, map fst (pr_updating st)))"

definition agent_key :: "(rust_string \<Rightarrow> rust_string) \<Rightarrow> 'y presence_agent \<Rightarrow> bool \<times> rust_string \<times> rust_string" where
  "agent_key lower a = (\<not> pa_connected a, lower (pa_name a), pa_id a)"

definition company_key :: "(rust_string \<Rightarrow> rust_string) \<Rightarrow> presence_company \<Rightarrow> rust_string \<times> rust_string" where
  "company_key lower c = (lower (pc_name c), pc_id c)"

text \<open>The published keys whose value is gone from what was read.\<close>

definition gone :: "(rust_string \<times> 'v option) list \<Rightarrow> rust_string list \<Rightarrow> rust_string list" where
  "gone published ids = map fst (filter (\<lambda>(i, v). v \<noteq> None \<and> i \<notin> set ids) published)"

text \<open>The body of \<open>snapshot\<close> after the reads.\<close>

definition publish_all :: "'y presence \<Rightarrow> 'y presence_agent list \<Rightarrow> presence_company list \<Rightarrow> tag list \<Rightarrow> 'y presence" where
  "publish_all st agents companies tags =
     (let gone_companies = gone (pr_companies st) (map pc_id companies);
          gone_tags = gone (pr_tags st) (map tg_id tags);
          st = foldl (\<lambda>st c. publish_company st (pc_id c) (Some c)) st companies;
          st = foldl (\<lambda>st t. publish_tag st (tg_id t) (Some t)) st tags;
          st = foldl (\<lambda>st i. publish st i None) st (gone (pr_published st) (map pa_id agents));
          st = foldl (\<lambda>st a. publish st (pa_id a) (Some a)) st agents;
          st = foldl (\<lambda>st i. publish_company st i None) st gone_companies
      in foldl (\<lambda>st i. publish_tag st i None) st gone_tags)"

definition presence_snapshot ::
    "(rust_string \<Rightarrow> rust_string) \<Rightarrow> 'y presence \<Rightarrow> nanos \<Rightarrow> int \<Rightarrow> (rust_string \<Rightarrow> bool) \<Rightarrow> db_error + 'y database
     \<Rightarrow> 'y presence \<times> (db_error + 'y presence_event)" where
  "presence_snapshot lower st now now_ms connected found =
     (case found of
        Inl e \<Rightarrow> (st, Err e)
      | Inr db \<Rightarrow>
          let st = prune_updates st now;
              agents = map (\<lambda>row. agent st connected row (db_details db (fst row))) (db_agents db);
              st = publish_all st agents (db_companies db) (db_tags db)
          in (st, Ok (Snapshot (pr_revision st) (sort_key (agent_key lower) agents)
                       (sort_key (company_key lower) (db_companies db)) (db_tags db) now_ms)))"

section \<open>The event socket\<close>

text \<open>What a client keeps: it replaces everything on a snapshot and applies each change.\<close>

record 'y view =
  vw_agents :: "rust_string \<Rightarrow> 'y presence_agent option"
  vw_companies :: "rust_string \<Rightarrow> presence_company option"
  vw_tags :: "rust_string \<Rightarrow> tag option"

definition empty_view :: "'y view" where
  "empty_view = \<lparr>vw_agents = Map.empty, vw_companies = Map.empty, vw_tags = Map.empty\<rparr>"

fun apply_event :: "'y view \<Rightarrow> 'y presence_event \<Rightarrow> 'y view" where
  "apply_event v (Snapshot _ agents companies tags _) =
     \<lparr>vw_agents = map_of (map (\<lambda>a. (pa_id a, a)) agents), vw_companies = map_of (map (\<lambda>c. (pc_id c, c)) companies),
      vw_tags = map_of (map (\<lambda>t. (tg_id t, t)) tags)\<rparr>"
| "apply_event v (AgentUpsert _ a) = v\<lparr>vw_agents := (vw_agents v)(pa_id a \<mapsto> a)\<rparr>"
| "apply_event v (AgentDeleted _ i) = v\<lparr>vw_agents := (vw_agents v)(i := None)\<rparr>"
| "apply_event v (CompanyUpsert _ c) = v\<lparr>vw_companies := (vw_companies v)(pc_id c \<mapsto> c)\<rparr>"
| "apply_event v (CompanyDeleted _ i) = v\<lparr>vw_companies := (vw_companies v)(i := None)\<rparr>"
| "apply_event v (TagUpsert _ t) = v\<lparr>vw_tags := (vw_tags v)(tg_id t \<mapsto> t)\<rparr>"
| "apply_event v (TagDeleted _ i) = v\<lparr>vw_tags := (vw_tags v)(i := None)\<rparr>"

definition EVENT_BACKLOG :: nat where
  "EVENT_BACKLOG = 256"

record 'y event_socket =
  sk_position :: nat
  sk_revision :: nat
  sk_view :: "'y view"

text \<open>Everything that changes presence or a socket. Each read of the database comes with its result.\<close>

datatype 'y presence_op =
    Refresh nanos "rust_string \<Rightarrow> bool" rust_string "db_error + (agent_row \<times> 'y details) option"
  | Refresh_Company rust_string "db_error + presence_company option"
  | Refresh_Tag rust_string "db_error + tag option"
  | Updating rust_string rust_string nanos nanos
  | End_Update rust_string
  | List_Updating nanos
  | Other_Snapshot nanos int "rust_string \<Rightarrow> bool" "db_error + 'y database"
  | Subscribe nanos int "rust_string \<Rightarrow> bool" "db_error + 'y database"
  | Socket_Recv nanos int "rust_string \<Rightarrow> bool" "db_error + 'y database"
  | Client_Refresh nanos int "rust_string \<Rightarrow> bool" "db_error + 'y database"
  | Socket_Closed

definition send_snapshot ::
    "(rust_string \<Rightarrow> rust_string) \<Rightarrow> 'y presence \<Rightarrow> 'y event_socket \<Rightarrow> nanos \<Rightarrow> int \<Rightarrow> (rust_string \<Rightarrow> bool)
     \<Rightarrow> db_error + 'y database \<Rightarrow> 'y presence \<times> 'y event_socket option" where
  "send_snapshot lower st k now now_ms connected found =
     (case presence_snapshot lower st now now_ms connected found of
        (st', Inl _) \<Rightarrow> (st', None)
      | (st', Inr e) \<Rightarrow> (st', Some (k\<lparr>sk_revision := event_revision e, sk_view := apply_event (sk_view k) e\<rparr>)))"

definition socket_recv ::
    "(rust_string \<Rightarrow> rust_string) \<Rightarrow> 'y presence \<Rightarrow> 'y event_socket \<Rightarrow> nanos \<Rightarrow> int \<Rightarrow> (rust_string \<Rightarrow> bool)
     \<Rightarrow> db_error + 'y database \<Rightarrow> 'y presence \<times> 'y event_socket option" where
  "socket_recv lower st k now now_ms connected found =
     (if length (pr_events st) \<le> sk_position k then (st, Some k)
      else if EVENT_BACKLOG < length (pr_events st) - sk_position k then
        send_snapshot lower st (k\<lparr>sk_position := length (pr_events st) - EVENT_BACKLOG\<rparr>) now now_ms connected found
      else
        let e = pr_events st ! sk_position k; k = k\<lparr>sk_position := sk_position k + 1\<rparr> in
        (st, Some (if sk_revision k < event_revision e
                   then k\<lparr>sk_revision := event_revision e, sk_view := apply_event (sk_view k) e\<rparr> else k)))"

fun presence_step ::
    "(rust_string \<Rightarrow> rust_string) \<Rightarrow> 'y presence \<times> 'y event_socket option \<Rightarrow> 'y presence_op
     \<Rightarrow> ('y presence \<times> 'y event_socket option) \<times> unit" where
  "presence_step lower (st, k) (Refresh now connected i found) = ((refresh st now connected i found, k), ())"
| "presence_step lower (st, k) (Refresh_Company i found) = ((refresh_company st i found, k), ())"
| "presence_step lower (st, k) (Refresh_Tag i found) = ((refresh_tag st i found, k), ())"
| "presence_step lower (st, k) (Updating i version now update_grace) = ((updating st i version now update_grace, k), ())"
| "presence_step lower (st, k) (End_Update i) = ((end_update st i, k), ())"
| "presence_step lower (st, k) (List_Updating now) = ((fst (updating_devices st now), k), ())"
| "presence_step lower (st, k) (Other_Snapshot now ms connected found) =
     ((fst (presence_snapshot lower st now ms connected found), k), ())"
| "presence_step lower (st, k) (Subscribe now ms connected found) =
     (send_snapshot lower st \<lparr>sk_position = length (pr_events st), sk_revision = 0, sk_view = empty_view\<rparr> now ms connected found, ())"
| "presence_step lower (st, k) (Socket_Recv now ms connected found) =
     ((case k of None \<Rightarrow> (st, None) | Some k \<Rightarrow> socket_recv lower st k now ms connected found), ())"
| "presence_step lower (st, k) (Client_Refresh now ms connected found) =
     ((case k of None \<Rightarrow> (st, None) | Some k \<Rightarrow> send_snapshot lower st k now ms connected found), ())"
| "presence_step lower (st, k) Socket_Closed = ((st, None), ())"

section \<open>What subscribers were told\<close>

definition told :: "(rust_string \<times> 'v option) list \<Rightarrow> rust_string \<Rightarrow> 'v option" where
  "told published i = (case map_of published i of None \<Rightarrow> None | Some v \<Rightarrow> v)"

definition published_view :: "'y presence \<Rightarrow> 'y view" where
  "published_view st = \<lparr>vw_agents = told (pr_published st), vw_companies = told (pr_companies st), vw_tags = told (pr_tags st)\<rparr>"

definition replay :: "'y presence_event list \<Rightarrow> 'y view" where
  "replay events = foldl apply_event empty_view events"

text \<open>The published state is the replay of all events, which are numbered from one without a gap.\<close>

definition presence_ok :: "'y presence \<Rightarrow> bool" where
  "presence_ok st \<longleftrightarrow> published_view st = replay (pr_events st) \<and> pr_revision st = length (pr_events st)
     \<and> map event_revision (pr_events st) = [1..<Suc (length (pr_events st))]"

lemma told_update: "told (AList.update i v published) = (told published)(i := v)"
  by (auto simp: told_def fun_eq_iff update_conv')

lemma told_same: "map_of published i = Some v \<Longrightarrow> (told published)(i := v) = told published"
  by (auto simp: told_def fun_eq_iff)

lemma gone_told: "told published i = Some v \<Longrightarrow> i \<notin> set ids \<Longrightarrow> i \<in> set (gone published ids)"
proof -
  assume "told published i = Some v" "i \<notin> set ids"
  moreover from this have "(i, Some v) \<in> set published"
    by (auto simp: told_def split: option.splits dest: map_of_SomeD)
  ultimately show ?thesis by (force simp: gone_def)
qed

text \<open>A kind of published thing: publishing sets its entry and nothing else of the kind.\<close>

locale published_kind =
  fixes pub :: "'s \<Rightarrow> rust_string \<Rightarrow> 'v option \<Rightarrow> 's"
    and shown :: "'s \<Rightarrow> rust_string \<Rightarrow> 'v option"
    and key :: "'v \<Rightarrow> rust_string"
  assumes shown_pub: "shown (pub s i v) = (shown s)(i := v)"
begin

lemma map_of_keyed_None: "map_of (map (\<lambda>v. (key v, v)) vs) i = None \<longleftrightarrow> i \<notin> set (map key vs)"
  by (auto simp: map_of_eq_None_iff image_image)

lemma shown_upserts:
  "distinct (map key vs) \<Longrightarrow>
   shown (foldl (\<lambda>s v. pub s (key v) (Some v)) s vs) = shown s ++ map_of (map (\<lambda>v. (key v, v)) vs)"
proof (induction vs arbitrary: s)
  case (Cons v vs)
  then have "map_of (map (\<lambda>v. (key v, v)) vs) (key v) = None" by (simp add: map_of_keyed_None)
  then show ?case using Cons by (simp add: shown_pub fun_eq_iff map_add_def split: option.splits)
qed simp

lemma shown_deletes: "shown (foldl (\<lambda>s i. pub s i None) s is) = (\<lambda>i. if i \<in> set is then None else shown s i)"
  by (induction "is" arbitrary: s) (auto simp: shown_pub fun_eq_iff)

text \<open>Publishing everything read and the deletion of everything else, in either order, shows what was read.\<close>

lemma replaced:
  assumes "distinct (map key vs)" "\<And>i v. shown s i = Some v \<Longrightarrow> i \<notin> set (map key vs) \<Longrightarrow> i \<in> set is"
  shows "shown (foldl (\<lambda>s v. pub s (key v) (Some v)) (foldl (\<lambda>s i. pub s i None) s is) vs) = map_of (map (\<lambda>v. (key v, v)) vs)"
    "set is \<inter> set (map key vs) = {} \<Longrightarrow> shown s' = shown (foldl (\<lambda>s v. pub s (key v) (Some v)) s vs) \<Longrightarrow>
     shown (foldl (\<lambda>s i. pub s i None) s' is) = map_of (map (\<lambda>v. (key v, v)) vs)"
proof -
  let ?m = "map_of (map (\<lambda>v. (key v, v)) vs)"
  have out: "i \<in> set is \<or> shown s i = None" if "?m i = None" for i
    using assms(2) [of i] that map_of_keyed_None [of vs i] by (cases "shown s i") auto
  then show "shown (foldl (\<lambda>s v. pub s (key v) (Some v)) (foldl (\<lambda>s i. pub s i None) s is) vs) = ?m"
    by (auto simp: shown_upserts [OF assms(1)] shown_deletes fun_eq_iff map_add_def split: option.splits)
  assume "set is \<inter> set (map key vs) = {}" and s': "shown s' = shown (foldl (\<lambda>s v. pub s (key v) (Some v)) s vs)"
  then have "?m i = None" if "i \<in> set is" for i using that map_of_keyed_None [of vs i] by auto
  then show "shown (foldl (\<lambda>s i. pub s i None) s' is) = ?m"
    using out by (auto simp: s' shown_upserts [OF assms(1)] shown_deletes fun_eq_iff map_add_def split: option.splits)
qed

end

interpretation agents: published_kind publish "\<lambda>st. told (pr_published st)" pa_id
  by unfold_locales (simp add: publish_def Let_def told_update told_same)

interpretation companies: published_kind publish_company "\<lambda>st. told (pr_companies st)" pc_id
  by unfold_locales (simp add: publish_company_def Let_def told_update told_same)

interpretation tags: published_kind publish_tag "\<lambda>st. told (pr_tags st)" tg_id
  by unfold_locales (simp add: publish_tag_def Let_def told_update told_same)

lemma other_kinds [simp]:
  "pr_companies (publish st i a) = pr_companies st" "pr_tags (publish st i a) = pr_tags st"
  "pr_published (publish_company st i c) = pr_published st" "pr_tags (publish_company st i c) = pr_tags st"
  "pr_published (publish_tag st i t) = pr_published st" "pr_companies (publish_tag st i t) = pr_companies st"
  by (simp_all add: publish_def publish_company_def publish_tag_def Let_def)

lemma other_kinds_fold [simp]:
  "pr_companies (foldl (\<lambda>st x. publish st (f x) (g x)) st xs) = pr_companies st"
  "pr_tags (foldl (\<lambda>st x. publish st (f x) (g x)) st xs) = pr_tags st"
  "pr_published (foldl (\<lambda>st x. publish_company st (f x) (g' x)) st xs) = pr_published st"
  "pr_tags (foldl (\<lambda>st x. publish_company st (f x) (g' x)) st xs) = pr_tags st"
  "pr_published (foldl (\<lambda>st x. publish_tag st (f x) (g'' x)) st xs) = pr_published st"
  "pr_companies (foldl (\<lambda>st x. publish_tag st (f x) (g'' x)) st xs) = pr_companies st"
  by (induction xs arbitrary: st) simp_all

lemma publish_all_told:
  assumes "distinct (map pa_id as)" "distinct (map pc_id cs)" "distinct (map tg_id ts)"
  shows "published_view (publish_all st as cs ts) =
    \<lparr>vw_agents = map_of (map (\<lambda>a. (pa_id a, a)) as), vw_companies = map_of (map (\<lambda>c. (pc_id c, c)) cs),
     vw_tags = map_of (map (\<lambda>t. (tg_id t, t)) ts)\<rparr>"
proof -
  have apart: "set (gone published ids) \<inter> set ids = {}" for published :: "(rust_string \<times> 'v option) list" and ids
    by (auto simp: gone_def)
  have "told (pr_published (publish_all st as cs ts)) = map_of (map (\<lambda>a. (pa_id a, a)) as)"
    unfolding publish_all_def Let_def other_kinds_fold
    by (rule agents.replaced(1) [OF assms(1)]) (simp add: gone_told)
  moreover have "told (pr_companies (publish_all st as cs ts)) = map_of (map (\<lambda>c. (pc_id c, c)) cs)"
    unfolding publish_all_def Let_def other_kinds_fold
    by (rule companies.replaced(2) [OF assms(2), of st]) (simp_all add: gone_told apart del: set_map)
  moreover have "told (pr_tags (publish_all st as cs ts)) = map_of (map (\<lambda>t. (tg_id t, t)) ts)"
    unfolding publish_all_def Let_def other_kinds_fold
    by (rule tags.replaced(2) [OF assms(3), of st]) (simp_all add: gone_told apart tags.shown_upserts assms(3) del: set_map)
  ultimately show ?thesis by (simp add: published_view_def)
qed

section \<open>Numbered changes\<close>

definition grows :: "'y presence \<Rightarrow> 'y presence \<Rightarrow> bool" where
  "grows st st' \<longleftrightarrow> presence_ok st' \<and> prefix (pr_events st) (pr_events st')"

lemma grows_refl: "presence_ok st \<Longrightarrow> grows st st"
  by (simp add: grows_def)

lemma grows_trans: "grows st st' \<Longrightarrow> grows st' st'' \<Longrightarrow> grows st st''"
  by (auto simp: grows_def intro: prefix_order.trans)

lemma presence_ok_append:
  assumes "presence_ok st" "published_view st' = apply_event (published_view st) e" "pr_events st' = pr_events st @ [e]"
    "pr_revision st' = pr_revision st + 1" "event_revision e = pr_revision st'"
  shows "grows st st'"
  using assms by (simp add: presence_ok_def grows_def replay_def)

lemma publish_grows:
  "presence_ok st \<Longrightarrow> (\<And>v. a = Some v \<Longrightarrow> pa_id v = i) \<Longrightarrow> grows st (publish st i a)"
  by (cases "map_of (pr_published st) i = Some a")
    (auto simp: publish_def grows_refl Let_def published_view_def told_update split: option.splits intro!: presence_ok_append)

lemma publish_company_grows:
  "presence_ok st \<Longrightarrow> (\<And>v. c = Some v \<Longrightarrow> pc_id v = i) \<Longrightarrow> grows st (publish_company st i c)"
  by (cases "map_of (pr_companies st) i = Some c")
    (auto simp: publish_company_def grows_refl Let_def published_view_def told_update split: option.splits intro!: presence_ok_append)

lemma publish_tag_grows:
  "presence_ok st \<Longrightarrow> (\<And>v. t = Some v \<Longrightarrow> tg_id v = i) \<Longrightarrow> grows st (publish_tag st i t)"
  by (cases "map_of (pr_tags st) i = Some t")
    (auto simp: publish_tag_def grows_refl Let_def published_view_def told_update split: option.splits intro!: presence_ok_append)

lemma foldl_grows:
  "presence_ok st \<Longrightarrow> (\<And>st x. presence_ok st \<Longrightarrow> grows st (f st x)) \<Longrightarrow> grows st (foldl f st xs)"
  by (induction xs arbitrary: st) (auto simp: grows_refl grows_def intro: prefix_order.trans)

lemma publish_all_grows: "presence_ok st \<Longrightarrow> grows st (publish_all st as cs ts)"
proof -
  assume st: "presence_ok st"
  note step = foldl_grows publish_grows publish_company_grows publish_tag_grows
  have fold: "grows st (foldl f st' xs)" if "grows st st'" "\<And>st x. presence_ok st \<Longrightarrow> grows st (f st x)"
    for st st' :: "'y presence" and f xs
    using that foldl_grows [of st' f xs] grows_trans by (auto simp: grows_def)
  show ?thesis
    unfolding publish_all_def Let_def
    by (intro fold grows_refl [OF st] publish_grows publish_company_grows publish_tag_grows) simp_all
qed

lemma same_view [simp]:
  "presence_ok (st\<lparr>pr_updating := u\<rparr>) = presence_ok st" "grows st (st\<lparr>pr_updating := u\<rparr>) = presence_ok st"
  by (simp_all add: presence_ok_def grows_def published_view_def)

lemma grows_updating [simp]: "grows (st\<lparr>pr_updating := u\<rparr>) st' = grows st st'"
  by (simp add: grows_def)

text \<open>What the database promises about its primary keys.\<close>

definition database_ok :: "'y database \<Rightarrow> bool" where
  "database_ok db \<longleftrightarrow> distinct (map fst (db_agents db)) \<and> distinct (map pc_id (db_companies db)) \<and> distinct (map tg_id (db_tags db))"

lemma map_of_sorted:
  assumes "distinct (map key xs)"
  shows "map_of (map (\<lambda>x. (key x, x)) (sort_key k xs)) = map_of (map (\<lambda>x. (key x, x)) xs)"
proof -
  have "distinct (map key (sort_key k xs))" using assms by (simp add: distinct_map)
  then show ?thesis using assms by (subst map_of_inject_set) (simp_all add: comp_def)
qed

lemma pa_id_agent: "pa_id (agent st connected row d) = fst row"
  by (cases row) (simp add: agent_def Let_def)

lemma snapshot_tells_published:
  assumes "presence_ok st" "pred_sum (\<lambda>_. True) database_ok found"
  shows "grows st (fst (presence_snapshot lower st now ms connected found))
    \<and> (case snd (presence_snapshot lower st now ms connected found) of
         Inl _ \<Rightarrow> True
       | Inr e \<Rightarrow> apply_event v e = published_view (fst (presence_snapshot lower st now ms connected found))
           \<and> event_revision e = length (pr_events (fst (presence_snapshot lower st now ms connected found))))"
proof (cases found)
  case (Inl e)
  then show ?thesis using assms(1) by (simp add: presence_snapshot_def grows_refl)
next
  case (Inr db)
  define st1 where "st1 = prune_updates st now"
  define as where "as = map (\<lambda>row. agent st1 connected row (db_details db (fst row))) (db_agents db)"
  define st2 where "st2 = publish_all st1 as (db_companies db) (db_tags db)"
  have ids: "distinct (map pa_id as)" "distinct (map pc_id (db_companies db))" "distinct (map tg_id (db_tags db))"
    using assms(2) Inr by (simp_all add: database_ok_def as_def comp_def pa_id_agent)
  have "presence_ok st1" using assms(1) by (simp add: st1_def prune_updates_def)
  then have "grows st1 st2" unfolding st2_def by (rule publish_all_grows)
  then have g: "grows st st2" by (simp add: st1_def prune_updates_def)
  have eq: "presence_snapshot lower st now ms connected found =
      (st2, Ok (Snapshot (pr_revision st2) (sort_key (agent_key lower) as) (sort_key (company_key lower) (db_companies db)) (db_tags db) ms))"
    unfolding presence_snapshot_def Inr by (simp add: Let_def st1_def as_def st2_def)
  have "apply_event v (Snapshot (pr_revision st2) (sort_key (agent_key lower) as) (sort_key (company_key lower) (db_companies db)) (db_tags db) ms)
      = published_view st2"
    unfolding st2_def publish_all_told [OF ids] by (simp add: map_of_sorted ids)
  then show ?thesis using eq g by (simp add: grows_def presence_ok_def)
qed

section \<open>The socket keeps up\<close>

definition socket_ok :: "'y presence \<Rightarrow> 'y event_socket \<Rightarrow> bool" where
  "socket_ok st k \<longleftrightarrow> sk_position k \<le> sk_revision k \<and> sk_revision k \<le> length (pr_events st)
     \<and> sk_view k = replay (take (sk_revision k) (pr_events st))"

fun system_ok :: "'y presence \<times> 'y event_socket option \<Rightarrow> bool" where
  "system_ok (st, k) = (presence_ok st \<and> pred_option (socket_ok st) k)"

fun read_ok :: "'y presence_op \<Rightarrow> bool" where
  "read_ok (Refresh now connected i found) =
     (case found of Inr (Some (row, d)) \<Rightarrow> fst row = i | _ \<Rightarrow> True)"
| "read_ok (Refresh_Company i found) = (case found of Inr (Some c) \<Rightarrow> pc_id c = i | _ \<Rightarrow> True)"
| "read_ok (Refresh_Tag i found) = (case found of Inr (Some t) \<Rightarrow> tg_id t = i | _ \<Rightarrow> True)"
| "read_ok (Other_Snapshot now ms connected found) = pred_sum (\<lambda>_. True) database_ok found"
| "read_ok (Subscribe now ms connected found) = pred_sum (\<lambda>_. True) database_ok found"
| "read_ok (Socket_Recv now ms connected found) = pred_sum (\<lambda>_. True) database_ok found"
| "read_ok (Client_Refresh now ms connected found) = pred_sum (\<lambda>_. True) database_ok found"
| "read_ok _ = True"

lemma socket_ok_grows: "grows st st' \<Longrightarrow> socket_ok st k \<Longrightarrow> socket_ok st' k"
  by (auto simp: grows_def socket_ok_def prefix_def)

lemma system_ok_grows: "grows st st' \<Longrightarrow> system_ok (st, k) \<Longrightarrow> system_ok (st', k)"
  using socket_ok_grows by (auto simp: grows_def pred_option_def)

lemma refresh_grows:
  "presence_ok st \<Longrightarrow> read_ok (Refresh now connected i found) \<Longrightarrow> grows st (refresh st now connected i found)"
proof (cases found)
  case (Inr r)
  assume st: "presence_ok st" and "read_ok (Refresh now connected i found)"
  then have i: "pa_id v = i" if "map_option (\<lambda>(row, d). agent (prune_updates st now) connected row d) r = Some v" for v
    using that Inr by (auto simp: pa_id_agent)
  have "presence_ok (prune_updates st now)" using st by (simp add: prune_updates_def)
  then have "grows (prune_updates st now)
      (publish (prune_updates st now) i (map_option (\<lambda>(row, d). agent (prune_updates st now) connected row d) r))"
    using i by (rule publish_grows)
  then have "grows st
      (publish (prune_updates st now) i (map_option (\<lambda>(row, d). agent (prune_updates st now) connected row d) r))"
    unfolding prune_updates_def grows_updating .
  then show ?thesis unfolding refresh_def Inr sum.case Let_def .
qed (simp add: refresh_def grows_refl)

lemma send_snapshot_ok:
  assumes "presence_ok st" "pred_sum (\<lambda>_. True) database_ok found" "sk_position k \<le> length (pr_events st)"
  shows "system_ok (send_snapshot lower st k now ms connected found)"
proof -
  obtain st' r where s: "presence_snapshot lower st now ms connected found = (st', r)" by (cases "presence_snapshot lower st now ms connected found")
  have g: "grows st st'" using snapshot_tells_published [OF assms(1,2), of lower now ms connected] s by simp
  show ?thesis
  proof (cases r)
    case (Inl e)
    then show ?thesis using s g by (simp add: send_snapshot_def grows_def)
  next
    case (Inr e)
    then have e: "apply_event (sk_view k) e = published_view st'" "event_revision e = length (pr_events st')"
      using snapshot_tells_published [OF assms(1,2), of lower now ms connected "sk_view k"] s by simp_all
    have "length (pr_events st) \<le> length (pr_events st')" using g by (auto simp: grows_def prefix_length_le)
    then show ?thesis using s Inr g e assms(3) by (simp add: send_snapshot_def grows_def socket_ok_def presence_ok_def)
  qed
qed

lemma socket_recv_ok:
  assumes "presence_ok st" "socket_ok st k" "pred_sum (\<lambda>_. True) database_ok found"
  shows "system_ok (socket_recv lower st k now ms connected found)"
proof -
  let ?n = "length (pr_events st)" and ?p = "sk_position k"
  consider (idle) "?n \<le> ?p" | (lagged) "?p < ?n" "EVENT_BACKLOG < ?n - ?p" | (event) "?p < ?n" "\<not> EVENT_BACKLOG < ?n - ?p"
    by linarith
  then show ?thesis
  proof cases
    case idle
    then show ?thesis using assms by (simp add: socket_recv_def)
  next
    case lagged
    then have "socket_recv lower st k now ms connected found =
        send_snapshot lower st (k\<lparr>sk_position := ?n - EVENT_BACKLOG\<rparr>) now ms connected found"
      by (simp add: socket_recv_def)
    then show ?thesis using send_snapshot_ok [OF assms(1,3), of "k\<lparr>sk_position := ?n - EVENT_BACKLOG\<rparr>"] by simp
  next
    case event
    have rev: "event_revision (pr_events st ! ?p) = Suc ?p"
    proof -
      have "map event_revision (pr_events st) ! ?p = [1..<Suc ?n] ! ?p" using assms(1) by (simp add: presence_ok_def)
      then show ?thesis using event(1) by (simp del: upt_Suc)
    qed
    have "replay (take (Suc ?p) (pr_events st)) = apply_event (replay (take ?p (pr_events st))) (pr_events st ! ?p)"
      using event(1) by (simp add: replay_def take_Suc_conv_app_nth)
    then show ?thesis
      using assms(1,2) event rev by (auto simp: socket_recv_def Let_def socket_ok_def less_Suc_eq_le antisym)
  qed
qed

interpretation presence: step_system "presence_step lower" system_ok "\<lambda>_ op. read_ok op" for lower
proof unfold_locales
  fix x :: "'y presence \<times> 'y event_socket option" and op :: "'y presence_op"
  assume ok: "system_ok x" and r: "read_ok op"
  obtain st k where x: "x = (st, k)" by (cases x)
  have st: "presence_ok st" using ok x by simp
  have keep: "system_ok (st', k)" if "grows st st'" for st' using system_ok_grows [OF that, of k] ok x by simp
  show "system_ok (fst (presence_step lower x op))"
  proof (cases op)
    case (Refresh now connected i found)
    then show ?thesis using refresh_grows [OF st] r keep x by simp
  next
    case (Refresh_Company i found)
    have "grows st (refresh_company st i found)"
      using r Refresh_Company st by (auto simp: refresh_company_def grows_refl split: sum.splits intro!: publish_company_grows)
    then show ?thesis using Refresh_Company keep x by simp
  next
    case (Refresh_Tag i found)
    have "grows st (refresh_tag st i found)"
      using r Refresh_Tag st by (auto simp: refresh_tag_def grows_refl split: sum.splits intro!: publish_tag_grows)
    then show ?thesis using Refresh_Tag keep x by simp
  next
    case (Other_Snapshot now ms connected found)
    then show ?thesis using snapshot_tells_published [OF st, of found] r keep x by simp
  next
    case (Subscribe now ms connected found)
    then show ?thesis using send_snapshot_ok [OF st, of found] r x by simp
  next
    case (Socket_Recv now ms connected found)
    then show ?thesis using socket_recv_ok [OF st] r ok x by (cases k) simp_all
  next
    case (Client_Refresh now ms connected found)
    have "sk_position k' \<le> length (pr_events st)" if "k = Some k'" for k' using that ok x by (auto simp: socket_ok_def)
    then show ?thesis using Client_Refresh send_snapshot_ok [OF st, of found] r st x by (cases k) simp_all
  qed (use st x keep ok in \<open>simp_all add: updating_def end_update_def updating_devices_def Let_def prune_updates_def\<close>)
qed

lemma read_ok_legal: "list_all read_ok ops \<Longrightarrow> presence.legal_run lower x ops"
  by (induction ops arbitrary: x) simp_all


definition sample_row :: agent_row where
  "sample_row = (lit ''d1'', lit ''PC'', lit ''linux'', Some (lit ''c1''), 0)"

definition sample_database :: "unit database" where
  "sample_database = \<lparr>db_agents = [sample_row],
     db_details = (\<lambda>_. \<lparr>de_tag_ids = [lit ''t1''], de_notes_revision = 0, de_system = None\<rparr>),
     db_companies = [\<lparr>pc_id = lit ''c1'', pc_name = lit ''Acme''\<rparr>],
     db_tags = [\<lparr>tg_id = lit ''t1'', tg_name = lit ''lab'', tg_color = lit ''red''\<rparr>]\<rparr>"

definition sample_ops :: "unit presence_op list" where
  "sample_ops =
     [Subscribe 0 0 (\<lambda>_. True) (Ok sample_database), Updating (lit ''d1'') (lit ''1.2'') 0 600,
      Refresh 5 (\<lambda>_. False) (lit ''d1'') (Ok (Some (sample_row, db_details sample_database (lit ''d1'')))),
      Refresh_Company (lit ''c2'') (Ok None), Socket_Recv 9 0 (\<lambda>_. False) (Ok sample_database)]"


section \<open>No dangling names\<close>

text \<open>A page is closed when every device it shows names only companies and tags it shows.\<close>

definition names_in :: "'y presence_agent \<Rightarrow> rust_string set \<Rightarrow> rust_string set \<Rightarrow> bool" where
  "names_in a cs ts \<longleftrightarrow> (case pa_company_id a of None \<Rightarrow> True | Some c \<Rightarrow> c \<in> cs) \<and> set (pa_tag_ids a) \<subseteq> ts"

definition closed :: "'y view \<Rightarrow> bool" where
  "closed v \<longleftrightarrow> (\<forall>a \<in> ran (vw_agents v). names_in a (dom (vw_companies v)) (dom (vw_tags v)))"

text \<open>From one state to a later one every event leaves the page closed.\<close>

definition safely :: "'y presence \<Rightarrow> 'y presence \<Rightarrow> bool" where
  "safely st st' \<longleftrightarrow> grows st st' \<and> (\<forall>k \<ge> length (pr_events st). closed (replay (take k (pr_events st'))))"

lemma safely_refl: "presence_ok st \<Longrightarrow> closed (published_view st) \<Longrightarrow> safely st st"
  by (simp add: safely_def grows_refl presence_ok_def)

lemma safely_trans:
  assumes "safely st st'" "safely st' st''"
  shows "safely st st''"
proof -
  have p: "prefix (pr_events st') (pr_events st'')" using assms(2) by (simp add: safely_def grows_def)
  have "closed (replay (take k (pr_events st'')))" if "length (pr_events st) \<le> k" for k
  proof (cases "length (pr_events st') \<le> k")
    case False
    then have "take k (pr_events st'') = take k (pr_events st')" using p by (auto simp: prefix_def)
    then show ?thesis using assms(1) that by (simp add: safely_def)
  qed (use assms(2) in \<open>simp add: safely_def\<close>)
  then show ?thesis using assms grows_trans unfolding safely_def by blast
qed

lemma safely_step:
  assumes "grows st st'" "closed (published_view st)" "closed (published_view st')" "presence_ok st"
    "length (pr_events st') \<le> Suc (length (pr_events st))"
  shows "safely st st'"
proof -
  have "closed (replay (take k (pr_events st')))" if "length (pr_events st) \<le> k" for k
  proof (cases "k = length (pr_events st)")
    case True
    then have "take k (pr_events st') = pr_events st" using assms(1) by (auto simp: grows_def prefix_def)
    then show ?thesis using assms(2,4) by (simp add: presence_ok_def)
  next
    case False
    then have "take k (pr_events st') = pr_events st'" using that assms(5) by simp
    then show ?thesis using assms(1,3) by (simp add: presence_ok_def grows_def)
  qed
  then show ?thesis using assms(1) by (simp add: safely_def)
qed

lemma foldl_safely:
  assumes "I st" "\<And>st. I st \<Longrightarrow> presence_ok st \<and> closed (published_view st)"
    "\<And>st x. x \<in> set xs \<Longrightarrow> I st \<Longrightarrow> I (f st x) \<and> grows st (f st x) \<and> length (pr_events (f st x)) \<le> Suc (length (pr_events st))"
  shows "I (foldl f st xs) \<and> safely st (foldl f st xs)"
  using assms(1,3)
proof (induction xs arbitrary: st)
  case Nil
  then show ?case using assms(2) [of st] by (simp add: safely_refl)
next
  case (Cons x xs)
  then have x: "I (f st x)" "grows st (f st x)" "length (pr_events (f st x)) \<le> Suc (length (pr_events st))" by auto
  then have "safely st (f st x)" using safely_step assms(2) Cons.prems(1) by blast
  moreover have "I (foldl f (f st x) xs) \<and> safely (f st x) (foldl f (f st x) xs)"
    by (rule Cons.IH [OF x(1)]) (use Cons.prems(2) in auto)
  ultimately show ?case using safely_trans by auto
qed

lemma one_event:
  "length (pr_events (publish st i a)) \<le> Suc (length (pr_events st))"
  "length (pr_events (publish_company st i c)) \<le> Suc (length (pr_events st))"
  "length (pr_events (publish_tag st i t)) \<le> Suc (length (pr_events st))"
  by (simp_all add: publish_def publish_company_def publish_tag_def Let_def)

text \<open>While devices are published, every company and tag that was read is known; while companies and tags are
  deleted, the page shows exactly the devices that were read.\<close>

definition phase :: "rust_string set \<Rightarrow> rust_string set \<Rightarrow> 'y presence \<Rightarrow> bool" where
  "phase cs ts st \<longleftrightarrow> presence_ok st \<and> closed (published_view st)
     \<and> cs \<subseteq> dom (told (pr_companies st)) \<and> ts \<subseteq> dom (told (pr_tags st))"

definition final_phase :: "'y presence_agent list \<Rightarrow> rust_string set \<Rightarrow> rust_string set \<Rightarrow> 'y presence \<Rightarrow> bool" where
  "final_phase as cs ts st \<longleftrightarrow> phase cs ts st \<and> told (pr_published st) = map_of (map (\<lambda>a. (pa_id a, a)) as)"

lemma names_in_mono: "names_in a cs ts \<Longrightarrow> cs \<subseteq> cs' \<Longrightarrow> ts \<subseteq> ts' \<Longrightarrow> names_in a cs' ts'"
  by (auto simp: names_in_def split: option.splits)

lemma closed_view: "closed (published_view st) \<longleftrightarrow>
  (\<forall>a \<in> ran (told (pr_published st)). names_in a (dom (told (pr_companies st))) (dom (told (pr_tags st))))"
  by (simp add: closed_def published_view_def)

lemma phase_company:
  "phase cs ts st \<Longrightarrow> phase cs ts (publish_company st (pc_id c) (Some c)) \<and> grows st (publish_company st (pc_id c) (Some c))"
  using publish_company_grows [of st "Some c" "pc_id c"]
  by (auto simp: phase_def closed_view companies.shown_pub grows_def elim!: names_in_mono)

lemma phase_tag:
  "phase cs ts st \<Longrightarrow> phase cs ts (publish_tag st (tg_id t) (Some t)) \<and> grows st (publish_tag st (tg_id t) (Some t))"
  using publish_tag_grows [of st "Some t" "tg_id t"]
  by (auto simp: phase_def closed_view tags.shown_pub grows_def elim!: names_in_mono)

lemma phase_delete: "phase cs ts st \<Longrightarrow> phase cs ts (publish st i None) \<and> grows st (publish st i None)"
  using publish_grows [of st None i]
  by (auto simp: phase_def closed_view agents.shown_pub grows_def ran_def split: if_splits)

lemma phase_agent:
  assumes "phase cs ts st" "names_in a cs ts"
  shows "phase cs ts (publish st (pa_id a) (Some a)) \<and> grows st (publish st (pa_id a) (Some a))"
proof -
  have "names_in a (dom (told (pr_companies st))) (dom (told (pr_tags st)))"
    using assms by (auto simp: phase_def elim!: names_in_mono)
  then show ?thesis using assms(1) publish_grows [of st "Some a" "pa_id a"]
    by (auto simp: phase_def closed_view agents.shown_pub grows_def ran_def split: if_splits)
qed

lemma final_phase_closed:
  assumes "list_all (\<lambda>a. names_in a cs ts) as" "told (pr_published st) = map_of (map (\<lambda>a. (pa_id a, a)) as)"
    "cs \<subseteq> dom (told (pr_companies st))" "ts \<subseteq> dom (told (pr_tags st))"
  shows "closed (published_view st)"
proof -
  have "a \<in> set as" if "told (pr_published st) i = Some a" for a i
    using that map_of_SomeD [of "map (\<lambda>a. (pa_id a, a)) as" i a] unfolding assms(2) by auto
  then show ?thesis using assms(1,3,4) by (auto simp: closed_view ran_def list_all_iff elim!: names_in_mono)
qed

lemma final_company:
  assumes "list_all (\<lambda>a. names_in a cs ts) as" "final_phase as cs ts st" "i \<notin> cs"
  shows "final_phase as cs ts (publish_company st i None) \<and> grows st (publish_company st i None)"
proof -
  let ?st = "publish_company st i None"
  have g: "grows st ?st" using assms(2) by (intro publish_company_grows) (simp_all add: final_phase_def phase_def)
  have "told (pr_published ?st) = map_of (map (\<lambda>a. (pa_id a, a)) as)" "cs \<subseteq> dom (told (pr_companies ?st))"
      "ts \<subseteq> dom (told (pr_tags ?st))"
    using assms(2,3) by (auto simp: final_phase_def phase_def companies.shown_pub)
  then show ?thesis using g final_phase_closed [OF assms(1), of ?st] by (simp add: final_phase_def phase_def grows_def)
qed

lemma final_tag:
  assumes "list_all (\<lambda>a. names_in a cs ts) as" "final_phase as cs ts st" "i \<notin> ts"
  shows "final_phase as cs ts (publish_tag st i None) \<and> grows st (publish_tag st i None)"
proof -
  let ?st = "publish_tag st i None"
  have g: "grows st ?st" using assms(2) by (intro publish_tag_grows) (simp_all add: final_phase_def phase_def)
  have "told (pr_published ?st) = map_of (map (\<lambda>a. (pa_id a, a)) as)" "cs \<subseteq> dom (told (pr_companies ?st))"
      "ts \<subseteq> dom (told (pr_tags ?st))"
    using assms(2,3) by (auto simp: final_phase_def phase_def tags.shown_pub)
  then show ?thesis using g final_phase_closed [OF assms(1), of ?st] by (simp add: final_phase_def phase_def grows_def)
qed

lemma fold_phase:
  assumes "phase cs ts st" "\<And>st x. x \<in> set xs \<Longrightarrow> phase cs ts st \<Longrightarrow> phase cs ts (f st x) \<and> grows st (f st x)"
    "\<And>st x. length (pr_events (f st x)) \<le> Suc (length (pr_events st))"
  shows "phase cs ts (foldl f st xs) \<and> safely st (foldl f st xs)"
  by (rule foldl_safely [where I = "phase cs ts"]) (use assms in \<open>auto simp: phase_def\<close>)

lemma fold_final:
  assumes "final_phase as cs ts st" "\<And>st x. x \<in> set xs \<Longrightarrow> final_phase as cs ts st \<Longrightarrow> final_phase as cs ts (f st x) \<and> grows st (f st x)"
    "\<And>st x. length (pr_events (f st x)) \<le> Suc (length (pr_events st))"
  shows "final_phase as cs ts (foldl f st xs) \<and> safely st (foldl f st xs)"
  by (rule foldl_safely [where I = "final_phase as cs ts"]) (use assms in \<open>auto simp: final_phase_def phase_def\<close>)

lemma publish_all_safely:
  assumes ids: "distinct (map pa_id as)" "distinct (map pc_id cs)" "distinct (map tg_id ts)"
    and st: "presence_ok st" "closed (published_view st)"
    and named: "list_all (\<lambda>a. names_in a (set (map pc_id cs)) (set (map tg_id ts))) as"
  shows "safely st (publish_all st as cs ts)"
proof -
  let ?C = "set (map pc_id cs)" and ?T = "set (map tg_id ts)"
  define s1 where "s1 = foldl (\<lambda>st c. publish_company st (pc_id c) (Some c)) st cs"
  define s2 where "s2 = foldl (\<lambda>st t. publish_tag st (tg_id t) (Some t)) s1 ts"
  define s3 where "s3 = foldl (\<lambda>st i. publish st i None) s2 (gone (pr_published s2) (map pa_id as))"
  define s4 where "s4 = foldl (\<lambda>st a. publish st (pa_id a) (Some a)) s3 as"
  define s5 where "s5 = foldl (\<lambda>st i. publish_company st i None) s4 (gone (pr_companies st) (map pc_id cs))"
  define s6 where "s6 = foldl (\<lambda>st i. publish_tag st i None) s5 (gone (pr_tags st) (map tg_id ts))"
  have 1: "phase {} {} s1 \<and> safely st s1"
    unfolding s1_def by (rule fold_phase [OF _ phase_company one_event(2)]) (use st in \<open>simp_all add: phase_def\<close>)
  have 2: "phase {} {} s2 \<and> safely s1 s2"
    unfolding s2_def by (rule fold_phase [OF _ phase_tag one_event(3)]) (use 1 in simp_all)
  have "told (pr_companies s2) = told (pr_companies st) ++ map_of (map (\<lambda>c. (pc_id c, c)) cs)"
    unfolding s2_def other_kinds_fold s1_def by (rule companies.shown_upserts [OF ids(2)])
  moreover have "told (pr_tags s2) = told (pr_tags st) ++ map_of (map (\<lambda>t. (tg_id t, t)) ts)"
    unfolding s2_def tags.shown_upserts [OF ids(3)] s1_def other_kinds_fold ..
  ultimately have "phase ?C ?T s2"
    using 2 by (auto simp: phase_def dom_map_of_conv_image_fst image_image)
  then have 3: "phase ?C ?T s3 \<and> safely s2 s3"
    unfolding s3_def by (rule fold_phase [OF _ phase_delete one_event(1)])
  have 4: "phase ?C ?T s4 \<and> safely s3 s4"
    unfolding s4_def
    by (rule fold_phase [OF _ phase_agent one_event(1)]) (use 3 named in \<open>simp_all add: list_all_iff del: set_map\<close>)
  have "told (pr_published s4) = map_of (map (\<lambda>a. (pa_id a, a)) as)"
    unfolding s4_def s3_def by (rule agents.replaced(1) [OF ids(1)]) (simp add: gone_told)
  then have "final_phase as ?C ?T s4" using 4 by (simp add: final_phase_def)
  then have 5: "final_phase as ?C ?T s5 \<and> safely s4 s5"
    unfolding s5_def by (rule fold_final [OF _ final_company [OF named] one_event(2)]) (auto simp: gone_def)
  have 6: "final_phase as ?C ?T s6 \<and> safely s5 s6"
    unfolding s6_def by (rule fold_final [OF _ final_tag [OF named] one_event(3)]) (use 5 in \<open>auto simp: gone_def\<close>)
  have "publish_all st as cs ts = s6"
    by (simp add: publish_all_def Let_def s1_def s2_def s3_def s4_def s5_def s6_def)
  then show ?thesis using 1 2 3 4 5 6 safely_trans by metis
qed

definition database_closed :: "'y database \<Rightarrow> bool" where
  "database_closed db \<longleftrightarrow>
     list_all (\<lambda>(i, _, _, company, _).
       (case company of None \<Rightarrow> True | Some c \<Rightarrow> c \<in> set (map pc_id (db_companies db)))
       \<and> set (de_tag_ids (db_details db i)) \<subseteq> set (map tg_id (db_tags db))) (db_agents db)"

lemma names_in_agent:
  "names_in (agent st connected row d) cs ts \<longleftrightarrow>
   (case fst (snd (snd (snd row))) of None \<Rightarrow> True | Some c \<Rightarrow> c \<in> cs) \<and> set (de_tag_ids d) \<subseteq> ts"
  by (cases row) (simp add: agent_def Let_def names_in_def)



end
