(* ===== verification/Terminal_Agent.thy ===== *)
theory Terminal_Agent
  imports Ids Utf8 "HOL-Library.Sublist"
begin

text \<open>
  Remote terminals on the device: the messages (\<open>crates/protocol-types/src/terminal.rs\<close>), the checks before a
  shell starts (\<open>agent/src/remote/terminal.rs\<close>) and the relay between the terminal's socket and its shell
  (\<open>agent/src/remote/terminal/relay.rs\<close>). The relay's \<open>select!\<close> loop is one step per branch; the clock and
  whether the socket takes what is sent are inputs of a step. JSON is the parameter \<open>terminal_lib\<close>. The byte
  counters are natural numbers: they only count bytes really sent, which stay far below \<open>2 ^ 64\<close>.
\<close>

section \<open>Messages\<close>

datatype terminal_shell = Login | Bash | Zsh | Sh | Powershell | Pwsh | Cmd

definition shell_all :: "terminal_shell list" where
  "shell_all = [Login, Bash, Zsh, Sh, Powershell, Pwsh, Cmd]"

definition shell_as_str :: "terminal_shell \<Rightarrow> rust_string" where
  "shell_as_str s =
     (case s of
        Login \<Rightarrow> lit ''login'' | Bash \<Rightarrow> lit ''bash'' | Zsh \<Rightarrow> lit ''zsh'' | Sh \<Rightarrow> lit ''sh''
      | Powershell \<Rightarrow> lit ''powershell'' | Pwsh \<Rightarrow> lit ''pwsh'' | Cmd \<Rightarrow> lit ''cmd'')"

definition shell_parse :: "rust_string \<Rightarrow> terminal_shell option" where
  "shell_parse v = find (\<lambda>s. shell_as_str s = v) shell_all"

definition shell_label :: "terminal_shell \<Rightarrow> rust_string" where
  "shell_label s =
     (case s of
        Login \<Rightarrow> lit ''Login shell'' | Bash \<Rightarrow> lit ''bash'' | Zsh \<Rightarrow> lit ''zsh'' | Sh \<Rightarrow> lit ''sh''
      | Powershell \<Rightarrow> lit ''Windows PowerShell'' | Pwsh \<Rightarrow> lit ''PowerShell 7'' | Cmd \<Rightarrow> lit ''Command Prompt'')"

definition runs_on :: "terminal_shell \<Rightarrow> device_platform \<Rightarrow> bool" where
  "runs_on s platform =
     (case s of
        Powershell \<Rightarrow> platform = Windows | Pwsh \<Rightarrow> platform = Windows | Cmd \<Rightarrow> platform = Windows
      | _ \<Rightarrow> platform \<noteq> Windows)"

definition shell_defaults :: "device_platform \<Rightarrow> terminal_shell list" where
  "shell_defaults platform = (case platform of Windows \<Rightarrow> [Powershell, Cmd] | _ \<Rightarrow> [Login, Sh])"

definition platform_label :: "device_platform \<Rightarrow> rust_string" where
  "platform_label p = (case p of Windows \<Rightarrow> lit ''Windows'' | Macos \<Rightarrow> lit ''macOS'' | Linux \<Rightarrow> lit ''Linux'')"

datatype run_as = System | User

definition run_as_str :: "run_as \<Rightarrow> rust_string" where
  "run_as_str r = (case r of System \<Rightarrow> lit ''system'' | User \<Rightarrow> lit ''user'')"

definition TERMINAL_WINDOW_BYTES :: nat where
  "TERMINAL_WINDOW_BYTES = 512 * 1024"

definition MAX_TERMINAL_MESSAGE_BYTES :: nat where
  "MAX_TERMINAL_MESSAGE_BYTES = 64 * 1024"

definition MAX_TERMINAL_OUTPUT_BYTES :: nat where
  "MAX_TERMINAL_OUTPUT_BYTES = 16 * 1024"

definition MAX_TERMINAL_COLUMNS :: u16 where
  "MAX_TERMINAL_COLUMNS = 1000"

definition MAX_TERMINAL_ROWS :: u16 where
  "MAX_TERMINAL_ROWS = 500"

definition MAX_TERMINAL_EVENT_TEXT_CHARS :: nat where
  "MAX_TERMINAL_EVENT_TEXT_CHARS = 512"

definition valid_terminal_size :: "u16 \<Rightarrow> u16 \<Rightarrow> bool" where
  "valid_terminal_size columns rows \<longleftrightarrow>
     1 \<le> columns \<and> columns \<le> MAX_TERMINAL_COLUMNS \<and> 1 \<le> rows \<and> rows \<le> MAX_TERMINAL_ROWS"

record terminal_request =
  tr_terminal_id :: rust_string
  tr_shell :: terminal_shell
  tr_run_as :: run_as
  tr_columns :: u16
  tr_rows :: u16
  tr_notification :: "rust_string option"

datatype terminal_control = Resize u16 u16 | Ack nat

datatype terminal_event =
    Started rust_string rust_string
  | Failed rust_string
  | Exited "int option"

definition clean :: "rust_string \<Rightarrow> rust_string" where
  "clean t = take MAX_TERMINAL_EVENT_TEXT_CHARS (filter (\<lambda>c. \<not> char_is_control c) t)"

fun sanitized :: "terminal_event \<Rightarrow> terminal_event" where
  "sanitized (Started account shell) = Started (clean account) (clean shell)"
| "sanitized (Failed message) = Failed (clean message)"
| "sanitized (Exited code) = Exited code"

text \<open>The JSON forms of both kinds of message.\<close>

record terminal_lib =
  control_json :: "terminal_control \<Rightarrow> rust_string"
  control_of_json :: "rust_string \<Rightarrow> terminal_control option"
  event_json :: "terminal_event \<Rightarrow> rust_string"
  event_of_json :: "rust_string \<Rightarrow> terminal_event option"

section \<open>Before the shell starts\<close>

definition MAX_OPEN_TERMINALS :: nat where
  "MAX_OPEN_TERMINALS = 8"

definition slot_take :: "nat \<Rightarrow> nat option" where
  "slot_take opened = (if opened < MAX_OPEN_TERMINALS then Some (opened + 1) else None)"

definition is_ascii_alphanumeric :: "u8 \<Rightarrow> bool" where
  "is_ascii_alphanumeric b \<longleftrightarrow> (0x30 \<le> b \<and> b \<le> 0x39) \<or> (0x41 \<le> b \<and> b \<le> 0x5a) \<or> (0x61 \<le> b \<and> b \<le> 0x7a)"

definition valid_id :: "rust_string \<Rightarrow> bool" where
  "valid_id i \<longleftrightarrow> i \<noteq> [] \<and> length (as_bytes i) \<le> 64
     \<and> list_all (\<lambda>b. is_ascii_alphanumeric b \<or> b = 0x2d) (as_bytes i)"

definition problem :: "device_platform \<Rightarrow> terminal_request \<Rightarrow> rust_string option" where
  "problem current request =
     (if \<not> valid_id (tr_terminal_id request) then Some (lit ''The terminal has an invalid ID.'')
      else if \<not> valid_terminal_size (tr_columns request) (tr_rows request) then
        Some (lit ''The terminal's size is out of range.'')
      else if \<not> runs_on (tr_shell request) current then
        Some (shell_label (tr_shell request) @ lit '' doesn't run on '' @ platform_label current @ lit ''.'')
      else None)"

section \<open>The window\<close>

record window =
  w_sent :: nat
  w_acknowledged :: nat

definition window_open :: "window \<Rightarrow> bool" where
  "window_open w \<longleftrightarrow> w_sent w - w_acknowledged w < TERMINAL_WINDOW_BYTES"

definition window_sent :: "window \<Rightarrow> nat \<Rightarrow> window" where
  "window_sent w n = w\<lparr>w_sent := w_sent w + n\<rparr>"

definition window_acknowledge :: "window \<Rightarrow> nat \<Rightarrow> window \<times> bool" where
  "window_acknowledge w n =
     (if n < w_acknowledged w \<or> w_sent w < n then (w, False) else (w\<lparr>w_acknowledged := n\<rparr>, True))"

section \<open>The relay\<close>

datatype ws_message =
    Binary bytes
  | Text rust_string
  | Ping bytes
  | Pong bytes
  | Close "(nat \<times> rust_string) option"

datatype ending = Ending_Exited "int option" | Ending_Closed | Ending_Failed

record agent_relay =
  ar_window :: window
  ar_pending :: "bytes list"
  ar_pending_bytes :: nat
  ar_output_open :: bool
  ar_exit :: "(int option \<times> nanos) option"
  ar_drain_until :: nanos
  ar_last_heard :: nanos
  ar_ending :: "ending option"

text \<open>What a step does outside the relay: messages to the server, input to the shell, resizes.\<close>

datatype relay_action =
    Send ws_message
  | Shell_Input bytes
  | Resize_Shell u16 u16

definition MAX_PENDING_INPUT_BYTES :: nat where
  "MAX_PENDING_INPUT_BYTES = 1024 * 1024"

definition seconds :: "nat \<Rightarrow> nanos" where
  "seconds n = n * 1000000000"

definition millis :: "nat \<Rightarrow> nanos" where
  "millis n = n * 1000000"

definition LIVENESS :: nanos where
  "LIVENESS = seconds 60"

definition EXIT_DRAIN :: nanos where
  "EXIT_DRAIN = millis 300"

definition MAX_EXIT_DRAIN :: nanos where
  "MAX_EXIT_DRAIN = seconds 5"

definition relay_start :: "nanos \<Rightarrow> agent_relay" where
  "relay_start now =
     \<lparr>ar_window = \<lparr>w_sent = 0, w_acknowledged = 0\<rparr>, ar_pending = [], ar_pending_bytes = 0, ar_output_open = True,
      ar_exit = None, ar_drain_until = now, ar_last_heard = now, ar_ending = None\<rparr>"

definition end_with :: "ending \<Rightarrow> agent_relay \<Rightarrow> agent_relay" where
  "end_with e r = r\<lparr>ar_ending := Some e\<rparr>"

text \<open>Sending within the timeout: an error ends the relay.\<close>

definition relay_send :: "bool \<Rightarrow> ws_message \<Rightarrow> agent_relay \<Rightarrow> agent_relay \<times> relay_action list" where
  "relay_send sent m r = (if sent then (r, [Send m]) else (end_with Ending_Failed r, []))"

definition relay_finish :: "terminal_lib \<Rightarrow> bool \<Rightarrow> int option \<Rightarrow> agent_relay \<Rightarrow> agent_relay \<times> relay_action list" where
  "relay_finish lib sent code r =
     (if sent then (end_with (Ending_Exited code) r, [Send (Text (event_json lib (Exited code))), Send (Close None)])
      else (end_with Ending_Failed r, []))"

definition queue_input :: "bytes \<Rightarrow> agent_relay \<Rightarrow> agent_relay" where
  "queue_input bs r =
     (if bs = [] \<or> ar_exit r \<noteq> None then r
      else if MAX_PENDING_INPUT_BYTES < ar_pending_bytes r + length bs then r
      else r\<lparr>ar_pending_bytes := ar_pending_bytes r + length bs, ar_pending := ar_pending r @ [bs]\<rparr>)"

definition relay_control :: "terminal_control \<Rightarrow> agent_relay \<Rightarrow> agent_relay \<times> relay_action list" where
  "relay_control c r =
     (case c of
        Resize columns rows \<Rightarrow> (r, if valid_terminal_size columns rows then [Resize_Shell columns rows] else [])
      | Ack n \<Rightarrow> (r\<lparr>ar_window := fst (window_acknowledge (ar_window r) n)\<rparr>, []))"

definition relay_message ::
    "terminal_lib \<Rightarrow> bool \<Rightarrow> nanos \<Rightarrow> ws_message option \<Rightarrow> agent_relay \<Rightarrow> agent_relay \<times> relay_action list" where
  "relay_message lib sent now message r =
     (let r = r\<lparr>ar_last_heard := now\<rparr> in
      case message of
        None \<Rightarrow> (end_with Ending_Closed r, [])
      | Some (Binary bs) \<Rightarrow>
          if MAX_TERMINAL_MESSAGE_BYTES < length bs then (end_with Ending_Failed r, []) else (queue_input bs r, [])
      | Some (Text t) \<Rightarrow>
          (case control_of_json lib t of
             None \<Rightarrow> (end_with Ending_Failed r, [])
           | Some c \<Rightarrow> relay_control c r)
      | Some (Ping p) \<Rightarrow> relay_send sent (Pong p) r
      | Some (Close _) \<Rightarrow> (end_with Ending_Closed r, [])
      | Some (Pong _) \<Rightarrow> (r, []))"

definition relay_input :: "bool \<Rightarrow> agent_relay \<Rightarrow> agent_relay \<times> relay_action list" where
  "relay_input permit r =
     (case ar_pending r of
        [] \<Rightarrow> (r, [])
      | bs # rest \<Rightarrow>
          if permit then (r\<lparr>ar_pending := rest, ar_pending_bytes := ar_pending_bytes r - length bs\<rparr>, [Shell_Input bs])
          else (r\<lparr>ar_pending := [], ar_pending_bytes := 0\<rparr>, []))"

definition relay_output :: "bool \<Rightarrow> nanos \<Rightarrow> bytes option \<Rightarrow> agent_relay \<Rightarrow> agent_relay \<times> relay_action list" where
  "relay_output sent now chunk r =
     (if ar_output_open r \<and> window_open (ar_window r) then
        case chunk of
          None \<Rightarrow> (r\<lparr>ar_output_open := False\<rparr>, [])
        | Some bs \<Rightarrow>
            let r = r\<lparr>ar_window := window_sent (ar_window r) (length bs)\<rparr> in
            if sent then
              ((if ar_exit r \<noteq> None then r\<lparr>ar_drain_until := now + EXIT_DRAIN\<rparr> else r), [Send (Binary bs)])
            else (end_with Ending_Failed r, [])
      else (r, []))"

definition relay_exited :: "nanos \<Rightarrow> int option \<Rightarrow> agent_relay \<Rightarrow> agent_relay \<times> relay_action list" where
  "relay_exited now code r =
     (if ar_exit r = None then
        (r\<lparr>ar_exit := Some (code, now), ar_drain_until := now + EXIT_DRAIN, ar_pending := [], ar_pending_bytes := 0\<rparr>, [])
      else (r, []))"

definition relay_drain :: "terminal_lib \<Rightarrow> bool \<Rightarrow> nanos \<Rightarrow> agent_relay \<Rightarrow> agent_relay \<times> relay_action list" where
  "relay_drain lib sent now r =
     (case ar_exit r of
        None \<Rightarrow> (r, [])
      | Some (code, exited_at) \<Rightarrow>
          if now < ar_drain_until r then (r, [])
          else if \<not> window_open (ar_window r) \<and> now - exited_at < MAX_EXIT_DRAIN then
            (r\<lparr>ar_drain_until := now + EXIT_DRAIN\<rparr>, [])
          else relay_finish lib sent code r)"

definition relay_ping :: "bool \<Rightarrow> nanos \<Rightarrow> agent_relay \<Rightarrow> agent_relay \<times> relay_action list" where
  "relay_ping sent now r =
     (if LIVENESS < now - ar_last_heard r then (end_with Ending_Failed r, []) else relay_send sent (Ping []) r)"

text \<open>The branches of the loop, and its top, which is reached again after every branch.\<close>

datatype agent_event =
    From_Server "ws_message option"
  | Input_Permit bool
  | Shell_Output "bytes option"
  | Shell_Exited "int option"
  | Drain_Timer
  | Ping_Timer

fun relay_branch :: "terminal_lib \<Rightarrow> bool \<Rightarrow> nanos \<Rightarrow> agent_event \<Rightarrow> agent_relay \<Rightarrow> agent_relay \<times> relay_action list" where
  "relay_branch lib sent now (From_Server m) r = relay_message lib sent now m r"
| "relay_branch lib sent now (Input_Permit permit) r = relay_input permit r"
| "relay_branch lib sent now (Shell_Output chunk) r = relay_output sent now chunk r"
| "relay_branch lib sent now (Shell_Exited code) r = relay_exited now code r"
| "relay_branch lib sent now Drain_Timer r = relay_drain lib sent now r"
| "relay_branch lib sent now Ping_Timer r = relay_ping sent now r"

definition loop_top :: "terminal_lib \<Rightarrow> bool \<Rightarrow> agent_relay \<Rightarrow> agent_relay \<times> relay_action list" where
  "loop_top lib sent r =
     (case ar_exit r of
        Some (code, _) \<Rightarrow> if ar_ending r = None \<and> \<not> ar_output_open r then relay_finish lib sent code r else (r, [])
      | None \<Rightarrow> (r, []))"

definition agent_step :: "terminal_lib \<Rightarrow> bool \<Rightarrow> nanos \<Rightarrow> agent_event \<Rightarrow> agent_relay \<Rightarrow> agent_relay \<times> relay_action list" where
  "agent_step lib sent now ev r =
     (if ar_ending r \<noteq> None then (r, [])
      else
        let (r, as) = relay_branch lib sent now ev r; (r, bs) = loop_top lib sent r in (r, as @ bs))"

section \<open>What a step of the relay keeps\<close>

fun payload :: "ws_message \<Rightarrow> bytes list" where
  "payload (Binary bs) = [bs]"
| "payload _ = []"

definition payloads :: "ws_message list \<Rightarrow> bytes list" where
  "payloads ms = concat (map payload ms)"

fun action_sends :: "relay_action \<Rightarrow> ws_message list" where
  "action_sends (Send m) = [m]"
| "action_sends _ = []"

fun action_input :: "relay_action \<Rightarrow> bytes list" where
  "action_input (Shell_Input bs) = [bs]"
| "action_input _ = []"

definition relay_sends :: "relay_action list \<Rightarrow> ws_message list" where
  "relay_sends as = concat (map action_sends as)"

definition inputs :: "relay_action list \<Rightarrow> bytes list" where
  "inputs as = concat (map action_input as)"

lemma payloads_simps [simp]:
  "payloads [] = []" "payloads (m # ms) = payload m @ payloads ms" "payloads (xs @ ys) = payloads xs @ payloads ys"
  by (simp_all add: payloads_def)

lemma relay_sends_simps [simp]:
  "relay_sends [] = []" "relay_sends (a # as) = action_sends a @ relay_sends as" "relay_sends (xs @ ys) = relay_sends xs @ relay_sends ys"
  by (simp_all add: relay_sends_def)

lemma inputs_simps [simp]:
  "inputs [] = []" "inputs (a # as) = action_input a @ inputs as" "inputs (xs @ ys) = inputs xs @ inputs ys"
  by (simp_all add: inputs_def)

definition pending_ok :: "agent_relay \<Rightarrow> bool" where
  "pending_ok r \<longleftrightarrow> ar_pending_bytes r = length (concat (ar_pending r)) \<and> ar_pending_bytes r \<le> MAX_PENDING_INPUT_BYTES"

definition window_ok :: "window \<Rightarrow> bool" where
  "window_ok w \<longleftrightarrow> w_acknowledged w \<le> w_sent w
     \<and> w_sent w - w_acknowledged w < TERMINAL_WINDOW_BYTES + MAX_TERMINAL_OUTPUT_BYTES"

text \<open>The shell's output comes in chunks of at most \<open>MAX_TERMINAL_OUTPUT_BYTES\<close>.\<close>

fun event_ok :: "agent_event \<Rightarrow> bool" where
  "event_ok (Shell_Output (Some bs)) \<longleftrightarrow> length bs \<le> MAX_TERMINAL_OUTPUT_BYTES"
| "event_ok _ \<longleftrightarrow> True"

text \<open>The acknowledgement and the input an event brings.\<close>

fun message_acks :: "terminal_lib \<Rightarrow> ws_message \<Rightarrow> nat list" where
  "message_acks lib (Text t) = (case control_of_json lib t of Some (Ack n) \<Rightarrow> [n] | _ \<Rightarrow> [])"
| "message_acks lib _ = []"

definition acks :: "terminal_lib \<Rightarrow> ws_message list \<Rightarrow> nat list" where
  "acks lib ms = concat (map (message_acks lib) ms)"

lemma acks_simps [simp]:
  "acks lib [] = []" "acks lib (m # ms) = message_acks lib m @ acks lib ms" "acks lib (xs @ ys) = acks lib xs @ acks lib ys"
  by (simp_all add: acks_def)

fun event_messages :: "agent_event \<Rightarrow> ws_message list" where
  "event_messages (From_Server (Some m)) = [m]"
| "event_messages _ = []"

lemma window_ok_acknowledge: "window_ok w \<Longrightarrow> window_ok (fst (window_acknowledge w n))"
  by (auto simp: window_ok_def window_acknowledge_def)

lemma window_ok_sent:
  "window_ok w \<Longrightarrow> window_open w \<Longrightarrow> n \<le> MAX_TERMINAL_OUTPUT_BYTES \<Longrightarrow> window_ok (window_sent w n)"
  by (auto simp: window_ok_def window_open_def window_sent_def)

lemma acknowledge_sent [simp]: "w_sent (fst (window_acknowledge w n)) = w_sent w"
  by (simp add: window_acknowledge_def)

lemma window_sent_simps [simp]:
  "w_sent (window_sent w n) = w_sent w + n" "w_acknowledged (window_sent w n) = w_acknowledged w"
  by (simp_all add: window_sent_def)

text \<open>What a branch may do, and that the top of the loop may do it too.\<close>

definition relay_effect :: "terminal_lib \<Rightarrow> ws_message list \<Rightarrow> agent_relay \<Rightarrow> agent_relay \<times> relay_action list \<Rightarrow> bool" where
  "relay_effect lib ms r out \<longleftrightarrow>
     (let r' = fst out; as = snd out in
      window_ok (ar_window r') \<and> pending_ok r'
      \<and> w_sent (ar_window r) + length (concat (payloads (relay_sends as))) \<le> w_sent (ar_window r')
      \<and> (ar_ending r' = None \<longrightarrow> w_sent (ar_window r') = w_sent (ar_window r) + length (concat (payloads (relay_sends as))))
      \<and> w_acknowledged (ar_window r') =
          foldl (\<lambda>a n. if n < a \<or> w_sent (ar_window r) < n then a else n) (w_acknowledged (ar_window r)) (acks lib ms)
      \<and> subseq (inputs as @ ar_pending r') (ar_pending r @ payloads ms))"

definition quiet :: "agent_relay \<times> relay_action list \<Rightarrow> agent_relay \<Rightarrow> bool" where
  "quiet out r \<longleftrightarrow>
     ar_window (fst out) = ar_window r \<and> ar_pending (fst out) = ar_pending r \<and> ar_pending_bytes (fst out) = ar_pending_bytes r
     \<and> payloads (relay_sends (snd out)) = [] \<and> inputs (snd out) = []"

lemma quiet_effect:
  "quiet out r \<Longrightarrow> window_ok (ar_window r) \<Longrightarrow> pending_ok r \<Longrightarrow> acks lib ms = [] \<Longrightarrow> relay_effect lib ms r out"
  by (simp add: quiet_def relay_effect_def Let_def pending_ok_def subseq_rev_drop_many)

lemma quiet_branches:
  "quiet (end_with e r, []) r" "quiet (r, []) r" "quiet (relay_send sent (Ping p) r) r" "quiet (relay_send sent (Pong p) r) r"
  "quiet (relay_finish lib sent code r) r" "quiet (relay_ping sent now r) r" "quiet (relay_drain lib sent now r) r"
  "quiet (loop_top lib sent r) r"
  by (auto simp: quiet_def relay_send_def relay_finish_def relay_ping_def relay_drain_def loop_top_def end_with_def
      split: option.splits)

lemma queue_input_effect:
  assumes "window_ok (ar_window r)" "pending_ok r"
  shows "relay_effect lib [Binary bs] r (queue_input bs r, [])"
  using assms by (auto simp: relay_effect_def queue_input_def pending_ok_def Let_def)

lemma control_effect:
  assumes "window_ok (ar_window r)" "pending_ok r" "control_of_json lib t = Some c"
  shows "relay_effect lib [Text t] r (relay_control c r)"
proof (cases c)
  case (Resize a b)
  then show ?thesis using assms by (auto simp: relay_effect_def relay_control_def pending_ok_def Let_def)
next
  case (Ack n)
  then show ?thesis using assms window_ok_acknowledge [of "ar_window r" n]
    by (auto simp: relay_effect_def relay_control_def pending_ok_def Let_def window_acknowledge_def)
qed

lemma effect_heard:
  "relay_effect lib ms (r\<lparr>ar_last_heard := now\<rparr>) out \<longleftrightarrow> relay_effect lib ms r out"
  by (simp add: relay_effect_def)

lemma message_effect:
  assumes "window_ok (ar_window r)" "pending_ok r"
  shows "relay_effect lib (case m of Some m \<Rightarrow> [m] | None \<Rightarrow> []) r (relay_message lib sent now m r)"
proof -
  let ?r = "r\<lparr>ar_last_heard := now\<rparr>"
  have ok: "window_ok (ar_window ?r)" "pending_ok ?r" using assms by (simp_all add: pending_ok_def)
  have "relay_effect lib (case m of Some m \<Rightarrow> [m] | None \<Rightarrow> []) ?r (relay_message lib sent now m r)"
  proof (cases m)
    case None
    then show ?thesis using quiet_effect [OF quiet_branches(1) ok] by (simp add: relay_message_def)
  next
    case (Some msg)
    show ?thesis
    proof (cases msg)
      case (Binary bs)
      then show ?thesis using Some quiet_effect [OF quiet_branches(1) ok] queue_input_effect [OF ok]
        by (simp add: relay_message_def Let_def)
    next
      case (Text t)
      then show ?thesis using Some quiet_effect [OF quiet_branches(1) ok] control_effect [OF ok]
        by (simp add: relay_message_def Let_def split: option.split)
    qed (use Some quiet_effect [OF quiet_branches(1) ok] quiet_effect [OF quiet_branches(2) ok]
        quiet_effect [OF quiet_branches(4) ok] in \<open>simp_all add: relay_message_def Let_def\<close>)
  qed
  then show ?thesis by (simp only: effect_heard)
qed

lemma input_effect:
  assumes "window_ok (ar_window r)" "pending_ok r"
  shows "relay_effect lib [] r (relay_input permit r)"
  using assms by (cases "ar_pending r") (auto simp: relay_effect_def relay_input_def pending_ok_def Let_def)

lemma output_effect:
  assumes "window_ok (ar_window r)" "pending_ok r" "event_ok (Shell_Output chunk)"
  shows "relay_effect lib [] r (relay_output sent now chunk r)"
proof (cases "ar_output_open r \<and> window_open (ar_window r)")
  case True
  then show ?thesis using assms window_ok_sent [OF assms(1)]
    by (cases chunk) (auto simp: relay_effect_def relay_output_def pending_ok_def Let_def end_with_def)
next
  case False
  then have "relay_output sent now chunk r = (r, [])" by (simp add: relay_output_def del: de_Morgan_conj)
  then show ?thesis using quiet_effect [OF quiet_branches(2) assms(1,2)] by simp
qed

lemma exited_effect:
  assumes "window_ok (ar_window r)" "pending_ok r"
  shows "relay_effect lib [] r (relay_exited now code r)"
  using assms by (auto simp: relay_effect_def relay_exited_def pending_ok_def Let_def)

lemma branch_effect:
  assumes "window_ok (ar_window r)" "pending_ok r" "event_ok ev"
  shows "relay_effect lib (event_messages ev) r (relay_branch lib sent now ev r)"
proof (cases ev)
  case (From_Server m)
  have "event_messages ev = (case m of Some m \<Rightarrow> [m] | None \<Rightarrow> [])" by (cases m) (simp_all add: From_Server)
  then show ?thesis using message_effect [OF assms(1,2)] From_Server by simp
qed (use assms input_effect output_effect exited_effect quiet_effect [OF quiet_branches(6) assms(1,2)]
    quiet_effect [OF quiet_branches(7) assms(1,2)] in simp_all)

lemma effect_quiet:
  assumes "relay_effect lib ms r (r1, as)" "quiet (r2, bs) r1" "ar_ending r1 \<noteq> None \<Longrightarrow> ar_ending r2 \<noteq> None"
  shows "relay_effect lib ms r (r2, as @ bs)"
  using assms by (auto simp: relay_effect_def quiet_def Let_def pending_ok_def)

lemma agent_step_effect:
  assumes "window_ok (ar_window r)" "pending_ok r" "event_ok ev" "ar_ending r = None"
  shows "relay_effect lib (event_messages ev) r (agent_step lib sent now ev r)"
proof -
  obtain r1 as where 1: "relay_branch lib sent now ev r = (r1, as)" by (cases "relay_branch lib sent now ev r")
  obtain r2 bs where 2: "loop_top lib sent r1 = (r2, bs)" by (cases "loop_top lib sent r1")
  have "relay_effect lib (event_messages ev) r (r1, as)" using branch_effect [OF assms(1-3), of lib sent now] 1 by simp
  moreover have "quiet (r2, bs) r1" using quiet_branches(8) [of lib sent r1] 2 by simp
  moreover have "ar_ending r2 \<noteq> None" if "ar_ending r1 \<noteq> None" using that 2
    by (auto simp: loop_top_def split: option.splits)
  moreover have "agent_step lib sent now ev r = (r2, as @ bs)" using assms(4) 1 2 by (simp add: agent_step_def)
  ultimately show ?thesis using effect_quiet by simp
qed

end
