(* ===== verification/Terminal_Server.thy ===== *)
theory Terminal_Server
  imports Terminal_Agent
begin

text \<open>
  One terminal's sockets on the server (\<open>server/src/terminals/relay.rs\<close>): waiting for the Agent's socket, the two
  directions of the relay, the idle timer and the access check, and how the ends of a terminal are told to
  the browser. Each direction handles one frame per step; whether the receiving socket takes the frame in
  time is an input.
\<close>

section \<open>How a terminal ends\<close>

datatype terminal_end =
    End_Exited
  | End_Failed
  | BrowserLeft
  | BrowserProtocol
  | DeviceOffline
  | DeviceTimeout
  | DeviceDisconnected
  | Idle nanos
  | SignedOut
  | PermissionRemoved

definition end_reason :: "terminal_end \<Rightarrow> rust_string" where
  "end_reason e =
     (case e of
        End_Exited \<Rightarrow> lit ''exited'' | End_Failed \<Rightarrow> lit ''failed'' | BrowserLeft \<Rightarrow> lit ''closed''
      | BrowserProtocol \<Rightarrow> lit ''protocol_error'' | DeviceOffline \<Rightarrow> lit ''device_offline''
      | DeviceTimeout \<Rightarrow> lit ''device_timeout'' | DeviceDisconnected \<Rightarrow> lit ''device_disconnected''
      | Idle _ \<Rightarrow> lit ''idle'' | SignedOut \<Rightarrow> lit ''signed_out'' | PermissionRemoved \<Rightarrow> lit ''permission_removed'')"

definition as_secs :: "nanos \<Rightarrow> nat" where
  "as_secs d = d div 1000000000"

definition describe :: "nanos \<Rightarrow> rust_string" where
  "describe idle =
     (let minutes = as_secs idle div 60 in
      if minutes = 0 then
        if as_secs idle \<le> 1 then lit ''1 second'' else show_dec (as_secs idle) @ lit '' seconds''
      else if minutes = 1 then lit ''1 minute''
      else if minutes = 60 then lit ''1 hour''
      else if minutes mod 60 = 0 then show_dec (minutes div 60) @ lit '' hours''
      else show_dec minutes @ lit '' minutes'')"

definition browser_close :: "terminal_end \<Rightarrow> (nat \<times> rust_string) option" where
  "browser_close e =
     (case e of
        End_Exited \<Rightarrow> Some (1000, lit ''the shell exited'')
      | End_Failed \<Rightarrow> Some (1000, lit ''the shell couldn't start'')
      | BrowserLeft \<Rightarrow> None
      | BrowserProtocol \<Rightarrow> Some (1003, lit ''unsupported terminal message'')
      | DeviceOffline \<Rightarrow> Some (4004, lit ''the device is offline'')
      | DeviceTimeout \<Rightarrow> Some (4004, lit ''the device didn't open the terminal'')
      | DeviceDisconnected \<Rightarrow> Some (4009, lit ''the device disconnected'')
      | Idle idle \<Rightarrow> Some (4008, lit ''closed after '' @ describe idle @ lit '' without input'')
      | SignedOut \<Rightarrow> Some (4001, lit ''sign in again'')
      | PermissionRemoved \<Rightarrow> Some (4003, lit ''you may no longer open this terminal''))"

section \<open>The two directions\<close>

record outcome =
  oc_account :: "rust_string option"
  oc_program :: "rust_string option"
  oc_exit_code :: "int option"
  oc_error :: "rust_string option"

record server_relay =
  sv_started :: nanos
  sv_relayed :: nat
  sv_last_input_ms :: nat
  sv_typed :: bool
  sv_acknowledged :: nat
  sv_outcome :: outcome
  sv_end :: "terminal_end option"

text \<open>What a read of a socket gives within its timeout.\<close>

datatype frame = Silence | Stream_End | Frame ws_message

definition touch :: "nanos \<Rightarrow> server_relay \<Rightarrow> server_relay" where
  "touch now s = s\<lparr>sv_last_input_ms := (now - sv_started s) div 1000000, sv_typed := True\<rparr>"

definition last_input :: "server_relay \<Rightarrow> nanos" where
  "last_input s = sv_started s + millis (sv_last_input_ms s)"

definition server_start :: "nanos \<Rightarrow> server_relay" where
  "server_start now =
     \<lparr>sv_started = now, sv_relayed = 0, sv_last_input_ms = 0, sv_typed = False, sv_acknowledged = 0,
      sv_outcome = \<lparr>oc_account = None, oc_program = None, oc_exit_code = None, oc_error = None\<rparr>, sv_end = None\<rparr>"

definition forward :: "bool \<Rightarrow> terminal_end \<Rightarrow> ws_message \<Rightarrow> server_relay \<Rightarrow> server_relay \<times> ws_message list" where
  "forward sent e m s = (if sent then (s, [m]) else (s\<lparr>sv_end := Some e\<rparr>, []))"

definition upstream_control :: "nanos \<Rightarrow> terminal_control option \<Rightarrow> server_relay \<Rightarrow> (server_relay \<times> terminal_control) option" where
  "upstream_control now control s =
     (case control of
        Some (Resize columns rows) \<Rightarrow>
          if valid_terminal_size columns rows then Some (touch now s, Resize columns rows) else None
      | Some (Ack n) \<Rightarrow>
          if sv_acknowledged s \<le> n \<and> n \<le> sv_relayed s then Some (s\<lparr>sv_acknowledged := n\<rparr>, Ack n) else None
      | None \<Rightarrow> None)"

definition upstream ::
    "terminal_lib \<Rightarrow> bool \<Rightarrow> nanos \<Rightarrow> frame \<Rightarrow> server_relay \<Rightarrow> server_relay \<times> ws_message list" where
  "upstream lib sent now f s =
     (case f of
        Silence \<Rightarrow> (s\<lparr>sv_end := Some BrowserLeft\<rparr>, [])
      | Stream_End \<Rightarrow> (s\<lparr>sv_end := Some BrowserLeft\<rparr>, [])
      | Frame (Binary bs) \<Rightarrow>
          if MAX_TERMINAL_MESSAGE_BYTES < length bs then (s\<lparr>sv_end := Some BrowserProtocol\<rparr>, [])
          else forward sent DeviceDisconnected (Binary bs) (touch now s)
      | Frame (Text t) \<Rightarrow>
          (case upstream_control now (control_of_json lib t) s of
             None \<Rightarrow> (s\<lparr>sv_end := Some BrowserProtocol\<rparr>, [])
           | Some (s, c) \<Rightarrow> forward sent DeviceDisconnected (Text (control_json lib c)) s)
      | Frame (Close _) \<Rightarrow> (s\<lparr>sv_end := Some BrowserLeft\<rparr>, [])
      | Frame _ \<Rightarrow> (s, []))"

definition upstream_ping :: "bool \<Rightarrow> server_relay \<Rightarrow> server_relay \<times> ws_message list" where
  "upstream_ping sent s = forward sent DeviceDisconnected (Ping []) s"

definition note_event :: "terminal_event \<Rightarrow> outcome \<Rightarrow> outcome \<times> terminal_end option" where
  "note_event e out =
     (case e of
        Started account shell \<Rightarrow> (out\<lparr>oc_account := Some account, oc_program := Some shell\<rparr>, None)
      | Failed message \<Rightarrow> (out\<lparr>oc_error := Some message\<rparr>, Some End_Failed)
      | Exited code \<Rightarrow> (out\<lparr>oc_exit_code := code\<rparr>, Some End_Exited))"

definition downstream ::
    "terminal_lib \<Rightarrow> bool \<Rightarrow> frame \<Rightarrow> server_relay \<Rightarrow> server_relay \<times> ws_message list" where
  "downstream lib sent f s =
     (case f of
        Silence \<Rightarrow> (s\<lparr>sv_end := Some DeviceDisconnected\<rparr>, [])
      | Stream_End \<Rightarrow> (s\<lparr>sv_end := Some DeviceDisconnected\<rparr>, [])
      | Frame (Binary bs) \<Rightarrow> forward sent BrowserLeft (Binary bs) (s\<lparr>sv_relayed := sv_relayed s + length bs\<rparr>)
      | Frame (Text t) \<Rightarrow>
          (case event_of_json lib t of
             None \<Rightarrow> (s\<lparr>sv_end := Some DeviceDisconnected\<rparr>, [])
           | Some e \<Rightarrow>
               let e = sanitized e; (out, ended) = note_event e (sv_outcome s); s = s\<lparr>sv_outcome := out\<rparr> in
               if sent then (s\<lparr>sv_end := ended\<rparr>, [Text (event_json lib e)]) else (s\<lparr>sv_end := Some BrowserLeft\<rparr>, []))
      | Frame (Close _) \<Rightarrow> (s\<lparr>sv_end := Some DeviceDisconnected\<rparr>, [])
      | Frame _ \<Rightarrow> (s, []))"

definition downstream_ping :: "bool \<Rightarrow> server_relay \<Rightarrow> server_relay \<times> ws_message list" where
  "downstream_ping sent s = forward sent BrowserLeft (Ping []) s"

definition idle_timer :: "nanos \<Rightarrow> nanos \<Rightarrow> server_relay \<Rightarrow> server_relay" where
  "idle_timer idle now s = (if last_input s + idle \<le> now then s\<lparr>sv_end := Some (Idle idle)\<rparr> else s)"

text \<open>The sign-in as it was read again: still signed in (and authorized, with or without the permission), a
  failure of the server, or refused.\<close>

datatype sign_in = Authorized bool | Unauthorized | Server_Failure | Session_Refused

definition access_check :: "sign_in \<Rightarrow> server_relay \<Rightarrow> server_relay" where
  "access_check found s =
     (let s = s\<lparr>sv_typed := False\<rparr> in
      case found of
        Authorized permitted \<Rightarrow> if permitted then s else s\<lparr>sv_end := Some PermissionRemoved\<rparr>
      | Unauthorized \<Rightarrow> s\<lparr>sv_end := Some SignedOut\<rparr>
      | Server_Failure \<Rightarrow> s
      | Session_Refused \<Rightarrow> s\<lparr>sv_end := Some SignedOut\<rparr>)"

text \<open>The frames that end the sockets.\<close>

definition close_browser :: "terminal_end \<Rightarrow> ws_message" where
  "close_browser e = Close (browser_close e)"

definition close_agent :: "terminal_end \<Rightarrow> ws_message list" where
  "close_agent e = (if e \<noteq> DeviceDisconnected then [Close (Some (1000, end_reason e))] else [])"

section \<open>Waiting for the Agent\<close>

datatype wait_state = Still_Waiting "terminal_control option" | Relay "terminal_control option" | Gave_Up terminal_end

datatype wait_event = Agent_Socket bool | Deadline | Browser_Frame frame

definition wait_for_agent :: "terminal_lib \<Rightarrow> terminal_control option \<Rightarrow> wait_event \<Rightarrow> wait_state" where
  "wait_for_agent lib resize ev =
     (case ev of
        Agent_Socket arrived \<Rightarrow> if arrived then Relay resize else Gave_Up DeviceTimeout
      | Deadline \<Rightarrow> Gave_Up DeviceTimeout
      | Browser_Frame (Frame (Text t)) \<Rightarrow>
          (case control_of_json lib t of
             Some (Resize columns rows) \<Rightarrow>
               if valid_terminal_size columns rows then Still_Waiting (Some (Resize columns rows)) else Gave_Up BrowserProtocol
           | Some (Ack n) \<Rightarrow> if n = 0 then Still_Waiting resize else Gave_Up BrowserProtocol
           | None \<Rightarrow> Gave_Up BrowserProtocol)
      | Browser_Frame (Frame (Binary bs)) \<Rightarrow>
          if length bs \<le> MAX_TERMINAL_MESSAGE_BYTES then Still_Waiting resize else Gave_Up BrowserProtocol
      | Browser_Frame (Frame (Close _)) \<Rightarrow> Gave_Up BrowserLeft
      | Browser_Frame (Frame _) \<Rightarrow> Still_Waiting resize
      | Browser_Frame _ \<Rightarrow> Gave_Up BrowserLeft)"

section \<open>What each direction keeps\<close>

text \<open>JSON reads back what it wrote.\<close>

definition terminal_lib_ok :: "terminal_lib \<Rightarrow> bool" where
  "terminal_lib_ok lib \<longleftrightarrow> (\<forall>c. control_of_json lib (control_json lib c) = Some c) \<and> (\<forall>e. event_of_json lib (event_json lib e) = Some e)"

definition upstream_effect :: "terminal_lib \<Rightarrow> ws_message list \<Rightarrow> server_relay \<Rightarrow> server_relay \<times> ws_message list \<Rightarrow> bool" where
  "upstream_effect lib ms s out \<longleftrightarrow>
     (let s' = fst out; ns = acks lib (snd out) in
      sv_relayed s' = sv_relayed s \<and> sv_acknowledged s \<le> sv_acknowledged s' \<and> sv_acknowledged s' \<le> sv_relayed s
      \<and> (ns = [] \<and> (sv_end s' = None \<longrightarrow> sv_acknowledged s' = sv_acknowledged s) \<or> ns = [sv_acknowledged s'])
      \<and> set ns \<subseteq> set (acks lib ms) \<and> subseq (payloads (snd out)) (payloads ms))"

lemma touch_simps [simp]:
  "sv_relayed (touch now s) = sv_relayed s" "sv_acknowledged (touch now s) = sv_acknowledged s" "sv_end (touch now s) = sv_end s"
  by (simp_all add: touch_def)

lemma upstream_keeps:
  assumes "terminal_lib_ok lib" "sv_acknowledged s \<le> sv_relayed s"
  shows "upstream_effect lib [m] s (upstream lib sent now (Frame m) s)"
proof (cases m)
  case (Text t)
  then show ?thesis using assms
    by (auto simp: upstream_def upstream_effect_def upstream_control_def forward_def Let_def terminal_lib_ok_def
        split: option.split terminal_control.split)
qed (use assms in \<open>auto simp: upstream_def upstream_effect_def forward_def Let_def\<close>)

definition downstream_effect :: "ws_message list \<Rightarrow> server_relay \<Rightarrow> server_relay \<times> ws_message list \<Rightarrow> bool" where
  "downstream_effect ms s out \<longleftrightarrow>
     (let s' = fst out in
      sv_relayed s' = sv_relayed s + length (concat (payloads ms)) \<and> sv_acknowledged s' = sv_acknowledged s
      \<and> (payloads (snd out) = payloads ms \<or> payloads (snd out) = [] \<and> sv_end s' \<noteq> None))"

lemma downstream_keeps: "downstream_effect [m] s (downstream lib sent (Frame m) s)"
  by (cases m) (auto simp: downstream_def downstream_effect_def forward_def note_event_def Let_def
      split: option.splits prod.splits terminal_event.splits)

section \<open>Closing\<close>

text \<open>A close reason fits the 123 bytes a close frame has, for every idle time of a 64-bit count of seconds.\<close>

lemma show_dec_length: "length (show_dec n) \<le> k" if "n < 10 ^ k" "0 < k"
  using that
proof (induction k arbitrary: n)
  case (Suc k)
  show ?case
  proof (cases "n < 10")
    case False
    then have "0 < k" using Suc.prems by (cases k) auto
    moreover have "n div 10 < 10 ^ k" using Suc.prems by (simp add: less_mult_imp_div_less mult.commute)
    ultimately have "length (show_dec (n div 10)) \<le> k" by (rule Suc.IH [rotated])
    then show ?thesis using False by (subst show_dec.simps) simp
  qed (subst show_dec.simps, simp)
qed simp

lemma close_reason_fits:
  assumes "browser_close e = Some (code, reason)" "\<And>d. e = Idle d \<Longrightarrow> as_secs d < 2 ^ 64"
  shows "length reason \<le> 123"
proof (cases e)
  case (Idle d)
  let ?n = "as_secs d"
  have "?n < 10 ^ 20" using assms(2) [OF Idle] by simp
  moreover have "?n div 60 \<le> ?n" "?n div 60 div 60 \<le> ?n" by (simp_all add: div_le_dividend order_trans)
  ultimately have "length (show_dec ?n) \<le> 20" "length (show_dec (?n div 60)) \<le> 20" "length (show_dec (?n div 60 div 60)) \<le> 20"
    by (auto intro!: show_dec_length elim: le_less_trans)
  then have "length (describe d) \<le> 40" by (auto simp: describe_def Let_def)
  moreover have "reason = lit ''closed after '' @ describe d @ lit '' without input''"
    using assms(1) Idle by (simp add: browser_close_def)
  ultimately show ?thesis by simp
qed (use assms(1) in \<open>auto simp: browser_close_def\<close>)

end
