(* ===== verification/Terminal_Session.thy ===== *)
theory Terminal_Session
  imports Terminal_Server
begin

text \<open>
  A terminal end to end: the Agent's relay, the server's two directions and a browser, joined by sockets that
  deliver in order. The browser is arbitrary: it may send any message at any time. A run is any interleaving
  of the parts, with any socket slow, stalled or lost. \<open>ts_output\<close>, \<open>ts_drawn\<close>, \<open>ts_browser_sent\<close> and
  \<open>ts_shell_input\<close> remember what passed.
\<close>

section \<open>The parts together\<close>

record term_system =
  ts_agent :: agent_relay
  ts_server :: server_relay
  ts_waiting :: "terminal_control option option"
  ts_to_server :: "ws_message list"
  ts_to_agent :: "ws_message list"
  ts_to_browser :: "ws_message list"
  ts_from_browser :: "ws_message list"
  ts_output :: bytes
  ts_drawn :: "ws_message list"
  ts_browser_sent :: "ws_message list"
  ts_shell_input :: "bytes list"

definition term_start :: "terminal_lib \<Rightarrow> nanos \<Rightarrow> rust_string \<Rightarrow> rust_string \<Rightarrow> term_system" where
  "term_start lib now account shell =
     \<lparr>ts_agent = relay_start now, ts_server = server_start now, ts_waiting = Some None,
      ts_to_server = [Text (event_json lib (Started account shell))], ts_to_agent = [], ts_to_browser = [], ts_from_browser = [],
      ts_output = [], ts_drawn = [], ts_browser_sent = [], ts_shell_input = []\<rparr>"

datatype term_event =
    Agent_Does bool nanos agent_event
  | Agent_Reads bool nanos
  | Server_Waits bool nanos wait_event
  | Server_Reads_Browser bool nanos
  | Server_Reads_Agent bool
  | Server_Loses_Browser frame
  | Server_Loses_Agent frame
  | Server_Pings bool bool
  | Server_Idle_Timer nanos nanos
  | Server_Checks_Access sign_in
  | Browser_Reads
  | Browser_Sends ws_message

definition agent_acts :: "terminal_lib \<Rightarrow> bool \<Rightarrow> nanos \<Rightarrow> agent_event \<Rightarrow> term_system \<Rightarrow> term_system" where
  "agent_acts lib sent now ev s =
     (if ts_waiting s \<noteq> None \<or> ar_ending (ts_agent s) \<noteq> None then s
      else
        let (r, as) = agent_step lib sent now ev (ts_agent s) in
        s\<lparr>ts_agent := r, ts_to_server := ts_to_server s @ relay_sends as,
          ts_output := ts_output s @ concat (payloads (relay_sends as)), ts_shell_input := ts_shell_input s @ inputs as\<rparr>)"

text \<open>The server after a step of one direction: when the terminal has ended, both sockets are closed.\<close>

definition server_closes :: "term_system \<Rightarrow> term_system" where
  "server_closes s =
     (case sv_end (ts_server s) of
        None \<Rightarrow> s
      | Some e \<Rightarrow> s\<lparr>ts_to_browser := ts_to_browser s @ [close_browser e], ts_to_agent := ts_to_agent s @ close_agent e\<rparr>)"

definition server_acts :: "(server_relay \<Rightarrow> server_relay \<times> ws_message list \<times> ws_message list) \<Rightarrow> term_system \<Rightarrow> term_system" where
  "server_acts f s =
     (if ts_waiting s \<noteq> None \<or> sv_end (ts_server s) \<noteq> None then s
      else
        let (sv, to_agent, to_browser) = f (ts_server s) in
        server_closes (s\<lparr>ts_server := sv, ts_to_agent := ts_to_agent s @ to_agent, ts_to_browser := ts_to_browser s @ to_browser\<rparr>))"

definition server_up :: "server_relay \<times> ws_message list \<Rightarrow> server_relay \<times> ws_message list \<times> ws_message list" where
  "server_up out = (fst out, snd out, [])"

definition server_down :: "server_relay \<times> ws_message list \<Rightarrow> server_relay \<times> ws_message list \<times> ws_message list" where
  "server_down out = (fst out, [], snd out)"

text \<open>Before the relay: what the browser sends is read and dropped, but for the latest size, which the relay
  starts by passing on.\<close>

definition start_relay :: "terminal_lib \<Rightarrow> bool \<Rightarrow> nanos \<Rightarrow> terminal_control option \<Rightarrow> term_system \<Rightarrow> term_system" where
  "start_relay lib sent now resize s =
     (let s = s\<lparr>ts_waiting := None, ts_server := (ts_server s)\<lparr>sv_started := now\<rparr>\<rparr> in
      case resize of
        None \<Rightarrow> s
      | Some c \<Rightarrow>
          if sent then s\<lparr>ts_to_agent := ts_to_agent s @ [Text (control_json lib c)]\<rparr>
          else server_closes (s\<lparr>ts_server := (ts_server s)\<lparr>sv_end := Some DeviceDisconnected\<rparr>\<rparr>))"

definition server_waits :: "terminal_lib \<Rightarrow> bool \<Rightarrow> nanos \<Rightarrow> wait_event \<Rightarrow> term_system \<Rightarrow> term_system" where
  "server_waits lib sent now ev s =
     (case ts_waiting s of
        None \<Rightarrow> s
      | Some resize \<Rightarrow>
          if sv_end (ts_server s) \<noteq> None then s
          else case wait_for_agent lib resize ev of
            Still_Waiting resize \<Rightarrow> s\<lparr>ts_waiting := Some resize\<rparr>
          | Relay resize \<Rightarrow> start_relay lib sent now resize s
          | Gave_Up e \<Rightarrow>
              s\<lparr>ts_server := (ts_server s)\<lparr>sv_end := Some e\<rparr>,
                ts_to_browser := ts_to_browser s @ (if browser_close e = None then [] else [close_browser e])\<rparr>)"

fun term_step :: "terminal_lib \<Rightarrow> term_system \<Rightarrow> term_event \<Rightarrow> term_system \<times> unit" where
  "term_step lib s (Agent_Does sent now ev) = (agent_acts lib sent now ev s, ())"
| "term_step lib s (Agent_Reads sent now) =
     (case ts_to_agent s of
        [] \<Rightarrow> (s, ())
      | m # rest \<Rightarrow>
          (if ts_waiting s \<noteq> None \<or> ar_ending (ts_agent s) \<noteq> None then s
           else agent_acts lib sent now (From_Server (Some m)) (s\<lparr>ts_to_agent := rest\<rparr>), ()))"
| "term_step lib s (Server_Waits sent now ev) =
     (case ev of
        Browser_Frame (Frame _) \<Rightarrow>
          (case ts_from_browser s of
             m # rest \<Rightarrow>
               (if ts_waiting s = None then s
                else server_waits lib sent now (Browser_Frame (Frame m)) (s\<lparr>ts_from_browser := rest\<rparr>), ())
           | [] \<Rightarrow> (s, ()))
      | _ \<Rightarrow> (server_waits lib sent now ev s, ()))"
| "term_step lib s (Server_Reads_Browser sent now) =
     (case ts_from_browser s of
        [] \<Rightarrow> (s, ())
      | m # rest \<Rightarrow>
          (if ts_waiting s \<noteq> None \<or> sv_end (ts_server s) \<noteq> None then s
           else server_acts (\<lambda>sv. server_up (upstream lib sent now (Frame m) sv)) (s\<lparr>ts_from_browser := rest\<rparr>), ()))"
| "term_step lib s (Server_Reads_Agent sent) =
     (case ts_to_server s of
        [] \<Rightarrow> (s, ())
      | m # rest \<Rightarrow>
          (if ts_waiting s \<noteq> None \<or> sv_end (ts_server s) \<noteq> None then s
           else server_acts (\<lambda>sv. server_down (downstream lib sent (Frame m) sv)) (s\<lparr>ts_to_server := rest\<rparr>), ()))"
| "term_step lib s (Server_Loses_Browser f) =
     (case f of
        Frame _ \<Rightarrow> (s, ())
      | _ \<Rightarrow> (server_acts (\<lambda>sv. server_up (upstream lib True 0 f sv)) s, ()))"
| "term_step lib s (Server_Loses_Agent f) =
     (case f of
        Frame _ \<Rightarrow> (s, ())
      | _ \<Rightarrow> (server_acts (\<lambda>sv. server_down (downstream lib True f sv)) s, ()))"
| "term_step lib s (Server_Pings up sent) =
     (server_acts (\<lambda>sv. if up then server_up (upstream_ping sent sv) else server_down (downstream_ping sent sv)) s, ())"
| "term_step lib s (Server_Idle_Timer idle now) = (server_acts (\<lambda>sv. (idle_timer idle now sv, [], [])) s, ())"
| "term_step lib s (Server_Checks_Access found) = (server_acts (\<lambda>sv. (access_check found sv, [], [])) s, ())"
| "term_step lib s Browser_Reads =
     (case ts_to_browser s of
        [] \<Rightarrow> (s, ())
      | m # rest \<Rightarrow> (s\<lparr>ts_to_browser := rest, ts_drawn := ts_drawn s @ [m]\<rparr>, ()))"
| "term_step lib s (Browser_Sends m) =
     (s\<lparr>ts_from_browser := ts_from_browser s @ [m], ts_browser_sent := ts_browser_sent s @ [m]\<rparr>, ())"

text \<open>The Agent reads messages only through \<open>Agent_Reads\<close>; its socket may be lost at any time.\<close>

fun term_event_ok :: "term_event \<Rightarrow> bool" where
  "term_event_ok (Agent_Does _ _ ev) \<longleftrightarrow> event_ok ev \<and> event_messages ev = []"
| "term_event_ok _ \<longleftrightarrow> True"

section \<open>The invariant\<close>

text \<open>Acknowledgements travel from the browser through the server, never backwards and never past what was relayed.\<close>

definition acks_ok :: "terminal_lib \<Rightarrow> term_system \<Rightarrow> bool" where
  "acks_ok lib s \<longleftrightarrow>
     (let w = ar_window (ts_agent s); sv = ts_server s; ns = acks lib (ts_to_agent s) in
      sorted (w_acknowledged w # ns) \<and> last (w_acknowledged w # ns) \<le> sv_acknowledged sv
      \<and> (sv_end sv = None \<longrightarrow> last (w_acknowledged w # ns) = sv_acknowledged sv)
      \<and> sv_acknowledged sv \<le> sv_relayed sv
      \<and> set (w_acknowledged w # ns) \<subseteq> insert 0 (set (acks lib (ts_browser_sent s)))
      \<and> set (acks lib (ts_from_browser s)) \<subseteq> set (acks lib (ts_browser_sent s)))"

definition counts_ok :: "term_system \<Rightarrow> bool" where
  "counts_ok s \<longleftrightarrow>
     (let sent = w_sent (ar_window (ts_agent s)); n = sv_relayed (ts_server s) + length (concat (payloads (ts_to_server s))) in
      n \<le> sent \<and> (ar_ending (ts_agent s) = None \<longrightarrow> n = sent))"

definition output_ok :: "term_system \<Rightarrow> bool" where
  "output_ok s \<longleftrightarrow>
     (let seen = concat (payloads (ts_drawn s)) @ concat (payloads (ts_to_browser s)) in
      prefix seen (ts_output s)
      \<and> (sv_end (ts_server s) = None \<longrightarrow> seen @ concat (payloads (ts_to_server s)) = ts_output s))"

definition input_ok :: "term_system \<Rightarrow> bool" where
  "input_ok s \<longleftrightarrow>
     subseq (ts_shell_input s @ ar_pending (ts_agent s) @ payloads (ts_to_agent s) @ payloads (ts_from_browser s))
       (payloads (ts_browser_sent s))"

definition waiting_ok :: "term_system \<Rightarrow> bool" where
  "waiting_ok s \<longleftrightarrow>
     (case ts_waiting s of
        None \<Rightarrow> True
      | Some c \<Rightarrow> case c of None \<Rightarrow> True | Some c \<Rightarrow> case c of Ack _ \<Rightarrow> False | Resize _ _ \<Rightarrow> True)"

definition term_ok :: "terminal_lib \<Rightarrow> term_system \<Rightarrow> bool" where
  "term_ok lib s \<longleftrightarrow> window_ok (ar_window (ts_agent s)) \<and> pending_ok (ts_agent s)
     \<and> acks_ok lib s \<and> counts_ok s \<and> output_ok s \<and> input_ok s \<and> waiting_ok s"

lemma term_start_ok: "term_ok lib (term_start lib now account shell)"
  by (simp add: term_ok_def term_start_def relay_start_def server_start_def window_ok_def pending_ok_def
      acks_ok_def counts_ok_def output_ok_def input_ok_def waiting_ok_def TERMINAL_WINDOW_BYTES_def)

section \<open>Every part keeps it\<close>

lemma close_frames [simp]:
  "payload (close_browser e) = []" "message_acks lib (close_browser e) = []"
  "payloads (close_agent e) = []" "acks lib (close_agent e) = []"
  by (simp_all add: close_browser_def close_agent_def)

lemma closes_ok: "term_ok lib (server_closes s) \<longleftrightarrow> term_ok lib s"
  by (cases "sv_end (ts_server s)")
    (simp_all add: server_closes_def term_ok_def acks_ok_def counts_ok_def output_ok_def input_ok_def waiting_ok_def Let_def)

lemma sorted_snoc: "sorted (xs @ [n]) \<longleftrightarrow> sorted xs \<and> (xs = [] \<or> last xs \<le> (n::nat))"
  by (induction xs rule: rev_induct) (auto simp: sorted_append)

lemma message_acks_cases: obtains "message_acks lib m = []" | n where "message_acks lib m = [n]"
proof (cases m)
  case (Text t)
  then have "message_acks lib m = [] \<or> (\<exists>n. message_acks lib m = [n])"
    by (auto split: option.split terminal_control.split)
  then show ?thesis using that by blast
qed (use that in auto)

lemma subseq_mid: "subseq b b' \<Longrightarrow> subseq (a @ b' @ c) d \<Longrightarrow> subseq (a @ b @ c) d"
  by (rule subseq_order.order_trans [rotated]) (auto intro!: list_emb_append_mono)

lemma event_acks_cases: obtains "acks lib (event_messages ev) = []" | n where "acks lib (event_messages ev) = [n]"
proof (cases "event_messages ev")
  case Nil
  then show ?thesis using that by simp
next
  case (Cons m ms)
  then have "event_messages ev = [m]" by (cases ev rule: event_messages.cases) auto
  then show ?thesis using that message_acks_cases [of lib m] by auto
qed

lemma agent_acks_ok:
  assumes "acks_ok lib (s\<lparr>ts_to_agent := event_messages ev @ rest\<rparr>)" "counts_ok s"
    and "relay_effect lib (event_messages ev) (ts_agent s) (r, as)"
  shows "acks_ok lib (s\<lparr>ts_agent := r, ts_to_agent := rest, ts_to_server := a, ts_output := b, ts_shell_input := c\<rparr>)"
proof -
  let ?w = "w_acknowledged (ar_window (ts_agent s))"
  have le: "sv_relayed (ts_server s) \<le> w_sent (ar_window (ts_agent s))"
    using assms(2) by (simp add: counts_ok_def Let_def)
  have w: "w_acknowledged (ar_window r) =
      foldl (\<lambda>a n. if n < a \<or> w_sent (ar_window (ts_agent s)) < n then a else n) ?w (acks lib (event_messages ev))"
    using assms(3) by (simp add: relay_effect_def Let_def)
  show ?thesis
  proof (cases rule: event_acks_cases [of lib ev])
    case 1
    then show ?thesis using assms(1) w by (auto simp: acks_ok_def Let_def)
  next
    case (2 n)
    have "?w \<le> n" "n \<le> sv_relayed (ts_server s)"
      using assms(1) 2 by (auto simp: acks_ok_def Let_def split: if_splits)
        (metis last_in_set list.set_intros(1) order_trans)+
    then have "w_acknowledged (ar_window r) = n" using w 2 le by simp
    then show ?thesis using assms(1) 2 by (auto simp: acks_ok_def Let_def)
  qed
qed

lemma agent_acts_ok:
  assumes ok: "term_ok lib (s\<lparr>ts_to_agent := event_messages ev @ rest\<rparr>)" and "event_ok ev"
    and "ts_waiting s = None" "ar_ending (ts_agent s) = None"
  shows "term_ok lib (agent_acts lib sent now ev (s\<lparr>ts_to_agent := rest\<rparr>))"
proof -
  obtain r as where step: "agent_step lib sent now ev (ts_agent s) = (r, as)" by fastforce
  have pre: "window_ok (ar_window (ts_agent s))" "pending_ok (ts_agent s)" "counts_ok s"
      "acks_ok lib (s\<lparr>ts_to_agent := event_messages ev @ rest\<rparr>)"
    using ok by (simp_all add: term_ok_def counts_ok_def)
  have eff: "relay_effect lib (event_messages ev) (ts_agent s) (r, as)"
    using agent_step_effect [OF pre(1,2) assms(2,4), of lib sent now] step by simp
  let ?s = "s\<lparr>ts_to_agent := rest, ts_agent := r, ts_to_server := ts_to_server s @ relay_sends as,
      ts_output := ts_output s @ concat (payloads (relay_sends as)), ts_shell_input := ts_shell_input s @ inputs as\<rparr>"
  have "agent_acts lib sent now ev (s\<lparr>ts_to_agent := rest\<rparr>) = ?s"
    using step assms(3,4) by (simp add: agent_acts_def)
  moreover have "acks_ok lib ?s" using agent_acks_ok [OF pre(4,3) eff] by (simp add: acks_ok_def)
  moreover have "window_ok (ar_window r)" "pending_ok r" using eff by (simp_all add: relay_effect_def Let_def)
  moreover have "counts_ok ?s" using eff pre(3) assms(4) by (auto simp: relay_effect_def counts_ok_def Let_def)
  moreover have "output_ok ?s" using ok by (auto simp: term_ok_def output_ok_def Let_def prefix_def)
  moreover have "input_ok ?s"
  proof -
    have "subseq (inputs as @ ar_pending r) (ar_pending (ts_agent s) @ payloads (event_messages ev))"
      using eff by (simp add: relay_effect_def Let_def)
    then show ?thesis using ok subseq_mid [of "inputs as @ ar_pending r" "ar_pending (ts_agent s) @ payloads (event_messages ev)"
        "ts_shell_input s" "payloads rest @ payloads (ts_from_browser s)"] by (simp add: term_ok_def input_ok_def)
  qed
  moreover have "waiting_ok ?s" using ok by (simp add: term_ok_def waiting_ok_def)
  ultimately show ?thesis by (simp add: term_ok_def)
qed

lemma up_ok:
  assumes ok: "term_ok lib (s\<lparr>ts_from_browser := ms @ rest\<rparr>)" and eff: "upstream_effect lib ms (ts_server s) (sv, out)"
    and "sv_end (ts_server s) = None"
  shows "term_ok lib (s\<lparr>ts_from_browser := rest, ts_server := sv, ts_to_agent := ts_to_agent s @ out\<rparr>)"
proof -
  let ?s = "s\<lparr>ts_from_browser := rest, ts_server := sv, ts_to_agent := ts_to_agent s @ out\<rparr>"
  have "acks_ok lib ?s"
  proof -
    let ?a = "w_acknowledged (ar_window (ts_agent s))" and ?ns = "acks lib (ts_to_agent s)"
    have old: "sorted (?a # ?ns)" "last (?a # ?ns) = sv_acknowledged (ts_server s)"
        "set (?a # ?ns) \<subseteq> insert 0 (set (acks lib (ts_browser_sent s)))"
        "set (acks lib (ms @ rest)) \<subseteq> set (acks lib (ts_browser_sent s))"
      using ok assms(3) by (simp_all add: term_ok_def acks_ok_def Let_def)
    have new: "sv_relayed sv = sv_relayed (ts_server s)" "sv_acknowledged (ts_server s) \<le> sv_acknowledged sv"
        "sv_acknowledged sv \<le> sv_relayed sv" "set (acks lib out) \<subseteq> set (acks lib ms)"
        "acks lib out = [] \<and> (sv_end sv = None \<longrightarrow> sv_acknowledged sv = sv_acknowledged (ts_server s)) \<or> acks lib out = [sv_acknowledged sv]"
      using eff by (simp_all add: upstream_effect_def Let_def)
    from new(5) show ?thesis
    proof
      assume "acks lib out = [sv_acknowledged sv]"
      moreover from this have "sorted ((?a # ?ns) @ [sv_acknowledged sv])" using old(1,2) new(2) unfolding sorted_snoc by simp
      ultimately show ?thesis using old(3,4) new(1,3,4) by (auto simp: acks_ok_def Let_def)
    qed (use old new in \<open>auto simp: acks_ok_def Let_def\<close>)
  qed
  moreover have "counts_ok ?s" using ok eff by (auto simp: term_ok_def counts_ok_def upstream_effect_def Let_def)
  moreover have "output_ok ?s" using ok assms(3) by (auto simp: term_ok_def output_ok_def Let_def)
  moreover have "input_ok ?s"
  proof -
    have "subseq (payloads out) (payloads ms)" using eff by (simp add: upstream_effect_def Let_def)
    then show ?thesis using ok subseq_mid [of "payloads out" "payloads ms"
        "ts_shell_input s @ ar_pending (ts_agent s) @ payloads (ts_to_agent s)" "payloads rest"]
      by (simp add: term_ok_def input_ok_def)
  qed
  ultimately show ?thesis using ok by (simp add: term_ok_def waiting_ok_def)
qed

lemma down_ok:
  assumes ok: "term_ok lib (s\<lparr>ts_to_server := ms @ rest\<rparr>)" and eff: "downstream_effect ms (ts_server s) (sv, out)"
    and "sv_end (ts_server s) = None"
  shows "term_ok lib (s\<lparr>ts_to_server := rest, ts_server := sv, ts_to_browser := ts_to_browser s @ out\<rparr>)"
proof -
  let ?s = "s\<lparr>ts_to_server := rest, ts_server := sv, ts_to_browser := ts_to_browser s @ out\<rparr>"
  have "acks_ok lib ?s" using ok eff assms(3) by (auto simp: term_ok_def acks_ok_def downstream_effect_def Let_def)
  moreover have "counts_ok ?s" using ok eff by (auto simp: term_ok_def counts_ok_def downstream_effect_def Let_def)
  moreover have "output_ok ?s"
    using ok eff assms(3) by (auto simp: term_ok_def output_ok_def downstream_effect_def Let_def prefix_def)
  ultimately show ?thesis using ok by (simp add: term_ok_def input_ok_def waiting_ok_def)
qed

lemma server_acts_eq:
  "ts_waiting s = None \<Longrightarrow> sv_end (ts_server s) = None \<Longrightarrow> f (ts_server s) = (sv, a, b)
   \<Longrightarrow> server_acts f s = server_closes (s\<lparr>ts_server := sv, ts_to_agent := ts_to_agent s @ a, ts_to_browser := ts_to_browser s @ b\<rparr>)"
  by (simp add: server_acts_def)

lemma server_acts_up:
  assumes "term_ok lib (s\<lparr>ts_from_browser := ms @ rest\<rparr>)" "upstream_effect lib ms (ts_server s) (f (ts_server s))"
    and "ts_waiting s = None" "sv_end (ts_server s) = None"
  shows "term_ok lib (server_acts (\<lambda>sv. server_up (f sv)) (s\<lparr>ts_from_browser := rest\<rparr>))"
proof -
  obtain sv out where f: "f (ts_server s) = (sv, out)" by fastforce
  then have "term_ok lib (s\<lparr>ts_from_browser := rest, ts_server := sv, ts_to_agent := ts_to_agent s @ out\<rparr>)"
    using up_ok [OF assms(1) _ assms(4)] assms(2) by simp
  then show ?thesis using assms(3,4) f by (simp add: server_acts_def server_up_def closes_ok)
qed

lemma server_acts_down:
  assumes "term_ok lib (s\<lparr>ts_to_server := ms @ rest\<rparr>)" "downstream_effect ms (ts_server s) (f (ts_server s))"
    and "ts_waiting s = None" "sv_end (ts_server s) = None"
  shows "term_ok lib (server_acts (\<lambda>sv. server_down (f sv)) (s\<lparr>ts_to_server := rest\<rparr>))"
proof -
  obtain sv out where f: "f (ts_server s) = (sv, out)" by fastforce
  then have "term_ok lib (s\<lparr>ts_to_server := rest, ts_server := sv, ts_to_browser := ts_to_browser s @ out\<rparr>)"
    using down_ok [OF assms(1) _ assms(4)] assms(2) by simp
  then show ?thesis using assms(3,4) f by (simp add: server_acts_def server_down_def closes_ok)
qed

lemma server_idle: "ts_waiting s \<noteq> None \<or> sv_end (ts_server s) \<noteq> None \<Longrightarrow> server_acts f s = s"
  by (simp add: server_acts_def)

text \<open>A step of the server that reads nothing: the two timers, the pings and a lost socket.\<close>

lemma server_acts_quiet:
  assumes "term_ok lib s" "\<And>sv. sv_acknowledged sv \<le> sv_relayed sv \<Longrightarrow> upstream_effect lib [] sv (f sv)"
  shows "term_ok lib (server_acts (\<lambda>sv. server_up (f sv)) s)"
proof (cases "ts_waiting s \<noteq> None \<or> sv_end (ts_server s) \<noteq> None")
  case True
  then show ?thesis using assms(1) server_idle [OF True] by simp
next
  case False
  moreover have "sv_acknowledged (ts_server s) \<le> sv_relayed (ts_server s)"
    using assms(1) by (simp add: term_ok_def acks_ok_def Let_def)
  ultimately show ?thesis using server_acts_up [where s = s and ms = "[]" and rest = "ts_from_browser s" and f = f] assms by simp
qed

lemma server_acts_quiet_down:
  assumes "term_ok lib s" "\<And>sv. downstream_effect [] sv (f sv)"
  shows "term_ok lib (server_acts (\<lambda>sv. server_down (f sv)) s)"
proof (cases "ts_waiting s \<noteq> None \<or> sv_end (ts_server s) \<noteq> None")
  case True
  then show ?thesis using assms(1) server_idle [OF True] by simp
next
  case False
  then show ?thesis using server_acts_down [where s = s and ms = "[]" and rest = "ts_to_server s" and f = f] assms by simp
qed

lemma quiet_steps:
  "sv_acknowledged sv \<le> sv_relayed sv \<Longrightarrow> upstream_effect lib [] sv (upstream_ping sent sv)"
  "sv_acknowledged sv \<le> sv_relayed sv \<Longrightarrow> upstream_effect lib [] sv (idle_timer idle now sv, [])"
  "sv_acknowledged sv \<le> sv_relayed sv \<Longrightarrow> upstream_effect lib [] sv (access_check found sv, [])"
  "sv_acknowledged sv \<le> sv_relayed sv \<Longrightarrow> \<forall>m. f \<noteq> Frame m \<Longrightarrow> upstream_effect lib [] sv (upstream lib True 0 f sv)"
  "downstream_effect [] sv (downstream_ping sent sv)"
  "\<forall>m. f \<noteq> Frame m \<Longrightarrow> downstream_effect [] sv (downstream lib True f sv)"
  by (cases f; simp add: upstream_effect_def upstream_ping_def forward_def idle_timer_def access_check_def upstream_def
      downstream_effect_def downstream_ping_def downstream_def Let_def split: sign_in.split)+

text \<open>Waiting for the Agent passes on nothing but a size.\<close>

lemma wait_resize:
  assumes "terminal_lib_ok lib" "case c of Some (Ack _) \<Rightarrow> False | _ \<Rightarrow> True"
  shows "case wait_for_agent lib c ev of
      Still_Waiting c \<Rightarrow> (case c of Some (Ack _) \<Rightarrow> False | _ \<Rightarrow> True)
    | Relay c \<Rightarrow> acks lib (case c of None \<Rightarrow> [] | Some c \<Rightarrow> [Text (control_json lib c)]) = []
    | Gave_Up _ \<Rightarrow> True"
proof -
  have relay: "acks lib (case c of None \<Rightarrow> [] | Some c \<Rightarrow> [Text (control_json lib c)]) = []"
    using assms by (auto simp: terminal_lib_ok_def split: option.splits terminal_control.splits)
  show ?thesis
  proof (cases ev)
    case (Browser_Frame f)
    show ?thesis
    proof (cases f)
      case (Frame m)
      then show ?thesis using assms(2) Browser_Frame
        by (cases m) (simp_all add: wait_for_agent_def split: option.split terminal_control.split)
    qed (simp_all add: wait_for_agent_def Browser_Frame)
  qed (use relay in \<open>simp_all add: wait_for_agent_def\<close>)
qed

lemma drop_from_browser: "term_ok lib s \<Longrightarrow> ts_from_browser s = ms @ rest \<Longrightarrow> term_ok lib (s\<lparr>ts_from_browser := rest\<rparr>)"
  using subseq_mid [of "[]" "payloads ms" "ts_shell_input s @ ar_pending (ts_agent s) @ payloads (ts_to_agent s)" "payloads rest"]
  by (auto simp: term_ok_def acks_ok_def counts_ok_def output_ok_def input_ok_def waiting_ok_def Let_def)

lemma start_relay_ok:
  assumes "term_ok lib s" "acks lib (case d of None \<Rightarrow> [] | Some c \<Rightarrow> [Text (control_json lib c)]) = []" "sv_end (ts_server s) = None"
  shows "term_ok lib (start_relay lib sent now d s)"
proof -
  note parts = term_ok_def acks_ok_def counts_ok_def output_ok_def input_ok_def waiting_ok_def Let_def
  define u where "u = s\<lparr>ts_waiting := None, ts_server := (ts_server s)\<lparr>sv_started := now\<rparr>\<rparr>"
  have u: "term_ok lib u" "sv_end (ts_server u) = None" using assms(1,3) by (simp_all add: parts u_def)
  show ?thesis
  proof (cases d)
    case (Some c)
    have "term_ok lib (u\<lparr>ts_to_agent := ts_to_agent u @ [Text (control_json lib c)]\<rparr>)"
      using u assms(2) Some by (simp add: parts)
    moreover have "term_ok lib (u\<lparr>ts_server := (ts_server u)\<lparr>sv_end := Some DeviceDisconnected\<rparr>\<rparr>)"
      using u by (simp add: parts)
    moreover have "start_relay lib sent now d s =
        (if sent then u\<lparr>ts_to_agent := ts_to_agent u @ [Text (control_json lib c)]\<rparr>
         else server_closes (u\<lparr>ts_server := (ts_server u)\<lparr>sv_end := Some DeviceDisconnected\<rparr>\<rparr>))"
      by (simp add: start_relay_def Some u_def Let_def)
    ultimately show ?thesis by (simp add: closes_ok)
  qed (use u in \<open>simp add: start_relay_def u_def Let_def\<close>)
qed

lemma server_waits_ok:
  assumes "term_ok lib s" "terminal_lib_ok lib"
  shows "term_ok lib (server_waits lib sent now ev s)"
proof (cases "ts_waiting s")
  case None
  then show ?thesis using assms(1) by (simp add: server_waits_def)
next
  case (Some c)
  have "case c of Some (Ack _) \<Rightarrow> False | _ \<Rightarrow> True"
    using assms(1) Some by (auto simp: term_ok_def waiting_ok_def split: option.splits terminal_control.splits)
  note w = wait_resize [OF assms(2) this, of ev]
  note parts = term_ok_def acks_ok_def counts_ok_def output_ok_def input_ok_def waiting_ok_def Let_def
  show ?thesis
  proof (cases "sv_end (ts_server s)")
    case running: None
    show ?thesis
    proof (cases "wait_for_agent lib c ev")
      case (Relay d)
      then show ?thesis using Some running start_relay_ok [OF assms(1) _ running, of d] w by (simp add: server_waits_def)
    next
      case (Still_Waiting d)
      then show ?thesis using assms(1) Some running w
        by (simp add: server_waits_def parts split: option.splits terminal_control.splits)
    next
      case (Gave_Up e)
      have "term_ok lib (s\<lparr>ts_server := (ts_server s)\<lparr>sv_end := Some e\<rparr>, ts_to_browser := ts_to_browser s @ ms\<rparr>)"
        if "payloads ms = []" for ms using assms(1) that running by (simp add: parts)
      then show ?thesis using Some running Gave_Up by (simp add: server_waits_def)
    qed
  qed (use assms(1) Some in \<open>simp add: server_waits_def\<close>)
qed

lemma agent_idle: "ts_waiting s \<noteq> None \<or> ar_ending (ts_agent s) \<noteq> None \<Longrightarrow> agent_acts lib sent now ev s = s"
  by (simp add: agent_acts_def)

lemma agent_reads_ok:
  assumes "term_ok lib s"
  shows "term_ok lib (fst (term_step lib s (Agent_Reads sent now)))"
proof (cases "ts_to_agent s")
  case (Cons m rest)
  then have eq: "s\<lparr>ts_to_agent := m # rest\<rparr> = s" by simp
  have "term_ok lib (s\<lparr>ts_to_agent := m # rest\<rparr>)" unfolding eq by (rule assms)
  then show ?thesis using assms Cons agent_acts_ok [where s = s and ev = "From_Server (Some m)" and rest = rest] by simp
qed (use assms in simp)

lemma agent_does_ok:
  assumes "term_ok lib s" "event_ok ev" "event_messages ev = []"
  shows "term_ok lib (agent_acts lib sent now ev s)"
proof (cases "ts_waiting s \<noteq> None \<or> ar_ending (ts_agent s) \<noteq> None")
  case True
  then show ?thesis using assms(1) agent_idle [OF True] by simp
next
  case False
  then show ?thesis using assms agent_acts_ok [where s = s and ev = ev and rest = "ts_to_agent s"] by simp
qed

lemma server_reads_browser_ok:
  assumes "term_ok lib s" "terminal_lib_ok lib"
  shows "term_ok lib (fst (term_step lib s (Server_Reads_Browser sent now)))"
proof (cases "ts_from_browser s")
  case (Cons m rest)
  then have eq: "s\<lparr>ts_from_browser := m # rest\<rparr> = s" by simp
  have "term_ok lib (s\<lparr>ts_from_browser := m # rest\<rparr>)" unfolding eq by (rule assms(1))
  moreover have "sv_acknowledged (ts_server s) \<le> sv_relayed (ts_server s)"
    using assms(1) by (simp add: term_ok_def acks_ok_def Let_def)
  ultimately show ?thesis
    using assms Cons server_acts_up [where s = s and ms = "[m]" and rest = rest and f = "upstream lib sent now (Frame m)"]
      upstream_keeps [OF assms(2)] by simp
qed (use assms in simp)

lemma server_reads_agent_ok:
  assumes "term_ok lib s"
  shows "term_ok lib (fst (term_step lib s (Server_Reads_Agent sent)))"
proof (cases "ts_to_server s")
  case (Cons m rest)
  then have eq: "s\<lparr>ts_to_server := m # rest\<rparr> = s" by simp
  have "term_ok lib (s\<lparr>ts_to_server := m # rest\<rparr>)" unfolding eq by (rule assms)
  then show ?thesis
    using assms Cons server_acts_down [where s = s and ms = "[m]" and rest = rest and f = "downstream lib sent (Frame m)"]
      downstream_keeps by simp
qed (use assms in simp)

lemma browser_ok:
  assumes "term_ok lib s"
  shows "term_ok lib (fst (term_step lib s Browser_Reads))" "term_ok lib (fst (term_step lib s (Browser_Sends m)))"
proof -
  have "subseq (ts_shell_input s @ ar_pending (ts_agent s) @ payloads (ts_to_agent s) @ payloads (ts_from_browser s) @ payload m)
      (payloads (ts_browser_sent s) @ payload m)"
    using assms list_emb_append_mono [of "(=)" "ts_shell_input s @ ar_pending (ts_agent s) @ payloads (ts_to_agent s) @ payloads (ts_from_browser s)"
        "payloads (ts_browser_sent s)" "payload m" "payload m"] by (simp add: term_ok_def input_ok_def)
  then show "term_ok lib (fst (term_step lib s (Browser_Sends m)))"
    using assms by (auto simp: term_ok_def acks_ok_def counts_ok_def output_ok_def input_ok_def waiting_ok_def Let_def)
  show "term_ok lib (fst (term_step lib s Browser_Reads))"
    using assms by (cases "ts_to_browser s")
      (simp_all add: term_ok_def acks_ok_def counts_ok_def output_ok_def input_ok_def waiting_ok_def Let_def)
qed

lemma server_waits_step_ok:
  assumes "term_ok lib s" "terminal_lib_ok lib"
  shows "term_ok lib (fst (term_step lib s (Server_Waits sent now ev)))"
proof (cases "\<exists>m. ev = Browser_Frame (Frame m)")
  case True
  then obtain m where ev: "ev = Browser_Frame (Frame m)" by blast
  show ?thesis
  proof (cases "ts_from_browser s")
    case (Cons n rest)
    then show ?thesis using ev assms server_waits_ok [OF drop_from_browser [OF assms(1), of "[n]" rest] assms(2)] by simp
  qed (use ev assms(1) in simp)
next
  case False
  then have "fst (term_step lib s (Server_Waits sent now ev)) = server_waits lib sent now ev s"
    by (cases ev; cases "case ev of Browser_Frame f \<Rightarrow> f | _ \<Rightarrow> Silence") auto
  then show ?thesis using server_waits_ok [OF assms] by simp
qed

lemma server_loses_ok:
  assumes "term_ok lib s"
  shows "term_ok lib (fst (term_step lib s (Server_Loses_Browser f)))" "term_ok lib (fst (term_step lib s (Server_Loses_Agent f)))"
proof -
  show "term_ok lib (fst (term_step lib s (Server_Loses_Browser f)))"
    using assms server_acts_quiet [OF assms, of "\<lambda>sv. upstream lib True 0 f sv"] quiet_steps(4) [where f = f] by (cases f) simp_all
  show "term_ok lib (fst (term_step lib s (Server_Loses_Agent f)))"
    using assms server_acts_quiet_down [OF assms, of "\<lambda>sv. downstream lib True f sv"] quiet_steps(6) [where f = f] by (cases f) simp_all
qed

lemma server_timers_ok:
  assumes "term_ok lib s"
  shows "term_ok lib (fst (term_step lib s (Server_Pings up sent)))"
    "term_ok lib (fst (term_step lib s (Server_Idle_Timer idle now)))"
    "term_ok lib (fst (term_step lib s (Server_Checks_Access found)))"
proof -
  show "term_ok lib (fst (term_step lib s (Server_Pings up sent)))"
    using server_acts_quiet [OF assms, of "upstream_ping sent"] server_acts_quiet_down [OF assms, of "downstream_ping sent"]
      quiet_steps(1,5) by (cases up) simp_all
  have "server_up (idle_timer idle now sv, []) = (idle_timer idle now sv, [], [])"
      "server_up (access_check found sv, []) = (access_check found sv, [], [])" for sv by (simp_all add: server_up_def)
  then show "term_ok lib (fst (term_step lib s (Server_Idle_Timer idle now)))"
      "term_ok lib (fst (term_step lib s (Server_Checks_Access found)))"
    using server_acts_quiet [OF assms, of "\<lambda>sv. (idle_timer idle now sv, [])"]
      server_acts_quiet [OF assms, of "\<lambda>sv. (access_check found sv, [])"] quiet_steps(2,3) by simp_all
qed

interpretation terminal: step_system "term_step lib" "\<lambda>s. terminal_lib_ok lib \<and> term_ok lib s" "\<lambda>_ ev. term_event_ok ev" for lib
proof
  fix s ev
  assume "terminal_lib_ok lib \<and> term_ok lib s" "term_event_ok ev"
  then show "terminal_lib_ok lib \<and> term_ok lib (fst (term_step lib s ev))"
    by (cases ev) (simp_all only: agent_does_ok agent_reads_ok server_waits_step_ok server_reads_browser_ok server_reads_agent_ok
        server_loses_ok server_timers_ok browser_ok term_event_ok.simps term_step.simps(1) fst_conv simp_thms)
qed

lemma term_events_legal: "list_all term_event_ok evs \<Longrightarrow> terminal.legal_run lib s evs"
  by (induction evs arbitrary: s) simp_all

lemma term_run_ok:
  assumes "terminal_lib_ok lib" "list_all term_event_ok evs"
  shows "term_ok lib (fst (run (term_step lib) (term_start lib now account shell) evs))"
  using terminal.run_inv [OF _ term_events_legal [OF assms(2)], of lib "term_start lib now account shell"] assms(1) term_start_ok by simp

definition sample_lib :: terminal_lib where
  "sample_lib =
     \<lparr>control_json = (\<lambda>c. case c of Resize a b \<Rightarrow> [0, unat a, unat b] | Ack n \<Rightarrow> [1, n]),
      control_of_json = (\<lambda>t. case t of [k, a, b] \<Rightarrow> if k = 0 then Some (Resize (word_of_nat a) (word_of_nat b)) else None
                            | [k, n] \<Rightarrow> if k = 1 then Some (Ack n) else None | _ \<Rightarrow> None),
      event_json = (\<lambda>e. case e of Started a b \<Rightarrow> 0 # length a # a @ b | Failed m \<Rightarrow> 1 # m
                       | Exited code \<Rightarrow> (case code of None \<Rightarrow> [2] | Some i \<Rightarrow> [3, nat i, nat (- i)])),
      event_of_json = (\<lambda>t. case t of [] \<Rightarrow> None
                       | k # r \<Rightarrow> if k = 0 then (case r of [] \<Rightarrow> None | n # ab \<Rightarrow> Some (Started (take n ab) (drop n ab)))
                                 else if k = 1 then Some (Failed r)
                                 else if k = 2 then Some (Exited None)
                                 else (case r of [i, j] \<Rightarrow> Some (Exited (Some (int i - int j))) | _ \<Rightarrow> None))\<rparr>"

lemma sample_lib_ok: "terminal_lib_ok sample_lib"
  by (simp add: terminal_lib_ok_def sample_lib_def split: terminal_control.split terminal_event.split option.split)

definition sample_events :: "term_event list" where
  "sample_events =
     [Server_Waits True 0 (Agent_Socket True), Agent_Does True 0 (Shell_Output (Some [104, 105])), Server_Reads_Agent True,
      Server_Reads_Agent True, Browser_Reads, Browser_Reads, Browser_Sends (Text [1, 2]), Browser_Sends (Binary [108]),
      Server_Reads_Browser True 0, Server_Reads_Browser True 0, Agent_Reads True 0, Agent_Reads True 0,
      Agent_Does True 0 (Input_Permit True)]"

lemma sample_events_ok: "list_all term_event_ok sample_events"
  by (simp add: sample_events_def MAX_TERMINAL_OUTPUT_BYTES_def)

section \<open>What a terminal promises\<close>

text \<open>C9: Flow control holds end to end against any browser. Output sent but not acknowledged stays below the
  window plus one chunk, every acknowledgement the Agent counts was sent by the browser and covers only output
  the server has relayed, so less than that much output is ever on its way to the server; input waiting for
  the shell stays within its megabyte; and the terminal cannot stall: once everything sent has been relayed
  and acknowledged, the window is open.
\<close>

theorem terminal_flow_control:
  assumes "terminal_lib_ok lib" "list_all term_event_ok evs"
  shows "let s = fst (run (term_step lib) (term_start lib now account shell) evs);
             w = ar_window (ts_agent s); sv = ts_server s in
    w_acknowledged w \<le> w_sent w \<and> w_sent w - w_acknowledged w < TERMINAL_WINDOW_BYTES + MAX_TERMINAL_OUTPUT_BYTES
    \<and> (w_acknowledged w = 0 \<or> w_acknowledged w \<in> set (acks lib (ts_browser_sent s)))
    \<and> w_acknowledged w \<le> sv_relayed sv
    \<and> length (concat (payloads (ts_to_server s))) < TERMINAL_WINDOW_BYTES + MAX_TERMINAL_OUTPUT_BYTES
    \<and> length (concat (ar_pending (ts_agent s))) \<le> MAX_PENDING_INPUT_BYTES
    \<and> (sv_end sv = None \<and> ar_ending (ts_agent s) = None \<and> ts_to_server s = [] \<and> ts_to_agent s = []
       \<and> sv_acknowledged sv = sv_relayed sv \<longrightarrow> window_open w)"
proof -
  define s where "s = fst (run (term_step lib) (term_start lib now account shell) evs)"
  have ok: "term_ok lib s" unfolding s_def by (rule term_run_ok [OF assms])
  let ?w = "ar_window (ts_agent s)" and ?sv = "ts_server s"
  have win: "window_ok ?w" and pend: "pending_ok (ts_agent s)" and counts: "counts_ok s" and ak: "acks_ok lib s"
    using ok by (simp_all add: term_ok_def)
  have "w_acknowledged ?w \<le> last (w_acknowledged ?w # acks lib (ts_to_agent s))"
    using ak by (auto simp: acks_ok_def Let_def)
  then have le: "w_acknowledged ?w \<le> sv_relayed ?sv" using ak by (simp add: acks_ok_def Let_def)
  have transit: "length (concat (payloads (ts_to_server s))) \<le> w_sent ?w - w_acknowledged ?w"
    using counts le unfolding counts_ok_def Let_def by linarith
  have "window_open ?w" if "sv_end ?sv = None" "ar_ending (ts_agent s) = None" "ts_to_server s = []" "ts_to_agent s = []"
      "sv_acknowledged ?sv = sv_relayed ?sv"
    using that counts ak by (simp add: counts_ok_def acks_ok_def Let_def window_open_def TERMINAL_WINDOW_BYTES_def)
  then show ?thesis using win pend ak le transit unfolding s_def [symmetric] Let_def
    by (auto simp: window_ok_def pending_ok_def acks_ok_def Let_def)
qed

theorem terminal_flow_control_witness:
  "let s = fst (run (term_step sample_lib) (term_start sample_lib 0 [97] [98]) sample_events);
             w = ar_window (ts_agent s); sv = ts_server s in
    w_acknowledged w \<le> w_sent w \<and> w_sent w - w_acknowledged w < TERMINAL_WINDOW_BYTES + MAX_TERMINAL_OUTPUT_BYTES
    \<and> (w_acknowledged w = 0 \<or> w_acknowledged w \<in> set (acks sample_lib (ts_browser_sent s)))
    \<and> w_acknowledged w \<le> sv_relayed sv
    \<and> length (concat (payloads (ts_to_server s))) < TERMINAL_WINDOW_BYTES + MAX_TERMINAL_OUTPUT_BYTES
    \<and> length (concat (ar_pending (ts_agent s))) \<le> MAX_PENDING_INPUT_BYTES
    \<and> (sv_end sv = None \<and> ar_ending (ts_agent s) = None \<and> ts_to_server s = [] \<and> ts_to_agent s = []
       \<and> sv_acknowledged sv = sv_relayed sv \<longrightarrow> window_open w)"
  by (rule terminal_flow_control [OF sample_lib_ok sample_events_ok])



end
