(* ===== verification/Roles.thy ===== *)
theory Roles
  imports Rust_Strings "HOL-Library.List_Lexorder"
begin

text \<open>
  Permissions and the roles that grant them (\<open>server/src/rbac.rs\<close>), with the tables they are read from
  (\<open>server/migrations\<close>): a role is a set of permissions, the built-in Administrator role holds every
  permission, and a user holds the permissions of the roles assigned to them or to a group of the identity
  provider they belong to. Rows come from a table in an order of its own; \<open>ORDER BY\<close> sorts by the characters.
\<close>

section \<open>Permissions\<close>

definition ADMINISTRATOR_ROLE_ID :: rust_string where
  "ADMINISTRATOR_ROLE_ID = lit ''administrator''"

definition TECHNICIAN_ROLE_ID :: rust_string where
  "TECHNICIAN_ROLE_ID = lit ''technician''"

datatype permission =
    DevicesView | DevicesEdit | DevicesEnroll | DevicesDelete | DevicesRotateCredentials | DevicesWake
  | CompaniesManage | TagsManage | SessionsConnect | SessionsConnectBackground | SessionsCloseAny
  | TerminalConnect | TerminalConnectSystem | ScriptsRun | ScriptsManageShared | FilesDeliver
  | FilesManageShared | FilesBrowse | FilesManage | FilesSystem | JobsRunWide | AutomationManage | UpdatesView
  | UpdatesInstall | AlertsView | AlertsRespond | AlertsManage | UsersManage | RolesManage | SettingsManage
  | AuthenticationManage | ApiTokensManage | AuditView

definition Permission_ALL :: "permission list" where
  "Permission_ALL =
     [DevicesView, DevicesEdit, DevicesEnroll, DevicesDelete, DevicesRotateCredentials, DevicesWake,
      CompaniesManage, TagsManage, SessionsConnect, SessionsConnectBackground, SessionsCloseAny,
      TerminalConnect, TerminalConnectSystem, ScriptsRun, ScriptsManageShared, FilesDeliver, FilesManageShared,
      FilesBrowse, FilesManage, FilesSystem, JobsRunWide, AutomationManage, UpdatesView, UpdatesInstall,
      AlertsView, AlertsRespond, AlertsManage, UsersManage, RolesManage, SettingsManage, AuthenticationManage,
      ApiTokensManage, AuditView]"

fun permission_as_str :: "permission \<Rightarrow> rust_string" where
  "permission_as_str DevicesView = lit ''devices.view''"
| "permission_as_str DevicesEdit = lit ''devices.edit''"
| "permission_as_str DevicesEnroll = lit ''devices.enroll''"
| "permission_as_str DevicesDelete = lit ''devices.delete''"
| "permission_as_str DevicesRotateCredentials = lit ''devices.rotate_credentials''"
| "permission_as_str DevicesWake = lit ''devices.wake''"
| "permission_as_str CompaniesManage = lit ''companies.manage''"
| "permission_as_str TagsManage = lit ''tags.manage''"
| "permission_as_str SessionsConnect = lit ''sessions.connect''"
| "permission_as_str SessionsConnectBackground = lit ''sessions.connect_background''"
| "permission_as_str SessionsCloseAny = lit ''sessions.close_any''"
| "permission_as_str TerminalConnect = lit ''terminal.connect''"
| "permission_as_str TerminalConnectSystem = lit ''terminal.connect_system''"
| "permission_as_str ScriptsRun = lit ''scripts.run''"
| "permission_as_str ScriptsManageShared = lit ''scripts.manage_shared''"
| "permission_as_str FilesDeliver = lit ''files.deliver''"
| "permission_as_str FilesManageShared = lit ''files.manage_shared''"
| "permission_as_str FilesBrowse = lit ''files.browse''"
| "permission_as_str FilesManage = lit ''files.manage''"
| "permission_as_str FilesSystem = lit ''files.system''"
| "permission_as_str JobsRunWide = lit ''jobs.run_wide''"
| "permission_as_str AutomationManage = lit ''automation.manage''"
| "permission_as_str UpdatesView = lit ''updates.view''"
| "permission_as_str UpdatesInstall = lit ''updates.install''"
| "permission_as_str AlertsView = lit ''alerts.view''"
| "permission_as_str AlertsRespond = lit ''alerts.respond''"
| "permission_as_str AlertsManage = lit ''alerts.manage''"
| "permission_as_str UsersManage = lit ''users.manage''"
| "permission_as_str RolesManage = lit ''roles.manage''"
| "permission_as_str SettingsManage = lit ''settings.manage''"
| "permission_as_str AuthenticationManage = lit ''authentication.manage''"
| "permission_as_str ApiTokensManage = lit ''api_tokens.manage''"
| "permission_as_str AuditView = lit ''audit.view''"

definition permission_from_str :: "rust_string \<Rightarrow> permission option" where
  "permission_from_str name = find (\<lambda>p. permission_as_str p = name) Permission_ALL"

definition all_permissions :: "permission set" where
  "all_permissions = set Permission_ALL"

lemma in_Permission_ALL [simp]: "p \<in> set Permission_ALL"
  by (cases p) (simp_all add: Permission_ALL_def)

lemma all_permissions_UNIV [simp]: "all_permissions = UNIV"
  by (auto simp: all_permissions_def)

lemma distinct_permission_names: "distinct (map permission_as_str Permission_ALL)"
  by (simp add: Permission_ALL_def)

lemma inj_permission_as_str: "inj permission_as_str"
  using distinct_permission_names by (simp add: distinct_map inj_on_def)

lemma permission_names_round_trip [simp]: "permission_from_str (permission_as_str p) = Some p"
proof -
  have "\<exists>x \<in> set Permission_ALL. permission_as_str x = permission_as_str p" by auto
  then obtain q where "find (\<lambda>x. permission_as_str x = permission_as_str p) Permission_ALL = Some q"
    by (metis (mono_tags, lifting) find_None_iff option.exhaust)
  moreover from this have "permission_as_str q = permission_as_str p"
    by (metis (mono_tags, lifting) find_Some_iff)
  ultimately show ?thesis
    by (simp add: permission_from_str_def inj_eq [OF inj_permission_as_str])
qed

lemma permission_from_str_Some: "permission_from_str name = Some p \<longleftrightarrow> name = permission_as_str p"
proof
  assume "permission_from_str name = Some p"
  then show "name = permission_as_str p"
    unfolding permission_from_str_def find_Some_iff by auto
qed simp

section \<open>Roles and the tables they are read from\<close>

record access_role =
  ro_id :: rust_string
  ro_name :: rust_string
  ro_description :: rust_string
  ro_builtin :: "rust_string option"
  ro_permissions :: "permission set"

definition role_is_administrator :: "access_role \<Rightarrow> bool" where
  "role_is_administrator r \<longleftrightarrow> ro_builtin r = Some ADMINISTRATOR_ROLE_ID"

record role_row =
  rr_id :: rust_string
  rr_name :: rust_string
  rr_description :: rust_string
  rr_builtin :: "rust_string option"
  rr_updated_at :: int

text \<open>The tables \<open>roles\<close> and \<open>role_permissions\<close>, and the three ways a user comes to a role.\<close>

record scim_group =
  sg_id :: rust_string
  sg_display_name :: rust_string
  sg_external_id :: "rust_string option"
  sg_role_id :: "rust_string option"

record role_tables =
  rt_roles :: "role_row list"
  rt_role_permissions :: "(rust_string \<times> rust_string) list"
  rt_user_roles :: "(rust_string \<times> rust_string) list"
  rt_scim_groups :: "scim_group list"
  rt_scim_group_members :: "(rust_string \<times> rust_string) list"
  rt_oidc_group_roles :: "(rust_string \<times> rust_string) list"
  rt_user_oidc_groups :: "(rust_string \<times> rust_string) list"

definition role_permissions_of :: "(rust_string \<times> rust_string) list \<Rightarrow> role_row \<Rightarrow> permission set" where
  "role_permissions_of grants row =
     (if rr_builtin row = Some ADMINISTRATOR_ROLE_ID then all_permissions
      else set (List.map_filter (\<lambda>(role_id, name). if role_id = rr_id row then permission_from_str name else None)
                  grants))"

definition role_of_row :: "(rust_string \<times> rust_string) list \<Rightarrow> role_row \<Rightarrow> access_role" where
  "role_of_row grants row =
     \<lparr>ro_id = rr_id row, ro_name = rr_name row, ro_description = rr_description row, ro_builtin = rr_builtin row,
      ro_permissions = role_permissions_of grants row\<rparr>"

definition load_roles :: "'x role_tables_scheme \<Rightarrow> rust_string list option \<Rightarrow> access_role list" where
  "load_roles db ids =
     (let rows = sort_key rr_name
                   (case ids of None \<Rightarrow> rt_roles db | Some l \<Rightarrow> filter (\<lambda>r. rr_id r \<in> set l) (rt_roles db));
          grants = (case ids of None \<Rightarrow> rt_role_permissions db
                    | Some l \<Rightarrow> filter (\<lambda>g. fst g \<in> set l) (rt_role_permissions db)) in
      if ids = Some [] then [] else map (role_of_row grants) rows)"

text \<open>The view \<open>effective_user_roles\<close>: assigned roles, roles of SCIM groups and roles of SSO groups.\<close>

definition effective_user_roles :: "'x role_tables_scheme \<Rightarrow> (rust_string \<times> rust_string) list" where
  "effective_user_roles db =
     remdups (rt_user_roles db
       @ List.map_filter (\<lambda>((g, u), grp). if sg_id grp = g then map_option (Pair u) (sg_role_id grp) else None)
           (List.product (rt_scim_group_members db) (rt_scim_groups db))
       @ List.map_filter (\<lambda>((u, g), (g', r)). if g' = g then Some (u, r) else None)
           (List.product (rt_user_oidc_groups db) (rt_oidc_group_roles db)))"

definition user_roles :: "'x role_tables_scheme \<Rightarrow> rust_string \<Rightarrow> access_role list" where
  "user_roles db user_id =
     load_roles db (Some (map snd (filter (\<lambda>(u, _). u = user_id) (effective_user_roles db))))"

definition permissions_of :: "access_role list \<Rightarrow> permission set" where
  "permissions_of roles = (\<Union>r \<in> set roles. ro_permissions r)"

end
