(* ===== verification/Terminals.thy ===== *)
theory Terminals
  imports Terminal_Server Roles "HOL-Library.AList"
begin

text \<open>
  The terminals a server has open or is opening (\<open>server/src/terminals/mod.rs\<close>). A user's request reserves a
  place, the user's browser claims it, the device's Agent brings its socket to the waiting browser, and the
  place is given back when the browser's task ends. A \<open>oneshot\<close> channel is the number of the browser's claim; the
  lists of reservations and claims remember what the code does not.
\<close>

section \<open>State\<close>

record 'a requested =
  rq_id :: rust_string
  rq_device_id :: rust_string
  rq_user_id :: rust_string
  rq_actor :: 'a
  rq_shell :: terminal_shell
  rq_run_as :: run_as
  rq_columns :: u16
  rq_rows :: u16
  rq_notification :: "rust_string option"

datatype refusal = DeviceLimit | UserLimit

datatype 'a stage = Requested_Stage "'a requested" nanos | Connecting nat | Opened

record 'a entry =
  te_device_id :: rust_string
  te_user_id :: rust_string
  te_stage :: "'a stage"

record 'a terminals =
  tm_browser_connect :: nanos
  tm_open :: "(rust_string \<times> 'a entry) list"
  tm_reserved :: "'a requested list"
  tm_claims :: "(rust_string \<times> 'a requested) list"
  tm_agents :: "(nat \<times> rust_string) list"

definition MAX_TERMINALS_PER_DEVICE :: nat where
  "MAX_TERMINALS_PER_DEVICE = 5"

definition MAX_TERMINALS_PER_USER :: nat where
  "MAX_TERMINALS_PER_USER = 10"

definition permission_for :: "run_as \<Rightarrow> permission" where
  "permission_for r = (case r of User \<Rightarrow> TerminalConnect | System \<Rightarrow> TerminalConnectSystem)"

definition Terminals_new :: "nanos \<Rightarrow> 'a terminals" where
  "Terminals_new browser_connect =
     \<lparr>tm_browser_connect = browser_connect, tm_open = [], tm_reserved = [], tm_claims = [], tm_agents = []\<rparr>"

section \<open>Operations\<close>

definition entry_expired :: "nanos \<Rightarrow> 'a entry \<Rightarrow> bool" where
  "entry_expired now e = (case te_stage e of Requested_Stage _ expires_at \<Rightarrow> expires_at \<le> now | _ \<Rightarrow> False)"

definition count_entries :: "('a entry \<Rightarrow> bool) \<Rightarrow> (rust_string \<times> 'a entry) list \<Rightarrow> nat" where
  "count_entries P es = length (filter (\<lambda>(_, e). P e) es)"

definition reserve :: "'a terminals \<Rightarrow> nanos \<Rightarrow> 'a requested \<Rightarrow> 'a terminals \<times> (refusal + unit)" where
  "reserve st now rq =
     (let es = filter (\<lambda>(_, e). \<not> entry_expired now e) (tm_open st); st = st\<lparr>tm_open := es\<rparr> in
      if MAX_TERMINALS_PER_DEVICE \<le> count_entries (\<lambda>e. te_device_id e = rq_device_id rq) es then (st, Err DeviceLimit)
      else if MAX_TERMINALS_PER_USER \<le> count_entries (\<lambda>e. te_user_id e = rq_user_id rq) es then (st, Err UserLimit)
      else
        (st\<lparr>tm_open := AList.update (rq_id rq)
               \<lparr>te_device_id = rq_device_id rq, te_user_id = rq_user_id rq,
                te_stage = Requested_Stage rq (now + tm_browser_connect st)\<rparr> es,
            tm_reserved := tm_reserved st @ [rq]\<rparr>, Ok ()))"

definition claim_browser :: "'a terminals \<Rightarrow> nanos \<Rightarrow> rust_string \<Rightarrow> rust_string \<Rightarrow> 'a terminals \<times> ('a requested \<times> nat) option" where
  "claim_browser st now i user =
     (case map_of (tm_open st) i of
        None \<Rightarrow> (st, None)
      | Some e \<Rightarrow>
          if te_user_id e \<noteq> user then (st, None)
          else case te_stage e of
            Requested_Stage rq expires_at \<Rightarrow>
              if expires_at \<le> now then (st\<lparr>tm_open := AList.delete i (tm_open st)\<rparr>, None)
              else
                let n = length (tm_claims st) in
                (st\<lparr>tm_open := AList.update i (e\<lparr>te_stage := Connecting n\<rparr>) (tm_open st),
                    tm_claims := tm_claims st @ [(user, rq)]\<rparr>, Some (rq, n))
          | _ \<Rightarrow> (st, None))"

definition claim_agent :: "'a terminals \<Rightarrow> rust_string \<Rightarrow> rust_string \<Rightarrow> 'a terminals \<times> nat option" where
  "claim_agent st i device =
     (case map_of (tm_open st) i of
        None \<Rightarrow> (st, None)
      | Some e \<Rightarrow>
          if te_device_id e \<noteq> device then (st, None)
          else case te_stage e of
            Connecting n \<Rightarrow>
              (st\<lparr>tm_open := AList.update i (e\<lparr>te_stage := Opened\<rparr>) (tm_open st), tm_agents := tm_agents st @ [(n, device)]\<rparr>, Some n)
          | _ \<Rightarrow> (st, None))"

definition remove_terminal :: "'a terminals \<Rightarrow> rust_string \<Rightarrow> 'a terminals" where
  "remove_terminal st i = st\<lparr>tm_open := AList.delete i (tm_open st)\<rparr>"

definition count_on :: "'a terminals \<Rightarrow> rust_string \<Rightarrow> nat" where
  "count_on st device = count_entries (\<lambda>e. te_device_id e = device) (tm_open st)"

datatype 'a registry_event =
    Reserve nanos "'a requested"
  | Claim_Browser nanos rust_string rust_string
  | Claim_Agent rust_string rust_string
  | Remove rust_string

fun registry_step :: "'a terminals \<Rightarrow> 'a registry_event \<Rightarrow> 'a terminals \<times> unit" where
  "registry_step st (Reserve now rq) = (fst (reserve st now rq), ())"
| "registry_step st (Claim_Browser now i user) = (fst (claim_browser st now i user), ())"
| "registry_step st (Claim_Agent i device) = (fst (claim_agent st i device), ())"
| "registry_step st (Remove i) = (remove_terminal st i, ())"

section \<open>Counting entries\<close>

lemma count_filter: "count_entries P (filter Q es) \<le> count_entries P es"
  by (induction es) (auto simp: count_entries_def)

lemma count_update_new: "count_entries P (AList.update i e es) \<le> count_entries P es + (if P e then 1 else 0)"
  by (induction es) (auto simp: count_entries_def)

lemma count_update_same:
  "map_of es i = Some e \<Longrightarrow> P e = P e' \<Longrightarrow> distinct (map fst es) \<Longrightarrow> count_entries P (AList.update i e' es) = count_entries P es"
  by (induction es) (auto simp: count_entries_def)

lemma count_delete: "count_entries P (AList.delete i es) \<le> count_entries P es"
  unfolding AList.delete_eq by (rule count_filter)

section \<open>The invariant\<close>

fun entry_ok :: "'a terminals \<Rightarrow> rust_string \<times> 'a entry \<Rightarrow> bool" where
  "entry_ok st (i, e) \<longleftrightarrow>
     (case te_stage e of
        Requested_Stage rq _ \<Rightarrow>
          rq_id rq = i \<and> rq_device_id rq = te_device_id e \<and> rq_user_id rq = te_user_id e \<and> rq \<in> set (tm_reserved st)
      | Connecting n \<Rightarrow>
          n < length (tm_claims st) \<and> n \<notin> set (map fst (tm_agents st))
          \<and> rq_id (snd (tm_claims st ! n)) = i \<and> rq_device_id (snd (tm_claims st ! n)) = te_device_id e
      | Opened \<Rightarrow> True)"

definition limits_ok :: "(rust_string \<times> 'a entry) list \<Rightarrow> bool" where
  "limits_ok es \<longleftrightarrow> distinct (map fst es)
     \<and> (\<forall>d. count_entries (\<lambda>e. te_device_id e = d) es \<le> MAX_TERMINALS_PER_DEVICE)
     \<and> (\<forall>u. count_entries (\<lambda>e. te_user_id e = u) es \<le> MAX_TERMINALS_PER_USER)"

definition claims_ok :: "'a terminals \<Rightarrow> bool" where
  "claims_ok st \<longleftrightarrow>
     list_all (\<lambda>(user, rq). rq_user_id rq = user \<and> rq \<in> set (tm_reserved st)) (tm_claims st)
     \<and> distinct (map fst (tm_agents st))
     \<and> list_all (\<lambda>(n, device). n < length (tm_claims st) \<and> rq_device_id (snd (tm_claims st ! n)) = device) (tm_agents st)"

definition registry_ok :: "'a terminals \<Rightarrow> bool" where
  "registry_ok st \<longleftrightarrow> limits_ok (tm_open st) \<and> list_all (entry_ok st) (tm_open st) \<and> claims_ok st"

lemma limits_filter: "limits_ok es \<Longrightarrow> limits_ok (filter P es)"
  by (auto simp: limits_ok_def distinct_map_filter intro: order_trans [OF count_filter])

lemma limits_delete: "limits_ok es \<Longrightarrow> limits_ok (AList.delete i es)"
  unfolding AList.delete_eq by (rule limits_filter)

lemma limits_stage:
  "limits_ok es \<Longrightarrow> map_of es i = Some e \<Longrightarrow> limits_ok (AList.update i (e\<lparr>te_stage := t\<rparr>) es)"
  by (simp add: limits_ok_def distinct_update count_update_same)

lemma limits_new:
  assumes "limits_ok es" "count_entries (\<lambda>e'. te_device_id e' = te_device_id e) es < MAX_TERMINALS_PER_DEVICE"
    "count_entries (\<lambda>e'. te_user_id e' = te_user_id e) es < MAX_TERMINALS_PER_USER"
  shows "limits_ok (AList.update i e es)"
proof -
  have "count_entries (\<lambda>e'. te_device_id e' = d) (AList.update i e es) \<le> MAX_TERMINALS_PER_DEVICE" for d
    using count_update_new [of "\<lambda>e'. te_device_id e' = d" i e es] assms(1,2)
    by (cases "te_device_id e = d") (auto simp: limits_ok_def intro: order_trans)
  moreover have "count_entries (\<lambda>e'. te_user_id e' = u) (AList.update i e es) \<le> MAX_TERMINALS_PER_USER" for u
    using count_update_new [of "\<lambda>e'. te_user_id e' = u" i e es] assms(1,3)
    by (cases "te_user_id e = u") (auto simp: limits_ok_def intro: order_trans)
  ultimately show ?thesis using assms(1) by (simp add: limits_ok_def distinct_update)
qed

lemma entry_ok_reserved: "entry_ok st x \<Longrightarrow> entry_ok (st\<lparr>tm_open := es, tm_reserved := tm_reserved st @ rs\<rparr>) x"
  by (cases x) (auto split: stage.splits)

lemma entry_ok_claims: "entry_ok st x \<Longrightarrow> entry_ok (st\<lparr>tm_open := es, tm_claims := tm_claims st @ cs\<rparr>) x"
  by (cases x) (auto simp: nth_append split: stage.splits)

lemma entry_ok_agents:
  "entry_ok st x \<Longrightarrow> rq_id (snd (tm_claims st ! n)) \<noteq> fst x \<Longrightarrow> entry_ok (st\<lparr>tm_open := es, tm_agents := tm_agents st @ [(n, d)]\<rparr>) x"
  by (cases x) (auto split: stage.splits)

lemma entry_ok_open: "entry_ok (st\<lparr>tm_open := es\<rparr>) x \<longleftrightarrow> entry_ok st x"
  by (cases x) (simp split: stage.split)

text \<open>Changing one entry of a map with distinct keys.\<close>

lemma update_set: "distinct (map fst es) \<Longrightarrow> x \<in> set (AList.update i e es) \<Longrightarrow> x = (i, e) \<or> x \<in> set es \<and> fst x \<noteq> i"
  by (induction es) (force split: if_splits)+

lemma reserve_ok: "registry_ok st \<Longrightarrow> registry_ok (fst (reserve st now rq))"
proof -
  assume ok: "registry_ok st"
  define es where "es = filter (\<lambda>(_, e). \<not> entry_expired now e) (tm_open st)"
  define e where "e = \<lparr>te_device_id = rq_device_id rq, te_user_id = rq_user_id rq,
      te_stage = Requested_Stage rq (now + tm_browser_connect st)\<rparr>"
  have es: "limits_ok es" "list_all (entry_ok st) es" "claims_ok st"
    using ok by (auto simp: registry_ok_def es_def limits_filter list_all_iff)
  have old: "registry_ok (st\<lparr>tm_open := es\<rparr>)"
    using es by (simp add: registry_ok_def list_all_iff claims_ok_def entry_ok_open)
  have new: "registry_ok (st\<lparr>tm_open := AList.update (rq_id rq) e es, tm_reserved := tm_reserved st @ [rq]\<rparr>)"
    if "count_entries (\<lambda>e'. te_device_id e' = rq_device_id rq) es < MAX_TERMINALS_PER_DEVICE"
      "count_entries (\<lambda>e'. te_user_id e' = rq_user_id rq) es < MAX_TERMINALS_PER_USER"
  proof -
    have "limits_ok (AList.update (rq_id rq) e es)" using limits_new [OF es(1)] that by (simp add: e_def)
    moreover have "entry_ok (st\<lparr>tm_open := AList.update (rq_id rq) e es, tm_reserved := tm_reserved st @ [rq]\<rparr>) x"
      if "x \<in> set (AList.update (rq_id rq) e es)" for x
      using update_set [OF _ that] es(1,2) entry_ok_reserved [of st x] by (auto simp: limits_ok_def list_all_iff e_def)
    ultimately show ?thesis using es(3) by (auto simp: registry_ok_def claims_ok_def list_all_iff)
  qed
  show ?thesis using old new by (auto simp: reserve_def Let_def es_def [symmetric] e_def not_le)
qed

lemma delete_ok: "registry_ok st \<Longrightarrow> registry_ok (st\<lparr>tm_open := AList.delete i (tm_open st)\<rparr>)"
  by (auto simp: registry_ok_def limits_delete list_all_iff claims_ok_def entry_ok_open limits_filter AList.delete_eq)

lemma claim_browser_ok:
  assumes ok: "registry_ok st"
  shows "registry_ok (fst (claim_browser st now i user))"
proof -
  have "registry_ok (st\<lparr>tm_open := AList.update i (e\<lparr>te_stage := Connecting (length (tm_claims st))\<rparr>) (tm_open st),
      tm_claims := tm_claims st @ [(te_user_id e, rq)]\<rparr>)"
    if e: "map_of (tm_open st) i = Some e" "te_stage e = Requested_Stage rq t" for e rq t
  proof -
    have "(i, e) \<in> set (tm_open st)" using e(1) by (rule map_of_SomeD)
    then have here: "rq_id rq = i" "rq_device_id rq = te_device_id e" "rq_user_id rq = te_user_id e" "rq \<in> set (tm_reserved st)"
      using ok e(2) by (auto simp: registry_ok_def list_all_iff)
    have fresh: "length (tm_claims st) \<notin> set (map fst (tm_agents st))"
      using ok by (auto simp: registry_ok_def claims_ok_def list_all_iff)
    have "entry_ok (st\<lparr>tm_open := es, tm_claims := tm_claims st @ [(te_user_id e, rq)]\<rparr>) x"
      if "x \<in> set (AList.update i (e\<lparr>te_stage := Connecting (length (tm_claims st))\<rparr>) (tm_open st))" for x es
      using update_set [OF _ that] ok here fresh entry_ok_claims [of st x]
      by (auto simp: registry_ok_def limits_ok_def list_all_iff)
    moreover have "limits_ok (AList.update i (e\<lparr>te_stage := Connecting (length (tm_claims st))\<rparr>) (tm_open st))"
      using ok e(1) by (auto simp: registry_ok_def intro: limits_stage)
    ultimately show ?thesis using ok here by (auto simp: registry_ok_def claims_ok_def list_all_iff nth_append)
  qed
  then show ?thesis using ok delete_ok [OF ok, of i]
    by (auto simp: claim_browser_def Let_def split: option.splits stage.splits)
qed

lemma claim_agent_ok:
  assumes ok: "registry_ok st"
  shows "registry_ok (fst (claim_agent st i device))"
proof -
  have "registry_ok (st\<lparr>tm_open := AList.update i (e\<lparr>te_stage := Opened\<rparr>) (tm_open st), tm_agents := tm_agents st @ [(n, te_device_id e)]\<rparr>)"
    if e: "map_of (tm_open st) i = Some e" "te_stage e = Connecting n" for e n
  proof -
    have "entry_ok st (i, e)" using ok map_of_SomeD [OF e(1)] by (auto simp: registry_ok_def list_all_iff simp del: entry_ok.simps)
    then have here: "n < length (tm_claims st)" "n \<notin> set (map fst (tm_agents st))" "rq_id (snd (tm_claims st ! n)) = i"
        "rq_device_id (snd (tm_claims st ! n)) = te_device_id e"
      using e(2) by simp_all
    have "entry_ok (st\<lparr>tm_open := es, tm_agents := tm_agents st @ [(n, te_device_id e)]\<rparr>) x"
      if "x \<in> set (AList.update i (e\<lparr>te_stage := Opened\<rparr>) (tm_open st))" for x es
      using update_set [OF _ that] ok here(3) entry_ok_agents [of st x n] by (auto simp: registry_ok_def limits_ok_def list_all_iff)
    moreover have "limits_ok (AList.update i (e\<lparr>te_stage := Opened\<rparr>) (tm_open st))"
      using ok e(1) by (auto simp: registry_ok_def intro: limits_stage)
    ultimately show ?thesis using ok here by (auto simp: registry_ok_def claims_ok_def list_all_iff)
  qed
  then show ?thesis using ok by (auto simp: claim_agent_def split: option.splits stage.splits)
qed

interpretation registry: step_system registry_step registry_ok "\<lambda>_ _. True"
proof
  fix st :: "'a terminals" and ev
  assume "registry_ok st"
  then show "registry_ok (fst (registry_step st ev))"
    by (cases ev) (simp_all add: reserve_ok claim_browser_ok claim_agent_ok delete_ok remove_terminal_def)
qed

lemma registry_legal: "registry.legal_run st evs"
  by (induction evs arbitrary: st) simp_all

text \<open>Over every sequence of reservations, claims and removals a device has at most five terminals and a
  user at most ten. A browser's claim is always of a terminal its own user reserved; an Agent's socket reaches
  only a browser waiting for a terminal on that Agent's device, and each waiting browser gets at most one.
\<close>

theorem terminal_places:
  "let st = fst (run registry_step (Terminals_new browser_connect) evs) in
   (\<forall>device. count_on st device \<le> MAX_TERMINALS_PER_DEVICE)
   \<and> (\<forall>user. count_entries (\<lambda>e. te_user_id e = user) (tm_open st) \<le> MAX_TERMINALS_PER_USER)
   \<and> list_all (\<lambda>(user, rq). rq_user_id rq = user \<and> rq \<in> set (tm_reserved st)) (tm_claims st)
   \<and> distinct (map fst (tm_agents st))
   \<and> list_all (\<lambda>(n, device). n < length (tm_claims st) \<and> rq_device_id (snd (tm_claims st ! n)) = device) (tm_agents st)"
proof -
  have "registry_ok (Terminals_new browser_connect)"
    by (simp add: registry_ok_def Terminals_new_def limits_ok_def claims_ok_def count_entries_def)
  then have "registry_ok (fst (run registry_step (Terminals_new browser_connect) evs))"
    by (rule registry.run_inv [OF _ registry_legal])
  then show ?thesis unfolding Let_def by (simp only: registry_ok_def limits_ok_def claims_ok_def count_on_def simp_thms)
qed

end
