(* ===== verification/Session_Policy.thy ===== *)
theory Session_Policy
  imports Rust_Strings
begin

text \<open>
  Company policy for remote sessions: the toggles and idle times viewers may override
  (\<open>crates/protocol-types/src/signaling.rs\<close>), the messages shown to the Agent's user
  (\<open>crates/protocol-types/src/maintenance.rs\<close>), and the viewer's idle disconnection
  (\<open>remote/src/idle_disconnect.rs\<close>).
\<close>

section \<open>Toggles and idle times\<close>

record toggle_policy =
  tp_enabled :: bool
  tp_allow_override :: bool

definition toggle_effective :: "toggle_policy \<Rightarrow> bool option \<Rightarrow> bool" where
  "toggle_effective p choice =
     (if tp_allow_override p then (case choice of None \<Rightarrow> tp_enabled p | Some c \<Rightarrow> c) else tp_enabled p)"

definition IDLE_DISCONNECT_MINUTES :: "u32 list" where
  "IDLE_DISCONNECT_MINUTES = [5, 10, 15, 30, 60, 120, 240, 480]"

definition valid_idle_disconnect_minutes :: "u32 \<Rightarrow> bool" where
  "valid_idle_disconnect_minutes minutes \<longleftrightarrow> minutes \<in> set IDLE_DISCONNECT_MINUTES"

record idle_disconnect_policy =
  ip_minutes :: "u32 option"
  ip_allow_override :: bool

definition idle_policy_default :: idle_disconnect_policy where
  "idle_policy_default = \<lparr>ip_minutes = None, ip_allow_override = True\<rparr>"

definition idle_effective :: "idle_disconnect_policy \<Rightarrow> u32 option option \<Rightarrow> u32 option" where
  "idle_effective p choice =
     (case choice of Some c \<Rightarrow> if ip_allow_override p then c else ip_minutes p | None \<Rightarrow> ip_minutes p)"

section \<open>The viewer's idle disconnection\<close>

record idle_disconnect =
  id_policy :: idle_disconnect_policy
  id_choice :: "u32 option option"
  id_last_activity :: nanos

definition IdleDisconnect_default :: "nanos \<Rightarrow> idle_disconnect" where
  "IdleDisconnect_default now = \<lparr>id_policy = idle_policy_default, id_choice = None, id_last_activity = now\<rparr>"

definition set_policy :: "idle_disconnect \<Rightarrow> idle_disconnect_policy \<Rightarrow> idle_disconnect" where
  "set_policy d p = d\<lparr>id_policy := p\<rparr>"

definition idle_minutes :: "idle_disconnect \<Rightarrow> u32 option" where
  "idle_minutes d = idle_effective (id_policy d) (id_choice d)"

definition idle_choose :: "idle_disconnect \<Rightarrow> u32 option \<Rightarrow> nanos \<Rightarrow> idle_disconnect" where
  "idle_choose d minutes now =
     (if ip_allow_override (id_policy d) then d\<lparr>id_choice := Some minutes, id_last_activity := now\<rparr> else d)"

definition note_activity :: "idle_disconnect \<Rightarrow> nanos \<Rightarrow> idle_disconnect" where
  "note_activity d now = d\<lparr>id_last_activity := now\<rparr>"

definition idle_expired :: "idle_disconnect \<Rightarrow> nanos \<Rightarrow> u32 option" where
  "idle_expired d now =
     (case idle_minutes d of
        None \<Rightarrow> None
      | Some minutes \<Rightarrow> if unat minutes * 60 * 1000000000 \<le> now - id_last_activity d then Some minutes else None)"

definition idle_choices :: "u32 option list" where
  "idle_choices = None # map Some IDLE_DISCONNECT_MINUTES"

definition idle_label :: "u32 option \<Rightarrow> rust_string" where
  "idle_label minutes =
     (case minutes of
        None \<Rightarrow> lit ''Never''
      | Some m \<Rightarrow>
          if m = 60 then lit ''1 hour''
          else if m mod 60 = 0 then show_dec (unat (m div 60)) @ lit '' hours''
          else show_dec (unat m) @ lit '' minutes'')"

datatype idle_event =
    Set_Policy idle_disconnect_policy
  | Choose "u32 option" nanos
  | Activity_At nanos

fun idle_step :: "idle_disconnect \<Rightarrow> idle_event \<Rightarrow> idle_disconnect \<times> unit" where
  "idle_step d (Set_Policy p) = (set_policy d p, ())"
| "idle_step d (Choose minutes now) = (idle_choose d minutes now, ())"
| "idle_step d (Activity_At now) = (note_activity d now, ())"

section \<open>Messages for the Agent's user\<close>

definition MAX_BLACKOUT_MESSAGE_BYTES :: nat where
  "MAX_BLACKOUT_MESSAGE_BYTES = 2048"

definition MAX_CONNECTION_NOTIFICATION_MESSAGE_BYTES :: nat where
  "MAX_CONNECTION_NOTIFICATION_MESSAGE_BYTES = 512"

definition MAX_CONNECTION_APPROVAL_MESSAGE_BYTES :: nat where
  "MAX_CONNECTION_APPROVAL_MESSAGE_BYTES = 512"

definition MAX_CONNECTION_REASON_BYTES :: nat where
  "MAX_CONNECTION_REASON_BYTES = 500"

definition DEFAULT_BLACKOUT_MESSAGE :: rust_string where
  "DEFAULT_BLACKOUT_MESSAGE = lit ''This machine is under maintenance by {user_name}.''"

definition DEFAULT_CONNECTION_NOTIFICATION_MESSAGE :: rust_string where
  "DEFAULT_CONNECTION_NOTIFICATION_MESSAGE = lit ''{user_name} has connected to this computer.''"

definition DEFAULT_CONNECTION_APPROVAL_MESSAGE :: rust_string where
  "DEFAULT_CONNECTION_APPROVAL_MESSAGE = lit ''{user_name} would like to connect.''"

definition plain_text :: "rust_string \<Rightarrow> bool" where
  "plain_text m \<longleftrightarrow> list_all (\<lambda>c. \<not> (char_is_control c \<and> c \<noteq> 10)) m"

definition valid_template :: "rust_string \<Rightarrow> nat \<Rightarrow> bool" where
  "valid_template message max_bytes \<longleftrightarrow> str_trim message \<noteq> [] \<and> str_len message \<le> max_bytes \<and> plain_text message"

definition valid_connection_approval_timeout :: "u32 \<Rightarrow> bool" where
  "valid_connection_approval_timeout s \<longleftrightarrow> 5 \<le> s \<and> s \<le> 300"

definition valid_connection_approval_lock_idle :: "u32 \<Rightarrow> bool" where
  "valid_connection_approval_lock_idle s \<longleftrightarrow> s \<le> 3600"

definition valid_connection_reason :: "rust_string \<Rightarrow> bool" where
  "valid_connection_reason reason \<longleftrightarrow> str_len reason \<le> MAX_CONNECTION_REASON_BYTES \<and> plain_text reason"

definition session_viewer_name :: "rust_string \<Rightarrow> rust_string" where
  "session_viewer_name name =
     (let name = take 256 (filter (\<lambda>c. \<not> char_is_control c) name) in
      if str_trim name = [] then lit ''Remote user'' else name)"

definition connection_reason :: "rust_string \<Rightarrow> rust_string" where
  "connection_reason reason = (if valid_connection_reason reason then str_trim reason else [])"

text \<open>\<open>str::replace\<close>: occurrences are found from the left and do not overlap; what is put in is not searched again.\<close>

function str_replace :: "rust_string \<Rightarrow> rust_string \<Rightarrow> rust_string \<Rightarrow> rust_string" where
  "str_replace pat new s =
     (case s of
        [] \<Rightarrow> []
      | c # rest \<Rightarrow>
          if pat \<noteq> [] \<and> take (length pat) s = pat then new @ str_replace pat new (drop (length pat) s)
          else c # str_replace pat new rest)"
  by pat_completeness auto
termination by (relation "measure (\<lambda>(_, _, s). length s)") (auto split: list.splits)

declare str_replace.simps [simp del]

text \<open>Cutting a string at the last character boundary at or before a byte.\<close>

fun truncate_bytes :: "nat \<Rightarrow> rust_string \<Rightarrow> rust_string" where
  "truncate_bytes n [] = []"
| "truncate_bytes n (c # cs) = (if utf8_len c \<le> n then c # truncate_bytes (n - utf8_len c) cs else [])"

definition render_template :: "rust_string \<Rightarrow> rust_string \<Rightarrow> rust_string" where
  "render_template template viewer_name =
     truncate_bytes 8192 (str_replace (lit ''{user_name}'') (session_viewer_name viewer_name) template)"

definition render_with :: "nat \<Rightarrow> rust_string \<Rightarrow> rust_string \<Rightarrow> rust_string \<Rightarrow> rust_string" where
  "render_with limit fallback template viewer_name =
     render_template (if valid_template template limit then template else fallback) viewer_name"

definition render_blackout_message :: "rust_string \<Rightarrow> rust_string \<Rightarrow> rust_string" where
  "render_blackout_message = render_with MAX_BLACKOUT_MESSAGE_BYTES DEFAULT_BLACKOUT_MESSAGE"

definition render_connection_notification :: "rust_string \<Rightarrow> rust_string \<Rightarrow> rust_string" where
  "render_connection_notification =
     render_with MAX_CONNECTION_NOTIFICATION_MESSAGE_BYTES DEFAULT_CONNECTION_NOTIFICATION_MESSAGE"

definition render_connection_approval_message :: "rust_string \<Rightarrow> rust_string \<Rightarrow> rust_string" where
  "render_connection_approval_message =
     render_with MAX_CONNECTION_APPROVAL_MESSAGE_BYTES DEFAULT_CONNECTION_APPROVAL_MESSAGE"

section \<open>What the user is shown\<close>

lemma truncate_bytes_len: "str_len (truncate_bytes n s) \<le> n"
  by (induction n s rule: truncate_bytes.induct) (auto simp: str_len_def)

lemma truncate_bytes_prefix: "\<exists>t. s = truncate_bytes n s @ t"
  by (induction n s rule: truncate_bytes.induct) auto

lemma plain_text_simps [simp]:
  "plain_text []" "plain_text (c # s) \<longleftrightarrow> \<not> (char_is_control c \<and> c \<noteq> 10) \<and> plain_text s"
  "plain_text (s @ t) \<longleftrightarrow> plain_text s \<and> plain_text t"
  by (auto simp: plain_text_def)

lemma plain_text_drop: "plain_text s \<Longrightarrow> plain_text (drop n s)" "plain_text s \<Longrightarrow> plain_text (take n s)"
  by (auto simp: plain_text_def list_all_iff dest: in_set_dropD in_set_takeD)

lemma plain_replace: "plain_text s \<Longrightarrow> plain_text new \<Longrightarrow> plain_text (str_replace pat new s)"
proof (induction pat new s rule: str_replace.induct)
  case (1 pat new s)
  show ?case
  proof (cases s)
    case (Cons c rest)
    then show ?thesis using 1 plain_text_drop(1) [of s "length pat"] by (subst str_replace.simps) auto
  qed (simp add: str_replace.simps)
qed

lemma plain_viewer_name: "plain_text (session_viewer_name name)"
  by (auto simp: session_viewer_name_def Let_def plain_text_def list_all_iff char_is_control_def dest: in_set_takeD)

lemma plain_render:
  assumes "plain_text fallback"
  shows "plain_text (render_with limit fallback template name)" "str_len (render_with limit fallback template name) \<le> 8192"
proof -
  let ?t = "if valid_template template limit then template else fallback"
  let ?r = "str_replace (lit ''{user_name}'') (session_viewer_name name) ?t"
  have "plain_text ?r" using assms by (intro plain_replace plain_viewer_name) (simp add: valid_template_def)
  then show "plain_text (render_with limit fallback template name)"
    using truncate_bytes_prefix [of ?r 8192] unfolding render_with_def render_template_def by (metis plain_text_simps(3))
  show "str_len (render_with limit fallback template name) \<le> 8192"
    unfolding render_with_def render_template_def by (rule truncate_bytes_len)
qed

lemma str_trim_parts: "\<exists>a b. s = a @ str_trim s @ b"
proof -
  let ?t = "dropWhile is_whitespace s"
  have "s = takeWhile is_whitespace s @ ?t" by simp
  moreover have "?t = str_trim s @ rev (takeWhile is_whitespace (rev ?t))"
    unfolding str_trim_def by (metis rev_append rev_rev_ident takeWhile_dropWhile_id)
  ultimately show ?thesis by metis
qed

lemma str_trim_keeps: "plain_text s \<Longrightarrow> plain_text (str_trim s)" "str_len (str_trim s) \<le> str_len s"
proof -
  obtain a b where "s = a @ str_trim s @ b" using str_trim_parts by blast
  then have "plain_text s \<longleftrightarrow> plain_text a \<and> plain_text (str_trim s) \<and> plain_text b"
      "str_len s = str_len a + (str_len (str_trim s) + str_len b)"
    by (metis plain_text_simps(3), metis str_len_def map_append sum_list_append)
  then show "plain_text s \<Longrightarrow> plain_text (str_trim s)" "str_len (str_trim s) \<le> str_len s" by simp_all
qed

lemma viewer_name_shown: "str_trim (session_viewer_name name) \<noteq> []"
  by (simp add: session_viewer_name_def Let_def str_trim_def is_whitespace_def)

text \<open>Whatever template a company stores and whatever name a technician has, the messages shown to the user of a
  device are at most 8192 bytes long and hold no control character but a line break; the reason shown with
  them is at most 500 bytes.
\<close>

theorem shown_messages_safe:
  "list_all (\<lambda>m. str_len m \<le> 8192 \<and> plain_text m)
     [render_blackout_message template name, render_connection_notification template name,
      render_connection_approval_message template name]
   \<and> plain_text (session_viewer_name name) \<and> str_trim (session_viewer_name name) \<noteq> []
   \<and> str_len (connection_reason reason) \<le> MAX_CONNECTION_REASON_BYTES \<and> plain_text (connection_reason reason)"
proof -
  have "plain_text DEFAULT_BLACKOUT_MESSAGE" "plain_text DEFAULT_CONNECTION_NOTIFICATION_MESSAGE"
      "plain_text DEFAULT_CONNECTION_APPROVAL_MESSAGE"
    by (simp_all add: DEFAULT_BLACKOUT_MESSAGE_def DEFAULT_CONNECTION_NOTIFICATION_MESSAGE_def
        DEFAULT_CONNECTION_APPROVAL_MESSAGE_def char_is_control_def)
  note shown = this [THEN plain_render(1)] this [THEN plain_render(2)]
  have "str_len (connection_reason reason) \<le> MAX_CONNECTION_REASON_BYTES" "plain_text (connection_reason reason)"
    using str_trim_keeps [of reason]
    by (auto simp: connection_reason_def valid_connection_reason_def str_len_def intro: order_trans)
  then show ?thesis
    unfolding render_blackout_message_def render_connection_notification_def render_connection_approval_message_def
    using shown plain_viewer_name viewer_name_shown by simp
qed

end
