(* ===== verification/Session_Actor.thy ===== *)
theory Session_Actor
  imports Session_Policy
begin

text \<open>
  A remote session on the server (\<open>server/src/realtime/sessions.rs\<close>, \<open>sessions/actor.rs\<close>): the actor that owns a
  session's record, its two signaling sockets and its idle deadline, and relays signaling between viewer and
  Agent. The actor handles one message at a time, so a run is any sequence of messages. Each step takes one
  reading of the clock; the results of the database, the Agent's hub, fresh tokens and the hash of a token are
  inputs. A socket's channel is numbered by its peer id and remembers the token it joined with and everything
  it was sent. The timer for the idle deadline may fire at any step, which covers every clock.
\<close>

section \<open>Sessions\<close>

record ice_server =
  ice_urls :: "rust_string list"
  ice_username :: "rust_string option"
  ice_credential :: "rust_string option"

record connection_approval =
  cp_message :: rust_string
  cp_timeout_seconds :: nat
  cp_lock_idle_seconds :: nat

record agent_session_request =
  as_start_in_background :: bool
  as_idle_policy :: toggle_policy
  as_clear_clipboard_policy :: toggle_policy
  as_blackout_message :: rust_string
  as_session_banner :: bool
  as_connection_notification :: bool
  as_background_connection_notification :: bool
  as_connection_notification_message :: rust_string
  as_connection_approval :: "connection_approval option"
  as_connection_reason :: rust_string
  as_viewer_name :: rust_string
  as_session_id :: rust_string
  as_signaling_token :: rust_string
  as_expires_at_unix_ms :: nat
  as_ice_servers :: "ice_server list"

record session_bootstrap =
  sb_start_in_background :: bool
  sb_idle_policy :: toggle_policy
  sb_idle_disconnect :: idle_disconnect_policy
  sb_clear_clipboard_policy :: toggle_policy
  sb_display_border :: bool
  sb_session_id :: rust_string
  sb_signaling_token :: rust_string
  sb_expires_at_unix_ms :: nat
  sb_ice_servers :: "ice_server list"

record session_record =
  sr_session_id :: rust_string
  sr_device_id :: rust_string
  sr_user_id :: rust_string
  sr_client_token :: rust_string
  sr_idle_timeout_ms :: int
  sr_idle_disconnect :: idle_disconnect_policy
  sr_display_border :: bool
  sr_agent_request :: agent_session_request

definition bootstrap :: "session_record \<Rightarrow> session_bootstrap" where
  "bootstrap r =
     (let request = sr_agent_request r in
      \<lparr>sb_start_in_background = as_start_in_background request, sb_idle_policy = as_idle_policy request,
       sb_idle_disconnect = sr_idle_disconnect r, sb_clear_clipboard_policy = as_clear_clipboard_policy request,
       sb_display_border = sr_display_border r, sb_session_id = as_session_id request,
       sb_signaling_token = sr_client_token r, sb_expires_at_unix_ms = as_expires_at_unix_ms request,
       sb_ice_servers = as_ice_servers request\<rparr>)"

definition unix_ms :: "int \<Rightarrow> nat" where
  "unix_ms v = nat v"

text \<open>The company's settings that a session takes.\<close>

record session_settings =
  st_prevent_idle_lock :: bool
  st_allow_idle_override :: bool
  st_clear_clipboard_on_close :: bool
  st_allow_clear_clipboard_override :: bool
  st_blackout_message :: rust_string
  st_session_banner :: bool
  st_connection_notification :: bool
  st_background_connection_notification :: bool
  st_connection_notification_message :: rust_string
  st_connection_approval :: bool
  st_connection_approval_message :: rust_string
  st_connection_approval_timeout_seconds :: int
  st_connection_approval_lock_idle_seconds :: int
  st_idle_disconnect_minutes :: "int option"
  st_allow_idle_disconnect_override :: bool
  st_display_border :: bool

record new_session =
  ns_device_id :: rust_string
  ns_user_id :: rust_string
  ns_display_name :: rust_string
  ns_start_in_background :: bool

definition u32_try_from :: "int \<Rightarrow> nat option" where
  "u32_try_from v = (if 0 \<le> v \<and> v < 2 ^ 32 then Some (nat v) else None)"

definition Record_new ::
    "new_session \<Rightarrow> session_settings \<Rightarrow> rust_string \<Rightarrow> int \<Rightarrow> int \<Rightarrow> rust_string \<Rightarrow> rust_string \<Rightarrow> rust_string
     \<Rightarrow> ice_server list \<Rightarrow> session_record" where
  "Record_new new policy session_id idle_ms expires_at reason client_token agent_token servers =
     \<lparr>sr_session_id = session_id, sr_device_id = ns_device_id new, sr_user_id = ns_user_id new,
      sr_client_token = client_token, sr_idle_timeout_ms = idle_ms,
      sr_idle_disconnect =
        \<lparr>ip_minutes = map_option word_of_nat (Option.bind (st_idle_disconnect_minutes policy) u32_try_from),
         ip_allow_override = st_allow_idle_disconnect_override policy\<rparr>,
      sr_display_border = st_display_border policy,
      sr_agent_request =
        \<lparr>as_start_in_background = ns_start_in_background new,
         as_idle_policy = \<lparr>tp_enabled = st_prevent_idle_lock policy, tp_allow_override = st_allow_idle_override policy\<rparr>,
         as_clear_clipboard_policy =
           \<lparr>tp_enabled = st_clear_clipboard_on_close policy, tp_allow_override = st_allow_clear_clipboard_override policy\<rparr>,
         as_blackout_message = st_blackout_message policy,
         as_session_banner = st_session_banner policy,
         as_connection_notification = st_connection_notification policy,
         as_background_connection_notification = st_background_connection_notification policy,
         as_connection_notification_message = st_connection_notification_message policy,
         as_connection_approval =
           (if st_connection_approval policy then
              Some \<lparr>cp_message = st_connection_approval_message policy,
                    cp_timeout_seconds = case_option 30 id (u32_try_from (st_connection_approval_timeout_seconds policy)),
                    cp_lock_idle_seconds = case_option 0 id (u32_try_from (st_connection_approval_lock_idle_seconds policy))\<rparr>
            else None),
         as_connection_reason = reason,
         as_viewer_name = session_viewer_name (ns_display_name new),
         as_session_id = session_id,
         as_signaling_token = agent_token,
         as_expires_at_unix_ms = unix_ms expires_at,
         as_ice_servers = servers\<rparr>\<rparr>"

definition start_timeout :: "nanos \<Rightarrow> nanos" where
  "start_timeout idle = max idle (15 * 60 * 1000000000)"

section \<open>Signaling\<close>

datatype peer_role = Client | Agent_Role

definition role_parse :: "rust_string \<Rightarrow> peer_role option" where
  "role_parse v = (if v = lit ''client'' then Some Client else if v = lit ''agent'' then Some Agent_Role else None)"

fun other :: "peer_role \<Rightarrow> peer_role" where
  "other Client = Agent_Role"
| "other Agent_Role = Client"

datatype signal_error_code =
    VideoEncoderUnavailable | NoMutualProfile | IdentityMismatch | CaptureUnavailable | ConnectionDeclined | Unknown_Code

datatype signal_message =
    Ready
  | Activity
  | EndSession
  | Offer rust_string
  | Answer rust_string
  | IceCandidate rust_string "rust_string option" "nat option" "rust_string option"
  | IceComplete
  | PeerLeft
  | AwaitingApproval nat
  | Signal_Error rust_string "signal_error_code option"

datatype peer_out = Peer_Text rust_string | Peer_Close nat rust_string

datatype session_refusal = Unauthorized | Gone

datatype session_error = Session_Unauthenticated | Session_Ended | Device_Offline | Database_Failed

definition PEER_BACKLOG :: nat where
  "PEER_BACKLOG = 256"

record peer_channel =
  pc_role :: peer_role
  pc_token :: rust_string
  pc_queue :: "peer_out list"
  pc_receiver :: bool
  pc_accepted :: "peer_out list"

datatype to_agent = Session_Request agent_session_request | End_Session_Command rust_string

record session_actor =
  sa_record :: session_record
  sa_expires_at :: int
  sa_peers :: "peer_role \<Rightarrow> nat option"
  sa_next_peer :: nat
  sa_pending_terminal :: "(peer_role \<times> rust_string) option"
  sa_channels :: "peer_channel list"
  sa_stopped :: bool
  sa_commands :: "to_agent list"
  sa_signals :: "(nat \<times> rust_string) list"

definition SessionActor_new :: "session_record \<Rightarrow> int \<Rightarrow> session_actor" where
  "SessionActor_new r expires_at =
     \<lparr>sa_record = r, sa_expires_at = expires_at, sa_peers = (\<lambda>_. None), sa_next_peer = 0, sa_pending_terminal = None,
      sa_channels = [], sa_stopped = False, sa_commands = [], sa_signals = []\<rparr>"

section \<open>The actor\<close>

definition token_matches :: "(rust_string \<Rightarrow> rust_string) \<Rightarrow> rust_string \<Rightarrow> rust_string \<Rightarrow> bool" where
  "token_matches token_hash supplied expected \<longleftrightarrow> token_hash supplied = token_hash expected"

definition live :: "int \<Rightarrow> session_actor \<Rightarrow> bool" where
  "live now a \<longleftrightarrow> now < sa_expires_at a"

fun token_for :: "peer_role \<Rightarrow> session_record \<Rightarrow> rust_string" where
  "token_for Client r = sr_client_token r"
| "token_for Agent_Role r = as_signaling_token (sr_agent_request r)"

definition check_token :: "(rust_string \<Rightarrow> rust_string) \<Rightarrow> int \<Rightarrow> peer_role \<Rightarrow> rust_string \<Rightarrow> session_actor \<Rightarrow> session_refusal + unit" where
  "check_token token_hash now role token a =
     (if \<not> live now a then Err Gone
      else if \<not> token_matches token_hash token (token_for role (sa_record a)) then Err Unauthorized
      else Ok ())"

text \<open>\<open>mpsc::Sender::try_send\<close> on the channel of a peer.\<close>

definition try_send :: "nat \<Rightarrow> peer_out \<Rightarrow> session_actor \<Rightarrow> session_actor \<times> bool" where
  "try_send i m a =
     (let c = sa_channels a ! (i - 1) in
      if pc_receiver c \<and> length (pc_queue c) < PEER_BACKLOG then
        (a\<lparr>sa_channels := (sa_channels a)[i - 1 := c\<lparr>pc_queue := pc_queue c @ [m], pc_accepted := pc_accepted c @ [m]\<rparr>]\<rparr>, True)
      else (a, False))"

definition peer_send :: "peer_role \<Rightarrow> rust_string \<Rightarrow> session_actor \<Rightarrow> session_actor \<times> bool" where
  "peer_send role txt a =
     (case sa_peers a role of
        None \<Rightarrow> (a, False)
      | Some i \<Rightarrow>
          (case try_send i (Peer_Text txt) a of
             (a', True) \<Rightarrow> (a', True)
           | (a', False) \<Rightarrow>
               let a = fst (try_send i (Peer_Close 1011 (lit ''signaling peer fell behind'')) a') in
               (a\<lparr>sa_peers := (sa_peers a)(role := None)\<rparr>, False)))"

definition close_peer :: "peer_role \<Rightarrow> nat \<Rightarrow> rust_string \<Rightarrow> session_actor \<Rightarrow> session_actor" where
  "close_peer role code reason a =
     (case sa_peers a role of
        None \<Rightarrow> a
      | Some i \<Rightarrow> (fst (try_send i (Peer_Close code reason) a))\<lparr>sa_peers := (sa_peers a)(role := None)\<rparr>)"

definition hand_over :: "peer_role \<Rightarrow> session_actor \<Rightarrow> session_actor" where
  "hand_over role a =
     (case sa_pending_terminal a of
        Some (destination, txt) \<Rightarrow>
          if destination = role then
            case peer_send role txt (a\<lparr>sa_pending_terminal := None\<rparr>) of
              (a', True) \<Rightarrow> a'
            | (a', False) \<Rightarrow> a'\<lparr>sa_pending_terminal := Some (role, txt)\<rparr>
          else a
      | None \<Rightarrow> a)"

definition join :: "peer_role \<Rightarrow> rust_string \<Rightarrow> session_actor \<Rightarrow> session_actor \<times> nat" where
  "join role token a =
     (let i = sa_next_peer a + 1; old = sa_peers a role;
          a = a\<lparr>sa_next_peer := i, sa_peers := (sa_peers a)(role := Some i),
                sa_channels := sa_channels a @ [\<lparr>pc_role = role, pc_token = token, pc_queue = [], pc_receiver = True, pc_accepted = []\<rparr>]\<rparr>;
          a = (case old of None \<Rightarrow> a | Some j \<Rightarrow> fst (try_send j (Peer_Close 4000 (lit ''superseded peer connection'')) a))
      in (hand_over role a, i))"

text \<open>Ending a session: its row and relays go, both sockets are closed and the Agent is told.\<close>

definition expire_session :: "rust_string \<Rightarrow> session_actor \<Rightarrow> session_actor" where
  "expire_session reason a =
     (let a = close_peer Agent_Role 4001 reason (close_peer Client 4001 reason (a\<lparr>sa_expires_at := 0\<rparr>)) in
      a\<lparr>sa_commands := sa_commands a @ [End_Session_Command (sr_session_id (sa_record a))], sa_stopped := True\<rparr>)"

text \<open>The result of an update of the session's row: how many rows it changed, or an error.\<close>

type_synonym stored = "unit + nat"

definition touch_session :: "int \<Rightarrow> stored \<Rightarrow> session_actor \<Rightarrow> session_actor" where
  "touch_session now updated a =
     (if \<not> live now a then a
      else case updated of
        Inr n \<Rightarrow> if n = 0 then expire_session (lit ''the session was replaced'') a
                else a\<lparr>sa_expires_at := now + sr_idle_timeout_ms (sa_record a)\<rparr>
      | Inl _ \<Rightarrow> a)"

definition actor_signal ::
    "(rust_string \<Rightarrow> signal_message option) \<Rightarrow> int \<Rightarrow> stored \<Rightarrow> peer_role \<Rightarrow> nat \<Rightarrow> rust_string \<Rightarrow> session_actor \<Rightarrow> session_actor" where
  "actor_signal parse now updated role peer txt a =
     (if sa_peers a role \<noteq> Some peer then a
      else case parse txt of
        None \<Rightarrow> close_peer role 1007 (lit ''invalid signaling JSON'') a
      | Some signal \<Rightarrow>
          if (signal = Activity \<or> signal = EndSession) \<and> role \<noteq> Client then
            close_peer role 1008 (lit ''only the viewer may send this message'') a
          else case signal of
            Activity \<Rightarrow> touch_session now updated a
          | EndSession \<Rightarrow> expire_session (lit ''the session was ended by its viewer'') a
          | Signal_Error _ _ \<Rightarrow>
              (case peer_send (other role) txt (a\<lparr>sa_signals := sa_signals a @ [(peer, txt)]\<rparr>) of
                 (a', True) \<Rightarrow> a'
               | (a', False) \<Rightarrow> a'\<lparr>sa_pending_terminal := Some (other role, txt)\<rparr>)
          | _ \<Rightarrow> fst (peer_send (other role) txt (a\<lparr>sa_signals := sa_signals a @ [(peer, txt)]\<rparr>)))"

text \<open>What the database says of the device, the technician and the permissions, read in this order.\<close>

record access_reads =
  ax_active :: "unit + bool"
  ax_user :: "unit + bool option"
  ax_connect :: "unit + bool \<times> bool"

definition still_allowed :: "access_reads \<Rightarrow> session_actor \<Rightarrow> unit + rust_string option" where
  "still_allowed reads a =
     (case ax_active reads of
        Inl e \<Rightarrow> Err e
      | Inr active \<Rightarrow>
          if \<not> active then Ok (Some (lit ''the device was removed''))
          else case ax_user reads of
            Inl e \<Rightarrow> Err e
          | Inr user \<Rightarrow>
              if user \<noteq> Some False then Ok (Some (lit ''the technician's account was disabled''))
              else case ax_connect reads of
                Inl e \<Rightarrow> Err e
              | Inr (connect, background) \<Rightarrow>
                  if connect \<and> (as_start_in_background (sr_agent_request (sa_record a)) \<longrightarrow> background) then Ok None
                  else Ok (Some (lit ''the technician may no longer connect'')))"

record resume_io =
  ro_reads :: access_reads
  ro_servers :: "ice_server list"
  ro_token :: rust_string
  ro_stored :: stored
  ro_sent :: bool

definition resumed_record :: "int \<Rightarrow> resume_io \<Rightarrow> session_record \<Rightarrow> session_record" where
  "resumed_record expires_at io r =
     r\<lparr>sr_agent_request := (sr_agent_request r)\<lparr>as_expires_at_unix_ms := unix_ms expires_at,
         as_ice_servers := ro_servers io, as_signaling_token := ro_token io\<rparr>\<rparr>"

definition resume ::
    "(rust_string \<Rightarrow> rust_string) \<Rightarrow> int \<Rightarrow> resume_io \<Rightarrow> rust_string \<Rightarrow> session_actor
     \<Rightarrow> session_actor \<times> (session_error + session_bootstrap)" where
  "resume token_hash now io token a =
     (if \<not> token_matches token_hash token (sr_client_token (sa_record a)) then (a, Err Session_Unauthenticated)
      else if \<not> live now a then (expire_session (lit ''the session was idle for too long'') a, Err Session_Ended)
      else case still_allowed (ro_reads io) a of
        Inl _ \<Rightarrow> (a, Err Database_Failed)
      | Inr (Some reason) \<Rightarrow> (expire_session reason a, Err Session_Ended)
      | Inr None \<Rightarrow>
          let expires_at = now + sr_idle_timeout_ms (sa_record a); r = resumed_record expires_at io (sa_record a) in
          case ro_stored io of
            Inl _ \<Rightarrow> (a, Err Database_Failed)
          | Inr n \<Rightarrow>
              if n = 0 then (expire_session (lit ''the session was replaced'') a, Err Session_Ended)
              else
                let a = close_peer Agent_Role 4000 (lit ''superseded peer connection'')
                          (a\<lparr>sa_record := r, sa_expires_at := expires_at\<rparr>) in
                (a\<lparr>sa_commands := sa_commands a @ [Session_Request (sr_agent_request r)]\<rparr>,
                 if ro_sent io then Ok (bootstrap r) else Err Device_Offline))"

datatype session_input =
    Check peer_role rust_string
  | Join peer_role rust_string
  | Signal peer_role nat rust_string stored
  | Left_Peer peer_role nat
  | Resume rust_string resume_io
  | End rust_string
  | Identity rust_string
  | Current
  | Expire rust_string
  | Access_Changed access_reads
  | Deadline_Timer

datatype session_reply =
    No_Reply
  | Checked "session_refusal + unit"
  | Joined "nat option"
  | Resumed "session_error + session_bootstrap"
  | Ended "session_error + unit"
  | Identity_Is "session_error + rust_string \<times> rust_string"
  | Current_Is "agent_session_request option"

fun actor_handle ::
    "(rust_string \<Rightarrow> rust_string) \<Rightarrow> (rust_string \<Rightarrow> signal_message option) \<Rightarrow> int \<Rightarrow> session_input \<Rightarrow> session_actor
     \<Rightarrow> session_actor \<times> session_reply" where
  "actor_handle token_hash parse now (Check role token) a = (a, Checked (check_token token_hash now role token a))"
| "actor_handle token_hash parse now (Join role token) a =
     (if check_token token_hash now role token a = Ok () then
        (let (a, i) = join role token a in (a, Joined (Some i)))
      else (a, Joined None))"
| "actor_handle token_hash parse now (Signal role peer txt updated) a = (actor_signal parse now updated role peer txt a, No_Reply)"
| "actor_handle token_hash parse now (Left_Peer role peer) a =
     (if sa_peers a role = Some peer then a\<lparr>sa_peers := (sa_peers a)(role := None)\<rparr> else a, No_Reply)"
| "actor_handle token_hash parse now (Resume token io) a = (let (a, r) = resume token_hash now io token a in (a, Resumed r))"
| "actor_handle token_hash parse now (End token) a =
     (if token_matches token_hash token (sr_client_token (sa_record a))
      then (expire_session (lit ''the session was ended by its viewer'') a, Ended (Ok ()))
      else (a, Ended (Err Session_Unauthenticated)))"
| "actor_handle token_hash parse now (Identity token) a =
     (a, Identity_Is (case check_token token_hash now Client token a of
           Inr _ \<Rightarrow> Ok (sr_user_id (sa_record a), sr_device_id (sa_record a))
         | Inl Unauthorized \<Rightarrow> Err Session_Unauthenticated
         | Inl Gone \<Rightarrow> Err Session_Ended))"
| "actor_handle token_hash parse now Current a = (a, Current_Is (if live now a then Some (sr_agent_request (sa_record a)) else None))"
| "actor_handle token_hash parse now (Expire reason) a = (expire_session reason a, No_Reply)"
| "actor_handle token_hash parse now (Access_Changed reads) a =
     (case still_allowed reads a of Inr (Some reason) \<Rightarrow> expire_session reason a | _ \<Rightarrow> a, No_Reply)"
| "actor_handle token_hash parse now Deadline_Timer a =
     (expire_session (lit ''the session was idle for too long'') a, No_Reply)"

text \<open>The sockets' own tasks (\<open>serve_peer\<close>): taking the next message, and going away.\<close>

datatype session_event =
    Handle int session_input
  | Peer_Takes nat
  | Peer_Goes nat

definition on_channel :: "nat \<Rightarrow> (peer_channel \<Rightarrow> peer_channel) \<Rightarrow> session_actor \<Rightarrow> session_actor" where
  "on_channel i f a =
     (if 0 < i \<and> i \<le> length (sa_channels a)
      then a\<lparr>sa_channels := (sa_channels a)[i - 1 := f (sa_channels a ! (i - 1))]\<rparr> else a)"

fun actor_step ::
    "(rust_string \<Rightarrow> rust_string) \<Rightarrow> (rust_string \<Rightarrow> signal_message option) \<Rightarrow> session_actor \<Rightarrow> session_event
     \<Rightarrow> session_actor \<times> session_reply" where
  "actor_step token_hash parse a (Handle now m) =
     (if sa_stopped a then (a, No_Reply) else actor_handle token_hash parse now m a)"
| "actor_step token_hash parse a (Peer_Takes i) = (on_channel i (\<lambda>c. c\<lparr>pc_queue := tl (pc_queue c)\<rparr>) a, No_Reply)"
| "actor_step token_hash parse a (Peer_Goes i) = (on_channel i (\<lambda>c. c\<lparr>pc_receiver := False, pc_queue := []\<rparr>) a, No_Reply)"

section \<open>Who hears whom\<close>

definition sent_by :: "peer_role \<Rightarrow> rust_string \<Rightarrow> session_actor \<Rightarrow> bool" where
  "sent_by role t a \<longleftrightarrow>
     (\<exists>i. (i, t) \<in> set (sa_signals a) \<and> 0 < i \<and> i \<le> length (sa_channels a) \<and> pc_role (sa_channels a ! (i - 1)) = role)"

definition texts_ok :: "session_actor \<Rightarrow> bool" where
  "texts_ok a \<longleftrightarrow>
     (\<forall>c \<in> set (sa_channels a). \<forall>t. Peer_Text t \<in> set (pc_accepted c) \<longrightarrow> sent_by (other (pc_role c)) t a)"

definition peers_ok :: "session_actor \<Rightarrow> bool" where
  "peers_ok a \<longleftrightarrow> sa_next_peer a = length (sa_channels a)
     \<and> (\<forall>role i. sa_peers a role = Some i \<longrightarrow> 0 < i \<and> i \<le> length (sa_channels a) \<and> pc_role (sa_channels a ! (i - 1)) = role)"

definition pending_peer_ok :: "session_actor \<Rightarrow> bool" where
  "pending_peer_ok a \<longleftrightarrow> (\<forall>d t. sa_pending_terminal a = Some (d, t) \<longrightarrow> sent_by (other d) t a)"

text \<open>The tokens the Agent of a session was given, and what a socket may have joined with.\<close>

definition allowed_tokens :: "session_record \<Rightarrow> session_actor \<Rightarrow> peer_role \<Rightarrow> rust_string set" where
  "allowed_tokens r a role =
     (if role = Client then {sr_client_token r}
      else insert (token_for Agent_Role r) {as_signaling_token q | q. Session_Request q \<in> set (sa_commands a)})"

definition tokens_ok :: "(rust_string \<Rightarrow> rust_string) \<Rightarrow> session_record \<Rightarrow> session_actor \<Rightarrow> bool" where
  "tokens_ok token_hash r a \<longleftrightarrow>
     (\<forall>role. token_for role (sa_record a) \<in> allowed_tokens r a role)
     \<and> (\<forall>c \<in> set (sa_channels a). token_hash (pc_token c) \<in> token_hash ` allowed_tokens r a (pc_role c))
     \<and> (\<forall>role i. sa_peers a role = Some i \<longrightarrow>
          token_hash (pc_token (sa_channels a ! (i - 1))) = token_hash (token_for role (sa_record a)))"

lemma allowed_tokens_mono: "set (sa_commands a) \<subseteq> set (sa_commands b) \<Longrightarrow> allowed_tokens r a role \<subseteq> allowed_tokens r b role"
  by (auto simp: allowed_tokens_def)

lemma allowed_tokens_same: "sa_commands a = sa_commands b \<Longrightarrow> allowed_tokens r a = allowed_tokens r b"
  by (auto simp: allowed_tokens_def fun_eq_iff)

definition actor_ok :: "(rust_string \<Rightarrow> rust_string) \<Rightarrow> session_record \<Rightarrow> session_actor \<Rightarrow> bool" where
  "actor_ok token_hash r a \<longleftrightarrow> peers_ok a \<and> texts_ok a \<and> pending_peer_ok a \<and> tokens_ok token_hash r a"

text \<open>A channel keeps its role and the token it was opened with; only what it was sent grows.\<close>

definition grown :: "(nat \<Rightarrow> rust_string \<Rightarrow> bool) \<Rightarrow> session_actor \<Rightarrow> session_actor \<Rightarrow> bool" where
  "grown may a a' \<longleftrightarrow> length (sa_channels a') = length (sa_channels a)
     \<and> (\<forall>k < length (sa_channels a). pc_role (sa_channels a' ! k) = pc_role (sa_channels a ! k)
          \<and> pc_token (sa_channels a' ! k) = pc_token (sa_channels a ! k)
          \<and> (\<forall>t. Peer_Text t \<in> set (pc_accepted (sa_channels a' ! k)) \<longrightarrow>
                 Peer_Text t \<in> set (pc_accepted (sa_channels a ! k)) \<or> may k t))"

lemma grown_refl: "sa_channels a' = sa_channels a \<Longrightarrow> grown may a a'"
  by (simp add: grown_def)

lemma grown_channels: "sa_channels b' = sa_channels b \<Longrightarrow> grown may a b \<Longrightarrow> grown may a b'"
  by (simp add: grown_def)

lemma grown_trans: "grown may a b \<Longrightarrow> grown may b c \<Longrightarrow> grown may a c"
  unfolding grown_def by metis

lemma grown_mono: "grown may a b \<Longrightarrow> (\<And>k t. may k t \<Longrightarrow> may' k t) \<Longrightarrow> grown may' a b"
  unfolding grown_def by metis

lemma try_send_keeps [simp]:
  "sa_record (fst (try_send i m a)) = sa_record a" "sa_expires_at (fst (try_send i m a)) = sa_expires_at a"
  "sa_peers (fst (try_send i m a)) = sa_peers a" "sa_next_peer (fst (try_send i m a)) = sa_next_peer a"
  "sa_pending_terminal (fst (try_send i m a)) = sa_pending_terminal a" "sa_stopped (fst (try_send i m a)) = sa_stopped a"
  "sa_commands (fst (try_send i m a)) = sa_commands a" "sa_signals (fst (try_send i m a)) = sa_signals a"
  by (simp_all add: try_send_def Let_def)

lemma nth_update_at: "k < length xs \<Longrightarrow> xs[j := x] ! k = (if j = k then x else xs ! k)"
  by (cases "j = k") simp_all

lemma try_send_grown: "grown (\<lambda>k t. k = i - 1 \<and> m = Peer_Text t) a (fst (try_send i m a))"
  by (auto simp: grown_def try_send_def Let_def nth_update_at)

lemma try_close_grown: "grown (\<lambda>_ _. False) a (fst (try_send i (Peer_Close code reason) a))"
  using try_send_grown by (rule grown_mono) simp

lemma close_peer_keeps [simp]:
  "sa_record (close_peer role code reason a) = sa_record a" "sa_expires_at (close_peer role code reason a) = sa_expires_at a"
  "sa_next_peer (close_peer role code reason a) = sa_next_peer a" "sa_stopped (close_peer role code reason a) = sa_stopped a"
  "sa_pending_terminal (close_peer role code reason a) = sa_pending_terminal a"
  "sa_commands (close_peer role code reason a) = sa_commands a" "sa_signals (close_peer role code reason a) = sa_signals a"
  "sa_peers (close_peer role code reason a) = (sa_peers a)(role := None)"
  by (auto simp: close_peer_def fun_eq_iff split: option.split)

lemma close_peer_grown: "grown (\<lambda>_ _. False) a (close_peer role code reason a)"
proof (cases "sa_peers a role")
  case (Some i)
  then have "sa_channels (close_peer role code reason a) = sa_channels (fst (try_send i (Peer_Close code reason) a))"
    by (simp add: close_peer_def)
  then show ?thesis using grown_trans [OF try_close_grown grown_refl] by metis
qed (simp add: close_peer_def grown_refl)

lemma grown_sent_by: "grown may a a' \<Longrightarrow> sa_signals a' = sa_signals a \<Longrightarrow> sent_by role t a' \<longleftrightarrow> sent_by role t a"
  unfolding grown_def sent_by_def by (metis Suc_le_eq Suc_pred')

lemma grown_texts:
  assumes "grown may a a'" "sa_signals a' = sa_signals a" "texts_ok a"
    and "\<And>k t. k < length (sa_channels a) \<Longrightarrow> may k t \<Longrightarrow> sent_by (other (pc_role (sa_channels a ! k))) t a"
  shows "texts_ok a'"
  unfolding texts_ok_def grown_sent_by [OF assms(1,2)]
proof (intro ballI allI impI)
  fix c t
  assume "c \<in> set (sa_channels a')" "Peer_Text t \<in> set (pc_accepted c)"
  then obtain k where k: "k < length (sa_channels a)" "c = sa_channels a' ! k"
    using assms(1) by (metis grown_def in_set_conv_nth)
  then show "sent_by (other (pc_role c)) t a"
    using assms(1,3,4) \<open>Peer_Text t \<in> set (pc_accepted c)\<close> unfolding grown_def texts_ok_def by (metis nth_mem)
qed

text \<open>A step that only closes or fills channels and drops peers.\<close>

lemma grown_ok:
  assumes ok: "actor_ok token_hash r a" and g: "grown may a a'"
    and same: "sa_signals a' = sa_signals a" "sa_next_peer a' = sa_next_peer a" "sa_record a' = sa_record a"
      "set (sa_commands a) \<subseteq> set (sa_commands a')"
    and peers: "\<And>role i. sa_peers a' role = Some i \<Longrightarrow> sa_peers a role = Some i"
    and pending: "sa_pending_terminal a' = sa_pending_terminal a \<or> pending_peer_ok a'"
    and may: "\<And>k t. k < length (sa_channels a) \<Longrightarrow> may k t \<Longrightarrow> sent_by (other (pc_role (sa_channels a ! k))) t a"
  shows "actor_ok token_hash r a'"
proof -
  have "peers_ok a'"
    using ok g peers same(2) unfolding actor_ok_def peers_ok_def grown_def by (metis Suc_le_eq Suc_pred')
  moreover have "texts_ok a'" using grown_texts [OF g same(1) _ may] ok by (simp add: actor_ok_def)
  moreover have "pending_peer_ok a'"
    using pending ok grown_sent_by [OF g same(1)] unfolding actor_ok_def pending_peer_ok_def by metis
  moreover have "tokens_ok token_hash r a'"
  proof -
    have sub: "allowed_tokens r a role \<subseteq> allowed_tokens r a' role" for role using allowed_tokens_mono [OF same(4)] .
    have "\<exists>d \<in> set (sa_channels a). pc_role c = pc_role d \<and> pc_token c = pc_token d" if "c \<in> set (sa_channels a')" for c
      using g that unfolding grown_def by (metis in_set_conv_nth)
    then have "token_hash (pc_token c) \<in> token_hash ` allowed_tokens r a' (pc_role c)" if "c \<in> set (sa_channels a')" for c
      using ok sub that unfolding actor_ok_def tokens_ok_def by (metis image_mono subsetD)
    moreover have "token_hash (pc_token (sa_channels a' ! (i - 1))) = token_hash (token_for role (sa_record a'))"
      if "sa_peers a' role = Some i" for role i
      using ok g peers [OF that] same(3) unfolding actor_ok_def tokens_ok_def peers_ok_def grown_def
      by (metis Suc_le_eq Suc_pred')
    ultimately show ?thesis using ok sub same(3) unfolding actor_ok_def tokens_ok_def by (metis subsetD)
  qed
  ultimately show ?thesis by (simp add: actor_ok_def)
qed

section \<open>Every message keeps it\<close>

lemma allowed_tokens_fields [simp]:
  "allowed_tokens r (a\<lparr>sa_expires_at := e\<rparr>) = allowed_tokens r a" "allowed_tokens r (a\<lparr>sa_stopped := b\<rparr>) = allowed_tokens r a"
  "allowed_tokens r (a\<lparr>sa_pending_terminal := p\<rparr>) = allowed_tokens r a"
  "allowed_tokens r (a\<lparr>sa_signals := z\<rparr>) = allowed_tokens r a"
  by (rule allowed_tokens_same, simp)+

lemma actor_ok_fields [simp]:
  "actor_ok token_hash r (a\<lparr>sa_expires_at := e\<rparr>) \<longleftrightarrow> actor_ok token_hash r a"
  "actor_ok token_hash r (a\<lparr>sa_stopped := b\<rparr>) \<longleftrightarrow> actor_ok token_hash r a"
  by (simp_all add: actor_ok_def peers_ok_def texts_ok_def pending_peer_ok_def tokens_ok_def sent_by_def)

lemma sent_by_fields [simp]:
  "sent_by role t (a\<lparr>sa_pending_terminal := p\<rparr>) \<longleftrightarrow> sent_by role t a" "sent_by role t (a\<lparr>sa_peers := q\<rparr>) \<longleftrightarrow> sent_by role t a"
  by (simp_all add: sent_by_def)

lemma other_other [simp]: "other (other role) = role"
  by (cases role) simp_all

lemma pending_none_ok: "actor_ok token_hash r a \<Longrightarrow> actor_ok token_hash r (a\<lparr>sa_pending_terminal := None\<rparr>)"
  by (simp add: actor_ok_def peers_ok_def texts_ok_def pending_peer_ok_def tokens_ok_def)

lemma pending_some_ok:
  "actor_ok token_hash r a \<Longrightarrow> sent_by (other d) t a \<Longrightarrow> actor_ok token_hash r (a\<lparr>sa_pending_terminal := Some (d, t)\<rparr>)"
  by (simp add: actor_ok_def peers_ok_def texts_ok_def pending_peer_ok_def tokens_ok_def)

lemma close_peer_ok: "actor_ok token_hash r a \<Longrightarrow> actor_ok token_hash r (close_peer role code reason a)"
  by (rule grown_ok [OF _ close_peer_grown]) (auto split: if_splits)

lemma peer_send_grown:
  "grown (\<lambda>k t. \<exists>i. sa_peers a role = Some i \<and> k = i - 1 \<and> t = txt) a (fst (peer_send role txt a))"
proof (cases "sa_peers a role")
  case (Some i)
  have first: "grown (\<lambda>k t. \<exists>i. sa_peers a role = Some i \<and> k = i - 1 \<and> t = txt) a (fst (try_send i (Peer_Text txt) a))"
    using try_send_grown by (rule grown_mono) (simp add: Some)
  have then_close: "grown (\<lambda>k t. \<exists>i. sa_peers a role = Some i \<and> k = i - 1 \<and> t = txt) a
      (fst (try_send i (Peer_Close code reason) (fst (try_send i (Peer_Text txt) a))))" for code reason
    using first grown_mono [OF try_close_grown] grown_trans by blast
  show ?thesis
  proof (cases "snd (try_send i (Peer_Text txt) a)")
    case True
    then have "fst (peer_send role txt a) = fst (try_send i (Peer_Text txt) a)"
      using Some by (cases "try_send i (Peer_Text txt) a") (simp add: peer_send_def)
    then show ?thesis using first by simp
  next
    case False
    then have "sa_channels (fst (peer_send role txt a)) =
        sa_channels (fst (try_send i (Peer_Close 1011 (lit ''signaling peer fell behind'')) (fst (try_send i (Peer_Text txt) a))))"
      using Some by (cases "try_send i (Peer_Text txt) a") (simp add: peer_send_def Let_def)
    then show ?thesis by (rule grown_channels) (rule then_close)
  qed
qed (simp add: peer_send_def grown_refl)

lemma peer_send_keeps [simp]:
  "sa_record (fst (peer_send role txt a)) = sa_record a" "sa_expires_at (fst (peer_send role txt a)) = sa_expires_at a"
  "sa_next_peer (fst (peer_send role txt a)) = sa_next_peer a" "sa_stopped (fst (peer_send role txt a)) = sa_stopped a"
  "sa_pending_terminal (fst (peer_send role txt a)) = sa_pending_terminal a"
  "sa_commands (fst (peer_send role txt a)) = sa_commands a" "sa_signals (fst (peer_send role txt a)) = sa_signals a"
  by (cases "sa_peers a role"; cases "try_send (the (sa_peers a role)) (Peer_Text txt) a";
      use try_send_keeps [of "the (sa_peers a role)" "Peer_Text txt" a] in
        \<open>simp add: peer_send_def Let_def split: bool.split\<close>)+

lemma peer_send_peers: "sa_peers (fst (peer_send role txt a)) role' = Some i \<Longrightarrow> sa_peers a role' = Some i"
  by (cases "sa_peers a role"; cases "try_send (the (sa_peers a role)) (Peer_Text txt) a";
      use try_send_keeps(3) [of "the (sa_peers a role)" "Peer_Text txt" a] in
        \<open>simp add: peer_send_def Let_def split: bool.splits if_splits\<close>)

lemma peer_send_ok:
  assumes "actor_ok token_hash r a" "sent_by (other role) txt a"
  shows "actor_ok token_hash r (fst (peer_send role txt a))"
proof (rule grown_ok [OF assms(1) peer_send_grown])
  show "sent_by (other (pc_role (sa_channels a ! k))) t a" if "\<exists>i. sa_peers a role = Some i \<and> k = i - 1 \<and> t = txt" for k t
    using assms that by (auto simp: actor_ok_def peers_ok_def)
  show "sa_peers a role' = Some i" if "sa_peers (fst (peer_send role txt a)) role' = Some i" for role' i
    using that by (rule peer_send_peers)
qed simp_all

lemma peer_send_sent_by [simp]: "sent_by role' t (fst (peer_send role txt a)) \<longleftrightarrow> sent_by role' t a"
  using grown_sent_by [OF peer_send_grown] by simp

lemma hand_over_ok:
  assumes "actor_ok token_hash r a"
  shows "actor_ok token_hash r (hand_over role a)"
proof (cases "\<exists>txt. sa_pending_terminal a = Some (role, txt)")
  case True
  then obtain msg where p: "sa_pending_terminal a = Some (role, msg)" by blast
  let ?a = "a\<lparr>sa_pending_terminal := None\<rparr>"
  have src: "sent_by (other role) msg ?a" using assms p by (simp add: actor_ok_def pending_peer_ok_def)
  then have "actor_ok token_hash r (fst (peer_send role msg ?a))"
    "actor_ok token_hash r ((fst (peer_send role msg ?a))\<lparr>sa_pending_terminal := Some (role, msg)\<rparr>)"
    using assms by (auto intro!: peer_send_ok pending_some_ok pending_none_ok)
  then show ?thesis using p by (cases "peer_send role msg ?a") (simp add: hand_over_def split: bool.split)
next
  case False
  then have "hand_over role a = a" by (auto simp: hand_over_def split: option.split prod.split)
  then show ?thesis using assms by simp
qed

lemma open_channel_ok:
  assumes "actor_ok token_hash r a" "token_hash token = token_hash (token_for role (sa_record a))"
  shows "actor_ok token_hash r (a\<lparr>sa_next_peer := sa_next_peer a + 1, sa_peers := (sa_peers a)(role := Some (sa_next_peer a + 1)),
      sa_channels := sa_channels a @ [\<lparr>pc_role = role, pc_token = token, pc_queue = [], pc_receiver = True, pc_accepted = []\<rparr>]\<rparr>)"
    (is "actor_ok _ _ ?a")
proof -
  have n: "sa_next_peer a = length (sa_channels a)" using assms(1) by (simp add: actor_ok_def peers_ok_def)
  have valid: "0 < i \<and> i \<le> length (sa_channels a) \<and> pc_role (sa_channels a ! (i - 1)) = role'" if "sa_peers a role' = Some i" for role' i
    using assms(1) that by (simp add: actor_ok_def peers_ok_def)
  have src: "sent_by role' t a \<Longrightarrow> sent_by role' t ?a" for role' t
    unfolding sent_by_def by (fastforce simp: nth_append)
  have "0 < i \<and> i \<le> length (sa_channels ?a) \<and> pc_role (sa_channels ?a ! (i - 1)) = role'" if "sa_peers ?a role' = Some i" for role' i
    using that n valid [of role' i] by (auto simp: nth_append split: if_splits)
  then have "peers_ok ?a" using n by (simp add: peers_ok_def)
  moreover have "texts_ok ?a" using assms(1) src by (auto simp: actor_ok_def texts_ok_def)
  moreover have "pending_peer_ok ?a" using assms(1) src by (simp add: actor_ok_def pending_peer_ok_def)
  moreover have "tokens_ok token_hash r ?a"
  proof -
    have "allowed_tokens r ?a = allowed_tokens r a" by (rule allowed_tokens_same) simp
    moreover have "token_hash (pc_token (sa_channels ?a ! (i - 1))) = token_hash (token_for role' (sa_record a))"
      if "sa_peers ?a role' = Some i" for role' i
    proof (cases "role' = role")
      case True
      then have "i = Suc (length (sa_channels a))" using that n by simp
      then show ?thesis using True assms(2) by simp
    next
      case False
      then have i: "sa_peers a role' = Some i" using that by simp
      then have "sa_channels ?a ! (i - 1) = sa_channels a ! (i - 1)" using valid [OF i] by (cases i) (auto simp: nth_append)
      then show ?thesis using assms(1) i by (simp add: actor_ok_def tokens_ok_def)
    qed
    moreover have "token_hash token \<in> token_hash ` allowed_tokens r a role"
      using assms unfolding actor_ok_def tokens_ok_def by auto
    ultimately show ?thesis using assms(1) by (simp add: actor_ok_def tokens_ok_def)
  qed
  ultimately show ?thesis by (simp add: actor_ok_def)
qed

lemma close_grown_ok: "actor_ok token_hash r a \<Longrightarrow> actor_ok token_hash r (fst (try_send i (Peer_Close code reason) a))"
  by (rule grown_ok [OF _ try_close_grown]) auto

lemma join_ok:
  assumes "actor_ok token_hash r a" "token_hash token = token_hash (token_for role (sa_record a))"
  shows "actor_ok token_hash r (fst (join role token a))"
  using open_channel_ok [OF assms] close_grown_ok hand_over_ok
  by (auto simp: join_def Let_def split: option.split)

lemma expire_ok: "actor_ok token_hash r a \<Longrightarrow> actor_ok token_hash r (expire_session reason a)"
proof -
  assume ok: "actor_ok token_hash r a"
  let ?b = "close_peer Agent_Role 4001 reason (close_peer Client 4001 reason (a\<lparr>sa_expires_at := 0\<rparr>))"
  have "actor_ok token_hash r ?b" using ok by (simp add: close_peer_ok)
  then have "actor_ok token_hash r (?b\<lparr>sa_commands := sa_commands ?b @ [End_Session_Command (sr_session_id (sa_record ?b))]\<rparr>)"
    by (rule grown_ok) (auto intro!: grown_refl)
  then show ?thesis by (simp add: expire_session_def)
qed

lemma touch_ok: "actor_ok token_hash r a \<Longrightarrow> actor_ok token_hash r (touch_session now updated a)"
  by (auto simp: touch_session_def expire_ok split: sum.split)

text \<open>Noting a signal of the current peer.\<close>

lemma note_signal:
  assumes "actor_ok token_hash r a" "sa_peers a role = Some peer"
  shows "actor_ok token_hash r (a\<lparr>sa_signals := sa_signals a @ [(peer, t)]\<rparr>)"
    "sent_by role t (a\<lparr>sa_signals := sa_signals a @ [(peer, t)]\<rparr>)"
proof -
  have mono: "sent_by role' t' a \<Longrightarrow> sent_by role' t' (a\<lparr>sa_signals := sa_signals a @ [(peer, t)]\<rparr>)" for role' t'
    by (auto simp: sent_by_def)
  show "actor_ok token_hash r (a\<lparr>sa_signals := sa_signals a @ [(peer, t)]\<rparr>)"
    using assms(1) mono by (simp add: actor_ok_def peers_ok_def texts_ok_def pending_peer_ok_def tokens_ok_def)
  show "sent_by role t (a\<lparr>sa_signals := sa_signals a @ [(peer, t)]\<rparr>)"
    using assms by (auto simp: sent_by_def actor_ok_def peers_ok_def)
qed

lemma forward_ok:
  assumes "actor_ok token_hash r a" "sa_peers a role = Some peer"
  shows "actor_ok token_hash r (fst (peer_send (other role) t (a\<lparr>sa_signals := sa_signals a @ [(peer, t)]\<rparr>)))"
    "actor_ok token_hash r ((fst (peer_send (other role) t (a\<lparr>sa_signals := sa_signals a @ [(peer, t)]\<rparr>)))
       \<lparr>sa_pending_terminal := Some (other role, t)\<rparr>)"
  using note_signal [OF assms] by (auto intro!: peer_send_ok pending_some_ok)

lemma signal_ok:
  assumes "actor_ok token_hash r a"
  shows "actor_ok token_hash r (actor_signal parse now updated role peer t a)"
proof (cases "sa_peers a role = Some peer")
  case True
  let ?s = "peer_send (other role) t (a\<lparr>sa_signals := sa_signals a @ [(peer, t)]\<rparr>)"
  note ok = assms close_peer_ok [OF assms] touch_ok [OF assms] expire_ok [OF assms] forward_ok [OF assms True, of t]
  show ?thesis
  proof (cases "parse t")
    case (Some signal)
    then show ?thesis using True ok by (cases signal; cases ?s) (simp_all add: actor_signal_def split: bool.split)
  qed (use True ok in \<open>simp add: actor_signal_def\<close>)
qed (use assms in \<open>simp add: actor_signal_def\<close>)

lemma renew_ok:
  assumes "actor_ok token_hash r a" "sa_peers a Agent_Role = None" "sr_client_token q = sr_client_token (sa_record a)"
  shows "actor_ok token_hash r (a\<lparr>sa_record := q, sa_expires_at := e,
      sa_commands := sa_commands a @ [Session_Request (sr_agent_request q)]\<rparr>)" (is "actor_ok _ _ ?a")
proof -
  have sub: "allowed_tokens r a role \<subseteq> allowed_tokens r ?a role" for role by (rule allowed_tokens_mono) auto
  have client: "sr_client_token (sa_record a) = sr_client_token r"
    using assms(1) unfolding actor_ok_def tokens_ok_def by (metis allowed_tokens_def singletonD token_for.simps(1))
  have "token_for role q \<in> allowed_tokens r ?a role" for role
    using client assms(3) by (cases role) (auto simp: allowed_tokens_def)
  moreover have "token_hash (pc_token c) \<in> token_hash ` allowed_tokens r ?a (pc_role c)" if "c \<in> set (sa_channels a)" for c
    using assms(1) sub that unfolding actor_ok_def tokens_ok_def by (metis image_mono subsetD)
  moreover have "token_hash (pc_token (sa_channels a ! (i - 1))) = token_hash (token_for role q)" if "sa_peers a role = Some i" for role i
    using assms that by (cases role) (auto simp: actor_ok_def tokens_ok_def)
  ultimately have "tokens_ok token_hash r ?a" by (simp add: tokens_ok_def)
  then show ?thesis using assms(1) by (simp add: actor_ok_def peers_ok_def texts_ok_def pending_peer_ok_def sent_by_def)
qed

lemma close_peer_record:
  "close_peer role code reason (a\<lparr>sa_record := q, sa_expires_at := e\<rparr>) = (close_peer role code reason a)\<lparr>sa_record := q, sa_expires_at := e\<rparr>"
  by (auto simp: close_peer_def try_send_def Let_def split: option.split)

lemma resumed_client_token [simp]: "sr_client_token (resumed_record e io q) = sr_client_token q"
  by (simp add: resumed_record_def)

lemma resume_ok:
  assumes "actor_ok token_hash r a"
  shows "actor_ok token_hash r (fst (resume h now io token a))"
proof -
  let ?b = "close_peer Agent_Role 4000 (lit ''superseded peer connection'') a"
  have "actor_ok token_hash r (?b\<lparr>sa_record := q, sa_expires_at := e, sa_commands := sa_commands ?b @ [Session_Request (sr_agent_request q)]\<rparr>)"
    if "sr_client_token q = sr_client_token (sa_record a)" for q e
    using close_peer_ok [OF assms] that by (intro renew_ok) simp_all
  then show ?thesis using assms expire_ok [OF assms]
    by (auto simp: resume_def close_peer_record Let_def split: sum.split option.split)
qed

lemma actor_handle_ok:
  assumes "actor_ok token_hash r a"
  shows "actor_ok token_hash r (fst (actor_handle token_hash parse now m a))"
proof (cases m)
  case (Join role token)
  then show ?thesis using assms join_ok [OF assms, of token role]
    by (auto simp: check_token_def token_matches_def split: if_splits prod.split)
next
  case (Resume token io)
  then show ?thesis using resume_ok [OF assms, of token_hash now io token] by (cases "resume token_hash now io token a") simp
next
  case (Left_Peer role peer)
  have "actor_ok token_hash r (a\<lparr>sa_peers := (sa_peers a)(role := None)\<rparr>)"
    by (rule grown_ok [OF assms grown_refl [where may = "\<lambda>_ _. False"]]) (auto split: if_splits)
  then show ?thesis using assms Left_Peer by simp
next
  case (Access_Changed reads)
  then show ?thesis using assms expire_ok [OF assms] by (simp split: sum.split option.split)
qed (use assms signal_ok [OF assms] expire_ok [OF assms] in simp_all)

lemma on_channel_ok:
  assumes "actor_ok token_hash r a"
    "\<And>c. pc_role (f c) = pc_role c \<and> pc_token (f c) = pc_token c \<and> pc_accepted (f c) = pc_accepted c"
  shows "actor_ok token_hash r (on_channel i f a)"
proof -
  have "grown (\<lambda>_ _. False) a (on_channel i f a)" using assms(2) by (auto simp: grown_def on_channel_def nth_update_at)
  then show ?thesis by (rule grown_ok [OF assms(1)]) (auto simp: on_channel_def split: if_splits)
qed

text \<open>After the end no socket is left and nothing changes any more but the sockets' own queues.\<close>

definition stop_ok :: "session_actor \<Rightarrow> bool" where
  "stop_ok a \<longleftrightarrow> (sa_stopped a \<longrightarrow> (\<forall>role. sa_peers a role = None) \<and> sa_expires_at a = 0
     \<and> End_Session_Command (sr_session_id (sa_record a)) \<in> set (sa_commands a))"

lemma expire_stops: "stop_ok (expire_session reason a)" "sa_stopped (expire_session reason a)" "sa_expires_at (expire_session reason a) = 0"
proof -
  have "sa_peers (expire_session reason a) role = None" for role by (cases role) (simp_all add: expire_session_def Let_def)
  then show "stop_ok (expire_session reason a)" by (simp add: stop_ok_def expire_session_def Let_def)
qed (simp_all add: expire_session_def Let_def)

lemma hand_over_keeps [simp]:
  "sa_stopped (hand_over role a) = sa_stopped a" "sa_expires_at (hand_over role a) = sa_expires_at a"
proof -
  have "sa_stopped (hand_over role a) = sa_stopped a \<and> sa_expires_at (hand_over role a) = sa_expires_at a"
  proof (cases "\<exists>t. sa_pending_terminal a = Some (role, t)")
    case True
    then obtain t where p: "sa_pending_terminal a = Some (role, t)" by blast
    let ?s = "peer_send role t (a\<lparr>sa_pending_terminal := None\<rparr>)"
    have "sa_stopped (fst ?s) = sa_stopped a" "sa_expires_at (fst ?s) = sa_expires_at a" by simp_all
    then show ?thesis using p by (cases ?s) (simp add: hand_over_def split: bool.split)
  next
    case False
    then have "hand_over role a = a" by (auto simp: hand_over_def split: option.split prod.split)
    then show ?thesis by simp
  qed
  then show "sa_stopped (hand_over role a) = sa_stopped a" "sa_expires_at (hand_over role a) = sa_expires_at a" by simp_all
qed

lemma join_keeps [simp]:
  "sa_stopped (fst (join role token a)) = sa_stopped a" "sa_expires_at (fst (join role token a)) = sa_expires_at a"
  by (simp_all add: join_def Let_def split: option.split)

text \<open>A message leaves the deadline and the actor alone, ends the session, or moves the deadline.\<close>

definition deadline_moved ::
    "(rust_string \<Rightarrow> rust_string) \<Rightarrow> (rust_string \<Rightarrow> signal_message option) \<Rightarrow> int \<Rightarrow> session_input \<Rightarrow> session_actor \<Rightarrow> bool" where
  "deadline_moved token_hash parse now m a \<longleftrightarrow> live now a \<and>
     (case m of
        Signal role peer t _ \<Rightarrow> role = Client \<and> sa_peers a Client = Some peer \<and> parse t = Some Activity
      | Resume token io \<Rightarrow>
          token_matches token_hash token (sr_client_token (sa_record a)) \<and> still_allowed (ro_reads io) a = Ok None
      | _ \<Rightarrow> False)"

definition outcome_ok :: "bool \<Rightarrow> int \<Rightarrow> session_actor \<Rightarrow> session_actor \<Rightarrow> bool" where
  "outcome_ok moved now a b \<longleftrightarrow>
     sa_stopped b = sa_stopped a \<and> sa_expires_at b = sa_expires_at a
     \<or> (\<exists>reason. b = expire_session reason a)
     \<or> moved \<and> sa_stopped b = sa_stopped a \<and> sa_expires_at b = now + sr_idle_timeout_ms (sa_record a)"

lemma same_outcome: "sa_stopped b = sa_stopped a \<Longrightarrow> sa_expires_at b = sa_expires_at a \<Longrightarrow> outcome_ok moved now a b"
  by (simp add: outcome_ok_def)

lemma expire_outcome: "outcome_ok moved now a (expire_session reason a)"
  by (auto simp: outcome_ok_def)

lemma signal_outcome:
  "outcome_ok (deadline_moved token_hash parse now (Signal role peer t updated) a) now a (actor_signal parse now updated role peer t a)"
proof (cases "sa_peers a role = Some peer")
  case True
  let ?s = "peer_send (other role) t (a\<lparr>sa_signals := sa_signals a @ [(peer, t)]\<rparr>)"
  have s: "sa_stopped (fst ?s) = sa_stopped a" "sa_expires_at (fst ?s) = sa_expires_at a" by simp_all
  show ?thesis
  proof (cases "parse t")
    case (Some signal)
    show ?thesis
    proof (cases signal)
      case Activity
      show ?thesis
      proof (cases "role = Client \<and> live now a")
        case True
        then show ?thesis using Some Activity \<open>sa_peers a role = Some peer\<close>
          by (cases updated) (auto simp: actor_signal_def touch_session_def expire_outcome same_outcome outcome_ok_def deadline_moved_def)
      next
        case False
        then show ?thesis using Some Activity \<open>sa_peers a role = Some peer\<close>
          by (cases role) (simp_all add: actor_signal_def touch_session_def same_outcome)
      qed
    qed (use True Some s in \<open>cases ?s; simp add: actor_signal_def same_outcome expire_outcome split: bool.split\<close>)+
  qed (use True in \<open>simp add: actor_signal_def same_outcome\<close>)
qed (simp add: actor_signal_def same_outcome)

lemma resume_outcome:
  "outcome_ok (deadline_moved token_hash parse now (Resume token io) a) now a (fst (resume token_hash now io token a))"
  by (auto simp: resume_def Let_def same_outcome expire_outcome outcome_ok_def deadline_moved_def split: sum.split option.split)

lemma handle_outcome: "outcome_ok (deadline_moved token_hash parse now m a) now a (fst (actor_handle token_hash parse now m a))"
proof (cases m)
  case (Join role token)
  then show ?thesis using join_keeps [of role token a] by (cases "join role token a") (simp add: same_outcome)
next
  case (Resume token io)
  then show ?thesis using resume_outcome [of token_hash parse now token io a]
    by (cases "resume token_hash now io token a") simp
next
  case (Signal role peer t updated)
  then show ?thesis using signal_outcome by simp
next
  case (Access_Changed reads)
  then show ?thesis by (simp add: same_outcome expire_outcome split: sum.split option.split)
qed (simp_all add: same_outcome expire_outcome)

lemma handle_stop: "\<not> sa_stopped a \<Longrightarrow> stop_ok (fst (actor_handle token_hash parse now m a))"
  using handle_outcome [of token_hash parse now m a] expire_stops(1) unfolding outcome_ok_def stop_ok_def by metis

interpretation session: step_system "actor_step token_hash parse" "\<lambda>a. actor_ok token_hash r a \<and> stop_ok a" "\<lambda>_ _. True"
  for token_hash parse r
proof
  fix a ev
  assume ok: "actor_ok token_hash r a \<and> stop_ok a"
  have "stop_ok (on_channel i f a)" for i f using ok by (simp add: stop_ok_def on_channel_def)
  then show "actor_ok token_hash r (fst (actor_step token_hash parse a ev)) \<and> stop_ok (fst (actor_step token_hash parse a ev))"
    using ok actor_handle_ok handle_stop on_channel_ok by (cases ev) simp_all
qed

lemma session_legal: "session.legal_run token_hash parse a evs"
  by (induction evs arbitrary: a) simp_all

lemma session_run_ok:
  "actor_ok token_hash r (fst (run (actor_step token_hash parse) (SessionActor_new r expires_at) evs))
   \<and> stop_ok (fst (run (actor_step token_hash parse) (SessionActor_new r expires_at) evs))"
proof -
  have "actor_ok token_hash r (SessionActor_new r expires_at) \<and> stop_ok (SessionActor_new r expires_at)"
    by (auto simp: SessionActor_new_def actor_ok_def peers_ok_def texts_ok_def pending_peer_ok_def tokens_ok_def stop_ok_def
        allowed_tokens_def)
      (metis peer_role.exhaust token_for.simps)+
  then show ?thesis by (rule session.run_inv [OF _ session_legal])
qed

section \<open>What a session promises\<close>

fun texts :: "peer_out list \<Rightarrow> rust_string list" where
  "texts [] = []"
| "texts (Peer_Text t # ms) = t # texts ms"
| "texts (Peer_Close _ _ # ms) = texts ms"

lemma set_texts: "t \<in> set (texts ms) \<longleftrightarrow> Peer_Text t \<in> set ms"
  by (induction ms rule: texts.induct) auto


text \<open>The deadline of a session moves only for its viewer: when a step changes it, the session has ended, or
  the current viewer's socket reported activity, or someone with the viewer's token resumed a session that its
  technician may still use; both need a session that is still live, and give it the idle time from now.
\<close>

theorem session_deadline_moves_for_viewer:
  assumes "sa_expires_at (fst (actor_step token_hash parse a ev)) \<noteq> sa_expires_at a"
  shows "(\<exists>reason. fst (actor_step token_hash parse a ev) = expire_session reason a)
    \<or> (\<exists>now m. ev = Handle now m \<and> deadline_moved token_hash parse now m a
         \<and> sa_expires_at (fst (actor_step token_hash parse a ev)) = now + sr_idle_timeout_ms (sa_record a))"
proof (cases ev)
  case (Handle now m)
  then have "\<not> sa_stopped a" using assms by auto
  then show ?thesis using assms handle_outcome [of token_hash parse now m a] Handle by (auto simp: outcome_ok_def)
qed (use assms in \<open>simp_all add: on_channel_def split: if_splits\<close>)

definition sample_session :: session_record where
  "sample_session =
     \<lparr>sr_session_id = [1], sr_device_id = [2], sr_user_id = [3], sr_client_token = [4], sr_idle_timeout_ms = 1000,
      sr_idle_disconnect = idle_policy_default, sr_display_border = True,
      sr_agent_request =
        \<lparr>as_start_in_background = False, as_idle_policy = \<lparr>tp_enabled = True, tp_allow_override = True\<rparr>,
         as_clear_clipboard_policy = \<lparr>tp_enabled = True, tp_allow_override = True\<rparr>, as_blackout_message = [],
         as_session_banner = True, as_connection_notification = True, as_background_connection_notification = False,
         as_connection_notification_message = [], as_connection_approval = None, as_connection_reason = [],
         as_viewer_name = [5], as_session_id = [1], as_signaling_token = [6], as_expires_at_unix_ms = 100,
         as_ice_servers = []\<rparr>\<rparr>"

definition sample_actor :: session_actor where
  "sample_actor = fst (join Client [4] (SessionActor_new sample_session 100))"

theorem session_deadline_moves_for_viewer_witness:
  "(\<exists>reason. fst (actor_step id (\<lambda>_. Some Activity) sample_actor (Handle 5 (Signal Client 1 [9] (Ok 1)))) = expire_session reason sample_actor)
   \<or> (\<exists>now m. Handle 5 (Signal Client 1 [9] (Ok 1)) = Handle now m \<and> deadline_moved id (\<lambda>_. Some Activity) now m sample_actor
        \<and> sa_expires_at (fst (actor_step id (\<lambda>_. Some Activity) sample_actor (Handle 5 (Signal Client 1 [9] (Ok 1)))))
           = now + sr_idle_timeout_ms (sa_record sample_actor))"
  by (rule session_deadline_moves_for_viewer)
    (simp add: sample_actor_def join_def SessionActor_new_def hand_over_def actor_signal_def touch_session_def live_def sample_session_def Let_def)

end
