(* ===== verification/Targets.thy ===== *)
theory Targets
  imports Rust_Strings Prelude "HOL-Library.List_Lexorder"
begin

text \<open>
  Which devices a job, policy or alert rule covers (\<open>server/src/targets.rs\<close>). Whether a string is a hyphenated
  UUID is the parameter \<open>uuid\<close>. Strings are ordered by their characters, which is the order of their bytes.
\<close>

section \<open>Targets\<close>

datatype target_kind = Kind_Devices | Kind_Companies | Kind_Tags | Kind_All

definition kind_as_str :: "target_kind \<Rightarrow> rust_string" where
  "kind_as_str k =
     (case k of
        Kind_Devices \<Rightarrow> lit ''devices'' | Kind_Companies \<Rightarrow> lit ''companies'' | Kind_Tags \<Rightarrow> lit ''tags''
      | Kind_All \<Rightarrow> lit ''all'')"

definition kind_parse :: "rust_string \<Rightarrow> target_kind option" where
  "kind_parse t =
     (if t = lit ''devices'' then Some Kind_Devices
      else if t = lit ''companies'' then Some Kind_Companies
      else if t = lit ''tags'' then Some Kind_Tags
      else if t = lit ''all'' then Some Kind_All
      else None)"

definition is_wide :: "target_kind \<Rightarrow> bool" where
  "is_wide k \<longleftrightarrow> k \<noteq> Kind_Devices"

datatype tag_match = Match_Any | Match_All

definition match_as_str :: "tag_match \<Rightarrow> rust_string" where
  "match_as_str m = (case m of Match_Any \<Rightarrow> lit ''any'' | Match_All \<Rightarrow> lit ''all'')"

definition match_parse :: "rust_string \<Rightarrow> tag_match option" where
  "match_parse t = (if t = lit ''any'' then Some Match_Any else if t = lit ''all'' then Some Match_All else None)"

datatype target =
    Devices "rust_string list"
  | Companies "rust_string list"
  | Tags "rust_string list" tag_match
  | All_Devices

record target_choice =
  ch_device_ids :: "rust_string list"
  ch_company_ids :: "rust_string list"
  ch_tag_ids :: "rust_string list"
  ch_tag_match :: tag_match

definition target_kind_of :: "target \<Rightarrow> target_kind" where
  "target_kind_of t =
     (case t of
        Devices _ \<Rightarrow> Kind_Devices | Companies _ \<Rightarrow> Kind_Companies | Tags _ _ \<Rightarrow> Kind_Tags | All_Devices \<Rightarrow> Kind_All)"

datatype target_error = Choose_One rust_string | Too_Many_Devices | Invalid_Id rust_string

definition MAX_CHOSEN_DEVICES :: nat where
  "MAX_CHOSEN_DEVICES = 10000"

text \<open>\<open>sort\<close> followed by \<open>dedup\<close>, after every ID was checked.\<close>

definition sort_dedup :: "rust_string list \<Rightarrow> rust_string list" where
  "sort_dedup ids = remdups_adj (sort ids)"

definition checked_ids :: "(rust_string \<Rightarrow> bool) \<Rightarrow> rust_string list \<Rightarrow> rust_string \<Rightarrow> target_error + rust_string list" where
  "checked_ids uuid ids what = (if list_all uuid ids then Ok (sort_dedup ids) else Err (Invalid_Id what))"

definition map_ok :: "('a \<Rightarrow> 'b) \<Rightarrow> 'e + 'a \<Rightarrow> 'e + 'b" where
  "map_ok f r = (case r of Inl e \<Rightarrow> Err e | Inr v \<Rightarrow> Ok (f v))"

definition from_request :: "(rust_string \<Rightarrow> bool) \<Rightarrow> target_kind \<Rightarrow> target_choice \<Rightarrow> target_error + target" where
  "from_request uuid kind c =
     (case kind of
        Kind_Devices \<Rightarrow>
          if ch_device_ids c = [] then Err (Choose_One (lit ''device''))
          else if MAX_CHOSEN_DEVICES < length (ch_device_ids c) then Err Too_Many_Devices
          else map_ok Devices (checked_ids uuid (ch_device_ids c) (lit ''device''))
      | Kind_Companies \<Rightarrow>
          if ch_company_ids c = [] then Err (Choose_One (lit ''company''))
          else map_ok Companies (checked_ids uuid (ch_company_ids c) (lit ''company''))
      | Kind_Tags \<Rightarrow>
          if ch_tag_ids c = [] then Err (Choose_One (lit ''tag''))
          else map_ok (\<lambda>ids. Tags ids (ch_tag_match c)) (checked_ids uuid (ch_tag_ids c) (lit ''tag''))
      | Kind_All \<Rightarrow> Ok All_Devices)"

definition from_stored :: "rust_string \<Rightarrow> rust_string \<Rightarrow> target_choice \<Rightarrow> target option" where
  "from_stored kind matching c =
     (case kind_parse kind of
        None \<Rightarrow> None
      | Some Kind_Devices \<Rightarrow> Some (Devices (ch_device_ids c))
      | Some Kind_Companies \<Rightarrow> Some (Companies (ch_company_ids c))
      | Some Kind_Tags \<Rightarrow> (case match_parse matching of None \<Rightarrow> None | Some m \<Rightarrow> Some (Tags (ch_tag_ids c) m))
      | Some Kind_All \<Rightarrow> Some All_Devices)"

definition target_device_ids :: "target \<Rightarrow> rust_string list" where
  "target_device_ids t = (case t of Devices ids \<Rightarrow> ids | _ \<Rightarrow> [])"

definition target_company_ids :: "target \<Rightarrow> rust_string list" where
  "target_company_ids t = (case t of Companies ids \<Rightarrow> ids | _ \<Rightarrow> [])"

definition target_tag_ids :: "target \<Rightarrow> rust_string list" where
  "target_tag_ids t = (case t of Tags ids _ \<Rightarrow> ids | _ \<Rightarrow> [])"

definition target_tag_match :: "target \<Rightarrow> tag_match" where
  "target_tag_match t = (case t of Tags _ m \<Rightarrow> m | _ \<Rightarrow> Match_Any)"

record target_device =
  td_id :: rust_string
  td_company_id :: "rust_string option"
  td_tag_ids :: "rust_string list"

definition covers :: "target \<Rightarrow> target_device \<Rightarrow> bool" where
  "covers t d =
     (case t of
        All_Devices \<Rightarrow> True
      | Devices ids \<Rightarrow> td_id d \<in> set ids
      | Companies ids \<Rightarrow> (case td_company_id d of None \<Rightarrow> False | Some c \<Rightarrow> c \<in> set ids)
      | Tags ids m \<Rightarrow>
          (case m of
             Match_Any \<Rightarrow> list_ex (\<lambda>i. i \<in> set (td_tag_ids d)) ids
           | Match_All \<Rightarrow> ids \<noteq> [] \<and> list_all (\<lambda>i. i \<in> set (td_tag_ids d)) ids))"

section \<open>Facts about targets\<close>

lemma kind_parse_as_str [simp]: "kind_parse (kind_as_str k) = Some k"
  by (cases k) (simp_all add: kind_parse_def kind_as_str_def)

lemma match_parse_as_str [simp]: "match_parse (match_as_str m) = Some m"
  by (cases m) (simp_all add: match_parse_def match_as_str_def)

lemma distinct_remdups_adj: "sorted xs \<Longrightarrow> distinct (remdups_adj xs)"
  by (induction xs rule: remdups_adj.induct) (auto simp: order.antisym)

lemma sort_dedup_props: "set (sort_dedup ids) = set ids" "sorted (sort_dedup ids)" "distinct (sort_dedup ids)"
  by (simp_all add: sort_dedup_def distinct_remdups_adj)

lemma sort_dedup_idem: "sort_dedup (sort_dedup ids) = sort_dedup ids"
  using sort_dedup_props [of ids] by (simp add: sort_dedup_def [of "sort_dedup ids"] sorted_sort_id remdups_adj_distinct)

lemma sort_sort_dedup [simp]: "sort (sort_dedup ids) = sort_dedup ids"
  by (simp add: sorted_sort_id sort_dedup_props)

lemma sort_dedup_empty [simp]: "sort_dedup ids = [] \<longleftrightarrow> ids = []"
  using sort_dedup_props(1) [of ids] by (metis set_empty)

lemma length_sort_dedup: "length (sort_dedup ids) \<le> length ids"
  by (simp add: sort_dedup_def order_trans [OF remdups_adj_length])

lemma from_request_kind: "from_request uuid k c = Ok t \<Longrightarrow> target_kind_of t = k"
  by (cases k) (auto simp: from_request_def map_ok_def target_kind_of_def split: sum.splits if_splits)

end
