(* ===== verification/Floats.thy ===== *)
theory Floats
  imports Complex_Main Rust_Strings
begin

text \<open>
  Rust's \<open>f64\<close> as far as the server uses it: a value is a real number, an infinity or not a number, and each
  operation rounds the exact result to the nearest binary64 value, ties to even (IEEE 754). Zeros carry no
  sign, which no comparison and no operation used here can tell.
\<close>

datatype f64 = NaN | Infinite bool | Finite real

definition round_half_even :: "real \<Rightarrow> int" where
  "round_half_even r =
     (let f = \<lfloor>r\<rfloor>; d = r - of_int f in
      if d < 1 / 2 then f else if 1 / 2 < d then f + 1 else if even f then f else f + 1)"

text \<open>Rounding: 53 bits of precision, subnormals from \<open>2 ^ - 1074\<close>, overflow at \<open>2 ^ 1024\<close>.\<close>

definition f64_round :: "real \<Rightarrow> f64" where
  "f64_round x =
     (if x = 0 then Finite 0
      else
        let e = max (\<lfloor>log 2 \<bar>x\<bar>\<rfloor> - 52) (- 1074); q = 2 powr of_int e; y = of_int (round_half_even (x / q)) * q in
        if 2 ^ 1024 \<le> \<bar>y\<bar> then Infinite (x < 0) else Finite y)"

definition f64_of_int :: "int \<Rightarrow> f64" where
  "f64_of_int i = f64_round (of_int i)"

definition is_finite :: "f64 \<Rightarrow> bool" where
  "is_finite a = (case a of Finite _ \<Rightarrow> True | _ \<Rightarrow> False)"

fun f64_less :: "f64 \<Rightarrow> f64 \<Rightarrow> bool" where
  "f64_less (Finite a) (Finite b) \<longleftrightarrow> a < b"
| "f64_less (Infinite s) (Finite _) \<longleftrightarrow> s"
| "f64_less (Finite _) (Infinite s) \<longleftrightarrow> \<not> s"
| "f64_less (Infinite s) (Infinite t) \<longleftrightarrow> s \<and> \<not> t"
| "f64_less _ _ \<longleftrightarrow> False"

fun f64_le :: "f64 \<Rightarrow> f64 \<Rightarrow> bool" where
  "f64_le (Finite a) (Finite b) \<longleftrightarrow> a \<le> b"
| "f64_le (Infinite s) (Finite _) \<longleftrightarrow> s"
| "f64_le (Finite _) (Infinite s) \<longleftrightarrow> \<not> s"
| "f64_le (Infinite s) (Infinite t) \<longleftrightarrow> s \<or> \<not> t"
| "f64_le _ _ \<longleftrightarrow> False"

fun f64_add :: "f64 \<Rightarrow> f64 \<Rightarrow> f64" where
  "f64_add (Finite a) (Finite b) = f64_round (a + b)"
| "f64_add (Infinite s) (Finite _) = Infinite s"
| "f64_add (Finite _) (Infinite s) = Infinite s"
| "f64_add (Infinite s) (Infinite t) = (if s = t then Infinite s else NaN)"
| "f64_add _ _ = NaN"

fun f64_mul :: "f64 \<Rightarrow> f64 \<Rightarrow> f64" where
  "f64_mul (Finite a) (Finite b) = f64_round (a * b)"
| "f64_mul (Infinite s) (Finite a) = (if a = 0 then NaN else Infinite (s \<noteq> (a < 0)))"
| "f64_mul (Finite a) (Infinite s) = (if a = 0 then NaN else Infinite (s \<noteq> (a < 0)))"
| "f64_mul (Infinite s) (Infinite t) = Infinite (s \<noteq> t)"
| "f64_mul _ _ = NaN"

fun f64_div :: "f64 \<Rightarrow> f64 \<Rightarrow> f64" where
  "f64_div (Finite a) (Finite b) =
     (if b = 0 then (if a = 0 then NaN else Infinite (a < 0)) else f64_round (a / b))"
| "f64_div (Infinite s) (Finite b) = Infinite (s \<noteq> (b < 0))"
| "f64_div (Finite _) (Infinite _) = Finite 0"
| "f64_div _ _ = NaN"

definition f64_sum :: "f64 list \<Rightarrow> f64" where
  "f64_sum xs = foldl f64_add (Finite 0) xs"

text \<open>\<open>f64::round\<close>: to the nearest integer, halves away from zero.\<close>

definition f64_nearest :: "f64 \<Rightarrow> f64" where
  "f64_nearest a =
     (case a of
        Finite x \<Rightarrow> Finite (if 0 \<le> x then of_int \<lfloor>x + 1 / 2\<rfloor> else - of_int \<lfloor>- x + 1 / 2\<rfloor>)
      | _ \<Rightarrow> a)"

text \<open>\<open>format!("{value:.2}")\<close>: the exact value rounded to two decimals, ties to even.\<close>

definition decimal_pair :: "nat \<Rightarrow> rust_string" where
  "decimal_pair n = [48 + n div 10 mod 10, 48 + n mod 10]"

definition show_2_decimals :: "f64 \<Rightarrow> rust_string" where
  "show_2_decimals a =
     (case a of
        NaN \<Rightarrow> lit ''NaN''
      | Infinite s \<Rightarrow> (if s then lit ''-inf'' else lit ''inf'')
      | Finite x \<Rightarrow>
          let n = nat (round_half_even (\<bar>x\<bar> * 100)) in
          (if x < 0 then lit ''-'' else []) @ show_dec (n div 100) @ lit ''.'' @ decimal_pair (n mod 100))"

definition show_int :: "int \<Rightarrow> rust_string" where
  "show_int i = (if i < 0 then lit ''-'' @ show_dec (nat (- i)) else show_dec (nat i))"

end
