(* ===== verification/Alert_Rules.thy ===== *)
theory Alert_Rules
  imports Targets Floats
begin

text \<open>
  Alert rules (\<open>server/src/alerts/rules.rs\<close>): what raises an alert, the checks on a rule the website sends, and
  how a rule is stored in its tables and read back. A table is the list of its rows; \<open>i64\<close> columns are integers.
\<close>

section \<open>Rules\<close>

datatype severity = Sev_Info | Sev_Warning | Sev_Critical

definition severity_as_str :: "severity \<Rightarrow> rust_string" where
  "severity_as_str s =
     (case s of Sev_Info \<Rightarrow> lit ''info'' | Sev_Warning \<Rightarrow> lit ''warning'' | Sev_Critical \<Rightarrow> lit ''critical'')"

definition severity_parse :: "rust_string \<Rightarrow> severity option" where
  "severity_parse t =
     (if t = lit ''info'' then Some Sev_Info else if t = lit ''warning'' then Some Sev_Warning
      else if t = lit ''critical'' then Some Sev_Critical else None)"

datatype condition =
    DeviceOffline | DiskSpace | Cpu | Memory | ScriptFailed | UpdatesPending | UpdateInstallFailed | RebootPending

definition condition_as_str :: "condition \<Rightarrow> rust_string" where
  "condition_as_str c =
     (case c of
        DeviceOffline \<Rightarrow> lit ''device_offline'' | DiskSpace \<Rightarrow> lit ''disk_space'' | Cpu \<Rightarrow> lit ''cpu''
      | Memory \<Rightarrow> lit ''memory'' | ScriptFailed \<Rightarrow> lit ''script_failed'' | UpdatesPending \<Rightarrow> lit ''updates_pending''
      | UpdateInstallFailed \<Rightarrow> lit ''update_install_failed'' | RebootPending \<Rightarrow> lit ''reboot_pending'')"

definition condition_parse :: "rust_string \<Rightarrow> condition option" where
  "condition_parse t =
     (if t = lit ''device_offline'' then Some DeviceOffline
      else if t = lit ''disk_space'' then Some DiskSpace
      else if t = lit ''cpu'' then Some Cpu
      else if t = lit ''memory'' then Some Memory
      else if t = lit ''script_failed'' then Some ScriptFailed
      else if t = lit ''updates_pending'' then Some UpdatesPending
      else if t = lit ''update_install_failed'' then Some UpdateInstallFailed
      else if t = lit ''reboot_pending'' then Some RebootPending
      else None)"

definition clears_itself :: "condition \<Rightarrow> bool" where
  "clears_itself c \<longleftrightarrow> \<not> (c = ScriptFailed \<or> c = UpdateInstallFailed)"

datatype threshold_unit = Percent | Gb

definition unit_as_str :: "threshold_unit \<Rightarrow> rust_string" where
  "unit_as_str u = (case u of Percent \<Rightarrow> lit ''percent'' | Gb \<Rightarrow> lit ''gb'')"

definition unit_parse :: "rust_string \<Rightarrow> threshold_unit option" where
  "unit_parse t = (if t = lit ''percent'' then Some Percent else if t = lit ''gb'' then Some Gb else None)"

datatype update_category =
    Cat_Security | Cat_Critical | Cat_Definition | Cat_Driver | Cat_FeaturePack | Cat_ServicePack | Cat_UpdateRollup
  | Cat_Upgrade | Cat_Tool | Cat_Other

definition categories :: "update_category list" where
  "categories =
     [Cat_Security, Cat_Critical, Cat_Definition, Cat_Driver, Cat_FeaturePack, Cat_ServicePack, Cat_UpdateRollup,
      Cat_Upgrade, Cat_Tool, Cat_Other]"

definition category_as_str :: "update_category \<Rightarrow> rust_string" where
  "category_as_str c =
     (case c of
        Cat_Security \<Rightarrow> lit ''security'' | Cat_Critical \<Rightarrow> lit ''critical'' | Cat_Definition \<Rightarrow> lit ''definition''
      | Cat_Driver \<Rightarrow> lit ''driver'' | Cat_FeaturePack \<Rightarrow> lit ''feature_pack'' | Cat_ServicePack \<Rightarrow> lit ''service_pack''
      | Cat_UpdateRollup \<Rightarrow> lit ''update_rollup'' | Cat_Upgrade \<Rightarrow> lit ''upgrade'' | Cat_Tool \<Rightarrow> lit ''tool''
      | Cat_Other \<Rightarrow> lit ''other'')"

definition category_parse :: "rust_string \<Rightarrow> update_category option" where
  "category_parse t = find (\<lambda>c. category_as_str c = t) categories"

definition category_label :: "update_category \<Rightarrow> rust_string" where
  "category_label c =
     (case c of
        Cat_Security \<Rightarrow> lit ''Security'' | Cat_Critical \<Rightarrow> lit ''Critical'' | Cat_Definition \<Rightarrow> lit ''Definition''
      | Cat_Driver \<Rightarrow> lit ''Driver'' | Cat_FeaturePack \<Rightarrow> lit ''Feature pack'' | Cat_ServicePack \<Rightarrow> lit ''Service pack''
      | Cat_UpdateRollup \<Rightarrow> lit ''Update rollup'' | Cat_Upgrade \<Rightarrow> lit ''Upgrade'' | Cat_Tool \<Rightarrow> lit ''Tool''
      | Cat_Other \<Rightarrow> lit ''Other'')"

record alert_rule =
  ru_id :: rust_string
  ru_name :: rust_string
  ru_severity :: severity
  ru_enabled :: bool
  ru_condition :: condition
  ru_threshold :: "f64 option"
  ru_threshold_unit :: "threshold_unit option"
  ru_duration_minutes :: "int option"
  ru_nonzero_exit_fails :: bool
  ru_update_category :: "rust_string option"
  ru_days :: "int option"
  ru_target :: target
  ru_channel_ids :: "rust_string list"
  ru_notify_on_resolve :: bool
  ru_created_at :: int
  ru_updated_at :: int

definition rule_category :: "alert_rule \<Rightarrow> update_category option" where
  "rule_category r = Option.bind (ru_update_category r) category_parse"

definition rule_covers :: "alert_rule \<Rightarrow> target_device \<Rightarrow> bool" where
  "rule_covers r d = covers (ru_target r) d"

definition format_number :: "f64 \<Rightarrow> rust_string" where
  "format_number v = trim_end_matches 46 (trim_end_matches 48 (show_2_decimals v))"

definition plural :: "int \<Rightarrow> rust_string \<Rightarrow> rust_string" where
  "plural n noun = (if n = 1 then lit ''1 '' @ noun else show_int n @ lit '' '' @ noun @ lit ''s'')"

definition f64_or_zero :: "f64 option \<Rightarrow> f64" where
  "f64_or_zero v = (case v of None \<Rightarrow> Finite 0 | Some x \<Rightarrow> x)"

definition int_or :: "int \<Rightarrow> int option \<Rightarrow> int" where
  "int_or d v = (case v of None \<Rightarrow> d | Some x \<Rightarrow> x)"

definition rule_describe :: "alert_rule \<Rightarrow> rust_string" where
  "rule_describe r =
     (let threshold = format_number (f64_or_zero (ru_threshold r));
          minutes = plural (int_or 0 (ru_duration_minutes r)) (lit ''minute'');
          days = plural (int_or 0 (ru_days r)) (lit ''day'') in
      case ru_condition r of
        DeviceOffline \<Rightarrow> lit ''Offline for '' @ minutes
      | DiskSpace \<Rightarrow>
          lit ''Free disk space below '' @ threshold @ (if ru_threshold_unit r = Some Gb then lit '' GB'' else lit ''%'')
      | Cpu \<Rightarrow> lit ''CPU above '' @ threshold @ lit ''% for '' @ minutes
      | Memory \<Rightarrow> lit ''Memory above '' @ threshold @ lit ''% for '' @ minutes
      | ScriptFailed \<Rightarrow>
          if ru_nonzero_exit_fails r then lit ''A script fails or exits with an error code''
          else lit ''A script fails, times out or doesn't report''
      | UpdatesPending \<Rightarrow>
          (case rule_category r of
             Some c \<Rightarrow> category_label c @ lit '' updates pending for '' @ days
           | None \<Rightarrow> lit ''Updates pending for '' @ days)
      | UpdateInstallFailed \<Rightarrow> lit ''An update install fails''
      | RebootPending \<Rightarrow> lit ''Restart pending for '' @ days)"

section \<open>Checking a rule\<close>

record rule_input =
  ri_name :: rust_string
  ri_severity :: severity
  ri_enabled :: bool
  ri_condition :: condition
  ri_threshold :: "f64 option"
  ri_threshold_unit :: "threshold_unit option"
  ri_duration_minutes :: "int option"
  ri_nonzero_exit_fails :: bool
  ri_update_category :: "rust_string option"
  ri_days :: "int option"
  ri_target :: target_kind
  ri_company_ids :: "rust_string list"
  ri_tag_ids :: "rust_string list"
  ri_tag_match :: tag_match
  ri_channel_ids :: "rust_string list"
  ri_notify_on_resolve :: bool

datatype rule_error =
    Bad_Name | Bad_Percent rust_string | Bad_Minutes int | Bad_Gb | No_Unit | Bad_Days | Bad_Category | Devices_Target
  | Bad_Target target_error

definition MAX_NAME_LENGTH :: nat where
  "MAX_NAME_LENGTH = 120"

definition MAX_OFFLINE_MINUTES :: int where
  "MAX_OFFLINE_MINUTES = 7 * 24 * 60"

definition MAX_SUSTAINED_MINUTES :: int where
  "MAX_SUSTAINED_MINUTES = 60"

definition MAX_PENDING_DAYS :: int where
  "MAX_PENDING_DAYS = 365"

definition ANY_CATEGORY :: rust_string where
  "ANY_CATEGORY = lit ''any''"

definition MAX_GB :: f64 where
  "MAX_GB = Finite 1000000"

definition check_percent :: "f64 option \<Rightarrow> rust_string \<Rightarrow> rule_error + f64" where
  "check_percent threshold what =
     (case threshold of
        Some v \<Rightarrow> if is_finite v \<and> f64_less (Finite 0) v \<and> f64_less v (Finite 100) then Ok v else Err (Bad_Percent what)
      | None \<Rightarrow> Err (Bad_Percent what))"

definition check_minutes :: "int option \<Rightarrow> int \<Rightarrow> rule_error + int" where
  "check_minutes duration most =
     (case duration of
        Some v \<Rightarrow> if 1 \<le> v \<and> v \<le> most then Ok v else Err (Bad_Minutes most)
      | None \<Rightarrow> Err (Bad_Minutes most))"

definition check_days :: "int option \<Rightarrow> rule_error + int" where
  "check_days days =
     (case days of
        Some v \<Rightarrow> if 1 \<le> v \<and> v \<le> MAX_PENDING_DAYS then Ok v else Err Bad_Days
      | None \<Rightarrow> Err Bad_Days)"

text \<open>The threshold, its unit and the duration a condition uses.\<close>

definition check_threshold :: "rule_input \<Rightarrow> rule_error + f64 option \<times> threshold_unit option \<times> int option" where
  "check_threshold i =
     (case ri_condition i of
        DeviceOffline \<Rightarrow> map_ok (\<lambda>m. (None, None, Some m)) (check_minutes (ri_duration_minutes i) MAX_OFFLINE_MINUTES)
      | DiskSpace \<Rightarrow>
          (case ri_threshold_unit i of
             Some Percent \<Rightarrow> map_ok (\<lambda>p. (Some p, Some Percent, None)) (check_percent (ri_threshold i) (lit ''free space''))
           | Some Gb \<Rightarrow>
               (case ri_threshold i of
                  Some v \<Rightarrow>
                    if is_finite v \<and> f64_less (Finite 0) v \<and> f64_le v MAX_GB then Ok (Some v, Some Gb, None) else Err Bad_Gb
                | None \<Rightarrow> Err Bad_Gb)
           | None \<Rightarrow> Err No_Unit)
      | Cpu \<Rightarrow>
          and_then (check_percent (ri_threshold i) (lit ''load'')) (\<lambda>p.
            map_ok (\<lambda>m. (Some p, None, Some m)) (check_minutes (ri_duration_minutes i) MAX_SUSTAINED_MINUTES))
      | Memory \<Rightarrow>
          and_then (check_percent (ri_threshold i) (lit ''load'')) (\<lambda>p.
            map_ok (\<lambda>m. (Some p, None, Some m)) (check_minutes (ri_duration_minutes i) MAX_SUSTAINED_MINUTES))
      | _ \<Rightarrow> Ok (None, None, None))"

definition check_updates :: "rule_input \<Rightarrow> rule_error + rust_string option \<times> int option" where
  "check_updates i =
     (case ri_condition i of
        UpdatesPending \<Rightarrow>
          (case map_option str_trim (ri_update_category i) of
             Some c \<Rightarrow>
               if c = ANY_CATEGORY \<or> category_parse c \<noteq> None then map_ok (\<lambda>d. (Some c, Some d)) (check_days (ri_days i))
               else Err Bad_Category
           | None \<Rightarrow> Err Bad_Category)
      | RebootPending \<Rightarrow> map_ok (\<lambda>d. (None, Some d)) (check_days (ri_days i))
      | _ \<Rightarrow> Ok (None, None))"

definition check_target :: "(rust_string \<Rightarrow> bool) \<Rightarrow> rule_input \<Rightarrow> rule_error + target" where
  "check_target uuid i =
     (if ri_target i = Kind_Devices then Err Devices_Target
      else case from_request uuid (ri_target i)
          \<lparr>ch_device_ids = [], ch_company_ids = ri_company_ids i, ch_tag_ids = ri_tag_ids i, ch_tag_match = ri_tag_match i\<rparr> of
        Inl e \<Rightarrow> Err (Bad_Target e)
      | Inr t \<Rightarrow> Ok t)"

definition validate :: "(rust_string \<Rightarrow> bool) \<Rightarrow> rule_input \<Rightarrow> rule_error + rule_input" where
  "validate uuid i =
     (let name = str_trim (ri_name i) in
      if name = [] \<or> MAX_NAME_LENGTH < length name \<or> list_ex char_is_control name then Err Bad_Name
      else
        and_then (check_threshold i) (\<lambda>(threshold, unit, duration).
        and_then (check_updates i) (\<lambda>(category, days).
        map_ok (\<lambda>t.
            i\<lparr>ri_name := name, ri_threshold := threshold, ri_threshold_unit := unit, ri_duration_minutes := duration,
              ri_nonzero_exit_fails := (ri_condition i = ScriptFailed \<and> ri_nonzero_exit_fails i),
              ri_update_category := category, ri_days := days,
              ri_company_ids := target_company_ids t, ri_tag_ids := target_tag_ids t, ri_tag_match := target_tag_match t,
              ri_channel_ids := sort_dedup (ri_channel_ids i)\<rparr>)
          (check_target uuid i))))"

definition scope :: "rule_input \<Rightarrow> target" where
  "scope i =
     (case ri_target i of
        Kind_Companies \<Rightarrow> Companies (ri_company_ids i)
      | Kind_Tags \<Rightarrow> Tags (ri_tag_ids i) (ri_tag_match i)
      | _ \<Rightarrow> All_Devices)"

section \<open>Storing a rule\<close>

record rule_row =
  rr_id :: rust_string
  rr_name :: rust_string
  rr_severity :: rust_string
  rr_enabled :: bool
  rr_condition :: rust_string
  rr_threshold :: "f64 option"
  rr_threshold_unit :: "rust_string option"
  rr_duration_minutes :: "int option"
  rr_nonzero_exit_fails :: bool
  rr_update_category :: "rust_string option"
  rr_days :: "int option"
  rr_target :: rust_string
  rr_tag_match :: rust_string
  rr_notify_on_resolve :: bool
  rr_created_at :: int
  rr_updated_at :: int

text \<open>The tables of rules, of their companies, tags and channels.\<close>

record rule_tables =
  rt_rules :: "rule_row list"
  rt_companies :: "(rust_string \<times> rust_string) list"
  rt_tags :: "(rust_string \<times> rust_string) list"
  rt_channels :: "(rust_string \<times> rust_string) list"

definition input_row :: "rust_string \<Rightarrow> rule_input \<Rightarrow> int \<Rightarrow> int \<Rightarrow> rule_row" where
  "input_row i input created now =
     \<lparr>rr_id = i, rr_name = ri_name input, rr_severity = severity_as_str (ri_severity input), rr_enabled = ri_enabled input,
      rr_condition = condition_as_str (ri_condition input), rr_threshold = ri_threshold input,
      rr_threshold_unit = map_option unit_as_str (ri_threshold_unit input), rr_duration_minutes = ri_duration_minutes input,
      rr_nonzero_exit_fails = ri_nonzero_exit_fails input, rr_update_category = ri_update_category input,
      rr_days = ri_days input, rr_target = kind_as_str (ri_target input), rr_tag_match = match_as_str (ri_tag_match input),
      rr_notify_on_resolve = ri_notify_on_resolve input, rr_created_at = created, rr_updated_at = now\<rparr>"

definition unlink :: "rust_string \<Rightarrow> (rust_string \<times> rust_string) list \<Rightarrow> (rust_string \<times> rust_string) list" where
  "unlink i pairs = filter (\<lambda>(rule, _). rule \<noteq> i) pairs"

definition save :: "rule_tables \<Rightarrow> rust_string \<Rightarrow> rule_input \<Rightarrow> int \<Rightarrow> bool \<Rightarrow> rule_tables" where
  "save ts i input now create =
     (let ts =
        (if create then ts\<lparr>rt_rules := rt_rules ts @ [input_row i input now now]\<rparr>
         else
           ts\<lparr>rt_rules := map (\<lambda>row. if rr_id row = i then input_row i input (rr_created_at row) now else row) (rt_rules ts),
              rt_companies := unlink i (rt_companies ts), rt_tags := unlink i (rt_tags ts),
              rt_channels := unlink i (rt_channels ts)\<rparr>) in
      ts\<lparr>rt_companies := rt_companies ts @ map (Pair i) (ri_company_ids input),
         rt_tags := rt_tags ts @ map (Pair i) (ri_tag_ids input),
         rt_channels := rt_channels ts @ map (Pair i) (ri_channel_ids input)\<rparr>)"

text \<open>\<open>grouped\<close>: a rule's entries of a table of pairs, in order.\<close>

definition grouped :: "(rust_string \<times> rust_string) list \<Rightarrow> rust_string \<Rightarrow> rust_string list" where
  "grouped pairs i = sort (map snd (filter (\<lambda>(rule, _). rule = i) pairs))"

definition row_rule :: "rule_tables \<Rightarrow> rule_row \<Rightarrow> alert_rule option" where
  "row_rule ts row =
     (case (severity_parse (rr_severity row), condition_parse (rr_condition row),
            from_stored (rr_target row) (rr_tag_match row)
              \<lparr>ch_device_ids = [], ch_company_ids = grouped (rt_companies ts) (rr_id row),
               ch_tag_ids = grouped (rt_tags ts) (rr_id row), ch_tag_match = Match_Any\<rparr>) of
        (Some severity, Some condition, Some target) \<Rightarrow>
          Some \<lparr>ru_id = rr_id row, ru_name = rr_name row, ru_severity = severity, ru_enabled = rr_enabled row,
            ru_condition = condition, ru_threshold = rr_threshold row,
            ru_threshold_unit = Option.bind (rr_threshold_unit row) unit_parse,
            ru_duration_minutes = rr_duration_minutes row, ru_nonzero_exit_fails = rr_nonzero_exit_fails row,
            ru_update_category = rr_update_category row, ru_days = rr_days row, ru_target = target,
            ru_channel_ids = grouped (rt_channels ts) (rr_id row), ru_notify_on_resolve = rr_notify_on_resolve row,
            ru_created_at = rr_created_at row, ru_updated_at = rr_updated_at row\<rparr>
      | _ \<Rightarrow> None)"

text \<open>All rules by name, or only one.\<close>

definition load_rules :: "rule_tables \<Rightarrow> rust_string option \<Rightarrow> alert_rule list" where
  "load_rules ts only =
     List.map_filter (row_rule ts)
       (sort_key rr_name (filter (\<lambda>row. case only of None \<Rightarrow> True | Some i \<Rightarrow> rr_id row = i) (rt_rules ts)))"

definition rule_by_id :: "rule_tables \<Rightarrow> rust_string \<Rightarrow> alert_rule option" where
  "rule_by_id ts i = (case load_rules ts (Some i) of [] \<Rightarrow> None | r # _ \<Rightarrow> Some r)"

section \<open>What a stored rule is\<close>

lemma severity_parse_as_str [simp]: "severity_parse (severity_as_str s) = Some s"
  by (cases s) (simp_all add: severity_parse_def severity_as_str_def)

lemma condition_parse_as_str [simp]: "condition_parse (condition_as_str c) = Some c"
  by (cases c) (simp_all add: condition_parse_def condition_as_str_def)

lemma unit_parse_as_str [simp]: "unit_parse (unit_as_str u) = Some u"
  by (cases u) (simp_all add: unit_parse_def unit_as_str_def)

lemma unit_bind [simp]: "Option.bind (map_option unit_as_str u) unit_parse = u"
  by (cases u) simp_all

lemma map_ok_Ok: "map_ok f r = Ok v \<longleftrightarrow> (\<exists>x. r = Ok x \<and> v = f x)"
  by (auto simp: map_ok_def split: sum.split)

text \<open>The request a validated rule's target comes from.\<close>

definition input_choice :: "rule_input \<Rightarrow> target_choice" where
  "input_choice i =
     \<lparr>ch_device_ids = [], ch_company_ids = ri_company_ids i, ch_tag_ids = ri_tag_ids i, ch_tag_match = ri_tag_match i\<rparr>"

lemma check_target_Ok:
  "check_target uuid i = Ok t \<longleftrightarrow> ri_target i \<noteq> Kind_Devices \<and> from_request uuid (ri_target i) (input_choice i) = Ok t"
  by (auto simp: check_target_def input_choice_def split: sum.splits)

lemma validate_Ok:
  assumes "validate uuid i = Ok v"
  obtains t where "ri_target i \<noteq> Kind_Devices" "from_request uuid (ri_target i) (input_choice i) = Ok t"
    "ri_target v = ri_target i" "ri_company_ids v = target_company_ids t" "ri_tag_ids v = target_tag_ids t"
    "ri_tag_match v = target_tag_match t" "ri_channel_ids v = sort_dedup (ri_channel_ids i)"
  using assms that
  by (auto simp: validate_def Let_def and_then_ok_iff map_ok_Ok check_target_Ok split: if_splits prod.splits)

lemma validate_scope:
  assumes "validate uuid i = Ok v"
  shows "from_request uuid (ri_target i) (input_choice i) = Ok (scope v)"
proof -
  obtain t where t: "ri_target i \<noteq> Kind_Devices" "from_request uuid (ri_target i) (input_choice i) = Ok t"
      "ri_target v = ri_target i" "ri_company_ids v = target_company_ids t" "ri_tag_ids v = target_tag_ids t"
      "ri_tag_match v = target_tag_match t"
    using assms by (rule validate_Ok)
  have "scope v = t"
    using t(1,3-6) from_request_kind [OF t(2)]
    by (cases t) (auto simp: scope_def target_kind_of_def target_company_ids_def target_tag_ids_def target_tag_match_def)
  then show ?thesis using t(2) by simp
qed

lemma from_request_ids:
  "from_request uuid k c = Ok t \<Longrightarrow>
     sort (target_company_ids t) = target_company_ids t \<and> sort (target_tag_ids t) = target_tag_ids t"
  by (cases k) (auto simp: from_request_def map_ok_Ok checked_ids_def target_company_ids_def target_tag_ids_def split: if_splits)

lemma stored_scope:
  assumes "validate uuid i = Ok v"
  shows "from_stored (kind_as_str (ri_target v)) (match_as_str (ri_tag_match v))
      \<lparr>ch_device_ids = [], ch_company_ids = sort (ri_company_ids v), ch_tag_ids = sort (ri_tag_ids v), ch_tag_match = m\<rparr>
    = Some (scope v)"
proof -
  obtain t where t: "ri_target i \<noteq> Kind_Devices" "from_request uuid (ri_target i) (input_choice i) = Ok t"
      "ri_target v = ri_target i" "ri_company_ids v = target_company_ids t" "ri_tag_ids v = target_tag_ids t"
    using assms by (rule validate_Ok)
  then show ?thesis using from_request_ids [OF t(2)]
    by (cases "ri_target i") (simp_all add: from_stored_def scope_def)
qed

text \<open>Every rule has its own row, and the links belong to rules.\<close>

definition links_ok :: "rule_tables \<Rightarrow> (rust_string \<times> rust_string) list \<Rightarrow> bool" where
  "links_ok ts pairs \<longleftrightarrow> fst ` set pairs \<subseteq> rr_id ` set (rt_rules ts)"

definition tables_ok :: "rule_tables \<Rightarrow> bool" where
  "tables_ok ts \<longleftrightarrow> distinct (map rr_id (rt_rules ts))
     \<and> links_ok ts (rt_companies ts) \<and> links_ok ts (rt_tags ts) \<and> links_ok ts (rt_channels ts)"

definition has_rule :: "rule_tables \<Rightarrow> rust_string \<Rightarrow> bool" where
  "has_rule ts i \<longleftrightarrow> i \<in> rr_id ` set (rt_rules ts)"

definition created_at :: "rule_tables \<Rightarrow> rust_string \<Rightarrow> int \<Rightarrow> int" where
  "created_at ts i now = (case find (\<lambda>row. rr_id row = i) (rt_rules ts) of None \<Rightarrow> now | Some row \<Rightarrow> rr_created_at row)"

lemma filter_distinct_key:
  "distinct (map key xs) \<Longrightarrow> filter (\<lambda>x. key x = k) xs = (case find (\<lambda>x. key x = k) xs of None \<Rightarrow> [] | Some x \<Rightarrow> [x])"
  by (induction xs) (auto simp: filter_empty_conv find_Some_iff split: option.splits)

lemma rule_by_id_alt:
  assumes "distinct (map rr_id (rt_rules ts))"
  shows "rule_by_id ts i = Option.bind (find (\<lambda>row. rr_id row = i) (rt_rules ts)) (row_rule ts)"
  using filter_distinct_key [OF assms, of i]
  by (simp add: rule_by_id_def load_rules_def List.map_filter_def split: option.split)

lemma grouped_append: "grouped (ps @ map (Pair i) xs) j = sort (map snd (filter (\<lambda>(r, _). r = j) ps) @ (if i = j then xs else []))"
  by (auto simp: grouped_def o_def)

lemma unlinked: "map snd (filter (\<lambda>(r, _). r = i) (unlink i ps)) = []"
  by (auto simp: unlink_def filter_empty_conv)

lemma unlink_other: "i \<noteq> j \<Longrightarrow> filter (\<lambda>(r, _). r = j) (unlink i ps) = filter (\<lambda>(r, _). r = j) ps"
  by (induction ps) (auto simp: unlink_def)

lemma no_links: "links_ok ts ps \<Longrightarrow> \<not> has_rule ts i \<Longrightarrow> map snd (filter (\<lambda>(r, _). r = i) ps) = []"
  by (force simp: links_ok_def has_rule_def filter_empty_conv)

lemma find_input_row:
  "find (\<lambda>row. rr_id row = j) (rt_rules (save ts i v now create)) =
     (if j \<noteq> i then find (\<lambda>row. rr_id row = j) (rt_rules ts)
      else if create then (case find (\<lambda>row. rr_id row = i) (rt_rules ts) of None \<Rightarrow> Some (input_row i v now now) | r \<Rightarrow> r)
      else map_option (\<lambda>row. input_row i v (rr_created_at row) now) (find (\<lambda>row. rr_id row = i) (rt_rules ts)))"
proof -
  have "find (\<lambda>row. rr_id row = j) (rows @ [input_row i v now now]) =
      (case find (\<lambda>row. rr_id row = j) rows of None \<Rightarrow> if j = i then Some (input_row i v now now) else None | r \<Rightarrow> r)" for rows
    by (induction rows) (auto simp: input_row_def)
  moreover have "find (\<lambda>row. rr_id row = j) (map (\<lambda>row. if rr_id row = i then input_row i v (rr_created_at row) now else row) rows) =
      (if j \<noteq> i then find (\<lambda>row. rr_id row = j) rows
       else map_option (\<lambda>row. input_row i v (rr_created_at row) now) (find (\<lambda>row. rr_id row = i) rows))" for rows
    by (induction rows) (auto simp: input_row_def)
  ultimately show ?thesis by (auto simp: save_def Let_def split: option.split)
qed

lemma save_ids:
  "map rr_id (rt_rules (save ts i v now create)) = map rr_id (rt_rules ts) @ (if create then [i] else [])"
  by (auto simp: save_def Let_def input_row_def o_def)

lemma save_tables:
  "rt_companies (save ts i v now create) = (if create then rt_companies ts else unlink i (rt_companies ts)) @ map (Pair i) (ri_company_ids v)"
  "rt_tags (save ts i v now create) = (if create then rt_tags ts else unlink i (rt_tags ts)) @ map (Pair i) (ri_tag_ids v)"
  "rt_channels (save ts i v now create) = (if create then rt_channels ts else unlink i (rt_channels ts)) @ map (Pair i) (ri_channel_ids v)"
  by (simp_all add: save_def Let_def)

lemma save_links:
  assumes "tables_ok ts" "create \<longleftrightarrow> \<not> has_rule ts i"
  shows "grouped (rt_companies (save ts i v now create)) j = (if i = j then sort (ri_company_ids v) else grouped (rt_companies ts) j)"
    "grouped (rt_tags (save ts i v now create)) j = (if i = j then sort (ri_tag_ids v) else grouped (rt_tags ts) j)"
    "grouped (rt_channels (save ts i v now create)) j = (if i = j then sort (ri_channel_ids v) else grouped (rt_channels ts) j)"
proof -
  have "grouped ((if create then ps else unlink i ps) @ map (Pair i) xs) j = (if i = j then sort xs else grouped ps j)"
    if "links_ok ts ps" for ps xs
    using that assms(2) no_links [OF that, of i] unlinked [of i ps]
    by (cases create; cases "i = j") (simp_all only: grouped_append append_Nil append_Nil2 if_True if_False unlink_other
        not_False_eq_True grouped_def [of ps] simp_thms)
  then show "grouped (rt_companies (save ts i v now create)) j = (if i = j then sort (ri_company_ids v) else grouped (rt_companies ts) j)"
    "grouped (rt_tags (save ts i v now create)) j = (if i = j then sort (ri_tag_ids v) else grouped (rt_tags ts) j)"
    "grouped (rt_channels (save ts i v now create)) j = (if i = j then sort (ri_channel_ids v) else grouped (rt_channels ts) j)"
    using assms(1) by (simp_all only: save_tables tables_ok_def)
qed

lemma save_ok:
  assumes "tables_ok ts" "create \<longleftrightarrow> \<not> has_rule ts i"
  shows "tables_ok (save ts i v now create)"
proof -
  have ids: "rr_id ` set (rt_rules (save ts i v now create)) = insert i (rr_id ` set (rt_rules ts))"
    using save_ids [of ts i v now create] assms(2) by (auto simp: has_rule_def simp flip: set_map)
  have "fst ` set ((if create then ps else unlink i ps) @ map (Pair i) xs) \<subseteq> insert i (rr_id ` set (rt_rules ts))"
    if "fst ` set ps \<subseteq> rr_id ` set (rt_rules ts)" for ps xs
    using that by (auto simp: unlink_def)
  moreover have "distinct (map rr_id (rt_rules (save ts i v now create)))"
    using assms by (auto simp: save_ids tables_ok_def has_rule_def)
  ultimately show ?thesis using assms(1) by (simp only: tables_ok_def links_ok_def ids save_tables simp_thms)
qed

text \<open>The rule that a validated request describes.\<close>

definition rule_of_input :: "rust_string \<Rightarrow> rule_input \<Rightarrow> int \<Rightarrow> int \<Rightarrow> alert_rule" where
  "rule_of_input i v created now =
     \<lparr>ru_id = i, ru_name = ri_name v, ru_severity = ri_severity v, ru_enabled = ri_enabled v, ru_condition = ri_condition v,
      ru_threshold = ri_threshold v, ru_threshold_unit = ri_threshold_unit v, ru_duration_minutes = ri_duration_minutes v,
      ru_nonzero_exit_fails = ri_nonzero_exit_fails v, ru_update_category = ri_update_category v, ru_days = ri_days v,
      ru_target = scope v, ru_channel_ids = ri_channel_ids v, ru_notify_on_resolve = ri_notify_on_resolve v,
      ru_created_at = created, ru_updated_at = now\<rparr>"

lemma row_rule_saved:
  assumes "validate uuid input = Ok v" "tables_ok ts" "create \<longleftrightarrow> \<not> has_rule ts i"
  shows "row_rule (save ts i v now create) (input_row i v created now) = Some (rule_of_input i v created now)"
proof -
  have "sort (ri_channel_ids v) = ri_channel_ids v" using assms(1) by (rule validate_Ok) simp
  then show ?thesis
    by (simp add: row_rule_def input_row_def rule_of_input_def save_links [OF assms(2,3)] stored_scope [OF assms(1)])
qed

lemma row_rule_other:
  assumes "tables_ok ts" "create \<longleftrightarrow> \<not> has_rule ts i" "rr_id row \<noteq> i"
  shows "row_rule (save ts i v now create) row = row_rule ts row"
proof -
  have "i \<noteq> rr_id row" using assms(3) by simp
  then show ?thesis unfolding row_rule_def save_links [OF assms(1,2)] by (simp only: if_False)
qed


definition sample_input :: rule_input where
  "sample_input =
     \<lparr>ri_name = [32, 65, 32], ri_severity = Sev_Warning, ri_enabled = True, ri_condition = DiskSpace, ri_threshold = Some (Finite 10),
      ri_threshold_unit = Some Gb, ri_duration_minutes = Some 5, ri_nonzero_exit_fails = True, ri_update_category = None,
      ri_days = None, ri_target = Kind_Tags, ri_company_ids = [[7]], ri_tag_ids = [[9], [8], [9]], ri_tag_match = Match_All,
      ri_channel_ids = [[4], [3]], ri_notify_on_resolve = False\<rparr>"

definition sample_checked :: rule_input where
  "sample_checked = sample_input\<lparr>ri_name := [65], ri_duration_minutes := None, ri_nonzero_exit_fails := False,
     ri_company_ids := [], ri_tag_ids := [[8], [9]], ri_channel_ids := [[3], [4]]\<rparr>"

lemma sample_validates: "validate (\<lambda>_. True) sample_input = Ok sample_checked"
  by (simp add: validate_def sample_input_def sample_checked_def Let_def str_trim_def is_whitespace_def char_is_control_def
      MAX_NAME_LENGTH_def check_threshold_def is_finite_def MAX_GB_def and_then_def check_updates_def check_target_def
      from_request_def map_ok_def checked_ids_def sort_dedup_def target_company_ids_def target_tag_ids_def target_tag_match_def)

definition no_rules :: rule_tables where
  "no_rules = \<lparr>rt_rules = [], rt_companies = [], rt_tags = [], rt_channels = []\<rparr>"


end
