(* ===== verification/Alert_Tracker.thy ===== *)
theory Alert_Tracker
  imports Alert_Rules
begin

text \<open>
  Judging device-state rules (\<open>server/src/alerts/evaluate.rs\<close>): what the engine remembers of each device and when
  a rule's condition holds. Times are Unix milliseconds. How a time reads is the parameter \<open>format_time\<close> (chrono);
  a CPU load, an \<open>f32\<close> in the source, is the \<open>f64\<close> it converts to exactly.
\<close>

section \<open>The tracker\<close>

definition SECOND_MS :: int where
  "SECOND_MS = 1000"

definition TIME_MINUTE_MS :: int where
  "TIME_MINUTE_MS = 60 * SECOND_MS"

definition DAY_MS :: int where
  "DAY_MS = 24 * (60 * TIME_MINUTE_MS)"

definition COVERAGE_SLACK_MS :: int where
  "COVERAGE_SLACK_MS = 10 * SECOND_MS"

definition STALE_MS :: int where
  "STALE_MS = 30 * SECOND_MS"

definition GIB :: f64 where
  "GIB = Finite (1024 * 1024 * 1024)"

record volume_usage =
  vu_name :: rust_string
  vu_total_bytes :: u64
  vu_free_bytes :: u64

record system_metrics =
  me_cpu_percent :: f64
  me_memory_used_bytes :: u64
  me_memory_total_bytes :: u64
  me_volumes :: "volume_usage list"

record sample =
  sm_at :: int
  sm_cpu_percent :: f64
  sm_memory_percent :: f64

record tracker =
  tk_samples :: "rust_string \<Rightarrow> sample list option"
  tk_offline_since :: "rust_string \<Rightarrow> int option"

definition Tracker_default :: tracker where
  "Tracker_default = \<lparr>tk_samples = (\<lambda>_. None), tk_offline_since = (\<lambda>_. None)\<rparr>"

definition u64_f64 :: "u64 \<Rightarrow> f64" where
  "u64_f64 n = f64_of_int (uint n)"

definition memory_percent :: "system_metrics \<Rightarrow> f64" where
  "memory_percent m =
     (if me_memory_total_bytes m = 0 then Finite 0
      else f64_mul (f64_div (u64_f64 (me_memory_used_bytes m)) (u64_f64 (me_memory_total_bytes m))) (Finite 100))"

definition sample_of :: "int \<Rightarrow> system_metrics \<Rightarrow> sample" where
  "sample_of tm m = \<lparr>sm_at = tm, sm_cpu_percent = me_cpu_percent m, sm_memory_percent = memory_percent m\<rparr>"

definition WINDOW_MS :: int where
  "WINDOW_MS = MAX_SUSTAINED_MINUTES * TIME_MINUTE_MS + COVERAGE_SLACK_MS"

definition observe :: "rust_string \<Rightarrow> int \<Rightarrow> system_metrics \<Rightarrow> tracker \<Rightarrow> tracker" where
  "observe d tm m t =
     (let ss = (case tk_samples t d of None \<Rightarrow> [] | Some ss \<Rightarrow> ss) in
      if ss \<noteq> [] \<and> tm \<le> sm_at (last ss) then t
      else
        t\<lparr>tk_samples := (tk_samples t)(d \<mapsto> dropWhile (\<lambda>s. sm_at s < tm - MAX_SUSTAINED_MINUTES * TIME_MINUTE_MS - COVERAGE_SLACK_MS)
            (ss @ [sample_of tm m]))\<rparr>)"

definition note_device :: "rust_string list \<Rightarrow> int \<Rightarrow> rust_string \<Rightarrow> tracker \<Rightarrow> tracker" where
  "note_device online now d t =
     (if d \<in> set online then t\<lparr>tk_offline_since := (tk_offline_since t)(d := None)\<rparr>
      else
        t\<lparr>tk_offline_since := (tk_offline_since t)(d := (case tk_offline_since t d of None \<Rightarrow> Some now | s \<Rightarrow> s)),
          tk_samples := (tk_samples t)(d := None)\<rparr>)"

definition note_presence :: "rust_string list \<Rightarrow> rust_string list \<Rightarrow> int \<Rightarrow> tracker \<Rightarrow> tracker" where
  "note_presence devices online now t =
     (let t = fold (note_device online now) devices t in
      t\<lparr>tk_offline_since := (\<lambda>d. if d \<in> set devices then tk_offline_since t d else None),
        tk_samples := (\<lambda>d. if d \<in> set devices then tk_samples t d else None)\<rparr>)"

definition forget_device :: "rust_string \<Rightarrow> tracker \<Rightarrow> tracker" where
  "forget_device d t = t\<lparr>tk_samples := (tk_samples t)(d := None), tk_offline_since := (tk_offline_since t)(d := None)\<rparr>"

definition sustained :: "tracker \<Rightarrow> rust_string \<Rightarrow> int \<Rightarrow> int \<Rightarrow> (sample \<Rightarrow> f64) \<Rightarrow> f64 option" where
  "sustained t d minutes now f =
     (case tk_samples t d of
        None \<Rightarrow> None
      | Some ss \<Rightarrow>
          let from = now - minutes * TIME_MINUTE_MS in
          if ss = [] then None
          else if from + COVERAGE_SLACK_MS < sm_at (hd ss) \<or> sm_at (last ss) < now - STALE_MS then None
          else
            let w = map f (filter (\<lambda>s. from < sm_at s) ss) in
            if w = [] then None else Some (f64_div (f64_sum w) (f64_of_int (int (length w)))))"

section \<open>Judging a rule\<close>

record update_facts =
  uf_pending :: "(update_category \<times> int) list"
  uf_reboot_pending_since :: "int option"

record device_state =
  ds_id :: rust_string
  ds_connected :: bool
  ds_updating :: bool
  ds_latest :: "system_metrics option"
  ds_updates :: "update_facts option"

record breach =
  br_subject :: rust_string
  br_value :: f64
  br_detail :: rust_string

datatype verdict = Unknown_Verdict | Known "breach list"

definition round2 :: "f64 \<Rightarrow> f64" where
  "round2 v = f64_div (f64_nearest (f64_mul v (Finite 100))) (Finite 100)"

text \<open>Division of integers as Rust does it, towards zero, for a positive divisor.\<close>

definition trunc_div :: "int \<Rightarrow> int \<Rightarrow> int" where
  "trunc_div a b = (if 0 \<le> a then a div b else - (- a div b))"

definition judge_volume :: "threshold_unit \<Rightarrow> f64 \<Rightarrow> volume_usage \<Rightarrow> breach option" where
  "judge_volume unit threshold v =
     (let free_gb = f64_div (u64_f64 (vu_free_bytes v)) GIB;
          free_percent = f64_mul (f64_div (u64_f64 (vu_free_bytes v)) (u64_f64 (vu_total_bytes v))) (Finite 100);
          value = (case unit of Percent \<Rightarrow> free_percent | Gb \<Rightarrow> free_gb) in
      if f64_less value threshold then
        Some \<lparr>br_subject = vu_name v, br_value = round2 value,
              br_detail = vu_name v @ lit '' has '' @ format_number free_gb @ lit '' GB free ('' @ format_number free_percent @ lit ''%)''\<rparr>
      else None)"

definition judge_offline :: "alert_rule \<Rightarrow> device_state \<Rightarrow> tracker \<Rightarrow> int \<Rightarrow> verdict" where
  "judge_offline rule d t now =
     (if ds_connected d then Known []
      else case tk_offline_since t (ds_id d) of
        None \<Rightarrow> Unknown_Verdict
      | Some since \<Rightarrow>
          if \<not> ds_updating d \<and> int_or 1 (ru_duration_minutes rule) * TIME_MINUTE_MS \<le> now - since then
            let offline = trunc_div (now - since) TIME_MINUTE_MS in
            Known [\<lparr>br_subject = [], br_value = f64_of_int offline,
                    br_detail = lit ''Offline for '' @ plural offline (lit ''minute'')\<rparr>]
          else Unknown_Verdict)"

definition judge_disk :: "alert_rule \<Rightarrow> device_state \<Rightarrow> verdict" where
  "judge_disk rule d =
     (case ds_latest d of
        Some latest \<Rightarrow>
          if ds_connected d then
            Known (List.map_filter
              (judge_volume (case ru_threshold_unit rule of None \<Rightarrow> Percent | Some u \<Rightarrow> u) (f64_or_zero (ru_threshold rule)))
              (filter (\<lambda>v. 0 < vu_total_bytes v) (me_volumes latest)))
          else Unknown_Verdict
      | None \<Rightarrow> Unknown_Verdict)"

definition judge_load :: "rust_string \<Rightarrow> (sample \<Rightarrow> f64) \<Rightarrow> alert_rule \<Rightarrow> device_state \<Rightarrow> tracker \<Rightarrow> int \<Rightarrow> verdict" where
  "judge_load what f rule d t now =
     (let minutes = int_or 1 (ru_duration_minutes rule) in
      if \<not> ds_connected d then Unknown_Verdict
      else case sustained t (ds_id d) minutes now f of
        None \<Rightarrow> Unknown_Verdict
      | Some average \<Rightarrow>
          if f64_less (f64_or_zero (ru_threshold rule)) average then
            Known [\<lparr>br_subject = [], br_value = round2 average,
                    br_detail = what @ lit '' averaged '' @ format_number average @ lit ''% over '' @ plural minutes (lit ''minute'')\<rparr>]
          else Known [])"

definition judge_updates :: "(int \<Rightarrow> rust_string) \<Rightarrow> alert_rule \<Rightarrow> device_state \<Rightarrow> int \<Rightarrow> verdict" where
  "judge_updates format_time rule d now =
     (case ds_updates d of
        None \<Rightarrow> Unknown_Verdict
      | Some facts \<Rightarrow>
          let days = int_or 1 (ru_days rule); category = rule_category rule;
              overdue = filter (\<lambda>first_seen. days * DAY_MS \<le> now - first_seen)
                (map snd (filter (\<lambda>(pending, _). case category of None \<Rightarrow> True | Some c \<Rightarrow> c = pending) (uf_pending facts)));
              noun = (case category of Some c \<Rightarrow> map ascii_lower (category_label c) @ lit '' update'' | None \<Rightarrow> lit ''update'') in
          if overdue = [] then Known []
          else
            Known [\<lparr>br_subject = [], br_value = f64_of_int (int (length overdue)),
                    br_detail = plural (int (length overdue)) noun @ lit '' pending for more than '' @ plural days (lit ''day'')
                      @ lit '', the oldest since '' @ format_time (Min (set overdue))\<rparr>])"

definition judge_reboot :: "(int \<Rightarrow> rust_string) \<Rightarrow> alert_rule \<Rightarrow> device_state \<Rightarrow> int \<Rightarrow> verdict" where
  "judge_reboot format_time rule d now =
     (case ds_updates d of
        None \<Rightarrow> Unknown_Verdict
      | Some facts \<Rightarrow>
          (case uf_reboot_pending_since facts of
             Some since \<Rightarrow>
               if int_or 1 (ru_days rule) * DAY_MS \<le> now - since then
                 Known [\<lparr>br_subject = [], br_value = f64_of_int (trunc_div (now - since) DAY_MS),
                         br_detail = lit ''Has had to restart to finish installing updates since '' @ format_time since\<rparr>]
               else Known []
           | None \<Rightarrow> Known []))"

definition judge :: "(int \<Rightarrow> rust_string) \<Rightarrow> alert_rule \<Rightarrow> device_state \<Rightarrow> tracker \<Rightarrow> int \<Rightarrow> verdict" where
  "judge format_time rule d t now =
     (case ru_condition rule of
        DeviceOffline \<Rightarrow> judge_offline rule d t now
      | DiskSpace \<Rightarrow> judge_disk rule d
      | Cpu \<Rightarrow> judge_load (lit ''CPU'') sm_cpu_percent rule d t now
      | Memory \<Rightarrow> judge_load (lit ''Memory'') sm_memory_percent rule d t now
      | UpdatesPending \<Rightarrow> judge_updates format_time rule d now
      | RebootPending \<Rightarrow> judge_reboot format_time rule d now
      | _ \<Rightarrow> Unknown_Verdict)"

section \<open>Runs of the tracker\<close>

datatype tracker_event =
    Observe rust_string int system_metrics
  | Note_Presence "rust_string list" "rust_string list" int
  | Forget rust_string

fun tracker_step :: "tracker \<Rightarrow> tracker_event \<Rightarrow> tracker \<times> unit" where
  "tracker_step t (Observe d tm m) = (observe d tm m t, ())"
| "tracker_step t (Note_Presence devices online now) = (note_presence devices online now t, ())"
| "tracker_step t (Forget d) = (forget_device d t, ())"

text \<open>
  The reference, over the whole history. An evaluation sees a device offline when it is enrolled and not
  connected; the device is offline from the first of the latest unbroken series of such evaluations.
\<close>

fun offline_seen :: "rust_string \<Rightarrow> tracker_event \<Rightarrow> (bool \<times> int) option" where
  "offline_seen d (Note_Presence devices online now) = Some (d \<in> set devices \<and> d \<notin> set online, now)"
| "offline_seen d (Forget e) = (if d = e then Some (False, 0) else None)"
| "offline_seen d (Observe _ _ _) = None"

definition offline_from :: "rust_string \<Rightarrow> tracker_event list \<Rightarrow> int option" where
  "offline_from d evs =
     (case rev (takeWhile fst (rev (List.map_filter (offline_seen d) evs))) of [] \<Rightarrow> None | (_, tm) # _ \<Rightarrow> Some tm)"

text \<open>A device's readings since it was last disconnected, gone or forgotten, each newer than the one before.\<close>

fun clears :: "rust_string \<Rightarrow> tracker_event \<Rightarrow> bool" where
  "clears d (Note_Presence devices online _) \<longleftrightarrow> d \<notin> set devices \<or> d \<notin> set online"
| "clears d (Forget e) \<longleftrightarrow> d = e"
| "clears d (Observe _ _ _) \<longleftrightarrow> False"

fun reading :: "rust_string \<Rightarrow> tracker_event \<Rightarrow> sample option" where
  "reading d (Observe e tm m) = (if d = e then Some (sample_of tm m) else None)"
| "reading d _ = None"

definition add_newer :: "sample \<Rightarrow> sample list \<Rightarrow> sample list" where
  "add_newer s ss = (if ss \<noteq> [] \<and> sm_at s \<le> sm_at (last ss) then ss else ss @ [s])"

definition readings_since :: "rust_string \<Rightarrow> tracker_event list \<Rightarrow> sample list" where
  "readings_since d evs = fold add_newer (List.map_filter (reading d) (rev (takeWhile (\<lambda>e. \<not> clears d e) (rev evs)))) []"

text \<open>What the window of the longest rule still needs of them.\<close>

definition recent :: "sample list \<Rightarrow> sample list" where
  "recent ss = filter (\<lambda>s. sm_at (last ss) - WINDOW_MS \<le> sm_at s) ss"

lemma map_filter_snoc: "List.map_filter f (xs @ [x]) = List.map_filter f xs @ (case f x of None \<Rightarrow> [] | Some y \<Rightarrow> [y])"
  by (cases "f x") (simp_all add: List.map_filter_def)

lemma offline_from_Nil [simp]: "offline_from d [] = None"
  by (simp add: offline_from_def List.map_filter_def)

lemma offline_from_snoc:
  "offline_from d (evs @ [e]) =
     (case offline_seen d e of
        None \<Rightarrow> offline_from d evs
      | Some (off, tm) \<Rightarrow> if off then (case offline_from d evs of None \<Rightarrow> Some tm | s \<Rightarrow> s) else None)"
  by (auto simp: offline_from_def map_filter_snoc split: option.split list.split prod.split)

lemma readings_since_Nil [simp]: "readings_since d [] = []"
  by (simp add: readings_since_def List.map_filter_def)

lemma readings_since_snoc:
  "readings_since d (evs @ [e]) =
     (if clears d e then [] else case reading d e of None \<Rightarrow> readings_since d evs | Some s \<Rightarrow> add_newer s (readings_since d evs))"
  by (simp add: readings_since_def map_filter_snoc List.map_filter_def split: option.split)

lemma readings_sorted: "sorted_wrt (\<lambda>a b. sm_at a < sm_at b) (readings_since d evs)"
proof (induction evs rule: rev_induct)
  case (snoc e evs)
  have "sorted_wrt (\<lambda>a b. sm_at a < sm_at b) (add_newer s ss)" if "sorted_wrt (\<lambda>a b. sm_at a < sm_at b) ss" for s ss
    using that by (cases ss rule: rev_cases) (force simp: add_newer_def sorted_wrt_append)+
  then show ?case using snoc by (simp add: readings_since_snoc split: option.split)
qed simp

lemma dropWhile_filter:
  "sorted_wrt (\<lambda>a b. sm_at a < sm_at b) ss \<Longrightarrow> dropWhile (\<lambda>s. sm_at s < k) ss = filter (\<lambda>s. k \<le> sm_at s) ss"
proof (induction ss)
  case (Cons s ss)
  show ?case
  proof (cases "sm_at s < k")
    case False
    then have "filter (\<lambda>s. k \<le> sm_at s) ss = ss" using Cons.prems by (auto simp: filter_id_conv)
    then show ?thesis using False by simp
  qed (use Cons in simp)
qed simp

lemma recent_last: "ss \<noteq> [] \<Longrightarrow> recent ss \<noteq> [] \<and> last (recent ss) = last ss"
  by (cases ss rule: rev_cases)
    (simp_all add: recent_def WINDOW_MS_def MAX_SUSTAINED_MINUTES_def TIME_MINUTE_MS_def SECOND_MS_def COVERAGE_SLACK_MS_def)

lemma recent_snoc:
  assumes "sorted_wrt (\<lambda>a b. sm_at a < sm_at b) (ss @ [s])"
  shows "dropWhile (\<lambda>x. sm_at x < sm_at s - WINDOW_MS) (recent ss @ [s]) = recent (ss @ [s])"
proof -
  have "sorted_wrt (\<lambda>a b. sm_at a < sm_at b) (recent ss @ [s])"
    using assms by (auto simp: sorted_wrt_append recent_def sorted_wrt_filter)
  moreover have "sm_at (last ss) \<le> sm_at s" if "ss \<noteq> []"
    using assms that last_in_set [OF that] by (simp add: sorted_wrt_append less_imp_le)
  ultimately show ?thesis
    by (cases "ss = []") (auto simp: dropWhile_filter recent_def intro!: filter_cong)
qed

text \<open>What an evaluation notes of one device.\<close>

lemma noted:
  "tk_offline_since (fold (note_device online now) devices t) d =
     (if d \<in> set devices then if d \<in> set online then None else (case tk_offline_since t d of None \<Rightarrow> Some now | s \<Rightarrow> s)
      else tk_offline_since t d)"
  "tk_samples (fold (note_device online now) devices t) d = (if d \<in> set devices \<and> d \<notin> set online then None else tk_samples t d)"
  by (induction devices arbitrary: t) (auto simp: note_device_def split: option.split)

definition remembers :: "tracker \<Rightarrow> tracker_event list \<Rightarrow> rust_string \<Rightarrow> bool" where
  "remembers t evs d \<longleftrightarrow> tk_offline_since t d = offline_from d evs
     \<and> tk_samples t d = (if readings_since d evs = [] then None else Some (recent (readings_since d evs)))"

lemma observe_remembers:
  assumes "remembers t evs d"
  shows "remembers (observe e tm m t) (evs @ [Observe e tm m]) d"
proof (cases "d = e")
  case True
  define rs where "rs = readings_since d evs"
  let ?s = "sample_of tm m" and ?old = "if rs = [] then [] else recent rs"
  have ss: "(case tk_samples t e of None \<Rightarrow> [] | Some ss \<Rightarrow> ss) = ?old" "tk_offline_since t d = offline_from d evs"
    using assms True by (simp_all add: remembers_def rs_def)
  have tm: "sm_at ?s = tm" by (simp add: sample_of_def)
  have sorted: "sorted_wrt (\<lambda>a b. sm_at a < sm_at b) (readings_since d (evs @ [Observe e tm m]))" by (rule readings_sorted)
  have new: "readings_since d (evs @ [Observe e tm m]) = add_newer ?s rs" using True by (simp add: readings_since_snoc rs_def)
  show ?thesis
  proof (cases "rs \<noteq> [] \<and> tm \<le> sm_at (last rs)")
    case True
    then have "observe e tm m t = t" using ss recent_last by (simp add: observe_def Let_def)
    then show ?thesis using assms True tm new by (simp add: remembers_def offline_from_snoc add_newer_def rs_def)
  next
    case False
    then have eq: "add_newer ?s rs = rs @ [?s]" using tm by (auto simp: add_newer_def)
    have "observe e tm m t = t\<lparr>tk_samples := (tk_samples t)(e \<mapsto> dropWhile (\<lambda>s. sm_at s < tm - WINDOW_MS) (?old @ [?s]))\<rparr>"
      using False ss recent_last [of rs] by (auto simp: observe_def Let_def WINDOW_MS_def algebra_simps)
    moreover have "dropWhile (\<lambda>s. sm_at s < tm - WINDOW_MS) (?old @ [?s]) = recent (rs @ [?s])"
      using recent_snoc [of rs ?s] sorted new eq tm by (simp add: recent_def)
    ultimately show ?thesis using ss new eq \<open>d = e\<close> by (simp add: remembers_def offline_from_snoc)
  qed
next
  case False
  then show ?thesis using assms by (simp add: remembers_def observe_def Let_def offline_from_snoc readings_since_snoc)
qed

lemma run_remembers:
  "remembers (fst (run tracker_step Tracker_default evs)) evs d"
proof (induction evs rule: rev_induct)
  case (snoc e evs)
  define t where "t = fst (run tracker_step Tracker_default evs)"
  have ih: "remembers t evs d" using snoc by (simp add: t_def)
  have "remembers (fst (tracker_step t e)) (evs @ [e]) d"
  proof (cases e)
    case (Observe f tm m)
    then show ?thesis using observe_remembers [OF ih] by simp
  next
    case (Note_Presence devices online now)
    then show ?thesis using ih
      by (simp add: remembers_def note_presence_def Let_def noted offline_from_snoc readings_since_snoc)
  next
    case (Forget f)
    then show ?thesis using ih by (simp add: remembers_def forget_device_def offline_from_snoc readings_since_snoc)
  qed
  then show ?case by (simp add: run_append Let_def t_def)
qed (simp add: remembers_def Tracker_default_def)

text \<open>C28: The tracker remembers exactly what judging needs. After every sequence of readings, evaluations and
  deletions, a device counts as offline from the first of the latest unbroken series of evaluations that saw it
  enrolled and disconnected, and its samples are its readings since it last was disconnected, gone or
  deleted, each newer than the one before, of the last sixty minutes and ten seconds: dropping older ones one at
  a time loses nothing a rule can ask for, and nothing survives a disconnect.
\<close>

theorem tracker_remembers:
  "let t = fst (run tracker_step Tracker_default evs); rs = readings_since d evs in
   tk_offline_since t d = offline_from d evs \<and> tk_samples t d = (if rs = [] then None else Some (recent rs))"
  using run_remembers [of evs d] by (simp add: remembers_def Let_def)

end
