(* ===== verification/Alert_Engine.thy ===== *)
theory Alert_Engine
  imports Alert_Tracker
begin

text \<open>
  The alert engine (\<open>server/src/alerts/mod.rs\<close>, \<open>store.rs\<close>): the table of alerts, an evaluation of the rules, and
  the alerts of failed script runs and update installs. The table has one row per alert and enforces the unique
  index on unresolved alerts, as the insert asks for; a new identifier is the next number. What the
  database says of rules, devices and updates is an argument of an evaluation. An error of the database ends
  an evaluation early: then only a first part of its plan was carried out.
\<close>

section \<open>The table of alerts\<close>

datatype alert_state = Alert_Open | Alert_Acknowledged | Alert_Resolved

datatype resolution = Cleared | Manual | NotApplicable

type_synonym alert_key = "rust_string \<times> rust_string \<times> rust_string"

record actor =
  ac_user_id :: "rust_string option"
  ac_label :: rust_string

record alert_row =
  aw_id :: nat
  aw_key :: alert_key
  aw_state :: alert_state
  aw_value :: "f64 option"
  aw_detail :: rust_string
  aw_script_run_id :: "rust_string option"
  aw_update_run_id :: "rust_string option"
  aw_occurrences :: int
  aw_raised_at :: int
  aw_last_occurred_at :: int
  aw_acknowledged_at :: "int option"
  aw_acknowledged_by :: "actor option"
  aw_resolved_at :: "int option"
  aw_resolved_by :: "actor option"
  aw_resolution :: "resolution option"

record alert_store =
  al_rows :: "alert_row list"
  al_next :: nat

record raise_request =
  ra_key :: alert_key
  ra_value :: "f64 option"
  ra_detail :: rust_string
  ra_script_run_id :: "rust_string option"
  ra_update_run_id :: "rust_string option"

definition unresolved :: "alert_row \<Rightarrow> bool" where
  "unresolved row \<longleftrightarrow> aw_state row \<noteq> Alert_Resolved"

definition is_open :: "alert_store \<Rightarrow> alert_key \<Rightarrow> bool" where
  "is_open db k \<longleftrightarrow> list_ex (\<lambda>row. unresolved row \<and> aw_key row = k) (al_rows db)"

definition raise_alert :: "alert_store \<Rightarrow> raise_request \<Rightarrow> int \<Rightarrow> alert_store \<times> nat option" where
  "raise_alert db r now =
     (if is_open db (ra_key r) then (db, None)
      else
        (\<lparr>al_rows = al_rows db @ [\<lparr>aw_id = al_next db, aw_key = ra_key r, aw_state = Alert_Open, aw_value = ra_value r,
             aw_detail = ra_detail r, aw_script_run_id = ra_script_run_id r, aw_update_run_id = ra_update_run_id r,
             aw_occurrences = 1, aw_raised_at = now, aw_last_occurred_at = now, aw_acknowledged_at = None,
             aw_acknowledged_by = None, aw_resolved_at = None, aw_resolved_by = None, aw_resolution = None\<rparr>],
          al_next = al_next db + 1\<rparr>, Some (al_next db)))"

definition update_rows :: "(alert_row \<Rightarrow> bool) \<Rightarrow> (alert_row \<Rightarrow> alert_row) \<Rightarrow> alert_store \<Rightarrow> alert_store" where
  "update_rows p f db = db\<lparr>al_rows := map (\<lambda>row. if p row then f row else row) (al_rows db)\<rparr>"

definition recur :: "alert_store \<Rightarrow> raise_request \<Rightarrow> int \<Rightarrow> alert_store \<times> nat option" where
  "recur db r now =
     (let db = update_rows (\<lambda>row. unresolved row \<and> aw_key row = ra_key r)
        (\<lambda>row. row\<lparr>aw_occurrences := aw_occurrences row + 1, aw_value := ra_value r, aw_detail := ra_detail r,
            aw_script_run_id := ra_script_run_id r, aw_update_run_id := ra_update_run_id r, aw_last_occurred_at := now\<rparr>) db in
      (db, map_option aw_id (find (\<lambda>row. unresolved row \<and> aw_key row = ra_key r) (al_rows db))))"

definition acknowledge :: "alert_store \<Rightarrow> nat \<Rightarrow> actor \<Rightarrow> int \<Rightarrow> alert_store \<times> bool" where
  "acknowledge db i who now =
     (let p = (\<lambda>row. aw_id row = i \<and> aw_state row = Alert_Open) in
      (update_rows p (\<lambda>row. row\<lparr>aw_state := Alert_Acknowledged, aw_acknowledged_at := Some now, aw_acknowledged_by := Some who\<rparr>) db,
       length (filter p (al_rows db)) = 1))"

definition resolve_alert :: "alert_store \<Rightarrow> nat \<Rightarrow> resolution \<Rightarrow> actor option \<Rightarrow> int \<Rightarrow> alert_store \<times> bool" where
  "resolve_alert db i res who now =
     (let p = (\<lambda>row. aw_id row = i \<and> unresolved row) in
      (update_rows p
         (\<lambda>row. row\<lparr>aw_state := Alert_Resolved, aw_resolved_at := Some now, aw_resolved_by := who, aw_resolution := Some res\<rparr>) db,
       length (filter p (al_rows db)) = 1))"

definition delete_for_device :: "alert_store \<Rightarrow> rust_string \<Rightarrow> alert_store \<times> nat" where
  "delete_for_device db d =
     (db\<lparr>al_rows := filter (\<lambda>row. fst (snd (aw_key row)) \<noteq> d) (al_rows db)\<rparr>,
      length (filter (\<lambda>row. fst (snd (aw_key row)) = d) (al_rows db)))"

section \<open>An evaluation\<close>

record evaluation =
  ev_rules :: "alert_rule list"
  ev_devices :: "target_device list"
  ev_connected :: "rust_string list"
  ev_updating :: "rust_string list"
  ev_latest :: "rust_string \<Rightarrow> system_metrics option"
  ev_pending :: "rust_string \<Rightarrow> (update_category \<times> int) list"
  ev_reboots :: "rust_string \<Rightarrow> int option"
  ev_scanned :: "rust_string list"

definition watches_updates :: "evaluation \<Rightarrow> bool" where
  "watches_updates ev \<longleftrightarrow>
     list_ex (\<lambda>r. ru_enabled r \<and> (ru_condition r = UpdatesPending \<or> ru_condition r = RebootPending)) (ev_rules ev)"

definition device_state_of :: "evaluation \<Rightarrow> rust_string \<Rightarrow> device_state" where
  "device_state_of ev d =
     \<lparr>ds_id = d, ds_connected = (d \<in> set (ev_connected ev)), ds_updating = (d \<in> set (ev_updating ev)),
      ds_latest = (if d \<in> set (ev_connected ev) then ev_latest ev d else None),
      ds_updates = (if watches_updates ev \<and> d \<in> set (ev_scanned ev)
                    then Some \<lparr>uf_pending = ev_pending ev d, uf_reboot_pending_since = ev_reboots ev d\<rparr> else None)\<rparr>"

text \<open>The tracker first takes in who is connected; then every enabled rule that clears itself is judged for every
  device it covers.\<close>

definition evaluation_tracker :: "evaluation \<Rightarrow> int \<Rightarrow> tracker \<Rightarrow> tracker" where
  "evaluation_tracker ev now t = note_presence (map td_id (ev_devices ev)) (ev_connected ev) now t"

definition judged_pairs :: "evaluation \<Rightarrow> (alert_rule \<times> target_device) list" where
  "judged_pairs ev =
     concat (map (\<lambda>r. map (Pair r) (filter (rule_covers r) (ev_devices ev)))
       (filter (\<lambda>r. ru_enabled r \<and> clears_itself (ru_condition r)) (ev_rules ev)))"

definition verdict_of :: "(int \<Rightarrow> rust_string) \<Rightarrow> evaluation \<Rightarrow> tracker \<Rightarrow> int \<Rightarrow> alert_rule \<Rightarrow> rust_string \<Rightarrow> verdict" where
  "verdict_of format_time ev t now r d = judge format_time r (device_state_of ev d) (evaluation_tracker ev now t) now"

fun breaches :: "verdict \<Rightarrow> breach list" where
  "breaches (Known bs) = bs"
| "breaches Unknown_Verdict = []"

definition judged :: "(int \<Rightarrow> rust_string) \<Rightarrow> evaluation \<Rightarrow> tracker \<Rightarrow> int \<Rightarrow> (rust_string \<times> rust_string) list" where
  "judged format_time ev t now =
     map (\<lambda>(r, d). (ru_id r, td_id d))
       (filter (\<lambda>(r, d). verdict_of format_time ev t now r (td_id d) \<noteq> Unknown_Verdict) (judged_pairs ev))"

definition wanted :: "(int \<Rightarrow> rust_string) \<Rightarrow> evaluation \<Rightarrow> tracker \<Rightarrow> int \<Rightarrow> raise_request list" where
  "wanted format_time ev t now =
     concat (map (\<lambda>(r, d). map (\<lambda>b.
         \<lparr>ra_key = (ru_id r, td_id d, br_subject b), ra_value = Some (br_value b), ra_detail = br_detail b,
          ra_script_run_id = None, ra_update_run_id = None\<rparr>) (breaches (verdict_of format_time ev t now r (td_id d))))
       (judged_pairs ev))"

text \<open>\<open>collect\<close> into a \<open>HashMap\<close>: the last entry of a key counts.\<close>

definition rules_by_id :: "evaluation \<Rightarrow> rust_string \<Rightarrow> alert_rule option" where
  "rules_by_id ev = map_of (rev (map (\<lambda>r. (ru_id r, r)) (ev_rules ev)))"

definition devices_by_id :: "evaluation \<Rightarrow> rust_string \<Rightarrow> target_device option" where
  "devices_by_id ev = map_of (rev (map (\<lambda>d. (td_id d, d)) (ev_devices ev)))"

definition applies :: "evaluation \<Rightarrow> alert_rule \<Rightarrow> rust_string \<Rightarrow> bool" where
  "applies ev r d \<longleftrightarrow> ru_enabled r \<and> (case devices_by_id ev d of None \<Rightarrow> False | Some dev \<Rightarrow> rule_covers r dev)"

definition resolution_of :: "(int \<Rightarrow> rust_string) \<Rightarrow> evaluation \<Rightarrow> tracker \<Rightarrow> int \<Rightarrow> alert_key \<Rightarrow> (alert_rule \<times> resolution) option" where
  "resolution_of format_time ev t now k =
     (case k of (rule_id, d, subject) \<Rightarrow>
      case rules_by_id ev rule_id of
        None \<Rightarrow> None
      | Some r \<Rightarrow>
          if \<not> applies ev r d then Some (r, NotApplicable)
          else if (rule_id, d) \<in> set (judged format_time ev t now)
            \<and> k \<notin> set (map ra_key (wanted format_time ev t now)) then Some (r, Cleared)
          else None)"

datatype alert_op =
    Op_Resolve nat resolution bool
  | Op_Raise raise_request

definition plan :: "(int \<Rightarrow> rust_string) \<Rightarrow> evaluation \<Rightarrow> tracker \<Rightarrow> int \<Rightarrow> alert_store \<Rightarrow> alert_op list" where
  "plan format_time ev t now db =
     List.map_filter (\<lambda>row. map_option (\<lambda>(r, res). Op_Resolve (aw_id row) res (ru_notify_on_resolve r))
         (resolution_of format_time ev t now (aw_key row))) (filter unresolved (al_rows db))
     @ map Op_Raise (filter (\<lambda>w. \<not> is_open db (ra_key w)) (wanted format_time ev t now))"

text \<open>An announcement names the alert and whether its rule's channels are notified.\<close>

definition apply_op :: "int \<Rightarrow> alert_store \<Rightarrow> alert_op \<Rightarrow> alert_store \<times> (nat \<times> bool) option" where
  "apply_op now db oper =
     (case oper of
        Op_Resolve i res notify \<Rightarrow>
          (case resolve_alert db i res None now of (db, was) \<Rightarrow> (db, if was then Some (i, notify) else None))
      | Op_Raise r \<Rightarrow> (case raise_alert db r now of (db, i) \<Rightarrow> (db, map_option (\<lambda>i. (i, True)) i)))"

definition evaluate :: "(int \<Rightarrow> rust_string) \<Rightarrow> evaluation \<Rightarrow> tracker \<Rightarrow> int \<Rightarrow> alert_store \<Rightarrow> alert_store \<times> (nat \<times> bool) option list" where
  "evaluate format_time ev t now db = run (apply_op now) db (plan format_time ev t now db)"

section \<open>Failed runs and installs\<close>

datatype run_status = Run_Pending | Run_Completed | Run_Failed | Run_TimedOut | Run_Lost

definition run_status_parse :: "rust_string \<Rightarrow> run_status option" where
  "run_status_parse v =
     (if v = lit ''pending'' then Some Run_Pending
      else if v = lit ''completed'' then Some Run_Completed
      else if v = lit ''failed'' then Some Run_Failed
      else if v = lit ''timed_out'' then Some Run_TimedOut
      else if v = lit ''lost'' then Some Run_Lost
      else None)"

record finished_run =
  fr_device_id :: rust_string
  fr_script_name :: rust_string
  fr_status :: rust_string
  fr_exit_code :: "int option"
  fr_error :: "rust_string option"

definition quoted :: "rust_string \<Rightarrow> rust_string" where
  "quoted name = [0x201C] @ name @ [0x201D]"

definition run_failure :: "finished_run \<Rightarrow> (f64 option \<times> rust_string \<times> bool) option" where
  "run_failure r =
     (let name = quoted (fr_script_name r) in
      case run_status_parse (fr_status r) of
        None \<Rightarrow> None
      | Some Run_Failed \<Rightarrow>
          Some (None, (case fr_error r of Some e \<Rightarrow> name @ lit '' could not run: '' @ e | None \<Rightarrow> name @ lit '' could not run''), False)
      | Some Run_TimedOut \<Rightarrow> Some (None, name @ lit '' timed out and was stopped'', False)
      | Some Run_Lost \<Rightarrow> Some (None, name @ lit '' never reported a result'', False)
      | Some Run_Completed \<Rightarrow>
          (case fr_exit_code r of
             Some code \<Rightarrow>
               if code \<noteq> 0 then Some (Some (f64_of_int code), name @ lit '' exited with code '' @ show_int code, True) else None
           | None \<Rightarrow> None)
      | Some Run_Pending \<Rightarrow> None)"

record finished_install =
  fi_device_id :: rust_string
  fi_status :: rust_string
  fi_error :: "rust_string option"
  fi_installed :: int
  fi_failed :: int

definition install_failure :: "finished_install \<Rightarrow> rust_string option" where
  "install_failure i =
     (let total_updates = fi_installed i + fi_failed i in
      if fi_status i = lit ''partial'' then
        Some (show_int (fi_failed i) @ lit '' of '' @ show_int total_updates @ lit '' updates failed to install'')
      else if fi_status i = lit ''failed'' then
        Some (case fi_error i of
                Some e \<Rightarrow> lit ''Installing updates failed: '' @ e
              | None \<Rightarrow>
                  if total_updates = 1 then lit ''The update failed to install''
                  else if 0 < total_updates then lit ''All '' @ show_int total_updates @ lit '' updates failed to install''
                  else lit ''Installing updates failed'')
      else if fi_status i = lit ''lost'' then Some (lit ''An update install never reported how it went'')
      else None)"

text \<open>Raising a failure for one rule: a new alert notifies, another occurrence only counts.\<close>

definition raise_or_recur :: "int \<Rightarrow> raise_request \<Rightarrow> alert_store \<Rightarrow> alert_store \<times> (nat \<times> bool) option" where
  "raise_or_recur now r db =
     (case raise_alert db r now of
        (db, Some i) \<Rightarrow> (db, Some (i, True))
      | (db, None) \<Rightarrow> (case recur db r now of (db, i) \<Rightarrow> (db, map_option (\<lambda>i. (i, False)) i)))"

definition check_run ::
    "alert_rule list \<Rightarrow> target_device option \<Rightarrow> rust_string \<Rightarrow> finished_run \<Rightarrow> raise_request list" where
  "check_run rules device run_id r =
     (case (run_failure r, device) of
        (Some (val, detail, by_exit_code), Some d) \<Rightarrow>
          map (\<lambda>rule. \<lparr>ra_key = (ru_id rule, fr_device_id r, []), ra_value = val, ra_detail = detail,
                  ra_script_run_id = Some run_id, ra_update_run_id = None\<rparr>)
            (filter (\<lambda>rule. ru_enabled rule \<and> ru_condition rule = ScriptFailed \<and> rule_covers rule d
                \<and> (by_exit_code \<longrightarrow> ru_nonzero_exit_fails rule)) rules)
      | _ \<Rightarrow> [])"

definition check_install ::
    "alert_rule list \<Rightarrow> target_device option \<Rightarrow> rust_string \<Rightarrow> finished_install \<Rightarrow> raise_request list" where
  "check_install rules device run_id i =
     (case (install_failure i, device) of
        (Some detail, Some d) \<Rightarrow>
          map (\<lambda>rule. \<lparr>ra_key = (ru_id rule, fi_device_id i, []), ra_value = Some (f64_of_int (fi_failed i)), ra_detail = detail,
                  ra_script_run_id = None, ra_update_run_id = Some run_id\<rparr>)
            (filter (\<lambda>rule. ru_enabled rule \<and> ru_condition rule = UpdateInstallFailed \<and> rule_covers rule d) rules)
      | _ \<Rightarrow> [])"

section \<open>The table stays consistent\<close>

datatype store_event =
    Evaluation_Op int alert_op
  | Failure_Raised int raise_request
  | User_Acknowledges nat actor int
  | User_Resolves nat actor int
  | Device_Deleted rust_string

fun store_step :: "alert_store \<Rightarrow> store_event \<Rightarrow> alert_store \<times> unit" where
  "store_step db (Evaluation_Op now oper) = (fst (apply_op now db oper), ())"
| "store_step db (Failure_Raised now r) = (fst (raise_or_recur now r db), ())"
| "store_step db (User_Acknowledges i who now) = (fst (acknowledge db i who now), ())"
| "store_step db (User_Resolves i who now) = (fst (resolve_alert db i Manual (Some who) now), ())"
| "store_step db (Device_Deleted d) = (fst (delete_for_device db d), ())"

definition store_empty :: alert_store where
  "store_empty = \<lparr>al_rows = [], al_next = 0\<rparr>"

text \<open>Identifiers are unique, and a rule has at most one unresolved alert per device and subject.\<close>

definition store_ok :: "alert_store \<Rightarrow> bool" where
  "store_ok db \<longleftrightarrow> distinct (map aw_id (al_rows db)) \<and> (\<forall>row \<in> set (al_rows db). aw_id row < al_next db)
     \<and> distinct (map aw_key (filter unresolved (al_rows db)))"

definition keeps_row :: "(alert_row \<Rightarrow> alert_row) \<Rightarrow> bool" where
  "keeps_row f \<longleftrightarrow> (\<forall>row. aw_id (f row) = aw_id row \<and> aw_key (f row) = aw_key row \<and> (unresolved (f row) \<longrightarrow> unresolved row))"

lemma map_keeps:
  assumes "keeps_row g"
  shows "map aw_id (map g rows) = map aw_id rows"
    "set (map aw_key (filter unresolved (map g rows))) \<subseteq> set (map aw_key (filter unresolved rows))"
    "distinct (map aw_key (filter unresolved rows)) \<Longrightarrow> distinct (map aw_key (filter unresolved (map g rows)))"
proof -
  show sub: "set (map aw_key (filter unresolved (map g rows))) \<subseteq> set (map aw_key (filter unresolved rows))" for rows
    using assms by (force simp: keeps_row_def)
  show "map aw_id (map g rows) = map aw_id rows" using assms by (simp add: keeps_row_def)
  show "distinct (map aw_key (filter unresolved rows)) \<Longrightarrow> distinct (map aw_key (filter unresolved (map g rows)))"
  proof (induction rows)
    case (Cons row rows)
    have g: "aw_key (g row) = aw_key row" "unresolved (g row) \<longrightarrow> unresolved row" using assms by (simp_all add: keeps_row_def)
    then show ?case using Cons sub [of rows]
      by (cases "unresolved (g row)"; cases "unresolved row") (simp_all del: set_map, blast)
  qed simp
qed

lemma store_ok_alt:
  "store_ok db \<longleftrightarrow> distinct (map aw_id (al_rows db)) \<and> (\<forall>i \<in> set (map aw_id (al_rows db)). i < al_next db)
     \<and> distinct (map aw_key (filter unresolved (al_rows db)))"
  by (simp add: store_ok_def)

lemma update_rows_sel:
  "al_rows (update_rows p f db) = map (\<lambda>row. if p row then f row else row) (al_rows db)" "al_next (update_rows p f db) = al_next db"
  by (simp_all add: update_rows_def)

lemma update_rows_ok:
  assumes "store_ok db" "keeps_row f"
  shows "store_ok (update_rows p f db)"
proof -
  let ?g = "\<lambda>row. if p row then f row else row"
  have "keeps_row ?g" using assms(2) by (simp add: keeps_row_def)
  note m = map_keeps [OF this, of "al_rows db"]
  show ?thesis using assms(1) m(3) unfolding store_ok_alt update_rows_sel m(1) by blast
qed

lemma raise_ok: "store_ok db \<Longrightarrow> store_ok (fst (raise_alert db r now))"
  by (fastforce simp: store_ok_def raise_alert_def is_open_def list_ex_iff unresolved_def)

lemma recur_ok: "store_ok db \<Longrightarrow> store_ok (fst (recur db r now))"
  by (simp add: recur_def Let_def update_rows_ok keeps_row_def unresolved_def)

lemma resolve_ok: "store_ok db \<Longrightarrow> store_ok (fst (resolve_alert db i res who now))"
  by (simp add: resolve_alert_def Let_def update_rows_ok keeps_row_def unresolved_def)

lemma acknowledge_ok:
  assumes "store_ok db"
  shows "store_ok (fst (acknowledge db i who now))"
proof -
  let ?f = "\<lambda>row. if aw_state row = Alert_Open
    then row\<lparr>aw_state := Alert_Acknowledged, aw_acknowledged_at := Some now, aw_acknowledged_by := Some who\<rparr> else row"
  have "keeps_row ?f" by (simp add: keeps_row_def unresolved_def)
  then have "store_ok (update_rows (\<lambda>row. aw_id row = i \<and> aw_state row = Alert_Open) ?f db)" by (rule update_rows_ok [OF assms])
  moreover have "update_rows (\<lambda>row. aw_id row = i \<and> aw_state row = Alert_Open) ?f db = fst (acknowledge db i who now)"
    by (simp add: acknowledge_def update_rows_def Let_def cong: if_cong)
  ultimately show ?thesis by simp
qed

lemma distinct_key_filter: "distinct (map f (filter p xs)) \<Longrightarrow> distinct (map f (filter (\<lambda>x. q x \<and> p x) xs))"
  by (induction xs) (auto split: if_splits)

lemma delete_device_ok: "store_ok db \<Longrightarrow> store_ok (fst (delete_for_device db d))"
  by (simp add: store_ok_def delete_for_device_def distinct_map_filter distinct_key_filter)

lemma apply_ok: "store_ok db \<Longrightarrow> store_ok (fst (apply_op now db oper))"
  using resolve_ok raise_ok by (cases oper) (simp_all add: apply_op_def case_prod_beta)

lemma raise_or_recur_ok: "store_ok db \<Longrightarrow> store_ok (fst (raise_or_recur now r db))"
  using raise_ok [of db r now] recur_ok [of "fst (raise_alert db r now)" r now]
  by (auto simp: raise_or_recur_def case_prod_beta split: prod.split option.split)

interpretation alerts: step_system store_step store_ok "\<lambda>_ _. True"
proof
  fix db ev
  assume "store_ok db"
  then show "store_ok (fst (store_step db ev))"
    by (cases ev) (simp_all add: apply_ok raise_or_recur_ok acknowledge_ok resolve_ok delete_device_ok)
qed

lemma alerts_legal: "alerts.legal_run db evs"
  by (induction evs arbitrary: db) simp_all

lemma alerts_run_ok: "store_ok (fst (run store_step store_empty evs))"
  by (rule alerts.run_inv [OF _ alerts_legal]) (simp add: store_ok_def store_empty_def)

section \<open>What an evaluation does\<close>

definition open_rows :: "alert_store \<Rightarrow> alert_row set" where
  "open_rows db = {row \<in> set (al_rows db). unresolved row}"

lemma is_open_alt: "is_open db k \<longleftrightarrow> k \<in> aw_key ` open_rows db"
  by (auto simp: is_open_def open_rows_def list_ex_iff)

lemma open_rows_resolve: "open_rows (fst (resolve_alert db i res who now)) = {row \<in> open_rows db. aw_id row \<noteq> i}"
  by (force simp: resolve_alert_def update_rows_def open_rows_def unresolved_def Let_def)

lemma open_rows_raise:
  "open_rows db \<subseteq> open_rows (fst (raise_alert db r now))"
  "aw_key ` open_rows (fst (raise_alert db r now)) = insert (ra_key r) (aw_key ` open_rows db)"
proof -
  have "\<exists>row. aw_key row = ra_key r \<and> open_rows (fst (raise_alert db r now)) = insert row (open_rows db)" if "\<not> is_open db (ra_key r)"
    using that by (intro exI [where x = "last (al_rows (fst (raise_alert db r now)))"])
      (auto simp: raise_alert_def open_rows_def unresolved_def)
  moreover have "fst (raise_alert db r now) = db" if "is_open db (ra_key r)" using that by (simp add: raise_alert_def)
  ultimately show "open_rows db \<subseteq> open_rows (fst (raise_alert db r now))"
    "aw_key ` open_rows (fst (raise_alert db r now)) = insert (ra_key r) (aw_key ` open_rows db)"
    by (cases "is_open db (ra_key r)"; force simp: is_open_alt)+
qed

lemma run_fst_Cons: "fst (run step s (x # xs)) = fst (run step (fst (step s x)) xs)"
  by (simp add: Let_def)

lemma run_fst_append: "fst (run step s (xs @ ys)) = fst (run step (fst (run step s xs)) ys)"
  by (simp add: run_append Let_def)

lemma open_rows_resolves:
  "open_rows (fst (run (apply_op now) db (map (\<lambda>(i, res, n). Op_Resolve i res n) xs))) = {row \<in> open_rows db. aw_id row \<notin> fst ` set xs}"
proof (induction xs arbitrary: db)
  case (Cons x xs)
  obtain i res n where "x = (i, res, n)" by (cases x)
  moreover have "open_rows (fst (apply_op now db (Op_Resolve i res n))) = {row \<in> open_rows db. aw_id row \<noteq> i}"
    by (simp add: apply_op_def case_prod_beta open_rows_resolve)
  ultimately show ?case using Cons.IH by (auto simp only: list.map run_fst_Cons prod.case fst_conv list.set image_insert)
qed simp

lemma open_rows_raises:
  "open_rows db \<subseteq> open_rows (fst (run (apply_op now) db (map Op_Raise ws)))
   \<and> aw_key ` open_rows (fst (run (apply_op now) db (map Op_Raise ws))) = aw_key ` open_rows db \<union> ra_key ` set ws"
proof (induction ws arbitrary: db)
  case (Cons w ws)
  have "fst (apply_op now db (Op_Raise w)) = fst (raise_alert db w now)" by (simp add: apply_op_def case_prod_beta)
  then show ?case using Cons.IH [of "fst (raise_alert db w now)"] open_rows_raise [of db w now]
    by (simp only: list.map run_fst_Cons list.set image_insert) blast
qed simp

text \<open>An evaluation keeps the alerts that have no reason to be resolved, as they are, and opens what is wanted.\<close>

lemma evaluate_open_rows:
  fixes format_time :: "int \<Rightarrow> rust_string" and ev :: evaluation and t :: tracker and now :: int
  assumes "store_ok db"
  defines "db' \<equiv> fst (evaluate format_time ev t now db)"
  defines "kept \<equiv> {row \<in> open_rows db. resolution_of format_time ev t now (aw_key row) = None}"
  shows "kept \<subseteq> open_rows db'"
    "aw_key ` open_rows db' = aw_key ` kept \<union> {k \<in> ra_key ` set (wanted format_time ev t now). \<not> is_open db k}"
proof -
  define xs where "xs = List.map_filter (\<lambda>row. map_option (\<lambda>(r, res). (aw_id row, res, ru_notify_on_resolve r))
      (resolution_of format_time ev t now (aw_key row))) (filter unresolved (al_rows db))"
  have ops: "List.map_filter (\<lambda>row. map_option (\<lambda>(r, res). Op_Resolve (aw_id row) res (ru_notify_on_resolve r))
         (resolution_of format_time ev t now (aw_key row))) (filter unresolved (al_rows db))
     = map (\<lambda>(i, res, n). Op_Resolve i res n) xs"
    by (simp add: xs_def List.map_filter_def o_def case_prod_beta option.map_sel filter_filter)
  have "fst ` set xs = aw_id ` {row \<in> open_rows db. resolution_of format_time ev t now (aw_key row) \<noteq> None}"
    by (auto simp: xs_def List.map_filter_def open_rows_def image_image option.map_sel case_prod_beta intro!: image_eqI)
  moreover have "inj_on aw_id (open_rows db)" using assms(1) by (auto simp: store_ok_def distinct_map open_rows_def intro: inj_on_subset)
  ultimately have "row \<in> open_rows db \<Longrightarrow> aw_id row \<notin> fst ` set xs \<longleftrightarrow> resolution_of format_time ev t now (aw_key row) = None" for row
    by (auto dest: inj_onD)
  then have kept: "kept = {row \<in> open_rows db. aw_id row \<notin> fst ` set xs}" by (auto simp: kept_def)
  let ?ws = "filter (\<lambda>w. \<not> is_open db (ra_key w)) (wanted format_time ev t now)"
  let ?db = "fst (run (apply_op now) db (map (\<lambda>(i, res, n). Op_Resolve i res n) xs))"
  have "db' = fst (run (apply_op now) ?db (map Op_Raise ?ws))"
    by (simp only: db'_def evaluate_def plan_def ops run_fst_append)
  then show "kept \<subseteq> open_rows db'" "aw_key ` open_rows db' = aw_key ` kept \<union> {k \<in> ra_key ` set (wanted format_time ev t now). \<not> is_open db k}"
    using open_rows_raises [where now = now and db = ?db and ws = ?ws] by (auto simp only: open_rows_resolves kept [symmetric] set_filter)
qed

text \<open>The rules and devices an evaluation reads have their own identifiers.\<close>

definition evaluation_ok :: "evaluation \<Rightarrow> bool" where
  "evaluation_ok ev \<longleftrightarrow> distinct (map ru_id (ev_rules ev)) \<and> distinct (map td_id (ev_devices ev))"

lemma map_of_rev_iff:
  "distinct (map key xs) \<Longrightarrow> map_of (rev (map (\<lambda>x. (key x, x)) xs)) k = Some x \<longleftrightarrow> x \<in> set xs \<and> key x = k"
  by (subst map_of_eq_Some_iff) (auto simp: rev_map [symmetric] o_def)

lemma rules_by_id_Some: "evaluation_ok ev \<Longrightarrow> r \<in> set (ev_rules ev) \<Longrightarrow> rules_by_id ev (ru_id r) = Some r"
  by (simp add: rules_by_id_def evaluation_ok_def map_of_rev_iff)

lemma applies_iff:
  assumes "evaluation_ok ev"
  shows "applies ev r d \<longleftrightarrow> ru_enabled r \<and> (\<exists>dev \<in> set (ev_devices ev). td_id dev = d \<and> rule_covers r dev)"
proof -
  have "devices_by_id ev d = Some dev \<longleftrightarrow> dev \<in> set (ev_devices ev) \<and> td_id dev = d" for dev
    using assms by (simp add: devices_by_id_def evaluation_ok_def map_of_rev_iff)
  then have "(\<exists>dev \<in> set (ev_devices ev). td_id dev = d \<and> rule_covers r dev) \<longleftrightarrow> (\<exists>dev. devices_by_id ev d = Some dev \<and> rule_covers r dev)"
    by blast
  then show ?thesis by (simp add: applies_def split: option.split)
qed

lemma judged_pairs_iff:
  "(r, dev) \<in> set (judged_pairs ev) \<longleftrightarrow>
     r \<in> set (ev_rules ev) \<and> ru_enabled r \<and> clears_itself (ru_condition r) \<and> dev \<in> set (ev_devices ev) \<and> rule_covers r dev"
  by (auto simp: judged_pairs_def)

lemma verdict_unknown: "\<not> clears_itself (ru_condition r) \<Longrightarrow> verdict_of format_time ev t now r d = Unknown_Verdict"
  by (auto simp: clears_itself_def verdict_of_def judge_def)

lemma rule_unique: "evaluation_ok ev \<Longrightarrow> r \<in> set (ev_rules ev) \<Longrightarrow> q \<in> set (ev_rules ev) \<Longrightarrow> ru_id q = ru_id r \<Longrightarrow> q = r"
  by (auto simp: evaluation_ok_def distinct_map inj_on_def)

lemma judged_key_iff:
  "(i, d) \<in> set (judged format_time ev t now) \<longleftrightarrow>
     (\<exists>r dev. (r, dev) \<in> set (judged_pairs ev) \<and> verdict_of format_time ev t now r (td_id dev) \<noteq> Unknown_Verdict
        \<and> i = ru_id r \<and> d = td_id dev)"
  by (force simp: judged_def)

lemma wanted_key_iff:
  "k \<in> ra_key ` set (wanted format_time ev t now) \<longleftrightarrow>
     (\<exists>r dev b. (r, dev) \<in> set (judged_pairs ev) \<and> b \<in> set (breaches (verdict_of format_time ev t now r (td_id dev)))
        \<and> k = (ru_id r, td_id dev, br_subject b))"
  by (force simp: wanted_def)

text \<open>The pairs that are judged for a rule of the evaluation.\<close>

lemma pair_of_rule:
  assumes "evaluation_ok ev" "r \<in> set (ev_rules ev)"
  shows "(\<exists>q dev. (q, dev) \<in> set (judged_pairs ev) \<and> P q (td_id dev) \<and> ru_id r = ru_id q \<and> d = td_id dev) \<longleftrightarrow>
    applies ev r d \<and> clears_itself (ru_condition r) \<and> P r d"
proof
  assume "\<exists>q dev. (q, dev) \<in> set (judged_pairs ev) \<and> P q (td_id dev) \<and> ru_id r = ru_id q \<and> d = td_id dev"
  then obtain q dev where q: "(q, dev) \<in> set (judged_pairs ev)" "P q (td_id dev)" "ru_id q = ru_id r" "d = td_id dev" by auto
  then have "q = r" using rule_unique [OF assms] by (simp add: judged_pairs_iff)
  then show "applies ev r d \<and> clears_itself (ru_condition r) \<and> P r d"
    using q by (auto simp: judged_pairs_iff applies_iff [OF assms(1)])
next
  assume "applies ev r d \<and> clears_itself (ru_condition r) \<and> P r d"
  then show "\<exists>q dev. (q, dev) \<in> set (judged_pairs ev) \<and> P q (td_id dev) \<and> ru_id r = ru_id q \<and> d = td_id dev"
    using assms(2) by (force simp: judged_pairs_iff applies_iff [OF assms(1)])
qed

lemma judged_iff:
  assumes "evaluation_ok ev" "r \<in> set (ev_rules ev)"
  shows "(ru_id r, d) \<in> set (judged format_time ev t now) \<longleftrightarrow>
    applies ev r d \<and> verdict_of format_time ev t now r d \<noteq> Unknown_Verdict"
proof -
  have "(ru_id r, d) \<in> set (judged format_time ev t now) \<longleftrightarrow>
      applies ev r d \<and> clears_itself (ru_condition r) \<and> verdict_of format_time ev t now r d \<noteq> Unknown_Verdict"
    unfolding judged_key_iff
    by (rule pair_of_rule [OF assms, of "\<lambda>r d. verdict_of format_time ev t now r d \<noteq> Unknown_Verdict"])
  then show ?thesis using verdict_unknown [of r format_time ev t now d] by (cases "clears_itself (ru_condition r)") simp_all
qed

lemma wanted_iff:
  assumes "evaluation_ok ev" "r \<in> set (ev_rules ev)"
  shows "(ru_id r, d, s) \<in> ra_key ` set (wanted format_time ev t now) \<longleftrightarrow>
    applies ev r d \<and> s \<in> br_subject ` set (breaches (verdict_of format_time ev t now r d))"
proof -
  have "(ru_id r, d, s) \<in> ra_key ` set (wanted format_time ev t now) \<longleftrightarrow>
      (\<exists>q dev. (q, dev) \<in> set (judged_pairs ev) \<and> s \<in> br_subject ` set (breaches (verdict_of format_time ev t now q (td_id dev)))
        \<and> ru_id r = ru_id q \<and> d = td_id dev)"
    unfolding wanted_key_iff by auto
  also have "\<dots> \<longleftrightarrow> applies ev r d \<and> clears_itself (ru_condition r)
      \<and> s \<in> br_subject ` set (breaches (verdict_of format_time ev t now r d))"
    by (rule pair_of_rule [OF assms, of "\<lambda>r d. s \<in> br_subject ` set (breaches (verdict_of format_time ev t now r d))"])
  finally show ?thesis using verdict_unknown [of r format_time ev t now d] by (cases "clears_itself (ru_condition r)") simp_all
qed

lemma resolution_iff:
  assumes "evaluation_ok ev" "r \<in> set (ev_rules ev)"
  shows "resolution_of format_time ev t now (ru_id r, d, s) = None \<longleftrightarrow>
    applies ev r d \<and> (verdict_of format_time ev t now r d = Unknown_Verdict
      \<or> s \<in> br_subject ` set (breaches (verdict_of format_time ev t now r d)))"
  using judged_iff [OF assms] wanted_iff [OF assms] by (auto simp: resolution_of_def rules_by_id_Some [OF assms])

lemma wanted_not_resolved:
  assumes "evaluation_ok ev" "k \<in> ra_key ` set (wanted format_time ev t now)"
  shows "resolution_of format_time ev t now k = None"
proof -
  obtain r dev and b :: breach where k: "(r, dev) \<in> set (judged_pairs ev)" "k = (ru_id r, td_id dev, br_subject b)"
    using assms(2) unfolding wanted_key_iff by (elim exE conjE) (rule that, assumption+)
  then have "r \<in> set (ev_rules ev)" by (simp add: judged_pairs_iff)
  then show ?thesis using assms(2) unfolding k(2) by (simp only: wanted_iff [OF assms(1)] resolution_iff [OF assms(1)] simp_thms)
qed

lemma kept_key: "k \<in> aw_key ` {row \<in> open_rows db. p (aw_key row)} \<longleftrightarrow> is_open db k \<and> p k"
  by (auto simp: is_open_alt)

text \<open>C10: An evaluation makes the unresolved alerts what the rules say. Whatever happened to the table before, after
  an evaluation a rule has an unresolved alert about a device and subject exactly if it is enabled, covers the
  enrolled device, and either its condition holds now for that subject or nothing can be said and the alert was
  there before; alerts that stay are left as they are, acknowledgements included; alerts of rules that could
  not be read are not touched; and no rule has two unresolved alerts about the same thing.
\<close>

theorem evaluation_follows_rules:
  assumes "evaluation_ok ev"
  shows "let db = fst (run store_step store_empty evs); db' = fst (evaluate format_time ev t now db) in
    (\<forall>r \<in> set (ev_rules ev). \<forall>d s. is_open db' (ru_id r, d, s) \<longleftrightarrow>
       ru_enabled r \<and> (\<exists>dev \<in> set (ev_devices ev). td_id dev = d \<and> rule_covers r dev)
       \<and> (case verdict_of format_time ev t now r d of
            Known bs \<Rightarrow> s \<in> br_subject ` set bs
          | Unknown_Verdict \<Rightarrow> is_open db (ru_id r, d, s)))
    \<and> (\<forall>row \<in> set (al_rows db). unresolved row \<and> is_open db' (aw_key row) \<longrightarrow> row \<in> set (al_rows db'))
    \<and> (\<forall>k. rules_by_id ev (fst k) = None \<longrightarrow> is_open db' k = is_open db k)
    \<and> store_ok db'"
proof -
  define db where "db = fst (run store_step store_empty evs)"
  define db' where "db' = fst (evaluate format_time ev t now db)"
  define res where "res = resolution_of format_time ev t now"
  have ok: "store_ok db" unfolding db_def by (rule alerts_run_ok)
  have kept: "{row \<in> open_rows db. res (aw_key row) = None} \<subseteq> open_rows db'"
    using evaluate_open_rows(1) [OF ok] unfolding db'_def res_def .
  have keys: "is_open db' k \<longleftrightarrow> is_open db k \<and> res k = None \<or> k \<in> ra_key ` set (wanted format_time ev t now) \<and> \<not> is_open db k" for k
    using evaluate_open_rows(2) [OF ok, of format_time ev t now] kept_key [of k db "\<lambda>k. res k = None"]
    unfolding is_open_alt [of db'] db'_def [symmetric] res_def by (simp only: Un_iff mem_Collect_eq simp_thms)
  have rules: "is_open db' (ru_id r, d, s) \<longleftrightarrow> applies ev r d \<and>
      (case verdict_of format_time ev t now r d of Known bs \<Rightarrow> s \<in> br_subject ` set bs | Unknown_Verdict \<Rightarrow> is_open db (ru_id r, d, s))"
    if "r \<in> set (ev_rules ev)" for r d s
    using keys [of "(ru_id r, d, s)"] wanted_iff [OF assms that, of d s] resolution_iff [OF assms that, of format_time t now d s]
    by (cases "verdict_of format_time ev t now r d") (auto simp: res_def)
  have none: "is_open db' k = is_open db k" if "rules_by_id ev (fst k) = None" for k
  proof -
    have "res k = None" using that by (auto simp: res_def resolution_of_def split: prod.split)
    moreover have "k \<notin> ra_key ` set (wanted format_time ev t now)"
      using that rules_by_id_Some [OF assms] by (auto simp: wanted_key_iff judged_pairs_iff)
    ultimately show ?thesis using keys [of k] by blast
  qed
  have stays: "row \<in> set (al_rows db')" if "row \<in> set (al_rows db)" "unresolved row" "is_open db' (aw_key row)" for row
  proof -
    have "row \<in> open_rows db" using that by (simp add: open_rows_def)
    moreover from this have "is_open db (aw_key row)" by (auto simp: is_open_alt)
    ultimately have "row \<in> open_rows db'" using keys [of "aw_key row"] that(3) kept by blast
    then show ?thesis by (simp add: open_rows_def)
  qed
  have "store_ok (fst (run (apply_op now) st xs))" if "store_ok st" for st xs
    using that by (induction xs arbitrary: st) (simp_all add: Let_def apply_ok)
  then have "store_ok db'" using ok unfolding db'_def evaluate_def by blast
  then show ?thesis using rules none stays unfolding db_def [symmetric] Let_def db'_def [symmetric] applies_iff [OF assms] by blast
qed

definition sample_evaluation :: evaluation where
  "sample_evaluation =
     \<lparr>ev_rules = [rule_of_input [1] sample_checked 0 0], ev_devices = [\<lparr>td_id = [2], td_company_id = None, td_tag_ids = [[8], [9]]\<rparr>],
      ev_connected = [[2]], ev_updating = [],
      ev_latest = (\<lambda>_. Some \<lparr>me_cpu_percent = Finite 0, me_memory_used_bytes = 0, me_memory_total_bytes = 0,
        me_volumes = [\<lparr>vu_name = [67], vu_total_bytes = 100, vu_free_bytes = 0\<rparr>]\<rparr>),
      ev_pending = (\<lambda>_. []), ev_reboots = (\<lambda>_. None), ev_scanned = []\<rparr>"

lemma sample_evaluation_ok: "evaluation_ok sample_evaluation"
  by (simp add: evaluation_ok_def sample_evaluation_def)

text \<open>The sample's one volume is full, so the rule calls for an alert.\<close>

lemma sample_verdict:
  "\<exists>b. verdict_of format_time sample_evaluation t now (rule_of_input [1] sample_checked 0 0) [2] = Known [b] \<and> br_subject b = [67]"
  by (simp add: verdict_of_def judge_def judge_disk_def device_state_of_def sample_evaluation_def rule_of_input_def sample_checked_def
      sample_input_def List.map_filter_def judge_volume_def u64_f64_def f64_of_int_def f64_round_def GIB_def f64_or_zero_def Let_def)

theorem evaluation_follows_rules_witness:
  "let db = fst (run store_step store_empty []); db' = fst (evaluate (\<lambda>_. []) sample_evaluation Tracker_default 0 db) in
    (\<forall>r \<in> set (ev_rules sample_evaluation). \<forall>d s. is_open db' (ru_id r, d, s) \<longleftrightarrow>
       ru_enabled r \<and> (\<exists>dev \<in> set (ev_devices sample_evaluation). td_id dev = d \<and> rule_covers r dev)
       \<and> (case verdict_of (\<lambda>_. []) sample_evaluation Tracker_default 0 r d of
            Known bs \<Rightarrow> s \<in> br_subject ` set bs
          | Unknown_Verdict \<Rightarrow> is_open db (ru_id r, d, s)))
    \<and> (\<forall>row \<in> set (al_rows db). unresolved row \<and> is_open db' (aw_key row) \<longrightarrow> row \<in> set (al_rows db'))
    \<and> (\<forall>k. rules_by_id sample_evaluation (fst k) = None \<longrightarrow> is_open db' k = is_open db k)
    \<and> store_ok db'"
  by (rule evaluation_follows_rules [OF sample_evaluation_ok])

lemma tracker_again: "evaluation_tracker ev now (evaluation_tracker ev now t) = evaluation_tracker ev now t"
  by (rule tracker.equality) (auto simp: evaluation_tracker_def note_presence_def Let_def noted fun_eq_iff split: option.split)

lemma verdict_again: "verdict_of format_time ev (evaluation_tracker ev now t) now = verdict_of format_time ev t now"
  by (simp add: verdict_of_def tracker_again fun_eq_iff)

lemma plan_again:
  "wanted format_time ev (evaluation_tracker ev now t) now = wanted format_time ev t now"
  "resolution_of format_time ev (evaluation_tracker ev now t) now = resolution_of format_time ev t now"
proof -
  have "judged format_time ev (evaluation_tracker ev now t) now = judged format_time ev t now"
    by (simp add: judged_def verdict_again)
  moreover show "wanted format_time ev (evaluation_tracker ev now t) now = wanted format_time ev t now"
    by (simp add: wanted_def verdict_again)
  ultimately show "resolution_of format_time ev (evaluation_tracker ev now t) now = resolution_of format_time ev t now"
    by (intro ext) (simp only: resolution_of_def)
qed

text \<open>Evaluations settle. Evaluating again at the same moment with the same facts raises nothing, resolves nothing
  and announces nothing, so an unchanged condition never notifies twice.
\<close>

theorem evaluation_settles:
  assumes "evaluation_ok ev"
  shows "let db = fst (run store_step store_empty evs); db' = fst (evaluate format_time ev t now db) in
    evaluate format_time ev (evaluation_tracker ev now t) now db' = (db', [])"
proof -
  define db where "db = fst (run store_step store_empty evs)"
  define db' where "db' = fst (evaluate format_time ev t now db)"
  define res where "res = resolution_of format_time ev t now"
  define keys where "keys = ra_key ` set (wanted format_time ev t now)"
  have open': "aw_key ` open_rows db' = aw_key ` {row \<in> open_rows db. res (aw_key row) = None} \<union> {k \<in> keys. \<not> is_open db k}"
    using evaluate_open_rows(2) [of db format_time ev t now] alerts_run_ok unfolding db'_def db_def res_def keys_def by blast
  have want: "res k = None" if "k \<in> keys" for k using wanted_not_resolved [OF assms] that by (simp add: res_def keys_def)
  have "res (aw_key row) = None" if "row \<in> open_rows db'" for row
  proof -
    have "aw_key row \<in> aw_key ` {row \<in> open_rows db. res (aw_key row) = None} \<union> {k \<in> keys. \<not> is_open db k}"
      using that unfolding open' [symmetric] by (rule imageI)
    then show ?thesis using want [of "aw_key row"] kept_key [of "aw_key row" db "\<lambda>k. res k = None"]
      by (simp only: Un_iff mem_Collect_eq) blast
  qed
  then have "List.map_filter (\<lambda>row. map_option f (res (aw_key row))) (filter unresolved (al_rows db')) = []" for f
    by (auto simp: List.map_filter_def filter_empty_conv open_rows_def)
  moreover have "is_open db' k" if "k \<in> keys" for k
    using that want [OF that] kept_key [of k db "\<lambda>k. res k = None"] unfolding is_open_alt [of db'] open'
    by (cases "is_open db k") (simp_all only: Un_iff mem_Collect_eq simp_thms)
  ultimately have "plan format_time ev (evaluation_tracker ev now t) now db' = []"
    by (auto simp: plan_def plan_again res_def keys_def filter_empty_conv List.map_filter_def)
  then show ?thesis unfolding db_def [symmetric] Let_def db'_def [symmetric] by (simp add: evaluate_def)
qed

theorem evaluation_settles_witness:
  "let db = fst (run store_step store_empty []); db' = fst (evaluate (\<lambda>_. []) sample_evaluation Tracker_default 0 db) in
    evaluate (\<lambda>_. []) sample_evaluation (evaluation_tracker sample_evaluation 0 Tracker_default) 0 db' = (db', [])"
  by (rule evaluation_settles [OF sample_evaluation_ok])

end
