(* ===== verification/Client_Ip.thy ===== *)
theory Client_Ip
  imports Rust_Strings Prelude
begin

text \<open>
  The address of the client behind a request (\<open>server/src/http/client_ip.rs\<close>), which rate limits and the audit log
  use. How an address is parsed and which addresses are trusted proxies (the \<open>ipnet\<close> networks of the
  configuration) are parameters; a header value that is not text is \<open>None\<close>.
\<close>

section \<open>Resolving the client\<close>

definition hops :: "rust_string option list \<Rightarrow> rust_string list" where
  "hops values = concat (map (\<lambda>v. case v of None \<Rightarrow> [] | Some t \<Rightarrow> map str_trim (str_split 44 t)) values)"

fun walk_hops :: "(rust_string \<Rightarrow> 'ip option) \<Rightarrow> ('ip \<Rightarrow> bool) \<Rightarrow> 'ip \<Rightarrow> rust_string list \<Rightarrow> 'ip" where
  "walk_hops parse trusted client [] = client"
| "walk_hops parse trusted client (hop # rest) =
     (case parse hop of
        None \<Rightarrow> client
      | Some address \<Rightarrow> if trusted address then walk_hops parse trusted address rest else address)"

definition resolve_client :: "(rust_string \<Rightarrow> 'ip option) \<Rightarrow> ('ip \<Rightarrow> bool) \<Rightarrow> 'ip \<Rightarrow> rust_string option list \<Rightarrow> 'ip" where
  "resolve_client parse trusted peer values =
     (if \<not> trusted peer then peer else walk_hops parse trusted peer (rev (hops values)))"

section \<open>Forged headers\<close>

text \<open>A hop that ends the walk: it is malformed, or not a trusted proxy.\<close>

definition ends_walk :: "(rust_string \<Rightarrow> 'ip option) \<Rightarrow> ('ip \<Rightarrow> bool) \<Rightarrow> rust_string \<Rightarrow> bool" where
  "ends_walk parse trusted hop = (case parse hop of None \<Rightarrow> True | Some address \<Rightarrow> \<not> trusted address)"

lemma str_split_append: "str_split c (a @ c # b) = str_split c a @ str_split c b"
proof (induction a)
  case (Cons x a)
  then show ?case by (cases "str_split c a") (auto split: list.split)
qed simp

lemma hops_append: "hops (xs @ ys) = hops xs @ hops ys"
  by (simp add: hops_def)

lemma hops_joined: "hops (Some (a @ 44 # b) # vs) = map str_trim (str_split 44 a) @ hops (Some b # vs)"
  by (simp add: hops_def str_split_append)

lemma walk_append:
  "list_ex (ends_walk parse trusted) xs \<Longrightarrow> walk_hops parse trusted client (xs @ ys) = walk_hops parse trusted client xs"
  by (induction xs arbitrary: client) (auto simp: ends_walk_def split: option.split)

lemma resolve_ignores:
  assumes "\<not> trusted peer \<or> list_ex (ends_walk parse trusted) (hops values)" "hops forged = front @ hops values"
  shows "resolve_client parse trusted peer forged = resolve_client parse trusted peer values"
  using assms walk_append [of parse trusted "rev (hops values)" peer "rev front"] by (auto simp: resolve_client_def)



end
