(* ===== verification/Accounts.thy ===== *)
theory Accounts
  imports Roles Auth_Limits
begin

text \<open>
  User accounts and who a request acts for: the tables of accounts, their sign-in methods and sessions with what
  deleting a user or a role cascades to (\<open>server/migrations\<close>), the changes several routes share
  (\<open>server/src/users.rs\<close>), website sessions (\<open>server/src/auth/session.rs\<close>) and personal API tokens
  (\<open>server/src/api_tokens.rs\<close>).

  Random IDs and tokens are arguments of the operations that make them, and a statement that violates a primary
  key, a \<open>UNIQUE\<close> column or a foreign key fails, as the database makes it. The SHA-256 of a token is the
  parameter \<open>hash\<close> and \<open>str::to_lowercase\<close> the parameter \<open>lower\<close>. A column of JSON with permission names is the
  list of the names. Times are Unix milliseconds.
\<close>

section \<open>Tables\<close>

record user_row =
  us_id :: rust_string
  us_email :: rust_string
  us_display_name :: rust_string
  us_password_hash :: "rust_string option"
  us_password_changed_at :: "int option"
  us_disabled :: bool
  us_oidc_subject :: "rust_string option"
  us_scim_external_id :: "rust_string option"
  us_scim_managed :: bool
  us_created_at :: int
  us_updated_at :: int
  us_last_sign_in_at :: "int option"

datatype auth_method = Auth_Password | Auth_Passkey | Auth_Oidc

record session_row =
  se_id :: rust_string
  se_token_hash :: rust_string
  se_user_id :: rust_string
  se_auth_method :: auth_method
  se_created_at :: int
  se_last_seen_at :: int
  se_expires_at :: int
  se_verified_at :: "int option"

record reset_row =
  re_id :: rust_string
  re_token_hash :: rust_string
  re_user_id :: rust_string
  re_created_by :: "rust_string option"
  re_created_at :: int
  re_expires_at :: int
  re_used_at :: "int option"

record invitation_row =
  iv_id :: rust_string
  iv_token_hash :: rust_string
  iv_email :: rust_string
  iv_created_by :: "rust_string option"
  iv_created_at :: int
  iv_expires_at :: int
  iv_accepted_at :: "int option"
  iv_revoked_at :: "int option"

record api_token_row =
  tk_id :: rust_string
  tk_user_id :: rust_string
  tk_name :: rust_string
  tk_token_hash :: rust_string
  tk_scope :: "rust_string list option"
  tk_created_at :: int
  tk_expires_at :: "int option"
  tk_last_used_at :: "int option"

record oidc_provider =
  op_enabled :: bool
  op_issuer_url :: rust_string
  op_auto_provision :: bool
  op_default_role_id :: "rust_string option"
  op_require_verified_email :: bool
  op_groups_claim :: "rust_string option"

record access_settings =
  st_require_two_factor :: bool
  st_idle_timeout_minutes :: int
  st_session_lifetime_hours :: int
  st_api_tokens_enabled :: bool
  st_api_token_max_lifetime_days :: "int option"

record audit_event =
  ae_actor :: "rust_string option"
  ae_action :: rust_string
  ae_target :: rust_string

record access_db = role_tables +
  db_users :: "user_row list"
  db_totp :: "(rust_string \<times> bool) list"
  db_passkeys :: "(rust_string \<times> rust_string) list"
  db_recovery_codes :: "(rust_string \<times> rust_string) list"
  db_sessions :: "session_row list"
  db_invitations :: "invitation_row list"
  db_invitation_roles :: "(rust_string \<times> rust_string) list"
  db_resets :: "reset_row list"
  db_api_tokens :: "api_token_row list"
  db_provider :: "oidc_provider option"
  db_settings :: access_settings
  db_audit :: "audit_event list"

datatype access_error =
    Database_Error
  | Unauthenticated
  | Two_Factor_Required
  | Website_Only
  | Token_Refused
  | Rate_Limited nat
  | Permission_Denied permission
  | Permission_Escalation "permission list"
  | Administrators_Only
  | Bad_Request
  | Not_Found
  | Forbidden
  | Conflict
  | Last_Administrator
  | Invalid_Link
  | Too_Many_Tokens
  | Lifetime_Too_Long

definition role_exists :: "'x role_tables_scheme \<Rightarrow> rust_string \<Rightarrow> bool" where
  "role_exists db r \<longleftrightarrow> r \<in> rr_id ` set (rt_roles db)"

text \<open>The record of a change in the audit log, without its metadata and the kind of its target.\<close>

definition audit_record :: "rust_string option \<Rightarrow> string \<Rightarrow> rust_string \<Rightarrow> access_db \<Rightarrow> access_db" where
  "audit_record actor action target db =
     db\<lparr>db_audit := db_audit db @ [\<lparr>ae_actor = actor, ae_action = lit action, ae_target = target\<rparr>]\<rparr>"

text \<open>Deleting a user or a role, with the rows that reference it.\<close>

definition delete_user_row :: "rust_string \<Rightarrow> access_db \<Rightarrow> access_db" where
  "delete_user_row user_id db =
     db\<lparr>db_users := filter (\<lambda>u. us_id u \<noteq> user_id) (db_users db),
        db_totp := filter (\<lambda>(u, _). u \<noteq> user_id) (db_totp db),
        db_passkeys := filter (\<lambda>(_, u). u \<noteq> user_id) (db_passkeys db),
        db_recovery_codes := filter (\<lambda>(_, u). u \<noteq> user_id) (db_recovery_codes db),
        db_sessions := filter (\<lambda>s. se_user_id s \<noteq> user_id) (db_sessions db),
        db_resets := filter (\<lambda>r. re_user_id r \<noteq> user_id) (db_resets db),
        db_api_tokens := filter (\<lambda>t. tk_user_id t \<noteq> user_id) (db_api_tokens db),
        rt_user_roles := filter (\<lambda>(u, _). u \<noteq> user_id) (rt_user_roles db),
        rt_user_oidc_groups := filter (\<lambda>(u, _). u \<noteq> user_id) (rt_user_oidc_groups db),
        rt_scim_group_members := filter (\<lambda>(_, u). u \<noteq> user_id) (rt_scim_group_members db)\<rparr>"

definition delete_role_row :: "rust_string \<Rightarrow> access_db \<Rightarrow> access_db" where
  "delete_role_row role_id db =
     db\<lparr>rt_roles := filter (\<lambda>r. rr_id r \<noteq> role_id) (rt_roles db),
        rt_role_permissions := filter (\<lambda>(r, _). r \<noteq> role_id) (rt_role_permissions db),
        rt_user_roles := filter (\<lambda>(_, r). r \<noteq> role_id) (rt_user_roles db),
        db_invitation_roles := filter (\<lambda>(_, r). r \<noteq> role_id) (db_invitation_roles db),
        rt_oidc_group_roles := filter (\<lambda>(_, r). r \<noteq> role_id) (rt_oidc_group_roles db),
        rt_scim_groups :=
          map (\<lambda>g. if sg_role_id g = Some role_id then g\<lparr>sg_role_id := None\<rparr> else g) (rt_scim_groups db),
        db_provider :=
          map_option (\<lambda>p. if op_default_role_id p = Some role_id then p\<lparr>op_default_role_id := None\<rparr> else p)
            (db_provider db)\<rparr>"

section \<open>Changes several routes share\<close>

definition MAX_EMAIL_LENGTH :: nat where
  "MAX_EMAIL_LENGTH = 254"

definition MAX_DISPLAY_NAME_LENGTH :: nat where
  "MAX_DISPLAY_NAME_LENGTH = 120"

definition user_by_id :: "access_db \<Rightarrow> rust_string \<Rightarrow> user_row option" where
  "user_by_id db user_id = find (\<lambda>u. us_id u = user_id) (db_users db)"

definition user_by_email :: "access_db \<Rightarrow> rust_string \<Rightarrow> user_row option" where
  "user_by_email db email = find (\<lambda>u. us_email u = email) (db_users db)"

definition update_user :: "rust_string \<Rightarrow> (user_row \<Rightarrow> user_row) \<Rightarrow> access_db \<Rightarrow> access_db" where
  "update_user user_id f db = db\<lparr>db_users := map (\<lambda>u. if us_id u = user_id then f u else u) (db_users db)\<rparr>"

definition set_roles :: "rust_string \<Rightarrow> rust_string list \<Rightarrow> access_db \<Rightarrow> access_error + access_db" where
  "set_roles user_id role_ids db =
     (let kept = filter (\<lambda>(u, _). u \<noteq> user_id) (rt_user_roles db) in
      if distinct role_ids \<and> list_all (role_exists db) role_ids
         \<and> (role_ids \<noteq> [] \<longrightarrow> user_id \<in> us_id ` set (db_users db))
      then Ok (db\<lparr>rt_user_roles := kept @ map (Pair user_id) role_ids\<rparr>)
      else Err Database_Error)"

record new_user =
  nu_id :: rust_string
  nu_email :: rust_string
  nu_display_name :: rust_string
  nu_password_hash :: "rust_string option"
  nu_role_ids :: "rust_string list"
  nu_now :: int

definition new_user_row :: "new_user \<Rightarrow> user_row" where
  "new_user_row n =
     \<lparr>us_id = nu_id n, us_email = nu_email n, us_display_name = nu_display_name n,
      us_password_hash = nu_password_hash n, us_password_changed_at = map_option (\<lambda>_. nu_now n) (nu_password_hash n),
      us_disabled = False, us_oidc_subject = None, us_scim_external_id = None, us_scim_managed = False,
      us_created_at = nu_now n, us_updated_at = nu_now n, us_last_sign_in_at = None\<rparr>"

definition insert_user :: "new_user \<Rightarrow> access_db \<Rightarrow> access_error + access_db" where
  "insert_user n db =
     (if nu_id n \<in> us_id ` set (db_users db) \<or> nu_email n \<in> us_email ` set (db_users db) then Err Database_Error
      else set_roles (nu_id n) (nu_role_ids n) (db\<lparr>db_users := db_users db @ [new_user_row n]\<rparr>))"

definition end_sessions :: "rust_string \<Rightarrow> rust_string option \<Rightarrow> access_db \<Rightarrow> access_db" where
  "end_sessions user_id keep db =
     db\<lparr>db_sessions := filter (\<lambda>s. \<not> (se_user_id s = user_id \<and> keep \<noteq> Some (se_id s))) (db_sessions db)\<rparr>"

definition set_password :: "rust_string \<Rightarrow> rust_string \<Rightarrow> rust_string option \<Rightarrow> int \<Rightarrow> access_db \<Rightarrow> access_db" where
  "set_password user_id password_hash keep now db =
     (let db1 = update_user user_id
                  (\<lambda>u. u\<lparr>us_password_hash := Some password_hash, us_password_changed_at := Some now,
                         us_updated_at := now\<rparr>) db;
          db2 = db1\<lparr>db_resets := map (\<lambda>r. if re_user_id r = user_id \<and> re_used_at r = None
                                           then r\<lparr>re_used_at := Some now\<rparr> else r) (db_resets db1)\<rparr> in
      end_sessions user_id keep db2)"

definition remove_recovery_codes :: "rust_string \<Rightarrow> access_db \<Rightarrow> access_db" where
  "remove_recovery_codes user_id db =
     db\<lparr>db_recovery_codes := filter (\<lambda>(_, u). u \<noteq> user_id) (db_recovery_codes db)\<rparr>"

definition remove_two_factor :: "rust_string \<Rightarrow> access_db \<Rightarrow> access_db" where
  "remove_two_factor user_id db =
     remove_recovery_codes user_id
       (db\<lparr>db_totp := filter (\<lambda>(u, _). u \<noteq> user_id) (db_totp db),
           db_passkeys := filter (\<lambda>(_, u). u \<noteq> user_id) (db_passkeys db)\<rparr>)"

definition has_totp :: "access_db \<Rightarrow> rust_string \<Rightarrow> bool" where
  "has_totp db user_id \<longleftrightarrow> (user_id, True) \<in> set (db_totp db)"

definition passkey_count :: "access_db \<Rightarrow> rust_string \<Rightarrow> nat" where
  "passkey_count db user_id = length (filter (\<lambda>(_, u). u = user_id) (db_passkeys db))"

definition second_factors_any :: "access_db \<Rightarrow> rust_string \<Rightarrow> bool" where
  "second_factors_any db user_id \<longleftrightarrow> has_totp db user_id \<or> 0 < passkey_count db user_id"

definition starts_with_char :: "rust_string \<Rightarrow> rust_char \<Rightarrow> bool" where
  "starts_with_char s c \<longleftrightarrow> s \<noteq> [] \<and> hd s = c"

definition ends_with_char :: "rust_string \<Rightarrow> rust_char \<Rightarrow> bool" where
  "ends_with_char s c \<longleftrightarrow> s \<noteq> [] \<and> last s = c"

definition normalize_email :: "(rust_string \<Rightarrow> rust_string) \<Rightarrow> rust_string \<Rightarrow> access_error + rust_string" where
  "normalize_email lower raw =
     (let email = lower (str_trim raw);
          valid = str_len email \<le> MAX_EMAIL_LENGTH
            \<and> list_all (\<lambda>c. \<not> (is_whitespace c \<or> char_is_control c)) email
            \<and> (case split_once 64 email of None \<Rightarrow> False
               | Some (local_part, domain) \<Rightarrow>
                   local_part \<noteq> [] \<and> domain \<noteq> [] \<and> 64 \<notin> set domain \<and> \<not> starts_with_char domain 46
                   \<and> \<not> ends_with_char domain 46) in
      if valid then Ok email else Err Bad_Request)"

definition validate_display_name :: "rust_string \<Rightarrow> access_error + rust_string" where
  "validate_display_name raw =
     (let name = str_trim raw in
      if name = [] \<or> MAX_DISPLAY_NAME_LENGTH < length name \<or> list_ex char_is_control name then Err Bad_Request
      else Ok name)"

section \<open>Who a request acts for\<close>

definition MS_PER_MINUTE :: int where
  "MS_PER_MINUTE = 60 * 1000"

definition HOUR_MS :: int where
  "HOUR_MS = 60 * MS_PER_MINUTE"

definition MS_PER_DAY :: int where
  "MS_PER_DAY = 24 * HOUR_MS"

definition TOUCH_INTERVAL_MS :: int where
  "TOUCH_INTERVAL_MS = MS_PER_MINUTE"

text \<open>
  Starting a session also takes away roles from SSO groups, unless the provider itself signed the user in.
\<close>

definition start_session ::
  "(rust_string \<Rightarrow> rust_string) \<Rightarrow> rust_string \<Rightarrow> rust_string \<Rightarrow> int \<Rightarrow> rust_string \<Rightarrow> auth_method \<Rightarrow> bool
   \<Rightarrow> access_db \<Rightarrow> access_error + access_db" where
  "start_session hash session_id token now user_id how verified db =
     (if session_id \<in> se_id ` set (db_sessions db) \<or> hash token \<in> se_token_hash ` set (db_sessions db)
         \<or> user_id \<notin> us_id ` set (db_users db) then Err Database_Error
      else
        let session =
              \<lparr>se_id = session_id, se_token_hash = hash token, se_user_id = user_id, se_auth_method = how,
               se_created_at = now, se_last_seen_at = now,
               se_expires_at = now + st_session_lifetime_hours (db_settings db) * HOUR_MS,
               se_verified_at = (if verified then Some now else None)\<rparr>;
            db1 = db\<lparr>db_sessions := db_sessions db @ [session]\<rparr>;
            db2 = (if how \<noteq> Auth_Oidc
                   then db1\<lparr>rt_user_oidc_groups := filter (\<lambda>(u, _). u \<noteq> user_id) (rt_user_oidc_groups db1)\<rparr>
                   else db1) in
        Ok (update_user user_id (\<lambda>u. u\<lparr>us_last_sign_in_at := Some now\<rparr>) db2))"

record signed_in =
  si_session_id :: rust_string
  si_user :: user_row
  si_roles :: "access_role list"
  si_permissions :: "permission set"
  si_must_enroll_two_factor :: bool

text \<open>The live session a token names: an expired or idle one is deleted, and its user must still be enabled.\<close>

definition load_session ::
  "(rust_string \<Rightarrow> rust_string) \<Rightarrow> rust_string \<Rightarrow> int \<Rightarrow> bool \<Rightarrow> access_db \<Rightarrow> access_db \<times> (access_error + signed_in)" where
  "load_session hash token now touch db =
     (case find (\<lambda>s. se_token_hash s = hash token) (db_sessions db) of
        None \<Rightarrow> (db, Err Unauthenticated)
      | Some s \<Rightarrow>
          if se_expires_at s \<le> now
             \<or> se_last_seen_at s + st_idle_timeout_minutes (db_settings db) * MS_PER_MINUTE \<le> now then
            (db\<lparr>db_sessions := filter (\<lambda>x. se_id x \<noteq> se_id s) (db_sessions db)\<rparr>, Err Unauthenticated)
          else
            case user_by_id db (se_user_id s) of
              None \<Rightarrow> (db, Err Unauthenticated)
            | Some user \<Rightarrow>
                if us_disabled user then (db, Err Unauthenticated)
                else
                  let db' = (if touch \<and> TOUCH_INTERVAL_MS \<le> now - se_last_seen_at s
                             then db\<lparr>db_sessions := map (\<lambda>x. if se_id x = se_id s then x\<lparr>se_last_seen_at := now\<rparr> else x)
                                                          (db_sessions db)\<rparr>
                             else db);
                      roles = user_roles db (us_id user) in
                  (db', Ok \<lparr>si_session_id = se_id s, si_user = user, si_roles = roles,
                            si_permissions = permissions_of roles,
                            si_must_enroll_two_factor =
                              st_require_two_factor (db_settings db) \<and> se_auth_method s = Auth_Password
                              \<and> \<not> second_factors_any db (us_id user)\<rparr>))"

record authorized =
  au_user :: user_row
  au_roles :: "access_role list"
  au_permissions :: "permission set"
  au_api_token :: "(rust_string \<times> rust_string) option"
  au_administrator :: bool

definition Authorized_new :: "signed_in \<Rightarrow> access_error + authorized" where
  "Authorized_new s =
     (if si_must_enroll_two_factor s then Err Two_Factor_Required
      else Ok \<lparr>au_user = si_user s, au_roles = si_roles s, au_permissions = si_permissions s, au_api_token = None,
               au_administrator = list_ex role_is_administrator (si_roles s)\<rparr>)"

definition parse_scope :: "rust_string list \<Rightarrow> permission set" where
  "parse_scope names = set (List.map_filter permission_from_str names)"

definition scope_names :: "permission set \<Rightarrow> rust_string list" where
  "scope_names ps = map permission_as_str (filter (\<lambda>p. p \<in> ps) Permission_ALL)"

definition token_expired :: "api_token_row \<Rightarrow> int \<Rightarrow> bool" where
  "token_expired t now \<longleftrightarrow> (case tk_expires_at t of None \<Rightarrow> False | Some e \<Rightarrow> e \<le> now)"

definition token_used :: "api_token_row \<Rightarrow> int \<Rightarrow> access_db \<Rightarrow> access_db" where
  "token_used t now db =
     (if (case tk_last_used_at t of None \<Rightarrow> True | Some used \<Rightarrow> TOUCH_INTERVAL_MS \<le> now - used)
      then db\<lparr>db_api_tokens := map (\<lambda>x. if tk_id x = tk_id t then x\<lparr>tk_last_used_at := Some now\<rparr> else x)
                                 (db_api_tokens db)\<rparr>
      else db)"

text \<open>
  \<open>Authorized::for_token\<close>: what the token may do is what its scope allows of what the user's roles grant now. A
  scoped token is not the Administrator role.
\<close>

definition token_authorized :: "access_db \<Rightarrow> user_row \<Rightarrow> api_token_row \<Rightarrow> authorized" where
  "token_authorized db user t =
     (let roles = user_roles db (us_id user);
          held = permissions_of roles;
          scope = map_option parse_scope (tk_scope t) in
      \<lparr>au_user = user, au_roles = roles,
       au_permissions = (case scope of Some s \<Rightarrow> held \<inter> s | None \<Rightarrow> held),
       au_api_token = Some (tk_id t, tk_name t),
       au_administrator = (scope = None \<and> list_ex role_is_administrator roles)\<rparr>)"

definition authenticate ::
  "(rust_string \<Rightarrow> rust_string) \<Rightarrow> rust_string \<Rightarrow> rust_string \<Rightarrow> nanos \<Rightarrow> int \<Rightarrow> rate_limiter \<Rightarrow> access_db
   \<Rightarrow> rate_limiter \<times> access_db \<times> (access_error + authorized)" where
  "authenticate hash secret key clock now limits db =
     (case check limits key clock of
        (limits1, Inl wait) \<Rightarrow> (limits1, db, Err (Rate_Limited wait))
      | (limits1, Inr _) \<Rightarrow>
          if \<not> st_api_tokens_enabled (db_settings db) then (limits1, db, Err Token_Refused)
          else
            case find (\<lambda>t. tk_token_hash t = hash secret) (db_api_tokens db) of
              None \<Rightarrow>
                (case hit_at limits1 key clock of
                   (limits2, Inl wait) \<Rightarrow> (limits2, db, Err (Rate_Limited wait))
                 | (limits2, Inr _) \<Rightarrow> (limits2, db, Err Token_Refused))
            | Some t \<Rightarrow>
                if token_expired t now then (limits1, db, Err Token_Refused)
                else
                  case user_by_id db (tk_user_id t) of
                    None \<Rightarrow> (limits1, db, Err Token_Refused)
                  | Some user \<Rightarrow>
                      if us_disabled user then (limits1, db, Err Token_Refused)
                      else (limits1, token_used t now db, Ok (token_authorized db user t)))"

definition au_require :: "authorized \<Rightarrow> permission \<Rightarrow> access_error + unit" where
  "au_require a p = ensure (p \<in> au_permissions a) (Permission_Denied p)"

definition require_website :: "authorized \<Rightarrow> access_error + unit" where
  "require_website a = ensure (au_api_token a = None) Website_Only"

definition require_administrator :: "authorized \<Rightarrow> access_error + unit" where
  "require_administrator a = ensure (au_administrator a) Administrators_Only"

definition ensure_within :: "authorized \<Rightarrow> permission set \<Rightarrow> access_error + unit" where
  "ensure_within a ps =
     (let missing = filter (\<lambda>p. p \<in> ps \<and> p \<notin> au_permissions a) Permission_ALL in
      ensure (missing = []) (Permission_Escalation missing))"

definition actor_id :: "authorized \<Rightarrow> rust_string option" where
  "actor_id a = Some (us_id (au_user a))"

end
