(* ===== verification/Access_Api.thy ===== *)
theory Access_Api
  imports Accounts
begin

text \<open>
  The routes that change who may do what: roles (\<open>server/src/api/roles.rs\<close>), users
  (\<open>server/src/api/users.rs\<close>), invitations (\<open>server/src/api/invitations.rs\<close>), password reset links
  (\<open>server/src/api/password_resets.rs\<close>), personal API tokens (\<open>server/src/api/api_tokens.rs\<close>), and the
  administrator's side of SCIM and single sign-on (\<open>server/src/api/scim.rs\<close>, \<open>server/src/api/sso.rs\<close>). A route
  runs in one transaction: it returns the new database, or an error that leaves the old one.
\<close>

section \<open>Roles\<close>

definition ROLE_MAX_NAME_LENGTH :: nat where
  "ROLE_MAX_NAME_LENGTH = 80"

definition MAX_DESCRIPTION_LENGTH :: nat where
  "MAX_DESCRIPTION_LENGTH = 500"

definition validate_role_name :: "rust_string \<Rightarrow> access_error + rust_string" where
  "validate_role_name raw =
     (let name = str_trim raw in
      if name = [] \<or> ROLE_MAX_NAME_LENGTH < length name \<or> list_ex char_is_control name then Err Bad_Request
      else Ok name)"

definition validate_description :: "rust_string \<Rightarrow> access_error + rust_string" where
  "validate_description raw =
     (let description = str_trim raw in
      if MAX_DESCRIPTION_LENGTH < length description \<or> list_ex (\<lambda>c. char_is_control c \<and> c \<noteq> 10) description
      then Err Bad_Request else Ok description)"

definition ensure_name_free ::
  "(rust_string \<Rightarrow> rust_string) \<Rightarrow> access_db \<Rightarrow> rust_string \<Rightarrow> rust_string option \<Rightarrow> access_error + unit" where
  "ensure_name_free lower db name except =
     ensure (\<not> list_ex (\<lambda>r. Some (rr_id r) \<noteq> except \<and> lower (rr_name r) = lower name) (rt_roles db)) Conflict"

definition set_permissions :: "rust_string \<Rightarrow> permission set \<Rightarrow> access_db \<Rightarrow> access_db" where
  "set_permissions role_id ps db =
     db\<lparr>rt_role_permissions :=
          filter (\<lambda>(r, _). r \<noteq> role_id) (rt_role_permissions db) @ map (Pair role_id) (scope_names ps)\<rparr>"

definition insert_role :: "role_row \<Rightarrow> access_db \<Rightarrow> access_error + access_db" where
  "insert_role row db =
     (if rr_id row \<in> rr_id ` set (rt_roles db) \<or> rr_name row \<in> rr_name ` set (rt_roles db) then Err Database_Error
      else Ok (db\<lparr>rt_roles := rt_roles db @ [row]\<rparr>))"

record new_role =
  nr_name :: rust_string
  nr_description :: rust_string
  nr_permissions :: "permission set"

definition create_role ::
  "(rust_string \<Rightarrow> rust_string) \<Rightarrow> authorized \<Rightarrow> new_role \<Rightarrow> rust_string \<Rightarrow> int \<Rightarrow> access_db
   \<Rightarrow> access_error + access_db" where
  "create_role lower actor request role_id now db =
     and_then (au_require actor RolesManage) (\<lambda>_.
     and_then (validate_role_name (nr_name request)) (\<lambda>name.
     and_then (validate_description (nr_description request)) (\<lambda>description.
     and_then (ensure_within actor (nr_permissions request)) (\<lambda>_.
     and_then (ensure_name_free lower db name None) (\<lambda>_.
     and_then (insert_role \<lparr>rr_id = role_id, rr_name = name, rr_description = description, rr_builtin = None,
                            rr_updated_at = now\<rparr> db) (\<lambda>db1.
       Ok (audit_record (actor_id actor) ''role.create'' role_id
             (set_permissions role_id (nr_permissions request) db1))))))))"

text \<open>A role the actor may change: not the Administrator role, and none granting permissions the actor lacks.\<close>

definition editable :: "authorized \<Rightarrow> rust_string \<Rightarrow> access_db \<Rightarrow> access_error + access_role" where
  "editable actor role_id db =
     and_then (au_require actor RolesManage) (\<lambda>_.
       case rev (load_roles db (Some [role_id])) of
         [] \<Rightarrow> Err Not_Found
       | role # _ \<Rightarrow>
           if role_is_administrator role then Err Forbidden
           else and_then (ensure_within actor (ro_permissions role)) (\<lambda>_. Ok role))"

definition update_role_row :: "access_role \<Rightarrow> int \<Rightarrow> access_db \<Rightarrow> access_error + access_db" where
  "update_role_row role now db =
     (if list_ex (\<lambda>r. rr_id r \<noteq> ro_id role \<and> rr_name r = ro_name role) (rt_roles db) then Err Database_Error
      else Ok (db\<lparr>rt_roles :=
             map (\<lambda>r. if rr_id r = ro_id role
                      then r\<lparr>rr_name := ro_name role, rr_description := ro_description role, rr_updated_at := now\<rparr>
                      else r) (rt_roles db)\<rparr>))"

record role_update =
  rq_name :: "rust_string option"
  rq_description :: "rust_string option"
  rq_permissions :: "permission set option"

definition renamed_role ::
  "(rust_string \<Rightarrow> rust_string) \<Rightarrow> access_db \<Rightarrow> role_update \<Rightarrow> access_role \<Rightarrow> access_error + access_role" where
  "renamed_role lower db request role =
     and_then (case rq_name request of None \<Rightarrow> Ok role
               | Some raw \<Rightarrow>
                   and_then (validate_role_name raw) (\<lambda>name.
                   and_then (ensure_name_free lower db name (Some (ro_id role))) (\<lambda>_. Ok (role\<lparr>ro_name := name\<rparr>))))
       (\<lambda>role1.
     case rq_description request of None \<Rightarrow> Ok role1
     | Some raw \<Rightarrow> and_then (validate_description raw) (\<lambda>d. Ok (role1\<lparr>ro_description := d\<rparr>)))"

definition update_role ::
  "(rust_string \<Rightarrow> rust_string) \<Rightarrow> authorized \<Rightarrow> rust_string \<Rightarrow> role_update \<Rightarrow> int \<Rightarrow> access_db
   \<Rightarrow> access_error + access_db" where
  "update_role lower actor role_id request now db =
     and_then (editable actor role_id db) (\<lambda>role.
     and_then (renamed_role lower db request role) (\<lambda>role1.
     and_then (update_role_row role1 now db) (\<lambda>db1.
     and_then (case rq_permissions request of None \<Rightarrow> Ok db1
               | Some ps \<Rightarrow> and_then (ensure_within actor ps) (\<lambda>_. Ok (set_permissions (ro_id role1) ps db1)))
       (\<lambda>db2. Ok (audit_record (actor_id actor) ''role.update'' (ro_id role1) db2)))))"

definition delete_role ::
  "authorized \<Rightarrow> rust_string \<Rightarrow> access_db \<Rightarrow> access_error + access_db" where
  "delete_role actor role_id db =
     and_then (editable actor role_id db) (\<lambda>role.
       if ro_builtin role \<noteq> None then Err Forbidden
       else Ok (audit_record (actor_id actor) ''role.delete'' (ro_id role) (delete_role_row (ro_id role) db)))"

section \<open>Users\<close>

text \<open>
  The actor must hold every permission the user does, or managing users would let someone take over a more
  powerful account.
\<close>

definition manageable :: "authorized \<Rightarrow> rust_string \<Rightarrow> access_db \<Rightarrow> access_error + user_row \<times> access_role list" where
  "manageable actor user_id db =
     and_then (au_require actor UsersManage) (\<lambda>_.
       case user_by_id db user_id of
         None \<Rightarrow> Err Not_Found
       | Some user \<Rightarrow>
           let roles = user_roles db (us_id user) in
           and_then (if list_ex role_is_administrator roles then require_administrator actor else Ok ()) (\<lambda>_.
           and_then (ensure_within actor (permissions_of roles)) (\<lambda>_. Ok (user, roles))))"

definition not_self :: "authorized \<Rightarrow> user_row \<Rightarrow> access_error + unit" where
  "not_self actor user = ensure (us_id user \<noteq> us_id (au_user actor)) Forbidden"

definition enabled_administrators :: "access_db \<Rightarrow> user_row list" where
  "enabled_administrators db =
     filter (\<lambda>u. \<not> us_disabled u \<and> (us_id u, ADMINISTRATOR_ROLE_ID) \<in> set (effective_user_roles db)) (db_users db)"

definition ensure_administrator_remains :: "access_db \<Rightarrow> access_error + unit" where
  "ensure_administrator_remains db = ensure (enabled_administrators db \<noteq> []) Last_Administrator"

definition grantable_roles :: "authorized \<Rightarrow> rust_string list \<Rightarrow> access_db \<Rightarrow> access_error + access_role list" where
  "grantable_roles actor role_ids db =
     (let unique = remdups_adj (sort role_ids); roles = load_roles db (Some unique) in
      if length roles \<noteq> length unique then Err Bad_Request
      else
        and_then (if list_ex role_is_administrator roles then require_administrator actor else Ok ()) (\<lambda>_.
        and_then (ensure_within actor (permissions_of roles)) (\<lambda>_. Ok roles)))"

record user_update =
  uu_display_name :: "rust_string option"
  uu_disabled :: "bool option"
  uu_role_ids :: "rust_string list option"

text \<open>The columns an update changes, and the sessions it ends.\<close>

definition update_profile ::
  "authorized \<Rightarrow> user_row \<Rightarrow> user_update \<Rightarrow> int \<Rightarrow> access_db \<Rightarrow> access_error + access_db \<times> bool" where
  "update_profile actor user request now db =
     and_then (case uu_display_name request of None \<Rightarrow> Ok None
               | Some raw \<Rightarrow> and_then (validate_display_name raw) (\<lambda>name. Ok (Some name))) (\<lambda>name.
     let disabled = (case uu_disabled request of Some d \<Rightarrow> if d \<noteq> us_disabled user then Some d else None | None \<Rightarrow> None) in
     if disabled = Some True \<and> us_id user = us_id (au_user actor) then Err Bad_Request
     else
       let db1 = (if disabled = Some True then end_sessions (us_id user) None db else db);
           changed = (name \<noteq> None \<or> disabled \<noteq> None) in
       Ok (if changed
           then update_user (us_id user)
                  (\<lambda>u. u\<lparr>us_display_name := (case name of None \<Rightarrow> us_display_name u | Some n \<Rightarrow> n),
                         us_disabled := (case disabled of None \<Rightarrow> us_disabled u | Some d \<Rightarrow> d),
                         us_updated_at := now\<rparr>) db1
           else db1, changed))"

definition api_update_user ::
  "authorized \<Rightarrow> rust_string \<Rightarrow> user_update \<Rightarrow> int \<Rightarrow> access_db \<Rightarrow> access_error + access_db" where
  "api_update_user actor user_id request now db =
     and_then (manageable actor user_id db) (\<lambda>(user, _).
     and_then (update_profile actor user request now db) (\<lambda>(db1, changed).
     and_then (case uu_role_ids request of None \<Rightarrow> Ok db1
               | Some role_ids \<Rightarrow>
                   and_then (grantable_roles actor role_ids db1) (\<lambda>roles.
                     set_roles (us_id user) (map ro_id roles) db1)) (\<lambda>db2.
     and_then (ensure_administrator_remains db2) (\<lambda>_.
       Ok (if changed \<or> uu_role_ids request \<noteq> None
           then audit_record (actor_id actor) ''user.update'' (us_id user) db2 else db2)))))"

definition api_delete_user :: "authorized \<Rightarrow> rust_string \<Rightarrow> access_db \<Rightarrow> access_error + access_db" where
  "api_delete_user actor user_id db =
     and_then (manageable actor user_id db) (\<lambda>(user, _).
     and_then (ensure (us_id user \<noteq> us_id (au_user actor)) Bad_Request) (\<lambda>_.
     let db1 = delete_user_row (us_id user) db in
     and_then (ensure_administrator_remains db1) (\<lambda>_.
       Ok (audit_record (actor_id actor) ''user.delete'' (us_id user) db1))))"

definition api_reset_two_factor :: "authorized \<Rightarrow> rust_string \<Rightarrow> access_db \<Rightarrow> access_error + access_db" where
  "api_reset_two_factor actor user_id db =
     and_then (manageable actor user_id db) (\<lambda>(user, _).
     and_then (not_self actor user) (\<lambda>_.
       Ok (audit_record (actor_id actor) ''user.two_factor_reset'' (us_id user)
             (end_sessions (us_id user) None (remove_two_factor (us_id user) db)))))"

definition SELF_SERVICE_RESET_TTL_MS :: int where
  "SELF_SERVICE_RESET_TTL_MS = HOUR_MS"

definition ADMIN_RESET_TTL_MS :: int where
  "ADMIN_RESET_TTL_MS = 24 * HOUR_MS"

definition create_reset ::
  "(rust_string \<Rightarrow> rust_string) \<Rightarrow> rust_string \<Rightarrow> rust_string \<Rightarrow> rust_string \<Rightarrow> rust_string option \<Rightarrow> int \<Rightarrow> int
   \<Rightarrow> access_db \<Rightarrow> access_error + access_db" where
  "create_reset hash reset_id token user_id created_by ttl now db =
     (if reset_id \<in> re_id ` set (db_resets db) \<or> hash token \<in> re_token_hash ` set (db_resets db)
         \<or> user_id \<notin> us_id ` set (db_users db) then Err Database_Error
      else Ok (db\<lparr>db_resets := db_resets db @
             [\<lparr>re_id = reset_id, re_token_hash = hash token, re_user_id = user_id, re_created_by = created_by,
               re_created_at = now, re_expires_at = now + ttl, re_used_at = None\<rparr>]\<rparr>))"

definition api_password_reset ::
  "(rust_string \<Rightarrow> rust_string) \<Rightarrow> authorized \<Rightarrow> rust_string \<Rightarrow> rust_string \<Rightarrow> rust_string \<Rightarrow> int \<Rightarrow> access_db
   \<Rightarrow> access_error + access_db" where
  "api_password_reset hash actor user_id reset_id token now db =
     and_then (manageable actor user_id db) (\<lambda>(user, _).
     and_then (not_self actor user) (\<lambda>_.
     and_then (ensure (\<not> us_disabled user) Conflict) (\<lambda>_.
     and_then (create_reset hash reset_id token (us_id user) (actor_id actor) ADMIN_RESET_TTL_MS now db) (\<lambda>db1.
       Ok (audit_record (actor_id actor) ''user.password_reset_create'' (us_id user) db1)))))"

definition api_sign_out :: "authorized \<Rightarrow> rust_string \<Rightarrow> access_db \<Rightarrow> access_error + access_db" where
  "api_sign_out actor user_id db =
     and_then (manageable actor user_id db) (\<lambda>(user, _).
       Ok (audit_record (actor_id actor) ''user.sign_out'' (us_id user) (end_sessions (us_id user) None db)))"

definition forget_oidc_groups :: "rust_string \<Rightarrow> access_db \<Rightarrow> access_db" where
  "forget_oidc_groups user_id db =
     db\<lparr>rt_user_oidc_groups := filter (\<lambda>(u, _). u \<noteq> user_id) (rt_user_oidc_groups db)\<rparr>"

definition api_unlink_sso :: "authorized \<Rightarrow> rust_string \<Rightarrow> access_db \<Rightarrow> access_error + access_db" where
  "api_unlink_sso actor user_id db =
     and_then (manageable actor user_id db) (\<lambda>(user, _).
     and_then (ensure (us_oidc_subject user \<noteq> None) Conflict) (\<lambda>_.
     let db1 = forget_oidc_groups (us_id user)
                 (update_user (us_id user) (\<lambda>u. u\<lparr>us_oidc_subject := None\<rparr>) db) in
     and_then (ensure_administrator_remains db1) (\<lambda>_.
       Ok (audit_record (actor_id actor) ''user.sso_unlink'' (us_id user) db1))))"

section \<open>Invitations\<close>

definition INVITATION_TTL_MS :: int where
  "INVITATION_TTL_MS = 7 * MS_PER_DAY"

definition invitation_open :: "invitation_row \<Rightarrow> bool" where
  "invitation_open i \<longleftrightarrow> iv_accepted_at i = None \<and> iv_revoked_at i = None"

definition invitation_role_ids :: "access_db \<Rightarrow> rust_string \<Rightarrow> rust_string list" where
  "invitation_role_ids db invitation_id =
     map snd (filter (\<lambda>(i, _). i = invitation_id) (db_invitation_roles db))"

definition insert_invitation :: "invitation_row \<Rightarrow> rust_string list \<Rightarrow> access_db \<Rightarrow> access_error + access_db" where
  "insert_invitation row role_ids db =
     (if iv_id row \<in> iv_id ` set (db_invitations db) \<or> iv_token_hash row \<in> iv_token_hash ` set (db_invitations db)
         \<or> \<not> distinct role_ids \<or> \<not> list_all (role_exists db) role_ids then Err Database_Error
      else Ok (db\<lparr>db_invitations := db_invitations db @ [row],
                  db_invitation_roles := db_invitation_roles db @ map (Pair (iv_id row)) role_ids\<rparr>))"

definition create_invitation ::
  "(rust_string \<Rightarrow> rust_string) \<Rightarrow> (rust_string \<Rightarrow> rust_string) \<Rightarrow> authorized \<Rightarrow> rust_string \<Rightarrow> rust_string list
   \<Rightarrow> rust_string \<Rightarrow> rust_string \<Rightarrow> int \<Rightarrow> access_db \<Rightarrow> access_error + access_db" where
  "create_invitation hash lower actor raw_email role_ids invitation_id token now db =
     and_then (au_require actor UsersManage) (\<lambda>_.
     and_then (normalize_email lower raw_email) (\<lambda>email.
     and_then (grantable_roles actor role_ids db) (\<lambda>roles.
     and_then (ensure (user_by_email db email = None) Conflict) (\<lambda>_.
     and_then (ensure (\<not> list_ex (\<lambda>i. invitation_open i \<and> iv_email i = email) (db_invitations db)) Conflict) (\<lambda>_.
     and_then (insert_invitation
                 \<lparr>iv_id = invitation_id, iv_token_hash = hash token, iv_email = email, iv_created_by = actor_id actor,
                  iv_created_at = now, iv_expires_at = now + INVITATION_TTL_MS, iv_accepted_at = None,
                  iv_revoked_at = None\<rparr> (map ro_id roles) db) (\<lambda>db1.
       Ok (audit_record (actor_id actor) ''invitation.create'' invitation_id db1)))))))"

text \<open>An open invitation whose roles the actor could grant, or renewing it would hand the link to more access.\<close>

definition manageable_invitation :: "authorized \<Rightarrow> rust_string \<Rightarrow> access_db \<Rightarrow> access_error + invitation_row" where
  "manageable_invitation actor invitation_id db =
     and_then (au_require actor UsersManage) (\<lambda>_.
       case find (\<lambda>i. invitation_open i \<and> iv_id i = invitation_id) (db_invitations db) of
         None \<Rightarrow> Err Not_Found
       | Some row \<Rightarrow>
           and_then (grantable_roles actor (invitation_role_ids db (iv_id row)) db) (\<lambda>_. Ok row))"

definition update_invitation ::
  "rust_string \<Rightarrow> (invitation_row \<Rightarrow> invitation_row) \<Rightarrow> access_db \<Rightarrow> access_db" where
  "update_invitation invitation_id f db =
     db\<lparr>db_invitations := map (\<lambda>i. if iv_id i = invitation_id then f i else i) (db_invitations db)\<rparr>"

definition revoke_invitation :: "authorized \<Rightarrow> rust_string \<Rightarrow> int \<Rightarrow> access_db \<Rightarrow> access_error + access_db" where
  "revoke_invitation actor invitation_id now db =
     and_then (manageable_invitation actor invitation_id db) (\<lambda>row.
       Ok (audit_record (actor_id actor) ''invitation.revoke'' (iv_id row)
             (update_invitation (iv_id row) (\<lambda>i. i\<lparr>iv_revoked_at := Some now\<rparr>) db)))"

definition renew_invitation ::
  "(rust_string \<Rightarrow> rust_string) \<Rightarrow> authorized \<Rightarrow> rust_string \<Rightarrow> rust_string \<Rightarrow> int \<Rightarrow> access_db
   \<Rightarrow> access_error + access_db" where
  "renew_invitation hash actor invitation_id token now db =
     and_then (manageable_invitation actor invitation_id db) (\<lambda>row.
     if list_ex (\<lambda>i. iv_id i \<noteq> iv_id row \<and> iv_token_hash i = hash token) (db_invitations db) then Err Database_Error
     else Ok (audit_record (actor_id actor) ''invitation.renew'' (iv_id row)
                (update_invitation (iv_id row)
                   (\<lambda>i. i\<lparr>iv_token_hash := hash token, iv_expires_at := now + INVITATION_TTL_MS\<rparr>) db)))"

definition find_invitation ::
  "(rust_string \<Rightarrow> rust_string) \<Rightarrow> rust_string \<Rightarrow> int \<Rightarrow> access_db \<Rightarrow> access_error + invitation_row" where
  "find_invitation hash token now db =
     (case find (\<lambda>i. invitation_open i \<and> now < iv_expires_at i \<and> iv_token_hash i = hash token) (db_invitations db) of
        None \<Rightarrow> Err Invalid_Link
      | Some row \<Rightarrow> Ok row)"

text \<open>
  Accepting an invitation, whose checks of the password and of the client's attempts come before: it creates the
  account with the invitation's roles that still exist, and signs it in.
\<close>

definition accept_invitation ::
  "(rust_string \<Rightarrow> rust_string) \<Rightarrow> rust_string \<Rightarrow> rust_string \<Rightarrow> rust_string \<Rightarrow> rust_string
   \<Rightarrow> rust_string \<times> rust_string \<Rightarrow> int \<Rightarrow> access_db \<Rightarrow> access_error + access_db" where
  "accept_invitation hash token raw_name password_hash user_id session now db =
     and_then (validate_display_name raw_name) (\<lambda>display_name.
     and_then (find_invitation hash token now db) (\<lambda>row.
     and_then (ensure (user_by_email db (iv_email row) = None) Conflict) (\<lambda>_.
     let db1 = update_invitation (iv_id row)
                 (\<lambda>i. if invitation_open i then i\<lparr>iv_accepted_at := Some now\<rparr> else i) db in
     and_then (ensure (length (filter (\<lambda>i. iv_id i = iv_id row \<and> invitation_open i) (db_invitations db)) = 1)
                 Invalid_Link) (\<lambda>_.
     and_then (insert_user
                 \<lparr>nu_id = user_id, nu_email = iv_email row, nu_display_name = display_name,
                  nu_password_hash = Some password_hash, nu_role_ids = invitation_role_ids db1 (iv_id row),
                  nu_now = now\<rparr> db1) (\<lambda>db2.
       start_session hash (fst session) (snd session) now user_id Auth_Password False
         (audit_record (Some user_id) ''invitation.accept'' (iv_id row) db2))))))"

section \<open>Password reset links\<close>

definition find_reset ::
  "(rust_string \<Rightarrow> rust_string) \<Rightarrow> rust_string \<Rightarrow> int \<Rightarrow> access_db \<Rightarrow> access_error + reset_row \<times> user_row" where
  "find_reset hash token now db =
     (case find (\<lambda>r. re_token_hash r = hash token \<and> re_used_at r = None \<and> now < re_expires_at r) (db_resets db) of
        None \<Rightarrow> Err Invalid_Link
      | Some reset \<Rightarrow>
          (case user_by_id db (re_user_id reset) of
             None \<Rightarrow> Err Invalid_Link
           | Some user \<Rightarrow> if us_disabled user then Err Invalid_Link else Ok (reset, user)))"

definition complete_reset ::
  "(rust_string \<Rightarrow> rust_string) \<Rightarrow> rust_string \<Rightarrow> rust_string \<Rightarrow> int \<Rightarrow> access_db \<Rightarrow> access_error + access_db" where
  "complete_reset hash token password_hash now db =
     and_then (find_reset hash token now db) (\<lambda>(reset, user).
     let db1 = db\<lparr>db_resets := map (\<lambda>r. if re_id r = re_id reset \<and> re_used_at r = None
                                         then r\<lparr>re_used_at := Some now\<rparr> else r) (db_resets db)\<rparr> in
     and_then (ensure (length (filter (\<lambda>r. re_id r = re_id reset \<and> re_used_at r = None) (db_resets db)) = 1)
                 Invalid_Link) (\<lambda>_.
       Ok (audit_record (Some (us_id user)) ''user.password_reset_complete'' (us_id user)
             (set_password (us_id user) password_hash None now db1))))"

section \<open>Personal API tokens\<close>

definition MAX_TOKENS_PER_USER :: nat where
  "MAX_TOKENS_PER_USER = 50"

definition MAX_LIFETIME_DAYS :: nat where
  "MAX_LIFETIME_DAYS = 3650"

definition check_lifetime :: "nat option \<Rightarrow> int option \<Rightarrow> access_error + unit" where
  "check_lifetime days max_days =
     (case days of
        Some d \<Rightarrow>
          if d = 0 \<or> MAX_LIFETIME_DAYS < d then Err Bad_Request
          else (case max_days of Some m \<Rightarrow> if m < int d then Err Lifetime_Too_Long else Ok () | None \<Rightarrow> Ok ())
      | None \<Rightarrow> (case max_days of Some _ \<Rightarrow> Err Lifetime_Too_Long | None \<Rightarrow> Ok ()))"

record new_token =
  nt_name :: rust_string
  nt_expires_in_days :: "nat option option"
  nt_permissions :: "permission set option"

definition create_api_token ::
  "(rust_string \<Rightarrow> rust_string) \<Rightarrow> authorized \<Rightarrow> new_token \<Rightarrow> rust_string \<Rightarrow> rust_string \<Rightarrow> int \<Rightarrow> access_db
   \<Rightarrow> access_error + access_db" where
  "create_api_token hash actor request token_id secret now db =
     and_then (require_website actor) (\<lambda>_.
     let name = str_trim (nt_name request); owner = us_id (au_user actor) in
     if name = [] \<or> 80 < length name \<or> list_ex char_is_control name then Err Bad_Request
     else
       case nt_expires_in_days request of
         None \<Rightarrow> Err Bad_Request
       | Some days \<Rightarrow>
           and_then (case nt_permissions request of None \<Rightarrow> Ok ()
                     | Some ps \<Rightarrow> if ps = {} then Err Bad_Request else ensure_within actor ps) (\<lambda>_.
           and_then (ensure (st_api_tokens_enabled (db_settings db)) Forbidden) (\<lambda>_.
           and_then (check_lifetime days (st_api_token_max_lifetime_days (db_settings db))) (\<lambda>_.
           and_then (ensure (length (filter (\<lambda>t. tk_user_id t = owner) (db_api_tokens db)) < MAX_TOKENS_PER_USER)
                       Too_Many_Tokens) (\<lambda>_.
             if token_id \<in> tk_id ` set (db_api_tokens db) \<or> hash secret \<in> tk_token_hash ` set (db_api_tokens db)
                \<or> owner \<notin> us_id ` set (db_users db) then Err Database_Error
             else Ok (audit_record (actor_id actor) ''api_token.create'' token_id
                    (db\<lparr>db_api_tokens := db_api_tokens db @
                       [\<lparr>tk_id = token_id, tk_user_id = owner, tk_name = name, tk_token_hash = hash secret,
                         tk_scope = map_option scope_names (nt_permissions request), tk_created_at = now,
                         tk_expires_at = map_option (\<lambda>d. now + int d * MS_PER_DAY) days,
                         tk_last_used_at = None\<rparr>]\<rparr>)))))))"

definition revoke_api_token :: "authorized \<Rightarrow> rust_string \<Rightarrow> access_db \<Rightarrow> access_error + access_db" where
  "revoke_api_token actor token_id db =
     (case find (\<lambda>t. tk_id t = token_id) (db_api_tokens db) of
        None \<Rightarrow> Err Not_Found
      | Some t \<Rightarrow>
          if tk_user_id t = us_id (au_user actor) \<or> ApiTokensManage \<in> au_permissions actor
          then Ok (audit_record (actor_id actor) ''api_token.revoke'' token_id
                 (db\<lparr>db_api_tokens := filter (\<lambda>x. tk_id x \<noteq> token_id) (db_api_tokens db)\<rparr>))
          else Err Not_Found)"

section \<open>The administrator's side of SCIM and single sign-on\<close>

definition update_scim_group ::
  "authorized \<Rightarrow> rust_string \<Rightarrow> rust_string option option \<Rightarrow> access_db \<Rightarrow> access_error + access_db" where
  "update_scim_group actor group_id request db =
     and_then (require_administrator actor) (\<lambda>_.
     case request of
       None \<Rightarrow> Err Bad_Request
     | Some role_id \<Rightarrow>
         and_then (case role_id of None \<Rightarrow> Ok ()
                   | Some r \<Rightarrow> ensure (load_roles db (Some [r]) \<noteq> []) Bad_Request) (\<lambda>_.
         and_then (ensure (group_id \<in> sg_id ` set (rt_scim_groups db)) Not_Found) (\<lambda>_.
         let db1 = db\<lparr>rt_scim_groups := map (\<lambda>g. if sg_id g = group_id then g\<lparr>sg_role_id := role_id\<rparr> else g)
                                          (rt_scim_groups db)\<rparr> in
         and_then (ensure_administrator_remains db1) (\<lambda>_.
           Ok (audit_record (actor_id actor) ''scim.group_role_update'' group_id db1)))))"

text \<open>
  The settings of single sign-on after their validation: the provider and which roles its groups grant, without
  repetitions. A new issuer unlinks every account, and without a groups claim everyone's stored groups go.
\<close>

definition unlink_everyone :: "access_db \<Rightarrow> access_db" where
  "unlink_everyone db =
     db\<lparr>db_users := map (\<lambda>u. u\<lparr>us_oidc_subject := None\<rparr>) (db_users db), rt_user_oidc_groups := []\<rparr>"

definition store_group_roles ::
  "rust_string option \<Rightarrow> (rust_string \<times> rust_string) list \<Rightarrow> access_db \<Rightarrow> access_db" where
  "store_group_roles groups_claim mappings db =
     (let db1 = db\<lparr>rt_oidc_group_roles := mappings\<rparr> in
      if groups_claim = None then db1\<lparr>rt_user_oidc_groups := []\<rparr> else db1)"

definition check_roles_exist ::
  "(rust_string \<times> rust_string) list \<Rightarrow> rust_string option \<Rightarrow> access_db \<Rightarrow> access_error + unit" where
  "check_roles_exist mappings default_role db =
     (let role_ids = remdups (map snd mappings @ (case default_role of None \<Rightarrow> [] | Some r \<Rightarrow> [r])) in
      ensure (length (load_roles db (Some role_ids)) = length role_ids) Bad_Request)"

definition put_sso_settings ::
  "authorized \<Rightarrow> oidc_provider \<Rightarrow> (rust_string \<times> rust_string) list \<Rightarrow> access_db \<Rightarrow> access_error + access_db" where
  "put_sso_settings actor provider request db =
     and_then (require_administrator actor) (\<lambda>_.
     let mappings = (if op_groups_claim provider = None then [] else remdups request) in
     and_then (check_roles_exist mappings (op_default_role_id provider) db) (\<lambda>_.
     let db1 = (case db_provider db of
                  Some p \<Rightarrow> if op_issuer_url p \<noteq> op_issuer_url provider then unlink_everyone db else db
                | None \<Rightarrow> db);
         db2 = store_group_roles (op_groups_claim provider) mappings (db1\<lparr>db_provider := Some provider\<rparr>) in
     and_then (ensure_administrator_remains db2) (\<lambda>_.
       Ok (audit_record (actor_id actor) ''settings.sso_update'' (lit ''instance'') db2))))"

definition delete_sso_settings :: "authorized \<Rightarrow> access_db \<Rightarrow> access_error + access_db" where
  "delete_sso_settings actor db =
     and_then (require_administrator actor) (\<lambda>_.
     let db1 = (unlink_everyone db)\<lparr>rt_oidc_group_roles := [], db_provider := None\<rparr> in
     and_then (ensure (db_provider db \<noteq> None) Not_Found) (\<lambda>_.
     and_then (ensure_administrator_remains db1) (\<lambda>_.
       Ok (audit_record (actor_id actor) ''settings.sso_delete'' (lit ''instance'') db1))))"

end
