(* ===== verification/Identity_Provider.thy ===== *)
theory Identity_Provider
  imports Access_Api Scim_Patch
begin

text \<open>
  What the company's identity provider changes: users and groups it provisions over SCIM
  (\<open>server/src/scim/users.rs\<close>, \<open>server/src/scim/groups.rs\<close>) and sign-ins through its OpenID Connect endpoint once
  the ID token is verified (\<open>server/src/api/sso.rs\<close>). SQL's \<open>lower\<close> is the parameter \<open>sql_lower\<close>, and the \<open>meta\<close>
  member of a resource, with its links and times, is a parameter.
\<close>

section \<open>Users over SCIM\<close>

definition scim_text :: "'n json \<Rightarrow> rust_string \<Rightarrow> rust_string option" where
  "scim_text resource key =
     (case member resource key of
        Some (JString s) \<Rightarrow> let v = str_trim s in if v = [] then None else Some v
      | _ \<Rightarrow> None)"

definition scim_boolean :: "'n json \<Rightarrow> rust_string \<Rightarrow> access_error + bool option" where
  "scim_boolean resource key =
     (case member resource key of
        None \<Rightarrow> Ok None
      | Some JNull \<Rightarrow> Ok None
      | Some (JBool b) \<Rightarrow> Ok (Some b)
      | Some (JString s) \<Rightarrow>
          if eq_ignore_ascii_case s (lit ''true'') then Ok (Some True)
          else if eq_ignore_ascii_case s (lit ''false'') then Ok (Some False)
          else Err Bad_Request
      | Some _ \<Rightarrow> Err Bad_Request)"

record scim_user_input =
  su_email :: rust_string
  su_display_name :: rust_string
  su_active :: "bool option"
  su_external_id :: "rust_string option"

definition or_else :: "'a option \<Rightarrow> 'a option \<Rightarrow> 'a option" where
  "or_else a b = (case a of None \<Rightarrow> b | Some v \<Rightarrow> Some v)"

definition default_display_name :: "rust_string \<Rightarrow> rust_string" where
  "default_display_name email = take MAX_DISPLAY_NAME_LENGTH (hd (str_split 64 email))"

definition given_and_family :: "rust_string option \<Rightarrow> rust_string option \<Rightarrow> rust_string option" where
  "given_and_family given family =
     (case (given, family) of
        (Some g, Some f) \<Rightarrow> Some (g @ lit '' '' @ f)
      | _ \<Rightarrow> or_else given family)"

definition valid_display_name :: "rust_string option \<Rightarrow> rust_string option" where
  "valid_display_name name =
     (case name of None \<Rightarrow> None
      | Some n \<Rightarrow> (case validate_display_name n of Inl _ \<Rightarrow> None | Inr v \<Rightarrow> Some v))"

definition scim_user_from_json :: "(rust_string \<Rightarrow> rust_string) \<Rightarrow> 'n json \<Rightarrow> access_error + scim_user_input" where
  "scim_user_from_json lower resource =
     (case scim_text resource (lit ''userName'') of
        None \<Rightarrow> Err Bad_Request
      | Some user_name \<Rightarrow>
          and_then (normalize_email lower user_name) (\<lambda>email.
          let name_part = (\<lambda>key. case member resource (lit ''name'') of None \<Rightarrow> None | Some n \<Rightarrow> scim_text n key);
              name = or_else (scim_text resource (lit ''displayName''))
                       (or_else (name_part (lit ''formatted''))
                          (given_and_family (name_part (lit ''givenName'')) (name_part (lit ''familyName''))));
              display_name = (case valid_display_name name of None \<Rightarrow> default_display_name email | Some n \<Rightarrow> n);
              external_id = scim_text resource (lit ''externalId'') in
          if (case external_id of None \<Rightarrow> False | Some e \<Rightarrow> 512 < str_len e) then Err Bad_Request
          else
            and_then (scim_boolean resource (lit ''active'')) (\<lambda>active.
              Ok \<lparr>su_email = email, su_display_name = display_name, su_active = active,
                  su_external_id = external_id\<rparr>)))"

text \<open>The resource a patch is applied to.\<close>

definition scim_groups_of :: "access_db \<Rightarrow> rust_string \<Rightarrow> (rust_string \<times> rust_string) list" where
  "scim_groups_of db user_id =
     List.map_filter (\<lambda>((g, u), grp). if sg_id grp = g \<and> u = user_id then Some (sg_id grp, sg_display_name grp) else None)
       (List.product (rt_scim_group_members db) (rt_scim_groups db))"

definition scim_user_resource :: "'n json \<Rightarrow> rust_string \<Rightarrow> access_db \<Rightarrow> user_row \<Rightarrow> 'n json" where
  "scim_user_resource meta base_url db user =
     JObject
       ([(lit ''active'', JBool (\<not> us_disabled user)),
         (lit ''displayName'', JString (us_display_name user)),
         (lit ''emails'', JArray [JObject [(lit ''primary'', JBool True), (lit ''type'', JString (lit ''work'')),
                                            (lit ''value'', JString (us_email user))]])]
        @ (case us_scim_external_id user of None \<Rightarrow> [] | Some e \<Rightarrow> [(lit ''externalId'', JString e)])
        @ [(lit ''groups'',
             JArray (map (\<lambda>(g, name). JObject [(lit ''$ref'', JString (base_url @ lit ''/Groups/'' @ g)),
                                                (lit ''display'', JString name), (lit ''value'', JString g)])
                       (scim_groups_of db (us_id user)))),
           (lit ''id'', JString (us_id user)), (lit ''meta'', meta),
           (lit ''name'', JObject [(lit ''formatted'', JString (us_display_name user))]),
           (lit ''schemas'', JArray [JString (lit ''urn:ietf:params:scim:schemas:core:2.0:User'')]),
           (lit ''userName'', JString (us_email user))])"

definition scim_ensure_unique ::
  "scim_user_input \<Rightarrow> rust_string option \<Rightarrow> access_db \<Rightarrow> access_error + unit" where
  "scim_ensure_unique input except db =
     ensure (\<not> list_ex (\<lambda>u. (us_email u = su_email input
                             \<or> (su_external_id input \<noteq> None \<and> us_scim_external_id u = su_external_id input))
                           \<and> Some (us_id u) \<noteq> except) (db_users db)) Conflict"

definition scim_create_user :: "scim_user_input \<Rightarrow> rust_string \<Rightarrow> int \<Rightarrow> access_db \<Rightarrow> access_error + access_db" where
  "scim_create_user input user_id now db =
     and_then (scim_ensure_unique input None db) (\<lambda>_.
     and_then (insert_user
                 \<lparr>nu_id = user_id, nu_email = su_email input, nu_display_name = su_display_name input,
                  nu_password_hash = None, nu_role_ids = [], nu_now = now\<rparr> db) (\<lambda>db1.
       Ok (audit_record None ''scim.user_create'' user_id
             (update_user user_id
                (\<lambda>u. u\<lparr>us_scim_external_id := su_external_id input, us_scim_managed := True,
                       us_disabled := (su_active input = Some False)\<rparr>) db1))))"

datatype 'n scim_user_change = Replace_User scim_user_input | Patch_User "'n patch_operation list"

definition scim_user_input_of ::
  "(rust_string \<Rightarrow> rust_string) \<Rightarrow> (rust_string \<Rightarrow> 'n option) \<Rightarrow> 'n json \<Rightarrow> rust_string \<Rightarrow> rust_string
   \<Rightarrow> 'n scim_user_change \<Rightarrow> access_db \<Rightarrow> access_error + scim_user_input" where
  "scim_user_input_of lower number meta base_url user_id change db =
     (case change of
        Replace_User input \<Rightarrow> Ok input
      | Patch_User operations \<Rightarrow>
          (case user_by_id db user_id of
             None \<Rightarrow> Err Not_Found
           | Some user \<Rightarrow>
               (case apply_patch lower number operations (scim_user_resource meta base_url db user) of
                  Inl _ \<Rightarrow> Err Bad_Request
                | Inr resource \<Rightarrow> scim_user_from_json lower resource)))"

text \<open>What an update changes, and the columns it sets.\<close>

definition scim_user_changed :: "scim_user_input \<Rightarrow> user_row \<Rightarrow> bool" where
  "scim_user_changed input user \<longleftrightarrow>
     su_email input \<noteq> us_email user \<or> su_display_name input \<noteq> us_display_name user
     \<or> su_external_id input \<noteq> us_scim_external_id user
     \<or> (case su_active input of None \<Rightarrow> False | Some active \<Rightarrow> (\<not> active) \<noteq> us_disabled user)"

definition scim_set_user :: "scim_user_input \<Rightarrow> bool \<Rightarrow> int \<Rightarrow> user_row \<Rightarrow> user_row" where
  "scim_set_user input changed now u =
     u\<lparr>us_scim_managed := True, us_email := su_email input, us_display_name := su_display_name input,
       us_scim_external_id := su_external_id input,
       us_disabled := (case su_active input of None \<Rightarrow> us_disabled u | Some active \<Rightarrow> \<not> active),
       us_updated_at := (if changed then now else us_updated_at u)\<rparr>"

definition scim_update_user ::
  "(rust_string \<Rightarrow> rust_string) \<Rightarrow> (rust_string \<Rightarrow> 'n option) \<Rightarrow> 'n json \<Rightarrow> rust_string \<Rightarrow> rust_string
   \<Rightarrow> 'n scim_user_change \<Rightarrow> int \<Rightarrow> access_db \<Rightarrow> access_error + access_db" where
  "scim_update_user lower number meta base_url user_id change now db =
     and_then (scim_user_input_of lower number meta base_url user_id change db) (\<lambda>input.
     case user_by_id db user_id of
       None \<Rightarrow> Err Not_Found
     | Some user \<Rightarrow>
         and_then (scim_ensure_unique input (Some user_id) db) (\<lambda>_.
         let disabling = (su_active input = Some False \<and> \<not> us_disabled user);
             changed = scim_user_changed input user;
             db1 = update_user user_id (scim_set_user input changed now) db;
             db2 = (if disabling then end_sessions user_id None db1 else db1) in
         and_then (if disabling then ensure_administrator_remains db2 else Ok ()) (\<lambda>_.
           Ok (if changed then audit_record None ''scim.user_update'' user_id db2 else db2))))"

definition scim_delete_user :: "rust_string \<Rightarrow> access_db \<Rightarrow> access_error + access_db" where
  "scim_delete_user user_id db =
     (case user_by_id db user_id of
        None \<Rightarrow> Err Not_Found
      | Some _ \<Rightarrow>
          let db1 = delete_user_row user_id db in
          and_then (ensure_administrator_remains db1) (\<lambda>_.
            Ok (audit_record None ''scim.user_delete'' user_id db1)))"

section \<open>Groups over SCIM\<close>

definition GROUP_MAX_NAME_LENGTH :: nat where
  "GROUP_MAX_NAME_LENGTH = 256"

record scim_group_input =
  gi_display_name :: rust_string
  gi_external_id :: "rust_string option"
  gi_members :: "rust_string list"

fun member_values :: "'n json list \<Rightarrow> access_error + rust_string list" where
  "member_values [] = Ok []"
| "member_values (m # ms) =
     (case member m (lit ''value'') of
        Some (JString v) \<Rightarrow> and_then (member_values ms) (\<lambda>vs. Ok (v # vs))
      | _ \<Rightarrow> Err Bad_Request)"

definition scim_group_from_json :: "'n json \<Rightarrow> access_error + scim_group_input" where
  "scim_group_from_json resource =
     (case scim_text resource (lit ''displayName'') of
        None \<Rightarrow> Err Bad_Request
      | Some name \<Rightarrow>
          if GROUP_MAX_NAME_LENGTH < length name \<or> list_ex char_is_control name then Err Bad_Request
          else
            let external_id = scim_text resource (lit ''externalId'') in
            if (case external_id of None \<Rightarrow> False | Some e \<Rightarrow> 512 < str_len e) then Err Bad_Request
            else
              and_then (case member resource (lit ''members'') of
                          None \<Rightarrow> Ok []
                        | Some JNull \<Rightarrow> Ok []
                        | Some (JArray ms) \<Rightarrow> member_values ms
                        | Some _ \<Rightarrow> Err Bad_Request) (\<lambda>members.
                Ok \<lparr>gi_display_name = name, gi_external_id = external_id,
                    gi_members = remdups_adj (sort members)\<rparr>))"

definition group_members :: "access_db \<Rightarrow> rust_string \<Rightarrow> rust_string list" where
  "group_members db group_id =
     map snd (filter (\<lambda>(g, u). g = group_id \<and> u \<in> us_id ` set (db_users db)) (rt_scim_group_members db))"

definition scim_group_resource :: "'n json \<Rightarrow> rust_string \<Rightarrow> access_db \<Rightarrow> scim_group \<Rightarrow> 'n json" where
  "scim_group_resource meta base_url db grp =
     JObject
       ([(lit ''displayName'', JString (sg_display_name grp))]
        @ (case sg_external_id grp of None \<Rightarrow> [] | Some e \<Rightarrow> [(lit ''externalId'', JString e)])
        @ [(lit ''id'', JString (sg_id grp)),
           (lit ''members'',
             JArray (map (\<lambda>u. JObject [(lit ''$ref'', JString (base_url @ lit ''/Users/'' @ u)),
                                         (lit ''display'',
                                            JString (case user_by_id db u of None \<Rightarrow> [] | Some r \<Rightarrow> us_email r)),
                                         (lit ''type'', JString (lit ''User'')), (lit ''value'', JString u)])
                       (group_members db (sg_id grp)))),
           (lit ''meta'', meta),
           (lit ''schemas'', JArray [JString (lit ''urn:ietf:params:scim:schemas:core:2.0:Group'')])])"

definition scim_check_group ::
  "(rust_string \<Rightarrow> rust_string) \<Rightarrow> (rust_string \<Rightarrow> rust_string) \<Rightarrow> scim_group_input \<Rightarrow> rust_string option \<Rightarrow> access_db
   \<Rightarrow> access_error + unit" where
  "scim_check_group lower sql_lower input except db =
     and_then (ensure (\<not> list_ex (\<lambda>g. (sql_lower (sg_display_name g) = lower (gi_display_name input)
                                       \<or> (gi_external_id input \<noteq> None \<and> sg_external_id g = gi_external_id input))
                                      \<and> Some (sg_id g) \<noteq> except) (rt_scim_groups db)) Conflict) (\<lambda>_.
       ensure (set (gi_members input) \<subseteq> us_id ` set (db_users db)) Bad_Request)"

definition scim_create_group ::
  "(rust_string \<Rightarrow> rust_string) \<Rightarrow> (rust_string \<Rightarrow> rust_string) \<Rightarrow> scim_group_input \<Rightarrow> rust_string \<Rightarrow> access_db
   \<Rightarrow> access_error + access_db" where
  "scim_create_group lower sql_lower input group_id db =
     and_then (scim_check_group lower sql_lower input None db) (\<lambda>_.
     if group_id \<in> sg_id ` set (rt_scim_groups db) \<or> gi_display_name input \<in> sg_display_name ` set (rt_scim_groups db)
     then Err Database_Error
     else Ok (audit_record None ''scim.group_create'' group_id
            (db\<lparr>rt_scim_groups := rt_scim_groups db @
                  [\<lparr>sg_id = group_id, sg_display_name = gi_display_name input, sg_external_id = gi_external_id input,
                    sg_role_id = None\<rparr>],
                rt_scim_group_members := rt_scim_group_members db @ map (Pair group_id) (gi_members input)\<rparr>)))"

datatype 'n scim_group_change = Replace_Group scim_group_input | Patch_Group "'n patch_operation list"

definition scim_group_row :: "rust_string \<Rightarrow> access_db \<Rightarrow> access_error + scim_group" where
  "scim_group_row group_id db =
     (case find (\<lambda>g. sg_id g = group_id) (rt_scim_groups db) of None \<Rightarrow> Err Not_Found | Some g \<Rightarrow> Ok g)"

definition scim_group_input_of ::
  "(rust_string \<Rightarrow> rust_string) \<Rightarrow> (rust_string \<Rightarrow> 'n option) \<Rightarrow> 'n json \<Rightarrow> rust_string \<Rightarrow> rust_string
   \<Rightarrow> 'n scim_group_change \<Rightarrow> access_db \<Rightarrow> access_error + scim_group_input" where
  "scim_group_input_of lower number meta base_url group_id change db =
     (case change of
        Replace_Group input \<Rightarrow> Ok input
      | Patch_Group operations \<Rightarrow>
          and_then (scim_group_row group_id db) (\<lambda>grp.
          case apply_patch lower number operations (scim_group_resource meta base_url db grp) of
            Inl _ \<Rightarrow> Err Bad_Request
          | Inr resource \<Rightarrow> scim_group_from_json resource))"

definition scim_update_group ::
  "(rust_string \<Rightarrow> rust_string) \<Rightarrow> (rust_string \<Rightarrow> rust_string) \<Rightarrow> (rust_string \<Rightarrow> 'n option) \<Rightarrow> 'n json \<Rightarrow> rust_string
   \<Rightarrow> rust_string \<Rightarrow> 'n scim_group_change \<Rightarrow> access_db \<Rightarrow> access_error + access_db" where
  "scim_update_group lower sql_lower number meta base_url group_id change db =
     and_then (scim_group_input_of lower number meta base_url group_id change db) (\<lambda>input.
     and_then (scim_group_row group_id db) (\<lambda>grp.
     and_then (scim_check_group lower sql_lower input (Some group_id) db) (\<lambda>_.
     let current = group_members db group_id;
         added = filter (\<lambda>u. u \<notin> set current) (gi_members input);
         removed = filter (\<lambda>u. u \<notin> set (gi_members input)) current in
     if gi_display_name input = sg_display_name grp \<and> gi_external_id input = sg_external_id grp
        \<and> added = [] \<and> removed = [] then Ok db
     else Ok (audit_record None ''scim.group_update'' group_id
            (db\<lparr>rt_scim_groups :=
                  map (\<lambda>g. if sg_id g = group_id
                           then g\<lparr>sg_display_name := gi_display_name input, sg_external_id := gi_external_id input\<rparr>
                           else g) (rt_scim_groups db),
                rt_scim_group_members :=
                  filter (\<lambda>(g, u). \<not> (g = group_id \<and> u \<in> set removed)) (rt_scim_group_members db)
                  @ map (Pair group_id) added\<rparr>)))))"

definition scim_delete_group :: "rust_string \<Rightarrow> access_db \<Rightarrow> access_error + access_db" where
  "scim_delete_group group_id db =
     and_then (scim_group_row group_id db) (\<lambda>_.
       Ok (audit_record None ''scim.group_delete'' group_id
             (db\<lparr>rt_scim_groups := filter (\<lambda>g. sg_id g \<noteq> group_id) (rt_scim_groups db),
                 rt_scim_group_members := filter (\<lambda>(g, _). g \<noteq> group_id) (rt_scim_group_members db)\<rparr>)))"

section \<open>Signing in through the provider\<close>

record identity =
  it_subject :: rust_string
  it_email :: "rust_string option"
  it_email_verified :: bool
  it_name :: "rust_string option"
  it_groups :: "rust_string list option"

datatype sso_failure =
    Sso_Unavailable | Sso_Failed | Sso_Expired | Sso_Denied | Sso_No_Account | Sso_No_Email | Sso_Email_Unverified
  | Sso_Conflict | Sso_Disabled | Sso_Rate_Limited

definition or_failed :: "access_error + 'a \<Rightarrow> sso_failure + 'a" where
  "or_failed r = (case r of Inl _ \<Rightarrow> Err Sso_Failed | Inr v \<Rightarrow> Ok v)"

text \<open>
  The account an identity signs in to: the one linked to its subject, or the one with its email address, which
  then gets linked, or a new one if the provider may create accounts.
\<close>

definition account_for ::
  "(rust_string \<Rightarrow> rust_string) \<Rightarrow> oidc_provider \<Rightarrow> identity \<Rightarrow> rust_string \<Rightarrow> int \<Rightarrow> access_db
   \<Rightarrow> sso_failure + access_db \<times> user_row" where
  "account_for lower provider identity user_id now db =
     (case find (\<lambda>u. us_oidc_subject u = Some (it_subject identity)) (db_users db) of
        Some user \<Rightarrow> Ok (db, user)
      | None \<Rightarrow>
          (case (case it_email identity of None \<Rightarrow> None
                 | Some raw \<Rightarrow> (case normalize_email lower raw of Inl _ \<Rightarrow> None | Inr e \<Rightarrow> Some e)) of
             None \<Rightarrow> Err Sso_No_Email
           | Some email \<Rightarrow>
               if op_require_verified_email provider \<and> \<not> it_email_verified identity then Err Sso_Email_Unverified
               else
                 case user_by_email db email of
                   Some user \<Rightarrow>
                     if us_oidc_subject user \<noteq> None then Err Sso_Conflict
                     else Ok (audit_record None ''user.sso_link'' (us_id user)
                            (update_user (us_id user) (\<lambda>u. u\<lparr>us_oidc_subject := Some (it_subject identity)\<rparr>) db), user)
                 | None \<Rightarrow>
                     if \<not> op_auto_provision provider then Err Sso_No_Account
                     else
                       and_then (or_failed (insert_user
                           \<lparr>nu_id = user_id, nu_email = email,
                            nu_display_name = (case valid_display_name (it_name identity) of
                                                 None \<Rightarrow> default_display_name email | Some n \<Rightarrow> n),
                            nu_password_hash = None,
                            nu_role_ids = (case op_default_role_id provider of None \<Rightarrow> [] | Some r \<Rightarrow> [r]),
                            nu_now = now\<rparr> db)) (\<lambda>db1.
                       let db2 = audit_record None ''user.provision'' user_id
                                   (update_user user_id (\<lambda>u. u\<lparr>us_oidc_subject := Some (it_subject identity)\<rparr>) db1) in
                       (case user_by_id db2 user_id of None \<Rightarrow> Err Sso_Failed | Some user \<Rightarrow> Ok (db2, user)))))"

definition sync_groups :: "rust_string \<Rightarrow> rust_string list option \<Rightarrow> access_db \<Rightarrow> access_db" where
  "sync_groups user_id groups db =
     (let db1 = forget_oidc_groups user_id db in
      case groups of
        None \<Rightarrow> db1
      | Some l \<Rightarrow> db1\<lparr>rt_user_oidc_groups := rt_user_oidc_groups db1 @ map (Pair user_id) l\<rparr>)"

text \<open>
  The end of a sign-in, once the callback's identity is verified. A disabled account leaves only the record of the
  attempt.
\<close>

definition sso_sign_in ::
  "(rust_string \<Rightarrow> rust_string) \<Rightarrow> (rust_string \<Rightarrow> rust_string) \<Rightarrow> identity \<Rightarrow> rust_string \<Rightarrow> rust_string \<times> rust_string
   \<Rightarrow> int \<Rightarrow> access_db \<Rightarrow> access_db \<times> (sso_failure + user_row)" where
  "sso_sign_in hash lower identity user_id session now db =
     (case db_provider db of
        None \<Rightarrow> (db, Err Sso_Unavailable)
      | Some provider \<Rightarrow>
          if \<not> op_enabled provider then (db, Err Sso_Unavailable)
          else
            case account_for lower provider identity user_id now db of
              Inl failure \<Rightarrow> (db, Err failure)
            | Inr (db1, user) \<Rightarrow>
                if us_disabled user
                then (audit_record None ''auth.sign_in_failed'' (us_id user) db, Err Sso_Disabled)
                else
                  let groups = (if op_groups_claim provider = None then None else it_groups identity);
                      db2 = sync_groups (us_id user) groups db1 in
                  (case start_session hash (fst session) (snd session) now (us_id user) Auth_Oidc False db2 of
                     Inl _ \<Rightarrow> (db, Err Sso_Failed)
                   | Inr db3 \<Rightarrow> (audit_record (Some (us_id user)) ''auth.sign_in'' (us_id user) db3, Ok user)))"

end
