(* ===== verification/Access.thy ===== *)
theory Access
  imports Identity_Provider
begin

text \<open>
  Who may do what, over all requests: the server as a step system whose events are requests of authenticated
  callers, uses of invitation and reset links, and the identity provider's changes. A request is authenticated
  when it arrives and handled later, on the database as it is then.
\<close>

section \<open>What a database grants\<close>

definition carries :: "'x role_tables_scheme \<Rightarrow> rust_string \<Rightarrow> permission \<Rightarrow> bool" where
  "carries db r p \<longleftrightarrow>
     (\<exists>row \<in> set (rt_roles db). rr_id row = r \<and> p \<in> role_permissions_of (rt_role_permissions db) row)"

definition held :: "'x role_tables_scheme \<Rightarrow> rust_string \<Rightarrow> permission set" where
  "held db u = permissions_of (user_roles db u)"

definition assigned :: "'x role_tables_scheme \<Rightarrow> rust_string \<Rightarrow> rust_string \<Rightarrow> bool" where
  "assigned db u r \<longleftrightarrow> (u, r) \<in> set (rt_user_roles db)"

text \<open>A role is offered when an open invitation, a group of the provider or a new account comes with it.\<close>

definition offered :: "access_db \<Rightarrow> rust_string \<Rightarrow> bool" where
  "offered db r \<longleftrightarrow>
     (\<exists>i \<in> set (db_invitations db). invitation_open i \<and> (iv_id i, r) \<in> set (db_invitation_roles db))
     \<or> (\<exists>g \<in> set (rt_scim_groups db). sg_role_id g = Some r)
     \<or> (\<exists>g. (g, r) \<in> set (rt_oidc_group_roles db))
     \<or> (\<exists>pr. db_provider db = Some pr \<and> op_default_role_id pr = Some r)"

lemma find_Some_in: "find P xs = Some x \<Longrightarrow> P x \<and> x \<in> set xs"
  by (auto simp: find_Some_iff)

lemma in_map_filter: "x \<in> set (List.map_filter f xs) \<longleftrightarrow> (\<exists>y \<in> set xs. f y = Some x)"
  by (induction xs) (auto split: option.splits)

lemma role_permissions_iff:
  "p \<in> role_permissions_of grants row \<longleftrightarrow>
     rr_builtin row = Some ADMINISTRATOR_ROLE_ID \<or> (rr_id row, permission_as_str p) \<in> set grants"
  by (force simp: role_permissions_of_def in_map_filter permission_from_str_Some split: if_splits)

lemma role_permissions_filter:
  "rr_id row \<in> ids \<Longrightarrow>
     role_permissions_of (filter (\<lambda>g. fst g \<in> ids) grants) row = role_permissions_of grants row"
  by (auto simp: set_eq_iff role_permissions_iff)

lemma set_load_roles:
  "set (load_roles db (Some ids)) =
     role_of_row (filter (\<lambda>g. fst g \<in> set ids) (rt_role_permissions db)) ` {row \<in> set (rt_roles db). rr_id row \<in> set ids}"
  by (auto simp: load_roles_def Let_def)

lemma permissions_load_roles:
  "p \<in> permissions_of (load_roles db (Some ids)) \<longleftrightarrow> (\<exists>r \<in> set ids. carries db r p)"
  by (auto simp: permissions_of_def set_load_roles role_of_row_def carries_def role_permissions_filter)

lemma load_roles_administrator:
  "list_ex role_is_administrator (load_roles db (Some ids)) \<longleftrightarrow>
     (\<exists>row \<in> set (rt_roles db). rr_id row \<in> set ids \<and> rr_builtin row = Some ADMINISTRATOR_ROLE_ID)"
  by (auto simp: list_ex_iff set_load_roles role_of_row_def role_is_administrator_def)

lemma load_roles_ids: "ro_id ` set (load_roles db (Some ids)) = set ids \<inter> rr_id ` set (rt_roles db)"
  by (auto simp: set_load_roles role_of_row_def image_image)

lemma held_iff: "p \<in> held db u \<longleftrightarrow> (\<exists>r. (u, r) \<in> set (effective_user_roles db) \<and> carries db r p)"
  by (auto simp: held_def user_roles_def permissions_load_roles)

lemma effective_iff:
  "(u, r) \<in> set (effective_user_roles db) \<longleftrightarrow>
     assigned db u r
     \<or> (\<exists>grp \<in> set (rt_scim_groups db). (sg_id grp, u) \<in> set (rt_scim_group_members db) \<and> sg_role_id grp = Some r)
     \<or> (\<exists>g. (u, g) \<in> set (rt_user_oidc_groups db) \<and> (g, r) \<in> set (rt_oidc_group_roles db))"
  by (auto simp: effective_user_roles_def assigned_def List.map_filter_def split: if_splits)
    (force split: if_splits)+

section \<open>Authenticated callers\<close>

text \<open>An administrator holds every permission, so what a request of one does is within their own.\<close>

definition actor_wf :: "authorized \<Rightarrow> bool" where
  "actor_wf a \<longleftrightarrow> (au_administrator a \<longrightarrow> au_permissions a = UNIV)"

lemma administrator_holds_all:
  assumes "list_ex role_is_administrator (user_roles db u)"
  shows "held db u = UNIV"
proof -
  from assms obtain row where row: "row \<in> set (rt_roles db)" "rr_builtin row = Some ADMINISTRATOR_ROLE_ID"
      "(u, rr_id row) \<in> set (effective_user_roles db)"
    by (auto simp: user_roles_def load_roles_administrator)
  then have "carries db (rr_id row) p" for p by (auto simp: carries_def role_permissions_of_def)
  with row(3) show ?thesis by (auto simp: held_iff set_eq_iff)
qed

lemma load_session_ok:
  assumes "load_session hash token now touch db = (db', Ok s)"
  shows "si_permissions s = held db (us_id (si_user s))" "si_roles s = user_roles db (us_id (si_user s))"
    "us_id (si_user s) \<in> us_id ` set (db_users db)"
  using assms
  by (auto simp: load_session_def Let_def held_def user_by_id_def find_Some_iff split: option.splits if_splits)

lemma authorized_new_wf:
  assumes "load_session hash token now touch db = (db', Ok s)" "Authorized_new s = Ok a"
  shows "actor_wf a" "au_permissions a = held db (us_id (au_user a))"
  using assms load_session_ok [OF assms(1)] administrator_holds_all [of db]
  by (auto simp: Authorized_new_def actor_wf_def split: if_splits)

lemma token_authorized_wf: "actor_wf (token_authorized db user t)"
  using administrator_holds_all [of db]
  by (auto simp: token_authorized_def Let_def actor_wf_def held_def split: option.splits)

lemma authenticate_ok:
  assumes "authenticate hash secret key clock now limits db = (limits', db', Ok a)"
  shows "\<exists>t \<in> set (db_api_tokens db). \<exists>user \<in> set (db_users db).
           tk_token_hash t = hash secret \<and> \<not> token_expired t now \<and> us_id user = tk_user_id t \<and> \<not> us_disabled user
           \<and> a = token_authorized db user t \<and> db' = token_used t now db"
  using assms
  by (fastforce simp: authenticate_def user_by_id_def dest!: find_Some_in
      split: prod.splits sum.splits option.splits if_splits)

lemma ensure_within_ok: "ensure_within a ps = Ok u \<longleftrightarrow> ps \<subseteq> au_permissions a"
  by (auto simp: ensure_within_def Let_def filter_empty_conv)

section \<open>The server\<close>

datatype api_request =
    Create_Role new_role rust_string int
  | Update_Role rust_string role_update int
  | Delete_Role rust_string
  | Update_User rust_string user_update int
  | Delete_User rust_string
  | Reset_Two_Factor rust_string
  | Password_Reset rust_string rust_string rust_string int
  | Sign_Out rust_string
  | Unlink_Sso rust_string
  | Create_Invitation rust_string "rust_string list" rust_string rust_string int
  | Revoke_Invitation rust_string int
  | Renew_Invitation rust_string rust_string int
  | Create_Api_Token new_token rust_string rust_string int
  | Revoke_Api_Token rust_string
  | Map_Scim_Group rust_string "rust_string option option"
  | Put_Sso oidc_provider "(rust_string \<times> rust_string) list"
  | Delete_Sso

record 'n access_env =
  ev_hash :: "rust_string \<Rightarrow> rust_string"
  ev_lower :: "rust_string \<Rightarrow> rust_string"
  ev_sql_lower :: "rust_string \<Rightarrow> rust_string"
  ev_number :: "rust_string \<Rightarrow> 'n option"
  ev_meta :: "'n json"
  ev_base_url :: rust_string

text \<open>Routes for the website only refuse a bearer token before their handler runs.\<close>

definition website_only :: "authorized \<Rightarrow> access_error + access_db \<Rightarrow> access_error + access_db" where
  "website_only a r = and_then (require_website a) (\<lambda>_. r)"

lemma website_only_ok [simp]: "website_only a r = Ok db \<longleftrightarrow> au_api_token a = None \<and> r = Ok db"
  by (simp add: website_only_def and_then_ok_iff require_website_def)

definition apply_request ::
  "'n access_env \<Rightarrow> authorized \<Rightarrow> api_request \<Rightarrow> access_db \<Rightarrow> access_error + access_db" where
  "apply_request env a req db =
     (case req of
        Create_Role r i now \<Rightarrow> create_role (ev_lower env) a r i now db
      | Update_Role i r now \<Rightarrow> update_role (ev_lower env) a i r now db
      | Delete_Role i \<Rightarrow> delete_role a i db
      | Update_User u r now \<Rightarrow> api_update_user a u r now db
      | Delete_User u \<Rightarrow> api_delete_user a u db
      | Reset_Two_Factor u \<Rightarrow> website_only a (api_reset_two_factor a u db)
      | Password_Reset u i token now \<Rightarrow>
          website_only a (api_password_reset (ev_hash env) a u i token now db)
      | Sign_Out u \<Rightarrow> api_sign_out a u db
      | Unlink_Sso u \<Rightarrow> api_unlink_sso a u db
      | Create_Invitation email roles i token now \<Rightarrow>
          create_invitation (ev_hash env) (ev_lower env) a email roles i token now db
      | Revoke_Invitation i now \<Rightarrow> revoke_invitation a i now db
      | Renew_Invitation i token now \<Rightarrow> renew_invitation (ev_hash env) a i token now db
      | Create_Api_Token r i secret now \<Rightarrow> create_api_token (ev_hash env) a r i secret now db
      | Revoke_Api_Token i \<Rightarrow> revoke_api_token a i db
      | Map_Scim_Group g r \<Rightarrow> website_only a (update_scim_group a g r db)
      | Put_Sso p m \<Rightarrow> website_only a (put_sso_settings a p m db)
      | Delete_Sso \<Rightarrow> website_only a (delete_sso_settings a db))"

text \<open>What the identity provider and the holder of a link ask for, without an authenticated caller.\<close>

datatype 'n outside_request =
    Accept_Invitation rust_string rust_string rust_string rust_string "rust_string \<times> rust_string" int
  | Complete_Reset rust_string rust_string int
  | Scim_Create_User scim_user_input rust_string int
  | Scim_Update_User rust_string "'n scim_user_change" int
  | Scim_Delete_User rust_string
  | Scim_Create_Group scim_group_input rust_string
  | Scim_Update_Group rust_string "'n scim_group_change"
  | Scim_Delete_Group rust_string
  | Sso_Sign_In identity rust_string "rust_string \<times> rust_string" int

definition kept :: "access_db \<Rightarrow> 'e + access_db \<Rightarrow> access_db" where
  "kept db r = (case r of Inl _ \<Rightarrow> db | Inr db' \<Rightarrow> db')"

definition apply_outside :: "'n access_env \<Rightarrow> 'n outside_request \<Rightarrow> access_db \<Rightarrow> access_db" where
  "apply_outside env req db =
     (case req of
        Accept_Invitation token name pw u session now \<Rightarrow>
          kept db (accept_invitation (ev_hash env) token name pw u session now db)
      | Complete_Reset token pw now \<Rightarrow> kept db (complete_reset (ev_hash env) token pw now db)
      | Scim_Create_User input u now \<Rightarrow> kept db (scim_create_user input u now db)
      | Scim_Update_User u change now \<Rightarrow>
          kept db (scim_update_user (ev_lower env) (ev_number env) (ev_meta env) (ev_base_url env) u change now db)
      | Scim_Delete_User u \<Rightarrow> kept db (scim_delete_user u db)
      | Scim_Create_Group input g \<Rightarrow> kept db (scim_create_group (ev_lower env) (ev_sql_lower env) input g db)
      | Scim_Update_Group g change \<Rightarrow>
          kept db (scim_update_group (ev_lower env) (ev_sql_lower env) (ev_number env) (ev_meta env) (ev_base_url env)
                     g change db)
      | Scim_Delete_Group g \<Rightarrow> kept db (scim_delete_group g db)
      | Sso_Sign_In ident u session now \<Rightarrow> fst (sso_sign_in (ev_hash env) (ev_lower env) ident u session now db))"

record access_server =
  sv_db :: access_db
  sv_token_failures :: rate_limiter
  sv_callers :: "authorized list"

datatype 'n access_event =
    Arrive_Website rust_string int
  | Arrive_Token rust_string rust_string nanos int
  | Handle nat api_request
  | Outside "'n outside_request"

datatype access_output = Admitted authorized | Refused access_error | Handled "access_error option" | Outside_Done

text \<open>A caller is admitted with what the database grants then, and handled later with what it was admitted with.\<close>

fun access_step :: "'n access_env \<Rightarrow> access_server \<Rightarrow> 'n access_event \<Rightarrow> access_server \<times> access_output" where
  "access_step env s (Arrive_Website token now) =
     (case load_session (ev_hash env) token now True (sv_db s) of
        (db', r) \<Rightarrow>
          (case and_then r Authorized_new of
             Inl e \<Rightarrow> (s\<lparr>sv_db := db'\<rparr>, Refused e)
           | Inr a \<Rightarrow> (s\<lparr>sv_db := db', sv_callers := sv_callers s @ [a]\<rparr>, Admitted a)))"
| "access_step env s (Arrive_Token secret key clock now) =
     (case authenticate (ev_hash env) secret key clock now (sv_token_failures s) (sv_db s) of
        (limits, db', r) \<Rightarrow>
          (case r of
             Inl e \<Rightarrow> (s\<lparr>sv_db := db', sv_token_failures := limits\<rparr>, Refused e)
           | Inr a \<Rightarrow> (s\<lparr>sv_db := db', sv_token_failures := limits, sv_callers := sv_callers s @ [a]\<rparr>, Admitted a)))"
| "access_step env s (Handle i req) =
     (if length (sv_callers s) \<le> i then (s, Handled None)
      else
        let rest = take i (sv_callers s) @ drop (Suc i) (sv_callers s) in
        case apply_request env (sv_callers s ! i) req (sv_db s) of
          Inl e \<Rightarrow> (s\<lparr>sv_callers := rest\<rparr>, Handled (Some e))
        | Inr db' \<Rightarrow> (s\<lparr>sv_db := db', sv_callers := rest\<rparr>, Handled None))"
| "access_step env s (Outside req) = (s\<lparr>sv_db := apply_outside env req (sv_db s)\<rparr>, Outside_Done)"

section \<open>No request gives more than its caller holds\<close>

definition access_wf :: "access_db \<Rightarrow> bool" where
  "access_wf db \<longleftrightarrow>
     distinct (map us_id (db_users db))
     \<and> ADMINISTRATOR_ROLE_ID \<in> rr_id ` set (rt_roles db)
     \<and> (\<forall>row \<in> set (rt_roles db). rr_id row = ADMINISTRATOR_ROLE_ID \<longrightarrow> rr_builtin row = Some ADMINISTRATOR_ROLE_ID)
     \<and> fst ` set (db_invitation_roles db) \<subseteq> iv_id ` set (db_invitations db)"

text \<open>
  From one database to a later one, no role gains the permission, no role with it is newly offered, and it is
  assigned only to users it was assigned to or offered to.
\<close>

definition no_gain :: "permission \<Rightarrow> access_db \<Rightarrow> access_db \<Rightarrow> bool" where
  "no_gain p db db' \<longleftrightarrow>
     (\<forall>r. carries db' r p \<longrightarrow>
        carries db r p \<and> (\<forall>u. assigned db' u r \<longrightarrow> assigned db u r \<or> offered db r)
        \<and> (offered db' r \<longrightarrow> offered db r))"

lemma no_gain_refl [simp]: "no_gain p db db"
  by (simp add: no_gain_def)

lemma no_gainI:
  assumes "\<And>r. carries db' r p \<Longrightarrow> carries db r p"
    and "\<And>u r. assigned db' u r \<Longrightarrow> carries db' r p \<Longrightarrow> assigned db u r \<or> offered db r"
    and "\<And>r. offered db' r \<Longrightarrow> carries db' r p \<Longrightarrow> offered db r"
  shows "no_gain p db db'"
  using assms by (auto simp: no_gain_def)

lemma no_gain_trans: "no_gain p a b \<Longrightarrow> no_gain p b c \<Longrightarrow> no_gain p a c"
  by (auto simp: no_gain_def)

lemmas grant_defs = no_gain_def carries_def assigned_def offered_def access_wf_def

text \<open>Operations that leave the tables of grants alone.\<close>

lemma audit_grants [simp]:
  "no_gain p db (audit_record a s t db') \<longleftrightarrow> no_gain p db db'" "no_gain p (audit_record a s t db) db' \<longleftrightarrow> no_gain p db db'"
   "access_wf (audit_record a s t db) \<longleftrightarrow> access_wf db"
  by (simp_all add: grant_defs audit_record_def)

lemma update_user_ids:
  assumes "\<And>x. us_id (f x) = us_id x"
  shows "map us_id (db_users (update_user u f db)) = map us_id (db_users db)"
  using assms by (simp add: update_user_def)

lemma update_user_grants [simp]:
  "no_gain p db (update_user u f db') \<longleftrightarrow> no_gain p db db'"
  "(\<And>x. us_id (f x) = us_id x) \<Longrightarrow> access_wf (update_user u f db) \<longleftrightarrow> access_wf db"
proof -
  show "no_gain p db (update_user u f db') \<longleftrightarrow> no_gain p db db'" by (simp add: grant_defs update_user_def)
  assume "\<And>x. us_id (f x) = us_id x"
  from update_user_ids [of f u db, OF this] show "access_wf (update_user u f db) \<longleftrightarrow> access_wf db"
    by (simp add: access_wf_def) (simp add: update_user_def)
qed

lemma end_sessions_grants [simp]:
  "no_gain p db (end_sessions u k db') \<longleftrightarrow> no_gain p db db'" "access_wf (end_sessions u k db) \<longleftrightarrow> access_wf db"
  by (simp_all add: grant_defs end_sessions_def)

lemma remove_two_factor_grants [simp]:
  "no_gain p db (remove_two_factor u db') \<longleftrightarrow> no_gain p db db'" "access_wf (remove_two_factor u db) \<longleftrightarrow> access_wf db"
  by (simp_all add: grant_defs remove_two_factor_def remove_recovery_codes_def)

lemma forget_oidc_groups_grants [simp]:
  "no_gain p db (forget_oidc_groups u db') \<longleftrightarrow> no_gain p db db'" "access_wf (forget_oidc_groups u db) \<longleftrightarrow> access_wf db"
  by (simp_all add: grant_defs forget_oidc_groups_def)

lemma set_password_grants [simp]:
  "no_gain p db (set_password u h k now db') \<longleftrightarrow> no_gain p db db'" "access_wf (set_password u h k now db) \<longleftrightarrow> access_wf db"
proof -
  let ?f = "\<lambda>u :: user_row. u\<lparr>us_password_hash := Some h, us_password_changed_at := Some now, us_updated_at := now\<rparr>"
  have "access_wf (db1\<lparr>db_resets := y\<rparr>) = access_wf db1" "no_gain p db (db'\<lparr>db_resets := y\<rparr>) = no_gain p db db'"
    for db1 y db' by (simp_all add: grant_defs)
  then show "no_gain p db (set_password u h k now db') \<longleftrightarrow> no_gain p db db'"
    "access_wf (set_password u h k now db) \<longleftrightarrow> access_wf db"
    by (simp_all add: set_password_def Let_def)
qed

lemma field_grants [simp]:
  "no_gain p db (db'\<lparr>db_sessions := x\<rparr>) \<longleftrightarrow> no_gain p db db'" "access_wf (db\<lparr>db_sessions := x\<rparr>) \<longleftrightarrow> access_wf db"
  "no_gain p db (db'\<lparr>db_resets := y\<rparr>) \<longleftrightarrow> no_gain p db db'" "access_wf (db\<lparr>db_resets := y\<rparr>) \<longleftrightarrow> access_wf db"
  "no_gain p db (db'\<lparr>db_api_tokens := z\<rparr>) \<longleftrightarrow> no_gain p db db'" "access_wf (db\<lparr>db_api_tokens := z\<rparr>) \<longleftrightarrow> access_wf db"
  "no_gain p db (db'\<lparr>rt_user_oidc_groups := w\<rparr>) \<longleftrightarrow> no_gain p db db'"
  "access_wf (db\<lparr>rt_user_oidc_groups := w\<rparr>) \<longleftrightarrow> access_wf db"
  "no_gain p db (db'\<lparr>rt_scim_group_members := w\<rparr>) \<longleftrightarrow> no_gain p db db'"
  "access_wf (db\<lparr>rt_scim_group_members := w\<rparr>) \<longleftrightarrow> access_wf db"
  "no_gain p db (db'\<lparr>db_users := v\<rparr>) \<longleftrightarrow> no_gain p db db'"
  by (simp_all add: grant_defs)

lemma delete_user_row_grants:
  "no_gain p db (delete_user_row u db)" "access_wf db \<Longrightarrow> access_wf (delete_user_row u db)"
  by (auto simp: grant_defs delete_user_row_def distinct_map_filter)

text \<open>A step within the caller's permissions: the permission they lack is not gained, and the tables stay consistent.\<close>

abbreviation safe_change :: "permission \<Rightarrow> access_db \<Rightarrow> access_db \<Rightarrow> bool" where
  "safe_change p db db' \<equiv> no_gain p db db' \<and> access_wf db'"

lemma carries_set_permissions:
  "carries (set_permissions r ps db) x p \<longleftrightarrow>
     (if x = r then (\<exists>row \<in> set (rt_roles db). rr_id row = r \<and> (rr_builtin row = Some ADMINISTRATOR_ROLE_ID \<or> p \<in> ps))
      else carries db x p)"
  by (auto simp: carries_def role_permissions_iff set_permissions_def scope_names_def inj_eq [OF inj_permission_as_str])

lemma set_permissions_other [simp]:
  "assigned (set_permissions r ps db) = assigned db" "offered (set_permissions r ps db) = offered db"
  "access_wf (set_permissions r ps db) = access_wf db" "rt_roles (set_permissions r ps db) = rt_roles db"
  by (auto simp: fun_eq_iff assigned_def offered_def access_wf_def set_permissions_def)

lemma set_permissions_safe: "p \<notin> ps \<Longrightarrow> no_gain p db (set_permissions r ps db)"
  by (rule no_gainI) (auto simp: carries_set_permissions split: if_splits, auto simp: carries_def role_permissions_iff)

lemma create_role_safe:
  assumes "create_role lower a r i now db = Ok db'" "access_wf db"
  shows "p \<notin> au_permissions a \<Longrightarrow> no_gain p db db'" "access_wf db'"
proof -
  from assms obtain name d db1 where
    db1: "insert_role \<lparr>rr_id = i, rr_name = name, rr_description = d, rr_builtin = None, rr_updated_at = now\<rparr> db = Ok db1"
    and within: "nr_permissions r \<subseteq> au_permissions a"
    and db': "db' = audit_record (actor_id a) ''role.create'' i (set_permissions i (nr_permissions r) db1)"
    by (auto simp: create_role_def and_then_ok_iff ensure_within_ok)
  from db1 have new: "i \<notin> rr_id ` set (rt_roles db)" and
    db1_eq: "db1 = db\<lparr>rt_roles := rt_roles db @ [\<lparr>rr_id = i, rr_name = name, rr_description = d, rr_builtin = None,
                       rr_updated_at = now\<rparr>]\<rparr>"
    by (auto simp: insert_role_def split: if_splits)
  from new have "i \<noteq> ADMINISTRATOR_ROLE_ID" using assms(2) by (auto simp: access_wf_def)
  have "no_gain p db (set_permissions i (nr_permissions r) db1)" if "p \<notin> au_permissions a"
  proof (rule no_gainI)
    have lack: "p \<notin> nr_permissions r" using within that by auto
    show "carries db x p" if "carries (set_permissions i (nr_permissions r) db1) x p" for x
      using that new lack unfolding carries_set_permissions
      by (cases "x = i") (auto simp: db1_eq carries_def role_permissions_iff image_iff)
  qed (auto simp: db1_eq assigned_def offered_def)
  then show "p \<notin> au_permissions a \<Longrightarrow> no_gain p db db'" by (simp add: db')
  have "access_wf db1"
    using assms(2) \<open>i \<noteq> ADMINISTRATOR_ROLE_ID\<close> by (auto simp: db1_eq access_wf_def)
  then show "access_wf db'" by (simp add: db')
qed

lemma editable_ok:
  assumes "editable a i db = Ok role"
  shows "ro_id role = i" "\<And>p. carries db i p \<Longrightarrow> p \<in> ro_permissions role \<or> \<not> distinct (map rr_id (rt_roles db))"
    "ro_permissions role \<subseteq> au_permissions a" "\<not> role_is_administrator role" "RolesManage \<in> au_permissions a"
    "\<exists>row \<in> set (rt_roles db). rr_id row = i \<and> rr_builtin row = ro_builtin role"
proof -
  from assms obtain rest where rest: "rev (load_roles db (Some [i])) = role # rest"
    and ok: "\<not> role_is_administrator role" "ro_permissions role \<subseteq> au_permissions a" "RolesManage \<in> au_permissions a"
    by (auto simp: editable_def and_then_ok_iff ensure_within_ok au_require_def split: list.splits if_splits)
  then have "role \<in> set (load_roles db (Some [i]))"
    by (metis list.set_intros(1) set_rev)
  then obtain row where row: "row \<in> set (rt_roles db)" "rr_id row = i"
    "role = role_of_row (filter (\<lambda>g. fst g \<in> {i}) (rt_role_permissions db)) row"
    by (auto simp: set_load_roles)
  then have role: "ro_id role = i" "ro_builtin role = rr_builtin row"
    "ro_permissions role = role_permissions_of (rt_role_permissions db) row"
    by (auto simp: role_of_row_def role_permissions_iff)
  show "ro_id role = i" "ro_permissions role \<subseteq> au_permissions a" "\<not> role_is_administrator role"
    "RolesManage \<in> au_permissions a"
    using role ok by simp_all
  show "\<exists>row \<in> set (rt_roles db). rr_id row = i \<and> rr_builtin row = ro_builtin role"
    using row role by auto
  show "p \<in> ro_permissions role \<or> \<not> distinct (map rr_id (rt_roles db))" if "carries db i p" for p
    using that row role by (auto simp: carries_def distinct_map inj_on_def)
qed

lemma update_role_row_safe:
  assumes "update_role_row role now db = Ok db'"
  shows "no_gain p db db'" "access_wf db \<Longrightarrow> access_wf db'"
proof -
  define f where "f r = (if rr_id r = ro_id role
      then r\<lparr>rr_name := ro_name role, rr_description := ro_description role, rr_updated_at := now\<rparr> else r)" for r :: role_row
  have f [simp]: "rr_id (f r) = rr_id r" "rr_builtin (f r) = rr_builtin r" for r :: role_row by (simp_all add: f_def)
  from assms have db': "db' = db\<lparr>rt_roles := map f (rt_roles db)\<rparr>"
    by (auto simp: update_role_row_def f_def [abs_def] split: if_splits)
  show "no_gain p db db'" by (rule no_gainI) (auto simp: db' carries_def role_permissions_iff assigned_def offered_def)
  show "access_wf db \<Longrightarrow> access_wf db'" by (auto simp: db' access_wf_def image_image)
qed

lemma renamed_role_id: "renamed_role lower db request role = Ok role1 \<Longrightarrow> ro_id role1 = ro_id role"
  by (auto simp: renamed_role_def and_then_ok_iff split: option.splits)

lemma update_role_safe:
  assumes "update_role lower a i r now db = Ok db'" "access_wf db"
  shows "p \<notin> au_permissions a \<Longrightarrow> no_gain p db db'" "access_wf db'"
proof -
  from assms obtain role1 db1 where db1: "update_role_row role1 now db = Ok db1"
    and db': "(rq_permissions r = None \<and> db' = audit_record (actor_id a) ''role.update'' (ro_id role1) db1)
      \<or> (\<exists>ps. rq_permissions r = Some ps \<and> ps \<subseteq> au_permissions a
           \<and> db' = audit_record (actor_id a) ''role.update'' (ro_id role1) (set_permissions (ro_id role1) ps db1))"
    by (cases "rq_permissions r") (auto simp: update_role_def and_then_ok_iff ensure_within_ok)
  note safe = update_role_row_safe [OF db1]
  show "p \<notin> au_permissions a \<Longrightarrow> no_gain p db db'"
    using db' safe(1) by (auto intro!: no_gain_trans [OF safe(1)] set_permissions_safe)
  show "access_wf db'" using db' safe(2) assms(2) by auto
qed

lemma delete_role_row_safe:
  "no_gain p db (delete_role_row r db)"
  "access_wf db \<Longrightarrow> r \<noteq> ADMINISTRATOR_ROLE_ID \<Longrightarrow> access_wf (delete_role_row r db)"
  by (rule no_gainI)
    (auto simp: delete_role_row_def carries_def role_permissions_iff assigned_def offered_def access_wf_def
      split: if_splits)

lemma delete_role_safe:
  assumes "delete_role a i db = Ok db'" "access_wf db"
  shows "safe_change p db db'" "i \<noteq> ADMINISTRATOR_ROLE_ID"
proof -
  from assms obtain role where role: "editable a i db = Ok role" "ro_builtin role = None"
    and db': "db' = audit_record (actor_id a) ''role.delete'' i (delete_role_row i db)"
    by (auto simp: delete_role_def and_then_ok_iff dest: editable_ok(1) split: if_splits)
  show "i \<noteq> ADMINISTRATOR_ROLE_ID"
    using editable_ok(6) [OF role(1)] role(2) assms(2) by (auto simp: access_wf_def)
  then show "safe_change p db db'"
    using delete_role_row_safe(1) [of p db i] delete_role_row_safe(2) [of db i] assms(2) by (simp add: db')
qed

text \<open>Granting roles within the caller's permissions.\<close>

lemma grantable_roles_ok:
  assumes "grantable_roles a ids db = Ok roles" "p \<notin> au_permissions a" "r \<in> ro_id ` set roles"
  shows "\<not> carries db r p"
proof -
  from assms obtain unique where roles: "roles = load_roles db (Some unique)"
    and within: "permissions_of roles \<subseteq> au_permissions a"
    by (auto simp: grantable_roles_def Let_def and_then_ok_iff ensure_within_ok split: if_splits)
  have "r \<in> set unique" using assms(3) by (simp add: roles load_roles_ids)
  with within assms(2) show ?thesis
    using permissions_load_roles [of p db unique] by (auto simp: roles)
qed

lemma set_roles_safe:
  assumes "set_roles u ids db = Ok db'"
  shows "(\<And>r. r \<in> set ids \<Longrightarrow> carries db r p \<Longrightarrow> offered db r) \<Longrightarrow> no_gain p db db'" "access_wf db' = access_wf db"
proof -
  from assms have db': "db' = db\<lparr>rt_user_roles := filter (\<lambda>(x, _). x \<noteq> u) (rt_user_roles db) @ map (Pair u) ids\<rparr>"
    by (auto simp: set_roles_def Let_def split: if_splits)
  show "no_gain p db db'" if "\<And>r. r \<in> set ids \<Longrightarrow> carries db r p \<Longrightarrow> offered db r"
    using that by (intro no_gainI) (auto simp: db' carries_def assigned_def offered_def)
  show "access_wf db' = access_wf db" by (simp add: db' access_wf_def)
qed

lemma update_profile_safe:
  assumes "update_profile a user r now db = Ok (db1, c)"
  shows "no_gain p db db1" "access_wf db1 = access_wf db"
  using assms by (auto simp: update_profile_def and_then_ok_iff Let_def split: option.splits if_splits)

lemma api_update_user_safe:
  assumes "api_update_user a u r now db = Ok db'" "access_wf db"
  shows "p \<notin> au_permissions a \<Longrightarrow> no_gain p db db'" "access_wf db'"
proof -
  from assms obtain user db1 c db2 where db1: "update_profile a user r now db = Ok (db1, c)"
    and db2: "(uu_role_ids r = None \<and> db2 = db1)
      \<or> (\<exists>ids roles. uu_role_ids r = Some ids \<and> grantable_roles a ids db1 = Ok roles
           \<and> set_roles (us_id user) (map ro_id roles) db1 = Ok db2)"
    and db': "db' = db2 \<or> db' = audit_record (actor_id a) ''user.update'' (us_id user) db2"
    by (cases "uu_role_ids r") (auto simp: api_update_user_def and_then_ok_iff split: if_splits)
  note profile = update_profile_safe [OF db1]
  have "no_gain p db db2" if "p \<notin> au_permissions a"
    using db2
  proof (elim disjE exE conjE)
    fix ids roles
    assume roles: "grantable_roles a ids db1 = Ok roles" "set_roles (us_id user) (map ro_id roles) db1 = Ok db2"
    show ?thesis
      using set_roles_safe(1) [OF roles(2), of p] grantable_roles_ok [OF roles(1) that] profile(1)
      by (auto intro: no_gain_trans)
  qed (use profile in simp)
  then show "p \<notin> au_permissions a \<Longrightarrow> no_gain p db db'" using db' by auto
  show "access_wf db'" using db2 db' profile(2) assms(2) by (auto simp: set_roles_safe(2))
qed

lemma account_requests_safe:
  assumes "access_wf db"
  shows "api_delete_user a u db = Ok db' \<Longrightarrow> safe_change p db db'"
    and "api_reset_two_factor a u db = Ok db' \<Longrightarrow> safe_change p db db'"
    and "api_password_reset hash a u i token now db = Ok db' \<Longrightarrow> safe_change p db db'"
    and "api_sign_out a u db = Ok db' \<Longrightarrow> safe_change p db db'"
    and "api_unlink_sso a u db = Ok db' \<Longrightarrow> safe_change p db db'"
  using assms
  by (auto simp: api_delete_user_def api_reset_two_factor_def api_password_reset_def api_sign_out_def
      api_unlink_sso_def create_reset_def and_then_ok_iff Let_def delete_user_row_grants split: if_splits)

lemma create_invitation_safe:
  assumes "create_invitation hash lower a email ids i token now db = Ok db'" "access_wf db"
  shows "p \<notin> au_permissions a \<Longrightarrow> no_gain p db db'" "access_wf db'"
proof -
  define row where "row e = \<lparr>iv_id = i, iv_token_hash = hash token, iv_email = e, iv_created_by = actor_id a,
      iv_created_at = now, iv_expires_at = now + INVITATION_TTL_MS, iv_accepted_at = None, iv_revoked_at = None\<rparr>" for e
  from assms obtain roles e where roles: "grantable_roles a ids db = Ok roles"
    and new: "i \<notin> iv_id ` set (db_invitations db)"
    and db': "db' = audit_record (actor_id a) ''invitation.create'' i
      (db\<lparr>db_invitations := db_invitations db @ [row e],
          db_invitation_roles := db_invitation_roles db @ map (Pair i) (map ro_id roles)\<rparr>)"
    by (auto simp: create_invitation_def and_then_ok_iff insert_invitation_def row_def split: if_splits)
  let ?db = "db\<lparr>db_invitations := db_invitations db @ [row e],
      db_invitation_roles := db_invitation_roles db @ map (Pair i) (map ro_id roles)\<rparr>"
  have same: "carries ?db r p = carries db r p" for r by (simp add: carries_def)
  have fk: "(x, r) \<in> set (db_invitation_roles db) \<Longrightarrow> x \<in> iv_id ` set (db_invitations db)" for x r
    using assms(2) by (force simp: access_wf_def)
  have "no_gain p db ?db" if "p \<notin> au_permissions a"
  proof (rule no_gainI)
    fix r assume "offered ?db r" "carries ?db r p"
    then show "offered db r"
      using grantable_roles_ok [OF roles that, of r] new fk [of i r] unfolding same by (auto simp: offered_def row_def)
  qed (simp_all add: carries_def assigned_def)
  then show "p \<notin> au_permissions a \<Longrightarrow> no_gain p db db'" by (simp add: db')
  have "access_wf ?db" using assms(2) by (auto simp: access_wf_def row_def)
  then show "access_wf db'" by (simp add: db')
qed

lemma update_invitation_safe:
  assumes "\<And>i. iv_id (f i) = iv_id i" "\<And>i. invitation_open (f i) \<Longrightarrow> invitation_open i"
  shows "no_gain p db (update_invitation x f db)" "access_wf (update_invitation x f db) = access_wf db"
proof -
  have "iv_id (if iv_id i = x then f i else i) = iv_id i" for i using assms(1) by simp
  then have ids: "iv_id ` set (map (\<lambda>i. if iv_id i = x then f i else i) l) = iv_id ` set l" for l
    by (simp only: set_map image_image)
  show "no_gain p db (update_invitation x f db)"
    by (rule no_gainI) (auto simp: update_invitation_def carries_def assigned_def offered_def assms split: if_splits)
  show "access_wf (update_invitation x f db) = access_wf db"
    using ids [of "db_invitations db"] by (simp add: access_wf_def update_invitation_def)
qed

lemma revoke_invitation_safe:
  "revoke_invitation a i now db = Ok db' \<Longrightarrow> access_wf db \<Longrightarrow> safe_change p db db'"
  by (auto simp: revoke_invitation_def and_then_ok_iff invitation_open_def
      intro!: update_invitation_safe(1) update_invitation_safe(2) [THEN iffD2])

lemma renew_invitation_safe:
  "renew_invitation hash a i token now db = Ok db' \<Longrightarrow> access_wf db \<Longrightarrow> safe_change p db db'"
  by (auto simp: renew_invitation_def and_then_ok_iff invitation_open_def
      intro!: update_invitation_safe(1) update_invitation_safe(2) [THEN iffD2] split: if_splits)

lemma api_token_requests_safe:
  assumes "access_wf db"
  shows "create_api_token hash a r i secret now db = Ok db' \<Longrightarrow> safe_change p db db'"
    and "revoke_api_token a i db = Ok db' \<Longrightarrow> safe_change p db db'"
  using assms
  by (auto simp: create_api_token_def revoke_api_token_def and_then_ok_iff Let_def split: option.splits if_splits)

text \<open>Only administrators, who hold every permission, map groups to roles.\<close>

lemma administrator_requests:
  assumes "actor_wf a" "p \<notin> au_permissions a"
  shows "update_scim_group a g r db \<noteq> Ok db'" "put_sso_settings a pr m db \<noteq> Ok db'" "delete_sso_settings a db \<noteq> Ok db'"
  using assms
  by (auto simp: actor_wf_def update_scim_group_def put_sso_settings_def delete_sso_settings_def
      require_administrator_def and_then_ok_iff)

lemma apply_request_safe:
  assumes "apply_request env a req db = Ok db'" "actor_wf a" "p \<notin> au_permissions a" "access_wf db"
  shows "no_gain p db db'"
  using assms(1,3,4) administrator_requests [OF assms(2,3)]
  by (cases req; simp add: apply_request_def;
      fast dest: create_role_safe(1) update_role_safe(1) delete_role_safe(1) api_update_user_safe(1)
        account_requests_safe create_invitation_safe(1) revoke_invitation_safe renew_invitation_safe
        api_token_requests_safe)

lemma field_wf [simp]:
  "access_wf (db\<lparr>rt_scim_groups := x\<rparr>) = access_wf db" "access_wf (db\<lparr>rt_oidc_group_roles := y\<rparr>) = access_wf db"
  "access_wf (db\<lparr>db_provider := z\<rparr>) = access_wf db"
  by (simp_all add: access_wf_def)

lemma unlink_everyone_wf: "access_wf (unlink_everyone db) = access_wf db"
  by (simp add: access_wf_def unlink_everyone_def comp_def)

lemma settings_requests_wf:
  assumes "access_wf db"
  shows "update_scim_group a g r db = Ok db' \<Longrightarrow> access_wf db'"
    and "put_sso_settings a pr m db = Ok db' \<Longrightarrow> access_wf db'"
    and "delete_sso_settings a db = Ok db' \<Longrightarrow> access_wf db'"
  using assms
  by (auto simp: update_scim_group_def put_sso_settings_def delete_sso_settings_def and_then_ok_iff Let_def
      store_group_roles_def unlink_everyone_wf split: option.splits if_splits)

lemma apply_request_wf:
  assumes "apply_request env a req db = Ok db'" "access_wf db"
  shows "access_wf db'"
  using assms
  by (cases req; simp add: apply_request_def;
      fast dest: create_role_safe(2) update_role_safe(2) delete_role_safe(1) api_update_user_safe(2)
        account_requests_safe create_invitation_safe(2) revoke_invitation_safe renew_invitation_safe
        api_token_requests_safe settings_requests_wf)

section \<open>What an invitation or the provider gives was offered before\<close>

lemma insert_user_safe:
  assumes "insert_user n db = Ok db'"
  shows "(\<And>r. r \<in> set (nu_role_ids n) \<Longrightarrow> carries db r p \<Longrightarrow> offered db r) \<Longrightarrow> no_gain p db db'"
    and "access_wf db \<Longrightarrow> access_wf db'"
proof -
  let ?db = "db\<lparr>db_users := db_users db @ [new_user_row n]\<rparr>"
  from assms have roles: "set_roles (nu_id n) (nu_role_ids n) ?db = Ok db'" and new: "nu_id n \<notin> us_id ` set (db_users db)"
    by (auto simp: insert_user_def split: if_splits)
  have same: "carries ?db r p = carries db r p" "offered ?db r = offered db r" for r
    by (simp_all add: carries_def offered_def)
  have "no_gain p db ?db" by simp
  from no_gain_trans [OF this set_roles_safe(1) [OF roles]]
  show "no_gain p db db'" if "\<And>r. r \<in> set (nu_role_ids n) \<Longrightarrow> carries db r p \<Longrightarrow> offered db r"
    using that by (simp add: same)
  show "access_wf db'" if "access_wf db"
    using that new by (simp add: set_roles_safe(2) [OF roles]) (simp add: access_wf_def new_user_row_def)
qed

lemma start_session_safe:
  assumes "start_session hash i token now u how v db = Ok db'"
  shows "no_gain p db db'" "access_wf db' = access_wf db"
  using assms by (auto simp: start_session_def Let_def split: if_splits)

text \<open>The account an invitation makes, and the invitation after it.\<close>

definition invited_user :: "invitation_row \<Rightarrow> rust_string \<Rightarrow> rust_string \<Rightarrow> rust_string \<Rightarrow> int \<Rightarrow> access_db \<Rightarrow> new_user" where
  "invited_user row u d pw now db =
     \<lparr>nu_id = u, nu_email = iv_email row, nu_display_name = d, nu_password_hash = Some pw,
      nu_role_ids = invitation_role_ids db (iv_id row), nu_now = now\<rparr>"

definition close_invitation :: "int \<Rightarrow> invitation_row \<Rightarrow> invitation_row" where
  "close_invitation now i = (if invitation_open i then i\<lparr>iv_accepted_at := Some now\<rparr> else i)"

lemma accept_invitation_ok:
  assumes "accept_invitation hash token name pw u session now db = Ok db'"
  obtains row d db2 where "find_invitation hash token now db = Ok row"
    and "insert_user (invited_user row u d pw now db) (update_invitation (iv_id row) (close_invitation now) db) = Ok db2"
    and "start_session hash (fst session) (snd session) now u Auth_Password False
      (audit_record (Some u) ''invitation.accept'' (iv_id row) db2) = Ok db'"
  using assms
  by (auto simp: accept_invitation_def and_then_ok_iff Let_def close_invitation_def [abs_def] invitation_role_ids_def
      update_invitation_def invited_user_def)

lemma accept_invitation_safe:
  assumes "accept_invitation hash token name pw u session now db = Ok db'" "access_wf db"
  shows "safe_change p db db'"
proof -
  from accept_invitation_ok [OF assms(1)] obtain row d db2 where row: "find_invitation hash token now db = Ok row"
    and db2: "insert_user (invited_user row u d pw now db) (update_invitation (iv_id row) (close_invitation now) db) = Ok db2"
    and db': "start_session hash (fst session) (snd session) now u Auth_Password False
      (audit_record (Some u) ''invitation.accept'' (iv_id row) db2) = Ok db'"
    by blast
  define n where "n = invited_user row u d pw now db"
  have n: "nu_role_ids n = invitation_role_ids db (iv_id row)" by (simp add: n_def invited_user_def)
  note db2 = db2 [folded n_def]
  let ?db1 = "update_invitation (iv_id row) (close_invitation now) db"
  have open_row: "invitation_open row" "row \<in> set (db_invitations db)"
    using row by (auto simp: find_invitation_def dest!: find_Some_in split: option.splits)
  have db1: "no_gain p db ?db1" "access_wf ?db1"
    using assms(2)
    by (auto intro!: update_invitation_safe(1) update_invitation_safe(2) [THEN iffD2]
        simp: close_invitation_def invitation_open_def split: if_splits)
  text \<open>The roles of the invitation were offered while it was open.\<close>
  have "no_gain p db db2 \<and> access_wf db2"
  proof -
    from db2 obtain v where roles: "set_roles (nu_id n) (nu_role_ids n) (?db1\<lparr>db_users := v\<rparr>) = Ok db2"
      by (auto simp: insert_user_def split: if_splits)
    then have db2_eq: "db2 = ?db1\<lparr>db_users := v, rt_user_roles :=
        filter (\<lambda>(x, _). x \<noteq> nu_id n) (rt_user_roles db) @ map (Pair (nu_id n)) (nu_role_ids n)\<rparr>"
      by (auto simp: set_roles_def Let_def update_invitation_def split: if_splits)
    have "offered db r" if "r \<in> set (nu_role_ids n)" for r
      using that open_row by (force simp: n invitation_role_ids_def offered_def)
    then have "no_gain p db db2"
      using db1(1) unfolding no_gain_def
      by (simp add: db2_eq) (auto simp: carries_def assigned_def offered_def update_invitation_def)
    moreover have "access_wf db2" using insert_user_safe(2) [OF db2 db1(2)] .
    ultimately show ?thesis by simp
  qed
  then show ?thesis using start_session_safe(1) [OF db', of p] start_session_safe(2) [OF db']
    by (auto intro: no_gain_trans)
qed

lemma scim_create_user_ok:
  assumes "scim_create_user input u now db = Ok db'"
  obtains n db1 f where "nu_id n = u" "nu_role_ids n = []" "insert_user n db = Ok db1" "\<And>x. us_id (f x) = us_id x"
    "db' = audit_record None ''scim.user_create'' u (update_user u f db1)"
proof -
  define n where "n = \<lparr>nu_id = u, nu_email = su_email input, nu_display_name = su_display_name input,
      nu_password_hash = None, nu_role_ids = [], nu_now = now\<rparr>"
  define f where "f x = x\<lparr>us_scim_external_id := su_external_id input, us_scim_managed := True,
      us_disabled := (su_active input = Some False)\<rparr>" for x :: user_row
  from assms obtain db1 where "insert_user n db = Ok db1"
    "db' = audit_record None ''scim.user_create'' u (update_user u f db1)"
    by (auto simp: scim_create_user_def and_then_ok_iff n_def f_def [abs_def])
  then show thesis using that [of n db1 f] by (simp add: n_def f_def)
qed

lemma scim_create_user_safe:
  assumes "scim_create_user input u now db = Ok db'" "access_wf db"
  shows "safe_change p db db'"
proof -
  from scim_create_user_ok [OF assms(1)] obtain n db1 f where "nu_role_ids n = []" "insert_user n db = Ok db1"
    and "\<And>x. us_id (f x) = us_id x" "db' = audit_record None ''scim.user_create'' u (update_user u f db1)" by metis
  with insert_user_safe [of n db db1] assms(2) show ?thesis by auto
qed

lemma scim_update_user_safe:
  assumes "scim_update_user lower number meta base u change now db = Ok db'" "access_wf db"
  shows "safe_change p db db'"
proof (cases "user_by_id db u")
  case (Some user)
  with assms show ?thesis
    unfolding scim_update_user_def and_then_ok_iff Let_def
    by (auto simp: and_then_ok_iff scim_set_user_def split: if_splits)
qed (use assms in \<open>simp add: scim_update_user_def and_then_ok_iff\<close>)

lemma scim_delete_user_safe: "scim_delete_user u db = Ok db' \<Longrightarrow> access_wf db \<Longrightarrow> safe_change p db db'"
  by (auto simp: scim_delete_user_def and_then_ok_iff Let_def delete_user_row_grants split: option.splits)

lemma scim_groups_safe:
  assumes "sg_role_id ` set l \<subseteq> insert None (sg_role_id ` set (rt_scim_groups db))"
  shows "no_gain p db (db\<lparr>rt_scim_groups := l\<rparr>)" "access_wf (db\<lparr>rt_scim_groups := l\<rparr>) = access_wf db"
proof -
  have "\<exists>g \<in> set (rt_scim_groups db). sg_role_id g = Some r" if "g \<in> set l" "sg_role_id g = Some r" for g r
  proof -
    from that assms have "Some r \<in> insert None (sg_role_id ` set (rt_scim_groups db))" by (metis image_eqI subsetD)
    then show ?thesis by auto
  qed
  then show "no_gain p db (db\<lparr>rt_scim_groups := l\<rparr>)"
    by (intro no_gainI) (auto simp: carries_def assigned_def offered_def)
qed (simp add: access_wf_def)

lemma scim_group_requests_safe:
  assumes "access_wf db"
  shows "scim_create_group lower sql_lower input g db = Ok db' \<Longrightarrow> safe_change p db db'"
    and "scim_update_group lower sql_lower number meta base g change db = Ok db' \<Longrightarrow> safe_change p db db'"
    and "scim_delete_group g db = Ok db' \<Longrightarrow> safe_change p db db'"
  using assms
  by (auto simp: scim_create_group_def scim_update_group_def scim_delete_group_def and_then_ok_iff Let_def
      intro!: scim_groups_safe(1) scim_groups_safe(2) [THEN iffD2] split: if_splits)

lemma complete_reset_safe: "complete_reset hash token pw now db = Ok db' \<Longrightarrow> access_wf db \<Longrightarrow> safe_change p db db'"
  by (auto simp: complete_reset_def and_then_ok_iff Let_def)

lemma account_for_safe:
  assumes "account_for lower pr ident u now db = Ok (db1, user)" "db_provider db = Some pr" "access_wf db"
  shows "safe_change p db db1"
proof (cases "find (\<lambda>x. us_oidc_subject x = Some (it_subject ident)) (db_users db)")
  case None
  then obtain e where e: "(case it_email ident of None \<Rightarrow> None
      | Some raw \<Rightarrow> (case normalize_email lower raw of Inl _ \<Rightarrow> None | Inr e \<Rightarrow> Some e)) = Some e"
    using assms(1) by (cases "case it_email ident of None \<Rightarrow> None
      | Some raw \<Rightarrow> (case normalize_email lower raw of Inl _ \<Rightarrow> None | Inr e \<Rightarrow> Some e)") (auto simp: account_for_def)
  show ?thesis
  proof (cases "user_by_email db e")
    case no_account: None
    define n where "n = \<lparr>nu_id = u, nu_email = e, nu_display_name = (case valid_display_name (it_name ident) of
        None \<Rightarrow> default_display_name e | Some n \<Rightarrow> n), nu_password_hash = None,
        nu_role_ids = (case op_default_role_id pr of None \<Rightarrow> [] | Some r \<Rightarrow> [r]), nu_now = now\<rparr>"
    obtain db2 where db2: "insert_user n db = Ok db2"
      and db1: "db1 = audit_record None ''user.provision'' u
        (update_user u (\<lambda>x. x\<lparr>us_oidc_subject := Some (it_subject ident)\<rparr>) db2)"
      using assms(1) None e no_account
      by (cases "insert_user n db")
        (auto simp: account_for_def or_failed_def Let_def n_def split: if_splits option.splits)
    have "offered db r" if "r \<in> set (nu_role_ids n)" for r
      using that assms(2) by (auto simp: n_def offered_def split: option.splits)
    with insert_user_safe [OF db2] assms(3) show ?thesis by (simp add: db1)
  qed (use assms None e in \<open>auto simp: account_for_def split: if_splits\<close>)
qed (use assms in \<open>simp add: account_for_def\<close>)

lemma sync_groups_grants [simp]:
  "no_gain p db (sync_groups u groups db') \<longleftrightarrow> no_gain p db db'" "access_wf (sync_groups u groups db) \<longleftrightarrow> access_wf db"
  by (simp_all add: sync_groups_def Let_def split: option.splits)

lemma sso_sign_in_safe:
  assumes "access_wf db"
  shows "safe_change p db (fst (sso_sign_in hash lower ident u session now db))"
proof (cases "db_provider db")
  case (Some pr)
  note pr = this
  show ?thesis
  proof (cases "account_for lower pr ident u now db")
    case (Inr r)
    obtain db1 user where r: "r = (db1, user)" by (cases r)
    note safe = account_for_safe [OF Inr [unfolded r] pr assms, of p]
    let ?db2 = "sync_groups (us_id user) (if op_groups_claim pr = None then None else it_groups ident) db1"
    show ?thesis
    proof (cases "start_session hash (fst session) (snd session) now (us_id user) Auth_Oidc False ?db2")
      case (Inr db3)
      from no_gain_trans [OF _ start_session_safe(1) [OF Inr]] start_session_safe(2) [OF Inr] safe
      have "safe_change p db db3" by simp
      with assms pr r Inr \<open>account_for lower pr ident u now db = Ok r\<close> show ?thesis
        by (simp add: sso_sign_in_def Let_def)
    qed (use assms pr r Inr in \<open>simp add: sso_sign_in_def Let_def\<close>)
  qed (use assms pr in \<open>simp add: sso_sign_in_def\<close>)
qed (use assms in \<open>simp add: sso_sign_in_def\<close>)

lemma kept_safe: "(\<And>db'. r = Ok db' \<Longrightarrow> safe_change p db db') \<Longrightarrow> access_wf db \<Longrightarrow> safe_change p db (kept db r)"
  by (cases r) (simp_all add: kept_def)

lemma apply_outside_safe: "access_wf db \<Longrightarrow> safe_change p db (apply_outside env req db)"
  by (cases req; simp only: apply_outside_def outside_request.case; (rule sso_sign_in_safe | rule kept_safe);
      fast dest: accept_invitation_safe complete_reset_safe scim_create_user_safe scim_update_user_safe
        scim_delete_user_safe scim_group_requests_safe)

section \<open>Runs of the server\<close>

text \<open>What is kept along a run in which no caller holds the permission, from the database it starts with.\<close>

definition access_inv :: "access_db \<Rightarrow> permission \<Rightarrow> access_server \<Rightarrow> bool" where
  "access_inv db0 p s \<longleftrightarrow>
     access_wf (sv_db s) \<and> no_gain p db0 (sv_db s)
     \<and> (\<forall>a \<in> set (sv_callers s). actor_wf a \<and> p \<notin> au_permissions a)"

fun admits_without :: "permission \<Rightarrow> access_output \<Rightarrow> bool" where
  "admits_without p (Admitted a) \<longleftrightarrow> p \<notin> au_permissions a"
| "admits_without p _ \<longleftrightarrow> True"

lemma load_session_grants:
  assumes "load_session hash token now touch db = (db', r)"
  shows "no_gain p db0 db' = no_gain p db0 db" "access_wf db' = access_wf db"
  using assms by (auto simp: load_session_def Let_def split: option.splits if_splits)

lemma authenticate_grants:
  assumes "authenticate hash secret key clock now limits db = (limits', db', r)"
  shows "no_gain p db0 db' = no_gain p db0 db" "access_wf db' = access_wf db"
  using assms
  by (auto simp: authenticate_def token_used_def split: prod.splits sum.splits option.splits if_splits)

lemma access_step_inv:
  assumes "access_inv db0 p s" "admits_without p (snd (access_step env s e))"
  shows "access_inv db0 p (fst (access_step env s e))"
proof (cases e)
  case (Arrive_Website token now)
  obtain db' r where r: "load_session (ev_hash env) token now True (sv_db s) = (db', r)" by fastforce
  show ?thesis
    using assms load_session_grants [OF r] authorized_new_wf(1) [of "ev_hash env" token now True "sv_db s" db'] r
    by (cases r) (auto simp: Arrive_Website access_inv_def split: sum.splits)
next
  case (Arrive_Token secret key clock now)
  obtain limits db' r where r: "authenticate (ev_hash env) secret key clock now (sv_token_failures s) (sv_db s)
      = (limits, db', r)" by (metis prod.exhaust)
  show ?thesis
    using assms authenticate_grants [OF r] authenticate_ok [of "ev_hash env" secret key clock now "sv_token_failures s" "sv_db s" limits db'] r
    by (cases r) (auto simp: Arrive_Token access_inv_def token_authorized_wf)
next
  case (Handle i req)
  show ?thesis
  proof (cases "length (sv_callers s) \<le> i")
    case False
    let ?a = "sv_callers s ! i"
    have a: "actor_wf ?a" "p \<notin> au_permissions ?a" using assms(1) False by (auto simp: access_inv_def)
    have rest: "set (take i (sv_callers s) @ drop (Suc i) (sv_callers s)) \<subseteq> set (sv_callers s)"
      by (auto dest: in_set_takeD in_set_dropD)
    show ?thesis
    proof (cases "apply_request env ?a req (sv_db s)")
      case (Inr db')
      have "no_gain p db0 db'" "access_wf db'"
        using assms(1) no_gain_trans [OF _ apply_request_safe [OF Inr a]] apply_request_wf [OF Inr]
        by (simp_all add: access_inv_def)
      then show ?thesis using assms(1) False rest Inr by (auto simp: Handle access_inv_def Let_def)
    qed (use assms(1) False rest in \<open>auto simp: Handle access_inv_def Let_def\<close>)
  qed (use assms Handle in simp)
next
  case (Outside req)
  then show ?thesis
    using assms(1) apply_outside_safe [of "sv_db s" p env req] by (auto simp: access_inv_def intro: no_gain_trans)
qed

interpretation access_run: step_system "access_step env" "access_inv db0 p"
    "\<lambda>s e. admits_without p (snd (access_step env s e))" for env db0 p
  by unfold_locales (rule access_step_inv)

lemma legal_access_run:
  "access_run.legal_run env p s es \<longleftrightarrow> (\<forall>o' \<in> set (snd (run (access_step env) s es)). admits_without p o')"
  by (induction es arbitrary: s) (auto simp: Let_def)

text \<open>C1: Nobody gains a permission through people who do not have it. Take any run of the server from a
  consistent database with no request under way: callers arrive with sessions or API tokens and their requests are
  handled later, in any order, changing roles, users, invitations, tokens and settings, while invitation and reset
  links are used and the identity provider provisions users, changes groups and signs people in. If no caller
  admitted in the run held a permission, then at the end a user holds it only through a role that already carried it
  at the start and that was assigned to that user then, or offered then by an open invitation, a group of the
  provider or its default role; and no role carries the permission that did not carry it before.\<close>
theorem no_privilege_escalation:
  assumes "access_wf (sv_db s)" "sv_callers s = []" "run (access_step env) s events = (s', outputs)"
    and "\<forall>a. Admitted a \<in> set outputs \<longrightarrow> p \<notin> au_permissions a"
  shows "(\<forall>u. p \<in> held (sv_db s') u \<longrightarrow>
            (\<exists>r. carries (sv_db s) r p \<and> (assigned (sv_db s) u r \<or> offered (sv_db s) r)))
         \<and> (\<forall>r. carries (sv_db s') r p \<longrightarrow> carries (sv_db s) r p)"
proof -
  have "admits_without p o'" if "o' \<in> set outputs" for o'
    by (cases o') (use that assms(4) in auto)
  then have "access_run.legal_run env p s events" by (simp add: legal_access_run assms(3))
  moreover have "access_inv (sv_db s) p s" using assms(1,2) by (simp add: access_inv_def)
  ultimately have "access_inv (sv_db s) p s'"
    using access_run.run_inv [of "sv_db s" p s env events] assms(3) by simp
  then have gain: "no_gain p (sv_db s) (sv_db s')" by (simp add: access_inv_def)
  have "offered (sv_db s') r" if "(u, r) \<in> set (effective_user_roles (sv_db s'))" "\<not> assigned (sv_db s') u r" for u r
    using that by (auto simp: effective_iff offered_def)
  with gain show ?thesis unfolding held_iff no_gain_def by metis
qed

section \<open>An enabled administrator remains\<close>

lemma enabled_administrators_iff:
  "enabled_administrators db \<noteq> [] \<longleftrightarrow>
     (\<exists>u \<in> set (db_users db). \<not> us_disabled u \<and> (us_id u, ADMINISTRATOR_ROLE_ID) \<in> set (effective_user_roles db))"
  by (auto simp: enabled_administrators_def filter_empty_conv)

lemma administrators_kept:
  assumes "enabled_administrators db \<noteq> []"
    and "\<And>u. u \<in> set (db_users db) \<Longrightarrow> \<not> us_disabled u \<Longrightarrow>
           (us_id u, ADMINISTRATOR_ROLE_ID) \<in> set (effective_user_roles db) \<Longrightarrow>
           (\<exists>u' \<in> set (db_users db'). us_id u' = us_id u \<and> \<not> us_disabled u')
           \<and> (us_id u, ADMINISTRATOR_ROLE_ID) \<in> set (effective_user_roles db')"
  shows "enabled_administrators db' \<noteq> []"
  using assms unfolding enabled_administrators_iff by metis

lemma enabled_administrators_same [simp]:
  "enabled_administrators (audit_record a s t db) = enabled_administrators db"
  "enabled_administrators (db\<lparr>db_sessions := x\<rparr>) = enabled_administrators db"
  "enabled_administrators (db\<lparr>db_resets := y\<rparr>) = enabled_administrators db"
  "enabled_administrators (db\<lparr>db_api_tokens := z\<rparr>) = enabled_administrators db"
  "enabled_administrators (update_invitation i f db) = enabled_administrators db"
  "enabled_administrators (end_sessions u k db) = enabled_administrators db"
  "enabled_administrators (remove_two_factor u db) = enabled_administrators db"
  "enabled_administrators (set_permissions r ps db) = enabled_administrators db"
  "enabled_administrators (db\<lparr>rt_roles := w\<rparr>) = enabled_administrators db"
  by (simp_all add: enabled_administrators_def effective_user_roles_def audit_record_def update_invitation_def
      end_sessions_def remove_two_factor_def remove_recovery_codes_def set_permissions_def)

lemma delete_role_row_administrators:
  assumes "r \<noteq> ADMINISTRATOR_ROLE_ID" "enabled_administrators db \<noteq> []"
  shows "enabled_administrators (delete_role_row r db) \<noteq> []"
  by (rule administrators_kept [OF assms(2)])
    (use assms(1) in \<open>force simp: effective_iff delete_role_row_def assigned_def\<close>)

lemma apply_request_administrators:
  assumes "apply_request env a req db = Ok db'" "access_wf db" "enabled_administrators db \<noteq> []"
  shows "enabled_administrators db' \<noteq> []"
proof (cases req)
  case (Delete_Role i)
  with assms have "delete_role a i db = Ok db'" by (simp add: apply_request_def)
  moreover from this obtain role where "editable a i db = Ok role"
    and "db' = audit_record (actor_id a) ''role.delete'' (ro_id role) (delete_role_row (ro_id role) db)"
    by (auto simp: delete_role_def and_then_ok_iff split: if_splits)
  ultimately show ?thesis
    using delete_role_safe(2) [of a i db db'] delete_role_row_administrators [of i db] assms(2,3) editable_ok(1)
    by fastforce
next
  case (Update_User u r now)
  with assms show ?thesis
    by (auto simp: apply_request_def api_update_user_def and_then_ok_iff ensure_administrator_remains_def
        split: if_splits)
next
  case (Create_Invitation email ids i token now)
  with assms show ?thesis
    by (auto simp: apply_request_def create_invitation_def and_then_ok_iff insert_invitation_def
        enabled_administrators_def effective_user_roles_def audit_record_def split: if_splits)
qed (use assms in \<open>auto simp: apply_request_def create_role_def update_role_def api_delete_user_def
      api_reset_two_factor_def api_password_reset_def api_sign_out_def api_unlink_sso_def revoke_invitation_def
      renew_invitation_def create_api_token_def revoke_api_token_def update_scim_group_def put_sso_settings_def
      delete_sso_settings_def and_then_ok_iff Let_def insert_role_def update_role_row_def create_reset_def
      ensure_administrator_remains_def split: if_splits option.splits\<close>)

text \<open>
  Outside requests keep one too, except for those that change who is in the provider's groups: a sign-in through
  the provider and a change of a group over SCIM.
\<close>

fun changes_groups :: "'n access_event \<Rightarrow> bool" where
  "changes_groups (Outside (Scim_Update_Group g c)) \<longleftrightarrow> True"
| "changes_groups (Outside (Scim_Delete_Group g)) \<longleftrightarrow> True"
| "changes_groups (Outside (Sso_Sign_In i u s now)) \<longleftrightarrow> True"
| "changes_groups _ \<longleftrightarrow> False"

text \<open>Adding an account and signing one in leave the others as they are.\<close>

lemma insert_user_others:
  assumes "insert_user n db = Ok db'" "v \<in> set (db_users db)"
  shows "us_id v \<noteq> nu_id n" "v \<in> set (db_users db')"
    "(us_id v, r) \<in> set (effective_user_roles db) \<Longrightarrow> (us_id v, r) \<in> set (effective_user_roles db')"
proof -
  show new: "us_id v \<noteq> nu_id n" using assms by (auto simp: insert_user_def image_iff split: if_splits)
  from assms(1) have db': "db' = db\<lparr>db_users := db_users db @ [new_user_row n], rt_user_roles :=
      filter (\<lambda>(u, _). u \<noteq> nu_id n) (rt_user_roles db) @ map (Pair (nu_id n)) (nu_role_ids n)\<rparr>"
    by (auto simp: insert_user_def set_roles_def Let_def split: if_splits)
  show "v \<in> set (db_users db')" using assms(2) by (simp add: db')
  show "(us_id v, r) \<in> set (effective_user_roles db) \<Longrightarrow> (us_id v, r) \<in> set (effective_user_roles db')"
    using new by (auto simp: db' effective_iff assigned_def)
qed

lemma start_session_others:
  assumes "start_session hash i token now u how verified db = Ok db'" "us_id v \<noteq> u"
  shows "v \<in> set (db_users db) \<Longrightarrow> v \<in> set (db_users db')"
    "(us_id v, r) \<in> set (effective_user_roles db) \<longleftrightarrow> (us_id v, r) \<in> set (effective_user_roles db')"
  using assms
  by (force simp: start_session_def Let_def update_user_def split: if_splits)
    (use assms in \<open>auto simp: start_session_def Let_def update_user_def effective_iff assigned_def split: if_splits\<close>)

lemma audit_accounts [simp]:
  "db_users (audit_record a s t db) = db_users db"
  "effective_user_roles (audit_record a s t db) = effective_user_roles db"
  by (simp_all add: audit_record_def effective_user_roles_def)

lemma insert_user_administrators:
  assumes "insert_user n db = Ok db'" "enabled_administrators db \<noteq> []"
  shows "enabled_administrators db' \<noteq> []"
  by (rule administrators_kept [OF assms(2)]) (use insert_user_others [OF assms(1)] in blast)

lemma accept_invitation_administrators:
  assumes "accept_invitation hash token name pw u session now db = Ok db'" "enabled_administrators db \<noteq> []"
  shows "enabled_administrators db' \<noteq> []"
proof -
  from accept_invitation_ok [OF assms(1)] obtain row d db2 where
    db2: "insert_user (invited_user row u d pw now db) (update_invitation (iv_id row) (close_invitation now) db) = Ok db2"
    and start: "start_session hash (fst session) (snd session) now u Auth_Password False
      (audit_record (Some u) ''invitation.accept'' (iv_id row) db2) = Ok db'"
    by blast
  show ?thesis
  proof (rule administrators_kept [of "update_invitation (iv_id row) (close_invitation now) db"])
    fix v assume v: "v \<in> set (db_users (update_invitation (iv_id row) (close_invitation now) db))" "\<not> us_disabled v"
      "(us_id v, ADMINISTRATOR_ROLE_ID) \<in> set (effective_user_roles (update_invitation (iv_id row) (close_invitation now) db))"
    note kept = insert_user_others [OF db2 v(1)]
    have "us_id v \<noteq> u" using kept(1) by (simp add: invited_user_def)
    from start_session_others [OF start this] kept(2,3) v(2,3)
    show "(\<exists>u' \<in> set (db_users db'). us_id u' = us_id v \<and> \<not> us_disabled u')
        \<and> (us_id v, ADMINISTRATOR_ROLE_ID) \<in> set (effective_user_roles db')"
      by auto
  qed (use assms(2) in simp)
qed

lemma scim_create_user_administrators:
  assumes "scim_create_user input u now db = Ok db'" "enabled_administrators db \<noteq> []"
  shows "enabled_administrators db' \<noteq> []"
proof -
  from scim_create_user_ok [OF assms(1)] obtain n db1 f where n: "nu_id n = u" "insert_user n db = Ok db1"
    and db': "db' = audit_record None ''scim.user_create'' u (update_user u f db1)"
    by metis
  show ?thesis
  proof (rule administrators_kept [OF assms(2)])
    fix v assume v: "v \<in> set (db_users db)" "\<not> us_disabled v" "(us_id v, ADMINISTRATOR_ROLE_ID) \<in> set (effective_user_roles db)"
    note kept = insert_user_others [OF n(2) v(1)]
    have "v \<in> set (db_users (update_user u f db1))"
      using kept n(1) by (force simp: update_user_def)
    moreover have "effective_user_roles (update_user u f db1) = effective_user_roles db1"
      by (simp add: update_user_def effective_user_roles_def)
    ultimately show "(\<exists>u' \<in> set (db_users db'). us_id u' = us_id v \<and> \<not> us_disabled u')
        \<and> (us_id v, ADMINISTRATOR_ROLE_ID) \<in> set (effective_user_roles db')"
      using kept v by (auto simp: db')
  qed
qed

lemma update_user_administrators:
  assumes "enabled_administrators db \<noteq> []" "\<And>x. x \<in> set (db_users db) \<Longrightarrow> us_id x = u \<Longrightarrow> us_id (f x) = us_id x"
    and "\<And>x. x \<in> set (db_users db) \<Longrightarrow> us_id x = u \<Longrightarrow> \<not> us_disabled x \<Longrightarrow> \<not> us_disabled (f x)"
  shows "enabled_administrators (update_user u f db) \<noteq> []"
proof (rule administrators_kept [OF assms(1)])
  fix v assume v: "v \<in> set (db_users db)" "\<not> us_disabled v" "(us_id v, ADMINISTRATOR_ROLE_ID) \<in> set (effective_user_roles db)"
  then show "(\<exists>u' \<in> set (db_users (update_user u f db)). us_id u' = us_id v \<and> \<not> us_disabled u')
      \<and> (us_id v, ADMINISTRATOR_ROLE_ID) \<in> set (effective_user_roles (update_user u f db))"
    using assms(2,3) [OF v(1)] by (cases "us_id v = u") (force simp: update_user_def effective_user_roles_def)+
qed

lemma scim_update_user_administrators:
  assumes "scim_update_user lower number meta base u change now db = Ok db'" "enabled_administrators db \<noteq> []"
    "access_wf db"
  shows "enabled_administrators db' \<noteq> []"
proof (cases "user_by_id db u")
  case (Some user)
  have only: "x = user" if "x \<in> set (db_users db)" "us_id x = u" for x
    using that Some assms(3) by (auto simp: user_by_id_def access_wf_def distinct_map inj_on_def dest!: find_Some_in)
  from assms(1) Some obtain input c where
    "if su_active input = Some False \<and> \<not> us_disabled user then enabled_administrators db' \<noteq> []
     else enabled_administrators db' = enabled_administrators (update_user u (scim_set_user input c now) db)"
    unfolding scim_update_user_def and_then_ok_iff Let_def
    by (fastforce simp: and_then_ok_iff ensure_administrator_remains_def)
  moreover have "enabled_administrators (update_user u (scim_set_user input c now) db) \<noteq> []"
    if "\<not> (su_active input = Some False \<and> \<not> us_disabled user)"
    by (rule update_user_administrators [OF assms(2)])
      (use that only in \<open>auto simp: scim_set_user_def split: option.splits\<close>)
  ultimately show ?thesis by (auto split: if_splits)
qed (use assms in \<open>simp add: scim_update_user_def and_then_ok_iff\<close>)

lemma scim_create_group_administrators:
  assumes "scim_create_group lower sql_lower input g db = Ok db'" "enabled_administrators db \<noteq> []"
  shows "enabled_administrators db' \<noteq> []"
  by (rule administrators_kept [OF assms(2)])
    (use assms(1) in \<open>auto simp: scim_create_group_def and_then_ok_iff effective_iff assigned_def audit_record_def
      split: if_splits\<close>)

lemma complete_reset_administrators:
  assumes "complete_reset hash token pw now db = Ok db'" "enabled_administrators db \<noteq> []"
  shows "enabled_administrators db' \<noteq> []"
proof -
  from assms(1) obtain u resets where "enabled_administrators db' = enabled_administrators (update_user u
      (\<lambda>u. u\<lparr>us_password_hash := Some pw, us_password_changed_at := Some now, us_updated_at := now\<rparr>)
      (db\<lparr>db_resets := resets\<rparr>))"
    by (auto simp: complete_reset_def and_then_ok_iff set_password_def Let_def)
  moreover have "enabled_administrators (update_user u
      (\<lambda>u. u\<lparr>us_password_hash := Some pw, us_password_changed_at := Some now, us_updated_at := now\<rparr>)
      (db\<lparr>db_resets := resets\<rparr>)) \<noteq> []"
    by (rule update_user_administrators) (use assms(2) in simp_all)
  ultimately show ?thesis by simp
qed

lemma scim_delete_user_administrators:
  "scim_delete_user u db = Ok db' \<Longrightarrow> enabled_administrators db' \<noteq> []"
  by (auto simp: scim_delete_user_def and_then_ok_iff Let_def ensure_administrator_remains_def split: option.splits)

lemma kept_administrators:
  "(\<And>db'. r = Ok db' \<Longrightarrow> enabled_administrators db' \<noteq> []) \<Longrightarrow> enabled_administrators db \<noteq> [] \<Longrightarrow>
     enabled_administrators (kept db r) \<noteq> []"
  by (cases r) (simp_all add: kept_def)

lemma apply_outside_administrators:
  assumes "\<not> changes_groups (Outside req)" "access_wf db" "enabled_administrators db \<noteq> []"
  shows "enabled_administrators (apply_outside env req db) \<noteq> []"
proof -
  note kept = kept_administrators [OF _ assms(3)]
  show ?thesis
    using assms(1)
    by (cases req; simp only: apply_outside_def outside_request.case changes_groups.simps simp_thms)
      (rule kept, use assms(2,3) in \<open>fast dest: accept_invitation_administrators complete_reset_administrators
        scim_create_user_administrators scim_update_user_administrators scim_delete_user_administrators
        scim_create_group_administrators\<close>)+
qed

definition administered :: "access_server \<Rightarrow> bool" where
  "administered s \<longleftrightarrow> access_wf (sv_db s) \<and> enabled_administrators (sv_db s) \<noteq> []"

lemma arrival_administrators:
  "load_session hash token now touch db = (db', r) \<Longrightarrow> enabled_administrators db' = enabled_administrators db"
  "authenticate hash secret key clock now limits db = (limits', db', r2) \<Longrightarrow>
     enabled_administrators db' = enabled_administrators db"
  by (auto simp: load_session_def authenticate_def token_used_def Let_def
      split: option.splits if_splits prod.splits sum.splits)

lemma access_step_administered:
  assumes "administered s" "\<not> changes_groups e"
  shows "administered (fst (access_step env s e))"
proof (cases e)
  case (Arrive_Website token now)
  obtain db' r where r: "load_session (ev_hash env) token now True (sv_db s) = (db', r)" by fastforce
  then show ?thesis
    using assms(1) load_session_grants(2) [OF r] arrival_administrators(1) [OF r]
    by (auto simp: Arrive_Website administered_def split: sum.splits)
next
  case (Arrive_Token secret key clock now)
  obtain limits db' r where r: "authenticate (ev_hash env) secret key clock now (sv_token_failures s) (sv_db s)
      = (limits, db', r)" by (metis prod.exhaust)
  then show ?thesis
    using assms(1) authenticate_grants(2) [OF r] arrival_administrators(2) [OF r]
    by (auto simp: Arrive_Token administered_def split: sum.splits)
next
  case (Handle i req)
  then show ?thesis
    using assms(1) apply_request_wf [of env "sv_callers s ! i" req "sv_db s"]
      apply_request_administrators [of env "sv_callers s ! i" req "sv_db s"]
    by (auto simp: administered_def Let_def split: sum.splits)
next
  case (Outside req)
  then show ?thesis
    using assms apply_outside_safe [of "sv_db s" _ env req] apply_outside_administrators [of req "sv_db s" env]
    by (auto simp: administered_def)
qed

interpretation administered_run: step_system "access_step env" administered "\<lambda>s e. \<not> changes_groups e" for env
  by unfold_locales (rule access_step_administered)

lemma legal_administered_run: "administered_run.legal_run env s es \<longleftrightarrow> (\<forall>e \<in> set es. \<not> changes_groups e)"
  by (induction es arbitrary: s) auto


section \<open>Nobody takes over a more powerful account\<close>

text \<open>What signs a user in: the account itself with its password and linked identity, its second factors, its
  sessions, its reset links and the groups its last sign-in through the provider came with.\<close>

definition sign_in_means ::
  "access_db \<Rightarrow> rust_string \<Rightarrow> user_row list \<times> (rust_string \<times> bool) list \<times> (rust_string \<times> rust_string) list
     \<times> (rust_string \<times> rust_string) list \<times> session_row list \<times> reset_row list \<times> (rust_string \<times> rust_string) list" where
  "sign_in_means db u =
     (filter (\<lambda>x. us_id x = u) (db_users db), filter (\<lambda>(x, _). x = u) (db_totp db),
      filter (\<lambda>(_, x). x = u) (db_passkeys db), filter (\<lambda>(_, x). x = u) (db_recovery_codes db),
      filter (\<lambda>s. se_user_id s = u) (db_sessions db), filter (\<lambda>r. re_user_id r = u) (db_resets db),
      filter (\<lambda>(x, _). x = u) (rt_user_oidc_groups db))"

lemma filter_map_other:
  assumes "\<And>x. us_id (f x) = us_id x" "v \<noteq> u"
  shows "filter (\<lambda>x. us_id x = v) (map (\<lambda>x. if us_id x = u then f x else x) l) = filter (\<lambda>x. us_id x = v) l"
  using assms by (induction l) auto

lemma sign_in_means_other:
  assumes "v \<noteq> u"
  shows "sign_in_means (delete_user_row u db) v = sign_in_means db v"
    and "sign_in_means (end_sessions u k db) v = sign_in_means db v"
    and "sign_in_means (remove_two_factor u db) v = sign_in_means db v"
    and "sign_in_means (forget_oidc_groups u db) v = sign_in_means db v"
    and "(\<And>x. us_id (f x) = us_id x) \<Longrightarrow> sign_in_means (update_user u f db) v = sign_in_means db v"
  using assms
  by (auto simp: sign_in_means_def delete_user_row_def end_sessions_def remove_two_factor_def
      remove_recovery_codes_def forget_oidc_groups_def update_user_def filter_map_other
      intro!: filter_cong)

lemma sign_in_means_same [simp]:
  "sign_in_means (audit_record a s t db) v = sign_in_means db v"
  "sign_in_means (set_permissions r ps db) v = sign_in_means db v"
  "sign_in_means (db\<lparr>rt_roles := w\<rparr>) v = sign_in_means db v"
  "sign_in_means (db\<lparr>rt_user_roles := x\<rparr>) v = sign_in_means db v"
  "sign_in_means (db\<lparr>rt_scim_groups := g\<rparr>) v = sign_in_means db v"
  "sign_in_means (db\<lparr>db_api_tokens := z\<rparr>) v = sign_in_means db v"
  "sign_in_means (db\<lparr>db_invitations := ivs\<rparr>) v = sign_in_means db v"
  "sign_in_means (db\<lparr>db_invitation_roles := rs\<rparr>) v = sign_in_means db v"
  "sign_in_means (update_invitation i f db) v = sign_in_means db v"
  "sign_in_means (delete_role_row r db) v = sign_in_means db v"
  by (simp_all add: sign_in_means_def audit_record_def set_permissions_def update_invitation_def delete_role_row_def)

lemma manageable_ok:
  assumes "manageable a u db = Ok (user, roles)"
  shows "us_id user = u" "held db u \<subseteq> au_permissions a" "list_ex role_is_administrator (user_roles db u) \<Longrightarrow> au_administrator a"
  using assms
  by (auto simp: manageable_def and_then_ok_iff Let_def ensure_within_ok held_def require_administrator_def
      user_by_id_def dest!: find_Some_in split: option.splits if_splits)

definition in_reach :: "authorized \<Rightarrow> access_db \<Rightarrow> rust_string \<Rightarrow> bool" where
  "in_reach a db u \<longleftrightarrow>
     held db u \<subseteq> au_permissions a \<and> (list_ex role_is_administrator (user_roles db u) \<longrightarrow> au_administrator a)"

text \<open>A request about one user changes only that user, who is in reach.\<close>

lemma managed_means:
  assumes "and_then (manageable a u db) k = Ok db'"
    and "\<And>user roles. us_id user = u \<Longrightarrow> k (user, roles) = Ok db' \<Longrightarrow> v \<noteq> u \<Longrightarrow> sign_in_means db' v = sign_in_means db v"
    and "sign_in_means db' v \<noteq> sign_in_means db v"
  shows "in_reach a db v"
proof -
  from assms(1) obtain user roles where ok: "manageable a u db = Ok (user, roles)" "k (user, roles) = Ok db'"
    by (auto simp: and_then_ok_iff)
  note m = manageable_ok [OF ok(1)]
  have "v = u" using assms(2) [OF m(1) ok(2)] assms(3) by blast
  with m(2,3) show ?thesis by (simp add: in_reach_def)
qed

lemma update_profile_means:
  assumes "update_profile a user r now db = Ok (db1, c)" "v \<noteq> us_id user"
  shows "sign_in_means db1 v = sign_in_means db v"
  using assms
  by (auto simp: update_profile_def and_then_ok_iff Let_def sign_in_means_other split: if_splits)

lemma set_roles_means: "set_roles u ids db = Ok db' \<Longrightarrow> sign_in_means db' v = sign_in_means db v"
  by (auto simp: set_roles_def Let_def split: if_splits)

lemma user_requests_means:
  assumes "sign_in_means db' v \<noteq> sign_in_means db v"
  shows "api_update_user a u r now db = Ok db' \<Longrightarrow> in_reach a db v"
    and "api_delete_user a u db = Ok db' \<Longrightarrow> in_reach a db v"
    and "api_reset_two_factor a u db = Ok db' \<Longrightarrow> in_reach a db v"
    and "api_password_reset hash a u i token now db = Ok db' \<Longrightarrow> in_reach a db v"
    and "api_sign_out a u db = Ok db' \<Longrightarrow> in_reach a db v"
    and "api_unlink_sso a u db = Ok db' \<Longrightarrow> in_reach a db v"
proof -
  show "in_reach a db v" if update: "api_update_user a u r now db = Ok db'"
  proof (rule managed_means [OF update [unfolded api_update_user_def] _ assms])
    fix user :: user_row and roles :: "access_role list"
    assume "us_id user = u" "v \<noteq> u" and rest: "(case (user, roles) of (user, _) \<Rightarrow>
      and_then (update_profile a user r now db) (\<lambda>(db1, changed).
      and_then (case uu_role_ids r of None \<Rightarrow> Ok db1
                | Some role_ids \<Rightarrow> and_then (grantable_roles a role_ids db1) (\<lambda>roles.
                    set_roles (us_id user) (map ro_id roles) db1)) (\<lambda>db2.
      and_then (ensure_administrator_remains db2) (\<lambda>_.
        Ok (if changed \<or> uu_role_ids r \<noteq> None
            then audit_record (actor_id a) ''user.update'' (us_id user) db2 else db2))))) = Ok db'"
    then obtain db1 c db2 where steps: "update_profile a user r now db = Ok (db1, c)"
        "(case uu_role_ids r of None \<Rightarrow> Ok db1
          | Some role_ids \<Rightarrow> and_then (grantable_roles a role_ids db1) (\<lambda>roles.
              set_roles (us_id user) (map ro_id roles) db1)) = Ok db2"
        "sign_in_means db' v = sign_in_means db2 v"
      by (auto simp: and_then_ok_iff)
    have "sign_in_means db2 v = sign_in_means db1 v"
      using steps(2) by (cases "uu_role_ids r") (auto simp: and_then_ok_iff set_roles_means)
    with steps show "sign_in_means db' v = sign_in_means db v"
      using update_profile_means [OF steps(1)] \<open>us_id user = u\<close> \<open>v \<noteq> u\<close> by simp
  qed
  show "in_reach a db v" if "api_delete_user a u db = Ok db'"
    using that [unfolded api_delete_user_def]
    by (rule managed_means [OF _ _ assms]) (auto simp: and_then_ok_iff Let_def sign_in_means_other)
  show "in_reach a db v" if "api_reset_two_factor a u db = Ok db'"
    using that [unfolded api_reset_two_factor_def]
    by (rule managed_means [OF _ _ assms]) (auto simp: and_then_ok_iff sign_in_means_other)
  show "in_reach a db v" if "api_password_reset hash a u i token now db = Ok db'"
    using that [unfolded api_password_reset_def]
    by (rule managed_means [OF _ _ assms])
      (auto simp: and_then_ok_iff create_reset_def sign_in_means_def audit_record_def split: if_splits)
  show "in_reach a db v" if "api_sign_out a u db = Ok db'"
    using that [unfolded api_sign_out_def]
    by (rule managed_means [OF _ _ assms]) (auto simp: sign_in_means_other)
  show "in_reach a db v" if "api_unlink_sso a u db = Ok db'"
    using that [unfolded api_unlink_sso_def]
    by (rule managed_means [OF _ _ assms]) (auto simp: and_then_ok_iff Let_def sign_in_means_other)
qed

text \<open>C4: Managing users is no way into a more powerful account. Whatever request a caller makes, if it succeeds and
  changes anything that signs some user in (the account's row with its password and linked identity, an authenticator
  app, a passkey, a recovery code, a session, a password reset link or the groups of the last sign-in), then the
  caller holds every permission that user holds, and holds the Administrator role if the user does.\<close>
theorem no_account_takeover:
  assumes "actor_wf a" "apply_request env a req db = Ok db'" "sign_in_means db' u \<noteq> sign_in_means db u"
  shows "held db u \<subseteq> au_permissions a \<and> (list_ex role_is_administrator (user_roles db u) \<longrightarrow> au_administrator a)"
proof -
  have all: "in_reach a db u" if "au_administrator a" using that assms(1) by (simp add: in_reach_def actor_wf_def)
  have "in_reach a db u"
    using assms(2,3) user_requests_means [OF assms(3)]
    by (cases req)
      (auto simp: apply_request_def create_role_def update_role_def delete_role_def create_invitation_def
        revoke_invitation_def renew_invitation_def create_api_token_def revoke_api_token_def update_scim_group_def
        put_sso_settings_def delete_sso_settings_def and_then_ok_iff Let_def insert_role_def update_role_row_def
        insert_invitation_def require_administrator_def intro: all split: if_splits option.splits)
  then show ?thesis by (simp add: in_reach_def)
qed

section \<open>Witnesses\<close>

text \<open>
  A server with an administrator and a help desk user, whose role lets them manage users and roles. The help desk
  user is signed in with the session token 7, the administrator with 8.
\<close>

definition witness_account :: "rust_string \<Rightarrow> rust_string \<Rightarrow> user_row" where
  "witness_account i email =
     \<lparr>us_id = i, us_email = email, us_display_name = email, us_password_hash = None, us_password_changed_at = None,
      us_disabled = False, us_oidc_subject = None, us_scim_external_id = None, us_scim_managed = False,
      us_created_at = 0, us_updated_at = 0, us_last_sign_in_at = None\<rparr>"

definition witness_session :: "rust_string \<Rightarrow> rust_string \<Rightarrow> session_row" where
  "witness_session token u =
     \<lparr>se_id = token, se_token_hash = token, se_user_id = u, se_auth_method = Auth_Passkey, se_created_at = 0,
      se_last_seen_at = 0, se_expires_at = 1000000, se_verified_at = None\<rparr>"

definition witness_access_db :: access_db where
  "witness_access_db =
     \<lparr>rt_roles =
        [\<lparr>rr_id = ADMINISTRATOR_ROLE_ID, rr_name = [97], rr_description = [],
          rr_builtin = Some ADMINISTRATOR_ROLE_ID, rr_updated_at = 0\<rparr>,
         \<lparr>rr_id = [1], rr_name = [98], rr_description = [], rr_builtin = None, rr_updated_at = 0\<rparr>],
      rt_role_permissions = [([1], permission_as_str UsersManage), ([1], permission_as_str RolesManage)],
      rt_user_roles = [([10], ADMINISTRATOR_ROLE_ID), ([11], [1])],
      rt_scim_groups = [], rt_scim_group_members = [], rt_oidc_group_roles = [], rt_user_oidc_groups = [],
      db_users = [witness_account [10] [97, 64, 98], witness_account [11] [99, 64, 98]],
      db_totp = [], db_passkeys = [], db_recovery_codes = [],
      db_sessions = [witness_session [7] [11], witness_session [8] [10]],
      db_invitations = [], db_invitation_roles = [], db_resets = [], db_api_tokens = [], db_provider = None,
      db_settings = \<lparr>st_require_two_factor = True, st_idle_timeout_minutes = 30, st_session_lifetime_hours = 12,
                     st_api_tokens_enabled = True, st_api_token_max_lifetime_days = None\<rparr>,
      db_audit = []\<rparr>"

definition witness_access_env :: "unit access_env" where
  "witness_access_env =
     \<lparr>ev_hash = (\<lambda>x. x), ev_lower = (\<lambda>x. x), ev_sql_lower = (\<lambda>x. x), ev_number = (\<lambda>_. None), ev_meta = JNull,
      ev_base_url = []\<rparr>"

definition witness_server :: access_server where
  "witness_server =
     \<lparr>sv_db = witness_access_db, sv_token_failures = RateLimiter_new 10 60, sv_callers = []\<rparr>"

definition witness_promotion :: "unit access_event list" where
  "witness_promotion =
     [Arrive_Website [7] 5,
      Handle 0 (Update_User [11] \<lparr>uu_display_name = None, uu_disabled = None, uu_role_ids = Some [ADMINISTRATOR_ROLE_ID]\<rparr> 5)]"

lemma witness_access_wf: "access_wf witness_access_db"
  by (simp add: access_wf_def witness_access_db_def witness_account_def ADMINISTRATOR_ROLE_ID_def)

fun handled_error :: "access_output \<Rightarrow> access_error option" where
  "handled_error (Handled e) = e"
| "handled_error _ = None"

lemma witness_promotion_outputs:
  "list_all (admits_without FilesSystem) (snd (run (access_step witness_access_env) witness_server witness_promotion))
   \<and> list_ex (\<lambda>r. handled_error r \<noteq> None) (snd (run (access_step witness_access_env) witness_server witness_promotion))"
  by code_simp

lemma witness_carries: "carries witness_access_db r FilesSystem \<Longrightarrow> r = ADMINISTRATOR_ROLE_ID"
  by (auto simp: carries_def witness_access_db_def role_permissions_iff)

theorem no_privilege_escalation_witness:
  "list_ex (\<lambda>r. handled_error r \<noteq> None) (snd (run (access_step witness_access_env) witness_server witness_promotion))
   \<and> FilesSystem \<notin> held (sv_db (fst (run (access_step witness_access_env) witness_server witness_promotion))) [11]"
proof -
  let ?r = "run (access_step witness_access_env) witness_server witness_promotion"
  have "\<forall>a. Admitted a \<in> set (snd ?r) \<longrightarrow> FilesSystem \<notin> au_permissions a"
    using witness_promotion_outputs by (auto simp: list_all_iff)
  moreover have "\<not> (assigned witness_access_db [11] ADMINISTRATOR_ROLE_ID \<or> offered witness_access_db ADMINISTRATOR_ROLE_ID)"
    by (simp add: assigned_def offered_def witness_access_db_def ADMINISTRATOR_ROLE_ID_def)
  moreover have "sv_db witness_server = witness_access_db" "sv_callers witness_server = []"
    by (simp_all add: witness_server_def)
  ultimately have "FilesSystem \<notin> held (sv_db (fst ?r)) [11]"
    using no_privilege_escalation [of witness_server witness_access_env witness_promotion "fst ?r" "snd ?r" FilesSystem]
      witness_access_wf witness_carries by (metis prod.collapse)
  with witness_promotion_outputs show ?thesis by simp
qed

definition witness_demotion :: "unit access_event list" where
  "witness_demotion =
     [Arrive_Website [8] 5,
      Handle 0 (Update_User [10] \<lparr>uu_display_name = None, uu_disabled = None, uu_role_ids = Some [[1]]\<rparr> 5)]"

lemma witness_administrators: "enabled_administrators witness_access_db \<noteq> []"
  by (simp add: enabled_administrators_iff effective_iff assigned_def witness_access_db_def witness_account_def)


definition witness_help_desk :: authorized where
  "witness_help_desk =
     \<lparr>au_user = witness_account [12] [100, 64, 98], au_roles = [], au_permissions = {UsersManage, RolesManage},
      au_api_token = None, au_administrator = False\<rparr>"

definition witness_signed_out :: access_db where
  "witness_signed_out = kept witness_access_db (apply_request witness_access_env witness_help_desk (Sign_Out [11]) witness_access_db)"

lemma witness_signed_out_ok:
  "apply_request witness_access_env witness_help_desk (Sign_Out [11]) witness_access_db = Ok witness_signed_out
   \<and> map se_id (db_sessions witness_signed_out) = [[8]]"
  by code_simp

theorem no_account_takeover_witness:
  "apply_request witness_access_env witness_help_desk (Sign_Out [11]) witness_access_db = Ok witness_signed_out
   \<and> held witness_access_db [11] \<subseteq> {UsersManage, RolesManage}
   \<and> \<not> list_ex role_is_administrator (user_roles witness_access_db [11])"
proof -
  have "sign_in_means witness_signed_out [11] \<noteq> sign_in_means witness_access_db [11]"
    by code_simp
  moreover have "actor_wf witness_help_desk" by (simp add: actor_wf_def witness_help_desk_def)
  ultimately show ?thesis
    using no_account_takeover [of witness_help_desk witness_access_env "Sign_Out [11]" witness_access_db witness_signed_out "[11]"]
      witness_signed_out_ok by (simp add: witness_help_desk_def)
qed

text \<open>
  Deleting a group of the identity provider can take the Administrator role from the last user who holds it.
\<close>

definition witness_group_db :: access_db where
  "witness_group_db =
     witness_access_db\<lparr>rt_user_roles := [],
       rt_scim_groups := [\<lparr>sg_id = [5], sg_display_name = [65], sg_external_id = None, sg_role_id = Some ADMINISTRATOR_ROLE_ID\<rparr>],
       rt_scim_group_members := [([5], [10])]\<rparr>"

lemma scim_group_removes_last_administrator:
  "enabled_administrators witness_group_db \<noteq> []
   \<and> enabled_administrators (kept witness_group_db (scim_delete_group [5] witness_group_db)) = []"
  by code_simp

end
