(* ===== verification/Access_Tokens.thy ===== *)
theory Access_Tokens
  imports Access
begin

text \<open>
  What a request with an API token cannot do. Routes that make credentials are for the website only
  (\<open>website_only_route\<close> and \<open>require_website\<close>), so a leaked token yields no session, link or further token.
\<close>

definition keeps_credentials :: "access_db \<Rightarrow> access_db \<Rightarrow> bool" where
  "keeps_credentials db db' \<longleftrightarrow>
     set (db_sessions db') \<subseteq> set (db_sessions db) \<and> set (db_resets db') \<subseteq> set (db_resets db)
     \<and> set (db_api_tokens db') \<subseteq> set (db_api_tokens db) \<and> set (db_passkeys db') \<subseteq> set (db_passkeys db)
     \<and> set (db_recovery_codes db') \<subseteq> set (db_recovery_codes db)
     \<and> (\<forall>u' \<in> set (db_users db'). \<exists>u \<in> set (db_users db). us_id u' = us_id u \<and> us_email u' = us_email u
          \<and> us_password_hash u' = us_password_hash u \<and> us_oidc_subject u' \<in> {None, us_oidc_subject u}
          \<and> second_factors_any db' (us_id u') = second_factors_any db (us_id u))"

lemma second_factors_same:
  "db_totp db' = db_totp db \<Longrightarrow> db_passkeys db' = db_passkeys db \<Longrightarrow> second_factors_any db' u = second_factors_any db u"
  by (simp add: second_factors_any_def has_totp_def passkey_count_def)

lemma keeps_credentials_refl [simp]: "keeps_credentials db db"
  by (auto simp: keeps_credentials_def)

lemma keeps_credentials_trans [trans]:
  assumes "keeps_credentials a b" "keeps_credentials b c"
  shows "keeps_credentials a c"
proof -
  have "\<exists>u \<in> set (db_users a). us_id w = us_id u \<and> us_email w = us_email u
      \<and> us_password_hash w = us_password_hash u \<and> us_oidc_subject w \<in> {None, us_oidc_subject u}
      \<and> second_factors_any c (us_id w) = second_factors_any a (us_id u)" if w: "w \<in> set (db_users c)" for w
  proof -
    from assms(2) w obtain v where "v \<in> set (db_users b)" "us_id w = us_id v" "us_email w = us_email v"
        "us_password_hash w = us_password_hash v" "us_oidc_subject w \<in> {None, us_oidc_subject v}"
        "second_factors_any c (us_id w) = second_factors_any b (us_id v)"
      unfolding keeps_credentials_def by blast
    with assms(1) show ?thesis unfolding keeps_credentials_def by (metis empty_iff insert_iff)
  qed
  with assms show ?thesis by (simp add: keeps_credentials_def) blast
qed

lemma keeps_credentials_audit [simp]: "keeps_credentials db (audit_record x s t db') = keeps_credentials db db'"
  by (simp add: keeps_credentials_def audit_record_def second_factors_any_def has_totp_def passkey_count_def)

lemma keeps_credentials_steps:
  "keeps_credentials db (end_sessions u k db)" "keeps_credentials db (forget_oidc_groups u db)"
  "set_roles u ids db = Ok db1 \<Longrightarrow> keeps_credentials db db1"
  "keeps_credentials db (delete_user_row u db)"
proof -
  show "keeps_credentials db (delete_user_row u db)"
    by (auto simp: keeps_credentials_def delete_user_row_def second_factors_any_def has_totp_def passkey_count_def
        filter_empty_conv)
qed (auto simp: keeps_credentials_def end_sessions_def forget_oidc_groups_def set_roles_def Let_def
    intro!: second_factors_same split: if_splits)

lemma keeps_credentials_user:
  assumes "\<And>x. us_id (f x) = us_id x \<and> us_email (f x) = us_email x \<and> us_password_hash (f x) = us_password_hash x
      \<and> us_oidc_subject (f x) \<in> {None, us_oidc_subject x}"
  shows "keeps_credentials db (update_user u f db)"
proof -
  let ?db = "update_user u f db"
  have "\<exists>x \<in> set (db_users db). us_id x' = us_id x \<and> us_email x' = us_email x
      \<and> us_password_hash x' = us_password_hash x \<and> us_oidc_subject x' \<in> {None, us_oidc_subject x}
      \<and> second_factors_any ?db (us_id x') = second_factors_any db (us_id x)" if x': "x' \<in> set (db_users ?db)" for x'
  proof -
    from x' obtain x where x: "x \<in> set (db_users db)" "x' = (if us_id x = u then f x else x)"
      by (auto simp: update_user_def)
    moreover have "second_factors_any ?db v = second_factors_any db v" for v
      by (rule second_factors_same) (simp_all add: update_user_def)
    ultimately show ?thesis using assms [of x] by (intro bexI [OF _ x(1)]) auto
  qed
  then show ?thesis by (simp add: keeps_credentials_def) (simp add: update_user_def)
qed

lemma keeps_credentials_profile:
  assumes "update_profile a user r now db = Ok (db1, c)"
  shows "keeps_credentials db db1"
proof -
  have "keeps_credentials db0 (update_user (us_id user)
      (\<lambda>u. u\<lparr>us_display_name := g u, us_disabled := h u, us_updated_at := now\<rparr>) db0)" for g h db0
    by (rule keeps_credentials_user) simp
  moreover note keeps_credentials_trans [OF keeps_credentials_steps(1)]
  ultimately show ?thesis
    using assms by (fastforce simp: update_profile_def and_then_ok_iff Let_def split: if_splits)
qed

lemma update_user_credentials:
  assumes "api_update_user a u r now db = Ok db'"
  shows "keeps_credentials db db'"
proof -
  from assms obtain user db1 c db2 where steps: "update_profile a user r now db = Ok (db1, c)"
      "(case uu_role_ids r of None \<Rightarrow> Ok db1
        | Some role_ids \<Rightarrow> and_then (grantable_roles a role_ids db1) (\<lambda>roles.
            set_roles (us_id user) (map ro_id roles) db1)) = Ok db2"
      "keeps_credentials db2 db'"
    by (auto simp: api_update_user_def and_then_ok_iff split: if_splits)
  have "keeps_credentials db1 db2"
    using steps(2) by (cases "uu_role_ids r") (auto simp: and_then_ok_iff keeps_credentials_steps)
  then show ?thesis
    using keeps_credentials_profile [OF steps(1)] steps(3) by (blast intro: keeps_credentials_trans)
qed

lemma keeps_credentials_fields:
  "db_sessions db' = db_sessions db \<Longrightarrow> db_resets db' = db_resets db \<Longrightarrow> db_passkeys db' = db_passkeys db \<Longrightarrow>
   db_recovery_codes db' = db_recovery_codes db \<Longrightarrow> db_totp db' = db_totp db \<Longrightarrow> db_users db' = db_users db \<Longrightarrow>
   set (db_api_tokens db') \<subseteq> set (db_api_tokens db) \<Longrightarrow> keeps_credentials db db'"
  by (auto simp: keeps_credentials_def intro!: second_factors_same)

lemma user_requests_credentials:
  "api_delete_user a u db = Ok db' \<Longrightarrow> keeps_credentials db db'"
  "api_sign_out a u db = Ok db' \<Longrightarrow> keeps_credentials db db'"
  "api_unlink_sso a u db = Ok db' \<Longrightarrow> keeps_credentials db db'"
  by (auto simp: api_delete_user_def api_sign_out_def api_unlink_sso_def and_then_ok_iff Let_def keeps_credentials_steps
      intro!: keeps_credentials_trans [OF keeps_credentials_user keeps_credentials_steps(2)])

lemma role_requests_credentials:
  "create_role lower a r i now db = Ok db' \<Longrightarrow> keeps_credentials db db'"
  "update_role lower a i ru now db = Ok db' \<Longrightarrow> keeps_credentials db db'"
  "delete_role a i db = Ok db' \<Longrightarrow> keeps_credentials db db'"
  by (auto simp: create_role_def update_role_def delete_role_def insert_role_def update_role_row_def
      set_permissions_def delete_role_row_def audit_record_def and_then_ok_iff Let_def intro!: keeps_credentials_fields
      split: if_splits option.splits)

lemma invitation_requests_credentials:
  "create_invitation hash lower a email rs i token now db = Ok db' \<Longrightarrow> keeps_credentials db db'"
  "revoke_invitation a i now db = Ok db' \<Longrightarrow> keeps_credentials db db'"
  "renew_invitation hash a i token now db = Ok db' \<Longrightarrow> keeps_credentials db db'"
  by (auto simp: create_invitation_def insert_invitation_def revoke_invitation_def renew_invitation_def
      update_invitation_def audit_record_def and_then_ok_iff Let_def intro!: keeps_credentials_fields split: if_splits option.splits)

lemma token_requests_credentials:
  "create_api_token hash a r i secret now db = Ok db' \<Longrightarrow> au_api_token a = None"
  "revoke_api_token a i db = Ok db' \<Longrightarrow> keeps_credentials db db'"
  by (auto simp: create_api_token_def revoke_api_token_def audit_record_def and_then_ok_iff require_website_def
      intro!: keeps_credentials_fields split: if_splits option.splits)


text \<open>An API token unlinks users from single sign-on, which changes how they sign in.\<close>

definition witness_token :: authorized where
  "witness_token = witness_help_desk\<lparr>au_api_token := Some ([20], [21])\<rparr>"

definition witness_linked_db :: access_db where
  "witness_linked_db =
     witness_access_db\<lparr>db_users := [witness_account [10] [97, 64, 98], (witness_account [11] [99, 64, 98])\<lparr>us_oidc_subject := Some [30]\<rparr>]\<rparr>"

definition witness_unlinked :: access_db where
  "witness_unlinked = kept witness_linked_db (apply_request witness_access_env witness_token (Unlink_Sso [11]) witness_linked_db)"

lemma token_unlinks_sso:
  "apply_request witness_access_env witness_token (Unlink_Sso [11]) witness_linked_db = Ok witness_unlinked
   \<and> map us_oidc_subject (db_users witness_linked_db) = [None, Some [30]]
   \<and> map us_oidc_subject (db_users witness_unlinked) = [None, None]"
  by code_simp


end
