(* ===== verification/Jobs.thy ===== *)
theory Jobs
  imports Alert_Engine Terminal_Agent Roles
begin

text \<open>
  Jobs: a script, a file, an update scan, an update install or a wake on many devices, and how far it has got on
  each (\<open>server/src/automation/jobs.rs\<close>), with the rows of runs and deliveries its outcomes come from
  (\<open>server/src/toolbox.rs\<close>, \<open>server/src/updates/runs.rs\<close>). A column whose values the schema restricts is the
  datatype of those values. Random IDs are arguments, \<open>str::to_lowercase\<close> is the parameter \<open>lower\<close>, and times are
  Unix milliseconds without overflow.
\<close>

section \<open>What a job sends\<close>

datatype job_kind = Script_Kind | File_Kind | Update_Scan_Kind | Update_Install_Kind | Wake_Kind

definition job_kind_as_str :: "job_kind \<Rightarrow> rust_string" where
  "job_kind_as_str k =
     (case k of Script_Kind \<Rightarrow> lit ''script'' | File_Kind \<Rightarrow> lit ''file'' | Update_Scan_Kind \<Rightarrow> lit ''update_scan''
      | Update_Install_Kind \<Rightarrow> lit ''update_install'' | Wake_Kind \<Rightarrow> lit ''wake'')"

definition job_kind_parse :: "rust_string \<Rightarrow> job_kind option" where
  "job_kind_parse text =
     (if text = lit ''script'' then Some Script_Kind
      else if text = lit ''file'' then Some File_Kind
      else if text = lit ''update_scan'' then Some Update_Scan_Kind
      else if text = lit ''update_install'' then Some Update_Install_Kind
      else if text = lit ''wake'' then Some Wake_Kind
      else None)"

datatype offline = Offline_Skip | Offline_Wait

definition offline_as_str :: "offline \<Rightarrow> rust_string" where
  "offline_as_str x = (case x of Offline_Skip \<Rightarrow> lit ''skip'' | Offline_Wait \<Rightarrow> lit ''wait'')"

definition offline_parse :: "rust_string \<Rightarrow> offline option" where
  "offline_parse text =
     (if text = lit ''skip'' then Some Offline_Skip else if text = lit ''wait'' then Some Offline_Wait else None)"

datatype script_language = Powershell | Cmd | Shell

definition language_label :: "script_language \<Rightarrow> rust_string" where
  "language_label l =
     (case l of Powershell \<Rightarrow> lit ''PowerShell'' | Cmd \<Rightarrow> lit ''Command Prompt'' | Shell \<Rightarrow> lit ''Shell (zsh/bash)'')"

definition language_runs_on :: "script_language \<Rightarrow> device_platform \<Rightarrow> bool" where
  "language_runs_on l p = (case l of Powershell \<Rightarrow> p = Windows | Cmd \<Rightarrow> p = Windows | Shell \<Rightarrow> p \<noteq> Windows)"

datatype delivery_destination = To_User | To_Public

datatype reboot_behavior = Reboot_Never | Reboot_If_Required | Reboot_Always

datatype job_payload =
    Payload_Script (py_script_id: rust_string) (py_script_name: rust_string) (py_language: script_language)
      (py_body: rust_string) (py_timeout_seconds: int) (py_run_as: run_as)
  | Payload_File (py_file_id: rust_string) (py_file_name: rust_string) (py_destination: delivery_destination)
  | Payload_Update_Scan
  | Payload_Update_Install (py_categories: "update_category list") (py_reboot: reboot_behavior)
      (py_reboot_delay_minutes: u32)
  | Payload_Wake

definition payload_kind :: "job_payload \<Rightarrow> job_kind" where
  "payload_kind p =
     (case p of Payload_Script _ _ _ _ _ _ \<Rightarrow> Script_Kind | Payload_File _ _ _ \<Rightarrow> File_Kind
      | Payload_Update_Scan \<Rightarrow> Update_Scan_Kind | Payload_Update_Install _ _ _ \<Rightarrow> Update_Install_Kind
      | Payload_Wake \<Rightarrow> Wake_Kind)"

text \<open>What an install installs, in words.\<close>

fun join_names :: "rust_string \<Rightarrow> rust_string list \<Rightarrow> rust_string" where
  "join_names sep [] = []"
| "join_names sep [n] = n"
| "join_names sep (n # ns) = n @ sep @ join_names sep ns"

definition install_describe ::
  "(rust_string \<Rightarrow> rust_string) \<Rightarrow> rust_string list \<Rightarrow> update_category list \<Rightarrow> rust_string" where
  "install_describe lower update_ids cats =
     (if update_ids \<noteq> [] then
        if length update_ids = 1 then lit ''1 chosen update''
        else show_dec (length update_ids) @ lit '' chosen updates''
      else if cats = [] then lit ''all updates''
      else
        let names = map (\<lambda>c. lower (category_label c)) cats;
            listed = (if length names = 1 then hd names
                      else join_names (lit '', '') (butlast names) @ lit '' and '' @ last names) in
        listed @ lit '' updates'')"

definition payload_item :: "(rust_string \<Rightarrow> rust_string) \<Rightarrow> job_payload \<Rightarrow> rust_string \<times> rust_string" where
  "payload_item lower p =
     (case p of
        Payload_Script i name _ _ _ _ \<Rightarrow> (i, name)
      | Payload_File i name _ \<Rightarrow> (i, name)
      | Payload_Update_Scan \<Rightarrow> ([], lit ''Scan for updates'')
      | Payload_Wake \<Rightarrow> ([], lit ''Wake devices'')
      | Payload_Update_Install cats _ _ \<Rightarrow> ([], lit ''Install '' @ install_describe lower [] cats))"

definition unsupported_on :: "job_payload \<Rightarrow> device_platform option \<Rightarrow> bool \<Rightarrow> rust_string option" where
  "unsupported_on p platform updates_supported =
     (case (p, platform) of
        (Payload_Script _ _ l _ _ _, Some pf) \<Rightarrow>
          if \<not> language_runs_on l pf then Some (platform_label pf @ lit '' has no '' @ language_label l @ lit '' interpreter'')
          else None
      | (Payload_Update_Scan, _) \<Rightarrow>
          if \<not> updates_supported
          then Some (lit ''The device has no update service or package manager MeshRMM supports'') else None
      | (Payload_Update_Install _ _ _, _) \<Rightarrow>
          if \<not> updates_supported
          then Some (lit ''The device has no update service or package manager MeshRMM supports'') else None
      | _ \<Rightarrow> None)"

section \<open>Outcomes\<close>

datatype job_device_state = Queued | Waiting | Started | Skipped | Missed | Cancelled

definition job_device_state_as_str :: "job_device_state \<Rightarrow> rust_string" where
  "job_device_state_as_str s =
     (case s of Queued \<Rightarrow> lit ''queued'' | Waiting \<Rightarrow> lit ''waiting'' | Started \<Rightarrow> lit ''started''
      | Skipped \<Rightarrow> lit ''skipped'' | Missed \<Rightarrow> lit ''missed'' | Cancelled \<Rightarrow> lit ''cancelled'')"

definition job_device_state_parse :: "rust_string \<Rightarrow> job_device_state option" where
  "job_device_state_parse text =
     (if text = lit ''queued'' then Some Queued
      else if text = lit ''waiting'' then Some Waiting
      else if text = lit ''started'' then Some Started
      else if text = lit ''skipped'' then Some Skipped
      else if text = lit ''missed'' then Some Missed
      else if text = lit ''cancelled'' then Some Cancelled
      else None)"

datatype job_outcome =
    Outcome_Queued | Outcome_Waiting | Outcome_Running | Outcome_Succeeded | Outcome_Failed | Outcome_Timed_Out
  | Outcome_No_Result | Outcome_Skipped | Outcome_Missed | Outcome_Cancelled

definition outcome_active :: "job_outcome \<Rightarrow> bool" where
  "outcome_active x \<longleftrightarrow> x = Outcome_Queued \<or> x = Outcome_Waiting \<or> x = Outcome_Running"

definition outcome_failure :: "job_outcome \<Rightarrow> bool" where
  "outcome_failure x \<longleftrightarrow> x = Outcome_Failed \<or> x = Outcome_Timed_Out \<or> x = Outcome_No_Result"

definition device_outcome :: "job_device_state \<Rightarrow> rust_string option \<Rightarrow> bool \<Rightarrow> bool \<Rightarrow> job_outcome" where
  "device_outcome state status succeeded overdue =
     (case state of
        Queued \<Rightarrow> Outcome_Queued
      | Waiting \<Rightarrow> Outcome_Waiting
      | Skipped \<Rightarrow> Outcome_Skipped
      | Missed \<Rightarrow> Outcome_Missed
      | Cancelled \<Rightarrow> Outcome_Cancelled
      | Started \<Rightarrow>
          if status = Some (lit ''pending'') then if overdue then Outcome_No_Result else Outcome_Running
          else if status \<in> Some ` {lit ''completed'', lit ''delivered'', lit ''succeeded''} \<and> succeeded
          then Outcome_Succeeded
          else if status \<in> Some ` {lit ''completed'', lit ''failed'', lit ''partial''} then Outcome_Failed
          else if status = Some (lit ''timed_out'') then Outcome_Timed_Out
          else Outcome_No_Result)"

record job_counts =
  ct_total :: int
  ct_queued :: int
  ct_waiting :: int
  ct_running :: int
  ct_succeeded :: int
  ct_failed :: int
  ct_timed_out :: int
  ct_no_result :: int
  ct_skipped :: int
  ct_missed :: int
  ct_cancelled :: int

definition Counts_default :: job_counts where
  "Counts_default =
     \<lparr>ct_total = 0, ct_queued = 0, ct_waiting = 0, ct_running = 0, ct_succeeded = 0, ct_failed = 0,
      ct_timed_out = 0, ct_no_result = 0, ct_skipped = 0, ct_missed = 0, ct_cancelled = 0\<rparr>"

definition counts_add :: "job_outcome \<Rightarrow> int \<Rightarrow> job_counts \<Rightarrow> job_counts" where
  "counts_add x n c =
     (let c = c\<lparr>ct_total := ct_total c + n\<rparr> in
      case x of
        Outcome_Queued \<Rightarrow> c\<lparr>ct_queued := ct_queued c + n\<rparr>
      | Outcome_Waiting \<Rightarrow> c\<lparr>ct_waiting := ct_waiting c + n\<rparr>
      | Outcome_Running \<Rightarrow> c\<lparr>ct_running := ct_running c + n\<rparr>
      | Outcome_Succeeded \<Rightarrow> c\<lparr>ct_succeeded := ct_succeeded c + n\<rparr>
      | Outcome_Failed \<Rightarrow> c\<lparr>ct_failed := ct_failed c + n\<rparr>
      | Outcome_Timed_Out \<Rightarrow> c\<lparr>ct_timed_out := ct_timed_out c + n\<rparr>
      | Outcome_No_Result \<Rightarrow> c\<lparr>ct_no_result := ct_no_result c + n\<rparr>
      | Outcome_Skipped \<Rightarrow> c\<lparr>ct_skipped := ct_skipped c + n\<rparr>
      | Outcome_Missed \<Rightarrow> c\<lparr>ct_missed := ct_missed c + n\<rparr>
      | Outcome_Cancelled \<Rightarrow> c\<lparr>ct_cancelled := ct_cancelled c + n\<rparr>)"

definition counts_active :: "job_counts \<Rightarrow> int" where
  "counts_active c = ct_queued c + ct_waiting c + ct_running c"

definition counts_failures :: "job_counts \<Rightarrow> int" where
  "counts_failures c = ct_failed c + ct_timed_out c + ct_no_result c"

section \<open>Tables\<close>

record job_row =
  jb_id :: rust_string
  jb_kind :: job_kind
  jb_item_id :: rust_string
  jb_item_name :: rust_string
  jb_language :: "script_language option"
  jb_body :: "rust_string option"
  jb_timeout_seconds :: "int option"
  jb_run_as :: "run_as option"
  jb_destination :: "delivery_destination option"
  jb_update_categories :: "rust_string option"
  jb_reboot :: "reboot_behavior option"
  jb_reboot_delay_minutes :: "int option"
  jb_target :: target_kind
  jb_offline :: offline
  jb_expires_at :: int
  jb_requested_by :: rust_string
  jb_policy :: "(rust_string \<times> rust_string) option"
  jb_created_at :: int
  jb_finished_at :: "int option"

record job_device =
  jd_job :: rust_string
  jd_device :: rust_string
  jd_state :: job_device_state
  jd_detail :: "rust_string option"
  jd_updated_at :: int

record script_run =
  sr_id :: rust_string
  sr_device :: rust_string
  sr_job :: "rust_string option"
  sr_timeout_seconds :: int
  sr_status :: run_status
  sr_exit_code :: "int option"
  sr_created_at :: int

datatype delivery_status = Delivery_Pending | Delivery_Delivered | Delivery_Failed

record file_delivery =
  fd_id :: rust_string
  fd_device :: rust_string
  fd_job :: "rust_string option"
  fd_status :: delivery_status
  fd_error :: "rust_string option"
  fd_created_at :: int

datatype update_kind = Update_Scan | Update_Install

datatype update_status = Update_Pending | Update_Succeeded | Update_Partial | Update_Failed | Update_Lost

record update_run =
  ur_id :: rust_string
  ur_device :: rust_string
  ur_kind :: update_kind
  ur_job :: "rust_string option"
  ur_status :: update_status
  ur_created_at :: int

datatype wake_status = Wake_Sending | Wake_Sent | Wake_Failed | Wake_No_Relay

record wake_request =
  wr_id :: rust_string
  wr_device :: rust_string
  wr_job :: "rust_string option"
  wr_status :: wake_status
  wr_created_at :: int
  wr_online_at :: "int option"

record enrolled_agent =
  ag_id :: rust_string
  ag_name :: rust_string
  ag_platform :: string
  ag_company_id :: "rust_string option"
  ag_tag_ids :: "rust_string list"
  ag_deletion_requested_at :: "int option"
  ag_updates_supported :: "bool option"

record toolbox_file =
  tf_id :: rust_string
  tf_name :: rust_string
  tf_size_bytes :: int
  tf_sha256 :: rust_string

record jobs_db =
  jt_jobs :: "job_row list"
  jt_devices :: "job_device list"
  jt_runs :: "script_run list"
  jt_deliveries :: "file_delivery list"
  jt_updates :: "update_run list"
  jt_wakes :: "wake_request list"
  jt_agents :: "enrolled_agent list"
  jt_files :: "toolbox_file list"

section \<open>Creating a job\<close>

definition MAX_WAIT_HOURS :: int where
  "MAX_WAIT_HOURS = 7 * 24"

definition JOB_HOUR_MS :: int where
  "JOB_HOUR_MS = 60 * TIME_MINUTE_MS"

record new_job =
  nj_payload :: job_payload
  nj_target :: target
  nj_offline :: offline
  nj_wait_ms :: int
  nj_requested_by :: rust_string
  nj_policy :: "(rust_string \<times> rust_string) option"

text \<open>The rows a target's condition selects. A device has each of its tags once.\<close>

definition tagged :: "rust_string list \<Rightarrow> tag_match \<Rightarrow> enrolled_agent \<Rightarrow> bool" where
  "tagged ids m a =
     (let found = filter (\<lambda>g. g \<in> set ids) (ag_tag_ids a) in
      found \<noteq> [] \<and> (m = Match_All \<longrightarrow> length found = length ids))"

definition target_condition :: "target \<Rightarrow> enrolled_agent \<Rightarrow> bool" where
  "target_condition t a =
     (case t of
        All_Devices \<Rightarrow> True
      | Devices ids \<Rightarrow> ag_id a \<in> set ids
      | Companies ids \<Rightarrow> (case ag_company_id a of None \<Rightarrow> False | Some c \<Rightarrow> c \<in> set ids)
      | Tags ids m \<Rightarrow> tagged ids m a)"

definition agent_active :: "enrolled_agent \<Rightarrow> bool" where
  "agent_active a \<longleftrightarrow> ag_deletion_requested_at a = None"

definition resolve_devices :: "(rust_string \<Rightarrow> rust_string) \<Rightarrow> target \<Rightarrow> enrolled_agent list \<Rightarrow> enrolled_agent list" where
  "resolve_devices lower t agents =
     (let rows = (case t of
                    Devices ids \<Rightarrow>
                      concat (map (\<lambda>chunk. filter (\<lambda>a. agent_active a \<and> ag_id a \<in> set chunk) agents) (chunks 500 ids))
                  | _ \<Rightarrow> filter (\<lambda>a. agent_active a \<and> target_condition t a) agents) in
      sort_key (\<lambda>a. lower (ag_name a)) (sort_key ag_id rows))"

definition initial_state :: "new_job \<Rightarrow> enrolled_agent \<Rightarrow> rust_string set \<Rightarrow> job_device_state \<times> rust_string option" where
  "initial_state job a online =
     (if nj_payload job = Payload_Wake then
        if ag_id a \<in> online then (Skipped, Some (lit ''The device is online already'')) else (Queued, None)
      else
        case unsupported_on (nj_payload job) (platform_parse (ag_platform a))
               (case ag_updates_supported a of None \<Rightarrow> True | Some s \<Rightarrow> s) of
          Some reason \<Rightarrow> (Skipped, Some reason)
        | None \<Rightarrow>
            if ag_id a \<in> online then (Queued, None)
            else if nj_offline job = Offline_Wait then (Waiting, None)
            else (Missed, Some (lit ''The device was offline'')))"

definition categories_text :: "update_category list \<Rightarrow> rust_string option" where
  "categories_text cats = (if cats = [] then None else Some (join_with 44 (map category_as_str cats)))"

definition new_job_row :: "(rust_string \<Rightarrow> rust_string) \<Rightarrow> new_job \<Rightarrow> rust_string \<Rightarrow> int \<Rightarrow> job_row" where
  "new_job_row lower job job_id now =
     (let offline = (if nj_payload job = Payload_Wake then Offline_Skip else nj_offline job);
          wait_ms = (if offline = Offline_Wait
                     then max JOB_HOUR_MS (min (MAX_WAIT_HOURS * JOB_HOUR_MS) (nj_wait_ms job)) else 0);
          item = payload_item lower (nj_payload job);
          p = nj_payload job in
      \<lparr>jb_id = job_id, jb_kind = payload_kind p, jb_item_id = fst item, jb_item_name = snd item,
       jb_language = (case p of Payload_Script _ _ l _ _ _ \<Rightarrow> Some l | _ \<Rightarrow> None),
       jb_body = (case p of Payload_Script _ _ _ b _ _ \<Rightarrow> Some b | _ \<Rightarrow> None),
       jb_timeout_seconds = (case p of Payload_Script _ _ _ _ s _ \<Rightarrow> Some s | _ \<Rightarrow> None),
       jb_run_as = (case p of Payload_Script _ _ _ _ _ r \<Rightarrow> Some r | _ \<Rightarrow> None),
       jb_destination = (case p of Payload_File _ _ d \<Rightarrow> Some d | _ \<Rightarrow> None),
       jb_update_categories = (case p of Payload_Update_Install cs _ _ \<Rightarrow> categories_text cs | _ \<Rightarrow> None),
       jb_reboot = (case p of Payload_Update_Install _ r _ \<Rightarrow> Some r | _ \<Rightarrow> None),
       jb_reboot_delay_minutes = (case p of Payload_Update_Install _ _ m \<Rightarrow> Some (uint m) | _ \<Rightarrow> None),
       jb_target = target_kind_of (nj_target job), jb_offline = offline, jb_expires_at = now + wait_ms,
       jb_requested_by = nj_requested_by job, jb_policy = nj_policy job, jb_created_at = now,
       jb_finished_at = None\<rparr>)"

datatype create_error = No_Devices | Job_Database_Error

text \<open>The job's row and those of its devices. The name of the target and the record in the audit log are left out.\<close>

definition create_job ::
  "(rust_string \<Rightarrow> rust_string) \<Rightarrow> new_job \<Rightarrow> rust_string set \<Rightarrow> rust_string \<Rightarrow> int \<Rightarrow> jobs_db
   \<Rightarrow> create_error + jobs_db" where
  "create_job lower job online job_id now db =
     (let devices = resolve_devices lower (nj_target job) (jt_agents db) in
      if devices = [] then Err No_Devices
      else if job_id \<in> jb_id ` set (jt_jobs db) \<or> \<not> distinct (map ag_id devices) then Err Job_Database_Error
      else
        Ok (db\<lparr>jt_jobs := jt_jobs db @ [new_job_row lower job job_id now],
              jt_devices := jt_devices db @
                map (\<lambda>a. case initial_state job a online of
                           (s, d) \<Rightarrow> \<lparr>jd_job = job_id, jd_device = ag_id a, jd_state = s, jd_detail = d,
                                      jd_updated_at = now\<rparr>) devices\<rparr>))"

text \<open>Cancels what the job has not started.\<close>

definition set_devices :: "(job_device \<Rightarrow> bool) \<Rightarrow> (job_device \<Rightarrow> job_device) \<Rightarrow> jobs_db \<Rightarrow> jobs_db" where
  "set_devices P f db = db\<lparr>jt_devices := map (\<lambda>d. if P d then f d else d) (jt_devices db)\<rparr>"

definition cancel_job :: "rust_string \<Rightarrow> int \<Rightarrow> jobs_db \<Rightarrow> jobs_db" where
  "cancel_job job_id now =
     set_devices (\<lambda>d. jd_job d = job_id \<and> jd_state d \<in> {Queued, Waiting})
       (\<lambda>d. d\<lparr>jd_state := Cancelled, jd_updated_at := now\<rparr>)"

section \<open>Counting\<close>

definition RUN_REPORT_GRACE_MS :: int where
  "RUN_REPORT_GRACE_MS = 2 * TIME_MINUTE_MS"

definition DELIVERY_WINDOW_MS :: int where
  "DELIVERY_WINDOW_MS = 30 * TIME_MINUTE_MS"

definition SCAN_REPORT_WINDOW_MS :: int where
  "SCAN_REPORT_WINDOW_MS = 30 * 60 * SECOND_MS + 15 * TIME_MINUTE_MS"

definition INSTALL_REPORT_WINDOW_MS :: int where
  "INSTALL_REPORT_WINDOW_MS = 4 * 60 * 60 * SECOND_MS + 60 * TIME_MINUTE_MS"

definition ONLINE_WINDOW_MS :: int where
  "ONLINE_WINDOW_MS = 10 * TIME_MINUTE_MS"

definition run_deadline :: "script_run \<Rightarrow> int" where
  "run_deadline r = sr_created_at r + sr_timeout_seconds r * SECOND_MS + RUN_REPORT_GRACE_MS"

definition delivery_deadline :: "file_delivery \<Rightarrow> int" where
  "delivery_deadline d = fd_created_at d + DELIVERY_WINDOW_MS"

definition update_deadline :: "update_run \<Rightarrow> int" where
  "update_deadline u =
     ur_created_at u + (case ur_kind u of Update_Scan \<Rightarrow> SCAN_REPORT_WINDOW_MS | Update_Install \<Rightarrow> INSTALL_REPORT_WINDOW_MS)"

definition wake_deadline :: "wake_request \<Rightarrow> int" where
  "wake_deadline w = wr_created_at w + ONLINE_WINDOW_MS"

definition run_status_as_str :: "run_status \<Rightarrow> rust_string" where
  "run_status_as_str s =
     (case s of Run_Pending \<Rightarrow> lit ''pending'' | Run_Completed \<Rightarrow> lit ''completed'' | Run_Failed \<Rightarrow> lit ''failed''
      | Run_TimedOut \<Rightarrow> lit ''timed_out'' | Run_Lost \<Rightarrow> lit ''lost'')"

definition delivery_status_as_str :: "delivery_status \<Rightarrow> rust_string" where
  "delivery_status_as_str s =
     (case s of Delivery_Pending \<Rightarrow> lit ''pending'' | Delivery_Delivered \<Rightarrow> lit ''delivered''
      | Delivery_Failed \<Rightarrow> lit ''failed'')"

definition update_status_as_str :: "update_status \<Rightarrow> rust_string" where
  "update_status_as_str s =
     (case s of Update_Pending \<Rightarrow> lit ''pending'' | Update_Succeeded \<Rightarrow> lit ''succeeded''
      | Update_Partial \<Rightarrow> lit ''partial'' | Update_Failed \<Rightarrow> lit ''failed'' | Update_Lost \<Rightarrow> lit ''lost'')"

text \<open>
  A row of the join of a job's device with its run, delivery, update run and wake request, where a \<open>LEFT JOIN\<close>
  with no match gives \<open>NULL\<close> and one with several matches several rows.
\<close>

type_synonym joined = "script_run option \<times> file_delivery option \<times> update_run option \<times> wake_request option"

definition left_join :: "('a \<Rightarrow> bool) \<Rightarrow> 'a list \<Rightarrow> 'a option list" where
  "left_join P xs = (let found = filter P xs in if found = [] then [None] else map Some found)"

definition joined_rows :: "jobs_db \<Rightarrow> job_device \<Rightarrow> joined list" where
  "joined_rows db d =
     List.product (left_join (\<lambda>r. sr_job r = Some (jd_job d) \<and> sr_device r = jd_device d) (jt_runs db))
       (List.product (left_join (\<lambda>f. fd_job f = Some (jd_job d) \<and> fd_device f = jd_device d) (jt_deliveries db))
         (List.product (left_join (\<lambda>u. ur_job u = Some (jd_job d) \<and> ur_device u = jd_device d) (jt_updates db))
           (left_join (\<lambda>w. wr_job w = Some (jd_job d) \<and> wr_device w = jd_device d) (jt_wakes db))))"

fun joined_status :: "joined \<Rightarrow> rust_string option" where
  "joined_status (Some r, _, _, _) = Some (run_status_as_str (sr_status r))"
| "joined_status (None, Some f, _, _) = Some (delivery_status_as_str (fd_status f))"
| "joined_status (None, None, Some u, _) = Some (update_status_as_str (ur_status u))"
| "joined_status (None, None, None, None) = None"
| "joined_status (None, None, None, Some w) =
     (if wr_online_at w \<noteq> None then Some (lit ''succeeded'')
      else if wr_status w \<in> {Wake_Sending, Wake_Sent} then Some (lit ''pending'')
      else Some (lit ''failed''))"

definition joined_succeeded :: "joined \<Rightarrow> bool" where
  "joined_succeeded j \<longleftrightarrow>
     (case j of (r, f, u, w) \<Rightarrow>
        (case r of Some r \<Rightarrow> sr_status r = Run_Completed \<and> sr_exit_code r = Some 0 | None \<Rightarrow> False)
        \<or> (case f of Some f \<Rightarrow> fd_status f = Delivery_Delivered | None \<Rightarrow> False)
        \<or> (case u of Some u \<Rightarrow> ur_status u = Update_Succeeded | None \<Rightarrow> False)
        \<or> (case w of Some w \<Rightarrow> wr_online_at w \<noteq> None | None \<Rightarrow> False))"

definition joined_overdue :: "int \<Rightarrow> joined \<Rightarrow> bool" where
  "joined_overdue now j \<longleftrightarrow>
     (case j of (r, f, u, w) \<Rightarrow>
        (case r of Some r \<Rightarrow> sr_status r = Run_Pending \<and> run_deadline r < now | None \<Rightarrow> False)
        \<or> (case f of Some f \<Rightarrow> fd_status f = Delivery_Pending \<and> delivery_deadline f < now | None \<Rightarrow> False)
        \<or> (case u of Some u \<Rightarrow> ur_status u = Update_Pending \<and> update_deadline u < now | None \<Rightarrow> False)
        \<or> (case w of Some w \<Rightarrow> wr_online_at w = None \<and> wr_status w \<in> {Wake_Sending, Wake_Sent} \<and> wake_deadline w < now
           | None \<Rightarrow> False))"

text \<open>The rows of a chunk of jobs, grouped, and each group added to its job's counts.\<close>

type_synonym count_row = "rust_string \<times> job_device_state \<times> rust_string option \<times> bool \<times> bool"

definition count_rows :: "int \<Rightarrow> jobs_db \<Rightarrow> rust_string list \<Rightarrow> count_row list" where
  "count_rows now db ids =
     concat (map (\<lambda>d. map (\<lambda>j. (jd_job d, jd_state d, joined_status j, joined_succeeded j, joined_overdue now j))
                        (joined_rows db d))
               (filter (\<lambda>d. jd_job d \<in> set ids) (jt_devices db)))"

definition grouped_rows :: "count_row list \<Rightarrow> (count_row \<times> int) list" where
  "grouped_rows rows = map (\<lambda>k. (k, int (count_list rows k))) (remdups rows)"

definition count_row_outcome :: "count_row \<Rightarrow> job_outcome" where
  "count_row_outcome k = (case k of (_, state, status, succeeded, overdue) \<Rightarrow> device_outcome state status succeeded overdue)"

definition add_row :: "count_row \<times> int \<Rightarrow> (rust_string \<rightharpoonup> job_counts) \<Rightarrow> rust_string \<rightharpoonup> job_counts" where
  "add_row row m =
     (case row of (k, n) \<Rightarrow>
        m(fst k \<mapsto> counts_add (count_row_outcome k) n (case m (fst k) of None \<Rightarrow> Counts_default | Some c \<Rightarrow> c)))"

definition counts :: "jobs_db \<Rightarrow> rust_string list \<Rightarrow> int \<Rightarrow> rust_string \<rightharpoonup> job_counts" where
  "counts db ids now =
     fold (\<lambda>chunk m. fold add_row (grouped_rows (count_rows now db chunk)) m) (chunks 200 ids) Map.empty"

definition job_counts_of :: "jobs_db \<Rightarrow> rust_string list \<Rightarrow> int \<Rightarrow> rust_string \<Rightarrow> job_counts" where
  "job_counts_of db ids now j = (case counts db ids now j of None \<Rightarrow> Counts_default | Some c \<Rightarrow> c)"

end
