(* ===== verification/Dispatch.thy ===== *)
theory Dispatch
  imports Jobs "HOL-Library.Multiset"
begin

text \<open>
  Starting jobs on their devices (\<open>server/src/automation/dispatch.rs\<close>) and finishing them
  (\<open>server/src/automation/mod.rs\<close>), with what the Agents report meanwhile (\<open>server/src/api/agent.rs\<close>,
  \<open>server/src/updates/runs.rs\<close>, \<open>server/src/wake/mod.rs\<close>). Each statement or transaction on the database is one step;
  the reads a pass begins with see one state of the database, as do the checks of a device and the transaction
  that starts it. Whether a device is connected, and whether the Agents' hub takes a command, are inputs.
\<close>

section \<open>Waiting and expired devices\<close>

definition DISPATCH_BATCH :: nat where
  "DISPATCH_BATCH = 25"

definition MAX_IN_FLIGHT :: int where
  "MAX_IN_FLIGHT = 500"

definition MAX_PER_DEVICE :: int where
  "MAX_PER_DEVICE = 2"

definition EXPIRED :: rust_string where
  "EXPIRED = lit ''The device didn't connect before the job expired''"

definition DELETED :: rust_string where
  "DELETED = lit ''The device was deleted''"

definition FILE_GONE :: rust_string where
  "FILE_GONE = lit ''The file was deleted from the toolbox before it was sent''"

definition expire_waiting :: "int \<Rightarrow> jobs_db \<Rightarrow> jobs_db" where
  "expire_waiting now db =
     set_devices (\<lambda>d. jd_state d = Waiting
                     \<and> jd_job d \<in> jb_id ` {j \<in> set (jt_jobs db). jb_expires_at j \<le> now \<and> jb_finished_at j = None})
       (\<lambda>d. d\<lparr>jd_state := Missed, jd_detail := Some EXPIRED, jd_updated_at := now\<rparr>) db"

definition expire_deleted :: "int \<Rightarrow> jobs_db \<Rightarrow> jobs_db" where
  "expire_deleted now db =
     set_devices (\<lambda>d. jd_state d \<in> {Waiting, Queued} \<and> jd_device d \<notin> ag_id ` set (filter agent_active (jt_agents db)))
       (\<lambda>d. d\<lparr>jd_state := Missed, jd_detail := Some DELETED, jd_updated_at := now\<rparr>) db"

definition expire_jobs :: "int \<Rightarrow> jobs_db \<Rightarrow> jobs_db" where
  "expire_jobs now db = expire_deleted now (expire_waiting now db)"

definition queue_devices :: "rust_string list \<Rightarrow> int \<Rightarrow> jobs_db \<Rightarrow> jobs_db" where
  "queue_devices devices now =
     set_devices (\<lambda>d. jd_state d = Waiting \<and> jd_device d \<in> set devices)
       (\<lambda>d. d\<lparr>jd_state := Queued, jd_updated_at := now\<rparr>)"

definition queue_connected :: "rust_string set \<Rightarrow> int \<Rightarrow> jobs_db \<Rightarrow> jobs_db" where
  "queue_connected online now db =
     (let waiting = remdups (map jd_device (filter (\<lambda>d. jd_state d = Waiting) (jt_devices db))) in
      fold (\<lambda>chunk. queue_devices chunk now) (chunks 500 (filter (\<lambda>d. d \<in> online) waiting)) db)"

definition device_removed :: "rust_string \<Rightarrow> int \<Rightarrow> jobs_db \<Rightarrow> jobs_db" where
  "device_removed device now =
     set_devices (\<lambda>d. jd_device d = device \<and> jd_state d \<in> {Waiting, Queued})
       (\<lambda>d. d\<lparr>jd_state := Missed, jd_detail := Some DELETED, jd_updated_at := now\<rparr>)"

section \<open>What awaits a report\<close>

definition awaiting_run :: "int \<Rightarrow> script_run \<Rightarrow> bool" where
  "awaiting_run now r \<longleftrightarrow> sr_job r \<noteq> None \<and> sr_status r = Run_Pending \<and> now \<le> run_deadline r"

definition awaiting_delivery :: "int \<Rightarrow> file_delivery \<Rightarrow> bool" where
  "awaiting_delivery now f \<longleftrightarrow> fd_job f \<noteq> None \<and> fd_status f = Delivery_Pending \<and> now - DELIVERY_WINDOW_MS \<le> fd_created_at f"

definition awaiting_update :: "int \<Rightarrow> update_run \<Rightarrow> bool" where
  "awaiting_update now u \<longleftrightarrow> ur_job u \<noteq> None \<and> ur_status u = Update_Pending \<and> now \<le> update_deadline u"

definition device_counts :: "rust_string list \<Rightarrow> (rust_string \<times> int) list" where
  "device_counts ds = map (\<lambda>d. (d, int (count_list ds d))) (remdups ds)"

definition in_flight :: "jobs_db \<Rightarrow> rust_string list \<Rightarrow> int \<Rightarrow> int \<times> (rust_string \<Rightarrow> int)" where
  "in_flight db devices now =
     (let runs = device_counts (map sr_device (filter (awaiting_run now) (jt_runs db)));
          deliveries = device_counts (map fd_device (filter (awaiting_delivery now) (jt_deliveries db)));
          updates = device_counts (map ur_device (filter (awaiting_update now) (jt_updates db))) in
      fold (\<lambda>(d, n) (sum, per_device). (sum + n, if d \<in> set devices then per_device(d := per_device d + n) else per_device))
        (runs @ deliveries @ updates) (0, \<lambda>_. 0))"

section \<open>Starting a device\<close>

definition unqueue :: "job_row \<Rightarrow> rust_string \<Rightarrow> job_device_state \<Rightarrow> int \<Rightarrow> jobs_db \<Rightarrow> jobs_db" where
  "unqueue job device from now =
     (let waits = (jb_offline job = Offline_Wait \<and> now < jb_expires_at job) in
      set_devices (\<lambda>d. jd_job d = jb_id job \<and> jd_device d = device \<and> jd_state d = from)
        (\<lambda>d. d\<lparr>jd_state := (if waits then Waiting else Missed),
               jd_detail := (if waits then None else Some (lit ''The device was offline'')), jd_updated_at := now\<rparr>))"

datatype job_command =
    Run_Script rust_string script_language rust_string run_as nat
  | Deliver_File rust_string rust_string int rust_string delivery_destination
  | Scan_Updates rust_string
  | Install_Updates rust_string "update_category list" reboot_behavior nat

definition parse_categories :: "rust_string option \<Rightarrow> update_category list" where
  "parse_categories text =
     (let found = List.map_filter category_parse (str_split 44 (case text of None \<Rightarrow> [] | Some s \<Rightarrow> s)) in
      filter (\<lambda>c. c \<in> set found) categories)"

definition pending_install :: "jobs_db \<Rightarrow> rust_string \<Rightarrow> bool" where
  "pending_install db device \<longleftrightarrow>
     list_ex (\<lambda>u. ur_device u = device \<and> ur_kind u = Update_Install \<and> ur_status u = Update_Pending) (jt_updates db)"

datatype start_result = Start_Error | Not_Started jobs_db | Claimed jobs_db rust_string "job_command option"

definition insert_run :: "script_run \<Rightarrow> jobs_db \<Rightarrow> jobs_db option" where
  "insert_run r db = (if sr_id r \<in> sr_id ` set (jt_runs db) then None else Some (db\<lparr>jt_runs := jt_runs db @ [r]\<rparr>))"

definition insert_delivery :: "file_delivery \<Rightarrow> jobs_db \<Rightarrow> jobs_db option" where
  "insert_delivery f db =
     (if fd_id f \<in> fd_id ` set (jt_deliveries db) then None else Some (db\<lparr>jt_deliveries := jt_deliveries db @ [f]\<rparr>))"

definition insert_update_run :: "update_run \<Rightarrow> jobs_db \<Rightarrow> jobs_db option" where
  "insert_update_run u db =
     (if ur_id u \<in> ur_id ` set (jt_updates db) then None else Some (db\<lparr>jt_updates := jt_updates db @ [u]\<rparr>))"

definition u32_of_int :: "int \<Rightarrow> nat option" where
  "u32_of_int i = (if 0 \<le> i \<and> i < 2 ^ 32 then Some (nat i) else None)"

text \<open>
  The run of a script, the delivery of a file, or the update run: its row and the command for the Agent. A row of a
  job that is invalid starts nothing.
\<close>

datatype prepared = Prepare_Error | Prepare_Nothing | Prepared jobs_db "job_command option"

definition prepare_script :: "job_row \<Rightarrow> rust_string \<Rightarrow> rust_string \<Rightarrow> int \<Rightarrow> jobs_db \<Rightarrow> prepared" where
  "prepare_script job device i now db =
     (case (jb_language job, jb_body job, jb_timeout_seconds job, jb_run_as job) of
        (Some language, Some body, Some timeout, Some run_as) \<Rightarrow>
          (case insert_run \<lparr>sr_id = i, sr_device = device, sr_job = Some (jb_id job), sr_timeout_seconds = timeout,
                            sr_status = Run_Pending, sr_exit_code = None, sr_created_at = now\<rparr> db of
             None \<Rightarrow> Prepare_Error
           | Some db' \<Rightarrow>
               (case u32_of_int timeout of
                  None \<Rightarrow> Prepare_Error
                | Some secs \<Rightarrow> Prepared db' (Some (Run_Script i language body run_as secs))))
      | _ \<Rightarrow> Prepare_Nothing)"

definition prepare_file :: "job_row \<Rightarrow> rust_string \<Rightarrow> rust_string \<Rightarrow> int \<Rightarrow> jobs_db \<Rightarrow> prepared" where
  "prepare_file job device i now db =
     (case jb_destination job of
        None \<Rightarrow> Prepare_Nothing
      | Some destination \<Rightarrow>
          let found = find (\<lambda>f. tf_id f = jb_item_id job) (jt_files db);
              row = \<lparr>fd_id = i, fd_device = device, fd_job = Some (jb_id job),
                     fd_status = (if found = None then Delivery_Failed else Delivery_Pending),
                     fd_error = (if found = None then Some FILE_GONE else None), fd_created_at = now\<rparr> in
          (case insert_delivery row db of
             None \<Rightarrow> Prepare_Error
           | Some db' \<Rightarrow>
               Prepared db' (map_option (\<lambda>f. Deliver_File i (tf_name f) (max 0 (tf_size_bytes f)) (tf_sha256 f) destination) found)))"

definition prepare_update :: "job_row \<Rightarrow> rust_string \<Rightarrow> rust_string \<Rightarrow> int \<Rightarrow> jobs_db \<Rightarrow> prepared" where
  "prepare_update job device i now db =
     (case (jb_kind job, jb_reboot job) of
        (Update_Install_Kind, None) \<Rightarrow> Prepare_Nothing
      | (kind, reboot) \<Rightarrow>
          (case insert_update_run
                  \<lparr>ur_id = i, ur_device = device,
                   ur_kind = (if kind = Update_Install_Kind then Update_Install else Update_Scan),
                   ur_job = Some (jb_id job), ur_status = Update_Pending, ur_created_at = now\<rparr> db of
             None \<Rightarrow> Prepare_Error
           | Some db' \<Rightarrow>
               Prepared db' (Some (
                 if kind = Update_Install_Kind
                 then Install_Updates i (parse_categories (jb_update_categories job)) (the reboot)
                        (case u32_of_int (case jb_reboot_delay_minutes job of None \<Rightarrow> 5 | Some m \<Rightarrow> m) of
                           None \<Rightarrow> 5 | Some m \<Rightarrow> m)
                 else Scan_Updates i))))"

definition prepare :: "job_row \<Rightarrow> rust_string \<Rightarrow> rust_string \<Rightarrow> int \<Rightarrow> jobs_db \<Rightarrow> prepared" where
  "prepare job device i now db =
     (case jb_kind job of
        Script_Kind \<Rightarrow> prepare_script job device i now db
      | File_Kind \<Rightarrow> prepare_file job device i now db
      | Update_Scan_Kind \<Rightarrow> prepare_update job device i now db
      | Update_Install_Kind \<Rightarrow> prepare_update job device i now db
      | Wake_Kind \<Rightarrow> Prepare_Nothing)"

definition is_queued :: "jobs_db \<Rightarrow> rust_string \<Rightarrow> rust_string \<Rightarrow> bool" where
  "is_queued db j d \<longleftrightarrow> list_ex (\<lambda>x. jd_job x = j \<and> jd_device x = d \<and> jd_state x = Queued) (jt_devices db)"

definition claim_device :: "rust_string \<Rightarrow> rust_string \<Rightarrow> int \<Rightarrow> jobs_db \<Rightarrow> jobs_db" where
  "claim_device j device now =
     set_devices (\<lambda>d. jd_job d = j \<and> jd_device d = device \<and> jd_state d = Queued)
       (\<lambda>d. d\<lparr>jd_state := Started, jd_updated_at := now\<rparr>)"

definition start_claim :: "job_row \<Rightarrow> rust_string \<Rightarrow> bool \<Rightarrow> rust_string \<Rightarrow> int \<Rightarrow> jobs_db \<Rightarrow> start_result" where
  "start_claim job device online i now db =
     (if \<not> online then Not_Started (unqueue job device Queued now db)
      else if jb_kind job = Update_Install_Kind \<and> pending_install db device then Not_Started db
      else
        case prepare job device i now db of
          Prepare_Error \<Rightarrow> Start_Error
        | Prepare_Nothing \<Rightarrow> Not_Started db
        | Prepared db' command \<Rightarrow>
            if is_queued db (jb_id job) device then Claimed (claim_device (jb_id job) device now db') i command
            else Not_Started db)"

text \<open>The Agent went away before it got the command: the run never existed.\<close>

definition discard_run :: "job_kind \<Rightarrow> rust_string \<Rightarrow> jobs_db \<Rightarrow> jobs_db" where
  "discard_run kind i db =
     (case kind of
        Script_Kind \<Rightarrow> db\<lparr>jt_runs := filter (\<lambda>r. \<not> (sr_id r = i \<and> sr_status r = Run_Pending)) (jt_runs db)\<rparr>
      | File_Kind \<Rightarrow>
          db\<lparr>jt_deliveries := filter (\<lambda>f. \<not> (fd_id f = i \<and> fd_status f = Delivery_Pending)) (jt_deliveries db)\<rparr>
      | Wake_Kind \<Rightarrow> db
      | _ \<Rightarrow> db\<lparr>jt_updates := filter (\<lambda>u. \<not> (ur_id u = i \<and> ur_status u = Update_Pending)) (jt_updates db)\<rparr>)"

definition start_refused :: "job_row \<Rightarrow> rust_string \<Rightarrow> rust_string \<Rightarrow> int \<Rightarrow> jobs_db \<Rightarrow> jobs_db" where
  "start_refused job device i now db = unqueue job device Started now (discard_run (jb_kind job) i db)"

section \<open>Wakes\<close>

definition wake_claims ::
  "rust_string \<Rightarrow> rust_string list \<Rightarrow> rust_string set \<Rightarrow> int \<Rightarrow> jobs_db \<Rightarrow> jobs_db \<times> rust_string list" where
  "wake_claims j devices online now db =
     fold (\<lambda>device (db, claimed).
         (set_devices (\<lambda>d. jd_job d = j \<and> jd_device d = device \<and> jd_state d = Queued)
            (if device \<in> online
             then (\<lambda>d. d\<lparr>jd_state := Skipped, jd_detail := Some (lit ''The device is online already''), jd_updated_at := now\<rparr>)
             else (\<lambda>d. d\<lparr>jd_state := Started, jd_detail := None, jd_updated_at := now\<rparr>)) db,
          if is_queued db j device \<and> device \<notin> online then claimed @ [device] else claimed))
       devices (db, [])"

text \<open>
  The requests \<open>wake::start\<close> records for the claimed devices: for each device that is enrolled one, which has
  relays or not.
\<close>

definition wake_rows ::
  "rust_string \<Rightarrow> (rust_string \<rightharpoonup> bool) \<Rightarrow> (rust_string \<Rightarrow> rust_string) \<Rightarrow> int \<Rightarrow> rust_string list \<Rightarrow> wake_request list" where
  "wake_rows j relays new_ids now devices =
     List.map_filter (\<lambda>d. map_option (\<lambda>has. \<lparr>wr_id = new_ids d, wr_device = d, wr_job = Some j,
                                             wr_status = (if has then Wake_Sending else Wake_No_Relay),
                                             wr_created_at = now, wr_online_at = None\<rparr>) (relays d))
       (remdups devices)"

definition wake_insert ::
  "rust_string \<Rightarrow> (rust_string \<rightharpoonup> bool) \<Rightarrow> (rust_string \<Rightarrow> rust_string) \<Rightarrow> int \<Rightarrow> rust_string list \<Rightarrow> jobs_db
   \<Rightarrow> jobs_db option" where
  "wake_insert j relays new_ids now devices db =
     (let rows = wake_rows j relays new_ids now devices in
      if distinct (map wr_id (jt_wakes db @ rows)) then Some (db\<lparr>jt_wakes := jt_wakes db @ rows\<rparr>) else None)"

section \<open>A pass\<close>

record dispatch_pass =
  dp_now :: int
  dp_rows :: "(rust_string \<times> rust_string) list"
  dp_read :: nat
  dp_jobs :: "job_row list"
  dp_total :: int
  dp_per_device :: "rust_string \<Rightarrow> int"
  dp_started :: nat
  dp_held_back :: bool
  dp_full :: bool
  dp_wakes :: "(rust_string \<times> rust_string list) list"

text \<open>The queued devices of jobs in the order the jobs were created.\<close>

definition queued_rows :: "jobs_db \<Rightarrow> (rust_string \<times> rust_string) list" where
  "queued_rows db =
     (let rows = filter (\<lambda>(d, j). jd_state d = Queued \<and> jb_id j = jd_job d) (List.product (jt_devices db) (jt_jobs db)) in
      map (\<lambda>(d, _). (jd_job d, jd_device d))
        (take (DISPATCH_BATCH * 4)
          (sort_key (\<lambda>(d, j). jb_created_at j)
            (sort_key (\<lambda>(d, j). jd_job d) (sort_key (\<lambda>(d, j). jd_device d) rows)))))"

definition begin_dispatch :: "int \<Rightarrow> jobs_db \<Rightarrow> dispatch_pass option" where
  "begin_dispatch now db =
     (let queued = queued_rows db; flight = in_flight db (map snd queued) now in
      if queued = [] then None
      else Some \<lparr>dp_now = now, dp_rows = queued, dp_read = length queued,
                 dp_jobs = filter (\<lambda>j. jb_id j \<in> fst ` set queued) (jt_jobs db), dp_total = fst flight,
                 dp_per_device = snd flight, dp_started = 0, dp_held_back = False, dp_full = False, dp_wakes = []\<rparr>)"

fun wakes_push ::
  "rust_string \<Rightarrow> rust_string \<Rightarrow> (rust_string \<times> rust_string list) list \<Rightarrow> (rust_string \<times> rust_string list) list" where
  "wakes_push j d [] = [(j, [d])]"
| "wakes_push j d ((k, ds) # rest) =
     (if j = k then (k, ds @ [d]) # rest else if j < k then (j, [d]) # (k, ds) # rest else (k, ds) # wakes_push j d rest)"

definition pass_job :: "dispatch_pass \<Rightarrow> rust_string \<Rightarrow> job_row option" where
  "pass_job p j = find (\<lambda>x. jb_id x = j) (dp_jobs p)"

text \<open>One turn of the loop: what becomes of the first queued row, up to the transaction that claims it.\<close>

datatype turn =
    Loop_Over dispatch_pass
  | Turn_Done dispatch_pass jobs_db
  | Turn_Error
  | Turn_Claimed dispatch_pass jobs_db job_row rust_string rust_string "job_command option"

definition dispatch_turn :: "dispatch_pass \<Rightarrow> bool \<Rightarrow> rust_string \<Rightarrow> jobs_db \<Rightarrow> turn" where
  "dispatch_turn p online i db =
     (case dp_rows p of
        [] \<Rightarrow> Loop_Over p
      | (j, device) # rows \<Rightarrow>
          if DISPATCH_BATCH \<le> dp_started p \<or> MAX_IN_FLIGHT \<le> dp_total p
          then Loop_Over (p\<lparr>dp_full := True, dp_rows := []\<rparr>)
          else
            let p' = p\<lparr>dp_rows := rows\<rparr> in
            case pass_job p j of
              None \<Rightarrow> Turn_Done p' db
            | Some job \<Rightarrow>
                if jb_kind job = Wake_Kind
                then Turn_Done (p'\<lparr>dp_wakes := wakes_push j device (dp_wakes p), dp_started := dp_started p + 1\<rparr>) db
                else if MAX_PER_DEVICE \<le> dp_per_device p device then Turn_Done (p'\<lparr>dp_held_back := True\<rparr>) db
                else
                  case start_claim job device online i (dp_now p) db of
                    Start_Error \<Rightarrow> Turn_Error
                  | Not_Started db' \<Rightarrow> Turn_Done p' db'
                  | Claimed db' run_id command \<Rightarrow> Turn_Claimed p' db' job device run_id command)"

definition count_started :: "rust_string \<Rightarrow> dispatch_pass \<Rightarrow> dispatch_pass" where
  "count_started device p =
     p\<lparr>dp_started := dp_started p + 1, dp_total := dp_total p + 1,
       dp_per_device := (dp_per_device p)(device := dp_per_device p device + 1)\<rparr>"

definition pass_busy :: "dispatch_pass \<Rightarrow> bool" where
  "pass_busy p \<longleftrightarrow> dp_full p \<or> DISPATCH_BATCH * 4 \<le> dp_read p \<or> (dp_held_back p \<and> 0 < dp_started p)"

section \<open>Finishing jobs\<close>

definition unfinished :: "jobs_db \<Rightarrow> rust_string list" where
  "unfinished db = map jb_id (filter (\<lambda>j. jb_finished_at j = None) (jt_jobs db))"

text \<open>The jobs with nothing left to do are finished, and jobs whose counts changed are published.\<close>

definition finish_jobs :: "int \<Rightarrow> jobs_db \<Rightarrow> jobs_db" where
  "finish_jobs now db =
     (let ids = unfinished db in
      db\<lparr>jt_jobs := map (\<lambda>j. if jb_finished_at j = None \<and> counts_active (job_counts_of db ids now (jb_id j)) = 0
                             then j\<lparr>jb_finished_at := Some now\<rparr> else j) (jt_jobs db)\<rparr>)"

definition report_jobs ::
  "int \<Rightarrow> jobs_db \<Rightarrow> (rust_string \<rightharpoonup> job_counts)
   \<Rightarrow> jobs_db \<times> (rust_string \<rightharpoonup> job_counts) \<times> (rust_string \<times> job_counts) list" where
  "report_jobs now db published =
     (let ids = unfinished db;
          seen = map (\<lambda>j. (j, job_counts_of db ids now j)) ids;
          news = filter (\<lambda>(j, c). counts_active c = 0 \<or> published j \<noteq> Some c) seen in
      (finish_jobs now db,
       (\<lambda>j. if j \<in> set ids \<and> counts_active (job_counts_of db ids now j) \<noteq> 0 then Some (job_counts_of db ids now j) else None),
       news))"

section \<open>Reports\<close>

definition report_script_run :: "rust_string \<Rightarrow> rust_string \<Rightarrow> run_status \<Rightarrow> int option \<Rightarrow> jobs_db \<Rightarrow> jobs_db" where
  "report_script_run device i status exit_code db =
     (if status \<in> {Run_Completed, Run_Failed, Run_TimedOut}
      then db\<lparr>jt_runs := map (\<lambda>r. if sr_id r = i \<and> sr_device r = device \<and> sr_status r = Run_Pending
                                 then r\<lparr>sr_status := status, sr_exit_code := exit_code\<rparr> else r) (jt_runs db)\<rparr>
      else db)"

text \<open>The error is the reported one as \<open>bounded\<close> leaves it.\<close>

definition report_file_delivery ::
  "rust_string \<Rightarrow> rust_string \<Rightarrow> delivery_status \<Rightarrow> rust_string option \<Rightarrow> jobs_db \<Rightarrow> jobs_db" where
  "report_file_delivery device i status err db =
     (if status \<in> {Delivery_Delivered, Delivery_Failed}
      then db\<lparr>jt_deliveries := map (\<lambda>f. if fd_id f = i \<and> fd_device f = device \<and> fd_status f = Delivery_Pending
                                       then f\<lparr>fd_status := status, fd_error := err\<rparr> else f) (jt_deliveries db)\<rparr>
      else db)"

definition finish_scan :: "rust_string \<Rightarrow> rust_string \<Rightarrow> bool \<Rightarrow> jobs_db \<Rightarrow> jobs_db" where
  "finish_scan device i failed db =
     db\<lparr>jt_updates := map (\<lambda>u. if ur_id u = i \<and> ur_device u = device \<and> ur_kind u = Update_Scan \<and> ur_status u = Update_Pending
                              then u\<lparr>ur_status := (if failed then Update_Failed else Update_Succeeded)\<rparr> else u)
                           (jt_updates db)\<rparr>"

definition finish_install :: "rust_string \<Rightarrow> rust_string \<Rightarrow> update_status \<Rightarrow> jobs_db \<Rightarrow> jobs_db" where
  "finish_install device i status db =
     (if status \<in> {Update_Succeeded, Update_Partial, Update_Failed}
      then db\<lparr>jt_updates := map (\<lambda>u. if ur_id u = i \<and> ur_device u = device \<and> ur_kind u = Update_Install
                                       \<and> ur_status u = Update_Pending
                                    then u\<lparr>ur_status := status\<rparr> else u) (jt_updates db)\<rparr>
      else db)"

text \<open>Runs the Agent never reported are lost (\<open>server/src/alerts/mod.rs\<close>, \<open>sweep_lost\<close>).\<close>

definition lose_runs :: "int \<Rightarrow> jobs_db \<Rightarrow> jobs_db" where
  "lose_runs now db =
     db\<lparr>jt_runs := map (\<lambda>r. if sr_status r = Run_Pending \<and> run_deadline r < now then r\<lparr>sr_status := Run_Lost\<rparr> else r)
                       (jt_runs db)\<rparr>"

definition sweep_lost :: "int \<Rightarrow> jobs_db \<Rightarrow> jobs_db" where
  "sweep_lost now db =
     db\<lparr>jt_updates := map (\<lambda>u. if ur_status u = Update_Pending \<and> update_deadline u < now
                              then u\<lparr>ur_status := Update_Lost\<rparr> else u) (jt_updates db)\<rparr>"

definition wake_settle :: "rust_string \<Rightarrow> wake_status \<Rightarrow> jobs_db \<Rightarrow> jobs_db" where
  "wake_settle i status db =
     db\<lparr>jt_wakes := map (\<lambda>w. if wr_id w = i \<and> wr_status w \<noteq> Wake_No_Relay then w\<lparr>wr_status := status\<rparr> else w)
                        (jt_wakes db)\<rparr>"

definition wake_device_connected :: "rust_string \<Rightarrow> int \<Rightarrow> jobs_db \<Rightarrow> jobs_db" where
  "wake_device_connected device now db =
     db\<lparr>jt_wakes := map (\<lambda>w. if wr_device w = device \<and> wr_online_at w = None \<and> wr_status w \<in> {Wake_Sending, Wake_Sent}
                              \<and> now - ONLINE_WINDOW_MS \<le> wr_created_at w
                            then w\<lparr>wr_online_at := Some now\<rparr> else w) (jt_wakes db)\<rparr>"

end
