(* ===== verification/Job_Engine.thy ===== *)
theory Job_Engine
  imports Dispatch
begin

text \<open>
  The engine as a step system: the task that makes passes (\<open>server/src/automation/mod.rs\<close>), one at a time, and
  everything that happens meanwhile: jobs are created and cancelled, devices enroll, leave and report, runs are
  started by hand, and the server may restart at any moment.
\<close>

record sending =
  sd_job :: job_row
  sd_device :: rust_string
  sd_run :: rust_string
  sd_command :: job_command

record job_engine =
  je_db :: jobs_db
  je_pass :: "dispatch_pass option"
  je_sending :: "sending option"
  je_waking :: "(rust_string \<times> rust_string list) option"
  je_published :: "rust_string \<rightharpoonup> job_counts"
  je_sent :: "(rust_string \<times> rust_string) list"
  je_clock :: int

datatype engine_event =
    Create_Job new_job "rust_string set" rust_string int
  | Cancel_Job rust_string int
  | Remove_Device rust_string int
  | Change_Agents "enrolled_agent list"
  | Change_Files "toolbox_file list"
  | Expire_Waiting int
  | Expire_Deleted int
  | Queue_Connected "rust_string list" int
  | Begin_Dispatch int
  | Next_Row bool rust_string
  | Handed_Over bool
  | Next_Wake "rust_string set"
  | Wake_Recorded "rust_string \<rightharpoonup> bool" "rust_string \<Rightarrow> rust_string" int
  | Report_Jobs int
  | Restart
  | Run_Reported rust_string rust_string run_status "int option"
  | Delivery_Reported rust_string rust_string delivery_status "rust_string option"
  | Scan_Reported rust_string rust_string bool
  | Install_Reported rust_string rust_string update_status
  | Runs_Lost int
  | Updates_Lost int
  | Wake_Settled rust_string wake_status
  | Device_Online rust_string int
  | By_Hand "script_run list" "file_delivery list" "update_run list"

text \<open>
  The log \<open>je_sent\<close> of the commands an Agent took and the time \<open>je_clock\<close> of the latest pass are not part of the
  server's state. Rows inserted by hand belong to no job.
\<close>

definition insert_by_hand :: "script_run list \<Rightarrow> file_delivery list \<Rightarrow> update_run list \<Rightarrow> jobs_db \<Rightarrow> jobs_db" where
  "insert_by_hand rs fs us db =
     (let rs' = map (\<lambda>r. r\<lparr>sr_job := None\<rparr>) rs; fs' = map (\<lambda>f. f\<lparr>fd_job := None\<rparr>) fs; us' = map (\<lambda>u. u\<lparr>ur_job := None\<rparr>) us in
      if distinct (map sr_id (jt_runs db @ rs')) \<and> distinct (map fd_id (jt_deliveries db @ fs'))
         \<and> distinct (map ur_id (jt_updates db @ us'))
      then db\<lparr>jt_runs := jt_runs db @ rs', jt_deliveries := jt_deliveries db @ fs', jt_updates := jt_updates db @ us'\<rparr>
      else db)"

definition on_db :: "(jobs_db \<Rightarrow> jobs_db) \<Rightarrow> job_engine \<Rightarrow> job_engine" where
  "on_db f s = s\<lparr>je_db := f (je_db s)\<rparr>"

definition engine_idle :: "job_engine \<Rightarrow> bool" where
  "engine_idle s \<longleftrightarrow> je_pass s = None \<and> je_sending s = None \<and> je_waking s = None"

text \<open>The pass ends with an error that leaves the database as it is.\<close>

definition abort_pass :: "job_engine \<Rightarrow> job_engine" where
  "abort_pass s = s\<lparr>je_pass := None, je_sending := None, je_waking := None\<rparr>"

definition next_row :: "bool \<Rightarrow> rust_string \<Rightarrow> dispatch_pass \<Rightarrow> job_engine \<Rightarrow> job_engine" where
  "next_row online i p s =
     (case dispatch_turn p online i (je_db s) of
        Loop_Over p' \<Rightarrow> s\<lparr>je_pass := Some p'\<rparr>
      | Turn_Done p' db \<Rightarrow> s\<lparr>je_pass := Some p', je_db := db\<rparr>
      | Turn_Error \<Rightarrow> abort_pass s
      | Turn_Claimed p' db job device run_id None \<Rightarrow> s\<lparr>je_pass := Some (count_started device p'), je_db := db\<rparr>
      | Turn_Claimed p' db job device run_id (Some command) \<Rightarrow>
          s\<lparr>je_pass := Some p', je_db := db,
            je_sending := Some \<lparr>sd_job = job, sd_device = device, sd_run = run_id, sd_command = command\<rparr>\<rparr>)"

definition handed_over :: "bool \<Rightarrow> sending \<Rightarrow> dispatch_pass \<Rightarrow> job_engine \<Rightarrow> job_engine" where
  "handed_over taken d p s =
     (if taken
      then s\<lparr>je_sending := None, je_pass := Some (count_started (sd_device d) p),
             je_sent := je_sent s @ [(jb_id (sd_job d), sd_device d)]\<rparr>
      else s\<lparr>je_sending := None,
             je_db := start_refused (sd_job d) (sd_device d) (sd_run d) (dp_now p) (je_db s)\<rparr>)"

definition next_wake :: "rust_string set \<Rightarrow> dispatch_pass \<Rightarrow> job_engine \<Rightarrow> job_engine" where
  "next_wake online p s =
     (case dp_wakes p of
        [] \<Rightarrow> s\<lparr>je_pass := None\<rparr>
      | (j, devices) # rest \<Rightarrow>
          if pass_job p j = None then s\<lparr>je_pass := Some (p\<lparr>dp_wakes := rest\<rparr>)\<rparr>
          else
            case wake_claims j devices online (dp_now p) (je_db s) of
              (db, claimed) \<Rightarrow>
                s\<lparr>je_pass := Some (p\<lparr>dp_wakes := rest\<rparr>), je_db := db,
                  je_waking := (if claimed = [] then None else Some (j, claimed))\<rparr>)"

datatype engine_output = Quiet | Command rust_string rust_string job_command | News "(rust_string \<times> job_counts) list"

fun engine_step :: "(rust_string \<Rightarrow> rust_string) \<Rightarrow> job_engine \<Rightarrow> engine_event \<Rightarrow> job_engine \<times> engine_output" where
  "engine_step lower s (Create_Job job online i now) =
     (case create_job lower job online i now (je_db s) of Inl _ \<Rightarrow> (s, Quiet) | Inr db \<Rightarrow> (s\<lparr>je_db := db\<rparr>, Quiet))"
| "engine_step lower s (Cancel_Job j now) = (on_db (cancel_job j now) s, Quiet)"
| "engine_step lower s (Remove_Device d now) = (on_db (device_removed d now) s, Quiet)"
| "engine_step lower s (Change_Agents agents) = (on_db (\<lambda>db. db\<lparr>jt_agents := agents\<rparr>) s, Quiet)"
| "engine_step lower s (Change_Files fs) = (on_db (\<lambda>db. db\<lparr>jt_files := fs\<rparr>) s, Quiet)"
| "engine_step lower s (Expire_Waiting now) = (on_db (expire_waiting now) s, Quiet)"
| "engine_step lower s (Expire_Deleted now) = (on_db (expire_deleted now) s, Quiet)"
| "engine_step lower s (Queue_Connected devices now) = (on_db (queue_devices devices now) s, Quiet)"
| "engine_step lower s (Begin_Dispatch now) =
     (if engine_idle s then (s\<lparr>je_pass := begin_dispatch now (je_db s), je_clock := now\<rparr>, Quiet) else (s, Quiet))"
| "engine_step lower s (Next_Row online i) =
     (case (je_pass s, je_sending s, je_waking s) of
        (Some p, None, None) \<Rightarrow> (next_row online i p s, Quiet)
      | _ \<Rightarrow> (s, Quiet))"
| "engine_step lower s (Handed_Over taken) =
     (case (je_pass s, je_sending s) of (Some p, Some d) \<Rightarrow>
          (handed_over taken d p s,
           if taken then Command (jb_id (sd_job d)) (sd_device d) (sd_command d) else Quiet)
      | _ \<Rightarrow> (s, Quiet))"
| "engine_step lower s (Next_Wake online) =
     (case (je_pass s, je_sending s, je_waking s) of
        (Some p, None, None) \<Rightarrow> if dp_rows p = [] then (next_wake online p s, Quiet) else (s, Quiet)
      | _ \<Rightarrow> (s, Quiet))"
| "engine_step lower s (Wake_Recorded relays new_ids now) =
     (case je_waking s of
        None \<Rightarrow> (s, Quiet)
      | Some (j, devices) \<Rightarrow>
          (case wake_insert j relays new_ids now devices (je_db s) of
             None \<Rightarrow> (abort_pass s, Quiet)
           | Some db \<Rightarrow> (s\<lparr>je_db := db, je_waking := None\<rparr>, Quiet)))"
| "engine_step lower s (Report_Jobs now) =
     (if engine_idle s
      then case report_jobs now (je_db s) (je_published s) of
             (db, published, news) \<Rightarrow> (s\<lparr>je_db := db, je_published := published\<rparr>, News news)
      else (s, Quiet))"
| "engine_step lower s Restart = ((abort_pass s)\<lparr>je_published := Map.empty\<rparr>, Quiet)"
| "engine_step lower s (Run_Reported d i status code) = (on_db (report_script_run d i status code) s, Quiet)"
| "engine_step lower s (Delivery_Reported d i status err) = (on_db (report_file_delivery d i status err) s, Quiet)"
| "engine_step lower s (Scan_Reported d i failed) = (on_db (finish_scan d i failed) s, Quiet)"
| "engine_step lower s (Install_Reported d i status) = (on_db (finish_install d i status) s, Quiet)"
| "engine_step lower s (Runs_Lost now) = (on_db (lose_runs now) s, Quiet)"
| "engine_step lower s (Updates_Lost now) = (on_db (sweep_lost now) s, Quiet)"
| "engine_step lower s (Wake_Settled i status) = (on_db (wake_settle i status) s, Quiet)"
| "engine_step lower s (Device_Online d now) = (on_db (wake_device_connected d now) s, Quiet)"
| "engine_step lower s (By_Hand rs fs us) = (on_db (insert_by_hand rs fs us) s, Quiet)"

end
