(* ===== verification/Job_Counts.thy ===== *)
theory Job_Counts
  imports Jobs
begin

text \<open>The counts of a job in terms of its devices.\<close>

fun slot :: "job_outcome \<Rightarrow> job_counts \<Rightarrow> int" where
  "slot Outcome_Queued c = ct_queued c"
| "slot Outcome_Waiting c = ct_waiting c"
| "slot Outcome_Running c = ct_running c"
| "slot Outcome_Succeeded c = ct_succeeded c"
| "slot Outcome_Failed c = ct_failed c"
| "slot Outcome_Timed_Out c = ct_timed_out c"
| "slot Outcome_No_Result c = ct_no_result c"
| "slot Outcome_Skipped c = ct_skipped c"
| "slot Outcome_Missed c = ct_missed c"
| "slot Outcome_Cancelled c = ct_cancelled c"

definition tally :: "job_outcome list \<Rightarrow> job_counts" where
  "tally xs = fold (\<lambda>x. counts_add x 1) xs Counts_default"

lemma slot_add [simp]: "slot y (counts_add x n c) = slot y c + (if x = y then n else 0)"
  by (cases x; cases y) (simp_all add: counts_add_def)

lemma total_add [simp]: "ct_total (counts_add x n c) = ct_total c + n"
  by (cases x) (simp_all add: counts_add_def)

lemma slot_default [simp]: "slot y Counts_default = 0" "ct_total Counts_default = 0"
  by (cases y) (simp_all add: Counts_default_def)

lemma counts_eqI: "ct_total a = ct_total b \<Longrightarrow> (\<And>y. slot y a = slot y b) \<Longrightarrow> a = (b :: job_counts)"
  by (rule job_counts.equality)
    (use slot.simps in \<open>metis | simp\<close>)+

lemma slot_tally: "slot y (tally xs) = int (count_list xs y)" "ct_total (tally xs) = int (length xs)"
proof -
  have "slot y (fold (\<lambda>x. counts_add x 1) xs c) = slot y c + int (count_list xs y)
      \<and> ct_total (fold (\<lambda>x. counts_add x 1) xs c) = ct_total c + int (length xs)" for c
    by (induction xs arbitrary: c) auto
  then show "slot y (tally xs) = int (count_list xs y)" "ct_total (tally xs) = int (length xs)"
    by (simp_all add: tally_def)
qed

section \<open>Grouped rows\<close>

definition counts_at :: "(rust_string \<rightharpoonup> job_counts) \<Rightarrow> rust_string \<Rightarrow> job_counts" where
  "counts_at m j = (case m j of None \<Rightarrow> Counts_default | Some c \<Rightarrow> c)"

lemma add_row_at:
  "counts_at (add_row (k, n) m) j = (if fst k = j then counts_add (count_row_outcome k) n (counts_at m j) else counts_at m j)"
  by (simp add: add_row_def counts_at_def)

lemma add_rows_at:
  "slot y (counts_at (fold add_row rows m) j) =
     slot y (counts_at m j) + (\<Sum>(k, n) \<leftarrow> rows. if fst k = j \<and> count_row_outcome k = y then n else 0)"
  "ct_total (counts_at (fold add_row rows m) j) = ct_total (counts_at m j) + (\<Sum>(k, n) \<leftarrow> rows. if fst k = j then n else 0)"
  by (induction rows arbitrary: m) (auto simp: add_row_at)

lemma grouped_sum:
  "(\<Sum>(k, n) \<leftarrow> grouped_rows rows. if P k then n else 0) = int (length (filter P rows))"
proof -
  have "(\<Sum>(k, n) \<leftarrow> grouped_rows rows. if P k then n else 0)
      = (\<Sum>k \<leftarrow> remdups rows. if P k then int (count_list rows k) else 0)"
    by (simp add: grouped_rows_def o_def split_def cong: if_cong)
  also have "\<dots> = (\<Sum>k \<in> set rows. if P k then int (count_list rows k) else 0)"
    by (simp add: sum.set_conv_list)
  also have "\<dots> = (\<Sum>k \<in> set (filter P rows). int (count_list (filter P rows) k))"
    by (rule sum.mono_neutral_cong_right) (auto simp: count_list_eq_length_filter intro!: arg_cong [where f = length] filter_cong)
  also have "\<dots> = int (length (filter P rows))"
    using sum_count_set [of "filter P rows" "set (filter P rows)"] by (simp flip: of_nat_sum)
  finally show ?thesis .
qed

text \<open>The rows of one job, and its counts whatever other jobs are counted with it.\<close>

definition rows_of :: "int \<Rightarrow> jobs_db \<Rightarrow> rust_string \<Rightarrow> count_row list" where
  "rows_of now db j = count_rows now db [j]"

lemma filter_count_rows:
  "filter (\<lambda>k. fst k = j \<and> P k) (count_rows now db chunk) = (if j \<in> set chunk then filter P (rows_of now db j) else [])"
proof -
  have "filter (\<lambda>k. fst k = j \<and> P k) (concat (map f (filter (\<lambda>d. jd_job d \<in> set chunk) ds)))
      = (if j \<in> set chunk then filter P (concat (map f (filter (\<lambda>d. jd_job d \<in> set [j]) ds))) else [])"
    if "\<And>d k. k \<in> set (f d) \<Longrightarrow> fst k = jd_job d" for f and ds
  proof (induction ds)
    case (Cons d ds)
    have "filter (\<lambda>k. fst k = j \<and> P k) (f d) = (if jd_job d = j then filter P (f d) else [])"
      using that [of _ d] by (auto intro: filter_cong simp: filter_empty_conv)
    with Cons show ?case by auto
  qed simp
  from this [of "\<lambda>d. map (\<lambda>j. (jd_job d, jd_state d, joined_status j, joined_succeeded j, joined_overdue now j)) (joined_rows db d)"]
  show ?thesis unfolding rows_of_def count_rows_def by fastforce
qed

lemma fold_chunks_at:
  assumes "distinct (concat cs)"
  shows "slot y (counts_at (fold (\<lambda>chunk m. fold add_row (grouped_rows (count_rows now db chunk)) m) cs m) j) =
      slot y (counts_at m j) + (if j \<in> set (concat cs) then int (length (filter (\<lambda>k. count_row_outcome k = y) (rows_of now db j))) else 0)
    \<and> ct_total (counts_at (fold (\<lambda>chunk m. fold add_row (grouped_rows (count_rows now db chunk)) m) cs m) j) =
      ct_total (counts_at m j) + (if j \<in> set (concat cs) then int (length (rows_of now db j)) else 0)"
  using assms
proof (induction cs arbitrary: m)
  case (Cons c cs)
  have "filter (\<lambda>k. fst k = j) (count_rows now db c) = (if j \<in> set c then rows_of now db j else [])"
    using filter_count_rows [of j "\<lambda>_. True"] by simp
  then show ?case
    using Cons by (auto simp: add_rows_at grouped_sum filter_count_rows)
qed simp

lemma counts_of_rows:
  assumes "distinct ids" "j \<in> set ids"
  shows "job_counts_of db ids now j = tally (map count_row_outcome (rows_of now db j))"
proof -
  have "distinct (concat (chunks 200 ids))" "set (concat (chunks 200 ids)) = set ids"
    using assms(1) by (simp_all only: concat_chunks)
  with assms(2) have at: "slot y (job_counts_of db ids now j) = int (length (filter (\<lambda>k. count_row_outcome k = y) (rows_of now db j)))"
      "ct_total (job_counts_of db ids now j) = int (length (rows_of now db j))" for y
    using fold_chunks_at [of "chunks 200 ids" y now db Map.empty j]
    by (simp_all add: job_counts_of_def counts_def counts_at_def)
  have "count_list (map count_row_outcome rows) y = length (filter (\<lambda>k. count_row_outcome k = y) rows)" for y rows
    by (induction rows) auto
  then show ?thesis by (intro counts_eqI) (simp_all add: at slot_tally)
qed

lemma counts_active_iff: "counts_active (tally xs) = 0 \<longleftrightarrow> list_all (\<lambda>x. \<not> outcome_active x) xs"
proof -
  have "counts_active (tally xs) = int (count_list xs Outcome_Queued + count_list xs Outcome_Waiting + count_list xs Outcome_Running)"
    using slot_tally(1) [of Outcome_Queued xs] slot_tally(1) [of Outcome_Waiting xs] slot_tally(1) [of Outcome_Running xs]
    by (simp add: counts_active_def)
  also have "\<dots> = 0 \<longleftrightarrow> list_all (\<lambda>x. \<not> outcome_active x) xs"
    by (simp only: of_nat_eq_0_iff add_is_0 count_list_0_iff) (auto simp: list_all_iff outcome_active_def)
  finally show ?thesis .
qed

lemma left_join_nonempty [simp]: "left_join P xs \<noteq> []"
  by (simp add: left_join_def Let_def)

lemma product_nonempty: "xs \<noteq> [] \<Longrightarrow> ys \<noteq> [] \<Longrightarrow> List.product xs ys \<noteq> []"
  by (cases xs; cases ys) auto

lemma joined_rows_nonempty [simp]: "joined_rows db d \<noteq> []"
  by (simp add: joined_rows_def product_nonempty)

text \<open>An open device counts as active.\<close>

lemma open_device_active:
  assumes "d \<in> set (jt_devices db)" "jd_state d \<in> {Queued, Waiting}" "distinct ids" "jd_job d \<in> set ids"
  shows "counts_active (job_counts_of db ids now (jd_job d)) \<noteq> 0"
proof -
  obtain j where j: "j \<in> set (joined_rows db d)" using joined_rows_nonempty [of db d] by (cases "joined_rows db d") auto
  let ?k = "(jd_job d, jd_state d, joined_status j, joined_succeeded j, joined_overdue now j)"
  have "?k \<in> set (rows_of now db (jd_job d))"
    using assms(1) j by (auto simp: rows_of_def count_rows_def)
  moreover have "outcome_active (count_row_outcome ?k)"
    using assms(2) by (auto simp: count_row_outcome_def device_outcome_def outcome_active_def)
  ultimately show ?thesis
    by (auto simp: counts_of_rows [OF assms(3,4)] counts_active_iff list_all_iff)
qed

section \<open>A device with one run at most\<close>

definition device_part :: "jobs_db \<Rightarrow> job_device \<Rightarrow> joined" where
  "device_part db d =
     (find (\<lambda>r. sr_job r = Some (jd_job d) \<and> sr_device r = jd_device d) (jt_runs db),
      find (\<lambda>f. fd_job f = Some (jd_job d) \<and> fd_device f = jd_device d) (jt_deliveries db),
      find (\<lambda>u. ur_job u = Some (jd_job d) \<and> ur_device u = jd_device d) (jt_updates db),
      find (\<lambda>w. wr_job w = Some (jd_job d) \<and> wr_device w = jd_device d) (jt_wakes db))"

definition device_result :: "int \<Rightarrow> jobs_db \<Rightarrow> job_device \<Rightarrow> job_outcome" where
  "device_result now db d =
     device_outcome (jd_state d) (joined_status (device_part db d)) (joined_succeeded (device_part db d))
       (joined_overdue now (device_part db d))"

definition at_most_one_part :: "jobs_db \<Rightarrow> rust_string \<Rightarrow> rust_string \<Rightarrow> bool" where
  "at_most_one_part db j d \<longleftrightarrow>
     length (filter (\<lambda>r. sr_job r = Some j \<and> sr_device r = d) (jt_runs db)) \<le> 1
     \<and> length (filter (\<lambda>f. fd_job f = Some j \<and> fd_device f = d) (jt_deliveries db)) \<le> 1
     \<and> length (filter (\<lambda>u. ur_job u = Some j \<and> ur_device u = d) (jt_updates db)) \<le> 1
     \<and> length (filter (\<lambda>w. wr_job w = Some j \<and> wr_device w = d) (jt_wakes db)) \<le> 1"

lemma find_filter: "find P xs = (case filter P xs of [] \<Rightarrow> None | x # _ \<Rightarrow> Some x)"
  by (induction xs) auto

lemma left_join_single: "length (filter P xs) \<le> 1 \<Longrightarrow> left_join P xs = [find P xs]"
  by (cases "filter P xs") (auto simp: left_join_def find_filter)

lemma joined_rows_single:
  "at_most_one_part db (jd_job d) (jd_device d) \<Longrightarrow> joined_rows db d = [device_part db d]"
  by (simp add: at_most_one_part_def joined_rows_def device_part_def left_join_single)

lemma counts_of_devices:
  assumes "distinct ids" "j \<in> set ids" "\<And>d. d \<in> set (jt_devices db) \<Longrightarrow> jd_job d = j \<Longrightarrow> at_most_one_part db j (jd_device d)"
  shows "job_counts_of db ids now j = tally (map (device_result now db) (filter (\<lambda>d. jd_job d = j) (jt_devices db)))"
proof -
  have "map count_row_outcome (concat (map (\<lambda>d. map (\<lambda>j. (jd_job d, jd_state d, joined_status j, joined_succeeded j, joined_overdue now j))
      (joined_rows db d)) ds)) = map (device_result now db) ds"
    if "\<And>d. d \<in> set ds \<Longrightarrow> at_most_one_part db (jd_job d) (jd_device d)" for ds
    using that
    by (induction ds) (auto simp: joined_rows_single count_row_outcome_def device_result_def)
  from this [of "filter (\<lambda>d. jd_job d = j) (jt_devices db)"] assms(3)
  show ?thesis by (simp add: counts_of_rows [OF assms(1,2)] rows_of_def count_rows_def)
qed

end
