(* ===== verification/Job_Safety.thy ===== *)
theory Job_Safety
  imports Job_Engine Job_Counts
begin

text \<open>
  What holds of the tables of jobs whatever happens: a device of a job has at most one run and only once it is
  started, a device that is done with stays so, and a finished job has nothing left to start.
\<close>

section \<open>The tables\<close>

definition keys :: "jobs_db \<Rightarrow> (rust_string \<times> rust_string) list" where
  "keys db = map (\<lambda>d. (jd_job d, jd_device d)) (jt_devices db)"

definition in_state :: "job_device_state set \<Rightarrow> jobs_db \<Rightarrow> (rust_string \<times> rust_string) set" where
  "in_state S db = (\<lambda>d. (jd_job d, jd_device d)) ` {d \<in> set (jt_devices db). jd_state d \<in> S}"

text \<open>The runs, deliveries, update runs and wake requests, and the job and device of each.\<close>

datatype job_part = Run_Part script_run | Delivery_Part file_delivery | Update_Part update_run | Wake_Part wake_request

definition all_parts :: "jobs_db \<Rightarrow> job_part list" where
  "all_parts db =
     map Run_Part (jt_runs db) @ map Delivery_Part (jt_deliveries db) @ map Update_Part (jt_updates db)
     @ map Wake_Part (jt_wakes db)"

fun part_key :: "job_part \<Rightarrow> (rust_string \<times> rust_string) option" where
  "part_key (Run_Part r) = map_option (\<lambda>j. (j, sr_device r)) (sr_job r)"
| "part_key (Delivery_Part f) = map_option (\<lambda>j. (j, fd_device f)) (fd_job f)"
| "part_key (Update_Part u) = map_option (\<lambda>j. (j, ur_device u)) (ur_job u)"
| "part_key (Wake_Part w) = map_option (\<lambda>j. (j, wr_device w)) (wr_job w)"

definition job_parts :: "jobs_db \<Rightarrow> (rust_string \<times> rust_string) list" where
  "job_parts db = List.map_filter part_key (all_parts db)"

fun part_pending :: "job_kind \<Rightarrow> rust_string \<Rightarrow> job_part \<Rightarrow> bool" where
  "part_pending Script_Kind i (Run_Part r) \<longleftrightarrow> sr_id r = i \<and> sr_status r = Run_Pending"
| "part_pending File_Kind i (Delivery_Part f) \<longleftrightarrow> fd_id f = i \<and> fd_status f = Delivery_Pending"
| "part_pending Update_Scan_Kind i (Update_Part u) \<longleftrightarrow> ur_id u = i \<and> ur_status u = Update_Pending"
| "part_pending Update_Install_Kind i (Update_Part u) \<longleftrightarrow> ur_id u = i \<and> ur_status u = Update_Pending"
| "part_pending _ _ _ \<longleftrightarrow> False"

definition finished_jobs :: "jobs_db \<Rightarrow> rust_string set" where
  "finished_jobs db = jb_id ` {j \<in> set (jt_jobs db). jb_finished_at j \<noteq> None}"

definition ids_distinct :: "jobs_db \<Rightarrow> bool" where
  "ids_distinct db \<longleftrightarrow>
     distinct (map jb_id (jt_jobs db)) \<and> distinct (map sr_id (jt_runs db)) \<and> distinct (map fd_id (jt_deliveries db))
     \<and> distinct (map ur_id (jt_updates db)) \<and> distinct (map wr_id (jt_wakes db))"

definition jobs_wf :: "jobs_db \<Rightarrow> bool" where
  "jobs_wf db \<longleftrightarrow>
     ids_distinct db \<and> distinct (keys db) \<and> fst ` set (keys db) \<subseteq> jb_id ` set (jt_jobs db)
     \<and> distinct (job_parts db) \<and> set (job_parts db) \<subseteq> in_state {Started} db
     \<and> fst ` in_state {Queued, Waiting} db \<inter> finished_jobs db = {}"

lemma map_filter_map:
  "(\<And>x. f (g x) = f x) \<Longrightarrow> List.map_filter f (map g xs) = List.map_filter f xs"
  by (induction xs) (auto simp: List.map_filter_simps split: option.split)

lemma map_filter_append: "List.map_filter f (xs @ ys) = List.map_filter f xs @ List.map_filter f ys"
  by (simp add: List.map_filter_def)

lemma in_map_filter_iff: "y \<in> set (List.map_filter f xs) \<longleftrightarrow> (\<exists>x \<in> set xs. f x = Some y)"
  by (induction xs) (auto simp: List.map_filter_simps split: option.splits)

lemma map_filter_unique:
  "distinct (List.map_filter f xs) \<Longrightarrow> x \<in> set xs \<Longrightarrow> y \<in> set xs \<Longrightarrow> f x = Some z \<Longrightarrow> f y = Some z \<Longrightarrow> x = y"
  by (induction xs) (auto simp: List.map_filter_simps in_map_filter_iff split: option.splits)

lemma distinct_map_filter_filter:
  "distinct (List.map_filter f xs) \<Longrightarrow> distinct (List.map_filter f (filter P xs))"
  by (induction xs) (auto simp: List.map_filter_simps in_map_filter_iff split: option.splits)

section \<open>Statements on the devices of jobs\<close>

lemma set_devices_tables [simp]:
  "jt_jobs (set_devices P f db) = jt_jobs db" "jt_runs (set_devices P f db) = jt_runs db"
  "jt_deliveries (set_devices P f db) = jt_deliveries db" "jt_updates (set_devices P f db) = jt_updates db"
  "jt_wakes (set_devices P f db) = jt_wakes db" "job_parts (set_devices P f db) = job_parts db"
  "finished_jobs (set_devices P f db) = finished_jobs db" "ids_distinct (set_devices P f db) = ids_distinct db"
  by (simp_all add: set_devices_def job_parts_def all_parts_def finished_jobs_def ids_distinct_def)

lemma set_devices_keys:
  "(\<And>d. jd_job (f d) = jd_job d \<and> jd_device (f d) = jd_device d) \<Longrightarrow> keys (set_devices P f db) = keys db"
  by (auto simp: set_devices_def keys_def)

lemma keys_unique:
  "distinct (keys db) \<Longrightarrow> d \<in> set (jt_devices db) \<Longrightarrow> e \<in> set (jt_devices db) \<Longrightarrow>
     jd_job d = jd_job e \<Longrightarrow> jd_device d = jd_device e \<Longrightarrow> d = e"
  by (auto simp: keys_def distinct_map inj_on_def)

lemma in_state_iff:
  "(j, dev) \<in> in_state S db \<longleftrightarrow> (\<exists>d \<in> set (jt_devices db). jd_job d = j \<and> jd_device d = dev \<and> jd_state d \<in> S)"
  by (auto simp: in_state_def)

lemma in_state_disjoint:
  "distinct (keys db) \<Longrightarrow> x \<in> in_state S db \<Longrightarrow> x \<in> in_state T db \<Longrightarrow> S \<inter> T = {} \<Longrightarrow> False"
  by (cases x) (auto simp: in_state_iff dest: keys_unique)

text \<open>A statement that takes devices from some states to one state.\<close>

definition moves :: "(rust_string \<times> rust_string \<Rightarrow> bool) \<Rightarrow> job_device_state set \<Rightarrow> job_device_state \<Rightarrow> jobs_db \<Rightarrow> jobs_db \<Rightarrow> bool"
  where
  "moves K A B db db' \<longleftrightarrow>
     (\<forall>S. in_state S db' = {x \<in> in_state S db. \<not> (K x \<and> x \<in> in_state A db)}
            \<union> (if B \<in> S then {x \<in> in_state A db. K x} else {}))"

lemma in_state_row:
  "distinct (keys db) \<Longrightarrow> e \<in> set (jt_devices db) \<Longrightarrow> (jd_job e, jd_device e) \<in> in_state S db \<longleftrightarrow> jd_state e \<in> S"
  by (auto simp: in_state_iff dest: keys_unique)

lemma in_state_keys: "x \<in> in_state S db \<Longrightarrow> x \<in> set (keys db)"
  by (auto simp: in_state_def keys_def)

lemma set_devices_moves:
  assumes "distinct (keys db)"
    and "\<And>d. jd_job (f d) = jd_job d \<and> jd_device (f d) = jd_device d \<and> jd_state (f d) = B"
    and "\<And>d. d \<in> set (jt_devices db) \<Longrightarrow> P d \<longleftrightarrow> K (jd_job d, jd_device d) \<and> jd_state d \<in> A"
  shows "moves K A B db (set_devices P f db)"
proof -
  let ?db = "set_devices P f db"
  have keys: "keys ?db = keys db" using assms(2) by (intro set_devices_keys) auto
  have "x \<in> in_state S ?db \<longleftrightarrow>
      x \<in> in_state S db \<and> \<not> (K x \<and> x \<in> in_state A db) \<or> B \<in> S \<and> x \<in> in_state A db \<and> K x" for S x
  proof (cases "x \<in> set (keys db)")
    case True
    then obtain e where e: "e \<in> set (jt_devices db)" and x: "x = (jd_job e, jd_device e)" by (auto simp: keys_def)
    define e' where "e' = (if P e then f e else e)"
    have e': "e' \<in> set (jt_devices ?db)" "x = (jd_job e', jd_device e')"
      using e x assms(2) by (auto simp: set_devices_def e'_def)
    have "x \<in> in_state S ?db \<longleftrightarrow> jd_state e' \<in> S"
      unfolding e'(2) by (rule in_state_row) (use keys assms(1) e'(1) in simp_all)
    moreover have "x \<in> in_state T db \<longleftrightarrow> jd_state e \<in> T" for T
      unfolding x by (rule in_state_row [OF assms(1) e])
    ultimately show ?thesis using assms(2) [of e] assms(3) [OF e] x by (auto simp: e'_def)
  qed (metis keys in_state_keys)
  then show ?thesis by (auto simp: moves_def)
qed

lemma moves_iff:
  "moves K A B db db' \<Longrightarrow>
     x \<in> in_state S db' \<longleftrightarrow> x \<in> in_state S db \<and> \<not> (K x \<and> x \<in> in_state A db) \<or> B \<in> S \<and> x \<in> in_state A db \<and> K x"
  by (auto simp: moves_def)

lemma set_devices_wf:
  assumes "jobs_wf db" and f: "\<And>d. jd_job (f d) = jd_job d \<and> jd_device (f d) = jd_device d \<and> jd_state (f d) = B"
    and P: "\<And>d. d \<in> set (jt_devices db) \<Longrightarrow> P d \<longleftrightarrow> K (jd_job d, jd_device d) \<and> jd_state d \<in> A"
    and "B \<noteq> Started \<Longrightarrow> Started \<in> A \<Longrightarrow> \<forall>x \<in> set (job_parts db). \<not> K x"
    and "B \<in> {Queued, Waiting} \<Longrightarrow> \<forall>x \<in> in_state A db. K x \<longrightarrow> fst x \<notin> finished_jobs db"
  shows "jobs_wf (set_devices P f db)"
proof -
  have wf: "distinct (keys db)" "set (job_parts db) \<subseteq> in_state {Started} db"
      "fst ` in_state {Queued, Waiting} db \<inter> finished_jobs db = {}" using assms(1) by (auto simp: jobs_wf_def)
  note moved = moves_iff [OF set_devices_moves [OF wf(1) f P]]
  have keys: "keys (set_devices P f db) = keys db" using f by (intro set_devices_keys) auto
  have "x \<in> in_state {Started} (set_devices P f db)" if "x \<in> set (job_parts db)" for x
  proof -
    have started: "x \<in> in_state {Started} db" using that wf(2) by auto
    have "B = Started" if "K x" "x \<in> in_state A db"
    proof (rule ccontr)
      assume "B \<noteq> Started"
      moreover have "Started \<in> A" using in_state_disjoint [OF wf(1) started that(2)] by blast
      ultimately show False using assms(4) \<open>x \<in> set (job_parts db)\<close> \<open>K x\<close> by blast
    qed
    with started show ?thesis by (auto simp: moved)
  qed
  moreover have "fst x \<notin> finished_jobs db" if "x \<in> in_state {Queued, Waiting} (set_devices P f db)" for x
    using that assms(5) wf(3) by (auto simp: moved)
  ultimately show ?thesis using assms(1) keys by (auto simp: jobs_wf_def)
qed

lemmas device_statements =
  cancel_job_def device_removed_def expire_waiting_def expire_deleted_def queue_devices_def claim_device_def unqueue_def

lemma in_state_mono: "x \<in> in_state S db \<Longrightarrow> S \<subseteq> T \<Longrightarrow> x \<in> in_state T db"
  by (auto simp: in_state_def)

lemma open_not_finished:
  "jobs_wf db \<Longrightarrow> S \<subseteq> {Queued, Waiting} \<Longrightarrow> \<forall>x \<in> in_state S db. K x \<longrightarrow> fst x \<notin> finished_jobs db"
  using in_state_mono [of _ S db "{Queued, Waiting}"] by (fastforce simp: jobs_wf_def)

lemma settling_wf:
  assumes "jobs_wf db"
  shows "jobs_wf (cancel_job j now db)" "jobs_wf (device_removed d now db)" "jobs_wf (expire_waiting now db)"
    "jobs_wf (expire_deleted now db)" "jobs_wf (queue_devices ds now db)" "jobs_wf (unqueue job d Queued now db)"
proof -
  show "jobs_wf (cancel_job j now db)"
    unfolding cancel_job_def
    by (rule set_devices_wf [where B = Cancelled and A = "{Queued, Waiting}" and K = "\<lambda>x. fst x = j"])
      (use assms in auto)
  show "jobs_wf (device_removed d now db)"
    unfolding device_removed_def
    by (rule set_devices_wf [where B = Missed and A = "{Queued, Waiting}" and K = "\<lambda>x. snd x = d"])
      (use assms in auto)
  show "jobs_wf (expire_waiting now db)"
    unfolding expire_waiting_def
    by (rule set_devices_wf [where B = Missed and A = "{Waiting}" and
          K = "\<lambda>x. fst x \<in> jb_id ` {j \<in> set (jt_jobs db). jb_expires_at j \<le> now \<and> jb_finished_at j = None}"])
      (use assms in auto)
  show "jobs_wf (expire_deleted now db)"
    unfolding expire_deleted_def
    by (rule set_devices_wf [where B = Missed and A = "{Queued, Waiting}" and
          K = "\<lambda>x. snd x \<notin> ag_id ` set (filter agent_active (jt_agents db))"]) (use assms in auto)
  show "jobs_wf (queue_devices ds now db)"
    unfolding queue_devices_def
    by (rule set_devices_wf [where B = Queued and A = "{Waiting}" and K = "\<lambda>x. snd x \<in> set ds"])
      (use assms open_not_finished [OF assms, of "{Waiting}"] in \<open>simp_all add: conj_commute\<close>)
  show "jobs_wf (unqueue job d Queued now db)"
    unfolding unqueue_def Let_def
    by (rule set_devices_wf [where B = "if jb_offline job = Offline_Wait \<and> now < jb_expires_at job then Waiting else Missed"
          and A = "{Queued}" and K = "\<lambda>x. x = (jb_id job, d)"])
      (use assms open_not_finished [OF assms, of "{Queued}" "\<lambda>_. True"] in \<open>auto split: if_splits\<close>)
qed

section \<open>Starting and discarding runs\<close>

definition has_run :: "job_kind \<Rightarrow> rust_string \<Rightarrow> rust_string \<Rightarrow> rust_string \<Rightarrow> jobs_db \<Rightarrow> bool" where
  "has_run kind i j d db \<longleftrightarrow> (\<exists>p \<in> set (all_parts db). part_pending kind i p \<and> part_key p = Some (j, d))"

lemma all_parts_set_devices [simp]: "all_parts (set_devices P f db) = all_parts db"
  by (simp add: all_parts_def)

lemma has_run_set_devices [simp]: "has_run kind i j d (set_devices P f db) = has_run kind i j d db"
  by (simp add: has_run_def)

lemma prepare_effect:
  assumes "prepare job d i now db = Prepared db' c"
  shows "jt_devices db' = jt_devices db" "jt_jobs db' = jt_jobs db"
    "set (job_parts db') = insert (jb_id job, d) (set (job_parts db))"
    "distinct (job_parts db) \<Longrightarrow> (jb_id job, d) \<notin> set (job_parts db) \<Longrightarrow> distinct (job_parts db')"
    "ids_distinct db \<Longrightarrow> ids_distinct db'"
    "c \<noteq> None \<Longrightarrow> has_run (jb_kind job) i (jb_id job) d db'"
  using assms
  by (auto simp: prepare_def prepare_script_def prepare_file_def prepare_update_def insert_run_def insert_delivery_def
      insert_update_run_def Let_def job_parts_def all_parts_def ids_distinct_def has_run_def map_filter_append List.map_filter_simps
      split: job_kind.splits option.splits if_splits)

lemma is_queued_iff: "is_queued db j d \<longleftrightarrow> (j, d) \<in> in_state {Queued} db"
  by (auto simp: is_queued_def in_state_iff list_ex_iff)

lemma claim_device_wf:
  assumes "jobs_wf db" "jt_devices db' = jt_devices db" "jt_jobs db' = jt_jobs db" "ids_distinct db'"
    and parts: "distinct (job_parts db')" "set (job_parts db') \<subseteq> insert (j, d) (set (job_parts db))"
    and queued: "(j, d) \<in> in_state {Queued} db"
  shows "jobs_wf (claim_device j d now db')"
    and "in_state {Started} (claim_device j d now db') = insert (j, d) (in_state {Started} db)"
    and "finished_jobs (claim_device j d now db') = finished_jobs db" "j \<notin> finished_jobs db"
proof -
  have same: "keys db' = keys db" "in_state S db' = in_state S db" "finished_jobs db' = finished_jobs db" for S
    using assms(2,3) by (simp_all add: keys_def in_state_def finished_jobs_def)
  have wf: "distinct (keys db')" using assms(1) same by (simp add: jobs_wf_def)
  have f: "jd_job (d\<lparr>jd_state := Started, jd_updated_at := now\<rparr>) = jd_job d
      \<and> jd_device (d\<lparr>jd_state := Started, jd_updated_at := now\<rparr>) = jd_device d
      \<and> jd_state (d\<lparr>jd_state := Started, jd_updated_at := now\<rparr>) = Started" for d :: job_device by simp
  have P: "jd_job x = j \<and> jd_device x = d \<and> jd_state x = Queued \<longleftrightarrow> (jd_job x, jd_device x) = (j, d) \<and> jd_state x \<in> {Queued}"
    for x by auto
  note moved = moves_iff [OF set_devices_moves [OF wf f P], folded claim_device_def]
  show started: "in_state {Started} (claim_device j d now db') = insert (j, d) (in_state {Started} db)"
    using queued same(2) in_state_disjoint [of db "(j, d)" "{Started}" "{Queued}"] assms(1)
    by (auto simp: moved jobs_wf_def)
  show "finished_jobs (claim_device j d now db') = finished_jobs db" by (simp add: claim_device_def same(3))
  show "j \<notin> finished_jobs db" using open_not_finished [OF assms(1), of "{Queued}" "\<lambda>_. True"] queued by force
  have keys: "keys (claim_device j d now db') = keys db'" by (simp add: claim_device_def set_devices_keys)
  have "fst ` in_state {Queued, Waiting} (claim_device j d now db') \<inter> finished_jobs db = {}"
    using open_not_finished [OF assms(1), of "{Queued, Waiting}" "\<lambda>_. True"] same(2) by (auto simp: moved)
  then show "jobs_wf (claim_device j d now db')"
    using assms(1,4) parts same started keys by (auto simp: jobs_wf_def claim_device_def [of j d now] assms(3))
qed

lemma start_claim_wf:
  assumes "jobs_wf db" "start_claim job d online i now db = Claimed db' run_id c"
  shows "jobs_wf db'" "in_state {Started} db' = insert (jb_id job, d) (in_state {Started} db)"
    "finished_jobs db' = finished_jobs db" "jb_id job \<notin> finished_jobs db" "run_id = i"
    "c \<noteq> None \<Longrightarrow> has_run (jb_kind job) i (jb_id job) d db'" "(jb_id job, d) \<in> in_state {Queued} db"
    "job_parts db' \<noteq> [] \<and> set (job_parts db') = insert (jb_id job, d) (set (job_parts db))"
proof -
  from assms(2) obtain db1 where 1: "prepare job d i now db = Prepared db1 c" "is_queued db (jb_id job) d"
      "db' = claim_device (jb_id job) d now db1" "run_id = i"
    by (auto simp: start_claim_def split: if_splits prepared.splits)
  note p = prepare_effect [OF 1(1)]
  have queued: "(jb_id job, d) \<in> in_state {Queued} db" using 1(2) by (simp add: is_queued_iff)
  have free: "(jb_id job, d) \<notin> set (job_parts db)"
    using queued assms(1) in_state_disjoint [of db "(jb_id job, d)" "{Started}" "{Queued}"] by (auto simp: jobs_wf_def)
  have w: "ids_distinct db" "distinct (job_parts db)" using assms(1) by (auto simp: jobs_wf_def)
  note c = claim_device_wf [OF assms(1) p(1,2) p(5) [OF w(1)] p(4) [OF w(2) free] equalityD1 [OF p(3)] queued]
  show "jobs_wf db'" "in_state {Started} db' = insert (jb_id job, d) (in_state {Started} db)"
    "finished_jobs db' = finished_jobs db" "jb_id job \<notin> finished_jobs db"
    using c by (simp_all add: 1(3))
  show "run_id = i" by (rule 1(4))
  show "(jb_id job, d) \<in> in_state {Queued} db" by (rule queued)
  show "has_run (jb_kind job) i (jb_id job) d db'" if "c \<noteq> None"
    using p(6) [OF that] by (simp add: 1(3) claim_device_def)
  show "job_parts db' \<noteq> [] \<and> set (job_parts db') = insert (jb_id job, d) (set (job_parts db))"
    using p(3) by (auto simp: 1(3) claim_device_def)
qed

lemma start_not_claimed_wf:
  "jobs_wf db \<Longrightarrow> start_claim job d online i now db = Not_Started db' \<Longrightarrow>
     db' = db \<or> db' = unqueue job d Queued now db"
  by (auto simp: start_claim_def split: if_splits prepared.splits)

lemma discard_run_parts: "all_parts (discard_run kind i db) = filter (\<lambda>p. \<not> part_pending kind i p) (all_parts db)"
  by (cases kind) (simp_all add: discard_run_def all_parts_def filter_map o_def)

lemma discard_run_effect:
  assumes "jobs_wf db" "has_run kind i j d db"
  shows "jt_devices (discard_run kind i db) = jt_devices db" "jt_jobs (discard_run kind i db) = jt_jobs db"
    "ids_distinct (discard_run kind i db)" "distinct (job_parts (discard_run kind i db))"
    "set (job_parts (discard_run kind i db)) \<subseteq> set (job_parts db) - {(j, d)}"
proof -
  have wf: "ids_distinct db" "distinct (job_parts db)" using assms(1) by (simp_all add: jobs_wf_def)
  show "jt_devices (discard_run kind i db) = jt_devices db" "jt_jobs (discard_run kind i db) = jt_jobs db"
    by (simp_all add: discard_run_def split: job_kind.split)
  show "ids_distinct (discard_run kind i db)"
    using wf(1) by (auto simp: discard_run_def ids_distinct_def distinct_map_filter split: job_kind.split)
  show "distinct (job_parts (discard_run kind i db))"
    using wf(2) by (simp add: job_parts_def discard_run_parts distinct_map_filter_filter)
  obtain p where p: "p \<in> set (all_parts db)" "part_pending kind i p" "part_key p = Some (j, d)"
    using assms(2) by (auto simp: has_run_def)
  have "q = p" if "q \<in> set (all_parts db)" "part_key q = Some (j, d)" for q
    using map_filter_unique [OF wf(2) [unfolded job_parts_def] that(1) p(1) that(2) p(3)] .
  then show "set (job_parts (discard_run kind i db)) \<subseteq> set (job_parts db) - {(j, d)}"
    using p(2) by (auto simp: job_parts_def discard_run_parts in_map_filter_iff)
qed

lemma start_refused_wf:
  assumes "jobs_wf db" "has_run (jb_kind job) i (jb_id job) d db" "jb_id job \<notin> finished_jobs db"
  shows "jobs_wf (start_refused job d i now db)"
    and "in_state {Started} (start_refused job d i now db) = in_state {Started} db - {(jb_id job, d)}"
    and "finished_jobs (start_refused job d i now db) = finished_jobs db"
    and "set (job_parts (start_refused job d i now db)) \<subseteq> set (job_parts db)"
proof -
  let ?db = "discard_run (jb_kind job) i db"
  note e = discard_run_effect [OF assms(1,2)]
  have same: "keys ?db = keys db" "in_state S ?db = in_state S db" "finished_jobs ?db = finished_jobs db" for S
    using e(1,2) by (simp_all add: keys_def in_state_def finished_jobs_def)
  have wf: "jobs_wf ?db" using assms(1) e same by (auto simp: jobs_wf_def)
  define B where "B = (if jb_offline job = Offline_Wait \<and> now < jb_expires_at job then Waiting else Missed)"
  have B: "B \<noteq> Started" by (simp add: B_def)
  let ?f = "\<lambda>d :: job_device. d\<lparr>jd_state := B,
      jd_detail := (if jb_offline job = Offline_Wait \<and> now < jb_expires_at job then None else Some (lit ''The device was offline'')),
      jd_updated_at := now\<rparr>"
  have f: "jd_job (?f x) = jd_job x \<and> jd_device (?f x) = jd_device x \<and> jd_state (?f x) = B" for x by simp
  have P: "jd_job x = jb_id job \<and> jd_device x = d \<and> jd_state x = Started \<longleftrightarrow>
      (jd_job x, jd_device x) = (jb_id job, d) \<and> jd_state x \<in> {Started}" for x by auto
  have refused: "start_refused job d i now db =
      set_devices (\<lambda>x. jd_job x = jb_id job \<and> jd_device x = d \<and> jd_state x = Started) ?f ?db"
    by (simp add: start_refused_def unqueue_def B_def Let_def)
  show "jobs_wf (start_refused job d i now db)"
    unfolding refused
    by (rule set_devices_wf [where B = B and A = "{Started}" and K = "\<lambda>x. x = (jb_id job, d)", OF wf f P])
      (use e(5) assms(3) same(3) in auto)
  have "distinct (keys ?db)" using wf by (simp add: jobs_wf_def)
  note moved = moves_iff [OF set_devices_moves [where P = "\<lambda>x. jd_job x = jb_id job \<and> jd_device x = d \<and> jd_state x = Started"
        and f = ?f and B = B and A = "{Started}" and K = "\<lambda>x. x = (jb_id job, d)", OF this f P], folded refused]
  show "in_state {Started} (start_refused job d i now db) = in_state {Started} db - {(jb_id job, d)}"
    using B same(2) by (auto simp: moved)
  show "finished_jobs (start_refused job d i now db) = finished_jobs db"
    "set (job_parts (start_refused job d i now db)) \<subseteq> set (job_parts db)"
    using e(5) same(3) by (auto simp: refused)
qed

section \<open>Other changes of the tables\<close>

lemma map_filter_single: "distinct (List.map_filter f xs) \<Longrightarrow> length (filter (\<lambda>x. f x = Some z) xs) \<le> 1"
proof (induction xs)
  case (Cons x xs)
  show ?case
  proof (cases "f x = Some z")
    case True
    then have "z \<notin> set (List.map_filter f xs)" using Cons.prems by (simp add: List.map_filter_simps)
    then have "filter (\<lambda>x. f x = Some z) xs = []" by (auto simp: filter_empty_conv in_map_filter_iff)
    with True show ?thesis by simp
  qed (use Cons in \<open>auto simp: List.map_filter_simps split: option.splits\<close>)
qed simp

lemma wf_at_most_one_part:
  assumes "jobs_wf db"
  shows "at_most_one_part db j d"
proof -
  have key: "map_option (\<lambda>j. (j, x)) y = Some (j, d) \<longleftrightarrow> y = Some j \<and> x = d" for x y by (cases y) auto
  have "length (filter (\<lambda>p. part_key p = Some (j, d)) (all_parts db)) \<le> 1"
    using assms by (intro map_filter_single) (simp add: jobs_wf_def job_parts_def)
  then show ?thesis by (simp add: all_parts_def filter_map o_def key at_most_one_part_def)
qed

lemma unchanged_wf:
  assumes "jt_devices db' = jt_devices db" "jt_jobs db' = jt_jobs db" "map part_key (all_parts db') = map part_key (all_parts db)"
    "ids_distinct db' = ids_distinct db"
  shows "jobs_wf db' = jobs_wf db" "in_state S db' = in_state S db" "finished_jobs db' = finished_jobs db"
    "job_parts db' = job_parts db"
proof -
  have "List.map_filter f xs = map the (filter (\<lambda>x. x \<noteq> None) (map f xs))" for f and xs :: "job_part list"
    by (induction xs) (auto simp: List.map_filter_simps split: option.split)
  then show parts: "job_parts db' = job_parts db" unfolding job_parts_def using assms(3) by metis
  show "in_state S db' = in_state S db" "finished_jobs db' = finished_jobs db"
    using assms(1,2) by (simp_all add: in_state_def finished_jobs_def)
  then show "jobs_wf db' = jobs_wf db"
    using assms parts by (simp add: jobs_wf_def keys_def in_state_def)
qed

lemma row_columns:
  "sr_id (if P then r\<lparr>sr_status := sr, sr_exit_code := code\<rparr> else r) = sr_id r"
  "sr_job (if P then r\<lparr>sr_status := sr, sr_exit_code := code\<rparr> else r) = sr_job r"
  "sr_device (if P then r\<lparr>sr_status := sr, sr_exit_code := code\<rparr> else r) = sr_device r"
  "sr_id (if P then r\<lparr>sr_status := sr\<rparr> else r) = sr_id r"
  "sr_job (if P then r\<lparr>sr_status := sr\<rparr> else r) = sr_job r"
  "sr_device (if P then r\<lparr>sr_status := sr\<rparr> else r) = sr_device r"
  "fd_id (if P then f\<lparr>fd_status := sf, fd_error := fe\<rparr> else f) = fd_id f"
  "fd_job (if P then f\<lparr>fd_status := sf, fd_error := fe\<rparr> else f) = fd_job f"
  "fd_device (if P then f\<lparr>fd_status := sf, fd_error := fe\<rparr> else f) = fd_device f"
  "ur_id (if P then u\<lparr>ur_status := su\<rparr> else u) = ur_id u"
  "ur_job (if P then u\<lparr>ur_status := su\<rparr> else u) = ur_job u"
  "ur_device (if P then u\<lparr>ur_status := su\<rparr> else u) = ur_device u"
  "wr_id (if P then w\<lparr>wr_status := sw\<rparr> else w) = wr_id w"
  "wr_job (if P then w\<lparr>wr_status := sw\<rparr> else w) = wr_job w"
  "wr_device (if P then w\<lparr>wr_status := sw\<rparr> else w) = wr_device w"
  "wr_id (if P then w\<lparr>wr_online_at := x\<rparr> else w) = wr_id w"
  "wr_job (if P then w\<lparr>wr_online_at := x\<rparr> else w) = wr_job w"
  "wr_device (if P then w\<lparr>wr_online_at := x\<rparr> else w) = wr_device w"
  by simp_all

lemmas report_defs =
  report_script_run_def report_file_delivery_def finish_scan_def finish_install_def lose_runs_def sweep_lost_def
  wake_settle_def wake_device_connected_def

definition same_parts :: "jobs_db \<Rightarrow> jobs_db \<Rightarrow> bool" where
  "same_parts db db' \<longleftrightarrow>
     jt_devices db' = jt_devices db \<and> jt_jobs db' = jt_jobs db \<and> map part_key (all_parts db') = map part_key (all_parts db)
     \<and> ids_distinct db' = ids_distinct db"

lemma reports_same_parts:
  "same_parts db (report_script_run d i rs code db)" "same_parts db (report_file_delivery d i fs err db)"
  "same_parts db (finish_scan d i failed db)" "same_parts db (finish_install d i us db)"
  "same_parts db (lose_runs now db)" "same_parts db (sweep_lost now db)"
  "same_parts db (wake_settle i ws db)" "same_parts db (wake_device_connected d now db)"
  "same_parts db (db\<lparr>jt_agents := agents\<rparr>)" "same_parts db (db\<lparr>jt_files := files\<rparr>)"
  by (simp_all add: same_parts_def report_defs all_parts_def ids_distinct_def o_def row_columns)

lemma same_parts_wf:
  assumes "same_parts db db'"
  shows "jobs_wf db' = jobs_wf db" "in_state S db' = in_state S db" "finished_jobs db' = finished_jobs db"
    "job_parts db' = job_parts db"
  using unchanged_wf [of db' db] assms by (simp_all add: same_parts_def)

lemma create_job_wf:
  assumes "jobs_wf db" "create_job lower job online i now db = Ok db'"
  shows "jobs_wf db'" "in_state {Started} db' = in_state {Started} db" "finished_jobs db' = finished_jobs db"
    "job_parts db' = job_parts db" "all_parts db' = all_parts db"
proof -
  define devices where "devices = resolve_devices lower (nj_target job) (jt_agents db)"
  define row where "row a = (case initial_state job a online of (s, d) \<Rightarrow>
      \<lparr>jd_job = i, jd_device = ag_id a, jd_state = s, jd_detail = d, jd_updated_at = now\<rparr>)" for a
  have row: "jd_job (row a) = i" "jd_device (row a) = ag_id a" "jd_state (row a) \<noteq> Started" for a
    by (simp_all add: row_def initial_state_def split: option.split)
  have db': "i \<notin> jb_id ` set (jt_jobs db)" "distinct (map ag_id devices)"
      "db' = db\<lparr>jt_jobs := jt_jobs db @ [new_job_row lower job i now], jt_devices := jt_devices db @ map row devices\<rparr>"
    using assms(2) by (auto simp: create_job_def Let_def devices_def row_def [abs_def] split: if_splits)
  have new: "jb_id (new_job_row lower job i now) = i" "jb_finished_at (new_job_row lower job i now) = None"
    by (simp_all add: new_job_row_def Let_def)
  have wf: "fst ` set (keys db) \<subseteq> jb_id ` set (jt_jobs db)" using assms(1) by (simp add: jobs_wf_def)
  have old: "(i, d) \<notin> set (keys db)" for d using wf db'(1) by force
  show started: "in_state {Started} db' = in_state {Started} db" using row by (auto simp: db'(3) in_state_def)
  show fin: "finished_jobs db' = finished_jobs db" using new by (auto simp: db'(3) finished_jobs_def)
  show parts: "job_parts db' = job_parts db" "all_parts db' = all_parts db" by (simp_all add: db'(3) job_parts_def all_parts_def)
  have keys: "keys db' = keys db @ map (\<lambda>a. (i, ag_id a)) devices" using row by (simp add: db'(3) keys_def)
  have "i \<notin> finished_jobs db" using db'(1) by (auto simp: finished_jobs_def)
  then have open': "fst ` in_state {Queued, Waiting} db' \<inter> finished_jobs db = {}"
    using open_not_finished [OF assms(1), of "{Queued, Waiting}" "\<lambda>_. True"] row by (auto simp: db'(3) in_state_def)
  have "distinct (keys db')"
    using assms(1) db'(2) old by (auto simp: keys jobs_wf_def distinct_map inj_on_def)
  moreover have "ids_distinct db'" using assms(1) db'(1) new by (auto simp: db'(3) jobs_wf_def ids_distinct_def)
  moreover have "fst ` set (keys db') \<subseteq> jb_id ` set (jt_jobs db')" using wf new by (auto simp: keys) (auto simp: db'(3))
  ultimately show "jobs_wf db'" using assms(1) started fin parts open' by (simp add: jobs_wf_def)
qed

lemma finish_jobs_wf:
  assumes "jobs_wf db"
  shows "jobs_wf (finish_jobs now db)" "in_state S (finish_jobs now db) = in_state S db"
    "job_parts (finish_jobs now db) = job_parts db" "all_parts (finish_jobs now db) = all_parts db"
proof -
  let ?done = "\<lambda>j. jb_finished_at j = None \<and> counts_active (job_counts_of db (unfinished db) now (jb_id j)) = 0"
  let ?f = "\<lambda>j. if ?done j then j\<lparr>jb_finished_at := Some now\<rparr> else j"
  have db': "finish_jobs now db = db\<lparr>jt_jobs := map ?f (jt_jobs db)\<rparr>" by (simp add: finish_jobs_def Let_def)
  show state: "in_state S (finish_jobs now db) = in_state S db" "job_parts (finish_jobs now db) = job_parts db"
    "all_parts (finish_jobs now db) = all_parts db" for S by (simp_all add: db' in_state_def job_parts_def all_parts_def)
  have ids: "map jb_id (map ?f (jt_jobs db)) = map jb_id (jt_jobs db)" by (simp cong: map_cong)
  have dist: "distinct (unfinished db)" using assms by (auto simp: unfinished_def jobs_wf_def ids_distinct_def distinct_map_filter)
  have "j \<notin> finished_jobs (finish_jobs now db)" if q: "(j, d) \<in> in_state {Queued, Waiting} db" for j d
  proof
    assume "j \<in> finished_jobs (finish_jobs now db)"
    then obtain job where job: "job \<in> set (jt_jobs db)" "jb_id job = j" "jb_finished_at (?f job) \<noteq> None"
      by (auto simp: finished_jobs_def db' split: if_splits)
    have "j \<notin> finished_jobs db" using open_not_finished [OF assms, of "{Queued, Waiting}" "\<lambda>_. True"] q by force
    then have unfinished: "jb_finished_at job = None" using job(1,2) by (auto simp: finished_jobs_def)
    then have "?done job" using job(3) by (simp split: if_splits)
    moreover obtain x where "x \<in> set (jt_devices db)" "jd_job x = j" "jd_state x \<in> {Queued, Waiting}"
      using q unfolding in_state_iff by blast
    moreover have "j \<in> set (unfinished db)" using job(1,2) unfinished by (auto simp: unfinished_def)
    ultimately show False using open_device_active [of x db "unfinished db" now] dist job(2) by auto
  qed
  moreover have ids': "map jb_id (jt_jobs (finish_jobs now db)) = map jb_id (jt_jobs db)" using ids by (simp add: db')
  then have "jb_id ` set (jt_jobs (finish_jobs now db)) = jb_id ` set (jt_jobs db)" by (metis set_map)
  moreover have "keys (finish_jobs now db) = keys db" by (simp add: db' keys_def)
  moreover have "ids_distinct (finish_jobs now db) = ids_distinct db"
    unfolding ids_distinct_def ids' by (simp add: db')
  ultimately show "jobs_wf (finish_jobs now db)" using assms state by (auto simp: jobs_wf_def)
qed

end
