(* ===== verification/Job_Runs.thy ===== *)
theory Job_Runs
  imports Job_Safety
begin

text \<open>
  Over any run of the engine a device gets a job's command at most once, whatever is cancelled, expires or
  restarts meanwhile.
\<close>

section \<open>Wakes and rows by hand\<close>

lemma states_kept:
  assumes "distinct (keys db)"
    and "\<And>d. jd_job (f d) = jd_job d \<and> jd_device (f d) = jd_device d \<and> jd_state (f d) = B"
    and "\<And>d. d \<in> set (jt_devices db) \<Longrightarrow> P d \<longleftrightarrow> K (jd_job d, jd_device d) \<and> jd_state d \<in> A" "A \<inter> S = {}"
  shows "in_state S db \<subseteq> in_state S (set_devices P f db)"
  using moves_iff [OF set_devices_moves [OF assms(1,2,3)]] in_state_disjoint [OF assms(1)] assms(4) by blast

text \<open>The devices a job is over with, or has started on.\<close>

definition over :: "jobs_db \<Rightarrow> (rust_string \<times> rust_string) set" where
  "over db = in_state {Started, Skipped, Missed, Cancelled} db"

lemma wake_claim_step:
  assumes "jobs_wf db" "db' = set_devices (\<lambda>x. jd_job x = j \<and> jd_device x = d \<and> jd_state x = Queued)
      (if online then (\<lambda>x. x\<lparr>jd_state := Skipped, jd_detail := t, jd_updated_at := now\<rparr>)
       else (\<lambda>x. x\<lparr>jd_state := Started, jd_detail := None, jd_updated_at := now\<rparr>)) db"
  shows "jobs_wf db'" "in_state {Started} db' = in_state {Started} db \<union> (if \<not> online \<and> is_queued db j d then {(j, d)} else {})"
    "in_state {Queued} db' = in_state {Queued} db - {(j, d)}" "all_parts db' = all_parts db" "finished_jobs db' = finished_jobs db"
    "over db \<subseteq> over db'" "keys db' = keys db"
proof -
  let ?B = "if online then Skipped else Started"
  let ?f = "if online then (\<lambda>x. x\<lparr>jd_state := Skipped, jd_detail := t, jd_updated_at := now\<rparr>)
       else (\<lambda>x. x\<lparr>jd_state := Started, jd_detail := None, jd_updated_at := now\<rparr>)"
  have f: "jd_job (?f x) = jd_job x \<and> jd_device (?f x) = jd_device x \<and> jd_state (?f x) = ?B" for x by simp
  have P: "jd_job x = j \<and> jd_device x = d \<and> jd_state x = Queued \<longleftrightarrow> (jd_job x, jd_device x) = (j, d) \<and> jd_state x \<in> {Queued}"
    for x by auto
  have dist: "distinct (keys db)" using assms(1) by (simp add: jobs_wf_def)
  note moved = moves_iff [OF set_devices_moves [where f = ?f and B = ?B and K = "\<lambda>x. x = (j, d)" and A = "{Queued}", OF dist f P],
      folded assms(2)]
  show "jobs_wf db'"
    unfolding assms(2) by (rule set_devices_wf [where K = "\<lambda>x. x = (j, d)" and A = "{Queued}", OF assms(1) f P])
      (auto split: if_splits)
  show "in_state {Started} db' = in_state {Started} db \<union> (if \<not> online \<and> is_queued db j d then {(j, d)} else {})"
    using in_state_disjoint [OF dist, of _ "{Started}" "{Queued}"] by (auto simp: moved is_queued_iff)
  show "in_state {Queued} db' = in_state {Queued} db - {(j, d)}" by (auto simp: moved split: if_splits)
  show "over db \<subseteq> over db'"
    unfolding over_def assms(2) by (rule states_kept [where K = "\<lambda>x. x = (j, d)" and A = "{Queued}", OF dist f P]) auto
  show "all_parts db' = all_parts db" "finished_jobs db' = finished_jobs db" unfolding assms(2) by simp_all
  show "keys db' = keys db" unfolding assms(2) using f by (intro set_devices_keys) auto
qed

lemma wake_claims_effect:
  assumes "jobs_wf db" "wake_claims j ds online now db = (db', claimed)"
  shows "jobs_wf db' \<and> in_state {Started} db' = in_state {Started} db \<union> Pair j ` set claimed \<and> distinct claimed
    \<and> Pair j ` set claimed \<subseteq> in_state {Queued} db \<and> all_parts db' = all_parts db \<and> finished_jobs db' = finished_jobs db
    \<and> over db \<subseteq> over db'"
proof -
  define step where "step = (\<lambda>device (db, claimed).
         (set_devices (\<lambda>d. jd_job d = j \<and> jd_device d = device \<and> jd_state d = Queued)
            (if device \<in> online
             then (\<lambda>d. d\<lparr>jd_state := Skipped, jd_detail := Some (lit ''The device is online already''), jd_updated_at := now\<rparr>)
             else (\<lambda>d. d\<lparr>jd_state := Started, jd_detail := None, jd_updated_at := now\<rparr>)) db,
          if is_queued db j device \<and> device \<notin> online then claimed @ [device] else claimed))"
  define I where "I = (\<lambda>(x, cl). jobs_wf x \<and> in_state {Started} x = in_state {Started} db \<union> Pair j ` set cl \<and> distinct cl
      \<and> Pair j ` set cl \<subseteq> in_state {Queued} db \<and> all_parts x = all_parts db \<and> finished_jobs x = finished_jobs db
      \<and> over db \<subseteq> over x \<and> in_state {Queued} x \<subseteq> in_state {Queued} db - Pair j ` set cl)"
  have step: "I (step d x)" if "I x" for d x
  proof (cases x)
    case (Pair y cl)
    have y: "jobs_wf y" "I (y, cl)" using that by (simp_all add: Pair I_def)
    define y' where "y' = fst (step d (y, cl))"
    have y': "y' = set_devices (\<lambda>x. jd_job x = j \<and> jd_device x = d \<and> jd_state x = Queued)
        (if d \<in> online then (\<lambda>d. d\<lparr>jd_state := Skipped, jd_detail := Some (lit ''The device is online already''), jd_updated_at := now\<rparr>)
         else (\<lambda>d. d\<lparr>jd_state := Started, jd_detail := None, jd_updated_at := now\<rparr>)) y"
      by (simp add: y'_def step_def)
    note w = wake_claim_step [OF y(1) y']
    have "step d x = (y', if is_queued y j d \<and> d \<notin> online then cl @ [d] else cl)" by (simp add: Pair step_def y')
    then show ?thesis using w y(2) by (auto simp: I_def is_queued_iff)
  qed
  have "I (fold step ds x)" if "I x" for x
    using that by (induction ds arbitrary: x) (simp_all add: step)
  from this [of "(db, [])"] assms show ?thesis by (simp add: wake_claims_def step_def [symmetric] I_def)
qed

lemma wake_insert_effect:
  assumes "jobs_wf db" "wake_insert j relays new_ids now ds db = Some db'" "distinct ds"
    and "\<And>d. d \<in> set ds \<Longrightarrow> (j, d) \<in> in_state {Started} db \<and> (j, d) \<notin> set (job_parts db)"
  shows "jobs_wf db'" "in_state S db' = in_state S db" "finished_jobs db' = finished_jobs db"
proof -
  define rows where "rows = wake_rows j relays new_ids now ds"
  have db': "distinct (map wr_id (jt_wakes db @ rows))" "db' = db\<lparr>jt_wakes := jt_wakes db @ rows\<rparr>"
    using assms(2) by (auto simp: wake_insert_def Let_def rows_def split: if_splits)
  show state: "in_state S db' = in_state S db" "finished_jobs db' = finished_jobs db" for S
    by (simp_all add: db'(2) in_state_def finished_jobs_def)
  have keys: "List.map_filter part_key (map Wake_Part rows) = map (Pair j) (filter (\<lambda>d. relays d \<noteq> None) ds)"
    using assms(3) unfolding rows_def wake_rows_def
    by (simp add: distinct_remdups_id) (induction ds, auto simp: List.map_filter_simps)
  have parts: "job_parts db' = job_parts db @ map (Pair j) (filter (\<lambda>d. relays d \<noteq> None) ds)"
    by (simp add: db'(2) job_parts_def all_parts_def map_filter_append keys)
  have "distinct (job_parts db')" "set (job_parts db') \<subseteq> in_state {Started} db"
    using assms(1,3,4) by (auto simp: parts jobs_wf_def distinct_map inj_on_def)
  moreover have "ids_distinct db'" using assms(1) db'(1) by (simp add: db'(2) jobs_wf_def ids_distinct_def)
  moreover have "keys db' = keys db" by (simp add: db'(2) keys_def)
  ultimately show "jobs_wf db'" using assms(1) state by (simp add: jobs_wf_def) (simp add: db'(2))
qed

lemma by_hand_effect:
  assumes "jobs_wf db"
  shows "jobs_wf (insert_by_hand rs fs us db)" "in_state S (insert_by_hand rs fs us db) = in_state S db"
    "finished_jobs (insert_by_hand rs fs us db) = finished_jobs db" "job_parts (insert_by_hand rs fs us db) = job_parts db"
    "set (all_parts db) \<subseteq> set (all_parts (insert_by_hand rs fs us db))"
proof -
  have none: "List.map_filter part_key (map (\<lambda>r. Run_Part (r\<lparr>sr_job := None\<rparr>)) rs) = []"
    "List.map_filter part_key (map (\<lambda>f. Delivery_Part (f\<lparr>fd_job := None\<rparr>)) fs) = []"
    "List.map_filter part_key (map (\<lambda>u. Update_Part (u\<lparr>ur_job := None\<rparr>)) us) = []"
    by (simp_all add: List.map_filter_def o_def)
  show state: "in_state S (insert_by_hand rs fs us db) = in_state S db"
    "finished_jobs (insert_by_hand rs fs us db) = finished_jobs db" for S
    by (simp_all add: insert_by_hand_def Let_def in_state_def finished_jobs_def)
  show parts: "job_parts (insert_by_hand rs fs us db) = job_parts db"
    by (simp add: insert_by_hand_def Let_def job_parts_def all_parts_def map_filter_append none o_def)
  show "set (all_parts db) \<subseteq> set (all_parts (insert_by_hand rs fs us db))"
    by (auto simp: insert_by_hand_def Let_def all_parts_def)
  have "ids_distinct (insert_by_hand rs fs us db)" if "ids_distinct db"
    using that unfolding insert_by_hand_def Let_def ids_distinct_def by (simp split: if_split)
  moreover have "keys (insert_by_hand rs fs us db) = keys db" "jt_jobs (insert_by_hand rs fs us db) = jt_jobs db"
    by (simp_all add: insert_by_hand_def Let_def keys_def)
  ultimately show "jobs_wf (insert_by_hand rs fs us db)"
    using assms state parts by (simp add: jobs_wf_def)
qed

section \<open>The invariant of the engine\<close>

text \<open>
  The pass that hands a command over has the run's row in the database still. \<open>B\<close> are devices that were started or
  settled, and \<open>F\<close> jobs that were finished, when the log of the commands began.
\<close>

definition sending_key :: "sending \<Rightarrow> rust_string \<times> rust_string" where
  "sending_key d = (jb_id (sd_job d), sd_device d)"

fun part_deadline :: "job_part \<Rightarrow> int" where
  "part_deadline (Run_Part r) = run_deadline r"
| "part_deadline (Delivery_Part f) = delivery_deadline f"
| "part_deadline (Update_Part u) = update_deadline u"
| "part_deadline (Wake_Part w) = wake_deadline w"

definition sending_part :: "int \<Rightarrow> sending \<Rightarrow> job_part \<Rightarrow> bool" where
  "sending_part clock d p \<longleftrightarrow>
     part_pending (jb_kind (sd_job d)) (sd_run d) p \<and> part_key p = Some (sending_key d)
     \<and> clock + RUN_REPORT_GRACE_MS \<le> part_deadline p"

definition sending_run :: "int \<Rightarrow> sending \<Rightarrow> jobs_db \<Rightarrow> bool" where
  "sending_run clock d db \<longleftrightarrow> list_ex (sending_part clock d) (all_parts db)"

definition sending_ok :: "(rust_string \<times> rust_string) set \<Rightarrow> rust_string set \<Rightarrow> job_engine \<Rightarrow> sending \<Rightarrow> bool" where
  "sending_ok B F s d \<longleftrightarrow>
     je_pass s \<noteq> None \<and> je_waking s = None \<and> sending_key d \<notin> B \<union> set (je_sent s) \<and> sending_run (je_clock s) d (je_db s)
     \<and> jb_id (sd_job d) \<notin> finished_jobs (je_db s)"

definition waking_ok :: "job_engine \<Rightarrow> rust_string \<times> rust_string list \<Rightarrow> bool" where
  "waking_ok s w \<longleftrightarrow>
     distinct (snd w) \<and> (\<forall>d \<in> set (snd w). (fst w, d) \<in> in_state {Started} (je_db s) - set (job_parts (je_db s)))"

definition engine_inv :: "(rust_string \<times> rust_string) set \<Rightarrow> rust_string set \<Rightarrow> job_engine \<Rightarrow> bool" where
  "engine_inv B F s \<longleftrightarrow>
     jobs_wf (je_db s) \<and> distinct (je_sent s) \<and> set (je_sent s) \<subseteq> in_state {Started} (je_db s) - B \<and> B \<subseteq> over (je_db s)
     \<and> F \<subseteq> finished_jobs (je_db s) \<and> F \<inter> fst ` set (je_sent s) = {}
     \<and> pred_option (\<lambda>p. dp_now p = je_clock s) (je_pass s)
     \<and> pred_option (sending_ok B F s) (je_sending s) \<and> pred_option (waking_ok s) (je_waking s)"

text \<open>A change of the tables that leaves what is started and settled as it is.\<close>

definition keeps :: "jobs_db \<Rightarrow> jobs_db \<Rightarrow> bool" where
  "keeps db db' \<longleftrightarrow>
     jobs_wf db' \<and> in_state {Started} db \<subseteq> in_state {Started} db' \<and> over db \<subseteq> over db' \<and> finished_jobs db' = finished_jobs db
     \<and> job_parts db' = job_parts db"

lemma keeps_inv:
  assumes "engine_inv B F s" "keeps (je_db s) db'" "pred_option (\<lambda>d. sending_run (je_clock s) d db') (je_sending s)"
  shows "engine_inv B F (s\<lparr>je_db := db'\<rparr>)"
  using assms
  by (auto simp: engine_inv_def keeps_def option.pred_set sending_ok_def waking_ok_def)

lemma settling_keeps:
  assumes "jobs_wf db"
  shows "keeps db (cancel_job j now db)" "keeps db (device_removed d now db)" "keeps db (expire_waiting now db)"
    "keeps db (expire_deleted now db)" "keeps db (queue_devices ds now db)" "keeps db (unqueue job d Queued now db)"
    "all_parts (cancel_job j now db) = all_parts db" "all_parts (device_removed d now db) = all_parts db"
    "all_parts (expire_waiting now db) = all_parts db" "all_parts (expire_deleted now db) = all_parts db"
    "all_parts (queue_devices ds now db) = all_parts db" "all_parts (unqueue job d Queued now db) = all_parts db"
proof -
  have dist: "distinct (keys db)" using assms by (simp add: jobs_wf_def)
  have keeps: "keeps db (set_devices P f db)"
    if h: "\<And>d. jd_job (f d) = jd_job d \<and> jd_device (f d) = jd_device d \<and> jd_state (f d) = C"
      "\<And>d. P d \<longleftrightarrow> K (jd_job d, jd_device d) \<and> jd_state d \<in> A" "A \<subseteq> {Queued, Waiting}" "jobs_wf (set_devices P f db)"
    for P f C K A
  proof -
    have "in_state T db \<subseteq> in_state T (set_devices P f db)" if T: "T \<inter> {Queued, Waiting} = {}" for T
      by (rule states_kept [where B = C and K = K and A = A]) (use dist h T in auto)
    with h(4) show ?thesis by (simp add: keeps_def over_def)
  qed
  note wf = settling_wf [OF assms]
  show "keeps db (cancel_job j now db)"
    unfolding cancel_job_def
    by (rule keeps [where C = Cancelled and A = "{Queued, Waiting}" and K = "\<lambda>x. fst x = j", OF _ _ _ wf(1) [unfolded cancel_job_def]])
      auto
  show "keeps db (device_removed d now db)"
    unfolding device_removed_def
    by (rule keeps [where C = Missed and A = "{Queued, Waiting}" and K = "\<lambda>x. snd x = d", OF _ _ _ wf(2) [unfolded device_removed_def]])
      auto
  show "keeps db (expire_waiting now db)"
    unfolding expire_waiting_def
    by (rule keeps [where C = Missed and A = "{Waiting}" and
          K = "\<lambda>x. fst x \<in> jb_id ` {j \<in> set (jt_jobs db). jb_expires_at j \<le> now \<and> jb_finished_at j = None}",
          OF _ _ _ wf(3) [unfolded expire_waiting_def]]) auto
  show "keeps db (expire_deleted now db)"
    unfolding expire_deleted_def
    by (rule keeps [where C = Missed and A = "{Queued, Waiting}" and
          K = "\<lambda>x. snd x \<notin> ag_id ` set (filter agent_active (jt_agents db))", OF _ _ _ wf(4) [unfolded expire_deleted_def]]) auto
  show "keeps db (queue_devices ds now db)"
    unfolding queue_devices_def
    by (rule keeps [where C = Queued and A = "{Waiting}" and K = "\<lambda>x. snd x \<in> set ds", OF _ _ _ wf(5) [unfolded queue_devices_def]])
      auto
  show "keeps db (unqueue job d Queued now db)"
    unfolding unqueue_def Let_def
    by (rule keeps [where C = "if jb_offline job = Offline_Wait \<and> now < jb_expires_at job then Waiting else Missed"
          and A = "{Queued}" and K = "\<lambda>x. x = (jb_id job, d)", OF _ _ _ wf(6) [unfolded unqueue_def Let_def]]) auto
qed (simp_all add: device_statements Let_def)

lemma same_parts_keeps: "jobs_wf db \<Longrightarrow> same_parts db db' \<Longrightarrow> keeps db db'"
  by (simp add: keeps_def over_def same_parts_wf)

lemma create_job_keeps:
  assumes "jobs_wf db" "create_job lower job online i now db = Ok db'"
  shows "keeps db db'"
proof -
  have "set (jt_devices db) \<subseteq> set (jt_devices db')"
    using assms(2) by (auto simp: create_job_def Let_def split: if_splits)
  then show ?thesis using create_job_wf [OF assms] by (auto simp: keeps_def over_def in_state_def)
qed

lemma by_hand_keeps: "jobs_wf db \<Longrightarrow> keeps db (insert_by_hand rs fs us db)"
  by (simp add: keeps_def over_def by_hand_effect)

lemma sending_run_parts: "all_parts db' = all_parts db \<Longrightarrow> sending_run c d db' = sending_run c d db"
  by (simp add: sending_run_def)

lemma sending_run_more: "sending_run c d db \<Longrightarrow> set (all_parts db) \<subseteq> set (all_parts db') \<Longrightarrow> sending_run c d db'"
  by (auto simp: sending_run_def list_ex_iff)

lemma sending_run_key: "sending_run c d db \<Longrightarrow> sending_key d \<in> set (job_parts db)"
  by (auto simp: sending_run_def sending_part_def list_ex_iff job_parts_def in_map_filter_iff)

lemma sending_run_has_run: "sending_run c d db \<Longrightarrow> has_run (jb_kind (sd_job d)) (sd_run d) (jb_id (sd_job d)) (sd_device d) db"
  by (auto simp: sending_run_def sending_part_def list_ex_iff has_run_def sending_key_def)

text \<open>What the engine takes for granted of the world around it.\<close>

fun engine_legal :: "job_engine \<Rightarrow> engine_event \<Rightarrow> bool" where
  "engine_legal s (Begin_Dispatch now) \<longleftrightarrow> je_clock s \<le> now"
| "engine_legal s (Run_Reported d i status code) \<longleftrightarrow> pred_option (\<lambda>x. sd_run x \<noteq> i) (je_sending s)"
| "engine_legal s (Delivery_Reported d i status err) \<longleftrightarrow> pred_option (\<lambda>x. sd_run x \<noteq> i) (je_sending s)"
| "engine_legal s (Scan_Reported d i failed) \<longleftrightarrow> pred_option (\<lambda>x. sd_run x \<noteq> i) (je_sending s)"
| "engine_legal s (Install_Reported d i status) \<longleftrightarrow> pred_option (\<lambda>x. sd_run x \<noteq> i) (je_sending s)"
| "engine_legal s (Runs_Lost now) \<longleftrightarrow> pred_option (\<lambda>_. now \<le> je_clock s + RUN_REPORT_GRACE_MS) (je_sending s)"
| "engine_legal s (Updates_Lost now) \<longleftrightarrow> pred_option (\<lambda>_. now \<le> je_clock s + RUN_REPORT_GRACE_MS) (je_sending s)"
| "engine_legal s _ \<longleftrightarrow> True"

lemma in_map_fixed: "x \<in> set xs \<Longrightarrow> f x = x \<Longrightarrow> x \<in> f ` set xs"
  by force

lemma in_all_parts:
  "Run_Part r \<in> set (all_parts db) \<longleftrightarrow> r \<in> set (jt_runs db)" "Delivery_Part f \<in> set (all_parts db) \<longleftrightarrow> f \<in> set (jt_deliveries db)"
  "Update_Part u \<in> set (all_parts db) \<longleftrightarrow> u \<in> set (jt_updates db)" "Wake_Part w \<in> set (all_parts db) \<longleftrightarrow> w \<in> set (jt_wakes db)"
  by (auto simp: all_parts_def)

lemma reports_keep_run:
  assumes "sending_run c d db"
  shows "sd_run d \<noteq> i \<Longrightarrow> sending_run c d (report_script_run dev i rs code db)"
    "sd_run d \<noteq> i \<Longrightarrow> sending_run c d (report_file_delivery dev i fs err db)"
    "sd_run d \<noteq> i \<Longrightarrow> sending_run c d (finish_scan dev i failed db)"
    "sd_run d \<noteq> i \<Longrightarrow> sending_run c d (finish_install dev i us db)"
    "now \<le> c + RUN_REPORT_GRACE_MS \<Longrightarrow> sending_run c d (lose_runs now db)"
    "now \<le> c + RUN_REPORT_GRACE_MS \<Longrightarrow> sending_run c d (sweep_lost now db)"
    "sending_run c d (wake_settle i ws db)" "sending_run c d (wake_device_connected dev now db)"
proof -
  obtain p where p: "p \<in> set (all_parts db)" "sending_part c d p"
    using assms by (auto simp: sending_run_def list_ex_iff)
  have kept: "sending_run c d db'" if "p \<in> set (all_parts db')" for db'
    using that p(2) by (auto simp: sending_run_def list_ex_iff)
  note defs = in_all_parts report_defs sending_part_def
  show "sending_run c d (report_script_run dev i rs code db)" if "sd_run d \<noteq> i"
    by (rule kept, cases p; cases "jb_kind (sd_job d)") (use p that in \<open>auto simp: defs intro!: in_map_fixed\<close>)
  show "sending_run c d (report_file_delivery dev i fs err db)" if "sd_run d \<noteq> i"
    by (rule kept, cases p; cases "jb_kind (sd_job d)") (use p that in \<open>auto simp: defs intro!: in_map_fixed\<close>)
  show "sending_run c d (finish_scan dev i failed db)" if "sd_run d \<noteq> i"
    by (rule kept, cases p; cases "jb_kind (sd_job d)") (use p that in \<open>auto simp: defs intro!: in_map_fixed\<close>)
  show "sending_run c d (finish_install dev i us db)" if "sd_run d \<noteq> i"
    by (rule kept, cases p; cases "jb_kind (sd_job d)") (use p that in \<open>auto simp: defs intro!: in_map_fixed\<close>)
  show "sending_run c d (lose_runs now db)" if "now \<le> c + RUN_REPORT_GRACE_MS"
    by (rule kept, cases p; cases "jb_kind (sd_job d)") (use p that in \<open>auto simp: defs intro!: in_map_fixed\<close>)
  show "sending_run c d (sweep_lost now db)" if "now \<le> c + RUN_REPORT_GRACE_MS"
    by (rule kept, cases p; cases "jb_kind (sd_job d)") (use p that in \<open>auto simp: defs intro!: in_map_fixed\<close>)
  show "sending_run c d (wake_settle i ws db)" "sending_run c d (wake_device_connected dev now db)"
    by (rule kept, cases p; cases "jb_kind (sd_job d)"; use p in \<open>auto simp: defs intro!: in_map_fixed\<close>)+
qed

lemma prepare_run:
  assumes "prepare job d i now db = Prepared db' (Some c)"
  shows "sending_run now \<lparr>sd_job = job, sd_device = d, sd_run = i, sd_command = c\<rparr> db'"
  using assms
  by (auto simp: prepare_def prepare_script_def prepare_file_def prepare_update_def insert_run_def insert_delivery_def
      insert_update_run_def Let_def all_parts_def sending_run_def sending_part_def sending_key_def list_ex_iff u32_of_int_def
      run_deadline_def delivery_deadline_def update_deadline_def RUN_REPORT_GRACE_MS_def DELIVERY_WINDOW_MS_def
      SCAN_REPORT_WINDOW_MS_def INSTALL_REPORT_WINDOW_MS_def TIME_MINUTE_MS_def SECOND_MS_def
      split: job_kind.splits option.splits if_splits)

section \<open>Every step keeps the invariant\<close>

lemma engine_invD:
  assumes "engine_inv B F s"
  shows "jobs_wf (je_db s)" "distinct (je_sent s)" "set (je_sent s) \<subseteq> in_state {Started} (je_db s) - B" "B \<subseteq> over (je_db s)"
    "F \<subseteq> finished_jobs (je_db s)" "F \<inter> fst ` set (je_sent s) = {}"
    "je_pass s = Some p \<Longrightarrow> dp_now p = je_clock s" "je_sending s = Some d \<Longrightarrow> sending_ok B F s d"
    "je_waking s = Some w \<Longrightarrow> waking_ok s w"
  using assms by (auto simp: engine_inv_def)

lemma queued_not_over: "jobs_wf db \<Longrightarrow> x \<in> in_state {Queued} db \<Longrightarrow> x \<notin> over db \<and> x \<notin> in_state {Started} db"
  using in_state_disjoint [of db x "{Queued}"] by (auto simp: jobs_wf_def over_def)

lemma claim_device_over:
  assumes "distinct (keys db)" "jt_devices db' = jt_devices db"
  shows "over db \<subseteq> over (claim_device j d now db')"
proof -
  have "over db = over db'" "keys db' = keys db" using assms(2) by (simp_all add: over_def in_state_def keys_def)
  then show ?thesis
    unfolding over_def claim_device_def
    using states_kept [of db' "\<lambda>d. d\<lparr>jd_state := Started, jd_updated_at := now\<rparr>" Started
        "\<lambda>x. jd_job x = j \<and> jd_device x = d \<and> jd_state x = Queued" "\<lambda>x. x = (j, d)" "{Queued}" "{Started, Skipped, Missed, Cancelled}"]
      assms(1) by auto
qed

lemma start_claim_over:
  assumes "jobs_wf db" "start_claim job d online i now db = Claimed db' run_id c"
  shows "over db \<subseteq> over db'"
    and "c = Some command \<Longrightarrow> sending_run now \<lparr>sd_job = job, sd_device = d, sd_run = run_id, sd_command = command\<rparr> db'"
proof -
  from assms(2) obtain db1 where 1: "prepare job d i now db = Prepared db1 c"
      "db' = claim_device (jb_id job) d now db1" "run_id = i"
    by (auto simp: start_claim_def split: if_splits prepared.splits)
  show "over db \<subseteq> over db'"
    using assms(1) by (simp add: 1(2) jobs_wf_def claim_device_over prepare_effect(1) [OF 1(1)])
  show "sending_run now \<lparr>sd_job = job, sd_device = d, sd_run = run_id, sd_command = command\<rparr> db'" if "c = Some command"
    using prepare_run [of job d i now db db1 command] 1(1) that
    by (simp add: 1(2,3) sending_run_def claim_device_def)
qed

lemma claimed_inv:
  assumes inv: "engine_inv B F s" and idle: "je_sending s = None" "je_waking s = None" "dp_now p' = je_clock s"
    and claim: "start_claim job d online i (je_clock s) (je_db s) = Claimed db' run_id c"
  shows "engine_inv B F (s\<lparr>je_pass := Some p', je_db := db'\<rparr>)"
    and "c = Some command \<Longrightarrow> engine_inv B F (s\<lparr>je_pass := Some p', je_db := db',
      je_sending := Some \<lparr>sd_job = job, sd_device = d, sd_run = run_id, sd_command = command\<rparr>\<rparr>)"
proof -
  note D = engine_invD [OF inv]
  note w = start_claim_wf [OF D(1) claim] and o' = start_claim_over [OF D(1) claim]
  show base: "engine_inv B F (s\<lparr>je_pass := Some p', je_db := db'\<rparr>)"
    using D(2-6) w(1-3) o'(1) idle by (auto simp: engine_inv_def)
  have "(jb_id job, d) \<notin> B \<union> set (je_sent s)"
    using queued_not_over [OF D(1) w(7)] D(3,4) by auto
  then show "engine_inv B F (s\<lparr>je_pass := Some p', je_db := db',
      je_sending := Some \<lparr>sd_job = job, sd_device = d, sd_run = run_id, sd_command = command\<rparr>\<rparr>)" if "c = Some command"
    using base o'(2) [OF that] w(3,4) idle by (simp add: engine_inv_def sending_ok_def sending_key_def)
qed

definition advances :: "dispatch_pass \<Rightarrow> dispatch_pass \<Rightarrow> bool" where
  "advances p p' \<longleftrightarrow>
     dp_now p' = dp_now p \<and> dp_total p' = dp_total p \<and> dp_per_device p' = dp_per_device p \<and> set (dp_rows p') \<subseteq> set (dp_rows p)"

lemma dispatch_turn_outcome:
  "case dispatch_turn p online i db of
     Loop_Over p' \<Rightarrow> advances p p'
   | Turn_Done p' db' \<Rightarrow> advances p p' \<and> (db' = db \<or> (\<exists>job d. start_claim job d online i (dp_now p) db = Not_Started db'))
   | Turn_Error \<Rightarrow> True
   | Turn_Claimed p' db' job d run_id c \<Rightarrow>
       advances p p' \<and> start_claim job d online i (dp_now p) db = Claimed db' run_id c
       \<and> dp_total p < MAX_IN_FLIGHT \<and> dp_per_device p d < MAX_PER_DEVICE \<and> d \<in> snd ` set (dp_rows p)"
  by (auto simp: dispatch_turn_def Let_def advances_def split: list.split option.split start_result.split)

lemma next_row_inv:
  assumes inv: "engine_inv B F s" and idle: "je_pass s = Some p" "je_sending s = None" "je_waking s = None"
  shows "engine_inv B F (next_row online i p s)"
proof -
  note D = engine_invD [OF inv] and out = dispatch_turn_outcome [where p = p and online = online and i = i and db = "je_db s"]
  have now: "dp_now p = je_clock s" using D(7) idle(1) by simp
  have same: "engine_inv B F (s\<lparr>je_pass := Some p', je_db := db\<rparr>)" if "keeps (je_db s) db" "advances p p'" for p' db
    using keeps_inv [OF inv that(1)] idle that(2) now by (simp add: engine_inv_def waking_ok_def advances_def)
  have refl: "keeps (je_db s) (je_db s)" using D(1) by (simp add: keeps_def)
  have claim: "keeps (je_db s) db" if "start_claim job d online i (dp_now p) (je_db s) = Not_Started db" for job d db
    using start_not_claimed_wf [OF D(1) that] settling_keeps(6) [OF D(1)] refl by auto
  show ?thesis
  proof (cases "dispatch_turn p online i (je_db s)")
    case 1: (Loop_Over p')
    with out same [OF refl, of p'] show ?thesis by (simp add: next_row_def)
  next
    case 2: (Turn_Done p' db)
    with out refl claim have "keeps (je_db s) db" by auto
    with 2 out same [of db p'] show ?thesis by (simp add: next_row_def)
  next
    case 3: Turn_Error
    with inv show ?thesis by (simp add: next_row_def abort_pass_def engine_inv_def)
  next
    case 4: (Turn_Claimed p' db job d run_id c)
    with out now have p': "dp_now p' = je_clock s" "start_claim job d online i (je_clock s) (je_db s) = Claimed db run_id c"
      by (simp_all add: advances_def)
    show ?thesis
    proof (cases c)
      case None
      with 4 p' claimed_inv(1) [OF inv idle(2,3) _ p'(2), of "count_started d p'"] show ?thesis
        by (simp add: next_row_def count_started_def)
    next
      case (Some command)
      with 4 claimed_inv(2) [OF inv idle(2,3) p' Some] show ?thesis by (simp add: next_row_def)
    qed
  qed
qed

lemma start_refused_over:
  assumes "jobs_wf db" "has_run (jb_kind job) i (jb_id job) d db"
  shows "over db - {(jb_id job, d)} \<subseteq> over (start_refused job d i now db)"
proof -
  let ?db = "discard_run (jb_kind job) i db"
  have same: "jt_devices ?db = jt_devices db" using discard_run_effect(1) [OF assms] .
  then have "over ?db = over db" by (simp add: over_def in_state_def)
  moreover have "jt_devices (start_refused job d i now db) =
      map (\<lambda>x. if jd_job x = jb_id job \<and> jd_device x = d \<and> jd_state x = Started
               then x\<lparr>jd_state := jd_state (hd (jt_devices (unqueue job d Started now (db\<lparr>jt_devices := [x]\<rparr>)))),
                      jd_detail := jd_detail (hd (jt_devices (unqueue job d Started now (db\<lparr>jt_devices := [x]\<rparr>)))),
                      jd_updated_at := now\<rparr> else x) (jt_devices db)"
    by (auto simp: start_refused_def unqueue_def set_devices_def Let_def same)
  ultimately show ?thesis by (force simp: over_def in_state_def)
qed

lemma handed_over_inv:
  assumes inv: "engine_inv B F s" and now: "je_pass s = Some p" "je_sending s = Some d"
  shows "engine_inv B F (handed_over taken d p s)"
proof -
  note D = engine_invD [OF inv]
  have ok: "je_waking s = None" "sending_key d \<notin> B \<union> set (je_sent s)" "sending_run (je_clock s) d (je_db s)"
      "jb_id (sd_job d) \<notin> finished_jobs (je_db s)"
    using D(8) [OF now(2)] by (simp_all add: sending_ok_def)
  have clock: "dp_now p = je_clock s" by (rule D(7) [OF now(1)])
  have started: "sending_key d \<in> in_state {Started} (je_db s)"
    using sending_run_key [OF ok(3)] D(1) by (auto simp: jobs_wf_def)
  note has = sending_run_has_run [OF ok(3)]
  note r = start_refused_wf [OF D(1) has ok(4), of "dp_now p"] and o' = start_refused_over [OF D(1) has, of "dp_now p"]
  show ?thesis
  proof (cases taken)
    case True
    with D(1-6) ok clock started show ?thesis
      by (auto simp: handed_over_def engine_inv_def count_started_def sending_key_def)
  next
    case False
    have "set (je_sent s) \<subseteq> in_state {Started} (je_db s) - {sending_key d} - B" "B \<subseteq> over (je_db s) - {sending_key d}"
      using D(3,4) ok(2) by auto
    with False D(2,5,6) ok(1) clock r o' now(1) show ?thesis
      by (auto simp: handed_over_def engine_inv_def sending_key_def)
  qed
qed

lemma next_wake_inv:
  assumes inv: "engine_inv B F s" and idle: "je_pass s = Some p" "je_sending s = None" "je_waking s = None"
  shows "engine_inv B F (next_wake online p s)"
proof -
  note D = engine_invD [OF inv]
  have clock: "dp_now p = je_clock s" by (rule D(7) [OF idle(1)])
  show ?thesis
  proof (cases "dp_wakes p")
    case Nil
    with inv idle show ?thesis by (simp add: next_wake_def engine_inv_def)
  next
    case (Cons w rest)
    obtain j ds where w: "w = (j, ds)" by (cases w)
    obtain db claimed where c: "wake_claims j ds online (dp_now p) (je_db s) = (db, claimed)" by fastforce
    note e = wake_claims_effect [OF D(1) c]
    have "(j, d) \<notin> set (job_parts db)" if "d \<in> set claimed" for d
    proof -
      have "(j, d) \<in> in_state {Queued} (je_db s)" using e that by auto
      moreover have "set (job_parts (je_db s)) \<subseteq> in_state {Started} (je_db s)" using D(1) by (simp add: jobs_wf_def)
      ultimately show ?thesis using queued_not_over [OF D(1)] e by (auto simp: job_parts_def)
    qed
    then have woken: "waking_ok (s\<lparr>je_pass := Some (p\<lparr>dp_wakes := rest\<rparr>), je_db := db, je_waking := x\<rparr>) (j, claimed)" for x
      using e by (auto simp: waking_ok_def)
    from D(2-6) e have "engine_inv B F (s\<lparr>je_pass := Some (p\<lparr>dp_wakes := rest\<rparr>), je_db := db, je_waking := None\<rparr>)"
      using idle clock by (auto simp: engine_inv_def)
    with woken Cons w c inv idle clock show ?thesis by (simp add: next_wake_def engine_inv_def)
  qed
qed

lemma wake_recorded_inv:
  assumes inv: "engine_inv B F s" and w: "je_waking s = Some (j, ds)" "wake_insert j relays new_ids now ds (je_db s) = Some db"
  shows "engine_inv B F (s\<lparr>je_db := db, je_waking := None\<rparr>)"
proof -
  note D = engine_invD [OF inv]
  have ok: "distinct ds" "d \<in> set ds \<Longrightarrow> (j, d) \<in> in_state {Started} (je_db s) \<and> (j, d) \<notin> set (job_parts (je_db s))" for d
    using D(9) [OF w(1)] by (auto simp: waking_ok_def)
  have "je_sending s = None" using D(8) w(1) by (cases "je_sending s") (auto simp: sending_ok_def)
  with wake_insert_effect [OF D(1) w(2) ok] D inv show ?thesis by (auto simp: engine_inv_def over_def)
qed

lemma report_jobs_inv:
  assumes inv: "engine_inv B F s" and idle: "engine_idle s" and "report_jobs now (je_db s) published = (db, published', news)"
  shows "engine_inv B F (s\<lparr>je_db := db, je_published := published'\<rparr>)"
proof -
  note D = engine_invD [OF inv]
  have db: "db = finish_jobs now (je_db s)" using assms(3) by (auto simp: report_jobs_def Let_def)
  have "finished_jobs (je_db s) \<subseteq> finished_jobs db" by (force simp: db finish_jobs_def Let_def finished_jobs_def)
  with D(2-6) finish_jobs_wf [where now = now, OF D(1)] idle show ?thesis
    by (auto simp: engine_inv_def engine_idle_def over_def db)
qed

lemma engine_step_inv:
  assumes inv: "engine_inv B F s" and legal: "engine_legal s e"
  shows "engine_inv B F (fst (engine_step lower s e))"
proof -
  note D = engine_invD [OF inv]
  have run: "sending_run (je_clock s) d (je_db s)" if "je_sending s = Some d" for d
    using D(8) [OF that] by (simp add: sending_ok_def)
  have settle: "engine_inv B F (s\<lparr>je_db := db'\<rparr>)" if "keeps (je_db s) db'" "all_parts db' = all_parts (je_db s)" for db'
    by (rule keeps_inv [OF inv that(1)]) (use run sending_run_parts [OF that(2)] in \<open>auto simp: option.pred_set\<close>)
  have report: "engine_inv B F (s\<lparr>je_db := db'\<rparr>)"
    if "same_parts (je_db s) db'" "\<And>d. je_sending s = Some d \<Longrightarrow> sending_run (je_clock s) d db'" for db'
    by (rule keeps_inv [OF inv same_parts_keeps [OF D(1) that(1)]]) (use that(2) in \<open>auto simp: option.pred_set\<close>)
  have abort: "engine_inv B F (abort_pass s)" using inv by (simp add: engine_inv_def abort_pass_def)
  note settled = settling_keeps [OF D(1)] and kept = reports_keep_run [OF run]
  show ?thesis
  proof (cases e)
    case (Create_Job job online i now)
    show ?thesis
    proof (cases "create_job lower job online i now (je_db s)")
      case (Inr db)
      with settle [OF create_job_keeps [OF D(1) Inr] create_job_wf(5) [OF D(1) Inr]] Create_Job show ?thesis by simp
    qed (use inv Create_Job in simp)
  next
    case (Change_Agents agents)
    show ?thesis using report [OF reports_same_parts(9)] run by (simp add: Change_Agents on_db_def sending_run_def all_parts_def)
  next
    case (Change_Files fs)
    show ?thesis using report [OF reports_same_parts(10)] run by (simp add: Change_Files on_db_def sending_run_def all_parts_def)
  next
    case (Begin_Dispatch now)
    with inv show ?thesis
      by (auto simp: engine_idle_def engine_inv_def begin_dispatch_def Let_def)
  next
    case (Next_Row online i)
    with inv next_row_inv [OF inv] show ?thesis by (simp split: option.split)
  next
    case (Handed_Over taken)
    with inv handed_over_inv [OF inv] show ?thesis by (simp split: option.split)
  next
    case (Next_Wake online)
    with inv next_wake_inv [OF inv] show ?thesis by (simp split: option.split)
  next
    case (Wake_Recorded relays new_ids now)
    with inv abort wake_recorded_inv [OF inv] show ?thesis by (simp split: option.split prod.split)
  next
    case (Report_Jobs now)
    with inv report_jobs_inv [OF inv] show ?thesis by (simp split: prod.split)
  next
    case (By_Hand rs fs us)
    have "sending_run (je_clock s) d (insert_by_hand rs fs us (je_db s))" if "je_sending s = Some d" for d
      by (rule sending_run_more [OF run [OF that] by_hand_effect(5) [OF D(1)]])
    with keeps_inv [OF inv by_hand_keeps [OF D(1)]] show ?thesis by (simp add: By_Hand on_db_def option.pred_set)
  next
    case Restart
    with abort show ?thesis by (simp add: engine_inv_def sending_ok_def waking_ok_def abort_pass_def)
  next
    case (Cancel_Job j now)
    show ?thesis using settle [OF settled(1,7)] by (simp add: Cancel_Job on_db_def)
  next
    case (Remove_Device d now)
    show ?thesis using settle [OF settled(2,8)] by (simp add: Remove_Device on_db_def)
  next
    case (Expire_Waiting now)
    show ?thesis using settle [OF settled(3,9)] by (simp add: Expire_Waiting on_db_def)
  next
    case (Expire_Deleted now)
    show ?thesis using settle [OF settled(4,10)] by (simp add: Expire_Deleted on_db_def)
  next
    case (Queue_Connected ds now)
    show ?thesis using settle [OF settled(5,11)] by (simp add: Queue_Connected on_db_def)
  next
    case (Run_Reported d i status code)
    then show ?thesis using legal report [OF reports_same_parts(1) kept(1)] by (simp add: on_db_def option.pred_set)
  next
    case (Delivery_Reported d i status err)
    then show ?thesis using legal report [OF reports_same_parts(2) kept(2)] by (simp add: on_db_def option.pred_set)
  next
    case (Scan_Reported d i failed)
    then show ?thesis using legal report [OF reports_same_parts(3) kept(3)] by (simp add: on_db_def option.pred_set)
  next
    case (Install_Reported d i status)
    then show ?thesis using legal report [OF reports_same_parts(4) kept(4)] by (simp add: on_db_def option.pred_set)
  next
    case (Runs_Lost now)
    then show ?thesis using legal report [OF reports_same_parts(5) kept(5)] by (simp add: on_db_def option.pred_set)
  next
    case (Updates_Lost now)
    then show ?thesis using legal report [OF reports_same_parts(6) kept(6)] by (simp add: on_db_def option.pred_set)
  next
    case (Wake_Settled i status)
    then show ?thesis using report [OF reports_same_parts(7) kept(7)] by (simp add: on_db_def)
  next
    case (Device_Online d now)
    then show ?thesis using report [OF reports_same_parts(8) kept(8)] by (simp add: on_db_def)
  qed
qed

interpretation engine: step_system "engine_step lower" "engine_inv B F" engine_legal for lower B F
  by unfold_locales (rule engine_step_inv)

text \<open>A history of the engine in which all of that holds.\<close>

fun engine_history :: "(rust_string \<Rightarrow> rust_string) \<Rightarrow> job_engine \<Rightarrow> engine_event list \<Rightarrow> bool" where
  "engine_history lower s [] \<longleftrightarrow> True"
| "engine_history lower s (e # es) \<longleftrightarrow> engine_legal s e \<and> engine_history lower (fst (engine_step lower s e)) es"

lemma engine_history_legal: "engine_history lower s es = engine.legal_run lower s es"
  by (induction es arbitrary: s) simp_all

section \<open>Commands are sent once\<close>

definition commands :: "engine_output list \<Rightarrow> (rust_string \<times> rust_string) list" where
  "commands = List.map_filter (\<lambda>out. case out of Command j d _ \<Rightarrow> Some (j, d) | _ \<Rightarrow> None)"

definition engine_start :: "jobs_db \<Rightarrow> int \<Rightarrow> job_engine" where
  "engine_start db clock =
     \<lparr>je_db = db, je_pass = None, je_sending = None, je_waking = None, je_published = Map.empty, je_sent = [],
      je_clock = clock\<rparr>"

lemma commands_simps [simp]:
  "commands [] = []" "commands (Command j d c # outs) = (j, d) # commands outs" "commands (Quiet # outs) = commands outs"
  "commands (News n # outs) = commands outs"
  by (simp_all add: commands_def List.map_filter_simps)

lemma engine_step_sent: "je_sent (fst (engine_step lower s e)) = je_sent s @ commands [snd (engine_step lower s e)]"
proof (cases e)
  case (Next_Row online i)
  then show ?thesis
    by (simp add: next_row_def abort_pass_def split: option.split turn.split)
qed (simp_all add: on_db_def abort_pass_def next_wake_def handed_over_def split: option.split prod.split sum.split list.split)

lemma run_sent: "je_sent (fst (run (engine_step lower) s es)) = je_sent s @ commands (snd (run (engine_step lower) s es))"
proof (induction es arbitrary: s)
  case (Cons e es)
  show ?case using Cons [of "fst (engine_step lower s e)"] engine_step_sent [of lower s e]
    by (cases "snd (engine_step lower s e)") (auto simp: Let_def)
qed simp

lemma engine_start_inv: "jobs_wf db \<Longrightarrow> engine_inv (over db) (finished_jobs db) (engine_start db clock)"
  by (simp add: engine_inv_def engine_start_def)

text \<open>C5: whatever is created, cancelled, reported, removed or restarted meanwhile, and in whatever order, a device gets a
  job's command at most once, a device that was started, skipped, missed or cancelled when the run began gets none,
  a finished job sends nothing more, and every device that got a command counts as started from then on.
\<close>

theorem job_commands_once:
  assumes "jobs_wf db" "engine_history lower (engine_start db clock) es"
    and "run (engine_step lower) (engine_start db clock) es = (s, outs)"
  shows "distinct (commands outs) \<and> set (commands outs) \<subseteq> in_state {Started} (je_db s)
    \<and> set (commands outs) \<inter> over db = {} \<and> fst ` set (commands outs) \<inter> finished_jobs db = {} \<and> jobs_wf (je_db s)"
proof -
  have "engine_inv (over db) (finished_jobs db) s"
    using engine.run_inv [OF engine_start_inv [OF assms(1)] assms(2) [unfolded engine_history_legal]] assms(3) by simp
  moreover have "je_sent s = commands outs"
    using run_sent [of lower "engine_start db clock" es] assms(3) by (simp add: engine_start_def)
  ultimately show ?thesis by (auto simp: engine_inv_def)
qed

text \<open>A scan on one device, with a restart after it got the command.\<close>

definition example_agents :: "enrolled_agent list" where
  "example_agents = [\<lparr>ag_id = lit ''a'', ag_name = lit ''A'', ag_platform = ''windows'', ag_company_id = None, ag_tag_ids = [],
     ag_deletion_requested_at = None, ag_updates_supported = None\<rparr>]"

definition example_db :: jobs_db where
  "example_db =
     \<lparr>jt_jobs = [], jt_devices = [], jt_runs = [], jt_deliveries = [], jt_updates = [], jt_wakes = [],
      jt_agents = example_agents, jt_files = []\<rparr>"

definition example_job :: new_job where
  "example_job =
     \<lparr>nj_payload = Payload_Update_Scan, nj_target = All_Devices, nj_offline = Offline_Skip, nj_wait_ms = 0,
      nj_requested_by = lit ''u'', nj_policy = None\<rparr>"

definition example_events :: "engine_event list" where
  "example_events =
     [Create_Job example_job {lit ''a''} (lit ''j'') 0, Begin_Dispatch 1, Next_Row True (lit ''r''), Handed_Over True,
      Next_Row True (lit ''q''), Restart, Begin_Dispatch 2]"

lemma example_db_wf: "jobs_wf example_db"
  by (simp add: example_db_def jobs_wf_def ids_distinct_def keys_def job_parts_def all_parts_def in_state_def List.map_filter_simps)

lemma example_history: "engine_history (\<lambda>x. x) (engine_start example_db 0) example_events"
  by code_simp

lemma example_commands:
  "commands (snd (run (engine_step (\<lambda>x. x)) (engine_start example_db 0) example_events)) = [(lit ''j'', lit ''a'')]"
  by code_simp

theorem job_commands_once_witness:
  "engine_history (\<lambda>x. x) (engine_start example_db 0) example_events
   \<and> (\<exists>s outs. run (engine_step (\<lambda>x. x)) (engine_start example_db 0) example_events = (s, outs)
       \<and> commands outs = [(lit ''j'', lit ''a'')] \<and> (lit ''j'', lit ''a'') \<in> in_state {Started} (je_db s))"
  using job_commands_once [OF example_db_wf example_history] example_commands example_history
  by (cases "run (engine_step (\<lambda>x. x)) (engine_start example_db 0) example_events") auto

definition example_end :: job_engine where
  "example_end = fst (run (engine_step (\<lambda>x. x)) (engine_start example_db 0) example_events)"

lemma example_end_wf: "jobs_wf (je_db example_end)"
  using engine.run_inv [OF engine_start_inv [OF example_db_wf] example_history [unfolded engine_history_legal]]
  by (simp add: example_end_def engine_inv_def)

end
