(* ===== verification/Job_Limits.thy ===== *)
theory Job_Limits
  imports Job_Runs
begin

text \<open>
  The limits on what awaits a report: \<open>in_flight\<close> counts it once at the start of a pass and the pass counts on from
  there, and the limits hold of the tables all the same.
\<close>

section \<open>What awaits a report\<close>

fun part_device :: "job_part \<Rightarrow> rust_string" where
  "part_device (Run_Part r) = sr_device r"
| "part_device (Delivery_Part f) = fd_device f"
| "part_device (Update_Part u) = ur_device u"
| "part_device (Wake_Part w) = wr_device w"

fun awaiting_part :: "int \<Rightarrow> job_part \<Rightarrow> bool" where
  "awaiting_part now (Run_Part r) = awaiting_run now r"
| "awaiting_part now (Delivery_Part f) = awaiting_delivery now f"
| "awaiting_part now (Update_Part u) = awaiting_update now u"
| "awaiting_part now (Wake_Part w) = False"

definition handing :: "sending option \<Rightarrow> job_part \<Rightarrow> bool" where
  "handing sd p = (case sd of None \<Rightarrow> False | Some d \<Rightarrow> part_pending (jb_kind (sd_job d)) (sd_run d) p)"

text \<open>The devices of the runs that await a report, but for the one that is being handed over.\<close>

definition flying :: "int \<Rightarrow> sending option \<Rightarrow> jobs_db \<Rightarrow> rust_string multiset" where
  "flying now sd db = image_mset part_device {#p \<in># mset (all_parts db). awaiting_part now p \<and> \<not> handing sd p#}"

definition awaiting :: "int \<Rightarrow> jobs_db \<Rightarrow> rust_string multiset" where
  "awaiting now = flying now None"

lemma handing_none [simp]: "handing None p = False"
  by (simp add: handing_def)

lemma awaiting_part_later: "awaiting_part t' p \<Longrightarrow> t \<le> t' \<Longrightarrow> awaiting_part t p"
  by (cases p) (auto simp: awaiting_run_def awaiting_delivery_def awaiting_update_def)

lemma subseteq_add_mset: "A \<subseteq># B \<Longrightarrow> A \<subseteq># add_mset x B"
  using multi_psub_of_add_self subset_mset.le_less_trans by (fastforce simp: subset_mset.less_imp_le)

lemma multiset_filter_imp: "(\<And>x. P x \<Longrightarrow> Q x) \<Longrightarrow> filter_mset P M \<subseteq># filter_mset Q M"
  by (induction M) (auto intro: subseteq_add_mset)

lemma flying_later: "t \<le> t' \<Longrightarrow> flying t' sd db \<subseteq># flying t sd db"
  unfolding flying_def by (intro image_mset_subseteq_mono multiset_filter_imp) (auto dest: awaiting_part_later)

lemma flying_parts: "all_parts db' = all_parts db \<Longrightarrow> flying t sd db' \<subseteq># flying t sd db"
  by (simp add: flying_def)

lemma mset_map_fewer:
  assumes "\<And>x. x \<in> set xs \<Longrightarrow> f x = x \<or> \<not> P (f x)"
  shows "image_mset g (filter_mset P (mset (map f xs))) \<subseteq># image_mset g (filter_mset P (mset xs))"
  using assms
proof (induction xs)
  case (Cons x xs)
  then have IH: "image_mset g (filter_mset P (mset (map f xs))) \<subseteq># image_mset g (filter_mset P (mset xs))" by simp
  from Cons.prems [of x] have "f x = x \<or> \<not> P (f x)" by simp
  with IH show ?case
    by (auto intro: subseteq_add_mset)
qed simp

text \<open>The table of each kind of run by itself.\<close>

lemma flying_tables:
  "flying t sd db =
     image_mset sr_device {#r \<in># mset (jt_runs db). awaiting_run t r \<and> \<not> handing sd (Run_Part r)#}
     + image_mset fd_device {#f \<in># mset (jt_deliveries db). awaiting_delivery t f \<and> \<not> handing sd (Delivery_Part f)#}
     + image_mset ur_device {#u \<in># mset (jt_updates db). awaiting_update t u \<and> \<not> handing sd (Update_Part u)#}"
proof -
  have parts: "{#p \<in># mset (map C xs). P p#} = image_mset C {#x \<in># mset xs. P (C x)#}" for C :: "'a \<Rightarrow> job_part" and P xs
    by (induction xs) auto
  show ?thesis
    unfolding flying_def all_parts_def mset_append filter_union_mset image_mset_union parts
    by (simp add: multiset.map_comp o_def)
qed

lemma reports_fly:
  "flying t sd (report_script_run d i rs code db) \<subseteq># flying t sd db"
  "flying t sd (report_file_delivery d i fs err db) \<subseteq># flying t sd db"
  "flying t sd (finish_scan d i failed db) \<subseteq># flying t sd db"
  "flying t sd (finish_install d i us db) \<subseteq># flying t sd db"
  "flying t sd (lose_runs now db) \<subseteq># flying t sd db"
  "flying t sd (sweep_lost now db) \<subseteq># flying t sd db"
  "flying t sd (wake_settle i ws db) \<subseteq># flying t sd db"
  "flying t sd (wake_device_connected d now db) \<subseteq># flying t sd db"
  "flying t sd (db\<lparr>jt_agents := agents\<rparr>) \<subseteq># flying t sd db" "flying t sd (db\<lparr>jt_files := files\<rparr>) \<subseteq># flying t sd db"
  unfolding flying_tables
  by (auto simp: report_defs awaiting_run_def awaiting_delivery_def awaiting_update_def simp del: mset_map
      intro!: subset_mset.add_mono mset_map_fewer split: if_splits)

lemma by_hand_fly: "flying t sd (insert_by_hand rs fs us db) = flying t sd db"
proof -
  have none: "{#x \<in># mset (map f xs). P x#} = {#}" if "\<And>x. \<not> P (f x)" for f :: "'a \<Rightarrow> 'b" and P xs
    using that by (induction xs) auto
  have "flying t sd (db\<lparr>jt_runs := jt_runs db @ map (\<lambda>r. r\<lparr>sr_job := None\<rparr>) rs,
      jt_deliveries := jt_deliveries db @ map (\<lambda>f. f\<lparr>fd_job := None\<rparr>) fs,
      jt_updates := jt_updates db @ map (\<lambda>u. u\<lparr>ur_job := None\<rparr>) us\<rparr>) = flying t sd db"
    unfolding flying_tables
    by (simp add: none awaiting_run_def awaiting_delivery_def awaiting_update_def del: mset_map)
  then show ?thesis unfolding insert_by_hand_def Let_def by (simp only: simp_thms split: if_split)
qed

lemma wake_insert_fly: "wake_insert j relays new_ids now ds db = Some db' \<Longrightarrow> flying t sd db' = flying t sd db"
  by (auto simp: wake_insert_def Let_def flying_tables split: if_splits)

section \<open>Counting at the start of a pass\<close>

lemma device_counts_sum:
  "sum_list (map snd (device_counts ds)) = int (length ds)"
  "(\<Sum>(e, n) \<leftarrow> device_counts ds. if e = d then n else 0) = int (count_list ds d)"
proof -
  show "sum_list (map snd (device_counts ds)) = int (length ds)"
    using sum_count_set [of ds "set ds"]
    by (simp add: device_counts_def o_def sum.set_conv_list [symmetric] flip: of_nat_sum)
  have "(\<Sum>(e, n) \<leftarrow> device_counts ds. if e = d then n else 0) = (\<Sum>e \<in> set ds. if e = d then int (count_list ds e) else 0)"
    by (simp add: device_counts_def o_def split_def sum.set_conv_list cong: if_cong)
  also have "\<dots> = int (count_list ds d)" by (simp add: count_notin)
  finally show "(\<Sum>(e, n) \<leftarrow> device_counts ds. if e = d then n else 0) = int (count_list ds d)" .
qed

lemma in_flight_fold:
  "fold (\<lambda>(d, n) (sum, per_device). (sum + n, if d \<in> set devices then per_device(d := per_device d + n) else per_device)) xs (a :: int, f)
   = (a + sum_list (map snd xs), \<lambda>d. if d \<in> set devices then f d + (\<Sum>(e, n) \<leftarrow> xs. if e = d then n else 0) else f d)"
  by (induction xs arbitrary: a f) (auto simp: fun_eq_iff)

lemma count_mset_filter: "count_list (map g (filter P xs)) d = count (image_mset g {#x \<in># mset xs. P x#}) d"
  by (induction xs) auto

lemma in_flight_awaiting:
  "fst (in_flight db devices now) = int (size (awaiting now db))"
  "d \<in> set devices \<Longrightarrow> snd (in_flight db devices now) d = int (count (awaiting now db) d)"
proof -
  have len: "length (filter P xs) = size {#x \<in># mset xs. P x#}" for P and xs :: "'a list" by (induction xs) auto
  show "fst (in_flight db devices now) = int (size (awaiting now db))"
    by (simp add: in_flight_def Let_def in_flight_fold device_counts_sum awaiting_def flying_tables len)
  show "snd (in_flight db devices now) d = int (count (awaiting now db) d)" if "d \<in> set devices"
    using that by (simp add: in_flight_def Let_def in_flight_fold device_counts_sum awaiting_def flying_tables count_mset_filter)
qed

lemma equalityD1_mset: "M = N \<Longrightarrow> M \<subseteq># N"
  by simp

section \<open>The run being handed over\<close>

lemma part_key_device: "part_key p = Some (j, d) \<Longrightarrow> part_device p = d"
  by (cases p) auto

lemma filter_id_single: "distinct (map g xs) \<Longrightarrow> length (filter (\<lambda>x. g x = i \<and> P x) xs) \<le> Suc 0"
  by (induction xs) (fastforce simp: filter_empty_conv image_iff)+

lemma pending_single: "ids_distinct db \<Longrightarrow> length (filter (part_pending kind i) (all_parts db)) \<le> 1"
  by (cases kind) (simp_all add: ids_distinct_def all_parts_def filter_map o_def filter_id_single)

lemma awaiting_handing:
  assumes "ids_distinct db" "sending_run clock d db"
  shows "flying t None db \<subseteq># add_mset (sd_device d) (flying t (Some d) db)"
proof -
  let ?Q = "handing (Some d)"
  have Q: "?Q = part_pending (jb_kind (sd_job d)) (sd_run d)" by (simp add: fun_eq_iff handing_def)
  obtain q where q: "q \<in> set (all_parts db)" "?Q q" "part_device q = sd_device d"
    using assms(2)
    by (auto simp: sending_run_def list_ex_iff sending_part_def sending_key_def Q dest: part_key_device)
  have "q \<in> set (filter ?Q (all_parts db))" using q by simp
  moreover have "length (filter ?Q (all_parts db)) \<le> 1" unfolding Q by (rule pending_single [OF assms(1)])
  ultimately have "filter ?Q (all_parts db) = [q]" by (cases "filter ?Q (all_parts db)") auto
  then have one: "filter_mset ?Q (mset (all_parts db)) = {#q#}" by (simp flip: mset_filter)
  let ?rest = "{#p \<in># mset (all_parts db). awaiting_part t p \<and> \<not> ?Q p#}"
  have split: "filter_mset (awaiting_part t) (mset (all_parts db)) = ?rest + {#p \<in># mset (all_parts db). awaiting_part t p \<and> ?Q p#}"
    by (simp add: multiset_eq_iff)
  have "{#p \<in># mset (all_parts db). awaiting_part t p \<and> ?Q p#} \<subseteq># {#q#}"
    unfolding one [symmetric] by (rule multiset_filter_imp) simp
  then have "filter_mset (awaiting_part t) (mset (all_parts db)) \<subseteq># ?rest + {#q#}"
    unfolding split by (rule subset_mset.add_left_mono)
  from image_mset_subseteq_mono [OF this, of part_device] q(3) show ?thesis by (simp add: flying_def)
qed

lemma start_refused_fly:
  "flying t None (start_refused (sd_job d) (sd_device d) (sd_run d) now db) = flying t (Some d) db"
proof -
  have "all_parts (start_refused (sd_job d) (sd_device d) (sd_run d) now db)
      = filter (\<lambda>p. \<not> part_pending (jb_kind (sd_job d)) (sd_run d) p) (all_parts db)"
    by (simp add: start_refused_def unqueue_def Let_def discard_run_parts)
  then show ?thesis by (simp add: flying_def handing_def filter_filter_mset conj_commute)
qed

lemma prepare_part:
  assumes "prepare job d i now db = Prepared db' c"
  shows "\<exists>q. mset (all_parts db') = add_mset q (mset (all_parts db)) \<and> part_device q = d
    \<and> (c \<noteq> None \<longrightarrow> part_pending (jb_kind job) i q)"
  using assms
  by (auto simp: prepare_def prepare_script_def prepare_file_def prepare_update_def insert_run_def insert_delivery_def
      insert_update_run_def Let_def all_parts_def split: job_kind.splits option.splits if_splits)

lemma claim_fly:
  assumes "start_claim job d online i now db = Claimed db' run_id c"
  shows "flying t None db' \<subseteq># add_mset d (flying t None db)"
    and "c = Some command \<Longrightarrow>
      flying t (Some \<lparr>sd_job = job, sd_device = d, sd_run = run_id, sd_command = command\<rparr>) db' \<subseteq># flying t None db"
proof -
  from assms obtain db1 where 1: "prepare job d i now db = Prepared db1 c" "run_id = i"
      "db' = claim_device (jb_id job) d now db1"
    by (auto simp: start_claim_def split: if_splits prepared.splits)
  from prepare_part [OF 1(1)] obtain q where q: "mset (all_parts db1) = add_mset q (mset (all_parts db))" "part_device q = d"
      "c \<noteq> None \<longrightarrow> part_pending (jb_kind job) i q" by blast
  have parts: "all_parts db' = all_parts db1" by (simp add: 1(3) claim_device_def)
  show "flying t None db' \<subseteq># add_mset d (flying t None db)"
    using q(2) by (simp add: flying_def parts q(1) subseteq_add_mset)
  show "flying t (Some \<lparr>sd_job = job, sd_device = d, sd_run = run_id, sd_command = command\<rparr>) db' \<subseteq># flying t None db"
    if "c = Some command"
    using q(3) that 1(2)
    by (auto simp: flying_def parts q(1) handing_def intro!: image_mset_subseteq_mono multiset_filter_imp)
qed

section \<open>The invariant of a pass\<close>

definition flight_ok :: "int \<Rightarrow> jobs_db \<Rightarrow> bool" where
  "flight_ok t db \<longleftrightarrow>
     int (size (awaiting t db)) \<le> MAX_IN_FLIGHT \<and> (\<forall>d. int (count (awaiting t db) d) \<le> MAX_PER_DEVICE)"

definition counted :: "rust_string multiset \<Rightarrow> dispatch_pass \<Rightarrow> bool" where
  "counted M p \<longleftrightarrow> int (size M) \<le> dp_total p \<and> (\<forall>d \<in> snd ` set (dp_rows p). int (count M d) \<le> dp_per_device p d)"

definition limits_inv :: "job_engine \<Rightarrow> bool" where
  "limits_inv s \<longleftrightarrow>
     (\<forall>t \<ge> je_clock s. flight_ok t (je_db s) \<and> pred_option (counted (flying t (je_sending s) (je_db s))) (je_pass s))"

lemma limits_fewer:
  assumes "flying t None db' \<subseteq># flying t None db" "flight_ok t db"
  shows "flight_ok t db'"
proof -
  have "size (awaiting t db') \<le> size (awaiting t db)" "count (awaiting t db') d \<le> count (awaiting t db) d" for d
    using assms(1) by (simp_all add: awaiting_def size_mset_mono mset_subset_eq_count)
  then show ?thesis using assms(2) unfolding flight_ok_def by (meson of_nat_le_iff order_trans)
qed

lemma counted_fewer:
  assumes "M' \<subseteq># M" "counted M p" "advances p p'"
  shows "counted M' p'"
proof -
  have "size M' \<le> size M" "count M' d \<le> count M d" for d
    using assms(1) by (simp_all add: size_mset_mono mset_subset_eq_count)
  then show ?thesis using assms(2,3) unfolding counted_def advances_def
    by (metis (no_types, lifting) image_mono of_nat_le_iff order_trans subsetD)
qed

lemma one_more:
  assumes "M' \<subseteq># add_mset d M"
  shows "int (size M') \<le> int (size M) + 1" "int (count M' e) \<le> int (count M e) + (if e = d then 1 else 0)"
  using size_mset_mono [OF assms] mset_subset_eq_count [OF assms, of e] by (auto split: if_splits)

lemma counted_more:
  assumes "M' \<subseteq># add_mset d M" "counted M p"
  shows "counted M' (count_started d p)"
proof -
  have "int (count M' e) \<le> (if e = d then dp_per_device p d + 1 else dp_per_device p e)" if "e \<in> snd ` set (dp_rows p)" for e
  proof -
    have "int (count M e) \<le> dp_per_device p e" using assms(2) that by (auto simp: counted_def)
    with one_more(2) [OF assms(1), of e] show ?thesis by (simp split: if_splits)
  qed
  moreover have "int (size M') \<le> dp_total p + 1" using one_more(1) [OF assms(1)] assms(2) by (simp add: counted_def)
  ultimately show ?thesis by (simp add: counted_def count_started_def)
qed

lemma advances_refl [simp]: "advances p p"
  by (simp add: advances_def)

lemma fewer_limits:
  assumes "limits_inv s" "\<And>t sd. flying t sd db' \<subseteq># flying t sd (je_db s)"
  shows "limits_inv (s\<lparr>je_db := db'\<rparr>)"
  using assms(1) limits_fewer [OF assms(2)] counted_fewer [OF assms(2) _ advances_refl]
  by (auto simp: limits_inv_def option.pred_set)

lemma claimed_limits:
  assumes "limits_inv s" "je_sending s = None" "je_pass s = Some p" "advances p p'"
    and claim: "start_claim job d online i now (je_db s) = Claimed db' run_id c"
    and guards: "dp_total p < MAX_IN_FLIGHT" "dp_per_device p d < MAX_PER_DEVICE" "d \<in> snd ` set (dp_rows p)"
  shows "limits_inv (s\<lparr>je_pass := Some (count_started d p'), je_db := db'\<rparr>)"
    and "c = Some command \<Longrightarrow> limits_inv (s\<lparr>je_pass := Some p', je_db := db',
      je_sending := Some \<lparr>sd_job = job, sd_device = d, sd_run = run_id, sd_command = command\<rparr>\<rparr>)"
proof -
  have old: "flight_ok t (je_db s)" "counted (flying t None (je_db s)) p" if "je_clock s \<le> t" for t
    using assms(1-3) that by (auto simp: limits_inv_def)
  have new: "flight_ok t db'" if "je_clock s \<le> t" for t
  proof -
    note more = one_more [OF claim_fly(1) [OF claim], of t, folded awaiting_def]
    have "int (count (awaiting t (je_db s)) d) < MAX_PER_DEVICE" "int (size (awaiting t (je_db s))) < MAX_IN_FLIGHT"
      using old(2) [OF that] guards by (auto simp: counted_def awaiting_def intro: order_le_less_trans)
    moreover have "int (count (awaiting t (je_db s)) e) \<le> MAX_PER_DEVICE" for e using old(1) [OF that] by (simp add: flight_ok_def)
    ultimately have "int (count (awaiting t db') e) \<le> MAX_PER_DEVICE" "int (size (awaiting t db')) \<le> MAX_IN_FLIGHT" for e
      using more(1) more(2) [of e] order_trans [OF more(2) [of e]] by (auto split: if_splits)
    then show ?thesis by (simp add: flight_ok_def)
  qed
  show "limits_inv (s\<lparr>je_pass := Some (count_started d p'), je_db := db'\<rparr>)"
    using new counted_more [OF claim_fly(1) [OF claim]] counted_fewer [OF subset_mset.order_refl old(2) assms(4)] assms(2)
    by (simp add: limits_inv_def)
  show "limits_inv (s\<lparr>je_pass := Some p', je_db := db',
      je_sending := Some \<lparr>sd_job = job, sd_device = d, sd_run = run_id, sd_command = command\<rparr>\<rparr>)" if "c = Some command"
    using new counted_fewer [OF claim_fly(2) [OF claim that] old(2) assms(4)] by (simp add: limits_inv_def)
qed

lemma next_row_limits:
  assumes inv: "limits_inv s" "jobs_wf (je_db s)" and idle: "je_pass s = Some p" "je_sending s = None"
  shows "limits_inv (next_row online i p s)"
proof -
  note out = dispatch_turn_outcome [where p = p and online = online and i = i and db = "je_db s"]
  have same: "limits_inv (s\<lparr>je_pass := Some p', je_db := db\<rparr>)" if "\<And>t sd. flying t sd db \<subseteq># flying t sd (je_db s)" "advances p p'" for p' db
    using fewer_limits [OF inv(1) that(1)] idle that(2) counted_fewer [OF subset_mset.order_refl _ that(2)]
    by (auto simp: limits_inv_def)
  show ?thesis
  proof (cases "dispatch_turn p online i (je_db s)")
    case 1: (Loop_Over p')
    with out same [of "je_db s" p'] show ?thesis by (simp add: next_row_def)
  next
    case 2: (Turn_Done p' db)
    have "all_parts db = all_parts (je_db s)" if "start_claim job d online i (dp_now p) (je_db s) = Not_Started db" for job d
      using start_not_claimed_wf [OF inv(2) that] settling_keeps(12) [OF inv(2)] by auto
    with 2 out have "all_parts db = all_parts (je_db s)" by auto
    then have "flying t sd db \<subseteq># flying t sd (je_db s)" for t sd by (rule flying_parts)
    with 2 out same [of db p'] show ?thesis by (simp add: next_row_def)
  next
    case 3: Turn_Error
    with inv show ?thesis by (simp add: next_row_def abort_pass_def limits_inv_def)
  next
    case 4: (Turn_Claimed p' db job d run_id c)
    with out have claim: "advances p p'" "start_claim job d online i (dp_now p) (je_db s) = Claimed db run_id c"
        "dp_total p < MAX_IN_FLIGHT" "dp_per_device p d < MAX_PER_DEVICE" "d \<in> snd ` set (dp_rows p)" by simp_all
    note limits = claimed_limits [OF inv(1) idle(2,1) claim]
    show ?thesis using 4 limits by (cases c) (simp_all add: next_row_def)
  qed
qed

lemma handed_over_limits:
  assumes inv: "limits_inv s" "engine_inv B F s" and now: "je_pass s = Some p" "je_sending s = Some d"
  shows "limits_inv (handed_over taken d p s)"
proof -
  note D = engine_invD [OF inv(2)]
  have "ids_distinct (je_db s)" "sending_run (je_clock s) d (je_db s)"
    using D(1) D(8) [OF now(2)] by (simp_all add: jobs_wf_def sending_ok_def)
  note fly = awaiting_handing [OF this]
  have old: "flight_ok t (je_db s)" "counted (flying t (Some d) (je_db s)) p" if "je_clock s \<le> t" for t
    using inv(1) now that by (auto simp: limits_inv_def)
  let ?db = "start_refused (sd_job d) (sd_device d) (sd_run d) (dp_now p) (je_db s)"
  have refused: "flying t None ?db = flying t (Some d) (je_db s)" for t
    by (rule start_refused_fly)
  have "flying t (Some d) (je_db s) \<subseteq># flying t None (je_db s)" for t
    unfolding flying_def by (intro image_mset_subseteq_mono multiset_filter_imp) simp
  then have "flight_ok t ?db" if "je_clock s \<le> t" for t
    using limits_fewer [OF _ old(1) [OF that]] refused by simp
  then show ?thesis
    using old now counted_more [OF fly old(2)] refused by (simp add: handed_over_def limits_inv_def)
qed

lemma begin_limits:
  assumes "limits_inv s" "engine_idle s" "je_clock s \<le> now"
  shows "limits_inv (s\<lparr>je_pass := begin_dispatch now (je_db s), je_clock := now\<rparr>)"
proof -
  have "counted (flying t None (je_db s)) p" if "begin_dispatch now (je_db s) = Some p" "now \<le> t" for p t
  proof -
    have p: "dp_total p = fst (in_flight (je_db s) (map snd (queued_rows (je_db s))) now)"
        "dp_per_device p = snd (in_flight (je_db s) (map snd (queued_rows (je_db s))) now)" "dp_rows p = queued_rows (je_db s)"
      using that(1) by (auto simp: begin_dispatch_def Let_def split: if_splits)
    have "counted (flying now None (je_db s)) p"
      by (auto simp: counted_def p in_flight_awaiting awaiting_def)
    from counted_fewer [OF flying_later [OF that(2)] this advances_refl] show ?thesis .
  qed
  with assms show ?thesis by (auto simp: limits_inv_def engine_idle_def option.pred_set)
qed

lemma next_wake_limits:
  assumes "limits_inv s" "jobs_wf (je_db s)" "je_pass s = Some p" "je_sending s = None"
  shows "limits_inv (next_wake online p s)"
proof (cases "dp_wakes p")
  case (Cons w rest)
  obtain j ds where w: "w = (j, ds)" by (cases w)
  obtain db claimed where c: "wake_claims j ds online (dp_now p) (je_db s) = (db, claimed)" by fastforce
  have "all_parts db = all_parts (je_db s)" using wake_claims_effect [OF assms(2) c] by simp
  then have "flying t sd db \<subseteq># flying t sd (je_db s)" for t sd by (rule flying_parts)
  from fewer_limits [OF assms(1) this] Cons w c assms(1,3,4) show ?thesis
    by (simp add: next_wake_def limits_inv_def counted_def)
qed (use assms in \<open>simp add: next_wake_def limits_inv_def\<close>)

lemma engine_step_limits:
  assumes inv: "limits_inv s" "engine_inv B F s" and legal: "engine_legal s e"
  shows "limits_inv (fst (engine_step lower s e))"
proof -
  note wf = engine_invD(1) [OF inv(2)] and few = fewer_limits [OF inv(1)]
  have same: "limits_inv (s\<lparr>je_db := db'\<rparr>)" if "all_parts db' = all_parts (je_db s)" for db'
    by (rule few) (rule flying_parts [OF that])
  note settled = same [OF settling_keeps(7) [OF wf]] same [OF settling_keeps(8) [OF wf]] same [OF settling_keeps(9) [OF wf]]
    same [OF settling_keeps(10) [OF wf]] same [OF settling_keeps(11) [OF wf]]
  note reported = few [OF reports_fly(1)] few [OF reports_fly(2)] few [OF reports_fly(3)] few [OF reports_fly(4)]
    few [OF reports_fly(5)] few [OF reports_fly(6)] few [OF reports_fly(7)] few [OF reports_fly(8)] few [OF reports_fly(9)]
    few [OF reports_fly(10)] few [OF equalityD1_mset [OF by_hand_fly]]
  have abort: "limits_inv (abort_pass s)" using inv(1) by (simp add: limits_inv_def abort_pass_def)
  show ?thesis
  proof (cases e)
    case (Create_Job job online i now)
    show ?thesis
    proof (cases "create_job lower job online i now (je_db s)")
      case (Inr db)
      with same [OF create_job_wf(5) [OF wf Inr]] Create_Job show ?thesis by simp
    qed (use inv Create_Job in simp)
  next
    case (Begin_Dispatch now)
    with inv(1) legal begin_limits [OF inv(1)] show ?thesis by simp
  next
    case (Next_Row online i)
    with inv(1) next_row_limits [OF inv(1) wf] show ?thesis by (simp split: option.split)
  next
    case (Handed_Over taken)
    with inv(1) handed_over_limits [OF inv] show ?thesis by (simp split: option.split)
  next
    case (Next_Wake online)
    with inv(1) next_wake_limits [OF inv(1) wf] show ?thesis by (simp split: option.split)
  next
    case (Wake_Recorded relays new_ids now)
    have "limits_inv (s\<lparr>je_db := db, je_waking := None\<rparr>)" if "wake_insert j relays new_ids now ds (je_db s) = Some db" for j ds db
      using few [OF equalityD1_mset [OF wake_insert_fly [OF that]]] by (simp add: limits_inv_def)
    with inv(1) abort Wake_Recorded show ?thesis by (simp split: option.split)
  next
    case (Report_Jobs now)
    have "limits_inv (s\<lparr>je_db := finish_jobs now (je_db s), je_published := x\<rparr>)" for x
      using same [OF finish_jobs_wf(4) [OF wf, of now]] by (simp add: limits_inv_def)
    with inv(1) Report_Jobs show ?thesis by (auto simp: report_jobs_def Let_def)
  next
    case Restart
    with abort show ?thesis by (simp add: limits_inv_def abort_pass_def)
  qed (use settled reported in \<open>simp_all add: on_db_def\<close>)
qed

interpretation limited: step_system "engine_step lower" "\<lambda>s. engine_inv B F s \<and> limits_inv s" engine_legal for lower B F
  by unfold_locales (use engine_step_inv engine_step_limits in blast)

text \<open>C6: whatever happens meanwhile, at most \<open>MAX_IN_FLIGHT\<close> runs of jobs, and at most \<open>MAX_PER_DEVICE\<close> on one device,
  await a report at any time from the start of the last pass on, although a pass counts them only when it begins and an
  Agent's report, a restart or a refused command may come at any moment.
\<close>

theorem dispatch_limits:
  assumes "jobs_wf db" "\<And>t. clock \<le> t \<Longrightarrow> flight_ok t db" "engine_history lower (engine_start db clock) es"
    and "run (engine_step lower) (engine_start db clock) es = (s, outs)" "je_clock s \<le> t"
  shows "int (size (awaiting t (je_db s))) \<le> MAX_IN_FLIGHT \<and> (\<forall>d. int (count (awaiting t (je_db s)) d) \<le> MAX_PER_DEVICE)"
proof -
  have "limits_inv (engine_start db clock)" using assms(2) by (simp add: limits_inv_def engine_start_def)
  then have "limits_inv s"
    using limited.run_inv [of "over db" "finished_jobs db" "engine_start db clock" lower es] engine_start_inv [OF assms(1)] assms(3,4)
    by (simp add: engine_history_legal)
  then show ?thesis using assms(5) by (simp add: limits_inv_def flight_ok_def)
qed

lemma example_limits: "flight_ok t example_db"
  by (simp add: flight_ok_def awaiting_def flying_tables example_db_def MAX_IN_FLIGHT_def MAX_PER_DEVICE_def)

lemma example_clock: "je_clock example_end = 2"
  by code_simp

lemma example_flying:
  "map ur_device (filter (awaiting_update 2) (jt_updates (je_db example_end))) = [lit ''a'']"
  by code_simp

theorem dispatch_limits_witness:
  "map ur_device (filter (awaiting_update 2) (jt_updates (je_db example_end))) = [lit ''a'']
   \<and> int (size (awaiting 2 (je_db example_end))) \<le> MAX_IN_FLIGHT
   \<and> int (count (awaiting 2 (je_db example_end)) (lit ''a'')) \<le> MAX_PER_DEVICE"
  using dispatch_limits [OF example_db_wf example_limits example_history, of example_end "snd (run (engine_step (\<lambda>x. x))
      (engine_start example_db 0) example_events)" 2] example_clock example_flying
  by (simp add: example_end_def)

end
