(* ===== verification/Job_Results.thy ===== *)
theory Job_Results
  imports Job_Runs
begin

text \<open>
  What the counts of a job say of its devices, and when a job is finished. The counts come from grouped rows of a join
  with four tables; a device is counted once because it has at most one run.
\<close>

lemma count_list_results:
  "count_list (map f (filter P xs)) y = length (filter (\<lambda>x. P x \<and> f x = y) xs)"
  by (induction xs) auto

lemma counts_results:
  assumes "jobs_wf db" "distinct ids" "j \<in> set ids"
  shows "job_counts_of db ids now j = tally (map (device_result now db) (filter (\<lambda>d. jd_job d = j) (jt_devices db)))"
  by (rule counts_of_devices [OF assms(2,3)]) (rule wf_at_most_one_part [OF assms(1)])

text \<open>C17: the counts of a job are exact: for each outcome the number of its devices whose own outcome that is, and in
  total the number of its devices, whatever jobs are counted with it.
\<close>

theorem job_counts_exact:
  assumes "jobs_wf db" "distinct ids" "j \<in> set ids"
  shows "slot x (job_counts_of db ids now j)
      = int (length (filter (\<lambda>d. jd_job d = j \<and> device_result now db d = x) (jt_devices db)))
    \<and> ct_total (job_counts_of db ids now j) = int (length (filter (\<lambda>d. jd_job d = j) (jt_devices db)))"
  by (simp add: counts_results [OF assms] slot_tally count_list_results)

theorem job_counts_exact_witness:
  "slot Outcome_Running (job_counts_of (je_db example_end) [lit ''j''] 2 (lit ''j''))
      = int (length (filter (\<lambda>d. jd_job d = lit ''j'' \<and> device_result 2 (je_db example_end) d = Outcome_Running)
          (jt_devices (je_db example_end))))
   \<and> ct_total (job_counts_of (je_db example_end) [lit ''j''] 2 (lit ''j''))
      = int (length (filter (\<lambda>d. jd_job d = lit ''j'') (jt_devices (je_db example_end))))"
  by (rule job_counts_exact [OF example_end_wf]) simp_all

lemma in_unfinished: "j \<in> set (unfinished db) \<longleftrightarrow> (\<exists>job \<in> set (jt_jobs db). jb_id job = j \<and> jb_finished_at job = None)"
  by (auto simp: unfinished_def)

text \<open>C18: a job is finished by the report of a pass exactly when it was not finished before and none of its devices is
  queued, waiting or running any more, and jobs that were finished stay so.
\<close>

theorem job_finished_exactly:
  assumes "jobs_wf db"
  shows "j \<in> finished_jobs (finish_jobs now db) \<longleftrightarrow>
    j \<in> finished_jobs db
    \<or> j \<in> set (unfinished db) \<and> list_all (\<lambda>d. jd_job d = j \<longrightarrow> \<not> outcome_active (device_result now db d)) (jt_devices db)"
proof -
  have dist: "distinct (unfinished db)"
    using assms by (auto simp: unfinished_def jobs_wf_def ids_distinct_def distinct_map_filter)
  have active: "counts_active (job_counts_of db (unfinished db) now k) = 0 \<longleftrightarrow>
      list_all (\<lambda>d. jd_job d = k \<longrightarrow> \<not> outcome_active (device_result now db d)) (jt_devices db)"
    if "k \<in> set (unfinished db)" for k
    by (auto simp: counts_results [OF assms dist that] counts_active_iff list_all_iff)
  define f where "f = (\<lambda>job :: job_row. if jb_finished_at job = None \<and> counts_active (job_counts_of db (unfinished db) now (jb_id job)) = 0
      then job\<lparr>jb_finished_at := Some now\<rparr> else job)"
  have f: "jb_id (f job) = jb_id job" "jb_finished_at (f job) = None \<longleftrightarrow>
      jb_finished_at job = None \<and> counts_active (job_counts_of db (unfinished db) now (jb_id job)) \<noteq> 0" for job
    by (auto simp: f_def)
  have "jt_jobs (finish_jobs now db) = map f (jt_jobs db)" by (simp add: finish_jobs_def f_def)
  then have "finished_jobs (finish_jobs now db) = (\<lambda>job. jb_id (f job)) ` {job \<in> set (jt_jobs db). \<not> jb_finished_at (f job) = None}"
    unfolding finished_jobs_def by auto
  then have "j \<in> finished_jobs (finish_jobs now db) \<longleftrightarrow>
      (\<exists>job \<in> set (jt_jobs db). jb_id job = j
        \<and> (jb_finished_at job \<noteq> None \<or> counts_active (job_counts_of db (unfinished db) now j) = 0))"
    unfolding f by auto
  also have "\<dots> \<longleftrightarrow> j \<in> finished_jobs db \<or> j \<in> set (unfinished db) \<and> counts_active (job_counts_of db (unfinished db) now j) = 0"
    unfolding finished_jobs_def in_unfinished by blast
  finally show ?thesis using active by auto
qed

theorem job_finished_exactly_witness:
  "lit ''j'' \<in> set (unfinished (je_db example_end))
   \<and> (lit ''j'' \<in> finished_jobs (finish_jobs 2 (je_db example_end)) \<longleftrightarrow>
        list_all (\<lambda>d. jd_job d = lit ''j'' \<longrightarrow> \<not> outcome_active (device_result 2 (je_db example_end) d))
          (jt_devices (je_db example_end)))"
proof -
  have "lit ''j'' \<in> set (unfinished (je_db example_end))" by code_simp
  moreover have "lit ''j'' \<notin> finished_jobs (je_db example_end)" by code_simp
  ultimately show ?thesis using job_finished_exactly [OF example_end_wf, of "lit ''j''" 2] by blast
qed

end
