(* ===== verification/Spec2Isabelle.thy ===== *)
theory Spec2Isabelle
  imports Ids Video Control Session_State Clipboard Sender Update_Policy File_Worker Auth_Limits Scim_Patch Helper_Writer Schedule Wake Recorder Presence Terminal_Session Terminals Session_Actor Alert_Engine Client_Ip Access_Tokens Job_Limits Job_Results
begin

text \<open>
  MeshRMM: remote monitoring and management of devices.

  \<^bold>\<open>The program.\<close> An Agent runs on every managed device (\<open>agent/\<close>), a server keeps the devices, users and
  policies (\<open>server/\<close>), and a viewer shows and controls a device's screen (\<open>remote/\<close>). An Agent holds one
  control connection to the server; when a technician opens a session, Agent and viewer talk to each other
  over channels for control, video, clipboard and files. On the device itself the Agent service drives
  desktop helpers through pipes. The website follows the server through an event socket.

  \<^bold>\<open>Conventions.\<close> Fixed-width integers are words (\<open>u8\<close> to \<open>u64\<close>), \<open>usize\<close> and instants are natural numbers
  (durations and instants in nanoseconds), fallible code returns a sum (\<open>Inl\<close> the error, \<open>Inr\<close> the value) and a
  panic is \<open>None\<close>. Strings are lists of Unicode scalar values. A component with state is a record, its operations
  functions on it; where threads or tasks interleave, each locked section is one step and a run is any
  sequence of steps.

  \<^bold>\<open>Shared theories.\<close>
    \<^item> \<open>Prelude\<close>: words, results, big-endian integers, chunks, and the interfaces \<open>codec\<close>, \<open>step_system\<close> and
      \<open>simulation\<close> with what follows from them once and for all.
    \<^item> \<open>Rust_Strings\<close>, \<open>Utf8\<close>: the operations of Rust's standard library on strings that the code uses.
    \<^item> \<open>Byte_Pipe\<close>: readers and writers on a byte pipe and the interface \<open>framing\<close>. A framed pipe is a queue of
      messages (a sublocale of \<open>simulation\<close>).

  \<^bold>\<open>Session protocol\<close> (\<open>agent/protocol\<close>, \<open>crates/protocol-types\<close>).
    \<^item> \<open>Ids\<close> (\<open>ids.rs\<close>, \<open>platform.rs\<close>): identifiers and platform names.
    \<^item> \<open>Video\<close> (\<open>video.rs\<close>): packet codec, \<open>fragment_frame\<close> and \<open>FrameReassembler\<close> with every branch of \<open>push\<close>.
      Packets round trip and decoding is total; the packets of a frame in any order rebuild it; the
      reassembler stays within its limits and completes frames in order.
    \<^item> \<open>Control\<close> (\<open>control.rs\<close>, \<open>input.rs\<close>, \<open>annotation.rs\<close>, \<open>files.rs\<close>): the messages and their size checks.
    \<^item> \<open>Session_State\<close> (\<open>session.rs\<close>): the state machine of a session; streaming needs the whole setup.
    \<^item> \<open>Clipboard\<close> (\<open>clipboard.rs\<close>): \<open>ClipboardTransfer\<close> and \<open>ClipboardReceiver\<close>; what one side sends the other
      receives.
    \<^item> \<open>Wake\<close> (\<open>wake.rs\<close>, \<open>server/src/wake/relays.rs\<close>): hardware addresses, magic packets and the choice of relays,
      which reach the device to wake.

  \<^bold>\<open>Agent.\<close>
    \<^item> \<open>Sender\<close> (\<open>remote/video.rs\<close>, \<open>remote/bitrate.rs\<close>): the frame slot, the adaptive bitrate, the restart ladder and
      the pacer, which conforms to its rate over every window.
    \<^item> \<open>Update_Policy\<close> (\<open>update_policy.rs\<close>): update checks and retries; checks are not starved.
    \<^item> \<open>Helper_Wire\<close>, \<open>Helper_Protocol\<close>, \<open>Helper_Writer\<close> (\<open>remote/capture_helper.rs\<close>, \<open>wire.rs\<close>, \<open>connection_approval.rs\<close>):
      every command, event and thumbnail of the helper pipes, written and read. Three interpretations of
      \<open>framing\<close> give that each pipe is a queue; the writer thread's queue and its budget are a step system on top,
      and the helper reads exactly the accepted commands. A refused event, though, leaves a truncated
      message behind (\<open>refused_event_leaves\<close>).

  \<^bold>\<open>File transfer\<close> (\<open>crates/file-transfer\<close>): \<open>File_Rules\<close> (\<open>lib.rs\<close>: paths, names, limits), \<open>File_Receive\<close>
  (\<open>receive.rs\<close>, \<open>sweep.rs\<close>), \<open>File_Send\<close> (\<open>send.rs\<close>) and \<open>File_Worker\<close> (\<open>worker.rs\<close>). Accepted paths stay inside the
  destination, a file is ended only with the announced length and digest, publishing never replaces a file,
  sender and receiver compose to a copy, and the worker asks before a viewer's files are touched.

  \<^bold>\<open>Viewer recording\<close> (\<open>remote/src/h264.rs\<close>, \<open>matroska.rs\<close>, \<open>recording.rs\<close>).
    \<^item> \<open>Annex_B\<close>: NAL units of a byte stream; the conversion to length prefixes keeps them.
    \<^item> \<open>Parameter_Sets\<close>: the bit reader, Exp-Golomb numbers and \<open>codec_private\<close>, which never panics and reads what
      the standard's writer writes.
    \<^item> \<open>Matroska\<close>: elements, the file header, clusters, and a reader written from the Matroska format that
      serves as reference; clusters are a \<open>framing\<close>.
    \<^item> \<open>Recording\<close>: the writer thread; whatever the disk does, each file plays back as a part of the stream.
    \<^item> \<open>Recorder\<close>: \<open>Recorder\<close> under every interleaving of the video callback, the user interface and the writers.

  \<^bold>\<open>Server.\<close>
    \<^item> \<open>Auth_Limits\<close> (\<open>auth/limits.rs\<close>): rate limiter, sign-in challenges and the setup token.
    \<^item> \<open>Scim_Filter\<close>, \<open>Scim_Patch\<close> (\<open>scim/filter.rs\<close>, \<open>scim/patch.rs\<close>): the filter language, with a printer as its
      reference, and patches of resources.
    \<^item> \<open>Schedule\<close> (\<open>automation/schedule.rs\<close>): when a policy fires.
    \<^item> \<open>Hub\<close> (\<open>realtime/hub.rs\<close>): the Agents' connections; a device's newest connection is the one that gets its
      messages.
    \<^item> \<open>Presence\<close> (\<open>realtime/presence.rs\<close>, \<open>api/events.rs\<close>): what the website is told of devices, companies and
      tags. The three kinds are interpretations of one interface; a socket converges on the server's state
      and a snapshot never shows a device with an unknown company or tag.
    \<^item> \<open>Session_Policy\<close> (\<open>signaling.rs\<close>, \<open>maintenance.rs\<close>, \<open>remote/src/idle_disconnect.rs\<close>): policies a technician may
      override, the idle disconnect, and the messages a device shows, which stay plain and bounded.
    \<^item> \<open>Session_Actor\<close> (\<open>realtime/sessions.rs\<close>, \<open>sessions/actor.rs\<close>): the actor of a remote session. Signaling passes only
      between the current viewer and the current Agent, tokens are retired when a session is resumed, and
      the deadline moves for the viewer alone.
    \<^item> \<open>Client_Ip\<close> (\<open>http/client_ip.rs\<close>): the client's address behind trusted proxies, which a client cannot forge.

  \<^bold>\<open>Access control\<close> (\<open>server/src\<close>).
    \<^item> \<open>Roles\<close> (\<open>rbac.rs\<close>): permissions and the roles that carry them.
    \<^item> \<open>Accounts\<close> (\<open>users.rs\<close>, \<open>auth/session.rs\<close>, \<open>api_tokens.rs\<close>): the tables of accounts, and who a request acts for.
    \<^item> \<open>Access_Api\<close> (\<open>api/roles.rs\<close>, \<open>users.rs\<close>, \<open>invitations.rs\<close>, \<open>password_resets.rs\<close>, \<open>api_tokens.rs\<close>, \<open>scim.rs\<close>,
      \<open>sso.rs\<close>): every route that changes who may do what.
    \<^item> \<open>Identity_Provider\<close> (\<open>scim/users.rs\<close>, \<open>scim/groups.rs\<close>, \<open>api/sso.rs\<close>): what the identity provider changes. It
      reads and patches resources with \<open>Scim_Filter\<close> and \<open>Scim_Patch\<close>.
    \<^item> \<open>Access\<close>, \<open>Access_Tokens\<close>: the server as a step system over all of these, twice an interpretation of
      \<open>step_system\<close>. Nobody gains a permission through people who do not have it, an enabled administrator
      remains as long as the provider does not change its groups, managing users is no way into a more
      powerful account, and a leaked API token makes no credentials. Deleting a group, though, can remove the
      last administrator (\<open>scim_group_removes_last_administrator\<close>).

  \<^bold>\<open>Automation jobs\<close> (\<open>server/src/automation\<close>, with the runs in \<open>toolbox.rs\<close>, \<open>updates/runs.rs\<close> and \<open>wake/mod.rs\<close>).
    \<^item> \<open>Jobs\<close> (\<open>jobs.rs\<close>): what a job sends, the tables, creating and cancelling a job, and the counts of its outcomes.
    \<^item> \<open>Dispatch\<close> (\<open>dispatch.rs\<close>, \<open>mod.rs\<close>): each statement or transaction of a pass, and the reports that end runs.
    \<^item> \<open>Job_Engine\<close>: the engine as a step system, where a pass may be interrupted anywhere by requests, reports,
      sweeps and restarts. What it assumes is \<open>engine_legal\<close>: the clock of the passes does not go back, and while a
      command is being handed over nobody reports its run and that takes no longer than a report's grace.
    \<^item> \<open>Job_Counts\<close>, \<open>Job_Results\<close>: the counts are exact and a job is finished exactly when nothing of it is left to do.
    \<^item> \<open>Job_Safety\<close>, \<open>Job_Runs\<close>, \<open>Job_Limits\<close>: a device has at most one run of a job and gets its command at most once,
      and the limits on what awaits a report hold at any time. The log of the commands taken and the time of the
      last pass are kept in the state for these statements only.

  \<^bold>\<open>Alerts\<close> (\<open>server/src/alerts\<close>, \<open>server/src/targets.rs\<close>).
    \<^item> \<open>Floats\<close>: \<open>f64\<close> with exact rounding, as far as rules and readings need it.
    \<^item> \<open>Targets\<close>: which devices something covers, from requests and from stored rows.
    \<^item> \<open>Alert_Rules\<close> (\<open>rules.rs\<close>): rules, their checks and their tables; a checked rule reads back as it was sent.
    \<^item> \<open>Alert_Tracker\<close> (\<open>evaluate.rs\<close>): what the engine remembers, equal to a reference over the whole history, and
      the verdict of every condition.
    \<^item> \<open>Alert_Engine\<close> (\<open>mod.rs\<close>, \<open>store.rs\<close>): the table of alerts and an evaluation, which makes the unresolved alerts
      what the rules say and then settles.

  \<^bold>\<open>Remote terminals.\<close> \<open>Terminal_Agent\<close> (\<open>crates/protocol-types/src/terminal.rs\<close>, \<open>agent/src/remote/terminal.rs\<close>,
  \<open>terminal/relay.rs\<close>) is the relay between a socket and a shell, \<open>Terminal_Server\<close> (\<open>server/src/terminals/relay.rs\<close>) the
  two directions on the server, and \<open>Terminal_Session\<close> their composition with an arbitrary browser: flow control
  holds and both directions deliver in order. \<open>Terminals\<close> (\<open>server/src/terminals/mod.rs\<close>) is the registry that
  limits terminals and hands each socket to the terminal it belongs to.

  \<^bold>\<open>Bounds and fuel.\<close> The filter parser recurses with fuel equal to the number of tokens, which is proved to be
  enough, and nests at most 32 levels, as in the code. Encoded frames are assumed below \<open>2 ^ 40\<close> bytes where an
  EBML size matters; the code's own limit is the panic at \<open>2 ^ 56 - 1\<close>. All other loops are total.

  \<^bold>\<open>Parameters.\<close> Code outside the repository is an argument: the serialisation of structured messages
  (postcard, JSON, of terminals the record \<open>terminal_lib\<close>, of signaling a parser), SHA-256 and token hashes, the time-zone database, UUIDs and
  the networks of trusted proxies, how a time is printed, Unicode lowercase and number parsing,
  the results of database reads and of disk operations, whether a socket or the Agents' hub takes a message,
  fresh tokens, and the clock.

  \<^bold>\<open>Not modelled.\<close> HTTP handlers, SQL and the actors around them (their behaviour is that of axum and sqlx),
  except where they decide access: there a handler is a function from tables to tables, in one transaction;
  WebRTC transport; screen capture, encoding and input; native windows; audio; inventory and
  package managers; installers. Of the event socket the alert, job, update and metrics messages and the
  access checks are left out; of recordings the names of the files; of terminals the shells themselves and the
  audit log; of alerts lost runs, notifications and the lists the website shows; of jobs the names of
  targets, audit records, notifications and the lists the website shows; of session actors the map that finds them, their rows and the TURN relays.

  \<^bold>\<open>Plan.\<close> The viewer's reconnection (\<open>reconnect.rs\<close>), the clean-up after a session
  (\<open>session_close.rs\<close>), the registry of desktop helpers (\<open>helper/coordinator.rs\<close>), and the policies that start
  jobs (\<open>automation/policies.rs\<close>).
\<close>

end
